(* ===== verification/Mast_Prelude.thy ===== *)
theory Mast_Prelude
  imports Main "HOL-Library.AList" "HOL-Library.Char_ord" "HOL-Library.List_Lexorder"
    "HOL-Library.Multiset"
begin

text \<open>
  What every component of the development shares: the reading of Go's machine integers,
  times, maps and slices, the lemma collections the component proofs draw on, and the
  generic lemmas about them.

  \<^item> A Go \<^verbatim>\<open>int\<close> or \<^verbatim>\<open>int64\<close> is an \<open>int\<close> whose additions pass through \<open>wrap64\<close>, so the
    two's complement wrap-around is written where the code adds.
  \<^item> A \<^verbatim>\<open>time.Time\<close> is the number of nanoseconds since the zero time, so \<^verbatim>\<open>IsZero\<close> is
    \<open>t = 0\<close>; a \<^verbatim>\<open>time.Duration\<close> is a number of nanoseconds.
  \<^item> A Go \<^verbatim>\<open>map\<close> is an association list read by \<open>map_of\<close> and changed by \<open>AList.update\<close>
    and \<open>AList.delete\<close>; where the code ranges over a map, the order of the list is the
    order the runtime happened to choose.
  \<^item> A Go \<^verbatim>\<open>string\<close> is a list of bytes, and \<^verbatim>\<open>sort.Strings\<close> is \<open>sort\<close> under the
    lexicographic order of \<^verbatim>\<open>List_Lexorder\<close> and \<^verbatim>\<open>Char_ord\<close>.
\<close>

type_synonym gotime = int
type_synonym duration = int
type_synonym ('k, 'v) gomap = "('k \<times> 'v) list"

named_theorems int_simps \<open>bounds and wrap-around of Go integers\<close>
named_theorems map_simps \<open>reading a Go map after a write\<close>
named_theorems slice_simps \<open>lengths and suffixes of re-sliced Go slices\<close>

section \<open>Machine integers\<close>

definition wrap64 :: "int \<Rightarrow> int" where
  "wrap64 x = (x + 2 ^ 63) mod 2 ^ 64 - 2 ^ 63"

definition int64 :: "int \<Rightarrow> bool" where
  "int64 x \<longleftrightarrow> - (2 ^ 63) \<le> x \<and> x < 2 ^ 63"

definition int32 :: "int \<Rightarrow> bool" where
  "int32 x \<longleftrightarrow> - (2 ^ 31) \<le> x \<and> x < 2 ^ 31"

text \<open>\<^verbatim>\<open>Time.Sub\<close> saturates.\<close>

definition time_Sub :: "gotime \<Rightarrow> gotime \<Rightarrow> duration" where
  "time_Sub a b = max (- (2 ^ 63)) (min (2 ^ 63 - 1) (a - b))"

lemma time_Sub_small: "\<bar>a - b\<bar> < 2 ^ 62 \<Longrightarrow> time_Sub a b = a - b"
  by (auto simp: time_Sub_def)

lemma wrap64_id [int_simps]: "int64 x \<Longrightarrow> wrap64 x = x"
  by (simp add: wrap64_def int64_def)

lemma wrap64_range [int_simps, simp]: "int64 (wrap64 x)"
  by (simp add: wrap64_def int64_def)

lemma int64_0 [simp]: "int64 0"
  by (simp add: int64_def)

lemma wrap64_small [simp]: "0 \<le> x \<Longrightarrow> x < 2 ^ 62 \<Longrightarrow> wrap64 x = x"
  by (rule wrap64_id) (simp add: int64_def)

lemma int32_int64: "int32 x \<Longrightarrow> int64 x"
  by (simp add: int32_def int64_def)

lemma wrap64_wrap64_add [int_simps, simp]: "wrap64 (wrap64 a + b) = wrap64 (a + b)"
proof -
  have "(wrap64 a + b + 2 ^ 63) mod 2 ^ 64 = ((a + 2 ^ 63) mod 2 ^ 64 + b) mod 2 ^ 64"
    by (simp add: wrap64_def)
  also have "\<dots> = (a + b + 2 ^ 63) mod 2 ^ 64"
    by (simp only: mod_add_left_eq) (simp add: ac_simps)
  finally show ?thesis by (simp add: wrap64_def)
qed

lemma wrap64_add_wrap64 [int_simps, simp]: "wrap64 (a + wrap64 b) = wrap64 (a + b)"
  using wrap64_wrap64_add [of b a] by (simp add: add.commute)

lemma wrap64_wrap64 [int_simps, simp]: "wrap64 (wrap64 x) = wrap64 x"
  by (rule wrap64_id) simp

section \<open>Maps\<close>

lemma map_of_update [map_simps, simp]:
  "map_of (AList.update k v m) j = (if j = k then Some v else map_of m j)"
  by (simp add: update_conv')

lemma map_of_delete [map_simps, simp]:
  "map_of (AList.delete k m) j = (if j = k then None else map_of m j)"
  by (simp add: delete_conv')

lemma keys_update [map_simps]: "fst ` set (AList.update k v m) = insert k (fst ` set m)"
  by (simp add: dom_update)

lemma map_of_isSome: "(\<exists>v. map_of m k = Some v) \<longleftrightarrow> k \<in> fst ` set m"
  by (metis map_of_eq_None_iff not_None_eq)

lemma map_of_value: "map_of m k = Some v \<Longrightarrow> v \<in> snd ` set m"
  by (auto dest!: map_of_SomeD intro: rev_image_eqI)

lemma map_fst_update [map_simps, simp]:
  "map_of m k = Some x \<Longrightarrow> map fst (AList.update k v m) = map fst m"
  by (induction m) (auto split: if_splits)

text \<open>A predicate of every element of a map, and how writes keep it.\<close>

definition map_all :: "('v \<Rightarrow> bool) \<Rightarrow> ('k, 'v) gomap \<Rightarrow> bool" where
  "map_all P m \<longleftrightarrow> list_all (\<lambda>(_, v). P v) m"

lemma map_all_Nil [simp]: "map_all P []"
  by (simp add: map_all_def)

lemma map_all_update [map_simps, simp]: "P v \<Longrightarrow> map_all P m \<Longrightarrow> map_all P (AList.update k v m)"
  unfolding map_all_def by (induction m) auto

lemma map_all_delete [map_simps, simp]: "map_all P m \<Longrightarrow> map_all P (AList.delete k m)"
  unfolding map_all_def by (induction m) auto

lemma map_all_lookup: "map_all P m \<Longrightarrow> map_of m k = Some v \<Longrightarrow> P v"
  unfolding map_all_def by (induction m) (auto split: if_splits)

text \<open>\<^verbatim>\<open>m[k]\<close> in Go on a missing key is the zero value of the element type.\<close>

definition mget :: "'v \<Rightarrow> ('k, 'v) gomap \<Rightarrow> 'k \<Rightarrow> 'v" where
  "mget z m k = (case map_of m k of None \<Rightarrow> z | Some v \<Rightarrow> v)"

lemma mget_update [map_simps, simp]:
  "mget z (AList.update k v m) j = (if j = k then v else mget z m j)"
  by (simp add: mget_def)

lemma mget_delete [map_simps, simp]:
  "mget z (AList.delete k m) j = (if j = k then z else mget z m j)"
  by (simp add: mget_def)

lemma mget_Nil [simp]: "mget z [] k = z"
  by (simp add: mget_def)

section \<open>Slices\<close>

text \<open>\<^verbatim>\<open>s[len(s)-n:]\<close>: the last \<open>n\<close> entries, all of them where there are fewer.\<close>

definition keep_last :: "nat \<Rightarrow> 'a list \<Rightarrow> 'a list" where
  "keep_last n xs = drop (length xs - n) xs"

lemma length_keep_last [slice_simps, simp]: "length (keep_last n xs) = min n (length xs)"
  by (simp add: keep_last_def)

lemma keep_last_all [slice_simps, simp]: "length xs \<le> n \<Longrightarrow> keep_last n xs = xs"
  by (simp add: keep_last_def)

lemma set_keep_last: "set (keep_last n xs) \<subseteq> set xs"
  by (simp add: keep_last_def set_drop_subset)

lemma keep_last_append [slice_simps]:
  "keep_last n (keep_last n xs @ ys) = keep_last n (xs @ ys)"
proof (cases "length xs \<le> n")
  case False
  then have "keep_last n xs = drop (length xs - n) xs" by (simp add: keep_last_def)
  with False show ?thesis
    by (simp add: keep_last_def drop_append) (simp add: drop_drop add.commute)
qed simp

text \<open>The first occurrence of each entry, in order: what a loop with a \<^verbatim>\<open>seen\<close> map keeps.\<close>

fun dedup_from :: "'a list \<Rightarrow> 'a list \<Rightarrow> 'a list" where
  "dedup_from seen [] = []"
| "dedup_from seen (x # xs) =
     (if x \<in> set seen then dedup_from seen xs else x # dedup_from (x # seen) xs)"

lemma set_dedup_from [simp]: "set (dedup_from seen xs) = set xs - set seen"
  by (induction xs arbitrary: seen) auto

lemma distinct_dedup_from [simp]: "distinct (dedup_from seen xs)"
  by (induction xs arbitrary: seen) auto

lemma dedup_from_cong: "set a = set b \<Longrightarrow> dedup_from a xs = dedup_from b xs"
proof (induction xs arbitrary: a b)
  case (Cons x xs)
  have "dedup_from (x # a) xs = dedup_from (x # b) xs"
    using Cons.prems by (intro Cons.IH) simp
  with Cons.IH [OF Cons.prems] Cons.prems show ?case by simp
qed simp

lemma dedup_from_append:
  "dedup_from seen (xs @ ys) = dedup_from seen xs @ dedup_from (xs @ seen) ys"
proof (induction xs arbitrary: seen)
  case (Cons x xs)
  have "dedup_from (xs @ seen) ys = dedup_from (x # xs @ seen) ys" if "x \<in> set seen"
    using that by (intro dedup_from_cong) auto
  moreover have "dedup_from (xs @ x # seen) ys = dedup_from (x # xs @ seen) ys"
    by (intro dedup_from_cong) auto
  ultimately show ?case using Cons.IH by simp
qed simp

text \<open>Summing by groups is summing, whatever the order of the groups.\<close>

lemma sum_groups:
  fixes f :: "'a \<Rightarrow> int"
  assumes "distinct gs" "key ` set xs \<subseteq> set gs"
  shows "sum_list (map (\<lambda>g. sum_list (map f (filter (\<lambda>x. key x = g) xs))) gs) = sum_list (map f xs)"
  using assms(2)
proof (induction xs)
  case (Cons x xs)
  have "(\<Sum>g \<leftarrow> gs. sum_list (map f (filter (\<lambda>y. key y = g) (x # xs)))) =
      (\<Sum>g \<leftarrow> gs. (if key x = g then f x else 0) + sum_list (map f (filter (\<lambda>y. key y = g) xs)))"
    by (intro arg_cong [where f = sum_list] map_cong) auto
  also have "\<dots> = (\<Sum>g \<leftarrow> gs. if key x = g then f x else 0) + sum_list (map f xs)"
    using Cons by (simp add: sum_list_addf)
  also have "(\<Sum>g \<leftarrow> gs. if key x = g then f x else 0) = f x"
    using Cons.prems assms(1) by (simp add: sum_list_distinct_conv_sum_set)
  finally show ?case by simp
qed simp

lemma int_length_sum: "int (length xs) = sum_list (map (\<lambda>_. 1) xs)"
  by (induction xs) auto

lemma int_filter_sum: "int (length (filter P xs)) = sum_list (map (\<lambda>x. if P x then 1 else 0) xs)"
  by (induction xs) auto

section \<open>Latches\<close>

text \<open>
  A flag set by some records of a log and cleared by others: it is up after reading the log
  exactly when a setting record has no clearing one after it.
\<close>

lemma foldl_latch:
  assumes sets: "\<And>s r. T r \<Longrightarrow> P (f s r)" and clears: "\<And>s r. C r \<Longrightarrow> \<not> P (f s r)"
    and keeps: "\<And>s r. \<not> T r \<Longrightarrow> \<not> C r \<Longrightarrow> P (f s r) \<longleftrightarrow> P s" and start: "\<not> P s0"
  shows "P (foldl f s0 rs) \<longleftrightarrow> (\<exists>xs r ys. rs = xs @ r # ys \<and> T r \<and> (\<forall>y \<in> set ys. \<not> C y))"
proof (induction rs rule: rev_induct)
  case (snoc r rs)
  consider (set) "T r" | (clear) "C r" | (other) "\<not> T r" "\<not> C r" by blast
  then show ?case
  proof cases
    case set
    then have "\<exists>xs r' ys. rs @ [r] = xs @ r' # ys \<and> T r' \<and> (\<forall>y \<in> set ys. \<not> C y)" by fastforce
    with set sets show ?thesis by simp
  next
    case clear
    then have "\<not> T r" using sets clears by blast
    then have "\<not> (\<exists>xs r' ys. rs @ [r] = xs @ r' # ys \<and> T r' \<and> (\<forall>y \<in> set ys. \<not> C y))"
      using clear by (auto simp: append_eq_append_conv2 append_eq_Cons_conv Cons_eq_append_conv)
    with clear clears show ?thesis by simp
  next
    case other
    have "(\<exists>xs r' ys. rs @ [r] = xs @ r' # ys \<and> T r' \<and> (\<forall>y \<in> set ys. \<not> C y)) \<longleftrightarrow>
        (\<exists>xs r' ys. rs = xs @ r' # ys \<and> T r' \<and> (\<forall>y \<in> set ys. \<not> C y))" (is "?L \<longleftrightarrow> ?R")
    proof
      assume ?L
      then obtain xs r' ys where eq: "rs @ [r] = xs @ r' # ys" and T: "T r'" "\<forall>y \<in> set ys. \<not> C y" by blast
      from T(1) other(1) eq have "ys \<noteq> []" by auto
      then obtain zs where "ys = zs @ [r]" using eq by (metis append_butlast_last_id last_ConsR last_appendR last_snoc list.discI)
      with eq T show ?R by auto
    next
      assume ?R
      then obtain xs r' ys where "rs = xs @ r' # ys" "T r'" "\<forall>y \<in> set ys. \<not> C y" by blast
      then have "rs @ [r] = xs @ r' # (ys @ [r]) \<and> T r' \<and> (\<forall>y \<in> set (ys @ [r]). \<not> C y)" using other by auto
      then show ?L by blast
    qed
    with snoc other keeps show ?thesis by simp
  qed
qed (simp add: start)

text \<open>
  A register written by some records of a log: after the log it holds what the last writing
  record wrote. \<open>w x = None\<close> is a record that does not write.
\<close>

lemma foldl_register:
  assumes step: "\<And>s x. f s x = (case w x of None \<Rightarrow> s | Some v \<Rightarrow> v)"
  shows "foldl f None xs = Some v \<longleftrightarrow>
    (\<exists>us x vs. xs = us @ x # vs \<and> w x = Some (Some v) \<and> (\<forall>y \<in> set vs. w y = None))"
proof (induction xs rule: rev_induct)
  case (snoc x xs)
  show ?case
  proof (cases "w x")
    case None
    have "(\<exists>us y vs. xs @ [x] = us @ y # vs \<and> w y = Some (Some v) \<and> (\<forall>z \<in> set vs. w z = None)) \<longleftrightarrow>
        (\<exists>us y vs. xs = us @ y # vs \<and> w y = Some (Some v) \<and> (\<forall>z \<in> set vs. w z = None))" (is "?L \<longleftrightarrow> ?R")
    proof
      assume ?L
      then obtain us y vs where y: "xs @ [x] = us @ y # vs" "w y = Some (Some v)" "\<forall>z \<in> set vs. w z = None" by blast
      with None have "vs \<noteq> []" by auto
      then obtain vs' where "vs = vs' @ [x]"
        using y(1) by (metis append_butlast_last_id last_ConsR last_appendR last_snoc list.discI)
      with y show ?R by auto
    next
      assume ?R
      then obtain us y vs where "xs = us @ y # vs" "w y = Some (Some v)" "\<forall>z \<in> set vs. w z = None" by blast
      then have "xs @ [x] = us @ y # (vs @ [x]) \<and> w y = Some (Some v) \<and> (\<forall>z \<in> set (vs @ [x]). w z = None)"
        using None by auto
      then show ?L by blast
    qed
    with snoc None show ?thesis by (simp add: step)
  next
    case (Some u)
    have "(\<exists>us y vs. xs @ [x] = us @ y # vs \<and> w y = Some (Some v) \<and> (\<forall>z \<in> set vs. w z = None)) \<longleftrightarrow> u = Some v"
      (is "?L \<longleftrightarrow> _")
    proof
      assume ?L
      then obtain us y vs where y: "xs @ [x] = us @ y # vs" "w y = Some (Some v)" "\<forall>z \<in> set vs. w z = None" by blast
      have "vs = []"
      proof (rule ccontr)
        assume "vs \<noteq> []"
        then have "x \<in> set vs" using y(1) by (metis last_ConsR last_appendR last_in_set last_snoc list.discI)
        with y(3) Some show False by simp
      qed
      with y Some show "u = Some v" by simp
    next
      assume "u = Some v"
      with Some show ?L by fastforce
    qed
    with Some show ?thesis by (simp add: step)
  qed
qed simp

end
