(* ===== verification/Go_Float.thy ===== *)
theory Go_Float
  imports Mast_Prelude Complex_Main
begin

text \<open>
  Go's \<^verbatim>\<open>float64\<close>, as far as the program uses it: sums, products and quotients of amounts
  of money and of token counts. A value is a rational number, and every operation rounds
  the exact result to 53 significant bits, to nearest with ties to even, as IEEE 754
  double precision does. The exponent is unbounded: the model has no infinities, NaNs or
  subnormal numbers, which no amount the meter handles comes near.

  The lemmas are the ones the accounting proofs need: rounding is monotone and idempotent,
  whole numbers up to \<open>2 ^ 53\<close> are exact, and adding a non-negative amount never makes a
  sum smaller.
\<close>

type_synonym float64 = rat

section \<open>Rounding\<close>

function fexp :: "rat \<Rightarrow> int" where
  "fexp x =
     (if x \<le> 0 then 0
      else if 2 \<le> x then fexp (x / 2) + 1
      else if x < 1 then fexp (x * 2) - 1
      else 0)"
  by pat_completeness auto
termination
proof (relation "measure (\<lambda>x. if 2 \<le> x then nat \<lfloor>x\<rfloor> else nat \<lceil>1 / x\<rceil>)", goal_cases)
  case (2 x)
  then have x: "2 \<le> x" by simp
  have "\<lceil>2 / x\<rceil> \<le> 1" using x by (simp add: ceiling_le_iff field_simps)
  moreover have "2 \<le> \<lfloor>x\<rfloor>" using x by (simp add: le_floor_iff)
  ultimately have "\<lceil>2 / x\<rceil> < \<lfloor>x\<rfloor>" by linarith
  moreover have "\<lfloor>x / 2\<rfloor> < \<lfloor>x\<rfloor>" if "2 \<le> x / 2"
  proof -
    have "x / 2 \<le> x - 1" using that by simp
    then have "\<lfloor>x / 2\<rfloor> \<le> \<lfloor>x - 1\<rfloor>" by (rule floor_mono)
    then show ?thesis by simp
  qed
  ultimately show ?case using x by auto
next
  case (3 x)
  then have x: "0 < x" "x < 1" by simp_all
  have "1 < \<lceil>1 / x\<rceil>" using x by (simp add: less_ceiling_iff)
  moreover have "\<lceil>1 / (x * 2)\<rceil> < \<lceil>1 / x\<rceil>"
  proof (cases "1 / x \<le> 2")
    case True
    then have "\<lceil>1 / (x * 2)\<rceil> \<le> 1" using x by (simp add: ceiling_le_iff field_simps)
    with \<open>1 < \<lceil>1 / x\<rceil>\<close> show ?thesis by linarith
  next
    case False
    then have "1 / (x * 2) \<le> 1 / x - 1" using x by (simp add: field_simps)
    then have "\<lceil>1 / (x * 2)\<rceil> \<le> \<lceil>1 / x - 1\<rceil>" by (rule ceiling_mono)
    then show ?thesis by simp
  qed
  ultimately show ?case using x by auto
qed simp

declare fexp.simps [simp del]

definition round_even :: "rat \<Rightarrow> int" where
  "round_even x =
     (let f = \<lfloor>x\<rfloor>; d = x - of_int f
      in if d < 1 / 2 then f else if 1 / 2 < d then f + 1 else if even f then f else f + 1)"

definition flp :: "rat \<Rightarrow> rat" where
  "flp x = of_int (round_even (x / 2 powi (fexp x - 52))) * 2 powi (fexp x - 52)"

definition fl :: "rat \<Rightarrow> float64" where
  "fl x = (if x = 0 then 0 else if x < 0 then - flp (- x) else flp x)"

definition fadd :: "float64 \<Rightarrow> float64 \<Rightarrow> float64" where
  "fadd a b = fl (a + b)"

definition fmul :: "float64 \<Rightarrow> float64 \<Rightarrow> float64" where
  "fmul a b = fl (a * b)"

definition fdiv :: "float64 \<Rightarrow> float64 \<Rightarrow> float64" where
  "fdiv a b = fl (a / b)"

definition is_f64 :: "rat \<Rightarrow> bool" where
  "is_f64 x \<longleftrightarrow> fl x = x"

section \<open>The exponent\<close>

lemma fexp_bounds: "0 < x \<Longrightarrow> 2 powi fexp x \<le> x \<and> x < 2 powi (fexp x + 1)"
proof (induction x rule: fexp.induct)
  case (1 x)
  consider "2 \<le> x" | "x < 1" | "1 \<le> x" "x < 2" by linarith
  then show ?case
  proof cases
    case 1
    with "1.IH"(1) "1.prems" have "2 powi fexp (x / 2) \<le> x / 2 \<and> x / 2 < 2 powi (fexp (x / 2) + 1)"
      by simp
    moreover have "fexp x = fexp (x / 2) + 1" using 1 by (subst fexp.simps) simp
    ultimately show ?thesis by (simp add: power_int_add)
  next
    case 2
    with "1.IH"(2) "1.prems" have "2 powi fexp (x * 2) \<le> x * 2 \<and> x * 2 < 2 powi (fexp (x * 2) + 1)"
      by simp
    moreover have "fexp x = fexp (x * 2) - 1" using 2 "1.prems" by (subst fexp.simps) simp
    ultimately show ?thesis by (simp add: power_int_add power_int_diff)
  next
    case 3
    then have "fexp x = 0" by (subst fexp.simps) simp
    with 3 show ?thesis by simp
  qed
qed

lemma powi2_le_iff: "(2 :: rat) powi a \<le> 2 powi b \<longleftrightarrow> a \<le> b"
  by (meson linorder_not_less one_less_numeral_iff power_int_increasing power_int_strict_increasing
      one_le_numeral semiring_norm(76))

lemma powi2_less_iff: "(2 :: rat) powi a < 2 powi b \<longleftrightarrow> a < b"
  by (meson linorder_not_less powi2_le_iff)

lemma fexp_mono:
  assumes "0 < x" "x \<le> y"
  shows "fexp x \<le> fexp y"
proof -
  have "2 powi fexp x \<le> x" using fexp_bounds assms by blast
  also have "x \<le> y" by fact
  also have "y < 2 powi (fexp y + 1)" using fexp_bounds assms by (meson less_le_trans)
  finally show ?thesis by (simp add: powi2_less_iff)
qed

lemma fexp_eqI:
  assumes "2 powi e \<le> x" "x < 2 powi (e + 1)"
  shows "fexp x = e"
proof -
  have "0 < x" using assms(1) by (meson less_le_trans zero_less_numeral zero_less_power_int)
  note b = fexp_bounds [OF this]
  from b assms(2) have "2 powi fexp x < (2 :: rat) powi (e + 1)" by linarith
  moreover from b assms(1) have "2 powi e < (2 :: rat) powi (fexp x + 1)" by linarith
  ultimately show ?thesis by (simp add: powi2_less_iff)
qed

section \<open>Rounding to an integer\<close>

lemma round_even_of_int [simp]: "round_even (of_int n) = n"
  by (simp add: round_even_def)

lemma round_even_cases: "round_even x = \<lfloor>x\<rfloor> \<or> round_even x = \<lfloor>x\<rfloor> + 1 \<and> of_int \<lfloor>x\<rfloor> < x"
  by (auto simp: round_even_def Let_def)

lemma round_even_mono:
  assumes "x \<le> y"
  shows "round_even x \<le> round_even y"
proof (cases "\<lfloor>x\<rfloor> = \<lfloor>y\<rfloor>")
  case True
  with assms show ?thesis by (auto simp: round_even_def Let_def)
next
  case False
  with floor_mono [OF assms] have "\<lfloor>x\<rfloor> + 1 \<le> \<lfloor>y\<rfloor>" by simp
  with round_even_cases [of x] round_even_cases [of y] show ?thesis by auto
qed

lemma round_even_le: "x \<le> of_int n \<Longrightarrow> round_even x \<le> n"
  using round_even_mono [of x "of_int n"] by simp

lemma round_even_ge: "of_int n \<le> x \<Longrightarrow> n \<le> round_even x"
  using round_even_mono [of "of_int n" x] by simp

section \<open>Rounding to 53 bits\<close>

lemma scaled_bounds:
  assumes "0 < x"
  shows "of_int (2 ^ 52) \<le> x / 2 powi (fexp x - 52)" "x / 2 powi (fexp x - 52) < of_int (2 ^ 53)"
  using fexp_bounds [OF assms] by (simp_all add: power_int_diff power_int_add field_simps)

lemma flp_bounds:
  assumes "0 < x"
  shows "2 powi fexp x \<le> flp x" "flp x \<le> 2 powi (fexp x + 1)"
proof -
  let ?r = "round_even (x / 2 powi (fexp x - 52))"
  have "2 ^ 52 \<le> ?r" "?r \<le> 2 ^ 53"
    using round_even_ge [OF scaled_bounds(1) [OF assms]]
      round_even_le [OF less_imp_le [OF scaled_bounds(2) [OF assms]]] by simp_all
  then have "(2 ^ 52 :: rat) \<le> of_int ?r" "of_int ?r \<le> (2 ^ 53 :: rat)"
    by (metis of_int_le_iff of_int_numeral of_int_power)+
  then have "2 ^ 52 * 2 powi (fexp x - 52) \<le> flp x" "flp x \<le> 2 ^ 53 * 2 powi (fexp x - 52)"
    by (simp_all add: flp_def)
  moreover have "(2 :: rat) ^ 52 * 2 powi (fexp x - 52) = 2 powi fexp x"
    "(2 :: rat) ^ 53 * 2 powi (fexp x - 52) = 2 powi (fexp x + 1)"
    by (simp_all add: power_int_diff power_int_add)
  ultimately show "2 powi fexp x \<le> flp x" "flp x \<le> 2 powi (fexp x + 1)" by simp_all
qed

lemma flp_mono:
  assumes "0 < x" "x \<le> y"
  shows "flp x \<le> flp y"
proof (cases "fexp x = fexp y")
  case True
  with assms show ?thesis
    by (simp add: flp_def round_even_mono divide_right_mono)
next
  case False
  with fexp_mono [OF assms] have "fexp x + 1 \<le> fexp y" by simp
  then have "(2 :: rat) powi (fexp x + 1) \<le> 2 powi fexp y" by (simp add: powi2_le_iff)
  moreover have "flp x \<le> 2 powi (fexp x + 1)" using flp_bounds assms by blast
  moreover have "2 powi fexp y \<le> flp y" using flp_bounds assms by (meson less_le_trans)
  ultimately show ?thesis by linarith
qed

lemma flp_pos: "0 < x \<Longrightarrow> 0 < flp x"
  using flp_bounds(1) by (meson less_le_trans zero_less_numeral zero_less_power_int)

lemma fl_mono:
  assumes "x \<le> y"
  shows "fl x \<le> fl y"
proof -
  consider "y < 0" | "x < 0" "0 \<le> y" | "x = 0" "0 \<le> y" | "0 < x" using assms by linarith
  then show ?thesis
  proof cases
    case 1
    with assms flp_mono [of "- y" "- x"] show ?thesis by (simp add: fl_def)
  next
    case 2
    then have "0 < flp (- x)" "y \<noteq> 0 \<Longrightarrow> 0 < flp y" by (simp_all add: flp_pos)
    with 2 show ?thesis by (simp add: fl_def) linarith
  next
    case 3
    with flp_pos [of y] show ?thesis by (simp add: fl_def less_imp_le)
  next
    case 4
    with assms flp_mono show ?thesis by (simp add: fl_def)
  qed
qed

lemma fl_0 [simp]: "fl 0 = 0"
  by (simp add: fl_def)

lemma fl_nonneg: "0 \<le> x \<Longrightarrow> 0 \<le> fl x"
  using fl_mono [of 0 x] by simp

text \<open>A number with at most 53 significant bits is its own rounding.\<close>

lemma flp_exact:
  assumes "0 < n" "n \<le> 2 ^ 53"
  shows "flp (of_int n * 2 powi k) = of_int n * 2 powi k"
proof -
  let ?x = "of_int n * 2 powi k :: rat"
  have pos: "0 < ?x" using assms by simp
  have "?x < 2 powi (k + 54)"
  proof -
    have "(of_int n :: rat) \<le> 2 ^ 53" using assms(2) by (metis of_int_le_iff of_int_numeral of_int_power)
    then have "?x \<le> 2 ^ 53 * 2 powi k" by (simp add: mult_right_mono)
    also have "\<dots> < 2 powi (k + 54)" by (simp add: power_int_add)
    finally show ?thesis .
  qed
  then have "(2 :: rat) powi fexp ?x < 2 powi (k + 54)" using fexp_bounds [OF pos] by linarith
  then have le: "fexp ?x \<le> k + 53" by (simp add: powi2_less_iff)
  show ?thesis
  proof (cases "fexp ?x = k + 53")
    case True
    then have "2 ^ 53 * 2 powi k \<le> ?x"
      using fexp_bounds [OF pos] by (simp add: power_int_add mult.commute)
    then have "(2 ^ 53 :: rat) \<le> of_int n" by simp
    then have "n = 2 ^ 53" using assms(2)
      by (metis of_int_le_iff of_int_numeral of_int_power order_antisym)
    then have "?x / 2 powi (fexp ?x - 52) = of_int (2 ^ 52)"
      using True by (simp add: power_int_diff power_int_add)
    then have "flp ?x = of_int (2 ^ 52) * 2 powi (fexp ?x - 52)"
      by (simp only: flp_def round_even_of_int)
    then show ?thesis using True \<open>n = 2 ^ 53\<close> by (simp add: power_int_diff power_int_add)
  next
    case False
    define d where "d = nat (k + 52 - fexp ?x)"
    have d: "fexp ?x - 52 = k - int d" using False le by (simp add: d_def)
    have "?x / 2 powi (fexp ?x - 52) = of_int (n * 2 ^ d)"
      by (simp add: d power_int_diff)
    then have "flp ?x = of_int (n * 2 ^ d) * 2 powi (k - int d)"
      by (simp only: flp_def round_even_of_int d)
    then show ?thesis by (simp add: power_int_diff)
  qed
qed

section \<open>The operations\<close>

lemma fl_of_int [simp]:
  assumes "\<bar>n\<bar> \<le> 2 ^ 53"
  shows "fl (of_int n) = of_int n"
  using assms flp_exact [of n 0] flp_exact [of "- n" 0] by (auto simp: fl_def)

lemma fl_numeral [simp]: "(numeral w :: int) \<le> 2 ^ 53 \<Longrightarrow> fl (numeral w) = numeral w"
  using fl_of_int [of "numeral w"] by simp

lemma fl_1 [simp]: "fl 1 = 1"
  using fl_of_int [of 1] by simp

lemma fl_fl [simp]: "fl (fl x) = fl x"
proof -
  have "flp (flp y) = flp y" if "0 < y" for y
  proof -
    let ?r = "round_even (y / 2 powi (fexp y - 52))"
    have "0 < of_int ?r * (2 :: rat) powi (fexp y - 52)"
      using flp_pos [OF that] by (simp add: flp_def)
    moreover have "0 < (2 :: rat) powi (fexp y - 52)" by simp
    ultimately have "0 < ?r" by (metis of_int_0_less_iff zero_less_mult_pos2)
    moreover have "?r \<le> 2 ^ 53"
      using round_even_le [OF less_imp_le [OF scaled_bounds(2) [OF that]]] by simp
    ultimately show ?thesis using flp_exact by (simp only: flp_def [of y])
  qed
  note idem = this
  consider "x < 0" | "x = 0" | "0 < x" by linarith
  then show ?thesis
  proof cases
    case 1
    with flp_pos [of "- x"] idem [of "- x"] show ?thesis by (simp add: fl_def)
  next
    case 3
    with flp_pos [of x] idem [of x] show ?thesis by (simp add: fl_def)
  qed simp
qed

lemma is_f64_fl [simp]: "is_f64 (fl x)"
  by (simp add: is_f64_def)

lemma is_f64_ops [simp]: "is_f64 (fadd a b)" "is_f64 (fmul a b)" "is_f64 (fdiv a b)"
  by (simp_all add: fadd_def fmul_def fdiv_def)

lemma is_f64_0 [simp]: "is_f64 0"
  by (simp add: is_f64_def)

lemma fadd_0 [simp]: "is_f64 a \<Longrightarrow> fadd 0 a = a" "is_f64 a \<Longrightarrow> fadd a 0 = a"
  by (simp_all add: fadd_def is_f64_def)

lemma fadd_ge:
  assumes "is_f64 a" "0 \<le> c"
  shows "a \<le> fadd a c"
  using fl_mono [of a "a + c"] assms by (simp add: fadd_def is_f64_def)

lemma fadd_nonneg: "0 \<le> a \<Longrightarrow> 0 \<le> b \<Longrightarrow> 0 \<le> fadd a b"
  by (simp add: fadd_def fl_nonneg)

lemma fadd_mono: "a \<le> a' \<Longrightarrow> b \<le> b' \<Longrightarrow> fadd a b \<le> fadd a' b'"
  by (simp add: fadd_def fl_mono)

lemma fmul_nonneg: "0 \<le> a \<Longrightarrow> 0 \<le> b \<Longrightarrow> 0 \<le> fmul a b"
  by (simp add: fmul_def fl_nonneg)

lemma fdiv_nonneg: "0 \<le> a \<Longrightarrow> 0 \<le> b \<Longrightarrow> 0 \<le> fdiv a b"
  by (simp add: fdiv_def fl_nonneg)

end
