(* ===== verification/Interfaces.thy ===== *)
theory Interfaces
  imports Mast_Prelude
begin

text \<open>
  The contracts the components rely on, as locales, with what follows from each contract
  proved once. Every locale is interpreted on the model's own definitions in the theory of
  the component that provides them.

  \<^item> \<open>call_cap\<close>: something that is asked before a call and told of the call afterwards, and
    that counts calls against a cap. The meter provides it for the session's ceiling and for
    a specialist's, the turn loop for its cap on model calls.
  \<^item> \<open>call_width\<close>: the same where several calls are under way at once, as in a fan-out. The
    callback in front of the model calls provides it.
  \<^item> \<open>append_log\<close>: a durable table read back by key. The spend ledger and the guardrail log
    provide it.
  \<^item> \<open>tool_signal\<close>: the \<^verbatim>\<open>Signal\<close> interface of the watchdog.
  \<^item> \<open>growing\<close>: steps that only add to an order on the state. The permission gates of a daemon
    provide it for what they share.
  \<^item> \<open>kept\<close>: steps that keep an invariant the start has. The calls of a process under one retry
    policy provide it.
\<close>

section \<open>Asked before, counted after\<close>

text \<open>
  The loop of a client: ask, run what was permitted, skip what was refused. \<open>None\<close> is a
  run that did not come back.
\<close>

primrec drive :: "('s \<Rightarrow> 'c \<Rightarrow> 's \<times> bool) \<Rightarrow> ('s \<Rightarrow> 'c \<Rightarrow> 's option) \<Rightarrow> 's \<Rightarrow> 'c list \<Rightarrow> 's option" where
  "drive ask run s [] = Some s"
| "drive ask run s (c # cs) =
     (let (s1, ok) = ask s c
      in if ok then (case run s1 c of None \<Rightarrow> None | Some s2 \<Rightarrow> drive ask run s2 cs)
         else drive ask run s1 cs)"

locale call_cap =
  fixes ask :: "'s \<Rightarrow> 'c \<Rightarrow> 's \<times> bool"
    and run :: "'s \<Rightarrow> 'c \<Rightarrow> 's option"
    and inv :: "'s \<Rightarrow> bool"
    and count :: "'s \<Rightarrow> int"
    and cap :: "'s \<Rightarrow> int"
  assumes ask_keeps: "inv s \<Longrightarrow> ask s c = (s1, ok) \<Longrightarrow> inv s1 \<and> count s1 \<le> count s \<and> cap s1 = cap s"
    and run_total: "inv s \<Longrightarrow> \<exists>s'. run s c = Some s'"
    and run_keeps: "inv s \<Longrightarrow> run s c = Some s' \<Longrightarrow> inv s' \<and> cap s' = cap s"
    and run_permitted:
      "inv s \<Longrightarrow> 0 < cap s \<Longrightarrow> count s \<le> cap s \<Longrightarrow> ask s c = (s1, True) \<Longrightarrow> run s1 c = Some s' \<Longrightarrow>
       count s' \<le> cap s'"
begin

lemma drive_capped:
  assumes "inv s" "0 < cap s" "count s \<le> cap s"
  shows "\<exists>s'. drive ask run s cs = Some s' \<and> inv s' \<and> cap s' = cap s \<and> count s' \<le> cap s"
  using assms
proof (induction cs arbitrary: s)
  case (Cons c cs)
  obtain s1 ok where a: "ask s c = (s1, ok)" by fastforce
  note k = ask_keeps [OF Cons.prems(1) a]
  show ?case
  proof (cases ok)
    case True
    obtain s2 where r: "run s1 c = Some s2" using run_total k by blast
    have "inv s2" "cap s2 = cap s" "count s2 \<le> cap s2"
      using run_keeps [OF _ r] run_permitted [OF Cons.prems, of c s1 s2] k a r True by simp_all
    with Cons.IH [of s2] Cons.prems a r True show ?thesis by auto
  next
    case False
    with Cons.IH [of s1] Cons.prems a k show ?thesis by auto
  qed
qed simp

end

section \<open>Several calls at once\<close>

text \<open>
  Clients that ask while earlier calls have not come back, at most \<open>w\<close> of them under way. A
  permitted call is under way from the answer to the moment its result is counted, and the calls
  come back in any order.
\<close>

datatype 'c flight_op = AskFor 'c | BackWith nat

fun flight_step ::
  "nat \<Rightarrow> ('s \<Rightarrow> 'c \<Rightarrow> 's \<times> bool) \<Rightarrow> ('s \<Rightarrow> 'c \<Rightarrow> 's option) \<Rightarrow> 's \<times> 'c list \<Rightarrow> 'c flight_op
   \<Rightarrow> ('s \<times> 'c list) option" where
  "flight_step w ask run (s, p) (AskFor c) =
     (if length p < w then Some (fst (ask s c), if snd (ask s c) then p @ [c] else p) else Some (s, p))"
| "flight_step w ask run (s, p) (BackWith k) =
     (if k < length p then map_option (\<lambda>s'. (s', take k p @ drop (Suc k) p)) (run s (p ! k)) else Some (s, p))"

primrec flights ::
  "nat \<Rightarrow> ('s \<Rightarrow> 'c \<Rightarrow> 's \<times> bool) \<Rightarrow> ('s \<Rightarrow> 'c \<Rightarrow> 's option) \<Rightarrow> 's \<times> 'c list \<Rightarrow> 'c flight_op list
   \<Rightarrow> ('s \<times> 'c list) option" where
  "flights w ask run sp [] = Some sp"
| "flights w ask run sp (x # xs) =
     (case flight_step w ask run sp x of None \<Rightarrow> None | Some sp' \<Rightarrow> flights w ask run sp' xs)"

definition flight_bound ::
  "('s \<Rightarrow> int) \<Rightarrow> ('s \<Rightarrow> int) \<Rightarrow> nat \<Rightarrow> int \<Rightarrow> 's \<times> 'c list \<Rightarrow> bool" where
  "flight_bound made ceiling w k sp \<longleftrightarrow>
     ceiling (fst sp) = k \<and> length (snd sp) \<le> w \<and> made (fst sp) + int (length (snd sp)) \<le> k + int w - 1"

text \<open>\<open>inv n\<close> is an invariant that holds for \<open>n\<close> more operations: a counter of fixed width does not
  wrap meanwhile.\<close>

locale call_width =
  fixes ask :: "'s \<Rightarrow> 'c \<Rightarrow> 's \<times> bool"
    and run :: "'s \<Rightarrow> 'c \<Rightarrow> 's option"
    and inv :: "nat \<Rightarrow> 's \<Rightarrow> bool"
    and count :: "'s \<Rightarrow> int"
    and cap :: "'s \<Rightarrow> int"
  assumes inv_fewer: "inv (Suc n) s \<Longrightarrow> inv n s"
    and ask_inv: "inv n s \<Longrightarrow> ask s c = (s1, ok) \<Longrightarrow> inv n s1 \<and> count s1 \<le> count s \<and> cap s1 = cap s"
    and ask_permits:
      "inv (Suc n) s \<Longrightarrow> 0 < cap s \<Longrightarrow> ask s c = (s1, True) \<Longrightarrow> count s1 < cap s \<or> count s1 < count s"
    and run_back: "inv (Suc n) s \<Longrightarrow> \<exists>s'. run s c = Some s' \<and> inv n s' \<and> cap s' = cap s \<and> count s' \<le> count s + 1"
begin

lemma flight_step_within:
  assumes "inv (Suc n) (fst sp)" "flight_bound count cap w k sp" "0 < k"
  shows "\<exists>sp'. flight_step w ask run sp x = Some sp' \<and> inv n (fst sp') \<and> flight_bound count cap w k sp'"
proof -
  obtain s p where sp: "sp = (s, p)" by fastforce
  have i: "inv (Suc n) s" "cap s = k" and b: "length p \<le> w" "count s + int (length p) \<le> k + int w - 1"
    using assms by (auto simp: flight_bound_def sp)
  show ?thesis
  proof (cases x)
    case (AskFor c)
    obtain s1 ok where a: "ask s c = (s1, ok)" by fastforce
    note k1 = ask_inv [OF inv_fewer [OF i(1)] a] and k2 = ask_permits [OF i(1), of c s1]
    show ?thesis using AskFor a k1 k2 i b assms(3) inv_fewer [OF i(1)]
      by (cases ok; cases "length p < w") (auto simp: flight_bound_def sp)
  next
    case (BackWith j)
    obtain s' where "run s (p ! j) = Some s'" "inv n s'" "cap s' = cap s" "count s' \<le> count s + 1"
      using run_back [OF i(1)] by blast
    then show ?thesis using BackWith i b inv_fewer [OF i(1)]
      by (cases "j < length p") (auto simp: flight_bound_def sp)
  qed
qed

lemma flights_within:
  assumes "inv (length xs) (fst sp)" "flight_bound count cap w k sp" "0 < k"
  shows "\<exists>sp'. flights w ask run sp xs = Some sp' \<and> inv 0 (fst sp') \<and> flight_bound count cap w k sp'"
  using assms(1,2)
proof (induction xs arbitrary: sp)
  case (Cons x xs)
  then obtain sp' where "flight_step w ask run sp x = Some sp'" "inv (length xs) (fst sp')" "flight_bound count cap w k sp'"
    using flight_step_within [of "length xs" sp w k x] assms(3) by auto
  with Cons.IH show ?case by auto
qed simp

end

section \<open>A table that is only appended to\<close>

locale append_log =
  fixes append :: "'d \<Rightarrow> 'k \<Rightarrow> 'r \<Rightarrow> 'd"
    and history :: "'d \<Rightarrow> 'k \<Rightarrow> 'r list"
    and accepts :: "'k \<Rightarrow> 'r \<Rightarrow> bool"
    and stored :: "'r \<Rightarrow> 'r"
  assumes append_accepted:
      "accepts k r \<Longrightarrow> history (append d k r) j = (if j = k then history d j @ [stored r] else history d j)"
    and append_refused: "\<not> accepts k r \<Longrightarrow> append d k r = d"
begin

lemma history_appends:
  "history (foldl (\<lambda>d (k, r). append d k r) d krs) j =
     history d j @ map (stored \<circ> snd) (filter (\<lambda>(k, r). k = j \<and> accepts k r) krs)"
proof (induction krs arbitrary: d)
  case (Cons kr krs)
  obtain k r where "kr = (k, r)" by fastforce
  with Cons.IH show ?case
    by (cases "accepts k r") (auto simp: append_accepted append_refused)
qed simp

end

section \<open>A signal of the watchdog\<close>

text \<open>Feeding a sequence of observations: the state after it and the alerts it raised, in order.\<close>

primrec feed :: "('s \<Rightarrow> 'c \<Rightarrow> 's \<times> 'a option) \<Rightarrow> 's \<Rightarrow> 'c list \<Rightarrow> 's \<times> 'a list" where
  "feed obs s [] = (s, [])"
| "feed obs s (c # cs) =
     (let (s1, a) = obs s c; (s2, as) = feed obs s1 cs
      in (s2, (case a of None \<Rightarrow> as | Some x \<Rightarrow> x # as)))"

lemma feed_Cons [simp]:
  "fst (feed obs s (c # cs)) = fst (feed obs (fst (obs s c)) cs)"
  "snd (feed obs s (c # cs)) =
     (case snd (obs s c) of None \<Rightarrow> [] | Some x \<Rightarrow> [x]) @ snd (feed obs (fst (obs s c)) cs)"
  by (auto simp: Let_def split: prod.split option.split)

lemma feed_append:
  "feed obs s (xs @ ys) =
     (let (s1, as) = feed obs s xs; (s2, bs) = feed obs s1 ys in (s2, as @ bs))"
  by (induction xs arbitrary: s) (auto simp: Let_def split: prod.split option.split)

locale tool_signal =
  fixes obs :: "'s \<Rightarrow> 'c \<Rightarrow> 's \<times> 'a option"
    and reset :: "'s \<Rightarrow> 's"
    and name :: "'s \<Rightarrow> 'n"
    and signal_of :: "'a \<Rightarrow> 'n"
  assumes reset_obs: "reset (fst (obs s c)) = reset s"
    and reset_reset: "reset (reset s) = reset s"
    and alert_name: "snd (obs s c) = Some a \<Longrightarrow> signal_of a = name s"
    and name_kept: "name (fst (obs s c)) = name s"
begin

lemma reset_feed: "reset (fst (feed obs s cs)) = reset s"
proof (induction cs arbitrary: s)
  case (Cons c cs)
  then show ?case using reset_obs [of s c] by (auto simp: Let_def split: prod.split) (metis fst_conv)
qed simp

lemma feed_names: "a \<in> set (snd (feed obs s cs)) \<Longrightarrow> signal_of a = name s"
proof (induction cs arbitrary: s)
  case (Cons c cs)
  obtain s1 b where o: "obs s c = (s1, b)" by fastforce
  then show ?case using Cons name_kept [of s c] alert_name [of s c]
    by (auto simp: Let_def split: prod.splits option.splits) (metis snd_conv)+
qed simp

text \<open>What was observed before a reset does not matter after it.\<close>

lemma reset_forgets: "feed obs (reset (fst (feed obs s cs))) ds = feed obs (reset s) ds"
  by (simp add: reset_feed)

end

section \<open>Steps that only grow\<close>

locale growing =
  fixes step :: "'s \<Rightarrow> 'o \<Rightarrow> 's"
    and le :: "'s \<Rightarrow> 's \<Rightarrow> bool"
  assumes le_refl: "le s s"
    and le_trans: "le s t \<Longrightarrow> le t u \<Longrightarrow> le s u"
    and step_grows: "le s (step s x)"
begin

lemma foldl_grows: "le s (foldl step s xs)"
  by (induction xs arbitrary: s) (auto intro: le_refl le_trans step_grows)

end

section \<open>Steps that keep an invariant\<close>

locale kept =
  fixes step :: "'s \<Rightarrow> 'o \<Rightarrow> 's"
    and start :: 's
    and inv :: "'s \<Rightarrow> bool"
  assumes inv_start: "inv start"
    and inv_step: "inv s \<Longrightarrow> inv (step s x)"
begin

lemma inv_run: "inv (foldl step start xs)"
  by (induction xs rule: rev_induct) (simp_all add: inv_start inv_step)

end

end
