(* ===== verification/Budget.thy ===== *)
theory Budget
  imports Go_Float Interfaces
begin

text \<open>
  The spend meter of \<^verbatim>\<open>src/pkg/budget\<close>: one accumulator for the session and one for each
  specialist with ceilings of its own, fed by the events of the model calls
  (\<^verbatim>\<open>Observe\<close>) and asked before a call is made (\<^verbatim>\<open>Allow\<close>).

  The mutex is the atomicity of the operations: each is one function from the meter to the
  meter. A method that answers a nil receiver takes a \<open>meter option\<close>. A nil pointer
  that Go would dereference is \<open>None\<close> of the result of \<open>fold_event\<close>, \<open>Observe\<close> and
  \<open>TripsAfter\<close>; that it never happens is part of the invariant. Error texts are the
  values they are formatted from: a \<open>reason\<close> carries the numbers of the message.
\<close>

section \<open>Data\<close>

record call =
  cUncachedInputTokens :: int
  cCachedInputTokens :: int
  cCacheWriteTokens :: int
  cCacheWrite1hTokens :: int
  cOutputTokens :: int

type_synonym pricer = "string \<Rightarrow> string \<Rightarrow> call \<Rightarrow> float64 option"

record limits =
  lMaxCostUSD :: float64
  lMaxTokens :: int
  lMaxTurns :: int
  lPricer :: "pricer option"
  lBackend :: string
  lModel :: string
  lRatePer1K :: float64

definition zero_limits :: limits where
  "zero_limits = \<lparr>lMaxCostUSD = 0, lMaxTokens = 0, lMaxTurns = 0, lPricer = None,
     lBackend = [], lModel = [], lRatePer1K = 0\<rparr>"

definition Limits_IsZero :: "limits \<Rightarrow> bool" where
  "Limits_IsZero l \<longleftrightarrow> lMaxCostUSD l = 0 \<and> lMaxTokens l = 0 \<and> lMaxTurns l = 0 \<and>
     Option.is_none (lPricer l) \<and> lBackend l = [] \<and> lModel l = [] \<and> lRatePer1K l = 0"

record buckets =
  bCacheReadTokens :: "int option"
  bCacheWriteTokens :: "int option"
  bCacheWrite1hTokens :: "int option"

record usage_metadata =
  TotalTokenCount :: int
  PromptTokenCount :: int
  CachedContentTokenCount :: int
  CandidatesTokenCount :: int
  ThoughtsTokenCount :: int
  ToolUsePromptTokenCount :: int

record event =
  evAuthor :: string
  evUsageMetadata :: "usage_metadata option"
  evModelVersion :: string
  evTimestamp :: gotime
  evDetail :: "buckets option"

record usage =
  uTokens :: int
  uCost :: float64
  uCalls :: int

definition usage0 :: usage where
  "usage0 = \<lparr>uTokens = 0, uCost = 0, uCalls = 0\<rparr>"

record spend =
  sAuthor :: string
  sTokens :: int
  sCostUSD :: float64
  sUnpriced :: bool
  sAt :: gotime
  sModel :: string
  sCall :: call
  sThoughtsTokens :: int
  sToolUseTokens :: int
  sCostUSDUncachedReference :: float64

datatype dimension = DimensionTurns | DimensionTokens | DimensionCostUSD

datatype reason =
    TurnsOver int int
  | TokensOver int int
  | CostOver float64 float64 int int
  | TurnsWould int int
  | TokensAt int int
  | CostAt float64 float64 int int

record trip =
  tScope :: string
  tDimension :: dimension
  tReason :: reason

datatype error =
    ErrExceeded "string option" reason
  | ErrRefused "string option" reason
  | ErrRestored
  | ErrNoScope string "string list"
  | ScopedError string error

record config =
  cfgLimits :: limits
  cfgScopes :: "(string, limits) gomap"
  cfgOnSpend :: bool
  cfgFinalReport :: bool

record meter =
  mLimits :: limits
  mScopes :: "(string, limits) gomap"
  mTotal :: usage
  mSpent :: "(string, usage) gomap"
  mUnpriced :: int
  mRestored :: bool
  mRefusals :: int
  mFirstRefusal :: "error option"
  mSessionRefusals :: int
  mFirstSessionRefusal :: "error option"
  mOnSpend :: bool
  mFinalReport :: bool
  mFinalReportTaken :: "(string, bool) gomap"

record totals =
  ttTokens :: int
  ttCostUSD :: float64
  ttCalls :: int

record prior =
  pSession :: totals
  pByAuthor :: "(string, totals) gomap"
  pUnpriced :: int

section \<open>Whose ceiling it was (scope.go)\<close>

fun Scope :: "error \<Rightarrow> string option" where
  "Scope (ScopedError s e) = Some s"
| "Scope e = None"

definition scopedTo :: "string \<Rightarrow> error \<Rightarrow> error" where
  "scopedTo name err = (if name = [] then err else ScopedError name err)"

section \<open>Reading the provider's counters (floor.go, budget.go)\<close>

definition floorCount :: "int \<Rightarrow> int" where
  "floorCount n = (if n < 0 then 0 else n)"

definition flooredUsage :: "usage_metadata option \<Rightarrow> usage_metadata" where
  "flooredUsage u =
     (case u of
        None \<Rightarrow> \<lparr>TotalTokenCount = 0, PromptTokenCount = 0, CachedContentTokenCount = 0,
          CandidatesTokenCount = 0, ThoughtsTokenCount = 0, ToolUsePromptTokenCount = 0\<rparr>
      | Some v \<Rightarrow> v\<lparr>TotalTokenCount := floorCount (TotalTokenCount v),
          PromptTokenCount := floorCount (PromptTokenCount v),
          CachedContentTokenCount := floorCount (CachedContentTokenCount v),
          CandidatesTokenCount := floorCount (CandidatesTokenCount v),
          ThoughtsTokenCount := floorCount (ThoughtsTokenCount v),
          ToolUsePromptTokenCount := floorCount (ToolUsePromptTokenCount v)\<rparr>)"

definition fitBucket :: "int \<Rightarrow> int \<Rightarrow> int" where
  "fitBucket n room0 =
     (let room = (if room0 < 0 then 0 else room0)
      in if n < 0 then 0 else if room < n then room else n)"

definition bucketsOf :: "event \<Rightarrow> buckets" where
  "bucketsOf ev =
     (case evDetail ev of
        None \<Rightarrow> \<lparr>bCacheReadTokens = None, bCacheWriteTokens = None, bCacheWrite1hTokens = None\<rparr>
      | Some b \<Rightarrow> b)"

definition callOf :: "event \<Rightarrow> usage_metadata \<Rightarrow> call" where
  "callOf ev u =
     (let b = bucketsOf ev;
          prompt = PromptTokenCount u;
          read0 = (case bCacheReadTokens b of None \<Rightarrow> CachedContentTokenCount u | Some r \<Rightarrow> r);
          write0 = (case bCacheWriteTokens b of None \<Rightarrow> 0 | Some w \<Rightarrow> w);
          read = fitBucket read0 prompt;
          write = fitBucket write0 (prompt - read);
          write1h = (case bCacheWrite1hTokens b of None \<Rightarrow> 0 | Some w \<Rightarrow> fitBucket w write)
      in \<lparr>cUncachedInputTokens = prompt - read - write,
          cCachedInputTokens = read,
          cCacheWriteTokens = write,
          cCacheWrite1hTokens = write1h,
          cOutputTokens = CandidatesTokenCount u + ThoughtsTokenCount u\<rparr>)"

definition uncachedReference :: "call \<Rightarrow> call" where
  "uncachedReference c =
     \<lparr>cUncachedInputTokens = cUncachedInputTokens c + cCachedInputTokens c + cCacheWriteTokens c,
      cCachedInputTokens = 0, cCacheWriteTokens = 0, cCacheWrite1hTokens = 0,
      cOutputTokens = cOutputTokens c\<rparr>"

section \<open>Pricing\<close>

fun priceFirst :: "pricer \<Rightarrow> string \<Rightarrow> call \<Rightarrow> string list \<Rightarrow> (float64 \<times> string) option" where
  "priceFirst p backend c [] = None"
| "priceFirst p backend c (i # ids) =
     (if i = [] then priceFirst p backend c ids
      else case p backend i c of
          Some usd \<Rightarrow> Some (usd, i)
        | None \<Rightarrow> priceFirst p backend c ids)"

fun firstNonEmpty :: "string list \<Rightarrow> string" where
  "firstNonEmpty [] = []"
| "firstNonEmpty (i # ids) = (if i \<noteq> [] then i else firstNonEmpty ids)"

definition flatPrice :: "usage_metadata \<Rightarrow> float64 \<Rightarrow> float64" where
  "flatPrice u rate = fmul (fdiv (of_int (TotalTokenCount u)) 1000) rate"

definition priceOf ::
  "meter \<Rightarrow> call \<Rightarrow> usage_metadata \<Rightarrow> pricer option \<Rightarrow> string \<Rightarrow> float64 \<Rightarrow> string list
   \<Rightarrow> meter \<times> float64 \<times> float64 \<times> string \<times> bool" where
  "priceOf m c u p backend rate ids =
     (let flat = flatPrice u rate
      in case p of
          None \<Rightarrow> (m, flat, flat, firstNonEmpty ids, False)
        | Some pr \<Rightarrow>
            (case priceFirst pr backend c ids of
               Some (usd, i) \<Rightarrow>
                 (let ref = uncachedReference c
                  in if ref = c then (m, usd, usd, i, False)
                     else case priceFirst pr backend ref [i] of
                         Some (refUSD, _) \<Rightarrow> (m, usd, refUSD, i, False)
                       | None \<Rightarrow> (m, usd, usd, i, False))
             | None \<Rightarrow>
                 (m\<lparr>mUnpriced := wrap64 (mUnpriced m + 1)\<rparr>, flat, flat, firstNonEmpty ids, True)))"

section \<open>Accumulators and ceilings\<close>

definition usage_add :: "usage \<Rightarrow> int \<Rightarrow> float64 \<Rightarrow> usage" where
  "usage_add u tokens cost =
     \<lparr>uTokens = wrap64 (uTokens u + tokens), uCost = fadd (uCost u) cost,
      uCalls = wrap64 (uCalls u + 1)\<rparr>"

definition crossed :: "string \<Rightarrow> limits \<Rightarrow> usage \<Rightarrow> trip list" where
  "crossed scope l u =
     (if 0 < lMaxTurns l \<and> lMaxTurns l < uCalls u
      then [\<lparr>tScope = scope, tDimension = DimensionTurns,
             tReason = TurnsOver (uCalls u) (lMaxTurns l)\<rparr>] else []) @
     (if 0 < lMaxTokens l \<and> lMaxTokens l < uTokens u
      then [\<lparr>tScope = scope, tDimension = DimensionTokens,
             tReason = TokensOver (uTokens u) (lMaxTokens l)\<rparr>] else []) @
     (if 0 < lMaxCostUSD l \<and> lMaxCostUSD l < uCost u
      then [\<lparr>tScope = scope, tDimension = DimensionCostUSD,
             tReason = CostOver (uCost u) (lMaxCostUSD l) (uTokens u) (uCalls u)\<rparr>] else [])"

definition check :: "limits \<Rightarrow> usage \<Rightarrow> reason option" where
  "check l u = (case crossed [] l u of [] \<Rightarrow> None | t # _ \<Rightarrow> Some (tReason t))"

definition precluded :: "string \<Rightarrow> limits \<Rightarrow> usage option \<Rightarrow> trip list" where
  "precluded scope l u0 =
     (let u = (case u0 of None \<Rightarrow> usage0 | Some u \<Rightarrow> u)
      in (if 0 < lMaxTurns l \<and> lMaxTurns l < wrap64 (uCalls u + 1)
          then [\<lparr>tScope = scope, tDimension = DimensionTurns,
                 tReason = TurnsWould (wrap64 (uCalls u + 1)) (lMaxTurns l)\<rparr>] else []) @
         (if 0 < lMaxTokens l \<and> lMaxTokens l \<le> uTokens u
          then [\<lparr>tScope = scope, tDimension = DimensionTokens,
                 tReason = TokensAt (uTokens u) (lMaxTokens l)\<rparr>] else []) @
         (if 0 < lMaxCostUSD l \<and> lMaxCostUSD l \<le> uCost u
          then [\<lparr>tScope = scope, tDimension = DimensionCostUSD,
                 tReason = CostAt (uCost u) (lMaxCostUSD l) (uTokens u) (uCalls u)\<rparr>] else []))"

section \<open>The meter (budget.go)\<close>

definition New :: "config \<Rightarrow> meter" where
  "New cfg =
     \<lparr>mLimits = cfgLimits cfg, mScopes = cfgScopes cfg, mTotal = usage0,
      mSpent = map (\<lambda>(name, _). (name, usage0)) (cfgScopes cfg),
      mUnpriced = 0, mRestored = False, mRefusals = 0, mFirstRefusal = None,
      mSessionRefusals = 0, mFirstSessionRefusal = None, mOnSpend = cfgOnSpend cfg,
      mFinalReport = cfgFinalReport cfg, mFinalReportTaken = []\<rparr>"

definition fold_rate :: "meter \<Rightarrow> limits option \<Rightarrow> float64" where
  "fold_rate m scope =
     (case scope of
        Some s \<Rightarrow> (if 0 < lRatePer1K s then lRatePer1K s else lRatePer1K (mLimits m))
      | None \<Rightarrow> lRatePer1K (mLimits m))"

definition fold_pricer :: "meter \<Rightarrow> limits option \<Rightarrow> pricer option" where
  "fold_pricer m scope =
     (case scope of
        Some s \<Rightarrow> (case lPricer s of Some p \<Rightarrow> Some p | None \<Rightarrow> lPricer (mLimits m))
      | None \<Rightarrow> lPricer (mLimits m))"

definition fold_model :: "meter \<Rightarrow> limits option \<Rightarrow> string \<times> string" where
  "fold_model m scope =
     (case scope of
        Some s \<Rightarrow> (if lModel s \<noteq> [] then (lBackend s, lModel s)
                   else (lBackend (mLimits m), lModel (mLimits m)))
      | None \<Rightarrow> (lBackend (mLimits m), lModel (mLimits m)))"

definition check_session :: "meter \<Rightarrow> error option" where
  "check_session m = map_option (ErrExceeded None) (check (mLimits m) (mTotal m))"

definition fold_event :: "meter \<Rightarrow> event \<Rightarrow> usage_metadata \<Rightarrow> (meter \<times> spend \<times> error option) option" where
  "fold_event m ev u =
     (let tokens = TotalTokenCount u;
          author = evAuthor ev;
          scope = map_of (mScopes m) author;
          (backend, model) = fold_model m scope;
          c = callOf ev u;
          (m1, cost, ref, priced, unpriced) =
             priceOf m c u (fold_pricer m scope) backend (fold_rate m scope) [evModelVersion ev, model];
          s = \<lparr>sAuthor = author, sTokens = tokens, sCostUSD = cost, sUnpriced = unpriced,
               sAt = evTimestamp ev, sModel = priced, sCall = c,
               sThoughtsTokens = ThoughtsTokenCount u, sToolUseTokens = ToolUsePromptTokenCount u,
               sCostUSDUncachedReference = ref\<rparr>;
          m2 = m1\<lparr>mTotal := usage_add (mTotal m1) tokens cost\<rparr>
      in case scope of
          None \<Rightarrow> Some (m2, s, check_session m2)
        | Some sc \<Rightarrow>
            (case map_of (mSpent m2) author of
               None \<Rightarrow> None
             | Some su0 \<Rightarrow>
                 (let su = usage_add su0 tokens cost;
                      m3 = m2\<lparr>mSpent := AList.update author su (mSpent m2)\<rparr>
                  in case check sc su of
                      Some r \<Rightarrow> Some (m3, s, Some (scopedTo author (ErrExceeded (Some author) r)))
                    | None \<Rightarrow> Some (m3, s, check_session m3))))"

text \<open>
  The second component of \<open>Observe\<close> is the argument \<^verbatim>\<open>onSpend\<close> was called with, when it was
  called.
\<close>

definition Observe :: "meter \<Rightarrow> event option \<Rightarrow> (meter \<times> spend option \<times> error option) option" where
  "Observe m e =
     (case e of
        None \<Rightarrow> Some (m, None, None)
      | Some ev \<Rightarrow>
          (case evUsageMetadata ev of
             None \<Rightarrow> Some (m, None, None)
           | Some u \<Rightarrow>
               (case fold_event m ev (flooredUsage (Some u)) of
                  None \<Rightarrow> None
                | Some (m', s, err) \<Rightarrow> Some (m', if mOnSpend m' then Some s else None, err))))"

definition Snapshot :: "meter \<Rightarrow> int \<times> float64 \<times> int" where
  "Snapshot m = (uTokens (mTotal m), uCost (mTotal m), uCalls (mTotal m))"

definition ScopeSnapshot :: "meter \<Rightarrow> string \<Rightarrow> (int \<times> float64 \<times> int) option" where
  "ScopeSnapshot m name =
     map_option (\<lambda>u. (uTokens u, uCost u, uCalls u)) (map_of (mSpent m) name)"

section \<open>Asking before the call (allow.go)\<close>

definition Precluded :: "meter option \<Rightarrow> string \<Rightarrow> trip list" where
  "Precluded mo author =
     (case mo of
        None \<Rightarrow> []
      | Some m \<Rightarrow>
          (case map_of (mScopes m) author of
             Some scope \<Rightarrow> precluded author scope (map_of (mSpent m) author)
           | None \<Rightarrow> []) @
          precluded [] (mLimits m) (Some (mTotal m)))"

definition allow :: "meter option \<Rightarrow> string \<Rightarrow> error option" where
  "allow mo author =
     (case Precluded mo author of
        [] \<Rightarrow> None
      | t # _ \<Rightarrow>
          if tScope t \<noteq> [] then Some (scopedTo (tScope t) (ErrRefused (Some (tScope t)) (tReason t)))
          else Some (ErrRefused None (tReason t)))"

definition noteRefusal :: "meter \<Rightarrow> error \<Rightarrow> meter" where
  "noteRefusal m err =
     (let m1 = m\<lparr>mRefusals := wrap64 (mRefusals m + 1),
                 mFirstRefusal := (case mFirstRefusal m of None \<Rightarrow> Some err | Some e \<Rightarrow> Some e)\<rparr>
      in case Scope err of
          Some _ \<Rightarrow> m1
        | None \<Rightarrow>
            m1\<lparr>mSessionRefusals := wrap64 (mSessionRefusals m1 + 1),
               mFirstSessionRefusal :=
                 (case mFirstSessionRefusal m1 of None \<Rightarrow> Some err | Some e \<Rightarrow> Some e)\<rparr>)"

text \<open>\<^verbatim>\<open>Allow\<close> checks under the mutex and, where it refuses, takes it again to note the refusal; another
  goroutine can come in between. A permitted call is one critical section, and what the second one
  writes (\<open>mRefusals\<close> and its companions) is read by no check, so one step stands for both.\<close>

definition Allow :: "meter option \<Rightarrow> string \<Rightarrow> meter option \<times> error option" where
  "Allow mo author =
     (case allow mo author of
        None \<Rightarrow> (mo, None)
      | Some err \<Rightarrow> (map_option (\<lambda>m. noteRefusal m err) mo, Some err))"

definition Refusals :: "meter option \<Rightarrow> int \<times> error option" where
  "Refusals mo = (case mo of None \<Rightarrow> (0, None) | Some m \<Rightarrow> (mRefusals m, mFirstRefusal m))"

definition SessionRefusals :: "meter option \<Rightarrow> int \<times> error option" where
  "SessionRefusals mo =
     (case mo of None \<Rightarrow> (0, None) | Some m \<Rightarrow> (mSessionRefusals m, mFirstSessionRefusal m))"

definition PrecludedSession :: "meter option \<Rightarrow> trip list" where
  "PrecludedSession mo =
     (case mo of None \<Rightarrow> [] | Some m \<Rightarrow> precluded [] (mLimits m) (Some (mTotal m)))"

section \<open>Reporting and raising a ceiling (trips.go)\<close>

definition sortedScopesLocked :: "meter \<Rightarrow> string list" where
  "sortedScopesLocked m = sort (map fst (mScopes m))"

definition raise :: "limits \<Rightarrow> limits \<Rightarrow> limits" where
  "raise l add =
     l\<lparr>lMaxTurns := (if 0 < lMaxTurns l \<and> 0 < lMaxTurns add
                     then wrap64 (lMaxTurns l + lMaxTurns add) else lMaxTurns l),
       lMaxTokens := (if 0 < lMaxTokens l \<and> 0 < lMaxTokens add
                      then wrap64 (lMaxTokens l + lMaxTokens add) else lMaxTokens l),
       lMaxCostUSD := (if 0 < lMaxCostUSD l \<and> 0 < lMaxCostUSD add
                       then fadd (lMaxCostUSD l) (lMaxCostUSD add) else lMaxCostUSD l)\<rparr>"

definition raised_session :: "meter \<Rightarrow> string \<Rightarrow> limits \<Rightarrow> limits" where
  "raised_session m scope add = (if scope = [] then raise (mLimits m) add else mLimits m)"

definition raised_scope :: "meter \<Rightarrow> string \<Rightarrow> limits \<Rightarrow> string \<Rightarrow> limits" where
  "raised_scope m scope add name =
     (let l = mget zero_limits (mScopes m) name in if name = scope then raise l add else l)"

definition TripsAfter :: "meter \<Rightarrow> string \<Rightarrow> limits \<Rightarrow> trip list option" where
  "TripsAfter m scope add =
     map_option (\<lambda>ts. crossed [] (raised_session m scope add) (mTotal m) @ concat ts)
       (those (map (\<lambda>name. map_option (crossed name (raised_scope m scope add name))
                             (map_of (mSpent m) name)) (sortedScopesLocked m)))"

definition Trips :: "meter \<Rightarrow> trip list option" where
  "Trips m = TripsAfter m [] zero_limits"

definition PrecludedAfter :: "meter option \<Rightarrow> string \<Rightarrow> limits \<Rightarrow> trip list" where
  "PrecludedAfter mo scope add =
     (case mo of
        None \<Rightarrow> []
      | Some m \<Rightarrow>
          precluded [] (raised_session m scope add) (Some (mTotal m)) @
          concat (map (\<lambda>name. precluded name (raised_scope m scope add name) (map_of (mSpent m) name))
                    (sortedScopesLocked m)))"

definition PrecludedAll :: "meter option \<Rightarrow> trip list" where
  "PrecludedAll mo =
     (case mo of
        None \<Rightarrow> []
      | Some m \<Rightarrow>
          precluded [] (mLimits m) (Some (mTotal m)) @
          concat (map (\<lambda>name. precluded name (mget zero_limits (mScopes m) name) (map_of (mSpent m) name))
                    (sortedScopesLocked m)))"

definition Grant :: "meter \<Rightarrow> string \<Rightarrow> limits \<Rightarrow> meter \<times> (error + limits)" where
  "Grant m scope add =
     (if scope = [] then
        (let l = raise (mLimits m) add in (m\<lparr>mLimits := l\<rparr>, Inr l))
      else case map_of (mScopes m) scope of
          None \<Rightarrow> (m, Inl (ErrNoScope scope (sortedScopesLocked m)))
        | Some l0 \<Rightarrow>
            (let l = raise l0 add in (m\<lparr>mScopes := AList.update scope l (mScopes m)\<rparr>, Inr l)))"

section \<open>Restoring what an earlier process spent (durable.go)\<close>

definition add_totals :: "usage \<Rightarrow> totals \<Rightarrow> usage" where
  "add_totals u t =
     \<lparr>uTokens = wrap64 (uTokens u + ttTokens t), uCost = fadd (uCost u) (ttCostUSD t),
      uCalls = wrap64 (uCalls u + ttCalls t)\<rparr>"

fun restore_authors :: "(string, usage) gomap \<Rightarrow> (string, totals) gomap \<Rightarrow> (string, usage) gomap" where
  "restore_authors spent [] = spent"
| "restore_authors spent ((author, t) # rest) =
     restore_authors
       (case map_of spent author of
          None \<Rightarrow> spent
        | Some u \<Rightarrow> AList.update author (add_totals u t) spent) rest"

definition Restore :: "meter \<Rightarrow> prior \<Rightarrow> meter \<times> error option" where
  "Restore m p =
     (if mRestored m then (m, Some ErrRestored)
      else (m\<lparr>mRestored := True,
              mTotal := add_totals (mTotal m) (pSession p),
              mUnpriced := wrap64 (mUnpriced m + pUnpriced p),
              mSpent := restore_authors (mSpent m) (pByAuthor p)\<rparr>, None))"

definition Prior_IsZero :: "prior \<Rightarrow> bool" where
  "Prior_IsZero p \<longleftrightarrow> pSession p = \<lparr>ttTokens = 0, ttCostUSD = 0, ttCalls = 0\<rparr> \<and>
     pByAuthor p = [] \<and> pUnpriced p = 0"

section \<open>One call past the ceiling (finalreport.go)\<close>

definition AllowFinalReport :: "meter option \<Rightarrow> string \<Rightarrow> meter option \<times> bool" where
  "AllowFinalReport mo author =
     (case mo of
        None \<Rightarrow> (None, False)
      | Some m \<Rightarrow>
          if \<not> mFinalReport m then (Some m, False)
          else if mget False (mFinalReportTaken m) author then (Some m, False)
          else
            (let spent = (case map_of (mSpent m) author of Some u \<Rightarrow> u | None \<Rightarrow> mTotal m)
             in if uCalls spent = 0 then (Some m, False)
                else (Some (m\<lparr>mFinalReportTaken := AList.update author True (mFinalReportTaken m)\<rparr>),
                      True)))"

definition FinalReportsTaken :: "meter option \<Rightarrow> int" where
  "FinalReportsTaken mo =
     (case mo of None \<Rightarrow> 0 | Some m \<Rightarrow> int (card (fst ` set (mFinalReportTaken m))))"

section \<open>The meter as a state machine\<close>

text \<open>
  Every exported operation that changes a meter, as one step. \<open>reachable cfg m\<close> are the
  meters a program can hold after \<^verbatim>\<open>New(cfg)\<close> and any interleaving of calls.
\<close>

inductive meter_step :: "meter \<Rightarrow> meter \<Rightarrow> bool" where
  step_Observe: "Observe m e = Some (m', s, err) \<Longrightarrow> meter_step m m'"
| step_Allow: "Allow (Some m) a = (Some m', err) \<Longrightarrow> meter_step m m'"
| step_Grant: "Grant m scope add = (m', r) \<Longrightarrow> meter_step m m'"
| step_Restore: "Restore m p = (m', err) \<Longrightarrow> meter_step m m'"
| step_FinalReport: "AllowFinalReport (Some m) a = (Some m', ok) \<Longrightarrow> meter_step m m'"

inductive meter_reach :: "config \<Rightarrow> meter \<Rightarrow> bool" where
  reach_New: "meter_reach cfg (New cfg)"
| reach_step: "meter_reach cfg m \<Longrightarrow> meter_step m m' \<Longrightarrow> meter_reach cfg m'"

definition usage_ok :: "usage \<Rightarrow> bool" where
  "usage_ok u \<longleftrightarrow> int64 (uTokens u) \<and> int64 (uCalls u) \<and> is_f64 (uCost u)"

definition wf_meter :: "meter \<Rightarrow> bool" where
  "wf_meter m \<longleftrightarrow> distinct (map fst (mScopes m)) \<and> map fst (mSpent m) = map fst (mScopes m) \<and>
     usage_ok (mTotal m) \<and> map_all usage_ok (mSpent m)"

text \<open>
  What folding one event amounts to, in three parts: the spend it records, the meter it
  leaves, and the error it answers with.
\<close>

definition spend_of :: "meter \<Rightarrow> event \<Rightarrow> usage_metadata \<Rightarrow> spend" where
  "spend_of m ev u =
     (let scope = map_of (mScopes m) (evAuthor ev);
          (backend, model) = fold_model m scope;
          (_, cost, ref, priced, unpriced) =
             priceOf m (callOf ev u) u (fold_pricer m scope) backend (fold_rate m scope)
               [evModelVersion ev, model]
      in \<lparr>sAuthor = evAuthor ev, sTokens = TotalTokenCount u, sCostUSD = cost,
          sUnpriced = unpriced, sAt = evTimestamp ev, sModel = priced, sCall = callOf ev u,
          sThoughtsTokens = ThoughtsTokenCount u, sToolUseTokens = ToolUsePromptTokenCount u,
          sCostUSDUncachedReference = ref\<rparr>)"

definition folded :: "meter \<Rightarrow> spend \<Rightarrow> meter" where
  "folded m s =
     m\<lparr>mUnpriced := (if sUnpriced s then wrap64 (mUnpriced m + 1) else mUnpriced m),
       mTotal := usage_add (mTotal m) (sTokens s) (sCostUSD s),
       mSpent := (if map_of (mScopes m) (sAuthor s) = None then mSpent m
         else AList.update (sAuthor s)
           (usage_add (the (map_of (mSpent m) (sAuthor s))) (sTokens s) (sCostUSD s)) (mSpent m))\<rparr>"

definition fold_verdict :: "meter \<Rightarrow> string \<Rightarrow> error option" where
  "fold_verdict m a =
     (case map_of (mScopes m) a of
        None \<Rightarrow> check_session m
      | Some sc \<Rightarrow>
          (case check sc (the (map_of (mSpent m) a)) of
             Some r \<Rightarrow> Some (scopedTo a (ErrExceeded (Some a) r))
           | None \<Rightarrow> check_session m))"

text \<open>The meter as the gate of a model call, for \<open>drive\<close>.\<close>

definition meter_ask :: "meter \<Rightarrow> event \<Rightarrow> meter \<times> bool" where
  "meter_ask m ev =
     (case Allow (Some m) (evAuthor ev) of
        (None, err) \<Rightarrow> (m, err = None)
      | (Some m', err) \<Rightarrow> (m', err = None))"

definition meter_run :: "meter \<Rightarrow> event \<Rightarrow> meter option" where
  "meter_run m ev = map_option fst (Observe m (Some ev))"

definition scope_calls :: "string \<Rightarrow> meter \<Rightarrow> int" where
  "scope_calls a m = (case map_of (mSpent m) a of None \<Rightarrow> 0 | Some u \<Rightarrow> uCalls u)"

definition scope_cap :: "string \<Rightarrow> meter \<Rightarrow> int" where
  "scope_cap a m = (case map_of (mScopes m) a of None \<Rightarrow> 0 | Some l \<Rightarrow> lMaxTurns l)"

text \<open>\<open>l'\<close> imposes no ceiling \<open>l\<close> does not, and none that is lower.\<close>

definition looser :: "limits \<Rightarrow> limits \<Rightarrow> bool" where
  "looser l l' \<longleftrightarrow>
     (lMaxTurns l' = lMaxTurns l \<or> 0 < lMaxTurns l \<and> lMaxTurns l \<le> lMaxTurns l') \<and>
     (lMaxTokens l' = lMaxTokens l \<or> 0 < lMaxTokens l \<and> lMaxTokens l \<le> lMaxTokens l') \<and>
     (lMaxCostUSD l' = lMaxCostUSD l \<or> 0 < lMaxCostUSD l \<and> lMaxCostUSD l \<le> lMaxCostUSD l')"

text \<open>A small meter, the concrete input of several witnesses.\<close>

definition demo_limits :: limits where
  "demo_limits = zero_limits\<lparr>lMaxTurns := 1, lRatePer1K := 1\<rparr>"

definition demo_event :: event where
  "demo_event = \<lparr>evAuthor = ''triage'',
     evUsageMetadata = Some \<lparr>TotalTokenCount = 1000, PromptTokenCount = 900, CachedContentTokenCount = 0,
       CandidatesTokenCount = 100, ThoughtsTokenCount = 0, ToolUsePromptTokenCount = 0\<rparr>,
     evModelVersion = ''m'', evTimestamp = 1, evDetail = None\<rparr>"

definition demo_meter :: meter where
  "demo_meter = (New \<lparr>cfgLimits = demo_limits, cfgScopes = [], cfgOnSpend = True, cfgFinalReport = False\<rparr>)
     \<lparr>mTotal := \<lparr>uTokens = 1000, uCost = 1, uCalls = 1\<rparr>\<rparr>"

section \<open>Lemmas: the invariant\<close>

lemma usage_ok_simps [simp]:
  "usage_ok usage0" "usage_ok (usage_add u t c)" "usage_ok (add_totals u p)"
  by (simp_all add: usage_ok_def usage0_def usage_add_def add_totals_def)

lemma wf_spent_iff: "wf_meter m \<Longrightarrow> map_of (mSpent m) a = None \<longleftrightarrow> map_of (mScopes m) a = None"
  by (simp add: wf_meter_def map_of_eq_None_iff flip: set_map)

lemma wf_spent_Some: "wf_meter m \<Longrightarrow> map_of (mScopes m) a = Some l \<Longrightarrow> \<exists>u. map_of (mSpent m) a = Some u"
  using wf_spent_iff [of m a] by auto

lemma priceOf_state:
  "priceOf m c u p b r ids = (m1, usd, ref, i, un) \<Longrightarrow>
     m1 = m\<lparr>mUnpriced := (if un then wrap64 (mUnpriced m + 1) else mUnpriced m)\<rparr>"
  by (auto simp: priceOf_def Let_def split: option.splits prod.splits if_splits)

lemma folded_simps [simp]:
  "mScopes (folded m s) = mScopes m" "mLimits (folded m s) = mLimits m"
  "mFinalReportTaken (folded m s) = mFinalReportTaken m"
  "mTotal (folded m s) = usage_add (mTotal m) (sTokens s) (sCostUSD s)"
  "mUnpriced (folded m s) = (if sUnpriced s then wrap64 (mUnpriced m + 1) else mUnpriced m)"
  "mOnSpend (folded m s) = mOnSpend m" "mRestored (folded m s) = mRestored m"
  by (simp_all add: folded_def)

lemma folded_spent [simp]:
  "map_of (mSpent (folded m s)) a =
     (if a = sAuthor s \<and> map_of (mScopes m) a \<noteq> None
      then Some (usage_add (the (map_of (mSpent m) a)) (sTokens s) (sCostUSD s))
      else map_of (mSpent m) a)"
  by (auto simp: folded_def)

lemma spend_of_simps [simp]:
  "sTokens (spend_of m ev u) = TotalTokenCount u" "sAuthor (spend_of m ev u) = evAuthor ev"
  by (simp_all add: spend_of_def Let_def split: prod.split)

text \<open>\<open>fold_event\<close> computes exactly the three parts named above.\<close>

lemma fold_event_eq:
  "fold_event m ev u =
     (if map_of (mScopes m) (evAuthor ev) \<noteq> None \<and> map_of (mSpent m) (evAuthor ev) = None then None
      else let s = spend_of m ev u; m' = folded m s in Some (m', s, fold_verdict m' (evAuthor ev)))"
proof -
  let ?sc = "map_of (mScopes m) (evAuthor ev)"
  obtain b md where bm: "fold_model m ?sc = (b, md)" by fastforce
  obtain m1 cost ref priced un where po:
    "priceOf m (callOf ev u) u (fold_pricer m ?sc) b (fold_rate m ?sc) [evModelVersion ev, md] =
     (m1, cost, ref, priced, un)" by (metis prod_cases5)
  note m1 = priceOf_state [OF po]
  show ?thesis
    using bm po unfolding m1
    by (cases ?sc; cases "map_of (mSpent m) (evAuthor ev)")
      (simp_all add: fold_event_def spend_of_def folded_def fold_verdict_def Let_def split: option.split)
qed

lemma fold_event_total: "wf_meter m \<Longrightarrow> \<exists>r. fold_event m ev u = Some r"
  using wf_spent_iff [of m "evAuthor ev"] by (auto simp: fold_event_eq Let_def)

lemma fold_event_SomeD:
  "fold_event m ev u = Some (m', s, err) \<Longrightarrow>
     s = spend_of m ev u \<and> m' = folded m s \<and> err = fold_verdict m' (evAuthor ev) \<and>
     (map_of (mScopes m) (evAuthor ev) \<noteq> None \<longrightarrow> map_of (mSpent m) (evAuthor ev) \<noteq> None)"
  by (auto simp: fold_event_eq Let_def split: if_splits)

lemma Observe_cases:
  assumes "Observe m e = Some (m', s, err)"
  obtains (ignored) "m' = m" "s = None" "err = None"
  | (folded) ev u sp where "e = Some ev" "evUsageMetadata ev = Some u"
      "fold_event m ev (flooredUsage (Some u)) = Some (m', sp, err)"
  using assms by (auto simp: Observe_def split: option.splits)

lemma folded_wf:
  assumes "wf_meter m" shows "wf_meter (folded m s)"
  using assms wf_spent_iff [OF assms, of "sAuthor s"]
  by (auto simp: wf_meter_def folded_def simp del: map_of_eq_Some_iff)

lemma fold_event_wf: "wf_meter m \<Longrightarrow> fold_event m ev u = Some (m', s, err) \<Longrightarrow> wf_meter m'"
  by (drule fold_event_SomeD) (simp add: folded_wf)

lemma Observe_total: "wf_meter m \<Longrightarrow> \<exists>r. Observe m e = Some r"
  using fold_event_total [of m "the e" "flooredUsage (Some (the (evUsageMetadata (the e))))"]
  by (auto simp: Observe_def split: option.split)

lemma wf_New: "distinct (map fst (cfgScopes cfg)) \<Longrightarrow> wf_meter (New cfg)"
  by (auto simp: New_def wf_meter_def case_prod_beta comp_def map_all_def list_all_iff)

lemma noteRefusal_frame [simp]:
  "mScopes (noteRefusal m e) = mScopes m" "mSpent (noteRefusal m e) = mSpent m"
  "mTotal (noteRefusal m e) = mTotal m" "mLimits (noteRefusal m e) = mLimits m"
  "mFinalReportTaken (noteRefusal m e) = mFinalReportTaken m"
  "mUnpriced (noteRefusal m e) = mUnpriced m"
  by (simp_all add: noteRefusal_def Let_def split: option.split)

lemma restore_authors_map_of:
  "distinct (map fst p) \<Longrightarrow> map_of (restore_authors sp p) a =
     (case map_of sp a of
        None \<Rightarrow> None
      | Some u \<Rightarrow> Some (case map_of p a of None \<Rightarrow> u | Some t \<Rightarrow> add_totals u t))"
  by (induction sp p rule: restore_authors.induct)
    (auto split: option.split simp: rev_image_eqI dest: map_of_SomeD)

lemma restore_authors_keys: "map fst (restore_authors sp p) = map fst sp"
  by (induction sp p rule: restore_authors.induct) (auto split: option.split)

lemma restore_authors_values: "map_all usage_ok sp \<Longrightarrow> map_all usage_ok (restore_authors sp p)"
  by (induction sp p rule: restore_authors.induct) (auto split: option.split)

lemma meter_step_wf: "meter_step m m' \<Longrightarrow> wf_meter m \<Longrightarrow> wf_meter m'"
proof (induction rule: meter_step.induct)
  case (step_Observe m e m' s err)
  then show ?case by (auto elim!: Observe_cases intro: fold_event_wf)
next
  case (step_Allow m a m' err)
  then show ?case by (auto simp: Allow_def wf_meter_def split: option.splits)
next
  case (step_Grant m scope add m' r)
  then show ?case
    by (auto simp: Grant_def wf_meter_def Let_def simp del: map_of_eq_Some_iff
        split: if_splits option.splits)
next
  case (step_Restore m p m' err)
  then show ?case using restore_authors_values [of "mSpent m" "pByAuthor p"]
    by (auto simp: Restore_def wf_meter_def restore_authors_keys split: if_splits)
next
  case (step_FinalReport m a m' ok)
  then show ?case
    by (auto simp: AllowFinalReport_def wf_meter_def Let_def split: if_splits)
qed

lemma meter_reach_wf:
  "meter_reach cfg m \<Longrightarrow> distinct (map fst (cfgScopes cfg)) \<Longrightarrow> wf_meter m"
  by (induction rule: meter_reach.induct) (auto intro: wf_New meter_step_wf)

lemma TripsAfter_total:
  assumes "wf_meter m"
  shows "\<exists>ts. TripsAfter m scope add = Some ts"
proof -
  have "map_option f (map_of (mSpent m) n) \<noteq> None" if "n \<in> set (map fst (mScopes m))"
    for n and f :: "usage \<Rightarrow> trip list"
    using wf_spent_iff [OF assms, of n] that by (auto simp: map_of_eq_None_iff)
  then have "those (map (\<lambda>n. map_option (f n) (map_of (mSpent m) n)) ns) \<noteq> None"
    if "set ns \<subseteq> set (map fst (mScopes m))" for ns and f :: "string \<Rightarrow> usage \<Rightarrow> trip list"
    using that by (induction ns) (auto split: option.split)
  then show ?thesis by (simp add: TripsAfter_def sortedScopesLocked_def)
qed

section \<open>Lemmas: buckets and prices\<close>

lemma fitBucket_range: "0 \<le> fitBucket n r \<and> fitBucket n r \<le> max 0 r"
  by (simp add: fitBucket_def Let_def)

lemma flooredUsage_nonneg:
  "0 \<le> TotalTokenCount (flooredUsage u)" "0 \<le> PromptTokenCount (flooredUsage u)"
  "0 \<le> CachedContentTokenCount (flooredUsage u)" "0 \<le> CandidatesTokenCount (flooredUsage u)"
  "0 \<le> ThoughtsTokenCount (flooredUsage u)" "0 \<le> ToolUsePromptTokenCount (flooredUsage u)"
  by (simp_all add: flooredUsage_def floorCount_def split: option.split)

lemma priceFirst_Some:
  "priceFirst p b c ids = Some (usd, i) \<Longrightarrow> i \<in> set ids \<and> i \<noteq> [] \<and> p b i c = Some usd"
  by (induction ids) (auto split: if_splits option.splits)

lemma priceFirst_None:
  "priceFirst p b c ids = None \<longleftrightarrow> (\<forall>i \<in> set ids. i \<noteq> [] \<longrightarrow> p b i c = None)"
  by (induction ids) (auto split: option.split)

section \<open>Lemmas: asking before the call\<close>

lemma usage_add_simps [simp]:
  "uTokens (usage_add u t c) = wrap64 (uTokens u + t)" "uCost (usage_add u t c) = fadd (uCost u) c"
  "uCalls (usage_add u t c) = wrap64 (uCalls u + 1)"
  by (simp_all add: usage_add_def)

lemma check_None: "check l u = None \<longleftrightarrow> crossed scope l u = []"
  by (simp add: check_def crossed_def split: list.split)

lemma precluded_crossed:
  assumes "precluded scope l (Some u) \<noteq> []" "usage_ok u" "0 < t" "uTokens u + t < 2 ^ 63"
    and "uCost u < fadd (uCost u) c"
  shows "crossed scope' l (usage_add u t c) \<noteq> []"
proof -
  have "wrap64 (uTokens u + t) = uTokens u + t"
    using assms(2-4) by (intro wrap64_id) (simp add: usage_ok_def int64_def)
  then show ?thesis using assms by (auto simp: precluded_def crossed_def Let_def split: if_splits)
qed

lemma Allow_cases:
  "Allow (Some m) a = (mo, err) \<Longrightarrow>
     (err = None \<and> mo = Some m \<and> Precluded (Some m) a = []) \<or>
     (\<exists>e. err = Some e \<and> mo = Some (noteRefusal m e) \<and> Precluded (Some m) a \<noteq> [])"
  by (auto simp: Allow_def allow_def split: list.splits if_splits option.splits)

lemma noteRefusal_wf [simp]: "wf_meter (noteRefusal m e) = wf_meter m"
  by (simp add: wf_meter_def)

lemma Observe_SomeD:
  "Observe m (Some ev) = Some (m', s, err) \<Longrightarrow>
     m' = m \<or> (\<exists>u. evUsageMetadata ev = Some u \<and> m' = folded m (spend_of m ev (flooredUsage (Some u))))"
  by (auto elim!: Observe_cases dest!: fold_event_SomeD)

lemma Precluded_session_turns:
  "Precluded (Some m) a = [] \<Longrightarrow> 0 < lMaxTurns (mLimits m) \<Longrightarrow>
     wrap64 (uCalls (mTotal m) + 1) \<le> lMaxTurns (mLimits m)"
  by (auto simp: Precluded_def precluded_def Let_def split: option.splits if_splits)

lemma Precluded_scope_turns:
  "Precluded (Some m) a = [] \<Longrightarrow> 0 < scope_cap a m \<Longrightarrow> map_of (mSpent m) a = Some u \<Longrightarrow>
     wrap64 (uCalls u + 1) \<le> scope_cap a m"
  by (auto simp: Precluded_def precluded_def scope_cap_def Let_def split: option.splits if_splits)

lemma meter_run_wf: "wf_meter m \<Longrightarrow> meter_run m ev = Some m' \<Longrightarrow> wf_meter m'"
  by (auto simp: meter_run_def intro: meter_step_wf step_Observe)

lemma meter_run_total: "wf_meter m \<Longrightarrow> \<exists>m'. meter_run m ev = Some m'"
  using Observe_total [of m "Some ev"] by (auto simp: meter_run_def)

lemma meter_runD:
  "meter_run m ev = Some m' \<Longrightarrow>
     m' = m \<or> (\<exists>u. evUsageMetadata ev = Some u \<and> m' = folded m (spend_of m ev (flooredUsage (Some u))))"
  by (auto simp: meter_run_def dest: Observe_SomeD)

lemma meter_ask_cases:
  "meter_ask m ev = (m1, ok) \<Longrightarrow>
     (ok \<and> m1 = m \<and> Precluded (Some m) (evAuthor ev) = []) \<or> (\<not> ok \<and> (\<exists>e. m1 = noteRefusal m e))"
  by (auto simp: meter_ask_def dest!: Allow_cases split: prod.splits option.splits)

interpretation session_cap: call_cap meter_ask meter_run wf_meter
  "\<lambda>m. uCalls (mTotal m)" "\<lambda>m. lMaxTurns (mLimits m)"
proof (unfold_locales, goal_cases)
  case (1 s c s1 ok)
  then show ?case by (auto dest!: meter_ask_cases)
next
  case (2 s c)
  then show ?case by (rule meter_run_total)
next
  case (3 s c s')
  then show ?case using meter_run_wf meter_runD by fastforce
next
  case (4 s c s1 s')
  then show ?case
    using meter_ask_cases [OF 4(4)] meter_runD [OF 4(5)] Precluded_session_turns [of s "evAuthor c"]
    by auto
qed

interpretation scope_cap: call_cap meter_ask meter_run wf_meter "scope_calls a" "scope_cap a" for a
proof (unfold_locales, goal_cases)
  case (1 s c s1 ok)
  then show ?case by (auto dest!: meter_ask_cases simp: scope_calls_def scope_cap_def)
next
  case (2 s c)
  then show ?case by (rule meter_run_total)
next
  case (3 s c s')
  then show ?case using meter_run_wf [of s c s'] meter_runD [of s c s'] by (auto simp: scope_cap_def)
next
  case (4 s c s1 s')
  have s1: "s1 = s" "Precluded (Some s) (evAuthor c) = []" using meter_ask_cases [OF 4(4)] by auto
  have cap: "map_of (mScopes s) a \<noteq> None" using 4(2) by (auto simp: scope_cap_def split: option.splits)
  then obtain u where u: "map_of (mSpent s) a = Some u" using wf_spent_iff [OF 4(1)] by fastforce
  from meter_runD [OF 4(5)] show ?case
    using 4(2,3) s1 cap u Precluded_scope_turns [of s a u]
    by (auto simp: scope_calls_def scope_cap_def)
qed

lemma meter_drive_total: "wf_meter m \<Longrightarrow> \<exists>m'. drive meter_ask meter_run m evs = Some m'"
proof (induction evs arbitrary: m)
  case (Cons ev evs)
  obtain m1 ok where a: "meter_ask m ev = (m1, ok)" by fastforce
  then have "wf_meter m1" using Cons.prems by (auto dest!: meter_ask_cases)
  with Cons.IH a show ?case
    using meter_run_total [of m1 ev] meter_run_wf [of m1 ev] by (auto split: option.split)
qed simp

lemma scope_cap_New: "scope_cap a (New cfg) = (case map_of (cfgScopes cfg) a of None \<Rightarrow> 0 | Some l \<Rightarrow> lMaxTurns l)"
  by (simp add: scope_cap_def New_def)

lemma scope_calls_New: "scope_calls a (New cfg) = 0"
  by (auto simp: scope_calls_def New_def usage0_def split: option.split dest!: map_of_SomeD)

section \<open>Lemmas: raising a ceiling\<close>

lemma raise_zero [simp]: "raise l zero_limits = l"
  by (cases l) (simp add: raise_def zero_limits_def)

lemma raised_zero [simp]:
  "raised_session m [] zero_limits = mLimits m"
  "raised_scope m [] zero_limits name = mget zero_limits (mScopes m) name"
  by (simp_all add: raised_session_def raised_scope_def Let_def)

lemma Grant_ok:
  assumes "Grant m scope add = (m', Inr l)" "[] \<notin> fst ` set (mScopes m)"
  shows "mLimits m' = raised_session m scope add"
    and "\<And>n. n \<in> fst ` set (mScopes m) \<Longrightarrow> mget zero_limits (mScopes m') n = raised_scope m scope add n"
    and "sortedScopesLocked m' = sortedScopesLocked m"
    and "mTotal m' = mTotal m" "mSpent m' = mSpent m"
  using assms
  by (auto simp: Grant_def raised_session_def raised_scope_def sortedScopesLocked_def Let_def mget_def
      simp del: map_of_eq_Some_iff split: if_splits option.splits
      intro: rev_image_eqI)

lemma set_sortedScopesLocked [simp]: "set (sortedScopesLocked m) = fst ` set (mScopes m)"
  by (simp add: sortedScopesLocked_def)

lemma raise_le:
  assumes "int64 (lMaxTurns l)" "int64 (lMaxTokens l)" "is_f64 (lMaxCostUSD l)"
    and "lMaxTurns l + lMaxTurns add < 2 ^ 63" "lMaxTokens l + lMaxTokens add < 2 ^ 63"
  shows "lMaxTurns l \<le> lMaxTurns (raise l add)" "lMaxTokens l \<le> lMaxTokens (raise l add)"
    "lMaxCostUSD l \<le> lMaxCostUSD (raise l add)"
  using assms fadd_ge [of "lMaxCostUSD l" "lMaxCostUSD add"] wrap64_id [of "lMaxTurns l + lMaxTurns add"]
    wrap64_id [of "lMaxTokens l + lMaxTokens add"]
  by (auto simp: raise_def int64_def)

lemma raise_looser:
  assumes "int64 (lMaxTurns l) \<and> int64 (lMaxTokens l) \<and> is_f64 (lMaxCostUSD l) \<and>
      lMaxTurns l + lMaxTurns add < 2 ^ 63 \<and> lMaxTokens l + lMaxTokens add < 2 ^ 63"
  shows "looser l (raise l add)"
  using assms raise_le [of l add] by (auto simp: looser_def raise_def)

lemma precluded_Nil:
  "precluded sc l u0 = [] \<longleftrightarrow>
     (let u = (case u0 of None \<Rightarrow> usage0 | Some u \<Rightarrow> u)
      in (0 < lMaxTurns l \<longrightarrow> wrap64 (uCalls u + 1) \<le> lMaxTurns l) \<and>
         (0 < lMaxTokens l \<longrightarrow> uTokens u < lMaxTokens l) \<and>
         (0 < lMaxCostUSD l \<longrightarrow> uCost u < lMaxCostUSD l))"
  by (simp add: precluded_def Let_def not_less not_le)

lemma looser_precluded: "looser l l' \<Longrightarrow> precluded sc l u = [] \<Longrightarrow> precluded sc l' u = []"
  unfolding looser_def precluded_Nil Let_def by (auto intro: less_le_trans)

lemma looser_refl [simp]: "looser l l"
  by (simp add: looser_def)

lemma Grant_predicts:
  assumes "[] \<notin> fst ` set (mScopes m)" "Grant m scope add = (m', Inr l)"
  shows "Trips m' = TripsAfter m scope add \<and> PrecludedAll (Some m') = PrecludedAfter (Some m) scope add"
proof -
  note g = Grant_ok [OF assms(2,1)]
  have eqs: "map (\<lambda>n. map_option (crossed n (mget zero_limits (mScopes m') n)) (map_of (mSpent m) n)) (sortedScopesLocked m) =
      map (\<lambda>n. map_option (crossed n (raised_scope m scope add n)) (map_of (mSpent m) n)) (sortedScopesLocked m)"
    "map (\<lambda>n. precluded n (mget zero_limits (mScopes m') n) (map_of (mSpent m) n)) (sortedScopesLocked m) =
      map (\<lambda>n. precluded n (raised_scope m scope add n) (map_of (mSpent m) n)) (sortedScopesLocked m)"
    using g(2) by (auto intro!: map_cong)
  show ?thesis
    by (simp add: Trips_def TripsAfter_def PrecludedAll_def PrecludedAfter_def g(1,3-5) eqs del: map_eq_conv)
qed

lemma raise_nothing: "lMaxTurns add = 0 \<Longrightarrow> lMaxTokens add = 0 \<Longrightarrow> lMaxCostUSD add = 0 \<Longrightarrow> raise l add = l"
  by (cases l) (simp add: raise_def)

lemma PrecludedAfter_zero:
  "Limits_IsZero add \<Longrightarrow> PrecludedAfter (Some m) scope add = PrecludedAll (Some m)"
proof -
  assume "Limits_IsZero add"
  then have r: "raise l add = l" for l by (simp add: Limits_IsZero_def raise_nothing)
  then have "raised_session m scope add = mLimits m"
    "raised_scope m scope add = mget zero_limits (mScopes m)"
    by (auto simp: raised_session_def raised_scope_def Let_def)
  then show ?thesis by (simp add: PrecludedAfter_def PrecludedAll_def)
qed

section \<open>Properties\<close>

text \<open>C38: the meter is well formed in every state a program can bring it to: each scope that
  has ceilings has exactly one accumulator, the counters are 64-bit and the costs float64
  values. So no operation dereferences a missing accumulator: \<^verbatim>\<open>Observe\<close> and
  \<^verbatim>\<open>TripsAfter\<close> always answer, for any event and any hypothetical grant.\<close>

theorem meter_wf_always:
  assumes "distinct (map fst (cfgScopes cfg))" "meter_reach cfg m"
  shows "wf_meter m \<and> (\<exists>r. Observe m e = Some r) \<and> (\<exists>ts. TripsAfter m scope add = Some ts)"
  using meter_reach_wf [OF assms(2,1)] Observe_total TripsAfter_total by blast

theorem meter_wf_always_witness:
  "wf_meter (fst (Grant (New \<lparr>cfgLimits = zero_limits,
       cfgScopes = [(''triage'', zero_limits\<lparr>lMaxTurns := 2\<rparr>)], cfgOnSpend = True, cfgFinalReport = False\<rparr>)
     ''triage'' (zero_limits\<lparr>lMaxTurns := 3\<rparr>)))"
  by (rule meter_wf_always [THEN conjunct1, of "\<lparr>cfgLimits = zero_limits,
       cfgScopes = [(''triage'', zero_limits\<lparr>lMaxTurns := 2\<rparr>)], cfgOnSpend = True, cfgFinalReport = False\<rparr>"])
    (auto intro: reach_step [OF reach_New] step_Grant [OF surjective_pairing])

text \<open>The four token counts a call is priced from are a partition of the prompt the provider
  reported, whatever the provider or the detail extension claims: none is negative, the three
  input buckets add up to the floored prompt, and the one-hour writes are part of the writes.\<close>

theorem callOf_partition:
  "let c = callOf ev (flooredUsage (Some v))
   in cUncachedInputTokens c + cCachedInputTokens c + cCacheWriteTokens c = floorCount (PromptTokenCount v) \<and>
      0 \<le> cUncachedInputTokens c \<and> 0 \<le> cCachedInputTokens c \<and> 0 \<le> cCacheWriteTokens c \<and>
      0 \<le> cCacheWrite1hTokens c \<and> cCacheWrite1hTokens c \<le> cCacheWriteTokens c \<and> 0 \<le> cOutputTokens c"
  by (auto simp: callOf_def fitBucket_def flooredUsage_def floorCount_def Let_def split: option.split)

text \<open>A refusal costs nothing that was affordable. When \<^verbatim>\<open>Allow\<close> refuses an author, a call by
  that author that uses at least one token and adds to the cost as float64 sees it would have
  crossed a ceiling: \<^verbatim>\<open>Observe\<close> of that call reports an error.\<close>

theorem refused_call_would_trip:
  assumes wf: "wf_meter m" and refused: "Allow (Some m) (evAuthor ev) = (mo, Some e)"
    and usage: "evUsageMetadata ev = Some v" "0 < TotalTokenCount v"
    and room: "\<forall>u \<in> set (mTotal m # map snd (mSpent m)). uTokens u + TotalTokenCount v < 2 ^ 63 \<and>
        uCost u < fadd (uCost u) (sCostUSD (spend_of m ev (flooredUsage (Some v))))"
  shows "\<exists>m' s err. Observe m (Some ev) = Some (m', s, Some err)"
proof -
  let ?u = "flooredUsage (Some v)" let ?s = "spend_of m ev ?u" let ?a = "evAuthor ev"
  have tok: "TotalTokenCount ?u = TotalTokenCount v" "0 < TotalTokenCount ?u"
    using usage(2) by (simp_all add: flooredUsage_def floorCount_def)
  have grow: "crossed sc' l (usage_add u (TotalTokenCount ?u) (sCostUSD ?s)) \<noteq> []"
    if "precluded sc l (Some u) \<noteq> []" "u \<in> set (mTotal m # map snd (mSpent m))" "usage_ok u" for sc sc' l u
    using precluded_crossed [OF that(1,3) tok(2)] room that(2) tok(1) by auto
  obtain m' err where obs: "fold_event m ev ?u = Some (m', ?s, err)" "m' = folded m ?s"
      "err = fold_verdict m' ?a"
    using fold_event_total [OF wf, of ev ?u] fold_event_SomeD by (metis prod_cases3)
  have "Precluded (Some m) ?a \<noteq> []" using Allow_cases [OF refused] by auto
  then consider (scope) l u where "map_of (mScopes m) ?a = Some l" "map_of (mSpent m) ?a = Some u"
      "precluded ?a l (Some u) \<noteq> []"
    | (session) "precluded [] (mLimits m) (Some (mTotal m)) \<noteq> []"
    using wf_spent_iff [OF wf, of ?a] by (auto simp: Precluded_def split: option.splits)
  then have "err \<noteq> None"
  proof cases
    case scope
    then have "crossed [] l (usage_add u (TotalTokenCount ?u) (sCostUSD ?s)) \<noteq> []"
      using wf map_of_value [OF scope(2)] map_all_lookup [OF _ scope(2), of usage_ok]
      by (intro grow) (auto simp: wf_meter_def)
    then show ?thesis using scope obs check_None [of l _ "[]"]
      by (auto simp: fold_verdict_def split: option.split)
  next
    case session
    then have "crossed [] (mLimits m) (mTotal m') \<noteq> []"
      using wf obs(2) grow [OF session, of "[]"] by (simp add: wf_meter_def)
    then show ?thesis using obs check_None [of _ _ "[]"]
      by (auto simp: fold_verdict_def check_session_def split: option.split)
  qed
  then show ?thesis using obs(1) usage(1) by (auto simp: Observe_def)
qed

lemmas demo_defs = demo_limits_def demo_event_def demo_meter_def zero_limits_def

lemma demo_spend: "sCostUSD (spend_of demo_meter demo_event (flooredUsage (evUsageMetadata demo_event))) = 1"
  by (simp add: demo_defs spend_of_def New_def flooredUsage_def floorCount_def priceOf_def flatPrice_def
      fold_model_def fold_pricer_def fold_rate_def fmul_def fdiv_def)

theorem refused_call_would_trip_witness:
  "\<exists>m' s err. Observe demo_meter (Some demo_event) = Some (m', s, Some err)"
proof (rule refused_call_would_trip)
  show "wf_meter demo_meter"
    by (simp add: demo_meter_def wf_meter_def New_def usage_ok_def int64_def is_f64_def)
  show "Allow (Some demo_meter) (evAuthor demo_event) =
     (Some (noteRefusal demo_meter (ErrRefused None (TurnsWould 2 1))), Some (ErrRefused None (TurnsWould 2 1)))"
    by (simp add: demo_defs New_def Allow_def allow_def Precluded_def precluded_def)
  show "evUsageMetadata demo_event = Some (the (evUsageMetadata demo_event))"
    "0 < TotalTokenCount (the (evUsageMetadata demo_event))" by (simp_all add: demo_event_def)
  show "\<forall>u \<in> set (mTotal demo_meter # map snd (mSpent demo_meter)).
      uTokens u + TotalTokenCount (the (evUsageMetadata demo_event)) < 2 ^ 63 \<and>
      uCost u < fadd (uCost u) (sCostUSD (spend_of demo_meter demo_event
        (flooredUsage (Some (the (evUsageMetadata demo_event))))))"
    using demo_spend by (simp add: demo_event_def) (simp add: demo_meter_def New_def fadd_def)
qed

text \<open>C13: a client that asks before each call stays inside every turn ceiling. Whatever events
  the models emit, in whatever interleaving of authors, the loop returns, and the calls
  counted for the session and for each specialist with a ceiling are at most that ceiling.\<close>

theorem guarded_within_turns:
  assumes "distinct (map fst (cfgScopes cfg))"
  shows "\<exists>m'. drive meter_ask meter_run (New cfg) evs = Some m' \<and>
     (0 < lMaxTurns (cfgLimits cfg) \<longrightarrow> uCalls (mTotal m') \<le> lMaxTurns (cfgLimits cfg)) \<and>
     (\<forall>a l. map_of (cfgScopes cfg) a = Some l \<longrightarrow> 0 < lMaxTurns l \<longrightarrow> scope_calls a m' \<le> lMaxTurns l)"
proof -
  have wf: "wf_meter (New cfg)" using assms by (rule wf_New)
  obtain m' where m': "drive meter_ask meter_run (New cfg) evs = Some m'"
    using meter_drive_total [OF wf] by blast
  have "0 < lMaxTurns (cfgLimits cfg) \<longrightarrow> uCalls (mTotal m') \<le> lMaxTurns (cfgLimits cfg)"
    using session_cap.drive_capped [OF wf, of evs] m' by (simp add: New_def usage0_def)
  moreover have "scope_calls a m' \<le> lMaxTurns l"
    if "map_of (cfgScopes cfg) a = Some l" "0 < lMaxTurns l" for a l
    using scope_cap.drive_capped [OF wf, of a evs] m' that
    by (simp add: scope_cap_New scope_calls_New)
  ultimately show ?thesis using m' by blast
qed

theorem guarded_within_turns_witness:
  "\<exists>m'. drive meter_ask meter_run
      (New \<lparr>cfgLimits = demo_limits, cfgScopes = [(''triage'', demo_limits)], cfgOnSpend = False, cfgFinalReport = False\<rparr>)
      [demo_event, demo_event, demo_event] = Some m' \<and>
    uCalls (mTotal m') \<le> 1 \<and> scope_calls ''triage'' m' \<le> 1"
proof -
  let ?cfg = "\<lparr>cfgLimits = demo_limits, cfgScopes = [(''triage'', demo_limits)], cfgOnSpend = False, cfgFinalReport = False\<rparr>"
  have "distinct (map fst (cfgScopes ?cfg))" by simp
  from guarded_within_turns [OF this, of "[demo_event, demo_event, demo_event]"]
  obtain m' where m': "drive meter_ask meter_run (New ?cfg) [demo_event, demo_event, demo_event] = Some m'"
      "0 < lMaxTurns (cfgLimits ?cfg) \<longrightarrow> uCalls (mTotal m') \<le> lMaxTurns (cfgLimits ?cfg)"
      "\<forall>a l. map_of (cfgScopes ?cfg) a = Some l \<longrightarrow> 0 < lMaxTurns l \<longrightarrow> scope_calls a m' \<le> lMaxTurns l"
    by (elim exE conjE)
  then show ?thesis using m'(3) [rule_format, of "''triage''" demo_limits]
    by (simp add: demo_limits_def del: drive.simps)
qed

text \<open>What a reset would leave is predicted exactly. When \<^verbatim>\<open>Grant\<close> succeeds, the ceilings the
  meter then reports as crossed and as precluding the next call are the ones \<^verbatim>\<open>TripsAfter\<close> and
  \<^verbatim>\<open>PrecludedAfter\<close> had answered for that grant, without changing the meter.\<close>

theorem grant_as_predicted:
  assumes "[] \<notin> fst ` set (mScopes m)" "Grant m scope add = (m', Inr l)"
  shows "Trips m' = TripsAfter m scope add \<and> PrecludedAll (Some m') = PrecludedAfter (Some m) scope add"
  using assms by (rule Grant_predicts)

theorem grant_as_predicted_witness:
  "Trips (demo_meter\<lparr>mLimits := raise demo_limits demo_limits\<rparr>) = TripsAfter demo_meter [] demo_limits"
proof -
  have "Grant demo_meter [] demo_limits = (demo_meter\<lparr>mLimits := raise demo_limits demo_limits\<rparr>, Inr (raise demo_limits demo_limits))"
    by (simp add: Grant_def Let_def demo_meter_def New_def)
  then show ?thesis
    using grant_as_predicted [of demo_meter "[]" demo_limits] by (simp add: demo_meter_def New_def)
qed

text \<open>A grant never takes anything away and never imposes a ceiling that was not there. Short of
  overflowing the 64-bit counters, every ceiling of the raised limits is at least the old one, and
  a dimension without a ceiling (zero or negative) keeps its value. An author that was allowed a
  call before a grant to any scope is allowed it after.\<close>

theorem grant_only_raises:
  assumes "wf_meter m" "[] \<notin> fst ` set (mScopes m)" "Grant m scope add = (m', Inr l)"
    and "\<forall>x \<in> set (mLimits m # map snd (mScopes m)).
      int64 (lMaxTurns x) \<and> int64 (lMaxTokens x) \<and> is_f64 (lMaxCostUSD x) \<and>
      lMaxTurns x + lMaxTurns add < 2 ^ 63 \<and> lMaxTokens x + lMaxTokens add < 2 ^ 63"
  shows "(Precluded (Some m) a = [] \<longrightarrow> Precluded (Some m') a = []) \<and>
     (lMaxTurns (mLimits m) \<le> 0 \<longrightarrow> lMaxTurns (mLimits m') = lMaxTurns (mLimits m)) \<and>
     (lMaxTokens (mLimits m) \<le> 0 \<longrightarrow> lMaxTokens (mLimits m') = lMaxTokens (mLimits m)) \<and>
     (lMaxCostUSD (mLimits m) \<le> 0 \<longrightarrow> lMaxCostUSD (mLimits m') = lMaxCostUSD (mLimits m))"
proof -
  have session: "looser (mLimits m) (mLimits m')"
    using assms(3,4) raise_looser [of "mLimits m" add]
    by (auto simp: Grant_def Let_def split: if_splits option.splits)
  have scope: "\<exists>y. map_of (mScopes m') a = Some y \<and> looser x y" if "map_of (mScopes m) a = Some x" for x
  proof -
    have "looser x (raise x add)" using map_of_value [OF that] assms(4) by (intro raise_looser) auto
    then show ?thesis using that assms(3)
      by (auto simp: Grant_def Let_def simp del: map_of_eq_Some_iff split: if_splits option.splits)
  qed
  have none: "map_of (mScopes m') a = None" if "map_of (mScopes m) a = None"
    using that assms(3) by (auto simp: Grant_def Let_def split: if_splits option.splits)
  have "Precluded (Some m') a = []" if "Precluded (Some m) a = []"
    using that session scope none looser_precluded Grant_ok(4,5) [OF assms(3,2)]
    by (fastforce simp: Precluded_def split: option.splits)
  then show ?thesis using session by (auto simp: looser_def)
qed

theorem grant_only_raises_witness:
  "Precluded (Some (demo_meter\<lparr>mLimits := raise demo_limits (demo_limits\<lparr>lMaxTokens := 5\<rparr>), mTotal := usage0\<rparr>)) ''triage'' = []"
proof -
  let ?m = "demo_meter\<lparr>mTotal := usage0\<rparr>" let ?add = "demo_limits\<lparr>lMaxTokens := 5\<rparr>"
  have "Precluded (Some ?m) ''triage'' = []"
    by (simp add: demo_defs New_def Precluded_def precluded_def usage0_def)
  moreover have "Grant ?m [] ?add = (?m\<lparr>mLimits := raise demo_limits ?add\<rparr>, Inr (raise demo_limits ?add))"
    by (simp add: Grant_def Let_def demo_meter_def New_def)
  moreover have "wf_meter ?m" by (simp add: demo_meter_def wf_meter_def New_def)
  ultimately show ?thesis
    using grant_only_raises [of ?m "[]" ?add _ _ "''triage''"]
    by (simp add: demo_defs New_def int64_def)
qed

end
