(* ===== verification/Ledger.thy ===== *)
theory Ledger
  imports Go_Float Interfaces
begin

text \<open>
  The two append-only tables of \<^verbatim>\<open>src/internal/eventlog\<close> that make a session's guardrails
  survive a restart: the spend ledger (\<^verbatim>\<open>spend.go\<close>) and the guardrail log
  (\<^verbatim>\<open>guardrail.go\<close>). A table is the list of its rows in the order of their auto-incremented
  keys; a nil store is \<open>None\<close>. The database is outside the repository, so what it answers is
  an argument: the error of a statement (\<open>None\<close> for success), the order in which
  \<^verbatim>\<open>GROUP BY\<close> returns the authors (\<open>groups\<close>) and the float sum \<^verbatim>\<open>SUM(cost_usd)\<close> (\<open>sumf\<close>).
  The clock \<^verbatim>\<open>time.Now()\<close> is the argument \<open>now\<close>.
\<close>

section \<open>The spend ledger (spend.go)\<close>

record spend_record =
  srAuthor :: string
  srTokens :: int
  srCostUSD :: float64
  srUnpriced :: bool
  srAt :: gotime

record spend_totals =
  stTokens :: int
  stCostUSD :: float64
  stCalls :: int

record spend_state =
  ssSession :: spend_totals
  ssByAuthor :: "(string, spend_totals) gomap"
  ssUnpriced :: int

record spend_row =
  swAppName :: string
  swUserID :: string
  swSessionID :: string
  swRec :: spend_record

datatype store_error =
    ErrRequired string string
  | ErrKind string
  | ErrGuardrailRequired
  | ErrDB string

definition zero_totals :: spend_totals where
  "zero_totals = \<lparr>stTokens = 0, stCostUSD = 0, stCalls = 0\<rparr>"

definition zero_spend_state :: spend_state where
  "zero_spend_state = \<lparr>ssSession = zero_totals, ssByAuthor = [], ssUnpriced = 0\<rparr>"

definition Spend_Append ::
  "spend_row list option \<Rightarrow> gotime \<Rightarrow> string option \<Rightarrow> string \<Rightarrow> string \<Rightarrow> string \<Rightarrow> spend_record
   \<Rightarrow> spend_row list option \<times> store_error option" where
  "Spend_Append s now dberr app user sid rec =
     (case s of
        None \<Rightarrow> (None, None)
      | Some rows \<Rightarrow>
          if app = [] \<or> sid = [] then (Some rows, Some (ErrRequired app sid))
          else
            (let stamp = (if srAt rec = 0 then now else srAt rec);
                 row = \<lparr>swAppName = app, swUserID = user, swSessionID = sid, swRec = rec\<lparr>srAt := stamp\<rparr>\<rparr>
             in case dberr of
                 Some e \<Rightarrow> (Some rows, Some (ErrDB e))
               | None \<Rightarrow> (Some (rows @ [row]), None)))"

definition spend_rows :: "spend_row list \<Rightarrow> string \<Rightarrow> string \<Rightarrow> string \<Rightarrow> spend_row list" where
  "spend_rows rows app user sid =
     filter (\<lambda>r. swAppName r = app \<and> swUserID r = user \<and> swSessionID r = sid) rows"

record spend_agg =
  saAuthor :: string
  saTokens :: int
  saCostUSD :: float64
  saCalls :: int
  saUnpriced :: int

definition spend_agg_of :: "(float64 list \<Rightarrow> float64) \<Rightarrow> spend_row list \<Rightarrow> string \<Rightarrow> spend_agg" where
  "spend_agg_of sumf rows a =
     (let rs = map swRec (filter (\<lambda>r. srAuthor (swRec r) = a) rows)
      in \<lparr>saAuthor = a, saTokens = sum_list (map srTokens rs), saCostUSD = sumf (map srCostUSD rs),
          saCalls = int (length rs), saUnpriced = int (length (filter srUnpriced rs))\<rparr>)"

fun fold_aggs :: "spend_state \<Rightarrow> spend_agg list \<Rightarrow> spend_state" where
  "fold_aggs st [] = st"
| "fold_aggs st (a # as) =
     fold_aggs
       \<lparr>ssSession = \<lparr>stTokens = wrap64 (stTokens (ssSession st) + saTokens a),
                      stCostUSD = fadd (stCostUSD (ssSession st)) (saCostUSD a),
                      stCalls = wrap64 (stCalls (ssSession st) + saCalls a)\<rparr>,
        ssByAuthor = AList.update (saAuthor a)
          \<lparr>stTokens = saTokens a, stCostUSD = saCostUSD a, stCalls = saCalls a\<rparr> (ssByAuthor st),
        ssUnpriced = wrap64 (ssUnpriced st + saUnpriced a)\<rparr> as"

definition Spend_Fold ::
  "(string list \<Rightarrow> string list) \<Rightarrow> (float64 list \<Rightarrow> float64) \<Rightarrow> spend_row list option \<Rightarrow> string option
   \<Rightarrow> string \<Rightarrow> string \<Rightarrow> string \<Rightarrow> spend_state \<times> store_error option" where
  "Spend_Fold groups sumf s dberr app user sid =
     (case s of
        None \<Rightarrow> (zero_spend_state, None)
      | Some rows \<Rightarrow>
          (case dberr of
             Some e \<Rightarrow> (zero_spend_state, Some (ErrDB e))
           | None \<Rightarrow>
               (let rs = spend_rows rows app user sid;
                    aggs = map (spend_agg_of sumf rs) (groups (map (\<lambda>r. srAuthor (swRec r)) rs))
                in (fold_aggs zero_spend_state aggs, None))))"

definition Spend_History ::
  "spend_row list option \<Rightarrow> string option \<Rightarrow> string \<Rightarrow> string \<Rightarrow> string \<Rightarrow> spend_record list \<times> store_error option" where
  "Spend_History s dberr app user sid =
     (case s of
        None \<Rightarrow> ([], None)
      | Some rows \<Rightarrow>
          (case dberr of
             Some e \<Rightarrow> ([], Some (ErrDB e))
           | None \<Rightarrow> (map swRec (spend_rows rows app user sid), None)))"

section \<open>The guardrail log (guardrail.go)\<close>

record guardrail_record =
  grKind :: string
  grGuardrail :: string
  grSignal :: string
  grReason :: string
  grCaller :: string
  grBudgetAddedUSD :: float64
  grTokensAdded :: int
  grTurnsAdded :: int
  grGrantScope :: "string option"
  grAt :: gotime

record guardrail_grant =
  ggBudgetAddedUSD :: float64
  ggTokensAdded :: int
  ggTurnsAdded :: int

record guardrail_state =
  gsWatchdogTripped :: bool
  gsWatchdogSignal :: string
  gsWatchdogReason :: string
  gsTrippedAt :: gotime
  gsCostTripped :: bool
  gsCostReason :: string
  gsBudgetAddedUSD :: float64
  gsTokensAdded :: int
  gsTurnsAdded :: int
  gsGrantsByScope :: "(string, guardrail_grant) gomap"

record guardrail_row =
  gwAppName :: string
  gwUserID :: string
  gwSessionID :: string
  gwRec :: guardrail_record

definition GuardrailKindTrip :: string where "GuardrailKindTrip = ''trip''"
definition GuardrailKindReset :: string where "GuardrailKindReset = ''reset''"
definition GuardrailWatchdog :: string where "GuardrailWatchdog = ''watchdog''"
definition GuardrailCostCeiling :: string where "GuardrailCostCeiling = ''cost_ceiling''"
definition GuardrailAll :: string where "GuardrailAll = ''all''"

lemmas guardrail_consts = GuardrailKindTrip_def GuardrailKindReset_def GuardrailWatchdog_def
  GuardrailCostCeiling_def GuardrailAll_def

definition zero_grant :: guardrail_grant where
  "zero_grant = \<lparr>ggBudgetAddedUSD = 0, ggTokensAdded = 0, ggTurnsAdded = 0\<rparr>"

definition zero_guardrail_state :: guardrail_state where
  "zero_guardrail_state =
     \<lparr>gsWatchdogTripped = False, gsWatchdogSignal = [], gsWatchdogReason = [], gsTrippedAt = 0,
      gsCostTripped = False, gsCostReason = [], gsBudgetAddedUSD = 0, gsTokensAdded = 0,
      gsTurnsAdded = 0, gsGrantsByScope = []\<rparr>"

definition Halted :: "guardrail_state \<Rightarrow> bool" where
  "Halted s \<longleftrightarrow> gsWatchdogTripped s \<or> gsCostTripped s"

definition Guardrail_Append ::
  "guardrail_row list option \<Rightarrow> gotime \<Rightarrow> string option \<Rightarrow> string \<Rightarrow> string \<Rightarrow> string \<Rightarrow> guardrail_record
   \<Rightarrow> guardrail_row list option \<times> store_error option" where
  "Guardrail_Append s now dberr app user sid rec =
     (case s of
        None \<Rightarrow> (None, None)
      | Some rows \<Rightarrow>
          if app = [] \<or> sid = [] then (Some rows, Some (ErrRequired app sid))
          else if grKind rec \<noteq> GuardrailKindTrip \<and> grKind rec \<noteq> GuardrailKindReset
          then (Some rows, Some (ErrKind (grKind rec)))
          else if grGuardrail rec = [] then (Some rows, Some ErrGuardrailRequired)
          else
            (let stamp = (if grAt rec = 0 then now else grAt rec);
                 row = \<lparr>gwAppName = app, gwUserID = user, gwSessionID = sid, gwRec = rec\<lparr>grAt := stamp\<rparr>\<rparr>
             in case dberr of
                 Some e \<Rightarrow> (Some rows, Some (ErrDB e))
               | None \<Rightarrow> (Some (rows @ [row]), None)))"

definition guardrail_rows :: "guardrail_row list \<Rightarrow> string \<Rightarrow> string \<Rightarrow> string \<Rightarrow> guardrail_record list" where
  "guardrail_rows rows app user sid =
     map gwRec (filter (\<lambda>r. gwAppName r = app \<and> gwUserID r = user \<and> gwSessionID r = sid) rows)"

definition add_grant :: "guardrail_grant \<Rightarrow> guardrail_record \<Rightarrow> guardrail_grant" where
  "add_grant g r =
     \<lparr>ggBudgetAddedUSD = fadd (ggBudgetAddedUSD g) (grBudgetAddedUSD r),
      ggTokensAdded = wrap64 (ggTokensAdded g + grTokensAdded r),
      ggTurnsAdded = wrap64 (ggTurnsAdded g + grTurnsAdded r)\<rparr>"

definition guardrail_trip :: "guardrail_state \<Rightarrow> guardrail_record \<Rightarrow> guardrail_state" where
  "guardrail_trip st r =
     (if grGuardrail r = GuardrailWatchdog
      then st\<lparr>gsWatchdogTripped := True, gsWatchdogSignal := grSignal r, gsWatchdogReason := grReason r,
              gsTrippedAt := grAt r\<rparr>
      else if grGuardrail r = GuardrailCostCeiling
      then st\<lparr>gsCostTripped := True, gsCostReason := grReason r, gsTrippedAt := grAt r\<rparr>
      else st)"

definition guardrail_reset :: "guardrail_state \<Rightarrow> guardrail_record \<Rightarrow> guardrail_state" where
  "guardrail_reset st r =
     (let st1 = st\<lparr>gsBudgetAddedUSD := fadd (gsBudgetAddedUSD st) (grBudgetAddedUSD r),
                   gsTokensAdded := wrap64 (gsTokensAdded st + grTokensAdded r),
                   gsTurnsAdded := wrap64 (gsTurnsAdded st + grTurnsAdded r)\<rparr>;
          st2 = (case grGrantScope r of
                   None \<Rightarrow> st1
                 | Some sc \<Rightarrow>
                     if grBudgetAddedUSD r \<noteq> 0 \<or> grTokensAdded r \<noteq> 0 \<or> grTurnsAdded r \<noteq> 0
                     then st1\<lparr>gsGrantsByScope :=
                            AList.update sc (add_grant (mget zero_grant (gsGrantsByScope st1) sc) r)
                              (gsGrantsByScope st1)\<rparr>
                     else st1);
          st3 = (if grGuardrail r = GuardrailWatchdog \<or> grGuardrail r = GuardrailAll
                 then st2\<lparr>gsWatchdogTripped := False, gsWatchdogSignal := [], gsWatchdogReason := [],
                          gsTrippedAt := 0\<rparr> else st2)
      in if grGuardrail r = GuardrailCostCeiling \<or> grGuardrail r = GuardrailAll
         then st3\<lparr>gsCostTripped := False, gsCostReason := []\<rparr> else st3)"

definition guardrail_fold1 :: "guardrail_state \<Rightarrow> guardrail_record \<Rightarrow> guardrail_state" where
  "guardrail_fold1 st r =
     (if grKind r = GuardrailKindTrip then guardrail_trip st r
      else if grKind r = GuardrailKindReset then guardrail_reset st r else st)"

definition Guardrail_Fold ::
  "guardrail_row list option \<Rightarrow> string option \<Rightarrow> string \<Rightarrow> string \<Rightarrow> string
   \<Rightarrow> guardrail_state \<times> store_error option" where
  "Guardrail_Fold s dberr app user sid =
     (case s of
        None \<Rightarrow> (zero_guardrail_state, None)
      | Some rows \<Rightarrow>
          (case dberr of
             Some e \<Rightarrow> (zero_guardrail_state, Some (ErrDB e))
           | None \<Rightarrow> (foldl guardrail_fold1 zero_guardrail_state (guardrail_rows rows app user sid), None)))"

definition Guardrail_History ::
  "guardrail_row list option \<Rightarrow> string option \<Rightarrow> string \<Rightarrow> string \<Rightarrow> string
   \<Rightarrow> guardrail_record list \<times> store_error option" where
  "Guardrail_History s dberr app user sid =
     (case s of
        None \<Rightarrow> ([], None)
      | Some rows \<Rightarrow>
          (case dberr of
             Some e \<Rightarrow> ([], Some (ErrDB e))
           | None \<Rightarrow> (guardrail_rows rows app user sid, None)))"

section \<open>What the two tables provide\<close>

type_synonym session_key = "string \<times> string \<times> string"

text \<open>An append the database carried out, by session key.\<close>

definition spend_put :: "gotime \<Rightarrow> spend_row list \<Rightarrow> session_key \<Rightarrow> spend_record \<Rightarrow> spend_row list" where
  "spend_put now rows k rec =
     (case fst (Spend_Append (Some rows) now None (fst k) (fst (snd k)) (snd (snd k)) rec) of
        None \<Rightarrow> rows | Some rs \<Rightarrow> rs)"

definition spend_get :: "spend_row list \<Rightarrow> session_key \<Rightarrow> spend_record list" where
  "spend_get rows k = fst (Spend_History (Some rows) None (fst k) (fst (snd k)) (snd (snd k)))"

definition guardrail_put :: "gotime \<Rightarrow> guardrail_row list \<Rightarrow> session_key \<Rightarrow> guardrail_record \<Rightarrow> guardrail_row list" where
  "guardrail_put now rows k rec =
     (case fst (Guardrail_Append (Some rows) now None (fst k) (fst (snd k)) (snd (snd k)) rec) of
        None \<Rightarrow> rows | Some rs \<Rightarrow> rs)"

definition guardrail_get :: "guardrail_row list \<Rightarrow> session_key \<Rightarrow> guardrail_record list" where
  "guardrail_get rows k = fst (Guardrail_History (Some rows) None (fst k) (fst (snd k)) (snd (snd k)))"

definition spend_accepts :: "session_key \<Rightarrow> spend_record \<Rightarrow> bool" where
  "spend_accepts k r \<longleftrightarrow> fst k \<noteq> [] \<and> snd (snd k) \<noteq> []"

definition guardrail_accepts :: "session_key \<Rightarrow> guardrail_record \<Rightarrow> bool" where
  "guardrail_accepts k r \<longleftrightarrow> fst k \<noteq> [] \<and> snd (snd k) \<noteq> [] \<and>
     (grKind r = GuardrailKindTrip \<or> grKind r = GuardrailKindReset) \<and> grGuardrail r \<noteq> []"

text \<open>What \<^verbatim>\<open>GROUP BY\<close> promises of the groups it returns: each author once, in some order.\<close>

definition groups_ok :: "(string list \<Rightarrow> string list) \<Rightarrow> bool" where
  "groups_ok groups \<longleftrightarrow> (\<forall>xs. distinct (groups xs) \<and> set (groups xs) = set xs)"

text \<open>The records that set and clear a guardrail's latch.\<close>

definition trips_on :: "string \<Rightarrow> guardrail_record \<Rightarrow> bool" where
  "trips_on g r \<longleftrightarrow> grKind r = GuardrailKindTrip \<and> grGuardrail r = g"

definition clears_on :: "string \<Rightarrow> guardrail_record \<Rightarrow> bool" where
  "clears_on g r \<longleftrightarrow> grKind r = GuardrailKindReset \<and> (grGuardrail r = g \<or> grGuardrail r = GuardrailAll)"

definition grants_on :: "string \<Rightarrow> guardrail_record \<Rightarrow> bool" where
  "grants_on sc r \<longleftrightarrow> grKind r = GuardrailKindReset \<and> grGrantScope r = Some sc"

interpretation spend_log: append_log "spend_put now" spend_get spend_accepts
  "\<lambda>r. r\<lparr>srAt := (if srAt r = 0 then now else srAt r)\<rparr>" for now
  by unfold_locales
    (auto simp: spend_put_def spend_get_def Spend_Append_def Spend_History_def spend_accepts_def spend_rows_def Let_def)

interpretation guardrail_log: append_log "guardrail_put now" guardrail_get guardrail_accepts
  "\<lambda>r. r\<lparr>grAt := (if grAt r = 0 then now else grAt r)\<rparr>" for now
  by unfold_locales
    (auto simp: guardrail_put_def guardrail_get_def Guardrail_Append_def Guardrail_History_def
      guardrail_accepts_def guardrail_rows_def Let_def)

section \<open>Lemmas\<close>

lemma fold_aggs_sums:
  "stTokens (ssSession st) = wrap64 t \<Longrightarrow>
     stTokens (ssSession (fold_aggs st aggs)) = wrap64 (t + sum_list (map saTokens aggs))"
  "stCalls (ssSession st) = wrap64 c \<Longrightarrow>
     stCalls (ssSession (fold_aggs st aggs)) = wrap64 (c + sum_list (map saCalls aggs))"
  "ssUnpriced st = wrap64 u \<Longrightarrow>
     ssUnpriced (fold_aggs st aggs) = wrap64 (u + sum_list (map saUnpriced aggs))"
  by (induction st aggs arbitrary: t c u rule: fold_aggs.induct) (auto simp: algebra_simps)

lemma fold_aggs_by_author:
  "distinct (map saAuthor aggs) \<Longrightarrow>
     map_of (ssByAuthor (fold_aggs st aggs)) a =
       (case find (\<lambda>g. saAuthor g = a) aggs of
          None \<Rightarrow> map_of (ssByAuthor st) a
        | Some g \<Rightarrow> Some \<lparr>stTokens = saTokens g, stCostUSD = saCostUSD g, stCalls = saCalls g\<rparr>)"
proof (induction st aggs rule: fold_aggs.induct)
  case (2 st g gs)
  have "find (\<lambda>x. saAuthor x = saAuthor g) gs = None"
    using 2(2) by (auto simp: find_None_iff intro: rev_image_eqI)
  with 2 show ?case by (auto split: option.split)
qed simp

lemma fold_aggs_keys:
  "distinct (map fst (ssByAuthor st)) \<Longrightarrow> distinct (map fst (ssByAuthor (fold_aggs st aggs)))"
  by (induction st aggs rule: fold_aggs.induct) (auto intro: distinct_update)

text \<open>The session totals of the fold are the sums over the rows, however the database grouped them.\<close>

lemma Spend_Fold_session:
  assumes "groups_ok groups" "Spend_Fold groups sumf (Some rows) None app user sid = (st, err)"
  defines "rs \<equiv> map swRec (spend_rows rows app user sid)"
  shows "stTokens (ssSession st) = wrap64 (sum_list (map srTokens rs))"
    "stCalls (ssSession st) = wrap64 (int (length rs))"
    "ssUnpriced st = wrap64 (int (length (filter srUnpriced rs)))"
proof -
  let ?R = "spend_rows rows app user sid"
  let ?gs = "groups (map (\<lambda>r. srAuthor (swRec r)) ?R)"
  have gs: "distinct ?gs" "(\<lambda>r. srAuthor (swRec r)) ` set ?R \<subseteq> set ?gs"
    using assms(1) by (auto simp: groups_ok_def)
  have st: "st = fold_aggs zero_spend_state (map (spend_agg_of sumf ?R) ?gs)"
    using assms(2) by (simp add: Spend_Fold_def Let_def)
  have z: "stTokens (ssSession zero_spend_state) = wrap64 0" "stCalls (ssSession zero_spend_state) = wrap64 0"
    "ssUnpriced zero_spend_state = wrap64 0" by (simp_all add: zero_spend_state_def zero_totals_def)
  show "stTokens (ssSession st) = wrap64 (sum_list (map srTokens rs))"
    using fold_aggs_sums(1) [OF z(1)] sum_groups [OF gs, of "\<lambda>r. srTokens (swRec r)"]
    by (simp add: st spend_agg_of_def rs_def comp_def Let_def)
  show "stCalls (ssSession st) = wrap64 (int (length rs))"
    using fold_aggs_sums(2) [OF z(2)] sum_groups [OF gs, of "\<lambda>r. 1"]
    by (simp add: st spend_agg_of_def rs_def comp_def Let_def int_length_sum)
  show "ssUnpriced st = wrap64 (int (length (filter srUnpriced rs)))"
    using fold_aggs_sums(3) [OF z(3)] sum_groups [OF gs, of "\<lambda>r. if srUnpriced (swRec r) then 1 else 0"]
    by (simp add: st spend_agg_of_def rs_def comp_def Let_def int_filter_sum del: length_filter_map)
qed

lemma Spend_Fold_author:
  assumes "groups_ok groups" "Spend_Fold groups sumf (Some rows) None app user sid = (st, err)"
  defines "rs \<equiv> \<lambda>a. filter (\<lambda>r. srAuthor r = a) (map swRec (spend_rows rows app user sid))"
  shows "map_of (ssByAuthor st) a =
      (if rs a = [] then None
       else Some \<lparr>stTokens = sum_list (map srTokens (rs a)), stCostUSD = sumf (map srCostUSD (rs a)),
                  stCalls = int (length (rs a))\<rparr>)"
    "distinct (map fst (ssByAuthor st))"
proof -
  let ?R = "spend_rows rows app user sid"
  let ?gs = "groups (map (\<lambda>r. srAuthor (swRec r)) ?R)"
  have gs: "distinct ?gs" "set ?gs = (\<lambda>r. srAuthor (swRec r)) ` set ?R"
    using assms(1) by (auto simp: groups_ok_def)
  have st: "st = fold_aggs zero_spend_state (map (spend_agg_of sumf ?R) ?gs)"
    using assms(2) by (simp add: Spend_Fold_def Let_def)
  have au: "saAuthor (spend_agg_of sumf ?R g) = g" for g by (simp add: spend_agg_of_def Let_def)
  have "map saAuthor (map (spend_agg_of sumf ?R) ?gs) = ?gs" by (simp add: au comp_def)
  then have d: "distinct (map saAuthor (map (spend_agg_of sumf ?R) ?gs))" using gs by simp
  have "find (\<lambda>g. saAuthor g = a) (map (spend_agg_of sumf ?R) l) =
      (if a \<in> set l then Some (spend_agg_of sumf ?R a) else None)" for l
    by (induction l) (auto simp: au)
  then show "map_of (ssByAuthor st) a =
      (if rs a = [] then None
       else Some \<lparr>stTokens = sum_list (map srTokens (rs a)), stCostUSD = sumf (map srCostUSD (rs a)),
                  stCalls = int (length (rs a))\<rparr>)"
    using fold_aggs_by_author [OF d, of zero_spend_state a] gs(2)
    by (auto simp: st rs_def spend_agg_of_def zero_spend_state_def filter_map comp_def Let_def filter_empty_conv)
  show "distinct (map fst (ssByAuthor st))"
    unfolding st by (rule fold_aggs_keys) (simp add: zero_spend_state_def)
qed

lemma guardrail_latches:
  "gsWatchdogTripped (foldl guardrail_fold1 zero_guardrail_state rs) \<longleftrightarrow>
     (\<exists>xs r ys. rs = xs @ r # ys \<and> trips_on GuardrailWatchdog r \<and> (\<forall>y \<in> set ys. \<not> clears_on GuardrailWatchdog y))"
  "gsCostTripped (foldl guardrail_fold1 zero_guardrail_state rs) \<longleftrightarrow>
     (\<exists>xs r ys. rs = xs @ r # ys \<and> trips_on GuardrailCostCeiling r \<and> (\<forall>y \<in> set ys. \<not> clears_on GuardrailCostCeiling y))"
  by (rule foldl_latch;
      auto simp: trips_on_def clears_on_def guardrail_fold1_def guardrail_trip_def guardrail_reset_def
        zero_guardrail_state_def guardrail_consts Let_def split: option.split)+

lemma guardrail_fold1_grants:
  "mget zero_grant (gsGrantsByScope (guardrail_fold1 st r)) sc =
     (if grants_on sc r \<and> (grBudgetAddedUSD r \<noteq> 0 \<or> grTokensAdded r \<noteq> 0 \<or> grTurnsAdded r \<noteq> 0)
      then add_grant (mget zero_grant (gsGrantsByScope st) sc) r
      else mget zero_grant (gsGrantsByScope st) sc)"
  by (auto simp: guardrail_fold1_def guardrail_trip_def guardrail_reset_def grants_on_def
      guardrail_consts Let_def split: option.split)

lemma guardrail_grants:
  "ggTokensAdded (mget zero_grant (gsGrantsByScope (foldl guardrail_fold1 zero_guardrail_state rs)) sc) =
     wrap64 (sum_list (map grTokensAdded (filter (grants_on sc) rs)))"
  "ggTurnsAdded (mget zero_grant (gsGrantsByScope (foldl guardrail_fold1 zero_guardrail_state rs)) sc) =
     wrap64 (sum_list (map grTurnsAdded (filter (grants_on sc) rs)))"
proof (induction rs rule: rev_induct)
  case Nil
  { case 1 show ?case by (simp add: zero_guardrail_state_def zero_grant_def) }
  { case 2 show ?case by (simp add: zero_guardrail_state_def zero_grant_def) }
next
  case (snoc r rs)
  { case 1 show ?case using snoc.IH(1) by (auto simp: guardrail_fold1_grants add_grant_def) }
  { case 2 show ?case using snoc.IH(2) by (auto simp: guardrail_fold1_grants add_grant_def) }
qed

section \<open>Properties\<close>

text \<open>A trip is a latch and a reset releases it. Folding the guardrail log of a session says the
  watchdog (or the cost ceiling) is tripped exactly when the log has a trip of that guardrail with
  no later reset of it or of all guardrails; earlier and cleared trips and the other guardrail's
  records do not matter. The grants it replays are, per scope, the sums of what the resets added.\<close>

theorem guardrail_fold_latches:
  "let rs = guardrail_rows rows app user sid;
       st = fst (Guardrail_Fold (Some rows) None app user sid)
   in (gsWatchdogTripped st \<longleftrightarrow>
         (\<exists>xs r ys. rs = xs @ r # ys \<and> trips_on GuardrailWatchdog r \<and> \<not> list_ex (clears_on GuardrailWatchdog) ys)) \<and>
      (gsCostTripped st \<longleftrightarrow>
         (\<exists>xs r ys. rs = xs @ r # ys \<and> trips_on GuardrailCostCeiling r \<and> \<not> list_ex (clears_on GuardrailCostCeiling) ys)) \<and>
      ggTokensAdded (mget zero_grant (gsGrantsByScope st) sc) =
         wrap64 (sum_list (map grTokensAdded (filter (grants_on sc) rs))) \<and>
      ggTurnsAdded (mget zero_grant (gsGrantsByScope st) sc) =
         wrap64 (sum_list (map grTurnsAdded (filter (grants_on sc) rs)))"
  by (simp add: Guardrail_Fold_def guardrail_latches guardrail_grants list_ex_iff Let_def)

text \<open>The tables keep what they were given and keep sessions apart. After any sequence of
  appends to any sessions, the history of one session is what it was, followed by the records
  appended to that session, in order, stamped with the clock where they had no time. Records
  without an application or a session are not stored.\<close>

theorem ledger_history:
  "spend_get (foldl (\<lambda>d (k, r). spend_put now d k r) rows krs) k =
     spend_get rows k @
     map (\<lambda>(_, r). r\<lparr>srAt := (if srAt r = 0 then now else srAt r)\<rparr>)
       (filter (\<lambda>(k', r). k' = k \<and> spend_accepts k' r) krs)"
  using spend_log.history_appends [of now rows krs k] by (simp add: comp_def case_prod_beta)

end
