(* ===== verification/Meter_Pool.thy ===== *)
theory Meter_Pool
  imports Budget Ledger
begin

text \<open>
  The meters of a daemon and how they survive it: \<^verbatim>\<open>src/internal/cli/meterpool.go\<close> (one meter per
  session, its spend recorded in the ledger and folded back after a restart, operator grants
  replayed) and the cost half of the operator's reset in \<^verbatim>\<open>src/internal/cli/guardrails.go\<close>.

  The pool holds its two tables, as the code holds the handles to them; \<open>fresh_pool\<close> is the
  same daemon started again on the same database. The meters' configuration is what
  \<^verbatim>\<open>newMeterPool\<close> composed from the workload bundle. The usage tracker a meter also feeds is
  not part of the model. Logging is not modelled; the counter that decides the log level is.
\<close>

record pool =
  plCfg :: config
  plByID :: "(string, meter) gomap"
  plSpend :: "spend_row list option"
  plGuards :: "guardrail_row list option"
  plApp :: string
  plUser :: string
  plRestored :: "(string, bool) gomap"
  plWriteFailures :: "(string, int) gomap"

definition appName :: string where "appName = ''mast''"
definition defaultUserID :: string where "defaultUserID = ''mast-inject''"

definition newMeterPool :: "config \<Rightarrow> pool" where
  "newMeterPool cfg = \<lparr>plCfg = cfg, plByID = [], plSpend = None, plGuards = None, plApp = [], plUser = [],
     plRestored = [], plWriteFailures = []\<rparr>"

definition durable :: "pool \<Rightarrow> spend_row list option \<Rightarrow> guardrail_row list option \<Rightarrow> pool" where
  "durable mp spend guards =
     mp\<lparr>plSpend := spend, plGuards := guards, plApp := appName, plUser := defaultUserID\<rparr>"

definition pool_meter :: "pool \<Rightarrow> string \<Rightarrow> pool \<times> meter" where
  "pool_meter mp sid =
     (case map_of (plByID mp) sid of
        Some m \<Rightarrow> (mp, m)
      | None \<Rightarrow>
          (let m = New ((plCfg mp)\<lparr>cfgOnSpend := True\<rparr>)
           in (mp\<lparr>plByID := AList.update sid m (plByID mp)\<rparr>, m)))"

definition pool_record :: "pool \<Rightarrow> gotime \<Rightarrow> string option \<Rightarrow> string \<Rightarrow> spend \<Rightarrow> pool" where
  "pool_record mp now dberr sid s =
     (if plSpend mp = None then mp
      else case Spend_Append (plSpend mp) now dberr (plApp mp) (plUser mp) sid
          \<lparr>srAuthor = sAuthor s, srTokens = sTokens s, srCostUSD = sCostUSD s,
           srUnpriced = sUnpriced s, srAt = 0\<rparr> of
          (store, None) \<Rightarrow> mp\<lparr>plSpend := store\<rparr>
        | (store, Some _) \<Rightarrow>
            mp\<lparr>plWriteFailures :=
              AList.update sid (wrap64 (mget 0 (plWriteFailures mp) sid + 1)) (plWriteFailures mp)\<rparr>)"

text \<open>
  One event of a turn reaches the session's meter; the spend it hands to \<^verbatim>\<open>OnSpend\<close> reaches the
  ledger. \<open>None\<close> is the nil dereference of \<open>Observe\<close>.
\<close>

definition pool_observe ::
  "pool \<Rightarrow> gotime \<Rightarrow> string option \<Rightarrow> string \<Rightarrow> event \<Rightarrow> (pool \<times> spend option \<times> error option) option" where
  "pool_observe mp now dberr sid ev =
     (let (mp1, m) = pool_meter mp sid
      in case Observe m (Some ev) of
          None \<Rightarrow> None
        | Some (m', s, err) \<Rightarrow>
            (let mp2 = mp1\<lparr>plByID := AList.update sid m' (plByID mp1)\<rparr>
             in Some (case s of None \<Rightarrow> mp2 | Some sp \<Rightarrow> pool_record mp2 now dberr sid sp, s, err)))"

definition totals_of :: "spend_totals \<Rightarrow> totals" where
  "totals_of t = \<lparr>ttTokens = stTokens t, ttCostUSD = stCostUSD t, ttCalls = stCalls t\<rparr>"

definition prior_of :: "spend_state \<Rightarrow> prior" where
  "prior_of st = \<lparr>pSession = totals_of (ssSession st),
     pByAuthor = map (\<lambda>(a, t). (a, totals_of t)) (ssByAuthor st), pUnpriced = ssUnpriced st\<rparr>"

definition limits_of_grant :: "guardrail_grant \<Rightarrow> limits" where
  "limits_of_grant g = zero_limits\<lparr>lMaxCostUSD := ggBudgetAddedUSD g, lMaxTokens := ggTokensAdded g,
     lMaxTurns := ggTurnsAdded g\<rparr>"

fun replay_grants :: "meter \<Rightarrow> (string, guardrail_grant) gomap \<Rightarrow> meter" where
  "replay_grants m [] = m"
| "replay_grants m ((scope, g) # gs) = replay_grants (fst (Grant m scope (limits_of_grant g))) gs"

definition markRestored :: "pool \<Rightarrow> string \<Rightarrow> pool" where
  "markRestored mp sid = mp\<lparr>plRestored := AList.update sid True (plRestored mp)\<rparr>"

definition pool_restore ::
  "(string list \<Rightarrow> string list) \<Rightarrow> (float64 list \<Rightarrow> float64) \<Rightarrow> string option \<Rightarrow> string option
   \<Rightarrow> pool \<Rightarrow> string \<Rightarrow> pool" where
  "pool_restore groups sumf err1 err2 mp sid =
     (if plSpend mp = None \<or> mget False (plRestored mp) sid then mp
      else case Spend_Fold groups sumf (plSpend mp) err1 (plApp mp) (plUser mp) sid of
          (_, Some _) \<Rightarrow> mp
        | (st, None) \<Rightarrow>
            (case Guardrail_Fold (plGuards mp) err2 (plApp mp) (plUser mp) sid of
               (_, Some _) \<Rightarrow> mp
             | (grants, None) \<Rightarrow>
                 (let prior = prior_of st;
                      (mp1, m) = pool_meter mp sid;
                      (m1, rerr) = (if Prior_IsZero prior then (m, None) else Restore m prior)
                  in case rerr of
                      Some _ \<Rightarrow> markRestored (mp1\<lparr>plByID := AList.update sid m1 (plByID mp1)\<rparr>) sid
                    | None \<Rightarrow>
                        (let m2 = replay_grants m1 (gsGrantsByScope grants)
                         in markRestored (mp1\<lparr>plByID := AList.update sid m2 (plByID mp1)\<rparr>) sid))))"

definition pool_preflight :: "pool \<Rightarrow> string \<Rightarrow> pool \<times> trip list" where
  "pool_preflight mp sid = (let (mp1, m) = pool_meter mp sid in (mp1, PrecludedSession (Some m)))"

section \<open>The operator's reset (guardrails.go)\<close>

record reset_request =
  rqGuardrail :: string
  rqScope :: string
  rqAdditionalBudgetUSD :: float64
  rqAdditionalTokens :: int
  rqAdditionalTurns :: int
  rqCaller :: string

record reset_response =
  rsReset :: "string list"
  rsBudgetAddedUSD :: float64
  rsTokensAdded :: int
  rsTurnsAdded :: int

datatype reset_error =
    ErrNoMeaning string
  | ErrUnknownScope string "string list"
  | ErrGuardrailRetrip "trip list"
  | ErrGrant error

definition tripsForScope :: "trip list \<Rightarrow> string \<Rightarrow> trip list" where
  "tripsForScope trips scope = filter (\<lambda>t. tScope t = scope) trips"

definition scopeLimits :: "meter \<Rightarrow> string \<Rightarrow> limits" where
  "scopeLimits m scope = (if scope = [] then mLimits m else mget zero_limits (mScopes m) scope)"

definition add_of_request :: "reset_request \<Rightarrow> limits" where
  "add_of_request req = zero_limits\<lparr>lMaxCostUSD := rqAdditionalBudgetUSD req,
     lMaxTokens := rqAdditionalTokens req, lMaxTurns := rqAdditionalTurns req\<rparr>"

definition reset_target :: "reset_request \<Rightarrow> string" where
  "reset_target req = (if rqGuardrail req = [] then GuardrailAll else rqGuardrail req)"

definition wantWatchdog :: "reset_request \<Rightarrow> bool" where
  "wantWatchdog req \<longleftrightarrow> reset_target req = GuardrailWatchdog \<or> reset_target req = GuardrailAll"

definition wantCost :: "reset_request \<Rightarrow> bool" where
  "wantCost req \<longleftrightarrow> reset_target req = GuardrailCostCeiling \<or> reset_target req = GuardrailAll"

text \<open>
  \<open>wdFired\<close> says whether the session's watchdog had alerts or a halt to clear. The meter is the
  one \<open>pool_restore\<close> left; \<open>None\<close> is the nil dereference of \<open>Trips\<close>.
\<close>

definition guardrail_view_reset ::
  "bool \<Rightarrow> meter \<Rightarrow> reset_request \<Rightarrow> (meter \<times> (reset_error + reset_response)) option" where
  "guardrail_view_reset wdFired m req =
     (let add = add_of_request req;
          granting = \<not> Limits_IsZero add;
          scope = rqScope req
      in if granting \<and> \<not> wantCost req then Some (m, Inl (ErrNoMeaning (reset_target req)))
         else if scope \<noteq> [] \<and> map_of (mScopes m) scope = None
         then Some (m, Inl (ErrUnknownScope scope (sortedScopesLocked m)))
         else case (if wantCost req then Trips m else Some []) of
             None \<Rightarrow> None
           | Some trips \<Rightarrow>
               (let costTrips = tripsForScope trips scope;
                    remaining = (if wantCost req then tripsForScope (PrecludedAfter (Some m) scope add) scope
                                 else [])
                in if remaining \<noteq> [] then Some (m, Inl (ErrGuardrailRetrip remaining))
                   else
                     (let reset1 = (if wantWatchdog req \<and> wdFired then [GuardrailWatchdog] else []);
                          reset2 = (if wantCost req \<and> costTrips \<noteq> [] then [GuardrailCostCeiling] else []);
                          before = scopeLimits m scope
                      in if wantCost req \<and> granting
                         then case Grant m scope add of
                             (m', Inl e) \<Rightarrow> Some (m', Inl (ErrGrant e))
                           | (m', Inr after) \<Rightarrow>
                               Some (m', Inr \<lparr>rsReset = reset1 @ reset2,
                                 rsBudgetAddedUSD = fl (lMaxCostUSD after - lMaxCostUSD before),
                                 rsTokensAdded = wrap64 (lMaxTokens after - lMaxTokens before),
                                 rsTurnsAdded = wrap64 (lMaxTurns after - lMaxTurns before)\<rparr>)
                         else Some (m, Inr \<lparr>rsReset = reset1 @ reset2, rsBudgetAddedUSD = 0,
                                rsTokensAdded = 0, rsTurnsAdded = 0\<rparr>))))"

definition recordReset ::
  "guardrail_row list option \<Rightarrow> gotime \<Rightarrow> string option \<Rightarrow> string \<Rightarrow> string \<Rightarrow> string \<Rightarrow> reset_request
   \<Rightarrow> string \<Rightarrow> reset_response \<Rightarrow> guardrail_row list option \<times> store_error option" where
  "recordReset store now dberr app user sid req msg resp =
     Guardrail_Append store now dberr app user sid
       \<lparr>grKind = GuardrailKindReset, grGuardrail = reset_target req, grSignal = [], grReason = msg,
        grCaller = rqCaller req, grBudgetAddedUSD = rsBudgetAddedUSD resp,
        grTokensAdded = rsTokensAdded resp, grTurnsAdded = rsTurnsAdded resp,
        grGrantScope = Some (rqScope req), grAt = 0\<rparr>"

section \<open>Restarts\<close>

definition fresh_pool :: "pool \<Rightarrow> pool" where
  "fresh_pool mp = durable (newMeterPool (plCfg mp)) (plSpend mp) (plGuards mp)"

text \<open>
  The life of a session across processes. A turn, or an operator who looks, restores the session,
  and either of the two reads may fail, which lets the turn go on; an event is metered, and its append to the ledger
  may fail, which drops the row; the daemon restarts at any time. \<open>ss\<close> is what the models really
  spent, call by call, whichever process made the call. \<open>dropped\<close> is whether a row was ever dropped,
  \<open>early\<close> whether this process has spent on the session before it had restored it.
\<close>

inductive pool_life ::
  "(string list \<Rightarrow> string list) \<Rightarrow> (float64 list \<Rightarrow> float64) \<Rightarrow> string \<Rightarrow> pool \<Rightarrow> spend list \<Rightarrow> bool \<Rightarrow> bool \<Rightarrow> pool \<Rightarrow> bool"
  for groups sumf sid mp where
  pl_start: "pool_life groups sumf sid mp [] False False mp"
| pl_turn: "pool_life groups sumf sid mp ss dropped early mp1 \<Longrightarrow>
    pool_life groups sumf sid mp ss dropped early (pool_restore groups sumf err1 err2 mp1 sid)"
| pl_ignored: "pool_life groups sumf sid mp ss dropped early mp1 \<Longrightarrow>
    pool_observe mp1 now dberr sid ev = Some (mp2, None, err) \<Longrightarrow> pool_life groups sumf sid mp ss dropped early mp2"
| pl_spent: "pool_life groups sumf sid mp ss dropped early mp1 \<Longrightarrow>
    pool_observe mp1 now dberr sid ev = Some (mp2, Some s, err) \<Longrightarrow>
    pool_life groups sumf sid mp (ss @ [s]) (dropped \<or> dberr \<noteq> None) (early \<or> \<not> mget False (plRestored mp1) sid) mp2"
| pl_restart: "pool_life groups sumf sid mp ss dropped early mp1 \<Longrightarrow>
    pool_life groups sumf sid mp ss dropped False (fresh_pool mp1)"







text \<open>A daemon with an empty ledger, for the witnesses.\<close>

definition demo_pool :: pool where
  "demo_pool = durable (newMeterPool \<lparr>cfgLimits = demo_limits, cfgScopes = [(''triage'', demo_limits)],
     cfgOnSpend = False, cfgFinalReport = False\<rparr>) (Some []) None"

section \<open>Lemmas: the meter and its ledger\<close>
























section \<open>Lemmas: the operator's reset\<close>

lemma tripsForScope_append [simp]:
  "tripsForScope (a @ b) s = tripsForScope a s @ tripsForScope b s"
  by (simp add: tripsForScope_def)

section \<open>Properties\<close>





text \<open>A ledger that cannot be read in time is counted twice. The turn goes on after a failed read, its rows
  are appended, and the next turn that can read the ledger folds them into the meter that has counted them already.\<close>

lemma demo_pool_late:
  "\<exists>mp2 s err m. pool_observe demo_pool 7 None ''s1'' demo_event = Some (mp2, Some s, err) \<and>
     map_of (plByID (pool_restore (dedup_from []) (foldl fadd 0) None None mp2 ''s1'')) ''s1'' = Some m \<and> uCalls (mTotal m) = 2"
  by (simp add: pool_restore_def pool_observe_def demo_pool_def durable_def newMeterPool_def pool_meter_def Observe_def markRestored_def
      Spend_Fold_def spend_rows_def zero_spend_state_def Guardrail_Fold_def Prior_IsZero_def prior_of_def totals_of_def
      fold_event_eq New_def demo_event_def Let_def flooredUsage_def floorCount_def pool_record_def Spend_Append_def
      appName_def defaultUserID_def zero_guardrail_state_def zero_totals_def Restore_def spend_agg_of_def add_totals_def usage0_def
      usage_add_def folded_def)

theorem late_fold_counts_twice:
  "\<exists>s mp m. pool_life (dedup_from []) (foldl fadd 0) ''s1'' demo_pool [s] False True mp \<and>
     map_of (plByID mp) ''s1'' = Some m \<and> uCalls (mTotal m) = 2"
proof -
  have unread: "pool_restore (dedup_from []) (foldl fadd 0) (Some ''locked'') None demo_pool ''s1'' = demo_pool"
    by (simp add: pool_restore_def demo_pool_def durable_def newMeterPool_def Spend_Fold_def)
  obtain mp2 s err m where o: "pool_observe demo_pool 7 None ''s1'' demo_event = Some (mp2, Some s, err)"
    "map_of (plByID (pool_restore (dedup_from []) (foldl fadd 0) None None mp2 ''s1'')) ''s1'' = Some m" "uCalls (mTotal m) = 2"
    using demo_pool_late by blast
  have "\<not> mget False (plRestored demo_pool) ''s1''" by (simp add: demo_pool_def durable_def newMeterPool_def)
  moreover have "pool_life (dedup_from []) (foldl fadd 0) ''s1'' demo_pool [] False False
      (pool_restore (dedup_from []) (foldl fadd 0) (Some ''locked'') None demo_pool ''s1'')"
    by (intro pl_turn pl_start)
  then have "pool_life (dedup_from []) (foldl fadd 0) ''s1'' demo_pool [] False False demo_pool" unfolding unread .
  ultimately have "pool_life (dedup_from []) (foldl fadd 0) ''s1'' demo_pool [s] False True
      (pool_restore (dedup_from []) (foldl fadd 0) None None mp2 ''s1'')"
    using pl_turn [OF pl_spent [OF _ o(1)]] by fastforce
  then show ?thesis using o(2,3) by blast
qed

text \<open>A reset never reports success over a ceiling that still refuses the next call. When the
  operator's reset of the cost guardrail succeeds, nothing precludes the scope it was aimed at;
  when it fails, the meter is as it was.\<close>

theorem reset_clears_or_changes_nothing:
  assumes "[] \<notin> fst ` set (mScopes m)" "guardrail_view_reset wdFired m req = Some (m', r)"
  shows "(\<forall>resp. r = Inr resp \<longrightarrow> wantCost req \<longrightarrow>
            tripsForScope (PrecludedAll (Some m')) (rqScope req) = []) \<and>
         (\<forall>e. r = Inl e \<longrightarrow> m' = m)"
proof (cases "wantCost req \<and> \<not> Limits_IsZero (add_of_request req)")
  case True
  then consider (err) e where "r = Inl e" "m' = m"
    | (ok) l where "Grant m (rqScope req) (add_of_request req) = (m', Inr l)"
        "tripsForScope (PrecludedAfter (Some m) (rqScope req) (add_of_request req)) (rqScope req) = []"
        "\<exists>resp. r = Inr resp"
    using assms(2)
    by (fastforce simp: guardrail_view_reset_def Let_def Grant_def split: if_splits option.splits)
  then show ?thesis
  proof cases
    case ok
    then show ?thesis using Grant_predicts [OF assms(1) ok(1)] by auto
  qed simp
next
  case False
  then show ?thesis using assms(2) PrecludedAfter_zero [of "add_of_request req" m "rqScope req"]
    by (auto simp: guardrail_view_reset_def Let_def split: if_splits option.splits)
qed

theorem reset_clears_or_changes_nothing_witness:
  "tripsForScope (PrecludedAll (Some (demo_meter\<lparr>mLimits := demo_limits\<lparr>lMaxTurns := 3\<rparr>\<rparr>))) [] = []"
proof -
  let ?req = "\<lparr>rqGuardrail = ''cost_ceiling'', rqScope = [], rqAdditionalBudgetUSD = 0, rqAdditionalTokens = 0,
    rqAdditionalTurns = 2, rqCaller = ''ops''\<rparr>"
  have w: "wantCost ?req" by (simp add: wantCost_def reset_target_def guardrail_consts)
  have "guardrail_view_reset False demo_meter ?req = Some (demo_meter\<lparr>mLimits := demo_limits\<lparr>lMaxTurns := 3\<rparr>\<rparr>,
      Inr \<lparr>rsReset = [], rsBudgetAddedUSD = 0, rsTokensAdded = 0, rsTurnsAdded = 2\<rparr>)"
    by (simp add: guardrail_view_reset_def w Let_def add_of_request_def Limits_IsZero_def demo_defs New_def
        Trips_def TripsAfter_def crossed_def raised_session_def raise_def sortedScopesLocked_def
        PrecludedAfter_def precluded_def tripsForScope_def wantWatchdog_def reset_target_def
        guardrail_consts Grant_def scopeLimits_def)
  from reset_clears_or_changes_nothing [OF _ this] w show ?thesis by (simp add: demo_meter_def New_def)
qed

end
