(* ===== verification/Go_Strings.thy ===== *)
theory Go_Strings
  imports Mast_Prelude
begin

text \<open>
  The functions of Go's \<^verbatim>\<open>strings\<close> package the components use, on strings as byte lists.
  \<^verbatim>\<open>unicode.IsSpace\<close> is written out in UTF-8: \<open>go_spaces\<close> lists the encodings of the white
  space characters.
\<close>

definition HasPrefix :: "string \<Rightarrow> string \<Rightarrow> bool" where
  "HasPrefix s p \<longleftrightarrow> take (length p) s = p"

definition go_spaces :: "string list" where
  "go_spaces =
     [[CHR 0x09], [CHR 0x0A], [CHR 0x0B], [CHR 0x0C], [CHR 0x0D], [CHR 0x20],
      [CHR 0xC2, CHR 0x85], [CHR 0xC2, CHR 0xA0], [CHR 0xE1, CHR 0x9A, CHR 0x80],
      [CHR 0xE2, CHR 0x80, CHR 0x80], [CHR 0xE2, CHR 0x80, CHR 0x81], [CHR 0xE2, CHR 0x80, CHR 0x82],
      [CHR 0xE2, CHR 0x80, CHR 0x83], [CHR 0xE2, CHR 0x80, CHR 0x84], [CHR 0xE2, CHR 0x80, CHR 0x85],
      [CHR 0xE2, CHR 0x80, CHR 0x86], [CHR 0xE2, CHR 0x80, CHR 0x87], [CHR 0xE2, CHR 0x80, CHR 0x88],
      [CHR 0xE2, CHR 0x80, CHR 0x89], [CHR 0xE2, CHR 0x80, CHR 0x8A], [CHR 0xE2, CHR 0x80, CHR 0xA8],
      [CHR 0xE2, CHR 0x80, CHR 0xA9], [CHR 0xE2, CHR 0x80, CHR 0xAF], [CHR 0xE2, CHR 0x81, CHR 0x9F],
      [CHR 0xE3, CHR 0x80, CHR 0x80]]"

text \<open>Drop prefixes out of \<open>ps\<close> as long as there is one; an empty prefix is none.\<close>

function strip_any :: "string list \<Rightarrow> string \<Rightarrow> string" where
  "strip_any ps s =
     (case find (\<lambda>p. p \<noteq> [] \<and> HasPrefix s p) ps of
        None \<Rightarrow> s
      | Some p \<Rightarrow> strip_any ps (drop (length p) s))"
  by pat_completeness auto
termination
proof (relation "measure (\<lambda>(ps, s). length s)")
  fix ps s p
  assume "find (\<lambda>p. p \<noteq> [] \<and> HasPrefix s p) ps = Some p"
  then have "p \<noteq> []" "HasPrefix s p" by (auto simp: find_Some_iff)
  then have "s \<noteq> []" by (auto simp: HasPrefix_def)
  with \<open>p \<noteq> []\<close> show "((ps, drop (length p) s), (ps, s)) \<in> measure (\<lambda>(ps, s). length s)"
    by simp
qed simp

declare strip_any.simps [simp del]

definition TrimLeftSpace :: "string \<Rightarrow> string" where
  "TrimLeftSpace s = strip_any go_spaces s"

definition TrimRightSpace :: "string \<Rightarrow> string" where
  "TrimRightSpace s = rev (strip_any (map rev go_spaces) (rev s))"

definition TrimSpace :: "string \<Rightarrow> string" where
  "TrimSpace s = TrimRightSpace (TrimLeftSpace s)"

definition HasSuffix :: "string \<Rightarrow> string \<Rightarrow> bool" where
  "HasSuffix s p \<longleftrightarrow> HasPrefix (rev s) (rev p)"

fun Contains :: "string \<Rightarrow> string \<Rightarrow> bool" where
  "Contains [] p = (p = [])"
| "Contains (c # s) p = (HasPrefix (c # s) p \<or> Contains s p)"

fun Join :: "string list \<Rightarrow> string \<Rightarrow> string" where
  "Join [] sep = []"
| "Join [x] sep = x"
| "Join (x # y # xs) sep = x @ sep @ Join (y # xs) sep"

text \<open>
  \<^verbatim>\<open>strings.ToLower\<close> as far as ASCII text can tell: the ASCII letters, and the two other
  characters whose lower case is an ASCII letter (U+0130 and U+212A). The lower case of every
  other character is not ASCII and is left as it is.
\<close>

definition lower_char :: "char \<Rightarrow> char" where
  "lower_char c = (if CHR ''A'' \<le> c \<and> c \<le> CHR ''Z'' then char_of (of_char c + 32 :: nat) else c)"

fun ToLower :: "string \<Rightarrow> string" where
  "ToLower [] = []"
| "ToLower (c # s) =
     (if HasPrefix (c # s) [CHR 0xC4, CHR 0xB0] then CHR ''i'' # ToLower (drop 1 s)
      else if HasPrefix (c # s) [CHR 0xE2, CHR 0x84, CHR 0xAA] then CHR ''k'' # ToLower (drop 2 s)
      else lower_char c # ToLower s)"

text \<open>\<^verbatim>\<open>%d\<close> of \<^verbatim>\<open>fmt.Sprintf\<close>.\<close>

fun itoa_nat :: "nat \<Rightarrow> string" where
  "itoa_nat n =
     (if n < 10 then [char_of (48 + n)] else itoa_nat (n div 10) @ [char_of (48 + n mod 10)])"

declare itoa_nat.simps [simp del]

definition itoa :: "int \<Rightarrow> string" where
  "itoa i = (if i < 0 then CHR ''-'' # itoa_nat (nat (- i)) else itoa_nat (nat i))"

text \<open>
  \<^verbatim>\<open>path.Clean\<close>: empty and dot elements go, a dot-dot takes the element before it, at the root it
  goes, at the start of a relative path it stays.
\<close>

fun split_slash :: "string \<Rightarrow> string list" where
  "split_slash [] = [[]]"
| "split_slash (c # s) =
     (if c = CHR ''/'' then [] # split_slash s
      else case split_slash s of [] \<Rightarrow> [[c]] | x # xs \<Rightarrow> (c # x) # xs)"

definition clean_push :: "bool \<Rightarrow> string list \<Rightarrow> string \<Rightarrow> string list" where
  "clean_push rooted stack e =
     (if e = [] \<or> e = ''.'' then stack
      else if e = ''..'' then
        (case stack of
           el # rest \<Rightarrow> (if el = ''..'' then e # stack else rest)
         | [] \<Rightarrow> (if rooted then [] else [e]))
      else e # stack)"

definition path_Clean :: "string \<Rightarrow> string" where
  "path_Clean s =
     (let rooted = HasPrefix s ''/'';
          elems = rev (foldl (clean_push rooted) [] (split_slash s));
          out = (if rooted then ''/'' else []) @ Join elems ''/''
      in if out = [] then ''.'' else out)"

section \<open>Lemmas\<close>

lemma HasPrefix_append [simp]: "HasPrefix (p @ s) p"
  by (simp add: HasPrefix_def)

lemma HasPrefix_iff: "HasPrefix s p \<longleftrightarrow> (\<exists>r. s = p @ r)"
  by (auto simp: HasPrefix_def) (metis append_take_drop_id)

lemma strip_any_suffix: "\<exists>u. s = u @ strip_any ps s"
proof (induction ps s rule: strip_any.induct)
  case (1 ps s)
  show ?case
  proof (cases "find (\<lambda>p. p \<noteq> [] \<and> HasPrefix s p) ps")
    case None
    then show ?thesis by (simp add: strip_any.simps)
  next
    case (Some p)
    then obtain u where "drop (length p) s = u @ strip_any ps (drop (length p) s)" using 1 by blast
    moreover have "s = p @ drop (length p) s" using Some by (auto simp: find_Some_iff HasPrefix_iff)
    ultimately have "s = (p @ u) @ strip_any ps (drop (length p) s)" by (metis append_assoc)
    moreover have "strip_any ps s = strip_any ps (drop (length p) s)" using Some
      by (subst strip_any.simps) simp
    ultimately show ?thesis by metis
  qed
qed

text \<open>
  Stripping stops at a byte no prefix contains: what stands from that byte on is kept.
\<close>

lemma strip_any_keeps:
  assumes "c \<notin> set (concat ps)"
  shows "\<exists>w. strip_any ps (v @ c # rest) = w @ c # rest"
proof (induction "length v" arbitrary: v rule: less_induct)
  case less
  let ?s = "v @ c # rest"
  show ?case
  proof (cases "find (\<lambda>p. p \<noteq> [] \<and> HasPrefix ?s p) ps")
    case None
    then show ?thesis by (auto simp: strip_any.simps)
  next
    case (Some p)
    then have p: "p \<in> set ps" "p \<noteq> []" "HasPrefix ?s p" by (auto simp: find_Some_iff)
    then obtain r where r: "v @ c # rest = p @ r" by (auto simp: HasPrefix_iff)
    have "length p \<le> length v"
    proof (rule ccontr)
      assume "\<not> length p \<le> length v"
      then have "c = p ! length v" using r
        by (metis linorder_not_le nth_append nth_append_length)
      then have "c \<in> set p" using \<open>\<not> length p \<le> length v\<close> by simp
      then show False using p(1) assms by auto
    qed
    then have "drop (length p) ?s = drop (length p) v @ c # rest" by simp
    moreover have "length (drop (length p) v) < length v" using p(2) \<open>length p \<le> length v\<close>
      by (cases v) auto
    ultimately show ?thesis using less Some by (subst strip_any.simps) auto
  qed
qed

lemma TrimLeft_keeps:
  assumes "c \<notin> set (concat go_spaces)"
  shows "TrimLeftSpace (c # s) = c # s"
proof -
  have "find (\<lambda>p. p \<noteq> [] \<and> HasPrefix (c # s) p) go_spaces = None"
    using assms by (auto simp: find_None_iff HasPrefix_iff Cons_eq_append_conv)
  then show ?thesis by (simp add: TrimLeftSpace_def strip_any.simps)
qed

lemma TrimSpace_keeps_marker:
  assumes "c \<notin> set (concat go_spaces)" "d \<notin> set (concat go_spaces)"
  shows "HasPrefix (TrimSpace (c # m @ d # s)) (c # m @ [d])"
proof -
  have "d \<notin> set (concat (map rev go_spaces))" using assms(2) by auto
  then obtain w where "strip_any (map rev go_spaces) (rev s @ d # rev (c # m)) = w @ d # rev (c # m)"
    using strip_any_keeps by blast
  then show ?thesis
    by (simp add: TrimSpace_def TrimLeft_keeps [OF assms(1)] TrimRightSpace_def HasPrefix_iff)
qed

end
