(* ===== verification/Precall.thy ===== *)
theory Precall
  imports Meter_Pool Go_Strings
begin

text \<open>
  The gate in front of every model call: \<^verbatim>\<open>src/internal/agent/precall.go\<close> and
  \<^verbatim>\<open>src/internal/agent/finalreport.go\<close>. Before a call the gate is asked; a refused agent reports
  through its \<^verbatim>\<open>finish_task\<close> tool, or in plain text, and a gate that grants a final report lets one
  report-only call through.

  The gate is an argument, as the interface \<^verbatim>\<open>CallGate\<close> is in the code; \<open>final\<close> is \<open>None\<close> where the
  type assertion to \<^verbatim>\<open>FinalReportGate\<close> fails. \<open>show_err\<close> is the text of a refusal. The arguments of
  a synthesised tool call are what the payload function returned; its nil map is \<open>None\<close>. What a
  tool carries besides its declarations is one opaque field.
\<close>

record fdecl =
  fdName :: string
  fdRest :: string

record tool =
  tlFunctionDeclarations :: "fdecl option list"
  tlOther :: string

record tool_config =
  tcMode :: string
  tcAllowed :: "string list"

record req_config =
  rcTools :: "tool option list"
  rcToolConfig :: "tool_config option"

record llm_request =
  lrConfig :: "req_config option"
  lrTools :: "(string, string) gomap"
  lrContents :: "string list"

datatype 'a llm_response = TextResponse string | FinishCall 'a

datatype 'a callback_result = Proceed | Respond "'a llm_response"

definition FinishTaskToolName :: string where "FinishTaskToolName = ''finish_task''"

definition RefusalMarker :: string where
  "RefusalMarker = ''STOPPED '' @ [CHR 0xE2, CHR 0x80, CHR 0x94] @ '' this agent reached a cost ceiling.''"

definition RefusalInstruction :: string where
  "RefusalInstruction =
     ''This agent was stopped before its next model call '' @
     ''because a budget ceiling could not be respected by making it. Its part of the '' @
     ''work is unchecked: do not infer that it found nothing, and say plainly in your '' @
     ''own answer what was not completed. Delegating the same question to it again '' @
     ''will be refused the same way. If other paths remain within budget, use them.''"

definition Refused :: "string \<Rightarrow> bool" where
  "Refused text \<longleftrightarrow> HasPrefix (TrimSpace text) RefusalMarker"

definition RefusalText :: "string \<Rightarrow> string \<Rightarrow> string" where
  "RefusalText agentName reason0 =
     (let text = RefusalMarker @ '' ('' @ agentName @ '') '' @ RefusalInstruction;
          reason = TrimSpace reason0
      in if reason \<noteq> [] then text @ [CHR 0x0A, CHR 0x0A] @ ''Reason: '' @ reason else text)"

section \<open>The final report (finalreport.go)\<close>

definition FinalReportInstruction :: string where
  "FinalReportInstruction =
     ''STOP INVESTIGATING. You have reached your budget '' @
     ''ceiling and this is your final model call: every tool except your report tool '' @
     ''has been withdrawn, and there will be no further turn. Submit your report now, '' @
     ''covering only what you have already established from the evidence above. State '' @
     ''explicitly which parts of your assignment you did not get to, and mark any '' @
     ''conclusion you could not verify as unverified. Do not speculate to fill the gaps '' @
     [CHR 0xE2, CHR 0x80, CHR 0x94] @ '' an incomplete report that is honest about its gaps is what is wanted here.''"

definition finish_decls :: "fdecl option list \<Rightarrow> fdecl option list" where
  "finish_decls ds = filter (\<lambda>d. case d of None \<Rightarrow> False | Some fd \<Rightarrow> fdName fd = FinishTaskToolName) ds"

fun keepOnlyFinishTask :: "tool option list \<Rightarrow> tool option list" where
  "keepOnlyFinishTask [] = []"
| "keepOnlyFinishTask (None # ts) = keepOnlyFinishTask ts"
| "keepOnlyFinishTask (Some t # ts) =
     (let decls = finish_decls (tlFunctionDeclarations t)
      in if decls = [] then keepOnlyFinishTask ts
         else Some \<lparr>tlFunctionDeclarations = decls, tlOther = []\<rparr> # keepOnlyFinishTask ts)"

definition finalReportTools :: "llm_request option \<Rightarrow> tool option list" where
  "finalReportTools req =
     (case req of
        None \<Rightarrow> []
      | Some r \<Rightarrow> (case lrConfig r of None \<Rightarrow> [] | Some c \<Rightarrow> keepOnlyFinishTask (rcTools c)))"

text \<open>\<open>None\<close> is the nil dereference of a request without a configuration.\<close>

definition applyFinalReport :: "llm_request \<Rightarrow> tool option list \<Rightarrow> string \<Rightarrow> llm_request option" where
  "applyFinalReport req tools reason0 =
     (case lrConfig req of
        None \<Rightarrow> None
      | Some c \<Rightarrow>
          (let reason = TrimSpace reason0;
               text = (if reason \<noteq> [] then FinalReportInstruction @ [CHR 0x0A, CHR 0x0A] @ ''Reason: '' @ reason
                       else FinalReportInstruction)
           in Some \<lparr>lrConfig = Some \<lparr>rcTools = tools,
                      rcToolConfig = Some \<lparr>tcMode = ''ANY'', tcAllowed = [FinishTaskToolName]\<rparr>\<rparr>,
                    lrTools = (case map_of (lrTools req) FinishTaskToolName of
                                 Some fn \<Rightarrow> [(FinishTaskToolName, fn)]
                               | None \<Rightarrow> lrTools req),
                    lrContents = lrContents req @ [text]\<rparr>))"

section \<open>The callback (precall.go)\<close>

definition RefuseOnGate ::
  "('g \<Rightarrow> string \<Rightarrow> 'g \<times> 'e option) \<Rightarrow> ('g \<Rightarrow> string \<Rightarrow> 'g \<times> bool) option \<Rightarrow> ('e \<Rightarrow> string)
   \<Rightarrow> (string \<Rightarrow> string \<Rightarrow> 'a option) \<Rightarrow> 'g option \<Rightarrow> string \<Rightarrow> llm_request
   \<Rightarrow> ('g option \<times> llm_request \<times> 'a callback_result) option" where
  "RefuseOnGate gallow final show_err payload gate name req =
     (case gate of
        None \<Rightarrow> Some (None, req, Proceed)
      | Some g \<Rightarrow>
          (case gallow g name of
             (g1, None) \<Rightarrow> Some (Some g1, req, Proceed)
           | (g1, Some err) \<Rightarrow>
               (let hasFinish = (map_of (lrTools req) FinishTaskToolName \<noteq> None);
                    reportTools = finalReportTools (Some req);
                    (g2, granted) =
                      (if hasFinish \<and> reportTools \<noteq> []
                       then (case final of None \<Rightarrow> (g1, False) | Some f \<Rightarrow> f g1 name)
                       else (g1, False));
                    args = (if hasFinish then payload name (show_err err) else None)
                in if granted
                   then map_option (\<lambda>r. (Some g2, r, Proceed)) (applyFinalReport req reportTools (show_err err))
                   else case args of
                       None \<Rightarrow> Some (Some g2, req, Respond (TextResponse (RefusalText name (show_err err))))
                     | Some a \<Rightarrow> Some (Some g2, req, Respond (FinishCall a)))))"

section \<open>The meter as the gate\<close>

definition meter_allow :: "meter \<Rightarrow> string \<Rightarrow> meter \<times> error option" where
  "meter_allow m a =
     (case Allow (Some m) a of (None, e) \<Rightarrow> (m, e) | (Some m', e) \<Rightarrow> (m', e))"

definition meter_final :: "meter \<Rightarrow> string \<Rightarrow> meter \<times> bool" where
  "meter_final m a =
     (case AllowFinalReport (Some m) a of (None, ok) \<Rightarrow> (m, ok) | (Some m', ok) \<Rightarrow> (m', ok))"






definition report_only :: "llm_request \<Rightarrow> bool" where
  "report_only req \<longleftrightarrow>
     (case lrConfig req of
        None \<Rightarrow> False
      | Some c \<Rightarrow>
          rcTools c \<noteq> [] \<and>
          list_all (\<lambda>t. case t of None \<Rightarrow> False
            | Some x \<Rightarrow> tlOther x = [] \<and> tlFunctionDeclarations x \<noteq> [] \<and>
                list_all (\<lambda>d. case d of None \<Rightarrow> False | Some fd \<Rightarrow> fdName fd = FinishTaskToolName)
                  (tlFunctionDeclarations x)) (rcTools c) \<and>
          rcToolConfig c = Some \<lparr>tcMode = ''ANY'', tcAllowed = [FinishTaskToolName]\<rparr> \<and>
          map fst (lrTools req) = [FinishTaskToolName])"

definition demo_request :: llm_request where
  "demo_request = \<lparr>lrConfig = Some \<lparr>rcTools =
       [Some \<lparr>tlFunctionDeclarations = [Some \<lparr>fdName = ''bash'', fdRest = []\<rparr>,
          Some \<lparr>fdName = FinishTaskToolName, fdRest = []\<rparr>], tlOther = ''search''\<rparr>], rcToolConfig = None\<rparr>,
     lrTools = [(''bash'', []), (FinishTaskToolName, [])], lrContents = []\<rparr>"

section \<open>Lemmas\<close>

lemma finish_decls_all:
  "list_all (\<lambda>d. case d of None \<Rightarrow> False | Some fd \<Rightarrow> fdName fd = FinishTaskToolName) (finish_decls ds)"
  by (simp add: finish_decls_def list_all_iff)

lemma keepOnly_all:
  "list_all (\<lambda>t. case t of None \<Rightarrow> False
     | Some x \<Rightarrow> tlOther x = [] \<and> tlFunctionDeclarations x \<noteq> [] \<and>
         list_all (\<lambda>d. case d of None \<Rightarrow> False | Some fd \<Rightarrow> fdName fd = FinishTaskToolName)
           (tlFunctionDeclarations x)) (keepOnlyFinishTask ts)"
  by (induction ts rule: keepOnlyFinishTask.induct) (simp_all add: finish_decls_all Let_def)

lemma finalReportTools_config: "finalReportTools (Some req) \<noteq> [] \<Longrightarrow> \<exists>c. lrConfig req = Some c"
  by (auto simp: finalReportTools_def split: option.splits)

lemma applyFinalReport_only:
  assumes "finalReportTools (Some req) \<noteq> []" "map_of (lrTools req) FinishTaskToolName \<noteq> None"
  shows "\<exists>req'. applyFinalReport req (finalReportTools (Some req)) why = Some req' \<and> report_only req'"
proof -
  obtain c where c: "lrConfig req = Some c" using finalReportTools_config [OF assms(1)] by blast
  obtain fn where fn: "map_of (lrTools req) FinishTaskToolName = Some fn" using assms(2) by blast
  have tools: "finalReportTools (Some req) = keepOnlyFinishTask (rcTools c)"
    using c by (simp add: finalReportTools_def)
  show ?thesis using assms(1) c fn keepOnly_all [of "rcTools c"]
    by (simp add: applyFinalReport_def report_only_def tools Let_def)
qed

text \<open>
  The branches of the callback, for any gate: the call was allowed, or it is the granted report,
  or the model is not called.
\<close>

lemma RefuseOnGate_cases:
  assumes "RefuseOnGate gallow final show_err payload (Some g) name req = r"
  obtains (allowed) g1 where "gallow g name = (g1, None)" "r = Some (Some g1, req, Proceed)"
  | (report) g1 g2 e f req' where "gallow g name = (g1, Some e)" "final = Some f" "f g1 name = (g2, True)"
      "r = Some (Some g2, req', Proceed)" "report_only req'"
  | (refused) g1 e x where "gallow g name = (g1, Some e)" "r = Some (Some g1, req, Respond x)"
  | (withheld) g1 g2 e f x where "gallow g name = (g1, Some e)" "final = Some f" "f g1 name = (g2, False)"
      "r = Some (Some g2, req, Respond x)"
proof -
  obtain g1 er where ga: "gallow g name = (g1, er)" by fastforce
  show thesis
  proof (cases er)
    case None
    with ga assms allowed show thesis by (simp add: RefuseOnGate_def)
  next
    case (Some e)
    show thesis
    proof (cases "map_of (lrTools req) FinishTaskToolName \<noteq> None \<and> finalReportTools (Some req) \<noteq> [] \<and> final \<noteq> None")
      case True
      then obtain f where f: "final = Some f" by blast
      obtain g2 ok where fg: "f g1 name = (g2, ok)" by fastforce
      show thesis
      proof (cases ok)
        case True
        obtain req' where "applyFinalReport req (finalReportTools (Some req)) (show_err e) = Some req'"
            "report_only req'"
          using applyFinalReport_only \<open>_ \<and> _ \<and> _\<close> by blast
        with report [of g1 e f g2 req'] ga Some fg True \<open>_ \<and> _ \<and> _\<close> assms f show thesis
          by (simp add: RefuseOnGate_def Let_def)
      next
        case False
        with withheld [OF _ f] ga Some fg \<open>_ \<and> _ \<and> _\<close> assms f show thesis
          by (auto simp: RefuseOnGate_def Let_def split: option.splits)
      qed
    next
      case False
      with refused ga Some assms show thesis
        by (auto simp: RefuseOnGate_def Let_def split: option.splits if_splits)
    qed
  qed
qed





lemma wf_taken [simp]: "wf_meter (m\<lparr>mFinalReportTaken := x\<rparr>) = wf_meter m"
  by (simp add: wf_meter_def)


lemma FinalReportsTaken_frame [simp]:
  "FinalReportsTaken (Some (noteRefusal m e)) = FinalReportsTaken (Some m)"
  "FinalReportsTaken (Some (folded m s)) = FinalReportsTaken (Some m)"
  by (simp_all add: FinalReportsTaken_def)



lemma taken_kept:
  "meter_step m m' \<Longrightarrow> mget False (mFinalReportTaken m) a \<Longrightarrow> mget False (mFinalReportTaken m') a"
proof (induction rule: meter_step.induct)
  case (step_Observe m e m' s err)
  then show ?case by (auto elim!: Observe_cases dest!: fold_event_SomeD)
next
  case (step_Allow m b m' err)
  then show ?case by (auto dest!: Allow_cases)
next
  case (step_Grant m scope add m' r)
  then show ?case by (auto simp: Grant_def Let_def split: if_splits option.splits)
next
  case (step_Restore m p m' err)
  then show ?case by (auto simp: Restore_def split: if_splits)
next
  case (step_FinalReport m b m' ok)
  then show ?case by (auto simp: AllowFinalReport_def Let_def split: if_splits)
qed

lemma taken_kept_always:
  "meter_step\<^sup>*\<^sup>* m m' \<Longrightarrow> mget False (mFinalReportTaken m) a \<Longrightarrow> mget False (mFinalReportTaken m') a"
  by (induction rule: rtranclp_induct) (auto intro: taken_kept)

lemma marker_ends: "RefusalMarker = CHR ''S'' # butlast (tl RefusalMarker) @ [CHR ''.'']"
  by (simp add: RefusalMarker_def)

section \<open>Properties\<close>



text \<open>An agent gets one final report per session. Once \<^verbatim>\<open>AllowFinalReport\<close> has said yes to an
  author, it says no to that author after any later operations on the meter: observed calls,
  refusals, grants, a restore, reports of other authors.\<close>

theorem final_report_once:
  assumes "AllowFinalReport (Some m) a = (Some m1, True)" "meter_step\<^sup>*\<^sup>* m1 m2"
  shows "AllowFinalReport (Some m2) a = (Some m2, False)"
proof -
  have "mget False (mFinalReportTaken m1) a"
    using assms(1) by (auto simp: AllowFinalReport_def Let_def split: if_splits)
  then show ?thesis using taken_kept_always [OF assms(2)] by (simp add: AllowFinalReport_def)
qed

theorem final_report_once_witness:
  "AllowFinalReport (Some (demo_meter\<lparr>mFinalReport := True, mFinalReportTaken := [(''a'', True)], mLimits := raise demo_limits demo_limits\<rparr>)) ''a'' =
     (Some (demo_meter\<lparr>mFinalReport := True, mFinalReportTaken := [(''a'', True)], mLimits := raise demo_limits demo_limits\<rparr>), False)"
proof (rule final_report_once [of "demo_meter\<lparr>mFinalReport := True\<rparr>"])
  show "AllowFinalReport (Some (demo_meter\<lparr>mFinalReport := True\<rparr>)) ''a'' =
      (Some (demo_meter\<lparr>mFinalReport := True, mFinalReportTaken := [(''a'', True)]\<rparr>), True)"
    by (simp add: AllowFinalReport_def demo_meter_def New_def)
  show "meter_step\<^sup>*\<^sup>* (demo_meter\<lparr>mFinalReport := True, mFinalReportTaken := [(''a'', True)]\<rparr>)
      (demo_meter\<lparr>mFinalReport := True, mFinalReportTaken := [(''a'', True)], mLimits := raise demo_limits demo_limits\<rparr>)"
    by (rule r_into_rtranclp, rule step_Grant [where scope = "[]" and add = demo_limits])
      (simp add: Grant_def demo_meter_def New_def Let_def)
qed

text \<open>A refused agent is recognisable. Every text \<^verbatim>\<open>RefusalText\<close> composes is one \<^verbatim>\<open>Refused\<close>
  recognises, whatever the agent's name and the gate's reason contain.\<close>

theorem refusal_text_recognised: "Refused (RefusalText name reason)"
proof -
  have "CHR ''S'' \<notin> set (concat go_spaces)" "CHR ''.'' \<notin> set (concat go_spaces)"
    by (simp_all add: go_spaces_def)
  note k = TrimSpace_keeps_marker [OF this, of "butlast (tl RefusalMarker)"]
  have "\<exists>s. RefusalText name reason = CHR ''S'' # butlast (tl RefusalMarker) @ CHR ''.'' # s"
    by (simp add: RefusalText_def RefusalMarker_def Let_def)
  then show ?thesis using k marker_ends by (auto simp: Refused_def)
qed

text \<open>The callback never lets an unallowed investigation through. For any gate, a call it lets
  proceed either was allowed by the gate and has its request untouched, or is the granted final
  report, whose request offers the model nothing but the report tool; a refused call never reaches
  the model.\<close>

theorem callback_proceeds_only:
  assumes "RefuseOnGate gallow final show_err payload (Some g) name req = Some (g', req', Proceed)"
  shows "(\<exists>g1. gallow g name = (g1, None) \<and> req' = req \<and> g' = Some g1) \<or>
    (\<exists>g1 g2 e f. gallow g name = (g1, Some e) \<and> final = Some f \<and> f g1 name = (g2, True) \<and>
       g' = Some g2 \<and> report_only req')"
  using assms by (cases rule: RefuseOnGate_cases) auto

lemma demo_report:
  "\<exists>g' req'. RefuseOnGate meter_allow (Some meter_final) (\<lambda>_. []) (\<lambda>_ _. None :: unit option)
     (Some (demo_meter\<lparr>mFinalReport := True\<rparr>)) ''a'' demo_request = Some (g', req', Proceed)"
  by (simp add: RefuseOnGate_def meter_allow_def meter_final_def demo_meter_def demo_limits_def zero_limits_def
      New_def Allow_def allow_def Precluded_def precluded_def demo_request_def finalReportTools_def
      finish_decls_def applyFinalReport_def AllowFinalReport_def noteRefusal_def Let_def)

theorem callback_proceeds_only_witness:
  "\<exists>g' req'. RefuseOnGate meter_allow (Some meter_final) (\<lambda>_. []) (\<lambda>_ _. None :: unit option)
     (Some (demo_meter\<lparr>mFinalReport := True\<rparr>)) ''a'' demo_request = Some (g', req', Proceed) \<and> report_only req'"
proof -
  obtain g' req' where r: "RefuseOnGate meter_allow (Some meter_final) (\<lambda>_. []) (\<lambda>_ _. None :: unit option)
     (Some (demo_meter\<lparr>mFinalReport := True\<rparr>)) ''a'' demo_request = Some (g', req', Proceed)"
    using demo_report by blast
  have "\<nexists>g1. meter_allow (demo_meter\<lparr>mFinalReport := True\<rparr>) ''a'' = (g1, None)"
    by (auto simp: meter_allow_def demo_meter_def demo_limits_def zero_limits_def New_def Allow_def allow_def
        Precluded_def precluded_def)
  with callback_proceeds_only [OF r] r show ?thesis by blast
qed

end
