(* ===== verification/Watchdog.thy ===== *)
theory Watchdog
  imports Go_Strings Interfaces
begin

text \<open>
  The behaviour watchdog of \<^verbatim>\<open>src/internal/watchdog\<close>: the signals that notice a model in a loop
  (\<^verbatim>\<open>watchdog.go\<close>, \<^verbatim>\<open>cycle.go\<close>, \<^verbatim>\<open>failure.go\<close>, \<^verbatim>\<open>dominant.go\<close>, on arguments made comparable by
  \<^verbatim>\<open>canonical.go\<close>), the events it is fed from (\<^verbatim>\<open>bridge.go\<close>), and what follows from an alert:
  feedback to the model (\<^verbatim>\<open>feedback.go\<close>) and a halted session (\<^verbatim>\<open>enforce.go\<close>).

  \<^verbatim>\<open>encoding/json\<close> is the argument \<open>j\<close>, a \<open>codec\<close>; a decoded value is a string or something
  else. Counters of calls are unbounded: they count the calls of one turn or one streak. Alert
  texts are the texts of the code, byte for byte.
\<close>

section \<open>Data\<close>

datatype jval = JStr string | JOther string

record codec =
  cdUnmarshal :: "string \<Rightarrow> (string, jval) gomap option option"
  cdMarshalMap :: "(string, jval) gomap \<Rightarrow> string option"
  cdMarshal :: "jval \<Rightarrow> string option"

datatype severity = SeverityWarn | SeverityCritical

record alert =
  alSignal :: string
  alSeverity :: severity
  alReason :: string
  alGuidance :: string

record toolcall =
  tcName :: string
  tcArgs :: string

record toolresult =
  trName :: string
  trError :: string

definition emdash :: string where "emdash = [CHR 0xE2, CHR 0x80, CHR 0x94]"
definition arrow :: string where "arrow = [CHR 0xE2, CHR 0x86, CHR 0x92]"
definition ellipsis :: string where "ellipsis = [CHR 0xE2, CHR 0x80, CHR 0xA6]"
definition NUL :: string where "NUL = [CHR 0x00]"

definition truncate_text :: "string \<Rightarrow> nat \<Rightarrow> string" where
  "truncate_text s maxLen =
     (if length s \<le> maxLen then s
      else if maxLen \<le> length ellipsis then take maxLen ellipsis
      else let half = (maxLen - length ellipsis) div 2
           in take half s @ ellipsis @ drop (length s - half) s)"

section \<open>Comparable arguments (canonical.go)\<close>

definition pathishKey :: "string \<Rightarrow> bool" where
  "pathishKey k0 =
     (let k = ToLower k0
      in k \<in> set [''target'', ''source'', ''destination'', ''src'', ''dst'', ''cwd''] \<or>
         Contains k ''path'' \<or> Contains k ''file'' \<or> Contains k ''dir'' \<or> Contains k ''folder'')"

definition clean_entry :: "string \<times> jval \<Rightarrow> string \<times> jval" where
  "clean_entry kv =
     (case snd kv of
        JStr s \<Rightarrow> (fst kv, if pathishKey (fst kv) then JStr (path_Clean s) else JStr s)
      | JOther _ \<Rightarrow> kv)"

definition canonicalArgs :: "codec \<Rightarrow> string \<Rightarrow> string" where
  "canonicalArgs j args =
     (if args = [] then []
      else case cdUnmarshal j args of
          None \<Rightarrow> args
        | Some None \<Rightarrow> args
        | Some (Some m) \<Rightarrow>
            (let m' = map clean_entry m
             in if m' = m then args
                else case cdMarshalMap j m' of None \<Rightarrow> args | Some b \<Rightarrow> b))"

definition pathSuffixEquivalent :: "string \<Rightarrow> string \<Rightarrow> bool" where
  "pathSuffixEquivalent a0 b0 =
     (let a = path_Clean a0; b = path_Clean b0
      in if a = b then True
         else if a = [] \<or> b = [] \<or> a = ''.'' \<or> b = ''.'' then False
         else if length a < length b then HasSuffix b (''/'' @ a)
         else HasSuffix a (''/'' @ b))"

definition valueEquivalent :: "codec \<Rightarrow> string \<Rightarrow> jval \<Rightarrow> jval \<Rightarrow> bool" where
  "valueEquivalent j k va vb =
     (case (va, vb) of
        (JStr sa, JStr sb) \<Rightarrow>
          if pathishKey k then pathSuffixEquivalent sa sb
          else cdMarshal j va \<noteq> None \<and> cdMarshal j vb \<noteq> None \<and> cdMarshal j va = cdMarshal j vb
      | _ \<Rightarrow> cdMarshal j va \<noteq> None \<and> cdMarshal j vb \<noteq> None \<and> cdMarshal j va = cdMarshal j vb)"

definition argsEquivalent :: "codec \<Rightarrow> string \<Rightarrow> string \<Rightarrow> bool" where
  "argsEquivalent j a b =
     (if a = b then True
      else let ca = canonicalArgs j a; cb = canonicalArgs j b
           in if ca = cb then True
              else case (cdUnmarshal j ca, cdUnmarshal j cb) of
                  (Some (Some ma), Some (Some mb)) \<Rightarrow>
                    length ma = length mb \<and>
                    list_all (\<lambda>(k, va). case map_of mb k of None \<Rightarrow> False | Some vb \<Rightarrow> valueEquivalent j k va vb) ma
                | _ \<Rightarrow> False)"

section \<open>The same call again and again (watchdog.go)\<close>

record repeated_signal =
  rsThreshold :: int
  rsLastCall :: toolcall
  rsRunLength :: int
  rsTripped :: bool

definition zero_call :: toolcall where "zero_call = \<lparr>tcName = [], tcArgs = []\<rparr>"

definition DefaultRepeatThreshold :: int where "DefaultRepeatThreshold = 5"

definition NewRepeatedToolCallSignal :: "int \<Rightarrow> repeated_signal" where
  "NewRepeatedToolCallSignal threshold =
     \<lparr>rsThreshold = (if threshold < 2 then 2 else threshold), rsLastCall = zero_call,
      rsRunLength = 0, rsTripped = False\<rparr>"

definition repeated_matches :: "codec \<Rightarrow> repeated_signal \<Rightarrow> toolcall \<Rightarrow> bool" where
  "repeated_matches j s tc =
     (rsRunLength s \<noteq> 0 \<and> tcName (rsLastCall s) = tcName tc \<and>
      argsEquivalent j (tcArgs (rsLastCall s)) (tcArgs tc))"

definition repeated_alert :: "toolcall \<Rightarrow> int \<Rightarrow> alert" where
  "repeated_alert tc n =
     \<lparr>alSignal = ''repeated-tool-call'', alSeverity = SeverityCritical,
      alReason = ''agent has called '' @ tcName tc @ '' with identical args '' @ itoa n @
        '' times in a row '' @ emdash @ '' possible tool loop. Args: '' @ truncate_text (tcArgs tc) 200 @
        ''. If the agent is stuck, POST /sessions/{id}/interrupt on the attach surface. The workload'' @ [CHR 0x27] @
        ''s budget ceiling is the hard backstop.'',
      alGuidance = ''you have called '' @ tcName tc @ '' with the same arguments '' @ itoa n @
        '' times in a row. The result will not change on the next attempt. Either use what it already returned, '' @
        ''try a different tool or different arguments, or report what is blocking you.''\<rparr>"

definition repeated_observe :: "codec \<Rightarrow> repeated_signal \<Rightarrow> toolcall \<Rightarrow> repeated_signal \<times> alert option" where
  "repeated_observe j s tc =
     (let s1 = (if repeated_matches j s tc then s\<lparr>rsRunLength := rsRunLength s + 1\<rparr>
                else s\<lparr>rsLastCall := tc, rsRunLength := 1, rsTripped := False\<rparr>)
      in if rsThreshold s1 \<le> rsRunLength s1 \<and> \<not> rsTripped s1
         then (s1\<lparr>rsTripped := True\<rparr>, Some (repeated_alert tc (rsRunLength s1)))
         else (s1, None))"

definition repeated_reset :: "repeated_signal \<Rightarrow> repeated_signal" where
  "repeated_reset s = s\<lparr>rsLastCall := zero_call, rsRunLength := 0, rsTripped := False\<rparr>"

section \<open>The same sequence again and again (cycle.go)\<close>

record cycle_signal =
  csMaxPeriod :: nat
  csCycles :: nat
  csHistory :: "string list"
  csNames :: "string list"
  csTripped :: string

definition DefaultCycleMaxPeriod :: nat where "DefaultCycleMaxPeriod = 4"
definition DefaultCycleRepeats :: nat where "DefaultCycleRepeats = 3"

definition NewAlternatingCycleSignal :: "int \<Rightarrow> int \<Rightarrow> cycle_signal" where
  "NewAlternatingCycleSignal maxPeriod cycles =
     \<lparr>csMaxPeriod = nat (if maxPeriod < 2 then 2 else maxPeriod),
      csCycles = nat (if cycles < 2 then 2 else cycles),
      csHistory = [], csNames = [], csTripped = []\<rparr>"

definition cycle_reset :: "cycle_signal \<Rightarrow> cycle_signal" where
  "cycle_reset s = s\<lparr>csHistory := [], csNames := [], csTripped := []\<rparr>"

fun blockRepeats_from :: "nat \<Rightarrow> string list \<Rightarrow> nat \<Rightarrow> nat \<Rightarrow> bool" where
  "blockRepeats_from 0 tail p i = True"
| "blockRepeats_from (Suc n) tail p i =
     (if length tail \<le> i then True
      else if tail ! i \<noteq> tail ! (i - p) then False
      else blockRepeats_from n tail p (i + 1))"

definition blockRepeats :: "string list \<Rightarrow> nat \<Rightarrow> bool" where
  "blockRepeats tail p = blockRepeats_from (length tail) tail p p"

fun uniform :: "string list \<Rightarrow> bool" where
  "uniform [] = True"
| "uniform (x # xs) = list_all (\<lambda>v. v = x) xs"

fun detectCycle_from :: "nat \<Rightarrow> cycle_signal \<Rightarrow> nat \<Rightarrow> nat" where
  "detectCycle_from 0 s p = 0"
| "detectCycle_from (Suc n) s p =
     (if csMaxPeriod s < p then 0
      else let need = p * csCycles s
           in if length (csHistory s) < need then detectCycle_from n s (p + 1)
              else let tail = keep_last need (csHistory s)
                   in if \<not> blockRepeats tail p \<or> uniform (take p tail) then detectCycle_from n s (p + 1)
                      else p)"

definition detectCycle :: "cycle_signal \<Rightarrow> nat" where
  "detectCycle s = detectCycle_from (csMaxPeriod s) s 2"

fun canonicalRotation_from :: "string list \<Rightarrow> nat \<Rightarrow> nat \<Rightarrow> string \<Rightarrow> string" where
  "canonicalRotation_from block 0 i best = best"
| "canonicalRotation_from block (Suc n) i best =
     (let rot = Join (drop i block @ take i block) [CHR 0x01]
      in canonicalRotation_from block n (i + 1) (if best = [] \<or> rot < best then rot else best))"

definition canonicalRotation :: "string list \<Rightarrow> string" where
  "canonicalRotation block = canonicalRotation_from block (length block) 0 []"

definition call_key :: "codec \<Rightarrow> toolcall \<Rightarrow> string" where
  "call_key j tc = tcName tc @ NUL @ canonicalArgs j (tcArgs tc)"

definition cycle_alert :: "nat \<Rightarrow> string \<Rightarrow> nat \<Rightarrow> alert" where
  "cycle_alert period sq cycles =
     \<lparr>alSignal = ''alternating-tool-cycle'', alSeverity = SeverityCritical,
      alReason = ''agent has repeated the same '' @ itoa (int period) @ ''-call sequence ('' @ sq @ '') '' @
        itoa (int cycles) @ '' times with identical args '' @ emdash @
        '' possible tool loop that the consecutive-repeat detector cannot see. If the agent is stuck, '' @
        ''POST /sessions/{id}/interrupt on the attach surface. The workload'' @ [CHR 0x27] @
        ''s budget ceiling is the hard backstop.'',
      alGuidance = ''you have run the same sequence of calls ('' @ sq @ '') '' @ itoa (int cycles) @
        '' times with the same arguments each time. Nothing in the inputs changed, so nothing in the results did either. '' @
        ''Break the cycle: act on what you already have, change your approach, or report what is blocking you.''\<rparr>"

definition cycle_push :: "codec \<Rightarrow> cycle_signal \<Rightarrow> toolcall \<Rightarrow> cycle_signal" where
  "cycle_push j s tc =
     (let limit = csMaxPeriod s * csCycles s
      in s\<lparr>csHistory := keep_last limit (csHistory s @ [call_key j tc]),
           csNames := keep_last limit (csNames s @ [tcName tc])\<rparr>)"

definition cycle_observe :: "codec \<Rightarrow> cycle_signal \<Rightarrow> toolcall \<Rightarrow> cycle_signal \<times> alert option" where
  "cycle_observe j s tc =
     (let s1 = cycle_push j s tc;
          period = detectCycle s1
      in if period = 0 then (s1\<lparr>csTripped := []\<rparr>, None)
         else let fingerprint = canonicalRotation (keep_last period (csHistory s1))
              in if csTripped s1 = fingerprint then (s1, None)
                 else (s1\<lparr>csTripped := fingerprint\<rparr>,
                       Some (cycle_alert period
                         (Join (keep_last period (csNames s1)) ('' '' @ arrow @ '' '')) (csCycles s1))))"

section \<open>Nothing but failures (failure.go)\<close>

record failure_signal =
  fsThreshold :: int
  fsStreak :: int
  fsNames :: "string list"
  fsLastErr :: string
  fsTripped :: bool

definition DefaultFailureStreak :: int where "DefaultFailureStreak = 3"

definition Failed :: "toolresult \<Rightarrow> bool" where
  "Failed r \<longleftrightarrow> trError r \<noteq> []"

definition NewToolFailureStreakSignal :: "int \<Rightarrow> failure_signal" where
  "NewToolFailureStreakSignal threshold =
     \<lparr>fsThreshold = (if threshold < 2 then 2 else threshold), fsStreak = 0, fsNames = [],
      fsLastErr = [], fsTripped = False\<rparr>"

definition failure_reset :: "failure_signal \<Rightarrow> failure_signal" where
  "failure_reset s = s\<lparr>fsStreak := 0, fsNames := [], fsLastErr := [], fsTripped := False\<rparr>"

definition failure_observe :: "failure_signal \<Rightarrow> toolcall \<Rightarrow> failure_signal \<times> alert option" where
  "failure_observe s tc = (s, None)"

definition distinctNames :: "string list \<Rightarrow> string" where
  "distinctNames names =
     (if names = [] then ''unknown tools''
      else Join (dedup_from [] (map (\<lambda>n. if n = [] then ''unnamed tool'' else n) names)) '', '')"

definition failure_alert :: "int \<Rightarrow> string \<Rightarrow> string \<Rightarrow> alert" where
  "failure_alert n tools lastErr =
     \<lparr>alSignal = ''tool-failure-streak'', alSeverity = SeverityWarn,
      alReason = itoa n @ '' tool calls in a row failed with no successful call in between ('' @ tools @
        ''). The agent has no tool-verified evidence about the state it is being asked to report on; '' @
        ''treat its next answer as unverified. Last error: '' @ truncate_text lastErr 200,
      alGuidance = ''your last '' @ itoa n @ '' tool calls all failed ('' @ tools @
        '') with none succeeding in between, so you have not verified anything about the state you are working on. '' @
        ''Do not describe that state as if you had. Fix the cause, try a different route to the evidence, '' @
        ''or say plainly that you could not reach it. Last error: '' @ truncate_text lastErr 200\<rparr>"

definition failure_result :: "failure_signal \<Rightarrow> toolresult \<Rightarrow> failure_signal \<times> alert option" where
  "failure_result s tr =
     (if \<not> Failed tr then (failure_reset s, None)
      else let s1 = s\<lparr>fsStreak := fsStreak s + 1, fsLastErr := trError tr,
                      fsNames := (if int (length (fsNames s)) < fsThreshold s then fsNames s @ [trName tr]
                                  else fsNames s)\<rparr>
           in if fsStreak s1 < fsThreshold s1 \<or> fsTripped s1 then (s1, None)
              else (s1\<lparr>fsTripped := True\<rparr>,
                    Some (failure_alert (fsStreak s1) (distinctNames (fsNames s1)) (fsLastErr s1))))"

section \<open>One call among the others (dominant.go)\<close>

record dominant_signal =
  dsWindow :: nat
  dsThreshold :: nat
  dsDeferToRepeatRun :: nat
  dsDeferToCyclePeriod :: nat
  dsHistory :: "string list"
  dsNames :: "string list"
  dsTripped :: string

definition NewDominantToolCallSignal :: "int \<Rightarrow> int \<Rightarrow> dominant_signal" where
  "NewDominantToolCallSignal window0 threshold0 =
     (let window = (if window0 < 4 then 4 else window0);
          threshold1 = (if threshold0 < 2 then 2 else threshold0);
          threshold = (if window < threshold1 then window else threshold1)
      in \<lparr>dsWindow = nat window, dsThreshold = nat threshold,
          dsDeferToRepeatRun = nat DefaultRepeatThreshold, dsDeferToCyclePeriod = DefaultCycleMaxPeriod,
          dsHistory = [], dsNames = [], dsTripped = []\<rparr>)"

definition dominant_reset :: "dominant_signal \<Rightarrow> dominant_signal" where
  "dominant_reset s = s\<lparr>dsHistory := [], dsNames := [], dsTripped := []\<rparr>"

fun dominant_scan :: "string list \<Rightarrow> (string \<times> string) list \<Rightarrow> string \<times> string \<times> nat \<Rightarrow> string \<times> string \<times> nat" where
  "dominant_scan hist [] best = best"
| "dominant_scan hist ((k, name) # rest) (bestKey, bestName, best) =
     (if best < count_list hist k then dominant_scan hist rest (k, name, count_list hist k)
      else dominant_scan hist rest (bestKey, bestName, best))"

definition dominant :: "dominant_signal \<Rightarrow> string \<times> string \<times> nat" where
  "dominant s = dominant_scan (dsHistory s) (zip (dsHistory s) (dsNames s)) ([], [], 0)"

fun longestRun_from :: "string \<Rightarrow> string list \<Rightarrow> nat \<Rightarrow> nat \<Rightarrow> nat" where
  "longestRun_from key [] best run = best"
| "longestRun_from key (k # ks) best run =
     (if k \<noteq> key then longestRun_from key ks best 0
      else longestRun_from key ks (if best < run + 1 then run + 1 else best) (run + 1))"

definition longestRun :: "dominant_signal \<Rightarrow> string \<Rightarrow> nat" where
  "longestRun s key = longestRun_from key (dsHistory s) 0 0"

definition deferred :: "dominant_signal \<Rightarrow> string \<Rightarrow> bool" where
  "deferred s key =
     (if 0 < dsDeferToRepeatRun s \<and> dsDeferToRepeatRun s \<le> longestRun s key then True
      else 0 < dsDeferToCyclePeriod s \<and>
        list_ex (\<lambda>p. length (dsHistory s) mod p = 0 \<and> 2 \<le> length (dsHistory s) div p \<and>
            blockRepeats (dsHistory s) p \<and> \<not> uniform (take p (dsHistory s)))
          [2..<dsDeferToCyclePeriod s + 1])"

definition dominant_alert :: "nat \<Rightarrow> nat \<Rightarrow> string \<Rightarrow> alert" where
  "dominant_alert n window name =
     \<lparr>alSignal = ''dominant-tool-call'', alSeverity = SeverityCritical,
      alReason = itoa (int n) @ '' of the agent'' @ [CHR 0x27] @ ''s last '' @ itoa (int window) @
        '' tool calls were the same call ('' @ name @ '') with identical args, interleaved with others '' @ emdash @
        '' a tool loop neither the consecutive-repeat nor the cycle detector can see. If the agent is stuck, '' @
        ''POST /sessions/{id}/interrupt on the attach surface. The workload'' @ [CHR 0x27] @
        ''s budget ceiling is the hard backstop.'',
      alGuidance = itoa (int n) @ '' of your last '' @ itoa (int window) @ '' tool calls were '' @ name @
        '' with the same arguments every time. Interleaving other calls between them does not make the answer change '' @
        emdash @ '' nothing in the inputs moved, so nothing in the results did. Act on what that call already told you, '' @
        ''change your approach, or report what is blocking you.''\<rparr>"

definition dominant_push :: "codec \<Rightarrow> dominant_signal \<Rightarrow> toolcall \<Rightarrow> dominant_signal" where
  "dominant_push j s tc =
     s\<lparr>dsHistory := keep_last (dsWindow s) (dsHistory s @ [call_key j tc]),
       dsNames := keep_last (dsWindow s) (dsNames s @ [tcName tc])\<rparr>"

definition dominant_observe :: "codec \<Rightarrow> dominant_signal \<Rightarrow> toolcall \<Rightarrow> dominant_signal \<times> alert option" where
  "dominant_observe j s tc =
     (let s1 = dominant_push j s tc
      in if length (dsHistory s1) < dsWindow s1 then (s1, None)
         else let (key, name, n) = dominant s1
              in if n < dsThreshold s1 then (s1\<lparr>dsTripped := []\<rparr>, None)
                 else if deferred s1 key then (s1, None)
                 else if dsTripped s1 = key then (s1, None)
                 else (s1\<lparr>dsTripped := key\<rparr>, Some (dominant_alert n (dsWindow s1) name)))"

section \<open>The watchdog (watchdog.go, failure.go)\<close>

datatype signal =
    SRepeated repeated_signal
  | SCycle cycle_signal
  | SFailure failure_signal
  | SDominant dominant_signal

fun Signal_ObserveToolCall :: "codec \<Rightarrow> signal \<Rightarrow> toolcall \<Rightarrow> signal \<times> alert option" where
  "Signal_ObserveToolCall j (SRepeated s) tc = (let (s', a) = repeated_observe j s tc in (SRepeated s', a))"
| "Signal_ObserveToolCall j (SCycle s) tc = (let (s', a) = cycle_observe j s tc in (SCycle s', a))"
| "Signal_ObserveToolCall j (SFailure s) tc = (let (s', a) = failure_observe s tc in (SFailure s', a))"
| "Signal_ObserveToolCall j (SDominant s) tc = (let (s', a) = dominant_observe j s tc in (SDominant s', a))"

text \<open>Only the failure streak implements \<^verbatim>\<open>SignalResultObserver\<close>; the type assertion skips the others.\<close>

fun Signal_ObserveToolResult :: "signal \<Rightarrow> toolresult \<Rightarrow> signal \<times> alert option" where
  "Signal_ObserveToolResult (SFailure s) tr = (let (s', a) = failure_result s tr in (SFailure s', a))"
| "Signal_ObserveToolResult s tr = (s, None)"

fun Signal_Reset :: "signal \<Rightarrow> signal" where
  "Signal_Reset (SRepeated s) = SRepeated (repeated_reset s)"
| "Signal_Reset (SCycle s) = SCycle (cycle_reset s)"
| "Signal_Reset (SFailure s) = SFailure (failure_reset s)"
| "Signal_Reset (SDominant s) = SDominant (dominant_reset s)"

record watchdog =
  wdSignals :: "signal list"
  wdAlerts :: "alert list"

definition NewDefaultWatchdog :: watchdog where
  "NewDefaultWatchdog =
     \<lparr>wdSignals = [SRepeated (NewRepeatedToolCallSignal DefaultRepeatThreshold),
        SCycle (NewAlternatingCycleSignal (int DefaultCycleMaxPeriod) (int DefaultCycleRepeats)),
        SFailure (NewToolFailureStreakSignal DefaultFailureStreak)],
      wdAlerts = []\<rparr>"

definition opt_list :: "'a option \<Rightarrow> 'a list" where
  "opt_list a = (case a of None \<Rightarrow> [] | Some x \<Rightarrow> [x])"

fun feed_signals :: "(signal \<Rightarrow> signal \<times> alert option) \<Rightarrow> signal list \<Rightarrow> signal list \<times> alert list" where
  "feed_signals f [] = ([], [])"
| "feed_signals f (s # ss) =
     (let (s', a) = f s; (ss', as) = feed_signals f ss in (s' # ss', opt_list a @ as))"

definition ObserveToolCall :: "codec \<Rightarrow> watchdog \<Rightarrow> toolcall \<Rightarrow> watchdog" where
  "ObserveToolCall j w tc =
     (let (ss, as) = feed_signals (\<lambda>s. Signal_ObserveToolCall j s tc) (wdSignals w)
      in \<lparr>wdSignals = ss, wdAlerts = wdAlerts w @ as\<rparr>)"

definition ObserveToolResult :: "watchdog \<Rightarrow> toolresult \<Rightarrow> watchdog" where
  "ObserveToolResult w tr =
     (let (ss, as) = feed_signals (\<lambda>s. Signal_ObserveToolResult s tr) (wdSignals w)
      in \<lparr>wdSignals = ss, wdAlerts = wdAlerts w @ as\<rparr>)"

definition Check :: "watchdog \<Rightarrow> watchdog \<times> alert list" where
  "Check w = (w\<lparr>wdAlerts := []\<rparr>, wdAlerts w)"

definition Reset :: "watchdog \<Rightarrow> watchdog" where
  "Reset w = \<lparr>wdSignals = map Signal_Reset (wdSignals w), wdAlerts = []\<rparr>"

section \<open>The events of a turn (bridge.go)\<close>

text \<open>
  A part of an event is a tool call, a tool response (with the text \<^verbatim>\<open>toolResponseError\<close> read from
  it) or something else. The arguments of a call are a decoded map; \<open>seen\<close> is the turn's set of
  keys.
\<close>

datatype part =
    FunctionCall string string "(string, jval) gomap"
  | FunctionResponse string string string
  | OtherPart

record wd_event =
  weParts :: "part list option"
  wePartial :: bool

definition serializeArgs :: "codec \<Rightarrow> (string, jval) gomap \<Rightarrow> string" where
  "serializeArgs j args =
     (if args = [] then ''{}''
      else case cdMarshalMap j args of None \<Rightarrow> ''<unmarshalable-args>'' | Some b \<Rightarrow> b)"

fun observe_parts :: "codec \<Rightarrow> watchdog \<Rightarrow> string list \<Rightarrow> part list \<Rightarrow> bool \<Rightarrow> watchdog \<times> string list \<times> bool" where
  "observe_parts j w seen [] obs = (w, seen, obs)"
| "observe_parts j w seen (FunctionCall cid name args # ps) obs =
     (let a = serializeArgs j args;
          key = (if cid = [] then name @ NUL @ a else cid)
      in if key \<in> set seen then observe_parts j w seen ps obs
         else observe_parts j (ObserveToolCall j w \<lparr>tcName = name, tcArgs = a\<rparr>) (key # seen) ps True)"
| "observe_parts j w seen (p # ps) obs = observe_parts j w seen ps obs"

definition ObserveEvent :: "codec \<Rightarrow> watchdog \<Rightarrow> wd_event \<Rightarrow> string list \<Rightarrow> watchdog \<times> string list \<times> bool" where
  "ObserveEvent j w ev seen =
     (case weParts ev of
        None \<Rightarrow> (w, seen, False)
      | Some ps \<Rightarrow> if wePartial ev then (w, seen, False) else observe_parts j w seen ps False)"

fun result_parts :: "watchdog \<Rightarrow> string list \<Rightarrow> part list \<Rightarrow> bool \<Rightarrow> watchdog \<times> string list \<times> bool" where
  "result_parts w seen [] obs = (w, seen, obs)"
| "result_parts w seen (FunctionResponse rid name err # ps) obs =
     (let key = (if rid = [] then ''result'' @ NUL @ name @ NUL @ err else ''result'' @ NUL @ rid)
      in if key \<in> set seen then result_parts w seen ps obs
         else result_parts (ObserveToolResult w \<lparr>trName = name, trError = err\<rparr>) (key # seen) ps True)"
| "result_parts w seen (p # ps) obs = result_parts w seen ps obs"

definition ObserveToolResults :: "watchdog \<Rightarrow> wd_event \<Rightarrow> string list \<Rightarrow> watchdog \<times> string list \<times> bool" where
  "ObserveToolResults w ev seen =
     (case weParts ev of
        None \<Rightarrow> (w, seen, False)
      | Some ps \<Rightarrow> if wePartial ev then (w, seen, False) else result_parts w seen ps False)"

text \<open>The last component is what \<^verbatim>\<open>onAlert\<close> was called with, in order.\<close>

definition ObserveInto :: "codec \<Rightarrow> watchdog \<Rightarrow> wd_event option \<Rightarrow> string list \<Rightarrow> watchdog \<times> string list \<times> alert list" where
  "ObserveInto j w ev seen =
     (case ev of
        None \<Rightarrow> (w, seen, [])
      | Some e \<Rightarrow>
          (let (w1, seen1, o1) = ObserveEvent j w e seen;
               (w2, seen2, o2) = ObserveToolResults w1 e seen1
           in if o1 \<or> o2 then (let (w3, as) = Check w2 in (w3, seen2, as)) else (w2, seen2, [])))"

fun Tap_from :: "codec \<Rightarrow> watchdog \<Rightarrow> string list \<Rightarrow> wd_event option list \<Rightarrow> watchdog \<times> alert list" where
  "Tap_from j w seen [] = Check w"
| "Tap_from j w seen (e # es) =
     (let (w1, seen1, as) = ObserveInto j w e seen; (w2, bs) = Tap_from j w1 seen1 es in (w2, as @ bs))"

definition Tap :: "codec \<Rightarrow> watchdog \<Rightarrow> wd_event option list \<Rightarrow> watchdog \<times> alert list" where
  "Tap j w es = Tap_from j w [] es"

section \<open>Telling the model (feedback.go)\<close>

datatype mode = ModeWarn | ModeFeedback | ModeEnforce

definition ParseMode :: "string \<Rightarrow> mode option" where
  "ParseMode s =
     (if s = [] \<or> s = ''warn'' then Some ModeWarn
      else if s = ''feedback'' then Some ModeFeedback
      else if s = ''enforce'' then Some ModeEnforce
      else None)"

definition Enforces :: "mode \<Rightarrow> bool" where "Enforces m \<longleftrightarrow> m = ModeEnforce"
definition Feeds :: "mode \<Rightarrow> bool" where "Feeds m \<longleftrightarrow> m = ModeFeedback \<or> m = ModeEnforce"

record feedback =
  fbMode :: mode
  fbPending :: "alert list"

definition MaxPendingFeedback :: nat where "MaxPendingFeedback = 4"

definition NewFeedback :: "mode option \<Rightarrow> feedback" where
  "NewFeedback m = \<lparr>fbMode = (case m of None \<Rightarrow> ModeWarn | Some x \<Rightarrow> x), fbPending = []\<rparr>"

definition Queue :: "feedback option \<Rightarrow> alert list \<Rightarrow> feedback option" where
  "Queue fo alerts =
     (case fo of
        None \<Rightarrow> None
      | Some f \<Rightarrow>
          if alerts = [] then Some f
          else if \<not> Feeds (fbMode f) then Some f
          else Some (f\<lparr>fbPending := keep_last MaxPendingFeedback (fbPending f @ alerts)\<rparr>))"

definition Drain :: "feedback option \<Rightarrow> feedback option \<times> alert list" where
  "Drain fo = (case fo of None \<Rightarrow> (None, []) | Some f \<Rightarrow> (Some (f\<lparr>fbPending := []\<rparr>), fbPending f))"

definition FeedbackHeader :: string where "FeedbackHeader = ''[watchdog]''"

definition LF :: string where "LF = [CHR 0x0A]"

definition FormatFeedback :: "alert list \<Rightarrow> string" where
  "FormatFeedback alerts =
     (if alerts = [] then []
      else FeedbackHeader @ '' Automated observation about your own previous turn '' @ emdash @
        '' this is not a message from the user, and the user cannot see it.'' @ LF @
        concat (map (\<lambda>a. ''- '' @ alSignal a @ '': '' @
          (if alGuidance a = [] then alReason a else alGuidance a) @ LF) alerts) @
        ''Adjust your approach on this turn accordingly.'')"

section \<open>Halting the session (enforce.go)\<close>

record enforcer =
  enMode :: mode
  enRemedy :: string
  enTripped :: bool
  enSignal :: string
  enReason :: string

definition NewEnforcer :: "mode option \<Rightarrow> string \<Rightarrow> enforcer" where
  "NewEnforcer m remedy = \<lparr>enMode = (case m of None \<Rightarrow> ModeWarn | Some x \<Rightarrow> x), enRemedy = remedy,
     enTripped = False, enSignal = [], enReason = []\<rparr>"

definition Enforcer_Observe :: "enforcer option \<Rightarrow> alert \<Rightarrow> enforcer option \<times> bool" where
  "Enforcer_Observe eo a =
     (case eo of
        None \<Rightarrow> (None, False)
      | Some e \<Rightarrow>
          if \<not> Enforces (enMode e) \<or> alSeverity a \<noteq> SeverityCritical \<or> enTripped e then (Some e, False)
          else (Some (e\<lparr>enTripped := True, enSignal := alSignal a,
                  enReason := TrimSpace (''watchdog halted this session ('' @ alSignal a @ ''): '' @
                    alReason a @ '' '' @ enRemedy e)\<rparr>), True))"

definition Adopt :: "enforcer option \<Rightarrow> string \<Rightarrow> string \<Rightarrow> enforcer option \<times> bool" where
  "Adopt eo sig reason0 =
     (case eo of
        None \<Rightarrow> (None, False)
      | Some e \<Rightarrow>
          if \<not> Enforces (enMode e) \<or> enTripped e then (Some e, False)
          else
            (let r1 = TrimSpace reason0;
                 reason = (if r1 = [] then TrimSpace (''watchdog halted this session ('' @ sig @
                             '') before a restart. '' @ enRemedy e) else r1)
             in (Some (e\<lparr>enTripped := True, enSignal := sig, enReason := reason\<rparr>), True)))"

definition Tripped :: "enforcer option \<Rightarrow> bool \<times> string" where
  "Tripped eo = (case eo of None \<Rightarrow> (False, []) | Some e \<Rightarrow> (enTripped e, enReason e))"

text \<open>\<^verbatim>\<open>TrippedError\<close> is the signal and the reason.\<close>

definition Preflight :: "enforcer option \<Rightarrow> (string \<times> string) option" where
  "Preflight eo =
     (case eo of None \<Rightarrow> None | Some e \<Rightarrow> if \<not> enTripped e then None else Some (enSignal e, enReason e))"

definition Enforcer_Reset :: "enforcer option \<Rightarrow> enforcer option" where
  "Enforcer_Reset eo =
     map_option (\<lambda>e. e\<lparr>enTripped := False, enSignal := [], enReason := []\<rparr>) eo"

section \<open>The signals as a family\<close>

fun signal_name :: "signal \<Rightarrow> string" where
  "signal_name (SRepeated s) = ''repeated-tool-call''"
| "signal_name (SCycle s) = ''alternating-tool-cycle''"
| "signal_name (SFailure s) = ''tool-failure-streak''"
| "signal_name (SDominant s) = ''dominant-tool-call''"

text \<open>Any signal, fed calls or results.\<close>

fun Signal_Observe :: "codec \<Rightarrow> signal \<Rightarrow> toolcall + toolresult \<Rightarrow> signal \<times> alert option" where
  "Signal_Observe j s (Inl tc) = Signal_ObserveToolCall j s tc"
| "Signal_Observe j s (Inr tr) = Signal_ObserveToolResult s tr"

text \<open>
  What a call sequence looks like to the cycle detector when nothing is forgotten: its last
  \<open>p * c\<close> keys are \<open>c\<close> copies of one block of \<open>p\<close> keys that are not all the same.
\<close>

definition looping :: "string list \<Rightarrow> nat \<Rightarrow> nat \<Rightarrow> bool" where
  "looping keys c p =
     (p * c \<le> length keys \<and>
      list_all (\<lambda>i. keep_last (p * c) keys ! (i + p) = keep_last (p * c) keys ! i) [0..<p * c - p] \<and>
      \<not> uniform (take p (keep_last (p * c) keys)))"

text \<open>The operations on an enforcer, and a run of them.\<close>

datatype enforcer_op = EObserve alert | EAdopt string string | EReset

fun enforcer_step :: "enforcer \<Rightarrow> enforcer_op \<Rightarrow> enforcer" where
  "enforcer_step e (EObserve a) = (case fst (Enforcer_Observe (Some e) a) of None \<Rightarrow> e | Some e' \<Rightarrow> e')"
| "enforcer_step e (EAdopt sig r) = (case fst (Adopt (Some e) sig r) of None \<Rightarrow> e | Some e' \<Rightarrow> e')"
| "enforcer_step e EReset = (case Enforcer_Reset (Some e) of None \<Rightarrow> e | Some e' \<Rightarrow> e')"

fun halting :: "enforcer_op \<Rightarrow> bool" where
  "halting (EObserve a) = (alSeverity a = SeverityCritical)"
| "halting (EAdopt sig r) = True"
| "halting EReset = False"

text \<open>The key a call part is remembered under.\<close>

definition part_key :: "codec \<Rightarrow> part \<Rightarrow> string option" where
  "part_key j p =
     (case p of FunctionCall cid name args \<Rightarrow> Some (if cid = [] then name @ NUL @ serializeArgs j args else cid)
      | _ \<Rightarrow> None)"

text \<open>A codec that decodes nothing, for the witnesses.\<close>

definition demo_codec :: codec where
  "demo_codec = \<lparr>cdUnmarshal = (\<lambda>_. None), cdMarshalMap = (\<lambda>_. None), cdMarshal = (\<lambda>_. None)\<rparr>"

interpretation repeated: tool_signal "repeated_observe j" repeated_reset "\<lambda>_. ''repeated-tool-call''" alSignal for j
  by unfold_locales
    (auto simp: repeated_observe_def repeated_reset_def repeated_alert_def Let_def split: if_splits)

interpretation cycle: tool_signal "cycle_observe j" cycle_reset "\<lambda>_. ''alternating-tool-cycle''" alSignal for j
  by unfold_locales
    (auto simp: cycle_observe_def cycle_push_def cycle_reset_def cycle_alert_def Let_def split: if_splits)

interpretation failure: tool_signal failure_result failure_reset "\<lambda>_. ''tool-failure-streak''" alSignal
  by unfold_locales
    (auto simp: failure_result_def failure_reset_def failure_alert_def Let_def split: if_splits)

interpretation dominant: tool_signal "dominant_observe j" dominant_reset "\<lambda>_. ''dominant-tool-call''" alSignal for j
  by unfold_locales
    (auto simp: dominant_observe_def dominant_push_def dominant_reset_def dominant_alert_def Let_def
      split: if_splits prod.splits)

interpretation any_signal: tool_signal "Signal_Observe j" Signal_Reset signal_name alSignal for j
proof (unfold_locales, goal_cases)
  case (1 s c)
  then show ?case
    by (cases s; cases c; simp add: repeated.reset_obs cycle.reset_obs failure.reset_obs dominant.reset_obs
        failure_observe_def split: prod.split)
      (metis repeated.reset_obs cycle.reset_obs failure.reset_obs dominant.reset_obs fst_conv)+
next
  case (2 s)
  then show ?case
    by (cases s) (simp_all add: repeated.reset_reset cycle.reset_reset failure.reset_reset dominant.reset_reset)
next
  case (3 s c a)
  then show ?case
    by (cases s; cases c)
      (auto simp: failure_observe_def split: prod.splits,
       (metis repeated.alert_name cycle.alert_name failure.alert_name dominant.alert_name snd_conv)+)
next
  case (4 s c)
  then show ?case by (cases s; cases c) (simp_all split: prod.split)
qed

section \<open>Lemmas: runs and streaks\<close>

lemma repeated_feed:
  assumes "list_all (\<lambda>c. tcName c = tcName (rsLastCall s) \<and> argsEquivalent j (tcArgs (rsLastCall s)) (tcArgs c)) cs"
    and "0 < rsRunLength s" "rsTripped s \<longleftrightarrow> rsThreshold s \<le> rsRunLength s"
  shows "snd (feed (repeated_observe j) s cs) =
    (if rsRunLength s < rsThreshold s \<and> rsThreshold s \<le> rsRunLength s + int (length cs)
     then [repeated_alert (cs ! nat (rsThreshold s - rsRunLength s - 1)) (rsThreshold s)] else [])"
  using assms
proof (induction cs arbitrary: s)
  case (Cons c cs)
  let ?n = "rsRunLength s + 1" let ?T = "rsThreshold s"
  let ?s1 = "s\<lparr>rsRunLength := ?n, rsTripped := (?T \<le> ?n)\<rparr>"
  have m: "repeated_matches j s c" using Cons.prems by (simp add: repeated_matches_def)
  have o: "repeated_observe j s c = (?s1, if ?n = ?T then Some (repeated_alert c ?T) else None)"
    using Cons.prems m by (auto simp: repeated_observe_def Let_def)
  have IH: "snd (feed (repeated_observe j) ?s1 cs) =
      (if ?n < ?T \<and> ?T \<le> ?n + int (length cs) then [repeated_alert (cs ! nat (?T - ?n - 1)) ?T] else [])"
    using Cons.IH [of ?s1] Cons.prems by simp
  consider "?T < ?n" | "?T = ?n" | "?n < ?T" by linarith
  then show ?case
  proof cases
    case 3
    then have "nat (?T - rsRunLength s - 1) = Suc (nat (?T - ?n - 1))" by linarith
    with 3 o IH show ?thesis by (auto simp: Let_def simp del: feed.simps)
  qed (use o IH in \<open>auto simp: Let_def simp del: feed.simps\<close>)
qed simp

lemma failure_feed:
  assumes "list_all Failed rs" "fsTripped s \<longleftrightarrow> fsThreshold s \<le> fsStreak s" "0 \<le> fsStreak s"
    and "fsStreak s < fsThreshold s \<Longrightarrow> int (length (fsNames s)) = fsStreak s"
  shows "snd (feed failure_result s rs) =
    (let k = nat (fsThreshold s - fsStreak s)
     in if fsStreak s < fsThreshold s \<and> k \<le> length rs
        then [failure_alert (fsThreshold s) (distinctNames (fsNames s @ map trName (take k rs))) (trError (rs ! (k - 1)))]
        else [])"
  using assms
proof (induction rs arbitrary: s)
  case (Cons r rs)
  let ?n = "fsStreak s + 1" let ?T = "fsThreshold s"
  let ?names = "if int (length (fsNames s)) < ?T then fsNames s @ [trName r] else fsNames s"
  let ?s1 = "s\<lparr>fsStreak := ?n, fsLastErr := trError r, fsNames := ?names, fsTripped := (?T \<le> ?n)\<rparr>"
  have o: "failure_result s r = (?s1, if ?n = ?T then Some (failure_alert ?n (distinctNames ?names) (trError r)) else None)"
    using Cons.prems by (auto simp: failure_result_def Let_def)
  have IH: "snd (feed failure_result ?s1 rs) =
      (let k = nat (?T - ?n)
       in if ?n < ?T \<and> k \<le> length rs
          then [failure_alert ?T (distinctNames (?names @ map trName (take k rs))) (trError (rs ! (k - 1)))] else [])"
    using Cons.IH [of ?s1] Cons.prems by (simp add: Let_def)
  consider "?T < ?n" | "?T = ?n" | "?n < ?T" by linarith
  then show ?case
  proof cases
    case 2
    then have "?names = fsNames s @ [trName r]" "nat (?T - fsStreak s) = 1" using Cons.prems by auto
    with 2 o IH show ?thesis by (auto simp: Let_def simp del: feed.simps)
  next
    case 3
    then have "?names = fsNames s @ [trName r]" "nat (?T - fsStreak s) = Suc (nat (?T - ?n))"
      "0 < nat (?T - ?n)" using Cons.prems by auto
    with 3 o IH show ?thesis by (auto simp: Let_def nth_Cons' simp del: feed.simps)
  qed (use o IH in \<open>auto simp: Let_def simp del: feed.simps\<close>)
qed (simp add: Let_def)

section \<open>Lemmas: cycles\<close>

lemma blockRepeats_from_iff:
  "length tail \<le> n + i \<Longrightarrow> p \<le> i \<Longrightarrow>
     blockRepeats_from n tail p i \<longleftrightarrow> (\<forall>k. i \<le> k \<and> k < length tail \<longrightarrow> tail ! k = tail ! (k - p))"
proof (induction n tail p i rule: blockRepeats_from.induct)
  case (2 n tail p i)
  show ?case
  proof (cases "length tail \<le> i")
    case False
    have split: "i \<le> k \<longleftrightarrow> k = i \<or> i + 1 \<le> k" for k by auto
    have "(\<forall>k. i \<le> k \<and> k < length tail \<longrightarrow> tail ! k = tail ! (k - p)) \<longleftrightarrow>
        tail ! i = tail ! (i - p) \<and> (\<forall>k. i + 1 \<le> k \<and> k < length tail \<longrightarrow> tail ! k = tail ! (k - p))"
      unfolding split using False by fastforce
    with 2 False show ?thesis by auto
  qed auto
qed auto

lemma blockRepeats_iff:
  "blockRepeats tail p \<longleftrightarrow> (\<forall>k. p \<le> k \<and> k < length tail \<longrightarrow> tail ! k = tail ! (k - p))"
  by (simp add: blockRepeats_def blockRepeats_from_iff)

lemma blockRepeats_shift:
  "blockRepeats tail p \<longleftrightarrow> list_all (\<lambda>i. tail ! (i + p) = tail ! i) [0..<length tail - p]"
proof -
  have "(\<forall>k. p \<le> k \<and> k < length tail \<longrightarrow> tail ! k = tail ! (k - p)) \<longleftrightarrow>
      (\<forall>i < length tail - p. tail ! (i + p) = tail ! i)" (is "?L \<longleftrightarrow> ?R")
  proof
    assume ?L
    then show ?R by (metis add_diff_cancel_right' le_add2 less_diff_conv)
  next
    assume ?R
    then show ?L by (metis diff_less_mono le_add_diff_inverse2)
  qed
  then show ?thesis by (auto simp: blockRepeats_iff list_all_iff)
qed

lemma looping_code:
  "looping keys c p \<longleftrightarrow> p * c \<le> length keys \<and> blockRepeats (keep_last (p * c) keys) p \<and>
     \<not> uniform (take p (keep_last (p * c) keys))"
  by (auto simp: looping_def blockRepeats_shift min_def)

lemma detectCycle_from_eq:
  "csMaxPeriod s < p + n \<Longrightarrow>
     detectCycle_from n s p = (case filter (looping (csHistory s) (csCycles s)) [p..<csMaxPeriod s + 1] of [] \<Rightarrow> 0 | q # _ \<Rightarrow> q)"
proof (induction n s p rule: detectCycle_from.induct)
  case (2 n s p)
  show ?case
  proof (cases "csMaxPeriod s < p")
    case False
    then have "[p..<csMaxPeriod s + 1] = p # [p + 1..<csMaxPeriod s + 1]" by (simp add: upt_rec)
    with 2 False show ?thesis by (auto simp: looping_code Let_def simp del: upt_Suc)
  qed simp
qed simp

lemma detectCycle_eq:
  "detectCycle s =
     (case filter (looping (csHistory s) (csCycles s)) [2..<csMaxPeriod s + 1] of [] \<Rightarrow> 0 | q # _ \<Rightarrow> q)"
  unfolding detectCycle_def by (rule detectCycle_from_eq) simp

lemma keep_last_keep_last: "m \<le> n \<Longrightarrow> keep_last m (keep_last n xs) = keep_last m xs"
  by (cases "length xs \<le> n") (auto simp: keep_last_def min_def)

lemma looping_keep_last: "p * c \<le> n \<Longrightarrow> looping (keep_last n keys) c p \<longleftrightarrow> looping keys c p"
  by (auto simp: looping_def keep_last_keep_last min_def)

lemma cycle_feed_state:
  assumes "csHistory s = keep_last (csMaxPeriod s * csCycles s) pre"
  shows "let s' = fst (feed (cycle_observe j) s cs)
    in csHistory s' = keep_last (csMaxPeriod s * csCycles s) (pre @ map (call_key j) cs) \<and>
       csMaxPeriod s' = csMaxPeriod s \<and> csCycles s' = csCycles s"
  using assms
proof (induction cs arbitrary: s pre)
  case (Cons c cs)
  let ?L = "csMaxPeriod s * csCycles s"
  obtain s1 a where o: "cycle_observe j s c = (s1, a)" by fastforce
  have "csHistory s1 = keep_last ?L (csHistory s @ [call_key j c]) \<and> csMaxPeriod s1 = csMaxPeriod s \<and> csCycles s1 = csCycles s"
    using o by (auto simp: cycle_observe_def cycle_push_def Let_def split: if_splits)
  moreover have "keep_last ?L (csHistory s @ [call_key j c]) = keep_last ?L (pre @ [call_key j c])"
    using Cons.prems by (simp add: keep_last_append)
  ultimately show ?case
    using Cons.IH [of s1 "pre @ [call_key j c]"] o by (simp add: Let_def del: feed.simps)
qed simp

lemma Join_nonempty: "xs \<noteq> [] \<Longrightarrow> list_all (\<lambda>x. x \<noteq> []) xs \<Longrightarrow> Join xs sep \<noteq> []"
  by (induction xs sep rule: Join.induct) auto

lemma canonicalRotation_from_Min:
  assumes "list_all (\<lambda>x. x \<noteq> []) block" "i + n \<le> length block" "best \<noteq> []"
  shows "canonicalRotation_from block n i best =
    Min (insert best ((\<lambda>k. Join (rotate k block) [CHR 0x01]) ` {i..<i + n}))"
  using assms
proof (induction n arbitrary: i best)
  case (Suc n)
  let ?J = "\<lambda>k. Join (rotate k block) [CHR 0x01]"
  have i: "i < length block" using Suc.prems by simp
  have rot: "drop i block @ take i block = rotate i block"
    using i by (simp add: rotate_drop_take)
  have ne: "?J i \<noteq> []" using i Suc.prems(1) by (intro Join_nonempty) (auto simp: list_all_iff)
  have set: "{i..<i + Suc n} = insert i {i + 1..<i + 1 + n}" by auto
  let ?b = "if ?J i < best then ?J i else best"
  have "canonicalRotation_from block (Suc n) i best = canonicalRotation_from block n (i + 1) ?b"
    using Suc.prems(3) by (simp add: rot)
  also have "\<dots> = Min (insert ?b (?J ` {i + 1..<i + 1 + n}))"
    using Suc.IH [of "i + 1" ?b] Suc.prems ne by simp
  also have "\<dots> = Min (insert best (?J ` {i..<i + Suc n}))"
  proof -
    have b: "?b = min best (?J i)" by (auto simp: min_def)
    show ?thesis unfolding set b
      by (cases "{i + 1..<i + 1 + n} = {}") (simp_all add: min.assoc min.left_commute)
  qed
  finally show ?case .
qed simp

lemma canonicalRotation_Min:
  assumes "block \<noteq> []" "list_all (\<lambda>x. x \<noteq> []) block"
  shows "canonicalRotation block = Min ((\<lambda>k. Join (rotate k block) [CHR 0x01]) ` {0..<length block})"
proof -
  let ?J = "\<lambda>k. Join (rotate k block) [CHR 0x01]"
  obtain n where n: "length block = Suc n" using assms(1) by (cases block) auto
  have "canonicalRotation block = canonicalRotation_from block n 1 (?J 0)"
    by (simp add: canonicalRotation_def n)
  also have "\<dots> = Min (insert (?J 0) (?J ` {1..<1 + n}))"
    using assms n by (intro canonicalRotation_from_Min Join_nonempty) auto
  also have "insert (?J 0) (?J ` {1..<1 + n}) = ?J ` {0..<length block}"
  proof -
    have "{0..<length block} = insert 0 {1..<1 + n}" using n by auto
    then show ?thesis by simp
  qed
  finally show ?thesis .
qed

lemma rotations_rotate:
  "xs \<noteq> [] \<Longrightarrow> (\<lambda>k. rotate k (rotate n xs)) ` {0..<length xs} = (\<lambda>k. rotate k xs) ` {0..<length xs}"
proof (intro equalityI subsetI)
  fix ys assume xs: "xs \<noteq> []" and "ys \<in> (\<lambda>k. rotate k (rotate n xs)) ` {0..<length xs}"
  then obtain k where "ys = rotate ((k + n) mod length xs) xs"
    by (auto simp: rotate_rotate simp flip: rotate_conv_mod)
  with xs show "ys \<in> (\<lambda>k. rotate k xs) ` {0..<length xs}" by auto
next
  fix ys assume xs: "xs \<noteq> []" and "ys \<in> (\<lambda>k. rotate k xs) ` {0..<length xs}"
  then obtain k where k: "ys = rotate k xs" "k < length xs" by auto
  let ?m = "(k + (length xs - n mod length xs)) mod length xs"
  have "(?m + n) mod length xs = (k + (length xs - n mod length xs) + n mod length xs) mod length xs"
    by (simp add: mod_simps)
  also have "\<dots> = (k + length xs) mod length xs"
  proof -
    have "n mod length xs \<le> length xs" using xs by (simp add: less_imp_le)
    then have "k + (length xs - n mod length xs) + n mod length xs = k + length xs" by simp
    then show ?thesis by simp
  qed
  also have "\<dots> = k" using k by simp
  finally have "rotate ?m (rotate n xs) = ys"
    using k by (metis rotate_conv_mod rotate_rotate)
  then show "ys \<in> (\<lambda>k. rotate k (rotate n xs)) ` {0..<length xs}"
    using xs by (intro image_eqI [of _ _ ?m]) auto
qed

lemma canonicalRotation_rotate:
  assumes "list_all (\<lambda>x. x \<noteq> []) block"
  shows "canonicalRotation (rotate n block) = canonicalRotation block"
proof (cases "block = []")
  case False
  have "(\<lambda>k. Join (rotate k (rotate n block)) [CHR 0x01]) ` {0..<length block} =
      (\<lambda>ys. Join ys [CHR 0x01]) ` (\<lambda>k. rotate k (rotate n block)) ` {0..<length block}"
    by (simp add: image_image)
  also have "\<dots> = (\<lambda>k. Join (rotate k block) [CHR 0x01]) ` {0..<length block}"
    by (simp only: rotations_rotate [OF False]) (simp add: image_image)
  finally show ?thesis
    using canonicalRotation_Min [OF False assms] canonicalRotation_Min [of "rotate n block"] False assms
    by (simp add: list_all_iff)
qed simp

section \<open>Lemmas: density, halts, feedback\<close>

lemma dominant_scan_max:
  assumes "dominant_scan hist kns (k0, m0, n0) = (k, m, n)" "n0 = 0 \<or> count_list hist k0 = n0"
  shows "n0 \<le> n \<and> (\<forall>x \<in> fst ` set kns. count_list hist x \<le> n) \<and>
    (0 < n \<longrightarrow> count_list hist k = n \<and> (k = k0 \<and> m = m0 \<or> (k, m) \<in> set kns))"
  using assms
proof (induction kns arbitrary: k0 m0 n0)
  case (Cons kn kns)
  obtain kk name where kn: "kn = (kk, name)" by fastforce
  show ?case
  proof (cases "n0 < count_list hist kk")
    case True
    with Cons.prems kn have "dominant_scan hist kns (kk, name, count_list hist kk) = (k, m, n)" by simp
    from Cons.IH [OF this] True kn show ?thesis by auto
  next
    case False
    with Cons.prems kn have "dominant_scan hist kns (k0, m0, n0) = (k, m, n)" by simp
    from Cons.IH [OF this Cons.prems(2)] False kn show ?thesis by auto
  qed
qed auto

lemma dominant_scan_mono:
  "dominant_scan hist kns (k0, m0, n0) = (k, m, n) \<Longrightarrow> n0 \<le> n \<and> (n = n0 \<longrightarrow> k = k0 \<and> m = m0)"
proof (induction kns arbitrary: k0 m0 n0)
  case (Cons kn kns)
  then show ?case by (cases kn) (fastforce split: if_splits)
qed simp

lemma dominant_scan_from:
  "dominant_scan hist kns (k0, m0, n0) = (k, m, n) \<Longrightarrow> n0 < n \<Longrightarrow> (k, m) \<in> set kns"
proof (induction kns arbitrary: k0 m0 n0)
  case (Cons kn kns)
  obtain kk name where kn: "kn = (kk, name)" by fastforce
  show ?case
  proof (cases "n0 < count_list hist kk")
    case True
    with Cons.prems kn have r: "dominant_scan hist kns (kk, name, count_list hist kk) = (k, m, n)" by simp
    then show ?thesis using dominant_scan_mono [OF r] Cons.IH [OF r] kn by (cases "n = count_list hist kk") auto
  next
    case False
    with Cons kn show ?thesis by simp
  qed
qed simp

lemma enforcer_mode [simp]: "enMode (enforcer_step e x) = enMode e"
  by (cases x) (auto simp: Enforcer_Observe_def Adopt_def Enforcer_Reset_def Let_def)

lemma enforcer_run_mode [simp]: "enMode (foldl enforcer_step e xs) = enMode e"
  by (induction xs arbitrary: e) auto

lemma enforcer_quiet: "\<not> Enforces (enMode e) \<Longrightarrow> \<not> enTripped e \<Longrightarrow> \<not> enTripped (enforcer_step e x)"
  by (cases x) (auto simp: Enforcer_Observe_def Adopt_def Enforcer_Reset_def Let_def)

lemma enforcer_run_quiet:
  "\<not> Enforces (enMode e) \<Longrightarrow> \<not> enTripped e \<Longrightarrow> \<not> enTripped (foldl enforcer_step e xs)"
  by (induction xs arbitrary: e) (auto simp: enforcer_quiet)

lemma enforcer_step_tripped:
  "Enforces (enMode e) \<Longrightarrow>
     enTripped (enforcer_step e x) \<longleftrightarrow> (x \<noteq> EReset \<and> (halting x \<or> enTripped e))"
  by (cases x) (auto simp: Enforcer_Observe_def Adopt_def Enforcer_Reset_def Let_def)

lemma enforcer_latch:
  assumes "Enforces (enMode e)" "\<not> enTripped e"
  shows "enTripped (foldl enforcer_step e xs) \<longleftrightarrow>
    (\<exists>us x vs. xs = us @ x # vs \<and> halting x \<and> (\<forall>v \<in> set vs. v \<noteq> EReset))"
proof -
  let ?f = "\<lambda>e x. if Enforces (enMode e) then enforcer_step e x else e\<lparr>enTripped := halting x \<or> x \<noteq> EReset \<and> enTripped e\<rparr>"
  have "foldl ?f e xs = foldl enforcer_step e xs" using assms(1) by (induction xs arbitrary: e) auto
  moreover have "enTripped (foldl ?f e xs) \<longleftrightarrow>
      (\<exists>us x vs. xs = us @ x # vs \<and> halting x \<and> (\<forall>v \<in> set vs. \<not> v = EReset))"
    by (rule foldl_latch) (use assms(2) in \<open>auto simp: enforcer_step_tripped Enforcer_Reset_def\<close>)
  ultimately show ?thesis by simp
qed

lemma seen_grows: "observe_parts j w seen ps obs = (w', seen', obs') \<Longrightarrow> set seen \<subseteq> set seen'"
  by (induction j w seen ps obs rule: observe_parts.induct) (auto simp: Let_def split: if_splits)

lemma seen_all:
  "observe_parts j w seen ps obs = (w', seen', obs') \<Longrightarrow> p \<in> set ps \<Longrightarrow> part_key j p = Some k \<Longrightarrow> k \<in> set seen'"
proof (induction j w seen ps obs rule: observe_parts.induct)
  case (2 j w seen cid name args ps obs)
  then show ?case using seen_grows by (fastforce simp: part_key_def Let_def split: if_splits)
qed (auto simp: part_key_def)

lemma all_seen_noop:
  "(\<And>p k. p \<in> set ps \<Longrightarrow> part_key j p = Some k \<Longrightarrow> k \<in> set seen) \<Longrightarrow> observe_parts j w seen ps obs = (w, seen, obs)"
proof (induction ps)
  case (Cons p ps)
  then have IH: "observe_parts j w seen ps obs = (w, seen, obs)" by auto
  show ?case
  proof (cases p)
    case (FunctionCall cid name args)
    with Cons.prems [of p "if cid = [] then name @ NUL @ serializeArgs j args else cid"] IH
    show ?thesis by (simp add: part_key_def Let_def)
  qed (use IH in simp_all)
qed simp

lemma feed_signals_reset:
  assumes "\<And>s. Signal_Reset (fst (f s)) = Signal_Reset s"
  shows "map Signal_Reset (fst (feed_signals f ss)) = map Signal_Reset ss"
  using assms by (induction ss) (auto simp: Let_def split: prod.split, metis fst_conv)

lemma watchdog_history_reset:
  "Reset (ObserveToolCall j w tc) = Reset w" "Reset (ObserveToolResult w tr) = Reset w"
  using feed_signals_reset [of "\<lambda>s. Signal_ObserveToolCall j s tc" "wdSignals w"]
    feed_signals_reset [of "\<lambda>s. Signal_ObserveToolResult s tr" "wdSignals w"]
    any_signal.reset_obs [of _ _ "Inl tc"] any_signal.reset_obs [of _ _ "Inr tr"]
  by (simp_all add: Reset_def ObserveToolCall_def ObserveToolResult_def case_prod_beta)

lemma Reset_New: "Reset NewDefaultWatchdog = NewDefaultWatchdog"
  by (simp add: Reset_def NewDefaultWatchdog_def repeated_reset_def cycle_reset_def failure_reset_def
      NewRepeatedToolCallSignal_def NewAlternatingCycleSignal_def NewToolFailureStreakSignal_def)

lemma observe_parts_reset: "observe_parts j w seen ps obs = (w', r) \<Longrightarrow> Reset w' = Reset w"
  by (induction j w seen ps obs rule: observe_parts.induct)
    (auto simp: Let_def watchdog_history_reset split: if_splits)

lemma result_parts_reset: "result_parts w seen ps obs = (w', r) \<Longrightarrow> Reset w' = Reset w"
  by (induction w seen ps obs rule: result_parts.induct)
    (auto simp: Let_def watchdog_history_reset split: if_splits)

lemma Reset_alerts [simp]: "Reset (w\<lparr>wdAlerts := x\<rparr>) = Reset w"
  by (simp add: Reset_def)

lemma ObserveInto_reset: "ObserveInto j w e seen = (w', r) \<Longrightarrow> Reset w' = Reset w"
  by (auto simp: ObserveInto_def ObserveEvent_def ObserveToolResults_def Check_def Let_def
      split: option.splits prod.splits if_splits dest!: observe_parts_reset result_parts_reset)

lemma Tap_reset: "Reset (fst (Tap_from j w seen es)) = Reset w"
proof (induction es arbitrary: w seen)
  case (Cons e es)
  obtain w1 seen1 as where o: "ObserveInto j w e seen = (w1, seen1, as)" by (metis prod_cases3)
  with Cons.IH [of w1 seen1] ObserveInto_reset [OF o] show ?case by (simp add: Let_def split: prod.split)
    (metis fst_conv)
qed (simp add: Check_def)

section \<open>Properties\<close>

text \<open>The repeat detector raises one alert per run. When a new run of calls begins and every
  further call is the same tool with equivalent arguments, nothing is raised before the threshold,
  one alert is raised at exactly the call that reaches it, naming that call and the threshold, and
  nothing after, however long the run goes on.\<close>

theorem repeated_once_per_run:
  assumes "\<not> repeated_matches j s tc" "2 \<le> rsThreshold s"
    and "list_all (\<lambda>c. tcName c = tcName tc \<and> argsEquivalent j (tcArgs tc) (tcArgs c)) cs"
  shows "snd (feed (repeated_observe j) s (tc # cs)) =
    (if rsThreshold s \<le> int (length (tc # cs))
     then [repeated_alert ((tc # cs) ! nat (rsThreshold s - 1)) (rsThreshold s)] else [])"
proof -
  let ?s1 = "s\<lparr>rsLastCall := tc, rsRunLength := 1, rsTripped := False\<rparr>"
  have "repeated_observe j s tc = (?s1, None)" using assms by (simp add: repeated_observe_def Let_def)
  moreover have "(tc # cs) ! nat (rsThreshold s - 1) = cs ! nat (rsThreshold s - 1 - 1)"
  proof -
    have "nat (rsThreshold s - 1) = Suc (nat (rsThreshold s - 1 - 1))" using assms(2) by linarith
    then show ?thesis by simp
  qed
  ultimately show ?thesis using repeated_feed [of ?s1 j cs] assms by (simp del: feed.simps)
qed

theorem repeated_once_per_run_witness:
  "snd (feed (repeated_observe demo_codec) (NewRepeatedToolCallSignal 3)
     (replicate 5 \<lparr>tcName = ''ls'', tcArgs = ''{}''\<rparr>)) = [repeated_alert \<lparr>tcName = ''ls'', tcArgs = ''{}''\<rparr> 3]"
proof -
  let ?c = "\<lparr>tcName = ''ls'', tcArgs = ''{}''\<rparr>"
  have "snd (feed (repeated_observe demo_codec) (NewRepeatedToolCallSignal 3) (?c # replicate 4 ?c)) =
    (if (3::int) \<le> int (length (?c # replicate 4 ?c)) then [repeated_alert ((?c # replicate 4 ?c) ! nat (3 - 1)) 3] else [])"
    using repeated_once_per_run [of demo_codec "NewRepeatedToolCallSignal 3" ?c "replicate 4 ?c"]
    by (simp add: NewRepeatedToolCallSignal_def repeated_matches_def argsEquivalent_def list_all_iff del: feed.simps)
  then show ?thesis by (simp add: eval_nat_numeral del: feed.simps)
qed

text \<open>The failure streak raises one alert per streak and a success ends it. Whatever came before,
  a successful result makes the signal start anew; a streak of failures from a new start raises one
  alert at the failure that reaches the threshold, naming the tools that failed, and no other.\<close>

theorem failure_once_per_streak:
  assumes "list_all Failed rs" "\<not> Failed ok"
  shows "snd (feed failure_result (NewToolFailureStreakSignal n) (pre @ ok # rs)) =
    snd (feed failure_result (NewToolFailureStreakSignal n) pre) @
    (let t = nat (if n < 2 then 2 else n)
     in if t \<le> length rs
        then [failure_alert (int t) (distinctNames (map trName (take t rs))) (trError (rs ! (t - 1)))] else [])"
proof -
  let ?s0 = "NewToolFailureStreakSignal n"
  let ?s1 = "fst (feed failure_result ?s0 pre)"
  have "failure_reset ?s1 = ?s0"
    using failure.reset_feed [of ?s0 pre] by (simp add: NewToolFailureStreakSignal_def failure_reset_def)
  then have "failure_result ?s1 ok = (?s0, None)" using assms(2) by (simp add: failure_result_def)
  then have "snd (feed failure_result ?s0 (pre @ ok # rs)) =
      snd (feed failure_result ?s0 pre) @ snd (feed failure_result ?s0 rs)"
    by (simp add: feed_append case_prod_beta del: feed.simps)
  moreover have "snd (feed failure_result ?s0 rs) =
    (let t = nat (if n < 2 then 2 else n)
     in if t \<le> length rs
        then [failure_alert (int t) (distinctNames (map trName (take t rs))) (trError (rs ! (t - 1)))] else [])"
    using failure_feed [OF assms(1), of ?s0] by (auto simp: NewToolFailureStreakSignal_def Let_def)
  ultimately show ?thesis by simp
qed

theorem failure_once_per_streak_witness:
  "length (snd (feed failure_result (NewToolFailureStreakSignal 3)
     ([] @ \<lparr>trName = ''ls'', trError = []\<rparr> # replicate 4 \<lparr>trName = ''ls'', trError = ''boom''\<rparr>))) = 1"
proof -
  have "snd (feed failure_result (NewToolFailureStreakSignal 3)
     ([] @ \<lparr>trName = ''ls'', trError = []\<rparr> # replicate 4 \<lparr>trName = ''ls'', trError = ''boom''\<rparr>)) =
    snd (feed failure_result (NewToolFailureStreakSignal 3) []) @
    (let t = nat (if (3::int) < 2 then 2 else 3)
     in if t \<le> length (replicate 4 \<lparr>trName = ''ls'', trError = ''boom''\<rparr>)
        then [failure_alert (int t) (distinctNames (map trName (take t (replicate 4 \<lparr>trName = ''ls'', trError = ''boom''\<rparr>))))
          (trError (replicate 4 \<lparr>trName = ''ls'', trError = ''boom''\<rparr> ! (t - 1)))] else [])"
    by (rule failure_once_per_streak) (simp_all add: Failed_def list_all_iff)
  then show ?thesis by simp
qed

text \<open>C29: the cycle detector forgets nothing it needs. After any sequence of calls its verdict on the
  bounded history it keeps is the verdict on everything it ever saw: the shortest period between 2 and
  the maximum at which the calls are looping, 0 if there is none; and the history it keeps never exceeds
  the longest cycle it can report.\<close>

theorem cycle_verdict_exact:
  "let s = fst (feed (cycle_observe j) (NewAlternatingCycleSignal maxP c) tcs);
       p = nat (if maxP < 2 then 2 else maxP); n = nat (if c < 2 then 2 else c)
   in detectCycle s =
        (case filter (looping (map (call_key j) tcs) n) [2..<p + 1] of [] \<Rightarrow> 0 | q # _ \<Rightarrow> q) \<and>
      length (csHistory s) \<le> p * n"
proof -
  define p where "p = nat (if maxP < 2 then 2 else maxP)"
  define n where "n = nat (if c < 2 then 2 else c)"
  let ?new = "NewAlternatingCycleSignal maxP c"
  let ?s = "fst (feed (cycle_observe j) ?new tcs)"
  have new: "csMaxPeriod ?new = p" "csCycles ?new = n" "csHistory ?new = keep_last (p * n) []"
    by (simp_all add: NewAlternatingCycleSignal_def keep_last_def p_def n_def)
  have s: "csHistory ?s = keep_last (p * n) (map (call_key j) tcs)" "csMaxPeriod ?s = p" "csCycles ?s = n"
    using cycle_feed_state [of ?new "[]" j tcs] unfolding new(1,2) Let_def by (simp_all add: new(3))
  have "looping (csHistory ?s) n q = looping (map (call_key j) tcs) n q" if "q \<in> set [2..<p + 1]" for q
    using that unfolding s(1) by (intro looping_keep_last mult_le_mono1) auto
  then have "filter (looping (csHistory ?s) n) [2..<p + 1] = filter (looping (map (call_key j) tcs) n) [2..<p + 1]"
    by (rule filter_cong [OF refl])
  then show ?thesis unfolding p_def [symmetric] n_def [symmetric] Let_def
    by (simp only: detectCycle_eq s) simp
qed

text \<open>One cycle has one fingerprint. Which call of the cycle came last does not matter: every
  rotation of a block of call keys has the same fingerprint, so a cycle that goes on is not reported
  again under another phase.\<close>

theorem fingerprint_rotation:
  "canonicalRotation (rotate k (map (call_key j) tcs)) = canonicalRotation (map (call_key j) tcs)"
  by (rule canonicalRotation_rotate) (simp add: list_all_iff call_key_def NUL_def)

text \<open>The density signal reports the call it should. The key and count it judges are a most
  frequent key of the window and its number of occurrences, with the name recorded beside that key.\<close>

theorem dominant_is_most_frequent:
  assumes "dominant s = (key, name, n)" "dsHistory s \<noteq> []" "length (dsNames s) = length (dsHistory s)"
  shows "count_list (dsHistory s) key = n \<and> (\<forall>x. count_list (dsHistory s) x \<le> n) \<and>
    (key, name) \<in> set (zip (dsHistory s) (dsNames s))"
proof -
  let ?h = "dsHistory s"
  have m: "(\<forall>x \<in> fst ` set (zip ?h (dsNames s)). count_list ?h x \<le> n)"
    "0 < n \<longrightarrow> count_list ?h key = n \<and> (key = [] \<and> name = [] \<or> (key, name) \<in> set (zip ?h (dsNames s)))"
    using dominant_scan_max [OF assms(1) [unfolded dominant_def]] by auto
  have "fst ` set (zip ?h (dsNames s)) = set ?h" using assms(3) by (metis map_fst_zip set_map)
  then have all: "count_list ?h x \<le> n" for x using m(1) by (cases "x \<in> set ?h") auto
  moreover have "0 < n" using all [of "hd ?h"] assms(2) by (cases ?h) auto
  moreover have "(key, name) \<in> set (zip ?h (dsNames s))"
    using dominant_scan_from [OF assms(1) [unfolded dominant_def]] \<open>0 < n\<close> by auto
  ultimately show ?thesis using m(2) by auto
qed

theorem dominant_is_most_frequent_witness:
  "count_list [''a'', ''b'', ''a'', ''c''] ''a'' = 2 \<and> (\<forall>x. count_list [''a'', ''b'', ''a'', ''c''] x \<le> 2)"
  using dominant_is_most_frequent [of "(NewDominantToolCallSignal 4 2)\<lparr>dsHistory := [''a'', ''b'', ''a'', ''c''],
      dsNames := [''A'', ''B'', ''A'', ''C'']\<rparr>" "''a''" "''A''" 2]
  by (simp add: NewDominantToolCallSignal_def dominant_def)

text \<open>A halt holds until someone resets it, and only an enforcing watchdog halts. After any
  operations on a new enforcer, the next turn is refused exactly when its mode enforces and some
  critical alert or adopted trip has had no reset after it.\<close>

theorem halt_until_reset:
  "Preflight (Some (foldl enforcer_step (NewEnforcer m remedy) ops)) \<noteq> None \<longleftrightarrow>
     m = Some ModeEnforce \<and> (\<exists>us x vs. ops = us @ x # vs \<and> halting x \<and> EReset \<notin> set vs)"
proof -
  let ?e = "NewEnforcer m remedy"
  have e: "\<not> enTripped ?e" "Enforces (enMode ?e) \<longleftrightarrow> m = Some ModeEnforce"
    by (auto simp: NewEnforcer_def Enforces_def split: option.split)
  have "Preflight (Some (foldl enforcer_step ?e ops)) \<noteq> None \<longleftrightarrow> enTripped (foldl enforcer_step ?e ops)"
    by (simp add: Preflight_def)
  moreover have "(\<forall>v \<in> set vs. v \<noteq> EReset) \<longleftrightarrow> EReset \<notin> set vs" for vs by auto
  ultimately show ?thesis
    using enforcer_latch [OF _ e(1), of ops] enforcer_run_quiet [OF _ e(1), of ops] e(2) by auto
qed

text \<open>The model hears of its newest alerts, each once. Whatever was queued in whatever portions,
  what is pending is the newest four of everything queued since the last drain, in order; draining
  hands over exactly that and leaves nothing.\<close>

theorem feedback_newest:
  "let f = foldl Queue (fst (Drain (Some f0))) batches
   in Feeds (fbMode f0) \<longrightarrow>
        snd (Drain f) = keep_last MaxPendingFeedback (concat batches) \<and> snd (Drain (fst (Drain f))) = []"
proof -
  have gen: "foldl Queue (Some g) batches = Some (g\<lparr>fbPending := keep_last MaxPendingFeedback (pre @ concat batches)\<rparr>)"
    if "Feeds (fbMode g)" "fbPending g = keep_last MaxPendingFeedback pre" for g pre
    using that
  proof (induction batches arbitrary: g pre)
    case (Cons b bs)
    let ?g = "g\<lparr>fbPending := keep_last MaxPendingFeedback (pre @ b)\<rparr>"
    have "Queue (Some g) b = Some ?g"
      using Cons.prems by (cases "b = []") (auto simp: Queue_def keep_last_append)
    then show ?case using Cons.IH [of ?g "pre @ b"] Cons.prems by simp
  qed simp
  show ?thesis using gen [of "f0\<lparr>fbPending := []\<rparr>" "[]"] by (simp add: Drain_def Let_def keep_last_def)
qed

theorem feedback_newest_witness:
  "length (snd (Drain (foldl Queue (fst (Drain (Some (NewFeedback (Some ModeFeedback)))))
     [replicate 3 (failure_alert 3 [] []), replicate 3 (failure_alert 4 [] [])]))) = 4"
  using feedback_newest [of "NewFeedback (Some ModeFeedback)"
      "[replicate 3 (failure_alert 3 [] []), replicate 3 (failure_alert 4 [] [])]"]
  by (simp add: Let_def NewFeedback_def Feeds_def MaxPendingFeedback_def)

text \<open>An event seen again counts once. Feeding the calls of an event to the watchdog a second time in
  the same turn, as a resumed or re-emitted event would, changes neither the watchdog nor the set of
  keys.\<close>

theorem event_counts_once:
  assumes "ObserveEvent j w ev seen = (w1, seen1, o1)"
  shows "ObserveEvent j w1 ev seen1 = (w1, seen1, False)"
  using assms by (auto simp: ObserveEvent_def intro!: all_seen_noop dest: seen_all split: option.splits if_splits)

theorem event_counts_once_witness:
  "let ev = \<lparr>weParts = Some [FunctionCall ''1'' ''ls'' [], FunctionCall [] ''ls'' []], wePartial = False\<rparr>;
       (w1, seen1, _) = ObserveEvent demo_codec NewDefaultWatchdog ev []
   in ObserveEvent demo_codec w1 ev seen1 = (w1, seen1, False)"
  using event_counts_once by (auto simp: Let_def split: prod.split)

text \<open>A reset watchdog is a new one. Whatever events a turn fed to the default watchdog, resetting
  it gives the watchdog a new session would get.\<close>

theorem reset_is_new: "Reset (fst (Tap j NewDefaultWatchdog es)) = NewDefaultWatchdog"
  by (simp add: Tap_def Tap_reset Reset_New)

end
