(* ===== verification/Turn_Loop.thy ===== *)
theory Turn_Loop
  imports Watchdog
begin

text \<open>
  The loop guard inside a turn: \<^verbatim>\<open>src/internal/watchdog/turnloop.go\<close>, and the plugin that puts it
  in front of model and tool calls, \<^verbatim>\<open>src/internal/compose/loopguard.go\<close>. One \<open>turn_run\<close> per
  invocation counts its model calls and the run of identical tool calls. The digest of a result is
  its serialisation by the codec \<open>j\<close> of \<^verbatim>\<open>encoding/json\<close>. The answers of the plugin to the flow are
  modelled, its log lines are not; whether the turn can be stopped from outside (\<^verbatim>\<open>TurnStopFrom\<close>) is
  an argument.
\<close>

record turn_run =
  tuCalls :: int
  tuLast :: toolcall
  tuResult :: string
  tuLength :: int
  tuNotes :: "(string, string) gomap"

record turn_loop =
  tlThreshold :: int
  tlStopAfter :: int
  tlMaxCalls :: int
  tlTurns :: "(string, turn_run) gomap"

record turn_calls_error =
  tcCalls :: int
  tcCap :: int

record loop_stop_error =
  lsTool :: string
  lsArgs :: string
  lsCount :: int

definition DefaultStopAfterNote :: int where "DefaultStopAfterNote = 3"

definition new_run :: turn_run where
  "new_run = \<lparr>tuCalls = 0, tuLast = zero_call, tuResult = [], tuLength = 0, tuNotes = []\<rparr>"

definition NewTurnLoop :: "int \<Rightarrow> int \<Rightarrow> turn_loop" where
  "NewTurnLoop threshold stopAfter =
     \<lparr>tlThreshold = (if threshold < 2 then 2 else threshold),
      tlStopAfter = (if stopAfter < 1 then 1 else stopAfter), tlMaxCalls = 0, tlTurns = []\<rparr>"

definition SetMaxModelCalls :: "turn_loop \<Rightarrow> int \<Rightarrow> turn_loop" where
  "SetMaxModelCalls l n = l\<lparr>tlMaxCalls := (if n < 0 then 0 else n)\<rparr>"

definition turn_of :: "turn_loop \<Rightarrow> string \<Rightarrow> turn_run" where
  "turn_of l iid = mget new_run (tlTurns l) iid"

definition put_turn :: "turn_loop \<Rightarrow> string \<Rightarrow> turn_run \<Rightarrow> turn_loop" where
  "put_turn l iid t = l\<lparr>tlTurns := AList.update iid t (tlTurns l)\<rparr>"

definition BeforeModel :: "turn_loop \<Rightarrow> string \<Rightarrow> turn_loop \<times> turn_calls_error option" where
  "BeforeModel l iid =
     (if iid = [] \<or> tlMaxCalls l = 0 then (l, None)
      else let t = turn_of l iid
           in if tlMaxCalls l \<le> tuCalls t
              then (put_turn l iid t, Some \<lparr>tcCalls = tuCalls t, tcCap = tlMaxCalls l\<rparr>)
              else (put_turn l iid (t\<lparr>tuCalls := tuCalls t + 1\<rparr>), None))"

definition stopWarning :: "int \<Rightarrow> string" where
  "stopWarning left =
     (if left = 1 then ''Calling it again with the same arguments ends this turn.''
      else ''Calling it '' @ itoa left @ '' more times with the same arguments ends this turn.'')"

definition loopNote :: "string \<Rightarrow> int \<Rightarrow> int \<Rightarrow> string" where
  "loopNote name n left =
     ''Automated observation, not part of the tool result: you have called '' @ name @
     '' with the same arguments '' @ itoa n @ '' times in a row in this turn, and the result will not change. '' @
     ''Use what it already returned, try a different tool or different arguments, or report what is blocking you. '' @
     stopWarning left"

definition same_call :: "codec \<Rightarrow> turn_run \<Rightarrow> toolcall \<Rightarrow> bool" where
  "same_call j t tc \<longleftrightarrow> 0 < tuLength t \<and> tcName (tuLast t) = tcName tc \<and> argsEquivalent j (tcArgs (tuLast t)) (tcArgs tc)"

definition Before ::
  "codec \<Rightarrow> turn_loop \<Rightarrow> string \<Rightarrow> string \<Rightarrow> string \<Rightarrow> (string, jval) gomap \<Rightarrow> turn_loop \<times> loop_stop_error option" where
  "Before j l iid callID name args =
     (if iid = [] then (l, None)
      else let t = turn_of l iid;
               tc = \<lparr>tcName = name, tcArgs = serializeArgs j args\<rparr>;
               t1 = (if same_call j t tc then t\<lparr>tuLength := tuLength t + 1\<rparr>
                     else t\<lparr>tuLast := tc, tuResult := [], tuLength := 1\<rparr>);
               left = tlThreshold l + tlStopAfter l - tuLength t1
           in if tuLength t1 < tlThreshold l then (put_turn l iid t1, None)
              else if left \<le> 0
              then (put_turn l iid t1, Some \<lparr>lsTool = name, lsArgs = tcArgs tc, lsCount = tuLength t1\<rparr>)
              else (put_turn l iid (t1\<lparr>tuNotes := AList.update callID (loopNote name (tuLength t1) left) (tuNotes t1)\<rparr>),
                    None))"

definition After :: "codec \<Rightarrow> turn_loop \<Rightarrow> string \<Rightarrow> string \<Rightarrow> (string, jval) gomap \<Rightarrow> turn_loop \<times> string" where
  "After j l iid callID result =
     (case map_of (tlTurns l) iid of
        None \<Rightarrow> (l, [])
      | Some t \<Rightarrow>
          (let note = mget [] (tuNotes t) callID;
               t1 = t\<lparr>tuNotes := AList.delete callID (tuNotes t)\<rparr>;
               digest = serializeArgs j result
           in if tuResult t1 = [] then (put_turn l iid (t1\<lparr>tuResult := digest\<rparr>), note)
              else if tuResult t1 \<noteq> digest
              then (put_turn l iid (t1\<lparr>tuResult := digest, tuLength := 1\<rparr>), [])
              else (put_turn l iid t1, note)))"

definition Forget :: "turn_loop \<Rightarrow> string \<Rightarrow> turn_loop" where
  "Forget l iid = l\<lparr>tlTurns := AList.delete iid (tlTurns l)\<rparr>"

section \<open>The plugin (loopguard.go)\<close>

definition DefaultMaxModelCallsPerTurn :: int where "DefaultMaxModelCallsPerTurn = 100"

definition MaxModelCallsPerTurn :: "int option \<Rightarrow> int" where
  "MaxModelCallsPerTurn b =
     (case b of
        None \<Rightarrow> DefaultMaxModelCallsPerTurn
      | Some n \<Rightarrow> if n = 0 then DefaultMaxModelCallsPerTurn else if n < 0 then 0 else n)"

record loop_guard =
  lgLoop :: turn_loop
  lgBeforeModel :: bool
  lgTools :: bool

definition LoopGuard :: "mode \<Rightarrow> int \<Rightarrow> loop_guard option" where
  "LoopGuard md maxCalls =
     (let repeats = Feeds md
      in if \<not> repeats \<and> maxCalls \<le> 0 then None
         else Some \<lparr>lgLoop = SetMaxModelCalls (NewTurnLoop DefaultRepeatThreshold DefaultStopAfterNote) maxCalls,
                    lgBeforeModel = (0 < maxCalls), lgTools = repeats\<rparr>)"

text \<open>
  What the flow gets back: \<open>Go_on\<close> lets the call happen; \<open>Answered\<close> replaces it and, where the turn can
  be stopped, stops it with the error.
\<close>

datatype 'e guard_answer = Go_on | Answered 'e bool

definition guard_beforeModel :: "bool \<Rightarrow> loop_guard \<Rightarrow> string \<Rightarrow> loop_guard \<times> turn_calls_error guard_answer" where
  "guard_beforeModel canStop g iid =
     (if \<not> lgBeforeModel g then (g, Go_on)
      else case BeforeModel (lgLoop g) iid of
          (l, None) \<Rightarrow> (g\<lparr>lgLoop := l\<rparr>, Go_on)
        | (l, Some e) \<Rightarrow> (g\<lparr>lgLoop := l\<rparr>, Answered e canStop))"

definition guard_beforeTool ::
  "codec \<Rightarrow> bool \<Rightarrow> loop_guard \<Rightarrow> string \<Rightarrow> string \<Rightarrow> string \<Rightarrow> (string, jval) gomap
   \<Rightarrow> loop_guard \<times> loop_stop_error guard_answer" where
  "guard_beforeTool j canStop g iid callID name args =
     (if \<not> lgTools g then (g, Go_on)
      else case Before j (lgLoop g) iid callID name args of
          (l, None) \<Rightarrow> (g\<lparr>lgLoop := l\<rparr>, Go_on)
        | (l, Some e) \<Rightarrow> (g\<lparr>lgLoop := l\<rparr>, Answered e canStop))"

text \<open>The result of the last component: \<open>None\<close> leaves the tool's own result in place.\<close>

definition guard_afterTool ::
  "codec \<Rightarrow> loop_guard \<Rightarrow> string \<Rightarrow> string \<Rightarrow> (string, jval) gomap \<Rightarrow> bool
   \<Rightarrow> loop_guard \<times> (string, jval) gomap option" where
  "guard_afterTool j g iid callID result failed =
     (if \<not> lgTools g then (g, None)
      else if failed then (g, None)
      else if map_of result ''error'' = Some (JStr ''loop_stopped'') then (g, None)
      else let (l, note) = After j (lgLoop g) iid callID result
           in (g\<lparr>lgLoop := l\<rparr>,
               if note = [] then None else Some (AList.update ''watchdog'' (JStr note) result)))"

definition guard_afterRun :: "loop_guard \<Rightarrow> string \<Rightarrow> loop_guard" where
  "guard_afterRun g iid = g\<lparr>lgLoop := Forget (lgLoop g) iid\<rparr>"

section \<open>The operations of a turn\<close>

datatype turn_op =
    OpModel string
  | OpBefore string string string "(string, jval) gomap"
  | OpAfter string string "(string, jval) gomap"
  | OpForget string

fun turn_step :: "codec \<Rightarrow> turn_loop \<Rightarrow> turn_op \<Rightarrow> turn_loop" where
  "turn_step j l (OpModel iid) = fst (BeforeModel l iid)"
| "turn_step j l (OpBefore iid cid name args) = fst (Before j l iid cid name args)"
| "turn_step j l (OpAfter iid cid result) = fst (After j l iid cid result)"
| "turn_step j l (OpForget iid) = Forget l iid"

text \<open>How many model calls of one invocation were let through by a sequence of operations.\<close>

fun calls_made :: "codec \<Rightarrow> turn_loop \<Rightarrow> string \<Rightarrow> turn_op list \<Rightarrow> nat" where
  "calls_made j l iid [] = 0"
| "calls_made j l iid (x # xs) =
     (if x = OpModel iid \<and> snd (BeforeModel l iid) = None then 1 else 0) + calls_made j (turn_step j l x) iid xs"

text \<open>
  A tool called again and again: before each call the guard is asked, and after it hears the
  result. The answers to the questions, in order; a refused call is not made.
\<close>

fun rounds ::
  "codec \<Rightarrow> turn_loop \<Rightarrow> string \<Rightarrow> string \<Rightarrow> (string \<times> (string, jval) gomap \<times> (string, jval) gomap) list
   \<Rightarrow> turn_loop \<times> loop_stop_error option list" where
  "rounds j l iid name [] = (l, [])"
| "rounds j l iid name ((cid, args, result) # rest) =
     (case Before j l iid cid name args of
        (l1, Some e) \<Rightarrow> (let (l2, as) = rounds j l1 iid name rest in (l2, Some e # as))
      | (l1, None) \<Rightarrow>
          (let (l2, as) = rounds j (fst (After j l1 iid cid result)) iid name rest in (l2, None # as)))"

section \<open>Lemmas\<close>

lemma turn_of_put [simp]: "turn_of (put_turn l iid t) i = (if i = iid then t else turn_of l i)"
  by (simp add: turn_of_def put_turn_def)

lemma put_turn_frame [simp]:
  "tlThreshold (put_turn l iid t) = tlThreshold l" "tlStopAfter (put_turn l iid t) = tlStopAfter l"
  "tlMaxCalls (put_turn l iid t) = tlMaxCalls l"
  "map_of (tlTurns (put_turn l iid t)) i = (if i = iid then Some t else map_of (tlTurns l) i)"
  by (simp_all add: put_turn_def)

lemma turn_of_Some: "map_of (tlTurns l) iid = Some t \<Longrightarrow> turn_of l iid = t"
  by (simp add: turn_of_def mget_def)

lemma Before_run:
  assumes "iid \<noteq> []" "Before j l iid cid name args = (l1, err)"
  defines "tc \<equiv> \<lparr>tcName = name, tcArgs = serializeArgs j args\<rparr>" and "t \<equiv> turn_of l iid"
  defines "n \<equiv> (if same_call j t tc then tuLength t + 1 else 1)"
  shows "tuLength (turn_of l1 iid) = n" "map_of (tlTurns l1) iid \<noteq> None"
    "tlThreshold l1 = tlThreshold l" "tlStopAfter l1 = tlStopAfter l" "tlMaxCalls l1 = tlMaxCalls l"
    "tuCalls (turn_of l1 iid) = tuCalls t" "\<And>i. i \<noteq> iid \<Longrightarrow> turn_of l1 i = turn_of l i"
    "same_call j t tc \<Longrightarrow> tuLast (turn_of l1 iid) = tuLast t \<and> tuResult (turn_of l1 iid) = tuResult t"
    "\<not> same_call j t tc \<Longrightarrow> tuLast (turn_of l1 iid) = tc \<and> tuResult (turn_of l1 iid) = []"
    "err \<noteq> None \<longleftrightarrow> tlThreshold l \<le> n \<and> tlThreshold l + tlStopAfter l \<le> n"
  using assms(1,2) unfolding n_def t_def tc_def by (auto simp: Before_def Let_def split: if_splits)

lemma After_run:
  assumes "After j l iid cid result = (l1, note)" "map_of (tlTurns l) iid = Some t"
  shows "tuLast (turn_of l1 iid) = tuLast t" "tuCalls (turn_of l1 iid) = tuCalls t"
    "tlThreshold l1 = tlThreshold l" "tlStopAfter l1 = tlStopAfter l" "tlMaxCalls l1 = tlMaxCalls l"
    "tuLength (turn_of l1 iid) =
       (if tuResult t = [] \<or> tuResult t = serializeArgs j result then tuLength t else 1)"
    "tuResult (turn_of l1 iid) = serializeArgs j result" "\<And>i. i \<noteq> iid \<Longrightarrow> turn_of l1 i = turn_of l i"
  using assms by (auto simp: After_def Let_def split: if_splits)

lemma BeforeModel_run:
  assumes "BeforeModel l iid = (l1, err)" "iid \<noteq> []" "tlMaxCalls l \<noteq> 0"
  shows "err = None \<longleftrightarrow> tuCalls (turn_of l iid) < tlMaxCalls l"
    "tuCalls (turn_of l1 iid) = tuCalls (turn_of l iid) + (if err = None then 1 else 0)"
  using assms by (auto simp: BeforeModel_def Let_def split: if_splits)

lemma turn_step_cap [simp]: "tlMaxCalls (turn_step j l x) = tlMaxCalls l"
  by (cases x) (auto simp: BeforeModel_def Before_def After_def Forget_def Let_def split: option.split)

lemma turn_step_calls:
  assumes "x \<noteq> OpForget iid" "x \<noteq> OpModel iid"
  shows "tuCalls (turn_of (turn_step j l x) iid) = tuCalls (turn_of l iid)"
proof (cases x)
  case (OpModel i)
  with assms show ?thesis by (auto simp: BeforeModel_def Let_def)
next
  case (OpBefore i cid name args)
  then show ?thesis by (auto simp: Before_def Let_def)
next
  case (OpAfter i cid result)
  then show ?thesis by (auto simp: After_def Let_def turn_of_Some split: option.split)
next
  case (OpForget i)
  with assms show ?thesis by (simp add: Forget_def turn_of_def)
qed

lemma calls_made_exact:
  assumes "OpForget iid \<notin> set ops" "iid \<noteq> []" "0 < tlMaxCalls l" "0 \<le> tuCalls (turn_of l iid)"
    "tuCalls (turn_of l iid) \<le> tlMaxCalls l"
  shows "int (calls_made j l iid ops) =
    min (tlMaxCalls l - tuCalls (turn_of l iid)) (int (count_list ops (OpModel iid)))"
  using assms
proof (induction ops arbitrary: l)
  case (Cons x ops)
  show ?case
  proof (cases "x = OpModel iid")
    case True
    obtain l1 err where b: "BeforeModel l iid = (l1, err)" by fastforce
    have "tlMaxCalls l1 = tlMaxCalls l" using turn_step_cap [of j l "OpModel iid"] b by simp
    with Cons.IH [of l1] Cons.prems BeforeModel_run [OF b] True b show ?thesis by auto
  next
    case False
    with Cons.IH [of "turn_step j l x"] Cons.prems turn_step_calls [of x iid j l] show ?thesis by auto
  qed
qed simp

lemma rounds_count:
  assumes "iid \<noteq> []" "map_of (tlTurns l) iid = Some t" "tuLength t = n" "0 < n"
    and "tcName (tuLast t) = name" "tuResult t = [] \<or> tuResult t = d"
    and "list_all (\<lambda>(cid, args, result). argsEquivalent j (tcArgs (tuLast t)) (serializeArgs j args) \<and>
        serializeArgs j result = d) rs"
    and "2 \<le> tlThreshold l" "1 \<le> tlStopAfter l"
  shows "map (\<lambda>a. a \<noteq> None) (snd (rounds j l iid name rs)) =
    map (\<lambda>k. tlThreshold l + tlStopAfter l \<le> n + 1 + int k) [0..<length rs]"
  using assms
proof (induction rs arbitrary: l t n)
  case (Cons r rs)
  obtain cid args result where r: "r = (cid, args, result)" by (cases r)
  obtain l1 err where b: "Before j l iid cid name args = (l1, err)" by fastforce
  have t: "turn_of l iid = t" using Cons.prems(2) by (rule turn_of_Some)
  have same: "same_call j (turn_of l iid) \<lparr>tcName = name, tcArgs = serializeArgs j args\<rparr>"
    using Cons.prems r t by (simp add: same_call_def)
  note B = Before_run [OF Cons.prems(1) b]
  obtain t1 where t1: "map_of (tlTurns l1) iid = Some t1" "turn_of l1 iid = t1"
    using B(2) turn_of_Some by fastforce
  have t1': "tuLength t1 = n + 1" "tuLast t1 = tuLast t" "tuResult t1 = tuResult t"
    using B(1,8) [unfolded t] same t1 Cons.prems(3) t by auto
  have e: "err \<noteq> None \<longleftrightarrow> tlThreshold l + tlStopAfter l \<le> n + 1"
    using B(10) same t Cons.prems(3,9) by auto
  have shift: "map (\<lambda>k. tlThreshold l + tlStopAfter l \<le> n + 1 + int k) [0..<length (r # rs)] =
      (tlThreshold l + tlStopAfter l \<le> n + 1) #
      map (\<lambda>k. tlThreshold l + tlStopAfter l \<le> n + 1 + 1 + int k) [0..<length rs]"
    by (simp add: map_upt_Suc algebra_simps del: upt_Suc)
  show ?case
  proof (cases err)
    case (Some er)
    with Cons.IH [OF Cons.prems(1) t1(1) t1'(1)] Cons.prems t1' B(3,4) r b e shift show ?thesis
      by (auto simp: case_prod_beta simp del: upt_Suc)
  next
    case None
    obtain l2 nt where a: "After j l1 iid cid result = (l2, nt)" by fastforce
    note A = After_run [OF a t1(1)]
    obtain t2 where t2: "map_of (tlTurns l2) iid = Some t2" "turn_of l2 iid = t2"
      using a t1(1) by (auto simp: After_def Let_def turn_of_Some split: if_splits)
    have "tuLength t2 = n + 1" "tuLast t2 = tuLast t" "tuResult t2 = d"
      using A t2 t1' Cons.prems r by auto
    with Cons.IH [OF Cons.prems(1) t2(1)] Cons.prems B(3,4) A(3,4) r b a e shift None show ?thesis
      by (auto simp: case_prod_beta simp del: upt_Suc)
  qed
qed simp

lemma rounds_changing:
  assumes "iid \<noteq> []" "map_of (tlTurns l) iid = Some t" "tuLength t \<le> 1" "tuResult t \<noteq> []"
    and "\<And>m. cdMarshalMap j m \<noteq> Some []"
    and "distinct_adj (tuResult t # map (\<lambda>(cid, args, result). serializeArgs j result) rs)"
    and "2 \<le> tlThreshold l" "1 \<le> tlStopAfter l"
  shows "list_all (\<lambda>a. a = None) (snd (rounds j l iid name rs))"
  using assms
proof (induction rs arbitrary: l t)
  case (Cons r rs)
  obtain cid args result where r: "r = (cid, args, result)" by (cases r)
  obtain l1 err where b: "Before j l iid cid name args = (l1, err)" by fastforce
  have t: "turn_of l iid = t" using Cons.prems(2) by (rule turn_of_Some)
  note B = Before_run [OF Cons.prems(1) b]
  have err: "err = None" using B(10) t Cons.prems(3,7,8) by (auto split: if_splits)
  obtain t1 where t1: "map_of (tlTurns l1) iid = Some t1" "turn_of l1 iid = t1"
    using B(2) turn_of_Some by fastforce
  have t1': "tuLength t1 = 1 \<and> tuResult t1 = [] \<or> tuResult t1 = tuResult t"
    using B(1,8,9) [unfolded t] t1 t by (auto split: if_splits)
  obtain l2 nt where a: "After j l1 iid cid result = (l2, nt)" by fastforce
  note A = After_run [OF a t1(1)]
  obtain t2 where t2: "map_of (tlTurns l2) iid = Some t2" "turn_of l2 iid = t2"
    using a t1(1) by (auto simp: After_def Let_def turn_of_Some split: if_splits)
  have ne: "serializeArgs j result \<noteq> []" using Cons.prems(5) by (auto simp: serializeArgs_def split: option.splits)
  have "tuLength t2 \<le> 1" "tuResult t2 = serializeArgs j result"
    using A(6,7) t2 t1' Cons.prems(4,6) r by auto
  with Cons.IH [OF Cons.prems(1) t2(1)] Cons.prems B(3,4) A(3,4) r b a err ne show ?case
    by (auto simp: case_prod_beta)
qed simp

section \<open>Properties\<close>

text \<open>A turn makes exactly as many model calls as its cap allows. Over any interleaving of model
  calls, tool calls and results of any invocations, the model calls of one invocation that are let
  through are all of them up to the cap and none beyond.\<close>

theorem model_calls_capped:
  assumes "iid \<noteq> []" "0 < n" "OpForget iid \<notin> set ops"
  shows "int (calls_made j (SetMaxModelCalls (NewTurnLoop a b) n) iid ops) =
    min n (int (count_list ops (OpModel iid)))"
  using calls_made_exact [OF assms(3,1), of "SetMaxModelCalls (NewTurnLoop a b) n" j] assms(2)
  by (simp add: SetMaxModelCalls_def NewTurnLoop_def turn_of_def new_run_def)

theorem model_calls_capped_witness:
  "int (calls_made demo_codec (SetMaxModelCalls (NewTurnLoop 5 3) 2) ''i''
     [OpModel ''i'', OpModel ''k'', OpModel ''i'', OpBefore ''i'' ''1'' ''ls'' [], OpModel ''i'']) = 2"
proof -
  let ?ops = "[OpModel ''i'', OpModel ''k'', OpModel ''i'', OpBefore ''i'' ''1'' ''ls'' [], OpModel ''i'']"
  have "int (calls_made demo_codec (SetMaxModelCalls (NewTurnLoop 5 3) 2) ''i'' ?ops) =
      min 2 (int (count_list ?ops (OpModel ''i'')))"
    by (rule model_calls_capped) simp_all
  then show ?thesis by simp
qed

text \<open>A loop is told, then stopped, and the stop comes at a fixed call. When a tool is called over and
  over with equivalent arguments and returns the same result, the calls are let through until the
  threshold and the notes after it are used up; the call number threshold plus stop-after and every one
  after it is refused.\<close>

theorem loop_stops_at:
  assumes "iid \<noteq> []"
    and "list_all (\<lambda>(cid, as, r). argsEquivalent j (serializeArgs j args) (serializeArgs j as) \<and>
        serializeArgs j r = serializeArgs j result) rs"
  shows "map (\<lambda>a. a \<noteq> None) (snd (rounds j (NewTurnLoop a b) iid name ((cid0, args, result) # rs))) =
    map (\<lambda>k. (if a < 2 then 2 else a) + (if b < 1 then 1 else b) \<le> 1 + int k) [0..<length rs + 1]"
proof -
  define l where "l = NewTurnLoop a b"
  define T where "T = tlThreshold l" define S where "S = tlStopAfter l"
  have TS: "2 \<le> T" "1 \<le> S" "T = (if a < 2 then 2 else a)" "S = (if b < 1 then 1 else b)"
    by (auto simp: T_def S_def l_def NewTurnLoop_def)
  obtain l1 err where b1: "Before j l iid cid0 name args = (l1, err)" by fastforce
  have new: "turn_of l iid = new_run" by (simp add: l_def NewTurnLoop_def turn_of_def)
  have nosame: "\<not> same_call j (turn_of l iid) tc" for tc by (simp add: new same_call_def new_run_def)
  note B = Before_run [OF assms(1) b1]
  obtain t1 where t1: "map_of (tlTurns l1) iid = Some t1" "turn_of l1 iid = t1"
    using B(2) turn_of_Some by fastforce
  have e: "err = None" using B(10) nosame TS by (simp add: T_def S_def)
  obtain l2 nt where a1: "After j l1 iid cid0 result = (l2, nt)" by fastforce
  note A = After_run [OF a1 t1(1)]
  obtain t2 where t2: "map_of (tlTurns l2) iid = Some t2" "turn_of l2 iid = t2"
    using a1 t1(1) by (auto simp: After_def Let_def turn_of_Some split: if_splits)
  have t2': "tuLength t2 = 1" "tuLast t2 = \<lparr>tcName = name, tcArgs = serializeArgs j args\<rparr>"
    "tuResult t2 = serializeArgs j result"
    using A t2 t1 B(1,9) nosame by auto
  have "map (\<lambda>a. a \<noteq> None) (snd (rounds j l2 iid name rs)) = map (\<lambda>k. T + S \<le> 1 + 1 + int k) [0..<length rs]"
    using rounds_count [OF assms(1) t2(1) t2'(1), of name "serializeArgs j result" j rs] t2' assms(2) TS A(3,4) B(3,4)
    by (simp add: T_def S_def)
  then have "map (\<lambda>a. a \<noteq> None) (snd (rounds j l iid name ((cid0, args, result) # rs))) =
      False # map (\<lambda>k. T + S \<le> 1 + 1 + int k) [0..<length rs]"
    using b1 a1 e by (simp add: case_prod_beta)
  also have "\<dots> = map (\<lambda>k. T + S \<le> 1 + int k) [0..<length rs + 1]"
    using TS(1,2) by (simp add: map_upt_Suc algebra_simps del: upt_Suc)
  finally show ?thesis unfolding TS(3,4) l_def .
qed

theorem loop_stops_at_witness:
  "map (\<lambda>a. a \<noteq> None) (snd (rounds demo_codec (NewTurnLoop 2 1) ''i'' ''ls''
     ((''0'', [], []) # [(''1'', [], []), (''2'', [], []), (''3'', [], [])]))) = [False, False, True, True]"
  using loop_stops_at [of "''i''" demo_codec "[]" "[]" "[(''1'', [], []), (''2'', [], []), (''3'', [], [])]" 2 1 "''ls''" "''0''"]
  by (simp add: argsEquivalent_def upt_rec del: rounds.simps)

text \<open>Polling is not a loop. A tool whose result changes from one call to the next is never stopped,
  however often it is called and with whatever arguments (JSON texts being non-empty).\<close>

theorem polling_never_stopped:
  assumes "iid \<noteq> []" "\<And>m. cdMarshalMap j m \<noteq> Some []"
    and "distinct_adj (map (\<lambda>(cid, args, result). serializeArgs j result) rs)"
  shows "list_all (\<lambda>a. a = None) (snd (rounds j (NewTurnLoop a b) iid name rs))"
proof (cases rs)
  case (Cons r rest)
  obtain cid args result where r: "r = (cid, args, result)" by (cases r)
  define l where "l = NewTurnLoop a b"
  have TS: "2 \<le> tlThreshold l" "1 \<le> tlStopAfter l" by (auto simp: l_def NewTurnLoop_def)
  obtain l1 err where b1: "Before j l iid cid name args = (l1, err)" by fastforce
  have "\<not> same_call j (turn_of l iid) tc" for tc
    by (simp add: l_def NewTurnLoop_def turn_of_def same_call_def new_run_def)
  note B = Before_run [OF assms(1) b1] and nosame = this
  obtain t1 where t1: "map_of (tlTurns l1) iid = Some t1" "turn_of l1 iid = t1"
    using B(2) turn_of_Some by fastforce
  have e: "err = None" using B(10) nosame TS by simp
  obtain l2 nt where a1: "After j l1 iid cid result = (l2, nt)" by fastforce
  note A = After_run [OF a1 t1(1)]
  obtain t2 where t2: "map_of (tlTurns l2) iid = Some t2" "turn_of l2 iid = t2"
    using a1 t1(1) by (auto simp: After_def Let_def turn_of_Some split: if_splits)
  have "tuLength t2 \<le> 1" "tuResult t2 = serializeArgs j result"
    using A t2 t1 B(1,9) nosame by auto
  moreover have "serializeArgs j result \<noteq> []"
    using assms(2) by (auto simp: serializeArgs_def split: option.splits)
  ultimately have "list_all (\<lambda>a. a = None) (snd (rounds j l2 iid name rest))"
    using rounds_changing [OF assms(1) t2(1) _ _ assms(2), of rest name] assms(3) Cons r TS A(3,4) B(3,4) by auto
  then show ?thesis using Cons r b1 a1 e unfolding l_def by (simp add: case_prod_beta)
qed simp

theorem polling_never_stopped_witness:
  "list_all (\<lambda>a. a = None) (snd (rounds
     \<lparr>cdUnmarshal = (\<lambda>_. None), cdMarshalMap = (\<lambda>m. Some (''x'' @ concat (map fst m))), cdMarshal = (\<lambda>_. None)\<rparr>
     (NewTurnLoop 2 1) ''i'' ''get''
     [(''0'', [], [(''a'', JStr [])]), (''1'', [], [(''b'', JStr [])]), (''2'', [], [(''a'', JStr [])])]))"
  by (rule polling_never_stopped) (simp_all add: serializeArgs_def)

end
