(* ===== verification/Effects.thy ===== *)
theory Effects
  imports Go_Strings Interfaces
begin

text \<open>
  The effects outbox of \<^verbatim>\<open>src/internal/effects\<close>: a mutating tool call whose outcome an interrupted
  turn left unknown blocks further mutation until an operator acknowledges it, and a call whose
  completion is on record is answered from the record instead of being made again
  (\<^verbatim>\<open>effects.go\<close>); the intents of dispatched sub-runs are recorded before they are acted on
  (\<^verbatim>\<open>subrun.go\<close>).

  Session events are data of the agent kit: an \<open>event\<close> holds what the scan reads of one. A part may
  carry a call, a response, or both. The value of \<^verbatim>\<open>originalFunctionCall\<close> in the arguments of a
  confirmation request is an \<open>orig_call\<close>. The sessions' external intents, the acknowledgement time
  and the intent store are arguments.
\<close>

section \<open>Classes of tools\<close>

datatype effect_class = ClassReadOnly | ClassMutating | ClassSpawning

type_synonym predicate = "string \<Rightarrow> effect_class"

definition confirmationCallName :: string where "confirmationCallName = ''adk_request_confirmation''"

definition controlCalls :: "string list" where
  "controlCalls = [''adk_request_input'', ''adk_request_credential'', confirmationCallName, ''finish_task'',
     ''transfer_to_agent'', ''task_completed'', ''exit_loop'', ''pause_session'']"

definition builtinClasses :: "(string, effect_class) gomap" where
  "builtinClasses = [(''invoke_specialist'', ClassSpawning), (''run_shape_llm_router'', ClassSpawning),
     (''run_shape_fan_out_fan_in'', ClassSpawning), (''invoke_remote_agent'', ClassMutating),
     (''request_operator_input'', ClassReadOnly), (''retrieve_raw'', ClassReadOnly)]"

definition NewPredicateWithHints ::
  "(string, bool) gomap \<Rightarrow> (string \<Rightarrow> bool \<times> bool) option \<Rightarrow> predicate" where
  "NewPredicateWithHints overrides hint name =
     (if name \<in> set controlCalls then ClassReadOnly
      else case map_of overrides name of
          Some mutating \<Rightarrow> (if mutating then ClassMutating else ClassReadOnly)
        | None \<Rightarrow>
            (case map_of builtinClasses name of
               Some c \<Rightarrow> c
             | None \<Rightarrow>
                 (case hint of
                    None \<Rightarrow> ClassMutating
                  | Some h \<Rightarrow>
                      (let (readOnly, annotated) = h name
                       in if annotated \<and> readOnly then ClassReadOnly else ClassMutating))))"

definition NewPredicate :: "(string, bool) gomap \<Rightarrow> predicate" where
  "NewPredicate overrides = NewPredicateWithHints overrides None"

record tool_policy =
  tpName :: string
  tpMutating :: "bool option"

fun Overrides :: "tool_policy list \<Rightarrow> (string, bool) gomap \<Rightarrow> (string, bool) gomap" where
  "Overrides [] out = out"
| "Overrides (p # ps) out =
     (let name = TrimSpace (tpName p)
      in case tpMutating p of
          None \<Rightarrow> Overrides ps out
        | Some m \<Rightarrow> if name = [] then Overrides ps out else Overrides ps (AList.update name m out))"

definition CheckNameCollisions :: "string list \<Rightarrow> predicate option \<Rightarrow> tool_policy list \<Rightarrow> string list" where
  "CheckNameCollisions subAgents predo policies =
     (case predo of
        None \<Rightarrow> []
      | Some pred \<Rightarrow>
          if subAgents = [] then []
          else
            (let candidates = map fst builtinClasses @
                   filter (\<lambda>n. n \<noteq> []) (map (\<lambda>p. TrimSpace (tpName p)) policies)
             in sort (filter (\<lambda>n. n \<in> set subAgents \<and> pred n \<noteq> ClassReadOnly) (remdups candidates))))"

section \<open>Session history\<close>

datatype orig_call = OrigPtr "string option" | OrigMap "string option" | OrigOther

record function_call =
  fcID :: string
  fcName :: string
  fcOriginal :: "orig_call option"

record function_response =
  frID :: string
  frName :: string
  frResponse :: "(string, string) gomap option"

record part =
  ptCall :: "function_call option"
  ptResponse :: "function_response option"

record event =
  evInvocationID :: string
  evTimestamp :: gotime
  evParts :: "part option list option"
  evLongRunning :: "string list"
  evConfirmations :: "string list"

record intent =
  diToolName :: string
  diCallID :: string
  diInvocationID :: string
  diTimestamp :: gotime
  diEventIndex :: int

record scanned_call =
  scIntent :: intent
  scClass :: effect_class
  scExcluded :: bool

record scan =
  psCompletions :: "(string, (string, string) gomap option) gomap"
  psLastCallEventIndex :: int
  psOpen :: "(string, scanned_call) gomap"
  psCallName :: "(string, string) gomap"
  psOrder :: "string list"
  psEvIdx :: int

definition confirmationGatedCallID :: "orig_call option \<Rightarrow> string" where
  "confirmationGatedCallID orig =
     (case orig of Some (OrigPtr (Some i)) \<Rightarrow> i | Some (OrigMap (Some i)) \<Rightarrow> i | _ \<Rightarrow> [])"

definition scan_call :: "predicate \<Rightarrow> string list \<Rightarrow> event \<Rightarrow> function_call \<Rightarrow> scan \<Rightarrow> scan" where
  "scan_call pred subAgents ev fc s =
     (let gated = confirmationGatedCallID (fcOriginal fc);
          s1 = (if fcName fc = confirmationCallName \<and> gated \<noteq> []
                then s\<lparr>psCompletions := AList.delete gated (psCompletions s)\<rparr> else s)
      in if fcID fc = [] then s1
         else s1\<lparr>psLastCallEventIndex := psEvIdx s1,
                 psCallName := AList.update (fcID fc) (fcName fc) (psCallName s1),
                 psOrder := (if map_of (psOpen s1) (fcID fc) = None then psOrder s1 @ [fcID fc] else psOrder s1),
                 psOpen := AList.update (fcID fc)
                   \<lparr>scIntent = \<lparr>diToolName = fcName fc, diCallID = fcID fc, diInvocationID = evInvocationID ev,
                       diTimestamp = evTimestamp ev, diEventIndex = psEvIdx s1\<rparr>,
                    scClass = pred (fcName fc),
                    scExcluded = (fcID fc \<in> set (evLongRunning ev) \<or> fcName fc \<in> set controlCalls \<or>
                      fcName fc \<in> set subAgents)\<rparr> (psOpen s1)\<rparr>)"

definition scan_response :: "predicate \<Rightarrow> event \<Rightarrow> function_response \<Rightarrow> scan \<Rightarrow> scan" where
  "scan_response pred ev fr s =
     (if frID fr = [] then s
      else let s1 = s\<lparr>psOpen := AList.delete (frID fr) (psOpen s)\<rparr>
           in if frID fr \<in> set (evConfirmations ev) then s1
              else let name = (if frName fr = [] then mget [] (psCallName s1) (frID fr) else frName fr)
                   in if pred name = ClassMutating
                      then s1\<lparr>psCompletions := AList.update (frID fr) (frResponse fr) (psCompletions s1)\<rparr>
                      else s1)"

definition scan_part :: "predicate \<Rightarrow> string list \<Rightarrow> event \<Rightarrow> scan \<Rightarrow> part option \<Rightarrow> scan" where
  "scan_part pred subAgents ev s p =
     (case p of
        None \<Rightarrow> s
      | Some pt \<Rightarrow>
          (let s1 = (case ptCall pt of None \<Rightarrow> s | Some fc \<Rightarrow> scan_call pred subAgents ev fc s);
               skip = (case ptCall pt of None \<Rightarrow> False | Some fc \<Rightarrow> fcID fc = [])
           in if skip then s1
              else case ptResponse pt of None \<Rightarrow> s1 | Some fr \<Rightarrow> scan_response pred ev fr s1))"

definition scan_event :: "predicate \<Rightarrow> string list \<Rightarrow> scan \<Rightarrow> event option \<Rightarrow> scan" where
  "scan_event pred subAgents s e =
     (case e of
        None \<Rightarrow> s
      | Some ev \<Rightarrow>
          (case evParts ev of
             None \<Rightarrow> s
           | Some ps \<Rightarrow> foldl (scan_part pred subAgents ev) (s\<lparr>psEvIdx := psEvIdx s + 1\<rparr>) ps))"

definition scan0 :: scan where
  "scan0 = \<lparr>psCompletions = [], psLastCallEventIndex = - 1, psOpen = [], psCallName = [], psOrder = [], psEvIdx = - 1\<rparr>"

record paired_scan =
  pdUnpaired :: "scanned_call list"
  pdCompletions :: "(string, (string, string) gomap option) gomap"
  pdLastCallEventIndex :: int

definition pairScan :: "event option list \<Rightarrow> predicate \<Rightarrow> string list \<Rightarrow> paired_scan" where
  "pairScan events pred subAgents =
     (let s = foldl (scan_event pred subAgents) scan0 events
      in \<lparr>pdUnpaired = List.map_filter (\<lambda>i. map_of (psOpen s) i) (psOrder s),
          pdCompletions = psCompletions s, pdLastCallEventIndex = psLastCallEventIndex s\<rparr>)"

definition sortByTimestamp :: "intent list \<Rightarrow> intent list" where
  "sortByTimestamp ds = sort_key diTimestamp ds"

record turn_state =
  tsDangling :: "intent list"
  tsCompletions :: "(string, (string, string) gomap option) gomap"

definition blocking :: "scanned_call \<Rightarrow> bool" where
  "blocking c \<longleftrightarrow> \<not> scExcluded c \<and> (scClass c = ClassMutating \<or> scClass c = ClassSpawning)"

definition scanHistory :: "event option list \<Rightarrow> predicate \<Rightarrow> string list \<Rightarrow> turn_state" where
  "scanHistory events pred subAgents =
     (let ps = pairScan events pred subAgents
      in \<lparr>tsDangling = sortByTimestamp (map scIntent (filter blocking (pdUnpaired ps))),
          tsCompletions = pdCompletions ps\<rparr>)"

record dangling_scan =
  dgMutating :: "intent list"
  dgRepairable :: "intent list"
  dgDeferred :: "intent list"
  dgLastCallEventIndex :: int

definition ScanDangling :: "event option list \<Rightarrow> predicate \<Rightarrow> string list \<Rightarrow> dangling_scan" where
  "ScanDangling events pred subAgents =
     (let ps = pairScan events pred subAgents; cs = pdUnpaired ps
      in \<lparr>dgMutating = sortByTimestamp (map scIntent (filter blocking cs)),
          dgRepairable = sortByTimestamp (map scIntent (filter (\<lambda>c. \<not> scExcluded c \<and> \<not> blocking c) cs)),
          dgDeferred = sortByTimestamp (map scIntent (filter scExcluded cs)),
          dgLastCallEventIndex = pdLastCallEventIndex ps\<rparr>)"

definition WithExternal :: "dangling_scan \<Rightarrow> intent list \<Rightarrow> dangling_scan" where
  "WithExternal s external =
     (if external = [] then s else s\<lparr>dgMutating := sortByTimestamp (dgMutating s @ external)\<rparr>)"

section \<open>The plugin\<close>

record outbox =
  obPredicate :: predicate
  obSubAgents :: "string list"
  obExternal :: "(string \<Rightarrow> intent list) option"
  obAckedAt :: "(string \<Rightarrow> gotime option) option"
  obTurns :: "(string, turn_state) gomap"

text \<open>\<open>None\<close> is \<^verbatim>\<open>New\<close> refusing a configuration without a predicate.\<close>

definition New ::
  "predicate option \<Rightarrow> string list \<Rightarrow> (string \<Rightarrow> intent list) option \<Rightarrow> (string \<Rightarrow> gotime option) option
   \<Rightarrow> outbox option" where
  "New pred subAgents ext acked =
     map_option (\<lambda>p. \<lparr>obPredicate = p, obSubAgents = subAgents, obExternal = ext, obAckedAt = acked, obTurns = []\<rparr>) pred"

definition with_external :: "outbox \<Rightarrow> string \<Rightarrow> intent list \<Rightarrow> intent list" where
  "with_external b sid ds =
     (case obExternal b of
        None \<Rightarrow> ds
      | Some f \<Rightarrow> (let ext = f sid in if ext = [] then ds else sortByTimestamp (ds @ ext)))"

definition without_acked :: "outbox \<Rightarrow> string \<Rightarrow> intent list \<Rightarrow> intent list" where
  "without_acked b sid ds =
     (case obAckedAt b of
        None \<Rightarrow> ds
      | Some f \<Rightarrow>
          if ds = [] then ds
          else case f sid of None \<Rightarrow> ds | Some ack \<Rightarrow> filter (\<lambda>d. ack < diTimestamp d) ds)"

text \<open>The session is its id and its events; a run without a session is \<open>None\<close>.\<close>

definition beforeRun :: "outbox \<Rightarrow> string \<Rightarrow> (string \<times> event option list) option \<Rightarrow> outbox" where
  "beforeRun b iid sess =
     (case sess of
        None \<Rightarrow> b
      | Some (sid, events) \<Rightarrow>
          (let st = scanHistory events (obPredicate b) (obSubAgents b);
               ds = without_acked b sid (with_external b sid (tsDangling st))
           in if ds = [] \<and> tsCompletions st = [] then b
              else b\<lparr>obTurns := AList.update iid (st\<lparr>tsDangling := ds\<rparr>) (obTurns b)\<rparr>))"

text \<open>
  The answer of the callback: \<open>Execute\<close> is the nil response that lets the tool run; \<open>Replayed\<close> is the
  recorded response (\<open>None\<close> for the note that stands in for an empty one); \<open>RefusedAmbiguous\<close> carries
  the intents the refusal describes.
\<close>

datatype tool_answer =
    Execute
  | Replayed "(string, string) gomap option"
  | RefusedAmbiguous "intent list"

definition beforeTool :: "outbox \<Rightarrow> string \<Rightarrow> string \<Rightarrow> string \<Rightarrow> tool_answer" where
  "beforeTool b iid callID name =
     (let cls = obPredicate b name
      in if cls = ClassReadOnly then Execute
         else case map_of (obTurns b) iid of
             None \<Rightarrow> Execute
           | Some st \<Rightarrow>
               (case (if cls = ClassMutating then map_of (tsCompletions st) callID else None) of
                  Some resp \<Rightarrow> Replayed resp
                | None \<Rightarrow> if tsDangling st = [] then Execute else RefusedAmbiguous (tsDangling st)))"

definition afterRun :: "outbox \<Rightarrow> string \<Rightarrow> outbox" where
  "afterRun b iid = b\<lparr>obTurns := AList.delete iid (obTurns b)\<rparr>"

section \<open>Sub-runs (subrun.go)\<close>

definition calls_part :: "predicate \<Rightarrow> string list \<Rightarrow> event \<Rightarrow> part \<Rightarrow> intent option \<times> bool" where
  "calls_part pred subAgents ev pt =
     (case ptCall pt of
        None \<Rightarrow> (None, True)
      | Some fc \<Rightarrow>
          if fcID fc = [] then (None, True)
          else if fcID fc \<in> set (evLongRunning ev) \<or> fcName fc \<in> set controlCalls \<or> fcName fc \<in> set subAgents
          then (None, False)
          else if pred (fcName fc) \<noteq> ClassMutating \<and> pred (fcName fc) \<noteq> ClassSpawning then (None, False)
          else (Some \<lparr>diToolName = fcName fc, diCallID = fcID fc, diInvocationID = evInvocationID ev,
                  diTimestamp = evTimestamp ev, diEventIndex = - 1\<rparr>, True))"

definition completed_part :: "event \<Rightarrow> part \<Rightarrow> string list" where
  "completed_part ev pt =
     (case ptResponse pt of
        None \<Rightarrow> []
      | Some fr \<Rightarrow>
          if frID fr = [] \<or> frID fr \<in> set (evConfirmations ev) \<or> frName fr = confirmationCallName then []
          else [frID fr])"

fun MutatingCalls_parts ::
  "predicate \<Rightarrow> string list \<Rightarrow> event \<Rightarrow> part option list \<Rightarrow> intent list \<times> string list" where
  "MutatingCalls_parts pred subAgents ev [] = ([], [])"
| "MutatingCalls_parts pred subAgents ev (None # ps) = MutatingCalls_parts pred subAgents ev ps"
| "MutatingCalls_parts pred subAgents ev (Some pt # ps) =
     (let (raised, completed) = MutatingCalls_parts pred subAgents ev ps;
          (i, cont) = calls_part pred subAgents ev pt
      in ((case i of None \<Rightarrow> raised | Some x \<Rightarrow> x # raised),
          (if cont then completed_part ev pt @ completed else completed)))"

definition MutatingCalls ::
  "event option \<Rightarrow> predicate option \<Rightarrow> string list \<Rightarrow> intent list \<times> string list" where
  "MutatingCalls e predo subAgents =
     (case (e, predo) of
        (Some ev, Some pred) \<Rightarrow>
          (case evParts ev of None \<Rightarrow> ([], []) | Some ps \<Rightarrow> MutatingCalls_parts pred subAgents ev ps)
      | _ \<Rightarrow> ([], []))"

record recorder =
  rcSessionID :: string
  rcSpecialist :: string
  rcPredicate :: predicate
  rcSubAgents :: "string list"

datatype recorder_error = NoStore | NoPredicate | NoSession

definition NewSubRunRecorder ::
  "bool \<Rightarrow> string \<Rightarrow> string \<Rightarrow> predicate option \<Rightarrow> string list \<Rightarrow> recorder_error + recorder" where
  "NewSubRunRecorder hasStore sid specialist predo subAgents =
     (if \<not> hasStore then Inl NoStore
      else case predo of
          None \<Rightarrow> Inl NoPredicate
        | Some p \<Rightarrow>
            if sid = [] then Inl NoSession
            else Inr \<lparr>rcSessionID = sid, rcSpecialist = specialist, rcPredicate = p, rcSubAgents = subAgents\<rparr>)"

datatype store_op = Completed "string list" | Recorded "intent list"

text \<open>
  What the store answers to recording is an argument: \<open>None\<close> for success. A failed completion is
  only logged: the intent stays on record. The first component is what was asked of the store, in
  order; the second is the error that stops the dispatch.
\<close>

definition SubRun_Observe ::
  "(intent list \<Rightarrow> string option) \<Rightarrow> recorder \<Rightarrow> event option \<Rightarrow> store_op list \<times> (intent list \<times> string) option" where
  "SubRun_Observe recordIntents r e =
     (let (raised, completed) = MutatingCalls e (Some (rcPredicate r)) (rcSubAgents r);
          ops1 = (if completed = [] then [] else [Completed completed])
      in if raised = [] then (ops1, None)
         else case recordIntents raised of
             None \<Rightarrow> (ops1 @ [Recorded raised], None)
           | Some err \<Rightarrow> (ops1 @ [Recorded raised], Some (raised, err)))"

section \<open>What the history says\<close>

definition items_of :: "event option \<Rightarrow> (event \<times> part) list" where
  "items_of e =
     (case e of
        None \<Rightarrow> []
      | Some ev \<Rightarrow>
          (case evParts ev of None \<Rightarrow> [] | Some ps \<Rightarrow> map (Pair ev) (List.map_filter (\<lambda>p. p) ps)))"

definition items :: "event option list \<Rightarrow> (event \<times> part) list" where
  "items events = concat (map items_of events)"

definition calls :: "string \<Rightarrow> event \<times> part \<Rightarrow> bool" where
  "calls i it \<longleftrightarrow> i \<noteq> [] \<and> (case ptCall (snd it) of None \<Rightarrow> False | Some fc \<Rightarrow> fcID fc = i)"

definition responds :: "string \<Rightarrow> event \<times> part \<Rightarrow> bool" where
  "responds i it \<longleftrightarrow> i \<noteq> [] \<and> (case ptResponse (snd it) of None \<Rightarrow> False | Some fr \<Rightarrow> frID fr = i) \<and>
     (case ptCall (snd it) of None \<Rightarrow> True | Some fc \<Rightarrow> fcID fc \<noteq> [])"

definition excluded_call :: "string list \<Rightarrow> event \<Rightarrow> function_call \<Rightarrow> bool" where
  "excluded_call subAgents ev fc \<longleftrightarrow>
     fcID fc \<in> set (evLongRunning ev) \<or> fcName fc \<in> set controlCalls \<or> fcName fc \<in> set subAgents"

text \<open>
  A call of id \<open>i\<close> that the history never resolved: a part raised it, that part did not answer it,
  and no later part answered it or raised it again.
\<close>

definition unresolved :: "event option list \<Rightarrow> string \<Rightarrow> event \<Rightarrow> function_call \<Rightarrow> bool" where
  "unresolved events i ev fc \<longleftrightarrow>
     (\<exists>us pt vs. items events = us @ (ev, pt) # vs \<and> ptCall pt = Some fc \<and> fcID fc = i \<and> i \<noteq> [] \<and>
        \<not> responds i (ev, pt) \<and> (\<forall>y \<in> set vs. \<not> responds i y \<and> \<not> calls i y))"

definition opened :: "string \<Rightarrow> event \<times> part \<Rightarrow> (event \<times> function_call) option option" where
  "opened i it =
     (if responds i it then Some None
      else if calls i it then Some (map_option (Pair (fst it)) (ptCall (snd it))) else None)"

definition last_open :: "string \<Rightarrow> (event \<times> part) list \<Rightarrow> (event \<times> function_call) option" where
  "last_open i its = foldl (\<lambda>s it. case opened i it of None \<Rightarrow> s | Some v \<Rightarrow> v) None its"

definition mk_open :: "predicate \<Rightarrow> string list \<Rightarrow> event \<times> function_call \<Rightarrow> scanned_call \<Rightarrow> bool" where
  "mk_open pred subs ef c \<longleftrightarrow>
     diToolName (scIntent c) = fcName (snd ef) \<and> diCallID (scIntent c) = fcID (snd ef) \<and>
     diTimestamp (scIntent c) = evTimestamp (fst ef) \<and> diInvocationID (scIntent c) = evInvocationID (fst ef) \<and>
     scClass c = pred (fcName (snd ef)) \<and> scExcluded c = excluded_call subs (fst ef) (snd ef)"

text \<open>A confirmation request for the call of id \<open>i\<close>: its earlier response was only a placeholder.\<close>

definition gates :: "string \<Rightarrow> event \<times> part \<Rightarrow> bool" where
  "gates i it \<longleftrightarrow>
     (case ptCall (snd it) of
        None \<Rightarrow> False
      | Some fc \<Rightarrow> fcName fc = confirmationCallName \<and> confirmationGatedCallID (fcOriginal fc) = i)"

definition completes :: "predicate \<Rightarrow> string \<Rightarrow> event \<times> part \<Rightarrow> bool" where
  "completes pred i it \<longleftrightarrow> responds i it \<and> i \<notin> set (evConfirmations (fst it)) \<and>
     (case ptResponse (snd it) of
        None \<Rightarrow> False
      | Some fr \<Rightarrow> frName fr \<noteq> [] \<and> pred (frName fr) = ClassMutating)"

text \<open>The history has a response that completed the mutating call \<open>i\<close>, with no confirmation request after it.\<close>

definition completed_in :: "event option list \<Rightarrow> predicate \<Rightarrow> string \<Rightarrow> bool" where
  "completed_in events pred i \<longleftrightarrow>
     (\<exists>us it vs. items events = us @ it # vs \<and> completes pred i it \<and> (\<forall>y \<in> set vs. \<not> gates i y))"

definition answered_with :: "event option list \<Rightarrow> string \<Rightarrow> (string, string) gomap option \<Rightarrow> bool" where
  "answered_with events i r \<longleftrightarrow>
     (\<exists>it \<in> set (items events). responds i it \<and> i \<notin> set (evConfirmations (fst it)) \<and>
        (case ptResponse (snd it) of None \<Rightarrow> False | Some fr \<Rightarrow> frResponse fr = r))"


definition demo_call :: "string \<Rightarrow> string \<Rightarrow> part option" where
  "demo_call i name = Some \<lparr>ptCall = Some \<lparr>fcID = i, fcName = name, fcOriginal = None\<rparr>, ptResponse = None\<rparr>"

definition demo_response :: "string \<Rightarrow> string \<Rightarrow> part option" where
  "demo_response i name = Some \<lparr>ptCall = None, ptResponse = Some \<lparr>frID = i, frName = name, frResponse = Some [(''ok'', ''1'')]\<rparr>\<rparr>"

definition demo_event :: "gotime \<Rightarrow> part option list \<Rightarrow> event option" where
  "demo_event t ps = Some \<lparr>evInvocationID = ''i0'', evTimestamp = t, evParts = Some ps, evLongRunning = [], evConfirmations = []\<rparr>"

definition demo_outbox :: outbox where
  "demo_outbox = \<lparr>obPredicate = NewPredicate [], obSubAgents = [], obExternal = None, obAckedAt = None, obTurns = []\<rparr>"

section \<open>Lemmas: the scan\<close>

lemma foldl_map_filter: "foldl f s (List.map_filter g xs) = foldl (\<lambda>s x. case g x of None \<Rightarrow> s | Some y \<Rightarrow> f s y) s xs"
  by (induction xs arbitrary: s) (auto simp: map_filter_simps split: option.split)

text \<open>An invariant kept by every part holds of the scanned history.\<close>

lemma scan_foldl:
  assumes parts: "\<And>s ev pt its. I s its \<Longrightarrow> I (scan_part pred subs ev s (Some pt)) (its @ [(ev, pt)])"
    and idx: "\<And>s its n. I s its \<Longrightarrow> I (s\<lparr>psEvIdx := n\<rparr>) its"
    and start: "I s0 its"
  shows "I (foldl (scan_event pred subs) s0 events) (its @ items events)"
  using start
proof (induction events arbitrary: s0 its)
  case (Cons e events)
  have ps: "I (foldl (scan_part pred subs ev) s ps) (its @ map (Pair ev) (List.map_filter (\<lambda>p. p) ps))"
    if "I s its" for ev ps s its
    using that
  proof (induction ps arbitrary: s its)
    case (Cons p ps)
    show ?case
    proof (cases p)
      case None
      with Cons show ?thesis by (simp add: scan_part_def map_filter_simps)
    next
      case (Some pt)
      with Cons.IH [OF parts [OF Cons.prems, of ev pt]] show ?thesis by (simp add: map_filter_simps)
    qed
  qed (simp add: map_filter_simps)
  have "I (scan_event pred subs s0 e) (its @ items_of e)"
    using Cons.prems by (auto simp: scan_event_def items_of_def intro: idx ps split: option.split)
  from Cons.IH [OF this] show ?case by (simp add: items_def)
qed (simp add: items_def)

lemma scan_call_open:
  "map_of (psOpen (scan_call pred subs ev fc s)) i =
     (if fcID fc \<noteq> [] \<and> i = fcID fc
      then Some \<lparr>scIntent = \<lparr>diToolName = fcName fc, diCallID = fcID fc, diInvocationID = evInvocationID ev,
                   diTimestamp = evTimestamp ev, diEventIndex = psEvIdx s\<rparr>,
                 scClass = pred (fcName fc), scExcluded = excluded_call subs ev fc\<rparr>
      else map_of (psOpen s) i)"
  by (auto simp: scan_call_def Let_def excluded_call_def)

lemma scan_response_open:
  "map_of (psOpen (scan_response pred ev fr s)) i =
     (if frID fr \<noteq> [] \<and> i = frID fr then None else map_of (psOpen s) i)"
  by (auto simp: scan_response_def Let_def)

text \<open>The open call of an id is what the last part that touched the id left.\<close>

lemma scan_part_open:
  assumes "rel_option (mk_open pred subs) (last_open i its)
      (map_of (psOpen s) i)"
  shows "rel_option (mk_open pred subs)
      (last_open i (its @ [(ev, pt)]))
      (map_of (psOpen (scan_part pred subs ev s (Some pt))) i)"
  using assms
  by (auto simp: last_open_def scan_part_def opened_def responds_def calls_def scan_call_open scan_response_open mk_open_def Let_def
      split: option.splits if_splits)

lemma pairScan_open:
  "rel_option (mk_open pred subs) (last_open i (items events))
     (map_of (psOpen (foldl (scan_event pred subs) scan0 events)) i)"
proof -
  have "rel_option (mk_open pred subs) (last_open i ([] @ items events))
      (map_of (psOpen (foldl (scan_event pred subs) scan0 events)) i)"
    by (rule scan_foldl [where I = "\<lambda>s its. rel_option (mk_open pred subs) (last_open i its) (map_of (psOpen s) i)"])
      (erule scan_part_open, simp, simp add: scan0_def last_open_def)
  then show ?thesis by simp
qed

lemma last_open_unresolved: "last_open i (items events) = Some (ev, fc) \<longleftrightarrow> unresolved events i ev fc"
proof -
  have w: "opened i it = Some (Some (ev, fc)) \<longleftrightarrow>
      \<not> responds i it \<and> i \<noteq> [] \<and> fst it = ev \<and> ptCall (snd it) = Some fc \<and> fcID fc = i" for it
    by (auto simp: opened_def calls_def split: option.splits)
  have n: "opened i it = None \<longleftrightarrow> \<not> responds i it \<and> \<not> calls i it" for it
    by (auto simp: opened_def)
  have "(\<exists>us x vs. items events = us @ x # vs \<and> opened i x = Some (Some (ev, fc)) \<and> (\<forall>y \<in> set vs. opened i y = None)) \<longleftrightarrow>
      unresolved events i ev fc" (is "?L \<longleftrightarrow> _")
  proof
    assume ?L
    then obtain us x vs where "items events = us @ x # vs" "opened i x = Some (Some (ev, fc))"
        "\<forall>y \<in> set vs. opened i y = None" by blast
    then show "unresolved events i ev fc"
      unfolding unresolved_def w n by (metis prod.collapse)
  next
    assume "unresolved events i ev fc"
    then obtain us pt vs where "items events = us @ (ev, pt) # vs" "ptCall pt = Some fc" "fcID fc = i" "i \<noteq> []"
        "\<not> responds i (ev, pt)" "\<forall>y \<in> set vs. \<not> responds i y \<and> \<not> calls i y"
      unfolding unresolved_def by blast
    then show ?L unfolding w n by (metis fst_conv snd_conv)
  qed
  then show ?thesis
    unfolding last_open_def by (subst foldl_register [of _ "opened i", OF refl])
qed

text \<open>Every open call is in the order list, under its own id.\<close>

lemma open_in_order:
  "\<forall>i. map_of (psOpen (foldl (scan_event pred subs) scan0 events)) i \<noteq> None \<longrightarrow>
     i \<in> set (psOrder (foldl (scan_event pred subs) scan0 events))"
proof (rule scan_foldl [where I = "\<lambda>s its. \<forall>i. map_of (psOpen s) i \<noteq> None \<longrightarrow> i \<in> set (psOrder s)"])
  fix s :: scan and ev pt its
  assume s: "\<forall>i. map_of (psOpen s) i \<noteq> None \<longrightarrow> i \<in> set (psOrder s)"
  have call: "\<forall>i. map_of (psOpen (scan_call pred subs ev fc s)) i \<noteq> None \<longrightarrow> i \<in> set (psOrder (scan_call pred subs ev fc s))" for fc
    using s by (auto simp: scan_call_def Let_def)
  have resp: "psOrder (scan_response pred ev fr s) = psOrder s" for fr s
    by (simp add: scan_response_def Let_def)
  show "\<forall>i. map_of (psOpen (scan_part pred subs ev s (Some pt))) i \<noteq> None \<longrightarrow>
      i \<in> set (psOrder (scan_part pred subs ev s (Some pt)))"
    using s call by (auto simp: scan_part_def resp scan_response_open Let_def split: option.split)
qed (auto simp: scan0_def)

lemma unpaired_iff:
  "c \<in> set (pdUnpaired (pairScan events pred subs)) \<longleftrightarrow>
     (\<exists>i. map_of (psOpen (foldl (scan_event pred subs) scan0 events)) i = Some c)"
  using open_in_order [of pred subs events]
  by (force simp: pairScan_def Let_def List.map_filter_def)

lemma unpaired_unresolved:
  "(\<exists>c \<in> set (pdUnpaired (pairScan events pred subs)). diCallID (scIntent c) = i \<and> Q c) \<longleftrightarrow>
     (\<exists>ev fc c. unresolved events i ev fc \<and> mk_open pred subs (ev, fc) c \<and>
        c \<in> set (pdUnpaired (pairScan events pred subs)) \<and> Q c)" (is "?L \<longleftrightarrow> ?R")
proof
  assume ?L
  then obtain c k where c: "map_of (psOpen (foldl (scan_event pred subs) scan0 events)) k = Some c"
      "diCallID (scIntent c) = i" "Q c" by (auto simp: unpaired_iff)
  from pairScan_open [of pred subs k events] c(1) obtain ev fc where
    e: "last_open k (items events) = Some (ev, fc)" "mk_open pred subs (ev, fc) c"
    by (auto simp: option_rel_Some2)
  have u: "unresolved events k ev fc" using e(1) by (simp add: last_open_unresolved)
  then have "fcID fc = k" by (auto simp: unresolved_def)
  with e(2) c(2) have "k = i" by (simp add: mk_open_def)
  with u e c show ?R by (auto simp: unpaired_iff)
next
  assume ?R
  then show ?L by (auto simp: mk_open_def unresolved_def)
qed

lemma unresolved_unpaired:
  assumes "unresolved events i ev fc"
  shows "\<exists>c \<in> set (pdUnpaired (pairScan events pred subs)). mk_open pred subs (ev, fc) c"
proof -
  have "last_open i (items events) = Some (ev, fc)" using assms by (simp add: last_open_unresolved)
  with pairScan_open [of pred subs i events] show ?thesis
    by (auto simp: option_rel_Some1 Bex_def unpaired_iff)
qed

section \<open>Lemmas: completions\<close>

lemma scan_call_completions:
  "map_of (psCompletions (scan_call pred subs ev fc s)) i =
     (if fcName fc = confirmationCallName \<and> confirmationGatedCallID (fcOriginal fc) = i \<and> i \<noteq> [] then None
      else map_of (psCompletions s) i)"
  by (auto simp: scan_call_def Let_def)

lemma scan_response_completions:
  "map_of (psCompletions (scan_response pred ev fr s)) i =
     (if i = frID fr \<and> i \<noteq> [] \<and> i \<notin> set (evConfirmations ev) \<and>
         pred (if frName fr = [] then mget [] (psCallName s) i else frName fr) = ClassMutating
      then Some (frResponse fr) else map_of (psCompletions s) i)"
  by (auto simp: scan_response_def Let_def)

lemma scan_part_completions:
  "map_of (psCompletions (scan_part pred subs ev s (Some pt))) i = Some r \<Longrightarrow>
     map_of (psCompletions s) i = Some r \<or>
     (responds i (ev, pt) \<and> i \<notin> set (evConfirmations ev) \<and>
      (case ptResponse pt of None \<Rightarrow> False | Some fr \<Rightarrow> frResponse fr = r))"
  by (auto simp: scan_part_def responds_def scan_call_completions scan_response_completions Let_def
      split: option.splits if_splits)

lemma completions_sound:
  assumes "map_of (pdCompletions (pairScan events pred subs)) i = Some r"
  shows "answered_with events i r"
proof -
  let ?I = "\<lambda>(s :: scan) its. \<forall>i r. map_of (psCompletions s) i = Some r \<longrightarrow>
      (\<exists>it \<in> set its. responds i it \<and> i \<notin> set (evConfirmations (fst it)) \<and>
        (case ptResponse (snd it) of None \<Rightarrow> False | Some fr \<Rightarrow> frResponse fr = r))"
  have "?I (foldl (scan_event pred subs) scan0 events) ([] @ items events)"
  proof (rule scan_foldl [where I = ?I])
    fix s :: scan and ev pt and its :: "(event \<times> part) list"
    assume I: "?I s its"
    show "?I (scan_part pred subs ev s (Some pt)) (its @ [(ev, pt)])"
      using I by (auto dest!: scan_part_completions)
  qed (auto simp: scan0_def)
  with assms show ?thesis by (auto simp: answered_with_def pairScan_def Let_def)
qed

lemma scan_part_completes:
  "completes pred i (ev, pt) \<Longrightarrow> map_of (psCompletions (scan_part pred subs ev s (Some pt))) i \<noteq> None"
  by (auto simp: completes_def responds_def scan_part_def scan_response_completions Let_def split: option.splits)

lemma scan_part_keeps_completion:
  "map_of (psCompletions s) i \<noteq> None \<Longrightarrow> \<not> gates i (ev, pt) \<Longrightarrow>
     map_of (psCompletions (scan_part pred subs ev s (Some pt))) i \<noteq> None"
  by (auto simp: gates_def scan_part_def scan_call_completions scan_response_completions Let_def split: option.splits)

lemma completions_complete:
  assumes "completed_in events pred i"
  shows "map_of (pdCompletions (pairScan events pred subs)) i \<noteq> None"
proof -
  let ?I = "\<lambda>(s :: scan) its. (\<exists>us it vs. its = us @ it # vs \<and> completes pred i it \<and> (\<forall>y \<in> set vs. \<not> gates i y)) \<longrightarrow>
      map_of (psCompletions s) i \<noteq> None"
  have "?I (foldl (scan_event pred subs) scan0 events) ([] @ items events)"
  proof (rule scan_foldl [where I = ?I])
    fix s :: scan and ev pt and its :: "(event \<times> part) list"
    assume I: "?I s its"
    show "?I (scan_part pred subs ev s (Some pt)) (its @ [(ev, pt)])"
    proof
      assume "\<exists>us it vs. its @ [(ev, pt)] = us @ it # vs \<and> completes pred i it \<and> (\<forall>y \<in> set vs. \<not> gates i y)"
      then obtain us it vs where c: "its @ [(ev, pt)] = us @ it # vs" "completes pred i it" "\<forall>y \<in> set vs. \<not> gates i y"
        by blast
      show "map_of (psCompletions (scan_part pred subs ev s (Some pt))) i \<noteq> None"
      proof (cases "vs = []")
        case True
        with c scan_part_completes [of pred i ev pt subs s] show ?thesis by simp
      next
        case False
        then obtain ws y where vs: "vs = ws @ [y]" by (cases vs rule: rev_cases) auto
        with c(1) have its: "its = us @ it # ws" and y: "y = (ev, pt)" by auto
        have "map_of (psCompletions s) i \<noteq> None"
          using I c(2,3) its vs by (metis Un_iff set_append)
        moreover have "\<not> gates i (ev, pt)" using c(3) vs y by simp
        ultimately show ?thesis by (rule scan_part_keeps_completion)
      qed
    qed
  qed auto
  with assms show ?thesis by (auto simp: completed_in_def pairScan_def Let_def)
qed

lemma dangling_iff:
  "i \<in> diCallID ` set (tsDangling (scanHistory events pred subs)) \<longleftrightarrow>
     (\<exists>ev fc. unresolved events i ev fc \<and> \<not> excluded_call subs ev fc \<and> pred (fcName fc) \<noteq> ClassReadOnly)"
proof -
  have "i \<in> diCallID ` set (tsDangling (scanHistory events pred subs)) \<longleftrightarrow>
      (\<exists>c \<in> set (pdUnpaired (pairScan events pred subs)). diCallID (scIntent c) = i \<and> blocking c)"
    by (auto simp: scanHistory_def sortByTimestamp_def Let_def)
  also have "\<dots> \<longleftrightarrow> (\<exists>ev fc c. unresolved events i ev fc \<and> mk_open pred subs (ev, fc) c \<and>
        c \<in> set (pdUnpaired (pairScan events pred subs)) \<and> blocking c)"
    by (rule unpaired_unresolved)
  also have "\<dots> \<longleftrightarrow> (\<exists>ev fc. unresolved events i ev fc \<and> \<not> excluded_call subs ev fc \<and> pred (fcName fc) \<noteq> ClassReadOnly)"
  proof -
    have "blocking c \<longleftrightarrow> \<not> excluded_call subs ev fc \<and> pred (fcName fc) \<noteq> ClassReadOnly"
      if "mk_open pred subs (ev, fc) c" for ev fc c
      using that by (cases "pred (fcName fc)") (auto simp: mk_open_def blocking_def)
    then show ?thesis using unresolved_unpaired [of events i _ _ pred subs] by blast
  qed
  finally show ?thesis .
qed




lemma beforeRun_state:
  assumes "ds = without_acked b sid (with_external b sid (tsDangling (scanHistory events (obPredicate b) (obSubAgents b))))"
    and "cs = tsCompletions (scanHistory events (obPredicate b) (obSubAgents b))" "ds \<noteq> [] \<or> cs \<noteq> []"
  shows "map_of (obTurns (beforeRun b iid (Some (sid, events)))) iid = Some \<lparr>tsDangling = ds, tsCompletions = cs\<rparr>"
  using assms by (auto simp: beforeRun_def scanHistory_def Let_def)

lemma beforeRun_frame [simp]: "obPredicate (beforeRun b iid sess) = obPredicate b"
  by (auto simp: beforeRun_def Let_def split: option.split)

lemma raised_parts:
  assumes "Some pt \<in> set ps" "ptCall pt = Some fc" "fcID fc \<noteq> []" "\<not> excluded_call subs ev fc"
    "pred (fcName fc) \<noteq> ClassReadOnly"
  shows "\<lparr>diToolName = fcName fc, diCallID = fcID fc, diInvocationID = evInvocationID ev,
      diTimestamp = evTimestamp ev, diEventIndex = - 1\<rparr> \<in> set (fst (MutatingCalls_parts pred subs ev ps))"
  using assms
proof (induction pred subs ev ps rule: MutatingCalls_parts.induct)
  case (3 pred subs ev q ps)
  show ?case
  proof (cases "q = pt")
    case True
    with 3 show ?thesis
      by (cases "pred (fcName fc)") (auto simp: calls_part_def excluded_call_def case_prod_beta Let_def)
  next
    case False
    with 3 show ?thesis by (auto simp: case_prod_beta Let_def split: option.split)
  qed
qed auto

section \<open>Properties\<close>

text \<open>C11: the scan of a session's history blocks on exactly the right calls. The ids it reports as
  dangling are those of the calls the history never resolved, that are not read-only and not excluded
  (long-running, a control call, or a sub-agent's name): no resolved call blocks a session, and no
  unresolved mutating or spawning call is missed.\<close>

theorem dangling_exact:
  "i \<in> diCallID ` set (tsDangling (scanHistory events pred subs)) \<longleftrightarrow>
     (\<exists>ev fc. unresolved events i ev fc \<and> \<not> excluded_call subs ev fc \<and> pred (fcName fc) \<noteq> ClassReadOnly)"
  by (rule dangling_iff)



text \<open>C12: an effect on record is not made twice. A mutating call whose completion the history has, with
  no later confirmation request for it, is never executed again in the turn that starts on this
  history: the outbox answers it with a response that the history recorded for that very call.\<close>

theorem completed_effect_replayed:
  assumes "completed_in events (obPredicate b) cid" "obPredicate b name = ClassMutating"
  shows "\<exists>r. beforeTool (beforeRun b iid (Some (sid, events))) iid cid name = Replayed r \<and> answered_with events cid r"
proof -
  let ?st = "scanHistory events (obPredicate b) (obSubAgents b)"
  have cs: "tsCompletions ?st = pdCompletions (pairScan events (obPredicate b) (obSubAgents b))"
    by (simp add: scanHistory_def Let_def)
  obtain r where r: "map_of (tsCompletions ?st) cid = Some r"
    using completions_complete [OF assms(1)] cs by fastforce
  then have "tsCompletions ?st \<noteq> []" by auto
  then show ?thesis
    using beforeRun_state [OF refl refl, of b sid events iid] r assms(2) completions_sound [of events "obPredicate b" "obSubAgents b" cid r] cs
    by (auto simp: beforeTool_def)
qed

theorem completed_effect_replayed_witness:
  "\<exists>r. beforeTool (beforeRun demo_outbox ''i1''
       (Some (''s'', [demo_event 5 [demo_call ''c1'' ''kubectl''], demo_event 6 [demo_response ''c1'' ''kubectl'']])))
     ''i1'' ''c1'' ''kubectl'' = Replayed r"
proof -
  have "completed_in [demo_event 5 [demo_call ''c1'' ''kubectl''], demo_event 6 [demo_response ''c1'' ''kubectl'']]
      (obPredicate demo_outbox) ''c1''"
    unfolding completed_in_def
    by (rule exI [where x = "items [demo_event 5 [demo_call ''c1'' ''kubectl'']]"],
        rule exI [where x = "hd (items [demo_event 6 [demo_response ''c1'' ''kubectl'']])"], rule exI [where x = "[]"])
      (simp add: items_def items_of_def demo_event_def demo_call_def demo_response_def map_filter_simps completes_def responds_def
        demo_outbox_def NewPredicate_def NewPredicateWithHints_def builtinClasses_def controlCalls_def confirmationCallName_def)
  moreover have "obPredicate demo_outbox ''kubectl'' = ClassMutating"
    by (simp add: demo_outbox_def NewPredicate_def NewPredicateWithHints_def builtinClasses_def controlCalls_def
        confirmationCallName_def)
  ultimately show ?thesis using completed_effect_replayed by blast
qed

text \<open>A clean history refuses nothing. When every call of the history that could block is resolved,
  no sub-run left an intent behind, and no response is on record for the call at hand, the tool is
  executed.\<close>

theorem clean_history_executes:
  assumes "\<And>i ev fc. unresolved events i ev fc \<Longrightarrow>
      excluded_call (obSubAgents b) ev fc \<or> obPredicate b (fcName fc) = ClassReadOnly"
    and "\<And>r. \<not> answered_with events cid r" "obExternal b = None" "map_of (obTurns b) iid = None"
  shows "beforeTool (beforeRun b iid (Some (sid, events))) iid cid name = Execute"
proof -
  let ?st = "scanHistory events (obPredicate b) (obSubAgents b)"
  have "tsDangling ?st = []"
  proof (rule ccontr)
    assume "tsDangling ?st \<noteq> []"
    then have "diCallID (hd (tsDangling ?st)) \<in> diCallID ` set (tsDangling ?st)" by simp
    with assms(1) show False unfolding dangling_iff by blast
  qed
  then have ds: "without_acked b sid (with_external b sid (tsDangling ?st)) = []"
    using assms(3) by (simp add: with_external_def without_acked_def split: option.split)
  have cs: "map_of (tsCompletions ?st) cid = None"
    using completions_sound [of events "obPredicate b" "obSubAgents b" cid] assms(2)
    by (auto simp: scanHistory_def Let_def) (metis option.exhaust)
  show ?thesis
  proof (cases "tsCompletions ?st = []")
    case True
    with ds assms(4) show ?thesis by (simp add: beforeRun_def beforeTool_def Let_def)
  next
    case False
    then show ?thesis using beforeRun_state [OF refl refl, of b sid events iid] ds cs
      by (simp add: beforeTool_def Let_def)
  qed
qed

theorem clean_history_executes_witness:
  "beforeTool (beforeRun demo_outbox ''i1''
       (Some (''s'', [demo_event 5 [demo_call ''c1'' ''kubectl''], demo_event 6 [demo_response ''c1'' ''kubectl'']])))
     ''i1'' ''c2'' ''kubectl'' = Execute"
proof (rule clean_history_executes)
  let ?ev = "[demo_event 5 [demo_call ''c1'' ''kubectl''], demo_event 6 [demo_response ''c1'' ''kubectl'']]"
  show "excluded_call (obSubAgents demo_outbox) ev fc \<or> obPredicate demo_outbox (fcName fc) = ClassReadOnly"
    if "unresolved ?ev i ev fc" for i ev fc
    using that by (auto simp: unresolved_def items_def items_of_def demo_event_def demo_call_def demo_response_def
        map_filter_simps responds_def Cons_eq_append_conv)
  show "\<not> answered_with ?ev ''c2'' r" for r
    by (simp add: answered_with_def items_def items_of_def demo_event_def demo_call_def demo_response_def
        map_filter_simps responds_def)
qed (simp_all add: demo_outbox_def)

text \<open>An unclassified tool is treated as mutating. Unless a tool is a control call, has an override in
  the workload's catalogue, is built in, or carries an annotation that says read-only, its class is
  mutating; an override cannot turn a control call into an effect.\<close>

theorem unknown_is_mutating:
  "(name \<notin> set controlCalls \<and> map_of overrides name = None \<and> map_of builtinClasses name = None \<and>
      (case hint of None \<Rightarrow> True | Some h \<Rightarrow> h name \<noteq> (True, True))) \<longrightarrow>
     NewPredicateWithHints overrides hint name = ClassMutating"
  by (auto simp: NewPredicateWithHints_def split: option.splits prod.splits)

theorem unknown_is_mutating_witness:
  "NewPredicateWithHints [(''ls'', False)] (Some (\<lambda>_. (False, True))) ''kubectl'' = ClassMutating"
  using unknown_is_mutating [of "''kubectl''" "[(''ls'', False)]" "Some (\<lambda>_. (False, True))"]
  by (simp add: controlCalls_def confirmationCallName_def builtinClasses_def)

text \<open>A sub-run never acts on an unrecorded intent. For every mutating or spawning call of an event
  of a dispatched specialist, the intent is handed to the store before the dispatch may go on; when the
  store fails, the dispatch is stopped with an error.\<close>

theorem subrun_records_first:
  assumes "SubRun_Observe recordIntents r (Some ev) = (ops, err)" "evParts ev = Some ps" "Some pt \<in> set ps"
    and "ptCall pt = Some fc" "fcID fc \<noteq> []" "\<not> excluded_call (rcSubAgents r) ev fc"
    and "rcPredicate r (fcName fc) \<noteq> ClassReadOnly"
  shows "\<exists>ds. Recorded ds \<in> set ops \<and> (\<exists>d \<in> set ds. diCallID d = fcID fc \<and> diToolName d = fcName fc) \<and>
    (err = None \<longleftrightarrow> recordIntents ds = None)"
proof -
  let ?ds = "fst (MutatingCalls_parts (rcPredicate r) (rcSubAgents r) ev ps)"
  note d = raised_parts [where pt = pt and ps = ps and fc = fc and subs = "rcSubAgents r" and ev = ev and pred = "rcPredicate r", OF assms(3-7)]
  then have "?ds \<noteq> []" by auto
  then have "Recorded ?ds \<in> set ops \<and> (err = None \<longleftrightarrow> recordIntents ?ds = None)"
    using assms(1,2) by (auto simp: SubRun_Observe_def MutatingCalls_def Let_def split: prod.splits option.splits if_splits)
  with d show ?thesis by (metis intent.select_convs(1,2))
qed

theorem subrun_records_first_witness:
  "snd (SubRun_Observe (\<lambda>_. Some ''disk full'') \<lparr>rcSessionID = ''s'', rcSpecialist = ''x'', rcPredicate = NewPredicate [], rcSubAgents = []\<rparr>
     (demo_event 5 [demo_call ''c1'' ''kubectl''])) \<noteq> None"
proof -
  let ?r = "\<lparr>rcSessionID = ''s'', rcSpecialist = ''x'', rcPredicate = NewPredicate [], rcSubAgents = []\<rparr>"
  let ?ev = "the (demo_event 5 [demo_call ''c1'' ''kubectl''])"
  obtain ops err where o: "SubRun_Observe (\<lambda>_. Some ''disk full'') ?r (Some ?ev) = (ops, err)" by fastforce
  have "\<exists>ds. Recorded ds \<in> set ops \<and> (\<exists>d \<in> set ds. diCallID d = ''c1'' \<and> diToolName d = ''kubectl'') \<and>
      (err = None \<longleftrightarrow> Some ''disk full'' = None)"
    using subrun_records_first [OF o, of "[demo_call ''c1'' ''kubectl'']" "the (demo_call ''c1'' ''kubectl'')"
        "\<lparr>fcID = ''c1'', fcName = ''kubectl'', fcOriginal = None\<rparr>"]
    by (simp add: demo_event_def demo_call_def excluded_call_def controlCalls_def confirmationCallName_def
        NewPredicate_def NewPredicateWithHints_def builtinClasses_def)
  with o show ?thesis by (auto simp: demo_event_def)
qed

end
