(* ===== verification/Go_Paths.thy ===== *)
theory Go_Paths
  imports Go_Strings
begin

text \<open>
  The functions of Go's \<^verbatim>\<open>path/filepath\<close>, \<^verbatim>\<open>unicode/utf8\<close> and \<^verbatim>\<open>regexp\<close> packages the permission
  gate uses, on strings as byte lists, for a Unix file system: lexical paths, the glob matcher of
  \<^verbatim>\<open>filepath.Match\<close>, \<^verbatim>\<open>strings.Fields\<close> and a matcher for the regular expressions the code compiles.
\<close>

section \<open>Lexical paths\<close>

definition path_Join :: "string list \<Rightarrow> string" where
  "path_Join es =
     (let rest = dropWhile (\<lambda>e. e = []) es in if rest = [] then [] else path_Clean (Join rest ''/''))"

definition dir_prefix :: "string \<Rightarrow> string" where
  "dir_prefix s = rev (dropWhile (\<lambda>c. c \<noteq> CHR ''/'') (rev s))"

definition path_Dir :: "string \<Rightarrow> string" where
  "path_Dir s = path_Clean (dir_prefix s)"

definition path_Base :: "string \<Rightarrow> string" where
  "path_Base s =
     (if s = [] then ''.''
      else let t = dropWhile (\<lambda>c. c = CHR ''/'') (rev s); b = rev (takeWhile (\<lambda>c. c \<noteq> CHR ''/'') t)
           in if b = [] then ''/'' else b)"

definition path_IsAbs :: "string \<Rightarrow> bool" where
  "path_IsAbs s \<longleftrightarrow> HasPrefix s ''/''"

text \<open>The working directory is \<open>None\<close> when the system cannot tell it.\<close>

definition path_Abs :: "string option \<Rightarrow> string \<Rightarrow> string option" where
  "path_Abs cwd s =
     (if path_IsAbs s then Some (path_Clean s)
      else map_option (\<lambda>wd. path_Join [wd, s]) cwd)"

text \<open>
  \<^verbatim>\<open>filepath.Rel\<close> on the elements of the cleaned paths: the elements both begin with go, and one
  dot-dot stands for each element the base has left.
\<close>

definition path_elems :: "string \<Rightarrow> string list" where
  "path_elems s = (if s = ''.'' then [] else filter (\<lambda>e. e \<noteq> []) (split_slash s))"

fun drop_common :: "string list \<Rightarrow> string list \<Rightarrow> string list \<times> string list" where
  "drop_common (b # bs) (t # ts) = (if b = t then drop_common bs ts else (b # bs, t # ts))"
| "drop_common bs ts = (bs, ts)"

definition path_Rel :: "string \<Rightarrow> string \<Rightarrow> string option" where
  "path_Rel base0 targ0 =
     (let base = path_Clean base0; targ = path_Clean targ0
      in if targ = base then Some ''.''
         else if path_IsAbs base \<noteq> path_IsAbs targ then None
         else let (bs, ts) = drop_common (path_elems base) (if path_IsAbs targ then path_elems targ
                   else filter (\<lambda>e. e \<noteq> []) (split_slash targ))
              in if bs \<noteq> [] \<and> ts \<noteq> [] \<and> hd bs = ''..'' then None
                 else Some (Join (replicate (length bs) ''..'' @ ts) ''/''))"

section \<open>Runes and fields\<close>

definition byte :: "string \<Rightarrow> nat \<Rightarrow> nat" where
  "byte s i = (if i < length s then of_char (s ! i) else 0)"

definition cont_byte :: "nat \<Rightarrow> bool" where
  "cont_byte b \<longleftrightarrow> 0x80 \<le> b \<and> b \<le> 0xBF"

definition rune_error :: nat where "rune_error = 0xFFFD"

text \<open>\<^verbatim>\<open>utf8.DecodeRuneInString\<close>: the rune and its width.\<close>

definition DecodeRune :: "string \<Rightarrow> nat \<times> nat" where
  "DecodeRune s =
     (let a = byte s 0; b = byte s 1; c = byte s 2; d = byte s 3
      in if s = [] then (rune_error, 0)
         else if a < 0x80 then (a, 1)
         else if 0xC2 \<le> a \<and> a \<le> 0xDF \<and> cont_byte b then ((a mod 32) * 64 + b mod 64, 2)
         else if 0xE0 \<le> a \<and> a \<le> 0xEF \<and> cont_byte b \<and> cont_byte c \<and>
           (a = 0xE0 \<longrightarrow> 0xA0 \<le> b) \<and> (a = 0xED \<longrightarrow> b \<le> 0x9F)
         then ((a mod 16) * 4096 + (b mod 64) * 64 + c mod 64, 3)
         else if 0xF0 \<le> a \<and> a \<le> 0xF4 \<and> cont_byte b \<and> cont_byte c \<and> cont_byte d \<and>
           (a = 0xF0 \<longrightarrow> 0x90 \<le> b) \<and> (a = 0xF4 \<longrightarrow> b \<le> 0x8F)
         then ((a mod 8) * 262144 + (b mod 64) * 4096 + (c mod 64) * 64 + d mod 64, 4)
         else (rune_error, 1))"

text \<open>\<^verbatim>\<open>strings.Fields\<close>; \<open>cur\<close> is the field read so far, reversed.\<close>

function fields_from :: "string \<Rightarrow> string \<Rightarrow> string list" where
  "fields_from cur [] = (if cur = [] then [] else [rev cur])"
| "fields_from cur (c # s) =
     (case find (\<lambda>p. p \<noteq> [] \<and> HasPrefix (c # s) p) go_spaces of
        None \<Rightarrow> fields_from (c # cur) s
      | Some p \<Rightarrow> (if cur = [] then [] else [rev cur]) @ fields_from [] (drop (length p) (c # s)))"
  by pat_completeness auto
termination
proof (relation "measure (\<lambda>(cur, s). length s)")
  fix cur c s p
  assume "find (\<lambda>p. p \<noteq> [] \<and> HasPrefix (c # s) p) go_spaces = Some p"
  then have "p \<noteq> []" by (auto simp: find_Some_iff)
  then show "(([], drop (length p) (c # s)), (cur, c # s)) \<in> measure (\<lambda>(cur, s). length s)"
    by (cases p) auto
qed auto

definition Fields :: "string \<Rightarrow> string list" where
  "Fields s = fields_from [] s"

definition ContainsAny :: "string \<Rightarrow> string \<Rightarrow> bool" where
  "ContainsAny s chars \<longleftrightarrow> list_ex (\<lambda>c. c \<in> set chars) s"

definition TrimSuffix :: "string \<Rightarrow> string \<Rightarrow> string" where
  "TrimSuffix s p = (if HasSuffix s p then take (length s - length p) s else s)"

definition TrimPrefix :: "string \<Rightarrow> string \<Rightarrow> string" where
  "TrimPrefix s p = (if HasPrefix s p then drop (length p) s else s)"

section \<open>The glob matcher\<close>

text \<open>\<open>None\<close> is \<^verbatim>\<open>ErrBadPattern\<close>.\<close>

definition getEsc :: "string \<Rightarrow> (nat \<times> string) option" where
  "getEsc ch =
     (if ch = [] \<or> hd ch = CHR ''-'' \<or> hd ch = CHR '']'' then None
      else let ch1 = (if hd ch = CHR 0x5C then tl ch else ch)
           in if ch1 = [] then None
              else let (r, n) = DecodeRune ch1; rest = drop n ch1
                   in if r = rune_error \<and> n = 1 then None else if rest = [] then None else Some (r, rest))"

lemma DecodeRune_pos: "s \<noteq> [] \<Longrightarrow> 0 < snd (DecodeRune s)"
  by (simp add: DecodeRune_def Let_def)

lemma getEsc_shorter: "getEsc ch = Some (r, rest) \<Longrightarrow> length rest < length ch"
proof -
  assume g: "getEsc ch = Some (r, rest)"
  define ch1 where "ch1 = (if hd ch = CHR 0x5C then tl ch else ch)"
  have ch: "ch \<noteq> []" "ch1 \<noteq> []" using g by (auto simp: getEsc_def ch1_def Let_def split: if_splits)
  have "rest = drop (snd (DecodeRune ch1)) ch1"
    using g by (auto simp: getEsc_def ch1_def [symmetric] Let_def split: if_splits prod.splits)
  moreover have "length ch1 \<le> length ch" by (simp add: ch1_def)
  ultimately show ?thesis using DecodeRune_pos [OF ch(2)] ch(2) by (cases ch1) auto
qed

function class_ranges :: "nat \<Rightarrow> nat \<Rightarrow> bool \<Rightarrow> string \<Rightarrow> (bool \<times> string) option" where
  "class_ranges r nrange m ch =
     (if ch \<noteq> [] \<and> hd ch = CHR '']'' \<and> 0 < nrange then Some (m, tl ch)
      else case getEsc ch of
          None \<Rightarrow> None
        | Some (lo, ch1) \<Rightarrow>
            (if hd ch1 = CHR ''-''
             then (case getEsc (tl ch1) of
                     None \<Rightarrow> None
                   | Some (hi, ch2) \<Rightarrow> class_ranges r (Suc nrange) (m \<or> (lo \<le> r \<and> r \<le> hi)) ch2)
             else class_ranges r (Suc nrange) (m \<or> (lo \<le> r \<and> r \<le> lo)) ch1))"
  by pat_completeness auto
termination
  by (relation "measure (\<lambda>(r, n, m, ch). length ch)") (auto dest!: getEsc_shorter)

declare class_ranges.simps [simp del]

lemma class_ranges_shorter: "class_ranges r n m ch = Some (b, rest) \<Longrightarrow> length rest < length ch"
proof (induction "length ch" arbitrary: n m ch rule: less_induct)
  case less
  have IH: "length rest < length ch" if "length c < length ch" "class_ranges r k q c = Some (b, rest)" for c k q
    using less.hyps [OF that] that(1) by simp
  from less.prems show ?case
    by (subst (asm) class_ranges.simps)
      (auto split: if_splits option.splits dest!: getEsc_shorter, (erule IH [rotated], simp)+)
qed

text \<open>
  One chunk of a pattern against a name: \<open>None\<close> is a bad pattern, \<open>Some None\<close> no match,
  \<open>Some (Some rest)\<close> a match that leaves \<open>rest\<close>. After a failure the chunk is still read to its end.
\<close>

function matchChunk :: "bool \<Rightarrow> string \<Rightarrow> string \<Rightarrow> string option option" where
  "matchChunk failed [] s = Some (if failed then None else Some s)"
| "matchChunk failed0 (c # ch) s =
     (let failed = (failed0 \<or> s = [])
      in if c = CHR ''['' then
           (let (r, n) = (if failed then (0, 0) else DecodeRune s);
                negated = (ch \<noteq> [] \<and> hd ch = CHR ''^'')
            in case class_ranges r 0 False (if negated then tl ch else ch) of
                 None \<Rightarrow> None
               | Some (m, ch2) \<Rightarrow> matchChunk (failed \<or> m = negated) ch2 (drop n s))
         else if c = CHR ''?'' then
           (if failed then matchChunk True ch s
            else matchChunk (hd s = CHR ''/'') ch (drop (snd (DecodeRune s)) s))
         else if c = CHR 0x5C then
           (case ch of
              [] \<Rightarrow> None
            | d # ch1 \<Rightarrow> if failed then matchChunk True ch1 s else matchChunk (d \<noteq> hd s) ch1 (tl s))
         else if failed then matchChunk True ch s else matchChunk (c \<noteq> hd s) ch (tl s))"
  by pat_completeness auto
termination
proof (relation "measure (\<lambda>(f, ch, s). length ch)")
  fix failed0 c ch s failed x r n negated a m ch2
  assume "class_ranges r 0 False (if negated then tl ch else ch) = Some a" "(m, ch2) = a"
  then have "length ch2 < length (if negated then tl ch else ch)"
    by (auto dest: class_ranges_shorter split: if_splits)
  also have "\<dots> \<le> length ch" by simp
  finally show "((failed \<or> m = negated, ch2, drop n s), (failed0, c # ch, s)) \<in> measure (\<lambda>(f, ch, s). length ch)"
    by simp
qed auto

fun scan_to :: "bool \<Rightarrow> string \<Rightarrow> string \<times> string" where
  "scan_to inr [] = ([], [])"
| "scan_to inr [c] =
     (if c = CHR ''*'' \<and> \<not> inr then ([], [c]) else ([c], []))"
| "scan_to inr (c # d # cs) =
     (if c = CHR 0x5C then (let (a, b) = scan_to inr cs in (c # d # a, b))
      else if c = CHR ''*'' \<and> \<not> inr then ([], c # d # cs)
      else let (a, b) = scan_to (if c = CHR ''['' then True else if c = CHR '']'' then False else inr) (d # cs)
           in (c # a, b))"

definition scanChunk :: "string \<Rightarrow> bool \<times> string \<times> string" where
  "scanChunk pattern =
     (let p = dropWhile (\<lambda>c. c = CHR ''*'') pattern
      in (p \<noteq> pattern, scan_to False p))"

lemma scan_to_append: "fst (scan_to inr s) @ snd (scan_to inr s) = s"
  by (induction inr s rule: scan_to.induct) (auto simp: case_prod_beta Let_def)

lemma scan_to_progress: "s \<noteq> [] \<Longrightarrow> hd s \<noteq> CHR ''*'' \<Longrightarrow> fst (scan_to inr s) \<noteq> []"
  by (cases "(inr, s)" rule: scan_to.cases) (auto simp: case_prod_beta Let_def)

lemma scanChunk_shorter:
  assumes "pattern \<noteq> []" "scanChunk pattern = (star, chunk, rest)"
  shows "length rest < length pattern"
proof -
  let ?p = "dropWhile (\<lambda>c. c = CHR ''*'') pattern"
  have r: "rest = snd (scan_to False ?p)" using assms(2) by (auto simp: scanChunk_def Let_def prod_eq_iff)
  have app: "length (fst (scan_to False ?p)) + length rest = length ?p"
    using scan_to_append [of False ?p] r by (metis length_append)
  show ?thesis
  proof (cases "?p = []")
    case True
    with app assms(1) show ?thesis by simp
  next
    case False
    then have "fst (scan_to False ?p) \<noteq> []" using hd_dropWhile [OF False] by (intro scan_to_progress) auto
    then have "0 < length (fst (scan_to False ?p))" by simp
    then show ?thesis using app length_dropWhile_le [of "\<lambda>c. c = CHR ''*''" pattern] by linarith
  qed
qed

function rest_wellformed :: "string \<Rightarrow> bool" where
  "rest_wellformed pattern =
     (if pattern = [] then True
      else let (star, chunk, rest) = scanChunk pattern
           in matchChunk False chunk [] \<noteq> None \<and> rest_wellformed rest)"
  by pat_completeness auto
termination
  by (relation "measure length") (auto dest!: scanChunk_shorter [rotated] sym [of "(_, _, _)"])

declare rest_wellformed.simps [simp del]

fun star_tails :: "string \<Rightarrow> string list" where
  "star_tails [] = []"
| "star_tails (c # s) = (if c = CHR ''/'' then [] else s # star_tails s)"

text \<open>The first tail the chunk matches; the last chunk has to use the name up.\<close>

fun star_find :: "string \<Rightarrow> bool \<Rightarrow> string list \<Rightarrow> string option option" where
  "star_find chunk islast [] = Some None"
| "star_find chunk islast (t # ts) =
     (case matchChunk False chunk t of
        None \<Rightarrow> None
      | Some None \<Rightarrow> star_find chunk islast ts
      | Some (Some rest) \<Rightarrow> if islast \<and> rest \<noteq> [] then star_find chunk islast ts else Some (Some rest))"

definition no_match :: "string \<Rightarrow> bool option" where
  "no_match pattern = (if rest_wellformed pattern then Some False else None)"

function path_Match :: "string \<Rightarrow> string \<Rightarrow> bool option" where
  "path_Match pattern name =
     (if pattern = [] then Some (name = [])
      else let (star, chunk, rest) = scanChunk pattern
           in if star \<and> chunk = [] then Some (CHR ''/'' \<notin> set name)
              else case matchChunk False chunk name of
                  None \<Rightarrow> None
                | Some m \<Rightarrow>
                    (case (case m of None \<Rightarrow> None | Some t \<Rightarrow> if t = [] \<or> rest \<noteq> [] then Some t else None) of
                       Some t \<Rightarrow> path_Match rest t
                     | None \<Rightarrow>
                         if star then
                           (case star_find chunk (rest = []) (star_tails name) of
                              None \<Rightarrow> None
                            | Some (Some t) \<Rightarrow> path_Match rest t
                            | Some None \<Rightarrow> no_match rest)
                         else no_match rest))"
  by pat_completeness auto
termination
  by (relation "measure (\<lambda>(p, n). length p)")
    (auto dest!: scanChunk_shorter [rotated] sym [of "(_, _, _)"])

declare path_Match.simps [simp del]

section \<open>Regular expressions\<close>

datatype regex =
    RIn "char list"
  | RNotIn "char list"
  | RSeq "regex list"
  | RAlt "regex list"
  | RStar regex
  | ROpt regex
  | RWordB
  | REnd

definition word_char :: "char \<Rightarrow> bool" where
  "word_char c \<longleftrightarrow> (CHR ''a'' \<le> c \<and> c \<le> CHR ''z'') \<or> (CHR ''A'' \<le> c \<and> c \<le> CHR ''Z'') \<or>
     (CHR ''0'' \<le> c \<and> c \<le> CHR ''9'') \<or> c = CHR ''_''"

definition word_at :: "string \<Rightarrow> nat \<Rightarrow> bool" where
  "word_at s i \<longleftrightarrow> i < length s \<and> word_char (s ! i)"

definition word_boundary :: "string \<Rightarrow> nat \<Rightarrow> bool" where
  "word_boundary s i \<longleftrightarrow> (0 < i \<and> word_at s (i - 1)) \<noteq> word_at s i"

fun star_ends :: "(nat \<Rightarrow> nat list) \<Rightarrow> nat \<Rightarrow> nat list \<Rightarrow> nat list" where
  "star_ends f 0 acc = acc"
| "star_ends f (Suc k) acc = star_ends f k (remdups (acc @ concat (map f acc)))"

text \<open>Where a match that begins at \<open>i\<close> can end. A star is unrolled once per byte of the text.\<close>

primrec rx_ends :: "regex \<Rightarrow> string \<Rightarrow> nat \<Rightarrow> nat list" where
  "rx_ends (RIn cs) s i = (if i < length s \<and> s ! i \<in> set cs then [Suc i] else [])"
| "rx_ends (RNotIn cs) s i = (if i < length s \<and> s ! i \<notin> set cs then [Suc i] else [])"
| "rx_ends (RSeq rs) s i =
     fold (\<lambda>f is. remdups (concat (map f is))) (map (\<lambda>r j. rx_ends r s j) rs) [i]"
| "rx_ends (RAlt rs) s i = remdups (concat (map (\<lambda>r. rx_ends r s i) rs))"
| "rx_ends (RStar r) s i = star_ends (\<lambda>j. rx_ends r s j) (length s) [i]"
| "rx_ends (ROpt r) s i = remdups (i # rx_ends r s i)"
| "rx_ends RWordB s i = (if word_boundary s i then [i] else [])"
| "rx_ends REnd s i = (if i = length s then [i] else [])"

definition MatchString :: "regex \<Rightarrow> string \<Rightarrow> bool" where
  "MatchString r s \<longleftrightarrow> list_ex (\<lambda>i. rx_ends r s i \<noteq> []) [0..<Suc (length s)]"

definition rx_lit :: "string \<Rightarrow> regex" where "rx_lit w = RSeq (map (\<lambda>c. RIn [c]) w)"
definition rx_space :: regex where "rx_space = RIn [CHR 0x09, CHR 0x0A, CHR 0x0C, CHR 0x0D, CHR 0x20]"
definition rx_nonspace :: regex where "rx_nonspace = RNotIn [CHR 0x09, CHR 0x0A, CHR 0x0C, CHR 0x0D, CHR 0x20]"
definition rx_plus :: "regex \<Rightarrow> regex" where "rx_plus r = RSeq [r, RStar r]"

section \<open>Going up ends\<close>

definition elems_size :: "string list \<Rightarrow> nat" where
  "elems_size es = sum_list (map (\<lambda>e. Suc (length e)) es)"

lemma elems_size_simps [simp]:
  "elems_size [] = 0" "elems_size (e # es) = Suc (length e) + elems_size es"
  "elems_size (xs @ ys) = elems_size xs + elems_size ys" "elems_size (rev xs) = elems_size xs"
  by (simp_all add: elems_size_def rev_map [symmetric])

lemma elems_size_split [simp]: "elems_size (split_slash s) = Suc (length s)"
  by (induction s) (auto split: list.split)

lemma length_Join: "length (Join es ''/'') = elems_size es - 1"
  by (induction es "''/''" rule: Join.induct) auto

lemma clean_push_size: "elems_size (clean_push rooted st e) \<le> elems_size st + Suc (length e)"
  by (auto simp: clean_push_def split: list.split)

lemma foldl_clean_size: "elems_size (foldl (clean_push rooted) st es) \<le> elems_size st + elems_size es"
proof (induction es arbitrary: st)
  case (Cons e es)
  show ?case using Cons [of "clean_push rooted st e"] clean_push_size [of rooted st e] by simp
qed simp

lemma split_slash_ne [simp]: "split_slash s \<noteq> []"
  by (cases s) (auto split: list.split)

lemma split_slash_snoc: "split_slash (s @ ''/'') = split_slash s @ [[]]"
  by (induction s) (auto split: list.split simp: neq_Nil_conv)

lemma length_path_Clean: "s \<noteq> [] \<Longrightarrow> length (path_Clean s) \<le> length s"
proof -
  assume s: "s \<noteq> []"
  define es where "es = foldl (clean_push (HasPrefix s ''/'')) [] (split_slash s)"
  have le: "length (Join (rev es) ''/'') \<le> (if HasPrefix s ''/'' then length s - 1 else length s)"
  proof (cases "HasPrefix s ''/''")
    case True
    then obtain t where t: "s = CHR ''/'' # t" by (auto simp: HasPrefix_iff)
    have "es = foldl (clean_push True) [] (split_slash t)" by (simp add: es_def t HasPrefix_def clean_push_def)
    then show ?thesis using foldl_clean_size [of True "[]" "split_slash t"] True t by (simp add: length_Join)
  next
    case False
    then show ?thesis using foldl_clean_size [of False "[]" "split_slash s"] by (simp add: length_Join es_def)
  qed
  moreover have "path_Clean s = (let out = (if HasPrefix s ''/'' then ''/'' else []) @ Join (rev es) ''/''
      in if out = [] then ''.'' else out)" by (simp add: path_Clean_def es_def)
  moreover have "Suc (length s - 1) = length s" using s by (cases s) auto
  ultimately show ?thesis by (auto simp: Let_def split: if_splits)
qed

lemma path_Clean_snoc: "s \<noteq> [] \<Longrightarrow> path_Clean (s @ ''/'') = path_Clean s"
proof -
  assume "s \<noteq> []"
  then have "HasPrefix (s @ ''/'') ''/'' = HasPrefix s ''/''" by (cases s) (simp_all add: HasPrefix_def)
  moreover have "foldl (clean_push r) [] (split_slash (s @ ''/'')) = foldl (clean_push r) [] (split_slash s)" for r
    by (simp only: split_slash_snoc foldl_append) (simp add: clean_push_def)
  ultimately show ?thesis by (simp add: path_Clean_def)
qed

definition up_measure :: "string \<Rightarrow> nat" where
  "up_measure s = (if s = ''.'' then 0 else Suc (length s))"

lemma dir_prefix_cases:
  "dir_prefix s = [] \<or> (\<exists>p. dir_prefix s = p @ ''/'' \<and> Suc (length p) \<le> length s)"
proof (cases "dir_prefix s = []")
  case False
  let ?d = "dropWhile (\<lambda>c. c \<noteq> CHR ''/'') (rev s)"
  have d: "?d \<noteq> []" using False by (simp add: dir_prefix_def)
  then obtain t where t: "?d = CHR ''/'' # t" using hd_dropWhile [OF d] by (cases ?d) auto
  then have "dir_prefix s = rev t @ ''/''" by (simp add: dir_prefix_def)
  moreover have "Suc (length (rev t)) \<le> length s"
    using length_dropWhile_le [of "\<lambda>c. c \<noteq> CHR ''/''" "rev s"] t by simp
  ultimately show ?thesis by blast
qed simp

lemma path_Dir_up: "path_Dir s \<noteq> s \<Longrightarrow> up_measure (path_Dir s) < up_measure s"
proof -
  assume ne: "path_Dir s \<noteq> s"
  have dot: "path_Dir ''.'' = ''.''" by code_simp
  have s: "s \<noteq> ''.''" using ne dot by auto
  consider "dir_prefix s = []" | p where "dir_prefix s = p @ ''/''" "Suc (length p) \<le> length s"
    using dir_prefix_cases by blast
  then show ?thesis
  proof cases
    case 1
    then have "path_Dir s = ''.''" by (simp add: path_Dir_def) code_simp
    then show ?thesis using s by (simp add: up_measure_def)
  next
    case 2
    show ?thesis
    proof (cases "p = []")
      case True
      then have d: "path_Dir s = ''/''" using 2 by (simp add: path_Dir_def) code_simp
      have "length s \<noteq> 1"
      proof
        assume "length s = 1"
        then obtain c where "s = [c]" by (cases s) auto
        with 2(1) True have "s = ''/''" by (auto simp: dir_prefix_def split: if_splits)
        with d ne show False by simp
      qed
      then show ?thesis using 2(2) d s by (cases s) (auto simp: up_measure_def)
    next
      case False
      then have "length (path_Dir s) \<le> length p"
        using 2(1) length_path_Clean [OF False] path_Clean_snoc [OF False] by (simp add: path_Dir_def)
      then show ?thesis using 2(2) s by (simp add: up_measure_def)
    qed
  qed
qed

end
