(* ===== verification/Permissions.thy ===== *)
theory Permissions
  imports Go_Paths Interfaces "HOL-Library.Word"
begin

unbundle bit_operations_syntax

text \<open>
  The permission gate of \<^verbatim>\<open>src/internal/permissions\<close>: the allow and deny policy
  (\<^verbatim>\<open>policy.go\<close>), the path scope (\<^verbatim>\<open>scope.go\<close>, \<^verbatim>\<open>resolve.go\<close>), the control-plane files
  (\<^verbatim>\<open>controlplane.go\<close>), the shell analysis (\<^verbatim>\<open>safecmd.go\<close>, \<^verbatim>\<open>verb.go\<close>, \<^verbatim>\<open>denylist.go\<close>), the gate
  with its modes, grants and prompts (\<^verbatim>\<open>gate.go\<close>) and the mutation checks (\<^verbatim>\<open>mutating.go\<close>).

  The gates derived for the sessions of a daemon hold the same policy and the same path scope by
  reference; the model keeps those two in a \<open>shared\<close> record beside the gate, and every operation
  takes and returns both. The operator's answer to a prompt, what persisting a grant returns, the
  shell parser (a third-party package) and the file system are arguments. The strings of an error
  message are left out; an error is the branch that raised it.
\<close>

section \<open>Policy (policy.go)\<close>

record rule =
  rlTool :: string
  rlPat :: string

record policy =
  plAllow :: "rule list"
  plDeny :: "rule list"

definition isOpenPrefixPattern :: "string \<Rightarrow> bool" where
  "isOpenPrefixPattern pattern \<longleftrightarrow> HasSuffix pattern ''*'' \<and> \<not> ContainsAny (butlast pattern) ''*?[''"

definition matchGlob :: "string \<Rightarrow> string \<Rightarrow> bool" where
  "matchGlob pattern s =
     (if pattern = s then True
      else if isOpenPrefixPattern pattern then HasPrefix s (butlast pattern)
      else path_Match pattern s = Some True)"

definition parse_rule :: "string \<Rightarrow> rule" where
  "parse_rule p =
     (if CHR '':'' \<in> set p
      then \<lparr>rlTool = takeWhile (\<lambda>c. c \<noteq> CHR '':'') p, rlPat = tl (dropWhile (\<lambda>c. c \<noteq> CHR '':'') p)\<rparr>
      else \<lparr>rlTool = [], rlPat = p\<rparr>)"

text \<open>\<open>None\<close> is a pattern the glob matcher rejects.\<close>

fun parseRules :: "string list \<Rightarrow> rule list option" where
  "parseRules [] = Some []"
| "parseRules (p # ps) =
     (let r = parse_rule p
      in if path_Match (rlPat r) [] = None then None else map_option (Cons r) (parseRules ps))"

definition NewPolicy :: "string list \<Rightarrow> string list \<Rightarrow> policy option" where
  "NewPolicy allow deny =
     (case parseRules allow of
        None \<Rightarrow> None
      | Some a \<Rightarrow> (case parseRules deny of None \<Rightarrow> None | Some d \<Rightarrow> Some \<lparr>plAllow = a, plDeny = d\<rparr>))"

definition containsRule :: "rule list \<Rightarrow> rule \<Rightarrow> bool" where
  "containsRule rs r \<longleftrightarrow> list_ex (\<lambda>e. rlTool e = rlTool r \<and> rlPat e = rlPat r) rs"

fun add_rules :: "rule list \<Rightarrow> rule list \<Rightarrow> rule list" where
  "add_rules rs [] = rs"
| "add_rules rs (r # new) = add_rules (if containsRule rs r then rs else rs @ [r]) new"

definition AddAllow :: "string list \<Rightarrow> policy \<Rightarrow> policy option" where
  "AddAllow patterns p = map_option (\<lambda>added. p\<lparr>plAllow := add_rules (plAllow p) added\<rparr>) (parseRules patterns)"

definition AddDeny :: "string list \<Rightarrow> policy \<Rightarrow> policy option" where
  "AddDeny patterns p = map_option (\<lambda>added. p\<lparr>plDeny := add_rules (plDeny p) added\<rparr>) (parseRules patterns)"

definition formatRules :: "rule list \<Rightarrow> string list" where
  "formatRules rs = map (\<lambda>r. if rlTool r = [] then rlPat r else rlTool r @ '':'' @ rlPat r) rs"

definition RawPatterns :: "policy \<Rightarrow> string list \<times> string list" where
  "RawPatterns p = (formatRules (plAllow p), formatRules (plDeny p))"

fun matchAny :: "rule list \<Rightarrow> string \<Rightarrow> string \<Rightarrow> bool" where
  "matchAny [] tool key = False"
| "matchAny (r # rs) tool key =
     (if rlTool r \<noteq> [] \<and> rlTool r \<noteq> tool then matchAny rs tool key
      else if matchGlob (rlPat r) key then True else matchAny rs tool key)"

section \<open>Shell commands (safecmd.go, verb.go, denylist.go)\<close>

text \<open>
  What the code reads of a parsed shell file: the parts of a word that are literals or quoted
  literals, a double-quoted part holding \<open>None\<close> for an inner part that is not a literal, and of a
  statement its flags, the number of its redirections and its simple command, if it is one.
\<close>

datatype word_part = Lit string | SglQuoted bool string | DblQuoted "string option list" | OtherPart

type_synonym sh_word = "word_part list"

record sh_stmt =
  stBackground :: bool
  stCoprocess :: bool
  stNegated :: bool
  stRedirs :: nat
  stCall :: "(sh_word option list \<times> sh_word list) option"

type_synonym sh_parser = "string \<Rightarrow> sh_stmt list option"

fun literalWord :: "sh_word \<Rightarrow> string option" where
  "literalWord [] = Some []"
| "literalWord (Lit v # ps) = map_option (append v) (literalWord ps)"
| "literalWord (SglQuoted dollar v # ps) = (if dollar then None else map_option (append v) (literalWord ps))"
| "literalWord (DblQuoted inner # ps) =
     (if None \<in> set inner then None else map_option (append (concat (map the inner))) (literalWord ps))"
| "literalWord (OtherPart # ps) = None"

fun literalWords :: "sh_word list \<Rightarrow> string list option" where
  "literalWords [] = Some []"
| "literalWords (w # ws) =
     (case literalWord w of None \<Rightarrow> None | Some s \<Rightarrow> map_option (Cons s) (literalWords ws))"

definition parseSafeArgv :: "sh_parser \<Rightarrow> string \<Rightarrow> string list option" where
  "parseSafeArgv sh command =
     (case sh command of
        Some [stmt] \<Rightarrow>
          (if stBackground stmt \<or> stCoprocess stmt \<or> stNegated stmt \<or> 0 < stRedirs stmt then None
           else case stCall stmt of
               None \<Rightarrow> None
             | Some (assigns, args) \<Rightarrow>
                 (if list_ex (\<lambda>a. case a of None \<Rightarrow> False | Some w \<Rightarrow> literalWord w = None) assigns then None
                  else if args = [] then None else literalWords args))
      | _ \<Rightarrow> None)"

definition verbAutoAllowDenyTokens :: "(string, string list) gomap" where
  "verbAutoAllowDenyTokens =
     [(''find'', [''-exec'', ''-execdir'', ''-ok'', ''-okdir'', ''-delete'', ''-fls'', ''-fprint'', ''-fprint0'', ''-fprintf''])]"

definition bashSafeForAutoAllow :: "sh_parser \<Rightarrow> string \<Rightarrow> bool" where
  "bashSafeForAutoAllow sh command =
     (case parseSafeArgv sh command of
        None \<Rightarrow> False
      | Some argv \<Rightarrow>
          (case map_of verbAutoAllowDenyTokens (hd argv) of
             None \<Rightarrow> True
           | Some denied \<Rightarrow> list_all (\<lambda>tok. tok \<notin> set denied) (tl argv)))"

fun matchAnyAllow :: "sh_parser \<Rightarrow> rule list \<Rightarrow> string \<Rightarrow> string \<Rightarrow> bool" where
  "matchAnyAllow sh [] tool key = False"
| "matchAnyAllow sh (r # rs) tool key =
     (if rlTool r \<noteq> [] \<and> rlTool r \<noteq> tool then matchAnyAllow sh rs tool key
      else if rlPat r = key then True
      else if \<not> matchGlob (rlPat r) key then matchAnyAllow sh rs tool key
      else if tool \<noteq> ''bash'' \<or> \<not> isOpenPrefixPattern (rlPat r) then True
      else if bashSafeForAutoAllow sh key then True
      else matchAnyAllow sh rs tool key)"

datatype outcome = OutcomeUnmatched | OutcomeAllow | OutcomeDeny

definition Match :: "sh_parser \<Rightarrow> policy \<Rightarrow> string \<Rightarrow> string \<Rightarrow> outcome" where
  "Match sh p tool key =
     (if matchAny (plDeny p) tool key then OutcomeDeny
      else if matchAnyAllow sh (plAllow p) tool key then OutcomeAllow
      else OutcomeUnmatched)"

fun assignment_from :: "nat \<Rightarrow> string \<Rightarrow> bool" where
  "assignment_from i [] = True"
| "assignment_from i (c # s) =
     (if c = CHR ''_'' \<or> (CHR ''A'' \<le> c \<and> c \<le> CHR ''Z'') \<or> (CHR ''a'' \<le> c \<and> c \<le> CHR ''z'')
      then assignment_from (Suc i) s
      else if CHR ''0'' \<le> c \<and> c \<le> CHR ''9'' then (if i = 0 then False else assignment_from (Suc i) s)
      else False)"

definition isAssignmentKey :: "string \<Rightarrow> bool" where
  "isAssignmentKey s \<longleftrightarrow> s \<noteq> [] \<and> assignment_from 0 s"

fun verb_of :: "string list \<Rightarrow> string" where
  "verb_of [] = []"
| "verb_of (tok # toks) =
     (let key = takeWhile (\<lambda>c. c \<noteq> CHR ''='') tok
      in if ContainsAny tok [CHR 0x27, CHR 0x22] then []
         else if key \<noteq> tok \<and> key \<noteq> [] \<and> isAssignmentKey key then verb_of toks
         else if ContainsAny tok [CHR ''/'', CHR 0x5C] then []
         else if HasPrefix tok ''-'' then []
         else tok)"

definition extractBashVerb :: "string \<Rightarrow> string" where
  "extractBashVerb command = verb_of (Fields command)"

definition rx_spaces :: regex where "rx_spaces = rx_plus rx_space"
definition rx_optspaces :: regex where "rx_optspaces = RStar rx_space"

definition regexDenylist :: "regex list" where
  "regexDenylist =
     [RSeq [RWordB, rx_lit ''dd'', rx_spaces, rx_lit ''if='', rx_plus rx_nonspace, rx_spaces, rx_lit ''of=/dev/''],
      RSeq [RWordB, rx_lit ''mkfs'', ROpt (RSeq [rx_lit ''.'', rx_plus (RIn ''abcdefghijklmnopqrstuvwxyz0123456789'')]), RWordB],
      RSeq [RWordB, rx_lit ''shred'', rx_spaces],
      RSeq [RWordB, rx_lit ''wipefs'', rx_spaces],
      RSeq [RWordB, rx_lit ''chmod'', rx_spaces, rx_lit ''-R'', rx_spaces, RIn ''01234567'', RIn ''01234567'', RIn ''01234567'',
        ROpt (RIn ''01234567''), rx_spaces, rx_lit ''/'', RAlt [rx_space, REnd]],
      RSeq [RWordB, rx_lit ''chown'', rx_spaces, rx_lit ''-R'', rx_spaces, rx_plus rx_nonspace, rx_spaces, rx_lit ''/'',
        RAlt [rx_space, REnd]],
      RSeq [RWordB, RAlt [rx_lit ''curl'', rx_lit ''wget''], rx_spaces, rx_nonspace, RStar (RNotIn ''|''), rx_lit ''|'', rx_optspaces,
        RAlt [rx_lit ''sh'', rx_lit ''bash'', rx_lit ''zsh'', rx_lit ''ash'', rx_lit ''dash''], RWordB],
      RSeq [rx_lit '':'', rx_optspaces, rx_lit ''('', rx_optspaces, rx_lit '')'', rx_optspaces, rx_lit ''{'', rx_optspaces, rx_lit '':'',
        rx_optspaces, rx_lit ''|'', rx_optspaces, rx_lit '':'', rx_optspaces, rx_lit ''&'', rx_optspaces, rx_lit ''}'', rx_optspaces,
        rx_lit '';'', rx_optspaces, rx_lit '':'']]"

definition dangerousRmTargets :: "string list" where
  "dangerousRmTargets =
     [''/'', ''/*'', ''~'', ''~/'', ''~/*'', ''$HOME'', ''$HOME/'', ''${HOME}'', ''${HOME}/'', ''/.'']"

text \<open>The flags seen so far and the positional arguments of an \<^verbatim>\<open>rm\<close>.\<close>

fun rm_scan :: "string list \<Rightarrow> bool \<Rightarrow> bool \<Rightarrow> bool \<times> bool \<times> string list" where
  "rm_scan [] hasR hasF = (hasR, hasF, [])"
| "rm_scan (t # ts) hasR hasF =
     (if t = ''--recursive'' then rm_scan ts True hasF
      else if t = ''--force'' then rm_scan ts hasR True
      else if HasPrefix t ''--'' then rm_scan ts hasR hasF
      else if HasPrefix t ''-'' then
        rm_scan ts (hasR \<or> ContainsAny (tl t) ''rR'') (hasF \<or> ContainsAny (tl t) ''fF'')
      else let (r, f, pos) = rm_scan ts hasR hasF in (r, f, t # pos))"

definition checkDangerousRm :: "string \<Rightarrow> bool" where
  "checkDangerousRm command =
     (let tokens = Fields (TrimSpace command)
      in if length tokens < 3 \<or> hd tokens \<noteq> ''rm'' then False
         else let (hasR, hasF, positional) = rm_scan (tl tokens) False False
              in hasR \<and> hasF \<and> list_ex (\<lambda>p. p \<in> set dangerousRmTargets) positional)"

definition IsBashDenied :: "string \<Rightarrow> bool" where
  "IsBashDenied command = (if checkDangerousRm command then True else list_ex (\<lambda>r. MatchString r command) regexDenylist)"

section \<open>Path scope (scope.go, resolve.go, controlplane.go)\<close>

type_synonym access = "8 word"

definition AccessNone :: access where "AccessNone = 0"
definition AccessRead :: access where "AccessRead = push_bit 0 1"
definition AccessWrite :: access where "AccessWrite = push_bit 1 1"
definition AccessReadWrite :: access where "AccessReadWrite = AccessRead OR AccessWrite"

definition Allows :: "access \<Rightarrow> access \<Rightarrow> bool" where
  "Allows a op \<longleftrightarrow> a AND op = op"

datatype access_error = AccessMissing | AccessUnknown string

definition ParseAccess :: "string \<Rightarrow> access_error + access" where
  "ParseAccess s =
     (let t = ToLower (TrimSpace s)
      in if t \<in> {''r'', ''read''} then Inr AccessRead
         else if t \<in> {''w'', ''write''} then Inr AccessWrite
         else if t \<in> {''rw'', ''wr'', ''read+write'', ''readwrite''} then Inr AccessReadWrite
         else if t = [] then Inl AccessMissing else Inl (AccessUnknown s))"

text \<open>
  The file system: the home and the working directory, what \<^verbatim>\<open>filepath.EvalSymlinks\<close> answers and
  which paths are existing directories.
\<close>

datatype eval_result = Evaluated string | NotExist | EvalFailed

record os =
  osHome :: "string option"
  osCwd :: "string option"
  osEvalSymlinks :: "string \<Rightarrow> eval_result"
  osIsDir :: "string \<Rightarrow> bool"

definition expandUser :: "os \<Rightarrow> string \<Rightarrow> string" where
  "expandUser w p =
     (if p = ''~'' \<or> HasPrefix p ''~/''
      then (case osHome w of
              Some home \<Rightarrow> path_Join [home, TrimPrefix (TrimPrefix p ''~'') ''/'']
            | None \<Rightarrow> p)
      else p)"

function resolve_from :: "os \<Rightarrow> string \<Rightarrow> string \<Rightarrow> string option" where
  "resolve_from w cur remainder =
     (case osEvalSymlinks w cur of
        Evaluated resolved \<Rightarrow> Some (if remainder = [] then resolved else path_Join [resolved, remainder])
      | EvalFailed \<Rightarrow> None
      | NotExist \<Rightarrow>
          (let parent = path_Dir cur
           in if parent = cur then None else resolve_from w parent (path_Join [path_Base cur, remainder])))"
  by pat_completeness auto
termination
  by (relation "measure (\<lambda>(w, cur, r). up_measure cur)") (auto dest: path_Dir_up)

declare resolve_from.simps [simp del]

definition resolveSymlinks :: "os \<Rightarrow> string \<Rightarrow> string option" where
  "resolveSymlinks w absp = resolve_from w absp []"

definition ResolvePath :: "os \<Rightarrow> string \<Rightarrow> string option" where
  "ResolvePath w path =
     (case path_Abs (osCwd w) (expandUser w path) of
        None \<Rightarrow> None
      | Some a \<Rightarrow> resolveSymlinks w (path_Clean a))"

record path_entry =
  pePattern :: string
  peAccess :: access

record path_scope =
  psRoots :: "string list"
  psAllow :: "path_entry list"

fun scope_roots :: "os \<Rightarrow> string list \<Rightarrow> string list option" where
  "scope_roots w [] = Some []"
| "scope_roots w (r # rs) =
     (if r = [] then scope_roots w rs
      else case path_Abs (osCwd w) r of
          None \<Rightarrow> None
        | Some a \<Rightarrow>
            (let absp = path_Clean a;
                 more = (case resolveSymlinks w absp of Some x \<Rightarrow> (if x \<noteq> absp then [x] else []) | None \<Rightarrow> [])
             in map_option (\<lambda>rest. absp # more @ rest) (scope_roots w rs)))"

definition NewPathScopeFromEntries :: "os \<Rightarrow> string \<Rightarrow> string \<Rightarrow> path_entry list \<Rightarrow> path_scope option" where
  "NewPathScopeFromEntries w projectRoot userRoot entries =
     map_option (\<lambda>roots. \<lparr>psRoots = roots,
         psAllow = map (\<lambda>e. e\<lparr>pePattern := expandUser w (pePattern e)\<rparr>) (filter (\<lambda>e. pePattern e \<noteq> []) entries)\<rparr>)
       (scope_roots w [projectRoot, userRoot])"

definition NewPathScope :: "os \<Rightarrow> string \<Rightarrow> string \<Rightarrow> string list \<Rightarrow> path_scope option" where
  "NewPathScope w projectRoot userRoot allow =
     NewPathScopeFromEntries w projectRoot userRoot (map (\<lambda>p. \<lparr>pePattern = p, peAccess = AccessReadWrite\<rparr>) allow)"

definition isInside :: "string \<Rightarrow> string \<Rightarrow> bool" where
  "isInside path root =
     (if path = root then True
      else case path_Rel root path of
          None \<Rightarrow> False
        | Some rel \<Rightarrow> \<not> HasPrefix rel ''..'' \<and> rel \<noteq> ''..'')"

definition matchesPattern :: "string \<Rightarrow> string \<Rightarrow> bool" where
  "matchesPattern path pattern =
     (if HasSuffix pattern ''/...''
      then (let root = TrimSuffix pattern ''/...'' in path = root \<or> isInside path root)
      else if path_Match pattern path = Some True then True
      else path = pattern)"

definition matchSpecificity :: "string \<Rightarrow> int" where
  "matchSpecificity pattern = int (length (takeWhile (\<lambda>c. c \<notin> set ''*?['') (TrimSuffix pattern ''/...'')))"

definition best_step :: "string \<Rightarrow> access \<times> int \<Rightarrow> path_entry \<Rightarrow> access \<times> int" where
  "best_step absp st e =
     (if \<not> matchesPattern absp (pePattern e) then st
      else let l = matchSpecificity (pePattern e)
           in if l > snd st then (peAccess e, l) else st)"

definition AccessFor :: "os \<Rightarrow> path_scope \<Rightarrow> string \<Rightarrow> access" where
  "AccessFor w s path =
     (case ResolvePath w path of
        None \<Rightarrow> AccessNone
      | Some absp \<Rightarrow>
          if list_ex (isInside absp) (psRoots s) then AccessReadWrite
          else fst (foldl (best_step absp) (AccessNone, - 1) (psAllow s)))"

definition scope_Contains :: "os \<Rightarrow> path_scope \<Rightarrow> string \<Rightarrow> bool" where
  "scope_Contains w s path \<longleftrightarrow> AccessFor w s path \<noteq> AccessNone"

definition AddAlwaysAllow :: "os \<Rightarrow> string \<Rightarrow> access \<Rightarrow> path_scope \<Rightarrow> path_scope" where
  "AddAlwaysAllow w pattern a s = s\<lparr>psAllow := psAllow s @ [\<lparr>pePattern = expandUser w pattern, peAccess = a\<rparr>]\<rparr>"

definition controlPlaneBasenames :: "string list" where
  "controlPlaneBasenames = [''config.json'', ''mcp.json'']"

definition isControlPlanePath :: "string \<Rightarrow> bool" where
  "isControlPlanePath resolved \<longleftrightarrow>
     path_Base resolved \<in> set controlPlaneBasenames \<and> path_Base (path_Dir resolved) = ''.agents''"

section \<open>The gate (gate.go)\<close>

definition ModeAsk :: string where "ModeAsk = ''ask''"
definition ModeAllow :: string where "ModeAllow = ''allow''"
definition ModeYolo :: string where "ModeYolo = ''yolo''"
definition ModePlan :: string where "ModePlan = ''plan''"
definition ModeAcceptEdits :: string where "ModeAcceptEdits = ''acceptEdits''"

lemmas mode_defs = ModeAsk_def ModeAllow_def ModeYolo_def ModePlan_def ModeAcceptEdits_def

datatype decision =
    DecisionDeny
  | DecisionAllowOnce
  | DecisionAllowSession
  | DecisionAllowSessionVerb
  | DecisionAllowSessionTool
  | DecisionAllowAlways
  | DecisionOther

datatype prompt_kind =
    PromptKindBash
  | PromptKindFileWrite
  | PromptKindPathScope
  | PromptKindGeneric
  | PromptKindControlPlaneWrite

record request =
  rqKind :: prompt_kind
  rqToolName :: string
  rqDetail :: string
  rqPersistTool :: string
  rqPersistKey :: string
  rqSessionToolKey :: string
  rqVerb :: string
  rqAccess :: access

record grant =
  grKind :: prompt_kind
  grTool :: string
  grKey :: string
  grPattern :: string
  grAccess :: access

record approval =
  alTool :: string
  alKey :: string
  alDecision :: decision

record gate =
  gtSessionID :: string
  gtMode :: string
  gtPrompter :: bool
  gtGrants :: bool
  gtSessionAllow :: "string list"
  gtSessionAllowTools :: "string list"
  gtSessionAllowVerbs :: "string list"
  gtApprovals :: "approval list"
  gtRequirePlan :: bool
  gtPlanRecorded :: bool
  gtControlPlane :: "string list"

record shared =
  shPolicy :: policy
  shScope :: path_scope

datatype perm_error =
    ErrPlanFirst
  | ErrPolicyDenied
  | ErrControlPlaneWrite
  | ErrPrompter string
  | ErrUserDenied
  | ErrNoPrompter
  | ErrAllowMode
  | ErrPlanMode
  | ErrUnknownMode
  | ErrBashRefused
  | ErrInstall
  | ErrPersist string
  | ErrApprovalRequired
  | ErrGrantScopeRefused decision

text \<open>
  The outside of one check: the operator's answer to the prompt it may raise (\<open>Inl\<close> for a prompter
  that failed), what the store answers to persisting the grant (\<open>None\<close> for success), the shell
  parser and the file system. A check returns its error, if any, with the shared state and the gate.
\<close>

record outside =
  exAsk :: "request \<Rightarrow> string + decision"
  exPersist :: "grant \<Rightarrow> string option"
  exParser :: sh_parser
  exOs :: os

type_synonym gate_result = "perm_error option \<times> shared \<times> gate"

definition planExemptTools :: "string list" where
  "planExemptTools = [''read_file'', ''read_many_files'', ''stat'', ''list_dir'', ''glob'', ''grep'', ''json_query'', ''todo'',
     ''record_plan'', ''skill'', ''list_agents'', ''check_agent'']"

definition newControlPlaneSet :: "os \<Rightarrow> string list \<Rightarrow> string list" where
  "newControlPlaneSet w paths = List.map_filter (ResolvePath w) paths"

definition NewGate :: "os \<Rightarrow> string \<Rightarrow> bool \<Rightarrow> bool \<Rightarrow> bool \<Rightarrow> string list \<Rightarrow> gate" where
  "NewGate w mode prompter grants requirePlan controlPlane =
     \<lparr>gtSessionID = [], gtMode = (if mode = [] then ModeAsk else mode), gtPrompter = prompter, gtGrants = grants,
      gtSessionAllow = [], gtSessionAllowTools = [], gtSessionAllowVerbs = [], gtApprovals = [],
      gtRequirePlan = requirePlan, gtPlanRecorded = False, gtControlPlane = newControlPlaneSet w controlPlane\<rparr>"

definition SetMode :: "string \<Rightarrow> gate \<Rightarrow> gate" where
  "SetMode m g = (if m \<in> {ModeAsk, ModeAllow, ModeYolo, ModePlan, ModeAcceptEdits} then g\<lparr>gtMode := m\<rparr> else g)"

definition DeriveForSession :: "string \<Rightarrow> bool \<Rightarrow> gate \<Rightarrow> gate" where
  "DeriveForSession sessionID prompter template =
     \<lparr>gtSessionID = sessionID, gtMode = gtMode template, gtPrompter = prompter, gtGrants = gtGrants template,
      gtSessionAllow = [], gtSessionAllowTools = [], gtSessionAllowVerbs = [], gtApprovals = [],
      gtRequirePlan = gtRequirePlan template, gtPlanRecorded = False, gtControlPlane = gtControlPlane template\<rparr>"

definition MarkPlanRecorded :: "gate \<Rightarrow> gate" where "MarkPlanRecorded g = g\<lparr>gtPlanRecorded := True\<rparr>"

definition ClearPlanRecorded :: "gate \<Rightarrow> gate" where "ClearPlanRecorded g = g\<lparr>gtPlanRecorded := False\<rparr>"

definition planFirstDenial :: "gate \<Rightarrow> string \<Rightarrow> bool" where
  "planFirstDenial g toolName \<longleftrightarrow>
     gtRequirePlan g \<and> toolName \<notin> set planExemptTools \<and> \<not> gtPlanRecorded g"

definition isControlPlaneFile :: "gate \<Rightarrow> string \<Rightarrow> bool" where
  "isControlPlaneFile g resolved \<longleftrightarrow> isControlPlanePath resolved \<or> resolved \<in> set (gtControlPlane g)"

definition session_key :: "string \<Rightarrow> string \<Rightarrow> string" where
  "session_key toolName key = toolName @ ''|'' @ key"

definition sessionAllowed :: "gate \<Rightarrow> string \<Rightarrow> string \<Rightarrow> bool" where
  "sessionAllowed g toolName key \<longleftrightarrow> session_key toolName key \<in> set (gtSessionAllow g)"

definition rememberSession :: "string \<Rightarrow> string \<Rightarrow> gate \<Rightarrow> gate" where
  "rememberSession toolName key g = g\<lparr>gtSessionAllow := List.insert (session_key toolName key) (gtSessionAllow g)\<rparr>"

definition sessionToolAllowed :: "gate \<Rightarrow> string \<Rightarrow> bool" where
  "sessionToolAllowed g toolName \<longleftrightarrow> toolName \<in> set (gtSessionAllowTools g)"

definition rememberSessionTool :: "string \<Rightarrow> gate \<Rightarrow> gate" where
  "rememberSessionTool toolName g = g\<lparr>gtSessionAllowTools := List.insert toolName (gtSessionAllowTools g)\<rparr>"

definition sessionVerbAllowed :: "gate \<Rightarrow> string \<Rightarrow> string \<Rightarrow> bool" where
  "sessionVerbAllowed g toolName verb \<longleftrightarrow> session_key toolName verb \<in> set (gtSessionAllowVerbs g)"

definition rememberSessionVerb :: "string \<Rightarrow> string \<Rightarrow> gate \<Rightarrow> gate" where
  "rememberSessionVerb toolName verb g =
     g\<lparr>gtSessionAllowVerbs := List.insert (session_key toolName verb) (gtSessionAllowVerbs g)\<rparr>"

definition recordApproval :: "string \<Rightarrow> string \<Rightarrow> decision \<Rightarrow> gate \<Rightarrow> gate" where
  "recordApproval toolName key d g =
     g\<lparr>gtApprovals := gtApprovals g @ [\<lparr>alTool = toolName, alKey = key, alDecision = d\<rparr>]\<rparr>"

definition expandAlwaysAllowPattern :: "os \<Rightarrow> string \<Rightarrow> string" where
  "expandAlwaysAllowPattern w path =
     (if osIsDir w path then rev (dropWhile (\<lambda>c. c = CHR ''/'') (rev path)) @ ''/...''
      else path_Dir path @ ''/...'')"

definition promoted_access :: "access \<Rightarrow> access" where
  "promoted_access a = (if a = AccessNone then AccessRead else if a = AccessWrite then AccessReadWrite else a)"

definition persist_grant :: "outside \<Rightarrow> request \<Rightarrow> grant \<Rightarrow> shared \<Rightarrow> gate \<Rightarrow> gate_result" where
  "persist_grant ex req gr sh g =
     (if gtGrants g
      then (case exPersist ex gr of
              Some err \<Rightarrow> (Some (ErrPersist err), sh, g)
            | None \<Rightarrow> (None, sh, recordApproval (rqToolName req) (rqDetail req) DecisionAllowAlways g))
      else (None, sh, recordApproval (rqToolName req) (rqDetail req) DecisionAllowAlways g))"

definition allow_always :: "outside \<Rightarrow> request \<Rightarrow> shared \<Rightarrow> gate \<Rightarrow> gate_result" where
  "allow_always ex req sh g0 =
     (let g = rememberSession (rqToolName req) (rqDetail req) g0
      in if rqKind req = PromptKindPathScope
         then let pat = expandAlwaysAllowPattern (exOs ex) (rqPersistKey req); a = promoted_access (rqAccess req)
              in persist_grant ex req
                   \<lparr>grKind = rqKind req, grTool = rqPersistTool req, grKey = rqPersistKey req, grPattern = pat, grAccess = a\<rparr>
                   (sh\<lparr>shScope := AddAlwaysAllow (exOs ex) pat a (shScope sh)\<rparr>) g
         else let pat = rqPersistTool req @ '':'' @ rqPersistKey req
              in case AddAllow [pat] (shPolicy sh) of
                   None \<Rightarrow> (Some ErrInstall, sh, g)
                 | Some p \<Rightarrow>
                     persist_grant ex req
                       \<lparr>grKind = rqKind req, grTool = rqPersistTool req, grKey = rqPersistKey req, grPattern = pat, grAccess = 0\<rparr>
                       (sh\<lparr>shPolicy := p\<rparr>) g)"

definition prompt :: "outside \<Rightarrow> request \<Rightarrow> shared \<Rightarrow> gate \<Rightarrow> gate_result" where
  "prompt ex req sh g =
     (if \<not> gtPrompter g then (Some ErrNoPrompter, sh, g)
      else case exAsk ex req of
          Inl err \<Rightarrow> (Some (ErrPrompter err), sh, g)
        | Inr d \<Rightarrow>
            (case d of
               DecisionAllowOnce \<Rightarrow> (None, sh, recordApproval (rqToolName req) (rqDetail req) d g)
             | DecisionAllowSession \<Rightarrow>
                 (None, sh, recordApproval (rqToolName req) (rqDetail req) d (rememberSession (rqToolName req) (rqDetail req) g))
             | DecisionAllowSessionVerb \<Rightarrow>
                 (let g1 = (if rqVerb req \<noteq> [] then rememberSessionVerb (rqToolName req) (rqVerb req) g else g);
                      g2 = rememberSession (rqToolName req) (rqDetail req) g1;
                      key = (if rqVerb req \<noteq> [] then rqVerb req @ '' *'' else rqDetail req)
                  in (None, sh, recordApproval (rqToolName req) key d g2))
             | DecisionAllowSessionTool \<Rightarrow>
                 (let key = (if rqSessionToolKey req = [] then rqToolName req else rqSessionToolKey req);
                      g1 = rememberSession (rqToolName req) (rqDetail req) (rememberSessionTool key g)
                  in (None, sh, recordApproval (rqToolName req) (rqDetail req) d g1))
             | DecisionAllowAlways \<Rightarrow> allow_always ex req sh g
             | _ \<Rightarrow> (Some ErrUserDenied, sh, g)))"

definition gateRequest ::
  "outside \<Rightarrow> prompt_kind \<Rightarrow> string \<Rightarrow> string \<Rightarrow> string \<Rightarrow> string \<Rightarrow> string \<Rightarrow> shared \<Rightarrow> gate \<Rightarrow> gate_result" where
  "gateRequest ex kind toolName key persistTool persistKey sessToolKey sh g =
     (if planFirstDenial g toolName then (Some ErrPlanFirst, sh, g)
      else case Match (exParser ex) (shPolicy sh) toolName key of
          OutcomeDeny \<Rightarrow> (Some ErrPolicyDenied, sh, g)
        | OutcomeAllow \<Rightarrow> (None, sh, g)
        | OutcomeUnmatched \<Rightarrow>
            (let verb = (if kind = PromptKindBash then extractBashVerb key else [])
             in if sessionToolAllowed g sessToolKey then (None, sh, g)
                else if sessionAllowed g toolName key then (None, sh, g)
                else if kind = PromptKindBash \<and> verb \<noteq> [] \<and> sessionVerbAllowed g toolName verb \<and>
                  parseSafeArgv (exParser ex) key \<noteq> None
                then (None, sh, g)
                else if gtMode g = ModeYolo then (None, sh, g)
                else if gtMode g = ModeAllow then (Some ErrAllowMode, sh, g)
                else if gtMode g = ModePlan then (Some ErrPlanMode, sh, g)
                else if gtMode g = ModeAcceptEdits \<and> kind = PromptKindFileWrite then (None, sh, g)
                else if gtMode g = ModeAcceptEdits \<or> gtMode g = ModeAsk
                then prompt ex \<lparr>rqKind = kind, rqToolName = toolName, rqDetail = key, rqPersistTool = persistTool,
                  rqPersistKey = persistKey, rqSessionToolKey = sessToolKey, rqVerb = verb, rqAccess = AccessNone\<rparr> sh g
                else (Some ErrUnknownMode, sh, g)))"

definition access_String :: "access \<Rightarrow> string" where
  "access_String a =
     (if a = AccessNone then ''none'' else if a = AccessRead then ''r'' else if a = AccessWrite then ''w''
      else if a = AccessReadWrite then ''rw'' else ''access('' @ itoa (uint a) @ '')'')"

definition opLabel :: "access \<Rightarrow> string" where
  "opLabel a = (if a = AccessRead then ''read'' else if a = AccessWrite then ''write'' else access_String a)"

definition path_request :: "string \<Rightarrow> string \<Rightarrow> access \<Rightarrow> request" where
  "path_request toolName path op =
     \<lparr>rqKind = PromptKindPathScope, rqToolName = toolName, rqDetail = opLabel op @ '' '' @ path @ '' (out of scope)'',
      rqPersistTool = ''path_scope'', rqPersistKey = path, rqSessionToolKey = toolName, rqVerb = [], rqAccess = op\<rparr>"

definition promptForPath :: "outside \<Rightarrow> string \<Rightarrow> string \<Rightarrow> access \<Rightarrow> shared \<Rightarrow> gate \<Rightarrow> gate_result" where
  "promptForPath ex toolName path op sh g =
     (if planFirstDenial g toolName then (Some ErrPlanFirst, sh, g)
      else if gtMode g = ModeYolo then (None, sh, g)
      else if gtMode g = ModeAllow then (Some ErrAllowMode, sh, g)
      else if gtMode g = ModePlan then (Some ErrPlanMode, sh, g)
      else if gtMode g = ModeAcceptEdits \<and> op = AccessWrite then (None, sh, g)
      else prompt ex (path_request toolName path op) sh g)"

definition sessionToolKey :: "string \<Rightarrow> string \<Rightarrow> string" where
  "sessionToolKey namespace tool = namespace @ ''/'' @ tool"

definition CheckGeneric :: "outside \<Rightarrow> string \<Rightarrow> string \<Rightarrow> shared \<Rightarrow> gate \<Rightarrow> gate_result" where
  "CheckGeneric ex toolName key sh g = gateRequest ex PromptKindGeneric toolName key toolName key toolName sh g"

definition CheckToolCall :: "outside \<Rightarrow> string \<Rightarrow> string \<Rightarrow> string \<Rightarrow> shared \<Rightarrow> gate \<Rightarrow> gate_result" where
  "CheckToolCall ex namespace tool key sh g =
     gateRequest ex PromptKindGeneric namespace key namespace key (sessionToolKey namespace tool) sh g"

definition CheckBash :: "outside \<Rightarrow> string \<Rightarrow> shared \<Rightarrow> gate \<Rightarrow> gate_result" where
  "CheckBash ex command0 sh g =
     (let command = TrimSpace command0
      in if IsBashDenied command then (Some ErrBashRefused, sh, g)
         else gateRequest ex PromptKindBash ''bash'' command ''bash'' command ''bash'' sh g)"

definition CheckFileRead :: "outside \<Rightarrow> string \<Rightarrow> string \<Rightarrow> shared \<Rightarrow> gate \<Rightarrow> gate_result" where
  "CheckFileRead ex toolName path sh g =
     (if Allows (AccessFor (exOs ex) (shScope sh) path) AccessRead then (None, sh, g)
      else promptForPath ex toolName path AccessRead sh g)"

definition control_request :: "string \<Rightarrow> string \<Rightarrow> request" where
  "control_request toolName path =
     \<lparr>rqKind = PromptKindControlPlaneWrite, rqToolName = toolName, rqDetail = ''modify control-plane file '' @ path,
      rqPersistTool = toolName, rqPersistKey = path, rqSessionToolKey = [], rqVerb = [], rqAccess = AccessWrite\<rparr>"

definition checkControlPlaneWrite :: "outside \<Rightarrow> string \<Rightarrow> string \<Rightarrow> shared \<Rightarrow> gate \<Rightarrow> gate_result" where
  "checkControlPlaneWrite ex toolName path sh g =
     (if planFirstDenial g toolName then (Some ErrPlanFirst, sh, g)
      else if Match (exParser ex) (shPolicy sh) toolName path = OutcomeDeny then (Some ErrPolicyDenied, sh, g)
      else if \<not> gtPrompter g then (Some ErrControlPlaneWrite, sh, g)
      else case exAsk ex (control_request toolName path) of
          Inl err \<Rightarrow> (Some (ErrPrompter err), sh, g)
        | Inr d \<Rightarrow>
            if d = DecisionDeny then (Some ErrUserDenied, sh, g)
            else (None, sh, recordApproval toolName path DecisionAllowOnce g))"

definition CheckFileWrite :: "outside \<Rightarrow> string \<Rightarrow> string \<Rightarrow> shared \<Rightarrow> gate \<Rightarrow> gate_result" where
  "CheckFileWrite ex toolName path sh g =
     (case (case ResolvePath (exOs ex) path of
              Some resolved \<Rightarrow> if isControlPlaneFile g resolved then Some resolved else None
            | None \<Rightarrow> None) of
        Some resolved \<Rightarrow> checkControlPlaneWrite ex toolName resolved sh g
      | None \<Rightarrow>
          if \<not> Allows (AccessFor (exOs ex) (shScope sh) path) AccessWrite
          then promptForPath ex toolName path AccessWrite sh g
          else if sessionToolAllowed g toolName then (None, sh, g)
          else gateRequest ex PromptKindFileWrite toolName path toolName path toolName sh g)"

section \<open>Mutating calls (mutating.go)\<close>

definition CheckMutatingToolCall :: "outside \<Rightarrow> string \<Rightarrow> string \<Rightarrow> shared \<Rightarrow> gate \<Rightarrow> perm_error" where
  "CheckMutatingToolCall ex toolName key sh g =
     (if planFirstDenial g toolName then ErrPlanFirst
      else if Match (exParser ex) (shPolicy sh) toolName key = OutcomeDeny then ErrPolicyDenied
      else if gtMode g = ModePlan then ErrPlanMode
      else ErrApprovalRequired)"

definition RecordMutationVerdict :: "string \<Rightarrow> string \<Rightarrow> decision \<Rightarrow> gate \<Rightarrow> perm_error option \<times> gate" where
  "RecordMutationVerdict toolName key d g =
     (case d of
        DecisionDeny \<Rightarrow> (Some ErrUserDenied, g)
      | DecisionAllowOnce \<Rightarrow> (None, recordApproval toolName key d g)
      | _ \<Rightarrow> (Some (ErrGrantScopeRefused d), g))"

section \<open>Projections\<close>

datatype tool_gate_state = ToolGateAllowed | ToolGateDenied | ToolGatePrompted | ToolGateDeniedInAllowMode

definition ToolGateState :: "shared \<Rightarrow> gate \<Rightarrow> string \<Rightarrow> tool_gate_state" where
  "ToolGateState sh g toolName =
     (if matchAny (plDeny (shPolicy sh)) toolName [] then ToolGateDenied
      else if gtMode g = ModeYolo then ToolGateAllowed
      else if gtMode g = ModePlan then ToolGateDenied
      else if matchAny (plAllow (shPolicy sh)) toolName [] then ToolGateAllowed
      else if gtMode g = ModeAllow then ToolGateDeniedInAllowMode
      else ToolGatePrompted)"

section \<open>The gates of a daemon\<close>

text \<open>
  The gates of a daemon under their names, beside what they share. A tool wrapper holds one gate
  and passes a context that may name another (\<^verbatim>\<open>WithSessionGate\<close>, \<^verbatim>\<open>session_context.go\<close>); the checks
  run on the gate the context names, the setters on the gate itself.
\<close>

record daemon =
  dmShared :: shared
  dmGates :: "(string, gate) gomap"

datatype gate_op =
    OpGeneric string string
  | OpToolCall string string string
  | OpBash string
  | OpRead string string
  | OpWrite string string
  | OpVerdict string string decision
  | OpSetMode string
  | OpMarkPlan
  | OpClearPlan
  | OpSetPrompter bool
  | OpSetGrantStore bool
  | OpAddAllow "string list"
  | OpAddDeny "string list"

definition with_policy :: "(policy \<Rightarrow> policy option) \<Rightarrow> shared \<Rightarrow> shared" where
  "with_policy f sh = (case f (shPolicy sh) of None \<Rightarrow> sh | Some p \<Rightarrow> sh\<lparr>shPolicy := p\<rparr>)"

fun gate_step :: "outside \<Rightarrow> gate_op \<Rightarrow> shared \<Rightarrow> gate \<Rightarrow> shared \<times> gate" where
  "gate_step ex (OpGeneric tool key) sh g = snd (CheckGeneric ex tool key sh g)"
| "gate_step ex (OpToolCall namespace tool key) sh g = snd (CheckToolCall ex namespace tool key sh g)"
| "gate_step ex (OpBash command) sh g = snd (CheckBash ex command sh g)"
| "gate_step ex (OpRead tool path) sh g = snd (CheckFileRead ex tool path sh g)"
| "gate_step ex (OpWrite tool path) sh g = snd (CheckFileWrite ex tool path sh g)"
| "gate_step ex (OpVerdict tool key d) sh g = (sh, snd (RecordMutationVerdict tool key d g))"
| "gate_step ex (OpSetMode m) sh g = (sh, SetMode m g)"
| "gate_step ex OpMarkPlan sh g = (sh, MarkPlanRecorded g)"
| "gate_step ex OpClearPlan sh g = (sh, ClearPlanRecorded g)"
| "gate_step ex (OpSetPrompter b) sh g = (sh, g\<lparr>gtPrompter := b\<rparr>)"
| "gate_step ex (OpSetGrantStore b) sh g = (sh, g\<lparr>gtGrants := b\<rparr>)"
| "gate_step ex (OpAddAllow ps) sh g = (with_policy (AddAllow ps) sh, g)"
| "gate_step ex (OpAddDeny ps) sh g = (with_policy (AddDeny ps) sh, g)"

definition is_check :: "gate_op \<Rightarrow> bool" where
  "is_check x \<longleftrightarrow> (case x of
     OpGeneric _ _ \<Rightarrow> True | OpToolCall _ _ _ \<Rightarrow> True | OpBash _ \<Rightarrow> True | OpRead _ _ \<Rightarrow> True
   | OpWrite _ _ \<Rightarrow> True | OpVerdict _ _ _ \<Rightarrow> True | _ \<Rightarrow> False)"

definition resolveSessionGate :: "string \<Rightarrow> string option \<Rightarrow> string" where
  "resolveSessionGate g ctx = (case ctx of Some sg \<Rightarrow> sg | None \<Rightarrow> g)"

definition target :: "string \<Rightarrow> string option \<Rightarrow> gate_op \<Rightarrow> string" where
  "target who ctx x = (if is_check x then resolveSessionGate who ctx else who)"

datatype daemon_op = Derive string string bool | Act string "string option" outside gate_op

fun daemon_step :: "daemon \<Rightarrow> daemon_op \<Rightarrow> daemon" where
  "daemon_step d (Derive template sid prompter) =
     (case map_of (dmGates d) template of
        None \<Rightarrow> d
      | Some g \<Rightarrow> d\<lparr>dmGates := AList.update sid (DeriveForSession sid prompter g) (dmGates d)\<rparr>)"
| "daemon_step d (Act who ctx ex x) =
     (let t = target who ctx x
      in case map_of (dmGates d) t of
          None \<Rightarrow> d
        | Some g \<Rightarrow>
            (let (sh, g') = gate_step ex x (dmShared d) g
             in \<lparr>dmShared = sh, dmGates = AList.update t g' (dmGates d)\<rparr>))"

definition shared_le :: "shared \<Rightarrow> shared \<Rightarrow> bool" where
  "shared_le s t \<longleftrightarrow> set (plDeny (shPolicy s)) \<subseteq> set (plDeny (shPolicy t)) \<and>
     set (plAllow (shPolicy s)) \<subseteq> set (plAllow (shPolicy t)) \<and> psRoots (shScope s) = psRoots (shScope t) \<and>
     (\<exists>more. psAllow (shScope t) = psAllow (shScope s) @ more)"

text \<open>What a gate has granted: the remembered requests, tools and verbs.\<close>

definition same_grants :: "gate \<Rightarrow> gate \<Rightarrow> bool" where
  "same_grants g h \<longleftrightarrow> gtSessionAllow g = gtSessionAllow h \<and> gtSessionAllowTools g = gtSessionAllowTools h \<and>
     gtSessionAllowVerbs g = gtSessionAllowVerbs h"


text \<open>The entry that decides an access: the most specific of those that match, the first of equals.\<close>

definition most_specific :: "string \<Rightarrow> path_entry list \<Rightarrow> path_entry \<Rightarrow> bool" where
  "most_specific a es e \<longleftrightarrow>
     (\<exists>us vs. es = us @ e # vs \<and> matchesPattern a (pePattern e) \<and>
        (\<forall>x \<in> set us. matchesPattern a (pePattern x) \<longrightarrow> matchSpecificity (pePattern x) < matchSpecificity (pePattern e)) \<and>
        (\<forall>x \<in> set vs. matchesPattern a (pePattern x) \<longrightarrow> matchSpecificity (pePattern x) \<le> matchSpecificity (pePattern e)))"

definition plan_pending :: "gate \<Rightarrow> bool" where
  "plan_pending g \<longleftrightarrow> gtRequirePlan g \<and> \<not> gtPlanRecorded g \<and>
     (\<forall>k \<in> set (gtSessionAllowTools g). k \<in> set planExemptTools \<or> (\<exists>n \<in> set planExemptTools. HasPrefix k (n @ ''/'')))"

text \<open>One session's operations, each with its own outside.\<close>

definition session_step :: "shared \<times> gate \<Rightarrow> outside \<times> gate_op \<Rightarrow> shared \<times> gate" where
  "session_step s x = gate_step (fst x) (snd x) (fst s) (snd s)"

text \<open>A small set-up for the witnesses.\<close>

definition demo_os :: os where
  "demo_os = \<lparr>osHome = None, osCwd = Some ''/w'', osEvalSymlinks = Evaluated, osIsDir = (\<lambda>_. False)\<rparr>"

definition demo_outside :: "decision \<Rightarrow> outside" where
  "demo_outside d = \<lparr>exAsk = (\<lambda>_. Inr d), exPersist = (\<lambda>_. None), exParser = (\<lambda>_. None), exOs = demo_os\<rparr>"

definition demo_shared :: shared where
  "demo_shared = \<lparr>shPolicy = \<lparr>plAllow = [], plDeny = [\<lparr>rlTool = ''mcp'', rlPat = ''drop''\<rparr>]\<rparr>,
     shScope = \<lparr>psRoots = [''/w''], psAllow = [\<lparr>pePattern = ''/a/...'', peAccess = AccessRead\<rparr>,
       \<lparr>pePattern = ''/a/b/...'', peAccess = AccessReadWrite\<rparr>]\<rparr>\<rparr>"

definition demo_gate :: "string \<Rightarrow> bool \<Rightarrow> gate" where
  "demo_gate mode plan = NewGate demo_os mode True False plan []"

section \<open>Lemmas\<close>

lemma shared_le_refl [simp]: "shared_le s s"
  by (simp add: shared_le_def)

lemma shared_le_trans: "shared_le s t \<Longrightarrow> shared_le t u \<Longrightarrow> shared_le s u"
  by (auto simp: shared_le_def)

lemma add_rules_grows: "set rs \<union> set new \<subseteq> set (add_rules rs new)"
proof (induction rs new rule: add_rules.induct)
  case (2 rs r new)
  have "containsRule rs r \<Longrightarrow> r \<in> set rs" by (auto simp: containsRule_def list_ex_iff) (metis (full_types) old.unit.exhaust rule.equality)
  with 2 show ?case by auto
qed simp

lemma AddAllow_grows: "AddAllow ps p = Some q \<Longrightarrow> plDeny q = plDeny p \<and> set (plAllow p) \<subseteq> set (plAllow q)"
  using add_rules_grows by (fastforce simp: AddAllow_def)

lemma AddDeny_grows: "AddDeny ps p = Some q \<Longrightarrow> plAllow q = plAllow p \<and> set (plDeny p) \<subseteq> set (plDeny q)"
  using add_rules_grows by (fastforce simp: AddDeny_def)

lemma persist_grant_shared: "fst (snd (persist_grant ex req gr sh g)) = sh"
  by (simp add: persist_grant_def split: option.split)

lemma allow_always_grows: "shared_le sh (fst (snd (allow_always ex req sh g)))"
  by (auto simp: allow_always_def persist_grant_shared shared_le_def AddAlwaysAllow_def Let_def
      split: option.split dest!: AddAllow_grows)

lemma prompt_grows: "shared_le sh (fst (snd (prompt ex req sh g)))"
  by (auto simp: prompt_def allow_always_grows Let_def split: sum.split decision.split)

lemma gateRequest_grows: "shared_le sh (fst (snd (gateRequest ex k tool key pt pk sk sh g)))"
  by (auto simp: gateRequest_def prompt_grows Let_def split: outcome.split)

lemma promptForPath_grows: "shared_le sh (fst (snd (promptForPath ex tool path acc sh g)))"
  by (auto simp: promptForPath_def prompt_grows)

lemma checkControlPlaneWrite_shared [simp]: "fst (snd (checkControlPlaneWrite ex tool path sh g)) = sh"
  by (auto simp: checkControlPlaneWrite_def split: sum.split)

lemma with_policy_grows:
  "shared_le sh (with_policy (AddAllow ps) sh)" "shared_le sh (with_policy (AddDeny ps) sh)"
  by (auto simp: with_policy_def shared_le_def split: option.split dest!: AddAllow_grows AddDeny_grows)

lemma gate_step_grows: "shared_le sh (fst (gate_step ex x sh g))"
  by (cases x) (auto simp: CheckGeneric_def CheckToolCall_def CheckBash_def CheckFileRead_def CheckFileWrite_def
      gateRequest_grows promptForPath_grows with_policy_grows Let_def split: option.split)

lemma daemon_step_grows: "shared_le (dmShared d) (dmShared (daemon_step d x))"
  by (cases x) (auto simp: Let_def case_prod_beta gate_step_grows split: option.split)

interpretation gates: growing daemon_step "\<lambda>d e. shared_le (dmShared d) (dmShared e)"
  by unfold_locales (auto intro: shared_le_trans daemon_step_grows)

lemma matchAny_iff:
  "matchAny rs tool key \<longleftrightarrow> (\<exists>r \<in> set rs. (rlTool r = [] \<or> rlTool r = tool) \<and> matchGlob (rlPat r) key)"
  by (induction rs) auto

lemma Match_Deny [simp]: "Match sh p tool key = OutcomeDeny \<longleftrightarrow> matchAny (plDeny p) tool key"
  by (simp add: Match_def)

lemma denied_later: "matchAny (plDeny (shPolicy s)) tool key \<Longrightarrow> shared_le s t \<Longrightarrow> matchAny (plDeny (shPolicy t)) tool key"
  by (auto simp: matchAny_iff shared_le_def)

lemma gateRequest_denied:
  "matchAny (plDeny (shPolicy sh)) tool key \<Longrightarrow>
     fst (gateRequest ex k tool key pt pk sk sh g) \<noteq> None \<and> snd (gateRequest ex k tool key pt pk sk sh g) = (sh, g)"
  by (simp add: gateRequest_def Match_def)


lemma most_specific_keep:
  assumes "most_specific a es e"
    "matchesPattern a (pePattern y) \<Longrightarrow> matchSpecificity (pePattern y) \<le> matchSpecificity (pePattern e)"
  shows "most_specific a (es @ [y]) e"
proof -
  obtain us vs where h: "es = us @ e # vs" "matchesPattern a (pePattern e)"
      "\<forall>x \<in> set us. matchesPattern a (pePattern x) \<longrightarrow> matchSpecificity (pePattern x) < matchSpecificity (pePattern e)"
      "\<forall>x \<in> set vs. matchesPattern a (pePattern x) \<longrightarrow> matchSpecificity (pePattern x) \<le> matchSpecificity (pePattern e)"
    using assms(1) unfolding most_specific_def by blast
  have "es @ [y] = us @ e # (vs @ [y])" using h(1) by simp
  then show ?thesis unfolding most_specific_def using h assms(2)
    by - (rule exI [of _ us], rule exI [of _ "vs @ [y]"], auto)
qed

lemma most_specific_new:
  "matchesPattern a (pePattern y) \<Longrightarrow>
     \<forall>x \<in> set es. matchesPattern a (pePattern x) \<longrightarrow> matchSpecificity (pePattern x) < matchSpecificity (pePattern y) \<Longrightarrow>
     most_specific a (es @ [y]) y"
  unfolding most_specific_def by (rule exI [of _ es], rule exI [of _ "[]"]) simp

lemma most_specific_max:
  "most_specific a es e \<Longrightarrow> x \<in> set es \<Longrightarrow> matchesPattern a (pePattern x) \<Longrightarrow>
     matchSpecificity (pePattern x) \<le> matchSpecificity (pePattern e)"
  by (fastforce simp: most_specific_def)

lemma foldl_best:
  "(\<exists>e. most_specific a es e \<and> foldl (best_step a) (AccessNone, - 1) es = (peAccess e, matchSpecificity (pePattern e))) \<or>
   ((\<forall>e \<in> set es. \<not> matchesPattern a (pePattern e)) \<and> foldl (best_step a) (AccessNone, - 1) es = (AccessNone, - 1))"
proof (induction es rule: rev_induct)
  case (snoc y es)
  have f: "foldl (best_step a) (AccessNone, - 1) (es @ [y]) = best_step a (foldl (best_step a) (AccessNone, - 1) es) y" by simp
  from snoc.IH show ?case
  proof (elim disjE exE conjE)
    fix e
    assume h: "most_specific a es e" "foldl (best_step a) (AccessNone, - 1) es = (peAccess e, matchSpecificity (pePattern e))"
    show ?thesis
    proof (cases "matchesPattern a (pePattern y) \<and> matchSpecificity (pePattern e) < matchSpecificity (pePattern y)")
      case True
      then have "most_specific a (es @ [y]) y" using most_specific_max [OF h(1)] by (intro most_specific_new) force+
      then show ?thesis using True unfolding f h(2) by (intro disjI1 exI [of _ y]) (auto simp: best_step_def Let_def)
    next
      case False
      then have "most_specific a (es @ [y]) e" using h(1) by (intro most_specific_keep) auto
      then show ?thesis using False unfolding f h(2) by (intro disjI1 exI [of _ e]) (auto simp: best_step_def Let_def)
    qed
  next
    assume h: "\<forall>e \<in> set es. \<not> matchesPattern a (pePattern e)" "foldl (best_step a) (AccessNone, - 1) es = (AccessNone, - 1)"
    show ?thesis
    proof (cases "matchesPattern a (pePattern y)")
      case True
      then have "most_specific a (es @ [y]) y" using h(1) by (intro most_specific_new) auto
      then show ?thesis using True unfolding f h(2) by (intro disjI1 exI [of _ y]) (auto simp: best_step_def matchSpecificity_def Let_def)
    next
      case False
      then show ?thesis using h(1) unfolding f h(2) by (simp add: best_step_def)
    qed
  qed
qed simp

lemma parse_rule_tool: "CHR '':'' \<notin> set tool \<Longrightarrow> parse_rule (tool @ '':'' @ key) = \<lparr>rlTool = tool, rlPat = key\<rparr>"
proof -
  assume "CHR '':'' \<notin> set tool"
  then have "\<forall>c \<in> set tool. c \<noteq> CHR '':''" by auto
  then have "takeWhile (\<lambda>c. c \<noteq> CHR '':'') (tool @ '':'' @ key) = tool"
      "dropWhile (\<lambda>c. c \<noteq> CHR '':'') (tool @ '':'' @ key) = '':'' @ key"
    by (simp_all add: takeWhile_append2 dropWhile_append2)
  then show ?thesis by (simp add: parse_rule_def)
qed

lemma matchAnyAllow_exact:
  "r \<in> set rs \<Longrightarrow> rlTool r = tool \<Longrightarrow> rlPat r = key \<Longrightarrow> matchAnyAllow sh rs tool key"
  by (induction rs) auto

lemma allow_always_installs:
  assumes "rqKind req \<noteq> PromptKindPathScope" "CHR '':'' \<notin> set (rqPersistTool req)" "path_Match (rqPersistKey req) [] \<noteq> None"
  shows "\<lparr>rlTool = rqPersistTool req, rlPat = rqPersistKey req\<rparr> \<in> set (plAllow (shPolicy (fst (snd (allow_always ex req sh g)))))"
proof -
  let ?r = "\<lparr>rlTool = rqPersistTool req, rlPat = rqPersistKey req\<rparr>"
  obtain p where p: "AddAllow [rqPersistTool req @ '':'' @ rqPersistKey req] (shPolicy sh) = Some p"
      "plAllow p = add_rules (plAllow (shPolicy sh)) [?r]"
    using assms(2,3) by (auto simp: AddAllow_def parse_rule_tool [simplified] Let_def)
  have "?r \<in> set (plAllow p)" using p(2) add_rules_grows [of "plAllow (shPolicy sh)" "[?r]"] by auto
  then show ?thesis using assms(1) p(1) by (simp add: allow_always_def persist_grant_shared Let_def)
qed

lemma gateRequest_allowed:
  assumes "r \<in> set (plAllow (shPolicy sh))" "rlTool r = tool" "rlPat r = key"
    and "\<not> matchAny (plDeny (shPolicy sh)) tool key" "\<not> planFirstDenial g tool"
  shows "gateRequest ex k tool key pt pk sk sh g = (None, sh, g)"
  using assms matchAnyAllow_exact [of r "plAllow (shPolicy sh)" tool key "exParser ex"]
  by (simp add: gateRequest_def Match_def)

lemma plan_pending_frame [simp]:
  "plan_pending (recordApproval t k d g) = plan_pending g" "plan_pending (rememberSession t k g) = plan_pending g"
  "plan_pending (rememberSessionVerb t k g) = plan_pending g" "plan_pending (g\<lparr>gtPrompter := b\<rparr>) = plan_pending g"
  "plan_pending (g\<lparr>gtGrants := b\<rparr>) = plan_pending g" "plan_pending (g\<lparr>gtMode := m\<rparr>) = plan_pending g"
  by (simp_all add: plan_pending_def recordApproval_def rememberSession_def rememberSessionVerb_def)

lemma plan_pending_remember:
  "plan_pending g \<Longrightarrow> k \<in> set planExemptTools \<or> (\<exists>n \<in> set planExemptTools. HasPrefix k (n @ ''/'')) \<Longrightarrow>
     plan_pending (rememberSessionTool k g)"
  by (auto simp: plan_pending_def rememberSessionTool_def)

lemma plan_pending_prompt:
  assumes "plan_pending g" "rqToolName req \<in> set planExemptTools"
    and "rqSessionToolKey req = rqToolName req \<or> HasPrefix (rqSessionToolKey req) (rqToolName req @ ''/'')"
  shows "plan_pending (snd (snd (prompt ex req sh g)))"
  using assms plan_pending_remember [of g]
  by (auto simp: prompt_def allow_always_def persist_grant_def Let_def split: sum.split decision.split option.split)

lemma plan_pending_denies: "plan_pending g \<Longrightarrow> planFirstDenial g tool \<longleftrightarrow> tool \<notin> set planExemptTools"
  by (auto simp: plan_pending_def planFirstDenial_def)

lemma plan_pending_gateRequest:
  assumes "plan_pending g" "sk = tool \<or> HasPrefix sk (tool @ ''/'')"
  shows "plan_pending (snd (snd (gateRequest ex k tool key pt pk sk sh g)))"
  using assms plan_pending_prompt [of g _ ex sh] plan_pending_denies [OF assms(1), of tool]
  by (auto simp: gateRequest_def Let_def split: outcome.split)

lemma plan_pending_path:
  assumes "plan_pending g"
  shows "plan_pending (snd (snd (promptForPath ex tool path acc sh g)))"
  using assms plan_pending_prompt [of g _ ex sh] plan_pending_denies [OF assms(1), of tool]
  by (auto simp: promptForPath_def path_request_def)

lemma plan_pending_control: "plan_pending g \<Longrightarrow> plan_pending (snd (snd (checkControlPlaneWrite ex tool path sh g)))"
  by (auto simp: checkControlPlaneWrite_def split: sum.split)

lemma plan_pending_step:
  assumes "plan_pending g" "x \<noteq> OpMarkPlan"
  shows "plan_pending (snd (gate_step ex x sh g))"
proof (cases x)
  case (OpVerdict t k d)
  then show ?thesis using assms by (auto simp: RecordMutationVerdict_def split: decision.split)
next
  case OpClearPlan
  then show ?thesis using assms by (simp add: ClearPlanRecorded_def plan_pending_def)
qed (use assms in \<open>auto simp: CheckGeneric_def CheckToolCall_def sessionToolKey_def CheckBash_def CheckFileRead_def CheckFileWrite_def
      SetMode_def plan_pending_gateRequest plan_pending_path plan_pending_control Let_def HasPrefix_iff split: option.split\<close>)

lemma plan_pending_steps:
  "plan_pending (snd s) \<Longrightarrow> \<forall>x \<in> set xs. snd x \<noteq> OpMarkPlan \<Longrightarrow> plan_pending (snd (foldl session_step s xs))"
proof (induction xs arbitrary: s)
  case (Cons x xs)
  then have "plan_pending (snd (session_step s x))" by (simp add: session_step_def plan_pending_step)
  with Cons show ?case by simp
qed simp

section \<open>Properties\<close>

text \<open>C4: a deny rule is final. Once the policy of a daemon denies a request, then after any sequence of
  operations of any of its sessions -- checks with any answers, grants, mode changes, patterns added --
  the generic, the namespaced, the shell and the mutation check of every gate refuse that request,
  in every mode and whatever the gate was granted.\<close>

theorem deny_survives:
  assumes "matchAny (plDeny (shPolicy (dmShared d))) tool key"
  shows "fst (CheckGeneric ex tool key (dmShared (foldl daemon_step d ops)) g) \<noteq> None \<and>
    fst (CheckToolCall ex tool name key (dmShared (foldl daemon_step d ops)) g) \<noteq> None \<and>
    CheckMutatingToolCall ex tool key (dmShared (foldl daemon_step d ops)) g \<noteq> ErrApprovalRequired \<and>
    (tool = ''bash'' \<and> key = TrimSpace command \<longrightarrow>
       fst (CheckBash ex command (dmShared (foldl daemon_step d ops)) g) \<noteq> None)"
proof -
  let ?sh = "dmShared (foldl daemon_step d ops)"
  have "matchAny (plDeny (shPolicy ?sh)) tool key"
    using denied_later [OF assms gates.foldl_grows] .
  note denied = this gateRequest_denied [OF this, THEN conjunct1]
  then show ?thesis
    by (auto simp: CheckGeneric_def CheckToolCall_def CheckBash_def CheckMutatingToolCall_def Let_def)
qed

theorem deny_survives_witness:
  "fst (CheckGeneric (demo_outside DecisionAllowAlways) ''mcp'' ''drop''
     (dmShared (foldl daemon_step \<lparr>dmShared = demo_shared, dmGates = [(''s'', demo_gate ModeYolo False)]\<rparr>
       [Act ''s'' None (demo_outside DecisionAllowAlways) (OpAddAllow [''mcp:drop''])])) (demo_gate ModeYolo False)) \<noteq> None"
proof -
  let ?d = "\<lparr>dmShared = demo_shared, dmGates = [(''s'', demo_gate ModeYolo False)]\<rparr>"
  have "matchAny (plDeny (shPolicy (dmShared ?d))) ''mcp'' ''drop''" by (simp add: demo_shared_def matchGlob_def)
  then show ?thesis using deny_survives [of ?d "''mcp''" "''drop''"] by blast
qed

text \<open>A control-plane file is only written with a fresh approval. When the path of a write resolves
  to a control-plane file, the write passes only if the operator was asked about this very file and
  did not deny; no mode, grant or allow rule replaces the answer, and whatever the answer is, nothing
  is granted for later: the shared policy and scope and the gate's grants stay as they were.\<close>

theorem control_plane_needs_operator:
  assumes "ResolvePath (exOs ex) path = Some resolved" "isControlPlaneFile g resolved"
    and "CheckFileWrite ex tool path sh g = (e, sh', g')"
  shows "sh' = sh \<and> same_grants g g' \<and>
    (e = None \<longrightarrow> gtPrompter g \<and> (\<exists>d. exAsk ex (control_request tool resolved) = Inr d \<and> d \<noteq> DecisionDeny))"
  using assms by (auto simp: CheckFileWrite_def checkControlPlaneWrite_def same_grants_def recordApproval_def
      split: if_splits sum.splits)

lemma demo_resolve: "ResolvePath demo_os ''/w/.agents/mcp.json'' = Some ''/w/.agents/mcp.json''"
  by code_simp

theorem control_plane_needs_operator_witness:
  "fst (CheckFileWrite (demo_outside DecisionDeny) ''write_file'' ''/w/.agents/mcp.json'' demo_shared (demo_gate ModeYolo False)) \<noteq> None"
proof -
  obtain e sh' g' where c: "CheckFileWrite (demo_outside DecisionDeny) ''write_file'' ''/w/.agents/mcp.json'' demo_shared
      (demo_gate ModeYolo False) = (e, sh', g')" by (cases rule: prod_cases3)
  have r: "ResolvePath (exOs (demo_outside DecisionDeny)) ''/w/.agents/mcp.json'' = Some ''/w/.agents/mcp.json''"
    using demo_resolve by (simp add: demo_outside_def)
  have f: "isControlPlaneFile (demo_gate ModeYolo False) ''/w/.agents/mcp.json''" by code_simp
  show ?thesis using control_plane_needs_operator [OF r f c] c by (auto simp: demo_outside_def)
qed



text \<open>The most specific entry of the path scope decides. For a path outside the trusted roots the
  access is that of the matching entry with the longest literal prefix, the first of equals; with no
  matching entry there is no access, and a path that cannot be resolved has none either.\<close>

theorem access_most_specific:
  assumes "ResolvePath w path = Some a" "\<not> list_ex (isInside a) (psRoots s)"
  shows "(\<exists>e. most_specific a (psAllow s) e \<and> AccessFor w s path = peAccess e) \<or>
    ((\<forall>e \<in> set (psAllow s). \<not> matchesPattern a (pePattern e)) \<and> AccessFor w s path = AccessNone)"
  using foldl_best [of a "psAllow s"] assms by (auto simp: AccessFor_def)

theorem access_most_specific_witness:
  "\<exists>e. most_specific ''/a/b/c'' (psAllow (shScope demo_shared)) e \<and> AccessFor demo_os (shScope demo_shared) ''/a/b/c'' = peAccess e"
proof -
  have "ResolvePath demo_os ''/a/b/c'' = Some ''/a/b/c''" by code_simp
  moreover have "\<not> list_ex (isInside ''/a/b/c'') (psRoots (shScope demo_shared))" by code_simp
  moreover have "\<not> (\<forall>e \<in> set (psAllow (shScope demo_shared)). \<not> matchesPattern ''/a/b/c'' (pePattern e))" by code_simp
  ultimately show ?thesis using access_most_specific by blast
qed

text \<open>An always-allow answer holds at once and for everybody. When the operator answers a prompt that
  is not about the path scope with always-allow, then -- even if storing the grant failed -- the same
  request is allowed without a prompt by every gate of the daemon, after any later operations, unless a
  plan is outstanding there or a deny rule matches.\<close>

theorem always_allow_applies:
  assumes "gtPrompter g" "exAsk ex req = Inr DecisionAllowAlways" "rqKind req \<noteq> PromptKindPathScope"
    and "CHR '':'' \<notin> set (rqPersistTool req)" "path_Match (rqPersistKey req) [] \<noteq> None"
    and "d = \<lparr>dmShared = fst (snd (prompt ex req sh g)), dmGates = gs\<rparr>"
    and "\<not> matchAny (plDeny (shPolicy (dmShared (foldl daemon_step d ops)))) (rqPersistTool req) (rqPersistKey req)"
    and "\<not> planFirstDenial h (rqPersistTool req)"
  shows "fst (CheckGeneric ex' (rqPersistTool req) (rqPersistKey req) (dmShared (foldl daemon_step d ops)) h) = None"
proof -
  let ?r = "\<lparr>rlTool = rqPersistTool req, rlPat = rqPersistKey req\<rparr>"
  have "?r \<in> set (plAllow (shPolicy (dmShared d)))"
    using allow_always_installs [OF assms(3-5)] assms(1,2,6) by (simp add: prompt_def)
  then have "?r \<in> set (plAllow (shPolicy (dmShared (foldl daemon_step d ops))))"
    using gates.foldl_grows [of d ops] by (auto simp: shared_le_def)
  then show ?thesis using gateRequest_allowed [OF _ _ _ assms(7,8)] by (simp add: CheckGeneric_def)
qed

theorem always_allow_applies_witness:
  "\<exists>sh g. fst (CheckGeneric (demo_outside DecisionDeny) ''mcp'' ''list'' sh g) = None \<and> gtMode g = ModeAsk"
proof -
  let ?req = "\<lparr>rqKind = PromptKindGeneric, rqToolName = ''mcp'', rqDetail = ''list'', rqPersistTool = ''mcp'',
    rqPersistKey = ''list'', rqSessionToolKey = ''mcp'', rqVerb = [], rqAccess = AccessNone\<rparr>"
  let ?ex = "demo_outside DecisionAllowAlways" and ?g = "demo_gate ModeAsk False"
  let ?d = "\<lparr>dmShared = fst (snd (prompt ?ex ?req demo_shared ?g)), dmGates = []\<rparr>"
  have deny: "plDeny (shPolicy (dmShared ?d)) = plDeny (shPolicy demo_shared)"
    by code_simp
  have "fst (CheckGeneric (demo_outside DecisionDeny) ''mcp'' ''list'' (dmShared (foldl daemon_step ?d [])) ?g) = None"
    using always_allow_applies [of ?g ?ex ?req ?d demo_shared "[]" "[]" ?g "demo_outside DecisionDeny"] deny
    by (simp add: demo_gate_def NewGate_def demo_outside_def planFirstDenial_def demo_shared_def matchGlob_def
        isOpenPrefixPattern_def HasSuffix_def HasPrefix_def) code_simp
  moreover have "gtMode ?g = ModeAsk" by (simp add: demo_gate_def NewGate_def)
  ultimately show ?thesis by blast
qed

text \<open>Nothing before the plan. A gate that requires a plan, with none recorded and nothing granted,
  refuses every tool that is not exempt -- in the generic, namespaced, shell, write and mutation check, in
  every mode -- after any operations with any answers, as long as no plan is recorded.\<close>

theorem plan_comes_first:
  assumes "gtRequirePlan g" "\<not> gtPlanRecorded g" "gtSessionAllowTools g = []"
    and "\<forall>x \<in> set ops. snd x \<noteq> OpMarkPlan" "foldl session_step (sh, g) ops = (sh', g')"
    and "tool \<notin> set planExemptTools" "\<forall>n \<in> set planExemptTools. \<not> HasPrefix tool (n @ ''/'')"
  shows "fst (CheckGeneric ex tool key sh' g') \<noteq> None \<and> fst (CheckToolCall ex tool name key sh' g') \<noteq> None \<and>
    fst (CheckBash ex command sh' g') \<noteq> None \<and> fst (CheckFileWrite ex tool path sh' g') \<noteq> None \<and>
    CheckMutatingToolCall ex tool key sh' g' \<noteq> ErrApprovalRequired"
proof -
  have p: "plan_pending g'"
    using plan_pending_steps [of "(sh, g)" ops] assms(1-5) by (simp add: plan_pending_def)
  have "planFirstDenial g' tool" "planFirstDenial g' ''bash''"
    using plan_pending_denies [OF p] assms(6) by (simp_all add: planExemptTools_def)
  moreover have "\<not> sessionToolAllowed g' tool"
    using p assms(6,7) by (auto simp: plan_pending_def sessionToolAllowed_def)
  ultimately show ?thesis
    by (auto simp: CheckGeneric_def CheckToolCall_def CheckBash_def CheckFileWrite_def checkControlPlaneWrite_def
        promptForPath_def gateRequest_def CheckMutatingToolCall_def Let_def split: option.split)
qed

theorem plan_comes_first_witness:
  "fst (CheckFileWrite (demo_outside DecisionAllowOnce) ''write_file'' ''/w/x'' demo_shared (demo_gate ModeYolo True)) \<noteq> None"
  using plan_comes_first [of "demo_gate ModeYolo True" "[]" demo_shared demo_shared "demo_gate ModeYolo True" "''write_file''"
      "demo_outside DecisionAllowOnce"]
  by (simp add: demo_gate_def NewGate_def planExemptTools_def HasPrefix_def)

text \<open>A mutating call is never approved by configuration. The mutation check never approves by itself:
  it asks for an operator exactly when no plan is outstanding, no deny rule matches and the mode is not
  plan, whatever modes, allow rules and grants there are; of the operator's verdicts only allow-once is
  accepted, and none of them grants anything for later.\<close>

theorem mutation_needs_operator:
  "(CheckMutatingToolCall ex tool key sh g = ErrApprovalRequired \<longleftrightarrow>
      \<not> planFirstDenial g tool \<and> \<not> matchAny (plDeny (shPolicy sh)) tool key \<and> gtMode g \<noteq> ModePlan) \<and>
   (fst (RecordMutationVerdict tool key d g) = None \<longleftrightarrow> d = DecisionAllowOnce) \<and>
   same_grants g (snd (RecordMutationVerdict tool key d g))"
  by (auto simp: CheckMutatingToolCall_def RecordMutationVerdict_def same_grants_def recordApproval_def
      split: decision.split)

section \<open>Where the gate departs from its documentation\<close>



text \<open>In plan mode an allow rule still lets a call pass.\<close>

lemma plan_mode_allow_rule_passes:
  assumes "gtMode g = ModePlan" "Match (exParser ex) (shPolicy sh) tool key = OutcomeAllow" "\<not> planFirstDenial g tool"
  shows "CheckGeneric ex tool key sh g = (None, sh, g)"
  using assms by (simp add: CheckGeneric_def gateRequest_def)

text \<open>
  An allow-session answer to a path-scope prompt is remembered under a key no check reads: the same
  read asks again.
\<close>

lemma path_session_answer_is_lost:
  assumes "gtMode g = ModeAsk" "gtPrompter g" "exAsk ex (path_request tool path AccessRead) = Inr DecisionAllowSession"
    and "\<not> Allows (AccessFor (exOs ex) (shScope sh) path) AccessRead" "\<not> planFirstDenial g tool"
    and "exOs ex' = exOs ex" "exAsk ex' (path_request tool path AccessRead) = Inr DecisionDeny"
    and "CheckFileRead ex tool path sh g = (e, sh', g')"
  shows "e = None \<and> fst (CheckFileRead ex' tool path sh' g') = Some ErrUserDenied"
  using assms by (auto simp: CheckFileRead_def promptForPath_def prompt_def planFirstDenial_def recordApproval_def
      rememberSession_def mode_defs)

end
