(* ===== verification/Approval.thy ===== *)
theory Approval
  imports Permissions
begin

text \<open>
  The write gate of \<^verbatim>\<open>src/pkg/approval\<close>, the plugin every mutating tool call passes: it parks the
  call for an operator, carries out the verdict (\<^verbatim>\<open>plugin.go\<close>, \<^verbatim>\<open>verdict.go\<close>, \<^verbatim>\<open>edit.go\<close>), lets one
  answer stand for a recorded change set (\<^verbatim>\<open>changeset.go\<close>, \<^verbatim>\<open>grant.go\<close>, \<^verbatim>\<open>grantgate.go\<close>), captures
  what a call is about to overwrite (\<^verbatim>\<open>capture.go\<close>), remembers what was refused in a turn
  (\<^verbatim>\<open>suppress.go\<close>) and writes a decision record (\<^verbatim>\<open>decision.go\<close>). It decides with the permission
  gate of the theory Permissions.

  The session state is a map from keys to records; a record the code encodes as JSON and decodes
  again is the record itself. What a call writes to the state delta of its event is part of its
  result. \<^verbatim>\<open>encoding/json\<close>, SHA-256, the JSON Schema validator, the clock, the reads mast makes on
  its own behalf and the workload's declarations are arguments. Error texts are left out; a refusal
  is the value of its \<^verbatim>\<open>error\<close> field.
\<close>

section \<open>Values and calls\<close>

datatype json = JString string | JObject "(string \<times> json) list" | JOther string

type_synonym args = "(string, json) gomap"

text \<open>
  \<open>cdEncode\<close> is \<^verbatim>\<open>json.Marshal\<close>; \<open>cdNormal\<close> encodes arguments and decodes them into a map;
  \<open>cdSum\<close> is the hexadecimal SHA-256 of a text. \<open>None\<close> is an error.
\<close>

record json_codec =
  cdEncode :: "json \<Rightarrow> string option"
  cdNormal :: "args \<Rightarrow> args option"
  cdSum :: "string \<Rightarrow> string"

definition maxValueLen :: nat where "maxValueLen = 120"

definition elide :: "string \<Rightarrow> string" where
  "elide s = (if length s \<le> maxValueLen then s else take maxValueLen s @ [CHR 0xE2, CHR 0x80, CHR 0xA6])"

definition renderValue :: "json_codec \<Rightarrow> json \<Rightarrow> string" where
  "renderValue j v =
     (case v of
        JString s \<Rightarrow> elide s
      | _ \<Rightarrow> (case cdEncode j v of None \<Rightarrow> ''?'' | Some b \<Rightarrow> elide b))"

definition CallKey :: "json_codec \<Rightarrow> string \<Rightarrow> args \<Rightarrow> string" where
  "CallKey j name as =
     (if as = [] then name @ ''()''
      else let keys = sort (remdups (map fst as));
               parts = map (\<lambda>k. k @ ''='' @ renderValue j (the (map_of as k))) keys
           in name @ ''('' @ Join parts '', '' @ '')'')"

definition Signature :: "json_codec \<Rightarrow> string \<Rightarrow> args \<Rightarrow> string option" where
  "Signature j name as =
     (if as = [] then Some (name @ ''({})'')
      else map_option (\<lambda>raw. name @ ''('' @ raw @ '')'') (cdEncode j (JObject as)))"

section \<open>Verdicts (verdict.go)\<close>

definition OutcomeApprove :: string where "OutcomeApprove = ''approve''"
definition OutcomeReject :: string where "OutcomeReject = ''reject''"
definition OutcomeEdit :: string where "OutcomeEdit = ''edit''"

definition ScopeOnce :: string where "ScopeOnce = ''once''"
definition ScopeSession :: string where "ScopeSession = ''session''"
definition ScopeSessionTool :: string where "ScopeSessionTool = ''session_tool''"
definition ScopeAlways :: string where "ScopeAlways = ''always''"
definition ScopeChangeSet :: string where "ScopeChangeSet = ''change_set''"

lemmas verdict_consts = OutcomeApprove_def OutcomeReject_def OutcomeEdit_def ScopeOnce_def ScopeSession_def
  ScopeSessionTool_def ScopeAlways_def ScopeChangeSet_def

definition scopeDecisions :: "(string, decision) gomap" where
  "scopeDecisions = [(ScopeOnce, DecisionAllowOnce), (ScopeSession, DecisionAllowSession),
     (ScopeSessionTool, DecisionAllowSessionTool), (ScopeAlways, DecisionAllowAlways), (ScopeChangeSet, DecisionAllowOnce)]"

record verdict =
  vdVerdict :: string
  vdScope :: string
  vdArgs :: args
  vdNote :: string
  vdApprover :: string

definition verdict0 :: verdict where
  "verdict0 = \<lparr>vdVerdict = [], vdScope = [], vdArgs = [], vdNote = [], vdApprover = []\<rparr>"

definition Verdict_Decision :: "verdict \<Rightarrow> decision option" where
  "Verdict_Decision v =
     (if vdVerdict v = OutcomeReject then Some DecisionDeny
      else map_of scopeDecisions (if vdScope v = [] then ScopeOnce else vdScope v))"

text \<open>The payload of a confirmation: none, something that is not a verdict record, or one.\<close>

datatype payload = NoPayload | NotAVerdict | APayload verdict

record confirmation =
  cfConfirmed :: bool
  cfPayload :: payload

definition DecodeVerdict :: "confirmation \<Rightarrow> verdict option" where
  "DecodeVerdict c =
     (case (case cfPayload c of NoPayload \<Rightarrow> Some verdict0 | NotAVerdict \<Rightarrow> None | APayload v \<Rightarrow> Some v) of
        None \<Rightarrow> None
      | Some v \<Rightarrow>
          if vdVerdict v = [] then Some (v\<lparr>vdVerdict := (if cfConfirmed c then OutcomeApprove else OutcomeReject)\<rparr>)
          else if vdVerdict v = OutcomeApprove \<or> vdVerdict v = OutcomeEdit
          then (if cfConfirmed c then Some v else None)
          else if vdVerdict v = OutcomeReject then (if cfConfirmed c then None else Some v)
          else None)"

definition ConfirmationResponse :: "verdict \<Rightarrow> confirmation" where
  "ConfirmationResponse v = \<lparr>cfConfirmed = (vdVerdict v \<noteq> OutcomeReject), cfPayload = APayload v\<rparr>"

section \<open>Arguments against a schema (edit.go)\<close>

text \<open>A schema is its declared properties and what the validator says of a value.\<close>

record schema =
  scProperties :: "string list"
  scValid :: "args \<Rightarrow> bool"

definition checkDeclaredKeys :: "schema \<Rightarrow> args \<Rightarrow> bool" where
  "checkDeclaredKeys s as \<longleftrightarrow> scProperties s = [] \<or> list_all (\<lambda>k. k \<in> set (scProperties s)) (map fst as)"

definition NormalizeArgs :: "json_codec \<Rightarrow> schema option \<Rightarrow> args \<Rightarrow> args option" where
  "NormalizeArgs j so as =
     (case so of
        None \<Rightarrow> None
      | Some s \<Rightarrow>
          (case cdNormal j as of
             None \<Rightarrow> None
           | Some norm \<Rightarrow> if checkDeclaredKeys s norm \<and> scValid s norm then Some norm else None))"

definition normalizeEdit :: "json_codec \<Rightarrow> schema option \<Rightarrow> args \<Rightarrow> args option" where
  "normalizeEdit j so edited = (if edited = [] then None else NormalizeArgs j so edited)"

section \<open>Change sets (changeset.go)\<close>

record proposed_change =
  pcTool :: string
  pcArguments :: args

definition Change_Signature :: "json_codec \<Rightarrow> proposed_change \<Rightarrow> string option" where
  "Change_Signature j c = Signature j (pcTool c) (pcArguments c)"

definition ChangeSetField :: string where "ChangeSetField = ''proposed_change''"
definition ChangeSetStateKeyPrefix :: string where "ChangeSetStateKeyPrefix = ''mast_change_set_''"

definition ChangeSetStateKey :: "string \<Rightarrow> string" where
  "ChangeSetStateKey specialist = ChangeSetStateKeyPrefix @ specialist"

text \<open>Decoding a value as a list of changes is an argument; \<open>None\<close> is a decoding error.\<close>

definition ParseChangeSet :: "(json \<Rightarrow> proposed_change list option) \<Rightarrow> args \<Rightarrow> proposed_change list option" where
  "ParseChangeSet decode report =
     (case map_of report ChangeSetField of None \<Rightarrow> Some [] | Some v \<Rightarrow> decode v)"

record change_set_checker =
  ckDeclares :: "string \<Rightarrow> bool"
  ckSchema :: "string \<Rightarrow> string + schema option"

fun Checker_Check :: "json_codec \<Rightarrow> change_set_checker \<Rightarrow> proposed_change list \<Rightarrow> proposed_change list option" where
  "Checker_Check j ck [] = Some []"
| "Checker_Check j ck (ch # chs) =
     (let name = TrimSpace (pcTool ch)
      in if name = [] then None
         else if \<not> ckDeclares ck name then None
         else case ckSchema ck name of
             Inl _ \<Rightarrow> None
           | Inr so \<Rightarrow>
               (case NormalizeArgs j so (pcArguments ch) of
                  None \<Rightarrow> None
                | Some norm \<Rightarrow> map_option (Cons \<lparr>pcTool = name, pcArguments = norm\<rparr>) (Checker_Check j ck chs)))"

definition elided :: "json_codec \<Rightarrow> json \<Rightarrow> bool" where
  "elided j v =
     (case v of
        JString s \<Rightarrow> maxValueLen < length s
      | _ \<Rightarrow> (case cdEncode j v of None \<Rightarrow> True | Some b \<Rightarrow> maxValueLen < length b))"

definition Legible :: "json_codec \<Rightarrow> proposed_change list \<Rightarrow> bool" where
  "Legible j changes \<longleftrightarrow> list_all (\<lambda>ch. list_all (\<lambda>kv. \<not> elided j (snd kv)) (pcArguments ch)) changes"

section \<open>Grants and their freshness (grant.go)\<close>

fun lookup_segments :: "json \<Rightarrow> string list \<Rightarrow> json option" where
  "lookup_segments cur [] = Some cur"
| "lookup_segments cur (seg # segs) =
     (case cur of
        JObject kvs \<Rightarrow> (case map_of kvs seg of None \<Rightarrow> None | Some v \<Rightarrow> lookup_segments v segs)
      | _ \<Rightarrow> None)"

fun split_dot :: "string \<Rightarrow> string list" where
  "split_dot [] = [[]]"
| "split_dot (c # s) =
     (if c = CHR ''.'' then [] # split_dot s
      else case split_dot s of [] \<Rightarrow> [[c]] | x # xs \<Rightarrow> (c # x) # xs)"

definition lookupPath :: "args \<Rightarrow> string \<Rightarrow> json option" where
  "lookupPath m path = lookup_segments (JObject m) (split_dot path)"

fun digest_fields :: "json_codec \<Rightarrow> args \<Rightarrow> string list \<Rightarrow> (string, string) gomap option" where
  "digest_fields j result [] = Some []"
| "digest_fields j result (path # paths) =
     (case lookupPath result path of
        None \<Rightarrow> None
      | Some v \<Rightarrow>
          (case cdEncode j v of
             None \<Rightarrow> None
           | Some rendered \<Rightarrow> map_option (AList.update path rendered) (digest_fields j result paths)))"

definition digestResult :: "json_codec \<Rightarrow> args \<Rightarrow> string list \<Rightarrow> (string \<times> (string, string) gomap) option" where
  "digestResult j result paths =
     (case cdEncode j (JObject result) of
        None \<Rightarrow> None
      | Some raw \<Rightarrow> map_option (Pair (take 16 (cdSum j raw))) (digest_fields j result paths))"

record precondition =
  pnRead :: string
  pnArgs :: args
  pnArgsFrom :: "(string, string) gomap"
  pnFields :: "string list"

record snapshot =
  snRead :: string
  snArgs :: args
  snDigest :: string
  snFields :: "(string, string) gomap"

fun args_from :: "(string, string) gomap \<Rightarrow> args \<Rightarrow> args \<Rightarrow> args option" where
  "args_from [] as out = Some out"
| "args_from ((readArg, changeArg) # rest) as out =
     (case map_of as changeArg of
        None \<Rightarrow> None
      | Some v \<Rightarrow> args_from rest as (AList.update readArg v out))"

definition precondition_readArgs :: "precondition \<Rightarrow> args \<Rightarrow> args option" where
  "precondition_readArgs p as =
     (if TrimSpace (pnRead p) = [] then None else args_from (pnArgsFrom p) as (pnArgs p))"

text \<open>
  The clock reading and the answers of the declarations and reads during one call. \<open>frRead\<close> is
  \<open>None\<close> for a deployment that cannot read on its own behalf.
\<close>

record freshness =
  frTTL :: duration
  frNow :: gotime
  frPrecondition :: "(string \<Rightarrow> string + precondition option) option"
  frRead :: "(string \<Rightarrow> args \<Rightarrow> string + args) option"

definition DefaultGrantTTL :: duration where "DefaultGrantTTL = 10 * 60 * 1000000000"

definition fr_ttl :: "freshness \<Rightarrow> duration" where
  "fr_ttl f = (if frTTL f \<le> 0 then DefaultGrantTTL else frTTL f)"

definition fr_snapshot :: "json_codec \<Rightarrow> freshness \<Rightarrow> proposed_change \<Rightarrow> snapshot option option" where
  "fr_snapshot j f ch =
     (case frPrecondition f of
        None \<Rightarrow> Some None
      | Some pre_of \<Rightarrow>
          (case pre_of (pcTool ch) of
             Inl _ \<Rightarrow> None
           | Inr None \<Rightarrow> Some None
           | Inr (Some pre) \<Rightarrow>
               (case precondition_readArgs pre (pcArguments ch) of
                  None \<Rightarrow> None
                | Some as \<Rightarrow>
                    (case frRead f of
                       None \<Rightarrow> None
                     | Some read \<Rightarrow>
                         (case read (pnRead pre) as of
                            Inl _ \<Rightarrow> None
                          | Inr result \<Rightarrow>
                              (case digestResult j result (pnFields pre) of
                                 None \<Rightarrow> None
                               | Some (digest, fs) \<Rightarrow>
                                   Some (Some \<lparr>snRead = pnRead pre, snArgs = as, snDigest = digest, snFields = fs\<rparr>)))))))"

text \<open>Why an approval no longer covers its call.\<close>

datatype stale =
    StaleUnreadable
  | StaleVoided stale
  | StaleSpent
  | StaleExpired gotime gotime
  | StalePrecondition

definition fr_verify :: "json_codec \<Rightarrow> freshness \<Rightarrow> snapshot option \<Rightarrow> string \<Rightarrow> bool" where
  "fr_verify j f snap tool =
     (case snap of
        None \<Rightarrow> True
      | Some s \<Rightarrow>
          (case (frRead f, frPrecondition f) of
             (Some read, Some pre_of) \<Rightarrow>
               (case pre_of tool of
                  Inr (Some pre) \<Rightarrow>
                    (case read (snRead s) (snArgs s) of
                       Inl _ \<Rightarrow> False
                     | Inr result \<Rightarrow>
                         (case digestResult j result (pnFields pre) of
                            None \<Rightarrow> False
                          | Some (digest, _) \<Rightarrow> digest = snDigest s))
                | _ \<Rightarrow> False)
           | _ \<Rightarrow> False))"

record cs_grant =
  cgSignature :: string
  cgTool :: string
  cgArguments :: args
  cgOrigin :: string
  cgApprover :: string
  cgNote :: string
  cgMintedAt :: gotime
  cgExpiresAt :: gotime
  cgPrecondition :: "snapshot option"
  cgConsumedBy :: string
  cgVoidedBy :: "stale option"

definition Spent :: "cs_grant \<Rightarrow> string \<Rightarrow> bool" where
  "Spent g callID \<longleftrightarrow> cgVoidedBy g \<noteq> None \<or> (cgConsumedBy g \<noteq> [] \<and> cgConsumedBy g \<noteq> callID)"

definition GrantStateKeyPrefix :: string where "GrantStateKeyPrefix = ''mast_change_grant_''"

definition GrantStateKey :: "json_codec \<Rightarrow> string \<Rightarrow> string" where
  "GrantStateKey j sig = GrantStateKeyPrefix @ take 32 (cdSum j sig)"

section \<open>Prior state (capture.go)\<close>

record revert =
  rvCall :: string
  rvArgs :: args
  rvArgsFromChange :: "(string, string) gomap"
  rvArgsFromCapture :: "(string, string) gomap"

record capture =
  cpRead :: string
  cpArgs :: args
  cpArgsFrom :: "(string, string) gomap"
  cpFields :: "string list"
  cpRevert :: "revert option"

record capture_record =
  crTool :: string
  crKey :: string
  crArguments :: args
  crCapturedAt :: gotime
  crRead :: string
  crReadArgs :: args
  crPrior :: args
  crPriorFields :: "string list"
  crDigest :: string
  crRevert :: "proposed_change option"
  crWorkload :: string
  crSpecialist :: string
  crSession :: string
  crInvocation :: string
  crCallID :: string

record capture_rules =
  csFor :: "(string \<Rightarrow> string + capture option) option"
  csRead :: "(string \<Rightarrow> args \<Rightarrow> string + args option) option"
  csSchema :: "(string \<Rightarrow> string + schema option) option"
  csNow :: gotime

definition capture_readArgs :: "capture \<Rightarrow> args \<Rightarrow> args option" where
  "capture_readArgs c as = (if TrimSpace (cpRead c) = [] then None else args_from (cpArgsFrom c) as (cpArgs c))"

fun prior_fields :: "args \<Rightarrow> string list \<Rightarrow> args \<Rightarrow> args option" where
  "prior_fields result [] out = Some out"
| "prior_fields result (path # paths) out =
     (case lookupPath result path of None \<Rightarrow> None | Some v \<Rightarrow> prior_fields result paths (AList.update path v out))"

definition capture_prior :: "capture \<Rightarrow> args \<Rightarrow> args option" where
  "capture_prior c result = (if cpFields c = [] then Some result else prior_fields result (cpFields c) [])"

definition resultDigest :: "json_codec \<Rightarrow> args \<Rightarrow> string" where
  "resultDigest j result = (case cdEncode j (JObject result) of None \<Rightarrow> [] | Some raw \<Rightarrow> take 16 (cdSum j raw))"

fun args_from_capture :: "(string, string) gomap \<Rightarrow> args \<Rightarrow> args \<Rightarrow> args option" where
  "args_from_capture [] result out = Some out"
| "args_from_capture ((revertArg, path) # rest) result out =
     (case lookupPath result path of
        None \<Rightarrow> None
      | Some v \<Rightarrow> args_from_capture rest result (AList.update revertArg v out))"

definition capture_revert ::
  "json_codec \<Rightarrow> capture_rules \<Rightarrow> args \<Rightarrow> args \<Rightarrow> revert \<Rightarrow> proposed_change option" where
  "capture_revert j cs as result r =
     (let call = TrimSpace (rvCall r)
      in if call = [] then None
         else case args_from (rvArgsFromChange r) as (rvArgs r) of
             None \<Rightarrow> None
           | Some out1 \<Rightarrow>
               (case args_from_capture (rvArgsFromCapture r) result out1 of
                  None \<Rightarrow> None
                | Some out \<Rightarrow>
                    (case csSchema cs of
                       None \<Rightarrow> None
                     | Some schema_of \<Rightarrow>
                         (case schema_of call of
                            Inl _ \<Rightarrow> None
                          | Inr so \<Rightarrow>
                              map_option (\<lambda>norm. \<lparr>pcTool = call, pcArguments = norm\<rparr>) (NormalizeArgs j so out)))))"

definition capture_take ::
  "json_codec \<Rightarrow> capture_rules \<Rightarrow> string \<Rightarrow> string \<Rightarrow> args \<Rightarrow> capture \<Rightarrow> capture_record option" where
  "capture_take j cs tool key as decl =
     (case capture_readArgs decl as of
        None \<Rightarrow> None
      | Some readArgs \<Rightarrow>
          (case csRead cs of
             None \<Rightarrow> None
           | Some read \<Rightarrow>
               (case read (cpRead decl) readArgs of
                  Inl _ \<Rightarrow> None
                | Inr None \<Rightarrow> None
                | Inr (Some result) \<Rightarrow>
                    (case capture_prior decl result of
                       None \<Rightarrow> None
                     | Some prior \<Rightarrow>
                         (let cr = \<lparr>crTool = tool, crKey = key, crArguments = as, crCapturedAt = csNow cs,
                              crRead = cpRead decl, crReadArgs = readArgs, crPrior = prior, crPriorFields = cpFields decl,
                              crDigest = resultDigest j result, crRevert = None, crWorkload = [], crSpecialist = [],
                              crSession = [], crInvocation = [], crCallID = []\<rparr>
                          in case cpRevert decl of
                               None \<Rightarrow> Some cr
                             | Some r \<Rightarrow>
                                 (case capture_revert j cs as result r of
                                    None \<Rightarrow> None
                                  | Some ch \<Rightarrow> Some (cr\<lparr>crRevert := Some ch\<rparr>)))))))"

section \<open>What is refused in a turn (suppress.go)\<close>

definition suppressedCallsEndTurn :: int where "suppressedCallsEndTurn = 3"

record turn_refusals =
  trRefused :: "string list"
  trSuppressed :: int

type_synonym refusals = "(string, turn_refusals) gomap"

definition remember :: "string \<Rightarrow> string \<Rightarrow> refusals \<Rightarrow> refusals" where
  "remember iid key r =
     (if iid = [] then r
      else let t = (case map_of r iid of None \<Rightarrow> \<lparr>trRefused = [], trSuppressed = 0\<rparr> | Some t \<Rightarrow> t)
           in AList.update iid (t\<lparr>trRefused := List.insert key (trRefused t)\<rparr>) r)"

text \<open>Whether the call is suppressed, whether the turn ends, how many were suppressed.\<close>

definition suppress :: "string \<Rightarrow> string \<Rightarrow> refusals \<Rightarrow> (bool \<times> bool \<times> int) \<times> refusals" where
  "suppress iid key r =
     (if iid = [] then ((False, False, 0), r)
      else case map_of r iid of
          None \<Rightarrow> ((False, False, 0), r)
        | Some t \<Rightarrow>
            if key \<notin> set (trRefused t) then ((False, False, 0), r)
            else let n = trSuppressed t + 1
                 in ((True, suppressedCallsEndTurn \<le> n, n), AList.update iid (t\<lparr>trSuppressed := n\<rparr>) r))"

definition forget :: "string \<Rightarrow> refusals \<Rightarrow> refusals" where
  "forget iid r = (if iid = [] then r else AList.delete iid r)"

section \<open>Records (decision.go, edit.go)\<close>

datatype disposition = DispositionAuthorized | DispositionRefusedByOperator | DispositionRefusedByMast
datatype authority = AuthorityVerdict | AuthorityChangeSetGrant

record decision_record =
  dcWorkload :: string
  dcSession :: string
  dcSpecialist :: string
  dcInvocation :: string
  dcCallID :: string
  dcTool :: string
  dcOutcome :: string
  dcScope :: string
  dcAuthority :: authority
  dcDisposition :: disposition
  dcRefusal :: string
  dcChangeSet :: string
  dcProposedKey :: string
  dcProposedArgs :: args
  dcExecutedKey :: string
  dcExecutedArgs :: args
  dcApprover :: string
  dcNote :: string

record applied_edit =
  aeTool :: string
  aeApprover :: string
  aeProposedKey :: string
  aeExecutedKey :: string
  aeProposedArgs :: args
  aeExecutedArgs :: args
  aeNote :: string

definition DecisionStateKey :: "string \<Rightarrow> string" where "DecisionStateKey callID = ''mast_decision_'' @ callID"
definition EditStateKey :: "string \<Rightarrow> string" where "EditStateKey callID = ''mast_approval_edit_'' @ callID"
definition CaptureStateKey :: "string \<Rightarrow> string" where "CaptureStateKey callID = ''mast_effect_capture_'' @ callID"

datatype st_val =
    VChanges "proposed_change list"
  | VGrant cs_grant
  | VCapture capture_record
  | VDecision decision_record
  | VEdit applied_edit
  | VOther string

type_synonym state = "(string, st_val) gomap"

definition DecodeGrant :: "st_val \<Rightarrow> cs_grant option" where
  "DecodeGrant v = (case v of VGrant g \<Rightarrow> Some g | _ \<Rightarrow> None)"

definition DecodeChangeSet :: "st_val \<Rightarrow> proposed_change list option" where
  "DecodeChangeSet v = (case v of VChanges cs \<Rightarrow> Some cs | _ \<Rightarrow> None)"

section \<open>The write gate (plugin.go, grantgate.go)\<close>

definition OnMutationRequireApproval :: string where "OnMutationRequireApproval = ''require_approval''"
definition OnMutationApply :: string where "OnMutationApply = ''apply''"
definition OnMutationDryRun :: string where "OnMutationDryRun = ''dry_run''"

definition policy_Valid :: "string \<Rightarrow> bool" where
  "policy_Valid p \<longleftrightarrow> p \<in> {OnMutationRequireApproval, OnMutationApply, OnMutationDryRun}"

record gate_config =
  gcPolicy :: string
  gcMutating :: "string \<Rightarrow> bool"
  gcChangeSet :: "change_set_checker option"
  gcGrants :: "freshness option"
  gcCaptures :: "capture_rules option"
  gcWorkload :: string

text \<open>The permission gate is \<open>None\<close> where the configuration has none.\<close>

record write_gate =
  wgGate :: "gate option"
  wgShared :: shared
  wgRefused :: refusals

datatype gate_config_error = BadPolicy | NoPredicate | NoGate

definition newWriteGate ::
  "gate_config \<Rightarrow> bool \<Rightarrow> gate option \<Rightarrow> shared \<Rightarrow> gate_config_error + write_gate" where
  "newWriteGate cfg hasMutating g sh =
     (if \<not> policy_Valid (gcPolicy cfg) then Inl BadPolicy
      else if \<not> hasMutating then Inl NoPredicate
      else if gcPolicy cfg = OnMutationRequireApproval \<and> g = None then Inl NoGate
      else Inr \<lparr>wgGate = g, wgShared = sh, wgRefused = []\<rparr>)"

text \<open>
  The context of one call: its identity, the operator's answer if it is a resumed call, the session
  state, the order in which this call ranges over the change sets of the state, whether parking the
  call fails, the tool's own input schema, how a report's value decodes as changes, the outside
  of the permission gate, and which records reach the call's event: a record whose encoding fails is
  dropped, and all are where the event has no actions.
\<close>

record call_context =
  cxSession :: string
  cxInvocation :: string
  cxCallID :: string
  cxAgent :: string
  cxConfirmation :: "confirmation option"
  cxState :: state
  cxRange :: "(string \<times> proposed_change list) list \<Rightarrow> (string \<times> proposed_change list) list"
  cxParkFails :: bool
  cxSchema :: "schema option"
  cxDecode :: "json \<Rightarrow> proposed_change list option"
  cxOutside :: outside
  cxRecords :: "string \<Rightarrow> st_val \<Rightarrow> bool"

definition put_record :: "call_context \<Rightarrow> string \<Rightarrow> st_val \<Rightarrow> state \<Rightarrow> state" where
  "put_record cx k v delta = (if cxRecords cx k v then AList.update k v delta else delta)"

text \<open>What the parked question shows the operator of the change set the call belongs to; the time to
  live is shown in seconds.\<close>

datatype precondition_note = NoneDeclared | DeclaredUnreadable | Rechecked string

record shown_set =
  ssSpecialist :: string
  ssChanges :: "proposed_change list"
  ssGrantable :: bool
  ssTTL :: duration
  ssPreconditions :: "(string, precondition_note) gomap"

text \<open>
  What becomes of a call: it runs with these arguments, is answered with a refusal, with the report
  of a dry run, with the notice that it is parked (why an earlier approval was not used, and the change set the
  question shows), with
  the reminder that it was refused (the count, and whether the turn ends), or the callback fails.
\<close>

datatype answer =
    Run args
  | Refusal string
  | DryRun
  | Parked "stale option" "shown_set option"
  | AlreadyRefused int bool
  | Fails
  | Panics

type_synonym gate_answer = "answer \<times> write_gate \<times> state"

definition recordedChangeSets :: "call_context \<Rightarrow> (string \<times> proposed_change list) list" where
  "recordedChangeSets cx =
     List.map_filter (\<lambda>(k, v).
       if \<not> HasPrefix k ChangeSetStateKeyPrefix then None
       else case DecodeChangeSet v of
           None \<Rightarrow> None
         | Some [] \<Rightarrow> None
         | Some changes \<Rightarrow> Some (TrimPrefix k ChangeSetStateKeyPrefix, changes)) (cxState cx)"

definition changeSetFor :: "json_codec \<Rightarrow> call_context \<Rightarrow> string \<Rightarrow> (string \<times> proposed_change list) option" where
  "changeSetFor j cx sig =
     find (\<lambda>(name, changes). list_ex (\<lambda>ch. Change_Signature j ch = Some sig) changes)
       (cxRange cx (recordedChangeSets cx))"

definition checkGrant ::
  "json_codec \<Rightarrow> gate_config \<Rightarrow> call_context \<Rightarrow> string \<Rightarrow> args \<Rightarrow> cs_grant option \<times> stale option" where
  "checkGrant j cfg cx name as =
     (case gcGrants cfg of
        None \<Rightarrow> (None, None)
      | Some f \<Rightarrow>
          (case Signature j name as of
             None \<Rightarrow> (None, None)
           | Some sig \<Rightarrow>
               (case map_of (cxState cx) (GrantStateKey j sig) of
                  None \<Rightarrow> (None, None)
                | Some raw \<Rightarrow>
                    (case DecodeGrant raw of
                       None \<Rightarrow> (None, Some StaleUnreadable)
                     | Some g \<Rightarrow>
                         if cgSignature g \<noteq> sig then (None, None)
                         else case cgVoidedBy g of
                             Some why \<Rightarrow> (None, Some (StaleVoided why))
                           | None \<Rightarrow>
                               if cgConsumedBy g \<noteq> [] \<and> cgConsumedBy g \<noteq> cxCallID cx then (None, Some StaleSpent)
                               else if cgExpiresAt g \<noteq> 0 \<and> cgExpiresAt g < frNow f
                               then (None, Some (StaleExpired (cgMintedAt g) (cgExpiresAt g)))
                               else if \<not> fr_verify j f (cgPrecondition g) name then (None, Some StalePrecondition)
                               else (Some g, None)))))"

definition writeGrant :: "json_codec \<Rightarrow> call_context \<Rightarrow> cs_grant \<Rightarrow> state \<Rightarrow> state" where
  "writeGrant j cx g delta = put_record cx (GrantStateKey j (cgSignature g)) (VGrant g) delta"

definition voidGrant :: "json_codec \<Rightarrow> gate_config \<Rightarrow> call_context \<Rightarrow> string \<Rightarrow> args \<Rightarrow> stale \<Rightarrow> state" where
  "voidGrant j cfg cx name as why =
     (if gcGrants cfg = None then []
      else case Signature j name as of
          None \<Rightarrow> []
        | Some sig \<Rightarrow>
            (case map_of (cxState cx) (GrantStateKey j sig) of
               None \<Rightarrow> []
             | Some raw \<Rightarrow>
                 (case DecodeGrant raw of
                    None \<Rightarrow> []
                  | Some g \<Rightarrow>
                      if cgSignature g \<noteq> sig \<or> cgVoidedBy g \<noteq> None then []
                      else writeGrant j cx (g\<lparr>cgVoidedBy := Some why\<rparr>) [])))"

fun mint ::
  "json_codec \<Rightarrow> freshness \<Rightarrow> string \<Rightarrow> string \<Rightarrow> verdict \<Rightarrow> proposed_change list \<Rightarrow> cs_grant list option" where
  "mint j f sig key v [] = Some []"
| "mint j f sig key v (ch # chs) =
     (case Change_Signature j ch of
        None \<Rightarrow> None
      | Some chSig \<Rightarrow>
          if chSig = sig then mint j f sig key v chs
          else case fr_snapshot j f ch of
              None \<Rightarrow> None
            | Some snap \<Rightarrow>
                map_option (Cons \<lparr>cgSignature = chSig, cgTool = pcTool ch, cgArguments = pcArguments ch, cgOrigin = key,
                    cgApprover = vdApprover v, cgNote = vdNote v, cgMintedAt = frNow f, cgExpiresAt = frNow f + fr_ttl f,
                    cgPrecondition = snap, cgConsumedBy = [], cgVoidedBy = None\<rparr>) (mint j f sig key v chs))"

definition toolNames :: "proposed_change list \<Rightarrow> string list" where
  "toolNames changes = sort (remdups (map pcTool changes))"

definition precondition_note :: "freshness \<Rightarrow> string \<Rightarrow> precondition_note" where
  "precondition_note f name =
     (case frPrecondition f of
        None \<Rightarrow> NoneDeclared
      | Some pre_of \<Rightarrow>
          (case pre_of name of
             Inl _ \<Rightarrow> DeclaredUnreadable
           | Inr None \<Rightarrow> NoneDeclared
           | Inr (Some pre) \<Rightarrow> Rechecked (pnRead pre)))"

definition changeSetContextFor ::
  "json_codec \<Rightarrow> gate_config \<Rightarrow> call_context \<Rightarrow> string \<Rightarrow> args \<Rightarrow> shown_set option" where
  "changeSetContextFor j cfg cx name as =
     (case gcGrants cfg of
        None \<Rightarrow> None
      | Some f \<Rightarrow>
          (case Signature j name as of
             None \<Rightarrow> None
           | Some sig \<Rightarrow>
               (case changeSetFor j cx sig of
                  None \<Rightarrow> None
                | Some (specialist, changes) \<Rightarrow>
                    (let notes = map (\<lambda>n. (n, precondition_note f n)) (toolNames changes)
                     in Some \<lparr>ssSpecialist = specialist, ssChanges = changes,
                          ssGrantable = (Legible j changes \<and> DeclaredUnreadable \<notin> snd ` set notes),
                          ssTTL = fr_ttl f, ssPreconditions = notes\<rparr>))))"

text \<open>\<open>None\<close> is the refusal of the whole verdict.\<close>

definition planGrants ::
  "json_codec \<Rightarrow> gate_config \<Rightarrow> call_context \<Rightarrow> string \<Rightarrow> string \<Rightarrow> args \<Rightarrow> verdict \<Rightarrow> cs_grant list option" where
  "planGrants j cfg cx name key as v =
     (case gcGrants cfg of
        None \<Rightarrow> None
      | Some f \<Rightarrow>
          if vdVerdict v = OutcomeEdit then None
          else case Signature j name as of
              None \<Rightarrow> None
            | Some sig \<Rightarrow>
                (case changeSetFor j cx sig of
                   None \<Rightarrow> None
                 | Some (_, changes) \<Rightarrow> if \<not> Legible j changes then None else mint j f sig key v changes))"

definition commitGrants :: "json_codec \<Rightarrow> call_context \<Rightarrow> cs_grant list \<Rightarrow> state \<Rightarrow> state" where
  "commitGrants j cx pending delta = foldl (\<lambda>d g. writeGrant j cx g d) delta pending"

definition recordChangeSet :: "call_context \<Rightarrow> proposed_change list \<Rightarrow> state" where
  "recordChangeSet cx changes = put_record cx (ChangeSetStateKey (cxAgent cx)) (VChanges changes) []"

definition approval_FinishTaskToolName :: string where "approval_FinishTaskToolName = ''finish_task''"

text \<open>\<open>None\<close> is the refused report; otherwise what it writes.\<close>

definition checkChangeSet :: "json_codec \<Rightarrow> gate_config \<Rightarrow> call_context \<Rightarrow> string \<Rightarrow> args \<Rightarrow> state option" where
  "checkChangeSet j cfg cx name as =
     (case gcChangeSet cfg of
        None \<Rightarrow> Some []
      | Some ck \<Rightarrow>
          if name \<noteq> approval_FinishTaskToolName then Some []
          else case ParseChangeSet (cxDecode cx) as of
              None \<Rightarrow> None
            | Some [] \<Rightarrow> Some []
            | Some changes \<Rightarrow>
                (case Checker_Check j ck changes of
                   None \<Rightarrow> None
                 | Some [] \<Rightarrow> Some []
                 | Some checked \<Rightarrow> Some (recordChangeSet cx checked)))"

text \<open>The refusal that stops an authorized call, if any, and what it writes.\<close>

definition permit ::
  "json_codec \<Rightarrow> gate_config \<Rightarrow> call_context \<Rightarrow> string \<Rightarrow> string \<Rightarrow> args \<Rightarrow> state \<Rightarrow> string option \<times> state" where
  "permit j cfg cx name key as delta =
     (case gcCaptures cfg of
        None \<Rightarrow> (None, delta)
      | Some cs \<Rightarrow>
          (case csFor cs of
             None \<Rightarrow> (None, delta)
           | Some decl_of \<Rightarrow>
               (case decl_of name of
                  Inl _ \<Rightarrow> (Some ''capture_failed'', delta)
                | Inr None \<Rightarrow> (None, delta)
                | Inr (Some decl) \<Rightarrow>
                    (case capture_take j cs name key as decl of
                       None \<Rightarrow> (Some ''capture_failed'', delta)
                     | Some cr \<Rightarrow>
                         (None, put_record cx (CaptureStateKey (cxCallID cx))
                            (VCapture (cr\<lparr>crWorkload := gcWorkload cfg, crSpecialist := cxAgent cx, crSession := cxSession cx,
                               crInvocation := cxInvocation cx, crCallID := cxCallID cx\<rparr>)) delta)))))"

definition newDecision :: "gate_config \<Rightarrow> call_context \<Rightarrow> string \<Rightarrow> string \<Rightarrow> args \<Rightarrow> decision_record" where
  "newDecision cfg cx name key as =
     \<lparr>dcWorkload = gcWorkload cfg, dcSession = cxSession cx, dcSpecialist = cxAgent cx, dcInvocation = cxInvocation cx,
      dcCallID = cxCallID cx, dcTool = name, dcOutcome = [], dcScope = [], dcAuthority = AuthorityVerdict,
      dcDisposition = DispositionAuthorized, dcRefusal = [], dcChangeSet = [], dcProposedKey = key, dcProposedArgs = as,
      dcExecutedKey = [], dcExecutedArgs = [], dcApprover = [], dcNote = []\<rparr>"

definition with_verdict :: "verdict \<Rightarrow> decision_record \<Rightarrow> decision_record" where
  "with_verdict v r =
     r\<lparr>dcOutcome := vdVerdict v, dcScope := vdScope v, dcApprover := vdApprover v, dcNote := vdNote v\<rparr>"

definition recordDecision :: "call_context \<Rightarrow> decision_record \<Rightarrow> answer \<Rightarrow> state \<Rightarrow> state" where
  "recordDecision cx r out delta =
     (let r1 = (case out of
            Run _ \<Rightarrow> r\<lparr>dcDisposition := DispositionAuthorized\<rparr>
          | Refusal code \<Rightarrow>
              (if dcOutcome r = OutcomeReject
               then r\<lparr>dcDisposition := DispositionRefusedByOperator, dcRefusal := code\<rparr>
               else r\<lparr>dcDisposition := DispositionRefusedByMast, dcRefusal := code\<rparr>)
          | _ \<Rightarrow> r\<lparr>dcDisposition := DispositionRefusedByMast, dcRefusal := ''gate_error''\<rparr>)
      in put_record cx (DecisionStateKey (cxCallID cx)) (VDecision r1) delta)"

text \<open>Asking the permission gate; a method of a gate that is not there panics.\<close>

definition policy_answer :: "call_context \<Rightarrow> write_gate \<Rightarrow> string \<Rightarrow> string \<Rightarrow> perm_error option" where
  "policy_answer cx st name key =
     map_option (CheckMutatingToolCall (cxOutside cx) name key (wgShared st)) (wgGate st)"

definition policy_verdict ::
  "write_gate \<Rightarrow> string \<Rightarrow> string \<Rightarrow> decision \<Rightarrow> (perm_error option \<times> write_gate) option" where
  "policy_verdict st name key d =
     (case wgGate st of
        Some g \<Rightarrow> (let (err, g') = RecordMutationVerdict name key d g in Some (err, st\<lparr>wgGate := Some g'\<rparr>))
      | None \<Rightarrow>
          (case d of
             DecisionDeny \<Rightarrow> Some (Some ErrUserDenied, st)
           | DecisionAllowOnce \<Rightarrow> None
           | _ \<Rightarrow> Some (Some (ErrGrantScopeRefused d), st)))"

datatype edit_result = Unedited | Edited args | EditRefused string | EditPanics

definition prepareEdit :: "json_codec \<Rightarrow> call_context \<Rightarrow> write_gate \<Rightarrow> string \<Rightarrow> verdict \<Rightarrow> edit_result" where
  "prepareEdit j cx st name v =
     (if vdApprover v = [] then EditRefused ''edit_unattributed''
      else case normalizeEdit j (cxSchema cx) (vdArgs v) of
          None \<Rightarrow> EditRefused ''edit_refused''
        | Some norm \<Rightarrow>
            (case policy_answer cx st name (CallKey j name norm) of
               None \<Rightarrow> EditPanics
             | Some err \<Rightarrow> if err = ErrApprovalRequired then Edited norm else EditRefused ''denied_by_policy''))"

definition edit_of :: "edit_result \<Rightarrow> args option" where
  "edit_of e = (case e of Edited norm \<Rightarrow> Some norm | _ \<Rightarrow> None)"

definition decided :: "call_context \<Rightarrow> decision_record \<Rightarrow> answer \<Rightarrow> write_gate \<Rightarrow> state \<Rightarrow> gate_answer" where
  "decided cx r out st delta = (out, st, recordDecision cx r out delta)"

text \<open>The part of \<^verbatim>\<open>honorVerdict\<close> after the permission gate accepted the verdict.\<close>

definition carry_out ::
  "json_codec \<Rightarrow> gate_config \<Rightarrow> call_context \<Rightarrow> string \<Rightarrow> string \<Rightarrow> string \<Rightarrow> args \<Rightarrow> args option \<Rightarrow> verdict \<Rightarrow>
   cs_grant list \<Rightarrow> decision_record \<Rightarrow> write_gate \<Rightarrow> gate_answer" where
  "carry_out j cfg cx name key effKey as edited v pending r st =
     (let d1 = (if vdScope v = ScopeChangeSet then commitGrants j cx pending [] else []);
          running = (case edited of None \<Rightarrow> as | Some e \<Rightarrow> e)
      in case permit j cfg cx name effKey running d1 of
           (Some code, d2) \<Rightarrow> decided cx r (Refusal code) st d2
         | (None, d2) \<Rightarrow>
             (case edited of
                None \<Rightarrow> decided cx r (Run as) st d2
              | Some e \<Rightarrow>
                  decided cx r (Run e) st
                    (put_record cx (EditStateKey (cxCallID cx))
                       (VEdit \<lparr>aeTool = name, aeApprover = vdApprover v, aeProposedKey = key, aeExecutedKey = effKey,
                          aeProposedArgs = as, aeExecutedArgs = e, aeNote = vdNote v\<rparr>) d2)))"

definition verdict_refused :: "call_context \<Rightarrow> string \<Rightarrow> perm_error \<Rightarrow> decision_record \<Rightarrow> write_gate \<Rightarrow> gate_answer" where
  "verdict_refused cx effKey err r st =
     (case err of
        ErrGrantScopeRefused _ \<Rightarrow> decided cx r (Refusal ''approval_scope_refused'') st []
      | _ \<Rightarrow> decided cx r (Refusal ''denied_by_operator'')
               (st\<lparr>wgRefused := remember (cxInvocation cx) effKey (wgRefused st)\<rparr>) [])"

definition honorVerdict ::
  "json_codec \<Rightarrow> gate_config \<Rightarrow> call_context \<Rightarrow> write_gate \<Rightarrow> string \<Rightarrow> string \<Rightarrow> args \<Rightarrow> confirmation \<Rightarrow> gate_answer" where
  "honorVerdict j cfg cx st name key as c =
     (let r0 = newDecision cfg cx name key as
      in case DecodeVerdict c of
           None \<Rightarrow> decided cx r0 (Refusal ''malformed_verdict'') st []
         | Some v \<Rightarrow>
             (let r1 = with_verdict v r0;
                  e = (if vdVerdict v = OutcomeEdit then prepareEdit j cx st name v else Unedited);
                  edited = edit_of e;
                  effKey = (case edited of None \<Rightarrow> key | Some n \<Rightarrow> CallKey j name n);
                  r2 = (case edited of None \<Rightarrow> r1 | Some n \<Rightarrow> r1\<lparr>dcExecutedKey := effKey, dcExecutedArgs := n\<rparr>)
              in case e of
                   EditPanics \<Rightarrow> (Panics, st, [])
                 | EditRefused code \<Rightarrow> decided cx r1 (Refusal code) st []
                 | _ \<Rightarrow>
                     (case Verdict_Decision v of
                        None \<Rightarrow> decided cx r2 (Refusal ''malformed_verdict'') st []
                      | Some d \<Rightarrow>
                          (case (if vdVerdict v \<noteq> OutcomeReject \<and> vdScope v = ScopeChangeSet
                                 then planGrants j cfg cx name effKey as v else Some []) of
                             None \<Rightarrow> decided cx r2 (Refusal ''approval_scope_refused'') st []
                           | Some pending \<Rightarrow>
                               (case policy_verdict st name effKey d of
                                  None \<Rightarrow> (Panics, st, [])
                                | Some (Some err, st1) \<Rightarrow> verdict_refused cx effKey err r2 st1
                                | Some (None, st1) \<Rightarrow> carry_out j cfg cx name key effKey as edited v pending r2 st1)))))"

definition spendGrant ::
  "json_codec \<Rightarrow> gate_config \<Rightarrow> call_context \<Rightarrow> write_gate \<Rightarrow> string \<Rightarrow> string \<Rightarrow> args \<Rightarrow> cs_grant \<Rightarrow> gate_answer" where
  "spendGrant j cfg cx st name key as g =
     (let r = (newDecision cfg cx name key as)\<lparr>dcAuthority := AuthorityChangeSetGrant, dcChangeSet := cgOrigin g,
            dcOutcome := OutcomeApprove, dcScope := ScopeChangeSet, dcApprover := cgApprover g, dcNote := cgNote g\<rparr>
      in case policy_verdict st name key DecisionAllowOnce of
           None \<Rightarrow> (Panics, st, [])
         | Some (Some err, st1) \<Rightarrow> decided cx r (Refusal ''denied_by_policy'') st1 []
         | Some (None, st1) \<Rightarrow>
             (case permit j cfg cx name key as [] of
                (Some code, d1) \<Rightarrow> decided cx r (Refusal code) st1 d1
              | (None, d1) \<Rightarrow> decided cx r (Run as) st1 (writeGrant j cx (g\<lparr>cgConsumedBy := cxCallID cx\<rparr>) d1)))"

definition refuseRepeat :: "int \<Rightarrow> bool \<Rightarrow> answer" where
  "refuseRepeat cnt endTurn = AlreadyRefused cnt endTurn"

text \<open>A call that needs an answer: remembered refusals, then grants, then the operator.\<close>

definition ask_operator ::
  "json_codec \<Rightarrow> gate_config \<Rightarrow> call_context \<Rightarrow> write_gate \<Rightarrow> string \<Rightarrow> string \<Rightarrow> args \<Rightarrow> gate_answer" where
  "ask_operator j cfg cx st name key as =
     (let ((suppressed, endTurn, cnt), refused) = suppress (cxInvocation cx) key (wgRefused st);
          st1 = st\<lparr>wgRefused := refused\<rparr>
      in if suppressed then (refuseRepeat cnt endTurn, st1, [])
         else case checkGrant j cfg cx name as of
             (Some g, _) \<Rightarrow> spendGrant j cfg cx st1 name key as g
           | (None, stale) \<Rightarrow>
               (let d1 = (case stale of None \<Rightarrow> [] | Some why \<Rightarrow> voidGrant j cfg cx name as why)
                in if cxParkFails cx then (Fails, st1, d1) else (Parked stale (changeSetContextFor j cfg cx name as), st1, d1)))"

definition gate_mutating ::
  "json_codec \<Rightarrow> gate_config \<Rightarrow> call_context \<Rightarrow> write_gate \<Rightarrow> string \<Rightarrow> args \<Rightarrow> gate_answer" where
  "gate_mutating j cfg cx st name as =
     (let key = CallKey j name as
      in case cxConfirmation cx of
           Some c \<Rightarrow> honorVerdict j cfg cx st name key as c
         | None \<Rightarrow>
             if gcPolicy cfg = OnMutationApply
             then (case permit j cfg cx name key as [] of
                     (Some code, d) \<Rightarrow> (Refusal code, st, d)
                   | (None, d) \<Rightarrow> (Run as, st, d))
             else if gcPolicy cfg = OnMutationDryRun then (DryRun, st, [])
             else case policy_answer cx st name key of
                 None \<Rightarrow> (Panics, st, [])
               | Some err \<Rightarrow>
                   if err \<noteq> ErrApprovalRequired then (Refusal ''denied_by_policy'', st, [])
                   else ask_operator j cfg cx st name key as)"

text \<open>Writing a delta over a state.\<close>

definition apply_delta :: "state \<Rightarrow> state \<Rightarrow> state" where
  "apply_delta d s = foldr (\<lambda>(k, v) s. AList.update k v s) d s"

definition gate_beforeTool ::
  "json_codec \<Rightarrow> gate_config \<Rightarrow> call_context \<Rightarrow> write_gate \<Rightarrow> string \<Rightarrow> args \<Rightarrow> gate_answer" where
  "gate_beforeTool j cfg cx st name as =
     (case checkChangeSet j cfg cx name as of
        None \<Rightarrow> (Refusal ''invalid_proposed_change'', st, [])
      | Some d0 \<Rightarrow>
          if \<not> gcMutating cfg name then (Run as, st, d0)
          else let (out, st1, d1) = gate_mutating j cfg cx st name as
               in (out, st1, apply_delta d1 d0))"

definition gate_afterRun :: "call_context \<Rightarrow> write_gate \<Rightarrow> write_gate" where
  "gate_afterRun cx st = st\<lparr>wgRefused := forget (cxInvocation cx) (wgRefused st)\<rparr>"

section \<open>Sequences of calls\<close>

text \<open>
  The calls of a session, each in a turn of its own: each sees the state the earlier ones left, and its
  delta is written before the next.
\<close>

type_synonym tool_call = "gate_config \<times> call_context \<times> string \<times> args"

definition call_step :: "json_codec \<Rightarrow> state \<times> write_gate \<Rightarrow> tool_call \<Rightarrow> answer \<times> state \<times> write_gate" where
  "call_step j s c =
     (let (cfg, cx, name, as) = c; (out, st, d) = gate_beforeTool j cfg (cx\<lparr>cxState := fst s\<rparr>) (snd s) name as
      in (out, apply_delta d (fst s), st))"

fun run_calls :: "json_codec \<Rightarrow> state \<times> write_gate \<Rightarrow> tool_call list \<Rightarrow> answer list" where
  "run_calls j s [] = []"
| "run_calls j s (c # cs) = (let (out, s') = call_step j s c in out # run_calls j s' cs)"

text \<open>
  Turns with several calls, which run side by side: each call sees the state the turn started from, its
  delta goes to its own event, and the deltas are merged when the turn's calls are done. What the gate
  remembers in the process is shared.
\<close>

fun batch_calls :: "json_codec \<Rightarrow> state \<Rightarrow> write_gate \<Rightarrow> tool_call list \<Rightarrow> (answer \<times> state) list \<times> write_gate" where
  "batch_calls j s w [] = ([], w)"
| "batch_calls j s w ((cfg, cx, name, as) # cs) =
     (let (out, w1, d) = gate_beforeTool j cfg (cx\<lparr>cxState := s\<rparr>) w name as;
          (rest, w2) = batch_calls j s w1 cs
      in ((out, d) # rest, w2))"

definition batch_step :: "json_codec \<Rightarrow> state \<times> write_gate \<Rightarrow> tool_call list \<Rightarrow> answer list \<times> state \<times> write_gate" where
  "batch_step j sw cs =
     (let (res, w) = batch_calls j (fst sw) (snd sw) cs
      in (map fst res, foldl (\<lambda>s d. apply_delta d s) (fst sw) (map snd res), w))"

fun run_batches :: "json_codec \<Rightarrow> state \<times> write_gate \<Rightarrow> tool_call list list \<Rightarrow> answer list list" where
  "run_batches j sw [] = []"
| "run_batches j sw (b # bs) = (let (outs, sw') = batch_step j sw b in outs # run_batches j sw' bs)"

text \<open>A mutating call nobody has answered yet, under the policy that asks.\<close>

definition unanswered :: "tool_call \<Rightarrow> bool" where
  "unanswered c \<longleftrightarrow>
     (let (cfg, cx, name, as) = c
      in gcMutating cfg name \<and> gcPolicy cfg = OnMutationRequireApproval \<and> cxConfirmation cx = None \<and> cxCallID cx \<noteq> [])"

text \<open>Every record of the call reaches its event.\<close>

definition records_all :: "call_context \<Rightarrow> bool" where
  "records_all cx \<longleftrightarrow> cxRecords cx = (\<lambda>_ _. True)"

definition call_records :: "tool_call \<Rightarrow> bool" where
  "call_records c = (let (cfg, cx, name, as) = c in records_all cx)"

definition call_signature :: "json_codec \<Rightarrow> tool_call \<Rightarrow> string option" where
  "call_signature j c = (let (cfg, cx, name, as) = c in Signature j name as)"

definition call_id :: "tool_call \<Rightarrow> string" where
  "call_id c = (let (cfg, cx, name, as) = c in cxCallID cx)"

text \<open>The standing permission of an unanswered call: a live grant for its very signature.\<close>

definition live_grant :: "json_codec \<Rightarrow> gate_config \<Rightarrow> call_context \<Rightarrow> string \<Rightarrow> args \<Rightarrow> cs_grant \<Rightarrow> bool" where
  "live_grant j cfg cx name as g \<longleftrightarrow>
     (\<exists>f sig. gcGrants cfg = Some f \<and> Signature j name as = Some sig \<and> cgSignature g = sig \<and>
        map_of (cxState cx) (GrantStateKey j sig) = Some (VGrant g) \<and> \<not> Spent g (cxCallID cx) \<and>
        (cgExpiresAt g = 0 \<or> frNow f \<le> cgExpiresAt g) \<and> fr_verify j f (cgPrecondition g) name)"

text \<open>The operator's permission of a resumed call for the arguments it runs with.\<close>

definition operator_approved ::
  "json_codec \<Rightarrow> call_context \<Rightarrow> write_gate \<Rightarrow> string \<Rightarrow> args \<Rightarrow> args \<Rightarrow> bool" where
  "operator_approved j cx st name as as' \<longleftrightarrow>
     (\<exists>c v. cxConfirmation cx = Some c \<and> DecodeVerdict c = Some v \<and> cfConfirmed c \<and>
        Verdict_Decision v = Some DecisionAllowOnce \<and>
        (vdVerdict v = OutcomeApprove \<and> as' = as \<or>
         vdVerdict v = OutcomeEdit \<and> vdApprover v \<noteq> [] \<and> normalizeEdit j (cxSchema cx) (vdArgs v) = Some as' \<and>
           policy_answer cx st name (CallKey j name as') = Some ErrApprovalRequired))"

section \<open>Lemmas\<close>

lemma map_of_apply_delta [simp]:
  "map_of (apply_delta d s) k = (case map_of d k of Some v \<Rightarrow> Some v | None \<Rightarrow> map_of s k)"
  by (induction d) (auto simp: apply_delta_def update_conv split: option.split)

lemma state_keys_distinct [simp]:
  "GrantStateKey j sig \<noteq> DecisionStateKey c" "DecisionStateKey c \<noteq> GrantStateKey j sig"
  "GrantStateKey j sig \<noteq> CaptureStateKey c" "CaptureStateKey c \<noteq> GrantStateKey j sig"
  "GrantStateKey j sig \<noteq> ChangeSetStateKey s" "ChangeSetStateKey s \<noteq> GrantStateKey j sig"
  "GrantStateKey j sig \<noteq> EditStateKey c" "EditStateKey c \<noteq> GrantStateKey j sig"
  "DecisionStateKey c \<noteq> CaptureStateKey c'" "CaptureStateKey c' \<noteq> DecisionStateKey c"
  "EditStateKey c \<noteq> CaptureStateKey c'" "CaptureStateKey c' \<noteq> EditStateKey c"
  "DecisionStateKey c \<noteq> ChangeSetStateKey s" "CaptureStateKey c \<noteq> ChangeSetStateKey s"
  by (simp_all add: GrantStateKey_def DecisionStateKey_def CaptureStateKey_def ChangeSetStateKey_def EditStateKey_def
      GrantStateKeyPrefix_def ChangeSetStateKeyPrefix_def)

lemma put_record_other [simp]: "k \<noteq> k' \<Longrightarrow> map_of (put_record cx k' v d) k = map_of d k"
  by (simp add: put_record_def update_conv)

lemma put_record_all [simp]: "records_all cx \<Longrightarrow> put_record cx k v d = AList.update k v d"
  by (simp add: put_record_def records_all_def)

lemma put_record_cases: "map_of (put_record cx k v d) k' = Some x \<Longrightarrow> k' = k \<and> x = v \<or> map_of d k' = Some x"
  by (auto simp: put_record_def update_conv split: if_splits)

lemma records_all_state [simp]: "records_all (cx\<lparr>cxState := s\<rparr>) = records_all cx"
  by (simp add: records_all_def)

lemma map_of_recordDecision:
  "k \<noteq> DecisionStateKey (cxCallID cx) \<Longrightarrow> map_of (recordDecision cx r out d) k = map_of d k"
  by (simp add: recordDecision_def Let_def)

lemma map_of_permit:
  "k \<noteq> CaptureStateKey (cxCallID cx) \<Longrightarrow> map_of (snd (permit j cfg cx name key as d)) k = map_of d k"
  by (auto simp: permit_def split: option.split sum.split)

lemma checkGrant_live:
  "checkGrant j cfg cx name as = (Some g, w) \<Longrightarrow> live_grant j cfg cx name as g"
  by (auto simp: checkGrant_def live_grant_def Spent_def DecodeGrant_def split: option.splits if_splits st_val.splits)

lemma DecodeVerdict_shape:
  "DecodeVerdict c = Some v \<Longrightarrow> vdVerdict v \<in> {OutcomeApprove, OutcomeReject, OutcomeEdit} \<and>
     (cfConfirmed c \<longleftrightarrow> vdVerdict v \<noteq> OutcomeReject)"
  by (auto simp: DecodeVerdict_def verdict_consts split: option.splits if_splits payload.splits)

lemma DecodeVerdict_response:
  "vdVerdict v \<in> {OutcomeApprove, OutcomeReject, OutcomeEdit} \<Longrightarrow> DecodeVerdict (ConfirmationResponse v) = Some v"
  by (auto simp: DecodeVerdict_def ConfirmationResponse_def verdict_consts)

end
