(* ===== verification/Write_Gate.thy ===== *)
theory Write_Gate
  imports Approval
begin

text \<open>
  What the write gate of the theory Approval guarantees: a mutating call runs only with an operator's
  permission or a live grant, a grant answers one call, every verdict is recorded, a refusal holds for
  the turn, what a change overwrites is captured first, and the answer for a change set grants what was
  shown. The case analysis of \<^verbatim>\<open>honorVerdict\<close> is done once, in \<open>honorVerdict_cases\<close>, and what the gate
  relies on of the permission gate is the locale \<open>mutation_policy\<close>, interpreted on Permissions.
\<close>

section \<open>Definitions\<close>

text \<open>The key of the call that a verdict lets run, and its decision record.\<close>

definition eff_key :: "json_codec \<Rightarrow> string \<Rightarrow> string \<Rightarrow> args option \<Rightarrow> string" where
  "eff_key j name key ed = (case ed of None \<Rightarrow> key | Some n \<Rightarrow> CallKey j name n)"

definition executed :: "json_codec \<Rightarrow> string \<Rightarrow> args option \<Rightarrow> decision_record \<Rightarrow> decision_record" where
  "executed j name ed r = (case ed of None \<Rightarrow> r | Some n \<Rightarrow> r\<lparr>dcExecutedKey := CallKey j name n, dcExecutedArgs := n\<rparr>)"

text \<open>The arguments a verdict lets run: as proposed, or edited by the operator and checked.\<close>

definition edits_to :: "json_codec \<Rightarrow> call_context \<Rightarrow> write_gate \<Rightarrow> string \<Rightarrow> verdict \<Rightarrow> args option \<Rightarrow> bool" where
  "edits_to j cx st name v ed \<longleftrightarrow>
     (case ed of None \<Rightarrow> vdVerdict v \<noteq> OutcomeEdit | Some n \<Rightarrow> vdVerdict v = OutcomeEdit \<and> prepareEdit j cx st name v = Edited n)"




text \<open>How a decision record ends up, given the answer.\<close>

definition disposed :: "decision_record \<Rightarrow> answer \<Rightarrow> disposition" where
  "disposed r out =
     (case out of Run _ \<Rightarrow> DispositionAuthorized
      | Refusal _ \<Rightarrow> if dcOutcome r = OutcomeReject then DispositionRefusedByOperator else DispositionRefusedByMast
      | _ \<Rightarrow> DispositionRefusedByMast)"

text \<open>Every exit of \<^verbatim>\<open>honorVerdict\<close> records what it decided.\<close>

definition records_decision :: "json_codec \<Rightarrow> call_context \<Rightarrow> string \<Rightarrow> string \<Rightarrow> args \<Rightarrow> bool \<Rightarrow> gate_answer \<Rightarrow> bool" where
  "records_decision j cx name key as rejected ga \<longleftrightarrow>
     (let (out, st, d) = ga
      in out = Panics \<or>
         (\<exists>r. map_of d (DecisionStateKey (cxCallID cx)) = Some (VDecision r) \<and> dcTool r = name \<and> dcCallID r = cxCallID cx \<and>
            dcProposedKey r = key \<and> dcProposedArgs r = as \<and>
            (dcDisposition r = DispositionAuthorized \<longleftrightarrow> (\<exists>a. out = Run a)) \<and>
            (dcDisposition r = DispositionRefusedByOperator \<longleftrightarrow> rejected) \<and>
            (\<forall>a. out = Run a \<longrightarrow> a = as \<and> dcExecutedKey r = [] \<or> dcExecutedArgs r = a \<and> dcExecutedKey r = CallKey j name a)))"

text \<open>The refusals a turn remembers, and how a callback may change them.\<close>

definition refused_in :: "write_gate \<Rightarrow> string \<Rightarrow> string \<Rightarrow> bool" where
  "refused_in st iid key \<longleftrightarrow> (\<exists>t. map_of (wgRefused st) iid = Some t \<and> key \<in> set (trRefused t))"

definition refusals_grow :: "call_context \<Rightarrow> write_gate \<Rightarrow> gate_answer \<Rightarrow> bool" where
  "refusals_grow cx st ga \<longleftrightarrow> wgRefused (fst (snd ga)) = wgRefused st \<or>
     (\<exists>k. wgRefused (fst (snd ga)) = remember (cxInvocation cx) k (wgRefused st))"

text \<open>An answer that neither runs the call nor asks anybody about it.\<close>

definition turned_down :: "answer \<Rightarrow> bool" where
  "turned_down out \<longleftrightarrow> (\<exists>n. out = AlreadyRefused n (suppressedCallsEndTurn \<le> n)) \<or> (\<exists>code. out = Refusal code)"

text \<open>What a capture taken for a call holds.\<close>

definition captures :: "capture_rules \<Rightarrow> capture \<Rightarrow> call_context \<Rightarrow> string \<Rightarrow> string \<Rightarrow> args \<Rightarrow> capture_record \<Rightarrow> bool" where
  "captures cs decl cx name key as cr \<longleftrightarrow>
     crTool cr = name \<and> crKey cr = key \<and> crArguments cr = as \<and> crCallID cr = cxCallID cx \<and> crInvocation cr = cxInvocation cx \<and>
     (\<exists>read readArgs result. csRead cs = Some read \<and> capture_readArgs decl as = Some readArgs \<and> crReadArgs cr = readArgs \<and>
        read (cpRead decl) readArgs = Inr (Some result) \<and> capture_prior decl result = Some (crPrior cr)) \<and>
     (cpRevert decl \<noteq> None \<longrightarrow> crRevert cr \<noteq> None)"

text \<open>What the workload declares to be captured for a tool, and that a delta holds it.\<close>

definition declared_capture :: "gate_config \<Rightarrow> string \<Rightarrow> (capture_rules \<times> (string + capture option)) option" where
  "declared_capture cfg name =
     (case gcCaptures cfg of None \<Rightarrow> None | Some cs \<Rightarrow> map_option (\<lambda>decl_of. (cs, decl_of name)) (csFor cs))"

definition captured :: "json_codec \<Rightarrow> gate_config \<Rightarrow> call_context \<Rightarrow> string \<Rightarrow> args \<Rightarrow> state \<Rightarrow> bool" where
  "captured j cfg cx name as d \<longleftrightarrow>
     (case declared_capture cfg name of
        None \<Rightarrow> True
      | Some (cs, Inl _) \<Rightarrow> False
      | Some (cs, Inr None) \<Rightarrow> True
      | Some (cs, Inr (Some decl)) \<Rightarrow>
          (\<exists>cr. map_of d (CaptureStateKey (cxCallID cx)) = Some (VCapture cr) \<and> captures cs decl cx name (CallKey j name as) as cr))"

text \<open>A grant just minted by a verdict; the grants of a delta are those of a set of changes, but the call itself.\<close>

definition fresh_grant :: "freshness \<Rightarrow> string \<Rightarrow> verdict \<Rightarrow> cs_grant \<Rightarrow> bool" where
  "fresh_grant f key v g \<longleftrightarrow> cgOrigin g = key \<and> cgApprover g = vdApprover v \<and> cgConsumedBy g = [] \<and> cgVoidedBy g = None \<and>
     cgMintedAt g = frNow f \<and> cgExpiresAt g = frNow f + fr_ttl f"

definition grants_exactly :: "json_codec \<Rightarrow> freshness \<Rightarrow> string \<Rightarrow> string \<Rightarrow> verdict \<Rightarrow> proposed_change list \<Rightarrow> state \<Rightarrow> bool" where
  "grants_exactly j f sig key v changes d \<longleftrightarrow>
     (\<forall>s g. map_of d (GrantStateKey j s) = Some (VGrant g) \<longrightarrow>
        fresh_grant f key v g \<and> cgSignature g \<noteq> sig \<and> (\<exists>ch \<in> set changes. Change_Signature j ch = Some (cgSignature g))) \<and>
     (\<forall>ch \<in> set changes. Change_Signature j ch \<noteq> None) \<and>
     (\<forall>ch \<in> set changes. \<forall>s. Change_Signature j ch = Some s \<longrightarrow> s \<noteq> sig \<longrightarrow>
        (\<exists>g. map_of d (GrantStateKey j s) = Some (VGrant g) \<and> GrantStateKey j (cgSignature g) = GrantStateKey j s))"

text \<open>The recorded sets a call is a member of.\<close>

definition sets_with :: "json_codec \<Rightarrow> call_context \<Rightarrow> string \<Rightarrow> (string \<times> proposed_change list) set" where
  "sets_with j cx sig = {e \<in> set (recordedChangeSets cx). list_ex (\<lambda>ch. Change_Signature j ch = Some sig) (snd e)}"

text \<open>A small set-up for the witnesses.\<close>

fun demo_encode :: "json \<Rightarrow> string" where
  "demo_encode (JString s) = CHR 0x22 # s @ [CHR 0x22]"
| "demo_encode (JOther s) = s"
| "demo_encode (JObject kvs) = ''{'' @ concat (map (\<lambda>(k, v). k @ '':'' @ demo_encode v @ '','') kvs) @ ''}''"

definition demo_codec :: json_codec where
  "demo_codec = \<lparr>cdEncode = (\<lambda>v. Some (demo_encode v)), cdNormal = Some, cdSum = id\<rparr>"

definition demo_freshness :: freshness where
  "demo_freshness = \<lparr>frTTL = 0, frNow = 5, frPrecondition = None, frRead = None\<rparr>"

definition demo_captures :: capture_rules where
  "demo_captures = \<lparr>csFor = Some (\<lambda>_. Inr (Some \<lparr>cpRead = ''get'', cpArgs = [], cpArgsFrom = [(''id'', ''id'')], cpFields = [],
      cpRevert = None\<rparr>)), csRead = Some (\<lambda>_ _. Inr (Some [(''size'', JOther ''3'')])), csSchema = None, csNow = 5\<rparr>"

definition demo_config :: gate_config where
  "demo_config = \<lparr>gcPolicy = OnMutationRequireApproval, gcMutating = (\<lambda>n. n = ''scale''), gcChangeSet = None,
     gcGrants = Some demo_freshness, gcCaptures = Some demo_captures, gcWorkload = ''w''\<rparr>"

definition demo_args :: "string \<Rightarrow> args" where
  "demo_args i = [(''id'', JString i)]"

definition demo_sets :: state where
  "demo_sets = [(ChangeSetStateKey ''planner'', VChanges [\<lparr>pcTool = ''scale'', pcArguments = demo_args ''a''\<rparr>,
     \<lparr>pcTool = ''scale'', pcArguments = demo_args ''b''\<rparr>])]"

definition demo_context :: "string \<Rightarrow> confirmation option \<Rightarrow> call_context" where
  "demo_context i c = \<lparr>cxSession = ''s'', cxInvocation = ''t'', cxCallID = i, cxAgent = ''agent'', cxConfirmation = c,
     cxState = demo_sets, cxRange = id, cxParkFails = False, cxSchema = None, cxDecode = (\<lambda>_. None),
     cxOutside = demo_outside DecisionDeny, cxRecords = (\<lambda>_ _. True)\<rparr>"

definition demo_write_gate :: write_gate where
  "demo_write_gate = \<lparr>wgGate = Some (demo_gate ModeAsk False), wgShared = demo_shared, wgRefused = []\<rparr>"

definition demo_approval :: "string \<Rightarrow> confirmation" where
  "demo_approval scope = ConfirmationResponse (verdict0\<lparr>vdVerdict := OutcomeApprove, vdScope := scope, vdApprover := ''ann''\<rparr>)"

definition demo_rejection :: confirmation where
  "demo_rejection = \<lparr>cfConfirmed = False, cfPayload = NoPayload\<rparr>"

text \<open>A turn with two calls for a granted change, and a turn after it that retries the second and asks for a third.\<close>

definition demo_batches :: "tool_call list list" where
  "demo_batches = [[(demo_config, demo_context ''1'' None, ''scale'', demo_args ''b''),
       (demo_config, demo_context ''2'' None, ''scale'', demo_args ''b'')],
     [(demo_config, demo_context ''2'' None, ''scale'', demo_args ''b''),
       (demo_config, demo_context ''3'' None, ''scale'', demo_args ''b'')]]"

abbreviation demo_resume :: "confirmation option \<Rightarrow> gate_answer" where
  "demo_resume c \<equiv> gate_beforeTool demo_codec demo_config (demo_context ''0'' c) demo_write_gate ''scale'' (demo_args ''a'')"

definition demo_state :: "state \<times> write_gate" where
  "demo_state = (apply_delta (snd (snd (demo_resume (Some (demo_approval ScopeChangeSet))))) demo_sets, demo_write_gate)"

text \<open>Two sets with the same change: the one the question shows need not be the one that is granted.\<close>

definition demo_two_sets :: state where
  "demo_two_sets = (ChangeSetStateKey ''other'', VChanges [\<lparr>pcTool = ''scale'', pcArguments = demo_args ''a''\<rparr>,
     \<lparr>pcTool = ''scale'', pcArguments = demo_args ''z''\<rparr>]) # demo_sets"

section \<open>The exits of a verdict\<close>

lemma honorVerdict_cases:
  fixes P :: "gate_answer \<Rightarrow> bool"
  assumes "DecodeVerdict c = None \<Longrightarrow> P (decided cx (newDecision cfg cx name key as) (Refusal ''malformed_verdict'') st [])"
    and "\<And>v code. DecodeVerdict c = Some v \<Longrightarrow> vdVerdict v = OutcomeEdit \<Longrightarrow>
      P (decided cx (with_verdict v (newDecision cfg cx name key as)) (Refusal code) st [])"
    and "\<And>v ed code. DecodeVerdict c = Some v \<Longrightarrow> edits_to j cx st name v ed \<Longrightarrow> vdVerdict v \<noteq> OutcomeReject \<Longrightarrow>
      P (decided cx (executed j name ed (with_verdict v (newDecision cfg cx name key as))) (Refusal code) st [])"
    and "wgGate st = None \<Longrightarrow> P (Panics, st, [])"
    and "\<And>v ed d err st1. DecodeVerdict c = Some v \<Longrightarrow> edits_to j cx st name v ed \<Longrightarrow> Verdict_Decision v = Some d \<Longrightarrow>
      policy_verdict st name (eff_key j name key ed) d = Some (Some err, st1) \<Longrightarrow>
      P (verdict_refused cx (eff_key j name key ed) err (executed j name ed (with_verdict v (newDecision cfg cx name key as))) st1)"
    and "\<And>v ed d pending st1. DecodeVerdict c = Some v \<Longrightarrow> edits_to j cx st name v ed \<Longrightarrow> Verdict_Decision v = Some d \<Longrightarrow>
      (if vdVerdict v \<noteq> OutcomeReject \<and> vdScope v = ScopeChangeSet
       then planGrants j cfg cx name (eff_key j name key ed) as v else Some []) = Some pending \<Longrightarrow>
      policy_verdict st name (eff_key j name key ed) d = Some (None, st1) \<Longrightarrow>
      P (carry_out j cfg cx name key (eff_key j name key ed) as ed v pending
           (executed j name ed (with_verdict v (newDecision cfg cx name key as))) st1)"
  shows "P (honorVerdict j cfg cx st name key as c)"
proof (cases "DecodeVerdict c")
  case (Some v)
  define r1 where "r1 = with_verdict v (newDecision cfg cx name key as)"
  define e where "e = (if vdVerdict v = OutcomeEdit then prepareEdit j cx st name v else Unedited)"
  define ed where "ed = edit_of e"
  have fold: "(case ed of None \<Rightarrow> key | Some n \<Rightarrow> CallKey j name n) = eff_key j name key ed"
      "(case ed of None \<Rightarrow> r1 | Some n \<Rightarrow> r1\<lparr>dcExecutedKey := eff_key j name key ed, dcExecutedArgs := n\<rparr>) = executed j name ed r1"
    by (simp_all add: eff_key_def executed_def split: option.split)
  consider (panics) "e = EditPanics" | (refused) code where "e = EditRefused code" | (ok) "e = Unedited \<or> (\<exists>n. e = Edited n)"
    by (cases e) auto
  then have "P (case e of EditPanics \<Rightarrow> (Panics, st, []) | EditRefused code \<Rightarrow> decided cx r1 (Refusal code) st []
     | _ \<Rightarrow> (case Verdict_Decision v of
               None \<Rightarrow> decided cx (executed j name ed r1) (Refusal ''malformed_verdict'') st []
             | Some d \<Rightarrow>
                 (case (if vdVerdict v \<noteq> OutcomeReject \<and> vdScope v = ScopeChangeSet
                        then planGrants j cfg cx name (eff_key j name key ed) as v else Some []) of
                    None \<Rightarrow> decided cx (executed j name ed r1) (Refusal ''approval_scope_refused'') st []
                  | Some pending \<Rightarrow>
                      (case policy_verdict st name (eff_key j name key ed) d of
                         None \<Rightarrow> (Panics, st, [])
                       | Some (Some err, st1) \<Rightarrow> verdict_refused cx (eff_key j name key ed) err (executed j name ed r1) st1
                       | Some (None, st1) \<Rightarrow>
                           carry_out j cfg cx name key (eff_key j name key ed) as ed v pending (executed j name ed r1) st1))))"
    (is "P ?body")
  proof cases
    case panics
    then have "wgGate st = None"
      by (auto simp: e_def prepareEdit_def policy_answer_def split: if_splits option.splits)
    then show ?thesis using panics assms(4) by simp
  next
    case (refused code)
    then have "vdVerdict v = OutcomeEdit" by (auto simp: e_def split: if_splits)
    then show ?thesis using refused assms(2) [OF Some] by (simp add: r1_def)
  next
    case ok
    then have ed: "edits_to j cx st name v ed"
      by (auto simp: edits_to_def ed_def e_def edit_of_def prepareEdit_def split: if_splits option.splits)
    have noreject: "Verdict_Decision v = None \<Longrightarrow> vdVerdict v \<noteq> OutcomeReject" by (auto simp: Verdict_Decision_def)
    have nogate: "policy_verdict st name k d = None \<Longrightarrow> wgGate st = None" for k d
      by (auto simp: policy_verdict_def split: option.splits prod.splits)
    note leaf = assms(3) [OF Some ed, folded r1_def] assms(5) [OF Some ed, folded r1_def] assms(6) [OF Some ed, folded r1_def]
    from ok show ?thesis
      by (elim disjE exE) (simp_all, auto simp: leaf noreject assms(4) dest: nogate split: option.split)
  qed
  then show ?thesis
    unfolding honorVerdict_def Some Let_def option.case r1_def [symmetric] e_def [symmetric] ed_def [symmetric] fold .
qed (use assms(1) in \<open>simp add: honorVerdict_def Let_def\<close>)

section \<open>The interface to the permission gate\<close>

text \<open>
  What the write gate relies on: only one verdict of the operator is accepted, and recording a verdict
  does not change what the gate answers about any call.
\<close>

locale mutation_policy =
  fixes check :: "'k \<Rightarrow> 'g \<Rightarrow> 'e"
    and verdict_on :: "'k \<Rightarrow> 'd \<Rightarrow> 'g \<Rightarrow> 'e option \<times> 'g"
    and once :: 'd
  assumes accepted: "verdict_on k d g = (None, g') \<Longrightarrow> d = once"
    and check_kept: "check k' (snd (verdict_on k d g)) = check k' g"
begin

lemma verdicts_grant_nothing: "check k (foldl (\<lambda>g (k, d). snd (verdict_on k d g)) g vs) = check k g"
  by (induction vs arbitrary: g) (auto simp: check_kept)

end

interpretation pg: mutation_policy "\<lambda>(tool, key). CheckMutatingToolCall ex tool key sh" "\<lambda>(tool, key). RecordMutationVerdict tool key"
  DecisionAllowOnce for ex sh
  by unfold_locales
    (auto simp: RecordMutationVerdict_def CheckMutatingToolCall_def recordApproval_def planFirstDenial_def split: decision.splits)

section \<open>The set-up of the witnesses\<close>

lemma gate_answerD: "fst x = out \<Longrightarrow> \<exists>st d. x = (out, st, d)"
  by (cases x) auto

lemma demo_approved_once: "\<exists>st d. demo_resume (Some (demo_approval [])) = (Run (demo_args ''a''), st, d)"
  by (rule gate_answerD) code_simp

lemma demo_approved_set: "\<exists>st d. demo_resume (Some (demo_approval ScopeChangeSet)) = (Run (demo_args ''a''), st, d)"
  by (rule gate_answerD) code_simp

lemma demo_asked: "\<exists>sh. fst (demo_resume None) = Parked None (Some sh)"
proof -
  let ?c = "changeSetContextFor demo_codec demo_config (demo_context ''0'' None) ''scale'' (demo_args ''a'')"
  have "fst (demo_resume None) = Parked None ?c" by code_simp
  moreover have "?c \<noteq> None" by code_simp
  ultimately show ?thesis by auto
qed

lemma demo_rejected: "fst (demo_resume (Some demo_rejection)) = Refusal ''denied_by_operator''"
  by code_simp

section \<open>A mutating call runs only with permission\<close>

lemma carry_out_run:
  "carry_out j cfg cx name key effKey as edited v pending r st = (Run as', st', d) \<Longrightarrow>
     as' = (case edited of None \<Rightarrow> as | Some e \<Rightarrow> e)"
  by (auto simp: carry_out_def decided_def Let_def split: prod.splits option.splits)

lemma policy_verdict_ok: "policy_verdict st name key d = Some (None, st1) \<Longrightarrow> d = DecisionAllowOnce"
  using pg.accepted [of "(name, key)" d]
  by (auto simp: policy_verdict_def split: option.splits decision.splits prod.splits)

lemma honorVerdict_run:
  assumes "honorVerdict j cfg cx st name (CallKey j name as) as c = (Run as', st', d)" "cxConfirmation cx = Some c"
  shows "operator_approved j cx st name as as'"
proof -
  have "\<forall>as' st' d. honorVerdict j cfg cx st name (CallKey j name as) as c = (Run as', st', d) \<longrightarrow>
      operator_approved j cx st name as as'"
  proof (rule honorVerdict_cases)
    fix v ed dec pending st1
    assume v: "DecodeVerdict c = Some v" and ed: "edits_to j cx st name v ed" and dec: "Verdict_Decision v = Some dec"
      and p: "policy_verdict st name (eff_key j name (CallKey j name as) ed) dec = Some (None, st1)"
    have "Verdict_Decision v = Some DecisionAllowOnce" using dec policy_verdict_ok [OF p] by simp
    moreover from this have "vdVerdict v \<noteq> OutcomeReject" by (auto simp: Verdict_Decision_def)
    ultimately have "operator_approved j cx st name as (case ed of None \<Rightarrow> as | Some n \<Rightarrow> n)"
      using v ed assms(2) DecodeVerdict_shape [OF v]
      by (auto simp: operator_approved_def edits_to_def prepareEdit_def split: option.splits if_splits)
    then show "\<forall>as' st' d. carry_out j cfg cx name (CallKey j name as) (eff_key j name (CallKey j name as) ed) as ed v pending
        (executed j name ed (with_verdict v (newDecision cfg cx name (CallKey j name as) as))) st1 = (Run as', st', d) \<longrightarrow>
      operator_approved j cx st name as as'"
      by (auto dest: carry_out_run)
  qed (auto simp: decided_def verdict_refused_def split: perm_error.splits)
  then show ?thesis using assms(1) by blast
qed

lemma spendGrant_run: "spendGrant j cfg cx st name key as g = (Run as', st', d) \<Longrightarrow> as' = as"
  by (auto simp: spendGrant_def decided_def Let_def split: option.splits prod.splits)

lemma ask_operator_run:
  assumes "ask_operator j cfg cx st name key as = (Run as', st', d)"
  shows "as' = as \<and> \<not> fst (fst (suppress (cxInvocation cx) key (wgRefused st))) \<and>
    (\<exists>g w. checkGrant j cfg cx name as = (Some g, w))"
  using assms by (auto simp: ask_operator_def refuseRepeat_def Let_def dest: spendGrant_run split: prod.splits if_splits option.splits)

lemma beforeTool_mutating:
  assumes "gate_beforeTool j cfg cx st name as = (Run as', st', d)" "gcMutating cfg name"
  obtains d1 where "gate_mutating j cfg cx st name as = (Run as', st', d1)"
  using assms by (auto simp: gate_beforeTool_def split: option.splits prod.splits)

text \<open>C2: a mutating call runs only with somebody's permission for exactly that call. Under
  \<^verbatim>\<open>require_approval\<close>, when the gate lets a mutating call run, either the operator confirmed it --
  with the proposed arguments, or with edited ones that the operator signed, that pass the tool's
  schema and that the permission policy does not deny -- or nobody was asked, the call runs as
  proposed, an unspent, unexpired grant for its very signature whose precondition still holds is on
  record, the policy does not deny it and it was not refused in this turn.\<close>

theorem approved_or_granted:
  assumes "gcMutating cfg name" "gcPolicy cfg = OnMutationRequireApproval"
    and "gate_beforeTool j cfg cx st name as = (Run as', st', d)"
  shows "operator_approved j cx st name as as' \<or>
    (cxConfirmation cx = None \<and> as' = as \<and> (\<exists>g. live_grant j cfg cx name as g) \<and>
     policy_answer cx st name (CallKey j name as) = Some ErrApprovalRequired \<and>
     \<not> fst (fst (suppress (cxInvocation cx) (CallKey j name as) (wgRefused st))))"
proof -
  obtain d1 where m: "gate_mutating j cfg cx st name as = (Run as', st', d1)"
    using beforeTool_mutating [OF assms(3,1)] .
  show ?thesis
  proof (cases "cxConfirmation cx")
    case (Some c)
    then show ?thesis using m honorVerdict_run by (fastforce simp: gate_mutating_def Let_def)
  next
    case None
    then have "policy_answer cx st name (CallKey j name as) = Some ErrApprovalRequired"
        "ask_operator j cfg cx st name (CallKey j name as) as = (Run as', st', d1)"
      using m assms(2) by (auto simp: gate_mutating_def Let_def OnMutationRequireApproval_def OnMutationApply_def
          OnMutationDryRun_def split: option.splits if_splits)
    then show ?thesis using None ask_operator_run checkGrant_live by blast
  qed
qed

theorem approved_or_granted_witness:
  "operator_approved demo_codec (demo_context ''0'' (Some (demo_approval []))) demo_write_gate ''scale'' (demo_args ''a'') (demo_args ''a'')"
proof -
  obtain st d where "demo_resume (Some (demo_approval [])) = (Run (demo_args ''a''), st, d)"
    using demo_approved_once by blast
  from approved_or_granted [OF _ _ this] show ?thesis by (simp add: demo_config_def demo_context_def)
qed

section \<open>A grant answers one call\<close>

lemma checkChangeSet_grants: "checkChangeSet j cfg cx name as = Some d \<Longrightarrow> map_of d (GrantStateKey j' sig) = None"
  by (auto simp: checkChangeSet_def recordChangeSet_def split: option.splits if_splits list.splits)







subsection \<open>Turns with several calls\<close>

lemma batch_calls_nth:
  "k < length cs \<Longrightarrow> length (fst (batch_calls j s w cs)) = length cs \<and>
     (\<exists>w1 w2. (case cs ! k of (cfg, cx, name, as) \<Rightarrow>
        gate_beforeTool j cfg (cx\<lparr>cxState := s\<rparr>) w1 name as =
          (fst (fst (batch_calls j s w cs) ! k), w2, snd (fst (batch_calls j s w cs) ! k))))"
proof (induction cs arbitrary: w k)
  case (Cons c cs)
  obtain cfg cx name as where c: "c = (cfg, cx, name, as)" by (cases c) auto
  obtain out w1 d where g: "gate_beforeTool j cfg (cx\<lparr>cxState := s\<rparr>) w name as = (out, w1, d)" by (metis prod_cases3)
  obtain rest w2 where r: "batch_calls j s w1 cs = (rest, w2)" by fastforce
  have len: "length rest = length cs" using Cons.IH [of 0 w1] r by (cases cs) auto
  show ?case
  proof (cases k)
    case 0
    then show ?thesis using c g r len by auto
  next
    case (Suc k')
    then show ?thesis using Cons.IH [of k' w1] Cons.prems c g r len by simp
  qed
qed simp

lemma batch_calls_length [simp]: "length (fst (batch_calls j s w cs)) = length cs"
  using batch_calls_nth [of 0 cs j s w] by (cases cs) auto





lemma batch_outs_length [simp]: "length (fst (batch_step j sw b)) = length b"
  by (simp add: batch_step_def case_prod_beta)








text \<open>Within a turn one grant answers every identical call: the spend is on the event of the call that
  makes it, so two calls of a turn with different ids both find the grant unspent and both run.\<close>

theorem grant_used_twice:
  "let c1 = demo_batches ! 0 ! 0; c2 = demo_batches ! 0 ! 1
   in call_signature demo_codec c1 = call_signature demo_codec c2 \<and> call_id c1 \<noteq> call_id c2 \<and>
      list_all (\<lambda>out. case out of Run a \<Rightarrow> True | _ \<Rightarrow> False) (run_batches demo_codec demo_state [[c1, c2]] ! 0)"
  by code_simp

section \<open>Every verdict is recorded\<close>

lemma map_of_recordDecision_self:
  "records_all cx \<Longrightarrow> \<exists>r'. map_of (recordDecision cx r out d) (DecisionStateKey (cxCallID cx)) = Some (VDecision r') \<and>
     dcTool r' = dcTool r \<and> dcCallID r' = dcCallID r \<and> dcProposedKey r' = dcProposedKey r \<and> dcProposedArgs r' = dcProposedArgs r \<and>
     dcExecutedKey r' = dcExecutedKey r \<and> dcExecutedArgs r' = dcExecutedArgs r \<and> dcDisposition r' = disposed r out"
  by (cases out) (auto simp: recordDecision_def disposed_def update_conv Let_def)

lemma decided_records:
  assumes "records_all cx" "dcTool r = name" "dcCallID r = cxCallID cx" "dcProposedKey r = key" "dcProposedArgs r = as"
    and "\<And>a. out = Run a \<Longrightarrow> dcOutcome r \<noteq> OutcomeReject \<and>
      (a = as \<and> dcExecutedKey r = [] \<or> dcExecutedArgs r = a \<and> dcExecutedKey r = CallKey j name a)"
    and "(\<exists>a. out = Run a) \<or> (\<exists>code. out = Refusal code)"
  shows "records_decision j cx name key as (dcOutcome r = OutcomeReject) (decided cx r out st d)"
  using map_of_recordDecision_self [OF assms(1), of r out d] assms
  by (auto simp: records_decision_def decided_def disposed_def split: answer.splits)

lemma newDecision_sel [simp]:
  "dcTool (newDecision cfg cx name key as) = name" "dcCallID (newDecision cfg cx name key as) = cxCallID cx"
  "dcProposedKey (newDecision cfg cx name key as) = key" "dcProposedArgs (newDecision cfg cx name key as) = as"
  "dcExecutedKey (newDecision cfg cx name key as) = []" "dcOutcome (newDecision cfg cx name key as) = []"
  by (simp_all add: newDecision_def)

lemma with_verdict_sel [simp]:
  "dcTool (with_verdict v r) = dcTool r" "dcCallID (with_verdict v r) = dcCallID r" "dcProposedKey (with_verdict v r) = dcProposedKey r"
  "dcProposedArgs (with_verdict v r) = dcProposedArgs r" "dcExecutedKey (with_verdict v r) = dcExecutedKey r"
  "dcOutcome (with_verdict v r) = vdVerdict v"
  by (simp_all add: with_verdict_def)

lemma carry_out_records:
  assumes "records_all cx" "dcTool r = name" "dcCallID r = cxCallID cx" "dcProposedKey r = key" "dcProposedArgs r = as" "dcOutcome r \<noteq> OutcomeReject"
    and "edited = None \<Longrightarrow> dcExecutedKey r = []" "\<And>e. edited = Some e \<Longrightarrow> dcExecutedArgs r = e \<and> dcExecutedKey r = CallKey j name e"
  shows "records_decision j cx name key as (dcOutcome r = OutcomeReject) (carry_out j cfg cx name key effKey as edited v pending r st)"
proof -
  define d1 where "d1 = (if vdScope v = ScopeChangeSet then commitGrants j cx pending [] else [])"
  obtain co d2 where p: "permit j cfg cx name effKey (case edited of None \<Rightarrow> as | Some e \<Rightarrow> e) d1 = (co, d2)"
    by (metis surj_pair)
  have run: "records_decision j cx name key as (dcOutcome r = OutcomeReject) (decided cx r (Run a) st d)"
    if "a = as \<and> dcExecutedKey r = [] \<or> dcExecutedArgs r = a \<and> dcExecutedKey r = CallKey j name a" for a d
    by (rule decided_records [OF assms(1-5)]) (use that assms(6) in auto)
  have refuse: "records_decision j cx name key as (dcOutcome r = OutcomeReject) (decided cx r (Refusal code) st d)" for code d
    by (rule decided_records [OF assms(1-5)]) auto
  show ?thesis unfolding carry_out_def d1_def [symmetric] Let_def p
    using run refuse assms(7,8) by (cases co; cases edited) simp_all
qed

lemma OutcomeReject_ne [simp]: "OutcomeReject \<noteq> []" "[] \<noteq> OutcomeReject" "OutcomeEdit \<noteq> OutcomeReject" "OutcomeApprove \<noteq> OutcomeReject"
  by (simp_all add: verdict_consts)

lemma policy_verdict_deny:
  "policy_verdict st name key DecisionDeny = Some (e, st1) \<Longrightarrow> e = Some ErrUserDenied"
  by (auto simp: policy_verdict_def RecordMutationVerdict_def split: option.splits)

lemma executed_sel [simp]:
  "dcTool (executed j name ed r) = dcTool r" "dcCallID (executed j name ed r) = dcCallID r"
  "dcProposedKey (executed j name ed r) = dcProposedKey r" "dcProposedArgs (executed j name ed r) = dcProposedArgs r"
  "dcOutcome (executed j name ed r) = dcOutcome r" "executed j name None r = r"
  "dcExecutedKey (executed j name (Some n) r) = CallKey j name n" "dcExecutedArgs (executed j name (Some n) r) = n"
  by (simp_all add: executed_def split: option.split)

lemma honorVerdict_records:
  assumes "records_all cx"
  shows "records_decision j cx name key as (\<exists>v. DecodeVerdict c = Some v \<and> vdVerdict v = OutcomeReject)
     (honorVerdict j cfg cx st name key as c)"
proof (rule honorVerdict_cases)
  show "DecodeVerdict c = None \<Longrightarrow> records_decision j cx name key as (\<exists>v. DecodeVerdict c = Some v \<and> vdVerdict v = OutcomeReject)
      (decided cx (newDecision cfg cx name key as) (Refusal ''malformed_verdict'') st [])"
    using decided_records [OF assms, of "newDecision cfg cx name key as" name key as "Refusal ''malformed_verdict''" j] by simp
next
  fix v code assume "DecodeVerdict c = Some v"
  then show "records_decision j cx name key as (\<exists>v. DecodeVerdict c = Some v \<and> vdVerdict v = OutcomeReject)
      (decided cx (with_verdict v (newDecision cfg cx name key as)) (Refusal code) st [])"
    using decided_records [OF assms, of "with_verdict v (newDecision cfg cx name key as)" name key as "Refusal code" j] by simp
next
  fix v ed code assume "DecodeVerdict c = Some v"
  then show "records_decision j cx name key as (\<exists>v. DecodeVerdict c = Some v \<and> vdVerdict v = OutcomeReject)
      (decided cx (executed j name ed (with_verdict v (newDecision cfg cx name key as))) (Refusal code) st [])"
    using decided_records [OF assms, of "executed j name ed (with_verdict v (newDecision cfg cx name key as))" name key as "Refusal code" j] by simp
next
  fix v ed d err st1 assume "DecodeVerdict c = Some v"
  then show "records_decision j cx name key as (\<exists>v. DecodeVerdict c = Some v \<and> vdVerdict v = OutcomeReject)
      (verdict_refused cx (eff_key j name key ed) err (executed j name ed (with_verdict v (newDecision cfg cx name key as))) st1)"
    using decided_records [OF assms, of "executed j name ed (with_verdict v (newDecision cfg cx name key as))" name key as "Refusal code" j for code]
    by (cases err) (simp_all add: verdict_refused_def)
next
  fix v ed d pending st1
  assume v: "DecodeVerdict c = Some v" "Verdict_Decision v = Some d"
    and p: "policy_verdict st name (eff_key j name key ed) d = Some (None, st1)"
  have "vdVerdict v \<noteq> OutcomeReject" using policy_verdict_ok [OF p] v(2) by (auto simp: Verdict_Decision_def)
  then show "records_decision j cx name key as (\<exists>v. DecodeVerdict c = Some v \<and> vdVerdict v = OutcomeReject)
      (carry_out j cfg cx name key (eff_key j name key ed) as ed v pending
        (executed j name ed (with_verdict v (newDecision cfg cx name key as))) st1)"
    using carry_out_records [OF assms, of "executed j name ed (with_verdict v (newDecision cfg cx name key as))" name key as ed j
        cfg "eff_key j name key ed" v pending st1] v(1)
    by auto
qed (simp add: records_decision_def)

text \<open>Every verdict leaves a decision record. Whatever becomes of an operator's verdict, short of a panic, and where the
  records of the call reach its event, the delta of the call holds its decision record: the tool, the call and the proposed arguments as they
  were, authorized exactly if the call runs, refused by the operator exactly if the verdict was a
  rejection, and with the arguments that run where they were edited.\<close>

theorem verdict_recorded:
  assumes "records_all cx"
  shows "records_decision j cx name (CallKey j name as) as (\<exists>v. DecodeVerdict c = Some v \<and> vdVerdict v = OutcomeReject)
     (honorVerdict j cfg cx st name (CallKey j name as) as c)"
  using assms by (rule honorVerdict_records)

section \<open>A refusal holds for the turn\<close>

lemma suppress_keeps:
  "(\<exists>t. map_of r iid = Some t \<and> key \<in> set (trRefused t)) \<Longrightarrow>
     \<exists>t. map_of (snd (suppress i k r)) iid = Some t \<and> key \<in> set (trRefused t)"
  by (auto simp: suppress_def update_conv Let_def split: option.split)

lemma remember_keeps:
  "(\<exists>t. map_of r iid = Some t \<and> key \<in> set (trRefused t)) \<Longrightarrow>
     \<exists>t. map_of (remember i k r) iid = Some t \<and> key \<in> set (trRefused t)"
  by (auto simp: remember_def update_conv Let_def split: option.split)

lemma remember_refuses: "iid \<noteq> [] \<Longrightarrow> \<exists>t. map_of (remember iid key r) iid = Some t \<and> key \<in> set (trRefused t)"
  by (auto simp: remember_def update_conv Let_def split: option.split)

lemma suppress_refused:
  "refused_in st iid key \<Longrightarrow> iid \<noteq> [] \<Longrightarrow>
     \<exists>n. suppress iid key (wgRefused st) = ((True, suppressedCallsEndTurn \<le> n, n), snd (suppress iid key (wgRefused st)))"
  by (auto simp: refused_in_def suppress_def Let_def)

lemma policy_verdict_refused: "policy_verdict st name key d = Some (e, st1) \<Longrightarrow> wgRefused st1 = wgRefused st"
  by (auto simp: policy_verdict_def split: option.splits decision.splits prod.splits)

lemma carry_out_state [simp]: "fst (snd (carry_out j cfg cx name key effKey as edited v pending r st)) = st"
  by (auto simp: carry_out_def decided_def Let_def split: prod.split option.split)

lemma honorVerdict_refused: "refusals_grow cx st (honorVerdict j cfg cx st name key as c)"
proof (rule honorVerdict_cases)
  fix v ed d err st1 assume "policy_verdict st name (eff_key j name key ed) d = Some (Some err, st1)"
  from policy_verdict_refused [OF this]
  show "refusals_grow cx st (verdict_refused cx (eff_key j name key ed) err
      (executed j name ed (with_verdict v (newDecision cfg cx name key as))) st1)"
    by (cases err) (auto simp: verdict_refused_def refusals_grow_def decided_def)
qed (auto simp: refusals_grow_def decided_def dest: policy_verdict_refused)

lemma spendGrant_refused: "wgRefused (fst (snd (spendGrant j cfg cx st name key as g))) = wgRefused st"
  by (auto simp: spendGrant_def decided_def Let_def dest: policy_verdict_refused split: option.splits prod.splits)

lemma ask_operator_refused:
  "wgRefused (fst (snd (ask_operator j cfg cx st name key as))) = snd (suppress (cxInvocation cx) key (wgRefused st))"
  by (auto simp: ask_operator_def spendGrant_refused Let_def split: prod.splits option.split)

lemma refused_in_kept:
  assumes "refused_in st iid key"
  shows "refused_in (fst (snd (gate_beforeTool j cfg cx st name as))) iid key"
proof -
  have h: "refused_in (fst (snd (honorVerdict j cfg cx st name k as c))) iid key" for k c
    using assms honorVerdict_refused [of cx st j cfg name k as c] remember_keeps
    by (auto simp: refused_in_def refusals_grow_def)
  have a: "refused_in (fst (snd (ask_operator j cfg cx st name k as))) iid key" for k
    using assms suppress_keeps unfolding refused_in_def ask_operator_refused by blast
  have "refused_in (fst (snd (gate_mutating j cfg cx st name as))) iid key"
    using assms by (auto simp: gate_mutating_def h a Let_def split: option.split prod.split)
  then show ?thesis using assms by (auto simp: gate_beforeTool_def split: option.split prod.split)
qed

lemma policy_verdict_gate: "policy_verdict st name key d = Some (e, st1) \<Longrightarrow> wgGate st1 = None \<longleftrightarrow> wgGate st = None"
  by (auto simp: policy_verdict_def split: option.splits decision.splits prod.splits)

lemma gate_kept: "wgGate (fst (snd (gate_beforeTool j cfg cx st name as))) = None \<longleftrightarrow> wgGate st = None"
proof -
  have h: "wgGate (fst (snd (honorVerdict j cfg cx st name key as c))) = None \<longleftrightarrow> wgGate st = None" for key c
    by (rule honorVerdict_cases) (auto simp: decided_def verdict_refused_def dest: policy_verdict_gate split: perm_error.splits)
  have s: "wgGate (fst (snd (spendGrant j cfg cx st1 name key as g))) = None \<longleftrightarrow> wgGate st1 = None" for key st1 g
    by (auto simp: spendGrant_def decided_def Let_def dest: policy_verdict_gate split: option.splits prod.splits)
  have "wgGate (fst (snd (ask_operator j cfg cx st name key as))) = None \<longleftrightarrow> wgGate st = None" for key
    by (auto simp: ask_operator_def s Let_def split: option.splits prod.splits)
  then have "wgGate (fst (snd (gate_mutating j cfg cx st name as))) = None \<longleftrightarrow> wgGate st = None"
    by (auto simp: gate_mutating_def h Let_def split: option.split prod.split)
  then show ?thesis by (auto simp: gate_beforeTool_def split: option.splits prod.splits)
qed

lemma refused_call:
  assumes "refused_in st iid key" "iid \<noteq> []" "unanswered (cfg, cx, name, as)" "cxInvocation cx = iid" "CallKey j name as = key"
    and "wgGate st \<noteq> None"
  shows "turned_down (fst (gate_beforeTool j cfg cx st name as))"
proof -
  have u: "gcMutating cfg name" "gcPolicy cfg = OnMutationRequireApproval" "cxConfirmation cx = None"
    using assms(3) by (auto simp: unanswered_def)
  obtain n r where "suppress (cxInvocation cx) key (wgRefused st) = ((True, suppressedCallsEndTurn \<le> n, n), r)"
    using suppress_refused [OF assms(1,2)] assms(4) by metis
  then have "fst (ask_operator j cfg cx st name key as) = AlreadyRefused n (suppressedCallsEndTurn \<le> n)"
    by (simp add: ask_operator_def refuseRepeat_def)
  then show ?thesis using u assms(5,6)
    by (auto simp: turned_down_def gate_beforeTool_def gate_mutating_def case_prod_beta OnMutationRequireApproval_def OnMutationApply_def
        OnMutationDryRun_def policy_answer_def Let_def split: option.split)
qed

lemma refused_later:
  assumes "refused_in (snd s) iid key" "iid \<noteq> []" "k < length cs" "cs ! k = (cfg, cx, name, as)" "unanswered (cs ! k)"
    and "cxInvocation cx = iid" "CallKey j name as = key" "wgGate (snd s) \<noteq> None"
  shows "turned_down (run_calls j s cs ! k)"
  using assms
proof (induction cs arbitrary: s k)
  case (Cons c cs)
  obtain cfg' cx' name' as' where c: "c = (cfg', cx', name', as')" by (cases c) auto
  let ?b = "gate_beforeTool j cfg' (cx'\<lparr>cxState := fst s\<rparr>) (snd s) name' as'"
  have st: "call_step j s c = (fst ?b, apply_delta (snd (snd ?b)) (fst s), fst (snd ?b))"
    by (simp add: call_step_def c case_prod_beta Let_def)
  show ?case
  proof (cases k)
    case 0
    then have "unanswered (cfg, cx\<lparr>cxState := fst s\<rparr>, name, as)" using Cons.prems by (simp add: unanswered_def)
    then show ?thesis
      using refused_call [of "snd s" iid key cfg "cx\<lparr>cxState := fst s\<rparr>" name as j] Cons.prems 0 c st by simp
  next
    case (Suc k')
    have "refused_in (fst (snd ?b)) iid key" "wgGate (fst (snd ?b)) \<noteq> None"
      using refused_in_kept Cons.prems(1,8) by (simp_all add: gate_kept)
    then show ?thesis using Cons.IH [of "(apply_delta (snd (snd ?b)) (fst s), fst (snd ?b))" k'] Cons.prems Suc st by simp
  qed
qed simp

lemma reject_arms:
  assumes "DecodeVerdict c = Some v" "vdVerdict v = OutcomeReject" "cxInvocation cx \<noteq> []"
  shows "refused_in (fst (snd (honorVerdict j cfg cx st name key as c))) (cxInvocation cx) key"
proof -
  obtain st1 where "policy_verdict st name key DecisionDeny = Some (Some ErrUserDenied, st1)"
    by (cases "wgGate st") (auto simp: policy_verdict_def RecordMutationVerdict_def)
  then show ?thesis using assms remember_refuses [OF assms(3)]
    by (auto simp: honorVerdict_def Verdict_Decision_def verdict_refused_def decided_def refused_in_def edit_of_def
        OutcomeReject_ne [symmetric] Let_def)
qed

text \<open>An operator's no holds for the turn. After the operator rejected a call, the same call is
  neither run nor put to anybody again for the rest of that turn, whatever calls come in between: it
  is answered with the reminder that it was refused -- which ends the turn from the third time on -- or
  with a refusal of the policy.\<close>

theorem refused_for_the_turn:
  assumes "gate_beforeTool j cfg0 cx0 st name as = (out, st', d)" "gcMutating cfg0 name" "name \<noteq> approval_FinishTaskToolName"
    and "wgGate st \<noteq> None" "cxConfirmation cx0 = Some c" "DecodeVerdict c = Some v" "vdVerdict v = OutcomeReject"
    and "cxInvocation cx0 \<noteq> []"
    and "k < length cs" "cs ! k = (cfg, cx, name, as)" "unanswered (cs ! k)" "cxInvocation cx = cxInvocation cx0"
  shows "turned_down (run_calls j (s, st') cs ! k)"
proof -
  have "st' = fst (snd (honorVerdict j cfg0 cx0 st name (CallKey j name as) as c))"
    using assms(1-3,5) by (auto simp: gate_beforeTool_def gate_mutating_def checkChangeSet_def Let_def split: option.splits prod.splits)
  then have "refused_in (snd (s, st')) (cxInvocation cx0) (CallKey j name as)"
    using reject_arms [OF assms(6-8)] by simp
  moreover have "wgGate (snd (s, st')) \<noteq> None" using gate_kept [of j cfg0 cx0 st name as] assms(1,4) by simp
  ultimately show ?thesis using refused_later [OF _ assms(8-12)] by blast
qed

theorem refused_for_the_turn_witness:
  "turned_down (run_calls demo_codec (demo_sets, fst (snd (demo_resume (Some demo_rejection))))
     [(demo_config, demo_context ''1'' None, ''scale'', demo_args ''a'')] ! 0)"
proof -
  obtain st d where r: "demo_resume (Some demo_rejection) = (Refusal ''denied_by_operator'', st, d)"
    using gate_answerD [OF demo_rejected] by blast
  have v: "DecodeVerdict demo_rejection = Some (verdict0\<lparr>vdVerdict := OutcomeReject\<rparr>)"
    by (simp add: DecodeVerdict_def demo_rejection_def verdict0_def)
  show ?thesis unfolding r
    by (simp only: fst_conv snd_conv, rule refused_for_the_turn [OF r _ _ _ _ v, where cfg = demo_config and cx = "demo_context ''1'' None"])
      (simp_all add: demo_config_def demo_context_def demo_write_gate_def approval_FinishTaskToolName_def unanswered_def)
qed

lemma capture_take_captures:
  assumes "capture_take j cs name key as decl = Some cr"
  shows "captures cs decl cx name key as (cr\<lparr>crWorkload := w, crSpecialist := cxAgent cx, crSession := cxSession cx,
     crInvocation := cxInvocation cx, crCallID := cxCallID cx\<rparr>)"
  using assms by (auto simp: capture_take_def captures_def Let_def split: option.splits sum.splits)

lemma permit_captured:
  "records_all cx \<Longrightarrow> permit j cfg cx name (CallKey j name as) as d = (None, d') \<Longrightarrow> captured j cfg cx name as d'"
  by (auto simp: permit_def captured_def declared_capture_def update_conv
      intro: capture_take_captures split: option.splits sum.splits)

lemma captured_cong:
  "map_of d' (CaptureStateKey (cxCallID cx)) = map_of d (CaptureStateKey (cxCallID cx)) \<Longrightarrow>
     captured j cfg cx name as d' = captured j cfg cx name as d"
  by (simp add: captured_def split: option.split prod.split sum.split)

lemma captured_recordDecision [simp]:
  "captured j cfg cx name as (recordDecision cx r out d) = captured j cfg cx name as d"
  by (rule captured_cong) (simp add: map_of_recordDecision)

lemma captured_writeGrant [simp]: "captured j cfg cx name as (writeGrant j' cx' g d) = captured j cfg cx name as d"
  by (rule captured_cong) (simp add: writeGrant_def)

lemma captured_edit [simp]: "captured j cfg cx name as (put_record cx' (EditStateKey c) e d) = captured j cfg cx name as d"
  "captured j cfg cx name as (AList.update (EditStateKey c) e d) = captured j cfg cx name as d"
  by (rule captured_cong, simp add: update_conv)+

lemma carry_out_captured:
  assumes "records_all cx" "carry_out j cfg cx name key (eff_key j name key ed) as ed v pending r st = (Run a, st', d)" "key = CallKey j name as"
  shows "captured j cfg cx name a d"
  using assms by (auto simp: carry_out_def decided_def eff_key_def Let_def intro: permit_captured split: prod.splits option.splits)

lemma spendGrant_captured:
  assumes "records_all cx" "spendGrant j cfg cx st name (CallKey j name as) as g = (Run a, st', d)"
  shows "captured j cfg cx name a d"
  using assms by (auto simp: spendGrant_def decided_def Let_def intro: permit_captured split: prod.splits option.splits)

lemma honorVerdict_captured:
  assumes "records_all cx" "honorVerdict j cfg cx st name (CallKey j name as) as c = (Run a, st', d)"
  shows "captured j cfg cx name a d"
proof -
  have "\<forall>a st' d. honorVerdict j cfg cx st name (CallKey j name as) as c = (Run a, st', d) \<longrightarrow> captured j cfg cx name a d"
    by (rule honorVerdict_cases)
      (auto simp: decided_def verdict_refused_def dest: carry_out_captured [OF assms(1)] split: perm_error.splits)
  then show ?thesis using assms(2) by blast
qed

lemma gate_mutating_captured:
  assumes "records_all cx" "gate_mutating j cfg cx st name as = (Run a, st', d)"
  shows "captured j cfg cx name a d"
  using assms
  by (auto simp: gate_mutating_def ask_operator_def refuseRepeat_def Let_def
      intro: honorVerdict_captured spendGrant_captured permit_captured
      split: option.splits prod.splits if_splits)

lemma checkChangeSet_captures: "checkChangeSet j cfg cx name as = Some d \<Longrightarrow> map_of d (CaptureStateKey c) = None"
  by (auto simp: checkChangeSet_def recordChangeSet_def split: option.splits if_splits list.splits)

text \<open>What a change overwrites is captured before it runs. Under every policy and on every
  path -- applied, approved, edited or granted -- a mutating call with a declared capture only runs
  once its delta holds the capture, where the records of the call reach its event: taken for the arguments that run, read with the declared read, with
  the revert call where one is declared. A declaration that cannot be resolved lets nothing run.\<close>

theorem captured_before_run:
  assumes "records_all cx" "gcMutating cfg name" "gate_beforeTool j cfg cx st name as = (Run a, st', d)"
    and "gcCaptures cfg = Some cs" "csFor cs = Some decl_of" "decl_of name \<noteq> Inr None"
  shows "\<exists>decl cr. decl_of name = Inr (Some decl) \<and> map_of d (CaptureStateKey (cxCallID cx)) = Some (VCapture cr) \<and>
    captures cs decl cx name (CallKey j name a) a cr"
proof -
  obtain d0 d1 where "checkChangeSet j cfg cx name as = Some d0" "d = apply_delta d1 d0"
    and m: "gate_mutating j cfg cx st name as = (Run a, st', d1)"
    using assms(2,3) by (auto simp: gate_beforeTool_def split: option.splits prod.splits)
  moreover from this have "map_of d (CaptureStateKey (cxCallID cx)) = map_of d1 (CaptureStateKey (cxCallID cx))"
    using checkChangeSet_captures by (simp split: option.split)
  then have "captured j cfg cx name a d" using gate_mutating_captured [OF assms(1) m] captured_cong by blast
  then show ?thesis using assms(4-6)
    by (auto simp: captured_def declared_capture_def split: sum.splits option.splits)
qed

theorem captured_before_run_witness:
  "\<exists>decl cr. map_of (snd (snd (demo_resume (Some (demo_approval []))))) (CaptureStateKey ''0'') = Some (VCapture cr) \<and>
     captures demo_captures decl (demo_context ''0'' (Some (demo_approval []))) ''scale''
       (CallKey demo_codec ''scale'' (demo_args ''a'')) (demo_args ''a'') cr"
proof -
  obtain st d where r: "demo_resume (Some (demo_approval [])) = (Run (demo_args ''a''), st, d)"
    using demo_approved_once by blast
  obtain decl_of where f: "csFor demo_captures = Some decl_of" "decl_of ''scale'' \<noteq> Inr None" by (simp add: demo_captures_def)
  have "gcMutating demo_config ''scale''" "gcCaptures demo_config = Some demo_captures"
    and all: "records_all (demo_context ''0'' (Some (demo_approval [])))" by (simp_all add: demo_config_def demo_context_def records_all_def)
  from captured_before_run [OF all this(1) r this(2) f] show ?thesis unfolding r by (auto simp: demo_context_def)
qed

lemma mint_grants:
  assumes "mint j f sig key v chs = Some gs"
  shows "map (Some \<circ> cgSignature) gs = filter (\<lambda>s. s \<noteq> Some sig) (map (Change_Signature j) chs)"
    and "g \<in> set gs \<Longrightarrow> fresh_grant f key v g"
  using assms by (induction chs arbitrary: gs) (auto simp: fresh_grant_def split: option.splits if_splits)

lemma mint_signatures:
  assumes "mint j f sig key v chs = Some gs"
  shows "cgSignature ` set gs = {s. s \<noteq> sig \<and> (\<exists>ch \<in> set chs. Change_Signature j ch = Some s)}"
proof -
  have "Some ` (cgSignature ` set gs) = set (map (Some \<circ> cgSignature) gs)" by (simp add: image_image)
  also have "\<dots> = {s. s \<noteq> Some sig \<and> s \<in> Change_Signature j ` set chs}" using mint_grants(1) [OF assms] by auto
  finally have "Some s \<in> Some ` (cgSignature ` set gs) \<longleftrightarrow> s \<noteq> sig \<and> Some s \<in> Change_Signature j ` set chs" for s by auto
  then show ?thesis by (auto simp: image_iff) metis+
qed

lemma commitGrants_cases:
  "map_of (commitGrants j cx gs d) k = Some x \<Longrightarrow>
     (\<exists>g \<in> set gs. k = GrantStateKey j (cgSignature g) \<and> x = VGrant g) \<or> map_of d k = Some x"
  by (induction gs arbitrary: d) (fastforce simp: commitGrants_def writeGrant_def dest: put_record_cases)+

lemma commitGrants_keeps: "map_of d k \<noteq> None \<Longrightarrow> map_of (commitGrants j cx gs d) k \<noteq> None"
  by (induction gs arbitrary: d) (auto simp: commitGrants_def writeGrant_def put_record_def update_conv)

lemma commitGrants_holds: "records_all cx \<Longrightarrow> g \<in> set gs \<Longrightarrow> map_of (commitGrants j cx gs d) (GrantStateKey j (cgSignature g)) \<noteq> None"
proof (induction gs arbitrary: d)
  case (Cons g' gs)
  have step: "commitGrants j cx (g' # gs) d = commitGrants j cx gs (writeGrant j cx g' d)" by (simp add: commitGrants_def)
  show ?case
  proof (cases "g \<in> set gs")
    case False
    then have "map_of (writeGrant j cx g' d) (GrantStateKey j (cgSignature g)) \<noteq> None"
      using Cons.prems by (simp add: writeGrant_def update_conv)
    then show ?thesis unfolding step by (rule commitGrants_keeps)
  qed (simp add: Cons step)
qed simp

lemma carry_out_grants:
  assumes "carry_out j cfg cx name key effKey as ed v pending r st = (Run a, st', d)" "vdScope v = ScopeChangeSet"
  shows "map_of d (GrantStateKey j s) = map_of (commitGrants j cx pending []) (GrantStateKey j s)"
  using assms map_of_permit [of "GrantStateKey j s" cx j cfg name effKey _ "commitGrants j cx pending []"]
  by (auto simp: carry_out_def decided_def map_of_recordDecision Let_def split: prod.splits option.splits)
    (metis snd_conv)+

lemma mint_total: "mint j f sig key v chs = Some gs \<Longrightarrow> ch \<in> set chs \<Longrightarrow> Change_Signature j ch \<noteq> None"
  by (induction chs arbitrary: gs) (auto split: option.splits if_splits)

lemma commit_exactly:
  assumes all: "records_all cx" and m: "mint j f sig key v chs = Some gs"
    and d: "\<And>s. map_of d (GrantStateKey j s) = map_of (commitGrants j cx gs []) (GrantStateKey j s)"
  shows "grants_exactly j f sig key v chs d"
  unfolding grants_exactly_def
proof (intro conjI allI impI ballI)
  fix s g assume "map_of d (GrantStateKey j s) = Some (VGrant g)"
  then have g: "g \<in> set gs" using d commitGrants_cases by fastforce
  then show "fresh_grant f key v g" by (rule mint_grants(2) [OF m])
  show "cgSignature g \<noteq> sig" "\<exists>ch \<in> set chs. Change_Signature j ch = Some (cgSignature g)"
    using g mint_signatures [OF m] by auto
next
  fix ch s assume "ch \<in> set chs" "Change_Signature j ch = Some s" "s \<noteq> sig"
  then have "s \<in> cgSignature ` set gs" unfolding mint_signatures [OF m] by blast
  then obtain g where g: "g \<in> set gs" "cgSignature g = s" by blast
  obtain x where x: "map_of (commitGrants j cx gs []) (GrantStateKey j s) = Some x"
    using commitGrants_holds [OF all g(1), of j "[]"] g(2) by auto
  then obtain g' where "g' \<in> set gs" "GrantStateKey j s = GrantStateKey j (cgSignature g')" "x = VGrant g'"
    using commitGrants_cases by fastforce
  then show "\<exists>g. map_of d (GrantStateKey j s) = Some (VGrant g) \<and> GrantStateKey j (cgSignature g) = GrantStateKey j s"
    using d x by metis
qed (use mint_total [OF m] in blast)

lemma honorVerdict_change_set:
  assumes "records_all cx" "cxConfirmation cx = Some c" "honorVerdict j cfg cx st name (CallKey j name as) as c = (Run a, st', d)"
    and "DecodeVerdict c = Some v" "vdScope v = ScopeChangeSet"
  shows "\<exists>f sig sp changes. gcGrants cfg = Some f \<and> Signature j name as = Some sig \<and> changeSetFor j cx sig = Some (sp, changes) \<and>
    Legible j changes \<and> vdVerdict v \<noteq> OutcomeEdit \<and> a = as \<and> grants_exactly j f sig (CallKey j name as) v changes d"
proof -
  define key where "key = CallKey j name as"
  have nr: "vdVerdict v \<noteq> OutcomeReject"
    using honorVerdict_run [OF assms(3,2)] assms(2,4) by (auto simp: operator_approved_def Verdict_Decision_def)
  have "\<forall>a st' d. honorVerdict j cfg cx st name key as c = (Run a, st', d) \<longrightarrow>
      (\<exists>ed pending r st1. planGrants j cfg cx name (eff_key j name key ed) as v = Some pending \<and> edits_to j cx st name v ed \<and>
         carry_out j cfg cx name key (eff_key j name key ed) as ed v pending r st1 = (Run a, st', d))"
    by (rule honorVerdict_cases) (use assms(4,5) nr in \<open>auto simp: decided_def verdict_refused_def split: perm_error.splits\<close>)
  then obtain ed pending r st1 where p: "planGrants j cfg cx name (eff_key j name key ed) as v = Some pending" "edits_to j cx st name v ed"
      and c: "carry_out j cfg cx name key (eff_key j name key ed) as ed v pending r st1 = (Run a, st', d)"
    using assms(3) key_def by metis
  have ne: "vdVerdict v \<noteq> OutcomeEdit" using p by (auto simp: planGrants_def split: option.splits)
  then have un: "ed = None" using p(2) by (auto simp: edits_to_def split: option.splits)
  obtain f sig sp changes where ch: "gcGrants cfg = Some f" "Signature j name as = Some sig" "changeSetFor j cx sig = Some (sp, changes)"
      "Legible j changes" "mint j f sig key v changes = Some pending"
    using p un by (auto simp: planGrants_def eff_key_def split: option.splits if_splits)
  have "grants_exactly j f sig key v changes d"
    using commit_exactly [OF assms(1) ch(5)] carry_out_grants [OF c assms(5)] by blast
  moreover have "a = as" using carry_out_run [OF c] un by simp
  ultimately show ?thesis using ch ne key_def by auto
qed

lemma gate_mutating_honor:
  "cxConfirmation cx = Some c \<Longrightarrow> gate_mutating j cfg cx st name as = honorVerdict j cfg cx st name (CallKey j name as) as c"
  by (simp add: gate_mutating_def Let_def)

lemma honored_change_set:
  assumes "records_all cx" "gcMutating cfg name" "gate_beforeTool j cfg cx st name as = (Run a, st', d)"
    and "cxConfirmation cx = Some c" "DecodeVerdict c = Some v" "vdScope v = ScopeChangeSet"
  shows "\<exists>f sig sp changes. gcGrants cfg = Some f \<and> Signature j name as = Some sig \<and> changeSetFor j cx sig = Some (sp, changes) \<and>
    Legible j changes \<and> a = as \<and> grants_exactly j f sig (CallKey j name as) v changes d"
proof -
  obtain d0 d1 where c0: "checkChangeSet j cfg cx name as = Some d0" "d = apply_delta d1 d0"
    and m: "honorVerdict j cfg cx st name (CallKey j name as) as c = (Run a, st', d1)"
    using assms(2,3) gate_mutating_honor [OF assms(4)] by (auto simp: gate_beforeTool_def split: option.splits prod.splits)
  have "map_of d (GrantStateKey j s) = map_of d1 (GrantStateKey j s)" for s
    using c0(2) checkChangeSet_grants [OF c0(1)] by (simp split: option.split)
  then have "grants_exactly j f sig key v changes d = grants_exactly j f sig key v changes d1" for f sig key changes
    by (simp add: grants_exactly_def)
  then show ?thesis using honorVerdict_change_set [OF assms(1,4) m assms(5,6)] by auto
qed

lemma changeSetFor_in:
  assumes "set (cxRange cx (recordedChangeSets cx)) = set (recordedChangeSets cx)"
  shows "changeSetFor j cx sig = Some e \<Longrightarrow> e \<in> sets_with j cx sig"
    and "changeSetFor j cx sig = None \<Longrightarrow> sets_with j cx sig = {}"
  using assms by (auto simp: changeSetFor_def sets_with_def find_Some_iff find_None_iff case_prod_beta)

lemma changeSetFor_unique:
  assumes "set (cxRange cx (recordedChangeSets cx)) = set (recordedChangeSets cx)" "sets_with j cx sig = {e}"
  shows "changeSetFor j cx sig = Some e"
  using changeSetFor_in [OF assms(1), of j sig] assms(2) by (cases "changeSetFor j cx sig") auto

lemma parked_shows:
  assumes "gate_beforeTool j cfg cx st name as = (Parked w (Some sh), st', d)"
  shows "\<exists>f sig. gcGrants cfg = Some f \<and> Signature j name as = Some sig \<and> changeSetFor j cx sig = Some (ssSpecialist sh, ssChanges sh)"
proof -
  have h: "\<forall>w x. fst (honorVerdict j cfg cx st name key as c) \<noteq> Parked w x" for key c
    by (rule honorVerdict_cases) (auto simp: decided_def verdict_refused_def carry_out_def Let_def split: perm_error.splits prod.splits option.splits)
  have s: "fst (spendGrant j cfg cx st1 name key as g) \<noteq> Parked w x" for st1 key g w x
    by (auto simp: spendGrant_def decided_def Let_def split: prod.splits option.splits)
  have "fst (gate_mutating j cfg cx st name as) = Parked w (Some sh)"
    using assms by (auto simp: gate_beforeTool_def split: option.splits if_splits prod.splits)
  then have "changeSetContextFor j cfg cx name as = Some sh"
    using h s by (auto simp: gate_mutating_def ask_operator_def refuseRepeat_def Let_def split: option.splits prod.splits if_splits)
  then show ?thesis by (auto simp: changeSetContextFor_def Let_def split: option.splits prod.splits)
qed

text \<open>The answer for a change set grants what the question showed. When a call was parked with
  a change set shown, and the operator's approval with the scope of the change set let it run, then the
  grants written are fresh and are those of the changes shown, all but the call itself -- provided the
  call belongs to one recorded set, so that the order of ranging over the state cannot matter, and the records of the call reach its event.\<close>

theorem shown_set_is_granted:
  assumes "gate_beforeTool j cfg cx st name as = (Parked w (Some sh), st1, d1)"
    and "gate_beforeTool j cfg' cx' st2 name as = (Run a, st3, d)" "gcMutating cfg' name"
    and "cxConfirmation cx' = Some c" "DecodeVerdict c = Some v" "vdScope v = ScopeChangeSet"
    and "Signature j name as = Some sig" "sets_with j cx sig = {e}" "sets_with j cx' sig = {e}"
    and "records_all cx'"
    and "set (cxRange cx (recordedChangeSets cx)) = set (recordedChangeSets cx)"
    and "set (cxRange cx' (recordedChangeSets cx')) = set (recordedChangeSets cx')"
  shows "\<exists>f. grants_exactly j f sig (CallKey j name as) v (ssChanges sh) d"
proof -
  have "e = (ssSpecialist sh, ssChanges sh)"
    using parked_shows [OF assms(1)] assms(7) changeSetFor_unique [OF assms(11,8)] by auto
  then have "changeSetFor j cx' sig = Some (ssSpecialist sh, ssChanges sh)" using changeSetFor_unique [OF assms(12,9)] by simp
  then show ?thesis using honored_change_set [OF assms(10,3,2,4,5,6)] assms(7) by auto
qed

theorem shown_set_is_granted_witness:
  "\<exists>f sh. (\<exists>st d. demo_resume None = (Parked None (Some sh), st, d)) \<and>
     grants_exactly demo_codec f (the (Signature demo_codec ''scale'' (demo_args ''a''))) (CallKey demo_codec ''scale'' (demo_args ''a''))
       (the (DecodeVerdict (demo_approval ScopeChangeSet))) (ssChanges sh)
       (snd (snd (demo_resume (Some (demo_approval ScopeChangeSet)))))"
proof -
  let ?sig = "the (Signature demo_codec ''scale'' (demo_args ''a''))"
  obtain sh where "fst (demo_resume None) = Parked None (Some sh)" using demo_asked by blast
  from gate_answerD [OF this] obtain st1 d1 where p: "demo_resume None = (Parked None (Some sh), st1, d1)" by blast
  obtain st3 d where r: "demo_resume (Some (demo_approval ScopeChangeSet)) = (Run (demo_args ''a''), st3, d)"
    using demo_approved_set by blast
  let ?e = "(''planner'', [\<lparr>pcTool = ''scale'', pcArguments = demo_args ''a''\<rparr>, \<lparr>pcTool = ''scale'', pcArguments = demo_args ''b''\<rparr>])"
  have rec: "recordedChangeSets (demo_context ''0'' c) = [?e]" for c
  proof -
    have "recordedChangeSets (demo_context ''0'' None) = [?e]" by code_simp
    then show ?thesis by (simp add: recordedChangeSets_def demo_context_def)
  qed
  have sig: "Signature demo_codec ''scale'' (demo_args ''a'') = Some ?sig" by code_simp
  have s: "sets_with demo_codec (demo_context ''0'' c) ?sig = {?e}" for c
    unfolding sets_with_def rec using sig by (auto simp: Change_Signature_def)
  have v: "DecodeVerdict (demo_approval ScopeChangeSet) = Some (the (DecodeVerdict (demo_approval ScopeChangeSet)))"
     "vdScope (the (DecodeVerdict (demo_approval ScopeChangeSet))) = ScopeChangeSet" by code_simp+
  have "\<exists>f. grants_exactly demo_codec f ?sig (CallKey demo_codec ''scale'' (demo_args ''a''))
      (the (DecodeVerdict (demo_approval ScopeChangeSet))) (ssChanges sh) d"
    by (rule shown_set_is_granted [OF p r _ _ v sig s s]) (simp_all add: demo_config_def demo_context_def records_all_def)
  then show ?thesis using p r by auto
qed

text \<open>A call that belongs to two recorded sets is shown with one and may be granted with the other. The set is
  the first one met while ranging over the session state, whose order is not fixed: here the question
  shows a set without the change on \<^verbatim>\<open>b\<close>, and the approval of the change set grants that change.\<close>

theorem shown_may_differ_from_granted:
  "\<exists>sh d. fst (gate_beforeTool demo_codec demo_config ((demo_context ''0'' None)\<lparr>cxState := demo_two_sets\<rparr>) demo_write_gate
       ''scale'' (demo_args ''a'')) = Parked None (Some sh) \<and>
     snd (snd (gate_beforeTool demo_codec demo_config
       ((demo_context ''0'' (Some (demo_approval ScopeChangeSet)))\<lparr>cxState := demo_two_sets, cxRange := rev\<rparr>) demo_write_gate
       ''scale'' (demo_args ''a''))) = d \<and>
     (\<exists>g. map_of d (GrantStateKey demo_codec (the (Signature demo_codec ''scale'' (demo_args ''b'')))) = Some (VGrant g)) \<and>
     list_all (\<lambda>ch. pcArguments ch \<noteq> demo_args ''b'') (ssChanges sh)"
proof -
  let ?cx = "(demo_context ''0'' None)\<lparr>cxState := demo_two_sets\<rparr>"
  let ?d = "snd (snd (gate_beforeTool demo_codec demo_config
       ((demo_context ''0'' (Some (demo_approval ScopeChangeSet)))\<lparr>cxState := demo_two_sets, cxRange := rev\<rparr>) demo_write_gate
       ''scale'' (demo_args ''a'')))"
  let ?c = "changeSetContextFor demo_codec demo_config ?cx ''scale'' (demo_args ''a'')"
  have p: "fst (gate_beforeTool demo_codec demo_config ?cx demo_write_gate ''scale'' (demo_args ''a'')) = Parked None ?c" by code_simp
  have c: "case ?c of None \<Rightarrow> False | Some sh \<Rightarrow> list_all (\<lambda>ch. pcArguments ch \<noteq> demo_args ''b'') (ssChanges sh)" by code_simp
  have g: "case map_of ?d (GrantStateKey demo_codec (the (Signature demo_codec ''scale'' (demo_args ''b'')))) of
      Some (VGrant g) \<Rightarrow> True | _ \<Rightarrow> False" by code_simp
  show ?thesis using p c g by (auto split: option.splits st_val.splits)
qed

text \<open>Under \<^verbatim>\<open>apply\<close> the permission policy is not asked. A mutating call that the permission gate denies by a
  configured rule runs under that policy, with no captures or change sets declared.\<close>

theorem apply_ignores_deny:
  assumes "gcPolicy cfg = OnMutationApply" "gcCaptures cfg = None" "gcChangeSet cfg = None" "cxConfirmation cx = None"
    and "policy_answer cx st name (CallKey j name as) = Some ErrPolicyDenied"
  shows "gate_beforeTool j cfg cx st name as = (Run as, st, [])"
  using assms by (simp add: gate_beforeTool_def gate_mutating_def permit_def checkChangeSet_def apply_delta_def)

theorem apply_ignores_deny_witness:
  "gate_beforeTool demo_codec (demo_config\<lparr>gcPolicy := OnMutationApply, gcCaptures := None\<rparr>) (demo_context ''0'' None)
     (demo_write_gate\<lparr>wgShared := demo_shared\<lparr>shPolicy := \<lparr>plAllow = [], plDeny = [\<lparr>rlTool = ''scale'', rlPat = ''*''\<rparr>]\<rparr>\<rparr>\<rparr>)
     ''scale'' (demo_args ''a'') =
   (Run (demo_args ''a''),
    demo_write_gate\<lparr>wgShared := demo_shared\<lparr>shPolicy := \<lparr>plAllow = [], plDeny = [\<lparr>rlTool = ''scale'', rlPat = ''*''\<rparr>]\<rparr>\<rparr>\<rparr>, [])"
proof -
  let ?st = "demo_write_gate\<lparr>wgShared := demo_shared\<lparr>shPolicy := \<lparr>plAllow = [], plDeny = [\<lparr>rlTool = ''scale'', rlPat = ''*''\<rparr>]\<rparr>\<rparr>\<rparr>"
  have "policy_answer (demo_context ''0'' None) ?st ''scale'' (CallKey demo_codec ''scale'' (demo_args ''a'')) = Some ErrPolicyDenied"
    by code_simp
  from apply_ignores_deny [OF _ _ _ _ this] show ?thesis by (simp add: demo_config_def demo_context_def)
qed

end
