(* ===== verification/Lease.thy ===== *)
theory Lease
  imports Mast_Prelude
begin

text \<open>
  The leases of \<^verbatim>\<open>src/internal/eventlog/lock.go\<close>: a row of the session store with a heartbeat, taken by
  inserting it or by stealing a stale one, refreshed by a goroutine, dropped by deleting it; and
  \<^verbatim>\<open>src/internal/cli/schedlease.go\<close>, the boot of a daemon that asks for the fleet's lease.

  Every SQL statement is one atomic step on the table, which may fail and then changes nothing; the
  statements of different processes interleave in any order. The clock, the failures and the holder ids
  come from the outside; a holder id is a host, a process id and four random bytes, and is taken to be
  new for each acquisition.
\<close>

section \<open>Rows and statements\<close>

type_synonym lock_key = "string \<times> string \<times> string"

record lock_row =
  rwHolder :: string
  rwAcquiredAt :: gotime
  rwHeartbeatAt :: gotime

type_synonym lock_table = "(lock_key, lock_row) gomap"

definition seconds :: "int \<Rightarrow> duration" where "seconds n = n * 1000000000"

record lease_timing =
  ltHeartbeat :: duration
  ltStale :: duration
  ltTimeout :: duration

definition sessionTiming :: lease_timing where
  "sessionTiming = \<lparr>ltHeartbeat = seconds 5, ltStale = seconds 30, ltTimeout = seconds 10\<rparr>"

definition InstanceLeaseStaleAfter :: duration where "InstanceLeaseStaleAfter = seconds 8"

definition instanceTiming :: lease_timing where
  "instanceTiming = \<lparr>ltHeartbeat = seconds 2, ltStale = InstanceLeaseStaleAfter, ltTimeout = seconds 10\<rparr>"

definition instanceLeaseApp :: string where "instanceLeaseApp = ''mast:instance''"
definition instanceLeaseUser :: string where "instanceLeaseUser = ''mast:lease''"

text \<open>An insert is refused by the primary key; an update or a delete has the holder in its predicate and
  answers with the number of rows it changed.\<close>

definition sql_create :: "lock_key \<Rightarrow> lock_row \<Rightarrow> lock_table \<Rightarrow> lock_table option" where
  "sql_create k r t = (case map_of t k of None \<Rightarrow> Some (AList.update k r t) | Some _ \<Rightarrow> None)"

definition sql_update :: "lock_key \<Rightarrow> string \<Rightarrow> (lock_row \<Rightarrow> lock_row) \<Rightarrow> lock_table \<Rightarrow> nat \<times> lock_table" where
  "sql_update k holder f t =
     (case map_of t k of
        Some r \<Rightarrow> if rwHolder r = holder then (1, AList.update k (f r) t) else (0, t)
      | None \<Rightarrow> (0, t))"

definition sql_delete :: "lock_key \<Rightarrow> string \<Rightarrow> lock_table \<Rightarrow> lock_table" where
  "sql_delete k holder t =
     (case map_of t k of Some r \<Rightarrow> if rwHolder r = holder then AList.delete k t else t | None \<Rightarrow> t)"

section \<open>An acquisition\<close>

datatype lease_error = AcquireFailed | SessionLocked string gotime | LostStealRace | StealFailed

datatype phase =
    Inserting
  | LookingUp
  | Stealing string
  | Refused lease_error
  | Held

text \<open>
  An acquisition and the lock it returns: what \<^verbatim>\<open>acquireLock\<close> was called with and chose, the statement it
  has reached, and of the lock whether it was released, whether its heartbeat goroutine runs, whether it
  was found lost and whether its row was deleted by the release.
\<close>

record session_lock =
  slKey :: lock_key
  slTiming :: lease_timing
  slHolder :: string
  slNow :: gotime
  slPhase :: phase
  slReleased :: bool
  slLoop :: bool
  slLost :: bool
  slDeleted :: bool

definition begin_acquire :: "lock_key \<Rightarrow> lease_timing \<Rightarrow> string \<Rightarrow> gotime \<Rightarrow> session_lock" where
  "begin_acquire k tm holder now =
     \<lparr>slKey = k, slTiming = tm, slHolder = holder, slNow = now, slPhase = Inserting, slReleased = False, slLoop = False,
      slLost = False, slDeleted = False\<rparr>"

definition held :: "session_lock \<Rightarrow> session_lock" where
  "held l = l\<lparr>slPhase := Held, slLoop := True\<rparr>"

definition acquire_insert :: "bool \<Rightarrow> session_lock \<Rightarrow> lock_table \<Rightarrow> session_lock \<times> lock_table" where
  "acquire_insert fails l t =
     (case (if fails then None
            else sql_create (slKey l) \<lparr>rwHolder = slHolder l, rwAcquiredAt = slNow l, rwHeartbeatAt = slNow l\<rparr> t) of
        None \<Rightarrow> (l\<lparr>slPhase := LookingUp\<rparr>, t)
      | Some t' \<Rightarrow> (held l, t'))"

definition acquire_lookup :: "bool \<Rightarrow> gotime \<Rightarrow> session_lock \<Rightarrow> lock_table \<Rightarrow> session_lock" where
  "acquire_lookup fails now l t =
     (case (if fails then None else map_of t (slKey l)) of
        None \<Rightarrow> l\<lparr>slPhase := Refused AcquireFailed\<rparr>
      | Some r \<Rightarrow>
          if now - rwHeartbeatAt r \<le> ltStale (slTiming l)
          then l\<lparr>slPhase := Refused (SessionLocked (rwHolder r) (now - rwHeartbeatAt r))\<rparr>
          else l\<lparr>slPhase := Stealing (rwHolder r)\<rparr>)"

definition acquire_steal :: "bool \<Rightarrow> string \<Rightarrow> session_lock \<Rightarrow> lock_table \<Rightarrow> session_lock \<times> lock_table" where
  "acquire_steal fails existing l t =
     (if fails then (l\<lparr>slPhase := Refused StealFailed\<rparr>, t)
      else let (rows, t') = sql_update (slKey l) existing
                (\<lambda>r. r\<lparr>rwHolder := slHolder l, rwAcquiredAt := slNow l, rwHeartbeatAt := slNow l\<rparr>) t
           in if rows = 0 then (l\<lparr>slPhase := Refused LostStealRace\<rparr>, t') else (held l, t'))"

text \<open>The next statement of an acquisition.\<close>

definition acquire_next :: "bool \<Rightarrow> gotime \<Rightarrow> session_lock \<Rightarrow> lock_table \<Rightarrow> session_lock \<times> lock_table" where
  "acquire_next fails now l t =
     (case slPhase l of
        Inserting \<Rightarrow> acquire_insert fails l t
      | LookingUp \<Rightarrow> (acquire_lookup fails now l t, t)
      | Stealing h \<Rightarrow> acquire_steal fails h l t
      | _ \<Rightarrow> (l, t))"

text \<open>The whole acquisition with nobody in between and no failure.\<close>

definition acquireLock :: "lock_key \<Rightarrow> lease_timing \<Rightarrow> string \<Rightarrow> gotime \<Rightarrow> lock_table \<Rightarrow> session_lock \<times> lock_table" where
  "acquireLock k tm holder now t =
     (let (l1, t1) = acquire_next False now (begin_acquire k tm holder now) t;
          (l2, t2) = acquire_next False now l1 t1
      in acquire_next False now l2 t2)"

definition AcquireLock :: "string \<Rightarrow> string \<Rightarrow> string \<Rightarrow> string \<Rightarrow> gotime \<Rightarrow> lock_table \<Rightarrow> session_lock \<times> lock_table" where
  "AcquireLock app user session holder now t = acquireLock (app, user, session) sessionTiming holder now t"

text \<open>\<open>None\<close> is the refusal of an empty name.\<close>

definition AcquireInstanceLease :: "string \<Rightarrow> string \<Rightarrow> gotime \<Rightarrow> lock_table \<Rightarrow> (session_lock \<times> lock_table) option" where
  "AcquireInstanceLease name holder now t =
     (if name = [] then None
      else Some (acquireLock (instanceLeaseApp, instanceLeaseUser, name) instanceTiming holder now t))"

section \<open>The held lock\<close>

text \<open>Whether the lease is lost, and the table.\<close>

definition beat :: "bool \<Rightarrow> gotime \<Rightarrow> session_lock \<Rightarrow> lock_table \<Rightarrow> bool \<times> lock_table" where
  "beat fails now l t =
     (if fails then (False, t)
      else let (rows, t') = sql_update (slKey l) (slHolder l) (\<lambda>r. r\<lparr>rwHeartbeatAt := now\<rparr>) t in (rows = 0, t'))"

definition heartbeat_tick :: "bool \<Rightarrow> gotime \<Rightarrow> session_lock \<Rightarrow> lock_table \<Rightarrow> session_lock \<times> lock_table" where
  "heartbeat_tick fails now l t =
     (let (lost, t') = beat fails now l t in (if lost then l\<lparr>slLost := True, slLoop := False\<rparr> else l, t'))"

text \<open>A release marks the lock, waits for the goroutine to end and deletes the row.\<close>

definition release_mark :: "session_lock \<Rightarrow> session_lock" where
  "release_mark l = (if slReleased l then l else l\<lparr>slReleased := True\<rparr>)"

definition loop_stop :: "session_lock \<Rightarrow> session_lock" where
  "loop_stop l = l\<lparr>slLoop := False\<rparr>"

definition release_row :: "bool \<Rightarrow> session_lock \<Rightarrow> lock_table \<Rightarrow> session_lock \<times> lock_table" where
  "release_row fails l t =
     (l\<lparr>slDeleted := True\<rparr>, if fails then t else sql_delete (slKey l) (slHolder l) t)"

section \<open>Processes that share the store\<close>

record lease_sys =
  lsTable :: lock_table
  lsClock :: gotime
  lsLocks :: "(nat, session_lock) gomap"

datatype lease_op =
    Tick duration
  | BeginAcquire nat lock_key lease_timing string
  | Statement nat bool
  | HeartbeatTick nat bool
  | ReleaseCall nat
  | LoopStop nat
  | ReleaseRow nat bool

definition with_lock ::
  "nat \<Rightarrow> lease_sys \<Rightarrow> (session_lock \<Rightarrow> lock_table \<Rightarrow> session_lock \<times> lock_table) \<Rightarrow> lease_sys" where
  "with_lock i s f =
     (case map_of (lsLocks s) i of
        None \<Rightarrow> s
      | Some l \<Rightarrow> (let (l', t') = f l (lsTable s) in s\<lparr>lsTable := t', lsLocks := AList.update i l' (lsLocks s)\<rparr>))"

fun lease_exec :: "lease_op \<Rightarrow> lease_sys \<Rightarrow> lease_sys" where
  "lease_exec (Tick d) s = s\<lparr>lsClock := lsClock s + d\<rparr>"
| "lease_exec (BeginAcquire i k tm holder) s =
     s\<lparr>lsLocks := AList.update i (begin_acquire k tm holder (lsClock s)) (lsLocks s)\<rparr>"
| "lease_exec (Statement i fails) s = with_lock i s (acquire_next fails (lsClock s))"
| "lease_exec (HeartbeatTick i fails) s = with_lock i s (heartbeat_tick fails (lsClock s))"
| "lease_exec (ReleaseCall i) s = with_lock i s (\<lambda>l t. (release_mark l, t))"
| "lease_exec (LoopStop i) s = with_lock i s (\<lambda>l t. (loop_stop l, t))"
| "lease_exec (ReleaseRow i fails) s = with_lock i s (release_row fails)"

text \<open>What the code can do next: time does not go back, a new acquisition has a new holder id, the
  goroutine beats while it runs and stops once released, and the row goes after that.\<close>

definition lock_is :: "lease_sys \<Rightarrow> nat \<Rightarrow> (session_lock \<Rightarrow> bool) \<Rightarrow> bool" where
  "lock_is s i P = (case map_of (lsLocks s) i of None \<Rightarrow> False | Some l \<Rightarrow> P l)"

fun lease_enabled :: "lease_op \<Rightarrow> lease_sys \<Rightarrow> bool" where
  "lease_enabled (Tick d) s \<longleftrightarrow> 0 \<le> d"
| "lease_enabled (BeginAcquire i k tm holder) s \<longleftrightarrow>
     map_of (lsLocks s) i = None \<and> holder \<notin> slHolder ` snd ` set (lsLocks s)"
| "lease_enabled (Statement i fails) s \<longleftrightarrow> lock_is s i (\<lambda>_. True)"
| "lease_enabled (HeartbeatTick i fails) s \<longleftrightarrow> lock_is s i slLoop"
| "lease_enabled (ReleaseCall i) s \<longleftrightarrow> lock_is s i (\<lambda>l. slPhase l = Held)"
| "lease_enabled (LoopStop i) s \<longleftrightarrow> lock_is s i slReleased"
| "lease_enabled (ReleaseRow i fails) s \<longleftrightarrow> lock_is s i (\<lambda>l. slReleased l \<and> \<not> slLoop l \<and> \<not> slDeleted l)"

inductive lease_steps :: "lease_sys \<Rightarrow> lease_sys \<Rightarrow> bool" where
  steps_refl: "lease_steps s s"
| steps_step: "lease_steps s s' \<Longrightarrow> lease_enabled op s' \<Longrightarrow> lease_steps s (lease_exec op s')"

definition lease_sys0 :: "gotime \<Rightarrow> lease_sys" where
  "lease_sys0 now = \<lparr>lsTable = [], lsClock = now, lsLocks = []\<rparr>"

text \<open>The lock whose holder is in the row.\<close>

definition in_row :: "session_lock \<Rightarrow> lock_table \<Rightarrow> bool" where
  "in_row l t \<longleftrightarrow> (case map_of t (slKey l) of None \<Rightarrow> False | Some r \<Rightarrow> rwHolder r = slHolder l)"

definition owns :: "lease_sys \<Rightarrow> nat \<Rightarrow> bool" where
  "owns s i = lock_is s i (\<lambda>l. in_row l (lsTable s))"

text \<open>A lock that was found lost is not in its row, and only a lock that was acquired beats; holder ids
  are unique, and only an acquisition that succeeded is in a row.\<close>

definition lock_ok :: "session_lock \<Rightarrow> lock_table \<Rightarrow> bool" where
  "lock_ok l t \<longleftrightarrow> (slLost l \<longrightarrow> slPhase l = Held \<and> \<not> in_row l t \<and> \<not> slLoop l) \<and> (slLoop l \<longrightarrow> slPhase l = Held)"

definition lease_wf :: "lease_sys \<Rightarrow> bool" where
  "lease_wf s \<longleftrightarrow>
     (\<forall>i j l m. map_of (lsLocks s) i = Some l \<longrightarrow> map_of (lsLocks s) j = Some m \<longrightarrow> slHolder l = slHolder m \<longrightarrow> i = j) \<and>
     (\<forall>k r. map_of (lsTable s) k = Some r \<longrightarrow>
        (\<exists>i l. map_of (lsLocks s) i = Some l \<and> slHolder l = rwHolder r \<and> slKey l = k \<and> slPhase l = Held)) \<and>
     (\<forall>i l. map_of (lsLocks s) i = Some l \<longrightarrow> lock_ok l (lsTable s))"

text \<open>How a statement changes its lock and the rows: the rows it leaves were there, or are its own.\<close>

definition lock_step :: "session_lock \<Rightarrow> session_lock \<Rightarrow> bool" where
  "lock_step l l' \<longleftrightarrow> slKey l' = slKey l \<and> slHolder l' = slHolder l \<and> (slPhase l = Held \<longrightarrow> slPhase l' = Held)"

definition row_step :: "session_lock \<Rightarrow> session_lock \<Rightarrow> lock_table \<Rightarrow> lock_table \<Rightarrow> bool" where
  "row_step l l' t t' \<longleftrightarrow>
     (\<forall>k r. map_of t' k = Some r \<longrightarrow>
        (\<exists>r0. map_of t k = Some r0 \<and> rwHolder r0 = rwHolder r) \<or>
        (k = slKey l \<and> rwHolder r = slHolder l \<and> slPhase l \<noteq> Held \<and> slPhase l' = Held))"

section \<open>The boot of a daemon (schedlease.go)\<close>

definition schedulingLeaseName :: "string \<Rightarrow> string" where
  "schedulingLeaseName w = (if w = [] then ''scheduling'' else ''scheduling/'' @ w)"

definition schedLeaseRetryFor :: duration where "schedLeaseRetryFor = InstanceLeaseStaleAfter + seconds 2"
definition schedLeaseRetryEvery :: duration where "schedLeaseRetryEvery = 500 * 1000000"

text \<open>The answer of an attempt at a time: the lease, a live holder, or a store that could not answer.\<close>

datatype attempt = Taken session_lock | Locked | CouldNotAnswer

record scheduling_lease =
  sdLease :: "session_lock option"
  sdActive :: bool

text \<open>
  The retry loop. \<open>ask\<close> is the attempt at a time, \<open>ctxDone\<close> whether the context is over then, \<open>delay\<close> how
  many nanoseconds, at least one, a round takes beyond the wait it asks for.
\<close>

function acquireSchedulingLeaseWithin ::
  "(gotime \<Rightarrow> attempt) \<Rightarrow> (gotime \<Rightarrow> bool) \<Rightarrow> (gotime \<Rightarrow> nat) \<Rightarrow> duration \<Rightarrow> gotime \<Rightarrow> gotime \<Rightarrow> scheduling_lease" where
  "acquireSchedulingLeaseWithin ask ctxDone delay every deadline now =
     (case ask now of
        Taken l \<Rightarrow> \<lparr>sdLease = Some l, sdActive = True\<rparr>
      | Locked \<Rightarrow>
          if 0 < deadline - now \<and> \<not> ctxDone now
          then acquireSchedulingLeaseWithin ask ctxDone delay every deadline (now + max 0 every + int (Suc (delay now)))
          else \<lparr>sdLease = None, sdActive = False\<rparr>
      | CouldNotAnswer \<Rightarrow> \<lparr>sdLease = None, sdActive = \<not> ctxDone now\<rparr>)"
  by pat_completeness auto

termination
  by (relation "measure (\<lambda>(ask, ctxDone, delay, every, deadline, now). nat (deadline - now))") auto

declare acquireSchedulingLeaseWithin.simps [simp del]

definition acquireSchedulingLease ::
  "(gotime \<Rightarrow> attempt) option \<Rightarrow> (gotime \<Rightarrow> bool) \<Rightarrow> (gotime \<Rightarrow> nat) \<Rightarrow> gotime \<Rightarrow> scheduling_lease" where
  "acquireSchedulingLease db ctxDone delay now =
     (case db of
        None \<Rightarrow> \<lparr>sdLease = None, sdActive = True\<rparr>
      | Some ask \<Rightarrow> acquireSchedulingLeaseWithin ask ctxDone delay schedLeaseRetryEvery (now + schedLeaseRetryFor) now)"

text \<open>An attempt on a table that nobody else changes.\<close>

definition attempt_on :: "string \<Rightarrow> (gotime \<Rightarrow> string) \<Rightarrow> lock_table \<Rightarrow> gotime \<Rightarrow> attempt" where
  "attempt_on workload holder_at t now =
     (case AcquireInstanceLease (schedulingLeaseName workload) (holder_at now) now t of
        None \<Rightarrow> CouldNotAnswer
      | Some (l, t') \<Rightarrow>
          (case slPhase l of
             Held \<Rightarrow> Taken l
           | Refused (SessionLocked h d) \<Rightarrow> Locked
           | Refused LostStealRace \<Rightarrow> Locked
           | _ \<Rightarrow> CouldNotAnswer))"

text \<open>The lock of an acquisition that succeeded and is not, or no longer, in the row.\<close>

definition ousted :: "lease_sys \<Rightarrow> nat \<Rightarrow> string \<Rightarrow> bool" where
  "ousted s i h \<longleftrightarrow> lock_is s i (\<lambda>l. slHolder l = h \<and> slPhase l = Held \<and> \<not> in_row l (lsTable s))"

text \<open>A run of the system, with each operation enabled.\<close>

fun lease_run :: "lease_op list \<Rightarrow> lease_sys \<Rightarrow> lease_sys option" where
  "lease_run [] s = Some s"
| "lease_run (op # ops) s = (if lease_enabled op s then lease_run ops (lease_exec op s) else None)"

definition demo_key :: lock_key where "demo_key = (''app'', ''user'', ''s'')"

definition demo_steal :: "lease_op list" where
  "demo_steal = [BeginAcquire 0 demo_key sessionTiming ''a'', Statement 0 False, Tick (seconds 31),
     BeginAcquire 1 demo_key sessionTiming ''b'', Statement 1 False, Statement 1 False]"

definition heartbeat_age :: "lease_sys \<Rightarrow> lock_key \<Rightarrow> duration option" where
  "heartbeat_age s k = map_option (\<lambda>r. lsClock s - rwHeartbeatAt r) (map_of (lsTable s) k)"

definition demo_after :: "lease_op list \<Rightarrow> lease_sys" where
  "demo_after ops = the (lease_run (demo_steal @ ops) (lease_sys0 0))"

definition demo_lock :: "lease_op list \<Rightarrow> nat \<Rightarrow> session_lock" where
  "demo_lock ops i = the (map_of (lsLocks (demo_after ops)) i)"

section \<open>Lemmas and properties\<close>

lemmas statement_defs = acquire_next_def acquire_insert_def acquire_lookup_def acquire_steal_def heartbeat_tick_def beat_def
  release_mark_def loop_stop_def release_row_def held_def sql_create_def sql_update_def sql_delete_def

lemma acquire_next_step:
  "acquire_next fails now l t = (l', t') \<Longrightarrow> lock_ok l t \<Longrightarrow> lock_step l l' \<and> row_step l l' t t' \<and> lock_ok l' t'"
  by (auto simp: statement_defs lock_step_def row_step_def lock_ok_def Let_def
      split: phase.splits option.splits if_splits prod.splits)

lemma heartbeat_step:
  "heartbeat_tick fails now l t = (l', t') \<Longrightarrow> lock_ok l t \<Longrightarrow> slLoop l \<Longrightarrow> lock_step l l' \<and> row_step l l' t t' \<and> lock_ok l' t'"
  by (auto simp: statement_defs lock_step_def row_step_def lock_ok_def in_row_def Let_def
      split: option.splits if_splits prod.splits)

lemma release_step:
  "release_row fails l t = (l', t') \<Longrightarrow> lock_ok l t \<Longrightarrow> lock_step l l' \<and> row_step l l' t t' \<and> lock_ok l' t'"
  by (auto simp: statement_defs lock_step_def row_step_def lock_ok_def in_row_def delete_conv
      split: option.splits if_splits)

lemma in_row_iff: "in_row l t \<longleftrightarrow> (\<exists>r. map_of t (slKey l) = Some r \<and> rwHolder r = slHolder l)"
  by (auto simp: in_row_def split: option.splits)

lemma mark_step:
  "lock_ok l t \<Longrightarrow> lock_step l (release_mark l) \<and> row_step l (release_mark l) t t \<and> lock_ok (release_mark l) t"
  "lock_ok l t \<Longrightarrow> lock_step l (loop_stop l) \<and> row_step l (loop_stop l) t t \<and> lock_ok (loop_stop l) t"
  by (auto simp: statement_defs lock_step_def row_step_def lock_ok_def in_row_iff)

lemma in_row_step:
  assumes "in_row m t'" "row_step l l' t t'" "slHolder m \<noteq> slHolder l \<or> slPhase l = Held"
  shows "in_row m t"
proof -
  obtain r where "map_of t' (slKey m) = Some r" "rwHolder r = slHolder m" using assms(1) by (auto simp: in_row_iff)
  moreover from this obtain r0 where "map_of t (slKey m) = Some r0" "rwHolder r0 = rwHolder r"
    using assms(2,3) unfolding row_step_def by metis
  ultimately show ?thesis by (auto simp: in_row_iff)
qed

lemma with_lock_wf:
  assumes wf: "lease_wf s"
    and f: "\<And>l l' t'. map_of (lsLocks s) i = Some l \<Longrightarrow> f l (lsTable s) = (l', t') \<Longrightarrow> lock_ok l (lsTable s) \<Longrightarrow>
      lock_step l l' \<and> row_step l l' (lsTable s) t' \<and> lock_ok l' t'"
  shows "lease_wf (with_lock i s f)"
proof (cases "map_of (lsLocks s) i")
  case (Some l)
  obtain l' t' where r: "f l (lsTable s) = (l', t')" by fastforce
  have uniq: "\<And>i j l m. map_of (lsLocks s) i = Some l \<Longrightarrow> map_of (lsLocks s) j = Some m \<Longrightarrow> slHolder l = slHolder m \<Longrightarrow> i = j"
    and rows: "\<And>k r. map_of (lsTable s) k = Some r \<Longrightarrow>
        \<exists>i l. map_of (lsLocks s) i = Some l \<and> slHolder l = rwHolder r \<and> slKey l = k \<and> slPhase l = Held"
    and ok: "\<And>i l. map_of (lsLocks s) i = Some l \<Longrightarrow> lock_ok l (lsTable s)"
    using wf unfolding lease_wf_def by blast+
  have st: "lock_step l l'" "row_step l l' (lsTable s) t'" "lock_ok l' t'" using f [OF Some r ok [OF Some]] by auto
  have s': "with_lock i s f = s\<lparr>lsTable := t', lsLocks := AList.update i l' (lsLocks s)\<rparr>" by (simp add: with_lock_def Some r)
  have l': "slHolder l' = slHolder l" "slKey l' = slKey l" "slPhase l = Held \<Longrightarrow> slPhase l' = Held" using st(1) by (auto simp: lock_step_def)
  have uniq': "i1 = i2" if "map_of (AList.update i l' (lsLocks s)) i1 = Some l1" "map_of (AList.update i l' (lsLocks s)) i2 = Some l2"
      "slHolder l1 = slHolder l2" for i1 i2 l1 l2
  proof -
    have "\<exists>m. map_of (lsLocks s) j = Some m \<and> slHolder m = slHolder l0" if "map_of (AList.update i l' (lsLocks s)) j = Some l0" for j l0
      using that l'(1) Some by (auto split: if_splits)
    from this [OF that(1)] this [OF that(2)] that(3) show ?thesis using uniq by metis
  qed
  have rows': "\<exists>i0 l0. map_of (AList.update i l' (lsLocks s)) i0 = Some l0 \<and> slHolder l0 = rwHolder r \<and> slKey l0 = k \<and> slPhase l0 = Held"
    if row: "map_of t' k = Some r" for k r
  proof -
    consider r0 where "map_of (lsTable s) k = Some r0" "rwHolder r0 = rwHolder r"
      | "k = slKey l" "rwHolder r = slHolder l" "slPhase l' = Held" using st(2) [unfolded row_step_def, rule_format, OF row] by blast
    then show ?thesis
    proof cases
      case 1
      then obtain i0 l0 where "map_of (lsLocks s) i0 = Some l0" "slHolder l0 = rwHolder r" "slKey l0 = k" "slPhase l0 = Held"
        using rows by metis
      then show ?thesis using Some l' by (cases "i0 = i") auto
    qed (use l' in auto)
  qed
  have ok': "lock_ok l0 t'" if "map_of (AList.update i l' (lsLocks s)) i0 = Some l0" for i0 l0
  proof (cases "i0 = i")
    case False
    then have l0: "map_of (lsLocks s) i0 = Some l0" using that by simp
    then have "slHolder l0 \<noteq> slHolder l" using uniq [OF l0 Some] False by auto
    then show ?thesis using ok [OF l0] in_row_step [OF _ st(2)] by (auto simp: lock_ok_def)
  qed (use that st(3) in simp)
  have fs: "lsLocks (with_lock i s f) = AList.update i l' (lsLocks s)" "lsTable (with_lock i s f) = t'" by (simp_all add: s')
  show ?thesis unfolding lease_wf_def fs by (intro conjI allI impI; (erule (2) uniq' | erule rows' | erule ok'))
qed (simp add: with_lock_def wf)

lemma lease_exec_wf:
  assumes "lease_wf s" "lease_enabled op s"
  shows "lease_wf (lease_exec op s)"
proof (cases op)
  case (BeginAcquire i k tm holder)
  then have new: "map_of (lsLocks s) i = None" "\<And>j m. map_of (lsLocks s) j = Some m \<Longrightarrow> slHolder m \<noteq> holder"
    using assms(2) by (auto simp: image_iff dest!: map_of_SomeD)
  show ?thesis using assms(1) new BeginAcquire
    by (auto simp: lease_wf_def begin_acquire_def lock_ok_def split: if_splits) (metis option.distinct(1))
next
  case (Statement i fails)
  then show ?thesis using assms by (auto intro!: with_lock_wf dest: acquire_next_step)
next
  case (HeartbeatTick i fails)
  then show ?thesis using assms by (auto simp: lock_is_def intro!: with_lock_wf dest: heartbeat_step split: option.splits)
next
  case (ReleaseRow i fails)
  then show ?thesis using assms by (auto intro!: with_lock_wf dest: release_step)
next
  case (ReleaseCall i)
  then show ?thesis using assms by (auto intro!: with_lock_wf dest: mark_step(1))
next
  case (LoopStop i)
  then show ?thesis using assms by (auto intro!: with_lock_wf dest: mark_step(2))
qed (use assms in \<open>auto simp: lease_wf_def\<close>)

lemma lease_steps_wf: "lease_steps s s' \<Longrightarrow> lease_wf s \<Longrightarrow> lease_wf s'"
  by (induction rule: lease_steps.induct) (auto intro: lease_exec_wf)

lemma lease_wf0: "lease_wf (lease_sys0 now)"
  by (simp add: lease_wf_def lease_sys0_def)

lemma lease_reach_wf: "lease_steps (lease_sys0 t0) s \<Longrightarrow> lease_wf s"
  using lease_steps_wf lease_wf0 by blast

lemma ousted_iff:
  "ousted s i h \<longleftrightarrow> (\<exists>l. map_of (lsLocks s) i = Some l \<and> slHolder l = h \<and> slPhase l = Held \<and> \<not> in_row l (lsTable s))"
  by (auto simp: ousted_def lock_is_def split: option.splits)

lemma with_lock_ousted:
  assumes wf: "lease_wf s" and o: "ousted s i h"
    and f: "\<And>l l' t'. map_of (lsLocks s) j = Some l \<Longrightarrow> f l (lsTable s) = (l', t') \<Longrightarrow> lock_ok l (lsTable s) \<Longrightarrow>
      lock_step l l' \<and> row_step l l' (lsTable s) t' \<and> lock_ok l' t'"
  shows "ousted (with_lock j s f) i h"
proof (cases "map_of (lsLocks s) j")
  case (Some l)
  obtain l' t' where r: "f l (lsTable s) = (l', t')" by fastforce
  have uniq: "\<And>i j l m. map_of (lsLocks s) i = Some l \<Longrightarrow> map_of (lsLocks s) j = Some m \<Longrightarrow> slHolder l = slHolder m \<Longrightarrow> i = j"
    and ok: "lock_ok l (lsTable s)" using wf Some unfolding lease_wf_def by blast+
  have st: "lock_step l l'" "row_step l l' (lsTable s) t'" using f [OF Some r ok] by auto
  have fs: "lsLocks (with_lock j s f) = AList.update j l' (lsLocks s)" "lsTable (with_lock j s f) = t'"
    by (simp_all add: with_lock_def Some r)
  obtain m where m: "map_of (lsLocks s) i = Some m" "slPhase m = Held" "slHolder m = h" "\<not> in_row m (lsTable s)" using o by (auto simp: ousted_iff)
  have "slHolder m \<noteq> slHolder l \<or> slPhase l = Held" using uniq [OF m(1) Some] m(1,2) Some by auto
  then have "\<not> in_row m t'" using in_row_step [OF _ st(2)] m(4) by blast
  moreover have "in_row l' t' = in_row l t'" using st(1) by (simp add: in_row_iff lock_step_def)
  ultimately show ?thesis using m Some st(1) by (auto simp: ousted_iff fs lock_step_def)
qed (simp add: with_lock_def o)

lemma ousted_step:
  assumes "lease_wf s" "ousted s i h" "lease_enabled op s"
  shows "ousted (lease_exec op s) i h"
proof (cases op)
  case (Tick d)
  then show ?thesis using assms by (simp add: ousted_iff)
next
  case (BeginAcquire j k tm holder)
  then show ?thesis using assms by (auto simp: ousted_iff)
next
  case (Statement j fails)
  then show ?thesis using assms by (auto intro!: with_lock_ousted dest: acquire_next_step)
next
  case (HeartbeatTick j fails)
  then show ?thesis using assms by (auto simp: lock_is_def intro!: with_lock_ousted dest: heartbeat_step split: option.splits)
next
  case (ReleaseRow j fails)
  then show ?thesis using assms by (auto intro!: with_lock_ousted dest: release_step)
next
  case (ReleaseCall j)
  then show ?thesis using assms by (auto intro!: with_lock_ousted dest: mark_step(1))
next
  case (LoopStop j)
  then show ?thesis using assms by (auto intro!: with_lock_ousted dest: mark_step(2))
qed

lemma ousted_steps: "lease_steps s s' \<Longrightarrow> lease_wf s \<Longrightarrow> ousted s i h \<Longrightarrow> ousted s' i h"
  by (induction rule: lease_steps.induct) (auto intro: ousted_step lease_steps_wf)

lemma beat_lost: "fst (beat False now l t) \<longleftrightarrow> \<not> in_row l t"
  by (auto simp: beat_def sql_update_def in_row_def Let_def split: option.splits)

text \<open>A lease that is gone stays gone. An acquisition that succeeded and is not in its row -- it was stolen or
  released -- is never in it again, whatever the processes do, and its next heartbeat that reaches the store says so.\<close>

theorem lease_lost_for_good:
  assumes "lease_steps (lease_sys0 t0) s" "map_of (lsLocks s) i = Some l" "slPhase l = Held"
    and "\<not> owns s i" "lease_steps s s'"
  shows "\<exists>l'. map_of (lsLocks s') i = Some l' \<and> \<not> owns s' i \<and> fst (beat False (lsClock s') l' (lsTable s'))"
proof -
  have "ousted s i (slHolder l)" using assms(2-4) by (simp add: ousted_def owns_def lock_is_def)
  then have "ousted s' i (slHolder l)" using ousted_steps [OF assms(5)] lease_reach_wf [OF assms(1)] by blast
  then show ?thesis by (auto simp: ousted_iff beat_lost owns_def lock_is_def)
qed

lemma steal_ousts:
  assumes wf: "lease_wf s" and l: "map_of (lsLocks s) i = Some l" "slPhase l = Stealing h"
    and won: "acquire_next False (lsClock s) l (lsTable s) = (l', t')" "slPhase l' = Held"
  shows "\<exists>q. ousted (lease_exec (Statement i False) s) q h"
proof -
  obtain r where r: "map_of (lsTable s) (slKey l) = Some r" "rwHolder r = h"
    and t': "map_of t' (slKey l) = Some (r\<lparr>rwHolder := slHolder l, rwAcquiredAt := slNow l, rwHeartbeatAt := slNow l\<rparr>)"
    using won l(2) by (auto simp: acquire_next_def acquire_steal_def sql_update_def Let_def split: option.splits if_splits)
  then obtain q p where q: "map_of (lsLocks s) q = Some p" "slHolder p = h" "slKey p = slKey l" "slPhase p = Held"
    using wf unfolding lease_wf_def by metis
  have qi: "q \<noteq> i" using q(1,4) l by auto
  then have "slHolder l \<noteq> h" using q(1,2) l(1) wf unfolding lease_wf_def by metis
  then have "\<not> in_row p t'" using t' q(2,3) by (simp add: in_row_def)
  then show ?thesis using q qi l(1) won(1) by (auto simp: ousted_iff with_lock_def)
qed

text \<open>Of processes that steal the same stale lease one wins. Once an acquisition took the row from a holder,
  every other acquisition that read the same holder is told that it lost the race, however late it runs.\<close>

theorem steal_one_winner:
  assumes "lease_steps (lease_sys0 t0) s" "map_of (lsLocks s) i = Some l" "slPhase l = Stealing h"
    and "lock_is (lease_exec (Statement i False) s) i (\<lambda>l. slPhase l = Held)"
    and "lease_steps (lease_exec (Statement i False) s) s'"
    and "map_of (lsLocks s') j = Some m" "slPhase m = Stealing h" "slKey m = slKey l"
  shows "lock_is (lease_exec (Statement j False) s') j (\<lambda>m. slPhase m = Refused LostStealRace)"
proof -
  have wf: "lease_wf s" using lease_reach_wf [OF assms(1)] .
  have en: "lease_enabled (Statement i False) s" using assms(2) by (simp add: lock_is_def)
  obtain l' t' where won: "acquire_next False (lsClock s) l (lsTable s) = (l', t')" by fastforce
  then have "slPhase l' = Held" using assms(2,4) by (simp add: lock_is_def with_lock_def)
  then obtain q where q: "ousted (lease_exec (Statement i False) s) q h"
    using steal_ousts [OF wf assms(2,3) won] by blast
  have wf': "lease_wf s'" using lease_steps_wf [OF assms(5)] lease_exec_wf [OF wf en] by blast
  obtain p where p: "map_of (lsLocks s') q = Some p" "slHolder p = h" "\<not> in_row p (lsTable s')"
    using ousted_steps [OF assms(5) lease_exec_wf [OF wf en] q] by (auto simp: ousted_iff)
  have "rwHolder r \<noteq> h" if r: "map_of (lsTable s') (slKey m) = Some r" for r
  proof
    assume h: "rwHolder r = h"
    then obtain q' p' where "map_of (lsLocks s') q' = Some p'" "slHolder p' = h" "slKey p' = slKey m"
      using wf' r unfolding lease_wf_def by metis
    moreover from this have "q' = q" using p(1,2) wf' unfolding lease_wf_def by metis
    ultimately show False using p r h by (auto simp: in_row_def)
  qed
  then show ?thesis using assms(6,7)
    by (auto simp: lock_is_def with_lock_def acquire_next_def acquire_steal_def sql_update_def split: option.split)
qed

lemma lease_run_steps: "lease_steps s0 s \<Longrightarrow> lease_run ops s = Some s' \<Longrightarrow> lease_steps s0 s'"
  by (induction ops arbitrary: s) (auto intro: steps_step split: if_splits)

text \<open>A lease can be stolen although its holder has just refreshed it. The age of the heartbeat is checked when the row
  is read and not when it is overwritten, so a heartbeat between the two does not save the lease.\<close>

theorem fresh_lease_stolen:
  "\<exists>ops i s s'. lease_run ops (lease_sys0 0) = Some s \<and> heartbeat_age s demo_key = Some 0 \<and> owns s 0 \<and>
     lease_run [Statement i False] s = Some s' \<and> owns s' i \<and> i \<noteq> 0"
proof -
  let ?ops = "demo_steal @ [HeartbeatTick 0 False]"
  let ?s = "the (lease_run ?ops (lease_sys0 0))"
  let ?s' = "the (lease_run [Statement 1 False] ?s)"
  have "lease_run ?ops (lease_sys0 0) = Some ?s \<and> heartbeat_age ?s demo_key = Some 0 \<and> owns ?s 0 \<and>
     lease_run [Statement 1 False] ?s = Some ?s' \<and> owns ?s' 1 \<and> (1::nat) \<noteq> 0" by code_simp
  then show ?thesis by blast
qed

lemma acquire_stale:
  assumes "map_of t (instanceLeaseApp, instanceLeaseUser, schedulingLeaseName w) = Some r"
  shows "attempt_on w h t now = Locked \<and> now - rwHeartbeatAt r \<le> InstanceLeaseStaleAfter \<or>
    (\<exists>l. attempt_on w h t now = Taken l \<and> slPhase l = Held \<and> slHolder l = h now) \<and> InstanceLeaseStaleAfter < now - rwHeartbeatAt r"
  using assms by (auto simp: attempt_on_def AcquireInstanceLease_def acquireLock_def begin_acquire_def acquire_next_def acquire_insert_def
      acquire_lookup_def acquire_steal_def sql_create_def sql_update_def held_def instanceTiming_def schedulingLeaseName_def Let_def)

lemma sched_loop:
  assumes "\<And>x. \<not> ctxDone x" "\<And>x. x \<ge> now \<Longrightarrow> ask x = Locked \<or> (\<exists>l. ask x = Taken l \<and> P l)" "\<And>x. x \<ge> deadline \<Longrightarrow> ask x \<noteq> Locked"
  shows "\<exists>l. acquireSchedulingLeaseWithin ask ctxDone delay every deadline now = \<lparr>sdLease = Some l, sdActive = True\<rparr> \<and> P l"
  using assms
proof (induction ask ctxDone delay every deadline now rule: acquireSchedulingLeaseWithin.induct)
  case (1 ask ctxDone delay every deadline now)
  let ?next = "now + max 0 every + int (Suc (delay now))"
  show ?case
  proof (cases "ask now = Locked")
    case True
    then have "0 < deadline - now" using "1.prems"(3) [of now] by (cases "now < deadline") auto
    moreover have "\<exists>l. acquireSchedulingLeaseWithin ask ctxDone delay every deadline ?next =
        \<lparr>sdLease = Some l, sdActive = True\<rparr> \<and> P l"
    proof (rule "1.IH" [OF True])
      show "ask x = Locked \<or> (\<exists>l. ask x = Taken l \<and> P l)" if "?next \<le> x" for x
        by (rule "1.prems"(2)) (use that in linarith)
    qed (use "1.prems"(1,3) \<open>0 < deadline - now\<close> in blast)+
    ultimately show ?thesis using True "1.prems"(1) [of now] by (simp add: acquireSchedulingLeaseWithin.simps [of ask ctxDone delay every deadline now])
  next
    case False
    then show ?thesis using "1.prems"(2) [of now] by (auto simp: acquireSchedulingLeaseWithin.simps [of ask ctxDone delay every deadline now])
  qed
qed

text \<open>The replacement of a crashed daemon takes the scheduling lease. With the row of a holder that no
  longer beats, and a context that stays open, the boot ends, with the lease and driving the scheduled work, however
  long its rounds take: the retry window outlasts the staleness window.\<close>

theorem scheduling_lease_recovers:
  assumes "map_of t (instanceLeaseApp, instanceLeaseUser, schedulingLeaseName w) = Some r" "rwHeartbeatAt r \<le> now" "\<And>x. \<not> ctxDone x"
  shows "\<exists>l. acquireSchedulingLease (Some (attempt_on w h t)) ctxDone delay now = \<lparr>sdLease = Some l, sdActive = True\<rparr> \<and> slPhase l = Held"
proof -
  have "attempt_on w h t x \<noteq> Locked" if "now + schedLeaseRetryFor \<le> x" for x
    using acquire_stale [OF assms(1), of h x] that assms(2) by (auto simp: schedLeaseRetryFor_def seconds_def)
  then have "\<exists>l. acquireSchedulingLeaseWithin (attempt_on w h t) ctxDone delay schedLeaseRetryEvery (now + schedLeaseRetryFor) now =
     \<lparr>sdLease = Some l, sdActive = True\<rparr> \<and> slPhase l = Held"
    by (intro sched_loop) (use acquire_stale [OF assms(1), of h] assms(3) in blast)+
  then show ?thesis by (simp add: acquireSchedulingLease_def)
qed


lemma demo_runs: "lease_run ops (lease_sys0 0) = Some s \<Longrightarrow> lease_steps (lease_sys0 0) s"
  using lease_run_steps steps_refl by blast


theorem lease_lost_for_good_witness:
  "\<exists>l. map_of (lsLocks (demo_after [Statement 1 False])) 0 = Some l \<and>
     fst (beat False (lsClock (demo_after [Statement 1 False])) l (lsTable (demo_after [Statement 1 False])))"
proof -
  let ?ops = "[Statement 1 False]"
  have "lease_run (demo_steal @ ?ops) (lease_sys0 0) = Some (demo_after ?ops)" by code_simp
  from demo_runs [OF this] have r: "lease_steps (lease_sys0 0) (demo_after ?ops)" .
  have "map_of (lsLocks (demo_after ?ops)) 0 = Some (demo_lock ?ops 0)" "slPhase (demo_lock ?ops 0) = Held" "\<not> owns (demo_after ?ops) 0"
    by code_simp+
  from lease_lost_for_good [OF r this steps_refl] show ?thesis by blast
qed

theorem steal_one_winner_witness:
  "lock_is (lease_exec (Statement 2 False) (lease_exec (Statement 1 False)
     (demo_after [BeginAcquire 2 demo_key sessionTiming ''c'', Statement 2 False, Statement 2 False]))) 2 (\<lambda>m. slPhase m = Refused LostStealRace)"
proof -
  let ?ops = "[BeginAcquire 2 demo_key sessionTiming ''c'', Statement 2 False, Statement 2 False]"
  let ?s = "demo_after ?ops" and ?s' = "lease_exec (Statement 1 False) (demo_after ?ops)"
  have "lease_run (demo_steal @ ?ops) (lease_sys0 0) = Some ?s" by code_simp
  from demo_runs [OF this] have r: "lease_steps (lease_sys0 0) ?s" .
  have l: "map_of (lsLocks ?s) 1 = Some (demo_lock ?ops 1)" "slPhase (demo_lock ?ops 1) = Stealing ''a''"
    "lock_is ?s' 1 (\<lambda>l. slPhase l = Held)" by code_simp+
  have m: "map_of (lsLocks ?s') 2 = Some (demo_lock ?ops 2)" "slPhase (demo_lock ?ops 2) = Stealing ''a''"
    "slKey (demo_lock ?ops 2) = slKey (demo_lock ?ops 1)" by code_simp+
  from steal_one_winner [OF r l steps_refl m] show ?thesis .
qed

theorem scheduling_lease_recovers_witness:
  "\<exists>l. acquireSchedulingLease (Some (attempt_on ''w'' (\<lambda>_. ''b'')
      [((instanceLeaseApp, instanceLeaseUser, schedulingLeaseName ''w''), \<lparr>rwHolder = ''a'', rwAcquiredAt = 0, rwHeartbeatAt = 0\<rparr>)]))
      (\<lambda>_. False) (\<lambda>_. 0) 0 = \<lparr>sdLease = Some l, sdActive = True\<rparr> \<and> slPhase l = Held"
  by (rule scheduling_lease_recovers [where r = "\<lparr>rwHolder = ''a'', rwAcquiredAt = 0, rwHeartbeatAt = 0\<rparr>"]) simp_all

end
