(* ===== verification/Broadcaster.thy ===== *)
theory Broadcaster
  imports Mast_Prelude
begin

text \<open>
  The fan-out of a session's event log to attached clients, \<^verbatim>\<open>src/internal/attach/broadcaster.go\<close>, over the
  log queries of \<^verbatim>\<open>src/internal/eventlog/sql.go\<close>. A broadcaster has one pump goroutine that follows the log
  and a replay goroutine per subscriber that catches up; both send to the subscriber's channel under the
  broadcaster's mutex.

  A critical section, a query or a goroutine's decision is one step, and the steps of the goroutines, the
  clients and the log's writers interleave in any order. A send or a close on a closed channel panics. The
  payload of an event and of a typed frame is a text; what the agent reports for the boot frames is an
  argument; log lines are left out. A generation does not wrap around.
\<close>

section \<open>The log\<close>

type_synonym session_key = "string \<times> string \<times> string"

record log_row =
  lrKey :: session_key
  lrSeq :: int
  lrEvent :: string

type_synonym event_log = "log_row list"

definition queryRows :: "session_key \<Rightarrow> int \<Rightarrow> event_log \<Rightarrow> log_row list" where
  "queryRows key from log = filter (\<lambda>r. from < lrSeq r \<and> lrKey r = key) log"

definition LatestSeq :: "session_key \<Rightarrow> event_log \<Rightarrow> int" where
  "LatestSeq key log = foldl max 0 (map lrSeq (filter (\<lambda>r. lrKey r = key) log))"

text \<open>The sequence number of the row with \<open>offset\<close> newer rows, 0 if there are not so many.\<close>

definition NthNewestSeq :: "int \<Rightarrow> session_key \<Rightarrow> event_log \<Rightarrow> int" where
  "NthNewestSeq offset key log =
     (let seqs = rev (map lrSeq (filter (\<lambda>r. lrKey r = key) log))
      in if nat offset < length seqs then seqs ! nat offset else 0)"

section \<open>Channels and subscribers\<close>

datatype frame = LogFrame int string | TypedFrame string string

definition subscriberBufferSize :: nat where "subscriberBufferSize = 256"
definition maxReplayEvents :: int where "maxReplayEvents = 5000"

definition EventCapabilities :: string where "EventCapabilities = ''capabilities''"
definition EventStatusUpdate :: string where "EventStatusUpdate = ''status-update''"
definition EventUsageUpdate :: string where "EventUsageUpdate = ''usage-update''"
definition EventTurnComplete :: string where "EventTurnComplete = ''turn-complete''"
definition EventTurnError :: string where "EventTurnError = ''turn-error''"

text \<open>
  What is left of a subscriber's replay: the query has not run, the rows still to send, the wait for the
  end of the request, or nothing. \<open>sbTaken\<close> is what the client has received, \<open>sbWire\<close> that this subscriber
  has yet to hand the emitter to the agent.
\<close>

datatype replay = ReplayStart | Replaying "log_row list" | Tailing | ReplayOver

record subscriber =
  sbCh :: "frame list"
  sbChClosed :: bool
  sbTaken :: "frame list"
  sbClosed :: bool
  sbSince :: int
  sbLastSent :: int
  sbReplay :: replay
  sbWire :: bool

datatype pump_phase = Running | Ending | Ended

record pump =
  pmCursor :: int
  pmCancelled :: bool
  pmPhase :: pump_phase

record broadcaster =
  bcKey :: session_key
  bcLog :: event_log
  bcHeap :: "(nat, subscriber) gomap"
  bcSubs :: "nat list"
  bcClosed :: bool
  bcCancel :: "nat option"
  bcPumpGen :: nat
  bcPumps :: "(nat, pump) gomap"
  bcClosing :: bool
  bcEmitter :: bool
  bcPanicked :: bool

definition newBroadcaster :: "session_key \<Rightarrow> event_log \<Rightarrow> broadcaster" where
  "newBroadcaster key log =
     \<lparr>bcKey = key, bcLog = log, bcHeap = [], bcSubs = [], bcClosed = False, bcCancel = None, bcPumpGen = 0, bcPumps = [],
      bcClosing = False, bcEmitter = False, bcPanicked = False\<rparr>"

definition put_sub :: "nat \<Rightarrow> subscriber \<Rightarrow> broadcaster \<Rightarrow> broadcaster" where
  "put_sub i s b = b\<lparr>bcHeap := AList.update i s (bcHeap b)\<rparr>"

definition put_pump :: "nat \<Rightarrow> pump \<Rightarrow> broadcaster \<Rightarrow> broadcaster" where
  "put_pump g p b = b\<lparr>bcPumps := AList.update g p (bcPumps b)\<rparr>"

text \<open>\<^verbatim>\<open>b.cancel(); b.cancel = nil\<close>\<close>

definition cancel_pump :: "broadcaster \<Rightarrow> broadcaster" where
  "cancel_pump b =
     (case bcCancel b of
        None \<Rightarrow> b
      | Some g \<Rightarrow>
          (case map_of (bcPumps b) g of
             None \<Rightarrow> b\<lparr>bcCancel := None\<rparr>
           | Some p \<Rightarrow> (put_pump g (p\<lparr>pmCancelled := True\<rparr>) b)\<lparr>bcCancel := None\<rparr>))"

text \<open>\<^verbatim>\<open>sub.closed = true; close(sub.ch)\<close>\<close>

definition close_sub :: "nat \<Rightarrow> subscriber \<Rightarrow> broadcaster \<Rightarrow> broadcaster" where
  "close_sub i s b =
     (if sbChClosed s then b\<lparr>bcPanicked := True\<rparr> else put_sub i (s\<lparr>sbClosed := True, sbChClosed := True\<rparr>) b)"

definition detachLocked :: "nat \<Rightarrow> broadcaster \<Rightarrow> broadcaster" where
  "detachLocked i b =
     (case map_of (bcHeap b) i of
        None \<Rightarrow> b
      | Some s \<Rightarrow>
          if sbClosed s then b
          else let b1 = close_sub i s b;
                   b2 = b1\<lparr>bcSubs := removeAll i (bcSubs b1)\<rparr>
               in if bcSubs b2 = [] \<and> bcCancel b2 \<noteq> None then (cancel_pump b2)\<lparr>bcEmitter := False\<rparr> else b2)"

text \<open>A send that does not block: it is dropped, with its subscriber, when the buffer is full.\<close>

definition push :: "nat \<Rightarrow> subscriber \<Rightarrow> frame \<Rightarrow> broadcaster \<Rightarrow> bool \<times> broadcaster" where
  "push i s f b =
     (if sbChClosed s then (False, b\<lparr>bcPanicked := True\<rparr>)
      else if length (sbCh s) < subscriberBufferSize then (True, put_sub i (s\<lparr>sbCh := sbCh s @ [f]\<rparr>) b)
      else (False, detachLocked i (put_sub i s b)))"

definition sendTyped :: "nat \<Rightarrow> frame \<Rightarrow> broadcaster \<Rightarrow> bool \<times> broadcaster" where
  "sendTyped i f b =
     (case map_of (bcHeap b) i of
        None \<Rightarrow> (False, b)
      | Some s \<Rightarrow> if sbClosed s then (False, b) else push i s f b)"

definition send :: "nat \<Rightarrow> frame \<Rightarrow> broadcaster \<Rightarrow> bool \<times> broadcaster" where
  "send i f b =
     (case f of
        TypedFrame _ _ \<Rightarrow> sendTyped i f b
      | LogFrame seq ev \<Rightarrow>
          (case map_of (bcHeap b) i of
             None \<Rightarrow> (False, b)
           | Some s \<Rightarrow>
               if sbClosed s then (False, b)
               else if seq \<le> sbLastSent s then (True, b)
               else push i (s\<lparr>sbLastSent := seq\<rparr>) f b))"

section \<open>Subscribing\<close>

definition clampReplaySince :: "int \<Rightarrow> broadcaster \<Rightarrow> int" where
  "clampReplaySince since b =
     (let floor = NthNewestSeq maxReplayEvents (bcKey b) (bcLog b) in if since < floor then floor else since)"

text \<open>The boot frames: capabilities, status and, where the agent reports it, usage.\<close>

definition bootFrames :: "string \<Rightarrow> string \<Rightarrow> string option \<Rightarrow> frame list" where
  "bootFrames caps status usage =
     [TypedFrame EventCapabilities caps, TypedFrame EventStatusUpdate status] @
     (case usage of None \<Rightarrow> [] | Some u \<Rightarrow> [TypedFrame EventUsageUpdate u])"

fun deliverBootFrames :: "nat \<Rightarrow> frame list \<Rightarrow> broadcaster \<Rightarrow> broadcaster" where
  "deliverBootFrames i [] b = b"
| "deliverBootFrames i (f # fs) b = (let (ok, b1) = sendTyped i f b in if ok then deliverBootFrames i fs b1 else b1)"

definition register :: "nat \<Rightarrow> subscriber \<Rightarrow> int \<Rightarrow> broadcaster \<Rightarrow> (bool \<times> bool) \<times> broadcaster" where
  "register i s since b =
     (if bcClosed b then ((False, False), b)
      else let firstSub = (bcCancel b = None);
               b1 = b\<lparr>bcSubs := bcSubs b @ [i]\<rparr>
           in ((True, firstSub),
               if firstSub
               then (put_pump (bcPumpGen b + 1) \<lparr>pmCursor = since, pmCancelled = False, pmPhase = Running\<rparr> b1)
                      \<lparr>bcPumpGen := bcPumpGen b + 1, bcCancel := Some (bcPumpGen b + 1)\<rparr>
               else b1))"

definition Subscribe :: "nat \<Rightarrow> int \<Rightarrow> frame list \<Rightarrow> broadcaster \<Rightarrow> broadcaster" where
  "Subscribe i since0 boot b =
     (let since = clampReplaySince since0 b;
          s0 = \<lparr>sbCh = [], sbChClosed = False, sbTaken = [], sbClosed = False, sbSince = since, sbLastSent = since,
                sbReplay = ReplayStart, sbWire = False\<rparr>;
          b1 = deliverBootFrames i boot (put_sub i s0 b)
      in case map_of (bcHeap b1) i of
           None \<Rightarrow> b1
         | Some s \<Rightarrow>
             (let ((registered, firstSub), b2) = register i s since b1
              in if registered then put_sub i (s\<lparr>sbWire := firstSub\<rparr>) b2
                 else close_sub i (s\<lparr>sbReplay := ReplayOver\<rparr>) b2))"

text \<open>The first subscriber hands the emitter to the agent after its registration.\<close>

definition wire_emitter :: "nat \<Rightarrow> broadcaster \<Rightarrow> broadcaster" where
  "wire_emitter i b =
     (case map_of (bcHeap b) i of
        None \<Rightarrow> b
      | Some s \<Rightarrow> if sbWire s then (put_sub i (s\<lparr>sbWire := False\<rparr>) b)\<lparr>bcEmitter := True\<rparr> else b)"

section \<open>The goroutines\<close>

definition set_replay :: "nat \<Rightarrow> replay \<Rightarrow> broadcaster \<Rightarrow> broadcaster" where
  "set_replay i r b = (case map_of (bcHeap b) i of None \<Rightarrow> b | Some s \<Rightarrow> put_sub i (s\<lparr>sbReplay := r\<rparr>) b)"

text \<open>A step of \<^verbatim>\<open>replayThenTail\<close>: the query, a row, or the end of the rows. \<open>fails\<close> is an error of the query or
  of a row, which detaches the subscriber.\<close>

definition replay_step :: "nat \<Rightarrow> bool \<Rightarrow> broadcaster \<Rightarrow> broadcaster" where
  "replay_step i fails b =
     (case map_of (bcHeap b) i of
        None \<Rightarrow> b
      | Some s \<Rightarrow>
          (case sbReplay s of
             ReplayStart \<Rightarrow>
               if fails then set_replay i ReplayOver (detachLocked i b)
               else set_replay i (Replaying (queryRows (bcKey b) (sbSince s) (bcLog b))) b
           | Replaying [] \<Rightarrow> set_replay i Tailing b
           | Replaying (r # rs) \<Rightarrow>
               if fails then set_replay i ReplayOver (detachLocked i b)
               else let (ok, b1) = send i (LogFrame (lrSeq r) (lrEvent r)) b
                    in set_replay i (if ok then Replaying rs else ReplayOver) b1
           | _ \<Rightarrow> b))"

text \<open>The end of the wait: the request is over, or the broadcaster closes.\<close>

definition replay_end :: "nat \<Rightarrow> broadcaster \<Rightarrow> broadcaster" where
  "replay_end i b =
     (case map_of (bcHeap b) i of
        None \<Rightarrow> b
      | Some s \<Rightarrow> if sbReplay s = Tailing then set_replay i ReplayOver (detachLocked i b) else b)"

definition fan_out :: "frame \<Rightarrow> nat list \<Rightarrow> broadcaster \<Rightarrow> broadcaster" where
  "fan_out f is b = foldl (\<lambda>b i. snd (send i f b)) b is"

definition set_phase :: "nat \<Rightarrow> pump_phase \<Rightarrow> broadcaster \<Rightarrow> broadcaster" where
  "set_phase g ph b = (case map_of (bcPumps b) g of None \<Rightarrow> b | Some p \<Rightarrow> put_pump g (p\<lparr>pmPhase := ph\<rparr>) b)"

text \<open>The next entry of \<^verbatim>\<open>Watch\<close> for a pump, sent to every subscriber; a pump with nobody left ends.\<close>

definition pump_entry :: "nat \<Rightarrow> broadcaster \<Rightarrow> broadcaster" where
  "pump_entry g b =
     (case map_of (bcPumps b) g of
        None \<Rightarrow> b
      | Some p \<Rightarrow>
          (case queryRows (bcKey b) (pmCursor p) (bcLog b) of
             [] \<Rightarrow> b
           | r # _ \<Rightarrow>
               if pmPhase p \<noteq> Running then b
               else let b1 = fan_out (LogFrame (lrSeq r) (lrEvent r)) (bcSubs b) (put_pump g (p\<lparr>pmCursor := lrSeq r\<rparr>) b)
                    in if bcSubs b1 = [] then set_phase g Ending (b1\<lparr>bcCancel := None\<rparr>) else b1))"

text \<open>\<^verbatim>\<open>Watch\<close> ends, by an error or by the end of its context; then the deferred sweep runs.\<close>

definition pump_stop :: "nat \<Rightarrow> broadcaster \<Rightarrow> broadcaster" where
  "pump_stop g b =
     (case map_of (bcPumps b) g of
        None \<Rightarrow> b
      | Some p \<Rightarrow> if pmPhase p = Running then set_phase g Ending b else b)"

definition pump_sweep :: "nat \<Rightarrow> broadcaster \<Rightarrow> broadcaster" where
  "pump_sweep g b =
     (case map_of (bcPumps b) g of
        None \<Rightarrow> b
      | Some p \<Rightarrow>
          if pmPhase p \<noteq> Ending then b
          else set_phase g Ended
            (if bcPumpGen b = g \<and> bcCancel b \<noteq> None
             then cancel_pump (foldl (\<lambda>b i. detachLocked i b) b (bcSubs b)) else b))"

section \<open>Typed events and closing\<close>

definition allDeliveredThrough :: "int \<Rightarrow> broadcaster \<Rightarrow> bool" where
  "allDeliveredThrough seq b \<longleftrightarrow>
     list_all (\<lambda>i. case map_of (bcHeap b) i of None \<Rightarrow> True | Some s \<Rightarrow> sbClosed s \<or> seq \<le> sbLastSent s) (bcSubs b)"

definition Emit :: "string \<Rightarrow> string \<Rightarrow> broadcaster \<Rightarrow> broadcaster" where
  "Emit ty payload b = (if ty = [] then b else foldl (\<lambda>b i. snd (sendTyped i (TypedFrame ty payload) b)) b (bcSubs b))"

definition Close :: "broadcaster \<Rightarrow> broadcaster" where
  "Close b =
     (let b1 = foldl (\<lambda>b i. case map_of (bcHeap b) i of
                   None \<Rightarrow> b
                 | Some s \<Rightarrow> if sbClosed s then b else close_sub i s b) (b\<lparr>bcClosed := True, bcClosing := True\<rparr>) (bcSubs b)
      in cancel_pump (b1\<lparr>bcSubs := []\<rparr>))"

section \<open>Interleaving\<close>

datatype bc_op =
    AppendRow session_key int string
  | DoSubscribe nat int string string "string option"
  | WireEmitter nat
  | ReplayStep nat bool
  | ReplayEnd nat
  | PumpEntry nat
  | PumpStop nat
  | PumpSweep nat
  | DoEmit string string int bool
  | Drain nat
  | DoClose

definition drain :: "nat \<Rightarrow> broadcaster \<Rightarrow> broadcaster" where
  "drain i b =
     (case map_of (bcHeap b) i of
        None \<Rightarrow> b
      | Some s \<Rightarrow> (case sbCh s of [] \<Rightarrow> b | f # fs \<Rightarrow> put_sub i (s\<lparr>sbCh := fs, sbTaken := sbTaken s @ [f]\<rparr>) b))"

fun bc_exec :: "bc_op \<Rightarrow> broadcaster \<Rightarrow> broadcaster" where
  "bc_exec (AppendRow key seq ev) b = b\<lparr>bcLog := bcLog b @ [\<lparr>lrKey = key, lrSeq = seq, lrEvent = ev\<rparr>]\<rparr>"
| "bc_exec (DoSubscribe i since caps status usage) b = Subscribe i since (bootFrames caps status usage) b"
| "bc_exec (WireEmitter i) b = wire_emitter i b"
| "bc_exec (ReplayStep i fails) b = replay_step i fails b"
| "bc_exec (ReplayEnd i) b = replay_end i b"
| "bc_exec (PumpEntry g) b = pump_entry g b"
| "bc_exec (PumpStop g) b = pump_stop g b"
| "bc_exec (PumpSweep g) b = pump_sweep g b"
| "bc_exec (DoEmit ty payload head timedOut) b = Emit ty payload b"
| "bc_exec (Drain i) b = drain i b"
| "bc_exec DoClose b = Close b"

text \<open>
  Rows come with growing sequence numbers, a subscriber is a new object, and a terminal frame waits until
  the log is delivered up to a head that was read, unless it timed out or the broadcaster closes.
\<close>

fun bc_enabled :: "bc_op \<Rightarrow> broadcaster \<Rightarrow> bool" where
  "bc_enabled (AppendRow key seq ev) b \<longleftrightarrow> 0 < seq \<and> (\<forall>r \<in> set (bcLog b). lrSeq r < seq)"
| "bc_enabled (DoSubscribe i since caps status usage) b \<longleftrightarrow> map_of (bcHeap b) i = None"
| "bc_enabled (DoEmit ty payload head timedOut) b \<longleftrightarrow>
     (ty = EventTurnComplete \<or> ty = EventTurnError) \<and> \<not> timedOut \<and> \<not> bcClosing b \<longrightarrow> allDeliveredThrough head b"
| "bc_enabled _ b \<longleftrightarrow> True"

inductive bc_steps :: "broadcaster \<Rightarrow> broadcaster \<Rightarrow> bool" where
  bc_refl: "bc_steps b b"
| bc_step: "bc_steps b b' \<Longrightarrow> bc_enabled op b' \<Longrightarrow> bc_steps b (bc_exec op b')"

fun bc_run :: "bc_op list \<Rightarrow> broadcaster \<Rightarrow> broadcaster option" where
  "bc_run [] b = Some b"
| "bc_run (op # ops) b = (if bc_enabled op b then bc_run ops (bc_exec op b) else None)"

section \<open>The pool\<close>

text \<open>
  The pool of broadcasters. A registration of a session has an identity and a sequence number;
  \<open>enUsable\<close> says that it has an agent with an event log. \<open>bpMap\<close> is \<open>None\<close> once the pool is closed,
  \<open>bpOpen\<close> are the broadcasters that were made and not closed.
\<close>

record entry =
  enKey :: session_key
  enId :: nat
  enRegSeq :: int
  enUsable :: bool

record bcast_pool =
  bpMap :: "(session_key, nat \<times> entry) gomap option"
  bpNext :: nat
  bpOpen :: "nat list"

datatype pool_error = ShuttingDown | NoEventLog

definition newBroadcasterPool :: bcast_pool where
  "newBroadcasterPool = \<lparr>bpMap = Some [], bpNext = 0, bpOpen = []\<rparr>"

definition pool_For :: "entry \<Rightarrow> bcast_pool \<Rightarrow> (pool_error + nat) \<times> bcast_pool" where
  "pool_For e p =
     (case bpMap p of
        None \<Rightarrow> (Inl ShuttingDown, p)
      | Some m \<Rightarrow>
          (let old = map_of m (enKey e)
           in case old of
                Some (b, e0) \<Rightarrow>
                  if enId e0 = enId e \<or> enRegSeq e \<le> enRegSeq e0 then (Inr b, p)
                  else if enUsable e
                  then (Inr (bpNext p), p\<lparr>bpMap := Some (AList.update (enKey e) (bpNext p, e) m), bpNext := bpNext p + 1,
                          bpOpen := bpNext p # removeAll b (bpOpen p)\<rparr>)
                  else (Inl NoEventLog, p\<lparr>bpMap := Some (AList.delete (enKey e) m), bpOpen := removeAll b (bpOpen p)\<rparr>)
              | None \<Rightarrow>
                  if enUsable e
                  then (Inr (bpNext p), p\<lparr>bpMap := Some (AList.update (enKey e) (bpNext p, e) m), bpNext := bpNext p + 1,
                          bpOpen := bpNext p # bpOpen p\<rparr>)
                  else (Inl NoEventLog, p)))"

definition pool_Retire :: "entry \<Rightarrow> bcast_pool \<Rightarrow> bool \<times> bcast_pool" where
  "pool_Retire e p =
     (case bpMap p of
        None \<Rightarrow> (False, p)
      | Some m \<Rightarrow>
          (case map_of m (enKey e) of
             Some (b, e0) \<Rightarrow>
               if enId e0 = enId e
               then (True, p\<lparr>bpMap := Some (AList.delete (enKey e) m), bpOpen := removeAll b (bpOpen p)\<rparr>)
               else (False, p)
           | None \<Rightarrow> (False, p)))"

definition pool_Close :: "bcast_pool \<Rightarrow> bcast_pool" where
  "pool_Close p =
     (case bpMap p of
        None \<Rightarrow> p
      | Some m \<Rightarrow> p\<lparr>bpMap := None, bpOpen := filter (\<lambda>b. \<not> list_ex (\<lambda>k. map_option fst (map_of m k) = Some b) (map fst m)) (bpOpen p)\<rparr>)"

datatype pool_op = PoolFor entry | PoolRetire entry | PoolClose

fun pool_exec :: "pool_op \<Rightarrow> bcast_pool \<Rightarrow> bcast_pool" where
  "pool_exec (PoolFor e) p = snd (pool_For e p)"
| "pool_exec (PoolRetire e) p = snd (pool_Retire e p)"
| "pool_exec PoolClose p = pool_Close p"

end
