(* ===== verification/Fan_Out.thy ===== *)
theory Fan_Out
  imports Broadcaster "HOL-Library.Sublist"
begin

text \<open>
  What the broadcaster of the theory Broadcaster guarantees to its clients: no panic, streams in order
  that start with the capabilities, no subscriber without a pump, nothing missed by a subscriber that does
  not start behind a running pump, a bounded catch-up, terminal frames after the log, and a pool with one
  broadcaster for a session; and the hole a subscriber can get that does start behind. What holds of every
  subscriber is proved once, in the locale \<open>subscriber_law\<close>.
\<close>

section \<open>Definitions\<close>

definition bc_wf :: "broadcaster \<Rightarrow> bool" where
  "bc_wf b \<longleftrightarrow> \<not> bcPanicked b \<and> distinct (bcSubs b) \<and>
     (\<forall>i s. map_of (bcHeap b) i = Some s \<longrightarrow> sbChClosed s = sbClosed s) \<and>
     (\<forall>i. i \<in> set (bcSubs b) \<longleftrightarrow> (\<exists>s. map_of (bcHeap b) i = Some s \<and> \<not> sbClosed s)) \<and>
     (bcSubs b = [] \<longleftrightarrow> bcCancel b = None) \<and>
     (\<forall>g. bcCancel b = Some g \<longrightarrow> g = bcPumpGen b \<and>
        (\<exists>p. map_of (bcPumps b) g = Some p \<and> \<not> pmCancelled p \<and> pmPhase p \<noteq> Ended))"

definition new_sub :: "int \<Rightarrow> frame list \<Rightarrow> subscriber" where
  "new_sub since boot = \<lparr>sbCh = boot, sbChClosed = False, sbTaken = [], sbClosed = False, sbSince = since, sbLastSent = since,
     sbReplay = ReplayStart, sbWire = False\<rparr>"

definition shut :: "subscriber \<Rightarrow> subscriber" where
  "shut s = s\<lparr>sbClosed := True, sbChClosed := True\<rparr>"

definition chans_ok :: "broadcaster \<Rightarrow> bool" where
  "chans_ok b \<longleftrightarrow> \<not> bcPanicked b \<and> (\<forall>i s. map_of (bcHeap b) i = Some s \<longrightarrow> sbChClosed s = sbClosed s)"

definition close_all :: "nat list \<Rightarrow> broadcaster \<Rightarrow> broadcaster" where
  "close_all is b = foldl (\<lambda>b i. case map_of (bcHeap b) i of
       None \<Rightarrow> b | Some s \<Rightarrow> if sbClosed s then b else close_sub i s b) b is"

definition every_sub :: "(subscriber \<Rightarrow> bool) \<Rightarrow> broadcaster \<Rightarrow> bool" where
  "every_sub P b \<longleftrightarrow> (\<forall>i s. map_of (bcHeap b) i = Some s \<longrightarrow> P s)"

text \<open>The stream of a client: what it has received and what is in the channel.\<close>

definition stream_of :: "subscriber \<Rightarrow> frame list" where
  "stream_of s = sbTaken s @ sbCh s"

fun log_frame :: "frame \<Rightarrow> (int \<times> string) option" where
  "log_frame (LogFrame seq ev) = Some (seq, ev)"
| "log_frame (TypedFrame ty x) = None"

definition log_frames :: "subscriber \<Rightarrow> (int \<times> string) list" where
  "log_frames s = List.map_filter log_frame (stream_of s)"

fun is_capabilities :: "frame \<Rightarrow> bool" where
  "is_capabilities (TypedFrame ty x) \<longleftrightarrow> ty = EventCapabilities"
| "is_capabilities (LogFrame seq ev) \<longleftrightarrow> False"

definition in_order :: "subscriber \<Rightarrow> bool" where
  "in_order s \<longleftrightarrow> sorted_wrt (<) (map fst (log_frames s)) \<and> list_all (\<lambda>(seq, ev). sbSince s < seq \<and> seq \<le> sbLastSent s) (log_frames s) \<and>
     sbSince s \<le> sbLastSent s \<and> stream_of s \<noteq> [] \<and> is_capabilities (hd (stream_of s))"

definition rows_upto :: "session_key \<Rightarrow> int \<Rightarrow> int \<Rightarrow> event_log \<Rightarrow> (int \<times> string) list" where
  "rows_upto key since upper log =
     map (\<lambda>r. (lrSeq r, lrEvent r)) (filter (\<lambda>r. lrKey r = key \<and> since < lrSeq r \<and> lrSeq r \<le> upper) log)"

definition log_ok :: "event_log \<Rightarrow> bool" where
  "log_ok log \<longleftrightarrow> sorted_wrt (<) (map lrSeq log)"

definition complete :: "subscriber \<Rightarrow> broadcaster \<Rightarrow> bool" where
  "complete s b \<longleftrightarrow>
     log_frames s = rows_upto (bcKey b) (sbSince s) (sbLastSent s) (bcLog b) \<and> sbSince s \<le> sbLastSent s \<and>
     (sbLastSent s = sbSince s \<or> (\<exists>r \<in> set (bcLog b). lrSeq r = sbLastSent s)) \<and>
     (\<forall>rs. sbReplay s = Replaying rs \<longrightarrow> (\<exists>a \<le> sbLastSent s. prefix rs (queryRows (bcKey b) a (bcLog b))))"

definition complete_at :: "nat \<Rightarrow> broadcaster \<Rightarrow> bool" where
  "complete_at i b \<longleftrightarrow> (\<forall>s. map_of (bcHeap b) i = Some s \<longrightarrow> \<not> sbClosed s \<longrightarrow> complete s b)"

definition reached :: "nat \<Rightarrow> int \<Rightarrow> broadcaster \<Rightarrow> bool" where
  "reached i a b \<longleftrightarrow> (\<forall>s. map_of (bcHeap b) i = Some s \<longrightarrow> \<not> sbClosed s \<longrightarrow> a \<le> sbLastSent s)"

definition pumps_behind :: "nat \<Rightarrow> broadcaster \<Rightarrow> bool" where
  "pumps_behind i b \<longleftrightarrow> (\<forall>g p. map_of (bcPumps b) g = Some p \<longrightarrow> pmPhase p = Running \<longrightarrow> reached i (pmCursor p) b)"

definition row_frame :: "log_row \<Rightarrow> frame" where "row_frame r = LogFrame (lrSeq r) (lrEvent r)"

definition gap_free :: "nat \<Rightarrow> broadcaster \<Rightarrow> bool" where
  "gap_free i b \<longleftrightarrow> complete_at i b \<and> pumps_behind i b"

text \<open>What only a subscription or a row changes: the log, the session and where a subscriber starts.\<close>

definition same_base :: "broadcaster \<Rightarrow> broadcaster \<Rightarrow> bool" where
  "same_base b b' \<longleftrightarrow> bcLog b' = bcLog b \<and> bcKey b' = bcKey b \<and>
     (\<forall>i. map_option sbSince (map_of (bcHeap b') i) = map_option sbSince (map_of (bcHeap b) i))"

fun changes_base :: "bc_op \<Rightarrow> bool" where
  "changes_base (AppendRow _ _ _) \<longleftrightarrow> True"
| "changes_base (DoSubscribe _ _ _ _ _) \<longleftrightarrow> True"
| "changes_base _ \<longleftrightarrow> False"

text \<open>No pump that still delivers is ahead of where a subscriber starts.\<close>

definition may_join :: "int \<Rightarrow> broadcaster \<Rightarrow> bool" where
  "may_join since b \<longleftrightarrow>
     list_all (\<lambda>(g, p). pmPhase p = Running \<longrightarrow> pmCursor p \<le> clampReplaySince since b) (bcPumps b)"

text \<open>Traces.\<close>

definition demo_session :: session_key where "demo_session = (''app'', ''user'', ''s'')"

definition demo_join :: "bc_op list" where
  "demo_join = [AppendRow demo_session 1 ''a'', AppendRow demo_session 2 ''b'', DoSubscribe 0 2 ''c'' ''s'' None,
     DoSubscribe 1 0 ''c'' ''s'' None, AppendRow demo_session 3 ''d'', PumpEntry 1, ReplayStep 1 False, ReplayStep 1 False,
     ReplayStep 1 False, ReplayStep 1 False, ReplayStep 1 False]"

definition demo_alone :: "bc_op list" where
  "demo_alone = [AppendRow demo_session 1 ''a'', AppendRow demo_session 2 ''b'', DoSubscribe 0 0 ''c'' ''s'' None, PumpEntry 1,
     ReplayStep 0 False, ReplayStep 0 False, AppendRow demo_session 3 ''d'', ReplayStep 0 False, Drain 0, PumpEntry 1, PumpEntry 1]"

definition demo_bc :: "bc_op list \<Rightarrow> broadcaster" where
  "demo_bc ops = the (bc_run ops (newBroadcaster demo_session []))"

definition demo_sub :: "bc_op list \<Rightarrow> nat \<Rightarrow> subscriber" where
  "demo_sub ops i = the (map_of (bcHeap (demo_bc ops)) i)"

text \<open>The open broadcasters are those in the map, one for each session.\<close>

definition pool_inv :: "('e \<Rightarrow> 'k) \<Rightarrow> ('k, nat \<times> 'e) gomap \<Rightarrow> nat list \<Rightarrow> nat \<Rightarrow> bool" where
  "pool_inv key_of m opened next \<longleftrightarrow>
     (\<forall>b. b \<in> set opened \<longleftrightarrow> (\<exists>k e. map_of m k = Some (b, e))) \<and>
     (\<forall>k k' b e e'. map_of m k = Some (b, e) \<longrightarrow> map_of m k' = Some (b, e') \<longrightarrow> k = k') \<and>
     (\<forall>k b e. map_of m k = Some (b, e) \<longrightarrow> b < next \<and> key_of e = k)"

definition pool_wf :: "bcast_pool \<Rightarrow> bool" where
  "pool_wf p \<longleftrightarrow> (case bpMap p of None \<Rightarrow> bpOpen p = [] | Some m \<Rightarrow> pool_inv enKey m (bpOpen p) (bpNext p))"

abbreviation demo_start :: "bc_op list" where
  "demo_start \<equiv> [AppendRow demo_session 1 ''a'', AppendRow demo_session 2 ''b'']"

abbreviation demo_rest :: "bc_op list" where
  "demo_rest \<equiv> drop 3 demo_alone"

section \<open>Lemmas and properties\<close>

lemma bc_wfD:
  assumes "bc_wf b"
  shows "\<not> bcPanicked b" "distinct (bcSubs b)" "map_of (bcHeap b) i = Some s \<Longrightarrow> sbChClosed s = sbClosed s"
    "i \<in> set (bcSubs b) \<longleftrightarrow> (\<exists>s. map_of (bcHeap b) i = Some s \<and> \<not> sbClosed s)" "bcSubs b = [] \<longleftrightarrow> bcCancel b = None"
    "bcCancel b = Some g \<Longrightarrow> g = bcPumpGen b \<and> (\<exists>p. map_of (bcPumps b) g = Some p \<and> \<not> pmCancelled p \<and> pmPhase p \<noteq> Ended)"
  using assms unfolding bc_wf_def by blast+

lemma frame_simps [simp]:
  "bcHeap (put_sub i s b) = AList.update i s (bcHeap b)" "bcSubs (put_sub i s b) = bcSubs b" "bcCancel (put_sub i s b) = bcCancel b"
  "bcPumps (put_sub i s b) = bcPumps b" "bcPumpGen (put_sub i s b) = bcPumpGen b" "bcPanicked (put_sub i s b) = bcPanicked b"
  "bcLog (put_sub i s b) = bcLog b" "bcKey (put_sub i s b) = bcKey b" "bcClosed (put_sub i s b) = bcClosed b"
  "bcHeap (put_pump g p b) = bcHeap b" "bcSubs (put_pump g p b) = bcSubs b" "bcCancel (put_pump g p b) = bcCancel b"
  "bcPumps (put_pump g p b) = AList.update g p (bcPumps b)" "bcPumpGen (put_pump g p b) = bcPumpGen b"
  "bcPanicked (put_pump g p b) = bcPanicked b" "bcLog (put_pump g p b) = bcLog b" "bcKey (put_pump g p b) = bcKey b"
  "bcClosed (put_pump g p b) = bcClosed b"
  "bcHeap (cancel_pump b) = bcHeap b" "bcSubs (cancel_pump b) = bcSubs b" "bcCancel (cancel_pump b) = None"
  "bcPumpGen (cancel_pump b) = bcPumpGen b" "bcPanicked (cancel_pump b) = bcPanicked b" "bcLog (cancel_pump b) = bcLog b"
  "bcKey (cancel_pump b) = bcKey b" "bcClosed (cancel_pump b) = bcClosed b"
  by (simp_all add: put_sub_def put_pump_def cancel_pump_def split: option.split)

text \<open>Changing an open subscriber without closing it, and closing it.\<close>

lemma put_sub_wf:
  assumes "bc_wf b" "map_of (bcHeap b) i = Some s" "sbClosed s' = sbClosed s" "sbChClosed s' = sbChClosed s"
  shows "bc_wf (put_sub i s' b)"
  using assms by (auto simp: bc_wf_def)

lemma detachLocked_eq:
  assumes "bc_wf b" "map_of (bcHeap b) i = Some s" "\<not> sbClosed s"
  shows "detachLocked i b =
    (let b2 = (put_sub i (s\<lparr>sbClosed := True, sbChClosed := True\<rparr>) b)\<lparr>bcSubs := removeAll i (bcSubs b)\<rparr>
     in if bcSubs b2 = [] then (cancel_pump b2)\<lparr>bcEmitter := False\<rparr> else b2)"
proof -
  have "\<not> sbChClosed s" "bcCancel b \<noteq> None" using bc_wfD [OF assms(1)] assms(2,3) by fastforce+
  then show ?thesis using assms(2,3) by (simp add: detachLocked_def close_sub_def Let_def)
qed

lemma removeAll_Nil: "removeAll x xs = [] \<longleftrightarrow> (\<forall>y \<in> set xs. y = x)"
  by (induction xs) auto

lemma detachLocked_wf:
  assumes "bc_wf b"
  shows "bc_wf (detachLocked i b)"
proof (cases "\<exists>s. map_of (bcHeap b) i = Some s \<and> \<not> sbClosed s")
  case True
  then obtain s where s: "map_of (bcHeap b) i = Some s" "\<not> sbClosed s" by blast
  show ?thesis unfolding detachLocked_eq [OF assms s] Let_def
    using assms unfolding bc_wf_def by (auto simp: s removeAll_Nil distinct_removeAll)
qed (use assms in \<open>auto simp: detachLocked_def split: option.split\<close>)

lemma push_wf:
  assumes "bc_wf b" "map_of (bcHeap b) i = Some s0" "\<not> sbClosed s0" "sbClosed s = sbClosed s0" "sbChClosed s = sbChClosed s0"
  shows "bc_wf (snd (push i s f b))"
proof -
  have "\<not> sbChClosed s" using bc_wfD(3) [OF assms(1,2)] assms by simp
  moreover have "bc_wf (put_sub i s b)" "bc_wf (put_sub i (s\<lparr>sbCh := sbCh s @ [f]\<rparr>) b)"
    using put_sub_wf [OF assms(1,2)] assms(4,5) by auto
  ultimately show ?thesis by (simp add: push_def detachLocked_wf)
qed

lemma send_wf: "bc_wf b \<Longrightarrow> bc_wf (snd (send i f b))" "bc_wf b \<Longrightarrow> bc_wf (snd (sendTyped i f b))"
  by (auto simp: send_def sendTyped_def intro: push_wf split: frame.split option.split)

lemma foldl_wf: "bc_wf b \<Longrightarrow> (\<And>b x. bc_wf b \<Longrightarrow> bc_wf (f b x)) \<Longrightarrow> bc_wf (foldl f b xs)"
  by (induction xs arbitrary: b) auto

lemma set_replay_wf: "bc_wf b \<Longrightarrow> bc_wf (set_replay i r b)"
  by (auto simp: set_replay_def intro: put_sub_wf split: option.split)

lemma pump_wf:
  assumes "bc_wf b" "map_of (bcPumps b) g = Some p" "pmCancelled p' = pmCancelled p"
    "pmPhase p' \<noteq> Ended \<or> bcCancel b \<noteq> Some g"
  shows "bc_wf (put_pump g p' b)"
  using assms by (auto simp: bc_wf_def)

lemma set_phase_wf: "bc_wf b \<Longrightarrow> ph \<noteq> Ended \<or> bcCancel b \<noteq> Some g \<Longrightarrow> bc_wf (set_phase g ph b)"
  by (auto simp: set_phase_def intro: pump_wf split: option.split)

lemma send_frame [simp]:
  "bcPumpGen (detachLocked i b) = bcPumpGen b" "bcLog (detachLocked i b) = bcLog b" "bcKey (detachLocked i b) = bcKey b"
  "bcPumpGen (snd (send i f b)) = bcPumpGen b" "bcLog (snd (send i f b)) = bcLog b" "bcKey (snd (send i f b)) = bcKey b"
  "bcLog (snd (sendTyped i f b)) = bcLog b" "bcKey (snd (sendTyped i f b)) = bcKey b"
  by (auto simp: send_def sendTyped_def push_def detachLocked_def close_sub_def Let_def split: frame.split option.split)

lemma fan_out_wf: "bc_wf b \<Longrightarrow> bc_wf (fan_out f is b)"
  by (simp add: fan_out_def foldl_wf send_wf)

lemma cancel_none_wf: "bc_wf b \<Longrightarrow> bcSubs b = [] \<Longrightarrow> b\<lparr>bcCancel := None\<rparr> = b"
  by (simp add: bc_wf_def)

lemma pump_entry_wf:
  assumes "bc_wf b"
  shows "bc_wf (pump_entry g b)"
proof -
  have "bc_wf (set_phase g Ending (b1\<lparr>bcCancel := None\<rparr>))" if "bc_wf b1" "bcSubs b1 = []" for b1
    using that cancel_none_wf [OF that] set_phase_wf [of b1 Ending g] by simp
  moreover have "bc_wf (fan_out f is (put_pump g (p\<lparr>pmCursor := c\<rparr>) b))" if "map_of (bcPumps b) g = Some p" "pmPhase p = Running" for f "is" p c
    using that assms by (intro fan_out_wf pump_wf) auto
  ultimately show ?thesis using assms by (auto simp: pump_entry_def Let_def split: option.split list.split)
qed

lemma detach_all: "bc_wf b \<Longrightarrow> set (bcSubs b) \<subseteq> set is \<Longrightarrow> bcSubs (foldl (\<lambda>b i. detachLocked i b) b is) = []"
proof (induction "is" arbitrary: b)
  case (Cons i "is")
  have "set (bcSubs (detachLocked i b)) \<subseteq> set is"
  proof (cases "\<exists>s. map_of (bcHeap b) i = Some s \<and> \<not> sbClosed s")
    case True
    then obtain s where "map_of (bcHeap b) i = Some s" "\<not> sbClosed s" by blast
    from detachLocked_eq [OF Cons.prems(1) this] show ?thesis using Cons.prems(2) by (auto simp: Let_def)
  next
    case False
    then have "i \<notin> set (bcSubs b)" using bc_wfD(4) [OF Cons.prems(1)] by blast
    then show ?thesis using False Cons.prems(2) by (auto simp: detachLocked_def split: option.split)
  qed
  then show ?case using Cons.IH [OF detachLocked_wf [OF Cons.prems(1)]] by simp
qed simp

lemma sweep_wf:
  assumes "bc_wf b"
  shows "bc_wf (pump_sweep g b)"
proof -
  let ?b = "foldl (\<lambda>b i. detachLocked i b) b (bcSubs b)"
  have wf: "bc_wf ?b" and e: "bcSubs ?b = []" using assms by (auto intro: foldl_wf detachLocked_wf detach_all)
  then have c: "bcCancel ?b = None" using bc_wfD(5) by blast
  then have "cancel_pump ?b = ?b" by (simp add: cancel_pump_def)
  moreover have "bcCancel b \<noteq> Some g" if "bcPumpGen b \<noteq> g \<or> bcCancel b = None" using that bc_wfD(6) [OF assms] by auto
  ultimately show ?thesis using assms wf c by (auto simp: pump_sweep_def intro!: set_phase_wf split: option.split)
qed

lemma AList_update_twice [simp]: "AList.update k v' (AList.update k v m) = AList.update k v' m"
  by (induction m) auto

lemma put_sub_twice [simp]: "put_sub i s' (put_sub i s b) = put_sub i s' b"
  by (simp add: put_sub_def)

lemma deliverBootFrames_eq:
  assumes "\<not> sbClosed s" "\<not> sbChClosed s" "length (sbCh s) + length fs \<le> subscriberBufferSize"
  shows "deliverBootFrames i fs (put_sub i s b) = put_sub i (s\<lparr>sbCh := sbCh s @ fs\<rparr>) b"
  using assms
proof (induction fs arbitrary: s)
  case (Cons f fs)
  have "sendTyped i f (put_sub i s b) = (True, put_sub i (s\<lparr>sbCh := sbCh s @ [f]\<rparr>) b)"
    using Cons.prems by (simp add: sendTyped_def push_def)
  then show ?case using Cons.IH [of "s\<lparr>sbCh := sbCh s @ [f]\<rparr>"] Cons.prems by simp
qed simp

lemma Subscribe_eq:
  assumes "length boot \<le> subscriberBufferSize"
  shows "Subscribe i since0 boot b =
    (let since = clampReplaySince since0 b; s = new_sub since boot
     in if bcClosed b then put_sub i (s\<lparr>sbReplay := ReplayOver, sbClosed := True, sbChClosed := True\<rparr>) b
        else if bcCancel b = None
        then put_sub i (s\<lparr>sbWire := True\<rparr>) ((put_pump (bcPumpGen b + 1) \<lparr>pmCursor = since, pmCancelled = False, pmPhase = Running\<rparr>
            (b\<lparr>bcSubs := bcSubs b @ [i]\<rparr>))\<lparr>bcPumpGen := bcPumpGen b + 1, bcCancel := Some (bcPumpGen b + 1)\<rparr>)
        else put_sub i s (b\<lparr>bcSubs := bcSubs b @ [i]\<rparr>))"
proof -
  let ?since = "clampReplaySince since0 b"
  have "deliverBootFrames i boot (put_sub i (new_sub ?since []) b) = put_sub i (new_sub ?since boot) b"
    using deliverBootFrames_eq [of "new_sub ?since []" boot i b] assms by (simp add: new_sub_def)
  then show ?thesis
    unfolding Subscribe_def Let_def new_sub_def [of ?since "[]", symmetric]
    by (auto simp: register_def close_sub_def new_sub_def put_sub_def put_pump_def)
qed

lemma length_bootFrames: "length (bootFrames caps status usage) \<le> subscriberBufferSize"
  by (simp add: bootFrames_def subscriberBufferSize_def split: option.split)

lemma Subscribe_wf:
  assumes "bc_wf b" "map_of (bcHeap b) i = None" "length boot \<le> subscriberBufferSize"
  shows "bc_wf (Subscribe i since boot b)"
proof -
  have i: "i \<notin> set (bcSubs b)" using bc_wfD(4) [OF assms(1)] assms(2) by auto
  show ?thesis unfolding Subscribe_eq [OF assms(3)] Let_def new_sub_def
    using assms(1,2) i by (auto simp: bc_wf_def)
qed

lemma shut_sel [simp]: "sbClosed (shut s)" "sbChClosed (shut s)" "sbReplay (shut s) = sbReplay s" "sbCh (shut s) = sbCh s"
    "sbTaken (shut s) = sbTaken s" "sbSince (shut s) = sbSince s" "sbLastSent (shut s) = sbLastSent s"
  by (simp_all add: shut_def)

lemma close_all_frame:
  "bcSubs (close_all is b) = bcSubs b" "bcCancel (close_all is b) = bcCancel b" "bcPumps (close_all is b) = bcPumps b"
  "bcPumpGen (close_all is b) = bcPumpGen b" "bcLog (close_all is b) = bcLog b" "bcKey (close_all is b) = bcKey b"
  by (induction "is" arbitrary: b) (simp_all add: close_all_def close_sub_def split: option.split)

lemma close_all_heap:
  assumes "chans_ok b"
  shows "map_of (bcHeap (close_all is b)) j =
      (case map_of (bcHeap b) j of None \<Rightarrow> None | Some s \<Rightarrow> Some (if j \<in> set is \<and> \<not> sbClosed s then shut s else s))
    \<and> \<not> bcPanicked (close_all is b)"
  using assms
proof (induction "is" arbitrary: b)
  case (Cons i "is")
  show ?case
  proof (cases "\<exists>s. map_of (bcHeap b) i = Some s \<and> \<not> sbClosed s")
    case False
    then have step: "close_all (i # is) b = close_all is b" by (auto simp: close_all_def split: option.split)
    show ?thesis unfolding step using Cons.IH [of b] Cons.prems False by (auto split: option.split)
  next
    case True
    then obtain s where s: "map_of (bcHeap b) i = Some s" "\<not> sbClosed s" by blast
    then have "\<not> sbChClosed s" using Cons.prems by (auto simp: chans_ok_def)
    then have step: "close_all (i # is) b = close_all is (put_sub i (shut s) b)" using s by (simp add: close_all_def close_sub_def shut_def)
    have "chans_ok (put_sub i (shut s) b)" using Cons.prems by (auto simp: chans_ok_def)
    from Cons.IH [OF this] show ?thesis unfolding step using s by (auto split: option.split)
  qed
qed (auto simp: close_all_def chans_ok_def split: option.split)

lemma Close_eq: "Close b = cancel_pump ((close_all (bcSubs b) (b\<lparr>bcClosed := True, bcClosing := True\<rparr>))\<lparr>bcSubs := []\<rparr>)"
  by (simp add: Close_def close_all_def Let_def)

lemma Close_heap:
  assumes "bc_wf b"
  shows "map_of (bcHeap (Close b)) j = map_option (\<lambda>s. if sbClosed s then s else shut s) (map_of (bcHeap b) j)" "\<not> bcPanicked (Close b)"
proof -
  have h: "chans_ok (b\<lparr>bcClosed := True, bcClosing := True\<rparr>)" using bc_wfD [OF assms] by (auto simp: chans_ok_def)
  show "map_of (bcHeap (Close b)) j = map_option (\<lambda>s. if sbClosed s then s else shut s) (map_of (bcHeap b) j)" "\<not> bcPanicked (Close b)"
    using close_all_heap [OF h, of "bcSubs b"] bc_wfD(4) [OF assms, of j] by (auto simp: Close_eq split: option.split)
qed

lemma Close_wf:
  assumes "bc_wf b"
  shows "bc_wf (Close b)"
proof -
  have c: "\<not> bcPanicked (Close b)" "bcSubs (Close b) = []" "bcCancel (Close b) = None"
    using Close_heap [OF assms] by (simp_all add: Close_eq)
  have "sbClosed s \<and> sbChClosed s" if h: "map_of (bcHeap (Close b)) i = Some s" for i s
  proof -
    obtain s0 where "map_of (bcHeap b) i = Some s0" "s = (if sbClosed s0 then s0 else shut s0)"
      using h Close_heap(1) [OF assms, of i] by auto
    then show ?thesis using bc_wfD(3) [OF assms] by (cases "sbClosed s0") auto
  qed
  then show ?thesis using c unfolding bc_wf_def by auto
qed

lemma bc_exec_wf:
  assumes "bc_wf b" "bc_enabled op b"
  shows "bc_wf (bc_exec op b)"
proof (cases op)
  case (AppendRow key seq ev)
  then show ?thesis using assms by (simp add: bc_wf_def)
next
  case (DoSubscribe i since caps status usage)
  then show ?thesis using assms Subscribe_wf length_bootFrames by simp
next
  case (WireEmitter i)
  have "bc_wf (b1\<lparr>bcEmitter := True\<rparr>) = bc_wf b1" for b1 by (simp add: bc_wf_def)
  then show ?thesis using WireEmitter assms by (auto simp: wire_emitter_def intro: put_sub_wf split: option.split)
next
  case (ReplayStep i fails)
  then show ?thesis using assms
    by (auto simp: replay_step_def intro: set_replay_wf detachLocked_wf send_wf split: option.split replay.split list.split prod.split)
      (metis send_wf(1) set_replay_wf snd_conv)+
next
  case (ReplayEnd i)
  then show ?thesis using assms by (auto simp: replay_end_def intro: set_replay_wf detachLocked_wf split: option.split)
next
  case (PumpStop g)
  then show ?thesis using assms by (auto simp: pump_stop_def intro: set_phase_wf split: option.split)
next
  case (DoEmit ty payload head timedOut)
  then show ?thesis using assms by (simp add: Emit_def foldl_wf send_wf)
next
  case (Drain i)
  then show ?thesis using assms by (auto simp: drain_def intro: put_sub_wf split: option.split list.split)
qed (use assms in \<open>simp_all add: pump_entry_wf sweep_wf Close_wf\<close>)

lemma bc_steps_wf: "bc_steps b b' \<Longrightarrow> bc_wf b \<Longrightarrow> bc_wf b'"
  by (induction rule: bc_steps.induct) (auto intro: bc_exec_wf)

lemma bc_wf_new: "bc_wf (newBroadcaster key log)"
  by (simp add: bc_wf_def newBroadcaster_def)

lemma every_subD: "every_sub P b \<Longrightarrow> map_of (bcHeap b) i = Some s \<Longrightarrow> P s"
  by (simp add: every_sub_def)

lemma every_sub_put: "every_sub P b \<Longrightarrow> P s \<Longrightarrow> every_sub P (put_sub i s b)"
  by (simp add: every_sub_def)

lemma every_sub_other [simp]: "every_sub P (b\<lparr>bcLog := x\<rparr>) = every_sub P b" "every_sub P (b\<lparr>bcEmitter := e\<rparr>) = every_sub P b"
  by (simp_all add: every_sub_def)

lemma every_sub_heap: "bcHeap b' = bcHeap b \<Longrightarrow> every_sub P b' = every_sub P b"
  by (simp add: every_sub_def)

text \<open>What holds of every subscriber at all times: it holds of a new one and the operations keep it.\<close>

locale subscriber_law =
  fixes P :: "subscriber \<Rightarrow> bool"
  assumes new_law: "P (new_sub since (bootFrames caps status usage))"
    and shut_law: "P s \<Longrightarrow> P (shut s)"
    and replay_law: "P s \<Longrightarrow> P (s\<lparr>sbReplay := r\<rparr>)"
    and wire_law: "P s \<Longrightarrow> P (s\<lparr>sbWire := w\<rparr>)"
    and log_law: "P s \<Longrightarrow> sbLastSent s < seq \<Longrightarrow> P (s\<lparr>sbLastSent := seq, sbCh := sbCh s @ [LogFrame seq ev]\<rparr>)"
    and drop_law: "P s \<Longrightarrow> sbLastSent s < seq \<Longrightarrow> P (shut (s\<lparr>sbLastSent := seq\<rparr>))"
    and typed_law: "P s \<Longrightarrow> P (s\<lparr>sbCh := sbCh s @ [TypedFrame ty x]\<rparr>)"
    and drain_law: "P s \<Longrightarrow> sbCh s = f # fs \<Longrightarrow> P (s\<lparr>sbCh := fs, sbTaken := sbTaken s @ [f]\<rparr>)"
begin

lemma detach_keeps:
  assumes "bc_wf b" "every_sub P b"
  shows "every_sub P (detachLocked i b)"
proof (cases "\<exists>s. map_of (bcHeap b) i = Some s \<and> \<not> sbClosed s")
  case True
  then obtain s where s: "map_of (bcHeap b) i = Some s" "\<not> sbClosed s" by blast
  have "P (shut s)" using s assms(2) by (auto intro: shut_law dest: every_subD)
  then show ?thesis unfolding detachLocked_eq [OF assms(1) s]
    using assms(2) by (simp add: every_sub_def shut_def Let_def)
qed (use assms in \<open>auto simp: detachLocked_def split: option.split\<close>)

lemma push_full:
  assumes "bc_wf b" "map_of (bcHeap b) i = Some s0" "\<not> sbClosed s0" "sbClosed s = sbClosed s0" "sbChClosed s = sbChClosed s0"
    and "every_sub P b" "P (shut s)"
  shows "every_sub P (detachLocked i (put_sub i s b))"
proof -
  have wf: "bc_wf (put_sub i s b)" using put_sub_wf [OF assms(1,2)] assms(4,5) by simp
  have s: "map_of (bcHeap (put_sub i s b)) i = Some s" "\<not> sbClosed s" using assms(3,4) by simp_all
  show ?thesis unfolding detachLocked_eq [OF wf s]
    using assms(6,7) by (simp add: every_sub_def shut_def Let_def)
qed

lemma send_keeps:
  assumes "bc_wf b" "every_sub P b"
  shows "every_sub P (snd (send i f b))"
proof (cases "\<exists>s. map_of (bcHeap b) i = Some s \<and> \<not> sbClosed s")
  case True
  then obtain s where s: "map_of (bcHeap b) i = Some s" "\<not> sbClosed s" by blast
  have p: "P s" using every_subD [OF assms(2) s(1)] .
  note full = push_full [OF assms(1) s _ _ assms(2)]
  show ?thesis
  proof (cases f)
    case (LogFrame seq ev)
    then show ?thesis using s p assms(2) full [of "s\<lparr>sbLastSent := seq\<rparr>"] drop_law [OF p, of seq] log_law [OF p, of seq ev]
        bc_wfD(3) [OF assms(1) s(1)]
      by (auto simp: send_def push_def intro!: every_sub_put)
  next
    case (TypedFrame ty x)
    then show ?thesis using s p assms(2) full [of s] shut_law [OF p] typed_law [OF p] bc_wfD(3) [OF assms(1) s(1)]
      by (auto simp: send_def sendTyped_def push_def intro!: every_sub_put)
  qed
qed (use assms in \<open>auto simp: send_def sendTyped_def split: option.split frame.split\<close>)

lemma foldl_keeps:
  assumes "bc_wf b" "every_sub P b" "\<And>b x. bc_wf b \<Longrightarrow> bc_wf (f b x)" "\<And>b x. bc_wf b \<Longrightarrow> every_sub P b \<Longrightarrow> every_sub P (f b x)"
  shows "every_sub P (foldl f b xs)"
  using assms(1,2) by (induction xs arbitrary: b) (auto simp: assms(3,4))

lemma set_replay_keeps: "every_sub P b \<Longrightarrow> every_sub P (set_replay i r b)"
  by (auto simp: set_replay_def intro!: every_sub_put replay_law dest: every_subD split: option.split)

lemma sendTyped_send: "sendTyped i (TypedFrame ty x) b = send i (TypedFrame ty x) b"
  by (simp add: send_def)

lemma subscribe_keeps:
  assumes "every_sub P b"
  shows "every_sub P (Subscribe i since (bootFrames caps status usage) b)"
proof -
  let ?s = "new_sub (clampReplaySince since b) (bootFrames caps status usage)"
  have "P ?s" "P (?s\<lparr>sbWire := True\<rparr>)" "P (shut (?s\<lparr>sbReplay := ReplayOver\<rparr>))"
    using new_law shut_law replay_law wire_law by blast+
  then show ?thesis unfolding Subscribe_eq [OF length_bootFrames] Let_def
    using assms by (auto simp: every_sub_def shut_def)
qed

lemma set_phase_heap: "bcHeap (set_phase g ph b) = bcHeap b"
  by (simp add: set_phase_def split: option.split)

lemma exec_keeps:
  assumes "bc_wf b" "bc_enabled op b" "every_sub P b"
  shows "every_sub P (bc_exec op b)"
proof (cases op)
  case (ReplayStep i fails)
  have "every_sub P (set_replay i r (snd (send i f b)))" for r f using send_keeps [OF assms(1,3)] set_replay_keeps by blast
  then show ?thesis using ReplayStep assms set_replay_keeps detach_keeps
    by (auto simp: replay_step_def case_prod_beta Let_def split: option.split replay.split list.split)
next
  case (PumpEntry g)
  have "every_sub P (fan_out f is (put_pump g (p\<lparr>pmCursor := c\<rparr>) b))" if "map_of (bcPumps b) g = Some p" "pmPhase p = Running" for f "is" p c
    unfolding fan_out_def using that assms by (intro foldl_keeps send_keeps send_wf pump_wf) (auto simp: every_sub_def)
  then show ?thesis using PumpEntry assms
    by (auto simp: pump_entry_def set_phase_heap Let_def every_sub_def split: option.split list.split)
next
  case (PumpSweep g)
  have "every_sub P (foldl (\<lambda>b i. detachLocked i b) b is)" for "is"
    using assms by (intro foldl_keeps detach_keeps detachLocked_wf)
  then show ?thesis using PumpSweep assms
    by (auto simp: pump_sweep_def set_phase_heap every_sub_def split: option.split)
next
  case (DoEmit ty payload head timedOut)
  then show ?thesis using assms
    by (auto simp: Emit_def sendTyped_send intro!: foldl_keeps send_keeps send_wf)
next
  case DoClose
  then show ?thesis using assms Close_heap(1) [OF assms(1)] shut_law by (auto simp: every_sub_def)
qed (use assms in \<open>auto simp: wire_emitter_def replay_end_def pump_stop_def drain_def every_sub_heap [OF set_phase_heap]
      intro: subscribe_keeps set_replay_keeps detach_keeps intro!: every_sub_put wire_law drain_law
      dest: every_subD split: option.split list.split\<close>)

lemma steps_keep: "bc_steps b b' \<Longrightarrow> bc_wf b \<Longrightarrow> every_sub P b \<Longrightarrow> every_sub P b'"
  by (induction rule: bc_steps.induct) (auto intro: exec_keeps bc_steps_wf)

end

lemma map_filter_append' [simp]: "List.map_filter f (xs @ ys) = List.map_filter f xs @ List.map_filter f ys"
  by (induction xs) (auto simp: List.map_filter_def)

lemma log_frames_simps [simp]:
  "log_frames (s\<lparr>sbReplay := r\<rparr>) = log_frames s" "log_frames (s\<lparr>sbWire := w\<rparr>) = log_frames s" "log_frames (shut s) = log_frames s"
  "log_frames (s\<lparr>sbLastSent := x\<rparr>) = log_frames s"
  "log_frames (s\<lparr>sbCh := sbCh s @ [f]\<rparr>) = log_frames s @ List.map_filter log_frame [f]"
  "log_frames (s\<lparr>sbLastSent := x, sbCh := sbCh s @ [f]\<rparr>) = log_frames s @ List.map_filter log_frame [f]"
  "sbCh s = f # fs \<Longrightarrow> log_frames (s\<lparr>sbCh := fs, sbTaken := sbTaken s @ [f]\<rparr>) = log_frames s"
  "log_frames (new_sub since (bootFrames caps status usage)) = []"
  by (auto simp: log_frames_def stream_of_def new_sub_def bootFrames_def shut_def List.map_filter_def split: option.split)

lemma new_sub_sel [simp]:
  "sbCh (new_sub since boot) = boot" "sbTaken (new_sub since boot) = []" "sbSince (new_sub since boot) = since"
  "sbLastSent (new_sub since boot) = since" "sbReplay (new_sub since boot) = ReplayStart" "\<not> sbClosed (new_sub since boot)"
  by (simp_all add: new_sub_def)

lemma hd_bootFrames: "hd (bootFrames caps status usage) = TypedFrame EventCapabilities caps" "bootFrames caps status usage \<noteq> []"
  by (simp_all add: bootFrames_def)

interpretation ordered: subscriber_law in_order
proof
  fix s seq ev assume s: "in_order s" "sbLastSent s < seq"
  then have "\<forall>x \<in> set (log_frames s). fst x < seq" by (fastforce simp: in_order_def list_all_iff)
  with s show "in_order (s\<lparr>sbLastSent := seq, sbCh := sbCh s @ [LogFrame seq ev]\<rparr>)"
    by (auto simp: in_order_def list_all_iff sorted_wrt_append stream_of_def List.map_filter_def hd_append)
  show "in_order (shut (s\<lparr>sbLastSent := seq\<rparr>))" using s by (auto simp: in_order_def list_all_iff stream_of_def)
qed (auto simp: in_order_def list_all_iff stream_of_def List.map_filter_def hd_bootFrames hd_append)

lemma queryRows_next:
  assumes "log_ok log" "queryRows key a log = r # rest"
  shows "queryRows key (lrSeq r) log = rest" "lrKey r = key" "a < lrSeq r" "r \<in> set log"
    "\<And>r'. r' \<in> set log \<Longrightarrow> lrKey r' = key \<Longrightarrow> a < lrSeq r' \<Longrightarrow> lrSeq r \<le> lrSeq r'"
proof -
  obtain us vs where log: "log = us @ r # vs" "\<forall>u \<in> set us. \<not> (a < lrSeq u \<and> lrKey u = key)" "a < lrSeq r" "lrKey r = key"
      "rest = queryRows key a vs"
    using assms(2) by (auto simp: queryRows_def filter_eq_Cons_iff)
  have less: "\<forall>v \<in> set vs. lrSeq r < lrSeq v" "\<forall>u \<in> set us. lrSeq u < lrSeq r"
    using assms(1) by (auto simp: log(1) log_ok_def sorted_wrt_append)
  have "queryRows key (lrSeq r) vs = queryRows key a vs" unfolding queryRows_def by (rule filter_cong) (use less(1) log(3) in auto)
  moreover have "queryRows key (lrSeq r) us = []" using less(2) by (auto simp: queryRows_def filter_empty_conv)
  moreover have "queryRows key (lrSeq r) log = queryRows key (lrSeq r) us @ queryRows key (lrSeq r) vs"
    by (simp add: queryRows_def log(1))
  ultimately show "queryRows key (lrSeq r) log = rest" using log(5) by simp
  show "lrKey r = key" "a < lrSeq r" "r \<in> set log" using log by auto
  show "lrSeq r \<le> lrSeq r'" if "r' \<in> set log" "lrKey r' = key" "a < lrSeq r'" for r'
    using that log(1,2) less(1) by fastforce
qed

lemma rows_upto_next:
  assumes "log_ok log" "queryRows key a log = r # rest" "a \<le> sent" "since \<le> sent" "sent < lrSeq r"
  shows "rows_upto key since (lrSeq r) log = rows_upto key since sent log @ [(lrSeq r, lrEvent r)]"
proof -
  note q = queryRows_next [OF assms(1,2)]
  obtain us vs where log: "log = us @ r # vs" using q(4) by (metis split_list)
  have less: "\<forall>v \<in> set vs. lrSeq r < lrSeq v" "\<forall>u \<in> set us. lrSeq u < lrSeq r"
    using assms(1) by (auto simp: log log_ok_def sorted_wrt_append)
  have us: "lrSeq u \<le> sent" if "u \<in> set us" "lrKey u = key" for u
    using q(5) [of u] that less(2) assms(3) by (force simp: log)
  have "filter (\<lambda>x. lrKey x = key \<and> since < lrSeq x \<and> lrSeq x \<le> lrSeq r) us = filter (\<lambda>x. lrKey x = key \<and> since < lrSeq x \<and> lrSeq x \<le> sent) us"
    by (rule filter_cong) (use us less(2) in auto)
  moreover have "filter (\<lambda>x. lrKey x = key \<and> since < lrSeq x \<and> lrSeq x \<le> u) vs = []" if "u \<le> lrSeq r" for u
    using less(1) that by (fastforce simp: filter_empty_conv)
  ultimately show ?thesis using q(2) assms(4,5) by (simp add: rows_upto_def log)
qed

lemma complete_cong: "bcKey b' = bcKey b \<Longrightarrow> bcLog b' = bcLog b \<Longrightarrow> complete s b' = complete s b"
  by (simp add: complete_def)

lemma complete_send [simp]: "complete s (snd (send j f b)) = complete s b" "complete s (detachLocked j b) = complete s b"
  by (rule complete_cong; simp)+

lemma detach_heap:
  assumes "bc_wf b"
  shows "map_of (bcHeap (detachLocked j b)) i =
    (case map_of (bcHeap b) i of None \<Rightarrow> None | Some s \<Rightarrow> Some (if i = j \<and> \<not> sbClosed s then shut s else s))"
proof (cases "\<exists>s. map_of (bcHeap b) j = Some s \<and> \<not> sbClosed s")
  case True
  then obtain s where s: "map_of (bcHeap b) j = Some s" "\<not> sbClosed s" by blast
  show ?thesis unfolding detachLocked_eq [OF assms s] using s by (auto simp: shut_def Let_def split: option.split)
qed (auto simp: detachLocked_def split: option.split)

lemma detach_pumps: "map_of (bcPumps (detachLocked j b)) g = Some p \<Longrightarrow>
    \<exists>p0. map_of (bcPumps b) g = Some p0 \<and> pmCursor p = pmCursor p0 \<and> pmPhase p = pmPhase p0"
  by (auto simp: detachLocked_def close_sub_def cancel_pump_def Let_def split: option.splits if_splits)

lemma send_pumps: "map_of (bcPumps (snd (send j f b))) g = Some p \<Longrightarrow>
    \<exists>p0. map_of (bcPumps b) g = Some p0 \<and> pmCursor p = pmCursor p0 \<and> pmPhase p = pmPhase p0"
  by (auto simp: send_def sendTyped_def push_def dest!: detach_pumps split: frame.splits option.splits if_splits)

text \<open>What a send does to the subscriber it is for, and to the others.\<close>

lemma send_heap:
  assumes "bc_wf b" "map_of (bcHeap (snd (send j f b))) i = Some s'" "\<not> sbClosed s'"
  obtains s where "map_of (bcHeap b) i = Some s" "\<not> sbClosed s" "s' = s \<and> (\<forall>seq ev. f = LogFrame seq ev \<longrightarrow> i = j \<longrightarrow> seq \<le> sbLastSent s)"
  | s ty x where "map_of (bcHeap b) i = Some s" "\<not> sbClosed s" "f = TypedFrame ty x" "s' = s\<lparr>sbCh := sbCh s @ [f]\<rparr>"
  | s seq ev where "map_of (bcHeap b) i = Some s" "\<not> sbClosed s" "i = j" "f = LogFrame seq ev" "sbLastSent s < seq"
      "s' = s\<lparr>sbLastSent := seq, sbCh := sbCh s @ [f]\<rparr>"
proof -
  have push: "(\<exists>s. map_of (bcHeap b) i = Some s \<and> \<not> sbClosed s \<and> s' = s \<and> i \<noteq> j) \<or> (i = j \<and> s' = s1\<lparr>sbCh := sbCh s1 @ [f]\<rparr>)"
    if "map_of (bcHeap b) j = Some s0" "\<not> sbClosed s0" "sbClosed s1 = sbClosed s0" "sbChClosed s1 = sbChClosed s0"
      "map_of (bcHeap (snd (push j s1 f b))) i = Some s'" for s0 s1
  proof -
    have wf: "bc_wf (put_sub j s1 b)" using put_sub_wf [OF assms(1) that(1)] that(3,4) by simp
    have c: "\<not> sbChClosed s1" using bc_wfD(3) [OF assms(1) that(1)] that(2,4) by simp
    show ?thesis using that(5) c assms(3) that(2,3) by (auto simp: push_def detach_heap [OF wf] split: if_splits option.splits)
  qed
  show ?thesis
  proof (cases "\<exists>s. map_of (bcHeap b) j = Some s \<and> \<not> sbClosed s")
    case False
    then have "snd (send j f b) = b" by (auto simp: send_def sendTyped_def split: frame.split option.split)
    then show ?thesis using assms(2,3) that(1) False by auto
  next
    case True
    then obtain s0 where s0: "map_of (bcHeap b) j = Some s0" "\<not> sbClosed s0" by blast
    show ?thesis
    proof (cases f)
      case (TypedFrame ty x)
      then have "map_of (bcHeap (snd (push j s0 f b))) i = Some s'" using assms(2) s0 by (simp add: send_def sendTyped_def)
      from push [OF s0 _ _ this] show ?thesis using that(1,2) s0 TypedFrame by auto
    next
      case (LogFrame seq ev)
      show ?thesis
      proof (cases "seq \<le> sbLastSent s0")
        case True
        then have "snd (send j f b) = b" using s0 LogFrame by (simp add: send_def)
        moreover from this have "i = j \<Longrightarrow> s' = s0" using assms(2) s0 by simp
        ultimately show ?thesis using assms(2,3) True LogFrame by (intro that(1) [of s']) auto
      next
        case False
        then have "map_of (bcHeap (snd (push j (s0\<lparr>sbLastSent := seq\<rparr>) f b))) i = Some s'"
          using assms(2) s0 LogFrame by (simp add: send_def)
        from push [OF s0 _ _ this] show ?thesis using that(1,3) s0 LogFrame False by auto
      qed
    qed
  qed
qed

lemma complete_push:
  assumes "log_ok (bcLog b)" "queryRows (bcKey b) a (bcLog b) = r # rest" "a \<le> sbLastSent s" "sbLastSent s < lrSeq r" "complete s b"
  shows "complete (s\<lparr>sbLastSent := lrSeq r, sbCh := sbCh s @ [row_frame r]\<rparr>) b"
proof -
  have "rows_upto (bcKey b) (sbSince s) (lrSeq r) (bcLog b) = rows_upto (bcKey b) (sbSince s) (sbLastSent s) (bcLog b) @ [(lrSeq r, lrEvent r)]"
    using rows_upto_next [OF assms(1,2,3) _ assms(4)] assms(5) by (simp add: complete_def)
  moreover have "r \<in> set (bcLog b)" using queryRows_next(4) [OF assms(1,2)] .
  moreover have "\<exists>a \<le> lrSeq r. prefix rs (queryRows (bcKey b) a (bcLog b))" if "sbReplay s = Replaying rs" for rs
    using that assms(4,5) unfolding complete_def by (meson less_imp_le order_trans)
  ultimately show ?thesis using assms(4,5) by (auto simp: complete_def row_frame_def List.map_filter_def)
qed

lemma send_row:
  assumes "bc_wf b" "log_ok (bcLog b)" "queryRows (bcKey b) a (bcLog b) = r # rest" "reached i a b" "complete_at i b"
  shows "complete_at i (snd (send j (row_frame r) b))" "reached i c b \<Longrightarrow> reached i c (snd (send j (row_frame r) b))"
    "j = i \<Longrightarrow> reached i (lrSeq r) (snd (send j (row_frame r) b))"
proof -
  let ?b = "snd (send j (row_frame r) b)"
  have main: "complete s' ?b \<and> (reached i c b \<longrightarrow> c \<le> sbLastSent s') \<and> (j = i \<longrightarrow> lrSeq r \<le> sbLastSent s')"
    if h: "map_of (bcHeap ?b) i = Some s'" "\<not> sbClosed s'" for s' c
    using assms(1) h
  proof (cases rule: send_heap)
    case (1 s)
    then show ?thesis using assms(5) by (auto simp: complete_at_def reached_def row_frame_def)
  next
    case (2 s ty x)
    then show ?thesis by (simp add: row_frame_def)
  next
    case (3 s seq ev)
    then have "complete s' b" using complete_push [OF assms(2,3)] assms(4,5) by (simp add: complete_at_def reached_def row_frame_def)
    then show ?thesis using 3 by (auto simp: row_frame_def reached_def)
  qed
  then show "complete_at i ?b" "reached i c b \<Longrightarrow> reached i c ?b" "j = i \<Longrightarrow> reached i (lrSeq r) ?b"
    by (auto simp: complete_at_def reached_def)
qed

lemma fan_out_row:
  assumes "bc_wf b" "log_ok (bcLog b)" "queryRows (bcKey b) a (bcLog b) = r # rest" "reached i a b" "complete_at i b"
  shows "complete_at i (fan_out (row_frame r) js b) \<and> (reached i c b \<longrightarrow> reached i c (fan_out (row_frame r) js b)) \<and>
    (i \<in> set js \<longrightarrow> reached i (lrSeq r) (fan_out (row_frame r) js b))"
  using assms
proof (induction js arbitrary: b c)
  case (Cons j js)
  let ?b = "snd (send j (row_frame r) b)"
  have b: "bc_wf ?b" "log_ok (bcLog ?b)" "queryRows (bcKey ?b) a (bcLog ?b) = r # rest" "reached i a ?b" "complete_at i ?b"
    using Cons.prems send_wf send_row by simp_all
  have step: "fan_out (row_frame r) (j # js) b = fan_out (row_frame r) js ?b" by (simp add: fan_out_def)
  show ?case unfolding step using Cons.IH [OF b] send_row [OF Cons.prems(1-5)] by auto
qed (simp add: fan_out_def)

lemma behind_keep:
  assumes "pumps_behind i b" "\<And>c. reached i c b \<Longrightarrow> reached i c b'"
    and "\<And>g p. map_of (bcPumps b') g = Some p \<Longrightarrow> pmPhase p = Running \<Longrightarrow>
      \<exists>p0. map_of (bcPumps b) g = Some p0 \<and> pmCursor p = pmCursor p0 \<and> pmPhase p = pmPhase p0"
  shows "pumps_behind i b'"
  unfolding pumps_behind_def
proof (intro allI impI)
  fix g p assume "map_of (bcPumps b') g = Some p" "pmPhase p = Running"
  moreover from assms(3) [OF this] obtain p0 where "map_of (bcPumps b) g = Some p0" "pmCursor p = pmCursor p0" "pmPhase p = pmPhase p0" by blast
  ultimately show "reached i (pmCursor p) b'" using assms(1,2) unfolding pumps_behind_def by metis
qed

lemma detach_gap:
  assumes "bc_wf b" "gap_free i b"
  shows "gap_free i (detachLocked j b)" "reached i c b \<Longrightarrow> reached i c (detachLocked j b)"
proof -
  have r: "reached i c (detachLocked j b)" if "reached i c b" for c
    using that by (auto simp: reached_def detach_heap [OF assms(1)] split: option.splits if_splits)
  then show "reached i c b \<Longrightarrow> reached i c (detachLocked j b)" .
  have "complete_at i (detachLocked j b)"
    using assms(2) by (auto simp: gap_free_def complete_at_def detach_heap [OF assms(1)] split: option.splits if_splits)
  moreover have "pumps_behind i (detachLocked j b)"
    by (rule behind_keep [of i b]) (use assms(2) [unfolded gap_free_def] r detach_pumps in blast)+
  ultimately show "gap_free i (detachLocked j b)" by (simp add: gap_free_def)
qed

lemma complete_typed: "complete s b \<Longrightarrow> complete (s\<lparr>sbCh := sbCh s @ [TypedFrame ty x]\<rparr>) b"
  by (simp add: complete_def List.map_filter_def)

lemma typed_gap:
  assumes "bc_wf b" "gap_free i b"
  shows "gap_free i (snd (send j (TypedFrame ty x) b))"
proof -
  let ?b = "snd (send j (TypedFrame ty x) b)"
  have main: "complete s' ?b \<and> (reached i c b \<longrightarrow> c \<le> sbLastSent s')" if h: "map_of (bcHeap ?b) i = Some s'" "\<not> sbClosed s'" for s' c
    using assms(1) h by (cases rule: send_heap)
      (use assms(2) complete_typed in \<open>auto simp: gap_free_def complete_at_def reached_def\<close>)
  have r: "reached i c ?b" if "reached i c b" for c using main that by (auto simp: reached_def)
  have "complete_at i ?b" using main by (auto simp: complete_at_def)
  moreover have "pumps_behind i ?b"
    by (rule behind_keep [of i b]) (use assms(2) [unfolded gap_free_def] r send_pumps in blast)+
  ultimately show ?thesis by (simp add: gap_free_def)
qed

lemma row_gap:
  assumes "bc_wf b" "log_ok (bcLog b)" "queryRows (bcKey b) a (bcLog b) = r # rest" "reached i a b" "gap_free i b"
  shows "gap_free i (snd (send j (row_frame r) b))"
proof -
  have c: "complete_at i b" using assms(5) by (simp add: gap_free_def)
  note s = send_row [OF assms(1-4) c]
  have "pumps_behind i (snd (send j (row_frame r) b))"
    by (rule behind_keep [of i b]) (use assms(5) [unfolded gap_free_def] s(2) send_pumps in blast)+
  then show ?thesis using s(1) by (simp add: gap_free_def)
qed

lemma foldl_gap:
  assumes "bc_wf b" "gap_free i b" "\<And>b x. bc_wf b \<Longrightarrow> bc_wf (f b x)" "\<And>b x. bc_wf b \<Longrightarrow> gap_free i b \<Longrightarrow> gap_free i (f b x)"
  shows "gap_free i (foldl f b xs)"
  using assms(1,2) by (induction xs arbitrary: b) (auto simp: assms(3,4))

text \<open>Changing a subscriber in a way that does not matter here.\<close>

lemma put_gap:
  assumes "gap_free i b" "map_of (bcHeap b) j = Some s"
    and "\<not> sbClosed s' \<Longrightarrow> \<not> sbClosed s \<and> sbLastSent s' = sbLastSent s \<and> (i = j \<longrightarrow> complete s b \<longrightarrow> complete s' b)"
  shows "gap_free i (put_sub j s' b)"
proof -
  have c: "complete x (put_sub j s' b) = complete x b" for x by (rule complete_cong) simp_all
  have r: "reached i c (put_sub j s' b)" if "reached i c b" for c using that assms(2,3) by (auto simp: reached_def)
  have "pumps_behind i (put_sub j s' b)" by (rule behind_keep [of i b]) (use assms(1) r in \<open>auto simp: gap_free_def\<close>)
  moreover have "complete_at i (put_sub j s' b)" using assms by (auto simp: gap_free_def complete_at_def c)
  ultimately show ?thesis by (simp add: gap_free_def)
qed

lemma complete_replay:
  "complete s b \<Longrightarrow> (\<And>rs. r = Replaying rs \<Longrightarrow> \<exists>a \<le> sbLastSent s. prefix rs (queryRows (bcKey b) a (bcLog b))) \<Longrightarrow> complete (s\<lparr>sbReplay := r\<rparr>) b"
  by (simp add: complete_def)

lemma set_replay_gap:
  assumes "gap_free i b"
    and "\<And>rs s. r = Replaying rs \<Longrightarrow> i = j \<Longrightarrow> map_of (bcHeap b) j = Some s \<Longrightarrow> \<not> sbClosed s \<Longrightarrow>
      \<exists>a \<le> sbLastSent s. prefix rs (queryRows (bcKey b) a (bcLog b))"
  shows "gap_free i (set_replay j r b)"
  unfolding set_replay_def
  by (cases "map_of (bcHeap b) j") (use assms in \<open>auto intro!: put_gap complete_replay\<close>)

lemma phase_gap: "gap_free i b \<Longrightarrow> ph \<noteq> Running \<Longrightarrow> gap_free i (set_phase g ph b)"
  by (auto simp: gap_free_def set_phase_def complete_at_def pumps_behind_def reached_def complete_def split: option.splits if_splits)

lemma other_gap:
  assumes "bc_wf b" "gap_free i b" "j \<noteq> i"
  shows "gap_free i (snd (send j f b))"
proof (cases f)
  case (TypedFrame ty x)
  then show ?thesis using typed_gap [OF assms(1,2)] by simp
next
  case (LogFrame seq ev)
  let ?b = "snd (send j f b)"
  have main: "map_of (bcHeap b) i = Some s'" if h: "map_of (bcHeap ?b) i = Some s'" "\<not> sbClosed s'" for s'
    using assms(1) h by (cases rule: send_heap) (use assms(3) LogFrame in auto)
  have "reached i c ?b" if "reached i c b" for c using main that by (auto simp: reached_def)
  then have "pumps_behind i ?b" by (rule behind_keep [of i b, rotated]) (use assms(2) [unfolded gap_free_def] send_pumps in blast)+
  moreover have "complete_at i ?b" using main assms(2) by (auto simp: complete_at_def gap_free_def)
  ultimately show ?thesis by (simp add: gap_free_def)
qed

lemma fan_out_pumps: "map_of (bcPumps (fan_out f js b)) g = Some p \<Longrightarrow>
    \<exists>p0. map_of (bcPumps b) g = Some p0 \<and> pmCursor p = pmCursor p0 \<and> pmPhase p = pmPhase p0"
proof (induction js arbitrary: b)
  case (Cons j js)
  then have "map_of (bcPumps (fan_out f js (snd (send j f b)))) g = Some p" by (simp add: fan_out_def)
  from Cons.IH [OF this] show ?case using send_pumps by metis
qed (simp add: fan_out_def)

lemma pump_entry_gap:
  assumes "bc_wf b" "log_ok (bcLog b)" "gap_free i b"
  shows "gap_free i (pump_entry g b)"
proof (cases "\<exists>p r rest. map_of (bcPumps b) g = Some p \<and> queryRows (bcKey b) (pmCursor p) (bcLog b) = r # rest \<and> pmPhase p = Running")
  case False
  then have "pump_entry g b = b" by (auto simp: pump_entry_def split: option.split list.split)
  then show ?thesis using assms(3) by simp
next
  case True
  then obtain p r rest where p: "map_of (bcPumps b) g = Some p" "queryRows (bcKey b) (pmCursor p) (bcLog b) = r # rest" "pmPhase p = Running"
    by blast
  define b0 where "b0 = put_pump g (p\<lparr>pmCursor := lrSeq r\<rparr>) b"
  define b1 where "b1 = fan_out (row_frame r) (bcSubs b) b0"
  have wf: "bc_wf b0" unfolding b0_def by (rule pump_wf [OF assms(1) p(1)]) (use p(3) in auto)
  have r0: "reached i c b0 = reached i c b" for c by (simp add: b0_def reached_def)
  have c0: "complete_at i b0" using assms(3) by (simp add: gap_free_def complete_at_def b0_def complete_def)
  have at: "reached i (pmCursor p) b0" using assms(3) p(1,3) by (simp add: r0 gap_free_def pumps_behind_def)
  have f: "complete_at i b1" "reached i c b \<Longrightarrow> reached i c b1" "i \<in> set (bcSubs b) \<Longrightarrow> reached i (lrSeq r) b1" for c
    using fan_out_row [OF wf _ _ at c0, of r rest "bcSubs b" c] assms(2) p(2) r0 by (simp_all add: b1_def b0_def)
  have "reached i (lrSeq r) b" if "i \<notin> set (bcSubs b)" using that bc_wfD(4) [OF assms(1)] by (auto simp: reached_def)
  then have new: "reached i (lrSeq r) b1" using f(2,3) by blast
  have "pumps_behind i b1" unfolding pumps_behind_def
  proof (intro allI impI)
    fix h q assume h: "map_of (bcPumps b1) h = Some q" "pmPhase q = Running"
    from fan_out_pumps [OF h(1) [unfolded b1_def]] obtain q0 where
      "map_of (bcPumps b0) h = Some q0" "pmCursor q = pmCursor q0" "pmPhase q = pmPhase q0" by blast
    then show "reached i (pmCursor q) b1" using new h(2) f(2) assms(3)
      by (cases "h = g") (auto simp: b0_def gap_free_def pumps_behind_def)
  qed
  then have g1: "gap_free i b1" using f(1) by (simp add: gap_free_def)
  have wf1: "bc_wf b1" unfolding b1_def by (rule fan_out_wf [OF wf])
  have "pump_entry g b = (if bcSubs b1 = [] then set_phase g Ending (b1\<lparr>bcCancel := None\<rparr>) else b1)"
    using p by (simp add: pump_entry_def b1_def b0_def row_frame_def Let_def)
  then show ?thesis using g1 phase_gap [OF g1] cancel_none_wf [OF wf1] by auto
qed

lemma sweep_gap:
  assumes "bc_wf b" "gap_free i b"
  shows "gap_free i (pump_sweep g b)"
proof -
  let ?b = "foldl (\<lambda>b i. detachLocked i b) b (bcSubs b)"
  have "bcSubs ?b = []" using assms by (auto intro: detach_all)
  moreover have "bc_wf ?b" using assms(1) by (intro foldl_wf detachLocked_wf)
  ultimately have c: "bcCancel ?b = None" using bc_wfD(5) by blast
  then have "cancel_pump ?b = ?b" by (simp add: cancel_pump_def)
  moreover have "gap_free i ?b" using assms by (intro foldl_gap detachLocked_wf detach_gap)
  ultimately show ?thesis using assms(2) phase_gap by (auto simp: pump_sweep_def split: option.split)
qed

lemma Close_gap:
  assumes "bc_wf b" "gap_free i b"
  shows "gap_free i (Close b)"
proof -
  have "sbClosed s" if h: "map_of (bcHeap (Close b)) i = Some s" for s
  proof -
    obtain s0 where "s = (if sbClosed s0 then s0 else shut s0)" using h Close_heap(1) [OF assms(1), of i] by auto
    then show ?thesis by (cases "sbClosed s0") auto
  qed
  then show ?thesis by (auto simp: gap_free_def complete_at_def pumps_behind_def reached_def)
qed

lemma append_gap:
  assumes "gap_free i b" "\<forall>r \<in> set (bcLog b). lrSeq r < seq"
  shows "gap_free i (bc_exec (AppendRow key seq ev) b)"
proof -
  let ?b = "bc_exec (AppendRow key seq ev) b"
  have "complete s ?b" if "complete s b" for s
  proof -
    have "sbLastSent s = sbSince s \<or> sbLastSent s < seq" using that assms(2) by (auto simp: complete_def)
    then have "rows_upto (bcKey b) (sbSince s) (sbLastSent s) (bcLog ?b) = rows_upto (bcKey b) (sbSince s) (sbLastSent s) (bcLog b)"
      by (auto simp: rows_upto_def)
    moreover have "prefix (queryRows (bcKey b) a (bcLog b)) (queryRows (bcKey b) a (bcLog ?b))" for a
      by (simp add: queryRows_def)
    ultimately show ?thesis using that unfolding complete_def by auto (metis prefix_order.trans)+
  qed
  then show ?thesis using assms(1) by (auto simp: gap_free_def complete_at_def pumps_behind_def reached_def)
qed

lemma replay_gap:
  assumes "bc_wf b" "log_ok (bcLog b)" "gap_free i b"
  shows "gap_free i (replay_step j fails b)"
proof (cases "map_of (bcHeap b) j")
  case (Some s)
  have stop: "gap_free i (set_replay j ReplayOver (detachLocked j b))" using assms detach_gap(1) by (intro set_replay_gap) auto
  have start: "gap_free i (set_replay j (Replaying (queryRows (bcKey b) (sbSince s) (bcLog b))) b)"
    using assms(3) Some by (intro set_replay_gap) (auto simp: gap_free_def complete_at_def complete_def intro!: exI [of _ "sbSince s"])
  have row: "gap_free i (set_replay j (if fst x then Replaying rs else ReplayOver) (snd x))"
    if rs: "sbReplay s = Replaying (r # rs)" and x: "x = send j (row_frame r) b" for r rs x
  proof (cases "j = i \<and> \<not> sbClosed s")
    case True
    then have "complete s b" using assms(3) Some by (simp add: gap_free_def complete_at_def)
    then obtain a where a: "a \<le> sbLastSent s" "prefix (r # rs) (queryRows (bcKey b) a (bcLog b))" using rs by (auto simp: complete_def)
    then obtain rest where q: "queryRows (bcKey b) a (bcLog b) = r # rest" "prefix rs rest" by (auto simp: prefix_Cons prefix_def)
    have ra: "reached i a b" using a(1) Some True by (simp add: reached_def)
    have n: "queryRows (bcKey b) (lrSeq r) (bcLog b) = rest" using queryRows_next(1) [OF assms(2) q(1)] .
    have "reached i (lrSeq r) (snd x)" unfolding x
      using send_row(3) [OF assms(1,2) q(1) ra] assms(3) True by (simp add: gap_free_def)
    then show ?thesis unfolding x
      using row_gap [OF assms(1,2) q(1) ra assms(3), of j] n q(2)
      by (intro set_replay_gap) (auto simp: reached_def intro!: exI [of _ "lrSeq r"] split: if_splits)
  next
    case False
    have "gap_free i (snd x)"
    proof (cases "j = i")
      case True
      then have "snd x = b" using False Some by (simp add: x send_def row_frame_def)
      then show ?thesis using assms(3) by simp
    qed (use other_gap [OF assms(1,3)] x in blast)
    moreover have "i = j \<Longrightarrow> snd x = b" using False Some by (auto simp: x send_def row_frame_def)
    ultimately show ?thesis using False Some by (intro set_replay_gap) auto
  qed
  show ?thesis
    using Some stop start assms(3) set_replay_gap [of i b Tailing j] row
    by (auto simp: replay_step_def row_frame_def case_prod_beta Let_def split: replay.split list.split)
qed (use assms(3) in \<open>simp add: replay_step_def\<close>)

lemma gap_exec:
  assumes "bc_wf b" "log_ok (bcLog b)" "gap_free i b" "map_of (bcHeap b) i = Some s" "bc_enabled op b"
  shows "gap_free i (bc_exec op b)"
proof (cases op)
  case (AppendRow key seq ev)
  then show ?thesis using append_gap assms by simp
next
  case (DoSubscribe j since caps status usage)
  then have j: "j \<noteq> i" using assms(4,5) by auto
  have closed: "sbClosed s" if "bcCancel b = None" using that bc_wfD(4,5) [OF assms(1)] assms(4) by fastforce
  have "gap_free i (Subscribe j since (bootFrames caps status usage) b)"
    unfolding Subscribe_eq [OF length_bootFrames] Let_def
    using assms(3,4) j closed by (auto simp: gap_free_def complete_at_def complete_def pumps_behind_def reached_def)
  then show ?thesis using DoSubscribe by simp
next
  case (WireEmitter j)
  have "gap_free i (b1\<lparr>bcEmitter := e\<rparr>) = gap_free i b1" for b1 e
    by (simp add: gap_free_def complete_at_def complete_def pumps_behind_def reached_def)
  then show ?thesis using WireEmitter assms(3) by (auto simp: wire_emitter_def complete_def intro!: put_gap split: option.split)
next
  case (ReplayEnd j)
  then show ?thesis using assms(1,3) detach_gap(1) by (auto simp: replay_end_def intro!: set_replay_gap split: option.split)
next
  case (PumpStop g)
  then show ?thesis using assms(3) phase_gap by (auto simp: pump_stop_def split: option.split)
next
  case (DoEmit ty payload head timedOut)
  have "sendTyped j (TypedFrame ty payload) b = send j (TypedFrame ty payload) b" for j b by (simp add: send_def)
  then show ?thesis using DoEmit assms(1,3) by (auto simp: Emit_def intro!: foldl_gap send_wf typed_gap)
next
  case (Drain j)
  then show ?thesis using assms(3) by (auto simp: drain_def complete_def intro!: put_gap split: option.split list.split)
qed (use assms in \<open>simp_all add: replay_gap pump_entry_gap sweep_gap Close_gap\<close>)

lemma same_base_refl [simp]: "same_base b b"
  by (simp add: same_base_def)

lemma same_base_trans: "same_base b b1 \<Longrightarrow> same_base b1 b2 \<Longrightarrow> same_base b b2"
  by (simp add: same_base_def)

lemma same_base_simps [simp]:
  "same_base b (put_pump g p b') = same_base b b'" "same_base b (b'\<lparr>bcCancel := c\<rparr>) = same_base b b'"
  "same_base b (b'\<lparr>bcEmitter := e\<rparr>) = same_base b b'" "same_base b (b'\<lparr>bcSubs := xs\<rparr>) = same_base b b'"
  "same_base b (b'\<lparr>bcPanicked := x\<rparr>) = same_base b b'" "same_base b (cancel_pump b') = same_base b b'"
  "same_base (put_pump g p b) b' = same_base b b'" "same_base b (set_phase g ph b') = same_base b b'"
  by (auto simp: same_base_def set_phase_def split: option.split)

lemma put_base: "map_of (bcHeap b) j = Some s \<Longrightarrow> sbSince s' = sbSince s \<Longrightarrow> same_base b (put_sub j s' b)"
  by (simp add: same_base_def)

lemma replay_base: "same_base b b' \<Longrightarrow> same_base b (set_replay j r b')"
  using put_base [of b' j] by (auto simp: set_replay_def intro: same_base_trans split: option.split)

lemma detach_base: "same_base b (detachLocked j b)"
  by (auto simp: detachLocked_def close_sub_def Let_def intro: put_base split: option.split)

lemma push_base: "map_of (bcHeap b) j = Some s \<Longrightarrow> sbSince s1 = sbSince s \<Longrightarrow> same_base b (snd (push j s1 f b))"
  by (auto simp: push_def intro: put_base same_base_trans [OF put_base detach_base])

lemma send_base: "same_base b (snd (send j f b))" "same_base b (snd (sendTyped j f b))"
  by (auto simp: send_def sendTyped_def intro: push_base split: frame.split option.split)

lemma foldl_base: "(\<And>b x. same_base b (f b x)) \<Longrightarrow> same_base b (foldl f b xs)"
  by (induction xs arbitrary: b) (auto intro: same_base_trans)

lemma fan_base: "same_base b (fan_out f js (put_pump g p b))"
  using foldl_base [of "\<lambda>b i. snd (send i f b)" "put_pump g p b"] send_base by (simp add: fan_out_def)

lemma exec_base:
  assumes "bc_wf b" "\<not> changes_base op"
  shows "same_base b (bc_exec op b)"
proof (cases op)
  case DoClose
  have "bcLog (Close b) = bcLog b" "bcKey (Close b) = bcKey b" by (simp_all add: Close_eq close_all_frame)
  moreover have "map_option sbSince (map_of (bcHeap (Close b)) i) = map_option sbSince (map_of (bcHeap b) i)" for i
    using Close_heap(1) [OF assms(1), of i] by (cases "map_of (bcHeap b) i") auto
  ultimately show ?thesis using DoClose by (simp add: same_base_def)
next
  case (PumpEntry g)
  then show ?thesis by (auto simp: pump_entry_def Let_def fan_base split: option.split list.split)
next
  case (PumpSweep g)
  then show ?thesis by (auto simp: pump_sweep_def foldl_base detach_base split: option.split)
next
  case (ReplayStep j fails)
  then show ?thesis
    by (auto simp: replay_step_def case_prod_beta Let_def replay_base detach_base send_base split: option.split replay.split list.split)
next
  case (DoEmit ty payload head timedOut)
  then show ?thesis by (auto simp: Emit_def intro!: foldl_base send_base)
qed (use assms in \<open>auto simp: wire_emitter_def pump_stop_def drain_def replay_end_def intro: put_base replay_base detach_base
      split: option.split list.split\<close>)

lemma gap_steps:
  assumes "bc_steps b0 b" "bc_wf b0" "log_ok (bcLog b0)" "gap_free i b0" "map_of (bcHeap b0) i = Some s0"
  shows "gap_free i b \<and> log_ok (bcLog b) \<and> bcKey b = bcKey b0 \<and> (\<exists>s. map_of (bcHeap b) i = Some s \<and> sbSince s = sbSince s0)"
  using assms
proof (induction rule: bc_steps.induct)
  case (bc_step b b' op)
  then obtain s where s: "map_of (bcHeap b') i = Some s" "sbSince s = sbSince s0" and gf: "gap_free i b'" "log_ok (bcLog b')"
      and k: "bcKey b' = bcKey b" by blast
  have wf: "bc_wf b'" using bc_steps_wf bc_step by blast
  have "log_ok (bcLog (bc_exec op b')) \<and> bcKey (bc_exec op b') = bcKey b' \<and>
      (\<exists>s. map_of (bcHeap (bc_exec op b')) i = Some s \<and> sbSince s = sbSince s0)"
  proof (cases "changes_base op")
    case False
    then show ?thesis using exec_base [OF wf False] gf(2) s by (fastforce simp: same_base_def dest: spec [of _ i])
  next
    case True
    then show ?thesis
    proof (cases op)
      case (AppendRow key seq ev)
      then show ?thesis using bc_step.hyps(2) gf(2) s by (auto simp: log_ok_def sorted_wrt_append)
    next
      case (DoSubscribe j since caps status usage)
      then have "j \<noteq> i" using bc_step.hyps(2) s by auto
      then show ?thesis using gf(2) s DoSubscribe by (auto simp: Subscribe_eq [OF length_bootFrames] Let_def)
    qed auto
  qed
  then show ?case using gap_exec [OF wf gf(2,1) s(1) bc_step.hyps(2)] k by simp
qed auto

lemma subscribe_gap:
  assumes "bc_wf b" "map_of (bcHeap b) i = None" "may_join since b"
  shows "gap_free i (bc_exec (DoSubscribe i since caps status usage) b) \<and>
    (\<exists>s. map_of (bcHeap (bc_exec (DoSubscribe i since caps status usage) b)) i = Some s \<and> sbSince s = clampReplaySince since b)"
proof -
  let ?c = "clampReplaySince since b"
  have rows: "rows_upto key ?c ?c log = []" for key log by (auto simp: rows_upto_def filter_empty_conv)
  have cur: "pmCursor p \<le> ?c" if "map_of (bcPumps b) g = Some p" "pmPhase p = Running" for g p
    using that assms(3) map_of_SomeD [OF that(1)] by (auto simp: may_join_def list_all_iff)
  show ?thesis
    using cur by (auto simp: Subscribe_eq [OF length_bootFrames] gap_free_def complete_at_def complete_def pumps_behind_def reached_def rows Let_def)
qed

lemma log_steps:
  assumes "bc_steps b0 b" "bc_wf b0" "log_ok (bcLog b0)"
  shows "log_ok (bcLog b) \<and> bcKey b = bcKey b0"
  using assms
proof (induction rule: bc_steps.induct)
  case (bc_step b b' op)
  have wf: "bc_wf b'" using bc_steps_wf bc_step by blast
  show ?case
  proof (cases "changes_base op")
    case False
    then show ?thesis using exec_base [OF wf False] bc_step by (simp add: same_base_def)
  next
    case True
    then show ?thesis
      by (cases op) (use bc_step in \<open>auto simp: log_ok_def sorted_wrt_append Subscribe_eq [OF length_bootFrames] Let_def\<close>)
  qed
qed auto

lemma attach_reach_wf: "bc_steps (newBroadcaster key log) b \<Longrightarrow> bc_wf b"
  using bc_steps_wf bc_wf_new by blast

text \<open>C9: a client's stream is in order. In every interleaving of the log's writers, the pumps, the replays, the
  clients and the closing, no send or close hits a closed channel, and what a subscriber has been sent starts with the
  capabilities and carries the events of the log with strictly growing sequence numbers, none twice and none at
  or below where it started.\<close>

theorem streams_in_order:
  assumes "bc_steps (newBroadcaster key log) b" "map_of (bcHeap b) i = Some s"
  shows "\<not> bcPanicked b \<and> in_order s"
proof -
  have "every_sub in_order (newBroadcaster key log)" by (simp add: every_sub_def newBroadcaster_def)
  then have "every_sub in_order b" using ordered.steps_keep [OF assms(1) bc_wf_new] by blast
  then show ?thesis using every_subD assms(2) bc_wfD(1) [OF attach_reach_wf [OF assms(1)]] by blast
qed

text \<open>C25: a subscriber is never left without a pump. While anybody is subscribed there is a pump of the current
  generation whose context is open; if its reading of the log has ended, what it does next unsubscribes everybody,
  so that their channels close and the next subscriber starts a new pump.\<close>

theorem never_stranded:
  assumes "bc_steps (newBroadcaster key log) b" "bcSubs b \<noteq> []"
  shows "\<exists>p. map_of (bcPumps b) (bcPumpGen b) = Some p \<and> bcCancel b = Some (bcPumpGen b) \<and> \<not> pmCancelled p \<and>
    (pmPhase p = Running \<or> pmPhase p = Ending \<and> bcSubs (pump_sweep (bcPumpGen b) b) = [] \<and> bcCancel (pump_sweep (bcPumpGen b) b) = None)"
proof -
  have wf: "bc_wf b" using attach_reach_wf [OF assms(1)] .
  then obtain p where p: "bcCancel b = Some (bcPumpGen b)" "map_of (bcPumps b) (bcPumpGen b) = Some p" "\<not> pmCancelled p" "pmPhase p \<noteq> Ended"
    using bc_wfD(5,6) assms(2) by (metis not_None_eq)
  have "bcSubs (foldl (\<lambda>b i. detachLocked i b) b (bcSubs b)) = []" using wf by (auto intro: detach_all)
  then have "bcSubs (pump_sweep (bcPumpGen b) b) = []" if "pmPhase p = Ending"
    using that p by (simp add: pump_sweep_def set_phase_def split: option.split)
  moreover from this have "bcCancel (pump_sweep (bcPumpGen b) b) = None" if "pmPhase p = Ending"
    using that bc_wfD(5) [OF sweep_wf [OF wf]] by blast
  ultimately show ?thesis using p by (cases "pmPhase p") auto
qed

lemma caught_up:
  assumes "log_ok log" "bc_steps (newBroadcaster key log) b0" "map_of (bcHeap b0) i = None" "may_join since b0"
    and "bc_steps (bc_exec (DoSubscribe i since caps status usage) b0) b" "map_of (bcHeap b) i = Some s" "\<not> sbClosed s"
  shows "log_frames s = rows_upto key (clampReplaySince since b0) (sbLastSent s) (bcLog b)"
proof -
  let ?b1 = "bc_exec (DoSubscribe i since caps status usage) b0"
  have wf: "bc_wf b0" using attach_reach_wf [OF assms(2)] .
  have l: "log_ok (bcLog b0)" "bcKey b0 = key" using log_steps [OF assms(2) bc_wf_new] assms(1) by (auto simp: newBroadcaster_def)
  have wf1: "bc_wf ?b1" using bc_exec_wf [OF wf, of "DoSubscribe i since caps status usage"] assms(3) by simp
  obtain s1 where s1: "gap_free i ?b1" "map_of (bcHeap ?b1) i = Some s1" "sbSince s1 = clampReplaySince since b0"
    using subscribe_gap [OF wf assms(3,4)] by blast
  have l1: "log_ok (bcLog ?b1)" "bcKey ?b1 = key" using l by (auto simp: Subscribe_eq [OF length_bootFrames] Let_def)
  from gap_steps [OF assms(5) wf1 l1(1) s1(1,2)] have "gap_free i b" "bcKey b = key" "sbSince s = clampReplaySince since b0"
    using s1(3) l1(2) assms(6) by auto
  then show ?thesis using assms(6,7) by (auto simp: gap_free_def complete_at_def complete_def)
qed

lemma rows_after_nth:
  assumes "log_ok log" "seqs = rev (map lrSeq (filter (\<lambda>r. lrKey r = key) log))" "n < length seqs"
  shows "length (queryRows key (seqs ! n) log) = n"
proof -
  define xs where "xs = map lrSeq (filter (\<lambda>r. lrKey r = key) log)"
  have srt: "sorted_wrt (<) xs" using assms(1) by (auto simp: xs_def log_ok_def sorted_wrt_map sorted_wrt_filter)
  have len: "length seqs = length xs" and nth: "seqs ! n = xs ! (length xs - Suc n)"
    using assms(2,3) by (simp_all add: xs_def rev_nth)
  have "length (queryRows key a log) = length (filter (\<lambda>q. a < q) xs)" for a
    by (simp add: xs_def queryRows_def filter_map o_def conj_commute length_filter_map)
  moreover have "filter (\<lambda>q. xs ! k < q) xs = drop (Suc k) xs" if "k < length xs" for k
  proof -
    have "xs = take (Suc k) xs @ drop (Suc k) xs" by simp
    moreover have "filter (\<lambda>q. xs ! k < q) (take (Suc k) xs) = []"
      using srt that by (auto simp: filter_empty_conv in_set_conv_nth sorted_wrt_iff_nth_less)
        (metis less_Suc_eq not_less_iff_gr_or_eq)
    moreover have "filter (\<lambda>q. xs ! k < q) (drop (Suc k) xs) = drop (Suc k) xs"
      using srt that by (auto simp: filter_id_conv in_set_conv_nth sorted_wrt_iff_nth_less)
    ultimately show ?thesis by (metis append_Nil filter_append)
  qed
  ultimately show ?thesis using nth assms(3) len by simp
qed

lemma queryRows_fewer: "a \<le> c \<Longrightarrow> length (queryRows key c log) \<le> length (queryRows key a log)"
  by (induction log) (auto simp: queryRows_def)

lemma queryRows_total: "length (queryRows key a log) \<le> length (filter (\<lambda>r. lrKey r = key) log)"
  by (induction log) (auto simp: queryRows_def)

text \<open>A client that is far behind is sent a bounded catch-up: from where its subscription starts there are at
  most 5000 rows of its session in the log.\<close>

theorem replay_bounded:
  assumes "log_ok (bcLog b)"
  shows "length (queryRows (bcKey b) (clampReplaySince since b) (bcLog b)) \<le> nat maxReplayEvents"
proof -
  let ?key = "bcKey b" and ?log = "bcLog b"
  define seqs where "seqs = rev (map lrSeq (filter (\<lambda>r. lrKey r = ?key) ?log))"
  show ?thesis
  proof (cases "nat maxReplayEvents < length seqs")
    case True
    then have "length (queryRows ?key (NthNewestSeq maxReplayEvents ?key ?log) ?log) = nat maxReplayEvents"
      using rows_after_nth [OF assms seqs_def True] by (simp add: NthNewestSeq_def seqs_def Let_def)
    moreover have "NthNewestSeq maxReplayEvents ?key ?log \<le> clampReplaySince since b" by (simp add: clampReplaySince_def Let_def)
    ultimately show ?thesis using queryRows_fewer by metis
  next
    case False
    have "length (queryRows ?key a ?log) \<le> length seqs" for a
      using queryRows_total by (simp add: seqs_def)
    then show ?thesis using False by (meson linorder_not_less order_trans)
  qed
qed

text \<open>A subscriber that joins behind a running pump can lose events for good. Here a second client asks for
  everything from the start while the pump is at the head; the pump's next event reaches it before its replay
  does, and the replay then skips the two events before it as already sent. It stays subscribed, tailing, with a hole.\<close>

theorem late_joiner_loses_events:
  "bc_run demo_join (newBroadcaster demo_session []) \<noteq> None \<and> \<not> sbClosed (demo_sub demo_join 1) \<and> sbReplay (demo_sub demo_join 1) = Tailing \<and>
   sbSince (demo_sub demo_join 1) = 0 \<and> log_frames (demo_sub demo_join 1) = [(3, ''d'')] \<and>
   rows_upto demo_session 0 3 (bcLog (demo_bc demo_join)) = [(1, ''a''), (2, ''b''), (3, ''d'')]"
proof -
  have "bc_run demo_join (newBroadcaster demo_session []) \<noteq> None" by code_simp
  moreover have "\<not> sbClosed (demo_sub demo_join 1) \<and> sbReplay (demo_sub demo_join 1) = Tailing \<and>
   sbSince (demo_sub demo_join 1) = 0 \<and> log_frames (demo_sub demo_join 1) = [(3, ''d'')]" by code_simp
  moreover have "rows_upto demo_session 0 3 (bcLog (demo_bc demo_join)) = [(1, ''a''), (2, ''b''), (3, ''d'')]" by code_simp
  ultimately show ?thesis by blast
qed

lemma map_of_drop [simp]: "map_of (AList.delete k m) k' = (if k' = k then None else map_of m k')"
  by (simp add: delete_conv)

lemma pool_inv_cong: "map_of m = map_of m' \<Longrightarrow> pool_inv key_of m opened n = pool_inv key_of m' opened n"
  by (simp add: pool_inv_def)

lemma pool_inv_drop:
  assumes "pool_inv key_of m opened n" "map_of m k = Some (b, e)"
  shows "pool_inv key_of (AList.delete k m) (removeAll b opened) n"
proof -
  have opn: "\<And>b. b \<in> set opened \<longleftrightarrow> (\<exists>k e. map_of m k = Some (b, e))"
    and one: "\<And>k k' b e e'. map_of m k = Some (b, e) \<Longrightarrow> map_of m k' = Some (b, e') \<Longrightarrow> k = k'"
    and new: "\<And>k b e. map_of m k = Some (b, e) \<Longrightarrow> b < n \<and> key_of e = k"
    using assms(1) unfolding pool_inv_def by blast+
  have "b' \<in> set (removeAll b opened) \<longleftrightarrow> (\<exists>k' e'. map_of (AList.delete k m) k' = Some (b', e'))" for b'
  proof
    assume "b' \<in> set (removeAll b opened)"
    then obtain k' e' where k': "map_of m k' = Some (b', e')" "b' \<noteq> b" using opn by auto
    then have "k' \<noteq> k" using assms(2) by auto
    then show "\<exists>k' e'. map_of (AList.delete k m) k' = Some (b', e')" using k' by (intro exI [of _ k'] exI [of _ e']) simp
  next
    assume "\<exists>k' e'. map_of (AList.delete k m) k' = Some (b', e')"
    then obtain k' e' where k': "k' \<noteq> k" "map_of m k' = Some (b', e')" by (auto split: if_splits)
    then have "b' \<noteq> b" using one [OF k'(2)] assms(2) by blast
    then show "b' \<in> set (removeAll b opened)" using opn k'(2) by auto
  qed
  then show ?thesis using one new unfolding pool_inv_def by (auto split: if_splits)
qed

lemma pool_inv_put:
  assumes "pool_inv key_of m opened n" "map_of m (key_of e) = None"
  shows "pool_inv key_of (AList.update (key_of e) (n, e) m) (n # opened) (n + 1)"
proof -
  have opn: "\<And>b. b \<in> set opened \<longleftrightarrow> (\<exists>k e. map_of m k = Some (b, e))"
    and one: "\<And>k k' b e e'. map_of m k = Some (b, e) \<Longrightarrow> map_of m k' = Some (b, e') \<Longrightarrow> k = k'"
    and new: "\<And>k b e. map_of m k = Some (b, e) \<Longrightarrow> b < n \<and> key_of e = k"
    using assms(1) unfolding pool_inv_def by blast+
  have "b \<in> set (n # opened) \<longleftrightarrow> (\<exists>k e'. map_of (AList.update (key_of e) (n, e) m) k = Some (b, e'))" for b
  proof
    assume "b \<in> set (n # opened)"
    then consider "b = n" | k e' where "map_of m k = Some (b, e')" using opn [of b] by auto
    then show "\<exists>k e'. map_of (AList.update (key_of e) (n, e) m) k = Some (b, e')"
    proof cases
      case 1
      then show ?thesis by (intro exI [of _ "key_of e"] exI [of _ e]) simp
    next
      case (2 k e')
      then show ?thesis using assms(2) by (intro exI [of _ k] exI [of _ e']) auto
    qed
  qed (use opn [of b] in \<open>auto split: if_splits\<close>)
  moreover have "k = k'" if "map_of (AList.update (key_of e) (n, e) m) k = Some (b, e1)" "map_of (AList.update (key_of e) (n, e) m) k' = Some (b, e2)"
    for k k' b e1 e2
    using that one by (auto split: if_splits dest!: new)
  moreover have "b < n + 1 \<and> key_of e1 = k" if "map_of (AList.update (key_of e) (n, e) m) k = Some (b, e1)" for k b e1
    using that new by (fastforce split: if_splits)
  ultimately show ?thesis unfolding pool_inv_def by blast
qed

lemma pool_exec_wf:
  assumes "pool_wf p"
  shows "pool_wf (pool_exec op p)"
proof (cases "bpMap p")
  case (Some m)
  then have inv: "pool_inv enKey m (bpOpen p) (bpNext p)" using assms by (simp add: pool_wf_def)
  have swap: "pool_inv enKey (AList.update (enKey e) (bpNext p, e) m) (bpNext p # removeAll b (bpOpen p)) (bpNext p + 1)"
    if "map_of m (enKey e) = Some (b, e0)" for e b e0
  proof -
    have eq: "map_of (AList.update (enKey e) (bpNext p, e) m) = map_of (AList.update (enKey e) (bpNext p, e) (AList.delete (enKey e) m))"
      by (rule ext) simp
    have "map_of (AList.delete (enKey e) m) (enKey e) = None" by simp
    from pool_inv_put [OF pool_inv_drop [OF inv that] this] show ?thesis unfolding pool_inv_cong [OF eq] .
  qed
  have closed: "filter (\<lambda>b. \<not> list_ex (\<lambda>k. map_option fst (map_of m k) = Some b) (map fst m)) (bpOpen p) = []"
  proof -
    have "\<exists>k \<in> set (map fst m). map_option fst (map_of m k) = Some b" if b: "b \<in> set (bpOpen p)" for b
    proof -
      obtain k e where k: "map_of m k = Some (b, e)" using inv b unfolding pool_inv_def by blast
      then show ?thesis using map_of_SomeD [OF k] by (intro bexI [of _ k]) (simp, force)
    qed
    then show ?thesis by (simp add: filter_empty_conv list_ex_iff)
  qed
  show ?thesis
    by (cases op) (use Some inv pool_inv_put pool_inv_drop swap closed in
      \<open>auto simp: pool_wf_def pool_For_def pool_Retire_def pool_Close_def Let_def split: option.split\<close>)
qed (use assms in \<open>cases op; simp add: pool_For_def pool_Retire_def pool_Close_def pool_wf_def\<close>)

lemma pool_reach_wf: "pool_wf (foldl (\<lambda>p op. pool_exec op p) newBroadcasterPool ops)"
proof -
  have "pool_wf (foldl (\<lambda>p op. pool_exec op p) p ops)" if "pool_wf p" for p
    using that by (induction ops arbitrary: p) (auto intro: pool_exec_wf)
  moreover have "pool_wf newBroadcasterPool" by (simp add: pool_wf_def pool_inv_def newBroadcasterPool_def)
  ultimately show ?thesis by blast
qed

text \<open>The pool keeps one open broadcaster for a session, of its newest registration. After any requests,
  retirements and closing, a request is answered with a broadcaster that is open and that belongs to the
  same registration or to a later one, the broadcasters that are open are the ones in the pool, no two of
  them of one session, and a closed pool has none and makes none.\<close>

theorem pool_newest_registration:
  assumes "p = foldl (\<lambda>p op. pool_exec op p) newBroadcasterPool ops" "pool_For e p = (r, p')"
  shows "pool_wf p' \<and> (case r of
      Inr b \<Rightarrow> \<exists>m e'. bpMap p' = Some m \<and> map_of m (enKey e) = Some (b, e') \<and> b \<in> set (bpOpen p') \<and>
        (enId e' = enId e \<or> enRegSeq e \<le> enRegSeq e')
    | Inl err \<Rightarrow> err = ShuttingDown \<and> bpMap p = None \<and> bpOpen p' = [] \<or> err = NoEventLog \<and> \<not> enUsable e)"
proof -
  have wf: "pool_wf p" using pool_reach_wf assms(1) by blast
  then have wf': "pool_wf p'" using pool_exec_wf [OF wf, of "PoolFor e"] assms(2) by simp
  have "b \<in> set (bpOpen p')" if "bpMap p' = Some m" "map_of m (enKey e) = Some (b, e')" for m b e'
  proof -
    have "pool_inv enKey m (bpOpen p') (bpNext p')" using wf' that(1) by (simp add: pool_wf_def)
    then show ?thesis using that(2) unfolding pool_inv_def by blast
  qed
  then show ?thesis using wf wf' assms(2) by (auto simp: pool_For_def pool_wf_def Let_def split: option.splits if_splits)
qed

lemma bc_run_steps: "bc_steps b0 b \<Longrightarrow> bc_run ops b = Some b' \<Longrightarrow> bc_steps b0 b'"
  by (induction ops arbitrary: b) (auto intro: bc_step split: if_splits)

text \<open>C20: a subscriber that starts no further back than the pumps misses nothing. If no pump that still delivers is
  ahead of where a subscriber starts -- as for the first one -- then in every later state, as long as it is
  subscribed, what it was sent is exactly the rows of its session after its start and up to the last one sent,
  in order, whichever of pump and replay delivered each.\<close>

theorem catch_up_complete:
  assumes "log_ok log" "bc_steps (newBroadcaster key log) b0" "map_of (bcHeap b0) i = None" "may_join since b0"
    and "bc_steps (bc_exec (DoSubscribe i since caps status usage) b0) b" "map_of (bcHeap b) i = Some s" "\<not> sbClosed s"
  shows "log_frames s = rows_upto key (clampReplaySince since b0) (sbLastSent s) (bcLog b)"
  by (rule caught_up [OF assms])

text \<open>The end of a turn comes after the turn. When a terminal frame is sent that did not time out, such a subscriber
  has already been sent every row of its session up to the head of the log that was read.\<close>

theorem turn_end_after_log:
  assumes "log_ok log" "bc_steps (newBroadcaster key log) b0" "map_of (bcHeap b0) i = None" "may_join since b0"
    and "bc_steps (bc_exec (DoSubscribe i since caps status usage) b0) b" "map_of (bcHeap b) i = Some s" "\<not> sbClosed s"
    and "bc_enabled (DoEmit EventTurnComplete payload head False) b" "\<not> bcClosing b"
    and "r \<in> set (bcLog b)" "lrKey r = key" "clampReplaySince since b0 < lrSeq r" "lrSeq r \<le> head"
  shows "(lrSeq r, lrEvent r) \<in> set (log_frames s)"
proof -
  have "bc_wf (bc_exec (DoSubscribe i since caps status usage) b0)"
    using bc_exec_wf [OF attach_reach_wf [OF assms(2)], of "DoSubscribe i since caps status usage"] assms(3) by simp
  then have "i \<in> set (bcSubs b)" using bc_steps_wf [OF assms(5)] bc_wfD(4) assms(6,7) by blast
  then have "head \<le> sbLastSent s" using assms(6-9) by (auto simp: allDeliveredThrough_def list_all_iff)
  then show ?thesis unfolding caught_up [OF assms(1-7)] using assms(10-13) by (auto simp: rows_upto_def)
qed

lemma demo_reach: "bc_run ops (newBroadcaster demo_session []) = Some b \<Longrightarrow> bc_steps (newBroadcaster demo_session []) b"
  using bc_run_steps bc_refl by blast

lemma demo_first:
  "log_ok []" "bc_steps (newBroadcaster demo_session []) (demo_bc demo_start)" "map_of (bcHeap (demo_bc demo_start)) 0 = None"
  "may_join 0 (demo_bc demo_start)"
  "bc_steps (bc_exec (DoSubscribe 0 0 ''c'' ''s'' None) (demo_bc demo_start)) (demo_bc demo_alone)"
  "map_of (bcHeap (demo_bc demo_alone)) 0 = Some (demo_sub demo_alone 0)" "\<not> sbClosed (demo_sub demo_alone 0)"
proof -
  show "log_ok []" by (simp add: log_ok_def)
  have "bc_run demo_start (newBroadcaster demo_session []) = Some (demo_bc demo_start)" by code_simp
  then show "bc_steps (newBroadcaster demo_session []) (demo_bc demo_start)" by (rule demo_reach)
  show "map_of (bcHeap (demo_bc demo_start)) 0 = None" "may_join 0 (demo_bc demo_start)"
    "map_of (bcHeap (demo_bc demo_alone)) 0 = Some (demo_sub demo_alone 0)" "\<not> sbClosed (demo_sub demo_alone 0)" by code_simp+
  have "bc_run demo_rest (bc_exec (DoSubscribe 0 0 ''c'' ''s'' None) (demo_bc demo_start)) = Some (demo_bc demo_alone)" by code_simp
  then show "bc_steps (bc_exec (DoSubscribe 0 0 ''c'' ''s'' None) (demo_bc demo_start)) (demo_bc demo_alone)"
    by (rule bc_run_steps [OF bc_refl])
qed

theorem catch_up_complete_witness:
  "log_frames (demo_sub demo_alone 0) =
     rows_upto demo_session (clampReplaySince 0 (demo_bc demo_start)) (sbLastSent (demo_sub demo_alone 0)) (bcLog (demo_bc demo_alone))"
  by (rule catch_up_complete [OF demo_first])

theorem turn_end_after_log_witness: "(3, ''d'') \<in> set (log_frames (demo_sub demo_alone 0))"
proof -
  let ?r = "\<lparr>lrKey = demo_session, lrSeq = 3, lrEvent = ''d''\<rparr>"
  have e: "bc_enabled (DoEmit EventTurnComplete ''x'' 3 False) (demo_bc demo_alone)" "\<not> bcClosing (demo_bc demo_alone)"
    "?r \<in> set (bcLog (demo_bc demo_alone))" "clampReplaySince 0 (demo_bc demo_start) < lrSeq ?r" by code_simp+
  from turn_end_after_log [OF demo_first e(1-3) _ e(4)] show ?thesis by simp
qed

theorem streams_in_order_witness: "in_order (demo_sub demo_alone 0)"
proof -
  have "bc_run demo_alone (newBroadcaster demo_session []) = Some (demo_bc demo_alone)" by code_simp
  from streams_in_order [OF demo_reach [OF this] demo_first(6)] show ?thesis ..
qed

theorem never_stranded_witness:
  "\<exists>p. map_of (bcPumps (demo_bc demo_alone)) (bcPumpGen (demo_bc demo_alone)) = Some p \<and> \<not> pmCancelled p"
proof -
  have "bc_run demo_alone (newBroadcaster demo_session []) = Some (demo_bc demo_alone)" by code_simp
  moreover have "bcSubs (demo_bc demo_alone) \<noteq> []" by code_simp
  ultimately show ?thesis using never_stranded [OF demo_reach] by blast
qed

theorem replay_bounded_witness:
  "length (queryRows demo_session (clampReplaySince 0 (demo_bc demo_start)) (bcLog (demo_bc demo_start))) \<le> nat maxReplayEvents"
proof -
  have "log_ok (bcLog (demo_bc demo_start))" "bcKey (demo_bc demo_start) = demo_session" by code_simp+
  then show ?thesis using replay_bounded [of "demo_bc demo_start" 0] by simp
qed

theorem pool_newest_registration_witness:
  "pool_wf (snd (pool_For \<lparr>enKey = demo_session, enId = 1, enRegSeq = 1, enUsable = True\<rparr> newBroadcasterPool))"
proof -
  obtain r p' where f: "pool_For \<lparr>enKey = demo_session, enId = 1, enRegSeq = 1, enUsable = True\<rparr> newBroadcasterPool = (r, p')" by fastforce
  from pool_newest_registration [of newBroadcasterPool "[]", OF _ f] show ?thesis using f by simp
qed

end
