(* ===== verification/Model_Retry.thy ===== *)
theory Model_Retry
  imports Interfaces
begin

text \<open>
  The retry policy around every provider model, \<^verbatim>\<open>src/internal/modelretry/retry.go\<close>: a call that fails before
  it said anything may be made again after a wait, as often as the schedule has waits and, across all the
  calls of the process, no sooner than the cooldown allows.

  A call is a state that walks one sequence of the wrapped model after another; between two of them it
  sleeps. The policy is shared, so the calls of a process interleave at its critical sections. What the
  wrapped model answers, what the consumer of the sequence accepts, the clock, the context and whether a
  sleep was cut short come from the outside.
\<close>

section \<open>Errors\<close>

text \<open>
  An error is the list of what its chain of wrapped errors unwraps to, outermost first. A link may be an
  \<^verbatim>\<open>APIError\<close> of the one SDK, an \<^verbatim>\<open>Error\<close> of the other, have a method \<^verbatim>\<open>HTTPStatus\<close>, or be one of the two
  errors of a context.
\<close>

record err_link =
  lkGemini :: "int option"
  lkAnthropic :: "int option"
  lkStatus :: "int option"
  lkCanceled :: bool
  lkDeadline :: bool

type_synonym go_error = "err_link list"

fun errors_As :: "(err_link \<Rightarrow> int option) \<Rightarrow> go_error \<Rightarrow> int option" where
  "errors_As f [] = None"
| "errors_As f (l # ls) = (case f l of Some c \<Rightarrow> Some c | None \<Rightarrow> errors_As f ls)"

definition retryableCodes :: "int list" where
  "retryableCodes = [429, 503]"

definition isRetryable :: "go_error \<Rightarrow> bool" where
  "isRetryable e =
     (case errors_As lkGemini e of
        Some c \<Rightarrow> c \<in> set retryableCodes
      | None \<Rightarrow>
          (case errors_As lkAnthropic e of
             Some c \<Rightarrow> c \<in> set retryableCodes
           | None \<Rightarrow>
               (case errors_As lkStatus e of Some c \<Rightarrow> c \<in> set retryableCodes | None \<Rightarrow> False)))"

section \<open>The policy\<close>

datatype outcome = Recovered | Exhausted | Declined

record retry_event =
  evModel :: string
  evOutcome :: outcome
  evAttempts :: int
  evWaited :: duration
  evErr :: go_error

text \<open>The configuration with its hooks left out: they are told what the events and waits below record.\<close>

record retry_config =
  cfBackoff :: "duration list"
  cfCooldown :: duration

definition second_ns :: duration where "second_ns = 1000000000"

definition ProductionConfig :: retry_config where
  "ProductionConfig = \<lparr>cfBackoff = [2 * second_ns], cfCooldown = 60 * second_ns\<rparr>"

definition JudgeConfig :: retry_config where
  "JudgeConfig = \<lparr>cfBackoff = [3 * second_ns, 9 * second_ns, 27 * second_ns], cfCooldown = 0\<rparr>"

text \<open>The policy with what its observer and its \<^verbatim>\<open>onWait\<close> hook have been handed, in order.\<close>

record policy =
  plBackoff :: "duration list"
  plCooldown :: duration
  plRetries :: int
  plDeclined :: int
  plWaited :: duration
  plLastRetry :: gotime
  plObserved :: "retry_event list"
  plAnnounced :: "(string \<times> int \<times> duration \<times> go_error) list"

definition New :: "retry_config \<Rightarrow> policy" where
  "New cfg = \<lparr>plBackoff = cfBackoff cfg, plCooldown = cfCooldown cfg, plRetries = 0, plDeclined = 0, plWaited = 0,
      plLastRetry = 0, plObserved = [], plAnnounced = []\<rparr>"

definition Stats :: "policy \<Rightarrow> int \<times> int \<times> duration" where
  "Stats p = (plRetries p, plDeclined p, plWaited p)"

definition claim :: "gotime \<Rightarrow> policy \<Rightarrow> bool \<times> policy" where
  "claim now p =
     (if plCooldown p = 0 then (True, p)
      else if plLastRetry p \<noteq> 0 \<and> now - plLastRetry p < plCooldown p
      then (False, p\<lparr>plDeclined := wrap64 (plDeclined p + 1)\<rparr>)
      else (True, p\<lparr>plLastRetry := now\<rparr>))"

definition record_wait :: "duration \<Rightarrow> policy \<Rightarrow> policy" where
  "record_wait w p = p\<lparr>plRetries := wrap64 (plRetries p + 1), plWaited := wrap64 (plWaited p + w)\<rparr>"

definition emit :: "retry_event \<Rightarrow> policy \<Rightarrow> policy" where
  "emit ev p = p\<lparr>plObserved := plObserved p @ [ev]\<rparr>"

datatype decision = Retry duration | Stop | Decline

definition is_ctx_error :: "go_error \<Rightarrow> bool" where
  "is_ctx_error e \<longleftrightarrow> list_ex lkCanceled e \<or> list_ex lkDeadline e"

definition retry_next :: "bool \<Rightarrow> gotime \<Rightarrow> nat \<Rightarrow> go_error \<Rightarrow> policy \<Rightarrow> decision \<times> policy" where
  "retry_next ctxErr now attempt e p =
     (if length (plBackoff p) \<le> attempt then (Stop, p)
      else if ctxErr \<or> is_ctx_error e then (Stop, p)
      else if \<not> isRetryable e then (Stop, p)
      else (case claim now p of
              (False, p') \<Rightarrow> (Decline, p')
            | (True, p') \<Rightarrow> (Retry (plBackoff p ! attempt), p')))"

section \<open>A call\<close>

text \<open>What a sequence yields: a response, an error, or both.\<close>

type_synonym 'r item = "'r option \<times> go_error option"

datatype call_phase = Walking | Sleeping duration go_error | Returned

text \<open>
  \<open>caAccepts\<close> is the consumer of the sequence: whether it wants more after what it was handed so far.
  \<open>caDelivered\<close> is what it has been handed, and \<open>caWalked\<close> are the sequences the wrapped model was asked for and
  that were walked.
\<close>

record 'r call =
  caModel :: string
  caAccepts :: "'r item list \<Rightarrow> bool"
  caAttempt :: nat
  caAttempts :: int
  caWaited :: duration
  caLastErr :: "go_error option"
  caDelivered :: "'r item list"
  caWalked :: "'r item list list"
  caPhase :: call_phase

definition begin_call :: "string \<Rightarrow> ('r item list \<Rightarrow> bool) \<Rightarrow> 'r call" where
  "begin_call m accepts = \<lparr>caModel = m, caAccepts = accepts, caAttempt = 0, caAttempts = 0, caWaited = 0, caLastErr = None,
      caDelivered = [], caWalked = [], caPhase = Walking\<rparr>"

text \<open>
  The inner loop over one sequence. The result is what was delivered and how the loop ended: with a failure that is held
  back, with the consumer gone, or at the end of the sequence.
\<close>

datatype walk_end = Failure go_error | WalkedAway | EndOfSequence

fun walk :: "('r item list \<Rightarrow> bool) \<Rightarrow> bool \<Rightarrow> 'r item list \<Rightarrow> 'r item list \<Rightarrow> 'r item list \<times> walk_end" where
  "walk accepts yielded out [] = (out, EndOfSequence)"
| "walk accepts yielded out ((resp, err) # rest) =
     (if err \<noteq> None \<and> \<not> yielded then (out, Failure (the err))
      else let out' = out @ [(resp, err)]
           in if accepts out' then walk accepts True out' rest else (out', WalkedAway))"

definition report :: "outcome \<Rightarrow> 'r call \<Rightarrow> policy \<Rightarrow> policy" where
  "report out c p =
     (case caLastErr c of
        None \<Rightarrow> p
      | Some e \<Rightarrow>
          emit \<lparr>evModel = caModel c, evOutcome = out, evAttempts = caAttempts c, evWaited = caWaited c, evErr = e\<rparr> p)"

definition give_up :: "go_error \<Rightarrow> 'r call \<Rightarrow> 'r call" where
  "give_up failure c = c\<lparr>caDelivered := caDelivered c @ [(None, Some failure)], caPhase := Returned\<rparr>"

text \<open>One round of the outer loop up to the sleep: walk the sequence and decide.\<close>

definition attempt_step ::
  "'r item list \<Rightarrow> bool \<Rightarrow> gotime \<Rightarrow> 'r call \<Rightarrow> policy \<Rightarrow> 'r call \<times> policy" where
  "attempt_step sequence ctxErr now c p =
     (case walk (caAccepts c) False (caDelivered c) sequence of
        (out, Failure e) \<Rightarrow>
          (let c1 = c\<lparr>caDelivered := out, caWalked := caWalked c @ [sequence], caLastErr := Some e\<rparr>
           in case retry_next ctxErr now (caAttempt c) e p of
                (Decline, p') \<Rightarrow> (give_up e c1, report Declined c1 p')
              | (Stop, p') \<Rightarrow> (give_up e c1, if 0 < caAttempts c1 then report Exhausted c1 p' else p')
              | (Retry w, p') \<Rightarrow>
                  (c1\<lparr>caPhase := Sleeping w e\<rparr>,
                   p'\<lparr>plAnnounced := plAnnounced p' @ [(caModel c, int (caAttempt c) + 1, w, e)]\<rparr>))
      | (out, _) \<Rightarrow> (c\<lparr>caDelivered := out, caWalked := caWalked c @ [sequence], caPhase := Returned\<rparr>, report Recovered c p))"

text \<open>The end of the sleep.\<close>

definition wake_step :: "bool \<Rightarrow> duration \<Rightarrow> go_error \<Rightarrow> 'r call \<Rightarrow> policy \<Rightarrow> 'r call \<times> policy" where
  "wake_step aborted w failure c p =
     (if aborted
      then (give_up failure c, if 0 < caAttempts c then report Exhausted c p else p)
      else (c\<lparr>caAttempts := wrap64 (caAttempts c + 1), caWaited := wrap64 (caWaited c + w),
              caAttempt := Suc (caAttempt c), caPhase := Walking\<rparr>, record_wait w p))"

section \<open>The calls of a process\<close>

text \<open>What one call makes next, with what its environment answers.\<close>

datatype 'r turn = Attempt "'r item list" bool gotime | Wake bool

fun call_step :: "'r turn \<Rightarrow> 'r call \<Rightarrow> policy \<Rightarrow> 'r call \<times> policy" where
  "call_step (Attempt sequence ctxErr now) c p =
     (case caPhase c of Walking \<Rightarrow> attempt_step sequence ctxErr now c p | _ \<Rightarrow> (c, p))"
| "call_step (Wake aborted) c p =
     (case caPhase c of Sleeping w e \<Rightarrow> wake_step aborted w e c p | _ \<Rightarrow> (c, p))"

text \<open>
  \<^verbatim>\<open>GenerateContent\<close> with nobody else using the policy. \<open>inner\<close> is what the wrapped model answers to each
  call of it, \<open>ctxErr\<close>, \<open>now\<close> and \<open>aborted\<close> the context, the clock and the end of the sleep in each round.
\<close>

function GenerateContent ::
  "(nat \<Rightarrow> 'r item list) \<Rightarrow> (nat \<Rightarrow> bool) \<Rightarrow> (nat \<Rightarrow> gotime) \<Rightarrow> (nat \<Rightarrow> bool) \<Rightarrow>
   'r call \<Rightarrow> policy \<Rightarrow> 'r call \<times> policy" where
  "GenerateContent inner ctxErr now aborted c p =
     (let n = caAttempt c;
          (c1, p1) = attempt_step (inner n) (ctxErr n) (now n) c p
      in case caPhase c1 of
           Sleeping w e \<Rightarrow>
             (let (c2, p2) = wake_step (aborted n) w e c1 p1
              in case caPhase c2 of
                   Walking \<Rightarrow> GenerateContent inner ctxErr now aborted c2 p2
                 | _ \<Rightarrow> (c2, p2))
         | _ \<Rightarrow> (c1, p1))"
  by pat_completeness auto

termination
  by (relation "measure (\<lambda>(inner, ctxErr, now, aborted, c, p). length (plBackoff p) - caAttempt c)")
    (auto simp: attempt_step_def wake_step_def retry_next_def claim_def give_up_def report_def emit_def record_wait_def
       Let_def split: prod.splits walk_end.splits decision.splits option.splits if_splits)

declare GenerateContent.simps [simp del]

text \<open>The calls of a process that share a policy: \<open>ksClaims\<close> are the times at which a
  call was granted a retry.\<close>

record 'r calls =
  ksPolicy :: policy
  ksCalls :: "(nat, 'r call) gomap"
  ksClock :: gotime
  ksClaims :: "gotime list"

datatype 'r process_op =
    StartCall nat string "'r item list \<Rightarrow> bool"
  | Passes duration
  | CallMoves nat "'r turn"

fun turn_at :: "gotime \<Rightarrow> 'r turn \<Rightarrow> 'r turn" where
  "turn_at now (Attempt sequence ctxErr _) = Attempt sequence ctxErr now"
| "turn_at now (Wake aborted) = Wake aborted"

fun process_step :: "'r process_op \<Rightarrow> 'r calls \<Rightarrow> 'r calls" where
  "process_step (StartCall i m accepts) s =
     (case map_of (ksCalls s) i of
        None \<Rightarrow> s\<lparr>ksCalls := AList.update i (begin_call m accepts) (ksCalls s)\<rparr>
      | Some _ \<Rightarrow> s)"
| "process_step (Passes d) s = (if 0 \<le> d then s\<lparr>ksClock := ksClock s + d\<rparr> else s)"
| "process_step (CallMoves i t) s =
     (case map_of (ksCalls s) i of
        None \<Rightarrow> s
      | Some c \<Rightarrow>
          (let (c', p') = call_step (turn_at (ksClock s) t) c (ksPolicy s)
           in s\<lparr>ksPolicy := p', ksCalls := AList.update i c' (ksCalls s),
                ksClaims := (if caPhase c = Walking \<and> caPhase c' \<noteq> Walking \<and> caPhase c' \<noteq> Returned
                             then ksClaims s @ [ksClock s] else ksClaims s)\<rparr>))"

definition process_start :: "retry_config \<Rightarrow> gotime \<Rightarrow> 'r calls" where
  "process_start cfg now = \<lparr>ksPolicy = New cfg, ksCalls = [], ksClock = now, ksClaims = []\<rparr>"

definition process_run :: "retry_config \<Rightarrow> gotime \<Rightarrow> 'r process_op list \<Rightarrow> 'r calls" where
  "process_run cfg now ops = foldl (\<lambda>s op. process_step op s) (process_start cfg now) ops"



text \<open>The error a sequence starts with, and what a consumer is handed of a sequence: all of it, or up to the
  item after which it wants no more.\<close>

fun first_error :: "'r item list \<Rightarrow> go_error option" where
  "first_error [] = None"
| "first_error ((r, e) # xs) = e"

definition served :: "('r item list \<Rightarrow> bool) \<Rightarrow> 'r item list \<Rightarrow> 'r item list \<Rightarrow> bool" where
  "served accepts xs out \<longleftrightarrow>
     (\<exists>k\<le>length xs. out = take k xs \<and> (\<forall>j. 0 < j \<and> j < k \<longrightarrow> accepts (take j xs)) \<and>
        (k = length xs \<or> 0 < k \<and> \<not> accepts (take k xs)))"

definition call_ok :: "duration list \<Rightarrow> 'r call \<Rightarrow> bool" where
  "call_ok backoff c \<longleftrightarrow>
     caAttempt c \<le> length backoff \<and>
     length (caWalked c) = (if caPhase c = Walking then caAttempt c else Suc (caAttempt c)) \<and>
     (\<forall>i<caAttempt c. \<exists>e. first_error (caWalked c ! i) = Some e \<and> isRetryable e) \<and>
     caAttempts c = wrap64 (int (caAttempt c)) \<and> caWaited c = wrap64 (sum_list (take (caAttempt c) backoff)) \<and>
     (case caPhase c of
        Walking \<Rightarrow> caDelivered c = []
      | Sleeping w e \<Rightarrow> caDelivered c = [] \<and> first_error (last (caWalked c)) = Some e \<and> isRetryable e \<and>
          caAttempt c < length backoff \<and> w = backoff ! caAttempt c
      | Returned \<Rightarrow>
          (case first_error (last (caWalked c)) of
             None \<Rightarrow> served (caAccepts c) (last (caWalked c)) (caDelivered c)
           | Some e \<Rightarrow> caDelivered c = [(None, Some e)]))"

text \<open>A provider that sheds load, an answer, and a consumer that wants everything.\<close>

definition shed :: go_error where
  "shed = [\<lparr>lkGemini = None, lkAnthropic = None, lkStatus = None, lkCanceled = False, lkDeadline = False\<rparr>,
           \<lparr>lkGemini = Some 429, lkAnthropic = None, lkStatus = None, lkCanceled = False, lkDeadline = False\<rparr>]"

definition demo_calls :: "string process_op list" where
  "demo_calls = [StartCall 0 ''m'' (\<lambda>_. True), StartCall 1 ''m'' (\<lambda>_. True),
     CallMoves 0 (Attempt [(None, Some shed)] False 0), CallMoves 1 (Attempt [(None, Some shed)] False 0),
     Passes (2 * second_ns), CallMoves 0 (Wake False), CallMoves 0 (Attempt [(Some ''hi'', None)] False 0),
     Passes (61 * second_ns), StartCall 2 ''m'' (\<lambda>_. True), CallMoves 2 (Attempt [(None, Some shed)] False 0)]"

definition demo_run :: "string calls" where
  "demo_run = process_run ProductionConfig 1 demo_calls"

text \<open>A provider that sheds every call.\<close>

definition demo_generate :: "string call \<times> policy" where
  "demo_generate = GenerateContent (\<lambda>n. [(None, Some shed)]) (\<lambda>_. False) (\<lambda>_. 1) (\<lambda>_. False)
     (begin_call ''m'' (\<lambda>_. True)) (New JudgeConfig)"

text \<open>A retry whose answer breaks off.\<close>

definition broken_run :: "string calls" where
  "broken_run = process_run ProductionConfig 1
     [StartCall 0 ''m'' (\<lambda>_. True), CallMoves 0 (Attempt [(None, Some shed)] False 0), CallMoves 0 (Wake False),
      CallMoves 0 (Attempt [(Some ''so'', None), (None, Some shed)] False 0)]"

text \<open>What a decision does to the policy: the schedule stays, and the last retry moves only with a grant.\<close>

definition policy_step :: "gotime \<Rightarrow> bool \<Rightarrow> policy \<Rightarrow> policy \<Rightarrow> bool" where
  "policy_step now granted p p' \<longleftrightarrow>
     plBackoff p' = plBackoff p \<and> plCooldown p' = plCooldown p \<and>
     (if granted \<and> plCooldown p \<noteq> 0
      then plLastRetry p' = now \<and> (plLastRetry p = 0 \<or> plCooldown p \<le> now - plLastRetry p)
      else plLastRetry p' = plLastRetry p)"

text \<open>A retry is granted when a walking call falls asleep.\<close>

definition granted :: "'r call \<Rightarrow> 'r call \<Rightarrow> bool" where
  "granted c c' \<longleftrightarrow> caPhase c = Walking \<and> caPhase c' \<noteq> Walking \<and> caPhase c' \<noteq> Returned"

text \<open>The calls are in order; the grants are a cooldown apart, and the policy remembers the last of them.\<close>

definition calls_ok :: "retry_config \<Rightarrow> 'r calls \<Rightarrow> bool" where
  "calls_ok cfg s \<longleftrightarrow> plBackoff (ksPolicy s) = cfBackoff cfg \<and> plCooldown (ksPolicy s) = cfCooldown cfg \<and>
     map_all (call_ok (cfBackoff cfg)) (ksCalls s)"

definition claims_ok :: "retry_config \<Rightarrow> 'r calls \<Rightarrow> bool" where
  "claims_ok cfg s \<longleftrightarrow> 0 < ksClock s \<and>
     sorted_wrt (\<lambda>a b. a \<le> b \<and> cfCooldown cfg \<le> b - a) (ksClaims s) \<and>
     (\<forall>t\<in>set (ksClaims s). 0 < t \<and> t \<le> ksClock s) \<and>
     (cfCooldown cfg \<noteq> 0 \<longrightarrow> plLastRetry (ksPolicy s) = (if ksClaims s = [] then 0 else last (ksClaims s)))"

text \<open>Sums over the calls, and how replacing one call moves them.\<close>

definition call_sum :: "('r call \<Rightarrow> int) \<Rightarrow> 'r calls \<Rightarrow> int" where
  "call_sum f s = sum_list (map (\<lambda>(_, c). f c) (ksCalls s))"

definition reportable :: "'r call \<Rightarrow> int" where
  "reportable c = (if caPhase c = Returned \<and> caLastErr c \<noteq> None then 1 else 0)"

text \<open>A step from \<open>c\<close> and \<open>p\<close> to \<open>c'\<close> and \<open>p'\<close> counts the retry it served and emits at most the event of a call
  that returns.\<close>

definition accounts_step :: "'r call \<Rightarrow> policy \<Rightarrow> 'r call \<Rightarrow> policy \<Rightarrow> bool" where
  "accounts_step c p c' p' \<longleftrightarrow>
     (\<forall>n. plRetries p = wrap64 n \<longrightarrow> plRetries p' = wrap64 (n + (int (caAttempt c') - int (caAttempt c)))) \<and>
     int (length (plObserved p')) \<le> int (length (plObserved p)) + (reportable c' - reportable c)"

definition accounted :: "'r calls \<Rightarrow> bool" where
  "accounted s \<longleftrightarrow> distinct (map fst (ksCalls s)) \<and>
     plRetries (ksPolicy s) = wrap64 (call_sum (\<lambda>c. int (caAttempt c)) s) \<and>
     int (length (plObserved (ksPolicy s))) \<le> call_sum reportable s"

section \<open>Lemmas and properties\<close>

subsection \<open>One call\<close>

lemma walk_True:
  "walk acc True out xs = (out', en) \<Longrightarrow>
     (\<forall>e. en \<noteq> Failure e) \<and>
     (\<exists>k\<le>length xs. out' = out @ take k xs \<and> (\<forall>j. 0 < j \<and> j < k \<longrightarrow> acc (out @ take j xs)) \<and>
        (k = length xs \<or> 0 < k \<and> \<not> acc (out @ take k xs)))"
proof (induction xs arbitrary: out)
  case Nil
  then show ?case by simp
next
  case (Cons x xs)
  obtain r e where x: "x = (r, e)" by (cases x)
  show ?case
  proof (cases "acc (out @ [x])")
    case False
    then show ?thesis using Cons.prems by (auto simp: x Let_def intro!: exI [of _ 1])
  next
    case True
    then have w: "walk acc True (out @ [x]) xs = (out', en)" using Cons.prems by (simp add: x Let_def)
    from Cons.IH [OF w] obtain k where k: "k \<le> length xs" "out' = (out @ [x]) @ take k xs"
      "\<And>j. 0 < j \<Longrightarrow> j < k \<Longrightarrow> acc ((out @ [x]) @ take j xs)"
      "k = length xs \<or> 0 < k \<and> \<not> acc ((out @ [x]) @ take k xs)" and en: "\<forall>e. en \<noteq> Failure e"
      by blast
    have "acc (out @ take j (x # xs))" if "0 < j" "j < Suc k" for j
      using that True k(3) [of "j - 1"] by (cases "j = 1") (auto simp: take_Cons' split: if_splits)
    then show ?thesis using k en by (intro conjI exI [of _ "Suc k"]) auto
  qed
qed

lemma walk_served:
  assumes "walk acc False [] xs = (out, en)"
  shows "(case first_error xs of
            Some e \<Rightarrow> out = [] \<and> en = Failure e
          | None \<Rightarrow> served acc xs out \<and> (\<forall>e. en \<noteq> Failure e))"
proof (cases xs)
  case Nil
  then show ?thesis using assms by (auto simp: served_def)
next
  case (Cons x ys)
  obtain r e where x: "x = (r, e)" by (cases x)
  have "walk acc True [] xs = walk acc False [] xs" if "e = None" using that by (simp add: Cons x)
  then show ?thesis
    using assms walk_True [of acc "[]" xs out en] by (cases e) (auto simp: Cons x served_def)
qed

lemma wrap64_Suc: "wrap64 (wrap64 (int n) + 1) = wrap64 (int (Suc n))"
  by (simp add: add.commute)

lemma retry_next_Retry:
  "retry_next ctxErr now n e p = (Retry w, p') \<Longrightarrow> n < length (plBackoff p) \<and> w = plBackoff p ! n \<and> isRetryable e"
  by (auto simp: retry_next_def split: if_splits prod.splits bool.splits)

lemma attempt_step_ok:
  assumes "call_ok (plBackoff p) c" "caPhase c = Walking"
  shows "call_ok (plBackoff p) (fst (attempt_step xs ctxErr now c p))"
proof (cases "first_error xs")
  case None
  with assms walk_served [of "caAccepts c" xs] show ?thesis
    by (auto simp: attempt_step_def call_ok_def nth_append split: prod.splits walk_end.splits)
next
  case (Some e)
  then have w: "walk (caAccepts c) False [] xs = ([], Failure e)" using walk_served [of "caAccepts c" xs]
    by (cases "walk (caAccepts c) False [] xs") auto
  obtain d p' where d: "retry_next ctxErr now (caAttempt c) e p = (d, p')" by fastforce
  show ?thesis using assms w d Some retry_next_Retry [of ctxErr now "caAttempt c" e p]
    by (cases d) (auto simp: attempt_step_def call_ok_def give_up_def Let_def nth_append)
qed

lemma wake_step_ok:
  assumes "call_ok backoff c" "caPhase c = Sleeping w e"
  shows "call_ok backoff (fst (wake_step aborted w e c p))"
proof -
  from assms have n: "caAttempt c < length backoff" "length (caWalked c) = Suc (caAttempt c)"
    and l: "first_error (last (caWalked c)) = Some e" "isRetryable e" "w = backoff ! caAttempt c" by (auto simp: call_ok_def)
  have "caWalked c \<noteq> []" using n(2) by auto
  then have "caWalked c ! caAttempt c = last (caWalked c)" using n(2) by (simp add: last_conv_nth)
  then show ?thesis using assms n l
    by (auto simp: wake_step_def give_up_def call_ok_def less_Suc_eq take_Suc_conv_app_nth add.commute)
qed


subsection \<open>The policy under all calls\<close>

lemma record_wait_keeps [simp]:
  "plBackoff (record_wait w p) = plBackoff p" "plCooldown (record_wait w p) = plCooldown p"
  "plLastRetry (record_wait w p) = plLastRetry p"
  by (simp_all add: record_wait_def)

lemma report_keeps [simp]:
  "plBackoff (report out c p) = plBackoff p" "plCooldown (report out c p) = plCooldown p"
  "plLastRetry (report out c p) = plLastRetry p" "plRetries (report out c p) = plRetries p"
  "plWaited (report out c p) = plWaited p"
  by (simp_all add: report_def emit_def split: option.splits)

lemma retry_next_policy:
  "retry_next ctxErr now n e p = (d, p') \<Longrightarrow> policy_step now (\<exists>w. d = Retry w) p p'"
  by (auto simp: retry_next_def claim_def policy_step_def split: if_splits)

lemma policy_step_cong:
  "policy_step now g p q \<Longrightarrow> plBackoff q' = plBackoff q \<Longrightarrow> plCooldown q' = plCooldown q \<Longrightarrow> plLastRetry q' = plLastRetry q \<Longrightarrow>
     policy_step now g p q'"
  by (simp add: policy_step_def)

lemma policy_step_refl: "policy_step now False p p"
  by (simp add: policy_step_def)

lemma attempt_step_policy:
  "policy_step now (\<exists>w e. caPhase (fst (attempt_step xs ctxErr now c p)) = Sleeping w e) p (snd (attempt_step xs ctxErr now c p))"
proof (cases "walk (caAccepts c) False (caDelivered c) xs")
  case (Pair out en)
  show ?thesis
  proof (cases en)
    case (Failure e)
    obtain d p' where d: "retry_next ctxErr now (caAttempt c) e p = (d, p')" by fastforce
    show ?thesis using retry_next_policy [OF d]
      by (cases d) (auto simp: attempt_step_def Pair Failure d give_up_def elim!: policy_step_cong)
  qed (simp_all add: attempt_step_def Pair policy_step_def)
qed

lemma wake_step_policy: "policy_step now False p (snd (wake_step aborted w e c p))"
  by (simp add: wake_step_def policy_step_def)

lemma wake_step_phase: "caPhase (fst (wake_step aborted w e c p)) = (if aborted then Returned else Walking)"
  by (simp add: wake_step_def give_up_def)

lemma asleep: "ph \<noteq> Walking \<and> ph \<noteq> Returned \<longleftrightarrow> (\<exists>w e. ph = Sleeping w e)"
  by (cases ph) auto

lemma call_step_policy:
  "policy_step now (granted c (fst (call_step (turn_at now t) c p))) p (snd (call_step (turn_at now t) c p))"
proof (cases t)
  case (Attempt xs ctxErr now')
  then show ?thesis using attempt_step_policy [of now xs ctxErr c p]
    by (cases "caPhase c") (auto simp: granted_def asleep policy_step_refl)
next
  case (Wake aborted)
  then show ?thesis using wake_step_policy [of now p]
    by (cases "caPhase c") (auto simp: granted_def wake_step_phase policy_step_refl)
qed

lemma call_step_ok:
  "call_ok (plBackoff p) c \<Longrightarrow> call_ok (plBackoff p) (fst (call_step t c p))"
  by (cases t; cases "caPhase c") (simp_all add: attempt_step_ok wake_step_ok)

lemma spaced_snoc:
  assumes "sorted_wrt (\<lambda>a b. a \<le> b \<and> d \<le> b - a) ts" "\<forall>t\<in>set ts. t \<le> now"
    "ts = [] \<or> (d :: int) \<le> now - last ts"
  shows "sorted_wrt (\<lambda>a b. a \<le> b \<and> d \<le> b - a) (ts @ [now])"
proof -
  have "d \<le> now - t" if t: "t \<in> set ts" for t
  proof -
    have "t \<le> last ts" using assms(1) t by (cases ts rule: rev_cases) (auto simp: sorted_wrt_append)
    then show ?thesis using assms(3) t by (cases ts) auto
  qed
  then show ?thesis using assms by (auto simp: sorted_wrt_append)
qed

lemma call_ok_begin: "call_ok backoff (begin_call m acc)"
  by (simp add: call_ok_def begin_call_def)

lemma process_step_moves:
  "process_step (CallMoves i t) s =
     (case map_of (ksCalls s) i of
        None \<Rightarrow> s
      | Some c \<Rightarrow>
          let r = call_step (turn_at (ksClock s) t) c (ksPolicy s)
          in s\<lparr>ksPolicy := snd r, ksCalls := AList.update i (fst r) (ksCalls s),
               ksClaims := (if granted c (fst r) then ksClaims s @ [ksClock s] else ksClaims s)\<rparr>)"
  by (auto simp: granted_def Let_def split: option.splits prod.splits)

lemma calls_ok_step:
  assumes ok: "calls_ok cfg s"
  shows "calls_ok cfg (process_step op s)"
proof (cases op)
  case (CallMoves i t)
  show ?thesis
  proof (cases "map_of (ksCalls s) i")
    case (Some c)
    then have "call_ok (plBackoff (ksPolicy s)) c" using ok by (auto simp: calls_ok_def dest: map_all_lookup)
    then show ?thesis
      using call_step_ok [of "ksPolicy s" c] call_step_policy [of "ksClock s" c t "ksPolicy s"] ok Some
      unfolding CallMoves process_step_moves by (auto simp: calls_ok_def policy_step_def Let_def)
  qed (use ok CallMoves in simp)
qed (use ok in \<open>auto simp: calls_ok_def call_ok_begin split: option.splits\<close>)

lemma claims_ok_step:
  assumes ok: "claims_ok cfg s" and cs: "calls_ok cfg s"
  shows "claims_ok cfg (process_step op s)"
proof (cases op)
  case (CallMoves i t)
  show ?thesis
  proof (cases "map_of (ksCalls s) i")
    case (Some c)
    define r where "r = call_step (turn_at (ksClock s) t) c (ksPolicy s)"
    have pol: "policy_step (ksClock s) (granted c (fst r)) (ksPolicy s) (snd r)"
      unfolding r_def by (rule call_step_policy)
    have l: "ksClaims s = [] \<or> last (ksClaims s) \<noteq> 0 \<and> last (ksClaims s) \<le> ksClock s"
      using ok last_in_set [of "ksClaims s"] by (fastforce simp: claims_ok_def)
    have "sorted_wrt (\<lambda>a b. a \<le> b \<and> cfCooldown cfg \<le> b - a) (ksClaims s @ [ksClock s])" if "granted c (fst r)"
      using ok cs pol that l
      by (intro spaced_snoc) (auto simp: claims_ok_def calls_ok_def policy_step_def split: if_splits)
    then show ?thesis using ok cs pol Some unfolding CallMoves process_step_moves
      by (auto simp: claims_ok_def calls_ok_def r_def [symmetric] policy_step_def Let_def split: if_splits)
  qed (use ok CallMoves in simp)
qed (use ok in \<open>fastforce simp: claims_ok_def split: option.splits\<close>)+

interpretation calls_kept: kept "\<lambda>s op. process_step op s" "process_start cfg now" "calls_ok cfg" for cfg now
  by unfold_locales (simp add: process_start_def New_def calls_ok_def, rule calls_ok_step)

interpretation claims_kept: kept "\<lambda>s op. process_step op s" "process_start cfg (max 1 now)"
  "\<lambda>s. calls_ok cfg s \<and> claims_ok cfg s" for cfg now
  by unfold_locales (simp add: process_start_def New_def calls_ok_def claims_ok_def, blast intro: calls_ok_step claims_ok_step)

lemma run_calls_ok: "calls_ok cfg (process_run cfg now ops)"
  unfolding process_run_def by (rule calls_kept.inv_run)

lemma run_claims_ok: "0 < now \<Longrightarrow> claims_ok cfg (process_run cfg now ops)"
  using claims_kept.inv_run [of cfg now ops] by (simp add: process_run_def max_def)

subsection \<open>Accounts\<close>

lemma sum_update_old:
  "distinct (map fst m) \<Longrightarrow> map_of m k = Some c \<Longrightarrow>
     sum_list (map (\<lambda>(_, c). f c) (AList.update k c' m)) = sum_list (map (\<lambda>(_, c). f c) m) - f c + (f c' :: int)"
  by (induction m) (auto split: if_splits)

lemma sum_update_new:
  "map_of m k = None \<Longrightarrow>
     sum_list (map (\<lambda>(_, c). f c) (AList.update k c' m)) = sum_list (map (\<lambda>(_, c). f c) m) + (f c' :: int)"
  by (induction m) (auto split: if_splits)


lemma attempt_step_accounts:
  assumes "caPhase c = Walking"
  shows "accounts_step c p (fst (attempt_step xs ctxErr now c p)) (snd (attempt_step xs ctxErr now c p))"
proof (cases "walk (caAccepts c) False (caDelivered c) xs")
  case (Pair out en)
  show ?thesis
  proof (cases en)
    case (Failure e)
    obtain d p' where d: "retry_next ctxErr now (caAttempt c) e p = (d, p')" by fastforce
    have "plRetries p' = plRetries p" "plObserved p' = plObserved p"
      using d by (auto simp: retry_next_def claim_def split: if_splits)
    then show ?thesis using assms
      by (cases d) (auto simp: attempt_step_def Pair Failure d give_up_def report_def emit_def reportable_def Let_def
          accounts_step_def)
  qed (use assms in \<open>auto simp: attempt_step_def Pair report_def emit_def reportable_def accounts_step_def split: option.splits\<close>)
qed

lemma wake_step_accounts:
  "caPhase c = Sleeping w e \<Longrightarrow>
     accounts_step c p (fst (wake_step aborted w e c p)) (snd (wake_step aborted w e c p))"
  by (auto simp: wake_step_def give_up_def report_def emit_def reportable_def accounts_step_def record_wait_def
      split: option.splits)

lemma call_step_accounts:
  "accounts_step c p (fst (call_step t c p)) (snd (call_step t c p))"
  by (cases t; cases "caPhase c") (simp_all add: attempt_step_accounts wake_step_accounts, simp_all add: accounts_step_def)

lemma accounted_step:
  assumes ok: "accounted s"
  shows "accounted (process_step op s)"
proof (cases op)
  case (StartCall i m acc)
  then show ?thesis using ok
    by (auto simp: accounted_def call_sum_def sum_update_new begin_call_def reportable_def distinct_update split: option.splits)
next
  case (CallMoves i t)
  show ?thesis
  proof (cases "map_of (ksCalls s) i")
    case (Some c)
    define r where "r = call_step (turn_at (ksClock s) t) c (ksPolicy s)"
    have "accounts_step c (ksPolicy s) (fst r) (snd r)" unfolding r_def by (rule call_step_accounts)
    then show ?thesis using ok Some unfolding CallMoves process_step_moves
      by (auto simp: accounted_def accounts_step_def call_sum_def r_def [symmetric] sum_update_old Let_def distinct_update
          algebra_simps)
  qed (use ok CallMoves in simp)
qed (use ok in \<open>simp add: accounted_def call_sum_def\<close>)

interpretation accounts_kept: kept "\<lambda>s op. process_step op s" "process_start cfg now" accounted for cfg now
  by unfold_locales (simp add: process_start_def New_def accounted_def call_sum_def wrap64_def, rule accounted_step)

subsection \<open>One call alone\<close>

lemma attempt_step_walked:
  "caWalked (fst (attempt_step xs ctxErr now c p)) = caWalked c @ [xs]"
  "caAttempt (fst (attempt_step xs ctxErr now c p)) = caAttempt c"
  "caPhase (fst (attempt_step xs ctxErr now c p)) \<noteq> Walking"
  by (auto simp: attempt_step_def give_up_def Let_def split: prod.splits walk_end.splits decision.splits)

lemma GenerateContent_returns:
  assumes "GenerateContent inner ctxErr now aborted c p = (c', p')" "call_ok (plBackoff p) c" "caPhase c = Walking"
    "caWalked c = map inner [0..<caAttempt c]"
  shows "caPhase c' = Returned \<and> call_ok (plBackoff p) c' \<and> caWalked c' = map inner [0..<Suc (caAttempt c')]"
  using assms
proof (induction inner ctxErr now aborted c p rule: GenerateContent.induct)
  case (1 inner ctxErr now aborted c p)
  define n where "n = caAttempt c"
  obtain c1 p1 where 1: "attempt_step (inner n) (ctxErr n) (now n) c p = (c1, p1)" by fastforce
  have ok1: "call_ok (plBackoff p) c1" using attempt_step_ok [of p c "inner n" "ctxErr n" "now n"] "1.prems" 1 by simp
  have w1: "caWalked c1 = map inner [0..<Suc n]" "caAttempt c1 = n" "caPhase c1 \<noteq> Walking"
    using attempt_step_walked [of "inner n" "ctxErr n" "now n" c p] "1.prems" 1 by (auto simp: n_def)
  have b1: "plBackoff p1 = plBackoff p"
    using attempt_step_policy [of "now n" "inner n" "ctxErr n" c p] 1 by (simp add: policy_step_def)
  note eq = GenerateContent.simps [of inner ctxErr now aborted c p]
  show ?case
  proof (cases "caPhase c1")
    case (Sleeping w e)
    obtain c2 p2 where 2: "wake_step (aborted n) w e c1 p1 = (c2, p2)" by fastforce
    have ok2: "call_ok (plBackoff p) c2" using wake_step_ok [OF ok1 Sleeping, of "aborted n" p1] 2 by simp
    have b2: "plBackoff p2 = plBackoff p" using wake_step_policy [of "now n" p1 "aborted n" w e c1] 2 b1
      by (simp add: policy_step_def)
    show ?thesis
    proof (cases "aborted n")
      case True
      then have c2: "caPhase c2 = Returned" "caWalked c2 = caWalked c1" "caAttempt c2 = n"
        using 2 w1 by (auto simp: wake_step_def give_up_def)
      then have "c' = c2" using "1.prems"(1) eq 1 2 Sleeping by (simp add: n_def [symmetric] Let_def)
      then show ?thesis using ok2 w1 c2 by simp
    next
      case False
      then have c2: "caPhase c2 = Walking" "caWalked c2 = caWalked c1" "caAttempt c2 = Suc n"
        using 2 w1 by (auto simp: wake_step_def)
      have "GenerateContent inner ctxErr now aborted c2 p2 = (c', p')"
        using "1.prems"(1) eq 1 2 Sleeping c2 by (simp add: n_def [symmetric] Let_def)
      then show ?thesis
        using "1.IH" [OF n_def 1 [symmetric] _ Sleeping 2 [symmetric] _ c2(1)] ok2 b2 c2 w1 by simp
    qed
  next
    case Returned
    then show ?thesis using "1.prems"(1) ok1 w1 eq 1 by (simp add: n_def [symmetric] Let_def)
  qed (use w1 in simp)
qed


subsection \<open>Properties\<close>

text \<open>C24: in any interleaving of the calls of a process, the sequences a call walks are at most one more than the
  schedule has waits, all but the last began with an error worth waiting out, and nothing of them was
  handed on; what the consumer of a call that returned was handed is the last sequence as far as it
  wanted it, or only the error the last sequence began with. So no content is handed on twice.\<close>
theorem answered_once:
  assumes "map_of (ksCalls (process_run cfg now ops)) i = Some c"
  shows "length (caWalked c) \<le> Suc (length (cfBackoff cfg)) \<and>
     (\<forall>n < length (caWalked c) - 1. \<exists>e. first_error (caWalked c ! n) = Some e \<and> isRetryable e) \<and>
     (if caPhase c \<noteq> Returned then caDelivered c = []
      else case first_error (last (caWalked c)) of
             None \<Rightarrow> served (caAccepts c) (last (caWalked c)) (caDelivered c)
           | Some e \<Rightarrow> caDelivered c = [(None, Some e)])"
proof -
  have ok: "call_ok (cfBackoff cfg) c"
    using run_calls_ok [of cfg now ops] assms by (auto simp: calls_ok_def dest: map_all_lookup)
  then show ?thesis by (cases "caPhase c") (auto simp: call_ok_def)
qed

lemmas demo_run_defs = demo_run_def broken_run_def process_run_def process_start_def New_def demo_calls_def begin_call_def
  ProductionConfig_def second_ns_def shed_def attempt_step_def wake_step_def retry_next_def claim_def is_ctx_error_def
  isRetryable_def retryableCodes_def give_up_def report_def emit_def record_wait_def wrap64_def

theorem answered_once_witness:
  "map_option caDelivered (map_of (ksCalls demo_run) 0) = Some [(Some ''hi'', None)] \<and>
   map_option caDelivered (map_of (ksCalls demo_run) 1) = Some [(None, Some shed)] \<and>
   map_option (\<lambda>c. length (caWalked c) \<le> 2) (map_of (ksCalls demo_run) 0) = Some True"
proof -
  obtain c where c: "map_of (ksCalls demo_run) 0 = Some c" "caDelivered c = [(Some ''hi'', None)]"
    by (simp add: demo_run_defs)
  then have "length (caWalked c) \<le> 2"
    using answered_once [of ProductionConfig 1 demo_calls 0 c] by (simp add: demo_run_def ProductionConfig_def)
  then show ?thesis using c by (simp add: demo_run_defs)
qed

text \<open>C34: however the calls of a process interleave, two grants of a retry are at least the cooldown apart.\<close>
theorem retries_spaced:
  assumes "0 < now"
  shows "sorted_wrt (\<lambda>a b. cfCooldown cfg \<le> b - a) (ksClaims (process_run cfg now ops))"
  using run_claims_ok [OF assms, of cfg ops] unfolding claims_ok_def by (auto elim: sorted_wrt_mono_rel [rotated])

theorem retries_spaced_witness:
  "sorted_wrt (\<lambda>a b. 60000000000 \<le> b - a) (ksClaims demo_run) \<and> length (ksClaims demo_run) = 2"
proof -
  have "sorted_wrt (\<lambda>a b. cfCooldown ProductionConfig \<le> b - a) (ksClaims demo_run)"
    unfolding demo_run_def by (rule retries_spaced) simp
  then show ?thesis by (simp add: demo_run_defs)
qed

text \<open>C37: a call by itself always returns, after asking the wrapped model at most once more than the schedule has
  waits, and the time it waited is the part of the schedule it used.\<close>
theorem call_returns:
  assumes "GenerateContent inner ctxErr now aborted (begin_call m accepts) p = (c, p')"
  shows "caPhase c = Returned \<and> caWalked c = map inner [0..<Suc (caAttempt c)] \<and>
     caAttempt c \<le> length (plBackoff p) \<and> caWaited c = wrap64 (sum_list (take (caAttempt c) (plBackoff p)))"
proof -
  have "caPhase c = Returned \<and> call_ok (plBackoff p) c \<and> caWalked c = map inner [0..<Suc (caAttempt c)]"
    by (rule GenerateContent_returns [OF assms call_ok_begin]) (simp_all add: begin_call_def)
  then show ?thesis by (simp add: call_ok_def)
qed

theorem call_returns_witness:
  "caPhase (fst demo_generate) = Returned \<and> caAttempt (fst demo_generate) \<le> 3 \<and>
   caWalked (fst demo_generate) = map (\<lambda>n. [(None, Some shed)]) [0..<Suc (caAttempt (fst demo_generate))]"
proof -
  obtain c p where e: "demo_generate = (c, p)" by fastforce
  have "length (plBackoff (New JudgeConfig)) = 3" by (simp add: New_def JudgeConfig_def)
  then show ?thesis unfolding e using call_returns [OF e [unfolded demo_generate_def]] by simp
qed

text \<open>The policy's counter of retries is the number its calls were served, and there is at most one event for
  each call that returned after an error.\<close>
theorem retries_accounted:
  "plRetries (ksPolicy (process_run cfg now ops)) =
     wrap64 (sum_list (map (\<lambda>(i, c). int (caAttempt c)) (ksCalls (process_run cfg now ops)))) \<and>
   int (length (plObserved (ksPolicy (process_run cfg now ops)))) \<le>
     sum_list (map (\<lambda>(i, c). if caPhase c = Returned \<and> caLastErr c \<noteq> None then 1 else 0) (ksCalls (process_run cfg now ops)))"
  using accounts_kept.inv_run [of cfg now ops] by (simp add: process_run_def [symmetric] accounted_def call_sum_def reportable_def)

text \<open>A call whose retry was answered with content that broke off with an error is reported as recovered,
  although the last thing its consumer was handed is the error.\<close>
theorem recovered_though_failed:
  "map evOutcome (plObserved (ksPolicy broken_run)) = [Recovered] \<and>
   map_option (\<lambda>c. snd (last (caDelivered c))) (map_of (ksCalls broken_run) 0) = Some (Some shed)"
  by (simp add: demo_run_defs)

end
