(* ===== verification/Session_Store.thy ===== *)
theory Session_Store
  imports Go_Strings Interfaces
begin

text \<open>
  The session store as operators see it, \<^verbatim>\<open>src/internal/transcript/transcript.go\<close> and
  \<^verbatim>\<open>src/internal/transcript/pause.go\<close>: the projection of a session's events and markers to a state, the
  markers on the companion row, and the pauses with their resume tokens.

  The session service is the agent kit's: here it is the list of its rows of one app, with what a \<^verbatim>\<open>Get\<close>,
  \<^verbatim>\<open>List\<close>, \<^verbatim>\<open>Create\<close> and \<^verbatim>\<open>AppendEvent\<close> do to it; each of them may fail, which the environment \<open>store_env\<close> of an
  operation says, along with the clock and the token that the random source would mint. A value of a row's
  state is kept decoded: a text, a time, a count, or a pause record, which the code stores as text, RFC 3339,
  decimal digits and JSON and reads back.
\<close>

section \<open>Events and what is pending\<close>

record requested_input =
  riInterruptID :: string
  riMessage :: string

text \<open>A call of a parked event: \<open>tcMessage\<close> is its argument \<^verbatim>\<open>message\<close> if that is a string, \<open>tcSummary\<close> what
  \<^verbatim>\<open>approval.DescribeConfirmation\<close> makes of its arguments.\<close>

record tx_call =
  tcID :: string
  tcName :: string
  tcMessage :: "string option"
  tcSummary :: string

record tx_part =
  tpCall :: "tx_call option"
  tpResponse :: "string option"

record tx_event =
  teAuthor :: string
  teTimestamp :: gotime
  teRequested :: "requested_input option"
  teLongRunning :: "string list"
  teParts :: "tx_part option list option"

record pending_input =
  piInterruptID :: string
  piMessage :: string
  piLongRunning :: bool
  piToolName :: string
  piAuthor :: string
  piRaisedAt :: gotime

definition confirmation_name :: string where "confirmation_name = ''adk_request_confirmation''"

text \<open>The scan keeps the open interrupts by id and the order in which ids were raised.\<close>

record pend_scan =
  pnOrder :: "string list"
  pnBy :: "(string, pending_input) gomap"

definition pend_requested :: "tx_event \<Rightarrow> pend_scan \<Rightarrow> pend_scan" where
  "pend_requested ev p =
     (case teRequested ev of
        None \<Rightarrow> p
      | Some ri \<Rightarrow>
          if riInterruptID ri = [] then p
          else p\<lparr>pnOrder := (if map_of (pnBy p) (riInterruptID ri) = None then pnOrder p @ [riInterruptID ri] else pnOrder p),
                 pnBy := AList.update (riInterruptID ri)
                   \<lparr>piInterruptID = riInterruptID ri, piMessage = riMessage ri, piLongRunning = False, piToolName = [],
                    piAuthor = teAuthor ev, piRaisedAt = teTimestamp ev\<rparr> (pnBy p)\<rparr>)"

definition park_part :: "string \<Rightarrow> pending_input \<Rightarrow> tx_part option \<Rightarrow> pending_input" where
  "park_part iid p pt =
     (case Option.bind pt tpCall of
        None \<Rightarrow> p
      | Some c \<Rightarrow>
          if tcID c \<noteq> iid then p
          else
            (let p1 = p\<lparr>piToolName := tcName c\<rparr>;
                 p2 = (case tcMessage c of None \<Rightarrow> p1 | Some m \<Rightarrow> p1\<lparr>piMessage := m\<rparr>)
             in if tcName c = confirmation_name then p2\<lparr>piMessage := tcSummary c\<rparr> else p2))"

definition pend_long :: "tx_event \<Rightarrow> pend_scan \<Rightarrow> string \<Rightarrow> pend_scan" where
  "pend_long ev p iid =
     (if iid = [] \<or> map_of (pnBy p) iid \<noteq> None then p
      else p\<lparr>pnOrder := pnOrder p @ [iid],
             pnBy := AList.update iid
               (foldl (park_part iid)
                  \<lparr>piInterruptID = iid, piMessage = [], piLongRunning = True, piToolName = [], piAuthor = teAuthor ev,
                   piRaisedAt = teTimestamp ev\<rparr>
                  (case teParts ev of None \<Rightarrow> [] | Some ps \<Rightarrow> ps)) (pnBy p)\<rparr>)"

definition pend_resolve :: "pend_scan \<Rightarrow> tx_part option \<Rightarrow> pend_scan" where
  "pend_resolve p pt =
     (case Option.bind pt tpResponse of None \<Rightarrow> p | Some iid \<Rightarrow> p\<lparr>pnBy := AList.delete iid (pnBy p)\<rparr>)"

definition pend_event :: "pend_scan \<Rightarrow> tx_event \<Rightarrow> pend_scan" where
  "pend_event p ev =
     (let p1 = foldl (pend_long ev) (pend_requested ev p) (teLongRunning ev)
      in case teParts ev of None \<Rightarrow> p1 | Some parts \<Rightarrow> foldl pend_resolve p1 parts)"

fun pend_collect :: "string list \<Rightarrow> (string, pending_input) gomap \<Rightarrow> pending_input list" where
  "pend_collect [] by = []"
| "pend_collect (iid # ids) by =
     (case map_of by iid of
        None \<Rightarrow> pend_collect ids by
      | Some p \<Rightarrow> p # pend_collect ids (AList.delete iid by))"

definition scanPending :: "tx_event list \<Rightarrow> pending_input list" where
  "scanPending events =
     (let p = foldl pend_event \<lparr>pnOrder = [], pnBy = []\<rparr> events in pend_collect (pnOrder p) (pnBy p))"

section \<open>Rows\<close>

datatype reason =
    ReasonBudgetExhaustion | ReasonWatchdogAnomaly | ReasonCostCoolDown | ReasonMaintenanceWindow
  | ReasonRateLimitBackoff | ReasonAmbiguity | ReasonOperator | ReasonA2ATaskPending | ReasonOther
  | UnknownReason string

datatype plane = PlaneGate | PlaneInterrupt

record pause_record =
  prToken :: string
  prPlane :: plane
  prInterruptID :: string
  prApp :: string
  prUser :: string
  prSessionID :: string
  prReason :: reason
  prMessage :: string
  prMintedAt :: gotime
  prExpiresAt :: gotime
  prResumeAt :: gotime
  prConsumedAt :: gotime
  prConsumedBy :: string

datatype ops_value = Text string | Stamp gotime | Count int | Blob pause_record

record row =
  rwUser :: string
  rwID :: string
  rwUpdated :: gotime
  rwEvents :: "tx_event list"
  rwState :: "(string, ops_value) gomap"

record store_env =
  enNow :: gotime
  enToken :: "string option"
  enList :: bool
  enGet :: "string \<Rightarrow> bool"
  enCreate :: bool
  enRetry :: bool
  enAppend :: bool

datatype store_error =
    ErrReserved | ErrNotFound | ErrAlreadyAborted | ErrTokenNotFound | ErrTokenExpired | ErrAlreadyResumed
  | ErrBadSpec | ErrEmptyInterrupt | ErrEmptyReason | ErrBadTTL | ErrMint | ErrStore

definition opsSuffix :: string where "opsSuffix = '':mast-ops''"

definition opsSessionID :: "string \<Rightarrow> string" where "opsSessionID sid = sid @ opsSuffix"

definition IsReservedSessionID :: "string \<Rightarrow> bool" where
  "IsReservedSessionID sid = HasSuffix sid opsSuffix"

definition svc_Get :: "store_env \<Rightarrow> string \<Rightarrow> string \<Rightarrow> row list \<Rightarrow> row option" where
  "svc_Get en u sid rows = (if enGet en sid then find (\<lambda>r. rwUser r = u \<and> rwID r = sid) rows else None)"

definition svc_Create :: "store_env \<Rightarrow> string \<Rightarrow> string \<Rightarrow> row list \<Rightarrow> row list option" where
  "svc_Create en u sid rows =
     (if enCreate en \<and> find (\<lambda>r. rwUser r = u \<and> rwID r = sid) rows = None
      then Some (rows @ [\<lparr>rwUser = u, rwID = sid, rwUpdated = enNow en, rwEvents = [], rwState = []\<rparr>])
      else None)"

definition merge_state :: "(string, ops_value) gomap \<Rightarrow> (string, ops_value) gomap \<Rightarrow> (string, ops_value) gomap" where
  "merge_state delta st = foldl (\<lambda>m (k, v). AList.update k v m) st delta"

definition svc_Append :: "store_env \<Rightarrow> string \<Rightarrow> string \<Rightarrow> string \<Rightarrow> (string, ops_value) gomap \<Rightarrow> row list \<Rightarrow> row list" where
  "svc_Append en u sid author delta rows =
     map (\<lambda>r. if rwUser r = u \<and> rwID r = sid
              then r\<lparr>rwState := merge_state delta (rwState r), rwUpdated := enNow en,
                     rwEvents := rwEvents r @ [\<lparr>teAuthor = author, teTimestamp = enNow en, teRequested = None,
                       teLongRunning = [], teParts = None\<rparr>]\<rparr>
              else r) rows"

definition findUserID :: "store_env \<Rightarrow> string \<Rightarrow> row list \<Rightarrow> store_error + string" where
  "findUserID en sid rows =
     (if \<not> enList en then Inl ErrStore
      else case find (\<lambda>r. \<not> IsReservedSessionID (rwID r) \<and> rwID r = sid) rows of
             None \<Rightarrow> Inl ErrNotFound
           | Some r \<Rightarrow> Inr (rwUser r))"

definition resolve_user :: "store_env \<Rightarrow> string \<Rightarrow> string \<Rightarrow> row list \<Rightarrow> store_error + string" where
  "resolve_user en u sid rows = (if u = [] then findUserID en sid rows else Inr u)"

text \<open>\<^verbatim>\<open>appendOpsDelta\<close> opens the companion row, or makes it, and appends one marker event.\<close>

definition open_ops_row :: "store_env \<Rightarrow> string \<Rightarrow> string \<Rightarrow> row list \<Rightarrow> row list option" where
  "open_ops_row en u sid rows =
     (case svc_Get en u (opsSessionID sid) rows of
        Some _ \<Rightarrow> Some rows
      | None \<Rightarrow>
          (case svc_Create en u (opsSessionID sid) rows of
             Some rows' \<Rightarrow> Some rows'
           | None \<Rightarrow>
               if enRetry en \<and> find (\<lambda>r. rwUser r = u \<and> rwID r = opsSessionID sid) rows \<noteq> None then Some rows else None))"

definition appendOpsDelta ::
  "store_env \<Rightarrow> string \<Rightarrow> string \<Rightarrow> string \<Rightarrow> (string, ops_value) gomap \<Rightarrow> row list \<Rightarrow> store_error option \<times> row list" where
  "appendOpsDelta en u sid author delta rows =
     (case resolve_user en u sid rows of
        Inl e \<Rightarrow> (Some e, rows)
      | Inr u' \<Rightarrow>
          (case open_ops_row en u' sid rows of
             None \<Rightarrow> (Some ErrStore, rows)
           | Some rows' \<Rightarrow>
               if enAppend en then (None, svc_Append en u' (opsSessionID sid) author delta rows')
               else (Some ErrStore, rows')))"

section \<open>Reading the companion row\<close>

definition pauseGateKey :: string where "pauseGateKey = ''mast_pause_gate''"
definition pauseIntrKeyPrefix :: string where "pauseIntrKeyPrefix = ''mast_pause_intr:''"
definition abortReasonKey :: string where "abortReasonKey = ''mast_abort_reason''"
definition abortTimeKey :: string where "abortTimeKey = ''mast_abort_time''"
definition interruptReasonKey :: string where "interruptReasonKey = ''mast_interrupted_reason''"
definition interruptTimeKey :: string where "interruptTimeKey = ''mast_interrupted_time''"
definition effectsAckTimeKey :: string where "effectsAckTimeKey = ''mast_effects_ack_time''"
definition effectsAckReasonKey :: string where "effectsAckReasonKey = ''mast_effects_ack_reason''"
definition autoResumeAttemptsKey :: string where "autoResumeAttemptsKey = ''mast_autoresume_attempts''"
definition autoResumeLastKey :: string where "autoResumeLastKey = ''mast_autoresume_last''"

definition is_pause_key :: "string \<Rightarrow> bool" where
  "is_pause_key k \<longleftrightarrow> k = pauseGateKey \<or> HasPrefix k pauseIntrKeyPrefix"

definition Active :: "pause_record option \<Rightarrow> bool" where
  "Active r = (case r of None \<Rightarrow> False | Some p \<Rightarrow> prConsumedAt p = 0)"

definition Expired :: "gotime \<Rightarrow> pause_record \<Rightarrow> bool" where
  "Expired now r \<longleftrightarrow> prExpiresAt r < now"

definition name_session :: "string \<Rightarrow> pause_record \<Rightarrow> pause_record" where
  "name_session sid r = (if prSessionID r = [] then r\<lparr>prSessionID := sid\<rparr> else r)"

fun parsePauseRecords :: "string \<Rightarrow> (string, ops_value) gomap \<Rightarrow> (string, pause_record) gomap" where
  "parsePauseRecords sid [] = []"
| "parsePauseRecords sid ((k, v) # kvs) =
     (case v of
        Blob r \<Rightarrow>
          if is_pause_key k then (k, name_session sid r) # parsePauseRecords sid kvs else parsePauseRecords sid kvs
      | _ \<Rightarrow> parsePauseRecords sid kvs)"

definition opsSnapshot ::
  "store_env \<Rightarrow> string \<Rightarrow> string \<Rightarrow> row list \<Rightarrow> (string, ops_value) gomap \<times> (string, pause_record) gomap" where
  "opsSnapshot en u sid rows =
     (case svc_Get en u (opsSessionID sid) rows of
        None \<Rightarrow> ([], [])
      | Some r \<Rightarrow> (filter (\<lambda>(k, v). HasPrefix k ''mast_'' \<and> \<not> is_pause_key k) (rwState r), parsePauseRecords sid (rwState r)))"

definition opsPauseRecords :: "store_env \<Rightarrow> string \<Rightarrow> string \<Rightarrow> row list \<Rightarrow> (string, pause_record) gomap" where
  "opsPauseRecords en u sid rows =
     (case svc_Get en u (opsSessionID sid) rows of None \<Rightarrow> [] | Some r \<Rightarrow> parsePauseRecords sid (rwState r))"

section \<open>The state of a session\<close>

datatype session_state = StatePaused | StateAborted | StateInterrupted | StateIdle

record detail =
  deID :: string
  deUser :: string
  deLastEvent :: gotime
  deState :: session_state
  dePending :: "pending_input list"
  deAbortReason :: ops_value
  deInterruptReason :: ops_value
  deInterruptedAt :: gotime
  deGate :: "pause_record option"
  deEvents :: nat

definition markerValue :: "(string, ops_value) gomap \<Rightarrow> (string, ops_value) gomap \<Rightarrow> string \<Rightarrow> ops_value" where
  "markerValue ops st k =
     (case map_of ops k of
        Some v \<Rightarrow> if v \<noteq> Text [] then v else mget (Text []) st k
      | None \<Rightarrow> mget (Text []) st k)"

definition project :: "row \<Rightarrow> (string, ops_value) gomap \<Rightarrow> pause_record option \<Rightarrow> detail" where
  "project r ops gate =
     (let d = \<lparr>deID = rwID r, deUser = rwUser r, deLastEvent = rwUpdated r, deState = StateIdle,
               dePending = scanPending (rwEvents r), deAbortReason = Text [], deInterruptReason = Text [],
               deInterruptedAt = 0, deGate = None, deEvents = length (rwEvents r)\<rparr>;
          abrt = markerValue ops (rwState r) abortReasonKey
      in if abrt \<noteq> Text [] then d\<lparr>deState := StateAborted, deAbortReason := abrt, dePending := []\<rparr>
         else
           (let d1 = (if Active gate then d\<lparr>deState := StatePaused, deGate := gate\<rparr> else d);
                d2 = (if dePending d1 \<noteq> [] then d1\<lparr>deState := StatePaused\<rparr> else d1)
            in if deState d2 = StatePaused then d2
               else
                 (let intr = markerValue ops (rwState r) interruptReasonKey
                  in if intr = Text [] then d2
                     else d2\<lparr>deState := StateInterrupted, deInterruptReason := intr,
                             deInterruptedAt := (case markerValue ops (rwState r) interruptTimeKey of Stamp t \<Rightarrow> t | _ \<Rightarrow> 0)\<rparr>)))"

definition PendingInterruptIDs :: "detail \<Rightarrow> string list" where
  "PendingInterruptIDs d = (if deState d = StatePaused then map piInterruptID (dePending d) else [])"

datatype awaiting = AwaitingNothing | AwaitingInput | AwaitingApproval

definition Awaiting :: "detail \<Rightarrow> awaiting" where
  "Awaiting d =
     (if deState d \<noteq> StatePaused then AwaitingNothing
      else if list_ex (\<lambda>p. piToolName p = confirmation_name) (dePending d) then AwaitingApproval
      else if dePending d = [] then AwaitingNothing else AwaitingInput)"

definition project_row :: "store_env \<Rightarrow> string \<Rightarrow> string \<Rightarrow> row list \<Rightarrow> store_error + detail" where
  "project_row en u sid rows =
     (case svc_Get en u sid rows of
        None \<Rightarrow> Inl ErrStore
      | Some r \<Rightarrow>
          (let (markers, pauses) = opsSnapshot en u sid rows
           in Inr (project r markers (map_of pauses pauseGateKey))))"

definition Get :: "store_env \<Rightarrow> string \<Rightarrow> string \<Rightarrow> row list \<Rightarrow> store_error + detail" where
  "Get en u sid rows =
     (if IsReservedSessionID sid then Inl ErrReserved
      else case resolve_user en u sid rows of Inl e \<Rightarrow> Inl e | Inr u' \<Rightarrow> project_row en u' sid rows)"

text \<open>A listing is refused as a whole if one of its sessions cannot be inspected.\<close>

fun inspect_all :: "(row \<Rightarrow> store_error + detail) \<Rightarrow> row list \<Rightarrow> store_error + detail list" where
  "inspect_all look [] = Inr []"
| "inspect_all look (r # rs) =
     (if IsReservedSessionID (rwID r) then inspect_all look rs
      else case look r of
             Inl e \<Rightarrow> Inl e
           | Inr d \<Rightarrow> (case inspect_all look rs of Inl e \<Rightarrow> Inl e | Inr ds \<Rightarrow> Inr (d # ds)))"

definition List :: "store_env \<Rightarrow> string \<Rightarrow> row list \<Rightarrow> store_error + detail list" where
  "List en u rows =
     (if \<not> enList en then Inl ErrStore
      else case inspect_all (\<lambda>r. Get en (rwUser r) (rwID r) rows) (filter (\<lambda>r. u = [] \<or> rwUser r = u) rows) of
             Inl e \<Rightarrow> Inl e
           | Inr ds \<Rightarrow> Inr (sort_key (\<lambda>d. - deLastEvent d) (sort_key deID ds)))"

definition ScanInterrupted :: "store_env \<Rightarrow> row list \<Rightarrow> store_error + detail list" where
  "ScanInterrupted en rows =
     (if \<not> enList en then Inl ErrStore
      else case inspect_all (\<lambda>r. project_row en (rwUser r) (rwID r) rows) rows of
             Inl e \<Rightarrow> Inl e
           | Inr ds \<Rightarrow> Inr (sort_key deInterruptedAt (sort_key deID (filter (\<lambda>d. deState d = StateInterrupted) ds))))"

section \<open>Markers\<close>

definition Abort :: "store_env \<Rightarrow> string \<Rightarrow> string \<Rightarrow> string \<Rightarrow> row list \<Rightarrow> store_error option \<times> row list" where
  "Abort en u sid why rows =
     (if IsReservedSessionID sid then (Some ErrReserved, rows)
      else case resolve_user en u sid rows of
             Inl e \<Rightarrow> (Some e, rows)
           | Inr u' \<Rightarrow>
               (case svc_Get en u' sid rows of
                  None \<Rightarrow> (Some ErrStore, rows)
                | Some r \<Rightarrow>
                    if map_of (rwState r) abortReasonKey \<noteq> None then (Some ErrAlreadyAborted, rows)
                    else
                      (let (markers, pauses) = opsSnapshot en u' sid rows
                       in if mget (Text []) markers abortReasonKey \<noteq> Text [] then (Some ErrAlreadyAborted, rows)
                          else appendOpsDelta en u' sid ''operator''
                                 ([(abortReasonKey, Text why), (abortTimeKey, Stamp (enNow en))] @
                                  map (\<lambda>(k, p). (k, Text [])) (filter (\<lambda>(k, p). Active (Some p)) pauses)) rows)))"

definition MarkInterrupted :: "store_env \<Rightarrow> string \<Rightarrow> string \<Rightarrow> string \<Rightarrow> row list \<Rightarrow> store_error option \<times> row list" where
  "MarkInterrupted en u sid why rows =
     (if IsReservedSessionID sid then (Some ErrReserved, rows)
      else if why = [] then (Some ErrEmptyReason, rows)
      else appendOpsDelta en u sid ''daemon'' [(interruptReasonKey, Text why), (interruptTimeKey, Stamp (enNow en))] rows)"

definition ClearInterrupted :: "store_env \<Rightarrow> string \<Rightarrow> string \<Rightarrow> row list \<Rightarrow> store_error option \<times> row list" where
  "ClearInterrupted en u sid rows =
     (if IsReservedSessionID sid then (Some ErrReserved, rows)
      else appendOpsDelta en u sid ''daemon'' [(interruptReasonKey, Text []), (interruptTimeKey, Text [])] rows)"

definition AckEffects :: "store_env \<Rightarrow> string \<Rightarrow> string \<Rightarrow> string \<Rightarrow> row list \<Rightarrow> store_error option \<times> row list" where
  "AckEffects en u sid why rows =
     (if IsReservedSessionID sid then (Some ErrReserved, rows)
      else appendOpsDelta en u sid ''operator'' [(effectsAckTimeKey, Stamp (enNow en)), (effectsAckReasonKey, Text why)] rows)"

definition EffectsAckedAt :: "store_env \<Rightarrow> string \<Rightarrow> string \<Rightarrow> row list \<Rightarrow> gotime option" where
  "EffectsAckedAt en u sid rows =
     (if IsReservedSessionID sid then None
      else case resolve_user en u sid rows of
             Inl e \<Rightarrow> None
           | Inr u' \<Rightarrow>
               (case map_of (fst (opsSnapshot en u' sid rows)) effectsAckTimeKey of Some (Stamp t) \<Rightarrow> Some t | _ \<Rightarrow> None))"

definition AutoResumeAttempts :: "store_env \<Rightarrow> string \<Rightarrow> string \<Rightarrow> row list \<Rightarrow> int \<times> gotime" where
  "AutoResumeAttempts en u sid rows =
     (let m = fst (opsSnapshot en u sid rows)
      in (case map_of m autoResumeAttemptsKey of Some (Count n) \<Rightarrow> n | _ \<Rightarrow> 0,
          case map_of m autoResumeLastKey of Some (Stamp t) \<Rightarrow> t | _ \<Rightarrow> 0))"

definition RecordAutoResumeAttempt :: "store_env \<Rightarrow> string \<Rightarrow> string \<Rightarrow> row list \<Rightarrow> (store_error + int) \<times> row list" where
  "RecordAutoResumeAttempt en u sid rows =
     (let n = wrap64 (fst (AutoResumeAttempts en u sid rows) + 1)
      in case appendOpsDelta en u sid ''daemon'' [(autoResumeAttemptsKey, Count n), (autoResumeLastKey, Stamp (enNow en))] rows of
           (Some e, rows') \<Rightarrow> (Inl e, rows')
         | (None, rows') \<Rightarrow> (Inr n, rows'))"

definition ClearAutoResumeAttempts :: "store_env \<Rightarrow> string \<Rightarrow> string \<Rightarrow> row list \<Rightarrow> store_error option \<times> row list" where
  "ClearAutoResumeAttempts en u sid rows =
     appendOpsDelta en u sid ''daemon'' [(autoResumeAttemptsKey, Text []), (autoResumeLastKey, Text [])] rows"

section \<open>Pauses\<close>

definition DefaultTokenTTL :: duration where "DefaultTokenTTL = 7 * 24 * 3600 * 1000000000"

definition tokenPrefix :: string where "tokenPrefix = ''mrt_''"

record pause_spec =
  psReason :: reason
  psMessage :: string
  psResumeAt :: gotime
  psTokenTTL :: duration

definition validate :: "pause_spec \<Rightarrow> bool" where
  "validate spec \<longleftrightarrow> (case psReason spec of UnknownReason r \<Rightarrow> False | _ \<Rightarrow> True) \<and>
     \<not> psTokenTTL spec < 0 \<and> \<not> DefaultTokenTTL < psTokenTTL spec"

definition ttl :: "pause_spec \<Rightarrow> duration" where
  "ttl spec = (if 0 < psTokenTTL spec then psTokenTTL spec else DefaultTokenTTL)"

definition pause_key :: "pause_record \<Rightarrow> string" where
  "pause_key r = (case prPlane r of PlaneInterrupt \<Rightarrow> pauseIntrKeyPrefix @ prInterruptID r | PlaneGate \<Rightarrow> pauseGateKey)"

definition writePauseRecord ::
  "store_env \<Rightarrow> string \<Rightarrow> string \<Rightarrow> string \<Rightarrow> pause_record \<Rightarrow> row list \<Rightarrow> store_error option \<times> row list" where
  "writePauseRecord en u sid k r rows = appendOpsDelta en u sid ''operator'' [(k, Blob r)] rows"

definition mint :: "string \<Rightarrow> store_env \<Rightarrow> string \<Rightarrow> plane \<Rightarrow> string \<Rightarrow> string \<Rightarrow> string \<Rightarrow> pause_spec \<Rightarrow> pause_record" where
  "mint app en tok pl intr u sid spec =
     \<lparr>prToken = tok, prPlane = pl, prInterruptID = intr, prApp = app, prUser = u, prSessionID = sid,
      prReason = psReason spec, prMessage = psMessage spec, prMintedAt = enNow en, prExpiresAt = enNow en + ttl spec,
      prResumeAt = psResumeAt spec, prConsumedAt = 0, prConsumedBy = []\<rparr>"

text \<open>The token and its expiry, and whether a new pause was opened.\<close>

definition PauseGate ::
  "string \<Rightarrow> store_env \<Rightarrow> string \<Rightarrow> string \<Rightarrow> pause_spec \<Rightarrow> row list \<Rightarrow> (store_error + (string \<times> gotime) \<times> bool) \<times> row list" where
  "PauseGate app en u sid spec rows =
     (if IsReservedSessionID sid then (Inl ErrReserved, rows)
      else if \<not> validate spec then (Inl ErrBadSpec, rows)
      else case resolve_user en u sid rows of
             Inl e \<Rightarrow> (Inl e, rows)
           | Inr u' \<Rightarrow>
               (case Get en u' sid rows of
                  Inl e \<Rightarrow> (Inl e, rows)
                | Inr d \<Rightarrow>
                    if deState d = StateAborted then (Inl ErrAlreadyAborted, rows)
                    else
                      (let old = map_of (opsPauseRecords en u' sid rows) pauseGateKey;
                           new = (if Active old
                                  then Some ((the old)\<lparr>prReason := psReason spec, prMessage := psMessage spec, prResumeAt := psResumeAt spec\<rparr>)
                                  else map_option (\<lambda>tok. mint app en tok PlaneGate [] u' sid spec) (enToken en))
                       in case new of
                            None \<Rightarrow> (Inl ErrMint, rows)
                          | Some r \<Rightarrow>
                              (case writePauseRecord en u' sid pauseGateKey r rows of
                                 (Some e, rows') \<Rightarrow> (Inl e, rows')
                               | (None, rows') \<Rightarrow> (Inr ((prToken r, prExpiresAt r), \<not> Active old), rows')))))"

definition PauseInterrupt ::
  "string \<Rightarrow> store_env \<Rightarrow> string \<Rightarrow> string \<Rightarrow> string \<Rightarrow> pause_spec \<Rightarrow> row list \<Rightarrow> (store_error + string \<times> gotime) \<times> row list" where
  "PauseInterrupt app en u sid intr spec rows =
     (if IsReservedSessionID sid then (Inl ErrReserved, rows)
      else if intr = [] then (Inl ErrEmptyInterrupt, rows)
      else if \<not> validate spec then (Inl ErrBadSpec, rows)
      else case enToken en of
             None \<Rightarrow> (Inl ErrMint, rows)
           | Some tok \<Rightarrow>
               (let r = mint app en tok PlaneInterrupt intr u sid spec
                in case writePauseRecord en u sid (pauseIntrKeyPrefix @ intr) r rows of
                     (Some e, rows') \<Rightarrow> (Inl e, rows')
                   | (None, rows') \<Rightarrow> (Inr (tok, prExpiresAt r), rows')))"

definition GatePause :: "store_env \<Rightarrow> string \<Rightarrow> string \<Rightarrow> row list \<Rightarrow> pause_record option" where
  "GatePause en u sid rows =
     (if IsReservedSessionID sid then None
      else case resolve_user en u sid rows of
             Inl e \<Rightarrow> None
           | Inr u' \<Rightarrow>
               (let r = map_of (opsPauseRecords en u' sid rows) pauseGateKey in if Active r then r else None))"

definition ops_rows :: "row list \<Rightarrow> (string \<times> row) list" where
  "ops_rows rows = map (\<lambda>r. (take (length (rwID r) - length opsSuffix) (rwID r), r)) (filter (\<lambda>r. IsReservedSessionID (rwID r)) rows)"

definition ScanPauses :: "store_env \<Rightarrow> row list \<Rightarrow> store_error + pause_record list" where
  "ScanPauses en rows =
     (if \<not> enList en then Inl ErrStore
      else Inr (filter (\<lambda>p. Active (Some p)) (concat (map (\<lambda>(sid, r). map snd (parsePauseRecords sid (rwState r))) (ops_rows rows)))))"

definition FindToken :: "store_env \<Rightarrow> string \<Rightarrow> row list \<Rightarrow> store_error + pause_record" where
  "FindToken en tok rows =
     (if tok = [] \<or> \<not> HasPrefix tok tokenPrefix then Inl ErrTokenNotFound
      else if \<not> enList en then Inl ErrStore
      else case find (\<lambda>p. prToken p = tok) (concat (map (\<lambda>(sid, r). map snd (parsePauseRecords sid (rwState r))) (ops_rows rows))) of
             None \<Rightarrow> Inl ErrTokenNotFound
           | Some p \<Rightarrow> Inr p)"

text \<open>What a consumption decides on the record it found, and what it then writes.\<close>

definition consume_decide ::
  "string \<Rightarrow> store_env \<Rightarrow> string \<Rightarrow> bool \<Rightarrow> store_error + pause_record \<Rightarrow> store_error + pause_record" where
  "consume_decide app en by_whom enforceExpiry found =
     (case found of
        Inl e \<Rightarrow> Inl e
      | Inr r \<Rightarrow>
          if prApp r \<noteq> app then Inl ErrTokenNotFound
          else if prConsumedAt r \<noteq> 0 then Inl ErrAlreadyResumed
          else if enforceExpiry \<and> Expired (enNow en) r then Inl ErrTokenExpired
          else Inr (r\<lparr>prConsumedAt := enNow en, prConsumedBy := by_whom\<rparr>))"

definition write_found ::
  "store_env \<Rightarrow> store_error + pause_record \<Rightarrow> row list \<Rightarrow> (store_error + pause_record) \<times> row list" where
  "write_found en decided rows =
     (case decided of
        Inl e \<Rightarrow> (Inl e, rows)
      | Inr r \<Rightarrow>
          (case writePauseRecord en (prUser r) (prSessionID r) (pause_key r) r rows of
             (Some e, rows') \<Rightarrow> (Inl e, rows')
           | (None, rows') \<Rightarrow> (Inr r, rows')))"

definition consumeToken ::
  "string \<Rightarrow> store_env \<Rightarrow> string \<Rightarrow> string \<Rightarrow> bool \<Rightarrow> row list \<Rightarrow> (store_error + pause_record) \<times> row list" where
  "consumeToken app en tok by_whom enforceExpiry rows =
     write_found en (consume_decide app en by_whom enforceExpiry (FindToken en tok rows)) rows"

definition ConsumeToken ::
  "string \<Rightarrow> store_env \<Rightarrow> string \<Rightarrow> string \<Rightarrow> row list \<Rightarrow> (store_error + pause_record) \<times> row list" where
  "ConsumeToken app en tok by_whom rows = consumeToken app en tok by_whom True rows"

definition ConsumeScheduled ::
  "string \<Rightarrow> store_env \<Rightarrow> string \<Rightarrow> string \<Rightarrow> row list \<Rightarrow> (store_error + pause_record) \<times> row list" where
  "ConsumeScheduled app en tok by_whom rows = consumeToken app en tok by_whom False rows"

definition extend_decide :: "string \<Rightarrow> store_env \<Rightarrow> duration \<Rightarrow> store_error + pause_record \<Rightarrow> store_error + pause_record" where
  "extend_decide app en d found =
     (case found of
        Inl e \<Rightarrow> Inl e
      | Inr r \<Rightarrow>
          if prApp r \<noteq> app then Inl ErrTokenNotFound
          else if prConsumedAt r \<noteq> 0 then Inl ErrAlreadyResumed
          else Inr (r\<lparr>prExpiresAt := enNow en + d\<rparr>))"

definition ExtendToken ::
  "string \<Rightarrow> store_env \<Rightarrow> string \<Rightarrow> duration \<Rightarrow> row list \<Rightarrow> (store_error + pause_record) \<times> row list" where
  "ExtendToken app en tok d rows =
     (if d \<le> 0 then (Inl ErrBadTTL, rows) else write_found en (extend_decide app en d (FindToken en tok rows)) rows)"

end
