(* ===== verification/Pause_Tokens.thy ===== *)
theory Pause_Tokens
  imports Session_Store
begin

text \<open>
  Properties of the session store and its pauses: what a sequence of operations on the store does to
  the cells of the companion rows, to the resume tokens and to the state a session reports, and what is
  pending in a session. The operations of one sequence do not overlap; two that do are at the end.
\<close>

section \<open>The store under a sequence of operations\<close>

text \<open>
  The runner appends events, with their state deltas, to the sessions; the operations above act on the
  companion rows. \<open>syMinted\<close> are the tokens the random source has offered, \<open>sySpent\<close> those whose consumption
  was answered with the record.
\<close>

record store_sys =
  syRows :: "row list"
  syMinted :: "string list"
  sySpent :: "string list"

datatype store_op =
    RunnerEvent string string tx_event "(string, ops_value) gomap"
  | OpAbort store_env string string string
  | OpMark store_env string string string
  | OpClear store_env string string
  | OpAck store_env string string string
  | OpAttempt store_env string string
  | OpClearAttempts store_env string string
  | OpPauseGate store_env string string pause_spec
  | OpPauseInterrupt store_env string string string pause_spec
  | OpConsume store_env string string bool
  | OpExtend store_env string duration

definition runner_append :: "string \<Rightarrow> string \<Rightarrow> tx_event \<Rightarrow> (string, ops_value) gomap \<Rightarrow> row list \<Rightarrow> row list" where
  "runner_append u sid ev delta rows =
     (if find (\<lambda>r. rwUser r = u \<and> rwID r = sid) rows = None
      then rows @ [\<lparr>rwUser = u, rwID = sid, rwUpdated = teTimestamp ev, rwEvents = [ev], rwState = merge_state delta []\<rparr>]
      else map (\<lambda>r. if rwUser r = u \<and> rwID r = sid
                    then r\<lparr>rwState := merge_state delta (rwState r), rwUpdated := teTimestamp ev, rwEvents := rwEvents r @ [ev]\<rparr>
                    else r) rows)"

fun op_rows :: "string \<Rightarrow> store_op \<Rightarrow> row list \<Rightarrow> row list" where
  "op_rows app (RunnerEvent u sid ev delta) rows = runner_append u sid ev delta rows"
| "op_rows app (OpAbort en u sid why) rows = snd (Abort en u sid why rows)"
| "op_rows app (OpMark en u sid why) rows = snd (MarkInterrupted en u sid why rows)"
| "op_rows app (OpClear en u sid) rows = snd (ClearInterrupted en u sid rows)"
| "op_rows app (OpAck en u sid why) rows = snd (AckEffects en u sid why rows)"
| "op_rows app (OpAttempt en u sid) rows = snd (RecordAutoResumeAttempt en u sid rows)"
| "op_rows app (OpClearAttempts en u sid) rows = snd (ClearAutoResumeAttempts en u sid rows)"
| "op_rows app (OpPauseGate en u sid spec) rows = snd (PauseGate app en u sid spec rows)"
| "op_rows app (OpPauseInterrupt en u sid intr spec) rows = snd (PauseInterrupt app en u sid intr spec rows)"
| "op_rows app (OpConsume en tok by_whom enforce) rows = snd (consumeToken app en tok by_whom enforce rows)"
| "op_rows app (OpExtend en tok d) rows = snd (ExtendToken app en tok d rows)"

fun op_mints :: "store_op \<Rightarrow> string list" where
  "op_mints (OpPauseGate en u sid spec) = (case enToken en of None \<Rightarrow> [] | Some t \<Rightarrow> [t])"
| "op_mints (OpPauseInterrupt en u sid intr spec) = (case enToken en of None \<Rightarrow> [] | Some t \<Rightarrow> [t])"
| "op_mints _ = []"

fun op_spends :: "string \<Rightarrow> store_op \<Rightarrow> row list \<Rightarrow> string list" where
  "op_spends app (OpConsume en tok by_whom enforce) rows =
     (case fst (consumeToken app en tok by_whom enforce rows) of Inl e \<Rightarrow> [] | Inr r \<Rightarrow> [tok])"
| "op_spends app _ rows = []"

definition store_step :: "string \<Rightarrow> store_sys \<Rightarrow> store_op \<Rightarrow> store_sys" where
  "store_step app s op =
     \<lparr>syRows = op_rows app op (syRows s), syMinted = syMinted s @ op_mints op,
      sySpent = sySpent s @ op_spends app op (syRows s)\<rparr>"

definition store_empty :: store_sys where
  "store_empty = \<lparr>syRows = [], syMinted = [], sySpent = []\<rparr>"

definition store_run :: "string \<Rightarrow> store_op list \<Rightarrow> store_sys" where
  "store_run app ops = foldl (store_step app) store_empty ops"

text \<open>
  What is asked of the operations: the runner's sessions have users and no reserved ids, a park names its
  user, the clock of a consumption is past the zero time, and the random source does not repeat itself.
\<close>

fun op_ok :: "store_op \<Rightarrow> bool" where
  "op_ok (RunnerEvent u sid ev delta) \<longleftrightarrow> u \<noteq> [] \<and> \<not> IsReservedSessionID sid"
| "op_ok (OpPauseInterrupt en u sid intr spec) \<longleftrightarrow> u \<noteq> []"
| "op_ok (OpConsume en tok by_whom enforce) \<longleftrightarrow> enNow en \<noteq> 0"
| "op_ok _ \<longleftrightarrow> True"

definition ops_ok :: "store_op list \<Rightarrow> bool" where
  "ops_ok ops \<longleftrightarrow> list_all op_ok ops \<and> distinct (concat (map op_mints ops))"

text \<open>A cell of the store.\<close>

definition cell :: "row list \<Rightarrow> string \<Rightarrow> string \<Rightarrow> string \<Rightarrow> ops_value option" where
  "cell rows u sid k =
     (case find (\<lambda>r. rwUser r = u \<and> rwID r = sid) rows of None \<Rightarrow> None | Some r \<Rightarrow> map_of (rwState r) k)"

definition rows_ok :: "row list \<Rightarrow> bool" where
  "rows_ok rows \<longleftrightarrow> distinct (map (\<lambda>r. (rwUser r, rwID r)) rows) \<and>
     (\<forall>r\<in>set rows. rwUser r \<noteq> [] \<and> distinct (map fst (rwState r)))"

text \<open>What an append to a companion row did to the cells.\<close>

definition cells_after :: "row list \<Rightarrow> string \<Rightarrow> string \<Rightarrow> (string, ops_value) gomap \<Rightarrow> row list \<Rightarrow> bool" where
  "cells_after rows u i delta rows' \<longleftrightarrow>
     (\<forall>v j k. cell rows' v j k =
        (if v = u \<and> j = i then (case map_of (rev delta) k of Some x \<Rightarrow> Some x | None \<Rightarrow> cell rows v j k) else cell rows v j k))"

text \<open>A pause record in its cell.\<close>

definition rec_at :: "row list \<Rightarrow> string \<Rightarrow> string \<Rightarrow> string \<Rightarrow> pause_record \<Rightarrow> bool" where
  "rec_at rows u i k r \<longleftrightarrow> cell rows u i k = Some (Blob r) \<and> is_pause_key k \<and> IsReservedSessionID i"

definition rec_ok :: "string \<Rightarrow> store_sys \<Rightarrow> string \<Rightarrow> string \<Rightarrow> string \<Rightarrow> pause_record \<Rightarrow> bool" where
  "rec_ok app s u i k r \<longleftrightarrow> i = opsSessionID (prSessionID r) \<and> prUser r = u \<and> k = pause_key r \<and> prApp r = app \<and>
     prToken r \<in> set (syMinted s) \<and> (prConsumedAt r = 0 \<longrightarrow> prToken r \<notin> set (sySpent s))"

definition store_inv :: "string \<Rightarrow> store_sys \<Rightarrow> bool" where
  "store_inv app s \<longleftrightarrow> rows_ok (syRows s) \<and> set (sySpent s) \<subseteq> set (syMinted s) \<and> distinct (sySpent s) \<and>
     (\<forall>u i k r. rec_at (syRows s) u i k r \<longrightarrow> rec_ok app s u i k r) \<and>
     (\<forall>u i k r u' i' k' r'. rec_at (syRows s) u i k r \<longrightarrow> rec_at (syRows s) u' i' k' r' \<longrightarrow> prToken r = prToken r' \<longrightarrow>
        u = u' \<and> i = i' \<and> k = k')"

definition all_pauses :: "row list \<Rightarrow> pause_record list" where
  "all_pauses rows = concat (map (\<lambda>(sid, r). map snd (parsePauseRecords sid (rwState r))) (ops_rows rows))"

text \<open>An append without pause records leaves no new ones.\<close>

definition no_blobs :: "(string, ops_value) gomap \<Rightarrow> bool" where
  "no_blobs delta \<longleftrightarrow> (\<forall>k r. (k, Blob r) \<notin> set delta)"


text \<open>An active gate pause with a token.\<close>

definition gated :: "string \<Rightarrow> string \<Rightarrow> string \<Rightarrow> row list \<Rightarrow> bool" where
  "gated v sid tok rows \<longleftrightarrow> (\<exists>r. rec_at rows v (opsSessionID sid) pauseGateKey r \<and> prToken r = tok \<and> prConsumedAt r = 0)"

text \<open>What may end a gate: an abort of the session, the consumption of its token, or a second gate pause that
  cannot read the first.\<close>

fun spares_gate :: "string \<Rightarrow> store_op \<Rightarrow> bool" where
  "spares_gate sid (OpAbort en u s why) \<longleftrightarrow> s \<noteq> sid"
| "spares_gate sid (OpPauseGate en u s spec) \<longleftrightarrow> s = sid \<longrightarrow> enGet en (opsSessionID sid)"
| "spares_gate sid _ \<longleftrightarrow> True"

text \<open>An event raises an interrupt, and an event answers one.\<close>

definition raises :: "tx_event \<Rightarrow> string \<Rightarrow> bool" where
  "raises ev iid \<longleftrightarrow> iid \<noteq> [] \<and> (map_option riInterruptID (teRequested ev) = Some iid \<or> iid \<in> set (teLongRunning ev))"

definition answers :: "tx_event \<Rightarrow> string \<Rightarrow> bool" where
  "answers ev iid \<longleftrightarrow> (case teParts ev of None \<Rightarrow> False | Some ps \<Rightarrow> list_ex (\<lambda>pt. Option.bind pt tpResponse = Some iid) ps)"

definition scan_ok :: "pend_scan \<Rightarrow> bool" where
  "scan_ok p \<longleftrightarrow> (\<forall>iid x. map_of (pnBy p) iid = Some x \<longrightarrow> piInterruptID x = iid \<and> iid \<in> set (pnOrder p))"

text \<open>A session that was paused at its gate, and the environment of an operator.\<close>

definition demo_env :: "gotime \<Rightarrow> string option \<Rightarrow> store_env" where
  "demo_env now tok = \<lparr>enNow = now, enToken = tok, enList = True, enGet = (\<lambda>_. True), enCreate = True, enRetry = True, enAppend = True\<rparr>"

definition demo_event :: tx_event where
  "demo_event = \<lparr>teAuthor = ''agent'', teTimestamp = 1, teRequested = None, teLongRunning = [], teParts = None\<rparr>"

definition demo_spec :: pause_spec where
  "demo_spec = \<lparr>psReason = ReasonOperator, psMessage = ''hold'', psResumeAt = 0, psTokenTTL = 0\<rparr>"

definition demo_paused :: "store_op list" where
  "demo_paused = [RunnerEvent ''u'' ''s'' demo_event [], OpPauseGate (demo_env 5 (Some ''mrt_a'')) [] ''s'' demo_spec]"

definition demo_rows :: "row list" where
  "demo_rows = syRows (store_run ''app'' demo_paused)"

text \<open>Two operations on one token that both read the store before either writes.\<close>

definition two_resumes :: "(store_error + pause_record) \<times> (store_error + pause_record)" where
  "two_resumes =
     (let en = demo_env 7 None;
          found = FindToken en ''mrt_a'' demo_rows;
          (r1, rows1) = write_found en (consume_decide ''app'' en ''alice'' True found) demo_rows;
          (r2, rows2) = write_found en (consume_decide ''app'' en ''bob'' True found) rows1
      in (r1, r2))"

definition resume_and_extend :: "(store_error + pause_record) \<times> (store_error + pause_record) \<times> row list" where
  "resume_and_extend =
     (let en = demo_env 7 None;
          found = FindToken en ''mrt_a'' demo_rows;
          (r1, rows1) = write_found en (consume_decide ''app'' en ''alice'' True found) demo_rows;
          (r2, rows2) = write_found en (extend_decide ''app'' en 100 found) rows1
      in (r1, r2, rows2))"

section \<open>Lemmas and properties\<close>

subsection \<open>Cells\<close>

lemma find_row_append:
  "find P (rows @ [r]) = (case find P rows of Some x \<Rightarrow> Some x | None \<Rightarrow> if P r then Some r else None)"
  by (induction rows) auto

lemma find_row: "find (\<lambda>r. rwUser r = u \<and> rwID r = i) rows = Some r \<Longrightarrow> r \<in> set rows \<and> rwUser r = u \<and> rwID r = i"
  by (induction rows) (auto split: if_splits)

lemma cell_map:
  assumes "\<And>r. rwUser (f r) = rwUser r" "\<And>r. rwID (f r) = rwID r"
  shows "cell (map f rows) u i k =
     (case find (\<lambda>r. rwUser r = u \<and> rwID r = i) rows of None \<Rightarrow> None | Some r \<Rightarrow> map_of (rwState (f r)) k)"
  unfolding cell_def by (induction rows) (auto simp: assms)

lemma distinct_merge_state: "distinct (map fst st) \<Longrightarrow> distinct (map fst (merge_state delta st))"
  unfolding merge_state_def by (induction delta arbitrary: st) (auto simp: distinct_update)

lemma map_of_merge_state:
  "map_of (merge_state delta st) k = (case map_of (rev delta) k of Some v \<Rightarrow> Some v | None \<Rightarrow> map_of st k)"
proof (induction delta rule: rev_induct)
  case (snoc x delta)
  obtain a v where "x = (a, v)" by (cases x)
  then show ?case using snoc by (simp add: merge_state_def)
qed (simp add: merge_state_def)

lemma cell_svc_Append:
  assumes "find (\<lambda>r. rwUser r = u \<and> rwID r = i) rows \<noteq> None"
  shows "cells_after rows u i delta (svc_Append en u i a delta rows)"
  unfolding cells_after_def
proof (intro allI)
  fix v j k
  obtain r0 where r0: "find (\<lambda>r. rwUser r = u \<and> rwID r = i) rows = Some r0" using assms by auto
  show "cell (svc_Append en u i a delta rows) v j k =
        (if v = u \<and> j = i then (case map_of (rev delta) k of Some x \<Rightarrow> Some x | None \<Rightarrow> cell rows v j k) else cell rows v j k)"
  proof (cases "v = u \<and> j = i")
    case True
    then show ?thesis unfolding svc_Append_def using r0 find_row [OF r0]
      by (subst cell_map) (auto simp: cell_def map_of_merge_state split: option.splits)
  next
    case False
    then show ?thesis unfolding svc_Append_def
      by (subst cell_map) (auto simp: cell_def dest: find_row split: option.splits)
  qed
qed

lemma cell_create:
  "svc_Create en u i rows = Some rows' \<Longrightarrow>
     cell rows' v j k = cell rows v j k \<and> find (\<lambda>r. rwUser r = u \<and> rwID r = i) rows' \<noteq> None"
  by (auto simp: svc_Create_def cell_def find_row_append split: if_splits option.splits)

lemma cell_open:
  assumes "open_ops_row en u sid rows = Some rows'"
  shows "cell rows' v j k = cell rows v j k \<and> find (\<lambda>r. rwUser r = u \<and> rwID r = opsSessionID sid) rows' \<noteq> None"
  using assms cell_create [of en u "opsSessionID sid" rows rows']
  by (auto simp: open_ops_row_def svc_Get_def split: option.splits if_splits)

lemma cells_after_trans:
  "(\<And>v j k. cell rows1 v j k = cell rows v j k) \<Longrightarrow> cells_after rows1 u i delta rows' \<Longrightarrow> cells_after rows u i delta rows'"
  unfolding cells_after_def by presburger

lemma append_cells:
  assumes "appendOpsDelta en u sid a delta rows = (e, rows')"
  shows "if e = None then \<exists>u'. resolve_user en u sid rows = Inr u' \<and> cells_after rows u' (opsSessionID sid) delta rows'
         else (\<forall>v j k. cell rows' v j k = cell rows v j k)"
proof (cases "resolve_user en u sid rows")
  case (Inl x)
  then show ?thesis using assms by (auto simp: appendOpsDelta_def)
next
  case (Inr u')
  show ?thesis
  proof (cases "open_ops_row en u' sid rows")
    case None
    then show ?thesis using assms Inr by (auto simp: appendOpsDelta_def)
  next
    case (Some rows1)
    note op = cell_open [OF Some]
    show ?thesis
    proof (cases "enAppend en")
      case True
      then have "rows' = svc_Append en u' (opsSessionID sid) a delta rows1" "e = None"
        using assms Inr Some by (auto simp: appendOpsDelta_def)
      then show ?thesis using cell_svc_Append [of u' "opsSessionID sid" rows1 delta en a] op Inr
        by (auto intro: cells_after_trans)
    next
      case False
      then show ?thesis using assms Inr Some op by (auto simp: appendOpsDelta_def)
    qed
  qed
qed

subsection \<open>Well-formed rows\<close>

lemma rows_ok_map:
  assumes "rows_ok rows" "\<And>r. rwUser (f r) = rwUser r" "\<And>r. rwID (f r) = rwID r"
    "\<And>r. distinct (map fst (rwState r)) \<Longrightarrow> distinct (map fst (rwState (f r)))"
  shows "rows_ok (map f rows)"
  using assms by (auto simp: rows_ok_def comp_def)

lemma rows_ok_snoc:
  "rows_ok rows \<Longrightarrow> find (\<lambda>r. rwUser r = u \<and> rwID r = i) rows = None \<Longrightarrow> u \<noteq> [] \<Longrightarrow> distinct (map fst st) \<Longrightarrow>
     rows_ok (rows @ [\<lparr>rwUser = u, rwID = i, rwUpdated = t, rwEvents = es, rwState = st\<rparr>])"
  by (auto simp: rows_ok_def find_None_iff)

lemma find_row_mem: "find P rows = Some r \<Longrightarrow> r \<in> set rows \<and> P r"
  by (induction rows) (auto split: if_splits)

lemma resolve_user_nonempty: "rows_ok rows \<Longrightarrow> resolve_user en u sid rows = Inr u' \<Longrightarrow> u' \<noteq> []"
  by (auto simp: resolve_user_def findUserID_def rows_ok_def dest!: find_row_mem split: if_splits option.splits)

lemma append_rows_ok:
  assumes "rows_ok rows"
  shows "rows_ok (snd (appendOpsDelta en u sid a delta rows))"
proof (cases "resolve_user en u sid rows")
  case (Inr u')
  have u: "u' \<noteq> []" using resolve_user_nonempty [OF assms Inr] .
  show ?thesis
  proof (cases "open_ops_row en u' sid rows")
    case (Some rows1)
    have "rows_ok rows1" using Some u assms
      by (auto simp: open_ops_row_def svc_Create_def intro!: rows_ok_snoc split: option.splits if_splits)
    then show ?thesis using Inr Some
      by (auto simp: appendOpsDelta_def svc_Append_def distinct_merge_state intro!: rows_ok_map)
  qed (use assms Inr in \<open>simp add: appendOpsDelta_def\<close>)
qed (use assms in \<open>simp add: appendOpsDelta_def\<close>)

lemma runner_rows_ok: "rows_ok rows \<Longrightarrow> u \<noteq> [] \<Longrightarrow> rows_ok (runner_append u sid ev delta rows)"
  by (auto simp: runner_append_def distinct_merge_state intro!: rows_ok_map rows_ok_snoc)

lemma runner_cells:
  assumes "v \<noteq> u \<or> j \<noteq> sid"
  shows "cell (runner_append u sid ev delta rows) v j k = cell rows v j k"
proof (cases "find (\<lambda>r. rwUser r = u \<and> rwID r = sid) rows = None")
  case True
  then show ?thesis using assms by (auto simp: runner_append_def cell_def find_row_append split: option.splits)
next
  case False
  then have "runner_append u sid ev delta rows = map (\<lambda>r. if rwUser r = u \<and> rwID r = sid
      then r\<lparr>rwState := merge_state delta (rwState r), rwUpdated := teTimestamp ev, rwEvents := rwEvents r @ [ev]\<rparr> else r) rows"
    by (simp add: runner_append_def)
  then show ?thesis using assms
    by (simp only:, subst cell_map) (auto simp: cell_def dest!: find_row split: option.splits)
qed

subsection \<open>Reserved ids and tokens\<close>

lemma HasSuffix_append [simp]: "HasSuffix (s @ p) p"
  by (simp add: HasSuffix_def)

lemma reserved_ops [simp]: "IsReservedSessionID (opsSessionID sid)"
  by (simp add: IsReservedSessionID_def opsSessionID_def)

lemma opsSessionID_inj [simp]: "opsSessionID a = opsSessionID b \<longleftrightarrow> a = b"
  by (simp add: opsSessionID_def)

lemma reserved_iff: "IsReservedSessionID i \<longleftrightarrow> (\<exists>sid. i = opsSessionID sid)"
proof
  assume "IsReservedSessionID i"
  then obtain r where "rev i = rev opsSuffix @ r"
    unfolding IsReservedSessionID_def HasSuffix_def HasPrefix_iff by blast
  then have "i = rev r @ opsSuffix" by (metis rev_append rev_rev_ident)
  then show "\<exists>sid. i = opsSessionID sid" unfolding opsSessionID_def by blast
qed auto

lemma primary_ops [simp]: "take (length (opsSessionID sid) - length opsSuffix) (opsSessionID sid) = sid"
  by (simp add: opsSessionID_def)

lemma pause_key_gate [simp]: "is_pause_key pauseGateKey"
  by (simp add: is_pause_key_def)

lemma pause_key_intr [simp]: "is_pause_key (pauseIntrKeyPrefix @ x)"
  by (simp add: is_pause_key_def)

lemma pause_key_is [simp]: "is_pause_key (pause_key r)"
  by (simp add: pause_key_def split: plane.splits)

lemma parse_mem:
  "(k, p) \<in> set (parsePauseRecords sid st) \<longleftrightarrow>
     is_pause_key k \<and> (\<exists>r. (k, Blob r) \<in> set st \<and> p = name_session sid r)"
proof (induction st)
  case (Cons kv st)
  obtain a v where "kv = (a, v)" by (cases kv)
  with Cons show ?case by (cases v) auto
qed simp

lemma name_session_same [simp]: "name_session (prSessionID r) r = r"
  by (simp add: name_session_def)

lemma cell_mem:
  assumes "rows_ok rows"
  shows "cell rows u i k = Some v \<longleftrightarrow> (\<exists>r\<in>set rows. rwUser r = u \<and> rwID r = i \<and> (k, v) \<in> set (rwState r))"
proof
  assume "cell rows u i k = Some v"
  then obtain r where "find (\<lambda>r. rwUser r = u \<and> rwID r = i) rows = Some r" "map_of (rwState r) k = Some v"
    by (auto simp: cell_def split: option.splits)
  then show "\<exists>r\<in>set rows. rwUser r = u \<and> rwID r = i \<and> (k, v) \<in> set (rwState r)"
    using find_row by (fast dest: map_of_SomeD)
next
  assume "\<exists>r\<in>set rows. rwUser r = u \<and> rwID r = i \<and> (k, v) \<in> set (rwState r)"
  then obtain r where r: "r \<in> set rows" "rwUser r = u" "rwID r = i" "(k, v) \<in> set (rwState r)" by blast
  obtain r' where r': "find (\<lambda>r. rwUser r = u \<and> rwID r = i) rows = Some r'"
    using r by (cases "find (\<lambda>r. rwUser r = u \<and> rwID r = i) rows") (auto simp: find_None_iff)
  have "r' = r"
    using find_row [OF r'] r assms unfolding rows_ok_def by (auto simp: distinct_map inj_on_def)
  then show "cell rows u i k = Some v" using r r' assms by (simp add: cell_def rows_ok_def)
qed

lemma all_pauses_mem:
  assumes "rows_ok rows" "\<And>u i k r. rec_at rows u i k r \<Longrightarrow> i = opsSessionID (prSessionID r)"
  shows "p \<in> set (all_pauses rows) \<longleftrightarrow> (\<exists>u i k. rec_at rows u i k p)"
proof
  assume "p \<in> set (all_pauses rows)"
  then obtain rw k where rw: "rw \<in> set rows" "IsReservedSessionID (rwID rw)"
    "(k, p) \<in> set (parsePauseRecords (take (length (rwID rw) - length opsSuffix) (rwID rw)) (rwState rw))"
    by (auto simp: all_pauses_def ops_rows_def)
  obtain sid where sid: "rwID rw = opsSessionID sid" using rw(2) reserved_iff by blast
  obtain r where r: "is_pause_key k" "(k, Blob r) \<in> set (rwState rw)" "p = name_session sid r"
    using rw(3) sid by (auto simp: parse_mem)
  have at: "rec_at rows (rwUser rw) (rwID rw) k r" using r rw by (auto simp: rec_at_def cell_mem [OF assms(1)])
  then have "prSessionID r = sid" using assms(2) [OF at] sid by simp
  then have "p = r" using r(3) by auto
  then show "\<exists>u i k. rec_at rows u i k p" using at by blast
next
  assume "\<exists>u i k. rec_at rows u i k p"
  then obtain u i k where at: "rec_at rows u i k p" by blast
  then obtain rw where rw: "rw \<in> set rows" "rwUser rw = u" "rwID rw = i" "(k, Blob p) \<in> set (rwState rw)" "is_pause_key k"
    "IsReservedSessionID i" by (auto simp: rec_at_def cell_mem [OF assms(1)])
  have i: "i = opsSessionID (prSessionID p)" using assms(2) [OF at] .
  have "(k, p) \<in> set (parsePauseRecords (prSessionID p) (rwState rw))" using rw unfolding parse_mem by (metis name_session_same)
  then show "p \<in> set (all_pauses rows)" using rw i by (force simp: all_pauses_def ops_rows_def)
qed

lemma inv_pauses:
  "store_inv app s \<Longrightarrow> p \<in> set (all_pauses (syRows s)) \<longleftrightarrow> (\<exists>u i k. rec_at (syRows s) u i k p)"
  by (rule all_pauses_mem) (auto simp: store_inv_def rec_ok_def)

lemma FindToken_Inr:
  "FindToken en tok rows = Inr p \<Longrightarrow> p \<in> set (all_pauses rows) \<and> prToken p = tok"
  by (auto simp: FindToken_def all_pauses_def [symmetric] dest!: find_row_mem split: if_splits option.splits)

lemma FindToken_found:
  assumes "store_inv app s" "rec_at (syRows s) u i k r" "enList en" "HasPrefix (prToken r) tokenPrefix"
  shows "FindToken en (prToken r) (syRows s) = Inr r"
proof -
  have "r \<in> set (all_pauses (syRows s))" using inv_pauses assms by blast
  then obtain p where p: "find (\<lambda>p. prToken p = prToken r) (all_pauses (syRows s)) = Some p"
    by (cases "find (\<lambda>p. prToken p = prToken r) (all_pauses (syRows s))") (auto simp: find_None_iff)
  then have "p \<in> set (all_pauses (syRows s))" "prToken p = prToken r" by (auto dest: find_row_mem)
  then obtain u' i' k' where at: "rec_at (syRows s) u' i' k' p" using inv_pauses assms(1) by blast
  then have "u' = u \<and> i' = i \<and> k' = k" using assms(1,2) \<open>prToken p = prToken r\<close> unfolding store_inv_def by blast
  then have "p = r" using at assms(2) by (simp add: rec_at_def)
  moreover have "prToken r \<noteq> []" using assms(4) by (auto simp: HasPrefix_def tokenPrefix_def)
  ultimately show ?thesis using p assms by (simp add: FindToken_def all_pauses_def)
qed

subsection \<open>What a step does to the records\<close>

lemma cells_after_weak:
  "cells_after rows u i delta rows' \<Longrightarrow> cell rows' v j k = Some x \<Longrightarrow> cell rows v j k = Some x \<or> (v = u \<and> j = i \<and> (k, x) \<in> set delta)"
  by (auto simp: cells_after_def split: if_splits option.splits dest!: map_of_SomeD)

lemma map_of_merge_weak:
  "map_of (merge_state delta st) k = Some v \<Longrightarrow> map_of st k = Some v \<or> (k, v) \<in> set delta"
  by (auto simp: map_of_merge_state dest: map_of_SomeD split: option.splits)

lemma append_no_blobs:
  assumes "no_blobs delta" "rec_at (snd (appendOpsDelta en u sid a delta rows)) v j k r"
  shows "rec_at rows v j k r"
proof -
  obtain e rows' where ap: "appendOpsDelta en u sid a delta rows = (e, rows')" by fastforce
  show ?thesis using append_cells [OF ap] assms cells_after_weak
    by (cases "e = None") (fastforce simp: rec_at_def ap no_blobs_def)+
qed

lemma inv_fewer:
  assumes "store_inv app s" "rows_ok rows'" "\<And>u i k r. rec_at rows' u i k r \<Longrightarrow> rec_at (syRows s) u i k r"
  shows "store_inv app \<lparr>syRows = rows', syMinted = syMinted s @ ms, sySpent = sySpent s\<rparr>"
proof -
  have "rec_ok app \<lparr>syRows = rows', syMinted = syMinted s @ ms, sySpent = sySpent s\<rparr> u i k r" if "rec_at rows' u i k r" for u i k r
    using assms(1) assms(3) [OF that] by (auto simp: store_inv_def rec_ok_def)
  moreover have "u = u' \<and> i = i' \<and> k = k'" if "rec_at rows' u i k r" "rec_at rows' u' i' k' r'" "prToken r = prToken r'"
    for u i k r u' i' k' r'
    using assms(1) assms(3) [OF that(1)] assms(3) [OF that(2)] that(3) unfolding store_inv_def by blast
  ultimately show ?thesis using assms(1,2) unfolding store_inv_def by auto
qed

lemma write_recs:
  assumes "writePauseRecord en u sid k r rows = (e, rows')" "is_pause_key k"
  shows "if e = None
         then \<exists>u'. resolve_user en u sid rows = Inr u' \<and>
              (\<forall>v j q x. rec_at rows' v j q x \<longleftrightarrow>
                 (if v = u' \<and> j = opsSessionID sid \<and> q = k then x = r else rec_at rows v j q x))
         else (\<forall>v j q x. rec_at rows' v j q x \<longleftrightarrow> rec_at rows v j q x)"
proof -
  have "appendOpsDelta en u sid ''operator'' [(k, Blob r)] rows = (e, rows')" using assms(1) by (simp add: writePauseRecord_def)
  then show ?thesis using append_cells [of en u sid "''operator''" "[(k, Blob r)]" rows e rows'] assms(2)
    by (cases "e = None") (auto simp: rec_at_def cells_after_def)
qed

lemma write_rows_ok: "rows_ok rows \<Longrightarrow> rows_ok (snd (writePauseRecord en u sid k r rows))"
  by (simp add: writePauseRecord_def append_rows_ok)

text \<open>Writing one record: in place of one with the same token, or with a new token.\<close>

lemma inv_write:
  assumes inv: "store_inv app s" and ok: "rows_ok rows'"
    and recs: "\<And>v j q x. rec_at rows' v j q x \<longleftrightarrow> (if v = u \<and> j = i \<and> q = k then x = r else rec_at (syRows s) v j q x)"
    and fields: "i = opsSessionID (prSessionID r)" "prUser r = u" "k = pause_key r" "prApp r = app"
    and tok: "(\<exists>old. rec_at (syRows s) u i k old \<and> prToken old = prToken r) \<or>
       (prToken r \<notin> set (syMinted s) \<and> prToken r \<in> set ms)"
    and spent: "ss = [] \<and> (prConsumedAt r = 0 \<longrightarrow> prToken r \<notin> set (sySpent s)) \<or>
       ss = [prToken r] \<and> prConsumedAt r \<noteq> 0 \<and> prToken r \<notin> set (sySpent s) \<and> prToken r \<in> set (syMinted s)"
  shows "store_inv app \<lparr>syRows = rows', syMinted = syMinted s @ ms, sySpent = sySpent s @ ss\<rparr>"
proof -
  let ?s = "\<lparr>syRows = rows', syMinted = syMinted s @ ms, sySpent = sySpent s @ ss\<rparr>"
  have I: "\<And>u i k r. rec_at (syRows s) u i k r \<Longrightarrow> rec_ok app s u i k r"
    and U: "\<And>u i k r u' i' k' r'. rec_at (syRows s) u i k r \<Longrightarrow> rec_at (syRows s) u' i' k' r' \<Longrightarrow> prToken r = prToken r' \<Longrightarrow>
        u = u' \<and> i = i' \<and> k = k'"
    using inv unfolding store_inv_def by blast+
  have other: "prToken x \<noteq> prToken r" if x: "rec_at (syRows s) v j q x" "\<not> (v = u \<and> j = i \<and> q = k)" for v j q x
    using tok I [OF x(1)] U [OF x(1)] x(2) by (fastforce simp: rec_ok_def)
  have minted: "prToken r \<in> set (syMinted s @ ms)" using tok I unfolding rec_ok_def by (metis UnCI set_append)
  have "rec_ok app ?s v j q x" if "rec_at rows' v j q x" for v j q x
  proof (cases "v = u \<and> j = i \<and> q = k")
    case True
    then show ?thesis using that recs fields minted spent by (auto simp: rec_ok_def)
  next
    case False
    then have x: "rec_at (syRows s) v j q x" using that recs by auto
    show ?thesis using I [OF x] other [OF x False] spent by (auto simp: rec_ok_def)
  qed
  moreover have "v = v' \<and> j = j' \<and> q = q'"
    if "rec_at rows' v j q x" "rec_at rows' v' j' q' x'" "prToken x = prToken x'" for v j q x v' j' q' x'
    using that recs other U by (smt (verit, best))
  ultimately show ?thesis using inv ok spent unfolding store_inv_def by auto
qed

lemma op_marker_inv:
  assumes "store_inv app s" "no_blobs delta"
  shows "store_inv app \<lparr>syRows = snd (appendOpsDelta en u sid a delta (syRows s)), syMinted = syMinted s, sySpent = sySpent s\<rparr>"
proof -
  have "rows_ok (snd (appendOpsDelta en u sid a delta (syRows s)))"
    using assms(1) by (simp add: append_rows_ok store_inv_def)
  from inv_fewer [where ms = "[]", OF assms(1) this] show ?thesis using append_no_blobs [OF assms(2)] by auto
qed

lemma op_same_inv: "store_inv app s \<Longrightarrow> store_inv app \<lparr>syRows = syRows s, syMinted = syMinted s @ ms, sySpent = sySpent s\<rparr>"
  by (rule inv_fewer) (auto simp: store_inv_def)

lemma store_same: "store_inv app s \<Longrightarrow> store_inv app \<lparr>syRows = syRows s, syMinted = syMinted s, sySpent = sySpent s\<rparr>"
  using op_same_inv [of app s "[]"] by simp

lemma Abort_inv:
  assumes "store_inv app s"
  shows "store_inv app \<lparr>syRows = snd (Abort en u sid why (syRows s)), syMinted = syMinted s, sySpent = sySpent s\<rparr>"
proof -
  have "no_blobs ([(abortReasonKey, Text why), (abortTimeKey, Stamp (enNow en))] @
      map (\<lambda>(k, p). (k, Text [])) (filter (\<lambda>(k, p). Active (Some p)) pauses))" for pauses
    by (auto simp: no_blobs_def)
  then show ?thesis using op_marker_inv [OF assms] store_same [OF assms]
    by (auto simp: Abort_def split: sum.splits option.splits prod.splits)
qed

lemma write_found_inv:
  assumes inv: "store_inv app s" and found: "FindToken en tok (syRows s) = Inr old"
    and r: "prToken r = tok" "prSessionID r = prSessionID old" "prUser r = prUser old" "pause_key r = pause_key old" "prApp r = app"
    and w: "writePauseRecord en (prUser r) (prSessionID r) (pause_key r) r (syRows s) = (e, rows')"
    and spent: "ss = [] \<and> (prConsumedAt r = 0 \<longrightarrow> tok \<notin> set (sySpent s)) \<or>
       ss = [tok] \<and> e = None \<and> prConsumedAt r \<noteq> 0 \<and> tok \<notin> set (sySpent s)"
  shows "store_inv app \<lparr>syRows = rows', syMinted = syMinted s, sySpent = sySpent s @ ss\<rparr>"
proof -
  obtain u i k where at: "rec_at (syRows s) u i k old" and tok: "prToken old = tok"
    using FindToken_Inr [OF found] inv_pauses [OF inv] by blast
  have old: "i = opsSessionID (prSessionID old)" "prUser old = u" "k = pause_key old" "tok \<in> set (syMinted s)"
    using inv at tok unfolding store_inv_def rec_ok_def by blast+
  have ok: "rows_ok (syRows s)" using inv by (simp add: store_inv_def)
  then have "u \<noteq> []" using at by (auto simp: rec_at_def cell_mem rows_ok_def)
  then have ru: "resolve_user en (prUser r) (prSessionID r) (syRows s) = Inr u" using old r by (simp add: resolve_user_def)
  have ok': "rows_ok rows'" using write_rows_ok [OF ok, of en "prUser r" "prSessionID r" "pause_key r" r] w by simp
  note recs = write_recs [OF w pause_key_is]
  show ?thesis
  proof (cases "e = None")
    case False
    then have "ss = []" using spent by auto
    then show ?thesis using inv_fewer [OF inv ok', of "[]"] recs False by simp
  next
    case True
    then have "\<And>v j q x. rec_at rows' v j q x \<longleftrightarrow>
        (if v = u \<and> j = i \<and> q = k then x = r else rec_at (syRows s) v j q x)" using recs ru r old by simp
    from inv_write [OF inv ok' this, of "[]" ss] show ?thesis using old r at tok spent by auto
  qed
qed

lemma rec_at_gate:
  assumes "rows_ok rows" "\<And>v j q x. rec_at rows v j q x \<Longrightarrow> j = opsSessionID (prSessionID x)"
    "map_of (opsPauseRecords en u sid rows) pauseGateKey = Some r"
  shows "rec_at rows u (opsSessionID sid) pauseGateKey r"
proof -
  obtain rw where rw: "svc_Get en u (opsSessionID sid) rows = Some rw" "map_of (parsePauseRecords sid (rwState rw)) pauseGateKey = Some r"
    using assms(3) by (auto simp: opsPauseRecords_def split: option.splits)
  have f: "find (\<lambda>r. rwUser r = u \<and> rwID r = opsSessionID sid) rows = Some rw"
    using rw(1) by (auto simp: svc_Get_def split: if_splits)
  obtain r0 where r0: "(pauseGateKey, Blob r0) \<in> set (rwState rw)" "r = name_session sid r0"
    using map_of_SomeD [OF rw(2)] by (auto simp: parse_mem)
  have at: "rec_at rows u (opsSessionID sid) pauseGateKey r0"
    using find_row [OF f] r0 by (auto simp: rec_at_def cell_mem [OF assms(1)])
  then have "prSessionID r0 = sid" using assms(2) [OF at] by simp
  then show ?thesis using at r0(2) by (metis name_session_same)
qed

lemma inv_gate:
  assumes "store_inv app s" "map_of (opsPauseRecords en u sid (syRows s)) pauseGateKey = Some r"
  shows "rec_at (syRows s) u (opsSessionID sid) pauseGateKey r"
  by (rule rec_at_gate [OF _ _ assms(2)]) (use assms(1) in \<open>auto simp: store_inv_def rec_ok_def\<close>)

lemma PauseGate_cases:
  obtains (refused) e where "PauseGate app en u sid spec rows = (Inl e, rows)"
  | (written) u' r e rows' where "resolve_user en u sid rows = Inr u'"
      "writePauseRecord en u' sid pauseGateKey r rows = (e, rows')"
      "snd (PauseGate app en u sid spec rows) = rows'"
      "fst (PauseGate app en u sid spec rows) =
         (case e of None \<Rightarrow> Inr ((prToken r, prExpiresAt r), \<not> Active (map_of (opsPauseRecords en u' sid rows) pauseGateKey))
          | Some x \<Rightarrow> Inl x)"
      "(\<exists>old. map_of (opsPauseRecords en u' sid rows) pauseGateKey = Some old \<and> prConsumedAt old = 0 \<and>
          r = old\<lparr>prReason := psReason spec, prMessage := psMessage spec, prResumeAt := psResumeAt spec\<rparr>) \<or>
       (\<exists>tok. enToken en = Some tok \<and> r = mint app en tok PlaneGate [] u' sid spec \<and>
          \<not> Active (map_of (opsPauseRecords en u' sid rows) pauseGateKey))"
proof (cases "IsReservedSessionID sid \<or> \<not> validate spec")
  case True
  then have "\<exists>e. PauseGate app en u sid spec rows = (Inl e, rows)" by (auto simp: PauseGate_def)
  then show ?thesis using refused by blast
next
  case g: False
  show ?thesis
  proof (cases "resolve_user en u sid rows")
    case (Inl e)
    then show ?thesis using refused [of e] g by (simp add: PauseGate_def)
  next
    case u': (Inr u')
    show ?thesis
    proof (cases "Get en u' sid rows")
      case (Inl e)
      then show ?thesis using refused [of e] g u' by (simp add: PauseGate_def)
    next
      case d: (Inr d)
      let ?old = "map_of (opsPauseRecords en u' sid rows) pauseGateKey"
      show ?thesis
      proof (cases "deState d = StateAborted \<or> (\<not> Active ?old \<and> enToken en = None)")
        case True
        then have "\<exists>e. PauseGate app en u sid spec rows = (Inl e, rows)" using g u' d by (auto simp: PauseGate_def Let_def)
        then show ?thesis using refused by blast
      next
        case False
        define r where "r = (if Active ?old
            then (the ?old)\<lparr>prReason := psReason spec, prMessage := psMessage spec, prResumeAt := psResumeAt spec\<rparr>
            else mint app en (the (enToken en)) PlaneGate [] u' sid spec)"
        obtain e rows' where w: "writePauseRecord en u' sid pauseGateKey r rows = (e, rows')" by fastforce
        have res: "PauseGate app en u sid spec rows =
            (case e of None \<Rightarrow> Inr ((prToken r, prExpiresAt r), \<not> Active ?old) | Some x \<Rightarrow> Inl x, rows')"
          using g u' d False w by (auto simp: PauseGate_def Let_def r_def split: option.splits)
        show ?thesis
          by (rule written [OF u' w]) (use res False in \<open>auto simp: r_def Active_def split: option.splits\<close>)
      qed
    qed
  qed
qed

lemma PauseGate_inv:
  assumes inv: "store_inv app s" and fresh: "\<And>t. enToken en = Some t \<Longrightarrow> t \<notin> set (syMinted s) \<and> t \<in> set ms"
  shows "store_inv app \<lparr>syRows = snd (PauseGate app en u sid spec (syRows s)), syMinted = syMinted s @ ms, sySpent = sySpent s\<rparr>"
proof (cases app en u sid spec "syRows s" rule: PauseGate_cases)
  case (refused e)
  then show ?thesis using op_same_inv [OF inv] by simp
next
  case (written u' r e rows')
  have ok: "rows_ok (syRows s)" using inv by (simp add: store_inv_def)
  have ok': "rows_ok rows'" using write_rows_ok [OF ok] written(2) by (metis snd_conv)
  have u': "u' \<noteq> []" using resolve_user_nonempty [OF ok written(1)] .
  note recs = write_recs [OF written(2) pause_key_gate]
  have r: "prSessionID r = sid \<and> prUser r = u' \<and> prPlane r = PlaneGate \<and> prApp r = app \<and>
     ((\<exists>old. rec_at (syRows s) u' (opsSessionID sid) pauseGateKey old \<and> prToken old = prToken r) \<or>
       prToken r \<notin> set (syMinted s) \<and> prToken r \<in> set ms) \<and> (prConsumedAt r = 0 \<longrightarrow> prToken r \<notin> set (sySpent s))"
    using written(5)
  proof
    assume "\<exists>old. map_of (opsPauseRecords en u' sid (syRows s)) pauseGateKey = Some old \<and> prConsumedAt old = 0 \<and>
          r = old\<lparr>prReason := psReason spec, prMessage := psMessage spec, prResumeAt := psResumeAt spec\<rparr>"
    then obtain old where old: "map_of (opsPauseRecords en u' sid (syRows s)) pauseGateKey = Some old" "prConsumedAt old = 0"
      "r = old\<lparr>prReason := psReason spec, prMessage := psMessage spec, prResumeAt := psResumeAt spec\<rparr>" by blast
    have at: "rec_at (syRows s) u' (opsSessionID sid) pauseGateKey old" by (rule inv_gate [OF inv old(1)])
    then have k: "rec_ok app s u' (opsSessionID sid) pauseGateKey old" using inv unfolding store_inv_def by blast
    have "prPlane old = PlaneGate" using k
      by (cases "prPlane old") (auto simp: rec_ok_def pause_key_def pauseGateKey_def pauseIntrKeyPrefix_def)
    then show ?thesis using k at old by (auto simp: rec_ok_def)
  next
    assume "\<exists>tok. enToken en = Some tok \<and> r = mint app en tok PlaneGate [] u' sid spec \<and>
      \<not> Active (map_of (opsPauseRecords en u' sid (syRows s)) pauseGateKey)"
    then obtain tok where t: "enToken en = Some tok" "r = mint app en tok PlaneGate [] u' sid spec" by blast
    then show ?thesis using fresh [OF t(1)] inv by (auto simp: mint_def store_inv_def)
  qed
  show ?thesis
  proof (cases "e = None")
    case False
    then show ?thesis using inv_fewer [OF inv ok', of ms] recs written(3) by simp
  next
    case True
    then have "\<And>v j q x. rec_at rows' v j q x \<longleftrightarrow>
        (if v = u' \<and> j = opsSessionID sid \<and> q = pauseGateKey then x = r else rec_at (syRows s) v j q x)"
      using recs u' by (simp add: resolve_user_def)
    from inv_write [OF inv ok' this, of ms "[]"] show ?thesis using r written(3) by (auto simp: pause_key_def)
  qed
qed

lemma PauseInterrupt_inv:
  assumes inv: "store_inv app s" and fresh: "\<And>t. enToken en = Some t \<Longrightarrow> t \<notin> set (syMinted s) \<and> t \<in> set ms" and u: "u \<noteq> []"
  shows "store_inv app \<lparr>syRows = snd (PauseInterrupt app en u sid intr spec (syRows s)), syMinted = syMinted s @ ms, sySpent = sySpent s\<rparr>"
proof (cases "IsReservedSessionID sid \<or> intr = [] \<or> \<not> validate spec \<or> enToken en = None")
  case True
  then show ?thesis using op_same_inv [OF inv] by (auto simp: PauseInterrupt_def split: option.splits)
next
  case False
  then obtain tok where tok: "enToken en = Some tok" by auto
  define r where "r = mint app en tok PlaneInterrupt intr u sid spec"
  obtain e rows' where w: "writePauseRecord en u sid (pauseIntrKeyPrefix @ intr) r (syRows s) = (e, rows')" by fastforce
  have res: "snd (PauseInterrupt app en u sid intr spec (syRows s)) = rows'"
    using False tok w by (auto simp: PauseInterrupt_def r_def Let_def split: option.splits)
  have ok: "rows_ok (syRows s)" using inv by (simp add: store_inv_def)
  have ok': "rows_ok rows'" using write_rows_ok [OF ok] w by (metis snd_conv)
  note recs = write_recs [OF w pause_key_intr]
  show ?thesis
  proof (cases "e = None")
    case False
    then show ?thesis using inv_fewer [OF inv ok', of ms] recs res by simp
  next
    case True
    then have R: "\<And>v j q x. rec_at rows' v j q x \<longleftrightarrow>
        (if v = u \<and> j = opsSessionID sid \<and> q = pauseIntrKeyPrefix @ intr then x = r else rec_at (syRows s) v j q x)"
      using recs u by (simp add: resolve_user_def)
    have "tok \<notin> set (sySpent s)" using fresh [OF tok] inv by (auto simp: store_inv_def)
    then have "store_inv app \<lparr>syRows = rows', syMinted = syMinted s @ ms, sySpent = sySpent s @ []\<rparr>"
      by (intro inv_write [OF inv ok' R]) (use fresh [OF tok] in \<open>simp_all add: r_def mint_def pause_key_def\<close>)
    then show ?thesis by (simp add: res)
  qed
qed

lemma consume_inv:
  assumes inv: "store_inv app s" and now: "enNow en \<noteq> 0"
  shows "store_inv app (store_step app s (OpConsume en tok by_whom enforce))"
proof (cases "consume_decide app en by_whom enforce (FindToken en tok (syRows s))")
  case (Inl e)
  then show ?thesis using store_same [OF inv] by (simp add: store_step_def consumeToken_def write_found_def)
next
  case (Inr r)
  then obtain old where old: "FindToken en tok (syRows s) = Inr old" "prApp old = app" "prConsumedAt old = 0"
    "r = old\<lparr>prConsumedAt := enNow en, prConsumedBy := by_whom\<rparr>"
    by (auto simp: consume_decide_def split: sum.splits if_splits)
  obtain e rows' where w: "writePauseRecord en (prUser r) (prSessionID r) (pause_key r) r (syRows s) = (e, rows')" by fastforce
  have t: "prToken old = tok" "tok \<notin> set (sySpent s)"
    using FindToken_Inr [OF old(1)] inv_pauses [OF inv] old(3) inv unfolding store_inv_def rec_ok_def by blast+
  have "store_inv app \<lparr>syRows = rows', syMinted = syMinted s, sySpent = sySpent s @ (if e = None then [tok] else [])\<rparr>"
    by (rule write_found_inv [OF inv old(1) _ _ _ _ _ w]) (use old t now in \<open>auto simp: pause_key_def split: plane.splits\<close>)
  then show ?thesis using Inr w
    by (cases e) (auto simp: store_step_def consumeToken_def write_found_def)
qed

lemma extend_inv:
  assumes inv: "store_inv app s"
  shows "store_inv app (store_step app s (OpExtend en tok d))"
proof (cases "d \<le> 0")
  case False
  show ?thesis
  proof (cases "extend_decide app en d (FindToken en tok (syRows s))")
    case (Inl e)
    then show ?thesis using False store_same [OF inv] by (simp add: store_step_def ExtendToken_def write_found_def)
  next
    case (Inr r)
    then obtain old where old: "FindToken en tok (syRows s) = Inr old" "prApp old = app" "prConsumedAt old = 0"
      "r = old\<lparr>prExpiresAt := enNow en + d\<rparr>"
      by (auto simp: extend_decide_def split: sum.splits if_splits)
    obtain e rows' where w: "writePauseRecord en (prUser r) (prSessionID r) (pause_key r) r (syRows s) = (e, rows')" by fastforce
    have t: "prToken old = tok" "tok \<notin> set (sySpent s)"
      using FindToken_Inr [OF old(1)] inv_pauses [OF inv] old(3) inv unfolding store_inv_def rec_ok_def by blast+
    have "store_inv app \<lparr>syRows = rows', syMinted = syMinted s, sySpent = sySpent s @ []\<rparr>"
      by (rule write_found_inv [OF inv old(1) _ _ _ _ _ w]) (use old t in \<open>auto simp: pause_key_def split: plane.splits\<close>)
    then show ?thesis using Inr w False
      by (cases e) (auto simp: store_step_def ExtendToken_def write_found_def)
  qed
qed (use store_same [OF inv] in \<open>simp add: store_step_def ExtendToken_def\<close>)

lemma runner_inv:
  assumes inv: "store_inv app s" and u: "u \<noteq> []" "\<not> IsReservedSessionID sid"
  shows "store_inv app (store_step app s (RunnerEvent u sid ev delta))"
proof -
  have "rows_ok (runner_append u sid ev delta (syRows s))" using inv u by (simp add: runner_rows_ok store_inv_def)
  moreover have "rec_at (syRows s) v j k r" if "rec_at (runner_append u sid ev delta (syRows s)) v j k r" for v j k r
  proof -
    have "v \<noteq> u \<or> j \<noteq> sid" using that u(2) by (auto simp: rec_at_def)
    then show ?thesis using that runner_cells [of v u j sid ev delta "syRows s" k] by (simp add: rec_at_def)
  qed
  ultimately show ?thesis using inv_fewer [OF inv, of _ "[]"] by (simp add: store_step_def)
qed

lemma store_step_inv:
  assumes inv: "store_inv app s" and ok: "op_ok op" and fresh: "set (op_mints op) \<inter> set (syMinted s) = {}"
  shows "store_inv app (store_step app s op)"
proof (cases op)
  case (OpPauseGate en u sid spec)
  then show ?thesis using PauseGate_inv [OF inv, of en "op_mints op" u sid spec] fresh
    by (auto simp: store_step_def split: option.splits)
next
  case (OpPauseInterrupt en u sid intr spec)
  then show ?thesis using PauseInterrupt_inv [OF inv, of en "op_mints op" u sid intr spec] fresh ok
    by (auto simp: store_step_def split: option.splits)
next
  case (OpAttempt en u sid)
  have "snd (RecordAutoResumeAttempt en u sid (syRows s)) =
     snd (appendOpsDelta en u sid ''daemon'' [(autoResumeAttemptsKey, Count (wrap64 (fst (AutoResumeAttempts en u sid (syRows s)) + 1))),
       (autoResumeLastKey, Stamp (enNow en))] (syRows s))"
    by (simp add: RecordAutoResumeAttempt_def Let_def split: prod.splits option.splits)
  then show ?thesis using OpAttempt op_marker_inv [OF inv] by (simp add: store_step_def no_blobs_def)
qed (use ok op_marker_inv [OF inv] store_same [OF inv] Abort_inv [OF inv] in
  \<open>auto simp: runner_inv [OF inv] consume_inv [OF inv] extend_inv [OF inv], auto simp: store_step_def MarkInterrupted_def
    ClearInterrupted_def AckEffects_def ClearAutoResumeAttempts_def no_blobs_def\<close>)

lemma store_run_snoc: "store_run app (ops @ [op]) = store_step app (store_run app ops) op"
  by (simp add: store_run_def)

lemma store_run_minted: "syMinted (store_run app ops) = concat (map op_mints ops)"
proof (induction ops rule: rev_induct)
  case Nil
  show ?case by (simp add: store_run_def store_empty_def)
qed (simp add: store_run_snoc store_step_def)

lemma store_run_inv: "ops_ok ops \<Longrightarrow> store_inv app (store_run app ops)"
proof (induction ops rule: rev_induct)
  case Nil
  show ?case by (simp add: store_run_def store_empty_def store_inv_def rows_ok_def rec_at_def cell_def)
next
  case (snoc op ops)
  then have "store_inv app (store_run app ops)" "op_ok op" by (auto simp: ops_ok_def)
  moreover have "set (op_mints op) \<inter> set (syMinted (store_run app ops)) = {}"
    using snoc.prems by (auto simp: ops_ok_def store_run_minted)
  ultimately show ?case by (simp add: store_run_snoc store_step_inv)
qed

subsection \<open>Cells that an operation leaves alone\<close>

lemma append_other:
  assumes "i \<noteq> opsSessionID sid \<or> k \<notin> fst ` set delta"
  shows "cell (snd (appendOpsDelta en u sid a delta rows)) v i k = cell rows v i k"
proof -
  obtain e rows' where ap: "appendOpsDelta en u sid a delta rows = (e, rows')" by fastforce
  have "map_of (rev delta) k = None" if "i = opsSessionID sid" using assms that by (simp add: map_of_eq_None_iff)
  then show ?thesis using append_cells [OF ap] assms by (cases "e = None") (auto simp: ap cells_after_def)
qed

lemma write_other:
  "i \<noteq> opsSessionID sid \<or> k \<noteq> q \<Longrightarrow> cell (snd (writePauseRecord en u sid q r rows)) v i k = cell rows v i k"
  unfolding writePauseRecord_def by (rule append_other) auto



lemma PauseGate_other:
  "i \<noteq> opsSessionID sid \<or> k \<noteq> pauseGateKey \<Longrightarrow> cell (snd (PauseGate app en u sid spec rows)) v i k = cell rows v i k"
proof (cases app en u sid spec rows rule: PauseGate_cases)
  case (written u' r e rows')
  assume "i \<noteq> opsSessionID sid \<or> k \<noteq> pauseGateKey"
  then show ?thesis using write_other [of i sid k pauseGateKey en u' r rows v] written by simp
qed simp

lemma PauseInterrupt_other:
  "i \<noteq> opsSessionID sid \<or> k \<noteq> pauseIntrKeyPrefix @ intr \<Longrightarrow>
     cell (snd (PauseInterrupt app en u sid intr spec rows)) v i k = cell rows v i k"
  using write_other [of i sid k "pauseIntrKeyPrefix @ intr" en u _ rows v]
  by (auto simp: PauseInterrupt_def Let_def split: option.splits prod.splits) (metis snd_conv)+

lemma RecordAutoResumeAttempt_rows:
  "snd (RecordAutoResumeAttempt en u sid rows) =
     snd (appendOpsDelta en u sid ''daemon'' [(autoResumeAttemptsKey, Count (wrap64 (fst (AutoResumeAttempts en u sid rows) + 1))),
       (autoResumeLastKey, Stamp (enNow en))] rows)"
  by (simp add: RecordAutoResumeAttempt_def Let_def split: prod.splits option.splits)

lemmas marker_keys = abortReasonKey_def abortTimeKey_def interruptReasonKey_def interruptTimeKey_def effectsAckTimeKey_def
  effectsAckReasonKey_def autoResumeAttemptsKey_def autoResumeLastKey_def pauseGateKey_def pauseIntrKeyPrefix_def

lemma runner_reserved:
  "\<not> IsReservedSessionID sid \<Longrightarrow> cell (runner_append u sid ev delta rows) v (opsSessionID x) k = cell rows v (opsSessionID x) k"
  by (rule runner_cells) auto


subsection \<open>The abort marker\<close>






lemma svc_Get_cell: "enGet en i \<Longrightarrow> cell rows u i k = Some x \<Longrightarrow> \<exists>r. svc_Get en u i rows = Some r \<and> map_of (rwState r) k = Some x"
  by (auto simp: cell_def svc_Get_def split: option.splits)





subsection \<open>A gate that stays\<close>

lemma gated_cong:
  "cell rows' v (opsSessionID sid) pauseGateKey = cell rows v (opsSessionID sid) pauseGateKey \<Longrightarrow> gated v sid tok rows' = gated v sid tok rows"
  by (simp add: gated_def rec_at_def)

lemma inv_rec: "store_inv app s \<Longrightarrow> rec_at (syRows s) u i k r \<Longrightarrow> rec_ok app s u i k r"
  unfolding store_inv_def by blast

lemma gate_read:
  assumes "store_inv app s" "rec_at (syRows s) v (opsSessionID sid) pauseGateKey r" "enGet en (opsSessionID sid)"
  shows "map_of (opsPauseRecords en v sid (syRows s)) pauseGateKey = Some r"
proof -
  obtain rw where rw: "svc_Get en v (opsSessionID sid) (syRows s) = Some rw" "map_of (rwState rw) pauseGateKey = Some (Blob r)"
    using assms(2) svc_Get_cell [OF assms(3)] unfolding rec_at_def by blast
  have "prSessionID r = sid" using inv_rec [OF assms(1,2)] by (simp add: rec_ok_def)
  then have n: "name_session sid r = r" by (simp add: name_session_def)
  have "map_of (parsePauseRecords sid st) pauseGateKey = Some r" if "map_of st pauseGateKey = Some (Blob r)" "distinct (map fst st)" for st
    using that
  proof (induction st)
    case (Cons kv st)
    obtain k x where kv: "kv = (k, x)" by (cases kv)
    show ?case using Cons n by (cases x) (auto simp: kv split: if_splits)
  qed simp
  moreover have "distinct (map fst (rwState rw))"
    using assms(1) rw(1) by (auto simp: store_inv_def rows_ok_def svc_Get_def dest!: find_row split: if_splits)
  ultimately show ?thesis using rw by (simp add: opsPauseRecords_def)
qed

lemma gated_GatePause:
  assumes "store_inv app s" "gated v sid tok (syRows s)" "enGet en (opsSessionID sid)" "\<not> IsReservedSessionID sid" "v \<noteq> []"
  shows "\<exists>r. GatePause en v sid (syRows s) = Some r \<and> prToken r = tok"
proof -
  obtain r where r: "rec_at (syRows s) v (opsSessionID sid) pauseGateKey r" "prToken r = tok" "prConsumedAt r = 0"
    using assms(2) by (auto simp: gated_def)
  then show ?thesis using gate_read [OF assms(1) r(1) assms(3)] assms(4,5)
    by (simp add: GatePause_def resolve_user_def Active_def)
qed

lemma rec_at_user: "rows_ok rows \<Longrightarrow> rec_at rows u i k r \<Longrightarrow> u \<noteq> []"
  unfolding rec_at_def by (auto simp: cell_mem) (auto simp: rows_ok_def)

lemma write_found_gated:
  assumes inv: "store_inv app s" and g: "gated v sid tok (syRows s)" and found: "FindToken en t (syRows s) = Inr old"
    and dec: "decided = Inr r" "prToken r = t" "prSessionID r = prSessionID old" "prUser r = prUser old" "pause_key r = pause_key old"
    and keep: "t = tok \<longrightarrow> prConsumedAt r = 0 \<or> (\<exists>e. fst (write_found en decided (syRows s)) = Inl e)"
  shows "gated v sid tok (snd (write_found en decided (syRows s)))"
proof -
  obtain e rows' where w: "writePauseRecord en (prUser r) (prSessionID r) (pause_key r) r (syRows s) = (e, rows')" by fastforce
  have rows': "snd (write_found en decided (syRows s)) = rows'" and res: "e = None \<longleftrightarrow> fst (write_found en decided (syRows s)) = Inr r"
    using w by (auto simp: write_found_def dec(1) split: option.splits)
  obtain u i k where at: "rec_at (syRows s) u i k old" and tok: "prToken old = t"
    using FindToken_Inr [OF found] inv_pauses [OF inv] by blast
  have old: "i = opsSessionID (prSessionID old)" "prUser old = u" "k = pause_key old"
    using inv at unfolding store_inv_def rec_ok_def by blast+
  have "u \<noteq> []" using rec_at_user [OF _ at] inv by (simp add: store_inv_def)
  then have ru: "resolve_user en (prUser r) (prSessionID r) (syRows s) = Inr u" using old dec by (simp add: resolve_user_def)
  obtain g0 where g0: "rec_at (syRows s) v (opsSessionID sid) pauseGateKey g0" "prToken g0 = tok" "prConsumedAt g0 = 0"
    using g by (auto simp: gated_def)
  show ?thesis
  proof (cases "e = None")
    case False
    then show ?thesis using write_recs [OF w pause_key_is] g by (simp add: rows' gated_def)
  next
    case True
    then have recs: "\<And>a b c x. rec_at rows' a b c x \<longleftrightarrow> (if a = u \<and> b = i \<and> c = k then x = r else rec_at (syRows s) a b c x)"
      using write_recs [OF w pause_key_is] ru old dec by simp
    show ?thesis
    proof (cases "v = u \<and> opsSessionID sid = i \<and> pauseGateKey = k")
      case same: True
      then have "g0 = old" using g0(1) at by (simp add: rec_at_def)
      then have "t = tok" using g0(2) tok by simp
      then have "prConsumedAt r = 0" using keep True res by auto
      then show ?thesis unfolding rows' gated_def recs using same dec(2) \<open>t = tok\<close> by auto
    next
      case False
      then show ?thesis unfolding rows' gated_def recs using g0 by auto
    qed
  qed
qed

lemma gate_key_no_marker [simp]:
  "pauseGateKey \<noteq> abortReasonKey" "pauseGateKey \<noteq> pauseIntrKeyPrefix @ x"
  by (simp_all add: marker_keys)

lemma PauseGate_keeps_gate:
  assumes inv: "store_inv app s" and g: "gated v sid tok (syRows s)" and en: "enGet en (opsSessionID sid)"
  shows "gated v sid tok (snd (PauseGate app en u sid spec (syRows s)))"
proof (cases app en u sid spec "syRows s" rule: PauseGate_cases)
  case (refused e)
  then show ?thesis using g by simp
next
  case (written u' r e rows')
  obtain g0 where g0: "rec_at (syRows s) v (opsSessionID sid) pauseGateKey g0" "prToken g0 = tok" "prConsumedAt g0 = 0"
    using g by (auto simp: gated_def)
  have u': "resolve_user en u' sid (syRows s) = Inr u'"
    using written(1) by (auto simp: resolve_user_def split: if_splits)
  note recs = write_recs [OF written(2) pause_key_gate]
  show ?thesis
  proof (cases "e = None")
    case False
    then show ?thesis using recs g written(3) by (simp add: gated_def)
  next
    case True
    then have R: "\<And>a b c x. rec_at rows' a b c x \<longleftrightarrow>
        (if a = u' \<and> b = opsSessionID sid \<and> c = pauseGateKey then x = r else rec_at (syRows s) a b c x)"
      using recs u' by simp
    show ?thesis
    proof (cases "u' = v")
      case same: True
      have old: "map_of (opsPauseRecords en u' sid (syRows s)) pauseGateKey = Some g0"
        using gate_read [OF inv g0(1) en] same by simp
      have "r = g0\<lparr>prReason := psReason spec, prMessage := psMessage spec, prResumeAt := psResumeAt spec\<rparr>"
        using written(5) old g0(3) by (auto simp: Active_def)
      then show ?thesis unfolding written(3) gated_def R using same g0 by auto
    next
      case False
      then show ?thesis unfolding written(3) gated_def R using g0 by auto
    qed
  qed
qed

lemma gated_step:
  assumes inv: "store_inv app s" and g: "gated v sid tok (syRows s)" and ok: "op_ok op" "spares_gate sid op"
    and spent: "tok \<notin> set (op_spends app op (syRows s))"
  shows "gated v sid tok (op_rows app op (syRows s))"
proof (cases op)
  case (OpPauseGate en u sid' spec)
  then show ?thesis using PauseGate_keeps_gate [OF inv g] PauseGate_other [of "opsSessionID sid" sid' pauseGateKey] g ok(2)
    by (cases "sid' = sid") (simp_all add: gated_def rec_at_def)
next
  case (OpPauseInterrupt en u sid' intr spec)
  then show ?thesis using g by (simp add: PauseInterrupt_other gated_def rec_at_def)
next
  case (OpAbort en u sid' why)
  have "cell (snd (Abort en u sid' why (syRows s))) v (opsSessionID sid) pauseGateKey = cell (syRows s) v (opsSessionID sid) pauseGateKey"
    using OpAbort ok(2) append_other by (auto simp: Abort_def split: sum.splits option.splits prod.splits)
  then show ?thesis using OpAbort g by (simp add: gated_def rec_at_def)
next
  case (OpConsume en t by_whom enforce)
  show ?thesis
  proof (cases "consume_decide app en by_whom enforce (FindToken en t (syRows s))")
    case (Inl e)
    then show ?thesis using OpConsume g by (simp add: consumeToken_def write_found_def)
  next
    case (Inr r)
    then obtain old where old: "FindToken en t (syRows s) = Inr old" "r = old\<lparr>prConsumedAt := enNow en, prConsumedBy := by_whom\<rparr>"
      by (auto simp: consume_decide_def split: sum.splits if_splits)
    have "t = tok \<longrightarrow> (\<exists>e. fst (consumeToken app en t by_whom enforce (syRows s)) = Inl e)"
      using spent OpConsume by (cases "fst (consumeToken app en t by_whom enforce (syRows s))") auto
    then show ?thesis unfolding OpConsume op_rows.simps consumeToken_def
      by (intro write_found_gated [OF inv g old(1) Inr]) (use old FindToken_Inr [OF old(1)] in
        \<open>auto simp: pause_key_def consumeToken_def split: plane.splits\<close>)
  qed
next
  case (OpExtend en t d)
  show ?thesis
  proof (cases "extend_decide app en d (FindToken en t (syRows s))")
    case (Inl e)
    then show ?thesis using OpExtend g by (simp add: ExtendToken_def write_found_def)
  next
    case (Inr r)
    then obtain old where old: "FindToken en t (syRows s) = Inr old" "prConsumedAt old = 0" "r = old\<lparr>prExpiresAt := enNow en + d\<rparr>"
      by (auto simp: extend_decide_def split: sum.splits if_splits)
    have "gated v sid tok (snd (write_found en (extend_decide app en d (FindToken en t (syRows s))) (syRows s)))"
      by (intro write_found_gated [OF inv g old(1) Inr]) (use old FindToken_Inr [OF old(1)] in
        \<open>auto simp: pause_key_def split: plane.splits\<close>)
    then show ?thesis using OpExtend g by (simp add: ExtendToken_def)
  qed
qed (use ok g in \<open>simp_all add: gated_def rec_at_def runner_reserved MarkInterrupted_def ClearInterrupted_def AckEffects_def
    ClearAutoResumeAttempts_def RecordAutoResumeAttempt_rows append_other, simp_all add: append_other marker_keys\<close>)

lemma ops_ok_append: "ops_ok (xs @ ys) \<Longrightarrow> ops_ok xs"
  by (simp add: ops_ok_def)

lemma spent_grows: "set (sySpent (store_run app xs)) \<subseteq> set (sySpent (store_run app (xs @ ys)))"
proof (induction ys rule: rev_induct)
  case (snoc y ys)
  have "store_run app (xs @ ys @ [y]) = store_step app (store_run app (xs @ ys)) y"
    using store_run_snoc [of app "xs @ ys" y] by simp
  then show ?case using snoc by (auto simp: store_step_def)
qed simp

lemma gated_run:
  assumes "gated v sid tok (syRows (store_run app xs))" "ops_ok (xs @ ys)" "list_all (spares_gate sid) ys"
    "tok \<notin> set (sySpent (store_run app (xs @ ys)))"
  shows "gated v sid tok (syRows (store_run app (xs @ ys)))"
  using assms
proof (induction ys rule: rev_induct)
  case (snoc y ys)
  have step: "store_run app (xs @ ys @ [y]) = store_step app (store_run app (xs @ ys)) y"
    using store_run_snoc [of app "xs @ ys" y] by simp
  have "ops_ok (xs @ ys)" using snoc.prems(2) ops_ok_append [of "xs @ ys" "[y]"] by simp
  moreover have "tok \<notin> set (sySpent (store_run app (xs @ ys)))" "tok \<notin> set (op_spends app y (syRows (store_run app (xs @ ys))))"
    using snoc.prems(4) by (auto simp: step store_step_def)
  ultimately show ?case using snoc gated_step [OF store_run_inv, of "xs @ ys" v sid tok app y]
    by (simp add: step store_step_def ops_ok_def)
qed simp

lemma PauseGate_gates:
  assumes inv: "store_inv app s" and res: "fst (PauseGate app en u sid spec (syRows s)) = Inr ((tok, x), b)"
  shows "\<exists>v. v \<noteq> [] \<and> resolve_user en u sid (syRows s) = Inr v \<and> \<not> IsReservedSessionID sid \<and>
     gated v sid tok (snd (PauseGate app en u sid spec (syRows s)))"
proof (cases app en u sid spec "syRows s" rule: PauseGate_cases)
  case (refused e)
  then show ?thesis using res by simp
next
  case (written u' r e rows')
  have "\<not> IsReservedSessionID sid" using res by (auto simp: PauseGate_def)
  moreover have u': "u' \<noteq> []" using resolve_user_nonempty [OF _ written(1)] inv by (simp add: store_inv_def)
  moreover have "prConsumedAt r = 0" using written(5) by (auto simp: mint_def)
  moreover have "e = None \<and> prToken r = tok"
    using res written(4) by (auto split: option.splits)
  ultimately show ?thesis using write_recs [OF written(2) pause_key_gate] written(1,3)
    by (auto simp: gated_def resolve_user_def)
qed

subsection \<open>What is pending\<close>

lemma by_requested:
  "(map_of (pnBy (pend_requested ev p)) iid \<noteq> None) = (map_of (pnBy p) iid \<noteq> None \<or> iid \<noteq> [] \<and> map_option riInterruptID (teRequested ev) = Some iid)"
  by (auto simp: pend_requested_def split: option.splits)

lemma by_long: "(map_of (pnBy (pend_long ev p x)) iid \<noteq> None) = (map_of (pnBy p) iid \<noteq> None \<or> iid \<noteq> [] \<and> x = iid)"
  by (auto simp: pend_long_def)

lemma by_longs: "(map_of (pnBy (foldl (pend_long ev) p xs)) iid \<noteq> None) = (map_of (pnBy p) iid \<noteq> None \<or> iid \<noteq> [] \<and> iid \<in> set xs)"
proof (induction xs arbitrary: p)
  case (Cons x xs)
  show ?case unfolding foldl_Cons Cons.IH by_long by auto
qed simp

lemma by_resolve: "(map_of (pnBy (foldl pend_resolve p pts)) iid \<noteq> None) =
    (map_of (pnBy p) iid \<noteq> None \<and> \<not> list_ex (\<lambda>pt. Option.bind pt tpResponse = Some iid) pts)"
  by (induction pts arbitrary: p) (auto simp: pend_resolve_def split: option.splits)

lemma by_event: "(map_of (pnBy (pend_event p ev)) iid \<noteq> None) = ((map_of (pnBy p) iid \<noteq> None \<or> raises ev iid) \<and> \<not> answers ev iid)"
proof (cases "teParts ev")
  case None
  then show ?thesis unfolding pend_event_def Let_def by (simp add: by_longs by_requested raises_def answers_def del: not_None_eq) blast
next
  case (Some ps)
  then show ?thesis unfolding pend_event_def Let_def
    by (simp add: by_resolve by_longs by_requested raises_def answers_def del: not_None_eq) blast
qed

lemma park_part_id [simp]: "piInterruptID (park_part iid p pt) = piInterruptID p"
  by (auto simp: park_part_def Let_def split: option.splits)

lemma park_parts_id [simp]: "piInterruptID (foldl (park_part iid) p pts) = piInterruptID p"
  by (induction pts arbitrary: p) auto

lemma scan_ok_update:
  "scan_ok p \<Longrightarrow> piInterruptID x = i \<Longrightarrow> i \<in> set ord \<Longrightarrow> set (pnOrder p) \<subseteq> set ord \<Longrightarrow>
     scan_ok (p\<lparr>pnOrder := ord, pnBy := AList.update i x (pnBy p)\<rparr>)"
  by (auto simp: scan_ok_def)

lemma scan_ok_requested: "scan_ok p \<Longrightarrow> scan_ok (pend_requested ev p)"
  unfolding pend_requested_def
  by (auto split: option.splits intro!: scan_ok_update) (auto simp: scan_ok_def)

lemma scan_ok_long: "scan_ok p \<Longrightarrow> scan_ok (pend_long ev p x)"
  unfolding pend_long_def by (auto intro!: scan_ok_update)

lemma scan_ok_resolve: "scan_ok p \<Longrightarrow> scan_ok (pend_resolve p pt)"
  by (auto simp: scan_ok_def pend_resolve_def split: option.splits)

lemma scan_ok_event:
  assumes "scan_ok p"
  shows "scan_ok (pend_event p ev)"
proof -
  have l: "scan_ok q \<Longrightarrow> scan_ok (foldl (pend_long ev) q xs)" for q xs by (induction xs arbitrary: q) (simp_all add: scan_ok_long)
  have r: "scan_ok q \<Longrightarrow> scan_ok (foldl pend_resolve q pts)" for q pts by (induction pts arbitrary: q) (simp_all add: scan_ok_resolve)
  show ?thesis using l [OF scan_ok_requested [OF assms]] r by (simp add: pend_event_def Let_def split: option.splits)
qed

lemma scan_ok_events: "scan_ok p \<Longrightarrow> scan_ok (foldl pend_event p evs)"
  by (induction evs arbitrary: p) (auto simp: scan_ok_event)

lemma collect_ids:
  assumes "\<And>iid x. map_of m iid = Some x \<Longrightarrow> piInterruptID x = iid"
  shows "distinct (map piInterruptID (pend_collect ids m)) \<and>
     piInterruptID ` set (pend_collect ids m) = {iid \<in> set ids. map_of m iid \<noteq> None}"
  using assms
proof (induction ids arbitrary: m)
  case (Cons a ids)
  show ?case
  proof (cases "map_of m a")
    case None
    then show ?thesis using Cons by auto
  next
    case (Some x)
    have "distinct (map piInterruptID (pend_collect ids (AList.delete a m))) \<and>
        piInterruptID ` set (pend_collect ids (AList.delete a m)) = {iid \<in> set ids. map_of (AList.delete a m) iid \<noteq> None}"
      by (rule Cons.IH) (use Cons.prems in \<open>auto split: if_splits\<close>)
    then show ?thesis using Some Cons.prems [OF Some] by auto
  qed
qed simp

lemma scanPending_ids:
  "distinct (map piInterruptID (scanPending evs)) \<and>
   (iid \<in> piInterruptID ` set (scanPending evs) \<longleftrightarrow>
      map_of (pnBy (foldl pend_event \<lparr>pnOrder = [], pnBy = []\<rparr> evs)) iid \<noteq> None)"
proof -
  have ok: "scan_ok (foldl pend_event \<lparr>pnOrder = [], pnBy = []\<rparr> evs)" by (rule scan_ok_events) (simp add: scan_ok_def)
  show ?thesis using collect_ids [of "pnBy (foldl pend_event \<lparr>pnOrder = [], pnBy = []\<rparr> evs)"] ok
    by (auto simp: scanPending_def Let_def scan_ok_def)
qed

lemma scan_latch:
  "map_of (pnBy (foldl pend_event \<lparr>pnOrder = [], pnBy = []\<rparr> evs)) iid \<noteq> None \<longleftrightarrow>
     (\<exists>xs ev ys. evs = xs @ ev # ys \<and> (raises ev iid \<and> \<not> answers ev iid) \<and> (\<forall>y\<in>set ys. \<not> answers y iid))"
  by (rule foldl_latch [where P = "\<lambda>p. map_of (pnBy p) iid \<noteq> None"]) (simp_all only: by_event, auto)

subsection \<open>Properties\<close>

text \<open>C21: as long as the operations on the store do not overlap, a resume token is spent at most once: whatever
  pauses, resumes, extensions, aborts and markers come in what order, with whatever failures.\<close>

theorem token_spent_once:
  assumes "ops_ok ops"
  shows "distinct (sySpent (store_run app ops))"
  using store_run_inv [OF assms, of app] by (simp add: store_inv_def)

theorem token_spent_once_witness:
  "distinct (sySpent (store_run ''app'' (demo_paused @ [OpConsume (demo_env 6 None) ''mrt_a'' ''alice'' True,
     OpExtend (demo_env 7 None) ''mrt_a'' 100, OpConsume (demo_env 8 None) ''mrt_a'' ''bob'' False]))) \<and>
   sySpent (store_run ''app'' (demo_paused @ [OpConsume (demo_env 6 None) ''mrt_a'' ''alice'' True,
     OpExtend (demo_env 7 None) ''mrt_a'' 100, OpConsume (demo_env 8 None) ''mrt_a'' ''bob'' False])) = [''mrt_a'']"
proof (intro conjI)
  show "distinct (sySpent (store_run ''app'' (demo_paused @ [OpConsume (demo_env 6 None) ''mrt_a'' ''alice'' True,
     OpExtend (demo_env 7 None) ''mrt_a'' 100, OpConsume (demo_env 8 None) ''mrt_a'' ''bob'' False])))"
    by (rule token_spent_once) code_simp
qed code_simp

text \<open>A gate pause stays until it is resumed: once \<^verbatim>\<open>PauseGate\<close> has answered with a token, the session is refused
  with that token's record after any operations, unless one of them spent the token, aborted the session, or
  paused it anew without being able to read the record.\<close>

theorem gate_stays:
  assumes "ops_ok (ops @ OpPauseGate en u sid spec # rest)"
    and "fst (PauseGate app en u sid spec (syRows (store_run app ops))) = Inr ((tok, expiry), created)"
    and "list_all (spares_gate sid) rest"
    and "tok \<notin> set (sySpent (store_run app (ops @ OpPauseGate en u sid spec # rest)))"
    and "enGet en' (opsSessionID sid)"
  shows "\<exists>v r. resolve_user en u sid (syRows (store_run app ops)) = Inr v \<and>
     GatePause en' v sid (syRows (store_run app (ops @ OpPauseGate en u sid spec # rest))) = Some r \<and> prToken r = tok"
proof -
  let ?xs = "ops @ [OpPauseGate en u sid spec]"
  have ok: "ops_ok ops" "ops_ok (?xs @ rest)" using assms(1) by (simp_all add: ops_ok_def)
  obtain v where v: "v \<noteq> []" "resolve_user en u sid (syRows (store_run app ops)) = Inr v" "\<not> IsReservedSessionID sid"
    "gated v sid tok (snd (PauseGate app en u sid spec (syRows (store_run app ops))))"
    using PauseGate_gates [OF store_run_inv [OF ok(1)] assms(2)] by blast
  have "gated v sid tok (syRows (store_run app ?xs))" using v(4) by (simp add: store_run_snoc store_step_def)
  then have g: "gated v sid tok (syRows (store_run app (?xs @ rest)))"
    using gated_run [of v sid tok app ?xs rest] ok(2) assms(3,4) by simp
  show ?thesis using gated_GatePause [OF store_run_inv [OF ok(2)] g assms(5) v(3,1)] v(2) by auto
qed

theorem gate_stays_witness:
  "\<exists>v r. resolve_user (demo_env 5 (Some ''mrt_a'')) [] ''s'' (syRows (store_run ''app'' [RunnerEvent ''u'' ''s'' demo_event []])) = Inr v \<and>
     GatePause (demo_env 9 None) v ''s'' (syRows (store_run ''app'' ([RunnerEvent ''u'' ''s'' demo_event []] @
       OpPauseGate (demo_env 5 (Some ''mrt_a'')) [] ''s'' demo_spec #
       [OpPauseGate (demo_env 6 (Some ''mrt_b'')) [] ''s'' demo_spec, OpExtend (demo_env 7 None) ''mrt_a'' 100]))) = Some r \<and>
     prToken r = ''mrt_a''"
  by (rule gate_stays [where created = True and expiry = "5 + DefaultTokenTTL"]) (code_simp, code_simp, code_simp, code_simp, simp add: demo_env_def)



text \<open>The pending interrupts are exactly those that an event raised, as a request for input or a long-running
  call, and neither that event nor a later one answered; each once.\<close>

theorem pending_exact:
  "distinct (map piInterruptID (scanPending events)) \<and>
   (iid \<in> piInterruptID ` set (scanPending events) \<longleftrightarrow>
      (\<exists>before ev after. events = before @ ev # after \<and> raises ev iid \<and> list_all (\<lambda>e. \<not> answers e iid) (ev # after)))"
  using scanPending_ids [of events iid] scan_latch [of events iid] by (simp add: list_all_iff conj_assoc)

text \<open>An abort without a reason is answered with success and takes the resume token of a paused session away, but
  the session is not aborted: the marker's cleared state is the empty string.\<close>

theorem abort_without_reason:
  "fst (Abort (demo_env 9 None) [] ''s'' [] demo_rows) = None \<and>
   map_sum id deState (Get (demo_env 9 None) [] ''s'' (snd (Abort (demo_env 9 None) [] ''s'' [] demo_rows))) = Inr StateIdle \<and>
   FindToken (demo_env 9 None) ''mrt_a'' (snd (Abort (demo_env 9 None) [] ''s'' [] demo_rows)) = Inl ErrTokenNotFound"
  by code_simp

text \<open>Two resumes that read the record before either wrote it both succeed, each with its own name on the record;
  an extension that overlaps a resume in this way makes the pause active again.\<close>

theorem resumes_overlap:
  "map_sum id prConsumedBy (fst two_resumes) = Inr ''alice'' \<and> map_sum id prConsumedBy (snd two_resumes) = Inr ''bob'' \<and>
   map_sum id prConsumedBy (fst resume_and_extend) = Inr ''alice'' \<and>
   GatePause (demo_env 9 None) [] ''s'' (snd (snd resume_and_extend)) \<noteq> None"
  by code_simp

end
