(* ===== verification/Pause_Timer.thy ===== *)
theory Pause_Timer
  imports Pause_Tokens
begin

text \<open>
  Timed pauses and resuming by token: the scheduler of \<^verbatim>\<open>src/internal/cli/pausesched.go\<close>, what it calls when a
  timer is due and what an operator's resume does, \<^verbatim>\<open>src/internal/cli/handlers.go\<close>, and the end of an answered
  interrupt, \<^verbatim>\<open>src/internal/cli/turn.go\<close>. The resume turn of an interrupt pause is an argument: it may append to
  the store and fail.
\<close>

section \<open>The scheduler's entries\<close>

type_synonym timers = "(string, gotime) gomap"

definition push :: "string \<Rightarrow> gotime \<Rightarrow> timers \<Rightarrow> timers" where
  "push tok t es = (if tok = [] \<or> t = 0 then es else AList.update tok t es)"

text \<open>The number of records armed, or an error.\<close>

definition sched_scan :: "store_env \<Rightarrow> row list \<Rightarrow> timers \<Rightarrow> (store_error + nat) \<times> timers" where
  "sched_scan en rows es =
     (case ScanPauses en rows of
        Inl e \<Rightarrow> (Inl e, es)
      | Inr recs \<Rightarrow>
          (let timed = filter (\<lambda>r. prResumeAt r \<noteq> 0) recs
           in (Inr (length timed), foldl (\<lambda>es r. push (prToken r) (prResumeAt r) es) es timed)))"

definition earliest :: "timers \<Rightarrow> (string \<times> gotime) option" where
  "earliest es =
     foldl (\<lambda>best (tok, t). case best of None \<Rightarrow> Some (tok, t) | Some (b, bt) \<Rightarrow> if t < bt then Some (tok, t) else best) None es"

definition schedRequeueDelay :: duration where "schedRequeueDelay = 60 * 1000000000"

section \<open>Ending a pause\<close>

definition consumeIfAnswered :: "string \<Rightarrow> store_env \<Rightarrow> pause_record \<Rightarrow> string \<Rightarrow> row list \<Rightarrow> row list" where
  "consumeIfAnswered app en r by_whom rows =
     (case Get en [] (prSessionID r) rows of
        Inl e \<Rightarrow> rows
      | Inr d \<Rightarrow>
          if prInterruptID r \<in> set (PendingInterruptIDs d) then rows
          else snd (ConsumeScheduled app en (prToken r) by_whom rows))"

text \<open>A resume turn: whether it failed, and the store after it.\<close>

type_synonym resume_turn = "pause_record \<Rightarrow> row list \<Rightarrow> bool \<times> row list"

datatype fire_outcome = TimedPauseSkipped | TimedPauseError | TimedPauseResumed

text \<open>What firing did, whether it is to be tried again, and the store after it.\<close>

definition timed_fire ::
  "string \<Rightarrow> store_env \<Rightarrow> bool \<Rightarrow> resume_turn \<Rightarrow> pause_record \<Rightarrow> row list \<Rightarrow> (fire_outcome \<times> bool) \<times> row list" where
  "timed_fire app en draining resume r rows =
     (if draining then ((TimedPauseSkipped, True), rows)
      else case prPlane r of
             PlaneGate \<Rightarrow>
               (case ConsumeScheduled app en (prToken r) ''timer'' rows of
                  (Inl ErrAlreadyResumed, rows') \<Rightarrow> ((TimedPauseSkipped, False), rows')
                | (Inl e, rows') \<Rightarrow> ((TimedPauseError, True), rows')
                | (Inr _, rows') \<Rightarrow> ((TimedPauseResumed, False), rows'))
           | PlaneInterrupt \<Rightarrow>
               (let (failed, rows1) = resume r rows;
                    rows2 = consumeIfAnswered app en r ''timer'' rows1
                in ((if failed then TimedPauseError else TimedPauseResumed, failed), rows2)))"

definition fireDue ::
  "string \<Rightarrow> store_env \<Rightarrow> bool \<Rightarrow> resume_turn \<Rightarrow> string \<Rightarrow> timers \<Rightarrow> row list \<Rightarrow> timers \<times> row list" where
  "fireDue app en draining resume tok es rows =
     (let es1 = AList.delete tok es
      in case FindToken en tok rows of
           Inl ErrTokenNotFound \<Rightarrow> (es1, rows)
         | Inl e \<Rightarrow> (push tok (enNow en + schedRequeueDelay) es1, rows)
         | Inr r \<Rightarrow>
             if \<not> Active (Some r) then (es1, rows)
             else if enNow en < prResumeAt r then (push tok (prResumeAt r) es1, rows)
             else
               (let ((outcome, again), rows') = timed_fire app en draining resume r rows
                in (if again then push tok (enNow en + schedRequeueDelay) es1 else es1, rows')))"

section \<open>Resuming by token\<close>

datatype resume_reply = Resumed | NothingToDo | BadPayload | ExpiredConflict | ResumeFailed

definition resumeByToken ::
  "string \<Rightarrow> store_env \<Rightarrow> resume_turn \<Rightarrow> string \<Rightarrow> string \<Rightarrow> row list \<Rightarrow> resume_reply \<times> row list" where
  "resumeByToken app en resume by_whom tok rows =
     (case FindToken en tok rows of
        Inl e \<Rightarrow> (BadPayload, rows)
      | Inr r \<Rightarrow>
          if prConsumedAt r \<noteq> 0 then (NothingToDo, rows)
          else if Expired (enNow en) r then (ExpiredConflict, rows)
          else case prPlane r of
                 PlaneGate \<Rightarrow>
                   (case ConsumeToken app en tok by_whom rows of
                      (Inl ErrAlreadyResumed, rows') \<Rightarrow> (NothingToDo, rows')
                    | (Inl e, rows') \<Rightarrow> (ResumeFailed, rows')
                    | (Inr _, rows') \<Rightarrow> (Resumed, rows'))
               | PlaneInterrupt \<Rightarrow>
                   (let (failed, rows1) = resume r rows
                    in (if failed then ResumeFailed else Resumed, consumeIfAnswered app en r by_whom rows1)))"

text \<open>The pause handler of the daemon: the gate pause, and its timer if it has one.\<close>

definition pause_handler ::
  "string \<Rightarrow> store_env \<Rightarrow> string \<Rightarrow> pause_spec \<Rightarrow> timers option \<Rightarrow> row list \<Rightarrow> (store_error + string) \<times> timers option \<times> row list" where
  "pause_handler app en sid spec sched rows =
     (case PauseGate app en [] sid spec rows of
        (Inl e, rows') \<Rightarrow> (Inl e, sched, rows')
      | (Inr ((tok, expiry), created), rows') \<Rightarrow>
          (Inr tok, if psResumeAt spec \<noteq> 0 then map_option (push tok (psResumeAt spec)) sched else sched, rows'))"

text \<open>A session that is paused until a time, and then paused again without one.\<close>

definition timed_spec :: pause_spec where
  "timed_spec = demo_spec\<lparr>psResumeAt := 100\<rparr>"

definition held_anew :: "(store_error + string) \<times> timers option \<times> row list" where
  "held_anew =
     (let rows0 = syRows (store_run ''app'' [RunnerEvent ''u'' ''s'' demo_event []]);
          (r1, sched1, rows1) = pause_handler ''app'' (demo_env 5 (Some ''mrt_a'')) ''s'' timed_spec (Some []) rows0
      in pause_handler ''app'' (demo_env 50 (Some ''mrt_b'')) ''s'' demo_spec sched1 rows1)"

definition no_resume :: resume_turn where
  "no_resume r rows = (False, rows)"

section \<open>Lemmas and properties\<close>

lemma push_other [simp]: "k \<noteq> tok \<Longrightarrow> map_of (push tok t es) k = map_of es k"
  by (simp add: push_def)

lemma push_same: "tok \<noteq> [] \<Longrightarrow> t \<noteq> 0 \<Longrightarrow> map_of (push tok t es) tok = Some t"
  by (simp add: push_def)

lemma found_token: "FindToken en tok rows = Inr r \<Longrightarrow> prToken r = tok \<and> tok \<noteq> []"
  using FindToken_Inr [of en tok rows r] by (auto simp: FindToken_def split: if_splits)

lemma fireDue_others: "k \<noteq> tok \<Longrightarrow> map_of (fst (fireDue app en draining resume tok es rows)) k = map_of es k"
  by (auto simp: fireDue_def Let_def split: sum.splits store_error.splits prod.splits)

text \<open>A consumption that succeeds leaves no active record of its token.\<close>

lemma consumed_for_good:
  assumes inv: "store_inv app s" and now: "enNow en \<noteq> 0" and res: "consumeToken app en tok by_whom enforce (syRows s) = (Inr r, rows')"
  shows "\<not> (\<exists>u i k x. rec_at rows' u i k x \<and> prToken x = tok \<and> prConsumedAt x = 0)"
proof -
  have inv': "store_inv app (store_step app s (OpConsume en tok by_whom enforce))" by (rule consume_inv [OF inv now])
  have step: "syRows (store_step app s (OpConsume en tok by_whom enforce)) = rows'"
    "tok \<in> set (sySpent (store_step app s (OpConsume en tok by_whom enforce)))" using res by (simp_all add: store_step_def)
  show ?thesis using inv_rec [OF inv'] step unfolding rec_ok_def by metis
qed

lemma fold_push_armed:
  assumes "r \<in> set rs" "prToken r \<noteq> []" "prResumeAt r \<noteq> 0" "\<And>x. x \<in> set rs \<Longrightarrow> prToken x = prToken r \<Longrightarrow> x = r"
  shows "map_of (foldl (\<lambda>es r. push (prToken r) (prResumeAt r) es) es rs) (prToken r) = Some (prResumeAt r)"
  using assms
proof (induction rs arbitrary: es rule: rev_induct)
  case (snoc x rs)
  show ?case
  proof (cases "prToken x = prToken r")
    case True
    then have "x = r" using snoc.prems(4) by auto
    then show ?thesis using snoc.prems by (simp add: push_same)
  next
    case False
    then have "r \<in> set rs" using snoc.prems(1) by auto
    then show ?thesis using snoc False by simp
  qed
qed simp

lemma earliest_fold:
  "foldl (\<lambda>best (tok, t). case best of None \<Rightarrow> Some (tok, t) | Some (b, bt) \<Rightarrow> if t < bt then Some (tok, t) else best) (Some (b, bt)) es
     = Some (c, ct) \<Longrightarrow> ((c, ct) = (b, bt) \<or> (c, ct) \<in> set es) \<and> ct \<le> bt \<and> (\<forall>(k, t)\<in>set es. ct \<le> (t :: int))"
proof (induction es arbitrary: b bt)
  case (Cons kt es)
  obtain k t where kt: "kt = (k, t)" by (cases kt)
  show ?case using Cons.prems Cons.IH [of k t] Cons.IH [of b bt] by (cases "t < bt") (auto simp: kt)
qed auto


lemma FindToken_missing:
  "FindToken en tok rows = Inl ErrTokenNotFound \<Longrightarrow> HasPrefix tok tokenPrefix \<Longrightarrow> x \<in> set (all_pauses rows) \<Longrightarrow> prToken x \<noteq> tok"
  by (auto simp: FindToken_def all_pauses_def [symmetric] find_None_iff HasPrefix_def tokenPrefix_def split: if_splits option.splits)

lemma FindToken_errors: "FindToken en tok rows = Inl e \<Longrightarrow> e = ErrTokenNotFound \<or> e = ErrStore"
  by (auto simp: FindToken_def split: if_splits option.splits)

lemma append_errors: "appendOpsDelta en u sid a delta rows \<noteq> (Some ErrAlreadyResumed, rows')"
  by (auto simp: appendOpsDelta_def resolve_user_def findUserID_def split: sum.splits option.splits if_splits)

lemma gate_fire:
  assumes inv: "store_inv app s" and now: "0 < enNow en" and found: "FindToken en tok (syRows s) = Inr r"
    and r: "prConsumedAt r = 0" "prPlane r = PlaneGate"
    and res: "timed_fire app en draining resume r (syRows s) = ((outcome, again), rows')"
  shows "again \<or> \<not> (\<exists>u i k x. rec_at rows' u i k x \<and> prToken x = tok \<and> prConsumedAt x = 0)"
proof (cases "draining")
  case False
  obtain c rows1 where c: "ConsumeScheduled app en tok ''timer'' (syRows s) = (c, rows1)" by fastforce
  have tok: "prToken r = tok" using found_token [OF found] by simp
  obtain u i k where "rec_at (syRows s) u i k r" using FindToken_Inr [OF found] inv_pauses [OF inv] by blast
  then have "prApp r = app" using inv_rec [OF inv] by (auto simp: rec_ok_def)
  then have "c \<noteq> Inl ErrAlreadyResumed"
    using c found r(1) by (auto simp: append_errors ConsumeScheduled_def consumeToken_def consume_decide_def write_found_def writePauseRecord_def
        split: prod.splits option.splits)
  then show ?thesis
    using consumed_for_good [OF inv, of en tok "''timer''" False] now c res r(2) False
    by (cases c) (auto simp: timed_fire_def ConsumeScheduled_def tok split: store_error.splits)
qed (use res in \<open>simp add: timed_fire_def\<close>)


text \<open>C22: a due gate timer is never lost: after it was handled, with whatever failures of the store and whether or not
  the daemon drains, the pause has ended or its timer is armed again; the other timers are as they were.\<close>
theorem timer_not_lost:
  assumes "ops_ok ops" and "0 < enNow en" and "HasPrefix tok tokenPrefix"
    and "gated v sid tok (syRows (store_run app ops))"
    and "fireDue app en draining resume tok es (syRows (store_run app ops)) = (es', rows')"
  shows "(gated v sid tok rows' \<longrightarrow> map_of es' tok \<noteq> None) \<and> (k \<noteq> tok \<longrightarrow> map_of es' k = map_of es k)"
proof -
  let ?s = "store_run app ops"
  note inv = store_run_inv [OF assms(1), of app]
  obtain r where r: "rec_at (syRows ?s) v (opsSessionID sid) pauseGateKey r" "prToken r = tok" "prConsumedAt r = 0"
    using assms(4) by (auto simp: gated_def)
  have pl: "prPlane r = PlaneGate" using inv_rec [OF inv r(1)]
    by (cases "prPlane r") (auto simp: rec_ok_def pause_key_def marker_keys)
  have tok: "tok \<noteq> []" using assms(3) by (auto simp: HasPrefix_def tokenPrefix_def)
  have armed: "map_of (push tok t es1) tok \<noteq> None" if "t \<noteq> 0" for t es1 using push_same [OF tok that] by simp
  have "map_of es' tok \<noteq> None" if g: "gated v sid tok rows'"
  proof (cases "enList en")
    case False
    then have "FindToken en tok (syRows ?s) = Inl ErrStore" using assms(3) tok by (simp add: FindToken_def)
    then show ?thesis using assms(2,5) armed by (auto simp: fireDue_def Let_def schedRequeueDelay_def)
  next
    case True
    then have F: "FindToken en tok (syRows ?s) = Inr r" using FindToken_found [OF inv r(1) True] r(2) assms(3) by simp
    show ?thesis
    proof (cases "enNow en < prResumeAt r")
      case True
      then show ?thesis using assms(2,5) F r(3) armed by (auto simp: fireDue_def Let_def Active_def)
    next
      case False
      obtain outcome again rows1 where f: "timed_fire app en draining resume r (syRows ?s) = ((outcome, again), rows1)" by (metis prod.collapse)
      have rows1: "rows1 = rows'" "es' = (if again then push tok (enNow en + schedRequeueDelay) (AList.delete tok es) else AList.delete tok es)"
        using assms(5) F r(3) False f by (auto simp: fireDue_def Let_def Active_def)
      have again using gate_fire [OF inv assms(2) F r(3) pl f] g rows1(1) unfolding gated_def by blast
      then show ?thesis using rows1 armed assms(2) by (simp add: schedRequeueDelay_def)
    qed
  qed
  then show ?thesis using fireDue_others [of k tok app en draining resume es "syRows ?s"] assms(5) by auto
qed

theorem timer_not_lost_witness:
  "gated ''u'' ''s'' ''mrt_a'' demo_rows \<and>
   map_of (fst (fireDue ''app'' (demo_env 9 None) True no_resume ''mrt_a'' [(''mrt_b'', 3)] demo_rows)) ''mrt_a'' \<noteq> None \<and>
   map_of (fst (fireDue ''app'' (demo_env 9 None) True no_resume ''mrt_a'' [(''mrt_b'', 3)] demo_rows)) ''mrt_b'' = Some 3"
proof -
  obtain r where "cell demo_rows ''u'' (opsSessionID ''s'') pauseGateKey = Some (Blob r)" "prToken r = ''mrt_a''" "prConsumedAt r = 0"
  proof -
    have "(case cell demo_rows ''u'' (opsSessionID ''s'') pauseGateKey of
        Some (Blob r) \<Rightarrow> prToken r = ''mrt_a'' \<and> prConsumedAt r = 0 | _ \<Rightarrow> False)" by code_simp
    then show thesis using that by (auto split: option.splits ops_value.splits)
  qed
  then have g: "gated ''u'' ''s'' ''mrt_a'' demo_rows" by (auto simp: gated_def rec_at_def)
  obtain es' rows' where f: "fireDue ''app'' (demo_env 9 None) True no_resume ''mrt_a'' [(''mrt_b'', 3)] demo_rows = (es', rows')" by fastforce
  have "rows' = demo_rows" using f by (auto simp: fireDue_def timed_fire_def Let_def split: sum.splits store_error.splits if_splits prod.splits)
  moreover have "ops_ok demo_paused" by code_simp
  ultimately show ?thesis
    using timer_not_lost [of demo_paused "demo_env 9 None" "''mrt_a''" "''u''" "''s''" "''app''" True no_resume "[(''mrt_b'', 3)]" es' rows' "''mrt_b''"]
      g f by (simp add: demo_rows_def demo_env_def HasPrefix_def tokenPrefix_def)
qed

text \<open>The boot scan, and every rescan, arms the timer of each active pause that has one, at its time.\<close>
theorem scan_arms_all:
  assumes "ops_ok ops" and "ScanPauses en (syRows (store_run app ops)) = Inr recs"
    and "r \<in> set recs" and "prResumeAt r \<noteq> 0" and "prToken r \<noteq> []"
  shows "map_of (snd (sched_scan en (syRows (store_run app ops)) es)) (prToken r) = Some (prResumeAt r)"
proof -
  note inv = store_run_inv [OF assms(1), of app]
  have mem: "x \<in> set recs \<Longrightarrow> \<exists>u i k. rec_at (syRows (store_run app ops)) u i k x" for x
    using assms(2) inv_pauses [OF inv] by (auto simp: ScanPauses_def all_pauses_def [symmetric] split: if_splits)
  have "x = r" if x: "x \<in> set recs" "prToken x = prToken r" for x
    using mem [OF x(1)] mem [OF assms(3)] x(2) inv unfolding store_inv_def rec_at_def by (metis ops_value.inject(4) option.inject)
  then show ?thesis unfolding sched_scan_def assms(2) using assms(3-5)
    by (simp add: Let_def) (rule fold_push_armed, auto)
qed

theorem scan_arms_all_witness:
  "ops_ok [RunnerEvent ''u'' ''s'' demo_event [], OpPauseGate (demo_env 5 (Some ''mrt_a'')) [] ''s'' timed_spec] \<and>
   map_of (snd (sched_scan (demo_env 6 None) (syRows (store_run ''app''
     [RunnerEvent ''u'' ''s'' demo_event [], OpPauseGate (demo_env 5 (Some ''mrt_a'')) [] ''s'' timed_spec])) [])) ''mrt_a'' = Some 100"
proof -
  let ?ops = "[RunnerEvent ''u'' ''s'' demo_event [], OpPauseGate (demo_env 5 (Some ''mrt_a'')) [] ''s'' timed_spec]"
  have "(case ScanPauses (demo_env 6 None) (syRows (store_run ''app'' ?ops)) of
      Inr [r] \<Rightarrow> prToken r = ''mrt_a'' \<and> prResumeAt r = 100 | _ \<Rightarrow> False)" by code_simp
  then obtain r where r: "ScanPauses (demo_env 6 None) (syRows (store_run ''app'' ?ops)) = Inr [r]" "prToken r = ''mrt_a''" "prResumeAt r = 100"
    by (auto split: sum.splits list.splits)
  have ok: "ops_ok ?ops" by code_simp
  show ?thesis using scan_arms_all [OF ok r(1), of r "[]"] r(2,3) ok by simp
qed

text \<open>The next timer is one of the entries and none is before it.\<close>
theorem earliest_is_first:
  "(case earliest es of None \<Rightarrow> es = [] | Some (tok, t) \<Rightarrow> (tok, t) \<in> set es \<and> list_all (\<lambda>(k, t'). t \<le> t') es)"
proof (cases es)
  case (Cons kt es1)
  obtain k t where kt: "kt = (k, t)" by (cases kt)
  have "foldl (\<lambda>best (tok, t). case best of None \<Rightarrow> Some (tok, t) | Some (b, bt) \<Rightarrow> if t < bt then Some (tok, t) else best) (Some b) xs \<noteq> None"
    for b :: "string \<times> gotime" and xs
    by (induction xs arbitrary: b) auto
  then have "earliest es \<noteq> None" unfolding earliest_def Cons kt foldl_Cons by (simp only: prod.case option.case, simp)
  then obtain c ct where e: "earliest es = Some (c, ct)" by auto
  then show ?thesis using earliest_fold [of k t es1 c ct] by (auto simp: earliest_def Cons kt list_all_iff)
qed (simp add: earliest_def)

text \<open>A timed pause that is paused again without a time still ends at the old time: the handler arms no new timer
  and drops none, and a record without a time counts as due.\<close>
theorem cleared_timer_fires:
  "map_option (\<lambda>es. map_of es ''mrt_a'') (fst (snd held_anew)) = Some (Some 100) \<and>
   map_option prResumeAt (GatePause (demo_env 60 None) [] ''s'' (snd (snd held_anew))) = Some 0 \<and>
   GatePause (demo_env 101 None) [] ''s''
     (snd (fireDue ''app'' (demo_env 100 None) False no_resume ''mrt_a'' (the (fst (snd held_anew))) (snd (snd held_anew)))) = None"
  by code_simp

end
