(* ===== verification/Monitor.thy ===== *)
theory Monitor
  imports Go_Paths "HOL-Library.Sublist"
begin

text \<open>
  The record stream a monitoring cycle reads, \<^verbatim>\<open>src/internal/monitor/transitions.go\<close>: one record a line, in
  logfmt or as a flat JSON object, ended by a summary line. Of Go's \<^verbatim>\<open>strconv\<close> the theory has \<^verbatim>\<open>Atoi\<close> and
  \<^verbatim>\<open>Unquote\<close> for double quotes, with the UTF-8 decoding and encoding they need; the JSON decoder is an argument,
  which gives the members of an object with strings decoded, null, and anything else as its JSON text.
\<close>

section \<open>Numbers and quoted strings\<close>

definition is_digit :: "char \<Rightarrow> bool" where
  "is_digit c \<longleftrightarrow> 48 \<le> (of_char c :: nat) \<and> (of_char c :: nat) \<le> 57"

definition digits_value :: "string \<Rightarrow> int" where
  "digits_value s = foldl (\<lambda>n c. 10 * n + (int (of_char c) - 48)) 0 s"

text \<open>An optional sign and decimal digits, in the range of a 64-bit integer.\<close>

definition Atoi :: "string \<Rightarrow> int option" where
  "Atoi s =
     (let neg = HasPrefix s ''-'';
          ds = (if neg \<or> HasPrefix s ''+'' then drop 1 s else s);
          n = (if neg then - digits_value ds else digits_value ds)
      in if ds = [] \<or> \<not> list_all is_digit ds \<or> \<not> int64 n then None else Some n)"

definition valid_rune :: "nat \<Rightarrow> bool" where
  "valid_rune r \<longleftrightarrow> r < 55296 \<or> 57343 < r \<and> r \<le> 1114111"

definition encode_rune :: "nat \<Rightarrow> nat list" where
  "encode_rune r0 =
     (let r = (if valid_rune r0 then r0 else rune_error)
      in if r < 128 then [r]
         else if r < 2048 then [192 + r div 64, 128 + r mod 64]
         else if r < 65536 then [224 + r div 4096, 128 + (r div 64) mod 64, 128 + r mod 64]
         else [240 + r div 262144, 128 + (r div 4096) mod 64, 128 + (r div 64) mod 64, 128 + r mod 64])"

definition string_of :: "nat list \<Rightarrow> string" where "string_of bs = map char_of bs"

definition unhex :: "char \<Rightarrow> nat option" where
  "unhex c =
     (let b = of_char c :: nat
      in if 48 \<le> b \<and> b \<le> 57 then Some (b - 48)
         else if 97 \<le> b \<and> b \<le> 102 then Some (b - 87)
         else if 65 \<le> b \<and> b \<le> 70 then Some (b - 55)
         else None)"

fun unhexes :: "nat \<Rightarrow> string \<Rightarrow> nat option" where
  "unhexes v [] = Some v"
| "unhexes v (c # cs) = (case unhex c of None \<Rightarrow> None | Some x \<Rightarrow> unhexes (16 * v + x) cs)"

definition octal :: "char \<Rightarrow> nat option" where
  "octal c = (let b = of_char c :: nat in if 48 \<le> b \<and> b \<le> 55 then Some (b - 48) else None)"

text \<open>The character after a backslash that stands for one byte.\<close>

definition simple_escapes :: "(char \<times> nat) list" where
  "simple_escapes = [(CHR ''a'', 7), (CHR ''b'', 8), (CHR ''f'', 12), (CHR ''n'', 10), (CHR ''r'', 13), (CHR ''t'', 9),
     (CHR ''v'', 11), (CHR 0x5C, 92), (CHR 0x22, 34)]"

text \<open>\<^verbatim>\<open>UnquoteChar\<close> inside double quotes: the bytes the next character stands for and how many were read.\<close>

definition unquote_char :: "string \<Rightarrow> (nat list \<times> nat) option" where
  "unquote_char s =
     (case s of
        [] \<Rightarrow> None
      | c # s1 \<Rightarrow>
          if c = CHR 0x22 then None
          else if 128 \<le> (of_char c :: nat) then (let (r, n) = DecodeRune s in Some (encode_rune r, n))
          else if c \<noteq> CHR 0x5C then Some ([of_char c], 1)
          else case s1 of
                 [] \<Rightarrow> None
               | e # s2 \<Rightarrow>
                   (case map_of simple_escapes e of
                      Some b \<Rightarrow> Some ([b], 2)
                    | None \<Rightarrow>
                        if e = CHR ''x'' then
                          (if length s2 < 2 then None else map_option (\<lambda>v. ([v], 4)) (unhexes 0 (take 2 s2)))
                        else if e = CHR ''u'' then
                          (if length s2 < 4 then None
                           else case unhexes 0 (take 4 s2) of
                                  Some v \<Rightarrow> if valid_rune v then Some (encode_rune v, 6) else None | None \<Rightarrow> None)
                        else if e = CHR ''U'' then
                          (if length s2 < 8 then None
                           else case unhexes 0 (take 8 s2) of
                                  Some v \<Rightarrow> if valid_rune v then Some (encode_rune v, 10) else None | None \<Rightarrow> None)
                        else
                          (case (octal e, map octal (take 2 s2)) of
                             (Some a, [Some b, Some d]) \<Rightarrow>
                               if 255 < 64 * a + 8 * b + d then None else Some ([64 * a + 8 * b + d], 4)
                           | _ \<Rightarrow> None)))"

text \<open>The body of a double-quoted string up to its closing quote, which has to be the end.\<close>

function unquote_body :: "nat list \<Rightarrow> string \<Rightarrow> string option" where
  "unquote_body buf s =
     (case s of
        [] \<Rightarrow> None
      | c # rest \<Rightarrow>
          if c = CHR 0x22 then (if rest = [] then Some (string_of buf) else None)
          else if c = CHR 0x0A then None
          else case unquote_char s of
                 None \<Rightarrow> None
               | Some (bs, n) \<Rightarrow> if n = 0 then None else unquote_body (buf @ bs) (drop n s))"
  by pat_completeness auto

termination
  by (relation "measure (\<lambda>(buf, s). length s)") auto

declare unquote_body.simps [simp del]

definition Unquote :: "string \<Rightarrow> string option" where
  "Unquote s = (case s of c # rest \<Rightarrow> if c = CHR 0x22 then unquote_body [] rest else None | [] \<Rightarrow> None)"

section \<open>Records\<close>

datatype record_error = NotJSON | BareToken | EmptyKey | Unterminated string | BadQuote string

text \<open>The index of the quote that closes the one at the start.\<close>

fun closing_from :: "nat \<Rightarrow> string \<Rightarrow> nat option" where
  "closing_from i [] = None"
| "closing_from i (c # s) =
     (if c = CHR 0x5C then (case s of [] \<Rightarrow> None | d # s' \<Rightarrow> closing_from (i + 2) s')
      else if c = CHR 0x22 then Some i
      else closing_from (i + 1) s)"

definition closingQuote :: "string \<Rightarrow> nat option" where
  "closingQuote s = closing_from 1 (drop 1 s)"

type_synonym fields = "(string, string) gomap"

text \<open>One \<^verbatim>\<open>key=value\<close> pair from the start of the text: the key, the value and what is left.\<close>

definition logfmt_pair :: "string \<Rightarrow> record_error + (string \<times> string \<times> string)" where
  "logfmt_pair s =
     (if CHR ''='' \<notin> set s then Inl BareToken
      else
        (let key = takeWhile (\<lambda>c. c \<noteq> CHR ''='') s;
             rest = drop (length key + 1) s
         in if key = [] then Inl EmptyKey
            else if rest \<noteq> [] \<and> hd rest = CHR 0x22
            then (case closingQuote rest of
                    None \<Rightarrow> Inl (Unterminated key)
                  | Some e \<Rightarrow>
                      (case Unquote (take (e + 1) rest) of
                         None \<Rightarrow> Inl (BadQuote key)
                       | Some v \<Rightarrow> Inr (key, v, drop (e + 1) rest)))
            else if CHR '' '' \<notin> set rest then Inr (key, rest, [])
            else
              (let v = takeWhile (\<lambda>c. c \<noteq> CHR '' '') rest
               in Inr (key, v, drop (length v) rest))))"

function parseLogfmt_from :: "fields \<Rightarrow> string \<Rightarrow> record_error + fields" where
  "parseLogfmt_from m s =
     (case s of
        [] \<Rightarrow> Inr m
      | c # s1 \<Rightarrow>
          if c = CHR '' '' then parseLogfmt_from m s1
          else case logfmt_pair s of
                 Inl e \<Rightarrow> Inl e
               | Inr (key, v, rest) \<Rightarrow> parseLogfmt_from (AList.update key v m) rest)"
  by pat_completeness auto

termination
  by (relation "measure (\<lambda>(m, s). length s)")
    (auto simp: logfmt_pair_def Let_def split: if_splits option.splits)

declare parseLogfmt_from.simps [simp del]

definition parseLogfmt :: "string \<Rightarrow> record_error + fields" where
  "parseLogfmt line = parseLogfmt_from [] line"

datatype json_value = JString string | JNull | JOther string

type_synonym json_decoder = "string \<Rightarrow> (string, json_value) gomap option"

definition parseJSONRecord :: "json_decoder \<Rightarrow> string \<Rightarrow> record_error + fields" where
  "parseJSONRecord dec line =
     (case dec line of
        None \<Rightarrow> Inl NotJSON
      | Some raw \<Rightarrow> Inr (map (\<lambda>(k, v). (k, case v of JString s \<Rightarrow> s | JNull \<Rightarrow> [] | JOther t \<Rightarrow> t)) raw))"

definition parseRecord :: "json_decoder \<Rightarrow> string \<Rightarrow> record_error + fields" where
  "parseRecord dec line =
     (let trimmed = TrimSpace line
      in if HasPrefix trimmed ''{'' then parseJSONRecord dec trimmed else parseLogfmt trimmed)"

section \<open>The stream\<close>

record transition =
  trSubjectKey :: string
  trClass :: string
  trFields :: fields

record transition_set =
  tsTransitions :: "transition list"
  tsScanned :: int

datatype parse_error =
    NoOutput "string list" | NotText
  | EmptyResult | SummaryError record_error | NoSummary | BadScanned string | BadFindings string
  | CountMismatch int nat | RecordError nat record_error | NoClass nat | NoSubject nat

definition Empty :: "transition_set \<Rightarrow> bool" where
  "Empty s \<longleftrightarrow> tsTransitions s = []"

definition Classes :: "transition_set \<Rightarrow> string list" where
  "Classes s =
     (let counts = foldl (\<lambda>m t. AList.update (trClass t) (mget 0 m (trClass t) + 1) m) [] (tsTransitions s)
      in sort (map (\<lambda>(c, n). c @ ''='' @ itoa n) counts))"

fun split_nl :: "string \<Rightarrow> string list" where
  "split_nl [] = [[]]"
| "split_nl (c # s) =
     (if c = CHR 0x0A then [] # split_nl s
      else case split_nl s of [] \<Rightarrow> [[c]] | l # ls \<Rightarrow> (c # l) # ls)"

definition record_of :: "json_decoder \<Rightarrow> nat \<Rightarrow> string \<Rightarrow> parse_error + transition" where
  "record_of dec i line =
     (case parseRecord dec line of
        Inl e \<Rightarrow> Inl (RecordError i e)
      | Inr fs \<Rightarrow>
          (let cls = TrimSpace (mget [] fs ''transition''); subject = TrimSpace (mget [] fs ''subject_key'')
           in if cls = [] then Inl (NoClass i)
              else if subject = [] then Inl (NoSubject i)
              else Inr \<lparr>trSubjectKey = subject, trClass = cls,
                        trFields = AList.delete ''subject_key'' (AList.delete ''transition'' fs)\<rparr>))"

fun records_of :: "json_decoder \<Rightarrow> nat \<Rightarrow> string list \<Rightarrow> parse_error + transition list" where
  "records_of dec i [] = Inr []"
| "records_of dec i (l # ls) =
     (case record_of dec i l of
        Inl e \<Rightarrow> Inl e
      | Inr t \<Rightarrow> (case records_of dec (i + 1) ls of Inl e \<Rightarrow> Inl e | Inr ts \<Rightarrow> Inr (t # ts)))"

definition Parse :: "json_decoder \<Rightarrow> string \<Rightarrow> parse_error + transition_set" where
  "Parse dec output =
     (let lines = filter (\<lambda>l. TrimSpace l \<noteq> []) (split_nl output)
      in if lines = [] then Inl EmptyResult
         else case parseRecord dec (last lines) of
                Inl e \<Rightarrow> Inl (SummaryError e)
              | Inr summary \<Rightarrow>
                  (case (map_of summary ''scanned'', map_of summary ''findings'') of
                     (Some scanned, Some emitted) \<Rightarrow>
                       (case Atoi (TrimSpace scanned) of
                          None \<Rightarrow> Inl (BadScanned scanned)
                        | Some scannedN \<Rightarrow>
                            (case Atoi (TrimSpace emitted) of
                               None \<Rightarrow> Inl (BadFindings emitted)
                             | Some emittedN \<Rightarrow>
                                 if int (length lines - 1) \<noteq> emittedN then Inl (CountMismatch emittedN (length lines - 1))
                                 else case records_of dec 1 (butlast lines) of
                                        Inl e \<Rightarrow> Inl e
                                      | Inr ts \<Rightarrow> Inr \<lparr>tsTransitions = ts, tsScanned = scannedN\<rparr>))
                   | _ \<Rightarrow> Inl NoSummary))"

text \<open>The result of a tool: its \<^verbatim>\<open>output\<close>, which is a text or something else.\<close>

definition ParseResult :: "json_decoder \<Rightarrow> (string, string option) gomap \<Rightarrow> parse_error + transition_set" where
  "ParseResult dec result =
     (case map_of result ''output'' of
        None \<Rightarrow> Inl (NoOutput (sort (map fst result)))
      | Some None \<Rightarrow> Inl NotText
      | Some (Some text) \<Rightarrow> Parse dec text)"

section \<open>The producer\<close>
























section \<open>Lemmas and properties\<close>

subsection \<open>White space\<close>







subsection \<open>A record cut short\<close>





lemma parse_Nil [simp]: "parseLogfmt_from m [] = Inr m"
  by (simp add: parseLogfmt_from.simps)

lemma parse_space [simp]: "parseLogfmt_from m (CHR '' '' # s) = parseLogfmt_from m s"
  by (simp add: parseLogfmt_from.simps[of m "CHR '' '' # s"])











subsection \<open>A stream cut short\<close>








subsection \<open>Quoting\<close>













subsection \<open>A record written and read\<close>
















subsection \<open>Numbers written and read\<close>




subsection \<open>A stream written and read\<close>








end
