(* ===== verification/Monitor_Cycle.thy ===== *)
theory Monitor_Cycle
  imports Monitor Session_Store
begin

text \<open>
  What a monitoring cycle does with its tick: the collection before the model is woken (\<^verbatim>\<open>src/internal/cli/monitor.go\<close>),
  the decision whether to speak and the message that consecutive reports extend (\<^verbatim>\<open>src/internal/cli/notify.go\<close>), the
  client of the chat ingress (\<^verbatim>\<open>src/internal/notify/client.go\<close>) and the callback that composes them
  (\<^verbatim>\<open>newScheduledFireCallback\<close> in \<^verbatim>\<open>src/internal/cli/schedtrigger.go\<close>).

  The tools, the ingress, the model's turn and the clock are an environment of the cycle. What a cycle does to the
  outside is the list of its events: requests to the ingress, counted outcomes, turns. Times are formatted by an
  argument; the texts of errors are arguments too.
\<close>

section \<open>The client of the ingress\<close>

datatype http_method = POST | PATCH

record message =
  msConversation :: string
  msID :: string
  msText :: string
  msAppend :: string

record request =
  rqMethod :: http_method
  rqBody :: message
  rqIdem :: string

record ref =
  rfConversation :: string
  rfID :: string

text \<open>No answer, or a status with the reference its body holds, empty when it holds none.\<close>

datatype response = NetError | Response nat ref

datatype sentinel = ErrSendFullText | ErrEditUnsupported | ErrNoSuchMessage | ErrDenied

datatype notify_error = BadArgument | Transport | IngressError nat "sentinel option" | NoRef nat

type_synonym ingress = "request \<Rightarrow> response"

definition no_ref :: ref where "no_ref = \<lparr>rfConversation = [], rfID = []\<rparr>"

definition Zero :: "ref \<Rightarrow> bool" where "Zero r \<longleftrightarrow> rfID r = []"

definition statusError :: "nat \<Rightarrow> bool \<Rightarrow> notify_error" where
  "statusError status isAppend =
     IngressError status
       (if status = 409 then Some ErrSendFullText
        else if status = 501 then Some (if isAppend then ErrSendFullText else ErrEditUnsupported)
        else if status = 404 then Some ErrNoSuchMessage
        else if status = 401 \<or> status = 403 then Some ErrDenied
        else None)"

definition client_do :: "ingress \<Rightarrow> request \<Rightarrow> notify_error + nat \<times> ref" where
  "client_do ing rq =
     (case ing rq of
        NetError \<Rightarrow> Inl Transport
      | Response status r \<Rightarrow>
          if 200 \<le> status \<and> status < 300 then Inr (status, if status = 200 then r else no_ref)
          else Inl (statusError status (msAppend (rqBody rq) \<noteq> [])))"

definition mk_request :: "http_method \<Rightarrow> string \<Rightarrow> string \<Rightarrow> string \<Rightarrow> string \<Rightarrow> string \<Rightarrow> request" where
  "mk_request me conv mid text app idem =
     \<lparr>rqMethod = me, rqBody = \<lparr>msConversation = conv, msID = mid, msText = text, msAppend = app\<rparr>, rqIdem = TrimSpace idem\<rparr>"

definition Post :: "ingress \<Rightarrow> string \<Rightarrow> string \<Rightarrow> string \<Rightarrow> (notify_error + ref) \<times> request list" where
  "Post ing conv text idem =
     (if TrimSpace conv = [] \<or> TrimSpace text = [] then (Inl BadArgument, [])
      else let rq = mk_request POST conv [] text [] idem
           in (case client_do ing rq of
                 Inl e \<Rightarrow> Inl e
               | Inr (status, r) \<Rightarrow> if status \<noteq> 200 \<or> rfID r = [] then Inl (NoRef status) else Inr r, [rq]))"

definition Replace :: "ingress \<Rightarrow> ref \<Rightarrow> string \<Rightarrow> string \<Rightarrow> (notify_error + unit) \<times> request list" where
  "Replace ing r text idem =
     (if Zero r \<or> TrimSpace text = [] then (Inl BadArgument, [])
      else let rq = mk_request PATCH (rfConversation r) (rfID r) text [] idem
           in (case client_do ing rq of Inl e \<Rightarrow> Inl e | Inr _ \<Rightarrow> Inr (), [rq]))"

definition Append :: "ingress \<Rightarrow> ref \<Rightarrow> string \<Rightarrow> string \<Rightarrow> (notify_error + ref) \<times> request list" where
  "Append ing r line idem =
     (if Zero r \<or> TrimSpace line = [] then (Inl BadArgument, [])
      else let rq = mk_request PATCH (rfConversation r) (rfID r) [] line idem
           in (case client_do ing rq of
                 Inl e \<Rightarrow> Inl e
               | Inr (status, got) \<Rightarrow> if status = 200 \<and> rfID got \<noteq> [] then Inr got else Inr r, [rq]))"

definition error_is :: "sentinel \<Rightarrow> notify_error \<Rightarrow> bool" where
  "error_is s e \<longleftrightarrow> (case e of IngressError _ (Some s') \<Rightarrow> s' = s | _ \<Rightarrow> False)"

section \<open>The notifier\<close>

datatype speech = SpeechUnconfigured | SpeechQuiet | SpeechSpeak | SpeechDigest

definition speaks :: "speech \<Rightarrow> bool" where
  "speaks s \<longleftrightarrow> s = SpeechSpeak \<or> s = SpeechDigest"

datatype notice = NQuiet | NPosted | NAppended | NRolled | NReplaced | NError | NHealth | NDigestWake

record notifier =
  nfConv :: string
  nfDigest :: duration
  nfWorkload :: string
  nfRef :: ref
  nfText :: string
  nfSpokeAt :: gotime
  nfFailing :: bool

text \<open>What a cycle does: a request to the ingress, a counted outcome, a turn of the model in a session, and the
  decision to tell the channel that the monitoring fails or has recovered.\<close>

datatype cycle_event = Request request | Count notice | Turn string string | Health bool

definition timelineSep :: string where "timelineSep = [CHR 0x0A, CHR 0x0A]"

definition idemFull :: string where "idemFull = '':full''"
definition idemNew :: string where "idemNew = '':new''"
definition idemHealth :: string where "idemHealth = '':health''"

text \<open>The \<^verbatim>\<open>notify\<close> block of a bundle: a conversation and how long silence may last, \<open>None\<close> when that does not parse.\<close>

definition newNotifier ::
  "(string \<times> duration option) option \<Rightarrow> string \<Rightarrow> bool \<Rightarrow> gotime \<Rightarrow> unit + notifier option" where
  "newNotifier block workload hasClient now =
     (case block of
        None \<Rightarrow> Inr None
      | Some (conv, digest) \<Rightarrow>
          if TrimSpace conv = [] then Inl ()
          else case digest of
                 None \<Rightarrow> Inl ()
               | Some d \<Rightarrow>
                   if d < 0 \<or> \<not> hasClient then Inl ()
                   else Inr (Some \<lparr>nfConv = TrimSpace conv, nfDigest = d, nfWorkload = workload, nfRef = no_ref, nfText = [],
                                   nfSpokeAt = now, nfFailing = False\<rparr>))"

definition nf_enabled :: "notifier option \<Rightarrow> bool" where
  "nf_enabled nf \<longleftrightarrow> (case nf of None \<Rightarrow> False | Some n \<Rightarrow> nfConv n \<noteq> [])"

definition decide :: "gotime \<Rightarrow> notifier option \<Rightarrow> transition_set option \<Rightarrow> speech" where
  "decide now nf t =
     (case nf of
        None \<Rightarrow> SpeechUnconfigured
      | Some n \<Rightarrow>
          if nfConv n = [] then SpeechUnconfigured
          else case t of
                 None \<Rightarrow> SpeechSpeak
               | Some ts \<Rightarrow>
                   if \<not> Empty ts then SpeechSpeak
                   else if 0 < nfDigest n \<and> nfSpokeAt n + nfDigest n \<le> now then SpeechDigest
                   else SpeechQuiet)"

definition nf_quiet :: "notifier \<Rightarrow> notifier \<times> cycle_event list" where
  "nf_quiet n = (if nfConv n = [] then (n, []) else (n\<lparr>nfRef := no_ref, nfText := []\<rparr>, [Count NQuiet]))"

definition nf_post :: "ingress \<Rightarrow> string \<Rightarrow> string \<Rightarrow> notifier \<Rightarrow> (notify_error + notice) \<times> notifier \<times> request list" where
  "nf_post ing text idem n =
     (case Post ing (nfConv n) text idem of
        (Inl e, rqs) \<Rightarrow> (Inl e, n, rqs)
      | (Inr r, rqs) \<Rightarrow> (Inr NPosted, n\<lparr>nfRef := r, nfText := text\<rparr>, rqs))"

text \<open>The rest of \<^verbatim>\<open>send\<close> once an append was refused for its text or its message.\<close>

definition nf_repost :: "ingress \<Rightarrow> string \<Rightarrow> string \<Rightarrow> request list \<Rightarrow> notifier \<Rightarrow> (notify_error + notice) \<times> notifier \<times> request list" where
  "nf_repost ing full idem rqs n =
     (case nf_post ing full (idem @ idemNew) (n\<lparr>nfRef := no_ref, nfText := []\<rparr>) of (out, n', rqs') \<Rightarrow> (out, n', rqs @ rqs'))"

definition nf_send :: "ingress \<Rightarrow> string \<Rightarrow> string \<Rightarrow> notifier \<Rightarrow> (notify_error + notice) \<times> notifier \<times> request list" where
  "nf_send ing text idem n =
     (if Zero (nfRef n) then nf_post ing text idem n
      else
        (case Append ing (nfRef n) text idem of
           (Inr r, rqs) \<Rightarrow>
             if r \<noteq> nfRef n then (Inr NRolled, n\<lparr>nfRef := r, nfText := text\<rparr>, rqs)
             else (Inr NAppended, n\<lparr>nfText := nfText n @ timelineSep @ text\<rparr>, rqs)
         | (Inl e, rqs) \<Rightarrow>
             if \<not> error_is ErrSendFullText e \<and> \<not> error_is ErrNoSuchMessage e then (Inl e, n, rqs)
             else
               (let full = nfText n @ timelineSep @ text
                in if error_is ErrSendFullText e
                   then (case Replace ing (nfRef n) full (idem @ idemFull) of
                           (Inr _, rqs') \<Rightarrow> (Inr NReplaced, n\<lparr>nfText := full\<rparr>, rqs @ rqs')
                         | (Inl re, rqs') \<Rightarrow>
                             if \<not> error_is ErrEditUnsupported re \<and> \<not> error_is ErrNoSuchMessage re then (Inl re, n, rqs @ rqs')
                             else nf_repost ing full idem (rqs @ rqs') n)
                   else nf_repost ing full idem rqs n)))"

text \<open>\<open>Inl ()\<close> is an error of the fire.\<close>

definition nf_speak :: "ingress \<Rightarrow> gotime \<Rightarrow> string \<Rightarrow> string \<Rightarrow> notifier \<Rightarrow> (unit + unit) \<times> notifier \<times> cycle_event list" where
  "nf_speak ing now text0 idem n =
     (if nfConv n = [] then (Inr (), n, [])
      else let text = TrimSpace text0
           in if text = [] then (Inl (), n, [Count NError])
              else case nf_send ing text idem n of
                     (Inl e, n', rqs) \<Rightarrow> (Inl (), n'\<lparr>nfRef := no_ref, nfText := []\<rparr>, map Request rqs @ [Count NError])
                   | (Inr out, n', rqs) \<Rightarrow> (Inr (), n'\<lparr>nfSpokeAt := now\<rparr>, map Request rqs @ [Count out]))"

definition nf_idem :: "(gotime \<Rightarrow> string) \<Rightarrow> notifier \<Rightarrow> gotime \<Rightarrow> string" where
  "nf_idem rfc n tick = ''mast:'' @ nfWorkload n @ '':'' @ rfc tick"

definition health :: "ingress \<Rightarrow> (gotime \<Rightarrow> string) \<Rightarrow> gotime \<Rightarrow> string \<Rightarrow> notifier \<Rightarrow> cycle_event list" where
  "health ing rfc tick text n =
     (case Post ing (nfConv n) text (nf_idem rfc n tick @ idemHealth) of
        (Inl e, rqs) \<Rightarrow> map Request rqs @ [Count NError]
      | (Inr r, rqs) \<Rightarrow> map Request rqs @ [Count NHealth])"

definition em_dash :: string where "em_dash = [CHR 0xE2, CHR 0x80, CHR 0x94]"

definition failed_text :: "(gotime \<Rightarrow> string) \<Rightarrow> notifier \<Rightarrow> gotime \<Rightarrow> string \<Rightarrow> string" where
  "failed_text rfc n tick cause =
     ''mast could not complete the '' @ nfWorkload n @ '' monitoring cycle for '' @ rfc tick @ '': '' @ cause
     @ [CHR 0x0A, CHR 0x0A] @ ''Nothing was assessed for that tick. The cadence continues, and this notice is sent once rather than on every failed cycle ''
     @ em_dash @ '' watch mast_scheduled_fires_total{outcome='' @ [CHR 0x22] @ ''error'' @ [CHR 0x22] @ ''} for the rate.''"

definition recovered_text :: "(gotime \<Rightarrow> string) \<Rightarrow> notifier \<Rightarrow> gotime \<Rightarrow> string" where
  "recovered_text rfc n tick =
     ''mast completed the '' @ nfWorkload n @ '' monitoring cycle for '' @ rfc tick @ ''. Monitoring has recovered.''"

definition cycleFailed :: "ingress \<Rightarrow> (gotime \<Rightarrow> string) \<Rightarrow> gotime \<Rightarrow> string \<Rightarrow> notifier \<Rightarrow> notifier \<times> cycle_event list" where
  "cycleFailed ing rfc tick cause n =
     (if nfConv n = [] \<or> nfFailing n then (n, [])
      else (n\<lparr>nfFailing := True, nfRef := no_ref, nfText := []\<rparr>,
            Health True # health ing rfc tick (failed_text rfc n tick cause) n))"

definition cycleRecovered :: "ingress \<Rightarrow> (gotime \<Rightarrow> string) \<Rightarrow> gotime \<Rightarrow> notifier \<Rightarrow> notifier \<times> cycle_event list" where
  "cycleRecovered ing rfc tick n =
     (if nfConv n = [] \<or> \<not> nfFailing n then (n, [])
      else (n\<lparr>nfFailing := False\<rparr>, Health False # health ing rfc tick (recovered_text rfc n tick) n))"

section \<open>Collection\<close>

type_synonym tool_result = "(string, string option) gomap"

record collect_call =
  ccTool :: string
  ccAs :: string

definition call_Key :: "collect_call \<Rightarrow> string" where
  "call_Key c = (if TrimSpace (ccAs c) \<noteq> [] then TrimSpace (ccAs c) else TrimSpace (ccTool c))"

record collector =
  clCalls :: "collect_call list"
  clTransitionsKey :: string

record cycle_facts =
  cfCollected :: "(string, tool_result) gomap"
  cfTransitions :: "transition_set option"

text \<open>What the outside answers in one cycle: whether the context is still live before a call, the tools, the model's
  turn (its last text, or the text of its error), the ingress, and the clock when the cycle decides and when it has
  spoken.\<close>

record cycle_env =
  evLive :: "string \<Rightarrow> bool"
  evTool :: "string \<Rightarrow> tool_result option"
  evTurn :: "string + string"
  evIngress :: ingress
  evDecideAt :: gotime
  evSpokeAt :: gotime
  evCause :: string

fun collect_from ::
  "json_decoder \<Rightarrow> string \<Rightarrow> cycle_env \<Rightarrow> collect_call list \<Rightarrow> cycle_facts \<Rightarrow> cycle_facts option" where
  "collect_from dec tkey ev [] facts = Some facts"
| "collect_from dec tkey ev (c # cs) facts =
     (if \<not> evLive ev (call_Key c) then None
      else case evTool ev (ccTool c) of
             None \<Rightarrow> None
           | Some result \<Rightarrow>
               if call_Key c \<noteq> [] \<and> call_Key c = tkey
               then (case ParseResult dec result of
                       Inl e \<Rightarrow> None
                     | Inr tset \<Rightarrow> collect_from dec tkey ev cs (facts\<lparr>cfTransitions := Some tset\<rparr>))
               else collect_from dec tkey ev cs (facts\<lparr>cfCollected := AList.update (call_Key c) result (cfCollected facts)\<rparr>))"

definition collect :: "json_decoder \<Rightarrow> cycle_env \<Rightarrow> collector option \<Rightarrow> cycle_facts option" where
  "collect dec ev cl =
     (let none = \<lparr>cfCollected = [], cfTransitions = None\<rparr>
      in case cl of None \<Rightarrow> Some none | Some c \<Rightarrow> collect_from dec (clTransitionsKey c) ev (clCalls c) none)"

section \<open>The callback of a tick\<close>

record scheduled_payload =
  spWorkload :: string
  spTick :: string
  spCollected :: "(string, tool_result) gomap"
  spTransitions :: "transition_set option"
  spDigest :: bool

text \<open>\<open>cyRFC\<close> and \<open>cyStamp\<close> format a time, \<open>cyMarshal\<close> encodes the payload; \<open>cyPrompt\<close> is the bundle's prompt.\<close>

record cycle_config =
  cyWorkload :: string
  cyPrompt :: string
  cyDecoder :: json_decoder
  cyRFC :: "gotime \<Rightarrow> string"
  cyStamp :: "gotime \<Rightarrow> string"
  cyMarshal :: "scheduled_payload \<Rightarrow> string option"
  cyCollector :: "collector option"

definition scheduledSessionID :: "cycle_config \<Rightarrow> gotime \<Rightarrow> string" where
  "scheduledSessionID cfg tick = ''scheduled-'' @ cyWorkload cfg @ ''-'' @ cyStamp cfg tick"

definition on_notifier :: "(notifier \<Rightarrow> notifier \<times> cycle_event list) \<Rightarrow> notifier option \<Rightarrow> notifier option \<times> cycle_event list" where
  "on_notifier f nf = (case nf of None \<Rightarrow> (None, []) | Some n \<Rightarrow> (let (n', evs) = f n in (Some n', evs)))"

definition wake_text :: "cycle_config \<Rightarrow> gotime \<Rightarrow> speech \<Rightarrow> cycle_facts \<Rightarrow> string option" where
  "wake_text cfg tick sp facts =
     map_option (\<lambda>body. ''SCHEDULED '' @ body @ (if cyPrompt cfg = [] then [] else timelineSep @ cyPrompt cfg))
       (cyMarshal cfg \<lparr>spWorkload = cyWorkload cfg, spTick = cyRFC cfg tick, spCollected = cfCollected facts,
          spTransitions = cfTransitions facts, spDigest = (sp = SpeechDigest)\<rparr>)"

text \<open>The turn of a cycle that speaks or that has nobody to speak to.\<close>

definition cycle_turn ::
  "cycle_config \<Rightarrow> cycle_env \<Rightarrow> gotime \<Rightarrow> speech \<Rightarrow> string \<Rightarrow> notifier option \<Rightarrow> bool \<times> notifier option \<times> cycle_event list" where
  "cycle_turn cfg ev tick sp text nf =
     (let turn = Turn (scheduledSessionID cfg tick) text
      in case evTurn ev of
           Inl cause \<Rightarrow> (let (nf', evs) = on_notifier (cycleFailed (evIngress ev) (cyRFC cfg) tick cause) nf in (False, nf', turn # evs))
         | Inr lastText \<Rightarrow>
             if \<not> speaks sp then (True, nf, [turn])
             else case nf of
                    None \<Rightarrow> (True, None, [turn])
                  | Some n \<Rightarrow>
                      (case nf_speak (evIngress ev) (evSpokeAt ev) lastText (nf_idem (cyRFC cfg) n tick) n of
                         (res, n', evs) \<Rightarrow> (res = Inr (), Some n', turn # evs)))"

text \<open>Whether the fire succeeded, the notifier after it, and what it did.\<close>

definition cycle :: "cycle_config \<Rightarrow> cycle_env \<Rightarrow> gotime \<Rightarrow> notifier option \<Rightarrow> bool \<times> notifier option \<times> cycle_event list" where
  "cycle cfg ev tick nf =
     (if IsReservedSessionID (scheduledSessionID cfg tick) then (False, nf, [])
      else case collect (cyDecoder cfg) ev (cyCollector cfg) of
             None \<Rightarrow> (let (nf', evs) = on_notifier (cycleFailed (evIngress ev) (cyRFC cfg) tick (evCause ev)) nf in (False, nf', evs))
           | Some facts \<Rightarrow>
               (let sp = decide (evDecideAt ev) nf (cfTransitions facts);
                    (nf1, evs1) = on_notifier (cycleRecovered (evIngress ev) (cyRFC cfg) tick) nf
                in if sp = SpeechQuiet
                   then (let (nf2, evs2) = on_notifier nf_quiet nf1 in (True, nf2, evs1 @ evs2))
                   else
                     (let wake = (if sp = SpeechDigest \<and> nf_enabled nf1 then [Count NDigestWake] else [])
                      in case wake_text cfg tick sp facts of
                           None \<Rightarrow> (False, nf1, evs1 @ wake)
                         | Some text \<Rightarrow>
                             (case cycle_turn cfg ev tick sp text nf1 of
                                (ok, nf2, evs2) \<Rightarrow> (ok, nf2, evs1 @ wake @ evs2)))))"

text \<open>A sequence of cycles: the notifier after it, what was done, and the times at which a report was delivered.\<close>

fun delivery :: "cycle_event \<Rightarrow> bool" where
  "delivery (Count out) = (out \<in> {NPosted, NAppended, NRolled, NReplaced})"
| "delivery _ = False"

fun is_turn :: "cycle_event \<Rightarrow> bool" where
  "is_turn (Turn sid text) = True"
| "is_turn _ = False"

record monitoring =
  moNotifier :: "notifier option"
  moEvents :: "cycle_event list"
  moSpoken :: "gotime list"

definition cycle_step :: "cycle_config \<Rightarrow> monitoring \<Rightarrow> gotime \<times> cycle_env \<Rightarrow> monitoring" where
  "cycle_step cfg m te =
     (case cycle cfg (snd te) (fst te) (moNotifier m) of
        (_, nf, evs) \<Rightarrow>
          \<lparr>moNotifier = nf, moEvents = moEvents m @ evs,
           moSpoken = moSpoken m @ (if list_ex delivery evs then [evSpokeAt (snd te)] else [])\<rparr>)"

definition run_cycles :: "cycle_config \<Rightarrow> notifier \<Rightarrow> (gotime \<times> cycle_env) list \<Rightarrow> monitoring" where
  "run_cycles cfg n ticks = foldl (cycle_step cfg) \<lparr>moNotifier = Some n, moEvents = [], moSpoken = []\<rparr> ticks"

text \<open>The notices of a sequence, and what it means that they alternate.\<close>

fun health_of :: "cycle_event \<Rightarrow> bool list" where
  "health_of (Health b) = [b]"
| "health_of _ = []"

definition notices :: "cycle_event list \<Rightarrow> bool list" where
  "notices evs = concat (map health_of evs)"

fun alternating :: "bool \<Rightarrow> bool list \<Rightarrow> bool" where
  "alternating b [] = True"
| "alternating b (c # cs) = (c = b \<and> alternating (\<not> b) cs)"

text \<open>The message that is being extended, as the reports it tells: none, or all since it was opened.\<close>

definition tells :: "notifier \<Rightarrow> string list \<Rightarrow> bool" where
  "tells n told \<longleftrightarrow> nfText n = Join told timelineSep \<and> (Zero (nfRef n) \<longleftrightarrow> told = [])"

definition tell :: "string list \<Rightarrow> string \<Rightarrow> notice \<Rightarrow> string list" where
  "tell told text out = (if out = NRolled then [text] else told @ [text])"

text \<open>Two cycles of a workload that collects nothing: its turns fail. And one that classifies.\<close>

definition demo_ingress :: ingress where
  "demo_ingress rq = Response 200 \<lparr>rfConversation = ''ops'', rfID = ''m1''\<rparr>"

definition demo_cfg :: cycle_config where
  "demo_cfg = \<lparr>cyWorkload = ''w'', cyPrompt = [], cyDecoder = (\<lambda>_. None), cyRFC = (\<lambda>t. itoa t), cyStamp = (\<lambda>t. itoa t),
     cyMarshal = (\<lambda>p. Some ''{}''),
     cyCollector = Some \<lparr>clCalls = [\<lparr>ccTool = ''diff'', ccAs = ''d''\<rparr>], clTransitionsKey = ''d''\<rparr>\<rparr>"

definition demo_nf :: notifier where
  "demo_nf = \<lparr>nfConv = ''ops'', nfDigest = 60, nfWorkload = ''w'', nfRef = no_ref, nfText = [], nfSpokeAt = 100, nfFailing = False\<rparr>"

definition demo_env :: "string \<Rightarrow> string + string \<Rightarrow> gotime \<Rightarrow> cycle_env" where
  "demo_env out turn now =
     \<lparr>evLive = (\<lambda>_. True), evTool = (\<lambda>_. Some [(''output'', Some out)]), evTurn = turn, evIngress = demo_ingress,
      evDecideAt = now, evSpokeAt = now + 1, evCause = ''no answer''\<rparr>"

definition demo_quiet :: string where "demo_quiet = ''scanned=4 findings=0''"

definition demo_change :: string where
  "demo_change = ''transition=new subject_key=a'' @ [CHR 0x0A] @ ''scanned=4 findings=1''"

text \<open>What each request of a report carries: the report alone where the ingress extends the message, everything the
  message tells where it asks for the full text or the message is gone.\<close>

definition carries :: "string list \<Rightarrow> string \<Rightarrow> request \<Rightarrow> bool" where
  "carries told text rq \<longleftrightarrow>
     msAppend (rqBody rq) = text \<and> msText (rqBody rq) = [] \<and> told \<noteq> []
     \<or> msAppend (rqBody rq) = [] \<and> msText (rqBody rq) = Join (told @ [text]) timelineSep"

text \<open>What every cycle keeps of the notifier, and what its events are.\<close>

definition cycle_kept :: "cycle_env \<Rightarrow> notifier \<Rightarrow> notifier \<Rightarrow> cycle_event list \<Rightarrow> bool" where
  "cycle_kept ev n n' evs \<longleftrightarrow>
     nfConv n' = nfConv n \<and> nfDigest n' = nfDigest n
     \<and> nfSpokeAt n' = (if list_ex delivery evs then evSpokeAt ev else nfSpokeAt n)
     \<and> (nfConv n \<noteq> [] \<longrightarrow> alternating (\<not> nfFailing n) (notices evs) \<and> nfFailing n' = (nfFailing n = even (length (notices evs))))"

section \<open>Lemmas and properties\<close>

subsection \<open>The message of a timeline\<close>

lemma Join_snoc: "Join (xs @ [x]) sep = (if xs = [] then x else Join xs sep @ sep @ x)"
  by (induction xs sep rule: Join.induct) auto

lemma Post_ref: "Post ing conv text idem = (Inr r, rqs) \<Longrightarrow> \<not> Zero r"
  by (auto simp: Post_def Zero_def Let_def split: if_splits sum.splits)

lemma Append_ref: "Append ing r0 line idem = (Inr r, rqs) \<Longrightarrow> \<not> Zero r"
  by (auto simp: Append_def Zero_def Let_def split: if_splits sum.splits)

lemma nf_post_tells:
  assumes "nf_post ing (Join told timelineSep) idem n = (Inr out, n', rqs)" "told \<noteq> []"
  shows "out = NPosted \<and> tells n' told \<and> rqs = [mk_request POST (nfConv n) [] (Join told timelineSep) [] idem]"
  using assms Post_ref[of ing "nfConv n" "Join told timelineSep" idem]
  by (auto simp: nf_post_def tells_def Post_def Let_def split: prod.splits sum.splits if_splits)

text \<open>
  The message is what the cycles said: a report that was delivered leaves the notifier with the reports the message
  had and the new one, or with the new one alone where the ingress opened a continuation; and whenever the ingress is
  sent a full text, it is the whole story with the new report.
\<close>

theorem timeline_refined:
  assumes "tells n told" "nf_send ing text idem n = (Inr out, n', rqs)"
  shows "tells n' (tell told text out) \<and> list_all (carries told text) rqs"
proof (cases "Zero (nfRef n)")
  case True
  then have told: "told = []" using assms(1) by (simp add: tells_def)
  have "nf_post ing (Join [text] timelineSep) idem n = (Inr out, n', rqs)" using assms(2) True by (simp add: nf_send_def)
  from nf_post_tells[OF this] show ?thesis by (simp add: tell_def told carries_def mk_request_def)
next
  case False
  then have told: "told \<noteq> []" "nfText n = Join told timelineSep" using assms(1) by (auto simp: tells_def)
  have full: "nfText n @ timelineSep @ text = Join (told @ [text]) timelineSep" using told by (simp add: Join_snoc)
  obtain res rqs1 where app: "Append ing (nfRef n) text idem = (res, rqs1)" by (cases "Append ing (nfRef n) text idem")
  then have c1: "list_all (carries told text) rqs1"
    using told(1) by (auto simp: Append_def carries_def mk_request_def Let_def split: if_splits)
  have repost: "tells n' (tell told text out) \<and> list_all (carries told text) rqs"
    if post: "nf_repost ing (nfText n @ timelineSep @ text) idem rs n = (Inr out, n', rqs)" and rs: "list_all (carries told text) rs" for rs
  proof -
    obtain rs' where "nf_post ing (Join (told @ [text]) timelineSep) (idem @ idemNew) (n\<lparr>nfRef := no_ref, nfText := []\<rparr>) = (Inr out, n', rs')"
      and rqs: "rqs = rs @ rs'" using post[unfolded nf_repost_def full] by (auto split: prod.splits)
    from nf_post_tells[OF this(1)] show ?thesis using rs rqs by (auto simp: tell_def carries_def mk_request_def)
  qed
  show ?thesis
  proof (cases res)
    case (Inr r)
    then show ?thesis using app assms(2) False told full c1 Append_ref[OF app[unfolded Inr]]
      by (auto simp: nf_send_def tells_def tell_def split: if_splits)
  next
    case (Inl e)
    show ?thesis
    proof (cases "error_is ErrSendFullText e")
      case True
      obtain res2 rqs2 where rep: "Replace ing (nfRef n) (nfText n @ timelineSep @ text) (idem @ idemFull) = (res2, rqs2)"
        by (cases "Replace ing (nfRef n) (nfText n @ timelineSep @ text) (idem @ idemFull)")
      then have c2: "list_all (carries told text) rqs2"
        by (auto simp: Replace_def carries_def mk_request_def full Let_def split: if_splits)
      show ?thesis
      proof (cases res2)
        case (Inr u)
        then show ?thesis using app rep Inl True assms(2) False told full c1 c2
          by (auto simp: nf_send_def tells_def tell_def Let_def)
      next
        case (Inl re)
        then show ?thesis using app rep \<open>res = Inl e\<close> True assms(2) False c1 c2 repost[of "rqs1 @ rqs2"]
          by (auto simp: nf_send_def Let_def split: if_splits)
      qed
    next
      case no: False
      then show ?thesis using app Inl assms(2) False c1 repost[of rqs1] by (auto simp: nf_send_def Let_def split: if_splits)
    qed
  qed
qed

subsection \<open>Notices\<close>

lemma notices_simps [simp]:
  "notices [] = []" "notices (e # evs) = health_of e @ notices evs" "notices (xs @ ys) = notices xs @ notices ys"
  by (simp_all add: notices_def)

lemma notices_requests [simp]: "notices (map Request rqs) = []"
  by (induction rqs) simp_all

lemma notices_health [simp]: "notices (health ing rfc tick text n) = []"
  by (auto simp: health_def split: prod.splits sum.splits)

lemma notices_speak: "nf_speak ing now text idem n = (res, n', evs) \<Longrightarrow> notices evs = []"
  by (auto simp: nf_speak_def Let_def split: if_splits prod.splits sum.splits)

lemma failing_post: "nf_post ing text idem n = (res, n', rqs) \<Longrightarrow> nfFailing n' = nfFailing n \<and> nfConv n' = nfConv n \<and> nfDigest n' = nfDigest n \<and> nfSpokeAt n' = nfSpokeAt n"
  by (auto simp: nf_post_def split: prod.splits sum.splits)

lemma failing_send: "nf_send ing text idem n = (res, n', rqs) \<Longrightarrow> nfFailing n' = nfFailing n \<and> nfConv n' = nfConv n \<and> nfDigest n' = nfDigest n \<and> nfSpokeAt n' = nfSpokeAt n"
  by (auto simp: nf_send_def nf_repost_def Let_def dest: failing_post split: if_splits prod.splits sum.splits)

lemma failing_speak: "nf_speak ing now text idem n = (res, n', evs) \<Longrightarrow> nfFailing n' = nfFailing n \<and> nfConv n' = nfConv n \<and> nfDigest n' = nfDigest n"
  by (auto simp: nf_speak_def Let_def dest: failing_send split: if_splits prod.splits sum.splits)

text \<open>A cycle by its cases: refused, failed in collection, quiet, not marshalled, failed in its turn, or reported.\<close>

lemma cycle_cases [consumes 1, case_names reserved failed quiet unmarshalled turn]:
  assumes "cycle cfg ev tick (Some n) = (ok, nf, evs)"
  obtains "nf = Some n" "evs = []" "ok = False"
  | "collect (cyDecoder cfg) ev (cyCollector cfg) = None" "ok = False"
      "(nf, evs) = on_notifier (cycleFailed (evIngress ev) (cyRFC cfg) tick (evCause ev)) (Some n)"
  | facts n1 evs1 n2 evs2 where "collect (cyDecoder cfg) ev (cyCollector cfg) = Some facts" "ok = True"
      "decide (evDecideAt ev) (Some n) (cfTransitions facts) = SpeechQuiet"
      "cycleRecovered (evIngress ev) (cyRFC cfg) tick n = (n1, evs1)" "nf_quiet n1 = (n2, evs2)" "nf = Some n2" "evs = evs1 @ evs2"
  | facts n1 evs1 wake where "collect (cyDecoder cfg) ev (cyCollector cfg) = Some facts" "ok = False"
      "wake_text cfg tick (decide (evDecideAt ev) (Some n) (cfTransitions facts)) facts = None"
      "cycleRecovered (evIngress ev) (cyRFC cfg) tick n = (n1, evs1)" "wake \<in> {[], [Count NDigestWake]}" "nf = Some n1" "evs = evs1 @ wake"
  | facts n1 evs1 wake body evs2 where "collect (cyDecoder cfg) ev (cyCollector cfg) = Some facts"
      "decide (evDecideAt ev) (Some n) (cfTransitions facts) \<noteq> SpeechQuiet"
      "cycleRecovered (evIngress ev) (cyRFC cfg) tick n = (n1, evs1)" "wake \<in> {[], [Count NDigestWake]}"
      "cycle_turn cfg ev tick (decide (evDecideAt ev) (Some n) (cfTransitions facts)) body (Some n1) = (ok, nf, evs2)"
      "evs = evs1 @ wake @ evs2"
proof -
  consider "IsReservedSessionID (scheduledSessionID cfg tick)"
    | "\<not> IsReservedSessionID (scheduledSessionID cfg tick)" "collect (cyDecoder cfg) ev (cyCollector cfg) = None"
    | facts where "\<not> IsReservedSessionID (scheduledSessionID cfg tick)" "collect (cyDecoder cfg) ev (cyCollector cfg) = Some facts"
    by (cases "collect (cyDecoder cfg) ev (cyCollector cfg)") auto
  then show ?thesis
  proof cases
    case 1
    then show ?thesis using assms that(1) by (simp add: cycle_def)
  next
    case 2
    then show ?thesis using assms that(2) by (auto simp: cycle_def split: prod.splits)
  next
    case (3 facts)
    let ?sp = "decide (evDecideAt ev) (Some n) (cfTransitions facts)"
    obtain n1 evs1 where rec: "cycleRecovered (evIngress ev) (cyRFC cfg) tick n = (n1, evs1)" by fastforce
    show ?thesis
    proof (cases "?sp = SpeechQuiet")
      case True
      obtain n2 evs2 where q: "nf_quiet n1 = (n2, evs2)" by fastforce
      then show ?thesis using assms 3 rec True that(3)[OF 3(2) _ True rec q] by (auto simp: cycle_def on_notifier_def)
    next
      case False
      define wake where "wake = (if ?sp = SpeechDigest \<and> nf_enabled (Some n1) then [Count NDigestWake] else [])"
      have w: "wake \<in> {[], [Count NDigestWake]}" by (simp add: wake_def)
      show ?thesis
      proof (cases "wake_text cfg tick ?sp facts")
        case None
        then show ?thesis using assms 3 rec False w that(4)[OF 3(2) _ None rec w] by (auto simp: cycle_def on_notifier_def wake_def)
      next
        case (Some body)
        obtain ok' nf' evs2 where t: "cycle_turn cfg ev tick ?sp body (Some n1) = (ok', nf', evs2)" by (cases "cycle_turn cfg ev tick ?sp body (Some n1)")
        then show ?thesis using assms 3 rec False Some w that(5)[OF 3(2) False rec w, of body evs2]
          by (auto simp: cycle_def on_notifier_def wake_def)
      qed
    qed
  qed
qed

lemma failed_keeps:
  "cycleFailed ing rfc tick cause n = (n', evs) \<Longrightarrow>
     nfConv n' = nfConv n \<and> nfDigest n' = nfDigest n \<and> nfSpokeAt n' = nfSpokeAt n \<and> \<not> list_ex delivery evs
     \<and> (nfConv n \<noteq> [] \<longrightarrow> alternating (\<not> nfFailing n) (notices evs) \<and> nfFailing n' = (nfFailing n = even (length (notices evs))))"
  by (auto simp: cycleFailed_def health_def list_ex_iff split: if_splits prod.splits sum.splits)

lemma recovered_keeps:
  "cycleRecovered ing rfc tick n = (n', evs) \<Longrightarrow>
     nfConv n' = nfConv n \<and> nfDigest n' = nfDigest n \<and> nfSpokeAt n' = nfSpokeAt n \<and> \<not> list_ex delivery evs
     \<and> (nfConv n \<noteq> [] \<longrightarrow> alternating (\<not> nfFailing n) (notices evs) \<and> nfFailing n' = (nfFailing n = even (length (notices evs))))"
  by (auto simp: cycleRecovered_def health_def list_ex_iff split: if_splits prod.splits sum.splits)

lemma alternating_append:
  "alternating b xs \<Longrightarrow> alternating (b = even (length xs)) ys \<Longrightarrow> alternating b (xs @ ys)"
proof (induction b xs rule: alternating.induct)
  case (2 b c cs)
  have "(b = even (length (c # cs))) = ((\<not> b) = even (length cs))" by auto
  then show ?case using 2 by simp
qed simp

lemma delivery_health: "\<not> list_ex delivery (health ing rfc tick body n)"
  by (auto simp: health_def list_ex_iff split: prod.splits sum.splits)

lemma send_outcome: "nf_send ing body idem n = (Inr out, n', rqs) \<Longrightarrow> out \<in> {NPosted, NAppended, NRolled, NReplaced}"
  by (auto simp: nf_send_def nf_repost_def nf_post_def Let_def split: if_splits prod.splits sum.splits)

lemma speak_spoken:
  "nf_speak ing now body idem n = (res, n', evs) \<Longrightarrow> nfSpokeAt n' = (if list_ex delivery evs then now else nfSpokeAt n)"
  by (auto simp: nf_speak_def Let_def list_ex_iff dest: failing_send send_outcome split: if_splits prod.splits sum.splits)

lemma cycle_kept_append:
  assumes "cycle_kept ev n n1 evs1" "\<not> list_ex delivery evs1" "cycle_kept ev n1 n2 evs2"
  shows "cycle_kept ev n n2 (evs1 @ evs2)"
  using assms alternating_append[of "\<not> nfFailing n" "notices evs1" "notices evs2"]
  by (auto simp: cycle_kept_def list_ex_append)

lemma turn_kept:
  assumes "cycle_turn cfg ev tick sp body (Some n) = (ok, nf, evs)"
  shows "\<exists>n'. nf = Some n' \<and> cycle_kept ev n n' evs"
proof (cases "evTurn ev")
  case (Inl cause)
  obtain n' evs' where "cycleFailed (evIngress ev) (cyRFC cfg) tick cause n = (n', evs')" by fastforce
  then show ?thesis using assms Inl failed_keeps[of "evIngress ev" "cyRFC cfg" tick cause n n' evs']
    by (auto simp: cycle_turn_def on_notifier_def cycle_kept_def Let_def)
next
  case (Inr t)
  obtain res n' evs' where sp: "nf_speak (evIngress ev) (evSpokeAt ev) t (nf_idem (cyRFC cfg) n tick) n = (res, n', evs')"
    by (cases "nf_speak (evIngress ev) (evSpokeAt ev) t (nf_idem (cyRFC cfg) n tick) n")
  show ?thesis using assms Inr sp failing_speak[OF sp] notices_speak[OF sp] speak_spoken[OF sp]
    by (auto simp: cycle_turn_def cycle_kept_def Let_def split: if_splits)
qed

lemma cycle_keeps:
  assumes "cycle cfg ev tick (Some n) = (ok, nf, evs)"
  shows "\<exists>n'. nf = Some n' \<and> cycle_kept ev n n' evs"
  using assms
proof (cases rule: cycle_cases)
  case reserved
  then show ?thesis by (simp add: cycle_kept_def)
next
  case failed
  obtain n' evs' where "cycleFailed (evIngress ev) (cyRFC cfg) tick (evCause ev) n = (n', evs')" by fastforce
  then show ?thesis using failed failed_keeps[of "evIngress ev" "cyRFC cfg" tick "evCause ev" n n' evs']
    by (auto simp: on_notifier_def cycle_kept_def)
next
  case (quiet facts n1 evs1 n2 evs2)
  have "cycle_kept ev n n1 evs1" "\<not> list_ex delivery evs1" using recovered_keeps[OF quiet(4)] by (auto simp: cycle_kept_def)
  moreover have "cycle_kept ev n1 n2 evs2" using quiet(5) by (auto simp: nf_quiet_def cycle_kept_def split: if_splits)
  ultimately show ?thesis using quiet cycle_kept_append by blast
next
  case (unmarshalled facts n1 evs1 wake)
  have "cycle_kept ev n n1 evs1" "\<not> list_ex delivery evs1" using recovered_keeps[OF unmarshalled(4)] by (auto simp: cycle_kept_def)
  moreover have "cycle_kept ev n1 n1 wake" using unmarshalled(5) by (auto simp: cycle_kept_def)
  ultimately show ?thesis using unmarshalled cycle_kept_append by blast
next
  case (turn facts n1 evs1 wake body evs2)
  have "cycle_kept ev n n1 evs1" "\<not> list_ex delivery evs1" using recovered_keeps[OF turn(3)] by (auto simp: cycle_kept_def)
  moreover obtain n2 where n2: "nf = Some n2" "cycle_kept ev n1 n2 evs2" using turn_kept[OF turn(5)] by blast
  moreover have "cycle_kept ev n1 n1 wake" "\<not> list_ex delivery wake" using turn(4) by (auto simp: cycle_kept_def)
  ultimately show ?thesis using turn(6) cycle_kept_append by blast
qed

text \<open>A run of cycles: the same conversation and digest, notices that alternate, and the time of the last report.\<close>

lemma run_keeps:
  "\<exists>n'. moNotifier (run_cycles cfg n ticks) = Some n' \<and> nfConv n' = nfConv n \<and> nfDigest n' = nfDigest n
    \<and> nfSpokeAt n' = last (nfSpokeAt n # moSpoken (run_cycles cfg n ticks))
    \<and> (nfConv n \<noteq> [] \<longrightarrow> alternating (\<not> nfFailing n) (notices (moEvents (run_cycles cfg n ticks)))
        \<and> nfFailing n' = (nfFailing n = even (length (notices (moEvents (run_cycles cfg n ticks))))))"
proof (induction ticks rule: rev_induct)
  case Nil
  then show ?case by (simp add: run_cycles_def)
next
  case (snoc te ticks)
  let ?m = "run_cycles cfg n ticks"
  obtain n1 where n1: "moNotifier ?m = Some n1" "nfConv n1 = nfConv n" "nfDigest n1 = nfDigest n"
    "nfSpokeAt n1 = last (nfSpokeAt n # moSpoken ?m)"
    "nfConv n \<noteq> [] \<longrightarrow> alternating (\<not> nfFailing n) (notices (moEvents ?m)) \<and> nfFailing n1 = (nfFailing n = even (length (notices (moEvents ?m))))"
    using snoc by blast
  obtain ok nf evs where c: "cycle cfg (snd te) (fst te) (Some n1) = (ok, nf, evs)" by (cases "cycle cfg (snd te) (fst te) (Some n1)")
  then obtain n2 where n2: "nf = Some n2" "cycle_kept (snd te) n1 n2 evs" using cycle_keeps by blast
  have "run_cycles cfg n (ticks @ [te]) = cycle_step cfg ?m te" by (simp add: run_cycles_def)
  then show ?case using n1 n2 c alternating_append[of "\<not> nfFailing n" "notices (moEvents ?m)" "notices evs"]
    by (auto simp: cycle_step_def cycle_kept_def)
qed

text \<open>
  The channel is told that the monitoring fails, and that it has recovered, by turns: in any sequence of cycles the
  notices alternate, a failure first.
\<close>

theorem notices_alternate:
  assumes "nfConv n \<noteq> []" "\<not> nfFailing n"
  shows "alternating True (notices (moEvents (run_cycles cfg n ticks)))"
  using run_keeps[of cfg n ticks] assms by auto

lemma turn_run:
  assumes "\<not> IsReservedSessionID (scheduledSessionID cfg tick)" "collect (cyDecoder cfg) ev (cyCollector cfg) = Some facts"
    and "\<And>p. cyMarshal cfg p \<noteq> None" "decide (evDecideAt ev) (Some n) (cfTransitions facts) \<noteq> SpeechQuiet"
    and "cycle cfg ev tick (Some n) = (ok, nf, evs)"
  shows "list_ex is_turn evs"
proof -
  let ?sp = "decide (evDecideAt ev) (Some n) (cfTransitions facts)"
  have "wake_text cfg tick ?sp facts \<noteq> None" using assms(3) by (simp add: wake_text_def)
  then obtain body where b: "wake_text cfg tick ?sp facts = Some body" by blast
  obtain n1 evs1 where r: "cycleRecovered (evIngress ev) (cyRFC cfg) tick n = (n1, evs1)" by fastforce
  obtain ok' nf' evs2 where t: "cycle_turn cfg ev tick ?sp body (Some n1) = (ok', nf', evs2)" by (cases "cycle_turn cfg ev tick ?sp body (Some n1)")
  then have "list_ex is_turn evs2" by (auto simp: cycle_turn_def Let_def split: sum.splits if_splits prod.splits)
  then show ?thesis using assms r b t by (auto simp: cycle_def on_notifier_def)
qed


text \<open>
  Silence is bounded: in any sequence of cycles, one that collected its facts and runs no turn found that nothing had
  changed, less than the digest time after the last delivered report or, when there was none, the start.
\<close>

theorem silence_bounded:
  assumes "nfConv n \<noteq> []" "0 < nfDigest n" "\<not> IsReservedSessionID (scheduledSessionID cfg tick)"
    and "collect (cyDecoder cfg) ev (cyCollector cfg) = Some facts" "\<And>p. cyMarshal cfg p \<noteq> None"
    and "\<not> list_ex is_turn (snd (snd (cycle cfg ev tick (moNotifier (run_cycles cfg n ticks)))))"
  shows "evDecideAt ev < last (nfSpokeAt n # moSpoken (run_cycles cfg n ticks)) + nfDigest n"
proof -
  obtain n' where n': "moNotifier (run_cycles cfg n ticks) = Some n'" "nfConv n' = nfConv n" "nfDigest n' = nfDigest n"
    "nfSpokeAt n' = last (nfSpokeAt n # moSpoken (run_cycles cfg n ticks))" using run_keeps by blast
  obtain ok nf evs where c: "cycle cfg ev tick (Some n') = (ok, nf, evs)" by (cases "cycle cfg ev tick (Some n')")
  have "\<not> list_ex is_turn evs" using assms(6) n' c by simp
  moreover have "list_ex is_turn evs" if "nfSpokeAt n' + nfDigest n' \<le> evDecideAt ev"
  proof -
    have "decide (evDecideAt ev) (Some n') (cfTransitions facts) \<noteq> SpeechQuiet"
      using that n' assms(1,2) by (auto simp: decide_def split: option.splits)
    then show ?thesis using turn_run[OF assms(3,4,5) _ c] by blast
  qed
  ultimately show ?thesis using n' by force
qed

text \<open>
  A workload whose turns keep failing is announced twice in every cycle: the collection succeeds, so the channel is told
  that the monitoring has recovered and the cycle was completed, and then that it could not be. Both notices have the
  same idempotency key.
\<close>

theorem failing_turns_announced:
  assumes "nfConv n \<noteq> []" "nfFailing n" "\<not> IsReservedSessionID (scheduledSessionID cfg tick)"
    and "collect (cyDecoder cfg) ev (cyCollector cfg) = Some facts" "\<And>p. cyMarshal cfg p \<noteq> None"
    and "decide (evDecideAt ev) (Some n) (cfTransitions facts) \<noteq> SpeechQuiet" "evTurn ev = Inl cause"
    and "cycle cfg ev tick (Some n) = (ok, nf, evs)"
  shows "notices evs = [False, True] \<and> (case nf of None \<Rightarrow> False | Some n' \<Rightarrow> nfFailing n')
    \<and> list_all (\<lambda>e. case e of Request rq \<Rightarrow> rqIdem rq = TrimSpace (nf_idem (cyRFC cfg) n tick @ idemHealth) | _ \<Rightarrow> True) evs"
proof -
  let ?sp = "decide (evDecideAt ev) (Some n) (cfTransitions facts)" and ?n1 = "n\<lparr>nfFailing := False\<rparr>"
  let ?P = "\<lambda>e. case e of Request rq \<Rightarrow> rqIdem rq = TrimSpace (nf_idem (cyRFC cfg) n tick @ idemHealth) | _ \<Rightarrow> True"
  have "wake_text cfg tick ?sp facts \<noteq> None" using assms(5) by (simp add: wake_text_def)
  then obtain body where b: "wake_text cfg tick ?sp facts = Some body" by blast
  have "nf_idem (cyRFC cfg) ?n1 tick = nf_idem (cyRFC cfg) n tick" by (simp add: nf_idem_def)
  then have h: "list_all ?P (health (evIngress ev) (cyRFC cfg) tick t m)" if "m = n \<or> m = ?n1" for t m
    using that by (auto simp: health_def Post_def mk_request_def Let_def split: prod.splits sum.splits if_splits)
  define w where "w = (if ?sp = SpeechDigest \<and> nf_enabled (Some ?n1) then [Count NDigestWake] else [])"
  have "evs = (Health False # health (evIngress ev) (cyRFC cfg) tick (recovered_text (cyRFC cfg) n tick) n) @ w
      @ Turn (scheduledSessionID cfg tick) body
      # Health True # health (evIngress ev) (cyRFC cfg) tick (failed_text (cyRFC cfg) ?n1 tick cause) ?n1"
    and nf: "nf = Some (?n1\<lparr>nfFailing := True, nfRef := no_ref, nfText := []\<rparr>)"
    using assms b by (auto simp: cycle_def on_notifier_def cycle_turn_def cycleRecovered_def cycleFailed_def w_def)
  moreover have "notices w = []" "list_all ?P w" by (simp_all add: w_def)
  ultimately show ?thesis using h by simp
qed

subsection \<open>Concrete cycles\<close>

lemma demo_marshal: "cyMarshal demo_cfg p \<noteq> None"
  by (simp add: demo_cfg_def)

theorem timeline_refined_witness:
  "\<exists>n' rqs. nf_send demo_ingress ''again'' ''k'' (demo_nf\<lparr>nfRef := \<lparr>rfConversation = ''ops'', rfID = ''m1''\<rparr>, nfText := ''first''\<rparr>) = (Inr NAppended, n', rqs)
     \<and> tells n' [''first'', ''again'']"
proof -
  let ?n = "demo_nf\<lparr>nfRef := \<lparr>rfConversation = ''ops'', rfID = ''m1''\<rparr>, nfText := ''first''\<rparr>"
  have "fst (nf_send demo_ingress ''again'' ''k'' ?n) = Inr NAppended" by code_simp
  then obtain n' rqs where s: "nf_send demo_ingress ''again'' ''k'' ?n = (Inr NAppended, n', rqs)"
    by (cases "nf_send demo_ingress ''again'' ''k'' ?n") auto
  have "tells ?n [''first'']" by (simp add: tells_def Zero_def)
  from timeline_refined[OF this s] show ?thesis using s by (simp add: tell_def)
qed

theorem notices_alternate_witness:
  "alternating True (notices (moEvents (run_cycles demo_cfg demo_nf
     [(1, demo_env ''x'' (Inr ''ok'') 110), (2, demo_env demo_change (Inr ''seen'') 120)])))
   \<and> notices (moEvents (run_cycles demo_cfg demo_nf
     [(1, demo_env ''x'' (Inr ''ok'') 110), (2, demo_env demo_change (Inr ''seen'') 120)])) = [True, False]"
proof -
  have "nfConv demo_nf \<noteq> []" "\<not> nfFailing demo_nf" by (simp_all add: demo_nf_def)
  from notices_alternate[OF this] show ?thesis by (auto) code_simp
qed


theorem silence_bounded_witness:
  "\<not> list_ex is_turn (snd (snd (cycle demo_cfg (demo_env demo_quiet (Inr ''ok'') 150) 3
       (moNotifier (run_cycles demo_cfg demo_nf [(1, demo_env demo_change (Inr ''seen'') 120)])))))
   \<and> (150 :: int) < last (nfSpokeAt demo_nf # moSpoken (run_cycles demo_cfg demo_nf [(1, demo_env demo_change (Inr ''seen'') 120)])) + 60"
proof -
  let ?ev = "demo_env demo_quiet (Inr ''ok'') 150" and ?ticks = "[(1, demo_env demo_change (Inr ''seen'') 120)]"
  have f: "collect (cyDecoder demo_cfg) ?ev (cyCollector demo_cfg) = Some \<lparr>cfCollected = [], cfTransitions = Some \<lparr>tsTransitions = [], tsScanned = 4\<rparr>\<rparr>"
    by code_simp
  have r: "\<not> IsReservedSessionID (scheduledSessionID demo_cfg 3)" "nfConv demo_nf \<noteq> []" "0 < nfDigest demo_nf" by code_simp+
  have q: "\<not> list_ex is_turn (snd (snd (cycle demo_cfg ?ev 3 (moNotifier (run_cycles demo_cfg demo_nf ?ticks)))))" by code_simp
  from silence_bounded[OF r(2,3,1) f demo_marshal q] show ?thesis using q by (simp add: demo_env_def demo_nf_def)
qed

theorem failing_turns_announced_witness:
  "notices (snd (snd (cycle demo_cfg (demo_env demo_change (Inl ''overloaded'') 120) 2 (Some (demo_nf\<lparr>nfFailing := True\<rparr>))))) = [False, True]"
proof -
  let ?ev = "demo_env demo_change (Inl ''overloaded'') 120" and ?n = "demo_nf\<lparr>nfFailing := True\<rparr>"
  obtain ok nf evs where c: "cycle demo_cfg ?ev 2 (Some ?n) = (ok, nf, evs)" by (cases "cycle demo_cfg ?ev 2 (Some ?n)")
  have f: "collect (cyDecoder demo_cfg) ?ev (cyCollector demo_cfg) =
      Some \<lparr>cfCollected = [], cfTransitions = Some \<lparr>tsTransitions = [\<lparr>trSubjectKey = ''a'', trClass = ''new'', trFields = []\<rparr>], tsScanned = 4\<rparr>\<rparr>"
    by code_simp
  have r: "\<not> IsReservedSessionID (scheduledSessionID demo_cfg 2)" by code_simp
  have "decide (evDecideAt ?ev) (Some ?n) (Some \<lparr>tsTransitions = [\<lparr>trSubjectKey = ''a'', trClass = ''new'', trFields = []\<rparr>], tsScanned = 4\<rparr>) \<noteq> SpeechQuiet"
    by code_simp
  from failing_turns_announced[OF _ _ r f demo_marshal _ _ c] this show ?thesis using c by (simp add: demo_nf_def demo_env_def)
qed

end
