(* ===== verification/Schedule.thy ===== *)
theory Schedule
  imports Interfaces Go_Float
begin

text \<open>
  The cadence of a scheduled workload, \<^verbatim>\<open>src/internal/cli/schedtrigger.go\<close>, and its durable record,
  \<^verbatim>\<open>src/internal/transcript/schedule.go\<close>: a daemon fires on the points \<^verbatim>\<open>anchor + k*interval\<close>, skips the points
  nobody was there for, and resumes the phase after a restart.

  The loop of a daemon is a state with the point of the code it has reached; time passes, the daemon stops or
  crashes and is started again between any two of its steps. The record is one cell of the store: a read may find
  nothing although it is there, and a write may fail. What a run does with its tick, the random jitter and the drain
  come from the outside.
\<close>

section \<open>Times\<close>

text \<open>The product of a duration wraps.\<close>

definition nextTick :: "gotime \<Rightarrow> duration \<Rightarrow> gotime \<Rightarrow> gotime" where
  "nextTick anchor interval after =
     (if interval \<le> 0 then 0
      else let elapsed = time_Sub after anchor
           in if elapsed < 0 then anchor
              else anchor + wrap64 (wrap64 (elapsed div interval + 1) * interval))"

definition ticksSkipped :: "gotime \<Rightarrow> duration \<Rightarrow> gotime \<Rightarrow> int \<times> gotime" where
  "ticksSkipped lastT interval now =
     (if interval \<le> 0 \<or> lastT = 0 \<or> now \<le> lastT then (0, lastT)
      else let n = time_Sub now lastT div interval
           in if n \<le> 0 then (0, lastT) else (n, lastT + wrap64 (n * interval)))"

section \<open>The record\<close>

record schedule_record =
  srWorkload :: string
  srAnchor :: gotime
  srLastTick :: gotime
  srLastFire :: gotime
  srFires :: int

definition Schedule :: "bool \<Rightarrow> schedule_record option \<Rightarrow> schedule_record option" where
  "Schedule readOk cell =
     (if \<not> readOk then None
      else case cell of None \<Rightarrow> None | Some r \<Rightarrow> if srAnchor r = 0 then None else Some r)"

definition SaveSchedule :: "string \<Rightarrow> bool \<Rightarrow> schedule_record \<Rightarrow> schedule_record option \<Rightarrow> bool \<times> schedule_record option" where
  "SaveSchedule userID writeOk rec cell =
     (if userID = [] \<or> srWorkload rec = [] \<or> \<not> writeOk then (False, cell) else (True, Some rec))"

section \<open>The trigger\<close>

record sched_config =
  scWorkload :: string
  scUser :: string
  scInterval :: duration
  scJitter :: duration

record trigger =
  tgAnchor :: gotime
  tgLast :: gotime

record tick_plan =
  tpTick :: gotime
  tpFireAt :: gotime
  tpSkipped :: int
  tpSkippedFrom :: gotime
  tpSkippedThrough :: gotime

definition persist ::
  "sched_config \<Rightarrow> bool \<Rightarrow> bool \<Rightarrow> gotime \<Rightarrow> int \<Rightarrow> trigger \<Rightarrow> schedule_record option \<Rightarrow> bool \<times> schedule_record option" where
  "persist c readOk writeOk lastFire fired t cell =
     (let prev = Schedule readOk cell;
          rec = \<lparr>srWorkload = scWorkload c, srAnchor = tgAnchor t, srLastTick = tgLast t,
                 srLastFire = (case prev of Some p \<Rightarrow> if lastFire = 0 then srLastFire p else lastFire | None \<Rightarrow> lastFire),
                 srFires = wrap64 ((case prev of Some p \<Rightarrow> srFires p | None \<Rightarrow> 0) + fired)\<rparr>
      in SaveSchedule (scUser c) writeOk rec cell)"

definition seed ::
  "sched_config \<Rightarrow> gotime \<Rightarrow> bool \<Rightarrow> bool \<Rightarrow> bool \<Rightarrow> schedule_record option \<Rightarrow> trigger \<times> bool \<times> schedule_record option" where
  "seed c now readOk readOk2 writeOk cell =
     (case Schedule readOk cell of
        Some r \<Rightarrow>
          (\<lparr>tgAnchor = srAnchor r, tgLast = (if srLastTick r = 0 then srAnchor r else srLastTick r)\<rparr>, True, cell)
      | None \<Rightarrow>
          (let t = \<lparr>tgAnchor = now, tgLast = now\<rparr> in (t, persist c readOk2 writeOk 0 0 t cell)))"

text \<open>\<^verbatim>\<open>rand.Float64\<close>: 53 random bits as a fraction.\<close>

definition rand_Float64 :: "nat \<Rightarrow> float64" where
  "rand_Float64 k = of_int (int k mod 2 ^ 53) / 2 ^ 53"

definition jitterOffset :: "sched_config \<Rightarrow> float64 \<Rightarrow> duration" where
  "jitterOffset c fr = (if scJitter c \<le> 0 then 0 else \<lfloor>fmul fr (fl (of_int (scJitter c)))\<rfloor>)"

definition plan :: "sched_config \<Rightarrow> float64 \<Rightarrow> gotime \<Rightarrow> trigger \<Rightarrow> trigger \<times> tick_plan" where
  "plan c fr now t =
     (let (n, through) = ticksSkipped (tgLast t) (scInterval c) now;
          t' = (if 0 < n then t\<lparr>tgLast := through\<rparr> else t);
          tick = nextTick (tgAnchor t) (scInterval c) now
      in (t', \<lparr>tpTick = tick, tpFireAt = tick + jitterOffset c fr,
               tpSkipped = (if 0 < n then n else 0),
               tpSkippedFrom = (if 0 < n then tgLast t + scInterval c else 0),
               tpSkippedThrough = (if 0 < n then through else 0)\<rparr>))"

section \<open>The loop\<close>

datatype fire_outcome = ScheduledFireRan | ScheduledFireError

datatype tick_event =
    Missed gotime nat gotime
  | Skipped gotime
  | Fired gotime fire_outcome

text \<open>Where the loop is: not running, at the top, waiting for the timer, or in the run of a tick that started.\<close>

datatype phase = Down | Top | Waiting gotime gotime | Running gotime

text \<open>\<open>csLog\<close> is what was counted and logged since the daemon was started, \<open>csOld\<close> what its predecessors did, and
  \<open>csBoot\<close> the last accounted tick it started from.\<close>

record cadence =
  csClock :: gotime
  csCell :: "schedule_record option"
  csTrigger :: trigger
  csPhase :: phase
  csBoot :: gotime
  csLog :: "tick_event list"
  csOld :: "tick_event list"

datatype cadence_op =
    Elapse nat
  | Boot bool bool bool
  | Plan nat
  | Fire bool fire_outcome
  | Persist bool bool
  | Stop

definition boot_step :: "sched_config \<Rightarrow> bool \<Rightarrow> bool \<Rightarrow> bool \<Rightarrow> cadence \<Rightarrow> cadence" where
  "boot_step c readOk readOk2 writeOk s =
     (if csPhase s \<noteq> Down then s
      else let (t, ok, cell) = seed c (csClock s) readOk readOk2 writeOk (csCell s)
           in s\<lparr>csTrigger := t, csCell := cell, csPhase := Top, csBoot := tgLast t, csLog := [], csOld := csOld s @ csLog s\<rparr>)"

definition plan_step :: "sched_config \<Rightarrow> float64 \<Rightarrow> cadence \<Rightarrow> cadence" where
  "plan_step c fr s =
     (if csPhase s \<noteq> Top then s
      else let (t, p) = plan c fr (csClock s) (csTrigger s)
           in s\<lparr>csTrigger := t, csPhase := Waiting (tpTick p) (tpFireAt p),
                csLog := csLog s @ (if 0 < tpSkipped p
                                    then [Missed (tpSkippedFrom p) (nat (tpSkipped p)) (tpSkippedThrough p)] else [])\<rparr>)"

text \<open>\<^verbatim>\<open>fireDue\<close> up to its run, and what it writes afterwards.\<close>

definition fireDue :: "bool \<Rightarrow> fire_outcome \<Rightarrow> cadence \<Rightarrow> cadence" where
  "fireDue draining out s =
     (case csPhase s of
        Waiting tick fireAt \<Rightarrow>
          if csClock s < fireAt then s
          else if draining then s\<lparr>csTrigger := (csTrigger s)\<lparr>tgLast := tick\<rparr>, csPhase := Top, csLog := csLog s @ [Skipped tick]\<rparr>
          else s\<lparr>csTrigger := (csTrigger s)\<lparr>tgLast := tick\<rparr>, csPhase := Running (csClock s), csLog := csLog s @ [Fired tick out]\<rparr>
      | _ \<Rightarrow> s)"

definition persist_step :: "sched_config \<Rightarrow> bool \<Rightarrow> bool \<Rightarrow> cadence \<Rightarrow> cadence" where
  "persist_step c readOk writeOk s =
     (case csPhase s of
        Running start \<Rightarrow> s\<lparr>csCell := snd (persist c readOk writeOk start 1 (csTrigger s) (csCell s)), csPhase := Top\<rparr>
      | _ \<Rightarrow> s)"

fun cadence_step :: "sched_config \<Rightarrow> cadence \<Rightarrow> cadence_op \<Rightarrow> cadence" where
  "cadence_step c s (Elapse d) = s\<lparr>csClock := csClock s + int d\<rparr>"
| "cadence_step c s (Boot r r' w) = boot_step c r r' w s"
| "cadence_step c s (Plan k) = plan_step c (rand_Float64 k) s"
| "cadence_step c s (Fire draining out) = fireDue draining out s"
| "cadence_step c s (Persist r w) = persist_step c r w s"
| "cadence_step c s Stop = s\<lparr>csPhase := Down\<rparr>"

definition cadence_start :: "gotime \<Rightarrow> cadence" where
  "cadence_start t0 =
     \<lparr>csClock = t0, csCell = None, csTrigger = \<lparr>tgAnchor = 0, tgLast = 0\<rparr>, csPhase = Down, csBoot = 0, csLog = [], csOld = []\<rparr>"

definition cadence_run :: "sched_config \<Rightarrow> gotime \<Rightarrow> cadence_op list \<Rightarrow> cadence" where
  "cadence_run c t0 ops = foldl (cadence_step c) (cadence_start t0) ops"

section \<open>Accounting\<close>

text \<open>The points a log accounts for, in order, and those it fired.\<close>

fun ticks_of :: "duration \<Rightarrow> tick_event \<Rightarrow> gotime list" where
  "ticks_of i (Missed from n through) = map (\<lambda>k. from + int k * i) [0..<n]"
| "ticks_of i (Skipped t) = [t]"
| "ticks_of i (Fired t out) = [t]"

definition accounted :: "duration \<Rightarrow> tick_event list \<Rightarrow> gotime list" where
  "accounted i evs = concat (map (ticks_of i) evs)"

fun fired_tick :: "tick_event \<Rightarrow> gotime list" where
  "fired_tick (Fired t out) = [t]"
| "fired_tick (Missed from n through) = []"
| "fired_tick (Skipped t) = []"

definition fired_ticks :: "tick_event list \<Rightarrow> gotime list" where
  "fired_ticks evs = concat (map fired_tick evs)"

text \<open>The points of the cadence after \<open>a\<close> up to \<open>b\<close>.\<close>

definition points_between :: "duration \<Rightarrow> gotime \<Rightarrow> gotime \<Rightarrow> gotime list" where
  "points_between i a b = map (\<lambda>k. a + (int k + 1) * i) [0..<nat ((b - a) div i)]"

definition on_cadence :: "duration \<Rightarrow> gotime \<Rightarrow> gotime \<Rightarrow> bool" where
  "on_cadence i anchor t \<longleftrightarrow> anchor \<le> t \<and> (t - anchor) mod i = 0"

definition covers :: "duration \<Rightarrow> gotime \<Rightarrow> gotime \<Rightarrow> cadence \<Rightarrow> bool" where
  "covers i a b s \<longleftrightarrow> set (points_between i a b) \<subseteq> set (accounted i (csOld s @ csLog s))"

definition good_pair :: "sched_config \<Rightarrow> gotime \<Rightarrow> gotime \<Rightarrow> gotime \<Rightarrow> cadence \<Rightarrow> bool" where
  "good_pair c t0 a l s \<longleftrightarrow>
     t0 \<le> a \<and> l \<le> csClock s \<and> on_cadence (scInterval c) a l \<and> covers (scInterval c) a l s"

definition fired_so_far :: "cadence \<Rightarrow> gotime list" where
  "fired_so_far s = fired_ticks (csOld s @ csLog s)"

definition loop_inv :: "sched_config \<Rightarrow> gotime \<Rightarrow> cadence \<Rightarrow> bool" where
  "loop_inv c t0 s \<longleftrightarrow>
     good_pair c t0 (tgAnchor (csTrigger s)) (tgLast (csTrigger s)) s
     \<and> on_cadence (scInterval c) (csBoot s) (tgLast (csTrigger s))
     \<and> accounted (scInterval c) (csLog s) = points_between (scInterval c) (csBoot s) (tgLast (csTrigger s))
     \<and> (case csPhase s of
          Waiting tick fireAt \<Rightarrow>
            tick = tgLast (csTrigger s) + scInterval c \<and> tick \<le> fireAt \<and> list_all (\<lambda>f. f < tick) (fired_so_far s)
        | _ \<Rightarrow> True)"

definition cadence_inv :: "sched_config \<Rightarrow> gotime \<Rightarrow> cadence \<Rightarrow> bool" where
  "cadence_inv c t0 s \<longleftrightarrow>
     (case csCell s of None \<Rightarrow> True | Some r \<Rightarrow> good_pair c t0 (srAnchor r) (srLastTick r) s)
     \<and> (csPhase s = Down \<or> loop_inv c t0 s)
     \<and> sorted_wrt (<) (fired_so_far s) \<and> list_all (\<lambda>f. f \<le> csClock s) (fired_so_far s)"

text \<open>A configuration and a clock as they occur: a positive cadence, and no more than \<open>2^62\<close> nanoseconds, some
  146 years, of it and of running time.\<close>

definition sane :: "sched_config \<Rightarrow> gotime \<Rightarrow> bool" where
  "sane c t0 \<longleftrightarrow> 0 < t0 \<and> 0 < scInterval c \<and> scInterval c < 2 ^ 62"

definition bounded_inv :: "sched_config \<Rightarrow> gotime \<Rightarrow> cadence \<Rightarrow> bool" where
  "bounded_inv c t0 s \<longleftrightarrow>
     t0 \<le> csClock s \<and> (sane c t0 \<and> csClock s < t0 + 2 ^ 62 \<longrightarrow> cadence_inv c t0 s)"



text \<open>A nightly sweep whose daemon is down for three nights, starts, crashes and starts again.\<close>

definition demo_sched :: sched_config where
  "demo_sched = \<lparr>scWorkload = ''sweep'', scUser = ''u'', scInterval = 100, scJitter = 0\<rparr>"

definition demo_ops :: "cadence_op list" where
  "demo_ops = [Boot True True True, Plan 0, Elapse 105, Fire False ScheduledFireRan, Persist True True, Stop,
     Elapse 300, Boot True True True, Plan 7, Stop, Boot True True True, Plan 0]"

section \<open>Lemmas and properties\<close>

subsection \<open>Points\<close>

lemma points_self [simp]: "points_between i a a = []"
  by (simp add: points_between_def)

lemma points_n:
  assumes "0 < i"
  shows "points_between i a (a + int n * i) = map (\<lambda>k. a + i + int k * i) [0..<n]"
  using assms by (auto simp: points_between_def algebra_simps)

lemma points_one [simp]: "0 < i \<Longrightarrow> points_between i a (a + i) = [a + i]"
  using points_n[of i a 1] by simp

lemma on_cadence_iff: "0 < i \<Longrightarrow> on_cadence i a t \<longleftrightarrow> (\<exists>n. t = a + int n * i)"
proof
  assume "0 < i" "on_cadence i a t"
  then have "t = a + (t - a) div i * i" "0 \<le> (t - a) div i"
    using div_mult_mod_eq[of "t - a" i] by (auto simp: on_cadence_def pos_imp_zdiv_nonneg_iff)
  then have "t = a + int (nat ((t - a) div i)) * i" by simp
  then show "\<exists>n. t = a + int n * i" ..
qed (auto simp: on_cadence_def)

lemma points_append:
  assumes "0 < i" "on_cadence i a b" "on_cadence i b c"
  shows "points_between i a c = points_between i a b @ points_between i b c"
proof -
  obtain n m where n: "b = a + int n * i" and m: "c = b + int m * i"
    using assms by (auto simp: on_cadence_iff)
  let ?f = "\<lambda>k. a + i + int k * i"
  have c: "c = a + int (n + m) * i" by (simp add: n m algebra_simps)
  have "points_between i a c = map ?f [0..<n + m]" unfolding c by (rule points_n[OF assms(1)])
  also have "\<dots> = map ?f [0..<n] @ map ?f [n..<n + m]" by (simp add: upt_add_eq_append[of 0 n m])
  also have "map ?f [n..<n + m] = map (\<lambda>k. b + i + int k * i) [0..<m]"
    by (rule nth_equalityI) (auto simp: n algebra_simps)
  also have "\<dots> = points_between i b c" unfolding m by (rule points_n[OF assms(1), symmetric])
  also have "map ?f [0..<n] = points_between i a b" unfolding n by (rule points_n[OF assms(1), symmetric])
  finally show ?thesis .
qed

lemma on_cadence_trans: "0 < i \<Longrightarrow> on_cadence i a b \<Longrightarrow> on_cadence i b c \<Longrightarrow> on_cadence i a c"
  by (auto simp: on_cadence_iff) (metis add.assoc distrib_right of_nat_add)

lemma on_cadence_self [simp]: "on_cadence i a a"
  by (simp add: on_cadence_def)

lemma on_cadence_next: "0 < i \<Longrightarrow> on_cadence i a (a + i)"
  by (simp add: on_cadence_def)

lemma ticks_missed: "0 < i \<Longrightarrow> ticks_of i (Missed (a + i) n through) = points_between i a (a + int n * i)"
  by (simp add: points_n)

lemma accounted_append [simp]: "accounted i (xs @ ys) = accounted i xs @ accounted i ys"
  by (simp add: accounted_def)

lemma accounted_simps [simp]: "accounted i [] = []" "accounted i [e] = ticks_of i e"
  by (simp_all add: accounted_def)

lemma fired_append [simp]: "fired_ticks (xs @ ys) = fired_ticks xs @ fired_ticks ys"
  by (simp add: fired_ticks_def)

lemma fired_simps [simp]: "fired_ticks [] = []" "fired_ticks [e] = fired_tick e"
  by (simp_all add: fired_ticks_def)

subsection \<open>The arithmetic of the cadence\<close>

lemma wrap64_mult_small:
  assumes "0 \<le> x" "x < 2 ^ 62" "0 < i" "i < 2 ^ 62"
  shows "wrap64 (wrap64 (x div i + 1) * i) = (x div i + 1) * i"
proof -
  have "0 \<le> x div i" using assms by (simp add: pos_imp_zdiv_nonneg_iff)
  moreover have "x div i \<le> x" using assms zdiv_mono2[of x 1 i] by simp
  ultimately have "int64 (x div i + 1)" using assms by (simp add: int64_def)
  moreover have "x div i * i \<le> x" using assms(3) by (metis div_mult_mod_eq le_add_same_cancel1 pos_mod_sign)
  then have "(x div i + 1) * i \<le> x + i" by (simp add: algebra_simps)
  moreover have "0 \<le> (x div i + 1) * i" using assms by (simp add: pos_imp_zdiv_nonneg_iff)
  ultimately show ?thesis using assms by (simp add: wrap64_id int64_def)
qed

text \<open>A plan made between two points leaves the earlier as the last accounted one and fires at the later.\<close>

lemma ticksSkipped_exact:
  assumes "0 < i" "i < 2 ^ 62" "0 < l" "l \<le> now" "now - l < 2 ^ 62"
  shows "ticksSkipped l i now = ((now - l) div i, l + (now - l) div i * i)"
proof (cases "now = l")
  case True
  then show ?thesis by (simp add: ticksSkipped_def)
next
  case False
  let ?n = "(now - l) div i"
  have n: "0 \<le> ?n" using assms by (simp add: pos_imp_zdiv_nonneg_iff)
  have "?n * i \<le> now - l" using assms(1) by (metis div_mult_mod_eq le_add_same_cancel1 pos_mod_sign)
  then have "wrap64 (?n * i) = ?n * i" using n assms by (intro wrap64_small) auto
  then show ?thesis using False n assms by (auto simp: ticksSkipped_def time_Sub_small Let_def)
qed

lemma nextTick_exact:
  assumes "0 < i" "i < 2 ^ 62" "on_cadence i a l" "l \<le> now" "now < l + i" "now - a < 2 ^ 62"
  shows "nextTick a i now = l + i"
proof -
  obtain n where l: "l = a + int n * i" using assms(1,3) by (auto simp: on_cadence_iff)
  have "(now - a) div i = int n"
    using assms(4,5) by (intro int_div_pos_eq[where r = "now - l"]) (auto simp: l algebra_simps)
  moreover have "0 \<le> now - a" using assms by (simp add: on_cadence_def)
  ultimately show ?thesis using assms wrap64_mult_small[of "now - a" i]
    by (simp add: nextTick_def time_Sub_small l algebra_simps)
qed

lemma jitter_nonneg: "0 \<le> jitterOffset c (rand_Float64 k)"
  by (simp add: jitterOffset_def rand_Float64_def fmul_nonneg fl_nonneg)

subsection \<open>Every step keeps the account\<close>

lemma covers_mono:
  "covers i a b s \<Longrightarrow> set (accounted i (csOld s @ csLog s)) \<subseteq> set (accounted i (csOld s' @ csLog s')) \<Longrightarrow> covers i a b s'"
  by (auto simp: covers_def)

lemma good_pair_mono:
  "good_pair c t0 a l s \<Longrightarrow> csClock s \<le> csClock s' \<Longrightarrow>
     set (accounted (scInterval c) (csOld s @ csLog s)) \<subseteq> set (accounted (scInterval c) (csOld s' @ csLog s')) \<Longrightarrow>
     good_pair c t0 a l s'"
  unfolding good_pair_def using covers_mono by fastforce

lemma good_pair_same:
  "good_pair c t0 a l s \<Longrightarrow> csClock s' = csClock s \<Longrightarrow> csOld s' @ csLog s' = csOld s @ csLog s \<Longrightarrow> good_pair c t0 a l s'"
  by (auto intro: good_pair_mono)

lemma good_pair_extend:
  assumes "good_pair c t0 a l s" "0 < scInterval c" "on_cadence (scInterval c) l l'" "l' \<le> csClock s"
    and "csClock s' = csClock s" "csOld s' = csOld s" "csLog s' = csLog s @ evs"
    and "accounted (scInterval c) evs = points_between (scInterval c) l l'"
  shows "good_pair c t0 a l' s'"
  using assms points_append[of "scInterval c" a l l'] on_cadence_trans[of "scInterval c" a l l']
  by (auto simp: good_pair_def covers_def)

text \<open>What the trigger accounts for next extends the account of the running daemon.\<close>

lemma loop_extend:
  assumes "loop_inv c t0 s" "0 < scInterval c" "on_cadence (scInterval c) (tgLast (csTrigger s)) l'" "l' \<le> csClock s"
    and "csTrigger s' = (csTrigger s)\<lparr>tgLast := l'\<rparr>" "csClock s' = csClock s" "csOld s' = csOld s" "csBoot s' = csBoot s"
    and "csLog s' = csLog s @ evs" "accounted (scInterval c) evs = points_between (scInterval c) (tgLast (csTrigger s)) l'"
  shows "good_pair c t0 (tgAnchor (csTrigger s')) (tgLast (csTrigger s')) s'
    \<and> on_cadence (scInterval c) (csBoot s') (tgLast (csTrigger s'))
    \<and> accounted (scInterval c) (csLog s') = points_between (scInterval c) (csBoot s') (tgLast (csTrigger s'))"
proof -
  have l: "good_pair c t0 (tgAnchor (csTrigger s)) (tgLast (csTrigger s)) s"
    "on_cadence (scInterval c) (csBoot s) (tgLast (csTrigger s))"
    "accounted (scInterval c) (csLog s) = points_between (scInterval c) (csBoot s) (tgLast (csTrigger s))"
    using assms(1) by (auto simp: loop_inv_def)
  show ?thesis
    using good_pair_extend[OF l(1) assms(2,3,4) assms(6,7,9,10)] on_cadence_trans[OF assms(2) l(2) assms(3)]
      points_append[OF assms(2) l(2) assms(3)] assms(5,8,9,10) l(3) by simp
qed

lemma plan_account:
  assumes inv: "cadence_inv c t0 s" and "sane c t0" "csClock s < t0 + 2 ^ 62"
  shows "cadence_inv c t0 (plan_step c (rand_Float64 k) s)"
proof (cases "csPhase s = Top")
  case True
  let ?i = "scInterval c" and ?l = "tgLast (csTrigger s)" and ?a = "tgAnchor (csTrigger s)" and ?now = "csClock s"
  let ?s' = "plan_step c (rand_Float64 k) s"
  have i: "0 < ?i" "?i < 2 ^ 62" "0 < t0" using assms(2) by (auto simp: sane_def)
  have loop: "loop_inv c t0 s" using inv True by (simp add: cadence_inv_def)
  then have l: "t0 \<le> ?a" "?a \<le> ?l" "?l \<le> ?now" "on_cadence ?i ?a ?l" by (auto simp: loop_inv_def good_pair_def on_cadence_def)
  define n where "n = (?now - ?l) div ?i"
  define l' where "l' = ?l + n * ?i"
  have n: "0 \<le> n" using i l by (simp add: n_def pos_imp_zdiv_nonneg_iff)
  have "n * ?i \<le> ?now - ?l" using i(1) by (metis div_mult_mod_eq le_add_same_cancel1 n_def pos_mod_sign)
  moreover have "?now - ?l < n * ?i + ?i" using i(1) by (metis add_less_cancel_left div_mult_mod_eq n_def pos_mod_bound)
  ultimately have l': "l' \<le> ?now" "?now < l' + ?i" by (auto simp: l'_def)
  have on: "on_cadence ?i ?l l'" using n i(1) by (auto simp: l'_def on_cadence_def)
  have skip: "ticksSkipped ?l ?i ?now = (n, l')"
    using ticksSkipped_exact[of ?i ?l ?now] i l assms(3) by (simp add: n_def l'_def)
  have tick: "nextTick ?a ?i ?now = l' + ?i"
    using nextTick_exact[of ?i ?a l' ?now] on_cadence_trans[OF i(1) l(4) on] i l l' assms(3) by simp
  let ?evs = "if 0 < n then [Missed (?l + ?i) (nat n) l'] else []"
  have s': "csTrigger ?s' = (csTrigger s)\<lparr>tgLast := l'\<rparr>" "csClock ?s' = csClock s" "csOld ?s' = csOld s" "csBoot ?s' = csBoot s"
    "csLog ?s' = csLog s @ ?evs" "csCell ?s' = csCell s"
    "csPhase ?s' = Waiting (l' + ?i) (l' + ?i + jitterOffset c (rand_Float64 k))"
    using True n by (auto simp: plan_step_def plan_def skip tick l'_def Let_def)
  have evs: "accounted ?i ?evs = points_between ?i ?l l'"
    using n ticks_missed[OF i(1), of ?l "nat n" l'] by (auto simp: l'_def)
  have fired: "fired_so_far ?s' = fired_so_far s" by (auto simp: fired_so_far_def s')
  have "list_all (\<lambda>f. f < l' + ?i) (fired_so_far s)"
    using inv l' by (auto simp: cadence_inv_def list_all_iff)
  then have "loop_inv c t0 ?s'"
    using loop_extend[OF loop i(1) on l'(1) s'(1,2,3,4,5) evs] jitter_nonneg[of c k] s' fired by (simp add: loop_inv_def)
  then show ?thesis using inv s' fired
    by (auto simp: cadence_inv_def split: option.splits elim!: good_pair_mono)
next
  case False
  then show ?thesis using inv by (simp add: plan_step_def)
qed

lemma fire_account:
  assumes inv: "cadence_inv c t0 s" and "sane c t0"
  shows "cadence_inv c t0 (fireDue draining out s)"
proof (cases "\<exists>tick fireAt. csPhase s = Waiting tick fireAt \<and> fireAt \<le> csClock s")
  case True
  then obtain tick fireAt where ph: "csPhase s = Waiting tick fireAt" "fireAt \<le> csClock s" by blast
  let ?i = "scInterval c" and ?s' = "fireDue draining out s"
  let ?ev = "if draining then Skipped tick else Fired tick out"
  have i: "0 < ?i" using assms(2) by (simp add: sane_def)
  have loop: "loop_inv c t0 s" using inv ph by (simp add: cadence_inv_def)
  then have tick: "tick = tgLast (csTrigger s) + ?i" "tick \<le> csClock s" "list_all (\<lambda>f. f < tick) (fired_so_far s)"
    using ph by (auto simp: loop_inv_def)
  have s': "csTrigger ?s' = (csTrigger s)\<lparr>tgLast := tick\<rparr>" "csClock ?s' = csClock s" "csOld ?s' = csOld s" "csBoot ?s' = csBoot s"
    "csLog ?s' = csLog s @ [?ev]" "csCell ?s' = csCell s" "csPhase ?s' = (if draining then Top else Running (csClock s))"
    using ph by (auto simp: fireDue_def)
  have ev: "accounted ?i [?ev] = points_between ?i (tgLast (csTrigger s)) tick" using i by (simp add: tick(1))
  have on: "on_cadence ?i (tgLast (csTrigger s)) tick" using on_cadence_next[OF i] by (simp add: tick(1))
  have fired: "fired_so_far ?s' = fired_so_far s @ (if draining then [] else [tick])" by (simp add: fired_so_far_def s')
  have "loop_inv c t0 ?s'" using loop_extend[OF loop i on tick(2) s'(1,2,3,4,5) ev] s'(7) by (simp add: loop_inv_def)
  then show ?thesis using inv s' fired tick(2,3)
    by (auto simp: cadence_inv_def sorted_wrt_append list_all_iff split: option.splits elim!: good_pair_mono)
next
  case False
  then show ?thesis using inv by (auto simp: fireDue_def split: phase.splits)
qed

lemma persist_cell:
  "snd (persist c r w lf n t cell) = cell \<or>
   (\<exists>rec. snd (persist c r w lf n t cell) = Some rec \<and> srAnchor rec = tgAnchor t \<and> srLastTick rec = tgLast t)"
  by (simp add: persist_def SaveSchedule_def Let_def)

lemma persist_account:
  assumes inv: "cadence_inv c t0 s"
  shows "cadence_inv c t0 (persist_step c r w s)"
proof (cases "\<exists>start. csPhase s = Running start")
  case True
  then obtain start where ph: "csPhase s = Running start" by blast
  let ?s' = "persist_step c r w s"
  have loop: "loop_inv c t0 s" using inv ph by (simp add: cadence_inv_def)
  then have "good_pair c t0 (tgAnchor (csTrigger s)) (tgLast (csTrigger s)) s" by (simp add: loop_inv_def)
  moreover have "loop_inv c t0 ?s'"
    using loop ph by (auto simp: loop_inv_def persist_step_def good_pair_def covers_def)
  ultimately show ?thesis using inv ph persist_cell[of c r w start 1 "csTrigger s" "csCell s"]
    by (auto simp: cadence_inv_def persist_step_def fired_so_far_def split: option.splits elim!: good_pair_same)
next
  case False
  then show ?thesis using inv by (auto simp: persist_step_def split: phase.splits)
qed

lemma boot_account:
  assumes inv: "cadence_inv c t0 s" and "sane c t0" "t0 \<le> csClock s"
  shows "cadence_inv c t0 (boot_step c r r' w s)"
proof (cases "csPhase s = Down")
  case True
  let ?s' = "boot_step c r r' w s"
  obtain t ok cell where seed: "seed c (csClock s) r r' w (csCell s) = (t, ok, cell)" by (cases "seed c (csClock s) r r' w (csCell s)")
  have s': "csTrigger ?s' = t" "csCell ?s' = cell" "csPhase ?s' = Top" "csBoot ?s' = tgLast t" "csLog ?s' = []"
    "csOld ?s' = csOld s @ csLog s" "csClock ?s' = csClock s" using True seed by (simp_all add: boot_step_def)
  have now: "good_pair c t0 (csClock s) (csClock s) s" using assms(3) by (simp add: good_pair_def covers_def)
  have cell0: "good_pair c t0 (srAnchor x) (srLastTick x) s" if "csCell s = Some x" for x
    using inv that by (simp add: cadence_inv_def)
  have "good_pair c t0 (tgAnchor t) (tgLast t) s \<and> (case cell of None \<Rightarrow> True | Some x \<Rightarrow> good_pair c t0 (srAnchor x) (srLastTick x) s)"
  proof (cases "Schedule r (csCell s)")
    case None
    then have "t = \<lparr>tgAnchor = csClock s, tgLast = csClock s\<rparr>" "cell = snd (persist c r' w 0 0 t (csCell s))"
      using seed by (auto simp: seed_def Let_def)
    then show ?thesis using now cell0 persist_cell[of c r' w 0 0 t "csCell s"] by (auto split: option.splits)
  next
    case (Some x)
    then have x: "csCell s = Some x" by (auto simp: Schedule_def split: if_splits option.splits)
    then have "srLastTick x \<noteq> 0" using cell0[OF x] assms(2) by (auto simp: good_pair_def on_cadence_def sane_def)
    then have "t = \<lparr>tgAnchor = srAnchor x, tgLast = srLastTick x\<rparr>" "cell = Some x" using Some seed x by (auto simp: seed_def)
    then show ?thesis using cell0[OF x] by simp
  qed
  then have "good_pair c t0 (tgAnchor t) (tgLast t) ?s'" "case cell of None \<Rightarrow> True | Some x \<Rightarrow> good_pair c t0 (srAnchor x) (srLastTick x) ?s'"
    using s' by (auto split: option.splits elim!: good_pair_same)
  then show ?thesis using inv s' by (auto simp: cadence_inv_def loop_inv_def fired_so_far_def)
next
  case False
  then show ?thesis using inv by (simp add: boot_step_def)
qed

lemma elapse_account:
  assumes "cadence_inv c t0 s"
  shows "cadence_inv c t0 (s\<lparr>csClock := csClock s + int d\<rparr>)"
proof -
  let ?s' = "s\<lparr>csClock := csClock s + int d\<rparr>"
  have "good_pair c t0 a l ?s'" if "good_pair c t0 a l s" for a l using that by (rule good_pair_mono) auto
  moreover have "fired_so_far ?s' = fired_so_far s" by (simp add: fired_so_far_def)
  ultimately show ?thesis using assms
    by (auto simp: cadence_inv_def loop_inv_def list_all_iff split: option.splits phase.splits)
qed

lemma stop_account: "cadence_inv c t0 s \<Longrightarrow> cadence_inv c t0 (s\<lparr>csPhase := Down\<rparr>)"
  by (auto simp: cadence_inv_def fired_so_far_def split: option.splits elim!: good_pair_same)

lemma clock_grows: "csClock s \<le> csClock (cadence_step c s x)"
  by (cases x) (auto simp: boot_step_def plan_step_def fireDue_def persist_step_def Let_def split: prod.splits phase.splits)

lemma account_step: "bounded_inv c t0 s \<Longrightarrow> bounded_inv c t0 (cadence_step c s x)"
proof -
  assume inv: "bounded_inv c t0 s"
  have "cadence_inv c t0 (cadence_step c s x)" if "sane c t0" "csClock (cadence_step c s x) < t0 + 2 ^ 62"
  proof -
    have b: "csClock s < t0 + 2 ^ 62" "t0 \<le> csClock s" using that(2) clock_grows[of s c x] inv by (auto simp: bounded_inv_def)
    then have "cadence_inv c t0 s" using inv that(1) by (simp add: bounded_inv_def)
    then show ?thesis using that(1) b
      by (cases x) (auto simp: plan_account fire_account persist_account boot_account elapse_account stop_account)
  qed
  then show ?thesis using inv clock_grows[of s c x] by (auto simp: bounded_inv_def)
qed

interpretation cadence_kept: kept "cadence_step c" "cadence_start t0" "bounded_inv c t0" for c t0
proof
  show "bounded_inv c t0 (cadence_start t0)"
    by (simp add: bounded_inv_def cadence_inv_def cadence_start_def fired_so_far_def)
qed (rule account_step)

text \<open>
  However a daemon is stopped, crashed and restarted, and whatever reads and writes of its record fail: no point of
  the cadence fires twice and none before its time; a running daemon has accounted for exactly the points since the
  one it started from, each once and in order, as fired, refused while draining, or missed; and over all daemons every
  point of the present anchor up to there is accounted for.
\<close>

theorem ticks_accounted:
  assumes "sane c t0" "csClock (cadence_run c t0 ops) < t0 + 2 ^ 62"
  shows "sorted_wrt (<) (fired_so_far (cadence_run c t0 ops))
    \<and> list_all (\<lambda>f. f \<le> csClock (cadence_run c t0 ops)) (fired_so_far (cadence_run c t0 ops))
    \<and> (csPhase (cadence_run c t0 ops) = Down \<or>
        accounted (scInterval c) (csLog (cadence_run c t0 ops))
          = points_between (scInterval c) (csBoot (cadence_run c t0 ops)) (tgLast (csTrigger (cadence_run c t0 ops)))
        \<and> covers (scInterval c) (tgAnchor (csTrigger (cadence_run c t0 ops))) (tgLast (csTrigger (cadence_run c t0 ops)))
            (cadence_run c t0 ops))"
proof -
  have "cadence_inv c t0 (cadence_run c t0 ops)"
    using cadence_kept.inv_run[of c t0 ops] assms by (simp add: bounded_inv_def cadence_run_def)
  then show ?thesis by (auto simp: cadence_inv_def loop_inv_def good_pair_def)
qed

theorem ticks_accounted_witness:
  "sorted_wrt (<) (fired_so_far (cadence_run demo_sched 1000 demo_ops))
   \<and> fired_so_far (cadence_run demo_sched 1000 demo_ops) = [1100]
   \<and> accounted 100 (csLog (cadence_run demo_sched 1000 demo_ops)) = [1200, 1300, 1400]"
proof -
  have "sane demo_sched 1000" by code_simp
  moreover have "csClock (cadence_run demo_sched 1000 demo_ops) < 1000 + 2 ^ 62" by code_simp
  ultimately have "sorted_wrt (<) (fired_so_far (cadence_run demo_sched 1000 demo_ops))"
    using ticks_accounted by blast
  moreover have "fired_so_far (cadence_run demo_sched 1000 demo_ops) = [1100]" by code_simp
  moreover have "accounted 100 (csLog (cadence_run demo_sched 1000 demo_ops)) = [1200, 1300, 1400]" by code_simp
  ultimately show ?thesis by simp
qed

subsection \<open>The phase\<close>





text \<open>
  A point that was reported as missed can be reported again: a plan advances the last accounted tick in memory only, and
  a daemon that stops before its next fire leaves the same points to its successor.
\<close>

theorem missed_reported_again:
  "csOld (cadence_run demo_sched 1000 demo_ops) = [Fired 1100 ScheduledFireRan, Missed 1200 3 1400]
   \<and> csLog (cadence_run demo_sched 1000 demo_ops) = [Missed 1200 3 1400]"
  by code_simp

text \<open>
  After the interval of a workload was changed the last accounted tick need not be a point of the new cadence, and a
  point that passed while the daemon was down is not reported: here the record of a cadence of 30 with the last tick at
  160, read by a daemon with a cadence of 100 at 210, past the point 200.
\<close>

theorem changed_interval_loses_miss:
  "plan demo_sched 0 210 \<lparr>tgAnchor = 100, tgLast = 160\<rparr> =
     (\<lparr>tgAnchor = 100, tgLast = 160\<rparr>,
      \<lparr>tpTick = 300, tpFireAt = 300, tpSkipped = 0, tpSkippedFrom = 0, tpSkippedThrough = 0\<rparr>)
   \<and> points_between 100 100 210 = [200]"
  by code_simp

end
