(* ===== verification/Drain.thy ===== *)
theory Drain
  imports Interfaces
begin

text \<open>
  The turns of a daemon and its shutdown, \<^verbatim>\<open>src/internal/cli/shutdown.go\<close>, with the order in which a turn takes its
  locks in \<^verbatim>\<open>runTurnPre\<close> (\<^verbatim>\<open>src/internal/cli/turn.go\<close>): one turn per session, interruption markers that are on disk
  before a drain waits and gone when a turn has finished, and the handshake between a turn that starts and an abort.

  Every critical section of the tracker's mutex, every store write and every acquisition of a lock is one step of the
  turn, of the goroutine that drains or of an operator, and the steps interleave in any order. A write of a marker may
  fail, and a failed one may have landed; the context of a wait may end at any time. The pass at boot that continues
  interrupted sessions (\<^verbatim>\<open>src/internal/cli/autoresume.go\<close>) clears a marker too, after its turn and without the tracker's
  mutex, at any moment. \<open>dsFailed\<close> remembers the sessions whose marker the drain does not vouch for: a write failed, the
  drain did not get to it, or the pass cleared it while the daemon drained.
\<close>

section \<open>The tracker\<close>

text \<open>Where a turn is. \<open>Begun\<close> and \<open>Ended\<close> carry what the critical section decided: to mark, to clear.\<close>

datatype turn_pc =
    NotStarted
  | Waiting
  | Locked
  | Registered
  | Admitted
  | Begun bool
  | MarkHeld
  | MarkWritten
  | Running
  | Ended bool
  | ClearHeld
  | ClearWritten
  | Leaving
  | Unregistered
  | Finished

record turn =
  tuSession :: string
  tuPc :: turn_pc
  tuCancelled :: bool
  tuUnchecked :: bool

text \<open>Where the goroutine that drains is: the sessions it still has to mark, the one it is marking first.\<close>

datatype drain_pc =
    NotDraining
  | Marking "string list"
  | DMarkHeld string "string list"
  | DMarkWritten string "string list"
  | Drained

datatype owner = ByTurn nat | ByDrain

record tracker =
  trActive :: "(string, int) gomap"
  trMarked :: "(string, bool) gomap"
  trDraining :: bool
  trFrozen :: bool
  trCancels :: "(string, nat) gomap"
  trWriteMu :: "owner option"

record daemon =
  dsTracker :: tracker
  dsSlots :: "(string, nat) gomap"
  dsTurns :: "nat \<Rightarrow> turn"
  dsDrain :: drain_pc
  dsMarker :: "(string, bool) gomap"
  dsAborted :: "(string, bool) gomap"
  dsSwept :: "(string, bool) gomap"
  dsFailed :: "(string, bool) gomap"

definition set_pc :: "nat \<Rightarrow> turn_pc \<Rightarrow> daemon \<Rightarrow> daemon" where
  "set_pc i pc d = d\<lparr>dsTurns := (dsTurns d)(i := (dsTurns d i)\<lparr>tuPc := pc\<rparr>)\<rparr>"

definition session_of :: "daemon \<Rightarrow> nat \<Rightarrow> string" where
  "session_of d i = tuSession (dsTurns d i)"

definition with_tracker :: "(tracker \<Rightarrow> tracker) \<Rightarrow> daemon \<Rightarrow> daemon" where
  "with_tracker f d = d\<lparr>dsTracker := f (dsTracker d)\<rparr>"

definition tr_begin :: "string \<Rightarrow> tracker \<Rightarrow> bool \<times> tracker" where
  "tr_begin sid t =
     (trDraining t \<and> \<not> trFrozen t \<and> \<not> mget False (trMarked t) sid,
      t\<lparr>trActive := AList.update sid (mget 0 (trActive t) sid + 1) (trActive t)\<rparr>)"

definition tr_end :: "string \<Rightarrow> tracker \<Rightarrow> bool \<times> tracker" where
  "tr_end sid t =
     (let n = mget 0 (trActive t) sid - 1;
          act = (if n \<le> 0 then AList.delete sid (trActive t) else AList.update sid n (trActive t))
      in (trDraining t \<and> \<not> trFrozen t \<and> mget 0 act sid = 0, t\<lparr>trActive := act\<rparr>))"

definition mark_skip :: "string \<Rightarrow> tracker \<Rightarrow> bool" where
  "mark_skip sid t \<longleftrightarrow> trFrozen t \<or> mget False (trMarked t) sid \<or> mget 0 (trActive t) sid = 0"

definition clear_skip :: "string \<Rightarrow> tracker \<Rightarrow> bool" where
  "clear_skip sid t \<longleftrightarrow> \<not> mget False (trMarked t) sid \<or> trFrozen t \<or> 0 < mget 0 (trActive t) sid"

definition take_writeMu :: "owner \<Rightarrow> daemon \<Rightarrow> daemon" where
  "take_writeMu w d = with_tracker (\<lambda>t. t\<lparr>trWriteMu := Some w\<rparr>) d"

definition drop_writeMu :: "daemon \<Rightarrow> daemon" where
  "drop_writeMu d = with_tracker (\<lambda>t. t\<lparr>trWriteMu := None\<rparr>) d"

definition note_failed :: "string \<Rightarrow> daemon \<Rightarrow> daemon" where
  "note_failed sid d = d\<lparr>dsFailed := AList.update sid True (dsFailed d)\<rparr>"

text \<open>\<^verbatim>\<open>store.MarkInterrupted\<close> and \<^verbatim>\<open>store.ClearInterrupted\<close>: the marker, unless the write failed without landing.\<close>

definition write_marker :: "string \<Rightarrow> bool \<Rightarrow> bool \<Rightarrow> bool \<Rightarrow> daemon \<Rightarrow> daemon" where
  "write_marker sid v ok landed d =
     (let d1 = (if ok \<or> landed then d\<lparr>dsMarker := AList.update sid v (dsMarker d)\<rparr> else d)
      in if ok then d1 else note_failed sid d1)"

definition set_marked :: "string \<Rightarrow> daemon \<Rightarrow> daemon" where
  "set_marked sid d = with_tracker (\<lambda>t. t\<lparr>trMarked := AList.update sid True (trMarked t)\<rparr>) d"

definition unset_marked :: "string \<Rightarrow> daemon \<Rightarrow> daemon" where
  "unset_marked sid d = with_tracker (\<lambda>t. t\<lparr>trMarked := AList.delete sid (trMarked t)\<rparr>) d"

text \<open>The pass at boot clears the marker of a session whose turn it has run, or that it found finished; \<open>landed\<close> is whether the
  write reached the store.\<close>

definition resume_clear :: "string \<Rightarrow> bool \<Rightarrow> daemon \<Rightarrow> daemon" where
  "resume_clear sid landed d =
     (if \<not> landed then d
      else let d1 = d\<lparr>dsMarker := AList.update sid False (dsMarker d)\<rparr>
           in if trDraining (dsTracker d) then note_failed sid d1 else d1)"

section \<open>A turn\<close>

text \<open>
  The next step of turn \<open>i\<close>: \<open>ok\<close> is whether what it waits for or writes succeeds, \<open>flag\<close> whether its read of the
  session succeeded, whether it was refused for another reason, or whether a failed write landed.
\<close>

definition turn_step :: "nat \<Rightarrow> bool \<Rightarrow> bool \<Rightarrow> daemon \<Rightarrow> daemon" where
  "turn_step i ok flag d =
     (let sid = session_of d i; t = dsTracker d
      in case tuPc (dsTurns d i) of
           NotStarted \<Rightarrow> d
         | Waiting \<Rightarrow>
             if \<not> ok then set_pc i Finished d
             else if map_of (dsSlots d) sid = None
             then set_pc i Locked (d\<lparr>dsSlots := AList.update sid i (dsSlots d)\<rparr>)
             else d
         | Locked \<Rightarrow> set_pc i Registered (with_tracker (\<lambda>t. t\<lparr>trCancels := AList.update sid i (trCancels t)\<rparr>) d)
         | Registered \<Rightarrow>
             if \<not> ok then set_pc i Leaving d
             else if flag then set_pc i Admitted (d\<lparr>dsTurns := (dsTurns d)(i := (dsTurns d i)\<lparr>tuUnchecked := True\<rparr>)\<rparr>)
             else if mget False (dsAborted d) sid then set_pc i Leaving d
             else set_pc i Admitted d
         | Admitted \<Rightarrow>
             if \<not> ok then set_pc i Leaving d
             else (case tr_begin sid t of (m, t') \<Rightarrow> set_pc i (Begun m) (d\<lparr>dsTracker := t'\<rparr>))
         | Begun m \<Rightarrow>
             if \<not> m then set_pc i Running d
             else if trWriteMu t \<noteq> None then d
             else if mark_skip sid t then set_pc i Running d
             else set_pc i MarkHeld (take_writeMu (ByTurn i) d)
         | MarkHeld \<Rightarrow>
             if ok then set_pc i MarkWritten (write_marker sid True ok flag d)
             else set_pc i Running (drop_writeMu (write_marker sid True ok flag d))
         | MarkWritten \<Rightarrow> set_pc i Running (drop_writeMu (set_marked sid d))
         | Running \<Rightarrow> (case tr_end sid t of (c, t') \<Rightarrow> set_pc i (Ended c) (d\<lparr>dsTracker := t'\<rparr>))
         | Ended c \<Rightarrow>
             if \<not> c then set_pc i Leaving d
             else if trWriteMu t \<noteq> None then d
             else if clear_skip sid t then set_pc i Leaving d
             else set_pc i ClearHeld (take_writeMu (ByTurn i) d)
         | ClearHeld \<Rightarrow>
             if ok then set_pc i ClearWritten (write_marker sid False ok flag d)
             else set_pc i Leaving (drop_writeMu (write_marker sid False ok flag d))
         | ClearWritten \<Rightarrow> set_pc i Leaving (drop_writeMu (unset_marked sid d))
         | Leaving \<Rightarrow> set_pc i Unregistered (with_tracker (\<lambda>t. t\<lparr>trCancels := AList.delete sid (trCancels t)\<rparr>) d)
         | Unregistered \<Rightarrow> set_pc i Finished (d\<lparr>dsSlots := AList.delete sid (dsSlots d)\<rparr>)
         | Finished \<Rightarrow> d)"

section \<open>The drain and the operator\<close>

text \<open>\<^verbatim>\<open>beginDrain\<close> takes the active sessions under the mutex and marks them one by one until its deadline.\<close>

definition begin_drain :: "daemon \<Rightarrow> daemon" where
  "begin_drain d =
     (if dsDrain d \<noteq> NotDraining then d
      else with_tracker (\<lambda>t. t\<lparr>trDraining := True\<rparr>) d\<lparr>dsDrain := Marking (sort (remdups (map fst (trActive (dsTracker d)))))\<rparr>)"

definition drain_step :: "bool \<Rightarrow> bool \<Rightarrow> daemon \<Rightarrow> daemon" where
  "drain_step ok flag d =
     (case dsDrain d of
        Marking [] \<Rightarrow> d\<lparr>dsDrain := Drained\<rparr>
      | Marking (sid # sids) \<Rightarrow>
          if \<not> ok then foldl (\<lambda>d sid. note_failed sid d) (d\<lparr>dsDrain := Drained\<rparr>) (sid # sids)
          else if trWriteMu (dsTracker d) \<noteq> None then d
          else if mark_skip sid (dsTracker d) then d\<lparr>dsDrain := Marking sids\<rparr>
          else take_writeMu ByDrain d\<lparr>dsDrain := DMarkHeld sid sids\<rparr>
      | DMarkHeld sid sids \<Rightarrow>
          if ok then write_marker sid True ok flag d\<lparr>dsDrain := DMarkWritten sid sids\<rparr>
          else drop_writeMu (write_marker sid True ok flag d)\<lparr>dsDrain := Marking sids\<rparr>
      | DMarkWritten sid sids \<Rightarrow> drop_writeMu (set_marked sid d)\<lparr>dsDrain := Marking sids\<rparr>
      | _ \<Rightarrow> d)"

definition freeze :: "daemon \<Rightarrow> daemon" where
  "freeze d = (if dsDrain d = Drained then with_tracker (\<lambda>t. t\<lparr>trFrozen := True\<rparr>) d else d)"

text \<open>An abort writes its marker and then sweeps.\<close>

definition write_abort :: "string \<Rightarrow> daemon \<Rightarrow> daemon" where
  "write_abort sid d = d\<lparr>dsAborted := AList.update sid True (dsAborted d)\<rparr>"

definition cancelSession :: "string \<Rightarrow> daemon \<Rightarrow> daemon" where
  "cancelSession sid d =
     (case map_of (trCancels (dsTracker d)) sid of
        None \<Rightarrow> d
      | Some i \<Rightarrow> d\<lparr>dsTurns := (dsTurns d)(i := (dsTurns d i)\<lparr>tuCancelled := True\<rparr>)\<rparr>)"

definition sweep :: "string \<Rightarrow> daemon \<Rightarrow> daemon" where
  "sweep sid d =
     (if mget False (dsAborted d) sid then cancelSession sid d\<lparr>dsSwept := AList.update sid True (dsSwept d)\<rparr> else d)"

text \<open>\<^verbatim>\<open>survivors\<close>: the active sessions with and without a marker.\<close>

definition survivors :: "tracker \<Rightarrow> string list \<times> string list" where
  "survivors t =
     (let act = map fst (trActive t)
      in (sort (filter (\<lambda>s. mget False (trMarked t) s) act), sort (filter (\<lambda>s. \<not> mget False (trMarked t) s) act)))"

datatype daemon_op =
    Arrive nat string
  | TurnStep nat bool bool
  | BeginDrain
  | DrainStep bool bool
  | Freeze
  | WriteAbort string
  | Sweep string
  | ResumeClear string bool

fun daemon_step :: "daemon \<Rightarrow> daemon_op \<Rightarrow> daemon" where
  "daemon_step d (Arrive i sid) =
     (if tuPc (dsTurns d i) = NotStarted
      then d\<lparr>dsTurns := (dsTurns d)(i := \<lparr>tuSession = sid, tuPc = Waiting, tuCancelled = False, tuUnchecked = False\<rparr>)\<rparr> else d)"
| "daemon_step d (TurnStep i ok flag) = turn_step i ok flag d"
| "daemon_step d BeginDrain = begin_drain d"
| "daemon_step d (DrainStep ok flag) = drain_step ok flag d"
| "daemon_step d Freeze = freeze d"
| "daemon_step d (WriteAbort sid) = write_abort sid d"
| "daemon_step d (Sweep sid) = sweep sid d"
| "daemon_step d (ResumeClear sid landed) = resume_clear sid landed d"

fun clears :: "string \<Rightarrow> daemon_op \<Rightarrow> bool" where
  "clears s (ResumeClear sid landed) \<longleftrightarrow> sid = s"
| "clears s _ \<longleftrightarrow> False"

definition daemon_start :: daemon where
  "daemon_start =
     \<lparr>dsTracker = \<lparr>trActive = [], trMarked = [], trDraining = False, trFrozen = False, trCancels = [], trWriteMu = None\<rparr>,
      dsSlots = [], dsTurns = (\<lambda>_. \<lparr>tuSession = [], tuPc = NotStarted, tuCancelled = False, tuUnchecked = False\<rparr>),
      dsDrain = NotDraining, dsMarker = [], dsAborted = [], dsSwept = [], dsFailed = []\<rparr>"

definition daemon_run :: "daemon_op list \<Rightarrow> daemon" where
  "daemon_run ops = foldl daemon_step daemon_start ops"


fun holds :: "turn_pc \<Rightarrow> bool" where
  "holds NotStarted = False" | "holds Waiting = False" | "holds Finished = False" | "holds _ = True"

fun registered :: "turn_pc \<Rightarrow> bool" where
  "registered Locked = False" | "registered Unregistered = False" | "registered pc = holds pc"

fun counted :: "turn_pc \<Rightarrow> bool" where
  "counted (Begun m) = True" | "counted MarkHeld = True" | "counted MarkWritten = True" | "counted Running = True"
| "counted _ = False"

fun writing :: "turn_pc \<Rightarrow> bool" where
  "writing MarkHeld = True" | "writing MarkWritten = True" | "writing ClearHeld = True" | "writing ClearWritten = True"
| "writing _ = False"

fun marking :: "drain_pc \<Rightarrow> string option" where
  "marking (DMarkHeld s ss) = Some s" | "marking (DMarkWritten s ss) = Some s" | "marking _ = None"

definition pc_of :: "daemon \<Rightarrow> nat \<Rightarrow> turn_pc" where "pc_of d i = tuPc (dsTurns d i)"

definition slots_inv :: "daemon \<Rightarrow> bool" where
  "slots_inv d \<longleftrightarrow> (\<forall>i s. map_of (dsSlots d) s = Some i \<longleftrightarrow> session_of d i = s \<and> holds (pc_of d i))"

definition cancels_inv :: "daemon \<Rightarrow> bool" where
  "cancels_inv d \<longleftrightarrow> (\<forall>i s. map_of (trCancels (dsTracker d)) s = Some i \<longleftrightarrow> session_of d i = s \<and> registered (pc_of d i))"

definition mu_inv :: "daemon \<Rightarrow> bool" where
  "mu_inv d \<longleftrightarrow> (\<forall>i. trWriteMu (dsTracker d) = Some (ByTurn i) \<longleftrightarrow> writing (pc_of d i))
     \<and> (trWriteMu (dsTracker d) = Some ByDrain \<longleftrightarrow> marking (dsDrain d) \<noteq> None)"

definition locks_inv :: "daemon \<Rightarrow> bool" where
  "locks_inv d \<longleftrightarrow> slots_inv d \<and> cancels_inv d \<and> mu_inv d"

text \<open>The point of the one turn that has a session's slot; \<open>Finished\<close> when none has it.\<close>

definition pc_in :: "daemon \<Rightarrow> string \<Rightarrow> turn_pc" where
  "pc_in d s = (case map_of (dsSlots d) s of None \<Rightarrow> Finished | Some i \<Rightarrow> pc_of d i)"

fun pending :: "drain_pc \<Rightarrow> string list" where
  "pending (Marking ss) = ss" | "pending (DMarkHeld s ss) = s # ss" | "pending (DMarkWritten s ss) = s # ss" | "pending _ = []"

fun drain_wrote :: "drain_pc \<Rightarrow> string \<Rightarrow> bool" where
  "drain_wrote (DMarkWritten s ss) s' = (s' = s)" | "drain_wrote _ _ = False"

fun idle :: "turn_pc \<Rightarrow> bool" where
  "idle Finished = True" | "idle Locked = True" | "idle Registered = True" | "idle Admitted = True" | "idle Leaving = True"
| "idle Unregistered = True" | "idle (Ended c) = (\<not> c)" | "idle _ = False"

fun drain_only :: "turn_pc \<Rightarrow> bool" where
  "drain_only (Begun m) = m" | "drain_only (Ended c) = c" | "drain_only pc = writing pc"

definition settled :: "turn_pc \<Rightarrow> bool" where
  "settled pc \<longleftrightarrow> pc = Begun False \<or> pc = Running"

definition drained_from :: "turn_pc \<Rightarrow> bool" where
  "drained_from pc \<longleftrightarrow> settled pc \<or> pc = Begun True \<or> pc = Ended True"

abbreviation marked_in :: "daemon \<Rightarrow> string \<Rightarrow> bool" where "marked_in d s \<equiv> mget False (trMarked (dsTracker d)) s"
abbreviation on_disk :: "daemon \<Rightarrow> string \<Rightarrow> bool" where "on_disk d s \<equiv> mget False (dsMarker d) s"
abbreviation failed_in :: "daemon \<Rightarrow> string \<Rightarrow> bool" where "failed_in d s \<equiv> mget False (dsFailed d) s"
abbreviation draining :: "daemon \<Rightarrow> bool" where "draining d \<equiv> trDraining (dsTracker d)"
abbreviation frozen :: "daemon \<Rightarrow> bool" where "frozen d \<equiv> trFrozen (dsTracker d)"

definition session_inv :: "daemon \<Rightarrow> string \<Rightarrow> bool" where
  "session_inv d s \<longleftrightarrow>
     mget 0 (trActive (dsTracker d)) s = (if counted (pc_in d s) then 1 else 0)
     \<and> (\<not> failed_in d s \<longrightarrow>
          (if pc_in d s = MarkWritten \<or> drain_wrote (dsDrain d) s then on_disk d s
           else if pc_in d s = ClearWritten then \<not> on_disk d s
           else on_disk d s = marked_in d s))
     \<and> (pc_in d s = MarkHeld \<or> pc_in d s = MarkWritten \<or> marking (dsDrain d) = Some s \<longrightarrow> \<not> marked_in d s)
     \<and> (marking (dsDrain d) = Some s \<longrightarrow> drained_from (pc_in d s))
     \<and> (draining d \<and> \<not> frozen d \<and> settled (pc_in d s) \<and> s \<notin> set (pending (dsDrain d)) \<and> \<not> failed_in d s \<longrightarrow> marked_in d s)
     \<and> (\<not> frozen d \<and> \<not> failed_in d s \<and> idle (pc_in d s) \<longrightarrow> \<not> marked_in d s)
     \<and> (\<not> draining d \<longrightarrow> \<not> marked_in d s \<and> \<not> drain_only (pc_in d s))"

definition drain_inv :: "daemon \<Rightarrow> bool" where
  "drain_inv d \<longleftrightarrow> (frozen d \<longrightarrow> dsDrain d = Drained) \<and> (draining d \<longleftrightarrow> dsDrain d \<noteq> NotDraining) \<and> (\<forall>s. session_inv d s)"


text \<open>A turn starts and is marked by a drain; a second turn of another session starts meanwhile; an abort comes in.\<close>

definition starts :: "nat \<Rightarrow> daemon_op list" where
  "starts i = replicate 5 (TurnStep i True False)"

definition demo_drain :: "daemon_op list" where
  "demo_drain = [Arrive 0 ''s'', Arrive 1 ''t''] @ starts 0 @ [BeginDrain, DrainStep True False] @ starts 1
     @ [DrainStep True False, DrainStep True False, DrainStep True False] @ replicate 3 (TurnStep 1 True False)"

definition demo_finished :: "daemon_op list" where
  "demo_finished = demo_drain @ replicate 6 (TurnStep 0 True False)"

definition demo_abort :: "daemon_op list" where
  "demo_abort = [Arrive 0 ''s''] @ starts 0 @ [WriteAbort ''s'', Sweep ''s'']"

definition demo_frozen :: "daemon_op list" where
  "demo_frozen = demo_drain @ [DrainStep True False, Freeze]"

definition demo_lost :: "daemon_op list" where
  "demo_lost = [Arrive 0 ''s'', Arrive 1 ''s''] @ starts 0 @ [BeginDrain] @ replicate 4 (DrainStep True False)
     @ [TurnStep 0 True False, TurnStep 0 True False, TurnStep 0 False True, TurnStep 0 True False, TurnStep 0 True False]
     @ starts 1"

text \<open>The turn of the pass ends, a drain begins, a queued turn of the session starts and marks itself, and the pass clears.\<close>

definition demo_unmarked :: "daemon_op list" where
  "demo_unmarked = [Arrive 0 ''s'', Arrive 1 ''s''] @ starts 0 @ replicate 4 (TurnStep 0 True False)
     @ [BeginDrain, DrainStep True False] @ replicate 7 (TurnStep 1 True False) @ [ResumeClear ''s'' True]"

definition abort_inv :: "daemon \<Rightarrow> bool" where
  "abort_inv d \<longleftrightarrow>
     (\<forall>s. mget False (dsSwept d) s \<longrightarrow> mget False (dsAborted d) s)
     \<and> (\<forall>i. mget False (dsSwept d) (session_of d i) \<and> (counted (pc_of d i) \<or> pc_of d i = Admitted) \<and> \<not> tuUnchecked (dsTurns d i)
           \<longrightarrow> tuCancelled (dsTurns d i))"

definition daemon_inv :: "daemon \<Rightarrow> bool" where
  "daemon_inv d \<longleftrightarrow> locks_inv d \<and> drain_inv d \<and> abort_inv d"

section \<open>Lemmas and properties\<close>

lemma set_pc_simps [simp]:
  "pc_of (set_pc i pc d) j = (if j = i then pc else pc_of d j)"
  "session_of (set_pc i pc d) j = session_of d j"
  "dsSlots (set_pc i pc d) = dsSlots d" "dsTracker (set_pc i pc d) = dsTracker d" "dsDrain (set_pc i pc d) = dsDrain d"
  "dsMarker (set_pc i pc d) = dsMarker d" "dsAborted (set_pc i pc d) = dsAborted d" "dsSwept (set_pc i pc d) = dsSwept d"
  "dsFailed (set_pc i pc d) = dsFailed d"
  by (simp_all add: set_pc_def pc_of_def session_of_def)

lemma other_simps [simp]:
  "pc_of (d\<lparr>dsTracker := t\<rparr>) j = pc_of d j" "session_of (d\<lparr>dsTracker := t\<rparr>) j = session_of d j"
  "pc_of (d\<lparr>dsSlots := sl\<rparr>) j = pc_of d j" "session_of (d\<lparr>dsSlots := sl\<rparr>) j = session_of d j"
  "pc_of (d\<lparr>dsMarker := m\<rparr>) j = pc_of d j" "session_of (d\<lparr>dsMarker := m\<rparr>) j = session_of d j"
  "pc_of (d\<lparr>dsFailed := f\<rparr>) j = pc_of d j" "session_of (d\<lparr>dsFailed := f\<rparr>) j = session_of d j"
  "pc_of (d\<lparr>dsDrain := p\<rparr>) j = pc_of d j" "session_of (d\<lparr>dsDrain := p\<rparr>) j = session_of d j"
  "pc_of (d\<lparr>dsAborted := a\<rparr>) j = pc_of d j" "session_of (d\<lparr>dsAborted := a\<rparr>) j = session_of d j"
  "pc_of (d\<lparr>dsSwept := w\<rparr>) j = pc_of d j" "session_of (d\<lparr>dsSwept := w\<rparr>) j = session_of d j"
  "pc_of (d\<lparr>dsTurns := (dsTurns d)(i := (dsTurns d i)\<lparr>tuUnchecked := b\<rparr>)\<rparr>) j = pc_of d j"
  "session_of (d\<lparr>dsTurns := (dsTurns d)(i := (dsTurns d i)\<lparr>tuUnchecked := b\<rparr>)\<rparr>) j = session_of d j"
  "pc_of (d\<lparr>dsTurns := (dsTurns d)(i := (dsTurns d i)\<lparr>tuCancelled := b\<rparr>)\<rparr>) j = pc_of d j"
  "session_of (d\<lparr>dsTurns := (dsTurns d)(i := (dsTurns d i)\<lparr>tuCancelled := b\<rparr>)\<rparr>) j = session_of d j"
  by (simp_all add: pc_of_def session_of_def)

lemmas op_defs = with_tracker_def take_writeMu_def drop_writeMu_def note_failed_def write_marker_def set_marked_def
  unset_marked_def Let_def

lemma write_marker_simps [simp]:
  "pc_of (write_marker s v ok l d) j = pc_of d j" "session_of (write_marker s v ok l d) j = session_of d j"
  "dsSlots (write_marker s v ok l d) = dsSlots d" "dsTracker (write_marker s v ok l d) = dsTracker d"
  "dsDrain (write_marker s v ok l d) = dsDrain d" "dsAborted (write_marker s v ok l d) = dsAborted d"
  "dsSwept (write_marker s v ok l d) = dsSwept d" "dsTurns (write_marker s v ok l d) = dsTurns d"
  by (simp_all add: op_defs)

lemma resume_clear_simps [simp]:
  "dsTracker (resume_clear sid l d) = dsTracker d" "dsSlots (resume_clear sid l d) = dsSlots d"
  "dsTurns (resume_clear sid l d) = dsTurns d" "dsDrain (resume_clear sid l d) = dsDrain d"
  "dsAborted (resume_clear sid l d) = dsAborted d" "dsSwept (resume_clear sid l d) = dsSwept d"
  "pc_of (resume_clear sid l d) j = pc_of d j" "session_of (resume_clear sid l d) j = session_of d j"
  by (simp_all add: resume_clear_def note_failed_def Let_def pc_of_def session_of_def)

lemma slots_unique:
  "slots_inv d \<Longrightarrow> holds (pc_of d i) \<Longrightarrow> session_of d j = session_of d i \<Longrightarrow> holds (pc_of d j) \<longleftrightarrow> j = i"
  unfolding slots_inv_def by (metis option.inject)

lemma slots_free: "slots_inv d \<Longrightarrow> map_of (dsSlots d) (session_of d i) = None \<Longrightarrow> session_of d j = session_of d i \<Longrightarrow> \<not> holds (pc_of d j)"
  unfolding slots_inv_def by (metis option.distinct(1))

lemma registered_holds: "registered pc \<Longrightarrow> holds pc"
  by (cases pc) auto

lemma mu_turn_owner:
  "mu_inv d \<Longrightarrow> writing (pc_of d i) \<Longrightarrow> (writing (pc_of d j) \<longleftrightarrow> j = i) \<and> marking (dsDrain d) = None \<and> trWriteMu (dsTracker d) = Some (ByTurn i)"
  unfolding mu_inv_def by (metis option.inject owner.distinct(1) owner.inject)

lemma mu_drain_owner: "mu_inv d \<Longrightarrow> marking (dsDrain d) \<noteq> None \<Longrightarrow> \<not> writing (pc_of d j) \<and> trWriteMu (dsTracker d) = Some ByDrain"
  unfolding mu_inv_def by (metis option.inject owner.distinct(1))

lemma slots_turn:
  assumes "slots_inv d"
  shows "slots_inv (turn_step i ok flag d)"
proof (cases "pc_of d i")
  case Waiting
  then show ?thesis using assms slots_free[OF assms, of i]
    by (auto simp: slots_inv_def turn_step_def pc_of_def[symmetric] op_defs)
next
  case Unregistered
  then show ?thesis using assms slots_unique[OF assms, of i]
    by (auto simp: slots_inv_def turn_step_def pc_of_def[symmetric] op_defs)
qed (use assms in \<open>auto simp: slots_inv_def turn_step_def pc_of_def[symmetric] op_defs tr_begin_def tr_end_def\<close>)

lemma cancels_turn:
  assumes "slots_inv d" "cancels_inv d"
  shows "cancels_inv (turn_step i ok flag d)"
proof (cases "pc_of d i")
  case Locked
  have "j = i" if "session_of d j = session_of d i" "registered (pc_of d j)" for j
    using slots_unique[OF assms(1), of i j] registered_holds that Locked by simp
  then show ?thesis using assms(2) Locked by (auto simp: cancels_inv_def turn_step_def pc_of_def[symmetric] op_defs)
next
  case Leaving
  have "j = i" if "session_of d j = session_of d i" "registered (pc_of d j)" for j
    using slots_unique[OF assms(1), of i j] registered_holds that Leaving by simp
  then show ?thesis using assms(2) Leaving by (auto simp: cancels_inv_def turn_step_def pc_of_def[symmetric] op_defs)
qed (use assms(2) in \<open>auto simp: cancels_inv_def turn_step_def pc_of_def[symmetric] op_defs tr_begin_def tr_end_def\<close>)

lemma mu_turn:
  assumes "mu_inv d"
  shows "mu_inv (turn_step i ok flag d)"
proof (cases "writing (pc_of d i)")
  case True
  note own = mu_turn_owner[OF assms True]
  show ?thesis using True
    by (cases "pc_of d i") (use own in \<open>auto simp: mu_inv_def turn_step_def pc_of_def[symmetric] op_defs\<close>)
next
  case False
  then show ?thesis
    by (cases "pc_of d i") (use assms in \<open>auto simp: mu_inv_def turn_step_def pc_of_def[symmetric] op_defs tr_begin_def tr_end_def\<close>)
qed

subsection \<open>Locks\<close>

lemma locks_arrive: "locks_inv d \<Longrightarrow> locks_inv (daemon_step d (Arrive i sid))"
  by (auto simp: locks_inv_def slots_inv_def cancels_inv_def mu_inv_def pc_of_def session_of_def)

lemma locks_drain:
  assumes "locks_inv d"
  shows "locks_inv (drain_step ok flag d)"
proof -
  have fld: "slots_inv (foldl (\<lambda>d sid. note_failed sid d) d' ss) = slots_inv d'
    \<and> cancels_inv (foldl (\<lambda>d sid. note_failed sid d) d' ss) = cancels_inv d'
    \<and> mu_inv (foldl (\<lambda>d sid. note_failed sid d) d' ss) = mu_inv d'" for d' ss
    by (induction ss arbitrary: d') (simp_all add: note_failed_def slots_inv_def cancels_inv_def mu_inv_def)
  have inv: "slots_inv d" "cancels_inv d" "mu_inv d" using assms by (simp_all add: locks_inv_def)
  show ?thesis
  proof (cases "dsDrain d")
    case (Marking ss)
    then show ?thesis using inv fld
      by (cases ss) (auto simp: drain_step_def locks_inv_def slots_inv_def cancels_inv_def mu_inv_def op_defs simp del: foldl.simps)
  next
    case (DMarkHeld s ss)
    then show ?thesis using inv mu_drain_owner[OF inv(3)]
      by (auto simp: drain_step_def locks_inv_def slots_inv_def cancels_inv_def mu_inv_def op_defs)
  next
    case (DMarkWritten s ss)
    then show ?thesis using inv mu_drain_owner[OF inv(3)]
      by (auto simp: drain_step_def locks_inv_def slots_inv_def cancels_inv_def mu_inv_def op_defs)
  qed (use assms in \<open>simp_all add: drain_step_def\<close>)
qed

lemma locks_step:
  assumes "locks_inv d"
  shows "locks_inv (daemon_step d x)"
proof (cases x)
  case (Arrive i sid)
  then show ?thesis using assms locks_arrive by simp
next
  case (TurnStep i ok flag)
  then show ?thesis using assms slots_turn cancels_turn mu_turn by (simp add: locks_inv_def)
next
  case (DrainStep ok flag)
  then show ?thesis using assms locks_drain by simp
qed (use assms in \<open>auto simp: begin_drain_def freeze_def write_abort_def sweep_def cancelSession_def locks_inv_def slots_inv_def
       cancels_inv_def mu_inv_def op_defs split: option.splits\<close>)

subsection \<open>Markers\<close>

lemma pc_in_holder: "slots_inv d \<Longrightarrow> holds (pc_of d i) \<Longrightarrow> pc_in d (session_of d i) = pc_of d i"
  by (simp add: slots_inv_def pc_in_def) (metis option.simps(5))

lemma pc_in_other:
  assumes "slots_inv d" "s \<noteq> session_of d i" "dsSlots d' = dsSlots d \<or> (\<exists>j. dsSlots d' = AList.update (session_of d i) j (dsSlots d)) \<or> dsSlots d' = AList.delete (session_of d i) (dsSlots d)"
    and "\<And>j. j \<noteq> i \<Longrightarrow> pc_of d' j = pc_of d j"
  shows "pc_in d' s = pc_in d s"
proof -
  have "map_of (dsSlots d') s = map_of (dsSlots d) s" using assms(2,3) by auto
  moreover have "j \<noteq> i" if "map_of (dsSlots d) s = Some j" for j using that assms(1,2) by (auto simp: slots_inv_def)
  ultimately show ?thesis using assms(4) by (auto simp: pc_in_def split: option.splits)
qed

lemma session_inv_cong:
  assumes "pc_in d' s = pc_in d s" "mget 0 (trActive (dsTracker d')) s = mget 0 (trActive (dsTracker d)) s"
    "marked_in d' s = marked_in d s" "on_disk d' s = on_disk d s" "failed_in d' s = failed_in d s"
    "dsDrain d' = dsDrain d" "draining d' = draining d" "frozen d' = frozen d"
  shows "session_inv d' s = session_inv d s"
  unfolding session_inv_def assms ..

lemmas turn_simps = turn_step_def pc_of_def[symmetric] op_defs tr_begin_def tr_end_def

lemma turn_other:
  assumes "slots_inv d" "s \<noteq> session_of d i"
  shows "session_inv (turn_step i ok flag d) s = session_inv d s"
proof (rule session_inv_cong)
  show "pc_in (turn_step i ok flag d) s = pc_in d s"
    using assms by (intro pc_in_other[of d s i]) (cases "pc_of d i"; auto simp: turn_simps)+
qed (use assms in \<open>cases "pc_of d i"; auto simp: turn_simps\<close>)+

lemma turn_own:
  assumes "locks_inv d" "drain_inv d"
  shows "session_inv (turn_step i ok flag d) (session_of d i)"
proof -
  let ?s = "session_of d i" and ?d' = "turn_step i ok flag d"
  have inv: "slots_inv d" "mu_inv d" "session_inv d ?s" using assms by (auto simp: locks_inv_def drain_inv_def)
  have glob: "marking (dsDrain d) = None \<or> draining d \<and> \<not> frozen d"
    using assms(2) by (cases "dsDrain d") (auto simp: drain_inv_def)
  have inv': "slots_inv ?d'" using slots_turn[OF inv(1)] .
  have sess: "session_of ?d' i = ?s" by (cases "pc_of d i") (auto simp: turn_simps)
  show ?thesis
  proof (cases "holds (pc_of d i)")
    case hold: True
    have pc: "pc_in d ?s = pc_of d i" using pc_in_holder[OF inv(1) hold] .
    have pc': "pc_in ?d' ?s = pc_of ?d' i"
    proof (cases "holds (pc_of ?d' i)")
      case True
      then show ?thesis using pc_in_holder[OF inv'] sess by metis
    next
      case False
      then have "pc_of d i = Unregistered" using hold by (cases "pc_of d i") (auto simp: turn_simps split: if_splits)
      then show ?thesis by (simp add: turn_simps pc_in_def)
    qed
    show ?thesis
    proof (cases "writing (pc_of d i)")
      case True
      note own = mu_turn_owner[OF inv(2) True]
      have "\<not> drain_wrote (dsDrain d) ?s" using own by (cases "dsDrain d") auto
      then show ?thesis using inv(3) pc pc' own True unfolding session_inv_def pc pc'
        by (cases "pc_of d i") (auto simp: turn_simps settled_def drained_from_def)
    next
      case False
      show ?thesis
      proof (cases "trWriteMu (dsTracker d)")
        case None
        then have "marking (dsDrain d) = None" using inv(2) by (auto simp: mu_inv_def)
        then show ?thesis using inv(3) pc pc' hold False None unfolding session_inv_def pc pc'
          by (cases "pc_of d i") (auto simp: turn_simps settled_def drained_from_def mark_skip_def clear_skip_def)
      next
        case (Some w)
        then show ?thesis using inv(3) glob pc pc' hold False Some unfolding session_inv_def pc pc'
          by (cases "pc_of d i") (auto simp: turn_simps settled_def drained_from_def mark_skip_def clear_skip_def)
      qed
    qed
  next
    case False
    show ?thesis
    proof (cases "pc_of d i = Waiting \<and> ok \<and> map_of (dsSlots d) ?s = None")
      case True
      then have "pc_in d ?s = Finished" "pc_in ?d' ?s = Locked" by (auto simp: pc_in_def turn_simps)
      then show ?thesis using inv(3) True unfolding session_inv_def by (auto simp: turn_simps settled_def drained_from_def)
    next
      case F: False
      have "map_of (dsSlots d) ?s \<noteq> Some i" using inv(1) False by (auto simp: slots_inv_def)
      then have "pc_in ?d' ?s = pc_in d ?s" using False F by (cases "pc_of d i") (auto simp: turn_simps pc_in_def split: option.splits)
      then have "session_inv ?d' ?s = session_inv d ?s"
        using False F by (intro session_inv_cong) (cases "pc_of d i"; auto simp: turn_simps)+
      then show ?thesis using inv(3) by simp
    qed
  qed
qed

lemma session_of_turn: "session_of (turn_step i ok flag d) j = session_of d j"
  by (cases "pc_of d i") (auto simp: turn_simps)

lemma drain_turn:
  assumes "locks_inv d" "drain_inv d"
  shows "drain_inv (turn_step i ok flag d)"
proof -
  have "session_inv (turn_step i ok flag d) s" for s
    using turn_own[OF assms, of i ok flag] turn_other[of d s i ok flag] assms by (cases "s = session_of d i") (auto simp: locks_inv_def drain_inv_def)
  moreover have "dsDrain (turn_step i ok flag d) = dsDrain d" "draining (turn_step i ok flag d) = draining d" "frozen (turn_step i ok flag d) = frozen d"
    by (cases "pc_of d i"; auto simp: turn_simps)+
  ultimately show ?thesis using assms(2) by (simp add: drain_inv_def)
qed

lemma pc_in_frame: "dsSlots d' = dsSlots d \<Longrightarrow> (\<And>j. pc_of d' j = pc_of d j) \<Longrightarrow> pc_in d' s = pc_in d s"
  by (auto simp: pc_in_def split: option.split)

lemma failed_fold: "failed_in (foldl (\<lambda>d sid. note_failed sid d) d ss) s = (s \<in> set ss \<or> failed_in d s)"
  by (induction ss arbitrary: d) (auto simp: note_failed_def)

lemma fold_frame:
  "dsTracker (foldl (\<lambda>d sid. note_failed sid d) d ss) = dsTracker d"
  "dsDrain (foldl (\<lambda>d sid. note_failed sid d) d ss) = dsDrain d"
  "dsMarker (foldl (\<lambda>d sid. note_failed sid d) d ss) = dsMarker d"
  "dsSlots (foldl (\<lambda>d sid. note_failed sid d) d ss) = dsSlots d"
  "pc_of (foldl (\<lambda>d sid. note_failed sid d) d ss) j = pc_of d j"
  by (induction ss arbitrary: d) (simp_all add: note_failed_def)

lemmas mu_defs = with_tracker_def take_writeMu_def drop_writeMu_def set_marked_def unset_marked_def Let_def

lemma pc_in_drain: "pc_in (drain_step ok flag d) s = pc_in d s"
proof (rule pc_in_frame)
  show "dsSlots (drain_step ok flag d) = dsSlots d"
    by (auto simp: drain_step_def fold_frame mu_defs simp del: foldl.simps split: drain_pc.splits list.splits)
  show "pc_of (drain_step ok flag d) j = pc_of d j" for j
    by (auto simp: drain_step_def fold_frame mu_defs simp del: foldl.simps split: drain_pc.splits list.splits)
qed

lemma drained_from_facts:
  "drained_from pc \<Longrightarrow> pc \<noteq> MarkWritten \<and> pc \<noteq> ClearWritten \<and> pc \<noteq> MarkHeld \<and> \<not> idle pc"
  by (auto simp: drained_from_def settled_def)

lemma disk_write:
  "on_disk (write_marker sid v ok l d) s = (if s = sid \<and> (ok \<or> l) then v else on_disk d s)"
  "failed_in (write_marker sid v ok l d) s = (s = sid \<and> \<not> ok \<or> failed_in d s)"
  by (auto simp: op_defs)

lemma drain_drain:
  assumes "locks_inv d" "drain_inv d"
  shows "drain_inv (drain_step ok flag d)"
proof -
  have inv: "mu_inv d" "\<And>s. session_inv d s" "frozen d \<longrightarrow> dsDrain d = Drained" "draining d \<longleftrightarrow> dsDrain d \<noteq> NotDraining"
    using assms by (auto simp: locks_inv_def drain_inv_def)
  note pc = pc_in_drain[of ok flag d]
  show ?thesis
  proof (cases "dsDrain d")
    case (Marking ss)
    show ?thesis
    proof (cases ss)
      case Nil
      have "session_inv (drain_step ok flag d) s" for s
        using inv(2)[of s] Marking Nil unfolding session_inv_def pc by (auto simp: drain_step_def)
      then show ?thesis using inv Marking Nil by (auto simp: drain_inv_def drain_step_def)
    next
      case (Cons sid sids)
      have "session_inv (drain_step ok flag d) s" for s
      proof (cases ok)
        case True
        show ?thesis
        proof (cases "trWriteMu (dsTracker d)")
          case None
          then have nw: "\<not> writing (pc_in d s)" using inv(1) by (auto simp: mu_inv_def pc_in_def split: option.splits)
          show ?thesis
          proof (cases "mark_skip sid (dsTracker d)")
            case skip: True
            then have "drain_step ok flag d = d\<lparr>dsDrain := Marking sids\<rparr>" using Marking Cons True None by (simp add: drain_step_def)
            then show ?thesis using inv(2)[of s] inv(3) skip Marking Cons unfolding session_inv_def pc
              by (cases "s = sid") (auto simp: mark_skip_def settled_def)
          next
            case take: False
            then have d': "drain_step ok flag d = take_writeMu ByDrain d\<lparr>dsDrain := DMarkHeld sid sids\<rparr>"
              using Marking Cons True None by (simp add: drain_step_def)
            have "drained_from (pc_in d s)" if "s = sid"
              using inv(2)[of s] take nw that unfolding session_inv_def mark_skip_def drained_from_def settled_def
              by (cases "pc_in d s") auto
            then show ?thesis using inv(2)[of s] take Marking Cons d' unfolding session_inv_def pc
              by (cases "s = sid") (auto simp: mark_skip_def mu_defs)
          qed
        next
          case (Some w)
          then have "drain_step ok flag d = d" using Marking Cons True by (simp add: drain_step_def)
          then show ?thesis using inv(2) by simp
        qed
      next
        case False
        then show ?thesis using inv(2)[of s] Marking Cons unfolding session_inv_def pc
          by (auto simp: drain_step_def failed_fold fold_frame simp del: foldl.simps)
      qed
      then show ?thesis using inv Marking Cons
        by (auto simp: drain_inv_def drain_step_def fold_frame mu_defs simp del: foldl.simps)
    qed
  next
    case (DMarkHeld sid sids)
    have "session_inv (drain_step ok flag d) s" for s
    proof (cases "s = sid")
      case True
      then have "drained_from (pc_in d s)" using inv(2)[of s] DMarkHeld by (simp add: session_inv_def)
      note dr = drained_from_facts[OF this] this
      show ?thesis using inv(2)[of s] DMarkHeld dr True unfolding session_inv_def pc
        by (cases ok) (simp_all add: drain_step_def mu_defs disk_write)
    next
      case False
      then show ?thesis using inv(2)[of s] DMarkHeld unfolding session_inv_def pc
        by (cases ok) (simp_all add: drain_step_def mu_defs disk_write)
    qed
    then show ?thesis using inv DMarkHeld by (auto simp: drain_inv_def drain_step_def mu_defs)
  next
    case (DMarkWritten sid sids)
    have "session_inv (drain_step ok flag d) s" for s
    proof (cases "s = sid")
      case True
      then have "drained_from (pc_in d s)" using inv(2)[of s] DMarkWritten by (simp add: session_inv_def)
      note dr = drained_from_facts[OF this] this
      show ?thesis using inv(2)[of s] inv(4) DMarkWritten dr True unfolding session_inv_def pc
        by (simp add: drain_step_def mu_defs)
    next
      case False
      then show ?thesis using inv(2)[of s] DMarkWritten unfolding session_inv_def pc by (simp add: drain_step_def mu_defs)
    qed
    then show ?thesis using inv DMarkWritten by (auto simp: drain_inv_def drain_step_def mu_defs)
  qed (use assms in \<open>simp_all add: drain_step_def\<close>)
qed

lemma drain_begin:
  assumes "drain_inv d"
  shows "drain_inv (begin_drain d)"
proof (cases "dsDrain d = NotDraining")
  case True
  have "session_inv (begin_drain d) s" for s
  proof -
    have inv: "session_inv d s" "\<not> draining d" using assms True by (auto simp: drain_inv_def)
    have pc: "pc_in (begin_drain d) s = pc_in d s" using True by (intro pc_in_frame) (simp_all add: begin_drain_def mu_defs)
    have act: "s \<in> fst ` set (trActive (dsTracker d))" if "settled (pc_in d s)"
    proof -
      have "counted (pc_in d s)" using that by (auto simp: settled_def)
      then have "mget 0 (trActive (dsTracker d)) s = 1" using session_inv_def[THEN iffD1, OF inv(1), THEN conjunct1] by simp
      then have "map_of (trActive (dsTracker d)) s \<noteq> None" unfolding mget_def by (metis option.simps(4) zero_neq_one)
      then show ?thesis unfolding map_of_eq_None_iff by simp
    qed
    show ?thesis
    proof (cases "settled (pc_in d s)")
      case True
      then show ?thesis using inv act[OF True] \<open>dsDrain d = NotDraining\<close> unfolding session_inv_def pc by (simp add: begin_drain_def mu_defs)
    next
      case False
      then show ?thesis using inv \<open>dsDrain d = NotDraining\<close> unfolding session_inv_def pc by (simp add: begin_drain_def mu_defs)
    qed
  qed
  then show ?thesis using assms True by (auto simp: drain_inv_def begin_drain_def mu_defs)
next
  case False
  then show ?thesis using assms by (simp add: begin_drain_def)
qed

lemma drain_arrive:
  assumes "locks_inv d" "drain_inv d"
  shows "drain_inv (daemon_step d (Arrive i sid))"
proof (cases "tuPc (dsTurns d i) = NotStarted")
  case True
  let ?d' = "daemon_step d (Arrive i sid)"
  have "pc_in ?d' s = pc_in d s" for s
  proof -
    have "map_of (dsSlots d) s \<noteq> Some i" using assms(1) True by (auto simp: locks_inv_def slots_inv_def pc_of_def)
    then show ?thesis using True by (auto simp: pc_in_def pc_of_def split: option.splits)
  qed
  then have "session_inv ?d' s = session_inv d s" for s using True by (intro session_inv_cong) auto
  then show ?thesis using assms(2) True by (auto simp: drain_inv_def)
qed (use assms in simp)

lemma drain_frame:
  assumes "drain_inv d" "dsTracker d' = dsTracker d" "dsSlots d' = dsSlots d" "dsDrain d' = dsDrain d" "dsMarker d' = dsMarker d"
    "dsFailed d' = dsFailed d" "\<And>j. pc_of d' j = pc_of d j"
  shows "drain_inv d'"
proof -
  have "session_inv d' s = session_inv d s" for s
    by (rule session_inv_cong) (use assms pc_in_frame[of d' d s] in auto)
  then show ?thesis using assms by (simp add: drain_inv_def)
qed

lemma drain_freeze: "drain_inv d \<Longrightarrow> drain_inv (freeze d)"
proof (cases "dsDrain d = Drained")
  case True
  assume inv: "drain_inv d"
  have "session_inv (freeze d) s" for s
  proof -
    have pc: "pc_in (freeze d) s = pc_in d s" using True by (intro pc_in_frame) (simp_all add: freeze_def mu_defs)
    have "session_inv d s" using inv by (simp add: drain_inv_def)
    then show ?thesis using True unfolding session_inv_def pc by (auto simp: freeze_def mu_defs)
  qed
  then show ?thesis using inv True by (auto simp: drain_inv_def freeze_def mu_defs)
qed (simp add: freeze_def)

lemma drain_resume_clear:
  assumes "drain_inv d"
  shows "drain_inv (resume_clear sid l d)"
proof -
  have pc: "pc_in (resume_clear sid l d) s = pc_in d s" for s by (rule pc_in_frame) simp_all
  have "session_inv (resume_clear sid l d) s" for s
  proof (cases "l \<and> s = sid")
    case True
    have inv: "session_inv d s" "draining d \<longleftrightarrow> dsDrain d \<noteq> NotDraining" using assms by (auto simp: drain_inv_def)
    show ?thesis
    proof (cases "draining d")
      case False
      then have "\<not> marked_in d s" "\<not> drain_only (pc_in d s)" "dsDrain d = NotDraining" using inv by (auto simp: session_inv_def)
      then show ?thesis using inv(1) True False unfolding session_inv_def pc
        by (cases "pc_in d s") (auto simp: resume_clear_def Let_def)
    next
      case dr: True
      then have "failed_in (resume_clear sid l d) s" using True by (simp add: resume_clear_def note_failed_def)
      then show ?thesis using inv(1) unfolding session_inv_def pc by simp
    qed
  next
    case False
    have "session_inv (resume_clear sid l d) s = session_inv d s"
      by (rule session_inv_cong) (use False pc in \<open>auto simp: resume_clear_def note_failed_def Let_def\<close>)
    then show ?thesis using assms by (simp add: drain_inv_def)
  qed
  then show ?thesis using assms by (simp add: drain_inv_def)
qed

lemma turns_set_pc: "dsTurns (set_pc i pc d) j = (if j = i then (dsTurns d i)\<lparr>tuPc := pc\<rparr> else dsTurns d j)"
  by (simp add: set_pc_def)

lemma abort_turn:
  assumes "abort_inv d"
  shows "abort_inv (turn_step i ok flag d)"
proof -
  let ?d' = "turn_step i ok flag d"
  have frame: "dsSwept ?d' = dsSwept d" "dsAborted ?d' = dsAborted d" "tuCancelled (dsTurns ?d' j) = tuCancelled (dsTurns d j)"
    "j \<noteq> i \<Longrightarrow> pc_of ?d' j = pc_of d j \<and> tuUnchecked (dsTurns ?d' j) = tuUnchecked (dsTurns d j)"
    "tuUnchecked (dsTurns d j) \<Longrightarrow> tuUnchecked (dsTurns ?d' j)" for j
    by (cases "pc_of d i"; auto simp: turn_simps turns_set_pc)+
  have own: "tuCancelled (dsTurns d i)"
    if "mget False (dsSwept d) (session_of d i)" "counted (pc_of ?d' i) \<or> pc_of ?d' i = Admitted" "\<not> tuUnchecked (dsTurns ?d' i)"
  proof (cases "pc_of d i = Registered")
    case True
    then show ?thesis using that assms by (auto simp: turn_simps abort_inv_def turns_set_pc split: if_splits)
  next
    case False
    then have "counted (pc_of d i) \<or> pc_of d i = Admitted" using that(2)
      by (cases "pc_of d i") (auto simp: turn_simps split: if_splits)
    then show ?thesis using that(1,3) frame(5) assms by (auto simp: abort_inv_def)
  qed
  have "tuCancelled (dsTurns d j)"
    if "mget False (dsSwept d) (session_of d j)" "counted (pc_of ?d' j) \<or> pc_of ?d' j = Admitted" "\<not> tuUnchecked (dsTurns ?d' j)" for j
    using own that frame(4)[of j] assms by (cases "j = i") (auto simp: abort_inv_def)
  then show ?thesis using assms frame(1,2,3) by (simp add: abort_inv_def session_of_turn)
qed

lemma abort_sweep:
  assumes "abort_inv d" "locks_inv d"
  shows "abort_inv (sweep sid d)"
proof (cases "mget False (dsAborted d) sid")
  case True
  have reg: "map_of (trCancels (dsTracker d)) sid = Some i" if "session_of d i = sid" "counted (pc_of d i) \<or> pc_of d i = Admitted" for i
    using that assms(2) by (cases "pc_of d i") (auto simp: locks_inv_def cancels_inv_def)
  show ?thesis
  proof (cases "map_of (trCancels (dsTracker d)) sid")
    case None
    then have "\<not> (counted (pc_of d i) \<or> pc_of d i = Admitted)" if "session_of d i = sid" for i using reg that by force
    then show ?thesis using assms(1) True None unfolding abort_inv_def sweep_def cancelSession_def by simp
  next
    case (Some j)
    then have "i = j" if "session_of d i = sid" "counted (pc_of d i) \<or> pc_of d i = Admitted" for i using reg that by force
    then show ?thesis using assms(1) True Some unfolding abort_inv_def sweep_def cancelSession_def by auto
  qed
qed (use assms in \<open>simp add: sweep_def\<close>)

lemma daemon_inv_step: "daemon_inv d \<Longrightarrow> daemon_inv (daemon_step d x)"
proof -
  assume inv: "daemon_inv d"
  then have i: "locks_inv d" "drain_inv d" "abort_inv d" by (auto simp: daemon_inv_def)
  have "drain_inv (daemon_step d x)"
  proof (cases x)
    case (Arrive j sid)
    then show ?thesis using drain_arrive[OF i(1,2)] by simp
  next
    case (TurnStep j ok flag)
    then show ?thesis using drain_turn[OF i(1,2)] by simp
  next
    case BeginDrain
    then show ?thesis using drain_begin[OF i(2)] by simp
  next
    case (DrainStep ok flag)
    then show ?thesis using drain_drain[OF i(1,2)] by simp
  next
    case Freeze
    then show ?thesis using drain_freeze[OF i(2)] by simp
  next
    case (WriteAbort sid)
    then show ?thesis using drain_frame[OF i(2)] by (simp add: write_abort_def)
  next
    case (Sweep sid)
    then show ?thesis by (intro drain_frame[OF i(2)]) (auto simp: sweep_def cancelSession_def split: option.splits)
  next
    case (ResumeClear sid l)
    then show ?thesis using drain_resume_clear[OF i(2)] by simp
  qed
  moreover have "abort_inv (daemon_step d x)"
  proof (cases x)
    case (TurnStep j ok flag)
    then show ?thesis using abort_turn[OF i(3)] by simp
  next
    case (Sweep sid)
    then show ?thesis using abort_sweep[OF i(3,1)] by simp
  next
    case (DrainStep ok flag)
    have "dsTurns (foldl (\<lambda>d sid. note_failed sid d) e ss) = dsTurns e" "dsSwept (foldl (\<lambda>d sid. note_failed sid d) e ss) = dsSwept e"
      "dsAborted (foldl (\<lambda>d sid. note_failed sid d) e ss) = dsAborted e" for e ss
      by (induction ss arbitrary: e) (simp_all add: note_failed_def)
    then have "dsTurns (drain_step ok flag d) = dsTurns d" "dsSwept (drain_step ok flag d) = dsSwept d" "dsAborted (drain_step ok flag d) = dsAborted d"
      by (auto simp: drain_step_def mu_defs simp del: foldl.simps split: drain_pc.splits list.splits)
    then show ?thesis using i(3) DrainStep by (auto simp: abort_inv_def pc_of_def session_of_def)
  qed (use i(3) in \<open>auto simp: abort_inv_def begin_drain_def freeze_def write_abort_def mu_defs pc_of_def session_of_def\<close>)
  ultimately show ?thesis using locks_step[OF i(1)] by (simp add: daemon_inv_def)
qed

lemma daemon_inv_start: "daemon_inv daemon_start"
  by (auto simp: daemon_inv_def locks_inv_def slots_inv_def cancels_inv_def mu_inv_def drain_inv_def session_inv_def abort_inv_def
      daemon_start_def pc_of_def session_of_def pc_in_def settled_def)

interpretation daemon_kept: kept daemon_step daemon_start daemon_inv
  by unfold_locales (rule daemon_inv_start, rule daemon_inv_step)

lemma run_inv: "locks_inv (daemon_run ops) \<and> drain_inv (daemon_run ops) \<and> abort_inv (daemon_run ops)"
  using daemon_kept.inv_run[of ops] by (simp add: daemon_inv_def daemon_run_def)





subsection \<open>What a daemon can rely on\<close>


text \<open>
  No finished turn is recorded as interrupted: until the window has elapsed, a session none of whose turns is past its
  lock, and that had no marker when the process started, has no marker on disk, unless a write failed or the pass at boot
  cleared it while the daemon drained.
\<close>

theorem finished_turn_is_unmarked:
  assumes "\<not> frozen (daemon_run ops)" "\<not> failed_in (daemon_run ops) s" "map_of (dsSlots (daemon_run ops)) s = None"
  shows "\<not> on_disk (daemon_run ops) s"
proof -
  let ?d = "daemon_run ops"
  have inv: "session_inv ?d s" using run_inv[of ops] by (auto simp: drain_inv_def)
  have pc: "pc_in ?d s = Finished" using assms(3) by (simp add: pc_in_def)
  have m: "marking (dsDrain ?d) \<noteq> Some s" using inv pc by (auto simp: session_inv_def drained_from_def settled_def)
  then have "\<not> drain_wrote (dsDrain ?d) s" by (cases "dsDrain ?d") auto
  then show ?thesis using inv pc assms(1,2) by (simp add: session_inv_def)
qed

text \<open>
  An abort reaches the turn: once an abort has written its marker and swept, every turn of the session that was admitted
  is cancelled, unless its own read of the session had failed.
\<close>

theorem abort_reaches_turn:
  assumes "mget False (dsSwept (daemon_run ops)) (session_of (daemon_run ops) i)"
    and "pc_of (daemon_run ops) i = Admitted \<or> counted (pc_of (daemon_run ops) i)"
    and "\<not> tuUnchecked (dsTurns (daemon_run ops) i)"
  shows "tuCancelled (dsTurns (daemon_run ops) i) \<and> mget False (dsAborted (daemon_run ops)) (session_of (daemon_run ops) i)"
  using run_inv[of ops] assms unfolding abort_inv_def by blast

lemma frozen_step:
  assumes "\<not> clears s x" "frozen d" "on_disk d s" "\<And>i. session_of d i = s \<Longrightarrow> pc_of d i \<noteq> ClearHeld" "drain_inv d" "locks_inv d"
  shows "frozen (daemon_step d x) \<and> on_disk (daemon_step d x) s
    \<and> (\<forall>i. session_of (daemon_step d x) i = s \<longrightarrow> pc_of (daemon_step d x) i \<noteq> ClearHeld)"
proof (cases x)
  case (TurnStep i ok flag)
  have "frozen (turn_step i ok flag d)" using assms(2) by (cases "pc_of d i") (auto simp: turn_simps)
  moreover have "on_disk (turn_step i ok flag d) s" using assms(3,4) by (cases "pc_of d i") (auto simp: turn_simps)
  moreover have "pc_of (turn_step i ok flag d) j \<noteq> ClearHeld" if "session_of d j = s" for j
    using that assms(2,4) by (cases "pc_of d i") (auto simp: turn_simps clear_skip_def)
  ultimately show ?thesis using TurnStep by (simp add: session_of_turn)
next
  case (DrainStep ok flag)
  have "dsDrain d = Drained" using assms(2,5) by (simp add: drain_inv_def)
  then show ?thesis using assms DrainStep by (simp add: drain_step_def)
next
  case (Arrive i sid)
  then show ?thesis using assms by (auto simp: pc_of_def session_of_def)
next
  case (Sweep sid)
  then show ?thesis using assms by (auto simp: sweep_def cancelSession_def split: option.splits)
next
  case (ResumeClear sid l)
  then show ?thesis using assms by (auto simp: resume_clear_def note_failed_def Let_def)
qed (use assms in \<open>auto simp: begin_drain_def freeze_def write_abort_def mu_defs\<close>)

text \<open>
  Once the window has elapsed a marker stays: whatever the cancelled turns still do, no marker goes that was there, unless
  its removal was already being written or the pass at boot clears it.
\<close>

theorem frozen_marker_stays:
  assumes "frozen (daemon_run ops)" "on_disk (daemon_run ops) s"
    and "\<And>i. session_of (daemon_run ops) i = s \<Longrightarrow> pc_of (daemon_run ops) i \<noteq> ClearHeld"
    and "list_all (\<lambda>x. \<not> clears s x) ops'"
  shows "on_disk (daemon_run (ops @ ops')) s"
proof -
  have "frozen (daemon_run (ops @ ops')) \<and> on_disk (daemon_run (ops @ ops')) s
    \<and> (\<forall>i. session_of (daemon_run (ops @ ops')) i = s \<longrightarrow> pc_of (daemon_run (ops @ ops')) i \<noteq> ClearHeld)"
    using assms(4)
  proof (induction ops' rule: rev_induct)
    case Nil
    then show ?case using assms(1-3) by simp
  next
    case (snoc x ops')
    have "daemon_run (ops @ ops' @ [x]) = daemon_step (daemon_run (ops @ ops')) x" by (simp add: daemon_run_def)
    then show ?case using frozen_step[of s x "daemon_run (ops @ ops')"] snoc run_inv[of "ops @ ops'"] by auto
  qed
  then show ?thesis by blast
qed

text \<open>
  A marker can be lost although the tracker believes in it: when the removal of a marker fails after it has landed, the
  next turn of the session is not marked again, and the drain reports it as marked.
\<close>

theorem failed_clear_hides_turn:
  "on_disk (daemon_run demo_lost) ''s'' = False \<and> pc_of (daemon_run demo_lost) 1 = Running
   \<and> survivors (dsTracker (daemon_run demo_lost)) = ([''s''], [])"
  by code_simp

text \<open>
  The pass at boot can unmark a turn of somebody else: it clears the marker after its own turn without looking at who runs,
  so a turn that began and was marked while the daemon drained runs on without a marker, and the drain reports it as marked.
\<close>

theorem pass_unmarks_turn:
  "on_disk (daemon_run demo_unmarked) ''s'' = False \<and> pc_of (daemon_run demo_unmarked) 1 = Running
   \<and> draining (daemon_run demo_unmarked) \<and> \<not> frozen (daemon_run demo_unmarked)
   \<and> survivors (dsTracker (daemon_run demo_unmarked)) = ([''s''], [])"
  by code_simp


theorem finished_turn_is_unmarked_witness: "pc_of (daemon_run demo_finished) 0 = Finished \<and> \<not> on_disk (daemon_run demo_finished) ''s''"
proof -
  have "\<not> frozen (daemon_run demo_finished)" "\<not> failed_in (daemon_run demo_finished) ''s''"
    "map_of (dsSlots (daemon_run demo_finished)) ''s'' = None" by code_simp+
  then have "\<not> on_disk (daemon_run demo_finished) ''s''" by (rule finished_turn_is_unmarked)
  moreover have "pc_of (daemon_run demo_finished) 0 = Finished" by code_simp
  ultimately show ?thesis by simp
qed

theorem abort_reaches_turn_witness: "pc_of (daemon_run demo_abort) 0 = Running \<and> tuCancelled (dsTurns (daemon_run demo_abort) 0)"
proof -
  have "mget False (dsSwept (daemon_run demo_abort)) (session_of (daemon_run demo_abort) 0)" by code_simp
  moreover have "pc_of (daemon_run demo_abort) 0 = Admitted \<or> counted (pc_of (daemon_run demo_abort) 0)" by code_simp
  moreover have "\<not> tuUnchecked (dsTurns (daemon_run demo_abort) 0)" by code_simp
  ultimately have "tuCancelled (dsTurns (daemon_run demo_abort) 0)" using abort_reaches_turn by blast
  moreover have "pc_of (daemon_run demo_abort) 0 = Running" by code_simp
  ultimately show ?thesis by simp
qed

theorem frozen_marker_stays_witness: "on_disk (daemon_run (demo_frozen @ replicate 6 (TurnStep 0 True False))) ''s''"
proof (rule frozen_marker_stays)
  show "frozen (daemon_run demo_frozen)" "on_disk (daemon_run demo_frozen) ''s''" by code_simp+
  have z: "map_of (dsSlots (daemon_run demo_frozen)) ''s'' = Some 0" "pc_of (daemon_run demo_frozen) 0 = Running" by code_simp+
  show "pc_of (daemon_run demo_frozen) i \<noteq> ClearHeld" if "session_of (daemon_run demo_frozen) i = ''s''" for i
  proof
    assume c: "pc_of (daemon_run demo_frozen) i = ClearHeld"
    then have "map_of (dsSlots (daemon_run demo_frozen)) ''s'' = Some i"
      using run_inv[of demo_frozen] that by (auto simp: locks_inv_def slots_inv_def)
    then show False using z c by simp
  qed
qed (simp add: list_all_iff)

end
