(* ===== verification/Auto_Resume.thy ===== *)
theory Auto_Resume
  imports Effects Pause_Tokens "HOL-Library.Sublist"
begin

text \<open>
  Continuing the sessions a shutdown cut short, \<^verbatim>\<open>src/internal/cli/autoresume.go\<close>: the pass at boot over the
  interrupted sessions, the decision on each of them, the repair of calls that were cut off, and the turn it drives
  through \<^verbatim>\<open>runTurnPre\<close> and \<^verbatim>\<open>admitTurn\<close> (\<^verbatim>\<open>src/internal/cli/turn.go\<close>).

  The store is that of \<open>Session_Store\<close>. What other requests do between the pass's own reads and writes is a list of
  store operations, and so is what the driven turn appends. The scan of the effects reads more of an event than the
  store's projection does: \<open>view\<close> says how a session's events look to it.
\<close>

section \<open>A candidate\<close>

record ar_event = Effects.event +
  aeAuthor :: string
  aeRole :: string

record candidate =
  caDetail :: detail
  caEvents :: "ar_event option list"

record autoResumer =
  arDispatch :: string
  arPred :: predicate
  arSubAgents :: "string list"
  arExternal :: "(string \<Rightarrow> intent list) option"
  arWindow :: duration

datatype ar_outcome =
    Resumed | Cleared | SkippedStale | SkippedAmbiguous | SkippedLoopbreak | SkippedSuperseded | SkippedUnsupported
  | AutoResumeError

definition defaultUserID :: string where "defaultUserID = ''mast-inject''"
definition autoResumeMaxAttempts :: int where "autoResumeMaxAttempts = 3"
definition autoResumeAttemptWindow :: duration where "autoResumeAttemptWindow = 10 * 60 * 1000000000"
definition autoResumeBootCap :: int where "autoResumeBootCap = 50"

definition history :: "candidate \<Rightarrow> Effects.event option list" where
  "history c = map (map_option event.truncate) (caEvents c)"

definition repairContent :: "intent list \<Rightarrow> function_response list" where
  "repairContent ds =
     map (\<lambda>d. \<lparr>frID = diCallID d, frName = diToolName d, frResponse = Some [(''error'', ''interrupted before completion'')]\<rparr>) ds"

text \<open>An event without content has no parts.\<close>

definition trailingEvent :: "ar_event option list \<Rightarrow> ar_event option" where
  "trailingEvent events =
     foldl (\<lambda>found e. case e of
               None \<Rightarrow> found
             | Some ev \<Rightarrow> if evParts ev = None \<or> aeRole ev = [] then found else Some ev) None events"

section \<open>The turn\<close>

text \<open>\<^verbatim>\<open>admitTurn\<close>: whether the turn is refused with a conflict. \<open>halted\<close> is what the preflights of the watchdog and the
  meter say.\<close>

definition admitTurn :: "store_env \<Rightarrow> bool \<Rightarrow> string \<Rightarrow> row list \<Rightarrow> bool" where
  "admitTurn en halted sid rows =
     ((case Get en [] sid rows of
         Inl e \<Rightarrow> False
       | Inr d \<Rightarrow> deState d = StateAborted \<or> Active (deGate d)) \<or> halted)"

definition superseded :: "store_env \<Rightarrow> candidate \<Rightarrow> row list \<Rightarrow> bool" where
  "superseded en c rows =
     (case Get en (deUser (caDetail c)) (deID (caDetail c)) rows of
        Inl e \<Rightarrow> True
      | Inr d \<Rightarrow> deState d \<noteq> StateInterrupted \<or> deEvents d \<noteq> deEvents (caDetail c) \<or> deLastEvent d \<noteq> deLastEvent (caDetail c))"

datatype turn_error = TurnConflict | TurnSuperseded | TurnFailed

text \<open>
  What the outside does around one candidate: the clock of the freshness check, the store's answers to each of the
  pass's operations, what others do before the turn has its slot, whether the slot was obtained, the preflights, and
  what the turn appends and how it ends.
\<close>

record resume_env =
  reNow :: gotime
  reClear :: store_env
  reAttempts :: store_env
  reRecord :: store_env
  reOthers :: "store_op list"
  reLocked :: bool
  reAdmit :: store_env
  reHalted :: bool
  reRecheck :: store_env
  reTurn :: "store_op list"
  reError :: "turn_error option"
  reClearDone :: store_env
  reClearAttempts :: store_env

text \<open>\<^verbatim>\<open>runTurnPre\<close> with the recheck as its hook: the error, the store at the moment the turn ran if it did, and the store
  after it.\<close>

definition drive :: "string \<Rightarrow> resume_env \<Rightarrow> candidate \<Rightarrow> row list \<Rightarrow> turn_error option \<times> row list option \<times> row list" where
  "drive app env c rows =
     (let rows1 = foldl (\<lambda>rows op. op_rows app op rows) rows (reOthers env)
      in if \<not> reLocked env then (Some TurnFailed, None, rows1)
         else if admitTurn (reAdmit env) (reHalted env) (deID (caDetail c)) rows1 then (Some TurnConflict, None, rows1)
         else if superseded (reRecheck env) c rows1 then (Some TurnSuperseded, None, rows1)
         else (reError env, Some rows1, foldl (\<lambda>rows op. op_rows app op rows) rows1 (reTurn env)))"

section \<open>One candidate\<close>

text \<open>What came of it: the outcome, the message and the store of the turn if one ran, the turns of this boot, the store.\<close>

record resume_result =
  rrOutcome :: ar_outcome
  rrDriven :: "(function_response list option \<times> row list) option"
  rrTurns :: int
  rrRows :: "row list"

definition finish_turn :: "resume_env \<Rightarrow> candidate \<Rightarrow> turn_error option \<Rightarrow> row list \<Rightarrow> ar_outcome \<times> row list" where
  "finish_turn env c err rows =
     (let u = deUser (caDetail c); sid = deID (caDetail c)
      in case err of
           None \<Rightarrow>
             (Resumed, snd (ClearAutoResumeAttempts (reClearAttempts env) u sid (snd (ClearInterrupted (reClearDone env) u sid rows))))
         | Some TurnSuperseded \<Rightarrow> (SkippedSuperseded, rows)
         | Some TurnConflict \<Rightarrow> (SkippedSuperseded, rows)
         | Some TurnFailed \<Rightarrow> (AutoResumeError, rows))"

definition attempt_turn ::
  "string \<Rightarrow> resume_env \<Rightarrow> candidate \<Rightarrow> function_response list option \<Rightarrow> int \<Rightarrow> row list \<Rightarrow> resume_result" where
  "attempt_turn app env c msg turns rows =
     (let u = deUser (caDetail c); sid = deID (caDetail c);
          (attempts, lst) = AutoResumeAttempts (reAttempts env) u sid rows
      in if autoResumeMaxAttempts \<le> attempts \<and> time_Sub (enNow (reAttempts env)) lst < autoResumeAttemptWindow
         then \<lparr>rrOutcome = SkippedLoopbreak, rrDriven = None, rrTurns = turns, rrRows = rows\<rparr>
         else if autoResumeBootCap \<le> turns
         then \<lparr>rrOutcome = SkippedLoopbreak, rrDriven = None, rrTurns = turns, rrRows = rows\<rparr>
         else case RecordAutoResumeAttempt (reRecord env) u sid rows of
                (Inl e, rows1) \<Rightarrow> \<lparr>rrOutcome = AutoResumeError, rrDriven = None, rrTurns = turns, rrRows = rows1\<rparr>
              | (Inr n, rows1) \<Rightarrow>
                  (let (err, at_turn, rows2) = drive app env c rows1; (out, rows3) = finish_turn env c err rows2
                   in \<lparr>rrOutcome = out, rrDriven = map_option (Pair msg) at_turn, rrTurns = turns + 1, rrRows = rows3\<rparr>))"

definition skip :: "ar_outcome \<Rightarrow> int \<Rightarrow> row list \<Rightarrow> resume_result" where
  "skip out turns rows = \<lparr>rrOutcome = out, rrDriven = None, rrTurns = turns, rrRows = rows\<rparr>"

definition candidate_scan :: "autoResumer \<Rightarrow> candidate \<Rightarrow> dangling_scan" where
  "candidate_scan a c =
     (let s = ScanDangling (history c) (arPred a) (arSubAgents a)
      in case arExternal a of None \<Rightarrow> s | Some ext \<Rightarrow> WithExternal s (ext (deID (caDetail c))))"

definition resumeOne :: "string \<Rightarrow> autoResumer \<Rightarrow> resume_env \<Rightarrow> candidate \<Rightarrow> int \<Rightarrow> row list \<Rightarrow> resume_result" where
  "resumeOne app a env c turns rows =
     (let scan = candidate_scan a c; trailing = trailingEvent (caEvents c)
      in if deUser (caDetail c) \<noteq> defaultUserID then skip SkippedUnsupported turns rows
         else if 0 < arWindow a \<and> arWindow a < time_Sub (reNow env) (deInterruptedAt (caDetail c)) then skip SkippedStale turns rows
         else if arDispatch a \<noteq> ''coordinator'' then skip SkippedUnsupported turns rows
         else if dgMutating scan \<noteq> [] then skip SkippedAmbiguous turns rows
         else if dgDeferred scan \<noteq> [] then skip SkippedUnsupported turns rows
         else if (case trailing of None \<Rightarrow> False | Some ev \<Rightarrow> aeAuthor ev \<in> set (arSubAgents a)) then skip SkippedUnsupported turns rows
         else if dgRepairable scan \<noteq> [] then
           (if list_ex (\<lambda>d. diEventIndex d \<noteq> dgLastCallEventIndex scan) (dgRepairable scan) then skip SkippedUnsupported turns rows
            else attempt_turn app env c (Some (repairContent (dgRepairable scan))) turns rows)
         else if (case trailing of None \<Rightarrow> False | Some ev \<Rightarrow> aeRole ev = ''model'') then
           (case ClearInterrupted (reClear env) (deUser (caDetail c)) (deID (caDetail c)) rows of
              (Some e, rows1) \<Rightarrow> skip AutoResumeError turns rows1
            | (None, rows1) \<Rightarrow> skip Cleared turns rows1)
         else attempt_turn app env c None turns rows)"

section \<open>The pass\<close>

text \<open>The events of a session as the scan of the effects sees them.\<close>

definition evs :: "row list \<Rightarrow> string \<Rightarrow> string \<Rightarrow> tx_event list" where
  "evs rows u i = (case find (\<lambda>r. rwUser r = u \<and> rwID r = i) rows of None \<Rightarrow> [] | Some r \<Rightarrow> rwEvents r)"

definition candidate_of :: "(tx_event list \<Rightarrow> ar_event option list) \<Rightarrow> row list \<Rightarrow> detail \<Rightarrow> candidate" where
  "candidate_of view rows d = \<lparr>caDetail = d, caEvents = view (evs rows (deUser d) (deID d))\<rparr>"

definition seen :: "(tx_event list \<Rightarrow> ar_event option list) \<Rightarrow> row list \<Rightarrow> detail \<Rightarrow> Effects.event option list" where
  "seen view rows d = map (map_option event.truncate) (view (evs rows (deUser d) (deID d)))"

text \<open>\<open>stop\<close> is whether the context has ended or the daemon drains before a candidate, \<open>between\<close> what others did since
  the last one.\<close>

fun run_from ::
  "string \<Rightarrow> autoResumer \<Rightarrow> (nat \<Rightarrow> bool \<times> store_op list \<times> resume_env) \<Rightarrow> nat \<Rightarrow> candidate list \<Rightarrow> int \<Rightarrow> row list
   \<Rightarrow> resume_result list \<times> row list" where
  "run_from app a env i [] turns rows = ([], rows)"
| "run_from app a env i (c # cs) turns rows =
     (let (stop, between, e) = env i
      in if stop then ([], rows)
         else (let r = resumeOne app a e c turns (foldl (\<lambda>rows op. op_rows app op rows) rows between);
                   (rs, rows') = run_from app a env (i + 1) cs (rrTurns r) (rrRows r)
               in (r # rs, rows')))"

definition run ::
  "string \<Rightarrow> autoResumer \<Rightarrow> (tx_event list \<Rightarrow> ar_event option list) \<Rightarrow> store_env
   \<Rightarrow> (nat \<Rightarrow> bool \<times> store_op list \<times> resume_env) \<Rightarrow> row list \<Rightarrow> resume_result list \<times> row list" where
  "run app a view en env rows =
     (case ScanInterrupted en rows of
        Inl e \<Rightarrow> ([], rows)
      | Inr ds \<Rightarrow> run_from app a env 0 (map (candidate_of view rows) ds) 0 rows)"

section \<open>The loop breaker over many boots\<close>

text \<open>Boots and other operations, and the times of the attempts that were written for one session.\<close>

datatype ar_step = Drive resume_env candidate int | Other store_op

definition attempted :: "string \<Rightarrow> resume_env \<Rightarrow> candidate \<Rightarrow> int \<Rightarrow> resume_result \<Rightarrow> gotime list" where
  "attempted sid env c turns r = (if deID (caDetail c) = sid \<and> rrTurns r = turns + 1 then [enNow (reRecord env)] else [])"

fun ar_world :: "string \<Rightarrow> autoResumer \<Rightarrow> string \<Rightarrow> row list \<times> gotime list \<Rightarrow> ar_step \<Rightarrow> row list \<times> gotime list" where
  "ar_world app a sid (rows, ts) (Drive env c turns) =
     (let r = resumeOne app a env c turns rows in (rrRows r, ts @ attempted sid env c turns r))"
| "ar_world app a sid (rows, ts) (Other op) = (op_rows app op rows, ts)"

text \<open>Operations of others write no attempts; the pass's own reads of the companion row succeed, its clock does not go
  back between the check and the write, and its turns fail.\<close>

fun spares_attempts :: "string \<Rightarrow> store_op \<Rightarrow> bool" where
  "spares_attempts sid (RunnerEvent u s ev delta) \<longleftrightarrow> \<not> IsReservedSessionID s"
| "spares_attempts sid (OpAttempt en u s) \<longleftrightarrow> s \<noteq> sid"
| "spares_attempts sid (OpClearAttempts en u s) \<longleftrightarrow> s \<noteq> sid"
| "spares_attempts sid _ \<longleftrightarrow> True"

fun failing_step :: "string \<Rightarrow> ar_step \<Rightarrow> bool" where
  "failing_step sid (Other op) \<longleftrightarrow> spares_attempts sid op"
| "failing_step sid (Drive env c turns) \<longleftrightarrow>
     list_all (spares_attempts sid) (reOthers env @ reTurn env) \<and>
     (deID (caDetail c) = sid \<longrightarrow>
        enGet (reAttempts env) (opsSessionID sid) \<and> enGet (reRecord env) (opsSessionID sid) \<and>
        enNow (reAttempts env) \<le> enNow (reRecord env) \<and> reError env \<noteq> None)"

definition spaced :: "gotime list \<Rightarrow> bool" where
  "spaced ts \<longleftrightarrow> (\<forall>k. 3 \<le> k \<longrightarrow> k < length ts \<longrightarrow> autoResumeAttemptWindow \<le> ts ! k - ts ! (k - 1))"

section \<open>Examples\<close>

definition demo_ar :: autoResumer where
  "demo_ar = \<lparr>arDispatch = ''coordinator'', arPred = NewPredicate [], arSubAgents = [], arExternal = None, arWindow = 3600 * 1000000000\<rparr>"

definition demo_hist_event :: "string \<Rightarrow> string list \<Rightarrow> part list \<Rightarrow> ar_event option" where
  "demo_hist_event role confirms ps =
     Some \<lparr>evInvocationID = ''i'', evTimestamp = 1, evParts = Some (map Some ps), evLongRunning = [], evConfirmations = confirms,
           aeAuthor = ''coordinator'', aeRole = role\<rparr>"

definition demo_fc :: "string \<Rightarrow> string \<Rightarrow> orig_call option \<Rightarrow> part" where
  "demo_fc cid name orig = \<lparr>ptCall = Some \<lparr>fcID = cid, fcName = name, fcOriginal = orig\<rparr>, ptResponse = None\<rparr>"


text \<open>A read-only call that was cut off; and a mutating call that was parked, approved by the operator and cut off.\<close>

definition demo_cut_off :: "ar_event option list" where
  "demo_cut_off = [demo_hist_event ''model'' [] [demo_fc ''c1'' ''retrieve_raw'' None]]"


definition demo_tx :: tx_event where
  "demo_tx = \<lparr>teAuthor = ''coordinator'', teTimestamp = 1, teRequested = None, teLongRunning = [], teParts = None\<rparr>"

definition demo_interrupted :: "row list" where
  "demo_interrupted = foldl (\<lambda>rows op. op_rows ''app'' op rows) []
     [RunnerEvent defaultUserID ''s'' demo_tx [], OpMark (demo_env 2 None) defaultUserID ''s'' ''drain'']"

definition demo_resume :: "gotime \<Rightarrow> turn_error option \<Rightarrow> resume_env" where
  "demo_resume now err =
     \<lparr>reNow = now, reClear = demo_env now None, reAttempts = demo_env now None, reRecord = demo_env now None, reOthers = [],
      reLocked = True, reAdmit = demo_env now None, reHalted = False, reRecheck = demo_env now None, reTurn = [], reError = err,
      reClearDone = demo_env now None, reClearAttempts = demo_env now None\<rparr>"

definition demo_pass :: "ar_event option list \<Rightarrow> resume_result list" where
  "demo_pass h = fst (run ''app'' demo_ar (\<lambda>_. h) (demo_env 3 None) (\<lambda>_. (False, [], demo_resume 3 None)) demo_interrupted)"

definition demo_detail :: detail where
  "demo_detail =
     hd (case ScanInterrupted (demo_env 3 None) demo_interrupted of Inl e \<Rightarrow> [] | Inr ds \<Rightarrow> ds)"

definition demo_candidate :: candidate where
  "demo_candidate = \<lparr>caDetail = demo_detail, caEvents = demo_cut_off\<rparr>"

definition demo_boots :: "gotime list \<Rightarrow> ar_step list" where
  "demo_boots nows =
     [Other (RunnerEvent defaultUserID ''s'' demo_tx []), Other (OpMark (demo_env 2 None) defaultUserID ''s'' ''drain'')] @
     map (\<lambda>now. Drive (demo_resume now (Some TurnFailed)) demo_candidate 0) nows"

definition minutes :: "int \<Rightarrow> duration" where "minutes n = n * 60 * 1000000000"

definition unreadable :: "gotime \<Rightarrow> store_env" where
  "unreadable now = (demo_env now None)\<lparr>enGet := (\<lambda>i. i \<noteq> opsSessionID ''s'')\<rparr>"

definition attempt_keys :: "string set" where "attempt_keys = {autoResumeAttemptsKey, autoResumeLastKey}"

fun writes_attempts :: "store_op \<Rightarrow> string option" where
  "writes_attempts (OpAttempt en u s) = Some s"
| "writes_attempts (OpClearAttempts en u s) = Some s"
| "writes_attempts _ = None"

definition one_append :: "(string \<Rightarrow> bool) \<Rightarrow> row list \<Rightarrow> row list \<Rightarrow> bool" where
  "one_append P rows rows' \<longleftrightarrow>
     rows' = rows \<or> (\<exists>en u s a delta. rows' = snd (appendOpsDelta en u s a delta rows) \<and> (fst ` set delta \<inter> attempt_keys = {} \<or> P s))"

definition grows :: "row list \<Rightarrow> row list \<Rightarrow> bool" where
  "grows rows rows' \<longleftrightarrow> (\<forall>u i. prefix (evs rows u i) (evs rows' u i))"

text \<open>The message of the turn as an event of the session.\<close>

definition message_event :: "string \<Rightarrow> gotime \<Rightarrow> function_response list option \<Rightarrow> Effects.event option list" where
  "message_event iid t m =
     (case m of
        None \<Rightarrow> []
      | Some frs \<Rightarrow>
          [Some \<lparr>evInvocationID = iid, evTimestamp = t, evParts = Some (map (\<lambda>fr. Some \<lparr>ptCall = None, ptResponse = Some fr\<rparr>) frs),
                 evLongRunning = [], evConfirmations = []\<rparr>])"

text \<open>The cells of a session with these attempts.\<close>

definition counted :: "string \<Rightarrow> row list \<Rightarrow> gotime list \<Rightarrow> bool" where
  "counted sid rows ts \<longleftrightarrow>
     (if ts = [] then cell rows defaultUserID (opsSessionID sid) autoResumeAttemptsKey = None \<and>
        cell rows defaultUserID (opsSessionID sid) autoResumeLastKey = None
      else cell rows defaultUserID (opsSessionID sid) autoResumeAttemptsKey = Some (Count (int (length ts))) \<and>
        cell rows defaultUserID (opsSessionID sid) autoResumeLastKey = Some (Stamp (last ts)))"

section \<open>Lemmas and properties\<close>

text \<open>Every operation of the store but the runner's is one append to a companion row, or nothing; only two of them write
  attempts.\<close>

lemma pause_not_attempt: "is_pause_key k \<Longrightarrow> k \<notin> attempt_keys"
  by (auto simp: is_pause_key_def attempt_keys_def pauseGateKey_def pauseIntrKeyPrefix_def autoResumeAttemptsKey_def autoResumeLastKey_def HasPrefix_def)

lemma one_append_same [simp]: "one_append P rows rows"
  by (simp add: one_append_def)

lemma one_append_plain: "fst ` set delta \<inter> attempt_keys = {} \<Longrightarrow> one_append P rows (snd (appendOpsDelta en u s a delta rows))"
  unfolding one_append_def by blast

lemma one_append_written: "P s \<Longrightarrow> one_append P rows (snd (appendOpsDelta en u s a delta rows))"
  unfolding one_append_def by blast

lemma one_append_pause: "is_pause_key k \<Longrightarrow> one_append P rows (snd (writePauseRecord en u s k r rows))"
  unfolding writePauseRecord_def by (rule one_append_plain) (use pause_not_attempt in auto)

lemma ar_snapshot_keys: "(k, p) \<in> set (snd (opsSnapshot en u sid rows)) \<Longrightarrow> k \<notin> attempt_keys"
  using pause_not_attempt by (auto simp: opsSnapshot_def parse_mem split: option.splits)

lemma abort_not_attempt: "abortReasonKey \<notin> attempt_keys" "abortTimeKey \<notin> attempt_keys"
  by (simp_all add: attempt_keys_def abortReasonKey_def abortTimeKey_def autoResumeAttemptsKey_def autoResumeLastKey_def)

lemma ar_Abort_append: "one_append P rows (snd (Abort en u sid why rows))"
  using abort_not_attempt ar_snapshot_keys
  by (auto simp: Abort_def Let_def case_prod_beta split: sum.split option.split intro!: one_append_plain)

lemmas key_defs = attempt_keys_def interruptReasonKey_def interruptTimeKey_def effectsAckTimeKey_def effectsAckReasonKey_def
  autoResumeAttemptsKey_def autoResumeLastKey_def

lemma Mark_append: "one_append P rows (snd (MarkInterrupted en u sid why rows))"
  by (auto simp: MarkInterrupted_def key_defs intro!: one_append_plain)

lemma Clear_append: "one_append P rows (snd (ClearInterrupted en u sid rows))"
  by (auto simp: ClearInterrupted_def key_defs intro!: one_append_plain)

lemma Ack_append: "one_append P rows (snd (AckEffects en u sid why rows))"
  by (auto simp: AckEffects_def key_defs intro!: one_append_plain)

lemma Record_append: "P sid \<Longrightarrow> one_append P rows (snd (RecordAutoResumeAttempt en u sid rows))"
  using one_append_written [of P sid rows en u "''daemon''"]
  by (auto simp: RecordAutoResumeAttempt_def Let_def split: prod.split option.split) (metis snd_conv)+

lemma op_append:
  assumes "\<And>u s ev delta. op \<noteq> RunnerEvent u s ev delta" "\<And>s. writes_attempts op = Some s \<Longrightarrow> P s"
  shows "one_append P rows (op_rows app op rows)"
proof (cases op)
  case (OpPauseGate en u sid spec)
  then show ?thesis
    by (cases app en u sid spec rows rule: PauseGate_cases) (simp, metis one_append_pause [OF pause_key_gate] op_rows.simps(8) snd_conv)
next
  case (OpPauseInterrupt en u sid intr spec)
  then show ?thesis using one_append_pause [OF pause_key_intr, of P rows en u sid intr]
    by (auto simp: PauseInterrupt_def Let_def split: option.split prod.split) (metis snd_conv)+
next
  case (OpConsume en tok by_whom enforce)
  then show ?thesis using one_append_pause [OF pause_key_is, of P rows]
    by (auto simp: consumeToken_def write_found_def split: sum.split option.split prod.split) (metis snd_conv)+
next
  case (OpExtend en tok d)
  then show ?thesis using one_append_pause [OF pause_key_is, of P rows]
    by (auto simp: ExtendToken_def write_found_def split: sum.split option.split prod.split) (metis snd_conv)+
qed (use assms in \<open>auto simp: ar_Abort_append Mark_append Clear_append Ack_append Record_append ClearAutoResumeAttempts_def intro!: one_append_written\<close>)

subsection \<open>Histories only grow\<close>

lemma grows_refl [simp]: "grows rows rows"
  by (simp add: grows_def)

lemma grows_trans: "grows a b \<Longrightarrow> grows b c \<Longrightarrow> grows a c"
  unfolding grows_def using prefix_order.trans by blast

lemma grows_map:
  assumes "\<And>r. rwUser (f r) = rwUser r \<and> rwID (f r) = rwID r \<and> prefix (rwEvents r) (rwEvents (f r))"
  shows "grows rows (map f rows)"
  unfolding grows_def evs_def by (induction rows) (use assms in \<open>auto split: option.splits\<close>)

lemma grows_snoc: "grows rows (rows @ [r])"
  unfolding grows_def evs_def by (auto simp: find_row_append split: option.split)

lemma append_grows: "grows rows (snd (appendOpsDelta en u s a delta rows))"
proof -
  have op: "grows rows rows'" if "open_ops_row en u' s rows = Some rows'" for u' rows'
    using that by (auto simp: open_ops_row_def svc_Create_def grows_snoc split: option.splits if_splits)
  have ap: "grows rows' (svc_Append en u' (opsSessionID s) a delta rows')" for u' rows'
    unfolding svc_Append_def by (rule grows_map) simp
  show ?thesis
    by (auto simp: appendOpsDelta_def op split: sum.split option.split intro: grows_trans [OF op ap])
qed

lemma one_append_grows: "one_append P rows rows' \<Longrightarrow> grows rows rows'"
  by (auto simp: one_append_def append_grows)

lemma op_grows: "grows rows (op_rows app op rows)"
proof (cases "\<exists>u s ev delta. op = RunnerEvent u s ev delta")
  case True
  then show ?thesis by (auto simp: runner_append_def grows_snoc intro!: grows_map)
next
  case False
  then show ?thesis using op_append [of op "\<lambda>_. True"] one_append_grows by blast
qed

interpretation store_grows: growing "\<lambda>rows op. op_rows app op rows" grows for app
  by unfold_locales (auto intro: grows_trans op_grows)

lemma attempt_turn_grows: "grows rows (rrRows (attempt_turn app env c msg turns rows))"
proof -
  have r: "grows rows rows1" if "RecordAutoResumeAttempt en u sid rows = (x, rows1)" for en u sid x rows1
    using one_append_grows [OF Record_append [of "\<lambda>_. True" sid rows en u]] that by simp
  have d: "grows rows1 rows2" if "drive app env c rows1 = (err, at_turn, rows2)" for err at_turn rows1 rows2
    using that store_grows.foldl_grows grows_trans [OF store_grows.foldl_grows store_grows.foldl_grows]
    by (auto simp: drive_def Let_def split: if_splits)
  have f: "grows rows2 (snd (finish_turn env c err rows2))" for err rows2
    using grows_trans [OF one_append_grows [OF Clear_append] append_grows]
    by (auto simp: finish_turn_def Let_def ClearAutoResumeAttempts_def split: option.split turn_error.split)
  show ?thesis
    using r d f grows_trans
    by (auto simp: attempt_turn_def Let_def split: prod.splits sum.split) (metis grows_trans snd_conv)+
qed

lemma resumeOne_grows: "grows rows (rrRows (resumeOne app a env c turns rows))"
  using one_append_grows [OF Clear_append] attempt_turn_grows
  by (auto simp: resumeOne_def skip_def Let_def split: prod.split option.split) (metis snd_conv)+

subsection \<open>The history of a driven turn\<close>

lemma project_same: "deEvents (project r ops gate) = length (rwEvents r) \<and> deUser (project r ops gate) = rwUser r \<and> deID (project r ops gate) = rwID r"
  by (simp add: project_def Let_def)

lemma project_row_evs:
  assumes "project_row en u sid rows = Inr d"
  shows "deUser d = u \<and> deID d = sid \<and> deEvents d = length (evs rows u sid)"
  using assms project_same
  by (auto simp: project_row_def svc_Get_def evs_def case_prod_beta split: option.splits if_splits dest: find_row)

lemma inspect_all_mem:
  "inspect_all look rs = Inr ds \<Longrightarrow> d \<in> set ds \<Longrightarrow> \<exists>r\<in>set rs. look r = Inr d"
  by (induction rs arbitrary: ds) (auto split: if_splits sum.splits)

lemma scanned_events:
  assumes "ScanInterrupted en rows = Inr ds" "d \<in> set ds"
  shows "deEvents d = length (evs rows (deUser d) (deID d)) \<and> deState d = StateInterrupted"
proof -
  obtain all where all: "inspect_all (\<lambda>r. project_row en (rwUser r) (rwID r) rows) rows = Inr all"
    "d \<in> set all" "deState d = StateInterrupted"
    using assms by (auto simp: ScanInterrupted_def split: if_splits sum.splits)
  then show ?thesis using inspect_all_mem [OF all(1,2)] project_row_evs by metis
qed

lemma same_history:
  assumes "\<not> superseded en c rows'" "grows rows rows'" "deUser (caDetail c) \<noteq> []"
    "deEvents (caDetail c) = length (evs rows (deUser (caDetail c)) (deID (caDetail c)))"
  shows "evs rows' (deUser (caDetail c)) (deID (caDetail c)) = evs rows (deUser (caDetail c)) (deID (caDetail c))"
proof -
  let ?u = "deUser (caDetail c)" and ?i = "deID (caDetail c)"
  obtain d where d: "Get en ?u ?i rows' = Inr d" "deEvents d = deEvents (caDetail c)"
    using assms(1) by (auto simp: superseded_def split: sum.splits)
  have "project_row en ?u ?i rows' = Inr d" using d(1) assms(3) by (auto simp: Get_def resolve_user_def split: if_splits)
  then have "length (evs rows' ?u ?i) = length (evs rows ?u ?i)" using project_row_evs d(2) assms(4) by metis
  moreover have "prefix (evs rows ?u ?i) (evs rows' ?u ?i)" using assms(2) by (simp add: grows_def)
  ultimately show ?thesis by (metis not_equal_is_parallel prefix_order.refl parallel_def)
qed

lemma attempt_driven:
  assumes "rrDriven (attempt_turn app env c msg turns rows) = Some (m, rowsL)"
  shows "m = msg \<and> grows rows rowsL \<and> \<not> superseded (reRecheck env) c rowsL \<and>
    \<not> admitTurn (reAdmit env) (reHalted env) (deID (caDetail c)) rowsL \<and> turns < autoResumeBootCap"
proof -
  have r: "grows rows rows1" if "RecordAutoResumeAttempt en u sid rows = (x, rows1)" for en u sid x rows1
    using one_append_grows [OF Record_append [of "\<lambda>_. True" sid rows en u]] that by simp
  show ?thesis
    using assms r grows_trans [OF _ store_grows.foldl_grows]
    by (auto simp: attempt_turn_def drive_def Let_def split: if_splits prod.splits sum.splits)
qed

lemma resumeOne_driven:
  assumes "rrDriven (resumeOne app a env c turns rows) = Some (m, rowsL)"
  shows "deUser (caDetail c) = defaultUserID \<and> dgMutating (candidate_scan a c) = [] \<and> dgDeferred (candidate_scan a c) = [] \<and>
     (m = None \<and> dgRepairable (candidate_scan a c) = [] \<or> m = Some (repairContent (dgRepairable (candidate_scan a c)))) \<and>
     rrDriven (attempt_turn app env c m turns rows) = Some (m, rowsL)"
proof -
  have "rrDriven (attempt_turn app env c m' turns rows) = Some (m, rowsL) \<Longrightarrow> m = m'" for m'
    using attempt_driven by blast
  then show ?thesis using assms
    by (fastforce simp: resumeOne_def skip_def Let_def split: if_splits prod.splits option.splits)
qed

lemma unresolved_buckets:
  assumes "unresolved h i ev fc"
  shows "(\<exists>d\<in>set (dgMutating (ScanDangling h pred subs)). diCallID d = i) \<or>
    (\<exists>d\<in>set (dgDeferred (ScanDangling h pred subs)). diCallID d = i) \<or>
    (\<exists>d\<in>set (dgRepairable (ScanDangling h pred subs)). diCallID d = i) \<and> pred (fcName fc) = ClassReadOnly \<and> \<not> excluded_call subs ev fc"
proof -
  obtain c where c: "c \<in> set (pdUnpaired (pairScan h pred subs))" "mk_open pred subs (ev, fc) c"
    using unresolved_unpaired [OF assms] by blast
  have i: "fcID fc = i" using assms by (auto simp: unresolved_def)
  show ?thesis
  proof (cases "blocking c \<or> scExcluded c")
    case True
    then show ?thesis using c i by (auto simp: ScanDangling_def Let_def sortByTimestamp_def mk_open_def image_iff blocking_def)
  next
    case False
    then have "pred (fcName fc) = ClassReadOnly"
      using c(2) by (cases "scClass c") (auto simp: mk_open_def blocking_def)
    then show ?thesis using False c i by (auto simp: ScanDangling_def Let_def sortByTimestamp_def mk_open_def image_iff)
  qed
qed

lemma scan_external:
  "dgMutating (candidate_scan a c) = [] \<Longrightarrow>
     dgMutating (ScanDangling (history c) (arPred a) (arSubAgents a)) = [] \<and>
     (\<forall>ext. arExternal a = Some ext \<longrightarrow> ext (deID (caDetail c)) = [])"
  "dgRepairable (candidate_scan a c) = dgRepairable (ScanDangling (history c) (arPred a) (arSubAgents a))"
  "dgDeferred (candidate_scan a c) = dgDeferred (ScanDangling (history c) (arPred a) (arSubAgents a))"
  by (auto simp: candidate_scan_def WithExternal_def sortByTimestamp_def Let_def split: option.splits if_splits)
    (metis append_is_Nil_conv length_0_conv length_sort)+

lemma items_message: "items (message_event iid t m) =
    (case m of None \<Rightarrow> [] | Some frs \<Rightarrow> map (\<lambda>fr. (the (hd (message_event iid t m)), \<lparr>ptCall = None, ptResponse = Some fr\<rparr>)) frs)"
  by (auto simp: message_event_def items_def items_of_def map_filter_def comp_def split: option.split)

lemma unresolved_after_message:
  assumes "unresolved (h @ message_event iid t m) i ev fc"
  shows "unresolved h i ev fc \<and> (\<forall>y\<in>set (items (message_event iid t m)). \<not> responds i y)"
proof -
  let ?m = "items (message_event iid t m)"
  have it: "items (h @ message_event iid t m) = items h @ ?m" by (simp add: items_def)
  obtain us pt vs where s: "items h @ ?m = us @ (ev, pt) # vs" "ptCall pt = Some fc" "fcID fc = i" "i \<noteq> []"
    "\<not> responds i (ev, pt)" "\<forall>y \<in> set vs. \<not> responds i y \<and> \<not> calls i y"
    using assms unfolding unresolved_def it by blast
  have no: "ptCall (snd y) = None" if "y \<in> set ?m" for y using that by (auto simp: items_message split: option.splits)
  have "length us < length (items h)"
  proof (rule ccontr)
    assume "\<not> length us < length (items h)"
    then have "(ev, pt) \<in> set ?m" using s(1) by (auto simp: append_eq_append_conv2 append_eq_Cons_conv Cons_eq_append_conv)
    then show False using no s(2) by fastforce
  qed
  then obtain vs1 where "items h = us @ (ev, pt) # vs1" "vs = vs1 @ ?m"
    using s(1) by (auto simp: append_eq_append_conv2 append_eq_Cons_conv Cons_eq_append_conv)
  then show ?thesis using s unfolding unresolved_def by auto
qed

lemma repaired:
  assumes "dgMutating (ScanDangling h pred subs) = []" "dgDeferred (ScanDangling h pred subs) = []"
    and "m = None \<and> dgRepairable (ScanDangling h pred subs) = [] \<or> m = Some (repairContent (dgRepairable (ScanDangling h pred subs)))"
  shows "\<not> unresolved (h @ message_event iid t m) i ev fc"
proof
  assume u: "unresolved (h @ message_event iid t m) i ev fc"
  note a = unresolved_after_message [OF u]
  obtain d where d: "d \<in> set (dgRepairable (ScanDangling h pred subs))" "diCallID d = i"
    using unresolved_buckets [of h i ev fc pred subs] a assms(1,2) by auto
  have "i \<noteq> []" using u by (auto simp: unresolved_def)
  moreover have "m = Some (repairContent (dgRepairable (ScanDangling h pred subs)))" using assms(3) d by auto
  ultimately have "\<exists>y\<in>set (items (message_event iid t m)). responds i y"
    using d by (auto simp: items_message repairContent_def responds_def image_iff)
  then show False using a by blast
qed

lemma candidate_detail [simp]: "caDetail (candidate_of view rows d) = d"
  by (simp add: candidate_of_def)

text \<open>What a pass does with the candidate at a position.\<close>

lemma run_from_nth:
  assumes "j < length (fst (run_from app a env i cs turns rows))"
  shows "\<exists>e n rows1. j < length cs \<and> grows rows rows1 \<and> fst (run_from app a env i cs turns rows) ! j = resumeOne app a e (cs ! j) n rows1"
  using assms
proof (induction app a env i cs turns rows arbitrary: j rule: run_from.induct)
  case (2 app a env i c cs turns rows)
  obtain stop btw e where e: "env i = (stop, btw, e)" by (cases "env i")
  let ?rows = "foldl (\<lambda>rows op. op_rows app op rows) rows btw"
  let ?r = "resumeOne app a e c turns ?rows"
  have st: "\<not> stop" using 2(2) e by auto
  then have eq: "fst (run_from app a env i (c # cs) turns rows) = ?r # fst (run_from app a env (i + 1) cs (rrTurns ?r) (rrRows ?r))"
    using e by (simp add: case_prod_beta Let_def)
  show ?case
  proof (cases j)
    case 0
    then show ?thesis using eq store_grows.foldl_grows by (intro exI [of _ e] exI [of _ turns] exI [of _ ?rows]) auto
  next
    case (Suc k)
    obtain e' n' rows1 where k: "k < length cs" "grows (rrRows ?r) rows1"
      "fst (run_from app a env (i + 1) cs (rrTurns ?r) (rrRows ?r)) ! k = resumeOne app a e' (cs ! k) n' rows1"
      using 2(1) [OF e [symmetric] refl refl st refl, of k] 2(2) eq Suc by auto
    have "grows rows rows1" using grows_trans [OF grows_trans [OF store_grows.foldl_grows resumeOne_grows] k(2)] .
    then show ?thesis using k eq Suc by (intro exI [of _ e'] exI [of _ n'] exI [of _ rows1]) auto
  qed
qed simp

lemma run_nth:
  assumes "j < length (fst (run app a view en env rows))"
  obtains ds e n rows1 where "ScanInterrupted en rows = Inr ds" "j < length ds" "grows rows rows1"
    "fst (run app a view en env rows) ! j = resumeOne app a e (candidate_of view rows (ds ! j)) n rows1"
proof (cases "ScanInterrupted en rows")
  case (Inl e)
  then show ?thesis using assms by (simp add: run_def)
next
  case (Inr ds)
  then have "fst (run app a view en env rows) = fst (run_from app a env 0 (map (candidate_of view rows) ds) 0 rows)"
    by (simp add: run_def)
  then show ?thesis
    using assms Inr that run_from_nth [of j app a env 0 "map (candidate_of view rows) ds" 0 rows] by auto
qed

subsection \<open>What an operator can rely on\<close>

text \<open>
  A session is continued only over a history that says what happened: whatever other requests do meanwhile, when the pass
  at boot runs a turn of a session, the session's history at that moment is the one the pass has scanned, no sub-run of it
  has an intent open, every call in it that was never answered is a read-only one, and with the message of the turn no call
  is left without an answer.
\<close>

theorem continued_over_settled_history:
  assumes "j < length (fst (run app a view en env rows))" "rrDriven (fst (run app a view en env rows) ! j) = Some (m, rowsL)"
  shows "\<exists>ds. ScanInterrupted en rows = Inr ds \<and> j < length ds \<and> deUser (ds ! j) = defaultUserID \<and>
    seen view rowsL (ds ! j) = seen view rows (ds ! j) \<and>
    (\<forall>ext. arExternal a = Some ext \<longrightarrow> ext (deID (ds ! j)) = []) \<and>
    (\<forall>i ev fc. unresolved (seen view rowsL (ds ! j)) i ev fc \<longrightarrow> arPred a (fcName fc) = ClassReadOnly \<and> \<not> excluded_call (arSubAgents a) ev fc) \<and>
    (\<forall>iid t i ev fc. \<not> unresolved (seen view rowsL (ds ! j) @ message_event iid t m) i ev fc)"
proof -
  obtain ds e n rows1 where r: "ScanInterrupted en rows = Inr ds" "j < length ds" "grows rows rows1"
    "fst (run app a view en env rows) ! j = resumeOne app a e (candidate_of view rows (ds ! j)) n rows1"
    by (rule run_nth [OF assms(1)])
  let ?d = "ds ! j" and ?c = "candidate_of view rows (ds ! j)"
  have "rrDriven (resumeOne app a e ?c n rows1) = Some (m, rowsL)" using assms(2) r(4) by metis
  note dr = resumeOne_driven [OF this]
  have D: "deUser ?d = defaultUserID" "dgMutating (candidate_scan a ?c) = []" "dgDeferred (candidate_scan a ?c) = []"
    "m = None \<and> dgRepairable (candidate_scan a ?c) = [] \<or> m = Some (repairContent (dgRepairable (candidate_scan a ?c)))"
    "rrDriven (attempt_turn app e ?c m n rows1) = Some (m, rowsL)"
    using dr by simp_all
  have g: "grows rows rowsL" "\<not> superseded (reRecheck e) ?c rowsL"
    using attempt_driven [OF D(5)] grows_trans [OF r(3)] by auto
  have same: "evs rowsL (deUser ?d) (deID ?d) = evs rows (deUser ?d) (deID ?d)"
    using same_history [OF g(2,1)] scanned_events [OF r(1), of ?d] r(2) D(1) by (simp add: defaultUserID_def)
  let ?h = "seen view rows ?d"
  have hc: "history ?c = ?h" by (simp add: history_def candidate_of_def seen_def)
  note S = scan_external(1) [OF D(2)] scan_external(2,3) [of a ?c]
  have M: "dgMutating (ScanDangling ?h (arPred a) (arSubAgents a)) = []" "dgDeferred (ScanDangling ?h (arPred a) (arSubAgents a)) = []"
    and R: "m = None \<and> dgRepairable (ScanDangling ?h (arPred a) (arSubAgents a)) = [] \<or>
      m = Some (repairContent (dgRepairable (ScanDangling ?h (arPred a) (arSubAgents a))))"
    using S D(3,4) by (simp_all add: hc)
  have h: "seen view rowsL ?d = ?h" using same by (simp add: seen_def)
  have u: "arPred a (fcName fc) = ClassReadOnly \<and> \<not> excluded_call (arSubAgents a) ev fc" if "unresolved ?h i ev fc" for i ev fc
    using unresolved_buckets [OF that, of "arPred a" "arSubAgents a"] M by auto
  have x: "\<forall>ext. arExternal a = Some ext \<longrightarrow> ext (deID ?d) = []" using S(1) by simp
  show ?thesis unfolding h
    using r(1,2) D(1) x u repaired [OF M R] h by (intro exI [of _ ds] conjI) auto
qed

text \<open>A pass drives at most \<^verbatim>\<open>autoResumeBootCap\<close> turns.\<close>

lemma driven_counts:
  "rrTurns (resumeOne app a env c turns rows) = turns + 1 \<and> turns < autoResumeBootCap \<or>
   rrTurns (resumeOne app a env c turns rows) = turns \<and> rrDriven (resumeOne app a env c turns rows) = None"
  by (auto simp: resumeOne_def attempt_turn_def skip_def Let_def split: prod.split sum.split option.split)

lemma run_from_bound:
  "turns \<le> autoResumeBootCap \<Longrightarrow>
   int (length (filter (\<lambda>r. rrDriven r \<noteq> None) (fst (run_from app a env i cs turns rows)))) \<le> autoResumeBootCap - turns"
proof (induction app a env i cs turns rows rule: run_from.induct)
  case (2 app a env i c cs turns rows)
  obtain stop btw e where e: "env i = (stop, btw, e)" by (cases "env i")
  let ?r = "resumeOne app a e c turns (foldl (\<lambda>rows op. op_rows app op rows) rows btw)"
  show ?case
  proof (cases stop)
    case False
    have "rrTurns ?r \<le> autoResumeBootCap" using driven_counts [of app a e c turns "foldl (\<lambda>rows op. op_rows app op rows) rows btw"] 2(2) by linarith
    from 2(1) [OF e [symmetric] refl refl False refl this]
    show ?thesis using driven_counts [of app a e c turns "foldl (\<lambda>rows op. op_rows app op rows) rows btw"] e False
      by (auto simp: case_prod_beta Let_def)
  qed (use 2(2) e in auto)
qed simp

subsection \<open>The loop breaker\<close>

lemma snapshot_cell:
  assumes "enGet en (opsSessionID sid)" "k \<in> attempt_keys"
  shows "map_of (fst (opsSnapshot en u sid rows)) k = cell rows u (opsSessionID sid) k"
proof -
  have p: "HasPrefix k ''mast_'' \<and> \<not> is_pause_key k" using assms(2) pause_not_attempt
    by (auto simp: attempt_keys_def autoResumeAttemptsKey_def autoResumeLastKey_def HasPrefix_def)
  have "map_of (filter (\<lambda>(k, v). P k) st) k = map_of st k" if "P k" for P st using that by (induction st) auto
  from this [of "\<lambda>k. HasPrefix k ''mast_'' \<and> \<not> is_pause_key k", OF p] show ?thesis
    using assms(1) by (auto simp: opsSnapshot_def svc_Get_def cell_def split: option.split)
qed

lemma attempts_keys [simp]: "autoResumeAttemptsKey \<in> attempt_keys" "autoResumeLastKey \<in> attempt_keys"
  by (simp_all add: attempt_keys_def)

lemma keys_differ [simp]: "autoResumeAttemptsKey \<noteq> autoResumeLastKey"
  by (simp add: autoResumeAttemptsKey_def autoResumeLastKey_def)

lemma append_spares:
  assumes "k \<in> attempt_keys" "fst ` set delta \<inter> attempt_keys = {} \<or> s \<noteq> sid"
  shows "cell (snd (appendOpsDelta en u s a delta rows)) v (opsSessionID sid) k = cell rows v (opsSessionID sid) k"
proof -
  obtain e rows' where ap: "appendOpsDelta en u s a delta rows = (e, rows')" by fastforce
  have "map_of (rev delta) k = None" if "fst ` set delta \<inter> attempt_keys = {}"
    using that assms(1) by (auto simp: map_of_eq_None_iff)
  then have d: "map_of (rev delta) k = None \<or> opsSessionID sid \<noteq> opsSessionID s" using assms(2) by auto
  have "cell rows' v (opsSessionID sid) k = cell rows v (opsSessionID sid) k"
  proof (cases e)
    case None
    then obtain u' where "cells_after rows u' (opsSessionID s) delta rows'" using append_cells [OF ap] by auto
    from this [unfolded cells_after_def, rule_format, of v "opsSessionID sid" k] show ?thesis using d by (auto split: if_splits)
  qed (use append_cells [OF ap] in simp)
  then show ?thesis using ap by simp
qed

lemma one_append_spares:
  "one_append (\<lambda>s. s \<noteq> sid) rows rows' \<Longrightarrow> k \<in> attempt_keys \<Longrightarrow> cell rows' v (opsSessionID sid) k = cell rows v (opsSessionID sid) k"
  unfolding one_append_def by (elim disjE exE conjE) (simp_all add: append_spares)

lemma op_spares:
  assumes "spares_attempts sid op" "k \<in> attempt_keys"
  shows "cell (op_rows app op rows) v (opsSessionID sid) k = cell rows v (opsSessionID sid) k"
proof (cases "\<exists>u s ev delta. op = RunnerEvent u s ev delta")
  case True
  then show ?thesis using assms(1) by (auto intro!: runner_cells)
next
  case False
  have "s \<noteq> sid" if "writes_attempts op = Some s" for s using that assms(1) by (cases op) auto
  then show ?thesis using False op_append [of op "\<lambda>s. s \<noteq> sid"] one_append_spares assms(2) by blast
qed

lemma ops_spare:
  "list_all (spares_attempts sid) ops \<Longrightarrow> k \<in> attempt_keys \<Longrightarrow>
   cell (foldl (\<lambda>rows op. op_rows app op rows) rows ops) v (opsSessionID sid) k = cell rows v (opsSessionID sid) k"
  by (induction ops arbitrary: rows) (auto simp: op_spares)

lemma drive_spares:
  assumes "drive app env c rows = (err, at_turn, rows')" "list_all (spares_attempts sid) (reOthers env @ reTurn env)" "k \<in> attempt_keys"
  shows "cell rows' v (opsSessionID sid) k = cell rows v (opsSessionID sid) k"
  using assms by (auto simp: drive_def Let_def ops_spare split: if_splits)

lemma counted_cong:
  "(\<And>k. k \<in> attempt_keys \<Longrightarrow> cell rows' defaultUserID (opsSessionID sid) k = cell rows defaultUserID (opsSessionID sid) k) \<Longrightarrow>
   counted sid rows' ts = counted sid rows ts"
  by (simp add: counted_def)

lemma counted_attempts:
  assumes "counted sid rows ts" "enGet en (opsSessionID sid)"
  shows "AutoResumeAttempts en defaultUserID sid rows = (int (length ts), if ts = [] then 0 else last ts)"
  using assms by (auto simp: AutoResumeAttempts_def Let_def snapshot_cell counted_def split: if_splits)

lemma record_counted:
  assumes "counted sid rows ts" "enGet en (opsSessionID sid)" "int (length ts) < 2 ^ 62"
    and "RecordAutoResumeAttempt en defaultUserID sid rows = (Inr n, rows')"
  shows "counted sid rows' (ts @ [enNow en])"
proof -
  have w: "wrap64 (int (length ts) + 1) = int (length ts) + 1" using assms(3) by (intro wrap64_id) (simp add: int64_def)
  let ?d = "[(autoResumeAttemptsKey, Count (int (length ts) + 1)), (autoResumeLastKey, Stamp (enNow en))]"
  have ap: "appendOpsDelta en defaultUserID sid ''daemon'' ?d rows = (None, rows')"
    using assms(4) by (auto simp: RecordAutoResumeAttempt_def Let_def counted_attempts [OF assms(1,2)] w split: prod.splits option.splits)
  then have "cells_after rows defaultUserID (opsSessionID sid) ?d rows'"
    using append_cells [OF ap] by (auto simp: resolve_user_def defaultUserID_def)
  then show ?thesis by (auto simp: cells_after_def counted_def)
qed

lemma record_failed:
  assumes "RecordAutoResumeAttempt en u sid rows = (Inl e, rows')"
  shows "cell rows' v j k = cell rows v j k"
proof -
  obtain delta where "appendOpsDelta en u sid ''daemon'' delta rows = (Some e, rows')"
    using assms by (auto simp: RecordAutoResumeAttempt_def Let_def split: prod.splits option.splits)
  from append_cells [OF this] show ?thesis by simp
qed

lemma ar_spaced_snoc:
  assumes "spaced ts" "3 \<le> length ts \<Longrightarrow> autoResumeAttemptWindow \<le> t - last ts"
  shows "spaced (ts @ [t])"
proof -
  have "autoResumeAttemptWindow \<le> (ts @ [t]) ! k - (ts @ [t]) ! (k - 1)" if "3 \<le> k" "k < Suc (length ts)" for k
  proof (cases "k < length ts")
    case True
    then show ?thesis using assms(1) that by (auto simp: spaced_def nth_append)
  next
    case False
    then have k: "k = length ts" using that by simp
    then have "ts \<noteq> []" using that by auto
    then have "last ts = ts ! (k - 1)" using k by (simp add: last_conv_nth)
    then show ?thesis using assms(2) k that by (auto simp: nth_append)
  qed
  then show ?thesis by (simp add: spaced_def)
qed

lemma finish_failed: "err \<noteq> None \<Longrightarrow> snd (finish_turn env c err rows) = rows"
  by (auto simp: finish_turn_def Let_def split: option.split turn_error.split)

lemma drive_failed: "reError env \<noteq> None \<Longrightarrow> drive app env c rows = (err, at_turn, rows') \<Longrightarrow> err \<noteq> None"
  by (auto simp: drive_def Let_def simp del: not_None_eq split: if_splits)

lemma attempt_other:
  assumes "deID (caDetail c) \<noteq> sid" "list_all (spares_attempts sid) (reOthers env @ reTurn env)" "k \<in> attempt_keys"
  shows "cell (rrRows (attempt_turn app env c msg turns rows)) v (opsSessionID sid) k = cell rows v (opsSessionID sid) k"
proof -
  let ?s = "deID (caDetail c)" and ?u = "deUser (caDetail c)"
  have r: "cell rows1 v (opsSessionID sid) k = cell rows v (opsSessionID sid) k"
    if "RecordAutoResumeAttempt en ?u ?s rows = (x, rows1)" for en x rows1
    using one_append_spares [OF Record_append [of "\<lambda>s. s \<noteq> sid"] assms(3), of ?s] assms(1) that by (metis snd_conv)
  have f: "cell (snd (finish_turn env c err rows2)) v (opsSessionID sid) k = cell rows2 v (opsSessionID sid) k" for err rows2
    using one_append_spares [OF Clear_append assms(3)] append_spares [OF assms(3)] assms(1)
    by (auto simp: finish_turn_def Let_def ClearAutoResumeAttempts_def split: option.split turn_error.split)
  show ?thesis using r f drive_spares [OF _ assms(2,3)]
    by (auto simp: attempt_turn_def Let_def split: prod.splits sum.split) (metis snd_conv)+
qed

lemma resumeOne_shape:
  fixes app a env c turns rows
  defines "R \<equiv> resumeOne app a env c turns rows"
  shows "(\<exists>out. R = skip out turns rows) \<or>
    (\<exists>out. R = skip out turns (snd (ClearInterrupted (reClear env) (deUser (caDetail c)) (deID (caDetail c)) rows))) \<or>
    deUser (caDetail c) = defaultUserID \<and> (\<exists>msg. R = attempt_turn app env c msg turns rows)"
proof (cases "deUser (caDetail c) = defaultUserID")
  case False
  then show ?thesis by (auto simp: R_def resumeOne_def Let_def)
next
  case True
  define ok where "ok = (\<lambda>R. (\<exists>out. R = skip out turns rows) \<or>
    (\<exists>out. R = skip out turns (snd (ClearInterrupted (reClear env) (deUser (caDetail c)) (deID (caDetail c)) rows))) \<or>
    (\<exists>msg. R = attempt_turn app env c msg turns rows))"
  have "ok (skip out turns rows)" "ok (attempt_turn app env c msg turns rows)" for out msg by (auto simp: ok_def)
  moreover have "ok (skip out turns rows1)"
    if "ClearInterrupted (reClear env) (deUser (caDetail c)) (deID (caDetail c)) rows = (e, rows1)" for out e rows1
    using that by (auto simp: ok_def)
  ultimately have "ok R" by (simp add: R_def resumeOne_def Let_def split: prod.split option.split)
  then show ?thesis using True by (simp add: ok_def)
qed

lemma attempt_own:
  fixes app msg
  assumes c: "counted (deID (caDetail c)) rows ts" "deUser (caDetail c) = defaultUserID" "int (length ts) < 2 ^ 62"
    and f: "failing_step (deID (caDetail c)) (Drive env c turns)"
  defines "sid \<equiv> deID (caDetail c)" and "r \<equiv> attempt_turn app env c msg turns rows"
  shows "counted sid (rrRows r) (ts @ attempted sid env c turns r) \<and> (spaced ts \<longrightarrow> spaced (ts @ attempted sid env c turns r))"
proof -
  let ?n = "int (length ts)" and ?last = "if ts = [] then 0 else last ts"
  have at: "AutoResumeAttempts (reAttempts env) defaultUserID sid rows = (?n, ?last)"
    using counted_attempts [OF c(1)] f by (simp add: sid_def)
  show ?thesis
  proof (cases "(autoResumeMaxAttempts \<le> ?n \<and> time_Sub (enNow (reAttempts env)) ?last < autoResumeAttemptWindow) \<or> autoResumeBootCap \<le> turns")
    case True
    then have "rrRows r = rows \<and> rrTurns r = turns" using at c(2) by (auto simp: r_def attempt_turn_def Let_def sid_def)
    then show ?thesis using c(1) by (simp add: attempted_def sid_def)
  next
    case go: False
    obtain x rows1 where rec: "RecordAutoResumeAttempt (reRecord env) defaultUserID sid rows = (x, rows1)" by fastforce
    show ?thesis
    proof (cases x)
      case (Inl e)
      then have "rrRows r = rows1 \<and> rrTurns r = turns" using rec go at c(2) by (auto simp: r_def attempt_turn_def Let_def sid_def)
      moreover have "counted sid rows1 ts = counted sid rows ts" using record_failed rec Inl by (intro counted_cong) blast
      ultimately show ?thesis using c(1) by (simp add: attempted_def sid_def)
    next
      case (Inr n)
      obtain err at_turn rows2 where d: "drive app env c rows1 = (err, at_turn, rows2)" by (cases "drive app env c rows1") auto
      have fin: "snd (finish_turn env c err rows2) = rows2" using finish_failed drive_failed [OF _ d] f by simp
      have r: "rrRows r = rows2 \<and> rrTurns r = turns + 1"
        using Inr rec go at c(2) d fin by (auto simp: r_def attempt_turn_def Let_def sid_def split: prod.split)
      have k: "counted sid rows1 (ts @ [enNow (reRecord env)])"
        using record_counted [OF c(1) _ c(3)] rec Inr f by (simp add: sid_def)
      have "counted sid rows2 (ts @ [enNow (reRecord env)]) = counted sid rows1 (ts @ [enNow (reRecord env)])"
        using drive_spares [OF d] f by (intro counted_cong) (simp add: sid_def)
      moreover have "autoResumeAttemptWindow \<le> enNow (reRecord env) - last ts" if "3 \<le> length ts"
      proof -
        have "autoResumeAttemptWindow \<le> time_Sub (enNow (reAttempts env)) (last ts)"
          using go that by (auto simp: autoResumeMaxAttempts_def split: if_splits)
        then have "autoResumeAttemptWindow \<le> enNow (reAttempts env) - last ts"
          by (auto simp: time_Sub_def autoResumeAttemptWindow_def)
        then show ?thesis using f by simp
      qed
      ultimately show ?thesis using k r ar_spaced_snoc by (simp add: attempted_def sid_def)
    qed
  qed
qed

lemma world_step:
  assumes "counted sid rows ts" "int (length ts) < 2 ^ 62" "failing_step sid x" "ar_world app a sid (rows, ts) x = (rows', ts')"
  shows "counted sid rows' ts' \<and> (spaced ts \<longrightarrow> spaced ts') \<and> length ts' \<le> Suc (length ts)"
proof (cases x)
  case (Other op)
  have "counted sid rows' ts = counted sid rows ts" using assms(3,4) Other op_spares by (intro counted_cong) auto
  then show ?thesis using assms Other by auto
next
  case (Drive env c turns)
  let ?r = "resumeOne app a env c turns rows"
  have w: "rows' = rrRows ?r" "ts' = ts @ attempted sid env c turns ?r" using assms(4) Drive by (auto simp: Let_def)
  have len: "length ts' \<le> Suc (length ts)" using w by (simp add: attempted_def)
  show ?thesis
  proof (cases "\<exists>out rows1. ?r = skip out turns rows1 \<and>
      (rows1 = rows \<or> rows1 = snd (ClearInterrupted (reClear env) (deUser (caDetail c)) (deID (caDetail c)) rows))")
    case True
    then obtain out rows1 where skipped: "?r = skip out turns rows1"
      "rows1 = rows \<or> rows1 = snd (ClearInterrupted (reClear env) (deUser (caDetail c)) (deID (caDetail c)) rows)" by blast
    then have "ts' = ts" "rows' = rows1" using w by (simp_all add: skip_def attempted_def)
    moreover have "counted sid rows1 ts = counted sid rows ts"
      using skipped(2) one_append_spares [OF Clear_append] by (intro counted_cong) auto
    ultimately show ?thesis using assms(1) by simp
  next
    case no: False
    then obtain msg where attempt: "deUser (caDetail c) = defaultUserID" "?r = attempt_turn app env c msg turns rows"
      using resumeOne_shape [of app a env c turns rows] by blast
    show ?thesis
    proof (cases "deID (caDetail c) = sid")
      case True
      then show ?thesis
        using attempt_own [of c rows ts env turns app msg] assms(1-3) attempt w len Drive by simp
    next
      case False
      then have "counted sid rows' ts = counted sid rows ts" "ts' = ts"
        using w attempt attempt_other [OF False] assms(3) Drive by (auto simp: attempted_def intro!: counted_cong)
      then show ?thesis using assms(1) by simp
    qed
  qed
qed

lemma world_run:
  assumes "list_all (failing_step sid) xs" "int (length xs) < 2 ^ 62"
  shows "(case foldl (ar_world app a sid) ([], []) xs of (rows, ts) \<Rightarrow> counted sid rows ts \<and> spaced ts \<and> length ts \<le> length xs)"
  using assms
proof (induction xs rule: rev_induct)
  case Nil
  then show ?case by (simp add: counted_def cell_def spaced_def)
next
  case (snoc x xs)
  obtain rows ts where p: "foldl (ar_world app a sid) ([], []) xs = (rows, ts)" by fastforce
  obtain rows' ts' where q: "ar_world app a sid (rows, ts) x = (rows', ts')" by fastforce
  show ?case using snoc p q world_step [OF _ _ _ q] by auto
qed

text \<open>
  The loop breaker: over any boots and any operations of others, as long as the turns of a session keep failing and the
  pass can read the session's companion row, from the fourth attempt on two attempts at it are at least ten minutes apart.
\<close>

theorem failing_session_spaced:
  assumes "list_all (failing_step sid) xs" "int (length xs) < 2 ^ 62" "3 \<le> k"
    "k < length (snd (foldl (ar_world app a sid) ([], []) xs))"
  shows "autoResumeAttemptWindow \<le> snd (foldl (ar_world app a sid) ([], []) xs) ! k - snd (foldl (ar_world app a sid) ([], []) xs) ! (k - 1)"
  using world_run [OF assms(1,2), of app a] assms(3,4) by (auto simp: spaced_def case_prod_beta)

text \<open>One pass at boot starts at most fifty turns.\<close>

theorem boot_turns_bounded:
  "length (filter (\<lambda>r. rrDriven r \<noteq> None) (fst (run app a view en env rows))) \<le> 50"
  using run_from_bound [of 0] by (auto simp: run_def autoResumeBootCap_def split: sum.split)

theorem continued_over_settled_history_witness:
  "\<exists>m rowsL. rrDriven (demo_pass demo_cut_off ! 0) = Some (Some m, rowsL) \<and>
     (\<nexists>ev fc. unresolved (map (map_option event.truncate) demo_cut_off @ message_event [] 0 (Some m)) ''c1'' ev fc)"
proof -
  have "case rrDriven (demo_pass demo_cut_off ! 0) of Some (Some m, rowsL) \<Rightarrow> True | _ \<Rightarrow> False" by code_simp
  then obtain m rowsL where d: "rrDriven (demo_pass demo_cut_off ! 0) = Some (Some m, rowsL)"
    by (auto split: option.splits prod.splits)
  have "0 < length (demo_pass demo_cut_off)" by code_simp
  from continued_over_settled_history [OF this [unfolded demo_pass_def] d [unfolded demo_pass_def]]
  show ?thesis using d by (fastforce simp: seen_def)
qed

theorem failing_session_spaced_witness:
  "snd (foldl (ar_world ''app'' demo_ar ''s'') ([], []) (demo_boots [3, 4, 5, 6, 5 + minutes 10])) = [3, 4, 5, 5 + minutes 10] \<and>
   autoResumeAttemptWindow \<le> minutes 10"
proof -
  let ?xs = "demo_boots [3, 4, 5, 6, 5 + minutes 10]"
  have ts: "snd (foldl (ar_world ''app'' demo_ar ''s'') ([], []) ?xs) = [3, 4, 5, 5 + minutes 10]" by code_simp
  have "list_all (failing_step ''s'') ?xs" by code_simp
  moreover have "int (length ?xs) < 2 ^ 62" by (simp add: demo_boots_def)
  ultimately have "autoResumeAttemptWindow \<le> [3, 4, 5, 5 + minutes 10] ! 3 - [3, 4, 5, 5 + minutes 10] ! (3 - 1)"
    using failing_session_spaced [of "''s''" ?xs 3 "''app''" demo_ar] by (simp add: ts)
  then show ?thesis using ts by simp
qed


text \<open>
  The breaker can be reset by one failed read: with five attempts on record, an attempt that is recorded while the
  companion row cannot be read once leaves the count at one.
\<close>

theorem unreadable_row_resets_breaker:
  "(let rows = foldl (\<lambda>rows t. snd (RecordAutoResumeAttempt (demo_env t None) defaultUserID ''s'' rows)) demo_interrupted [3, 4, 5, 6, 7];
        rows' = snd (RecordAutoResumeAttempt (unreadable 8) defaultUserID ''s'' rows)
    in AutoResumeAttempts (demo_env 9 None) defaultUserID ''s'' rows = (5, 7) \<and>
       AutoResumeAttempts (demo_env 9 None) defaultUserID ''s'' rows' = (1, 8))"
  by code_simp

text \<open>
  The breaker counts attempts of any age: three attempts a day apart from each other stop a fourth that comes five minutes
  after the third, although only one attempt lies in the window.
\<close>

theorem old_attempts_trip_breaker:
  "snd (foldl (ar_world ''app'' (demo_ar\<lparr>arWindow := 0\<rparr>) ''s'') ([], [])
      (demo_boots [3, 3 + minutes 1440, 3 + minutes 2880, 3 + minutes 2885])) = [3, 3 + minutes 1440, 3 + minutes 2880]"
  by code_simp

end
