(* ===== verification/Access.thy ===== *)
theory Access
  imports Go_Strings Interfaces
begin

text \<open>
  Who a request is from and what they may do, \<^verbatim>\<open>src/internal/auth\<close>: callers and the table of users
  (\<^verbatim>\<open>auth.go\<close>, \<^verbatim>\<open>users.go\<close>), bearer tokens and asserted identities (\<^verbatim>\<open>authenticator.go\<close>), and the matrix of
  actions on a session (\<^verbatim>\<open>authorize.go\<close>).

  A request is its method, its path and its headers; \<^verbatim>\<open>Header.Get\<close> of a header that is absent is the empty string. The
  table of users is what the JSON decoder made of the file.
\<close>

section \<open>Callers and sessions\<close>

record caller =
  crIdentity :: string
  crLabels :: "(string, string) gomap"
  crAdmin :: bool

definition Anonymous :: caller where
  "Anonymous = \<lparr>crIdentity = ''anon'', crLabels = [], crAdmin = False\<rparr>"

definition no_caller :: caller where
  "no_caller = \<lparr>crIdentity = [], crLabels = [], crAdmin = False\<rparr>"

datatype action = ActionSessionList | ActionSessionRead | ActionSessionWrite | ActionSessionAdmin | ActionDaemonAdmin

record session_acl =
  saOwner :: string
  saViewers :: "string list"
  saContributors :: "string list"

definition containsIdentity :: "string list \<Rightarrow> string \<Rightarrow> bool" where
  "containsIdentity xs want \<longleftrightarrow> want \<noteq> [] \<and> want \<in> set xs"

definition Authorize :: "caller \<Rightarrow> action \<Rightarrow> session_acl \<Rightarrow> bool" where
  "Authorize c a acl =
     (if crAdmin c then True
      else if a = ActionSessionList then True
      else if crIdentity c = [] then False
      else case a of
             ActionSessionRead \<Rightarrow>
               crIdentity c = saOwner acl \<or> containsIdentity (saViewers acl) (crIdentity c) \<or>
               containsIdentity (saContributors acl) (crIdentity c)
           | ActionSessionWrite \<Rightarrow> crIdentity c = saOwner acl \<or> containsIdentity (saContributors acl) (crIdentity c)
           | ActionSessionAdmin \<Rightarrow> crIdentity c = saOwner acl
           | _ \<Rightarrow> False)"

section \<open>The table of users\<close>

record user =
  usIdentity :: string
  usToken :: string
  usLabels :: "(string, string) gomap"

datatype users_error =
    UnsupportedVersion int
  | IdentityRequired nat
  | TokenRequired nat
  | TokenCollides nat string
  | DuplicateIdentity nat

fun check_users :: "nat \<Rightarrow> (string, string) gomap \<Rightarrow> string list \<Rightarrow> user list \<Rightarrow> users_error option" where
  "check_users i seenToken seenIdentity [] = None"
| "check_users i seenToken seenIdentity (u # us) =
     (if usIdentity u = [] then Some (IdentityRequired i)
      else if usToken u = [] then Some (TokenRequired i)
      else case map_of seenToken (usToken u) of
             Some other \<Rightarrow> Some (TokenCollides i other)
           | None \<Rightarrow>
               if usIdentity u \<in> set seenIdentity then Some (DuplicateIdentity i)
               else check_users (i + 1) (AList.update (usToken u) (usIdentity u) seenToken) (usIdentity u # seenIdentity) us)"

definition UsersFileSchemaVersion :: int where "UsersFileSchemaVersion = 1"

definition LoadUsersFile :: "int \<Rightarrow> user list \<Rightarrow> users_error + user list" where
  "LoadUsersFile version users =
     (if version \<noteq> UsersFileSchemaVersion then Inl (UnsupportedVersion version)
      else case check_users 0 [] [] users of Some e \<Rightarrow> Inl e | None \<Rightarrow> Inr users)"

section \<open>Authenticators\<close>

record request =
  rqMethod :: string
  rqPath :: string
  rqHeader :: "string \<Rightarrow> string"

datatype auth_error = ErrUnauthenticated | ErrAssertedCallerForbidden | ErrAssertedCallerUnknown

record bearer_auth =
  btTokens :: "(string, caller) gomap"
  btIdentity :: "(string, string) gomap"
  btProxy :: "string list"

definition stringSet :: "string list \<Rightarrow> string list" where
  "stringSet xs = filter (\<lambda>x. x \<noteq> []) xs"

definition add_user :: "string list \<Rightarrow> bearer_auth \<Rightarrow> user \<Rightarrow> bearer_auth" where
  "add_user admins b u =
     (if usToken u = [] \<or> usIdentity u = [] then b
      else b\<lparr>btTokens := AList.update (usToken u)
               \<lparr>crIdentity = usIdentity u, crLabels = usLabels u, crAdmin = (usIdentity u \<in> set (stringSet admins))\<rparr> (btTokens b),
             btIdentity := AList.update (usIdentity u) (usToken u) (btIdentity b)\<rparr>)"

definition NewBearerTokenAuth :: "user list \<Rightarrow> string list \<Rightarrow> string list \<Rightarrow> bearer_auth" where
  "NewBearerTokenAuth users admins proxies =
     foldl (add_user admins) \<lparr>btTokens = [], btIdentity = [], btProxy = stringSet proxies\<rparr> users"

definition HeaderAttachToken :: string where "HeaderAttachToken = ''X-Attach-Token''"
definition HeaderAssertedCaller :: string where "HeaderAssertedCaller = ''X-Asserted-Caller''"
definition HeaderAuthorization :: string where "HeaderAuthorization = ''Authorization''"

definition extractBearer :: "string \<Rightarrow> string" where
  "extractBearer h = (if HasPrefix h ''Bearer '' then TrimSpace (drop 7 h) else [])"

definition extractToken :: "request \<Rightarrow> string" where
  "extractToken r =
     (if rqHeader r HeaderAttachToken \<noteq> [] then rqHeader r HeaderAttachToken
      else extractBearer (rqHeader r HeaderAuthorization))"

text \<open>The loop over the tokens compares each with the token presented, so it finds the entry of that token.\<close>

definition bearer_Authenticate :: "bearer_auth \<Rightarrow> request \<Rightarrow> auth_error + caller" where
  "bearer_Authenticate b r =
     (let token = extractToken r
      in if token = [] then Inl ErrUnauthenticated
         else case map_of (btTokens b) token of None \<Rightarrow> Inl ErrUnauthenticated | Some c \<Rightarrow> Inr c)"

definition CanProxyAs :: "bearer_auth \<Rightarrow> caller \<Rightarrow> bool" where
  "CanProxyAs b c \<longleftrightarrow> crIdentity c \<noteq> [] \<and> crIdentity c \<in> set (btProxy b)"

definition HasIdentity :: "bearer_auth \<Rightarrow> string \<Rightarrow> bool" where
  "HasIdentity b i \<longleftrightarrow> map_of (btIdentity b) i \<noteq> None"

definition LookupIdentity :: "bearer_auth \<Rightarrow> string \<Rightarrow> caller option" where
  "LookupIdentity b i = (case map_of (btIdentity b) i of None \<Rightarrow> None | Some token \<Rightarrow> map_of (btTokens b) token)"

datatype authenticator = AnonymousAuth caller | BearerTokenAuth bearer_auth

fun Authenticate :: "authenticator \<Rightarrow> request \<Rightarrow> auth_error + caller" where
  "Authenticate (AnonymousAuth c) r = Inr (if crIdentity c = [] then Anonymous else c)"
| "Authenticate (BearerTokenAuth b) r = bearer_Authenticate b r"

text \<open>The identity an audit record names: the caller, and on whose word.\<close>

definition Attribution :: "(caller \<times> string) option \<Rightarrow> string \<Rightarrow> string" where
  "Attribution ctx fallback =
     (case ctx of
        None \<Rightarrow> fallback
      | Some (c, proxyBy) \<Rightarrow>
          if crIdentity c = [] then fallback
          else if proxyBy \<noteq> [] then crIdentity c @ '' (asserted by '' @ proxyBy @ '')'' else crIdentity c)"

section \<open>What is claimed\<close>

text \<open>The matrix of the documentation.\<close>

datatype role = RoleAdmin | RoleOwner | RoleViewer | RoleContributor

definition has_role :: "caller \<Rightarrow> session_acl \<Rightarrow> role \<Rightarrow> bool" where
  "has_role c acl r =
     (case r of
        RoleAdmin \<Rightarrow> crAdmin c
      | RoleOwner \<Rightarrow> crIdentity c \<noteq> [] \<and> crIdentity c = saOwner acl
      | RoleViewer \<Rightarrow> crIdentity c \<noteq> [] \<and> crIdentity c \<in> set (saViewers acl)
      | RoleContributor \<Rightarrow> crIdentity c \<noteq> [] \<and> crIdentity c \<in> set (saContributors acl))"

fun permits :: "role \<Rightarrow> action \<Rightarrow> bool" where
  "permits RoleAdmin a = True"
| "permits RoleOwner a \<longleftrightarrow> a \<noteq> ActionDaemonAdmin"
| "permits RoleViewer a \<longleftrightarrow> a \<in> {ActionSessionList, ActionSessionRead}"
| "permits RoleContributor a \<longleftrightarrow> a \<in> {ActionSessionList, ActionSessionRead, ActionSessionWrite}"

text \<open>The caller that a row of the table stands for, and the row whose token a request carries.\<close>

definition caller_of :: "string list \<Rightarrow> user \<Rightarrow> caller" where
  "caller_of admins u = \<lparr>crIdentity = usIdentity u, crLabels = usLabels u, crAdmin = (usIdentity u \<in> set (stringSet admins))\<rparr>"

definition carries :: "request \<Rightarrow> user \<Rightarrow> bool" where
  "carries r u \<longleftrightarrow> extractToken r = usToken u"

section \<open>Lemmas and properties\<close>

lemma find_mem: "find P xs = Some x \<Longrightarrow> x \<in> set xs \<and> P x"
  by (induction xs) (auto split: if_splits)

lemma find_case: "(case find P xs of None \<Rightarrow> z | Some x \<Rightarrow> f x) \<noteq> z \<longleftrightarrow> (\<exists>x\<in>set xs. P x)" if "\<And>x. x \<in> set xs \<Longrightarrow> f x \<noteq> z"
  using that by (induction xs) auto

lemma ex_role: "(\<exists>r. P r) \<longleftrightarrow> P RoleAdmin \<or> P RoleOwner \<or> P RoleViewer \<or> P RoleContributor"
  by (metis role.exhaust)

lemma authorize_matrix: "Authorize c a acl \<longleftrightarrow> a = ActionSessionList \<or> (\<exists>r. has_role c acl r \<and> permits r a)"
  unfolding ex_role by (cases a) (auto simp: Authorize_def has_role_def containsIdentity_def)

lemma check_users_ok:
  assumes "check_users i seenToken seenIdentity us = None"
  shows "distinct (map usToken us) \<and> distinct (map usIdentity us) \<and> (\<forall>u\<in>set us. usToken u \<noteq> [] \<and> usIdentity u \<noteq> []) \<and>
    (\<forall>u\<in>set us. map_of seenToken (usToken u) = None \<and> usIdentity u \<notin> set seenIdentity)"
  using assms
proof (induction i seenToken seenIdentity us rule: check_users.induct)
  case (2 i st si u us)
  have h: "usIdentity u \<noteq> []" "usToken u \<noteq> []" "map_of st (usToken u) = None" "usIdentity u \<notin> set si"
    "check_users (i + 1) (AList.update (usToken u) (usIdentity u) st) (usIdentity u # si) us = None"
    using 2(2) by (auto split: if_splits option.splits)
  have ih: "distinct (map usToken us)" "distinct (map usIdentity us)" "\<forall>v\<in>set us. usToken v \<noteq> [] \<and> usIdentity v \<noteq> []"
    "\<forall>v\<in>set us. map_of (AList.update (usToken u) (usIdentity u) st) (usToken v) = None \<and> usIdentity v \<notin> set (usIdentity u # si)"
    using 2(1) [OF h(1,2) h(3,4,5)] by auto
  have "usToken v \<noteq> usToken u \<and> map_of st (usToken v) = None \<and> usIdentity v \<noteq> usIdentity u \<and> usIdentity v \<notin> set si" if "v \<in> set us" for v
    using ih(4) that by (auto split: if_splits)
  then show ?case using h ih(1-3) by force
qed simp

lemma load_ok:
  assumes "LoadUsersFile v us = Inr us'"
  shows "us' = us \<and> distinct (map usToken us) \<and> distinct (map usIdentity us) \<and> (\<forall>u\<in>set us. usToken u \<noteq> [] \<and> usIdentity u \<noteq> [])"
  using assms check_users_ok [of 0 "[]" "[]" us] by (auto simp: LoadUsersFile_def split: if_splits option.splits)

lemma table_maps:
  assumes "distinct (map usToken us)" "distinct (map usIdentity us)" "\<forall>u\<in>set us. usToken u \<noteq> [] \<and> usIdentity u \<noteq> []"
  shows "(map_of (btTokens (NewBearerTokenAuth us admins proxies)) t = Some c \<longleftrightarrow> (\<exists>u\<in>set us. usToken u = t \<and> c = caller_of admins u)) \<and>
    (map_of (btIdentity (NewBearerTokenAuth us admins proxies)) i = Some t' \<longleftrightarrow> (\<exists>u\<in>set us. usIdentity u = i \<and> usToken u = t')) \<and>
    btProxy (NewBearerTokenAuth us admins proxies) = stringSet proxies"
  using assms
proof (induction us rule: rev_induct)
  case Nil
  then show ?case by (simp add: NewBearerTokenAuth_def)
next
  case (snoc u us)
  then have ih: "map_of (btTokens (NewBearerTokenAuth us admins proxies)) t = Some c \<longleftrightarrow> (\<exists>u\<in>set us. usToken u = t \<and> c = caller_of admins u)"
    "map_of (btIdentity (NewBearerTokenAuth us admins proxies)) i = Some t' \<longleftrightarrow> (\<exists>u\<in>set us. usIdentity u = i \<and> usToken u = t')"
    "btProxy (NewBearerTokenAuth us admins proxies) = stringSet proxies" by auto
  have eq: "NewBearerTokenAuth (us @ [u]) admins proxies = add_user admins (NewBearerTokenAuth us admins proxies) u"
    by (simp add: NewBearerTokenAuth_def)
  have u: "usToken u \<noteq> []" "usIdentity u \<noteq> []" "usToken u \<notin> usToken ` set us" "usIdentity u \<notin> usIdentity ` set us"
    using snoc(2-4) by auto
  have "btTokens (NewBearerTokenAuth (us @ [u]) admins proxies) = AList.update (usToken u) (caller_of admins u) (btTokens (NewBearerTokenAuth us admins proxies))"
    using u by (simp add: eq add_user_def caller_of_def)
  then have "map_of (btTokens (NewBearerTokenAuth (us @ [u]) admins proxies)) t = Some c \<longleftrightarrow> (\<exists>v\<in>set (us @ [u]). usToken v = t \<and> c = caller_of admins v)"
    using ih(1) u(3) by (cases "t = usToken u") (auto simp: image_iff)
  moreover have "map_of (btIdentity (NewBearerTokenAuth (us @ [u]) admins proxies)) i = Some t' \<longleftrightarrow> (\<exists>v\<in>set (us @ [u]). usIdentity v = i \<and> usToken v = t')"
    using ih(2) u by (cases "i = usIdentity u") (auto simp: eq add_user_def image_iff)
  ultimately show ?case using ih(3) u by (simp add: eq add_user_def)
qed

lemma lookup_row:
  assumes "LoadUsersFile v us = Inr us"
  shows "LookupIdentity (NewBearerTokenAuth us admins proxies) i = Some c \<longleftrightarrow> (\<exists>u\<in>set us. usIdentity u = i \<and> c = caller_of admins u)"
proof -
  note d = load_ok [OF assms]
  have t: "(map_of (btTokens (NewBearerTokenAuth us admins proxies)) t = Some c \<longleftrightarrow> (\<exists>u\<in>set us. usToken u = t \<and> c = caller_of admins u)) \<and>
      (map_of (btIdentity (NewBearerTokenAuth us admins proxies)) i = Some t \<longleftrightarrow> (\<exists>u\<in>set us. usIdentity u = i \<and> usToken u = t))" for t c i
    using table_maps [where us = us] d by blast
  have inj: "u = u'" if "u \<in> set us" "u' \<in> set us" "usToken u = usToken u'" for u u'
    using that d by (auto simp: distinct_map inj_on_def)
  have "LookupIdentity (NewBearerTokenAuth us admins proxies) i = Some c \<longleftrightarrow>
      (\<exists>t. map_of (btIdentity (NewBearerTokenAuth us admins proxies)) i = Some t \<and> map_of (btTokens (NewBearerTokenAuth us admins proxies)) t = Some c)"
    by (auto simp: LookupIdentity_def split: option.split)
  also have "\<dots> \<longleftrightarrow> (\<exists>t. (\<exists>u\<in>set us. usIdentity u = i \<and> usToken u = t) \<and> (\<exists>u\<in>set us. usToken u = t \<and> c = caller_of admins u))"
    using t by simp
  also have "\<dots> \<longleftrightarrow> (\<exists>u\<in>set us. usIdentity u = i \<and> c = caller_of admins u)" using inj by blast
  finally show ?thesis .
qed

lemma authenticate_row:
  assumes "LoadUsersFile v us = Inr us"
  shows "bearer_Authenticate (NewBearerTokenAuth us admins proxies) r = Inr c \<longleftrightarrow> (\<exists>u\<in>set us. carries r u \<and> c = caller_of admins u)"
proof -
  note d = load_ok [OF assms]
  have t: "map_of (btTokens (NewBearerTokenAuth us admins proxies)) t = Some c \<longleftrightarrow> (\<exists>u\<in>set us. usToken u = t \<and> c = caller_of admins u)" for t
    using table_maps [where us = us] d by blast
  have "bearer_Authenticate (NewBearerTokenAuth us admins proxies) r = Inr c \<longleftrightarrow>
      extractToken r \<noteq> [] \<and> map_of (btTokens (NewBearerTokenAuth us admins proxies)) (extractToken r) = Some c"
    by (auto simp: bearer_Authenticate_def Let_def split: option.split)
  then show ?thesis using d unfolding t carries_def by metis
qed

text \<open>
  A token names one person: with a table of users that was accepted, a request is authenticated as exactly the caller
  whose row has the token that the request carries, who is an administrator exactly if they are configured as one, and a
  request with any other token or none is refused.
\<close>

theorem token_names_user:
  assumes "LoadUsersFile v us = Inr us"
  shows "Authenticate (BearerTokenAuth (NewBearerTokenAuth us admins proxies)) r = Inr c \<longleftrightarrow>
      (\<exists>!u. u \<in> set us \<and> carries r u) \<and> (\<exists>u\<in>set us. carries r u \<and> crIdentity c = usIdentity u \<and> crLabels c = usLabels u \<and>
        (crAdmin c \<longleftrightarrow> usIdentity u \<in> set admins))"
proof -
  have uniq: "u = u'" if "u \<in> set us" "u' \<in> set us" "carries r u" "carries r u'" for u u'
    using that load_ok [OF assms] by (auto simp: carries_def distinct_map inj_on_def)
  have "c = caller_of admins u \<longleftrightarrow> crIdentity c = usIdentity u \<and> crLabels c = usLabels u \<and> (crAdmin c \<longleftrightarrow> usIdentity u \<in> set admins)"
    if "u \<in> set us" for u
    using that load_ok [OF assms] by (cases c) (auto simp: caller_of_def stringSet_def)
  then show ?thesis using uniq by (auto simp: authenticate_row [OF assms] Ex1_def)
qed

theorem token_names_user_witness:
  "Authenticate (BearerTokenAuth (NewBearerTokenAuth [\<lparr>usIdentity = ''alice'', usToken = ''t'', usLabels = []\<rparr>] [''alice''] []))
      \<lparr>rqMethod = ''GET'', rqPath = [], rqHeader = (\<lambda>h. if h = HeaderAttachToken then ''t'' else [])\<rparr> =
     Inr \<lparr>crIdentity = ''alice'', crLabels = [], crAdmin = True\<rparr>"
proof -
  have us: "LoadUsersFile 1 [\<lparr>usIdentity = ''alice'', usToken = ''t'', usLabels = []\<rparr>] = Inr [\<lparr>usIdentity = ''alice'', usToken = ''t'', usLabels = []\<rparr>]"
    by code_simp
  have "carries \<lparr>rqMethod = ''GET'', rqPath = [], rqHeader = (\<lambda>h. if h = HeaderAttachToken then ''t'' else [])\<rparr>
      \<lparr>usIdentity = ''alice'', usToken = ''t'', usLabels = []\<rparr>" by (simp add: carries_def extractToken_def)
  then show ?thesis by (intro iffD2 [OF token_names_user [OF us]]) auto
qed

end
