(* ===== verification/Inject_Server.thy ===== *)
theory Inject_Server
  imports Access Session_Store
begin

text \<open>
  The daemon's HTTP endpoint, \<^verbatim>\<open>src/internal/inject/server.go\<close>, with \<^verbatim>\<open>parks.go\<close>, \<^verbatim>\<open>health.go\<close> and
  \<^verbatim>\<open>bind_policy.go\<close>: its routes, which credential opens which of them, on whose behalf an approval is recorded, and the
  status of every answer; the acknowledgement handler of \<^verbatim>\<open>src/internal/cli/serve.go\<close>.

  The multiplexer is the standard library's: a \<^verbatim>\<open>GET\<close> pattern also takes \<^verbatim>\<open>HEAD\<close>, a wildcard takes one non-empty segment,
  and what no pattern takes goes to the pattern \<^verbatim>\<open>/\<close>. A body is what the JSON decoder made of it. The handlers of the
  daemon are an argument.
\<close>

section \<open>Configuration\<close>

datatype endpoint =
    EInject | EResume | EAbort | EAckEffects | EMonitorAck | EPause | EExtendToken | EStop | EParks | EHealthz | EMetrics | ERoot

record server_config =
  svToken :: string
  svAuth :: "authenticator option"
  svAssertedHeader :: string
  svEnabled :: "endpoint list"
  svMetrics :: bool
  svChecks :: "(string, string option) gomap"

definition CheckBindPolicy :: "(string \<Rightarrow> bool) \<Rightarrow> string \<Rightarrow> bool \<Rightarrow> bool" where
  "CheckBindPolicy isLoopback addr authenticated \<longleftrightarrow> addr = [] \<or> authenticated \<or> isLoopback addr"

text \<open>The address the server listens on, unless the policy refuses it.\<close>

definition listen_addr :: "(string \<Rightarrow> bool) \<Rightarrow> string \<Rightarrow> server_config \<Rightarrow> string option" where
  "listen_addr isLoopback addr cfg =
     (if \<not> CheckBindPolicy isLoopback addr (svToken cfg \<noteq> []) then None
      else Some (if addr = [] then '':7777'' else addr))"

section \<open>Routes\<close>

definition routes :: "(string \<times> string) list" where
  "routes = [(''GET'', ''/''), (''GET'', ''/healthz''), (''POST'', ''/inject''), (''POST'', ''/resume''), (''POST'', ''/abort''),
     (''POST'', ''/ack-effects''), (''POST'', ''/monitor-ack''), (''POST'', ''/pause''), (''POST'', ''/extend-token''),
     (''POST'', ''/stop''), (''GET'', ''/parks''), (''GET'', ''/parks/{session}'')]"

fun segments_match :: "string list \<Rightarrow> string list \<Rightarrow> bool" where
  "segments_match [] [] = True"
| "segments_match (p # ps) (q # qs) =
     (if HasPrefix p ''{'' \<and> HasSuffix p ''}'' then q \<noteq> [] \<and> segments_match ps qs else p = q \<and> segments_match ps qs)"
| "segments_match _ _ = False"

definition routeMatches :: "string \<Rightarrow> string \<Rightarrow> bool" where
  "routeMatches pattern path \<longleftrightarrow> pattern = path \<or> segments_match (split_slash pattern) (split_slash path)"

definition routeList :: "server_config \<Rightarrow> (string \<times> string) list" where
  "routeList cfg = (if svMetrics cfg then routes @ [(''GET'', ''/metrics'')] else routes)"

text \<open>What \<^verbatim>\<open>New\<close> registers, and what the multiplexer does with it.\<close>

definition registered :: "server_config \<Rightarrow> (string \<times> string \<times> endpoint) list" where
  "registered cfg =
     [(''GET'', ''/healthz'', EHealthz), (''POST'', ''/inject'', EInject), (''POST'', ''/resume'', EResume),
      (''POST'', ''/abort'', EAbort), (''POST'', ''/ack-effects'', EAckEffects), (''POST'', ''/monitor-ack'', EMonitorAck),
      (''POST'', ''/pause'', EPause), (''POST'', ''/extend-token'', EExtendToken), (''POST'', ''/stop'', EStop),
      (''GET'', ''/parks'', EParks), (''GET'', ''/parks/{session}'', EParks)] @
     (if svMetrics cfg then [(''GET'', ''/metrics'', EMetrics)] else [])"

definition method_takes :: "string \<Rightarrow> string \<Rightarrow> bool" where
  "method_takes pat m \<longleftrightarrow> pat = m \<or> pat = ''GET'' \<and> m = ''HEAD''"

definition mux :: "server_config \<Rightarrow> string \<Rightarrow> string \<Rightarrow> endpoint" where
  "mux cfg m p =
     (case find (\<lambda>(pm, pat, e). method_takes pm m \<and> segments_match (split_slash pat) (split_slash p)) (registered cfg) of
        None \<Rightarrow> ERoot
      | Some (pm, pat, e) \<Rightarrow> e)"

section \<open>Credentials\<close>

definition authOK :: "server_config \<Rightarrow> request \<Rightarrow> bool" where
  "authOK cfg r =
     (if svToken cfg = [] then True
      else if \<not> HasPrefix (rqHeader r HeaderAuthorization) ''Bearer '' then False
      else drop 7 (rqHeader r HeaderAuthorization) = svToken cfg)"

definition sharedTokenPresented :: "server_config \<Rightarrow> request \<Rightarrow> bool" where
  "sharedTokenPresented cfg r \<longleftrightarrow> svToken cfg \<noteq> [] \<and> authOK cfg r"

definition attributedAuthOK :: "server_config \<Rightarrow> request \<Rightarrow> bool" where
  "attributedAuthOK cfg r =
     (if authOK cfg r then True
      else case svAuth cfg of None \<Rightarrow> False | Some a \<Rightarrow> (case Authenticate a r of Inl e \<Rightarrow> False | Inr c \<Rightarrow> True))"

definition SharedCredentialIdentity :: string where "SharedCredentialIdentity = ''shared-bearer-token''"

definition shared_caller :: caller where
  "shared_caller = \<lparr>crIdentity = SharedCredentialIdentity, crLabels = [], crAdmin = False\<rparr>"

text \<open>The caller and the identity that asserted them, if another did.\<close>

definition callerContext :: "server_config \<Rightarrow> request \<Rightarrow> auth_error + caller \<times> string" where
  "callerContext cfg r =
     (let header = (if svAssertedHeader cfg = [] then HeaderAssertedCaller else svAssertedHeader cfg);
          asserted = rqHeader r header
      in case svAuth cfg of
           None \<Rightarrow> Inr (shared_caller, [])
         | Some a \<Rightarrow>
             (case Authenticate a r of
                Inl e \<Rightarrow>
                  if \<not> sharedTokenPresented cfg r then Inl e
                  else if asserted \<noteq> [] then Inl ErrAssertedCallerForbidden
                  else Inr (shared_caller, [])
              | Inr c \<Rightarrow>
                  if asserted = [] then Inr (c, [])
                  else case a of
                         AnonymousAuth d \<Rightarrow> Inl ErrAssertedCallerForbidden
                       | BearerTokenAuth b \<Rightarrow>
                           if \<not> CanProxyAs b c then Inl ErrAssertedCallerForbidden
                           else case LookupIdentity b asserted of
                                  None \<Rightarrow> Inl ErrAssertedCallerUnknown
                                | Some effective \<Rightarrow> Inr (effective, crIdentity c)))"

section \<open>Endpoints\<close>

text \<open>A decoded body: whether decoding succeeds, with unknown fields allowed and refused, whether the body was empty, and
  the fields that the endpoints look at.\<close>

record body =
  bdLoose :: bool
  bdStrict :: bool
  bdEOF :: bool
  bdSessionID :: string
  bdInterruptID :: string
  bdToken :: string
  bdReason :: string
  bdSubject :: string
  bdTTL :: string
  bdHasAckBy :: bool

datatype handler_error = HUnavailable | HBadPayload | HConflict | HNotFound | HOther

type_synonym handler = "endpoint \<Rightarrow> (caller \<times> string) option \<Rightarrow> body \<Rightarrow> handler_error option"

record reply =
  rpStatus :: nat
  rpAllow :: string
  rpRetryAfter :: bool

definition answer :: "nat \<Rightarrow> reply" where
  "answer n = \<lparr>rpStatus = n, rpAllow = [], rpRetryAfter = False\<rparr>"

definition unavailable :: reply where
  "unavailable = \<lparr>rpStatus = 503, rpAllow = [], rpRetryAfter = True\<rparr>"

text \<open>The status of a handler's error, endpoint by endpoint, and of its success.\<close>

definition error_reply :: "endpoint \<Rightarrow> handler_error \<Rightarrow> reply" where
  "error_reply e err =
     (if err = HUnavailable \<and> e \<in> {EInject, EResume, EMonitorAck, EPause, EParks} then unavailable
      else if err = HBadPayload \<and> e \<noteq> EStop then answer 400
      else if err = HConflict \<and> e \<in> {EInject, EResume, EAbort, EMonitorAck, EPause, EExtendToken} then answer 409
      else if err = HNotFound \<and> e = EParks then answer 404
      else answer 500)"

definition success_reply :: "endpoint \<Rightarrow> reply" where
  "success_reply e = answer (if e \<in> {EInject, EResume, EAbort, EAckEffects, EStop} then 202 else 200)"

text \<open>What an endpoint refuses before its handler, in the order of the code.\<close>

definition body_error :: "endpoint \<Rightarrow> body \<Rightarrow> bool" where
  "body_error e b =
     (case e of
        EInject \<Rightarrow> \<not> bdStrict b
      | EResume \<Rightarrow> \<not> bdLoose b \<or> (bdToken b = [] \<and> (bdSessionID b = [] \<or> bdInterruptID b = [])) \<or>
          (bdToken b \<noteq> [] \<and> (bdSessionID b \<noteq> [] \<or> bdInterruptID b \<noteq> []))
      | EAbort \<Rightarrow> \<not> bdLoose b \<or> bdSessionID b = []
      | EAckEffects \<Rightarrow> \<not> bdLoose b \<or> bdSessionID b = []
      | EMonitorAck \<Rightarrow> \<not> bdLoose b \<or> bdHasAckBy b \<or> \<not> bdStrict b \<or> TrimSpace (bdSubject b) = []
      | EPause \<Rightarrow> \<not> bdLoose b \<or> bdSessionID b = [] \<or> bdReason b = []
      | EExtendToken \<Rightarrow> \<not> bdLoose b \<or> bdToken b = [] \<or> bdTTL b = []
      | EStop \<Rightarrow> \<not> bdLoose b \<and> \<not> bdEOF b
      | _ \<Rightarrow> False)"

definition attributed :: "endpoint \<Rightarrow> bool" where
  "attributed e \<longleftrightarrow> e \<in> {EResume, EMonitorAck, EParks}"

definition names_caller :: "endpoint \<Rightarrow> bool" where
  "names_caller e \<longleftrightarrow> e \<in> {EResume, EMonitorAck}"

text \<open>An endpoint of the daemon: the reply, and the context with which the handler was called if it was.\<close>

definition run_endpoint ::
  "server_config \<Rightarrow> handler \<Rightarrow> endpoint \<Rightarrow> request \<Rightarrow> body \<Rightarrow> reply \<times> (caller \<times> string) option option" where
  "run_endpoint cfg h e r b =
     (let call = (\<lambda>ctx. (case h e ctx b of None \<Rightarrow> success_reply e | Some err \<Rightarrow> error_reply e err, Some ctx))
      in if \<not> (if attributed e then attributedAuthOK cfg r else authOK cfg r) then (answer 401, None)
         else if e \<noteq> EInject \<and> e \<notin> set (svEnabled cfg) then (answer 404, None)
         else if body_error e b then (answer 400, None)
         else if names_caller e
         then (case callerContext cfg r of Inl err \<Rightarrow> (answer 403, None) | Inr ctx \<Rightarrow> call (Some ctx))
         else call None)"

text \<open>The handlers of the endpoints.\<close>

definition handleInject :: "server_config \<Rightarrow> handler \<Rightarrow> request \<Rightarrow> body \<Rightarrow> reply \<times> (caller \<times> string) option option" where
  "handleInject cfg h = run_endpoint cfg h EInject"

definition handleResume :: "server_config \<Rightarrow> handler \<Rightarrow> request \<Rightarrow> body \<Rightarrow> reply \<times> (caller \<times> string) option option" where
  "handleResume cfg h = run_endpoint cfg h EResume"

definition handleAbort :: "server_config \<Rightarrow> handler \<Rightarrow> request \<Rightarrow> body \<Rightarrow> reply \<times> (caller \<times> string) option option" where
  "handleAbort cfg h = run_endpoint cfg h EAbort"

definition handleAckEffects :: "server_config \<Rightarrow> handler \<Rightarrow> request \<Rightarrow> body \<Rightarrow> reply \<times> (caller \<times> string) option option" where
  "handleAckEffects cfg h = run_endpoint cfg h EAckEffects"

definition handleMonitorAck :: "server_config \<Rightarrow> handler \<Rightarrow> request \<Rightarrow> body \<Rightarrow> reply \<times> (caller \<times> string) option option" where
  "handleMonitorAck cfg h = run_endpoint cfg h EMonitorAck"

definition handlePause :: "server_config \<Rightarrow> handler \<Rightarrow> request \<Rightarrow> body \<Rightarrow> reply \<times> (caller \<times> string) option option" where
  "handlePause cfg h = run_endpoint cfg h EPause"

definition handleExtendToken :: "server_config \<Rightarrow> handler \<Rightarrow> request \<Rightarrow> body \<Rightarrow> reply \<times> (caller \<times> string) option option" where
  "handleExtendToken cfg h = run_endpoint cfg h EExtendToken"

definition handleStop :: "server_config \<Rightarrow> handler \<Rightarrow> request \<Rightarrow> body \<Rightarrow> reply \<times> (caller \<times> string) option option" where
  "handleStop cfg h = run_endpoint cfg h EStop"

definition handleParks :: "server_config \<Rightarrow> handler \<Rightarrow> request \<Rightarrow> body \<Rightarrow> reply \<times> (caller \<times> string) option option" where
  "handleParks cfg h = run_endpoint cfg h EParks"

definition handleHealthz :: "server_config \<Rightarrow> reply" where
  "handleHealthz cfg = answer (if list_all (\<lambda>(n, err). err = None) (svChecks cfg) then 200 else 503)"

text \<open>A failed check is logged when the outcome changes: \<^verbatim>\<open>healthState.note\<close>.\<close>

definition health_note :: "bool \<Rightarrow> string \<Rightarrow> (bool \<times> string) option \<Rightarrow> bool \<times> (bool \<times> string) option" where
  "health_note ok msg st = (st \<noteq> Some (ok, msg), Some (ok, msg))"

definition handleRoot :: "server_config \<Rightarrow> request \<Rightarrow> reply" where
  "handleRoot cfg r =
     (if rqPath r = ''/'' then
        (if rqMethod r \<noteq> ''GET'' then (answer 405)\<lparr>rpAllow := ''GET''\<rparr> else answer 200)
      else case find (\<lambda>(m, pat). routeMatches pat (rqPath r)) (routeList cfg) of
             Some (m, pat) \<Rightarrow> (answer 405)\<lparr>rpAllow := m\<rparr>
           | None \<Rightarrow> answer 404)"

definition serve :: "server_config \<Rightarrow> handler \<Rightarrow> request \<Rightarrow> body \<Rightarrow> endpoint \<times> reply \<times> (caller \<times> string) option option" where
  "serve cfg h r b =
     (let e = mux cfg (rqMethod r) (rqPath r)
      in case e of
           ERoot \<Rightarrow> (e, handleRoot cfg r, None)
         | EHealthz \<Rightarrow> (e, handleHealthz cfg, None)
         | EMetrics \<Rightarrow> (e, answer 200, None)
         | EInject \<Rightarrow> (e, handleInject cfg h r b)
         | EResume \<Rightarrow> (e, handleResume cfg h r b)
         | EAbort \<Rightarrow> (e, handleAbort cfg h r b)
         | EAckEffects \<Rightarrow> (e, handleAckEffects cfg h r b)
         | EMonitorAck \<Rightarrow> (e, handleMonitorAck cfg h r b)
         | EPause \<Rightarrow> (e, handlePause cfg h r b)
         | EExtendToken \<Rightarrow> (e, handleExtendToken cfg h r b)
         | EStop \<Rightarrow> (e, handleStop cfg h r b)
         | EParks \<Rightarrow> (e, handleParks cfg h r b))"

section \<open>The acknowledgement handler\<close>

text \<open>\<open>locked\<close> is whether the session's slot was obtained.\<close>

definition ack_handler :: "bool \<Rightarrow> bool \<Rightarrow> bool \<Rightarrow> store_env \<Rightarrow> string \<Rightarrow> string \<Rightarrow> row list \<Rightarrow> handler_error option \<times> row list" where
  "ack_handler draining locked drainingNow en sid why rows =
     (if draining then (Some HUnavailable, rows)
      else if IsReservedSessionID sid then (Some HBadPayload, rows)
      else if \<not> locked then (Some (if drainingNow then HUnavailable else HOther), rows)
      else case AckEffects en [] sid why rows of
             (None, rows') \<Rightarrow> (None, rows')
           | (Some ErrNotFound, rows') \<Rightarrow> (Some HBadPayload, rows')
           | (Some e, rows') \<Rightarrow> (Some HOther, rows'))"

section \<open>Who speaks\<close>



definition demo_users :: "user list" where
  "demo_users = [\<lparr>usIdentity = ''alice'', usToken = ''ta'', usLabels = []\<rparr>, \<lparr>usIdentity = ''relay'', usToken = ''tr'', usLabels = []\<rparr>]"

definition demo_config :: server_config where
  "demo_config = \<lparr>svToken = ''shared'', svAuth = Some (BearerTokenAuth (NewBearerTokenAuth demo_users [] [''relay''])),
     svAssertedHeader = [], svEnabled = [EResume, EAbort, EAckEffects], svMetrics = False, svChecks = []\<rparr>"

definition demo_request :: "string \<Rightarrow> string \<Rightarrow> (string, string) gomap \<Rightarrow> request" where
  "demo_request m p hs = \<lparr>rqMethod = m, rqPath = p, rqHeader = mget [] hs\<rparr>"

definition demo_body :: body where
  "demo_body = \<lparr>bdLoose = True, bdStrict = True, bdEOF = False, bdSessionID = ''s'', bdInterruptID = ''i'', bdToken = [],
     bdReason = [], bdSubject = [], bdTTL = [], bdHasAckBy = False\<rparr>"

definition quiet_handler :: handler where "quiet_handler = (\<lambda>_ _ _. None)"

section \<open>Lemmas and properties\<close>

lemmas handler_defs = handleInject_def handleResume_def handleAbort_def handleAckEffects_def handleMonitorAck_def
  handlePause_def handleExtendToken_def handleStop_def handleParks_def

lemma serve_called:
  assumes "serve cfg h r b = (e, rep, Some ctx)"
  shows "e = mux cfg (rqMethod r) (rqPath r) \<and> run_endpoint cfg h e r b = (rep, Some ctx)"
  using assms by (auto simp: serve_def Let_def handler_defs split: endpoint.splits)

lemma run_called:
  "run_endpoint cfg h e r b = (rep, Some ctx) \<longleftrightarrow>
     (if attributed e then attributedAuthOK cfg r else authOK cfg r) \<and> (e = EInject \<or> e \<in> set (svEnabled cfg)) \<and> \<not> body_error e b \<and>
     (if names_caller e then (\<exists>x. callerContext cfg r = Inr x \<and> ctx = Some x) else ctx = None) \<and>
     rep = (case h e ctx b of None \<Rightarrow> success_reply e | Some err \<Rightarrow> error_reply e err)"
  unfolding run_endpoint_def Let_def by (cases "callerContext cfg r") (auto split: if_splits)



text \<open>
  No handler without a credential: when a shared token is configured, a request calls a handler only if it presents that
  token, or, on the three routes that take one, a credential the authenticator accepts.
\<close>

theorem handler_needs_credential:
  assumes "serve cfg h r b = (e, rep, Some ctx)" "svToken cfg \<noteq> []"
  shows "sharedTokenPresented cfg r \<or> (e \<in> {EResume, EMonitorAck, EParks} \<and> (\<exists>a c. svAuth cfg = Some a \<and> Authenticate a r = Inr c))"
  using serve_called [OF assms(1)] assms(2)
  by (auto simp: run_called sharedTokenPresented_def attributedAuthOK_def attributed_def split: if_splits option.splits sum.splits)

lemma mux_takes:
  "mux cfg m p \<noteq> ERoot \<longleftrightarrow> (\<exists>(pm, pat, e)\<in>set (registered cfg). method_takes pm m \<and> segments_match (split_slash pat) (split_slash p))"
  unfolding mux_def by (subst find_case) (auto simp: registered_def split: if_splits)

lemma routes_registered: "routeList cfg = (''GET'', ''/'') # map (\<lambda>(m, pat, e). (m, pat)) (registered cfg)"
  by (simp add: routeList_def routes_def registered_def)

lemma split_slash_not_nil: "split_slash s \<noteq> []"
  by (induction s rule: split_slash.induct) (auto split: list.split)

lemma split_slash_root: "split_slash p = [[], []] \<longleftrightarrow> p = ''/''"
proof (cases p)
  case (Cons c s)
  then show ?thesis using split_slash_not_nil [of s] split_slash_not_nil [of "tl s"] by (cases s) (auto split: list.splits)
qed simp

lemma segments_root: "segments_match (split_slash ''/'') (split_slash p) \<longleftrightarrow> p = ''/''"
proof -
  have "segments_match [[], []] qs \<longleftrightarrow> qs = [[], []]" for qs
    by (cases qs; cases "tl qs"; cases "tl (tl qs)") (auto simp: HasPrefix_def)
  then show ?thesis using split_slash_root by simp
qed

lemma segments_refl: "list_all (\<lambda>p. p \<noteq> [] \<or> \<not> HasPrefix p ''{'') ps \<Longrightarrow> segments_match ps ps"
  by (induction ps) auto

lemma registered_matches: "(m, pat, e) \<in> set (registered cfg) \<Longrightarrow> routeMatches pat p \<longleftrightarrow> segments_match (split_slash pat) (split_slash p)"
proof -
  assume "(m, pat, e) \<in> set (registered cfg)"
  then have "list_all (\<lambda>p. p \<noteq> [] \<or> \<not> HasPrefix p ''{'') (split_slash pat)"
    by (auto simp: registered_def HasPrefix_def split: if_splits)
  then show ?thesis using segments_refl by (auto simp: routeMatches_def)
qed

lemma root_finds:
  assumes "p \<noteq> ''/''"
  shows "find (\<lambda>(m, pat). routeMatches pat p) (routeList cfg) = find (\<lambda>(m, pat). segments_match (split_slash pat) (split_slash p)) (map (\<lambda>(m, pat, e). (m, pat)) (registered cfg))"
proof -
  have "\<not> routeMatches ''/'' p" using assms segments_root by (auto simp: routeMatches_def)
  then have "find (\<lambda>(m, pat). routeMatches pat p) (routeList cfg) = find (\<lambda>(m, pat). routeMatches pat p) (map (\<lambda>(m, pat, e). (m, pat)) (registered cfg))"
    by (simp add: routes_registered)
  also have "\<dots> = find (\<lambda>(m, pat). segments_match (split_slash pat) (split_slash p)) (map (\<lambda>(m, pat, e). (m, pat)) (registered cfg))"
    by (rule find_cong) (auto simp: registered_matches)
  finally show ?thesis .
qed

text \<open>
  What the server says about its routes is true: a request that no route takes is answered with a 404 exactly if no method
  is served at its path, and otherwise with a 405 whose \<^verbatim>\<open>Allow\<close> header names a method that is served there.
\<close>

theorem routes_told_truly:
  assumes "mux cfg (rqMethod r) (rqPath r) = ERoot" "rqPath r \<noteq> ''/''"
  shows "fst (snd (serve cfg h r b)) = handleRoot cfg r \<and>
    (if \<forall>m. mux cfg m (rqPath r) = ERoot then handleRoot cfg r = answer 404
     else rpStatus (handleRoot cfg r) = 405 \<and> mux cfg (rpAllow (handleRoot cfg r)) (rqPath r) \<noteq> ERoot)"
proof -
  let ?p = "rqPath r"
  let ?f = "find (\<lambda>(m, pat). segments_match (split_slash pat) (split_slash ?p)) (map (\<lambda>(m, pat, e). (m, pat)) (registered cfg))"
  have root: "handleRoot cfg r = (case ?f of Some (m, pat) \<Rightarrow> (answer 405)\<lparr>rpAllow := m\<rparr> | None \<Rightarrow> answer 404)"
    using assms(2) by (simp add: handleRoot_def root_finds [OF assms(2)])
  have "(if \<forall>m. mux cfg m ?p = ERoot then handleRoot cfg r = answer 404
     else rpStatus (handleRoot cfg r) = 405 \<and> mux cfg (rpAllow (handleRoot cfg r)) ?p \<noteq> ERoot)"
  proof (cases ?f)
    case None
    then have "\<not> (\<exists>(pm, pat, e)\<in>set (registered cfg). segments_match (split_slash pat) (split_slash ?p))"
      by (auto simp: find_None_iff)
    then have "mux cfg m ?p = ERoot" for m using mux_takes [of cfg m ?p] by auto
    then show ?thesis using None root by simp
  next
    case (Some mp)
    obtain m pat where mp: "mp = (m, pat)" by (cases mp)
    have "mp \<in> set (map (\<lambda>(m, pat, e). (m, pat)) (registered cfg)) \<and> segments_match (split_slash pat) (split_slash ?p)"
      using find_mem [OF Some] mp by auto
    then obtain e where "(m, pat, e) \<in> set (registered cfg)" "segments_match (split_slash pat) (split_slash ?p)" using mp by auto
    then have "mux cfg m ?p \<noteq> ERoot" unfolding mux_takes by (intro bexI [of _ "(m, pat, e)"]) (simp_all add: method_takes_def)
    then show ?thesis using Some mp root by (auto simp: answer_def)
  qed
  then show ?thesis using assms(1) by (simp add: serve_def)
qed


theorem handler_needs_credential_witness:
  "sharedTokenPresented demo_config (demo_request ''POST'' ''/abort'' [(''Authorization'', ''Bearer shared'')])"
proof -
  have "serve demo_config quiet_handler (demo_request ''POST'' ''/abort'' [(''Authorization'', ''Bearer shared'')]) demo_body =
      (EAbort, answer 202, Some None)" by code_simp
  moreover have "svToken demo_config \<noteq> []" by code_simp
  ultimately have "sharedTokenPresented demo_config (demo_request ''POST'' ''/abort'' [(''Authorization'', ''Bearer shared'')]) \<or>
      EAbort \<in> {EResume, EMonitorAck, EParks}" using handler_needs_credential by blast
  then show ?thesis by simp
qed

theorem routes_told_truly_witness:
  "handleRoot demo_config (demo_request ''GET'' ''/pause'' []) = (answer 405)\<lparr>rpAllow := ''POST''\<rparr>
   \<and> mux demo_config ''POST'' ''/pause'' \<noteq> ERoot"
proof -
  let ?r = "demo_request ''GET'' ''/pause'' []"
  have "mux demo_config (rqMethod ?r) (rqPath ?r) = ERoot" "rqPath ?r \<noteq> ''/''" by code_simp+
  note routes_told_truly [OF this, of quiet_handler demo_body]
  moreover have eq: "handleRoot demo_config ?r = (answer 405)\<lparr>rpAllow := ''POST''\<rparr>" by code_simp
  moreover have "rqPath ?r = ''/pause''" by code_simp
  ultimately show ?thesis by (auto simp: answer_def split: if_splits)
qed

text \<open>
  A drained acknowledgement is reported as a failure of the daemon: while the daemon drains the handler says that it is
  unavailable, and the endpoint answers 500 without \<^verbatim>\<open>Retry-After\<close>.
\<close>

theorem draining_ack_answers_500:
  "fst (ack_handler True locked d en sid why rows) = Some HUnavailable \<and>
   fst (snd (serve demo_config (\<lambda>e ctx b. fst (ack_handler True True True en (bdSessionID b) [] rows))
      (demo_request ''POST'' ''/ack-effects'' [(''Authorization'', ''Bearer shared'')]) demo_body)) = answer 500"
proof -
  have "serve demo_config (\<lambda>e ctx b. Some HUnavailable) (demo_request ''POST'' ''/ack-effects'' [(''Authorization'', ''Bearer shared'')]) demo_body
      = (EAckEffects, answer 500, Some None)" by code_simp
  then show ?thesis by (simp add: ack_handler_def)
qed

text \<open>
  A wrong personal token can be recorded as the shared credential: a request that presents the shared token in one header
  and a token that is no user's in the other is let through and recorded under the shared identity.
\<close>

theorem wrong_user_token_recorded_as_shared:
  "extractToken (demo_request ''POST'' ''/resume'' [(''Authorization'', ''Bearer shared''), (''X-Attach-Token'', ''stolen'')]) = ''stolen'' \<and>
   callerContext demo_config (demo_request ''POST'' ''/resume'' [(''Authorization'', ''Bearer shared''), (''X-Attach-Token'', ''stolen'')])
     = Inr (shared_caller, [])"
  by code_simp

end
