(* ===== verification/Session_Registry.thy ===== *)
theory Session_Registry
  imports Access "HOL-Library.Product_Lexorder"
begin

text \<open>
  The sessions an attach listener serves and who may use them, \<^verbatim>\<open>src/internal/attach\<close>: the registry of live sessions
  (\<^verbatim>\<open>registry.go\<close>), the table of access lists that outlives it (\<^verbatim>\<open>session_acl_store.go\<close>), the middleware that
  resolves the caller (\<^verbatim>\<open>auth.go\<close>, \<^verbatim>\<open>caller_middleware.go\<close>, \<^verbatim>\<open>csrf.go\<close>), and the handlers that look a session up, list,
  amend, create and delete (\<^verbatim>\<open>handlers.go\<close> and its siblings).

  A session is keyed by app, user and session id. The table is a database's: each operation on it may fail, as its
  environment says, and \<^verbatim>\<open>LIKE\<close> is an argument. A resumer makes a session anew from what is stored. Where the code
  ranges over the map of sessions, the order of the list is the order it happened to take.
\<close>

section \<open>The table of access lists\<close>

type_synonym triple = "string \<times> string \<times> string"

record acl_row =
  awACL :: session_acl
  awCreated :: gotime
  awTouched :: gotime

record reg_env =
  geNow :: gotime
  gePut :: bool
  geGet :: bool
  geFind :: bool
  geDelete :: bool
  geTouch :: bool
  geList :: bool

definition no_acl :: session_acl where
  "no_acl = \<lparr>saOwner = [], saViewers = [], saContributors = []\<rparr>"

fun store_Put :: "reg_env \<Rightarrow> triple \<Rightarrow> acl_row \<Rightarrow> (triple, acl_row) gomap \<Rightarrow> (triple, acl_row) gomap option" where
  "store_Put en (app, user, sid) row st =
     (if app = [] \<or> sid = [] \<or> saOwner (awACL row) = [] \<or> \<not> gePut en then None
      else Some (AList.update (app, user, sid)
             (row\<lparr>awCreated := (if awCreated row = 0 then geNow en else awCreated row),
                  awTouched := (if awTouched row = 0 then geNow en else awTouched row)\<rparr>) st))"

text \<open>The first row of an app and a session id, whoever its user: \<open>Inl True\<close> is a failure, \<open>Inl False\<close> that there is none.\<close>

definition store_Find :: "reg_env \<Rightarrow> string \<Rightarrow> string \<Rightarrow> (triple, acl_row) gomap \<Rightarrow> bool + triple \<times> acl_row" where
  "store_Find en app sid st =
     (if app = [] \<or> sid = [] \<or> \<not> geFind en then Inl True
      else case find (\<lambda>((a, u, s), row). a = app \<and> s = sid) st of None \<Rightarrow> Inl False | Some r \<Rightarrow> Inr r)"

definition store_Touch :: "reg_env \<Rightarrow> triple \<Rightarrow> gotime \<Rightarrow> (triple, acl_row) gomap \<Rightarrow> (triple, acl_row) gomap" where
  "store_Touch en k t st =
     (case map_of st k of
        Some row \<Rightarrow> if geTouch en then AList.update k (row\<lparr>awTouched := (if t = 0 then geNow en else t)\<rparr>) st else st
      | None \<Rightarrow> st)"

definition ListByOwner :: "string \<Rightarrow> (triple, acl_row) gomap \<Rightarrow> (triple \<times> acl_row) list" where
  "ListByOwner owner st = filter (\<lambda>(k, row). saOwner (awACL row) = owner) st"

text \<open>\<^verbatim>\<open>json.Marshal\<close> of a slice of texts, for texts of bytes below 128 (others are copied when they are valid UTF-8).\<close>

definition hex_digit :: "nat \<Rightarrow> char" where
  "hex_digit n = (''0123456789abcdef'' ! (n mod 16))"

definition json_char :: "char \<Rightarrow> string" where
  "json_char c =
     (let n = of_char c :: nat
      in if c = CHR 0x22 then [CHR 0x5C, CHR 0x22]
         else if c = CHR 0x5C then [CHR 0x5C, CHR 0x5C]
         else if n = 8 then [CHR 0x5C, CHR ''b''] else if n = 12 then [CHR 0x5C, CHR ''f'']
         else if n = 10 then [CHR 0x5C, CHR ''n''] else if n = 13 then [CHR 0x5C, CHR ''r'']
         else if n = 9 then [CHR 0x5C, CHR ''t'']
         else if n < 32 \<or> c \<in> {CHR ''<'', CHR ''>'', CHR ''&''}
         then [CHR 0x5C] @ ''u00'' @ [hex_digit (n div 16), hex_digit n]
         else [c])"

definition json_string :: "string \<Rightarrow> string" where
  "json_string s = [CHR 0x22] @ concat (map json_char s) @ [CHR 0x22]"

definition encodeStringSlice :: "string list \<Rightarrow> string" where
  "encodeStringSlice xs = (if xs = [] then [] else ''['' @ Join (map json_string xs) '','' @ '']'')"

definition escapeJSONString :: "string \<Rightarrow> string" where
  "escapeJSONString s = concat (map (\<lambda>c. if c = CHR 0x22 \<or> c = CHR 0x5C then [CHR 0x5C, c] else [c]) s)"

definition ListVisibleTo ::
  "(string \<Rightarrow> string \<Rightarrow> bool) \<Rightarrow> caller \<Rightarrow> (triple, acl_row) gomap \<Rightarrow> (triple \<times> acl_row) list" where
  "ListVisibleTo like c st =
     (if crIdentity c = [] \<and> \<not> crAdmin c then []
      else if crAdmin c then st
      else
        (let pat = ''%'' @ [CHR 0x22] @ escapeJSONString (crIdentity c) @ [CHR 0x22] @ ''%'';
             rows = filter (\<lambda>(k, row). saOwner (awACL row) = crIdentity c \<or> like pat (encodeStringSlice (saViewers (awACL row))) \<or>
                      like pat (encodeStringSlice (saContributors (awACL row)))) st
         in filter (\<lambda>(k, row). Authorize c ActionSessionRead (awACL row)) rows))"

section \<open>The registry\<close>

record entry =
  etACL :: session_acl
  etTouched :: gotime
  etSeq :: nat

record registry =
  rgEntries :: "(triple, entry) gomap"
  rgSeq :: nat
  rgStore :: "(triple, acl_row) gomap option"

datatype reg_error = RegArgs | RegExists | RegNotFound string string | RegAmbiguous string | RegOwner | RegStore | RegResume

definition new_entry :: "reg_env \<Rightarrow> triple \<Rightarrow> session_acl \<Rightarrow> registry \<Rightarrow> registry" where
  "new_entry en k acl rg =
     rg\<lparr>rgSeq := rgSeq rg + 1,
        rgEntries := AList.update k \<lparr>etACL = acl, etTouched = geNow en, etSeq = rgSeq rg + 1\<rparr> (rgEntries rg)\<rparr>"

fun registerWithACL :: "reg_env \<Rightarrow> triple \<Rightarrow> session_acl \<Rightarrow> registry \<Rightarrow> reg_error option \<times> registry" where
  "registerWithACL en (app, user, sid) acl rg =
     (if app = [] \<or> sid = [] then (Some RegArgs, rg)
      else if map_of (rgEntries rg) (app, user, sid) \<noteq> None then (Some RegExists, rg)
      else
        (let rg1 = new_entry en (app, user, sid) acl rg
         in case rgStore rg of
              None \<Rightarrow> (None, rg1)
            | Some st \<Rightarrow>
                if saOwner acl = [] then (None, rg1)
                else (case store_Put en (app, user, sid) \<lparr>awACL = acl, awCreated = 0, awTouched = 0\<rparr> st of
                        None \<Rightarrow> (Some RegStore, rg1\<lparr>rgEntries := AList.delete (app, user, sid) (rgEntries rg1)\<rparr>)
                      | Some st' \<Rightarrow> (None, rg1\<lparr>rgStore := Some st'\<rparr>))))"

definition RegisterOwned :: "reg_env \<Rightarrow> triple \<Rightarrow> string \<Rightarrow> registry \<Rightarrow> reg_error option \<times> registry" where
  "RegisterOwned en k owner rg =
     (if owner = [] then (Some RegOwner, rg)
      else registerWithACL en k \<lparr>saOwner = owner, saViewers = [], saContributors = []\<rparr> rg)"

definition Unregister :: "triple \<Rightarrow> registry \<Rightarrow> registry" where
  "Unregister k rg = rg\<lparr>rgEntries := AList.delete k (rgEntries rg)\<rparr>"

definition HardDelete :: "reg_env \<Rightarrow> triple \<Rightarrow> registry \<Rightarrow> reg_error option \<times> registry" where
  "HardDelete en k rg =
     (let rg1 = Unregister k rg
      in case rgStore rg of
           None \<Rightarrow> (None, rg1)
         | Some st \<Rightarrow> if geDelete en then (None, rg1\<lparr>rgStore := Some (AList.delete k st)\<rparr>) else (Some RegStore, rg1))"

text \<open>An amendment writes the row and then changes the live entry it has found. \<open>Inr (persisted, entry)\<close> is what the first
  half leaves to the second.\<close>

definition setacl_write :: "reg_env \<Rightarrow> triple \<Rightarrow> session_acl \<Rightarrow> registry \<Rightarrow> (reg_error + bool \<times> nat) \<times> registry" where
  "setacl_write en k acl rg =
     (case map_of (rgEntries rg) k of
        None \<Rightarrow> (Inl (RegNotFound (fst k) (snd (snd k))), rg)
      | Some e \<Rightarrow>
          if saOwner acl = [] \<and> saOwner (etACL e) \<noteq> [] then (Inl RegOwner, rg)
          else case rgStore rg of
                 None \<Rightarrow> (Inr (False, etSeq e), rg)
               | Some st \<Rightarrow>
                   if saOwner acl = [] then (Inr (False, etSeq e), rg)
                   else if \<not> geGet en then (Inl RegStore, rg)
                   else
                     (let row = (case map_of st k of
                                   Some prior \<Rightarrow> \<lparr>awACL = acl, awCreated = awCreated prior, awTouched = awTouched prior\<rparr>
                                 | None \<Rightarrow> \<lparr>awACL = acl, awCreated = 0, awTouched = 0\<rparr>)
                      in case store_Put en k row st of
                           None \<Rightarrow> (Inl RegStore, rg)
                         | Some st' \<Rightarrow> (Inr (True, etSeq e), rg\<lparr>rgStore := Some st'\<rparr>)))"

definition setacl_apply :: "triple \<Rightarrow> session_acl \<Rightarrow> nat \<Rightarrow> registry \<Rightarrow> registry" where
  "setacl_apply k acl n rg =
     (case map_of (rgEntries rg) k of
        Some e \<Rightarrow> if etSeq e = n then rg\<lparr>rgEntries := AList.update k (e\<lparr>etACL := acl\<rparr>) (rgEntries rg)\<rparr> else rg
      | None \<Rightarrow> rg)"

definition SetACL :: "reg_env \<Rightarrow> triple \<Rightarrow> session_acl \<Rightarrow> registry \<Rightarrow> (reg_error + bool) \<times> registry" where
  "SetACL en k acl rg =
     (case setacl_write en k acl rg of
        (Inl e, rg') \<Rightarrow> (Inl e, rg')
      | (Inr (persisted, n), rg') \<Rightarrow> (Inr persisted, setacl_apply k acl n rg'))"

definition touch_entry :: "reg_env \<Rightarrow> triple \<Rightarrow> registry \<Rightarrow> registry" where
  "touch_entry en k rg =
     (case map_of (rgEntries rg) k of
        None \<Rightarrow> rg
      | Some e \<Rightarrow> rg\<lparr>rgEntries := AList.update k (e\<lparr>etTouched := geNow en\<rparr>) (rgEntries rg)\<rparr>)"

definition live_at :: "string \<Rightarrow> string \<Rightarrow> registry \<Rightarrow> triple option" where
  "live_at app sid rg = map_option fst (find (\<lambda>((a, u, s), e). a = app \<and> s = sid) (rgEntries rg))"

datatype resume_answer = ResumeOK triple session_acl | ResumeMissing | ResumeFailed

definition registerResumed :: "reg_env \<Rightarrow> triple \<Rightarrow> session_acl \<Rightarrow> registry \<Rightarrow> (reg_error + triple) \<times> registry" where
  "registerResumed en k acl rg =
     (if fst k = [] \<or> snd (snd k) = [] then (Inl RegArgs, rg)
      else if map_of (rgEntries rg) k \<noteq> None then (Inr k, rg)
      else
        (let rg1 = new_entry en k acl rg
         in (Inr k,
             case rgStore rg1 of
               None \<Rightarrow> rg1
             | Some st \<Rightarrow> if saOwner acl = [] then rg1 else rg1\<lparr>rgStore := Some (store_Touch en k (geNow en) st)\<rparr>)))"

text \<open>Resuming a session: the answer, whether the resumer was asked, and the registry. The gate is the caller whose right to
  read is checked against the stored row, if access lists are enforced.\<close>

definition resumeAndRegister ::
  "reg_env \<Rightarrow> (string \<Rightarrow> string \<Rightarrow> resume_answer) \<Rightarrow> caller option \<Rightarrow> string \<Rightarrow> string \<Rightarrow> registry
   \<Rightarrow> (reg_error + triple) \<times> bool \<times> registry" where
  "resumeAndRegister en resume gate app sid rg =
     (let go = (\<lambda>persisted.
                 case live_at app sid rg of
                   Some k \<Rightarrow> (Inr k, False, rg)
                 | None \<Rightarrow>
                     (case resume app sid of
                        ResumeMissing \<Rightarrow> (Inl (RegNotFound app sid), True, rg)
                      | ResumeFailed \<Rightarrow> (Inl RegResume, True, rg)
                      | ResumeOK k acl \<Rightarrow>
                          (let (res, rg') = registerResumed en k (case persisted of None \<Rightarrow> acl | Some a \<Rightarrow> a) rg in (res, True, rg'))))
      in case rgStore rg of
           None \<Rightarrow> go None
         | Some st \<Rightarrow>
             (case store_Find en app sid st of
                Inr (k, row) \<Rightarrow>
                  (case gate of
                     Some c \<Rightarrow> if Authorize c ActionSessionRead (awACL row) then go (Some (awACL row))
                               else (Inl (RegNotFound (fst k) (snd (snd k))), False, rg)
                   | None \<Rightarrow> go (Some (awACL row)))
              | Inl failed \<Rightarrow>
                  if gate \<noteq> None then (Inl (if failed then RegStore else RegNotFound app sid), False, rg) else go None))"

definition lookupGated ::
  "reg_env \<Rightarrow> (string \<Rightarrow> string \<Rightarrow> resume_answer) option \<Rightarrow> caller option \<Rightarrow> string \<Rightarrow> string \<Rightarrow> registry
   \<Rightarrow> (reg_error + triple) \<times> bool \<times> registry" where
  "lookupGated en resumer gate app sid rg =
     (if app = [] \<or> sid = [] then (Inl RegArgs, False, rg)
      else case live_at app sid rg of
             Some k \<Rightarrow> (Inr k, False, touch_entry en k rg)
           | None \<Rightarrow>
               (case resumer of
                  None \<Rightarrow> (Inl (RegNotFound app sid), False, rg)
                | Some resume \<Rightarrow> resumeAndRegister en resume gate app sid rg))"

definition resumerDefaultApp :: string where "resumerDefaultApp = ''mast''"

definition lookupSingleGated ::
  "reg_env \<Rightarrow> (string \<Rightarrow> string \<Rightarrow> resume_answer) option \<Rightarrow> caller option \<Rightarrow> string \<Rightarrow> registry
   \<Rightarrow> (reg_error + triple) \<times> bool \<times> registry" where
  "lookupSingleGated en resumer gate sid rg =
     (if sid = [] then (Inl RegArgs, False, rg)
      else case filter (\<lambda>((a, u, s), e). s = sid) (rgEntries rg) of
             (k, e) # _ # _ \<Rightarrow> (Inl (RegAmbiguous sid), False, rg)
           | [(k, e)] \<Rightarrow> (Inr k, False, touch_entry en k rg)
           | [] \<Rightarrow>
               (case resumer of
                  None \<Rightarrow> (Inl (RegNotFound [] sid), False, rg)
                | Some resume \<Rightarrow> resumeAndRegister en resume gate resumerDefaultApp sid rg))"

definition EvictBefore :: "reg_env \<Rightarrow> gotime \<Rightarrow> registry \<Rightarrow> nat \<times> registry" where
  "EvictBefore en cutoff rg =
     (let idle = filter (\<lambda>(k, e). etTouched e < cutoff) (rgEntries rg)
      in (length idle,
          rg\<lparr>rgEntries := filter (\<lambda>(k, e). \<not> etTouched e < cutoff) (rgEntries rg),
             rgStore := map_option (\<lambda>st. foldl (\<lambda>st (k, e). store_Touch en k (etTouched e) st) st idle) (rgStore rg)\<rparr>))"

definition ListAuthorized :: "caller \<Rightarrow> registry \<Rightarrow> (triple \<times> entry) list" where
  "ListAuthorized c rg = filter (\<lambda>(k, e). Authorize c ActionSessionRead (etACL e)) (sort_key fst (rgEntries rg))"

section \<open>Requests\<close>

datatype attach_reply = Reply nat string | Found triple

definition lookup_error :: "reg_error \<Rightarrow> attach_reply" where
  "lookup_error e =
     (case e of
        RegNotFound app sid \<Rightarrow> Reply 404 (''attach: session not found: '' @ (if app = [] then sid else app @ ''/'' @ sid))
      | RegAmbiguous sid \<Rightarrow> Reply 409 (''attach: session id is ambiguous across registered apps; use the /sessions/<app>/<sessionID> form: '' @ sid)
      | _ \<Rightarrow> Reply 400 [])"

definition authorize_entry :: "bool \<Rightarrow> caller \<Rightarrow> action \<Rightarrow> triple \<Rightarrow> registry \<Rightarrow> attach_reply" where
  "authorize_entry enforce c a k rg =
     (if \<not> enforce then Found k
      else case map_of (rgEntries rg) k of
             Some e \<Rightarrow> if Authorize c a (etACL e) then Found k else Reply 404 ''session not found''
           | None \<Rightarrow> Reply 404 ''session not found'')"

definition gate_for :: "bool \<Rightarrow> caller \<Rightarrow> caller option" where
  "gate_for enforce c = (if enforce then Some c else None)"

definition lookupQualifiedAuth ::
  "reg_env \<Rightarrow> (string \<Rightarrow> string \<Rightarrow> resume_answer) option \<Rightarrow> bool \<Rightarrow> caller \<Rightarrow> action \<Rightarrow> string \<Rightarrow> string \<Rightarrow> registry
   \<Rightarrow> attach_reply \<times> bool \<times> registry" where
  "lookupQualifiedAuth en resumer enforce c a app sid rg =
     (case lookupGated en resumer (gate_for enforce c) app sid rg of
        (Inl e, asked, rg') \<Rightarrow> (lookup_error e, asked, rg')
      | (Inr k, asked, rg') \<Rightarrow> (authorize_entry enforce c a k rg', asked, rg'))"

definition lookupShortcutAuth ::
  "reg_env \<Rightarrow> (string \<Rightarrow> string \<Rightarrow> resume_answer) option \<Rightarrow> bool \<Rightarrow> caller \<Rightarrow> action \<Rightarrow> string \<Rightarrow> registry
   \<Rightarrow> attach_reply \<times> bool \<times> registry" where
  "lookupShortcutAuth en resumer enforce c a sid rg =
     (case lookupSingleGated en resumer (gate_for enforce c) sid rg of
        (Inl e, asked, rg') \<Rightarrow> (lookup_error e, asked, rg')
      | (Inr k, asked, rg') \<Rightarrow> (authorize_entry enforce c a k rg', asked, rg'))"

datatype session_status = StatusActive | StatusIdle

fun add_idle :: "(string \<times> string) list \<Rightarrow> (triple \<times> acl_row) list \<Rightarrow> (triple \<times> session_status) list" where
  "add_idle seen [] = []"
| "add_idle seen (((a, u, s), row) # rows) =
     (if (a, s) \<in> set seen then add_idle seen rows else ((a, u, s), StatusIdle) # add_idle seen rows)"

definition listSessions :: "reg_env \<Rightarrow> (string \<Rightarrow> string \<Rightarrow> bool) \<Rightarrow> bool \<Rightarrow> caller \<Rightarrow> registry \<Rightarrow> (triple \<times> session_status) list" where
  "listSessions en like enforce c rg =
     (let mem = (if enforce then ListAuthorized c rg else sort_key fst (rgEntries rg));
          live = map (\<lambda>(k, e). (k, StatusActive)) mem
      in live @ (case rgStore rg of
                   None \<Rightarrow> []
                 | Some st \<Rightarrow>
                     if \<not> enforce \<or> \<not> geList en then []
                     else add_idle (map (\<lambda>((a, u, s), e). (a, s)) mem) (ListVisibleTo like c st)))"

text \<open>Amending an access list. \<open>None\<close> is an empty identity in a list.\<close>

fun normalizeIdentities :: "string list \<Rightarrow> string list \<Rightarrow> string list option" where
  "normalizeIdentities seen [] = Some []"
| "normalizeIdentities seen (raw # raws) =
     (let i = TrimSpace raw
      in if i = [] then None
         else if i \<in> set seen then normalizeIdentities seen raws
         else map_option (Cons i) (normalizeIdentities (i # seen) raws))"

record acl_request =
  aqOwner :: "string option"
  aqViewers :: "string list"
  aqContributors :: "string list"

definition doSetSessionACL ::
  "reg_env \<Rightarrow> bool \<Rightarrow> caller \<Rightarrow> triple \<Rightarrow> acl_request option \<Rightarrow> registry \<Rightarrow> nat \<times> registry" where
  "doSetSessionACL en enforce c k reqo rg =
     (if \<not> enforce then (501, rg)
      else case reqo of
             None \<Rightarrow> (400, rg)
           | Some req \<Rightarrow>
               (let cur = (case map_of (rgEntries rg) k of None \<Rightarrow> no_acl | Some e \<Rightarrow> etACL e);
                    owner = (case aqOwner req of None \<Rightarrow> saOwner cur | Some ow \<Rightarrow> ow)
                in if owner \<noteq> saOwner cur \<and> \<not> crAdmin c then (403, rg)
                   else if owner \<noteq> saOwner cur \<and> owner = [] then (400, rg)
                   else case (normalizeIdentities [] (aqViewers req), normalizeIdentities [] (aqContributors req)) of
                          (Some vs, Some cs) \<Rightarrow>
                            (case SetACL en k \<lparr>saOwner = owner, saViewers = vs, saContributors = cs\<rparr> rg of
                               (Inl (RegNotFound _ _), rg') \<Rightarrow> (404, rg')
                             | (Inl e, rg') \<Rightarrow> (500, rg')
                             | (Inr persisted, rg') \<Rightarrow> (200, rg'))
                        | _ \<Rightarrow> (400, rg)))"

text \<open>\<open>made\<close> is what the factory returned: nothing if there is none, an error, or the key of the new session.\<close>

definition createSession :: "reg_env \<Rightarrow> (bool + triple) option \<Rightarrow> caller \<Rightarrow> registry \<Rightarrow> nat \<times> registry" where
  "createSession en made c rg =
     (case made of
        None \<Rightarrow> (501, rg)
      | Some m \<Rightarrow>
          if crIdentity c = [] then (401, rg)
          else case m of
                 Inl _ \<Rightarrow> (500, rg)
               | Inr k \<Rightarrow>
                   (case RegisterOwned en k (crIdentity c) rg of
                      (None, rg') \<Rightarrow> (201, rg')
                    | (Some RegExists, rg') \<Rightarrow> (409, rg')
                    | (Some e, rg') \<Rightarrow> (500, rg')))"

definition defaultBootstrapSessionID :: string where "defaultBootstrapSessionID = ''default''"

definition doDeleteSession :: "reg_env \<Rightarrow> triple \<Rightarrow> registry \<Rightarrow> nat \<times> registry" where
  "doDeleteSession en k rg =
     (if snd (snd k) = defaultBootstrapSessionID then (403, rg)
      else case HardDelete en k rg of (None, rg') \<Rightarrow> (204, rg') | (Some e, rg') \<Rightarrow> (500, rg'))"

section \<open>The way in\<close>

record listener =
  lsToken :: string
  lsReadOnly :: bool
  lsAuth :: "authenticator option"
  lsFallback :: caller
  lsMultiSession :: bool
  lsAllowAnonymous :: bool
  lsProxyHeader :: string

text \<open>What \<^verbatim>\<open>url.Parse\<close> and \<^verbatim>\<open>net.ParseIP\<close> make of an origin, and \<^verbatim>\<open>mime.ParseMediaType\<close> of a content type.\<close>

record origin =
  ogHost :: string
  ogHostname :: string
  ogLoopbackIP :: bool

record attach_request = request +
  rqHost :: string
  rqOrigin :: "origin option option"
  rqMediaType :: "string option"

definition isWriteMethod :: "string \<Rightarrow> bool" where
  "isWriteMethod m \<longleftrightarrow> m \<notin> {''GET'', ''HEAD'', ''OPTIONS''}"

definition checkAttachToken :: "string \<Rightarrow> attach_request \<Rightarrow> bool" where
  "checkAttachToken want r =
     (if rqHeader r HeaderAttachToken \<noteq> [] then rqHeader r HeaderAttachToken = want
      else extractBearer (rqHeader r HeaderAuthorization) \<noteq> [] \<and> extractBearer (rqHeader r HeaderAuthorization) = want)"

definition originAllowed :: "origin option \<Rightarrow> string \<Rightarrow> bool" where
  "originAllowed parsed host =
     (case parsed of
        None \<Rightarrow> False
      | Some u \<Rightarrow> ToLower (ogHostname u) = ''localhost'' \<or> ogLoopbackIP u \<or> ToLower (ogHost u) = ToLower host)"

definition browserWriteGuard :: "attach_request \<Rightarrow> nat option" where
  "browserWriteGuard r =
     (if \<not> isWriteMethod (rqMethod r) then None
      else if (case rqOrigin r of None \<Rightarrow> False | Some parsed \<Rightarrow> \<not> originAllowed parsed (rqHost r)) then Some 403
      else if rqMediaType r \<noteq> Some ''application/json'' then Some 415
      else None)"

definition resolveProxyAssertion :: "authenticator \<Rightarrow> caller \<Rightarrow> string \<Rightarrow> auth_error + caller \<times> string" where
  "resolveProxyAssertion a requester asserted =
     (case a of
        AnonymousAuth d \<Rightarrow> Inl ErrAssertedCallerForbidden
      | BearerTokenAuth b \<Rightarrow>
          if \<not> CanProxyAs b requester then Inl ErrAssertedCallerForbidden
          else case LookupIdentity b asserted of
                 None \<Rightarrow> Inl ErrAssertedCallerUnknown
               | Some c \<Rightarrow> Inr (c, crIdentity requester))"

definition callerMiddleware :: "listener \<Rightarrow> attach_request \<Rightarrow> auth_error + caller \<times> string" where
  "callerMiddleware ls r =
     (let a = (case lsAuth ls of None \<Rightarrow> AnonymousAuth (lsFallback ls) | Some a \<Rightarrow> a);
          header = (if lsProxyHeader ls = [] then HeaderAssertedCaller else lsProxyHeader ls);
          requester = (case Authenticate a (request.truncate r) of
                         Inr c \<Rightarrow> Inr c
                       | Inl e \<Rightarrow>
                           if lsMultiSession ls \<and> \<not> lsAllowAnonymous ls then Inl e
                           else Inr (if crIdentity (lsFallback ls) = [] then Anonymous else lsFallback ls))
      in case requester of
           Inl e \<Rightarrow> Inl e
         | Inr c \<Rightarrow> if rqHeader r header = [] then Inr (c, []) else resolveProxyAssertion a c (rqHeader r header))"

text \<open>A request on its way to the handlers: the status that turned it away, or the caller it is from.\<close>

definition way_in :: "listener \<Rightarrow> attach_request \<Rightarrow> nat + caller \<times> string" where
  "way_in ls r =
     (if lsToken ls \<noteq> [] \<and> \<not> checkAttachToken (lsToken ls) r then Inl 401
      else if lsReadOnly ls \<and> isWriteMethod (rqMethod r) then Inl 403
      else case callerMiddleware ls r of
             Inl e \<Rightarrow> Inl 401
           | Inr ctx \<Rightarrow> (case browserWriteGuard r of Some n \<Rightarrow> Inl n | None \<Rightarrow> Inr ctx))"


section \<open>What is claimed\<close>

text \<open>The caller of a request without a user's token on a listener that lets such requests in.\<close>

definition default_caller :: "listener \<Rightarrow> caller" where
  "default_caller ls = (if crIdentity (lsFallback ls) = [] then Anonymous else lsFallback ls)"

text \<open>Who sends a request: the user whose token it carries, or the default caller where it carries no user's token and the
  listener allows that. And for whom it speaks: the sender, or the provisioned user an allow-listed sender asserts.\<close>

definition sent_by :: "listener \<Rightarrow> user list \<Rightarrow> string list \<Rightarrow> attach_request \<Rightarrow> caller \<Rightarrow> bool" where
  "sent_by ls us admins r c \<longleftrightarrow>
     (\<exists>u\<in>set us. carries (request.truncate r) u \<and> c = caller_of admins u) \<or>
     lsAllowAnonymous ls \<and> \<not> (\<exists>u\<in>set us. carries (request.truncate r) u) \<and> c = default_caller ls"

definition speaks_for :: "listener \<Rightarrow> user list \<Rightarrow> string list \<Rightarrow> string list \<Rightarrow> attach_request \<Rightarrow> caller \<Rightarrow> caller \<Rightarrow> bool" where
  "speaks_for ls us admins proxies r sender c \<longleftrightarrow>
     (let asserted = rqHeader r (if lsProxyHeader ls = [] then HeaderAssertedCaller else lsProxyHeader ls)
      in asserted = [] \<and> c = sender \<or>
         crIdentity sender \<in> set proxies \<and> (\<exists>u\<in>set us. asserted = usIdentity u \<and> c = caller_of admins u))"

text \<open>Everybody who may do something with a session of these rows and entries, by its app and id.\<close>

definition acls_of :: "string \<Rightarrow> string \<Rightarrow> registry \<Rightarrow> session_acl set" where
  "acls_of app sid rg =
     {etACL e | u e. ((app, u, sid), e) \<in> set (rgEntries rg)} \<union>
     (case rgStore rg of None \<Rightarrow> {} | Some st \<Rightarrow> {awACL row | u row. ((app, u, sid), row) \<in> set st})"

text \<open>The registry up to the times of last use.\<close>

definition same_but_touch :: "registry \<Rightarrow> registry \<Rightarrow> bool" where
  "same_but_touch rg rg' \<longleftrightarrow> rgStore rg' = rgStore rg \<and> rgSeq rg' = rgSeq rg \<and>
     map fst (rgEntries rg') = map fst (rgEntries rg) \<and>
     map (\<lambda>(k, e). (etACL e, etSeq e)) (rgEntries rg') = map (\<lambda>(k, e). (etACL e, etSeq e)) (rgEntries rg)"

definition plain_identity :: "string \<Rightarrow> bool" where
  "plain_identity s \<longleftrightarrow> list_all (\<lambda>c. 32 \<le> (of_char c :: nat) \<and> c \<notin> {CHR ''<'', CHR ''>'', CHR ''&''}) s"

text \<open>Whole operations, one after another; how they interleave is below.\<close>

datatype reg_op =
    OpRegister reg_env triple session_acl
  | OpUnregister triple
  | OpHardDelete reg_env triple
  | OpSetACL reg_env triple session_acl
  | OpLookup reg_env "(string \<Rightarrow> string \<Rightarrow> resume_answer) option" caller action string string
  | OpEvict reg_env gotime
  | OpRestart

fun reg_step :: "registry \<Rightarrow> reg_op \<Rightarrow> registry" where
  "reg_step rg (OpRegister en k acl) = snd (registerWithACL en k acl rg)"
| "reg_step rg (OpUnregister k) = Unregister k rg"
| "reg_step rg (OpHardDelete en k) = snd (HardDelete en k rg)"
| "reg_step rg (OpSetACL en k acl) = snd (SetACL en k acl rg)"
| "reg_step rg (OpLookup en resumer c a app sid) = snd (snd (lookupQualifiedAuth en resumer True c a app sid rg))"
| "reg_step rg (OpEvict en cutoff) = snd (EvictBefore en cutoff rg)"
| "reg_step rg OpRestart = rg\<lparr>rgEntries := [], rgSeq := 0\<rparr>"

text \<open>The sessions of a process are all under one user, and a resumer gives back the session it was asked for.\<close>

definition resumer_ok :: "string \<Rightarrow> (string \<Rightarrow> string \<Rightarrow> resume_answer) option \<Rightarrow> bool" where
  "resumer_ok u resumer \<longleftrightarrow> (\<forall>resume app sid k acl. resumer = Some resume \<longrightarrow> resume app sid = ResumeOK k acl \<longrightarrow> k = (app, u, sid))"

fun reg_op_ok :: "string \<Rightarrow> reg_op \<Rightarrow> bool" where
  "reg_op_ok u (OpRegister en k acl) \<longleftrightarrow> fst (snd k) = u"
| "reg_op_ok u (OpUnregister k) \<longleftrightarrow> True"
| "reg_op_ok u (OpHardDelete en k) \<longleftrightarrow> True"
| "reg_op_ok u (OpSetACL en k acl) \<longleftrightarrow> fst (snd k) = u"
| "reg_op_ok u (OpLookup en resumer c a app sid) \<longleftrightarrow> resumer_ok u resumer"
| "reg_op_ok u (OpEvict en cutoff) \<longleftrightarrow> True"
| "reg_op_ok u OpRestart \<longleftrightarrow> True"

definition reg_start :: registry where
  "reg_start = \<lparr>rgEntries = [], rgSeq = 0, rgStore = Some []\<rparr>"

definition reg_run :: "reg_op list \<Rightarrow> registry" where
  "reg_run ops = foldl reg_step reg_start ops"

definition stored_acl :: "registry \<Rightarrow> triple \<Rightarrow> session_acl option" where
  "stored_acl rg k = (case rgStore rg of None \<Rightarrow> None | Some st \<Rightarrow> map_option awACL (map_of st k))"

text \<open>
  The statements operations are made of, each a critical section of the registry or a statement on the table. Operations of
  different requests interleave by these: an amendment is a write of its row and, later, a change of the entry it had found;
  a deletion takes the entry away and then the row; an eviction takes the idle entries and then touches their rows; a
  resumption reads the row and enters a session later, under the list it read. Registration holds the lock throughout.
\<close>

datatype reg_stmt =
    PutRow reg_env triple acl_row
  | DropRow reg_env triple
  | TouchRow reg_env triple gotime
  | EnterLive reg_env triple session_acl
  | ApplyACL triple session_acl nat
  | TouchLive reg_env triple
  | LeaveLive triple
  | LeaveIdle gotime
  | Restart

definition on_store :: "((triple, acl_row) gomap \<Rightarrow> (triple, acl_row) gomap) \<Rightarrow> registry \<Rightarrow> registry" where
  "on_store f rg = rg\<lparr>rgStore := map_option f (rgStore rg)\<rparr>"

fun stmt_step :: "registry \<Rightarrow> reg_stmt \<Rightarrow> registry" where
  "stmt_step rg (PutRow en k row) = on_store (\<lambda>st. case store_Put en k row st of None \<Rightarrow> st | Some st' \<Rightarrow> st') rg"
| "stmt_step rg (DropRow en k) = on_store (\<lambda>st. if geDelete en then AList.delete k st else st) rg"
| "stmt_step rg (TouchRow en k t) = on_store (store_Touch en k t) rg"
| "stmt_step rg (EnterLive en k acl) = new_entry en k acl rg"
| "stmt_step rg (ApplyACL k acl n) = setacl_apply k acl n rg"
| "stmt_step rg (TouchLive en k) = touch_entry en k rg"
| "stmt_step rg (LeaveLive k) = Unregister k rg"
| "stmt_step rg (LeaveIdle cutoff) = rg\<lparr>rgEntries := filter (\<lambda>(k, e). \<not> etTouched e < cutoff) (rgEntries rg)\<rparr>"
| "stmt_step rg Restart = rg\<lparr>rgEntries := [], rgSeq := 0\<rparr>"


fun stmt_ok :: "string \<Rightarrow> reg_stmt \<Rightarrow> bool" where
  "stmt_ok u (PutRow en k row) \<longleftrightarrow> fst (snd k) = u"
| "stmt_ok u _ \<longleftrightarrow> True"


definition under_user :: "string \<Rightarrow> triple set" where
  "under_user u = {k. fst (snd k) = u}"

text \<open>One binding for each key, and every key under the one user.\<close>

definition keys_ok :: "string \<Rightarrow> (triple, 'v) gomap \<Rightarrow> bool" where
  "keys_ok u m \<longleftrightarrow> distinct (map fst m) \<and> fst ` set m \<subseteq> under_user u"

definition acl_table :: "(triple, acl_row) gomap \<Rightarrow> triple \<Rightarrow> session_acl option" where
  "acl_table st k = map_option awACL (map_of st k)"

text \<open>The live entries of owned sessions have the access lists of the table.\<close>

definition agree :: "(triple, acl_row) gomap \<Rightarrow> (triple, entry) gomap \<Rightarrow> bool" where
  "agree st es \<longleftrightarrow> (\<forall>k e. map_of es k = Some e \<longrightarrow> saOwner (etACL e) \<noteq> [] \<longrightarrow> acl_table st k = Some (etACL e))"

definition reg_inv :: "string \<Rightarrow> registry \<Rightarrow> bool" where
  "reg_inv u rg \<longleftrightarrow> (\<exists>st. rgStore rg = Some st \<and> keys_ok u st \<and> keys_ok u (rgEntries rg) \<and> agree st (rgEntries rg))"

text \<open>The environment and sessions of the runs below.\<close>

definition env_at :: "gotime \<Rightarrow> reg_env" where
  "env_at t = \<lparr>geNow = t, gePut = True, geGet = True, geFind = True, geDelete = True, geTouch = True, geList = True\<rparr>"

definition alice_acl :: session_acl where
  "alice_acl = \<lparr>saOwner = ''alice'', saViewers = [''carol''], saContributors = []\<rparr>"

definition plain_user :: "string \<Rightarrow> caller" where
  "plain_user i = \<lparr>crIdentity = i, crLabels = [], crAdmin = False\<rparr>"

definition demo_resume :: "string \<Rightarrow> string \<Rightarrow> resume_answer" where
  "demo_resume app sid = ResumeOK (app, ''u'', sid) no_acl"

definition demo_users :: "user list" where
  "demo_users = [\<lparr>usIdentity = ''alice'', usToken = ''t1'', usLabels = []\<rparr>, \<lparr>usIdentity = ''proxy'', usToken = ''t2'', usLabels = []\<rparr>]"

definition demo_listener :: "string \<Rightarrow> listener" where
  "demo_listener tok = \<lparr>lsToken = tok, lsReadOnly = False, lsAuth = Some (BearerTokenAuth (NewBearerTokenAuth demo_users [] [''proxy''])),
     lsFallback = Anonymous, lsMultiSession = True, lsAllowAnonymous = False, lsProxyHeader = []\<rparr>"

definition demo_request :: "string \<Rightarrow> string \<Rightarrow> attach_request" where
  "demo_request tok asserted =
     \<lparr>rqMethod = ''GET'', rqPath = [],
      rqHeader = (\<lambda>h. if h = HeaderAttachToken then tok else if h = HeaderAssertedCaller then asserted else []),
      rqHost = [], rqOrigin = None, rqMediaType = None\<rparr>"

definition demo_registry :: registry where
  "demo_registry = reg_run [OpRegister (env_at 5) (''mast'', ''u'', ''s'') alice_acl]"

section \<open>Lemmas and properties\<close>

lemma live_at_Some:
  "live_at app sid rg = Some k \<Longrightarrow> \<exists>u e. k = (app, u, sid) \<and> (k, e) \<in> set (rgEntries rg)"
  unfolding live_at_def by (auto dest!: find_mem)

lemma live_at_None: "live_at app sid rg = None \<longleftrightarrow> (\<forall>u e. ((app, u, sid), e) \<notin> set (rgEntries rg))"
  unfolding live_at_def by (auto simp: find_None_iff)

lemma store_Find_Inr: "store_Find en app sid st = Inr (k, row) \<Longrightarrow> \<exists>u. k = (app, u, sid) \<and> (k, row) \<in> set st"
  unfolding store_Find_def by (auto dest!: find_mem split: if_splits option.splits)

lemma read_is_least: "Authorize c a acl \<Longrightarrow> a \<noteq> ActionSessionList \<Longrightarrow> Authorize c ActionSessionRead acl"
  by (cases a) (auto simp: Authorize_def split: if_splits)

lemma map_update_same:
  "map_of es k = Some e \<Longrightarrow> f e' = f e \<Longrightarrow> map (\<lambda>(k, e). f e) (AList.update k e' es) = map (\<lambda>(k, e). f e) es"
  by (induction es) (auto split: if_splits)

lemma map_fst_update_same: "map_of es k = Some e \<Longrightarrow> map fst (AList.update k e' es) = map fst es"
  by (induction es) (auto split: if_splits)

lemma touch_same: "same_but_touch rg (touch_entry en k rg)"
  unfolding same_but_touch_def touch_entry_def
  by (auto split: option.split simp: map_fst_update_same map_update_same [where f = "\<lambda>e. (etACL e, etSeq e)"])

lemma map_of_touch:
  "map_of (rgEntries (touch_entry en k rg)) k' = Some e \<Longrightarrow> \<exists>e0. map_of (rgEntries rg) k' = Some e0 \<and> etACL e0 = etACL e"
  by (auto simp: touch_entry_def split: option.splits if_splits)

text \<open>
  A stranger starts nothing: when access lists are enforced over a table, a request for a session whose live entry and
  stored row both deny the caller to read is turned away, no session is resumed for it, and the registry and the table
  stay as they are but for the time of last use; as they do if there is no such session.
\<close>

theorem strangers_start_nothing:
  assumes "rgStore rg = Some st" "a \<noteq> ActionSessionList"
    and "\<And>acl. acl \<in> acls_of app sid rg \<Longrightarrow> \<not> Authorize c ActionSessionRead acl"
    and "lookupQualifiedAuth en resumer True c a app sid rg = (rep, asked, rg')"
  shows "(\<exists>n msg. rep = Reply n msg) \<and> \<not> asked \<and> same_but_touch rg rg'"
proof -
  have same: "same_but_touch rg rg" by (simp add: same_but_touch_def)
  have err: "\<exists>n msg. lookup_error e = Reply n msg" for e by (cases e) (auto simp: lookup_error_def)
  have res: "\<exists>e. resumeAndRegister en resume (Some c) app sid rg = (Inl e, False, rg)" for resume
    using assms(1,3) store_Find_Inr [of en app sid st]
    by (cases "store_Find en app sid st") (fastforce simp: resumeAndRegister_def acls_of_def)+
  show ?thesis
  proof (cases "live_at app sid rg")
    case (Some k)
    obtain u e where k: "k = (app, u, sid)" "(k, e) \<in> set (rgEntries rg)" using live_at_Some [OF Some] by blast
    have "authorize_entry True c a k (touch_entry en k rg) = Reply 404 ''session not found''"
    proof (cases "map_of (rgEntries (touch_entry en k rg)) k")
      case (Some e1)
      then obtain e0 where "map_of (rgEntries rg) k = Some e0" "etACL e0 = etACL e1" using map_of_touch by blast
      then have "((app, u, sid), e0) \<in> set (rgEntries rg)" "etACL e1 = etACL e0" using k(1) map_of_SomeD by fastforce+
      then have "etACL e1 \<in> acls_of app sid rg" unfolding acls_of_def by blast
      then show ?thesis using Some assms(2,3) read_is_least by (auto simp: authorize_entry_def)
    qed (simp add: authorize_entry_def)
    moreover have "lookupQualifiedAuth en resumer True c a app sid rg =
        (if app = [] \<or> sid = [] then (lookup_error RegArgs, False, rg)
         else (authorize_entry True c a k (touch_entry en k rg), False, touch_entry en k rg))"
      by (simp add: lookupQualifiedAuth_def lookupGated_def gate_for_def Some)
    ultimately show ?thesis using assms(4) err [of RegArgs] touch_same [of rg en k] same by (auto split: if_splits)
  next
    case None
    have "\<exists>e. lookupQualifiedAuth en resumer True c a app sid rg = (lookup_error e, False, rg)"
    proof (cases "(app = [] \<or> sid = []) \<or> resumer = None")
      case True
      then show ?thesis by (auto simp: lookupQualifiedAuth_def lookupGated_def gate_for_def None)
    next
      case False
      then obtain resume where "resumer = Some resume" by auto
      then show ?thesis using res [of resume] False by (auto simp: lookupQualifiedAuth_def lookupGated_def gate_for_def None)
    qed
    then show ?thesis using assms(4) err same by (metis prod.inject)
  qed
qed

subsection \<open>Who reaches a session\<close>

lemma middleware_user:
  assumes us: "LoadUsersFile v us = Inr us" and a: "lsAuth ls = Some (BearerTokenAuth (NewBearerTokenAuth us admins proxies))"
    and m: "lsMultiSession ls" and c: "callerMiddleware ls r = Inr (c, proxyBy)"
  shows "\<exists>d. sent_by ls us admins r d \<and> speaks_for ls us admins proxies r d c"
proof -
  define asserted where "asserted = rqHeader r (if lsProxyHeader ls = [] then HeaderAssertedCaller else lsProxyHeader ls)"
  let ?b = "NewBearerTokenAuth us admins proxies"
  have auth: "bearer_Authenticate ?b (request.truncate r) = Inr d \<longleftrightarrow>
      (\<exists>u\<in>set us. carries (request.truncate r) u \<and> d = caller_of admins u)" for d
    by (rule authenticate_row [OF us])
  obtain d where d: "sent_by ls us admins r d"
    "if asserted = [] then c = d \<and> proxyBy = [] else resolveProxyAssertion (BearerTokenAuth ?b) d asserted = Inr (c, proxyBy)"
  proof (cases "bearer_Authenticate ?b (request.truncate r)")
    case (Inl e)
    then have none: "\<not> (\<exists>u\<in>set us. carries (request.truncate r) u)" using auth by fastforce
    have "lsAllowAnonymous ls" "if asserted = [] then c = default_caller ls \<and> proxyBy = []
        else resolveProxyAssertion (BearerTokenAuth ?b) (default_caller ls) asserted = Inr (c, proxyBy)"
      using c a m Inl by (auto simp: callerMiddleware_def asserted_def default_caller_def Let_def split: if_splits)
    then show ?thesis using none that unfolding sent_by_def by blast
  next
    case (Inr d)
    have "if asserted = [] then c = d \<and> proxyBy = [] else resolveProxyAssertion (BearerTokenAuth ?b) d asserted = Inr (c, proxyBy)"
      using c a Inr by (auto simp: callerMiddleware_def asserted_def Let_def)
    then show ?thesis using Inr auth that unfolding sent_by_def by blast
  qed
  have "speaks_for ls us admins proxies r d c"
  proof (cases "asserted = []")
    case True
    then show ?thesis using d(2) by (simp add: speaks_for_def asserted_def Let_def)
  next
    case False
    then have p: "CanProxyAs ?b d" "LookupIdentity ?b asserted = Some c"
      using d(2) by (auto simp: resolveProxyAssertion_def split: if_splits option.splits)
    have "crIdentity d \<in> set proxies"
      using p(1) table_maps [where us = us] load_ok [OF us] by (auto simp: CanProxyAs_def stringSet_def)
    then show ?thesis using p(2) lookup_row [OF us, of admins proxies asserted c]
      unfolding speaks_for_def Let_def asserted_def [symmetric] by metis
  qed
  then show ?thesis using d(1) by blast
qed


lemma lookup_error_reply [simp]: "lookup_error e \<noteq> Found k"
  by (cases e) (simp_all add: lookup_error_def)



text \<open>
  Two kinds of token exclude each other: a listener with a token of its own that is no user's turns every request away when
  it enforces the table of users, because both are read from the same header.
\<close>

theorem two_tokens_lock_out:
  assumes "LoadUsersFile v us = Inr us" "lsAuth ls = Some (BearerTokenAuth (NewBearerTokenAuth us admins proxies))"
    and "lsMultiSession ls" "\<not> lsAllowAnonymous ls" "lsToken ls \<noteq> []" "\<And>u. u \<in> set us \<Longrightarrow> usToken u \<noteq> lsToken ls"
  shows "way_in ls r \<in> {Inl 401, Inl 403}"
proof -
  have "\<not> checkAttachToken (lsToken ls) r \<or> (\<exists>e. callerMiddleware ls r = Inl e)"
  proof (cases "callerMiddleware ls r")
    case (Inr ctx)
    then obtain u where "u \<in> set us" "carries (request.truncate r) u"
      using middleware_user [OF assms(1-3), of r "fst ctx" "snd ctx"] assms(4) by (auto simp: sent_by_def)
    then have "extractToken (request.truncate r) \<noteq> lsToken ls" using assms(6) by (auto simp: carries_def)
    then show ?thesis by (auto simp: checkAttachToken_def extractToken_def request.truncate_def split: if_splits)
  qed auto
  then show ?thesis using assms(5) by (auto simp: way_in_def)
qed

subsection \<open>The listing\<close>

lemma plain_json: "plain_identity s \<Longrightarrow> json_string s = [CHR 0x22] @ escapeJSONString s @ [CHR 0x22]"
proof -
  have "json_char c = (if c = CHR 0x22 \<or> c = CHR 0x5C then [CHR 0x5C, c] else [c])"
    if "32 \<le> (of_char c :: nat)" "c \<notin> {CHR ''<'', CHR ''>'', CHR ''&''}" for c
    using that by (auto simp: json_char_def Let_def)
  then have "plain_identity s \<Longrightarrow> concat (map json_char s) = escapeJSONString s"
    unfolding plain_identity_def escapeJSONString_def by (induction s) auto
  then show "plain_identity s \<Longrightarrow> json_string s = [CHR 0x22] @ escapeJSONString s @ [CHR 0x22]" by (simp add: json_string_def)
qed

lemma Join_mem: "x \<in> set xs \<Longrightarrow> \<exists>pre post. Join xs sep = pre @ x @ post"
proof (induction xs rule: induct_list012)
  case (3 y z zs)
  show ?case
  proof (cases "x = y")
    case True
    then have "Join (y # z # zs) sep = [] @ x @ (sep @ Join (z # zs) sep)" by simp
    then show ?thesis by blast
  next
    case False
    then obtain pre post where "Join (z # zs) sep = pre @ x @ post" using 3 by auto
    then have "Join (y # z # zs) sep = (y @ sep @ pre) @ x @ post" by simp
    then show ?thesis by blast
  qed
qed (auto intro: exI [of _ "[]"])

lemma encoded_mem:
  assumes "i \<in> set xs" "plain_identity i"
  shows "\<exists>pre post. encodeStringSlice xs = pre @ ([CHR 0x22] @ escapeJSONString i @ [CHR 0x22]) @ post"
proof -
  obtain pre post where "Join (map json_string xs) '','' = pre @ json_string i @ post"
    using Join_mem [of "json_string i" "map json_string xs" "'',''"] assms(1) by auto
  then have "encodeStringSlice xs = (''['' @ pre) @ json_string i @ (post @ '']'')" using assms(1) by (auto simp: encodeStringSlice_def)
  then show ?thesis unfolding plain_json [OF assms(2)] by blast
qed

text \<open>
  A listing shows what may be read: for a caller whose identity is of plain characters, over any database whose \<^verbatim>\<open>LIKE\<close>
  finds a text within another, the persisted half of the listing is exactly the rows that the matrix lets the caller read,
  in the order of the table.
\<close>

theorem listing_exact:
  assumes "\<And>pre mid post. like (''%'' @ mid @ ''%'') (pre @ mid @ post)" "plain_identity (crIdentity c)"
  shows "ListVisibleTo like c st = filter (\<lambda>(k, row). Authorize c ActionSessionRead (awACL row)) st"
proof -
  let ?q = "[CHR 0x22] @ escapeJSONString (crIdentity c) @ [CHR 0x22]"
  have l: "like (''%'' @ ?q @ ''%'') (encodeStringSlice xs)" if "crIdentity c \<in> set xs" for xs
    using encoded_mem [OF that assms(2)] assms(1) by metis
  have "saOwner acl = crIdentity c \<or> like (''%'' @ ?q @ ''%'') (encodeStringSlice (saViewers acl)) \<or>
      like (''%'' @ ?q @ ''%'') (encodeStringSlice (saContributors acl))"
    if "Authorize c ActionSessionRead acl" "\<not> crAdmin c" for acl
    using that l by (auto simp: Authorize_def containsIdentity_def split: if_splits)
  then have "filter (\<lambda>(k, row). Authorize c ActionSessionRead (awACL row))
      (filter (\<lambda>(k, row). saOwner (awACL row) = crIdentity c \<or> like (''%'' @ ?q @ ''%'') (encodeStringSlice (saViewers (awACL row))) \<or>
         like (''%'' @ ?q @ ''%'') (encodeStringSlice (saContributors (awACL row)))) st) =
      filter (\<lambda>(k, row). Authorize c ActionSessionRead (awACL row)) st" if "\<not> crAdmin c"
    unfolding filter_filter using that by (intro filter_cong) auto
  moreover have "filter (\<lambda>(k, row). Authorize c ActionSessionRead (awACL row)) st = st" if "crAdmin c"
    using that by (auto simp: Authorize_def intro!: filter_True)
  moreover have "filter (\<lambda>(k, row). Authorize c ActionSessionRead (awACL row)) st = []" if "crIdentity c = []" "\<not> crAdmin c"
    using that by (auto simp: Authorize_def intro!: filter_False)
  ultimately show ?thesis by (auto simp: ListVisibleTo_def Let_def)
qed

subsection \<open>Access lists outlive the process\<close>

lemma distinct_keys_update: "distinct (map fst m) \<Longrightarrow> distinct (map fst (AList.update k v m))"
  by (simp add: distinct_update)

lemma distinct_keys_delete: "distinct (map fst m) \<Longrightarrow> distinct (map fst (AList.delete k m))"
  by (simp add: distinct_delete)

lemma distinct_keys_filter: "distinct (map fst m) \<Longrightarrow> distinct (map fst (filter P m))"
  by (induction m) auto

lemma map_of_filter: "distinct (map fst m) \<Longrightarrow> map_of (filter P m) k = Some v \<Longrightarrow> map_of m k = Some v"
  using map_of_SomeD [of "filter P m" k v] by (simp add: map_of_is_SomeI)

lemma key_of_map_of: "map_of m k = Some v \<Longrightarrow> k \<in> fst ` set m"
  by (force dest: map_of_SomeD)

lemma keys_of_update: "fst ` set (AList.update k v m) = insert k (fst ` set m)"
  by (induction m) auto

lemma keys_of_delete: "fst ` set (AList.delete k m) \<subseteq> fst ` set m"
  by (induction m) auto

lemma acl_table_update: "acl_table (AList.update k row st) = (acl_table st)(k := Some (awACL row))"
  by (simp add: acl_table_def fun_eq_iff)

lemma Put_form:
  assumes "store_Put en k row st = Some st'"
  shows "\<exists>row'. awACL row' = awACL row \<and> st' = AList.update k row' st"
proof -
  obtain app usr sid where k: "k = (app, usr, sid)" by (cases k)
  let ?row = "row\<lparr>awCreated := (if awCreated row = 0 then geNow en else awCreated row), awTouched := (if awTouched row = 0 then geNow en else awTouched row)\<rparr>"
  have "st' = AList.update k ?row st" using assms unfolding k store_Put.simps by (metis option.distinct(1) option.inject)
  moreover have "awACL ?row = awACL row" by simp
  ultimately show ?thesis by blast
qed

lemma Put_table:
  assumes "store_Put en k row st = Some st'"
  shows "acl_table st' = (acl_table st)(k := Some (awACL row)) \<and> (distinct (map fst st) \<longrightarrow> distinct (map fst st')) \<and>
    fst ` set st' = insert k (fst ` set st)"
  using Put_form [OF assms] acl_table_update keys_of_update distinct_keys_update by metis

lemma Touch_table:
  "acl_table (store_Touch en k t st) = acl_table st \<and> (distinct (map fst st) \<longrightarrow> distinct (map fst (store_Touch en k t st))) \<and>
   fst ` set (store_Touch en k t st) = fst ` set st"
proof (cases "map_of st k")
  case (Some row)
  then have "insert k (fst ` set st) = fst ` set st" "(acl_table st)(k := Some (awACL row)) = acl_table st"
    using key_of_map_of by (auto simp: acl_table_def)
  then show ?thesis using Some by (simp add: store_Touch_def acl_table_update keys_of_update distinct_keys_update)
qed (simp add: store_Touch_def)

lemma touches_table:
  "acl_table (foldl (\<lambda>st (k, e). store_Touch en k (etTouched e) st) st idle) = acl_table st \<and>
   (distinct (map fst st) \<longrightarrow> distinct (map fst (foldl (\<lambda>st (k, e). store_Touch en k (etTouched e) st) st idle))) \<and>
   fst ` set (foldl (\<lambda>st (k, e). store_Touch en k (etTouched e) st) st idle) = fst ` set st"
  by (induction idle arbitrary: st) (auto simp: Touch_table split: prod.split)

lemma reg_invE:
  assumes "reg_inv u rg"
  obtains st where "rgStore rg = Some st" "keys_ok u st" "keys_ok u (rgEntries rg)" "agree st (rgEntries rg)"
  using assms unfolding reg_inv_def by blast

lemma keys_ok_update: "keys_ok u m \<Longrightarrow> fst (snd k) = u \<Longrightarrow> keys_ok u (AList.update k v m)"
  by (simp add: keys_ok_def keys_of_update distinct_keys_update under_user_def)

lemma keys_ok_delete: "keys_ok u m \<Longrightarrow> keys_ok u (AList.delete k m)"
  unfolding keys_ok_def using keys_of_delete [of k m] distinct_keys_delete [of m k] by blast

lemma keys_ok_filter: "keys_ok u m \<Longrightarrow> keys_ok u (filter P m)"
proof -
  assume ok: "keys_ok u m"
  have "fst ` set (filter P m) \<subseteq> fst ` set m" by (intro image_mono filter_is_subset)
  then show ?thesis using ok distinct_keys_filter [of m P] unfolding keys_ok_def by blast
qed

lemma keys_ok_key: "keys_ok u m \<Longrightarrow> map_of m k = Some v \<Longrightarrow> fst (snd k) = u"
  using key_of_map_of [of m k v] by (auto simp: keys_ok_def under_user_def)

lemma agreeD: "agree st es \<Longrightarrow> map_of es k = Some e \<Longrightarrow> saOwner (etACL e) \<noteq> [] \<Longrightarrow> acl_table st k = Some (etACL e)"
  unfolding agree_def by blast

lemma agree_filter: "distinct (map fst es) \<Longrightarrow> agree st es \<Longrightarrow> agree st (filter P es)"
  using map_of_filter [of es P] unfolding agree_def by blast

lemma agree_delete: "agree st es \<Longrightarrow> agree st (AList.delete k es)"
  by (auto simp: agree_def split: if_splits)

lemma agree_update:
  "agree st es \<Longrightarrow> (saOwner (etACL e) \<noteq> [] \<Longrightarrow> acl_table st k = Some (etACL e)) \<Longrightarrow> agree st (AList.update k e es)"
  by (auto simp: agree_def split: if_splits)

lemma agree_table: "agree st es \<Longrightarrow> acl_table st' = acl_table st \<Longrightarrow> agree st' es"
  by (simp add: agree_def)

lemma agree_put:
  "agree st es \<Longrightarrow> acl_table st' = (acl_table st)(k := Some acl) \<Longrightarrow> etACL e = acl \<Longrightarrow> agree st' (AList.update k e es)"
  by (auto simp: agree_def)

lemma keys_ok_put: "keys_ok u st \<Longrightarrow> store_Put en k row st = Some st' \<Longrightarrow> fst (snd k) = u \<Longrightarrow> keys_ok u st'"
  using Put_table [of en k row st st'] by (simp add: keys_ok_def under_user_def)

lemma inv_register:
  assumes "reg_inv u rg" "fst (snd k) = u"
  shows "reg_inv u (snd (registerWithACL en k acl rg))"
proof -
  obtain app usr sid where k: "k = (app, usr, sid)" by (cases k)
  obtain st where st: "rgStore rg = Some st" "keys_ok u st" "keys_ok u (rgEntries rg)" "agree st (rgEntries rg)"
    by (rule reg_invE [OF assms(1)])
  have del: "AList.delete k (AList.update k e es) = AList.delete k es" for e :: entry and es
    by (induction es) auto
  define e where "e = \<lparr>etACL = acl, etTouched = geNow en, etSeq = rgSeq rg + 1\<rparr>"
  have up: "keys_ok u (AList.update k e (rgEntries rg))" using keys_ok_update [OF st(3) assms(2)] .
  consider (same) "snd (registerWithACL en k acl rg) = rg"
    | (bare) "snd (registerWithACL en k acl rg) = rg\<lparr>rgSeq := rgSeq rg + 1, rgEntries := AList.update k e (rgEntries rg)\<rparr>" "saOwner acl = []"
    | (fail) "snd (registerWithACL en k acl rg) = rg\<lparr>rgSeq := rgSeq rg + 1, rgEntries := AList.delete k (rgEntries rg)\<rparr>"
    | (put) st' where "store_Put en k \<lparr>awACL = acl, awCreated = 0, awTouched = 0\<rparr> st = Some st'"
        "snd (registerWithACL en k acl rg) = rg\<lparr>rgSeq := rgSeq rg + 1, rgEntries := AList.update k e (rgEntries rg), rgStore := Some st'\<rparr>"
  proof (cases "app = [] \<or> sid = [] \<or> map_of (rgEntries rg) k \<noteq> None")
    case True
    then show ?thesis using same unfolding k by (auto simp del: store_Put.simps)
  next
    case new: False
    show ?thesis
    proof (cases "saOwner acl = []")
      case True
      then show ?thesis using new bare st(1) unfolding k e_def by (simp add: new_entry_def Let_def)
    next
      case False
      then show ?thesis using new fail put st(1) unfolding k e_def
        by (cases "store_Put en (app, usr, sid) \<lparr>awACL = acl, awCreated = 0, awTouched = 0\<rparr> st")
          (simp_all add: new_entry_def Let_def del [unfolded k] del: store_Put.simps)
    qed
  qed
  then show ?thesis
  proof cases
    case same
    then show ?thesis using assms(1) by simp
  next
    case bare
    have "agree st (AList.update k e (rgEntries rg))" by (rule agree_update [OF st(4)]) (simp add: e_def bare)
    then show ?thesis unfolding bare(1) reg_inv_def using st up by simp
  next
    case fail
    show ?thesis unfolding fail reg_inv_def using st keys_ok_delete agree_delete by simp
  next
    case put
    have "agree st' (AList.update k e (rgEntries rg))"
      by (rule agree_put [OF st(4)]) (use Put_table [OF put(1)] in \<open>simp_all add: e_def\<close>)
    then show ?thesis unfolding put(2) reg_inv_def using keys_ok_put [OF st(2) put(1) assms(2)] up by simp
  qed
qed

lemma inv_setacl:
  assumes "reg_inv u rg" "fst (snd k) = u"
  shows "reg_inv u (snd (SetACL en k acl rg))"
proof -
  obtain st where st: "rgStore rg = Some st" "keys_ok u st" "keys_ok u (rgEntries rg)" "agree st (rgEntries rg)"
    by (rule reg_invE [OF assms(1)])
  show ?thesis
  proof (cases "map_of (rgEntries rg) k")
    case None
    then show ?thesis using assms(1) by (simp add: SetACL_def setacl_write_def)
  next
    case (Some e)
    define row where "row = (case map_of st k of
        Some prior \<Rightarrow> \<lparr>awACL = acl, awCreated = awCreated prior, awTouched = awTouched prior\<rparr>
      | None \<Rightarrow> \<lparr>awACL = acl, awCreated = 0, awTouched = 0\<rparr>)"
    have acl: "awACL row = acl" by (simp add: row_def split: option.split)
    show ?thesis
    proof (cases "saOwner acl = []")
      case True
      have "agree st (AList.update k (e\<lparr>etACL := acl\<rparr>) (rgEntries rg))" by (rule agree_update [OF st(4)]) (simp add: True)
      moreover have "snd (SetACL en k acl rg) \<in> {rg, rg\<lparr>rgEntries := AList.update k (e\<lparr>etACL := acl\<rparr>) (rgEntries rg)\<rparr>}"
        using Some st True by (simp add: SetACL_def setacl_write_def setacl_apply_def)
      ultimately show ?thesis using assms(1) st keys_ok_update [OF st(3) assms(2)] by (auto simp: reg_inv_def)
    next
      case own: False
      show ?thesis
      proof (cases "\<not> geGet en \<or> store_Put en k row st = None")
        case True
        then show ?thesis using Some st assms own by (auto simp: SetACL_def setacl_write_def Let_def row_def)
      next
        case False
        then obtain st' where put: "store_Put en k row st = Some st'" "geGet en" by auto
        have "snd (SetACL en k acl rg) = rg\<lparr>rgStore := Some st', rgEntries := AList.update k (e\<lparr>etACL := acl\<rparr>) (rgEntries rg)\<rparr>"
          using Some st own put by (simp add: SetACL_def setacl_write_def setacl_apply_def Let_def row_def)
        moreover have "agree st' (AList.update k (e\<lparr>etACL := acl\<rparr>) (rgEntries rg))"
          using Put_table [OF put(1)] acl st(4) by (intro agree_put [where acl = acl]) auto
        ultimately show ?thesis
          using keys_ok_put [OF st(2) put(1) assms(2)] keys_ok_update [OF st(3) assms(2)] by (auto simp: reg_inv_def)
      qed
    qed
  qed
qed

lemma found_row:
  assumes "keys_ok u st" "store_Find en app sid st = Inr (k, row)"
  shows "k = (app, u, sid) \<and> acl_table st k = Some (awACL row)"
proof -
  obtain v where v: "k = (app, v, sid)" "(k, row) \<in> set st" using store_Find_Inr [OF assms(2)] by blast
  have m: "map_of st k = Some row" using v(2) assms(1) by (simp add: keys_ok_def)
  have "v = u" using keys_ok_key [OF assms(1) m] v(1) by simp
  then show ?thesis using v m by (simp add: acl_table_def)
qed

lemma inv_resume:
  assumes "reg_inv u rg" "resumer_ok u (Some resume)"
  shows "reg_inv u (snd (snd (resumeAndRegister en resume (Some c) app sid rg)))"
proof -
  obtain st where st: "rgStore rg = Some st" "keys_ok u st" "keys_ok u (rgEntries rg)" "agree st (rgEntries rg)"
    by (rule reg_invE [OF assms(1)])
  have reg: "reg_inv u (snd (registerResumed en k (awACL row) rg))"
    if f: "store_Find en app sid st = Inr (k0, row)" and r: "resume app sid = ResumeOK k acl" for k0 row k acl
  proof -
    have "k = (app, u, sid)" using assms(2) r unfolding resumer_ok_def by blast
    then have k: "fst (snd k) = u" "acl_table st k = Some (awACL row)" using found_row [OF st(2) f] by auto
    let ?es = "AList.update k \<lparr>etACL = awACL row, etTouched = geNow en, etSeq = rgSeq rg + 1\<rparr> (rgEntries rg)"
    have es: "keys_ok u ?es" "agree st ?es" using keys_ok_update [OF st(3) k(1)] agree_update [OF st(4)] k(2) by auto
    have t: "keys_ok u (store_Touch en k (geNow en) st)" "acl_table (store_Touch en k (geNow en) st) = acl_table st"
      using st(2) Touch_table [of en k "geNow en" st] by (simp_all add: keys_ok_def)
    show ?thesis using st es t agree_table [OF es(2) t(2)] assms(1)
      by (simp add: registerResumed_def new_entry_def Let_def reg_inv_def)
  qed
  show ?thesis
    using assms(1) st reg
    by (auto simp: resumeAndRegister_def Let_def case_prod_beta split: sum.split option.split resume_answer.split)
qed

lemma inv_touch:
  assumes "reg_inv u rg"
  shows "reg_inv u (touch_entry en k rg)"
proof (cases "map_of (rgEntries rg) k")
  case (Some e)
  obtain st where st: "rgStore rg = Some st" "keys_ok u st" "keys_ok u (rgEntries rg)" "agree st (rgEntries rg)"
    by (rule reg_invE [OF assms(1)])
  have "agree st (AList.update k (e\<lparr>etTouched := geNow en\<rparr>) (rgEntries rg))"
    by (rule agree_update [OF st(4)]) (use agreeD [OF st(4) Some] in simp)
  then show ?thesis using st keys_ok_update [OF st(3)] keys_ok_key [OF st(3) Some] Some by (simp add: touch_entry_def reg_inv_def)
qed (use assms in \<open>simp add: touch_entry_def\<close>)

lemma inv_lookup:
  assumes "reg_inv u rg" "resumer_ok u resumer"
  shows "reg_inv u (snd (snd (lookupQualifiedAuth en resumer True c a app sid rg)))"
proof -
  have "snd (snd (lookupQualifiedAuth en resumer True c a app sid rg)) = snd (snd (lookupGated en resumer (Some c) app sid rg))"
    by (auto simp: lookupQualifiedAuth_def gate_for_def split: prod.split sum.split)
  also have "reg_inv u \<dots>"
    using assms inv_touch inv_resume by (auto simp: lookupGated_def split: option.split)
  finally show ?thesis .
qed

lemma inv_shrink:
  assumes "reg_inv u rg"
  shows "reg_inv u (rg\<lparr>rgEntries := AList.delete k (rgEntries rg)\<rparr>)" "reg_inv u (rg\<lparr>rgEntries := [], rgSeq := 0\<rparr>)"
  by (rule reg_invE [OF assms], simp add: reg_inv_def keys_ok_delete agree_delete)
    (rule reg_invE [OF assms], simp add: reg_inv_def keys_ok_def agree_def)

lemma inv_evict:
  assumes "reg_inv u rg"
  shows "reg_inv u (snd (EvictBefore en cutoff rg))"
proof -
  obtain st where st: "rgStore rg = Some st" "keys_ok u st" "keys_ok u (rgEntries rg)" "agree st (rgEntries rg)"
    by (rule reg_invE [OF assms(1)])
  define st' where "st' = foldl (\<lambda>st (k, e). store_Touch en k (etTouched e) st) st (filter (\<lambda>(k, e). etTouched e < cutoff) (rgEntries rg))"
  have "acl_table st' = acl_table st" "keys_ok u st'"
    using touches_table [of en st "filter (\<lambda>(k, e). etTouched e < cutoff) (rgEntries rg)"] st(2)
    unfolding st'_def [symmetric] keys_ok_def by simp_all
  moreover define es where "es = filter (\<lambda>(k, e). \<not> etTouched e < cutoff) (rgEntries rg)"
  moreover have "agree st es" "keys_ok u es"
    using agree_filter [OF _ st(4)] st(3) keys_ok_filter [OF st(3)] by (auto simp: es_def keys_ok_def)
  moreover have "snd (EvictBefore en cutoff rg) = rg\<lparr>rgEntries := es, rgStore := Some st'\<rparr>"
    by (simp add: EvictBefore_def Let_def st st'_def es_def)
  ultimately show ?thesis using agree_table by (simp add: reg_inv_def)
qed

lemma inv_delete:
  assumes "reg_inv u rg"
  shows "reg_inv u (snd (HardDelete en k rg))"
proof -
  obtain st where st: "rgStore rg = Some st" "keys_ok u st" "keys_ok u (rgEntries rg)" "agree st (rgEntries rg)"
    by (rule reg_invE [OF assms(1)])
  have "keys_ok u (AList.delete k st)" by (rule keys_ok_delete [OF st(2)])
  moreover have "agree (AList.delete k st) (AList.delete k (rgEntries rg))"
    using agreeD [OF st(4)] by (auto simp: agree_def acl_table_def AList.delete_conv' split: if_splits)
  ultimately show ?thesis
    using inv_shrink(1) [OF assms, of k] st keys_ok_delete [OF st(3)]
    by (simp add: HardDelete_def Unregister_def Let_def reg_inv_def)
qed

lemma inv_step: "reg_inv u rg \<Longrightarrow> reg_op_ok u op \<Longrightarrow> reg_inv u (reg_step rg op)"
  by (cases op) (simp_all add: inv_register inv_setacl inv_lookup inv_evict inv_delete inv_shrink Unregister_def)

lemma registry_inv_run: "list_all (reg_op_ok u) ops \<Longrightarrow> reg_inv u (reg_run ops)"
proof (induction ops rule: rev_induct)
  case Nil
  then show ?case by (simp add: reg_run_def reg_start_def reg_inv_def keys_ok_def agree_def)
next
  case (snoc op ops)
  have "reg_run (ops @ [op]) = reg_step (reg_run ops) op" by (simp add: reg_run_def)
  then show ?case using snoc inv_step by simp
qed


text \<open>
  As long as operations run one after another, whichever of the table's operations failed, the access list of an owned live
  session is the one in the table.
\<close>

theorem live_list_is_stored:
  assumes "list_all (reg_op_ok u) ops" "map_of (rgEntries (reg_run ops)) k = Some e" "saOwner (etACL e) \<noteq> []"
  shows "stored_acl (reg_run ops) k = Some (etACL e)"
proof -
  obtain st where st: "rgStore (reg_run ops) = Some st" "agree st (rgEntries (reg_run ops))"
    using registry_inv_run [OF assms(1)] by (auto elim: reg_invE)
  then show ?thesis using agreeD [OF st(2) assms(2,3)] by (simp add: stored_acl_def acl_table_def)
qed

theorem live_list_is_stored_witness:
  "stored_acl (reg_run [OpRegister (env_at 5) (''mast'', ''u'', ''s'') alice_acl]) (''mast'', ''u'', ''s'') = Some alice_acl"
proof -
  let ?e = "\<lparr>etACL = alice_acl, etTouched = 5, etSeq = 1\<rparr>"
  have m: "map_of (rgEntries (reg_run [OpRegister (env_at 5) (''mast'', ''u'', ''s'') alice_acl])) (''mast'', ''u'', ''s'') = Some ?e"
    by code_simp
  have "stored_acl (reg_run [OpRegister (env_at 5) (''mast'', ''u'', ''s'') alice_acl]) (''mast'', ''u'', ''s'') = Some (etACL ?e)"
    by (rule live_list_is_stored [OF _ m, of "''u''"]) (simp_all add: alice_acl_def)
  then show ?thesis by simp
qed





text \<open>Every operation is a sequence of these statements.\<close>

lemma stmts_same: "\<exists>ss. list_all (stmt_ok u) ss \<and> rg = foldl stmt_step rg ss"
  by (rule exI [of _ "[]"]) simp

lemma delete_updated: "AList.delete k (AList.update k e es) = AList.delete k es"
  by (induction es) auto

lemma register_stmts:
  assumes "fst (snd k) = u"
  shows "\<exists>ss. list_all (stmt_ok u) ss \<and> snd (registerWithACL en k acl rg) = foldl stmt_step rg ss"
proof -
  obtain app usr sid where k: "k = (app, usr, sid)" by (cases k)
  let ?row = "\<lparr>awACL = acl, awCreated = 0, awTouched = 0\<rparr>" and ?new = "new_entry en k acl rg"
  consider (same) "snd (registerWithACL en k acl rg) = rg" | (bare) "snd (registerWithACL en k acl rg) = ?new"
    | (fail) "snd (registerWithACL en k acl rg) = ?new\<lparr>rgEntries := AList.delete k (rgEntries ?new)\<rparr>"
    | (put) st st' where "rgStore rg = Some st" "store_Put en k ?row st = Some st'"
        "snd (registerWithACL en k acl rg) = ?new\<lparr>rgStore := Some st'\<rparr>"
  proof (cases "app = [] \<or> sid = [] \<or> map_of (rgEntries rg) k \<noteq> None")
    case True
    then show ?thesis using same unfolding k by (auto simp del: store_Put.simps)
  next
    case new: False
    show ?thesis
    proof (cases "rgStore rg")
      case None
      then show ?thesis using new bare unfolding k by (simp add: Let_def)
    next
      case (Some st)
      show ?thesis
      proof (cases "saOwner acl = []")
        case True
        then show ?thesis using new bare Some unfolding k by (simp add: Let_def)
      next
        case False
        then show ?thesis using new fail put [OF Some] Some unfolding k
          by (cases "store_Put en (app, usr, sid) ?row st") (simp_all add: Let_def del: store_Put.simps)
      qed
    qed
  qed
  then show ?thesis
  proof cases
    case same
    then show ?thesis using stmts_same [of u rg] by simp
  next
    case bare
    then show ?thesis by (intro exI [of _ "[EnterLive en k acl]"]) simp
  next
    case fail
    then show ?thesis by (intro exI [of _ "[EnterLive en k acl, LeaveLive k]"]) (simp add: Unregister_def)
  next
    case put
    then show ?thesis using assms
      by (intro exI [of _ "[EnterLive en k acl, PutRow en k ?row]"]) (simp add: on_store_def new_entry_def del: store_Put.simps)
  qed
qed

lemma put_stmt:
  "rgStore rg = Some st \<Longrightarrow> store_Put en k row st = Some st' \<Longrightarrow> rg\<lparr>rgStore := Some st'\<rparr> = stmt_step rg (PutRow en k row)"
  by (simp add: on_store_def del: store_Put.simps)

lemma setacl_write_stmts:
  assumes "setacl_write en k acl rg = (res, rg')"
  shows "rg' = rg \<or> (\<exists>row. rg' = stmt_step rg (PutRow en k row))"
proof -
  have "rg' = rg \<or> (\<exists>st st' row. rgStore rg = Some st \<and> store_Put en k row st = Some st' \<and> rg' = rg\<lparr>rgStore := Some st'\<rparr>)"
    using assms unfolding setacl_write_def Let_def
    by (fastforce split: option.splits if_splits simp del: store_Put.simps)
  then show ?thesis using put_stmt by metis
qed

lemma setacl_stmts:
  assumes "fst (snd k) = u"
  shows "\<exists>ss. list_all (stmt_ok u) ss \<and> snd (SetACL en k acl rg) = foldl stmt_step rg ss"
proof (cases "setacl_write en k acl rg")
  case (Pair res rg')
  note w = setacl_write_stmts [OF Pair]
  show ?thesis
  proof (cases res)
    case (Inl e)
    then show ?thesis using Pair w assms stmts_same [of u rg]
      by (auto simp: SetACL_def simp del: stmt_step.simps intro: exI [of _ "[PutRow en k row]" for row])
  next
    case (Inr pn)
    obtain persisted n where pn: "pn = (persisted, n)" by fastforce
    have s: "snd (SetACL en k acl rg) = stmt_step rg' (ApplyACL k acl n)" using Pair Inr pn by (simp add: SetACL_def)
    from w show ?thesis
    proof
      assume "rg' = rg"
      then show ?thesis using s by (intro exI [of _ "[ApplyACL k acl n]"]) simp
    next
      assume "\<exists>row. rg' = stmt_step rg (PutRow en k row)"
      then obtain row where "rg' = stmt_step rg (PutRow en k row)" by blast
      then show ?thesis using s assms
        by (intro exI [of _ "[PutRow en k row, ApplyACL k acl n]"]) (simp del: stmt_step.simps)
    qed
  qed
qed

lemma touch_rows_stmts:
  "rgStore rg = Some st \<Longrightarrow>
   rg\<lparr>rgStore := Some (foldl (\<lambda>st (k, e). store_Touch en k (etTouched e) st) st idle)\<rparr> =
     foldl stmt_step rg (map (\<lambda>(k, e). TouchRow en k (etTouched e)) idle)"
proof (induction idle arbitrary: rg st)
  case (Cons x idle)
  obtain k e where x: "x = (k, e)" by fastforce
  have "rgStore (stmt_step rg (TouchRow en k (etTouched e))) = Some (store_Touch en k (etTouched e) st)"
    using Cons.prems by (simp add: on_store_def)
  from Cons.IH [OF this] show ?case using Cons.prems by (simp add: x on_store_def)
qed simp

theorem operation_is_statements:
  assumes "reg_op_ok u op"
  shows "\<exists>ss. list_all (stmt_ok u) ss \<and> reg_step rg op = foldl stmt_step rg ss"
proof (cases op)
  case (OpRegister en k acl)
  then show ?thesis using assms register_stmts by simp
next
  case (OpUnregister k)
  then show ?thesis by (intro exI [of _ "[LeaveLive k]"]) simp
next
  case (OpHardDelete en k)
  then show ?thesis
    by (intro exI [of _ "[LeaveLive k, DropRow en k]"])
      (simp add: HardDelete_def Unregister_def on_store_def Let_def split: option.split)
next
  case (OpSetACL en k acl)
  then show ?thesis using assms setacl_stmts by simp
next
  case (OpLookup en resumer c a app sid)
  have reg: "\<exists>ss. list_all (stmt_ok u) ss \<and> snd (registerResumed en k acl rg) = foldl stmt_step rg ss" for k acl
  proof (cases "fst k = [] \<or> snd (snd k) = [] \<or> map_of (rgEntries rg) k \<noteq> None")
    case True
    then show ?thesis using stmts_same [of u rg] by (auto simp: registerResumed_def)
  next
    case False
    show ?thesis
    proof (cases "rgStore rg = None \<or> saOwner acl = []")
      case True
      then show ?thesis using False
        by (intro exI [of _ "[EnterLive en k acl]"]) (auto simp: registerResumed_def new_entry_def Let_def split: option.split)
    next
      case own: False
      then show ?thesis using False
        by (intro exI [of _ "[EnterLive en k acl, TouchRow en k (geNow en)]"])
          (auto simp: registerResumed_def new_entry_def on_store_def Let_def split: option.split)
    qed
  qed
  have res: "\<exists>ss. list_all (stmt_ok u) ss \<and> snd (snd (resumeAndRegister en resume g app sid rg)) = foldl stmt_step rg ss" for resume g
    using reg stmts_same [of u rg]
    by (auto simp: resumeAndRegister_def Let_def case_prod_beta split: option.split sum.split resume_answer.split)
  have "snd (snd (lookupQualifiedAuth en resumer True c a app sid rg)) = snd (snd (lookupGated en resumer (Some c) app sid rg))"
    by (auto simp: lookupQualifiedAuth_def gate_for_def split: prod.split sum.split)
  moreover have "\<exists>ss. list_all (stmt_ok u) ss \<and> touch_entry en k rg = foldl stmt_step rg ss" for k
    by (rule exI [of _ "[TouchLive en k]"]) simp
  ultimately show ?thesis using OpLookup res stmts_same [of u rg] by (auto simp: lookupGated_def split: option.split)
next
  case (OpEvict en cutoff)
  define rg1 where "rg1 = stmt_step rg (LeaveIdle cutoff)"
  define idle where "idle = filter (\<lambda>(k, e). etTouched e < cutoff) (rgEntries rg)"
  show ?thesis
  proof (cases "rgStore rg")
    case None
    then show ?thesis using OpEvict by (intro exI [of _ "[LeaveIdle cutoff]"]) (simp add: EvictBefore_def Let_def)
  next
    case (Some st)
    have "reg_step rg op = rg1\<lparr>rgStore := Some (foldl (\<lambda>st (k, e). store_Touch en k (etTouched e) st) st idle)\<rparr>"
      using OpEvict Some by (simp add: EvictBefore_def Let_def rg1_def idle_def)
    also have "\<dots> = foldl stmt_step rg1 (map (\<lambda>(k, e). TouchRow en k (etTouched e)) idle)"
      by (rule touch_rows_stmts) (simp add: rg1_def Some)
    finally show ?thesis
      by (intro exI [of _ "LeaveIdle cutoff # map (\<lambda>(k, e). TouchRow en k (etTouched e)) idle"])
        (auto simp: rg1_def list_all_iff)
  qed
next
  case OpRestart
  then show ?thesis by (intro exI [of _ "[Restart]"]) simp
qed



theorem strangers_start_nothing_witness:
  "case lookupQualifiedAuth (env_at 9) (Some demo_resume) True (plain_user ''eve'') ActionSessionRead ''mast'' ''s'' demo_registry of
     (rep, asked, rg') \<Rightarrow> (\<exists>n msg. rep = Reply n msg) \<and> \<not> asked \<and> same_but_touch demo_registry rg'"
proof -
  obtain rep asked rg' where l: "lookupQualifiedAuth (env_at 9) (Some demo_resume) True (plain_user ''eve'') ActionSessionRead ''mast'' ''s''
      demo_registry = (rep, asked, rg')" by (metis prod_cases3)
  have reg: "demo_registry = \<lparr>rgEntries = [((''mast'', ''u'', ''s''), \<lparr>etACL = alice_acl, etTouched = 5, etSeq = 1\<rparr>)], rgSeq = 1,
      rgStore = Some [((''mast'', ''u'', ''s''), \<lparr>awACL = alice_acl, awCreated = 5, awTouched = 5\<rparr>)]\<rparr>" by code_simp
  have "acls_of ''mast'' ''s'' demo_registry = {alice_acl}"
    "rgStore demo_registry = Some [((''mast'', ''u'', ''s''), \<lparr>awACL = alice_acl, awCreated = 5, awTouched = 5\<rparr>)]"
    by (simp_all only: reg acls_of_def) auto
  moreover have "\<not> Authorize (plain_user ''eve'') ActionSessionRead alice_acl" by code_simp
  ultimately show ?thesis using strangers_start_nothing [OF _ _ _ l] l by auto
qed


theorem two_tokens_lock_out_witness: "way_in (demo_listener ''shared'') (demo_request ''shared'' []) \<in> {Inl 401, Inl 403}"
proof -
  have us: "LoadUsersFile 1 demo_users = Inr demo_users" by code_simp
  show ?thesis by (rule two_tokens_lock_out [OF us]) (auto simp: demo_listener_def demo_users_def)
qed

lemma Contains_mid: "Contains (pre @ mid @ post) mid"
proof (induction pre)
  case Nil
  have "HasPrefix (mid @ post) mid" by (simp add: HasPrefix_def)
  then show ?case by (cases "mid @ post") auto
qed simp

theorem listing_exact_witness:
  "ListVisibleTo (\<lambda>pat t. Contains t (butlast (tl pat))) (plain_user ''carol'') [((''mast'', ''u'', ''s''), \<lparr>awACL = alice_acl, awCreated = 5, awTouched = 5\<rparr>)] =
     [((''mast'', ''u'', ''s''), \<lparr>awACL = alice_acl, awCreated = 5, awTouched = 5\<rparr>)]"
proof -
  have l: "Contains (pre @ mid @ post) (butlast (tl (''%'' @ mid @ ''%'')))" for pre mid post
    using Contains_mid [of pre mid post] by (simp add: butlast_append)
  have p: "plain_identity (crIdentity (plain_user ''carol''))" by code_simp
  have "Authorize (plain_user ''carol'') ActionSessionRead alice_acl" by code_simp
  then show ?thesis using listing_exact [where like = "\<lambda>pat t. Contains t (butlast (tl pat))", OF l p] by simp
qed

text \<open>
  A hidden session shows: a stranger is told of a live session in other words than of one that does not exist, and that an
  id is ambiguous where two sessions have it that both deny them.
\<close>

theorem hidden_session_revealed:
  "fst (lookupQualifiedAuth (env_at 9) (Some demo_resume) True (plain_user ''eve'') ActionSessionRead ''mast'' ''s'' demo_registry) =
     Reply 404 ''session not found'' \<and>
   fst (lookupQualifiedAuth (env_at 9) (Some demo_resume) True (plain_user ''eve'') ActionSessionRead ''mast'' ''z'' demo_registry) =
     Reply 404 ''attach: session not found: mast/z'' \<and>
   (case fst (lookupShortcutAuth (env_at 9) None True (plain_user ''eve'') ActionSessionRead ''s''
            (reg_step demo_registry (OpRegister (env_at 6) (''other'', ''u'', ''s'') alice_acl))) of
      Reply n msg \<Rightarrow> n = 409 | Found k \<Rightarrow> False)"
  by code_simp

text \<open>
  Two amendments at once: their writes and their changes of the live entry may interleave so that the table has the one list
  and the live session the other.
\<close>

theorem amends_diverge:
  "let k = (''mast'', ''u'', ''s''); a1 = alice_acl\<lparr>saViewers := [''dave'']\<rparr>; a2 = alice_acl\<lparr>saViewers := []\<rparr>;
       (r1, rg1) = setacl_write (env_at 6) k a1 demo_registry;
       (r2, rg2) = setacl_write (env_at 7) k a2 rg1;
       rg3 = setacl_apply k a1 1 (setacl_apply k a2 1 rg2)
   in r1 = Inr (True, 1) \<and> r2 = Inr (True, 1) \<and> stored_acl rg3 k = Some a2 \<and> map_option etACL (map_of (rgEntries rg3) k) = Some a1"
  by code_simp

text \<open>
  An identity the encoder escapes is not found: a viewer whose identity has an angle bracket may read a session and does not
  see it listed, because the pattern escapes fewer characters than the column.
\<close>

theorem escaped_identity_missed:
  "let c = plain_user ''a<b''; acl = \<lparr>saOwner = ''alice'', saViewers = [''a<b''], saContributors = []\<rparr>
   in Authorize c ActionSessionRead acl \<and>
      ListVisibleTo (\<lambda>pat t. Contains t (butlast (tl pat))) c [((''mast'', ''u'', ''s''), \<lparr>awACL = acl, awCreated = 5, awTouched = 5\<rparr>)] = []"
  by code_simp

end
