(* ===== verification/Workload.thy ===== *)
theory Workload
  imports Effects Go_Float
begin

text \<open>
  The bundle that declares a workload, \<^verbatim>\<open>src/pkg/workload\<close>: its blocks and what they mean when a key is absent
  (\<^verbatim>\<open>bundle.go\<close>), and what the loader accepts (\<^verbatim>\<open>loader.go\<close>); \<^verbatim>\<open>time.ParseDuration\<close> of the standard library, which
  the loader reads durations with.

  A bundle is what the YAML decoder made of the file; a literal argument is its JSON text. Where the loader ranges over a
  map, the order of the list is the order it happened to take.
\<close>

section \<open>Durations\<close>

definition is_digit :: "char \<Rightarrow> bool" where
  "is_digit c \<longleftrightarrow> CHR ''0'' \<le> c \<and> c \<le> CHR ''9''"

definition digit_val :: "char \<Rightarrow> int" where
  "digit_val c = int (of_char c) - 48"

fun leadingInt :: "int \<Rightarrow> string \<Rightarrow> (int \<times> string) option" where
  "leadingInt x [] = Some (x, [])"
| "leadingInt x (c # s) =
     (if \<not> is_digit c then Some (x, c # s)
      else if x > 2 ^ 63 div 10 then None
      else if x * 10 + digit_val c > 2 ^ 63 then None
      else leadingInt (x * 10 + digit_val c) s)"

text \<open>The digits after the point as a number, and the power of ten they count in; digits that would overflow are dropped.\<close>

fun leadingFraction :: "bool \<Rightarrow> int \<Rightarrow> float64 \<Rightarrow> string \<Rightarrow> int \<times> float64 \<times> string" where
  "leadingFraction over x scale [] = (x, scale, [])"
| "leadingFraction over x scale (c # s) =
     (if \<not> is_digit c then (x, scale, c # s)
      else if over then leadingFraction over x scale s
      else if x > (2 ^ 63 - 1) div 10 then leadingFraction True x scale s
      else if x * 10 + digit_val c > 2 ^ 63 then leadingFraction True x scale s
      else leadingFraction False (x * 10 + digit_val c) (fmul scale 10) s)"

definition unitMap :: "(string, int) gomap" where
  "unitMap = [(''ns'', 1), (''us'', 1000), ([CHR 0xC2, CHR 0xB5, CHR ''s''], 1000), ([CHR 0xCE, CHR 0xBC, CHR ''s''], 1000),
     (''ms'', 1000000), (''s'', 1000000000), (''m'', 60000000000), (''h'', 3600000000000)]"

definition unit_char :: "char \<Rightarrow> bool" where
  "unit_char c \<longleftrightarrow> c \<noteq> CHR ''.'' \<and> \<not> is_digit c"

text \<open>One number with its unit: the amount and the text after it.\<close>

definition duration_part :: "string \<Rightarrow> (int \<times> string) option" where
  "duration_part s =
     (case s of
        [] \<Rightarrow> None
      | c # _ \<Rightarrow>
          if c \<noteq> CHR ''.'' \<and> \<not> is_digit c then None
          else case leadingInt 0 s of
                 None \<Rightarrow> None
               | Some (v, s1) \<Rightarrow>
                   (let pre = (length s1 \<noteq> length s);
                        (f, scale, s2, post) =
                          (case s1 of
                             d # s1' \<Rightarrow>
                               if d = CHR ''.''
                               then (let (f, scale, s2) = leadingFraction False 0 1 s1' in (f, scale, s2, length s2 \<noteq> length s1'))
                               else (0, 1, s1, False)
                           | [] \<Rightarrow> (0, 1, s1, False));
                        u = takeWhile unit_char s2; rest = dropWhile unit_char s2
                    in if \<not> pre \<and> \<not> post then None
                       else if u = [] then None
                       else case map_of unitMap u of
                              None \<Rightarrow> None
                            | Some unit \<Rightarrow>
                                if v > 2 ^ 63 div unit then None
                                else
                                  (let w = v * unit + (if 0 < f then \<lfloor>fmul (of_int f) (fdiv (of_int unit) scale)\<rfloor> else 0)
                                   in if 0 < f \<and> w > 2 ^ 63 then None else Some (w, rest))))"

function duration_parts :: "int \<Rightarrow> string \<Rightarrow> int option" where
  "duration_parts d s =
     (if s = [] then Some d
      else case duration_part s of
             None \<Rightarrow> None
           | Some (v, rest) \<Rightarrow>
               if length rest < length s then (if d + v > 2 ^ 63 then None else duration_parts (d + v) rest) else None)"
  by pat_completeness auto
termination by (relation "measure (\<lambda>(d, s). length s)") auto

definition ParseDuration :: "string \<Rightarrow> duration option" where
  "ParseDuration str =
     (let neg = (case str of c # _ \<Rightarrow> c = CHR ''-'' | [] \<Rightarrow> False);
          s = (case str of c # s \<Rightarrow> if c = CHR ''-'' \<or> c = CHR ''+'' then s else str | [] \<Rightarrow> str)
      in if s = ''0'' then Some 0
         else if s = [] then None
         else case duration_parts 0 s of
                None \<Rightarrow> None
              | Some d \<Rightarrow> if neg then Some (- d) else if d > 2 ^ 63 - 1 then None else Some d)"

section \<open>The bundle\<close>

record precondition_decl =
  pdRead :: string
  pdArgs :: "(string, string) gomap"
  pdArgsFrom :: "(string, string) gomap"
  pdFields :: "string list"

record revert_decl =
  rvCall :: string
  rvArgs :: "(string, string) gomap"
  rvArgsFromChange :: "(string, string) gomap"
  rvArgsFromCapture :: "(string, string) gomap"

record capture_decl =
  cdRead :: string
  cdArgs :: "(string, string) gomap"
  cdArgsFrom :: "(string, string) gomap"
  cdFields :: "string list"
  cdRevert :: "revert_decl option"

record catalog_policy = tool_policy +
  cpPrecondition :: "precondition_decl option"
  cpCapture :: "capture_decl option"

record tool_catalog =
  tcMCP :: "string list"
  tcTools :: "catalog_policy list"

record bundle_budget =
  bbMaxTurns :: int
  bbMaxWallclockSeconds :: int
  bbMaxCostUSD :: float64
  bbFinalReport :: bool
  bbMaxModelCallsPerTurn :: int

record hitl =
  htRequireApproval :: bool
  htOnMutation :: string
  htChangeSetTTL :: string

record scheduled_trigger =
  scInterval :: string
  scJitter :: string
  scPrompt :: string

record monitor_collect =
  mcTool :: string
  mcArgs :: "(string, string) gomap"
  mcAs :: string

record monitor_notify =
  mnConversation :: string
  mnDigestAfter :: string

record monitor_ack =
  maTool :: string
  maArgs :: "(string, string) gomap"

record monitor_decl =
  moCollect :: "monitor_collect list"
  moTransitionsFrom :: string
  moNotify :: "monitor_notify option"
  moAck :: "monitor_ack option"

record builtin_tools =
  btWebSearch :: "bool option"
  btURLContext :: "bool option"
  btCodeExecution :: "bool option"

record prompt_cache =
  pcEnabled :: "bool option"
  pcTTL :: string

record agui_decl =
  agExpose :: bool
  agEndpointPath :: string
  agSessionModel :: string
  agStateProjection :: "string list"
  agEmitReasoning :: bool
  agQueueDepth :: "int option"
  agAuthRequired :: bool
  agScopes :: "string list"

record a2a_decl =
  aaExpose :: bool
  aaSkillName :: string
  aaSkillDescription :: string
  aaAuthRequired :: bool
  aaScopes :: "string list"

record workload =
  buSchemaVersion :: int
  buName :: string
  buDescription :: string
  buMode :: string
  buToolCatalog :: tool_catalog
  buSpecialists :: "string list"
  buDispatch :: string
  buMaxConcurrency :: int
  buBudget :: bundle_budget
  buWatchdog :: string
  buBuiltinTools :: builtin_tools
  buPromptCache :: prompt_cache
  buHITL :: hitl
  buHITLPolicy :: hitl
  buPlanner :: bool
  buScheduled :: "scheduled_trigger option"
  buMonitor :: monitor_decl
  buA2A :: a2a_decl
  buAGUI :: agui_decl
  buFilename :: string

datatype bundle_error =
    SchemaTooSmall int | SchemaTooNew int | ParseFailed | HITLTwice
  | NameRequired | RosterEmpty | UnknownMode string | UnknownDispatch string | UnknownWatchdog string | UnknownCacheTTL string
  | UnknownOnMutation string | EmptySpecialist | DuplicateSpecialist string
  | TTLNotDuration string | TTLNotPositive string
  | NoInterval | IntervalNotDuration string | IntervalTooShort string
  | JitterNotDuration string | JitterNegative string | JitterTooLong string
  | NotifyNoConversation | DigestNotDuration string | DigestNegative string | NotifyNoSchedule
  | AckNoTool | AckReserved string | AckCollected string
  | MonitorNoSchedule | CollectNoTool nat | CollectTwice string | TransitionsUnknown string
  | PolicyNoName | DuplicatePolicy string
  | PreconditionNoRead string | PreconditionSelf string | PreconditionField string | PreconditionArg string
  | CaptureNoRead string | CaptureSelf string | CaptureField string | CaptureArg string
  | RevertNoCall string | RevertArg string | RevertTakesNothing string | RevertCaptureArg string | RevertPath string string

section \<open>What a block means\<close>

definition on :: "bool option \<Rightarrow> bool" where
  "on b \<longleftrightarrow> b = Some True"

definition WebSearchOn :: "builtin_tools \<Rightarrow> bool" where "WebSearchOn b = on (btWebSearch b)"
definition URLContextOn :: "builtin_tools \<Rightarrow> bool" where "URLContextOn b = on (btURLContext b)"
definition CodeExecutionOn :: "builtin_tools \<Rightarrow> bool" where "CodeExecutionOn b = on (btCodeExecution b)"

definition cache_On :: "prompt_cache \<Rightarrow> bool" where
  "cache_On p \<longleftrightarrow> pcEnabled p = None \<or> pcEnabled p = Some True"

definition EffectiveTTL :: "prompt_cache \<Rightarrow> string" where
  "EffectiveTTL p = (if pcTTL p = ''1h'' then ''1h'' else ''5m'')"

definition RunQueueDepth :: "agui_decl \<Rightarrow> int" where
  "RunQueueDepth a = (case agQueueDepth a of Some d \<Rightarrow> d | None \<Rightarrow> 3)"

definition EffectiveOnMutation :: "hitl \<Rightarrow> string" where
  "EffectiveOnMutation h = (if htOnMutation h = [] then ''require_approval'' else htOnMutation h)"

definition EffectiveChangeSetTTL :: "hitl \<Rightarrow> bundle_error + duration" where
  "EffectiveChangeSetTTL h =
     (if TrimSpace (htChangeSetTTL h) = [] then Inr 0
      else case ParseDuration (htChangeSetTTL h) of
             None \<Rightarrow> Inl (TTLNotDuration (htChangeSetTTL h))
           | Some d \<Rightarrow> if d \<le> 0 then Inl (TTLNotPositive (htChangeSetTTL h)) else Inr d)"

definition minScheduledInterval :: duration where "minScheduledInterval = 1000000000"
definition defaultMaxJitter :: duration where "defaultMaxJitter = 30000000000"

definition EffectiveInterval :: "scheduled_trigger option \<Rightarrow> bundle_error + duration" where
  "EffectiveInterval so =
     (case so of
        None \<Rightarrow> Inr 0
      | Some s \<Rightarrow>
          if TrimSpace (scInterval s) = [] then Inl NoInterval
          else case ParseDuration (TrimSpace (scInterval s)) of
                 None \<Rightarrow> Inl (IntervalNotDuration (scInterval s))
               | Some d \<Rightarrow> if d < minScheduledInterval then Inl (IntervalTooShort (scInterval s)) else Inr d)"

definition EffectiveJitter :: "scheduled_trigger option \<Rightarrow> bundle_error + duration" where
  "EffectiveJitter so =
     (case so of
        None \<Rightarrow> Inr 0
      | Some s \<Rightarrow>
          (case EffectiveInterval so of
             Inl e \<Rightarrow> Inl e
           | Inr interval \<Rightarrow>
               if TrimSpace (scJitter s) = [] then Inr (min (interval div 10) defaultMaxJitter)
               else case ParseDuration (scJitter s) of
                      None \<Rightarrow> Inl (JitterNotDuration (scJitter s))
                    | Some d \<Rightarrow>
                        if d < 0 then Inl (JitterNegative (scJitter s))
                        else if interval \<le> d then Inl (JitterTooLong (scJitter s))
                        else Inr d))"

definition collect_Key :: "monitor_collect \<Rightarrow> string" where
  "collect_Key c = (if TrimSpace (mcAs c) \<noteq> [] then TrimSpace (mcAs c) else TrimSpace (mcTool c))"

definition NotifyTarget :: "monitor_decl \<Rightarrow> string" where
  "NotifyTarget m = (case moNotify m of None \<Rightarrow> [] | Some n \<Rightarrow> TrimSpace (mnConversation n))"

definition EffectiveDigestAfter :: "monitor_decl \<Rightarrow> bundle_error + duration" where
  "EffectiveDigestAfter m =
     (case moNotify m of
        None \<Rightarrow> Inr 0
      | Some n \<Rightarrow>
          if TrimSpace (mnDigestAfter n) = [] then Inr 0
          else case ParseDuration (TrimSpace (mnDigestAfter n)) of
                 None \<Rightarrow> Inl (DigestNotDuration (mnDigestAfter n))
               | Some d \<Rightarrow> if d < 0 then Inl (DigestNegative (mnDigestAfter n)) else Inr d)"

definition monitor_Enabled :: "monitor_decl \<Rightarrow> bool" where "monitor_Enabled m \<longleftrightarrow> moCollect m \<noteq> []"

definition TransitionsKey :: "monitor_decl \<Rightarrow> string" where "TransitionsKey m = TrimSpace (moTransitionsFrom m)"

definition CollectTools :: "monitor_decl \<Rightarrow> string list" where
  "CollectTools m = dedup_from [] (filter (\<lambda>n. n \<noteq> []) (map (\<lambda>c. TrimSpace (mcTool c)) (moCollect m)))"

definition AckTool :: "monitor_decl \<Rightarrow> string" where
  "AckTool m = (case moAck m of None \<Rightarrow> [] | Some a \<Rightarrow> TrimSpace (maTool a))"

definition AckArgs :: "monitor_decl \<Rightarrow> (string, string) gomap" where
  "AckArgs m = (case moAck m of None \<Rightarrow> [] | Some a \<Rightarrow> maArgs a)"

definition SelfRunTools :: "monitor_decl \<Rightarrow> string list" where
  "SelfRunTools m =
     (let out = CollectTools m; ack = AckTool m
      in if ack = [] \<or> ack \<in> set out then out else out @ [ack])"

section \<open>The loader\<close>

text \<open>The first of a sequence of checks that finds something.\<close>

fun first_err :: "'e option list \<Rightarrow> 'e option" where
  "first_err [] = None"
| "first_err (None # es) = first_err es"
| "first_err (Some e # es) = Some e"

definition err_if :: "bool \<Rightarrow> 'e \<Rightarrow> 'e option" where
  "err_if b e = (if b then Some e else None)"

definition err_of :: "'e + 'a \<Rightarrow> 'e option" where
  "err_of r = (case r of Inl e \<Rightarrow> Some e | Inr x \<Rightarrow> None)"

definition CurrentSchemaVersion :: int where "CurrentSchemaVersion = 1"

text \<open>The probe: \<open>None\<close> if the file is not YAML, else the version it declares if it does.\<close>

definition checkSchemaVersion :: "int option option \<Rightarrow> bundle_error option" where
  "checkSchemaVersion probe =
     (case probe of
        Some (Some v) \<Rightarrow>
          if v < 1 then Some (SchemaTooSmall v) else if v > CurrentSchemaVersion then Some (SchemaTooNew v) else None
      | _ \<Rightarrow> None)"

definition no_hitl :: hitl where
  "no_hitl = \<lparr>htRequireApproval = False, htOnMutation = [], htChangeSetTTL = []\<rparr>"

definition foldHITLPolicy :: "workload \<Rightarrow> bundle_error + workload" where
  "foldHITLPolicy b =
     (if buHITLPolicy b = no_hitl then Inr b
      else if buHITL b \<noteq> no_hitl then Inl HITLTwice
      else Inr (b\<lparr>buHITL := buHITLPolicy b, buHITLPolicy := no_hitl\<rparr>))"

definition validatePrecondition :: "catalog_policy \<Rightarrow> bundle_error option" where
  "validatePrecondition p =
     (case cpPrecondition p of
        None \<Rightarrow> None
      | Some pre \<Rightarrow> first_err
          [err_if (TrimSpace (pdRead pre) = []) (PreconditionNoRead (tpName p)),
           err_if (pdRead pre = tpName p) (PreconditionSelf (tpName p)),
           err_if (list_ex (\<lambda>f. TrimSpace f = []) (pdFields pre)) (PreconditionField (tpName p)),
           err_if (list_ex (\<lambda>(a, c). TrimSpace a = [] \<or> TrimSpace c = []) (pdArgsFrom pre)) (PreconditionArg (tpName p))])"

fun check_revert_paths :: "string \<Rightarrow> string list \<Rightarrow> (string, string) gomap \<Rightarrow> bundle_error option" where
  "check_revert_paths name paths [] = None"
| "check_revert_paths name paths ((a, path) # rest) =
     (if TrimSpace a = [] \<or> TrimSpace path = [] then Some (RevertCaptureArg name)
      else if paths \<noteq> [] \<and> path \<notin> set paths then Some (RevertPath name path)
      else check_revert_paths name paths rest)"

definition validateCapture :: "catalog_policy \<Rightarrow> bundle_error option" where
  "validateCapture p =
     (case cpCapture p of
        None \<Rightarrow> None
      | Some decl \<Rightarrow> first_err
          [err_if (TrimSpace (cdRead decl) = []) (CaptureNoRead (tpName p)),
           err_if (cdRead decl = tpName p) (CaptureSelf (tpName p)),
           err_if (list_ex (\<lambda>f. TrimSpace f = []) (cdFields decl)) (CaptureField (tpName p)),
           err_if (list_ex (\<lambda>(a, c). TrimSpace a = [] \<or> TrimSpace c = []) (cdArgsFrom decl)) (CaptureArg (tpName p)),
           (case cdRevert decl of
              None \<Rightarrow> None
            | Some rv \<Rightarrow> first_err
                [err_if (TrimSpace (rvCall rv) = []) (RevertNoCall (tpName p)),
                 err_if (list_ex (\<lambda>(a, c). TrimSpace a = [] \<or> TrimSpace c = []) (rvArgsFromChange rv)) (RevertArg (tpName p)),
                 err_if (rvArgsFromCapture rv = [] \<and> rvArgs rv = []) (RevertTakesNothing (tpName p)),
                 check_revert_paths (tpName p) (cdFields decl) (rvArgsFromCapture rv)])])"

definition validateMonitorNotify :: "workload \<Rightarrow> bundle_error option" where
  "validateMonitorNotify b =
     (case moNotify (buMonitor b) of
        None \<Rightarrow> None
      | Some n \<Rightarrow> first_err
          [err_if (NotifyTarget (buMonitor b) = []) NotifyNoConversation,
           err_of (EffectiveDigestAfter (buMonitor b)),
           err_if (buScheduled b = None) NotifyNoSchedule])"

definition AckSubjectArg :: string where "AckSubjectArg = ''subject_key''"
definition AckByArg :: string where "AckByArg = ''ack_by''"

definition validateMonitorAck :: "workload \<Rightarrow> bundle_error option" where
  "validateMonitorAck b =
     (case moAck (buMonitor b) of
        None \<Rightarrow> None
      | Some a \<Rightarrow> first_err
          [err_if (AckTool (buMonitor b) = []) AckNoTool,
           err_if (map_of (maArgs a) AckSubjectArg \<noteq> None) (AckReserved AckSubjectArg),
           err_if (map_of (maArgs a) AckByArg \<noteq> None) (AckReserved AckByArg),
           err_if (list_ex (\<lambda>c. TrimSpace (mcTool c) = AckTool (buMonitor b)) (moCollect (buMonitor b)))
             (AckCollected (AckTool (buMonitor b)))])"

fun check_collect :: "nat \<Rightarrow> string list \<Rightarrow> monitor_collect list \<Rightarrow> bundle_error option" where
  "check_collect i seen [] = None"
| "check_collect i seen (c # cs) =
     (if TrimSpace (mcTool c) = [] then Some (CollectNoTool i)
      else if collect_Key c \<in> set seen then Some (CollectTwice (collect_Key c))
      else check_collect (i + 1) (collect_Key c # seen) cs)"

definition validateMonitor :: "workload \<Rightarrow> bundle_error option" where
  "validateMonitor b =
     (let m = buMonitor b
      in first_err
        [validateMonitorNotify b,
         validateMonitorAck b,
         (if \<not> monitor_Enabled m then None
          else first_err
            [err_if (buScheduled b = None) MonitorNoSchedule,
             check_collect 0 [] (moCollect m),
             err_if (TransitionsKey m \<noteq> [] \<and> TransitionsKey m \<notin> set (map collect_Key (moCollect m)))
               (TransitionsUnknown (TransitionsKey m))])])"

fun check_roster :: "string list \<Rightarrow> string list \<Rightarrow> bundle_error option" where
  "check_roster seen [] = None"
| "check_roster seen (n # ns) =
     (if n = [] then Some EmptySpecialist
      else if n \<in> set seen then Some (DuplicateSpecialist n)
      else check_roster (n # seen) ns)"

fun check_policies :: "string list \<Rightarrow> catalog_policy list \<Rightarrow> bundle_error option" where
  "check_policies seen [] = None"
| "check_policies seen (p # ps) =
     (if tpName p = [] then Some PolicyNoName
      else if tpName p \<in> set seen then Some (DuplicatePolicy (tpName p))
      else first_err [validatePrecondition p, validateCapture p, check_policies (tpName p # seen) ps])"

definition dispatch_names :: "string list" where
  "dispatch_names = [''coordinator'', ''graph'', ''fanout'', ''bounded'', ''auto'']"

definition bundle_validate :: "workload \<Rightarrow> bundle_error option" where
  "bundle_validate b =
     first_err
       [err_if (buName b = []) NameRequired,
        err_if (buSpecialists b = []) RosterEmpty,
        err_if (buMode b \<notin> {[], ''single_session'', ''multi_session''}) (UnknownMode (buMode b)),
        err_if (buDispatch b \<noteq> [] \<and> buDispatch b \<notin> set dispatch_names) (UnknownDispatch (buDispatch b)),
        err_if (buWatchdog b \<notin> {[], ''warn'', ''feedback'', ''enforce''}) (UnknownWatchdog (buWatchdog b)),
        err_if (pcTTL (buPromptCache b) \<notin> {[], ''5m'', ''1h''}) (UnknownCacheTTL (pcTTL (buPromptCache b))),
        err_if (htOnMutation (buHITL b) \<notin> {[], ''require_approval'', ''apply'', ''dry_run''}) (UnknownOnMutation (htOnMutation (buHITL b))),
        check_roster [] (buSpecialists b),
        err_of (EffectiveChangeSetTTL (buHITL b)),
        (if buScheduled b = None then None else err_of (EffectiveJitter (buScheduled b))),
        validateMonitor b,
        check_policies [] (tcTools (buToolCatalog b))]"

text \<open>Loading: the probe of the version, and what the strict decoder made of the file (\<open>None\<close> for an error).\<close>

definition Load :: "int option option \<Rightarrow> workload option \<Rightarrow> string \<Rightarrow> bundle_error + workload" where
  "Load probe decoded path =
     (case checkSchemaVersion probe of
        Some e \<Rightarrow> Inl e
      | None \<Rightarrow>
          (case decoded of
             None \<Rightarrow> Inl ParseFailed
           | Some b0 \<Rightarrow>
               (let b1 = b0\<lparr>buSchemaVersion := (if buSchemaVersion b0 = 0 then 1 else buSchemaVersion b0), buFilename := path\<rparr>
                in case foldHITLPolicy b1 of
                     Inl e \<Rightarrow> Inl e
                   | Inr b2 \<Rightarrow>
                       (case bundle_validate b2 of
                          Some e \<Rightarrow> Inl e
                        | None \<Rightarrow> Inr (b2\<lparr>buMode := (if buMode b2 = [] then ''single_session'' else buMode b2)\<rparr>)))))"

text \<open>\<^verbatim>\<open>compose.MutationPredicate\<close>: which tools of a bundle mutate.\<close>

definition MutationPredicate :: "workload \<Rightarrow> predicate" where
  "MutationPredicate b = NewPredicate (Overrides (map tool_policy.truncate (tcTools (buToolCatalog b))) [])"


section \<open>What is claimed\<close>

definition blank :: "string \<Rightarrow> bool" where
  "blank s \<longleftrightarrow> TrimSpace s = []"

definition maps_names :: "(string, string) gomap \<Rightarrow> bool" where
  "maps_names m \<longleftrightarrow> (\<forall>(a, c)\<in>set m. \<not> blank a \<and> \<not> blank c)"

definition precondition_ok :: "catalog_policy \<Rightarrow> bool" where
  "precondition_ok p \<longleftrightarrow> (\<forall>pre. cpPrecondition p = Some pre \<longrightarrow>
     \<not> blank (pdRead pre) \<and> pdRead pre \<noteq> tpName p \<and> (\<forall>f\<in>set (pdFields pre). \<not> blank f) \<and> maps_names (pdArgsFrom pre))"

text \<open>A revert calls a tool, takes something from the capture or literal arguments, and from the capture only what it records.\<close>

definition revert_ok :: "capture_decl \<Rightarrow> bool" where
  "revert_ok decl \<longleftrightarrow> (\<forall>rv. cdRevert decl = Some rv \<longrightarrow>
     \<not> blank (rvCall rv) \<and> maps_names (rvArgsFromChange rv) \<and> maps_names (rvArgsFromCapture rv) \<and>
     (rvArgsFromCapture rv \<noteq> [] \<or> rvArgs rv \<noteq> []) \<and>
     (cdFields decl = [] \<or> snd ` set (rvArgsFromCapture rv) \<subseteq> set (cdFields decl)))"

definition capture_ok :: "catalog_policy \<Rightarrow> bool" where
  "capture_ok p \<longleftrightarrow> (\<forall>decl. cpCapture p = Some decl \<longrightarrow>
     \<not> blank (cdRead decl) \<and> cdRead decl \<noteq> tpName p \<and> (\<forall>f\<in>set (cdFields decl). \<not> blank f) \<and> maps_names (cdArgsFrom decl) \<and> revert_ok decl)"

definition schedule_ok :: "scheduled_trigger \<Rightarrow> bool" where
  "schedule_ok s \<longleftrightarrow> (\<exists>d. ParseDuration (TrimSpace (scInterval s)) = Some d \<and> minScheduledInterval \<le> d \<and>
     (blank (scJitter s) \<or> (\<exists>j. ParseDuration (scJitter s) = Some j \<and> 0 \<le> j \<and> j < d)))"

definition notify_ok :: "workload \<Rightarrow> bool" where
  "notify_ok b \<longleftrightarrow> (\<forall>n. moNotify (buMonitor b) = Some n \<longrightarrow>
     \<not> blank (mnConversation n) \<and> buScheduled b \<noteq> None \<and>
     (blank (mnDigestAfter n) \<or> (\<exists>d. ParseDuration (TrimSpace (mnDigestAfter n)) = Some d \<and> 0 \<le> d)))"

definition ack_ok :: "workload \<Rightarrow> bool" where
  "ack_ok b \<longleftrightarrow> (\<forall>a. moAck (buMonitor b) = Some a \<longrightarrow>
     \<not> blank (maTool a) \<and> {AckSubjectArg, AckByArg} \<inter> fst ` set (maArgs a) = {} \<and>
     TrimSpace (maTool a) \<notin> (\<lambda>c. TrimSpace (mcTool c)) ` set (moCollect (buMonitor b)))"

definition collect_ok :: "workload \<Rightarrow> bool" where
  "collect_ok b \<longleftrightarrow> moCollect (buMonitor b) = [] \<or>
     buScheduled b \<noteq> None \<and> (\<forall>c\<in>set (moCollect (buMonitor b)). \<not> blank (mcTool c)) \<and>
     distinct (map collect_Key (moCollect (buMonitor b))) \<and>
     (TransitionsKey (buMonitor b) = [] \<or> TransitionsKey (buMonitor b) \<in> set (map collect_Key (moCollect (buMonitor b))))"

definition words_ok :: "workload \<Rightarrow> bool" where
  "words_ok b \<longleftrightarrow> buMode b \<in> {[], ''single_session'', ''multi_session''} \<and>
     buDispatch b \<in> {[], ''coordinator'', ''graph'', ''fanout'', ''bounded'', ''auto''} \<and>
     buWatchdog b \<in> {[], ''warn'', ''feedback'', ''enforce''} \<and> pcTTL (buPromptCache b) \<in> {[], ''5m'', ''1h''} \<and>
     htOnMutation (buHITL b) \<in> {[], ''require_approval'', ''apply'', ''dry_run''}"

definition ttl_ok :: "hitl \<Rightarrow> bool" where
  "ttl_ok h \<longleftrightarrow> blank (htChangeSetTTL h) \<or> (\<exists>d. ParseDuration (htChangeSetTTL h) = Some d \<and> 0 < d)"

text \<open>A bundle that means something: it can dispatch, every word is one it knows, every name is one name, every duration
  is one, a monitor has a cadence to run on, and every check of a change reads another tool.\<close>

definition bundle_ok :: "workload \<Rightarrow> bool" where
  "bundle_ok b \<longleftrightarrow> buName b \<noteq> [] \<and> buSpecialists b \<noteq> [] \<and> distinct (buSpecialists b) \<and> [] \<notin> set (buSpecialists b) \<and> words_ok b \<and>
     ttl_ok (buHITL b) \<and> (\<forall>s. buScheduled b = Some s \<longrightarrow> schedule_ok s) \<and> notify_ok b \<and> ack_ok b \<and> collect_ok b \<and>
     distinct (map tpName (tcTools (buToolCatalog b))) \<and>
     (\<forall>p\<in>set (tcTools (buToolCatalog b)). tpName p \<noteq> [] \<and> precondition_ok p \<and> capture_ok p)"

text \<open>The policy block of a bundle, under either of its two spellings.\<close>

definition declared_hitl :: "workload \<Rightarrow> hitl" where
  "declared_hitl b = (if buHITLPolicy b = no_hitl then buHITL b else buHITLPolicy b)"

text \<open>The bundle of the runs below.\<close>

definition demo_policy :: "string \<Rightarrow> bool \<Rightarrow> catalog_policy" where
  "demo_policy n m = \<lparr>tpName = n, tpMutating = Some m, cpPrecondition = None, cpCapture = None\<rparr>"

definition demo_bundle :: "catalog_policy list \<Rightarrow> workload" where
  "demo_bundle ps =
     \<lparr>buSchemaVersion = 0, buName = ''triage'', buDescription = [], buMode = [],
      buToolCatalog = \<lparr>tcMCP = [''gke''], tcTools = ps\<rparr>, buSpecialists = [''oom'', ''_fallback''], buDispatch = [], buMaxConcurrency = 0,
      buBudget = \<lparr>bbMaxTurns = 0, bbMaxWallclockSeconds = 0, bbMaxCostUSD = 0, bbFinalReport = False, bbMaxModelCallsPerTurn = 0\<rparr>,
      buWatchdog = [], buBuiltinTools = \<lparr>btWebSearch = None, btURLContext = None, btCodeExecution = None\<rparr>,
      buPromptCache = \<lparr>pcEnabled = None, pcTTL = []\<rparr>, buHITL = no_hitl, buHITLPolicy = no_hitl, buPlanner = False,
      buScheduled = Some \<lparr>scInterval = ''1h30m'', scJitter = [], scPrompt = []\<rparr>,
      buMonitor = \<lparr>moCollect = [], moTransitionsFrom = [], moNotify = None, moAck = None\<rparr>,
      buA2A = \<lparr>aaExpose = False, aaSkillName = [], aaSkillDescription = [], aaAuthRequired = False, aaScopes = []\<rparr>,
      buAGUI = \<lparr>agExpose = False, agEndpointPath = [], agSessionModel = [], agStateProjection = [], agEmitReasoning = False,
        agQueueDepth = None, agAuthRequired = False, agScopes = []\<rparr>, buFilename = []\<rparr>"

section \<open>Lemmas and properties\<close>

named_theorems check_simps \<open>checks that found nothing\<close>

lemma first_err_None [check_simps]: "first_err es = None \<longleftrightarrow> (\<forall>e\<in>set es. e = None)"
  by (induction es rule: first_err.induct) auto

lemma err_if_None [check_simps]: "err_if b e = None \<longleftrightarrow> \<not> b"
  by (simp add: err_if_def)

lemma err_of_None [check_simps]: "err_of r = None \<longleftrightarrow> (\<exists>x. r = Inr x)"
  by (cases r) (auto simp: err_of_def)

lemma list_ex_names [check_simps]: "list_ex (\<lambda>(a, c). TrimSpace a = [] \<or> TrimSpace c = []) m \<longleftrightarrow> \<not> maps_names m"
  by (auto simp: maps_names_def blank_def list_ex_iff)

lemma list_ex_blank [check_simps]: "list_ex (\<lambda>f. TrimSpace f = []) fs \<longleftrightarrow> (\<exists>f\<in>set fs. blank f)"
  by (auto simp: blank_def list_ex_iff)

lemma check_roster_None: "check_roster seen ns = None \<longleftrightarrow> distinct ns \<and> [] \<notin> set ns \<and> set ns \<inter> set seen = {}"
  by (induction seen ns rule: check_roster.induct) auto

lemma check_collect_None:
  "check_collect i seen cs = None \<longleftrightarrow>
     (\<forall>c\<in>set cs. \<not> blank (mcTool c)) \<and> distinct (map collect_Key cs) \<and> collect_Key ` set cs \<inter> set seen = {}"
  by (induction i seen cs rule: check_collect.induct) (auto simp: blank_def)

lemma check_revert_None:
  "check_revert_paths n paths m = None \<longleftrightarrow> maps_names m \<and> (paths = [] \<or> snd ` set m \<subseteq> set paths)"
  by (induction n paths m rule: check_revert_paths.induct) (auto simp: maps_names_def blank_def)

lemma precondition_None: "validatePrecondition p = None \<longleftrightarrow> precondition_ok p"
  by (auto simp: validatePrecondition_def precondition_ok_def check_simps blank_def split: option.splits)

lemma capture_None: "validateCapture p = None \<longleftrightarrow> capture_ok p"
  by (auto simp: validateCapture_def capture_ok_def revert_ok_def check_simps check_revert_None blank_def split: option.splits)

lemma check_policies_None:
  "check_policies seen ps = None \<longleftrightarrow> distinct (map tpName ps) \<and> tpName ` set ps \<inter> set seen = {} \<and>
     (\<forall>p\<in>set ps. tpName p \<noteq> [] \<and> precondition_ok p \<and> capture_ok p)"
  by (induction seen ps rule: check_policies.induct) (auto simp: check_simps precondition_None capture_None)

lemma ttl_None: "(\<exists>d. EffectiveChangeSetTTL h = Inr d) \<longleftrightarrow> ttl_ok h"
  by (auto simp: EffectiveChangeSetTTL_def ttl_ok_def blank_def split: option.splits)

lemma duration_blank: "blank s \<Longrightarrow> ParseDuration (TrimSpace s) = None"
  by (simp add: blank_def ParseDuration_def)

lemma jitter_None: "(\<exists>d. EffectiveJitter (Some s) = Inr d) \<longleftrightarrow> schedule_ok s"
  using duration_blank [of "scInterval s"]
  by (auto simp: EffectiveJitter_def EffectiveInterval_def schedule_ok_def blank_def not_le not_less split: option.splits)

lemma notify_None: "validateMonitorNotify b = None \<longleftrightarrow> notify_ok b"
  by (auto simp: validateMonitorNotify_def notify_ok_def NotifyTarget_def EffectiveDigestAfter_def check_simps blank_def not_less split: option.splits)

lemma ack_None: "validateMonitorAck b = None \<longleftrightarrow> ack_ok b"
proof (cases "moAck (buMonitor b)")
  case (Some a)
  have "list_ex (\<lambda>c. TrimSpace (mcTool c) = t) cs \<longleftrightarrow> t \<in> (\<lambda>c. TrimSpace (mcTool c)) ` set cs" for t and cs :: "monitor_collect list"
    by (induction cs) auto
  then show ?thesis using Some
    by (simp add: validateMonitorAck_def ack_ok_def AckTool_def check_simps blank_def map_of_eq_None_iff)
qed (simp add: validateMonitorAck_def ack_ok_def)

lemma monitor_None: "validateMonitor b = None \<longleftrightarrow> notify_ok b \<and> ack_ok b \<and> collect_ok b"
  by (auto simp: validateMonitor_def Let_def check_simps notify_None ack_None check_collect_None monitor_Enabled_def collect_ok_def)

lemma validate_None: "bundle_validate b = None \<longleftrightarrow> bundle_ok b"
proof -
  have s: "(if buScheduled b = None then None else err_of (EffectiveJitter (buScheduled b))) = None \<longleftrightarrow>
      (\<forall>s. buScheduled b = Some s \<longrightarrow> schedule_ok s)"
    by (cases "buScheduled b") (auto simp: err_of_None jitter_None)
  show ?thesis
    unfolding bundle_validate_def first_err_None
    by (simp add: s err_if_None err_of_None ttl_None monitor_None check_roster_None check_policies_None bundle_ok_def words_ok_def dispatch_names_def)
      blast
qed

text \<open>
  The loader accepts exactly the bundles that mean something: it loads a bundle if and only if the file parses strictly, its
  schema version is absent or the one this program speaks, its policy block is written under one of the two spellings only,
  and it is well formed; and what it loads is what was declared, under the policy that was declared, with the mode
  defaulted.
\<close>

theorem bundle_accepted_exactly:
  "Load probe decoded path = Inr b \<longleftrightarrow>
     (\<exists>b0. decoded = Some b0 \<and> probe \<in> {None, Some None, Some (Some 1)} \<and> (buHITL b0 = no_hitl \<or> buHITLPolicy b0 = no_hitl) \<and>
        bundle_ok (b0\<lparr>buHITL := declared_hitl b0\<rparr>) \<and>
        b = b0\<lparr>buSchemaVersion := (if buSchemaVersion b0 = 0 then 1 else buSchemaVersion b0), buFilename := path,
              buHITL := declared_hitl b0, buHITLPolicy := no_hitl, buMode := (if buMode b0 = [] then ''single_session'' else buMode b0)\<rparr>)"
proof -
  have v: "checkSchemaVersion probe = None \<longleftrightarrow> probe \<in> {None, Some None, Some (Some 1)}"
    by (auto simp: checkSchemaVersion_def CurrentSchemaVersion_def split: option.splits)
  have ok: "bundle_ok (b0\<lparr>buSchemaVersion := n, buFilename := path, buHITL := h, buHITLPolicy := h'\<rparr>) \<longleftrightarrow> bundle_ok (b0\<lparr>buHITL := h\<rparr>)"
    for b0 n h h' by (simp add: bundle_ok_def words_ok_def notify_ok_def ack_ok_def collect_ok_def)
  show ?thesis
  proof (cases decoded)
    case None
    then show ?thesis by (auto simp: Load_def split: option.splits)
  next
    case (Some b0)
    define n where "n = (if buSchemaVersion b0 = 0 then 1 else buSchemaVersion b0)"
    have fold: "foldHITLPolicy (b0\<lparr>buSchemaVersion := n, buFilename := path\<rparr>) =
        (if buHITL b0 = no_hitl \<or> buHITLPolicy b0 = no_hitl
         then Inr (b0\<lparr>buSchemaVersion := n, buFilename := path, buHITL := declared_hitl b0, buHITLPolicy := no_hitl\<rparr>) else Inl HITLTwice)"
      by (auto simp: foldHITLPolicy_def declared_hitl_def)
    define b2 where "b2 = b0\<lparr>buSchemaVersion := n, buFilename := path, buHITL := declared_hitl b0, buHITLPolicy := no_hitl\<rparr>"
    have load: "Load probe (Some b0) path =
        (case checkSchemaVersion probe of
           Some e \<Rightarrow> Inl e
         | None \<Rightarrow>
             if buHITL b0 = no_hitl \<or> buHITLPolicy b0 = no_hitl
             then (case bundle_validate b2 of
                     Some e \<Rightarrow> Inl e
                   | None \<Rightarrow> Inr (b2\<lparr>buMode := (if buMode b2 = [] then ''single_session'' else buMode b2)\<rparr>))
             else Inl HITLTwice)"
      unfolding Load_def n_def [symmetric] b2_def Let_def option.case fold by (cases "checkSchemaVersion probe") simp_all
    have "Load probe (Some b0) path = Inr b \<longleftrightarrow>
        checkSchemaVersion probe = None \<and> (buHITL b0 = no_hitl \<or> buHITLPolicy b0 = no_hitl) \<and> bundle_validate b2 = None \<and>
        b = b2\<lparr>buMode := (if buMode b2 = [] then ''single_session'' else buMode b2)\<rparr>"
      unfolding load by (cases "checkSchemaVersion probe"; cases "bundle_validate b2") auto
    also have "bundle_validate b2 = None \<longleftrightarrow> bundle_ok (b0\<lparr>buHITL := declared_hitl b0\<rparr>)" by (simp only: validate_None b2_def ok)
    also have "b2\<lparr>buMode := (if buMode b2 = [] then ''single_session'' else buMode b2)\<rparr> =
        b0\<lparr>buSchemaVersion := n, buFilename := path, buHITL := declared_hitl b0, buHITLPolicy := no_hitl,
           buMode := (if buMode b0 = [] then ''single_session'' else buMode b0)\<rparr>" by (simp add: b2_def)
    finally show ?thesis unfolding Some v n_def by simp
  qed
qed


subsection \<open>Which tools mutate\<close>

lemma Overrides_other: "n \<notin> (\<lambda>p. TrimSpace (tpName p)) ` set ps \<Longrightarrow> map_of (Overrides ps out) n = map_of out n"
  by (induction ps out rule: Overrides.induct) (auto simp: Let_def split: option.splits)

lemma Overrides_declared:
  assumes "distinct (map (\<lambda>p. TrimSpace (tpName p)) ps)" "p \<in> set ps" "TrimSpace (tpName p) \<noteq> []"
  shows "map_of (Overrides ps out) (TrimSpace (tpName p)) = (case tpMutating p of None \<Rightarrow> map_of out (TrimSpace (tpName p)) | Some m \<Rightarrow> Some m)"
  using assms
proof (induction ps out rule: Overrides.induct)
  case (2 q ps out)
  show ?case
  proof (cases "p = q")
    case True
    then have "TrimSpace (tpName p) \<notin> (\<lambda>p. TrimSpace (tpName p)) ` set ps" using 2(4) by auto
    then show ?thesis using True 2(6) Overrides_other by (auto simp: Let_def split: option.split)
  next
    case False
    then have p: "p \<in> set ps" "TrimSpace (tpName p) \<noteq> TrimSpace (tpName q)" using 2(4,5) by (auto simp: image_iff)
    show ?thesis using 2(1-3) 2(4,6) p by (auto simp: Let_def split: option.split)
  qed
qed simp

lemma truncated_names [simp]: "tpName (tool_policy.truncate p) = tpName p" "tpMutating (tool_policy.truncate p) = tpMutating p"
  by (simp_all add: tool_policy.truncate_def)

text \<open>
  What a bundle says about a tool holds: in a loaded bundle whose tools have different names once the space around them is
  cut, a tool with a declaration is classified as declared, unless it is one of the runner's own control calls; and a tool
  that is neither declared nor built in is mutating.
\<close>

theorem declared_class_holds:
  assumes "Load probe decoded path = Inr b" "distinct (map (\<lambda>p. TrimSpace (tpName p)) (tcTools (buToolCatalog b)))"
  shows "(\<forall>p m. p \<in> set (tcTools (buToolCatalog b)) \<longrightarrow> tpMutating p = Some m \<longrightarrow> TrimSpace (tpName p) \<noteq> [] \<longrightarrow> TrimSpace (tpName p) \<notin> set controlCalls \<longrightarrow>
      MutationPredicate b (TrimSpace (tpName p)) = (if m then ClassMutating else ClassReadOnly)) \<and>
    (\<forall>n. n \<notin> set controlCalls \<longrightarrow> map_of builtinClasses n = None \<longrightarrow>
      n \<notin> (\<lambda>p. TrimSpace (tpName p)) ` set (tcTools (buToolCatalog b)) \<longrightarrow> MutationPredicate b n = ClassMutating)"
proof (intro conjI allI impI)
  let ?ps = "map tool_policy.truncate (tcTools (buToolCatalog b))"
  fix p m
  assume p: "p \<in> set (tcTools (buToolCatalog b))" "tpMutating p = Some m" "TrimSpace (tpName p) \<noteq> []" "TrimSpace (tpName p) \<notin> set controlCalls"
  have "map_of (Overrides ?ps []) (TrimSpace (tpName (tool_policy.truncate p))) = Some m"
    using Overrides_declared [of ?ps "tool_policy.truncate p" "[]"] assms(2) p by (simp add: comp_def)
  then show "MutationPredicate b (TrimSpace (tpName p)) = (if m then ClassMutating else ClassReadOnly)"
    using p(4) by (simp add: MutationPredicate_def NewPredicate_def NewPredicateWithHints_def)
next
  let ?ps = "map tool_policy.truncate (tcTools (buToolCatalog b))"
  fix n
  assume n: "n \<notin> set controlCalls" "map_of builtinClasses n = None" "n \<notin> (\<lambda>p. TrimSpace (tpName p)) ` set (tcTools (buToolCatalog b))"
  then have "map_of (Overrides ?ps []) n = None" using Overrides_other [of n ?ps "[]"] by (simp add: image_image)
  then show "MutationPredicate b n = ClassMutating" using n by (simp add: MutationPredicate_def NewPredicate_def NewPredicateWithHints_def)
qed

text \<open>
  A declaration can be taken back unseen: the loader compares the names of tools as written and the classifier cuts the
  space around them, so a bundle that declares a tool mutating and, with a space in front of its name, read-only, loads, and
  the tool runs without an operator.
\<close>

theorem shadowed_declaration_loads:
  "case Load None (Some (demo_bundle [demo_policy ''scale'' True, demo_policy '' scale'' False])) [] of
     Inl e \<Rightarrow> False
   | Inr b \<Rightarrow> (\<exists>p\<in>set (tcTools (buToolCatalog b)). tpName p = ''scale'' \<and> tpMutating p = Some True) \<and> MutationPredicate b ''scale'' = ClassReadOnly"
  by code_simp

theorem declared_class_holds_witness:
  "\<exists>b. Load None (Some (demo_bundle [demo_policy ''scale'' True])) [] = Inr b \<and> MutationPredicate b ''scale'' = ClassMutating"
proof -
  let ?l = "Load None (Some (demo_bundle [demo_policy ''scale'' True])) []"
  have "case ?l of Inl e \<Rightarrow> False | Inr b \<Rightarrow> tcTools (buToolCatalog b) = [demo_policy ''scale'' True]" by code_simp
  then obtain b where b: "?l = Inr b" "tcTools (buToolCatalog b) = [demo_policy ''scale'' True]" by (auto split: sum.splits)
  have "TrimSpace ''scale'' = ''scale''" "''scale'' \<notin> set controlCalls" by code_simp+
  then have "MutationPredicate b ''scale'' = ClassMutating"
    using declared_class_holds [OF b(1)] b(2) by (auto simp: demo_policy_def)
  then show ?thesis using b(1) by blast
qed

text \<open>
  A fire keeps its cadence: the jitter of a schedule that loads is not negative and smaller than its interval, which is a
  second at least; without a declaration it is a tenth of the interval and half a minute at most.
\<close>

theorem jitter_keeps_cadence:
  assumes "Load probe decoded path = Inr b" "buScheduled b = Some s"
  shows "\<exists>d j. EffectiveInterval (Some s) = Inr d \<and> EffectiveJitter (Some s) = Inr j \<and> minScheduledInterval \<le> d \<and> 0 \<le> j \<and> j < d \<and>
    (blank (scJitter s) \<longrightarrow> j * 10 \<le> d \<and> j \<le> defaultMaxJitter)"
proof -
  have "schedule_ok s" using assms unfolding bundle_accepted_exactly by (auto simp: bundle_ok_def)
  then obtain d where d: "ParseDuration (TrimSpace (scInterval s)) = Some d" "minScheduledInterval \<le> d"
    "blank (scJitter s) \<or> (\<exists>j. ParseDuration (scJitter s) = Some j \<and> 0 \<le> j \<and> j < d)" unfolding schedule_ok_def by blast
  have i: "EffectiveInterval (Some s) = Inr d"
    using d(1,2) duration_blank [of "scInterval s"] by (auto simp: EffectiveInterval_def blank_def)
  have "0 < d" using d(2) by (simp add: minScheduledInterval_def)
  then have "0 \<le> min (d div 10) defaultMaxJitter" "min (d div 10) defaultMaxJitter < d" "min (d div 10) defaultMaxJitter * 10 \<le> d"
    by (auto simp: defaultMaxJitter_def min_def)
  then show ?thesis using d(2,3) i by (auto simp: EffectiveJitter_def blank_def)
qed

theorem jitter_keeps_cadence_witness:
  "\<exists>d j. EffectiveInterval (Some \<lparr>scInterval = ''1h30m'', scJitter = [], scPrompt = []\<rparr>) = Inr d \<and>
     EffectiveJitter (Some \<lparr>scInterval = ''1h30m'', scJitter = [], scPrompt = []\<rparr>) = Inr j \<and> 0 \<le> j \<and> j < d"
proof -
  let ?l = "Load None (Some (demo_bundle [])) []"
  have "case ?l of Inl e \<Rightarrow> False | Inr b \<Rightarrow> buScheduled b = Some \<lparr>scInterval = ''1h30m'', scJitter = [], scPrompt = []\<rparr>" by code_simp
  then obtain b where b: "?l = Inr b" "buScheduled b = Some \<lparr>scInterval = ''1h30m'', scJitter = [], scPrompt = []\<rparr>" by (auto split: sum.splits)
  show ?thesis using jitter_keeps_cadence [OF b] by blast
qed

end
