(* ===== verification/Roster.thy ===== *)
theory Roster
  imports Workload
begin

text \<open>
  The specialists of a workload and what each of them can reach: the files that declare them
  (\<^verbatim>\<open>src/pkg/specialists/spec.go\<close>, \<^verbatim>\<open>loader.go\<close>), the tools they are built with (\<^verbatim>\<open>register.go\<close>, \<^verbatim>\<open>allowlist.go\<close>), the checks
  of a roster at startup (\<^verbatim>\<open>src/internal/compose/capability.go\<close>, \<^verbatim>\<open>mcpnames.go\<close>, \<^verbatim>\<open>monitor.go\<close>, \<^verbatim>\<open>bounded.go\<close>, the branch
  check of \<^verbatim>\<open>src/internal/graph/fanout.go\<close>), and the root they are composed into (\<^verbatim>\<open>compose.go\<close>, with the conditions of
  \<^verbatim>\<open>src/internal/router/router.go\<close>, \<^verbatim>\<open>graph.go\<close> and \<^verbatim>\<open>planner.go\<close>).

  A toolset is its name and the tools its server serves; an agent is the specification it was built from with its toolsets.
  The YAML decoder, the loader of output schemas and the check for stale placeholders are arguments, and the agent framework's
  constructors succeed.
\<close>

section \<open>Specifications\<close>

record spec_budget =
  sbMaxTurns :: int
  sbMaxWallclockSeconds :: int
  sbMaxCostUSD :: float64

text \<open>\<open>None\<close> is an absent key: the specialist inherits every toolset.\<close>

record tool_allowlist =
  taBuiltin :: "string list"
  taMCP :: "(string \<times> string list) list option"
  taSkills :: "string list"

definition InheritsAllMCP :: "tool_allowlist \<Rightarrow> bool" where
  "InheritsAllMCP t \<longleftrightarrow> taMCP t = None"

definition mcp_entries :: "tool_allowlist \<Rightarrow> (string \<times> string list) list" where
  "mcp_entries t = (case taMCP t of None \<Rightarrow> [] | Some al \<Rightarrow> al)"

record frontmatter =
  fmName :: string
  fmDescription :: string
  fmMode :: string
  fmModel :: string
  fmTier :: string
  fmCapability :: string
  fmBudget :: spec_budget
  fmTools :: tool_allowlist
  fmOutputSchema :: string

record spec =
  spFilename :: string
  spName :: string
  spDescription :: string
  spMode :: string
  spModel :: string
  spTier :: string
  spCapability :: string
  spBudget :: spec_budget
  spTools :: tool_allowlist
  spInstruction :: string
  spOutputSchema :: "string option"

definition ModeTask :: string where "ModeTask = ''Task''"
definition ModeSingleTurn :: string where "ModeSingleTurn = ''SingleTurn''"
definition CapabilityReadOnly :: string where "CapabilityReadOnly = ''read_only''"
definition CapabilityChangeExecutor :: string where "CapabilityChangeExecutor = ''change_executor''"

datatype spec_error =
    ReadDirFailed | LegacyFiles "string list" | ReadFailed | NoFrontmatter | NoTerminator | FrontmatterParse | StalePlaceholders
  | DescriptionRequired | SpecUnknownMode string | SpecUnknownCapability string | SpecUnknownTier string | ModelAndTier | SkillsListed nat | SchemaFailed

section \<open>Loading a specialist\<close>

definition Extension :: string where "Extension = ''.specialist.md''"
definition legacyExtension :: string where "legacyExtension = ''.tmpl''"

definition specialistName :: "string \<Rightarrow> string \<times> bool" where
  "specialistName base =
     (if HasSuffix base Extension then (take (length base - length Extension) base, True) else (base, False))"

definition frontmatter_space :: "char \<Rightarrow> bool" where
  "frontmatter_space c \<longleftrightarrow> c \<in> {CHR '' '', CHR 0x09, CHR 0x0D, CHR 0x0A}"

text \<open>The text before and after the first occurrence of a mark.\<close>

fun cut_at :: "string \<Rightarrow> string \<Rightarrow> (string \<times> string) option" where
  "cut_at m [] = (if m = [] then Some ([], []) else None)"
| "cut_at m (c # s) =
     (if HasPrefix (c # s) m then Some ([], drop (length m) (c # s))
      else case cut_at m s of None \<Rightarrow> None | Some (a, b) \<Rightarrow> Some (c # a, b))"

definition splitFrontmatter :: "(string \<Rightarrow> frontmatter option) \<Rightarrow> string \<Rightarrow> spec_error + frontmatter \<times> string" where
  "splitFrontmatter decode data =
     (let trimmed = dropWhile frontmatter_space data
      in if \<not> HasPrefix trimmed ''---'' then Inl NoFrontmatter
         else case cut_at [CHR 0x0A] (drop 3 trimmed) of
                None \<Rightarrow> Inl NoTerminator
              | Some (_, rest) \<Rightarrow>
                  (case cut_at ([CHR 0x0A] @ ''---'') rest of
                     None \<Rightarrow> Inl NoTerminator
                   | Some (yaml, body) \<Rightarrow>
                       (case decode yaml of
                          None \<Rightarrow> Inl FrontmatterParse
                        | Some fm \<Rightarrow> Inr (fm, case body of c # s \<Rightarrow> if c = CHR 0x0A then s else body | [] \<Rightarrow> body))))"

text \<open>\<open>base\<close> is the file's name in its directory, \<open>schema\<close> what the loader of output schemas makes of a path.\<close>

definition LoadFile ::
  "(string \<Rightarrow> frontmatter option) \<Rightarrow> (string \<Rightarrow> bool) \<Rightarrow> (string \<Rightarrow> string option) \<Rightarrow> string \<Rightarrow> string option \<Rightarrow> spec_error + spec" where
  "LoadFile decode stale schema base data =
     (case data of
        None \<Rightarrow> Inl ReadFailed
      | Some text \<Rightarrow>
          (case splitFrontmatter decode text of
             Inl e \<Rightarrow> Inl e
           | Inr (fm, body) \<Rightarrow>
               (let name = (if fmName fm = [] then fst (specialistName base) else fmName fm);
                    mode = (if fmMode fm = [] then ModeTask else fmMode fm);
                    capability = (if fmCapability fm = [] then CapabilityReadOnly else fmCapability fm);
                    mk = (\<lambda>sch. Inr \<lparr>spFilename = base, spName = name, spDescription = fmDescription fm, spMode = mode, spModel = fmModel fm,
                            spTier = fmTier fm, spCapability = capability, spBudget = fmBudget fm, spTools = fmTools fm,
                            spInstruction = TrimSpace body, spOutputSchema = sch\<rparr>)
                in if stale body then Inl StalePlaceholders
                   else if fmDescription fm = [] then Inl DescriptionRequired
                   else if mode \<noteq> ModeTask \<and> mode \<noteq> ModeSingleTurn then Inl (SpecUnknownMode mode)
                   else if capability \<noteq> CapabilityReadOnly \<and> capability \<noteq> CapabilityChangeExecutor then Inl (SpecUnknownCapability capability)
                   else if fmTier fm \<noteq> [] \<and> fmTier fm \<notin> {''small'', ''mid'', ''frontier''} then Inl (SpecUnknownTier (fmTier fm))
                   else if fmTier fm \<noteq> [] \<and> fmModel fm \<noteq> [] then Inl ModelAndTier
                   else if taSkills (fmTools fm) \<noteq> [] then Inl (SkillsListed (length (taSkills (fmTools fm))))
                   else if fmOutputSchema fm = [] then mk None
                   else case schema (fmOutputSchema fm) of None \<Rightarrow> Inl SchemaFailed | Some sch \<Rightarrow> mk (Some sch))))"

record dir_entry =
  deName :: string
  deIsDir :: bool
  deData :: "string option"

fun load_all :: "(dir_entry \<Rightarrow> spec_error + spec) \<Rightarrow> dir_entry list \<Rightarrow> spec_error + spec list" where
  "load_all load [] = Inr []"
| "load_all load (e # es) =
     (case load e of
        Inl err \<Rightarrow> Inl err
      | Inr s \<Rightarrow> (case load_all load es of Inl err \<Rightarrow> Inl err | Inr ss \<Rightarrow> Inr (s # ss)))"

definition LoadDir ::
  "(string \<Rightarrow> frontmatter option) \<Rightarrow> (string \<Rightarrow> bool) \<Rightarrow> (string \<Rightarrow> string option) \<Rightarrow> dir_entry list option \<Rightarrow> spec_error + spec list" where
  "LoadDir decode stale schema dir =
     (case dir of
        None \<Rightarrow> Inl ReadDirFailed
      | Some entries \<Rightarrow>
          (let legacy = filter (\<lambda>n. HasSuffix n legacyExtension) (map deName (filter (\<lambda>e. \<not> deIsDir e) entries))
           in if legacy \<noteq> [] then Inl (LegacyFiles (sort legacy))
              else case load_all (\<lambda>e. LoadFile decode stale schema (deName e) (deData e))
                     (filter (\<lambda>e. \<not> deIsDir e \<and> snd (specialistName (deName e))) entries) of
                     Inl err \<Rightarrow> Inl err
                   | Inr ss \<Rightarrow> Inr (sort_key spName ss)))"

section \<open>Building a specialist\<close>

record toolset =
  tsName :: string
  tsTools :: "string list"

definition narrow :: "toolset \<Rightarrow> string list \<Rightarrow> toolset" where
  "narrow ts allowed = ts\<lparr>tsTools := filter (\<lambda>n. n \<in> set allowed) (tsTools ts)\<rparr>"

text \<open>The entry of a server; of two, the later.\<close>

definition by_server :: "(string \<times> string list) list \<Rightarrow> string \<Rightarrow> string list option" where
  "by_server al = map_of (rev al)"

definition filterToolsets :: "spec \<Rightarrow> toolset list \<Rightarrow> toolset list" where
  "filterToolsets s offered =
     (case taMCP (spTools s) of
        None \<Rightarrow> offered
      | Some al \<Rightarrow>
          concat (map (\<lambda>ts. case by_server al (tsName ts) of
                              None \<Rightarrow> []
                            | Some tools \<Rightarrow> if tools = [] then [ts] else [narrow ts tools]) offered))"

datatype build_error =
    BothModelAndTier | NoResolver | ResolveFailed | NoTierResolver | BuildUnknownMode string
  | RootUnknownDispatch string
  | HostUnnamed | HostTwice string | HostShadows string
  | InheritsCatalog string | AllowsServer string string | AllowsMutating string "string list" | AllowsBuiltin string "string list"
  | UnknownServers string "string list" | PlannerWrites "string list"
  | CollectInherits string | CollectServer string string | CollectTool string "string list" | CollectBuiltin string "string list"
  | BoundedPlanner | BoundedRoster nat | BoundedMode string | BoundedSchema string
  | NoAnalysts | BranchInherits string | BranchServer string string | BranchMutating string "string list" | BranchBuiltin string "string list"
  | BranchOperator string | NoSynthesis | NoClassifier | NoFallback | NotLoaded string

text \<open>The model of a specialist: \<open>None\<close> is the root's. A resolver answers with an error or a model, or is not there.\<close>

definition modelForTier :: "(string \<Rightarrow> string option) option \<Rightarrow> spec \<Rightarrow> build_error + string option" where
  "modelForTier resolveTier s =
     (case resolveTier of
        None \<Rightarrow> Inl NoTierResolver
      | Some f \<Rightarrow> (case f (spTier s) of None \<Rightarrow> Inl ResolveFailed | Some m \<Rightarrow> Inr (Some m)))"

definition modelFor :: "(string \<Rightarrow> string option) option \<Rightarrow> (string \<Rightarrow> string option) option \<Rightarrow> spec \<Rightarrow> build_error + string option" where
  "modelFor resolve resolveTier s =
     (if spModel s \<noteq> [] \<and> spTier s \<noteq> [] then Inl BothModelAndTier
      else if spTier s \<noteq> [] then modelForTier resolveTier s
      else if spModel s = [] then Inr None
      else case resolve of
             None \<Rightarrow> Inl NoResolver
           | Some f \<Rightarrow> (case f (spModel s) of None \<Rightarrow> Inl ResolveFailed | Some m \<Rightarrow> Inr (Some m)))"

record agent =
  anSpec :: spec
  anModel :: "string option"
  anTools :: "string list"
  anToolsets :: "toolset list"

definition spec_Build ::
  "(string \<Rightarrow> string option) option \<Rightarrow> (string \<Rightarrow> string option) option \<Rightarrow> string list \<Rightarrow> toolset list \<Rightarrow> spec \<Rightarrow> build_error + agent" where
  "spec_Build resolve resolveTier tools toolsets s =
     (case modelFor resolve resolveTier s of
        Inl e \<Rightarrow> Inl e
      | Inr m \<Rightarrow>
          if spMode s = ModeTask \<or> spMode s = [] then
            Inr \<lparr>anSpec = s, anModel = m, anTools = tools, anToolsets = filterToolsets s toolsets\<rparr>
          else if spMode s = ModeSingleTurn then Inr \<lparr>anSpec = s, anModel = m, anTools = [], anToolsets = []\<rparr>
          else Inl (BuildUnknownMode (spMode s)))"

section \<open>The checks at startup\<close>

definition mutatingNames :: "predicate \<Rightarrow> string list \<Rightarrow> string list" where
  "mutatingNames pred names = sort (filter (\<lambda>n. pred n \<noteq> ClassReadOnly) names)"

fun CheckHostToolsets_from :: "string list \<Rightarrow> workload \<Rightarrow> string list \<Rightarrow> build_error option" where
  "CheckHostToolsets_from seen b [] = None"
| "CheckHostToolsets_from seen b (n # ns) =
     (if n = [] then Some HostUnnamed
      else if n \<in> set seen then Some (HostTwice n)
      else if n \<in> set (tcMCP (buToolCatalog b)) then Some (HostShadows n)
      else CheckHostToolsets_from (n # seen) b ns)"

definition CheckHostToolsets :: "workload \<Rightarrow> string list \<Rightarrow> build_error option" where
  "CheckHostToolsets b hosts = CheckHostToolsets_from [] b hosts"

text \<open>The entries of an allowlist, in order: a server with no list of tools, or a tool that the test finds bad.\<close>

fun check_entries :: "(string \<Rightarrow> build_error) \<Rightarrow> (string list \<Rightarrow> build_error) \<Rightarrow> (string list \<Rightarrow> string list) \<Rightarrow> (string \<times> string list) list \<Rightarrow> build_error option" where
  "check_entries whole some_bad test [] = None"
| "check_entries whole some_bad test ((server, tools) # al) =
     (if tools = [] then Some (whole server)
      else if test tools \<noteq> [] then Some (some_bad (test tools))
      else check_entries whole some_bad test al)"

definition split_spec :: "bool \<Rightarrow> predicate \<Rightarrow> spec \<Rightarrow> build_error option" where
  "split_spec hasCatalog pred s =
     (if spMode s = ModeSingleTurn then None
      else if spCapability s = CapabilityChangeExecutor then None
      else if hasCatalog \<and> InheritsAllMCP (spTools s) then Some (InheritsCatalog (spName s))
      else case check_entries (AllowsServer (spName s)) (AllowsMutating (spName s)) (mutatingNames pred) (mcp_entries (spTools s)) of
             Some e \<Rightarrow> Some e
           | None \<Rightarrow>
               (let bad = mutatingNames pred (taBuiltin (spTools s)) in if bad \<noteq> [] then Some (AllowsBuiltin (spName s) bad) else None))"

definition CheckCapabilitySplit :: "workload \<Rightarrow> spec list \<Rightarrow> predicate \<Rightarrow> string list \<Rightarrow> build_error option" where
  "CheckCapabilitySplit b specs pred hosts =
     first_err (map (split_spec (tcMCP (buToolCatalog b) \<noteq> [] \<or> hosts \<noteq> []) pred) specs)"

definition CheckMCPServerNames :: "workload \<Rightarrow> spec list \<Rightarrow> string list \<Rightarrow> build_error option" where
  "CheckMCPServerNames b specs hosts =
     (if tcMCP (buToolCatalog b) = [] \<and> hosts = [] then None
      else first_err (map (\<lambda>s.
             (let unknown = filter (\<lambda>n. n \<notin> set (tcMCP (buToolCatalog b)) \<union> set hosts) (map fst (mcp_entries (spTools s)))
              in err_if (unknown \<noteq> []) (UnknownServers (spName s) (sort unknown)))) specs))"

definition change_executors :: "spec list \<Rightarrow> string list" where
  "change_executors specs = map spName (filter (\<lambda>s. spCapability s = CapabilityChangeExecutor) specs)"

definition CheckPlannerWriteSurface :: "workload \<Rightarrow> spec list \<Rightarrow> build_error option" where
  "CheckPlannerWriteSurface b specs =
     (if \<not> buPlanner b then None
      else if EffectiveOnMutation (buHITL b) = ''apply'' then None
      else if change_executors specs = [] then None
      else Some (PlannerWrites (sort (change_executors specs))))"

definition collectNames :: "string list \<Rightarrow> string list \<Rightarrow> string list" where
  "collectNames collect names = sort (filter (\<lambda>n. n \<in> set collect) names)"

definition collect_spec :: "bool \<Rightarrow> string list \<Rightarrow> spec \<Rightarrow> build_error option" where
  "collect_spec hasCatalog collect s =
     (if spMode s = ModeSingleTurn then None
      else if hasCatalog \<and> InheritsAllMCP (spTools s) then Some (CollectInherits (spName s))
      else case check_entries (CollectServer (spName s)) (CollectTool (spName s)) (collectNames collect) (mcp_entries (spTools s)) of
             Some e \<Rightarrow> Some e
           | None \<Rightarrow>
               (let bad = collectNames collect (taBuiltin (spTools s)) in if bad \<noteq> [] then Some (CollectBuiltin (spName s) bad) else None))"

definition CheckMonitorCollectSurface :: "workload \<Rightarrow> spec list \<Rightarrow> build_error option" where
  "CheckMonitorCollectSurface b specs =
     (let collect = SelfRunTools (buMonitor b)
      in if collect = [] then None else first_err (map (collect_spec (tcMCP (buToolCatalog b) \<noteq> []) collect) specs))"

definition boundedSpec :: "workload \<Rightarrow> spec list \<Rightarrow> build_error + spec" where
  "boundedSpec b specs =
     (if buPlanner b then Inl BoundedPlanner
      else case specs of
             [s] \<Rightarrow>
               if spMode s \<noteq> ModeSingleTurn then Inl (BoundedMode (spName s))
               else if spOutputSchema s = None then Inl (BoundedSchema (spName s))
               else Inr s
           | _ \<Rightarrow> Inl (BoundedRoster (length specs)))"

definition Dispatch_Resolve :: "string \<Rightarrow> workload \<Rightarrow> string" where
  "Dispatch_Resolve d b =
     (if d \<noteq> [] \<and> d \<noteq> ''auto'' then d
      else if buDispatch b \<noteq> [] then buDispatch b
      else ''auto'')"

definition CheckRoster :: "workload \<Rightarrow> spec list \<Rightarrow> string \<Rightarrow> build_error option" where
  "CheckRoster b specs dispatch =
     (let resolved = Dispatch_Resolve dispatch b
      in first_err
        [err_if (resolved \<notin> set dispatch_names) (RootUnknownDispatch resolved),
         (if resolved = ''bounded'' then err_of (boundedSpec b specs) else None),
         CheckPlannerWriteSurface b specs,
         CheckMonitorCollectSurface b specs])"

definition SynthesisName :: string where "SynthesisName = ''_synthesis''"
definition FallbackName :: string where "FallbackName = ''_fallback''"

definition RosterShape :: "spec list \<Rightarrow> string" where
  "RosterShape specs =
     (let tasks = filter (\<lambda>s. spMode s \<noteq> ModeSingleTurn) specs
      in if list_ex (\<lambda>s. spName s = SynthesisName) tasks then ''fanout''
         else if list_ex (\<lambda>s. spMode s = ModeSingleTurn) specs \<and> list_ex (\<lambda>s. spName s = FallbackName) tasks then ''graph''
         else ''coordinator'')"

definition operatorInputTool :: string where "operatorInputTool = ''request_operator_input''"

definition branch_spec :: "bool \<Rightarrow> predicate \<Rightarrow> spec \<Rightarrow> build_error option" where
  "branch_spec hasCatalog pred s =
     (if hasCatalog \<and> InheritsAllMCP (spTools s) then Some (BranchInherits (spName s))
      else case check_entries (BranchServer (spName s)) (BranchMutating (spName s)) (mutatingNames pred) (mcp_entries (spTools s)) of
             Some e \<Rightarrow> Some e
           | None \<Rightarrow>
               (let bad = mutatingNames pred (taBuiltin (spTools s))
                in if bad \<noteq> [] then Some (BranchBuiltin (spName s) bad)
                   else if operatorInputTool \<in> set (taBuiltin (spTools s)) then Some (BranchOperator (spName s)) else None))"

definition checkBranchTools :: "workload \<Rightarrow> spec list \<Rightarrow> predicate \<Rightarrow> build_error option" where
  "checkBranchTools b analysts pred = first_err (map (branch_spec (tcMCP (buToolCatalog b) \<noteq> []) pred) analysts)"

section \<open>The root\<close>

datatype root =
    PlannerRoot "agent list"
  | FanoutRoot "agent list" agent
  | BoundedRoot agent
  | GraphRoot agent "agent list"
  | CoordinatorRoot "agent list"

record root_config =
  rcBundle :: workload
  rcSpecs :: "spec list"
  rcPreamble :: string
  rcToolsets :: "toolset list"
  rcSpecialistTools :: "string list"
  rcHostToolsets :: "toolset list"
  rcResolve :: "string \<Rightarrow> string option"
  rcResolveTier :: "string \<Rightarrow> string option"
  rcDispatch :: string

definition WithPreamble :: "string \<Rightarrow> string \<Rightarrow> string" where
  "WithPreamble preamble instruction =
     (if TrimSpace preamble = [] then instruction
      else TrimSpace preamble @ [CHR 0x0A, CHR 0x0A] @ ''---'' @ [CHR 0x0A, CHR 0x0A] @ instruction)"

fun build_all :: "(spec \<Rightarrow> build_error + agent) \<Rightarrow> spec list \<Rightarrow> build_error + agent list" where
  "build_all build [] = Inr []"
| "build_all build (s # ss) =
     (case build s of
        Inl e \<Rightarrow> Inl e
      | Inr a \<Rightarrow> (case build_all build ss of Inl e \<Rightarrow> Inl e | Inr as \<Rightarrow> Inr (a # as)))"

definition is_task :: "agent \<Rightarrow> bool" where "is_task a \<longleftrightarrow> spMode (anSpec a) \<noteq> ModeSingleTurn"

definition agent_name :: "agent \<Rightarrow> string" where "agent_name a = spName (anSpec a)"

definition is_analyst :: "agent \<Rightarrow> bool" where
  "is_analyst a \<longleftrightarrow> is_task a \<and> agent_name a \<noteq> SynthesisName \<and> agent_name a \<noteq> FallbackName"

text \<open>The agent of a name; of two with the same name the later, as in the map they are put into.\<close>

definition named :: "string \<Rightarrow> agent list \<Rightarrow> agent option" where
  "named n as = find (\<lambda>a. agent_name a = n) (rev as)"

definition BuildFanout :: "workload \<Rightarrow> predicate \<Rightarrow> agent list \<Rightarrow> build_error + root" where
  "BuildFanout b pred as =
     (let analysts = filter is_analyst as
      in if analysts = [] then Inl NoAnalysts
         else case checkBranchTools b (map anSpec analysts) pred of
                Some e \<Rightarrow> Inl e
              | None \<Rightarrow>
                  (case named SynthesisName (filter is_task as) of
                     None \<Rightarrow> Inl NoSynthesis
                   | Some syn \<Rightarrow> Inr (FanoutRoot analysts syn)))"

definition graph_Build :: "agent list \<Rightarrow> build_error + root" where
  "graph_Build as =
     (case find (\<lambda>a. \<not> is_task a) as of
        None \<Rightarrow> Inl NoClassifier
      | Some c \<Rightarrow>
          if named FallbackName (filter is_task as) = None then Inl NoFallback
          else Inr (GraphRoot c (filter is_task as)))"

fun router_Build :: "string list \<Rightarrow> agent list \<Rightarrow> build_error + agent list" where
  "router_Build [] as = Inr []"
| "router_Build (n # ns) as =
     (case named n as of
        None \<Rightarrow> Inl (NotLoaded n)
      | Some a \<Rightarrow> (case router_Build ns as of Inl e \<Rightarrow> Inl e | Inr subs \<Rightarrow> Inr (a # subs)))"

definition offered :: "root_config \<Rightarrow> toolset list" where
  "offered cfg = rcToolsets cfg @ rcHostToolsets cfg"

definition build_one :: "root_config \<Rightarrow> spec \<Rightarrow> build_error + agent" where
  "build_one cfg s =
     (if spMode s \<noteq> ModeSingleTurn
      then spec_Build (Some (rcResolve cfg)) (Some (rcResolveTier cfg)) (rcSpecialistTools cfg) (offered cfg) s
      else spec_Build (Some (rcResolve cfg)) (Some (rcResolveTier cfg)) [] [] s)"

definition root_shape :: "root_config \<Rightarrow> spec list \<Rightarrow> string \<Rightarrow> agent list \<Rightarrow> build_error + root" where
  "root_shape cfg specs dispatch as =
     (let b = rcBundle cfg; d = (if dispatch = ''auto'' then RosterShape specs else dispatch)
      in if buPlanner b then Inr (PlannerRoot as)
         else if d = ''fanout'' then BuildFanout b (MutationPredicate b) as
         else if d = ''bounded'' then
           (case boundedSpec b specs of
              Inl e \<Rightarrow> Inl e
            | Inr s \<Rightarrow> (case named (spName s) as of None \<Rightarrow> Inl (NotLoaded (spName s)) | Some a \<Rightarrow> Inr (BoundedRoot a)))
         else if d = ''graph'' then graph_Build as
         else case router_Build (buSpecialists b) as of Inl e \<Rightarrow> Inl e | Inr subs \<Rightarrow> Inr (CoordinatorRoot subs))"

definition BuildRoot :: "root_config \<Rightarrow> build_error + root" where
  "BuildRoot cfg =
     (let b = rcBundle cfg;
          specs = (if rcPreamble cfg = [] then rcSpecs cfg
                   else map (\<lambda>s. s\<lparr>spInstruction := WithPreamble (rcPreamble cfg) (spInstruction s)\<rparr>) (rcSpecs cfg));
          dispatch = Dispatch_Resolve (rcDispatch cfg) b; hosts = map tsName (rcHostToolsets cfg)
      in case first_err
             [err_if (dispatch \<notin> set dispatch_names) (RootUnknownDispatch dispatch),
              CheckHostToolsets b hosts,
              CheckCapabilitySplit b specs (MutationPredicate b) hosts,
              CheckMCPServerNames b specs hosts,
              CheckPlannerWriteSurface b specs,
              CheckMonitorCollectSurface b specs,
              (if dispatch = ''bounded'' then err_of (boundedSpec b specs) else None)] of
           Some e \<Rightarrow> Inl e
         | None \<Rightarrow>
             (case build_all (build_one cfg) specs of
                Inl e \<Rightarrow> Inl e
              | Inr as \<Rightarrow> root_shape cfg specs dispatch as))"

section \<open>What is claimed\<close>

definition reach :: "agent \<Rightarrow> string list" where
  "reach a = concat (map tsTools (anToolsets a))"

fun root_agents :: "root \<Rightarrow> agent list" where
  "root_agents (PlannerRoot as) = as"
| "root_agents (FanoutRoot analysts syn) = analysts @ [syn]"
| "root_agents (BoundedRoot a) = [a]"
| "root_agents (GraphRoot c as) = c # as"
| "root_agents (CoordinatorRoot as) = as"

text \<open>The toolsets other than the host's are the servers that the catalog of the bundle names.\<close>

definition from_catalog :: "root_config \<Rightarrow> bool" where
  "from_catalog cfg \<longleftrightarrow> tsName ` set (rcToolsets cfg) \<subseteq> set (tcMCP (buToolCatalog (rcBundle cfg)))"

text \<open>The specifications as they are built, with the preamble in front of their instructions.\<close>

definition built_specs :: "root_config \<Rightarrow> spec list" where
  "built_specs cfg =
     (if rcPreamble cfg = [] then rcSpecs cfg
      else map (\<lambda>s. s\<lparr>spInstruction := WithPreamble (rcPreamble cfg) (spInstruction s)\<rparr>) (rcSpecs cfg))"

definition demo_spec :: "string \<Rightarrow> string \<Rightarrow> (string \<times> string list) list option \<Rightarrow> spec" where
  "demo_spec n cap mcp =
     \<lparr>spFilename = [], spName = n, spDescription = ''d'', spMode = ModeTask, spModel = [], spTier = [], spCapability = cap,
      spBudget = \<lparr>sbMaxTurns = 0, sbMaxWallclockSeconds = 0, sbMaxCostUSD = 0\<rparr>, spTools = \<lparr>taBuiltin = [], taMCP = mcp, taSkills = []\<rparr>,
      spInstruction = [], spOutputSchema = None\<rparr>"

definition demo_root :: "workload \<Rightarrow> spec list \<Rightarrow> toolset list \<Rightarrow> toolset list \<Rightarrow> root_config" where
  "demo_root b specs toolsets hosts =
     \<lparr>rcBundle = b, rcSpecs = specs, rcPreamble = [], rcToolsets = toolsets, rcSpecialistTools = [], rcHostToolsets = hosts,
      rcResolve = (\<lambda>_. None), rcResolveTier = (\<lambda>_. None), rcDispatch = []\<rparr>"

definition gke :: toolset where "gke = \<lparr>tsName = ''gke'', tsTools = [''get_pod'', ''scale'']\<rparr>"

definition read_root :: root_config where
  "read_root = demo_root (demo_bundle [demo_policy ''get_pod'' False])
     [demo_spec ''oom'' CapabilityReadOnly (Some [(''gke'', [''get_pod''])]), demo_spec ''_fallback'' CapabilityReadOnly (Some [])] [gke] []"

definition fan_root :: root_config where
  "fan_root = demo_root (demo_bundle [demo_policy ''get_pod'' False])
     [demo_spec ''oom'' CapabilityReadOnly (Some [(''gke'', [''get_pod''])]), demo_spec SynthesisName CapabilityReadOnly (Some [])] [gke] []"

text \<open>A bundle without a catalog of servers, whose monitor collects with a tool of the host.\<close>

definition host_bundle :: "bool \<Rightarrow> workload" where
  "host_bundle monitored =
     (demo_bundle [])\<lparr>buToolCatalog := \<lparr>tcMCP = [], tcTools = []\<rparr>,
        buMonitor := \<lparr>moCollect = (if monitored then [\<lparr>mcTool = ''classify'', mcArgs = [], mcAs = []\<rparr>] else []), moTransitionsFrom = [],
          moNotify = None, moAck = None\<rparr>\<rparr>"

definition host_set :: toolset where "host_set = \<lparr>tsName = ''host'', tsTools = [''classify'', ''restart'']\<rparr>"

section \<open>Lemmas and properties\<close>

lemma check_entries_None:
  "check_entries whole bad test al = None \<longleftrightarrow> (\<forall>(sv, tools)\<in>set al. tools \<noteq> [] \<and> test tools = [])"
  by (induction whole bad test al rule: check_entries.induct) auto

lemma sort_eq_Nil: "sort xs = [] \<longleftrightarrow> xs = []"
  by (metis set_empty set_sort)

lemma mutatingNames_Nil: "mutatingNames pred ns = [] \<longleftrightarrow> (\<forall>n\<in>set ns. pred n = ClassReadOnly)"
  by (simp add: mutatingNames_def sort_eq_Nil filter_empty_conv)

lemma collectNames_Nil: "collectNames collect ns = [] \<longleftrightarrow> set ns \<inter> set collect = {}"
  by (auto simp: collectNames_def sort_eq_Nil filter_empty_conv)

lemma filter_reach:
  assumes "n \<in> set (concat (map tsTools (filterToolsets s off)))"
  shows "InheritsAllMCP (spTools s) \<and> off \<noteq> [] \<or> (\<exists>(sv, tools)\<in>set (mcp_entries (spTools s)). tools = [] \<or> n \<in> set tools)"
proof (cases "taMCP (spTools s)")
  case None
  then show ?thesis using assms by (auto simp: InheritsAllMCP_def filterToolsets_def)
next
  case (Some al)
  then obtain ts tools where ts: "ts \<in> set off" "by_server al (tsName ts) = Some tools"
    "n \<in> set (concat (map tsTools (if tools = [] then [ts] else [narrow ts tools])))"
  proof -
    from assms Some obtain x where x: "x \<in> set off" "n \<in> set (concat (map tsTools (case by_server al (tsName x) of
        None \<Rightarrow> [] | Some tools \<Rightarrow> if tools = [] then [x] else [narrow x tools])))"
      by (auto simp: filterToolsets_def)
    obtain tools where t: "by_server al (tsName x) = Some tools" using x(2) by (cases "by_server al (tsName x)") auto
    then have "n \<in> set (concat (map tsTools (if tools = [] then [x] else [narrow x tools])))" using x(2) by (simp only: option.case)
    then show ?thesis using that x(1) t by blast
  qed
  have "(tsName ts, tools) \<in> set al" using ts(2) map_of_SomeD unfolding by_server_def by fastforce
  then show ?thesis using Some ts(3) by (auto simp: mcp_entries_def narrow_def split: if_splits intro: bexI [of _ "(tsName ts, tools)"])
qed

lemma build_all_mem: "build_all f ss = Inr as \<Longrightarrow> a \<in> set as \<Longrightarrow> \<exists>s\<in>set ss. f s = Inr a"
  by (induction ss arbitrary: as) (auto split: sum.splits)

lemma spec_Build_agent:
  "spec_Build res tier tools sets s = Inr a \<Longrightarrow> anSpec a = s \<and> (if spMode s = ModeSingleTurn then anToolsets a = [] else anToolsets a = filterToolsets s sets)"
  by (auto simp: spec_Build_def ModeTask_def ModeSingleTurn_def split: sum.splits if_splits)

lemma build_one_agent:
  "build_one cfg s = Inr a \<Longrightarrow>
     anSpec a = s \<and> (if spMode s = ModeSingleTurn then anToolsets a = [] else anToolsets a = filterToolsets s (offered cfg))"
  unfolding build_one_def by (auto dest!: spec_Build_agent split: if_splits)

lemma named_mem: "named n as = Some a \<Longrightarrow> a \<in> set as \<and> agent_name a = n"
  unfolding named_def by (metis (mono_tags, lifting) find_Some_iff nth_mem set_rev)

lemma router_mem: "router_Build ns as = Inr subs \<Longrightarrow> set subs \<subseteq> set as"
  by (induction ns arbitrary: subs) (auto split: option.splits sum.splits dest: named_mem)

lemma find_in: "find P xs = Some x \<Longrightarrow> x \<in> set xs"
  by (metis find_Some_iff nth_mem)

lemma shape_agents: "root_shape cfg specs d as = Inr r \<Longrightarrow> set (root_agents r) \<subseteq> set as"
  by (auto simp: root_shape_def BuildFanout_def graph_Build_def Let_def split: if_splits sum.splits option.splits
      dest: named_mem find_in router_mem [THEN subsetD])

lemma BuildRoot_Inr:
  assumes "BuildRoot cfg = Inr r"
  obtains as where
    "CheckHostToolsets (rcBundle cfg) (map tsName (rcHostToolsets cfg)) = None"
    "CheckCapabilitySplit (rcBundle cfg) (built_specs cfg) (MutationPredicate (rcBundle cfg)) (map tsName (rcHostToolsets cfg)) = None"
    "CheckPlannerWriteSurface (rcBundle cfg) (built_specs cfg) = None"
    "CheckMonitorCollectSurface (rcBundle cfg) (built_specs cfg) = None"
    "build_all (build_one cfg) (built_specs cfg) = Inr as"
    "root_shape cfg (built_specs cfg) (Dispatch_Resolve (rcDispatch cfg) (rcBundle cfg)) as = Inr r"
  using assms unfolding BuildRoot_def Let_def built_specs_def [symmetric]
  by (auto simp: first_err_None split: option.splits sum.splits)

lemma root_agent_spec:
  assumes "BuildRoot cfg = Inr r" "a \<in> set (root_agents r)"
  shows "anSpec a \<in> set (built_specs cfg) \<and> (if spMode (anSpec a) = ModeSingleTurn then anToolsets a = [] else anToolsets a = filterToolsets (anSpec a) (offered cfg))"
proof -
  obtain as where as: "build_all (build_one cfg) (built_specs cfg) = Inr as"
    "root_shape cfg (built_specs cfg) (Dispatch_Resolve (rcDispatch cfg) (rcBundle cfg)) as = Inr r"
    by (rule BuildRoot_Inr [OF assms(1)])
  then have "a \<in> set as" using shape_agents assms(2) by blast
  then obtain s where "s \<in> set (built_specs cfg)" "build_one cfg s = Inr a" using build_all_mem [OF as(1)] by blast
  then show ?thesis using build_one_agent by metis
qed

text \<open>What an agent of a root reaches came through its allowlist, or it inherits everything that is offered.\<close>

lemma root_reach:
  assumes "BuildRoot cfg = Inr r" "a \<in> set (root_agents r)" "n \<in> set (reach a)"
  shows "spMode (anSpec a) \<noteq> ModeSingleTurn \<and> anSpec a \<in> set (built_specs cfg) \<and>
    (InheritsAllMCP (spTools (anSpec a)) \<and> offered cfg \<noteq> [] \<or>
     (\<exists>(sv, tools)\<in>set (mcp_entries (spTools (anSpec a))). tools = [] \<or> n \<in> set tools))"
proof -
  have a: "anSpec a \<in> set (built_specs cfg)"
    "if spMode (anSpec a) = ModeSingleTurn then anToolsets a = [] else anToolsets a = filterToolsets (anSpec a) (offered cfg)"
    using root_agent_spec [OF assms(1,2)] by auto
  have ts: "spMode (anSpec a) \<noteq> ModeSingleTurn" "anToolsets a = filterToolsets (anSpec a) (offered cfg)"
    using a(2) assms(3) by (auto simp: reach_def split: if_splits)
  show ?thesis using filter_reach [of n "anSpec a" "offered cfg"] assms(3) a(1) ts unfolding reach_def by metis
qed

lemma nothing_offered: "from_catalog cfg \<Longrightarrow> tcMCP (buToolCatalog (rcBundle cfg)) = [] \<Longrightarrow> rcHostToolsets cfg = [] \<Longrightarrow> offered cfg = []"
  by (auto simp: from_catalog_def offered_def)

text \<open>
  A specialist that does not declare it cannot write: in a root that was composed over the catalog of its bundle, every tool
  that an agent without the capability to change things reaches through a server or a toolset of the host is classified
  read-only.
\<close>

theorem undeclared_cannot_write:
  assumes "BuildRoot cfg = Inr r" "from_catalog cfg" "a \<in> set (root_agents r)" "n \<in> set (reach a)"
    and "spCapability (anSpec a) \<noteq> CapabilityChangeExecutor"
  shows "MutationPredicate (rcBundle cfg) n = ClassReadOnly"
proof -
  note a = root_reach [OF assms(1,3,4)]
  have "CheckCapabilitySplit (rcBundle cfg) (built_specs cfg) (MutationPredicate (rcBundle cfg)) (map tsName (rcHostToolsets cfg)) = None"
    by (rule BuildRoot_Inr [OF assms(1)])
  then have s: "split_spec (tcMCP (buToolCatalog (rcBundle cfg)) \<noteq> [] \<or> rcHostToolsets cfg \<noteq> []) (MutationPredicate (rcBundle cfg)) (anSpec a) = None"
    using a by (auto simp: CheckCapabilitySplit_def first_err_None)
  have no: "\<not> (InheritsAllMCP (spTools (anSpec a)) \<and> offered cfg \<noteq> [])"
    using s a assms(5) nothing_offered [OF assms(2)] by (auto simp: split_spec_def split: if_splits)
  have "check_entries (AllowsServer (spName (anSpec a))) (AllowsMutating (spName (anSpec a))) (mutatingNames (MutationPredicate (rcBundle cfg)))
      (mcp_entries (spTools (anSpec a))) = None"
    using s a assms(5) by (auto simp: split_spec_def split: if_splits option.splits)
  then show ?thesis using a no unfolding check_entries_None mutatingNames_Nil by fastforce
qed

text \<open>
  What the monitor runs nobody else reaches: in a root composed over the catalog of its bundle alone, no agent reaches a tool
  that the program runs on its own behalf, ungated.
\<close>

theorem collected_tool_unreachable:
  assumes "BuildRoot cfg = Inr r" "from_catalog cfg" "rcHostToolsets cfg = []" "a \<in> set (root_agents r)"
  shows "set (reach a) \<inter> set (SelfRunTools (buMonitor (rcBundle cfg))) = {}"
proof (rule ccontr)
  let ?c = "SelfRunTools (buMonitor (rcBundle cfg))"
  assume "set (reach a) \<inter> set ?c \<noteq> {}"
  then obtain n where n: "n \<in> set (reach a)" "n \<in> set ?c" by blast
  note a = root_reach [OF assms(1,4) n(1)]
  have "CheckMonitorCollectSurface (rcBundle cfg) (built_specs cfg) = None" by (rule BuildRoot_Inr [OF assms(1)])
  moreover have ne: "?c \<noteq> []" using n(2) by auto
  ultimately have s: "collect_spec (tcMCP (buToolCatalog (rcBundle cfg)) \<noteq> []) ?c (anSpec a) = None"
    using a by (simp add: CheckMonitorCollectSurface_def Let_def first_err_None)
  have no: "\<not> (InheritsAllMCP (spTools (anSpec a)) \<and> offered cfg \<noteq> [])"
    using s a nothing_offered [OF assms(2)] assms(3) by (auto simp: collect_spec_def split: if_splits)
  have "check_entries (CollectServer (spName (anSpec a))) (CollectTool (spName (anSpec a))) (collectNames ?c) (mcp_entries (spTools (anSpec a))) = None"
    using s a by (auto simp: collect_spec_def split: if_splits option.splits)
  then show False using a no n(2) unfolding check_entries_None collectNames_Nil by fastforce
qed

text \<open>
  A branch of a fan-out only reads: every tool that an analyst reaches, whatever capability it declares, is classified
  read-only, if the bundle has a catalog or the host supplies no toolset.
\<close>

theorem branches_only_read:
  assumes "BuildRoot cfg = Inr (FanoutRoot analysts syn)" "from_catalog cfg" "a \<in> set analysts" "n \<in> set (reach a)"
    and "tcMCP (buToolCatalog (rcBundle cfg)) \<noteq> [] \<or> rcHostToolsets cfg = []"
  shows "MutationPredicate (rcBundle cfg) n = ClassReadOnly"
proof -
  note a = root_reach [OF assms(1) _ assms(4)]
  obtain as where "root_shape cfg (built_specs cfg) (Dispatch_Resolve (rcDispatch cfg) (rcBundle cfg)) as = Inr (FanoutRoot analysts syn)"
    by (rule BuildRoot_Inr [OF assms(1)])
  then have "BuildFanout (rcBundle cfg) (MutationPredicate (rcBundle cfg)) as = Inr (FanoutRoot analysts syn)"
    by (auto simp: root_shape_def graph_Build_def Let_def split: if_splits sum.splits option.splits)
  then have "checkBranchTools (rcBundle cfg) (map anSpec analysts) (MutationPredicate (rcBundle cfg)) = None"
    by (auto simp: BuildFanout_def Let_def split: if_splits option.splits)
  then have s: "branch_spec (tcMCP (buToolCatalog (rcBundle cfg)) \<noteq> []) (MutationPredicate (rcBundle cfg)) (anSpec a) = None"
    using assms(3) by (auto simp: checkBranchTools_def first_err_None)
  have no: "\<not> (InheritsAllMCP (spTools (anSpec a)) \<and> offered cfg \<noteq> [])"
    using s assms(5) nothing_offered [OF assms(2)] by (auto simp: branch_spec_def split: if_splits)
  have "check_entries (BranchServer (spName (anSpec a))) (BranchMutating (spName (anSpec a))) (mutatingNames (MutationPredicate (rcBundle cfg)))
      (mcp_entries (spTools (anSpec a))) = None"
    using s by (auto simp: branch_spec_def split: if_splits option.splits)
  moreover have "a \<in> set (root_agents (FanoutRoot analysts syn))" using assms(3) by simp
  ultimately show ?thesis using a no unfolding check_entries_None mutatingNames_Nil by fastforce
qed

lemma named_None: "named n as = None \<longleftrightarrow> (\<forall>a\<in>set as. agent_name a \<noteq> n)"
  by (auto simp: named_def find_None_iff)

text \<open>
  A shape that is picked for a roster can be filled from it: where the roster decides, a graph gets its classifier and its
  fallback and is built, and a fan-out has a specialist for the synthesis.
\<close>

theorem picked_shape_filled:
  "(if RosterShape (map anSpec as) = ''graph'' then (\<exists>c. \<not> is_task c \<and> c \<in> set as \<and> graph_Build as = Inr (GraphRoot c (filter is_task as))) \<and>
        named FallbackName (filter is_task as) \<noteq> None
    else if RosterShape (map anSpec as) = ''fanout'' then named SynthesisName (filter is_task as) \<noteq> None
    else RosterShape (map anSpec as) = ''coordinator'')"
proof -
  have shape: "RosterShape (map anSpec as) =
    (if \<exists>a\<in>set as. is_task a \<and> agent_name a = SynthesisName then ''fanout''
     else if (\<exists>a\<in>set as. \<not> is_task a) \<and> (\<exists>a\<in>set as. is_task a \<and> agent_name a = FallbackName) then ''graph'' else ''coordinator'')"
    unfolding RosterShape_def Let_def by (auto simp: list_ex_iff is_task_def agent_name_def)
  have c: "\<exists>c. find (\<lambda>a. \<not> is_task a) as = Some c \<and> c \<in> set as \<and> \<not> is_task c" if "\<exists>a\<in>set as. \<not> is_task a"
    using that by (induction as) auto
  have "\<exists>c. \<not> is_task c \<and> c \<in> set as \<and> graph_Build as = Inr (GraphRoot c (filter is_task as))"
    if "\<exists>a\<in>set as. \<not> is_task a" "named FallbackName (filter is_task as) \<noteq> None"
    using c [OF that(1)] that(2) by (auto simp: graph_Build_def)
  moreover have "named n (filter is_task as) \<noteq> None \<longleftrightarrow> (\<exists>a\<in>set as. is_task a \<and> agent_name a = n)" for n
    by (auto simp: named_None)
  ultimately show ?thesis unfolding shape by simp
qed

subsection \<open>Rosters of the runs below\<close>

theorem undeclared_cannot_write_witness:
  "\<exists>r a. BuildRoot read_root = Inr r \<and> a \<in> set (root_agents r) \<and> ''get_pod'' \<in> set (reach a) \<and>
     MutationPredicate (rcBundle read_root) ''get_pod'' = ClassReadOnly"
proof -
  have "case BuildRoot read_root of Inl e \<Rightarrow> False | Inr r \<Rightarrow>
      list_ex (\<lambda>a. ''get_pod'' \<in> set (reach a) \<and> spCapability (anSpec a) \<noteq> CapabilityChangeExecutor) (root_agents r)" by code_simp
  then obtain r a where r: "BuildRoot read_root = Inr r" "a \<in> set (root_agents r)" "''get_pod'' \<in> set (reach a)"
    "spCapability (anSpec a) \<noteq> CapabilityChangeExecutor" by (auto simp: list_ex_iff split: sum.splits)
  have "from_catalog read_root" by code_simp
  then show ?thesis using undeclared_cannot_write [OF r(1) _ r(2,3,4)] r by blast
qed

theorem collected_tool_unreachable_witness:
  "\<exists>r. BuildRoot read_root = Inr r \<and> (\<forall>a\<in>set (root_agents r). set (reach a) \<inter> set (SelfRunTools (buMonitor (rcBundle read_root))) = {})"
proof -
  have "case BuildRoot read_root of Inl e \<Rightarrow> False | Inr r \<Rightarrow> True" by code_simp
  then obtain r where r: "BuildRoot read_root = Inr r" by (auto split: sum.splits)
  have "from_catalog read_root" "rcHostToolsets read_root = []" by code_simp+
  then show ?thesis using collected_tool_unreachable [OF r] r by blast
qed

theorem branches_only_read_witness:
  "\<exists>analysts syn a. BuildRoot fan_root = Inr (FanoutRoot analysts syn) \<and> a \<in> set analysts \<and> ''get_pod'' \<in> set (reach a) \<and>
     MutationPredicate (rcBundle fan_root) ''get_pod'' = ClassReadOnly"
proof -
  have "case BuildRoot fan_root of Inr (FanoutRoot analysts syn) \<Rightarrow> list_ex (\<lambda>a. ''get_pod'' \<in> set (reach a)) analysts | _ \<Rightarrow> False" by code_simp
  then obtain analysts syn a where r: "BuildRoot fan_root = Inr (FanoutRoot analysts syn)" "a \<in> set analysts" "''get_pod'' \<in> set (reach a)"
    by (auto simp: list_ex_iff split: sum.splits root.splits)
  have "from_catalog fan_root" "tcMCP (buToolCatalog (rcBundle fan_root)) \<noteq> []" by code_simp+
  then show ?thesis using branches_only_read [OF r(1) _ r(2,3)] r by blast
qed

text \<open>
  Two checks forget the host: with toolsets that the host supplies and no catalog of servers, a fan-out is built whose
  analyst, declared to change things and without an allowlist, reaches a mutating tool in its branch; and a root is built
  in which a specialist reaches the tool that the monitor runs ungated.
\<close>

theorem host_toolset_unchecked:
  "(case BuildRoot (demo_root (host_bundle False) [demo_spec ''fixer'' CapabilityChangeExecutor None, demo_spec SynthesisName CapabilityReadOnly (Some [])] [] [host_set]) of
      Inr (FanoutRoot analysts syn) \<Rightarrow>
        list_ex (\<lambda>a. ''restart'' \<in> set (reach a) \<and> MutationPredicate (host_bundle False) ''restart'' = ClassMutating) analysts
    | _ \<Rightarrow> False) \<and>
   (case BuildRoot (demo_root (host_bundle True) [demo_spec ''oom'' CapabilityChangeExecutor None, demo_spec ''_fallback'' CapabilityReadOnly (Some [])] [] [host_set]) of
      Inr r \<Rightarrow> list_ex (\<lambda>a. ''classify'' \<in> set (reach a) \<and> ''classify'' \<in> set (SelfRunTools (buMonitor (host_bundle True)))) (root_agents r)
    | _ \<Rightarrow> False)"
  by code_simp

end
