(* ===== verification/Dispatch_Graph.thy ===== *)
theory Dispatch_Graph
  imports Roster
begin

text \<open>
  The triage graph, \<^verbatim>\<open>src/internal/graph/graph.go\<close>: a classifier's reply becomes a route, the route picks a specialist, the
  specialist's finding waits for an operator, and an approved change goes to the one specialist that may make it.

  The engine that follows the edges is the agent framework's: \<open>next_nodes\<close> is an argument, and theorems that need it assume
  what it documents, that a keyed edge is taken exactly if its key was emitted, a default edge exactly if no keyed edge of
  its node was, and a plain edge always. A node's activation is what the node does once: which answer to its interrupt the
  turn carries, what its specialist returned, and how many of its events could be emitted. Other writers of the session's
  state leave the keys of the graph alone.
\<close>

section \<open>Values and events\<close>

datatype gval = VNil | VBool bool | VText string | VObj "(string \<times> gval) list" | VOther string

text \<open>\<^verbatim>\<open>fmt.Sprint\<close>; the keys of an object are in order.\<close>

fun sprint :: "gval \<Rightarrow> string" where
  "sprint VNil = ''<nil>''"
| "sprint (VBool b) = (if b then ''true'' else ''false'')"
| "sprint (VText s) = s"
| "sprint (VObj kvs) = ''map['' @ Join (map (\<lambda>(k, v). k @ '':'' @ sprint v) kvs) '' '' @ '']''"
| "sprint (VOther s) = s"

type_synonym gstate = "(string, gval) gomap"

record gevent =
  geRoutes :: "string list"
  geDelta :: gstate
  geText :: string
  geAsk :: "(string \<times> string) option"

definition plain_event :: gevent where
  "plain_event = \<lparr>geRoutes = [], geDelta = [], geText = [], geAsk = None\<rparr>"

datatype outcome = Out gval | Fail string | Interrupted

definition deltas :: "gevent list \<Rightarrow> gstate" where "deltas evs = concat (map geDelta evs)"
definition routes :: "gevent list \<Rightarrow> string list" where "routes evs = concat (map geRoutes evs)"

definition commit :: "gevent list \<Rightarrow> gstate \<Rightarrow> gstate" where
  "commit evs st = foldl (\<lambda>st (k, v). AList.update k v st) st (deltas evs)"

section \<open>The configuration\<close>

record graph_config =
  gcRoster :: "string list"
  gcBuilt :: "(string, string) gomap"
  gcRequireApproval :: bool
  gcHandoff :: bool

definition ExecuteRoute :: string where "ExecuteRoute = ''mast:execute_change''"

definition rosterOrder :: "graph_config \<Rightarrow> string list" where
  "rosterOrder cfg =
     (let listed = dedup_from [] (filter (\<lambda>n. map_of (gcBuilt cfg) n \<noteq> None) (gcRoster cfg))
      in listed @ filter (\<lambda>n. n \<notin> set listed) (map fst (gcBuilt cfg)))"

definition changeExecutor :: "graph_config \<Rightarrow> string" where
  "changeExecutor cfg =
     (if \<not> gcHandoff cfg then []
      else case filter (\<lambda>n. map_of (gcBuilt cfg) n = Some CapabilityChangeExecutor) (rosterOrder cfg) of
             [n] \<Rightarrow> n
           | _ \<Rightarrow> [])"

text \<open>A specialist's wall clock as the timeout of its node, in nanoseconds.\<close>

definition nodeConfig :: "spec_budget \<Rightarrow> duration option" where
  "nodeConfig b = (if 0 < sbMaxWallclockSeconds b then Some (wrap64 (sbMaxWallclockSeconds b * 1000000000)) else None)"

section \<open>Edges\<close>

datatype gnode = NStart | NClassify | NRoute | NRun string | NReport

datatype groute = RAlways | RString string | RDefault

type_synonym edge = "gnode \<times> gnode \<times> groute"

definition route_edges :: "graph_config \<Rightarrow> edge list" where
  "route_edges cfg = map (\<lambda>n. (NRoute, NRun n, if n = FallbackName then RDefault else RString n)) (rosterOrder cfg)"

definition handoff_edges :: "graph_config \<Rightarrow> edge list" where
  "handoff_edges cfg =
     (if changeExecutor cfg = [] then []
      else concat (map (\<lambda>n. if n = changeExecutor cfg then []
                            else [(NRun n, NRun (changeExecutor cfg), RString ExecuteRoute), (NRun n, NReport, RDefault)]) (rosterOrder cfg))
           @ [(NRun (changeExecutor cfg), NReport, RAlways)])"

definition graph_edges :: "graph_config \<Rightarrow> edge list" where
  "graph_edges cfg = [(NStart, NClassify, RAlways), (NClassify, NRoute, RAlways)] @ route_edges cfg @ handoff_edges cfg"

section \<open>The route\<close>

definition routeStateKey :: string where "routeStateKey = ''mast_route''"
definition verdictStateKey :: string where "verdictStateKey = ''mast_verdict:''"

definition trim_dots :: "string \<Rightarrow> string" where
  "trim_dots s = rev (dropWhile (\<lambda>c. c = CHR ''.'') (rev s))"

definition known :: "graph_config \<Rightarrow> (string, string) gomap" where
  "known cfg = foldl (\<lambda>m n. AList.update (ToLower n) n m) [] (map fst (gcBuilt cfg))"

definition routeKey :: "gval \<Rightarrow> (string, string) gomap \<Rightarrow> string \<Rightarrow> string" where
  "routeKey input kn prior =
     (let key = TrimSpace (sprint input)
      in case map_of kn (ToLower (trim_dots key)) of
           Some canonical \<Rightarrow> canonical
         | None \<Rightarrow> if TrimSpace prior \<noteq> [] then prior else key)"

text \<open>A state that cannot be read records nothing.\<close>

definition recordedRoute :: "bool \<Rightarrow> gstate \<Rightarrow> string option" where
  "recordedRoute readable st =
     (if \<not> readable then None
      else case map_of st routeStateKey of Some (VText s) \<Rightarrow> if TrimSpace s = [] then None else Some s | _ \<Rightarrow> None)"

definition route_node :: "graph_config \<Rightarrow> bool \<Rightarrow> gval \<Rightarrow> gstate \<Rightarrow> string \<times> gevent" where
  "route_node cfg readable input st =
     (let key = routeKey input (known cfg) (case recordedRoute readable st of None \<Rightarrow> [] | Some r \<Rightarrow> r)
      in (key, plain_event\<lparr>geRoutes := [key], geDelta := [(routeStateKey, VText key)]\<rparr>))"

section \<open>A specialist's node\<close>

definition recordedVerdict :: "bool \<Rightarrow> gstate \<Rightarrow> string \<Rightarrow> gval option" where
  "recordedVerdict readable st key =
     (if \<not> readable then None else case map_of st key of None \<Rightarrow> None | Some VNil \<Rightarrow> None | Some v \<Rightarrow> Some v)"

fun verdictApproved :: "gval \<Rightarrow> bool" where
  "verdictApproved (VBool b) = b"
| "verdictApproved (VObj kvs) = (map_of kvs ''approved'' = Some (VBool True))"
| "verdictApproved _ = False"

definition approvalPreamble :: string where
  "approvalPreamble = ''An operator has APPROVED the following calls, exactly as written. Make them, in this'' @ [CHR 0x0A] @
     ''order, with these arguments '' @ [CHR 0xE2, CHR 0x80, CHR 0x94] @ '' do not re-derive them, do not adjust them, and do not'' @ [CHR 0x0A] @
     ''add any others. If one of them cannot be made as written, stop and report why.'' @ [CHR 0x0A, CHR 0x0A]"

record activation =
  acReadable :: bool
  acStateError :: string
  acResumed :: "gval option"
  acRun :: outcome
  acEmits :: nat
  acChanges :: "string option"

text \<open>\<open>n\<close> more events can be emitted.\<close>

definition routeChange :: "graph_config \<Rightarrow> activation \<Rightarrow> nat \<Rightarrow> bool \<Rightarrow> gval \<Rightarrow> gevent list \<times> outcome" where
  "routeChange cfg ac n approved finding =
     (if \<not> gcHandoff cfg then ([], Out finding)
      else case acChanges ac of
             None \<Rightarrow> ([], Out finding)
           | Some changes \<Rightarrow>
               if \<not> approved then ([], Out finding)
               else if n = 0 then ([], Fail ''emit'')
               else ([plain_event\<lparr>geRoutes := [ExecuteRoute], geText := approvalPreamble @ changes\<rparr>], Out finding))"

definition answered :: "graph_config \<Rightarrow> string \<Rightarrow> activation \<Rightarrow> nat \<Rightarrow> gval \<Rightarrow> gstate \<Rightarrow> gevent list \<times> outcome" where
  "answered cfg name ac n verdict st =
     (let triage = (if acReadable ac then (case map_of st (''triage:'' @ name) of Some v \<Rightarrow> v | None \<Rightarrow> VText (''(triage result unavailable: '' @ acStateError ac @ '')''))
                    else VText (''(triage result unavailable: '' @ acStateError ac @ '')''))
      in routeChange cfg ac n (verdictApproved verdict) (VObj [(''approval'', verdict), (''triage'', triage)]))"

definition run_node :: "graph_config \<Rightarrow> string \<Rightarrow> activation \<Rightarrow> gstate \<Rightarrow> gevent list \<times> outcome" where
  "run_node cfg name ac st =
     (case acResumed ac of
        Some verdict \<Rightarrow>
          if acEmits ac = 0 then ([], Fail ''emit'')
          else
            (let (evs, out) = answered cfg name ac (acEmits ac - 1) verdict st
             in (plain_event\<lparr>geDelta := [(verdictStateKey @ name, verdict)]\<rparr> # evs, out))
      | None \<Rightarrow>
          (case recordedVerdict (acReadable ac) st (verdictStateKey @ name) of
             Some verdict \<Rightarrow> answered cfg name ac (acEmits ac) verdict st
           | None \<Rightarrow>
               (case acRun ac of
                  Fail e \<Rightarrow> ([], Fail e)
                | Interrupted \<Rightarrow> ([], Interrupted)
                | Out result \<Rightarrow>
                    if changeExecutor cfg \<noteq> [] \<and> name = changeExecutor cfg then ([], Out result)
                    else if \<not> gcRequireApproval cfg then routeChange cfg ac (acEmits ac) True result
                    else if acEmits ac = 0 then ([], Fail ''emit'')
                    else
                      (let stash = plain_event\<lparr>geDelta := [(''triage:'' @ name, result)]\<rparr>;
                           ask = plain_event\<lparr>geAsk := Some (''approve-'' @ name,
                                   ''Approve triage result from '' @ name @ ''? Result: '' @ sprint result)\<rparr>
                       in if acEmits ac = 1 then ([stash], Fail ''emit'') else ([stash, ask], Interrupted)))))"

section \<open>A turn of the graph\<close>

text \<open>A turn: the classifier's reply, what other writers put into the state, and the activation of each specialist's node.\<close>

record graph_turn =
  gtReply :: gval
  gtReadable :: bool
  gtOthers :: gstate
  gtActs :: "string \<Rightarrow> activation"

fun run_target :: "gnode \<Rightarrow> string list" where
  "run_target (NRun n) = [n]"
| "run_target _ = []"

definition targets :: "(edge list \<Rightarrow> gnode \<Rightarrow> string list \<Rightarrow> gnode list) \<Rightarrow> graph_config \<Rightarrow> gnode \<Rightarrow> string list \<Rightarrow> string list" where
  "targets next_nodes cfg n rs = concat (map run_target (next_nodes (graph_edges cfg) n rs))"

type_synonym visit = "string \<times> gevent list \<times> outcome"

text \<open>The specialists' nodes that are visited, in order, and the state the turn leaves. A node that did not finish has no
  successor. The executor's node is reached from the first by the route of an approved change.\<close>

definition others :: "graph_turn \<Rightarrow> gstate \<Rightarrow> gstate" where
  "others t st = foldl (\<lambda>st (k, v). AList.update k v st) st (gtOthers t)"

definition handoff_visit ::
  "(edge list \<Rightarrow> gnode \<Rightarrow> string list \<Rightarrow> gnode list) \<Rightarrow> graph_config \<Rightarrow> graph_turn \<Rightarrow> string \<Rightarrow> gevent list \<Rightarrow> outcome \<Rightarrow> gstate \<Rightarrow> visit list \<times> gstate" where
  "handoff_visit next_nodes cfg t n evs out st =
     (case out of
        Out v \<Rightarrow>
          (case targets next_nodes cfg (NRun n) (routes evs) of
             [] \<Rightarrow> ([(n, evs, out)], st)
           | m # _ \<Rightarrow> (case run_node cfg m (gtActs t m) st of (evs', out') \<Rightarrow> ([(n, evs, out), (m, evs', out')], commit evs' st)))
      | _ \<Rightarrow> ([(n, evs, out)], st))"

definition first_visit ::
  "(edge list \<Rightarrow> gnode \<Rightarrow> string list \<Rightarrow> gnode list) \<Rightarrow> graph_config \<Rightarrow> graph_turn \<Rightarrow> string \<Rightarrow> gstate \<Rightarrow> visit list \<times> gstate" where
  "first_visit next_nodes cfg t key st =
     (case targets next_nodes cfg NRoute [key] of
        [] \<Rightarrow> ([], st)
      | n # _ \<Rightarrow> (case run_node cfg n (gtActs t n) st of (evs, out) \<Rightarrow> handoff_visit next_nodes cfg t n evs out (commit evs st)))"

definition turn_visits ::
  "(edge list \<Rightarrow> gnode \<Rightarrow> string list \<Rightarrow> gnode list) \<Rightarrow> graph_config \<Rightarrow> graph_turn \<Rightarrow> gstate \<Rightarrow> visit list \<times> gstate" where
  "turn_visits next_nodes cfg t st0 =
     (case route_node cfg (gtReadable t) (gtReply t) (others t st0) of (key, ev) \<Rightarrow>
        first_visit next_nodes cfg t key (commit [ev] (others t st0)))"

fun session ::
  "(edge list \<Rightarrow> gnode \<Rightarrow> string list \<Rightarrow> gnode list) \<Rightarrow> graph_config \<Rightarrow> graph_turn list \<Rightarrow> gstate \<Rightarrow> visit list list \<times> gstate" where
  "session next_nodes cfg [] st = ([], st)"
| "session next_nodes cfg (t # ts) st =
     (case turn_visits next_nodes cfg t st of (vs, st') \<Rightarrow> case session next_nodes cfg ts st' of (vss, st'') \<Rightarrow> (vs # vss, st''))"

section \<open>What is claimed\<close>

definition keyed :: "edge list \<Rightarrow> gnode \<Rightarrow> string list \<Rightarrow> gnode set" where
  "keyed es n rs = {m. \<exists>k\<in>set rs. (n, m, RString k) \<in> set es}"

definition documented :: "edge list \<Rightarrow> gnode \<Rightarrow> string list \<Rightarrow> gnode set" where
  "documented es n rs =
     {m. (n, m, RAlways) \<in> set es} \<union> keyed es n rs \<union> (if keyed es n rs = {} then {m. (n, m, RDefault) \<in> set es} else {})"

definition engine_ok :: "(edge list \<Rightarrow> gnode \<Rightarrow> string list \<Rightarrow> gnode list) \<Rightarrow> bool" where
  "engine_ok nx \<longleftrightarrow> (\<forall>es n rs. set (nx es n rs) = documented es n rs)"

text \<open>The engine as it is documented, for the examples.\<close>

fun takes :: "edge list \<Rightarrow> gnode \<Rightarrow> string list \<Rightarrow> edge \<Rightarrow> bool" where
  "takes es n rs (a, m, RAlways) = (a = n)"
| "takes es n rs (a, m, RString k) = (a = n \<and> k \<in> set rs)"
| "takes es n rs (a, m, RDefault) = (a = n \<and> list_all (\<lambda>(a, m, r). a = n \<longrightarrow> list_all (\<lambda>k. r \<noteq> RString k) rs) es)"

definition doc_next :: "edge list \<Rightarrow> gnode \<Rightarrow> string list \<Rightarrow> gnode list" where
  "doc_next es n rs = map (fst \<circ> snd) (filter (takes es n rs) es)"

text \<open>The roster has the fallback, and nobody is without a name.\<close>

definition graph_ok :: "graph_config \<Rightarrow> bool" where
  "graph_ok cfg \<longleftrightarrow> distinct (map fst (gcBuilt cfg)) \<and> FallbackName \<in> fst ` set (gcBuilt cfg) \<and> [] \<notin> fst ` set (gcBuilt cfg)"

definition leaves_verdicts :: "graph_turn \<Rightarrow> bool" where
  "leaves_verdicts t \<longleftrightarrow> (\<forall>(k, v)\<in>set (gtOthers t). \<not> HasPrefix k verdictStateKey)"

text \<open>The answer to a specialist's finding that a turn recorded, and the last one that any turn did.\<close>

definition verdict_in :: "string \<Rightarrow> visit list \<Rightarrow> gval option" where
  "verdict_in n vs = map_of (rev (deltas (concat (map (fst \<circ> snd) vs)))) (verdictStateKey @ n)"

definition last_verdict :: "string \<Rightarrow> visit list list \<Rightarrow> gval option" where
  "last_verdict n vss = foldl (\<lambda>acc vs. case verdict_in n vs of None \<Rightarrow> acc | Some v \<Rightarrow> Some v) None vss"

definition dispatched :: "graph_config \<Rightarrow> string \<Rightarrow> string" where
  "dispatched cfg key = (if key \<in> set (rosterOrder cfg) then key else FallbackName)"

text \<open>A roster of a triage specialist, an executor of changes and the fallback, under a policy that asks.\<close>

definition demo_graph :: graph_config where
  "demo_graph = \<lparr>gcRoster = [''dns'', ''patch''], gcBuilt = [(''dns'', []), (''patch'', CapabilityChangeExecutor), (FallbackName, [])],
     gcRequireApproval = True, gcHandoff = True\<rparr>"

definition demo_act :: "gval option \<Rightarrow> activation" where
  "demo_act r = \<lparr>acReadable = True, acStateError = [], acResumed = r, acRun = Out (VText ''scale it''), acEmits = 9, acChanges = Some ''scale(3)''\<rparr>"

definition demo_turn :: "gval \<Rightarrow> gval option \<Rightarrow> graph_turn" where
  "demo_turn reply r = \<lparr>gtReply = reply, gtReadable = True, gtOthers = [], gtActs = (\<lambda>n. demo_act (if n = ''dns'' then r else None))\<rparr>"

text \<open>A signal, and the operator's approval in the next turn.\<close>

definition demo_incident :: "graph_turn list" where
  "demo_incident = [demo_turn (VText ''dns'') None, demo_turn (VText ''approved'') (Some (VBool True))]"

definition demo_stash :: gstate where
  "demo_stash = [(routeStateKey, VText ''dns''), (''triage:dns'', VText ''scale it'')]"

section \<open>Lemmas and properties\<close>

lemma deltas_simps [simp]: "deltas [] = []" "deltas (e # es) = geDelta e @ deltas es" "deltas (es @ fs) = deltas es @ deltas fs"
  by (simp_all add: deltas_def)

lemma routes_simps [simp]: "routes [] = []" "routes (e # es) = geRoutes e @ routes es"
  by (simp_all add: routes_def)

lemma foldl_update: "map_of (foldl (\<lambda>st (k, v). AList.update k v st) st ds) k = (case map_of (rev ds) k of None \<Rightarrow> map_of st k | Some v \<Rightarrow> Some v)"
  by (induction ds rule: rev_induct) (auto split: option.split)

lemma commit_lookup: "map_of (commit evs st) k = (case map_of (rev (deltas evs)) k of None \<Rightarrow> map_of st k | Some v \<Rightarrow> Some v)"
  by (simp add: commit_def foldl_update)

lemma map_of_rev_None: "(\<And>v. (k, v) \<notin> set ds) \<Longrightarrow> map_of (rev ds) k = None"
  by (metis map_of_SomeD not_None_eq set_rev)

lemma verdict_key_neq [simp]: "verdictStateKey @ n \<noteq> ''triage:'' @ m" "''triage:'' @ m \<noteq> verdictStateKey @ n" "routeStateKey \<noteq> verdictStateKey @ n"
  "verdictStateKey @ n \<noteq> routeStateKey" "verdictStateKey @ n \<noteq> CHR ''t'' # k"
  by (simp_all add: verdictStateKey_def routeStateKey_def)

lemma graph_prefix_self: "HasPrefix (p @ s) p"
  by (simp add: HasPrefix_def)

subsection \<open>Edges\<close>

lemma set_rosterOrder: "graph_ok cfg \<Longrightarrow> set (rosterOrder cfg) = fst ` set (gcBuilt cfg)"
  by (auto simp: rosterOrder_def Let_def set_dedup_from map_of_eq_None_iff)

lemma changeExecutor_mem: "changeExecutor cfg \<noteq> [] \<Longrightarrow> changeExecutor cfg \<in> set (rosterOrder cfg) \<and> gcHandoff cfg"
proof -
  assume ne: "changeExecutor cfg \<noteq> []"
  then obtain n where "filter (\<lambda>n. map_of (gcBuilt cfg) n = Some CapabilityChangeExecutor) (rosterOrder cfg) = [n]" "gcHandoff cfg"
    "changeExecutor cfg = n"
    by (auto simp: changeExecutor_def split: if_splits list.splits)
  then have "changeExecutor cfg \<in> set (filter (\<lambda>n. map_of (gcBuilt cfg) n = Some CapabilityChangeExecutor) (rosterOrder cfg))" by simp
  then show ?thesis using \<open>gcHandoff cfg\<close> by (simp only: set_filter mem_Collect_eq)
qed

lemma mem_handoff: "e \<in> set (handoff_edges cfg) \<longleftrightarrow> changeExecutor cfg \<noteq> [] \<and>
    (e = (NRun (changeExecutor cfg), NReport, RAlways) \<or>
     (\<exists>n\<in>set (rosterOrder cfg) - {changeExecutor cfg}. e = (NRun n, NRun (changeExecutor cfg), RString ExecuteRoute) \<or> e = (NRun n, NReport, RDefault)))"
proof -
  have "set (concat (map (\<lambda>n. if n = x then [] else [f n, g n]) ns)) = (\<Union>n\<in>set ns - {x}. {f n, g n})" for x ns and f g :: "string \<Rightarrow> edge"
    by (induction ns) auto
  then show ?thesis by (simp add: handoff_edges_def)
qed

lemma edge_from_route: "(NRoute, m, r) \<in> set (graph_edges cfg) \<longleftrightarrow> (\<exists>n\<in>set (rosterOrder cfg). m = NRun n \<and> r = (if n = FallbackName then RDefault else RString n))"
  by (simp add: graph_edges_def route_edges_def mem_handoff image_iff del: if_split)

lemma edge_from_run:
  "(NRun n, m, r) \<in> set (graph_edges cfg) \<longleftrightarrow> changeExecutor cfg \<noteq> [] \<and>
     (if n = changeExecutor cfg then m = NReport \<and> r = RAlways
      else n \<in> set (rosterOrder cfg) \<and> (m = NRun (changeExecutor cfg) \<and> r = RString ExecuteRoute \<or> m = NReport \<and> r = RDefault))"
  by (simp add: graph_edges_def route_edges_def mem_handoff image_iff) blast

lemma route_documented:
  assumes "graph_ok cfg"
  shows "documented (graph_edges cfg) NRoute [key] = {NRun (dispatched cfg key)}"
proof -
  have fb: "FallbackName \<in> set (rosterOrder cfg)" using assms set_rosterOrder [OF assms] by (simp add: graph_ok_def)
  have k: "keyed (graph_edges cfg) NRoute [key] = (if key \<in> set (rosterOrder cfg) \<and> key \<noteq> FallbackName then {NRun key} else {})"
    by (auto simp: keyed_def edge_from_route split: if_splits)
  have d: "{m. (NRoute, m, RDefault) \<in> set (graph_edges cfg)} = {NRun FallbackName}" using fb by (auto simp: edge_from_route split: if_splits)
  have "{m. (NRoute, m, RAlways) \<in> set (graph_edges cfg)} = {}" by (auto simp: edge_from_route split: if_splits)
  then show ?thesis unfolding documented_def k d by (auto simp: dispatched_def)
qed

lemma run_documented:
  "NRun m \<in> documented (graph_edges cfg) (NRun n) rs \<Longrightarrow> m = changeExecutor cfg \<and> n \<noteq> m \<and> m \<noteq> [] \<and> ExecuteRoute \<in> set rs"
  by (auto simp: documented_def keyed_def edge_from_run split: if_splits)

lemma set_run_target: "set (concat (map run_target xs)) = {n. NRun n \<in> set xs}"
proof -
  have "n \<in> set (run_target x) \<longleftrightarrow> x = NRun n" for n x by (cases x) auto
  then show ?thesis by auto
qed

lemma engine_targets: "engine_ok nx \<Longrightarrow> set (targets nx cfg n rs) = {m. NRun m \<in> documented (graph_edges cfg) n rs}"
  by (simp only: targets_def set_run_target engine_ok_def)

lemma ex_groute: "(\<exists>r. P r) \<longleftrightarrow> P RAlways \<or> (\<exists>k. P (RString k)) \<or> P RDefault"
  by (metis groute.exhaust)

lemma doc_next_ok: "engine_ok doc_next"
proof -
  have k: "keyed es n rs = {} \<longleftrightarrow> list_all (\<lambda>(a, m, r). a = n \<longrightarrow> list_all (\<lambda>k. r \<noteq> RString k) rs) es" for es n rs
    by (force simp: keyed_def list_all_iff)
  have "(\<exists>r. (n, m, r) \<in> set es \<and> takes es n rs (n, m, r)) \<longleftrightarrow> m \<in> documented es n rs" for es n rs m
  proof -
    have "(\<exists>r. (n, m, r) \<in> set es \<and> takes es n rs (n, m, r)) \<longleftrightarrow> (n, m, RAlways) \<in> set es \<or> m \<in> keyed es n rs \<or>
        keyed es n rs = {} \<and> (n, m, RDefault) \<in> set es"
      by (simp only: ex_groute takes.simps k [symmetric]) (auto simp: keyed_def)
    then show ?thesis by (auto simp: documented_def)
  qed
  moreover have "m \<in> set (doc_next es n rs) \<longleftrightarrow> (\<exists>r. (n, m, r) \<in> set es \<and> takes es n rs (n, m, r))" for es n rs m
  proof -
    have "takes es n rs (a, m, r) \<Longrightarrow> a = n" for a r by (cases r) auto
    then show ?thesis by (force simp: doc_next_def)
  qed
  ultimately show ?thesis by (auto simp: engine_ok_def)
qed

text \<open>
  Every turn has one place to go: with the fallback in the roster, the route picks exactly one specialist's node, the one
  that the key names or else the fallback's.
\<close>

theorem one_specialist_dispatched:
  assumes "engine_ok nx" "graph_ok cfg"
  shows "set (nx (graph_edges cfg) NRoute [key]) = {NRun (dispatched cfg key)} \<and> dispatched cfg key \<in> fst ` set (gcBuilt cfg)"
  using assms route_documented [OF assms(2)] set_rosterOrder [OF assms(2)] by (auto simp: engine_ok_def dispatched_def graph_ok_def)

lemma demo_graph_ok: "graph_ok demo_graph" "gcRequireApproval demo_graph" "leaves_verdicts (demo_turn reply r)"
  by (simp_all add: graph_ok_def demo_graph_def FallbackName_def leaves_verdicts_def demo_turn_def)

theorem one_specialist_dispatched_witness:
  "set (doc_next (graph_edges demo_graph) NRoute [''what?'']) = {NRun (dispatched demo_graph ''what?'')}"
  using one_specialist_dispatched [OF doc_next_ok demo_graph_ok(1), of "''what?''"] by simp

subsection \<open>A node\<close>

lemma routeChange_events:
  "routeChange cfg ac n approved f = (evs, out) \<Longrightarrow> deltas evs = [] \<and>
     (ExecuteRoute \<in> set (routes evs) \<longrightarrow> approved \<and> acChanges ac \<noteq> None)"
  by (auto simp: routeChange_def plain_event_def split: if_splits option.splits)

lemma answered_events:
  "answered cfg name ac n v st = (evs, out) \<Longrightarrow> deltas evs = [] \<and>
     (ExecuteRoute \<in> set (routes evs) \<longrightarrow> verdictApproved v \<and> acChanges ac \<noteq> None)"
  unfolding answered_def Let_def by (erule routeChange_events)

lemma run_node_deltas:
  assumes "run_node cfg name ac st = (evs, out)"
  shows "deltas evs = [] \<or> (\<exists>v. deltas evs = [(verdictStateKey @ name, v)] \<and> acResumed ac = Some v) \<or>
    (\<exists>v. deltas evs = [(''triage:'' @ name, v)] \<and> acResumed ac = None)"
proof (cases "acResumed ac")
  case (Some v)
  then show ?thesis using assms answered_events
    by (auto simp: run_node_def plain_event_def split: if_splits prod.splits)
next
  case None
  show ?thesis
  proof (cases "recordedVerdict (acReadable ac) st (verdictStateKey @ name)")
    case (Some v)
    then show ?thesis using None assms answered_events by (auto simp: run_node_def)
  next
    case no: None
    then show ?thesis using None assms routeChange_events [of cfg ac "acEmits ac" True]
      by (auto simp: run_node_def plain_event_def Let_def split: if_splits outcome.splits)
  qed
qed

lemma recordedVerdict_Some: "recordedVerdict rd st k = Some v \<Longrightarrow> map_of st k = Some v"
  by (auto simp: recordedVerdict_def split: if_splits option.splits gval.splits)

text \<open>The route of a change is emitted on an approval that the state has afterwards.\<close>

lemma run_node_execute:
  assumes "run_node cfg name ac st = (evs, out)" "ExecuteRoute \<in> set (routes evs)" "gcRequireApproval cfg"
  shows "acChanges ac \<noteq> None \<and> (\<exists>v. verdictApproved v \<and> map_of (commit evs st) (verdictStateKey @ name) = Some v)"
proof (cases "acResumed ac")
  case (Some v)
  then obtain evs' where e: "answered cfg name ac (acEmits ac - 1) v st = (evs', out)"
    "evs = plain_event\<lparr>geDelta := [(verdictStateKey @ name, v)]\<rparr> # evs'"
    using assms(1,2) by (auto simp: run_node_def split: if_splits prod.splits)
  then show ?thesis using answered_events [OF e(1)] assms(2) by (auto simp: commit_lookup plain_event_def)
next
  case None
  show ?thesis
  proof (cases "recordedVerdict (acReadable ac) st (verdictStateKey @ name)")
    case (Some v)
    then have "answered cfg name ac (acEmits ac) v st = (evs, out)" using None assms(1) by (simp add: run_node_def)
    then show ?thesis using answered_events assms(2) recordedVerdict_Some [OF Some] by (fastforce simp: commit_lookup)
  next
    case no: None
    then show ?thesis using None assms by (auto simp: run_node_def plain_event_def Let_def split: if_splits outcome.splits)
  qed
qed

subsection \<open>A session\<close>

lemma turn_visits_form:
  assumes "engine_ok nx" "graph_ok cfg" "turn_visits nx cfg t st0 = (vs, st')" "leaves_verdicts t"
  obtains n evs out st1 st2 where "run_node cfg n (gtActs t n) st1 = (evs, out)" "st2 = commit evs st1"
    "\<And>m. map_of st1 (verdictStateKey @ m) = map_of st0 (verdictStateKey @ m)"
    "vs = [(n, evs, out)] \<and> st' = st2 \<or>
     (\<exists>m evs' out'. vs = [(n, evs, out), (m, evs', out')] \<and> m = changeExecutor cfg \<and> n \<noteq> m \<and> ExecuteRoute \<in> set (routes evs) \<and>
        run_node cfg m (gtActs t m) st2 = (evs', out') \<and> st' = commit evs' st2)"
proof -
  define st where "st = others t st0"
  obtain key ev where r: "route_node cfg (gtReadable t) (gtReply t) st = (key, ev)" by fastforce
  define st1 where "st1 = commit [ev] st"
  have ev: "geDelta ev = [(routeStateKey, VText key)]" using r by (auto simp: route_node_def Let_def plain_event_def)
  have "map_of (rev (gtOthers t)) (verdictStateKey @ m) = None" for m
    using assms(4) graph_prefix_self by (intro map_of_rev_None) (force simp: leaves_verdicts_def)
  then have v1: "map_of st1 (verdictStateKey @ m) = map_of st0 (verdictStateKey @ m)" for m
    by (simp add: st1_def commit_lookup ev st_def others_def foldl_update)
  have "set (targets nx cfg NRoute [key]) = {dispatched cfg key}"
    using engine_targets [OF assms(1)] route_documented [OF assms(2)] by auto
  then obtain rest where t1: "targets nx cfg NRoute [key] = dispatched cfg key # rest"
    by (cases "targets nx cfg NRoute [key]") auto
  define n where "n = dispatched cfg key"
  obtain evs out where run: "run_node cfg n (gtActs t n) st1 = (evs, out)" by fastforce
  define st2 where "st2 = commit evs st1"
  have turn: "turn_visits nx cfg t st0 = handoff_visit nx cfg t n evs out st2"
    unfolding turn_visits_def st_def [symmetric] r prod.case st1_def [symmetric] first_visit_def t1 list.case n_def [symmetric] run st2_def [symmetric] ..
  have "vs = [(n, evs, out)] \<and> st' = st2 \<or>
     (\<exists>m evs' out'. vs = [(n, evs, out), (m, evs', out')] \<and> m = changeExecutor cfg \<and> n \<noteq> m \<and> ExecuteRoute \<in> set (routes evs) \<and>
        run_node cfg m (gtActs t m) st2 = (evs', out') \<and> st' = commit evs' st2)"
  proof (cases "targets nx cfg (NRun n) (routes evs)")
    case Nil
    then show ?thesis using assms(3) turn by (auto simp: handoff_visit_def split: outcome.splits)
  next
    case (Cons m ms)
    then have "NRun m \<in> documented (graph_edges cfg) (NRun n) (routes evs)"
      using engine_targets [OF assms(1), of cfg "NRun n" "routes evs"] by (metis list.set_intros(1) mem_Collect_eq)
    note m = run_documented [OF this]
    obtain evs' out' where run': "run_node cfg m (gtActs t m) st2 = (evs', out')" by fastforce
    show ?thesis using assms(3) turn Cons m run' by (auto simp: handoff_visit_def split: outcome.splits)
  qed
  then show thesis using that run st2_def v1 by blast
qed

lemma verdict_in_Cons: "verdict_in n ((m, evs, out) # vs) = (case verdict_in n vs of None \<Rightarrow> map_of (rev (deltas evs)) (verdictStateKey @ n) | Some v \<Rightarrow> Some v)"
  by (simp add: verdict_in_def map_add_def split: option.split)

lemma verdict_in_Nil: "verdict_in n [] = None"
  by (simp add: verdict_in_def)

lemma turn_verdicts:
  assumes "engine_ok nx" "graph_ok cfg" "turn_visits nx cfg t st0 = (vs, st')" "leaves_verdicts t"
  shows "map_of st' (verdictStateKey @ n) = (case verdict_in n vs of None \<Rightarrow> map_of st0 (verdictStateKey @ n) | Some v \<Rightarrow> Some v)"
  by (rule turn_visits_form [OF assms])
    (auto simp: verdict_in_Cons verdict_in_Nil commit_lookup split: option.split)

lemma verdict_is_answer:
  assumes "engine_ok nx" "graph_ok cfg" "turn_visits nx cfg t st0 = (vs, st')" "leaves_verdicts t" "verdict_in n vs = Some v"
  shows "acResumed (gtActs t n) = Some v"
proof -
  have one: "acResumed (gtActs t m) = Some v" if "run_node cfg k (gtActs t k) s = (evs, out)"
      "map_of (rev (deltas evs)) (verdictStateKey @ m) = Some v" for k s evs out m
    using run_node_deltas [OF that(1)] that(2) by (auto split: if_splits)
  show ?thesis
    by (rule turn_visits_form [OF assms(1-4)]) (use assms(5) one in \<open>auto simp: verdict_in_Cons verdict_in_Nil split: option.splits\<close>)
qed

lemma turn_handoff:
  assumes "engine_ok nx" "graph_ok cfg" "gcRequireApproval cfg" "turn_visits nx cfg t st0 = (vs, st')" "leaves_verdicts t" "vs = [(n, e), (m, e')]"
  shows "m = changeExecutor cfg \<and> n \<noteq> m \<and> acChanges (gtActs t n) \<noteq> None \<and> (\<exists>v. map_of st' (verdictStateKey @ n) = Some v \<and> verdictApproved v)"
proof -
  obtain evs out st1 evs' out' where r: "run_node cfg n (gtActs t n) st1 = (evs, out)" "m = changeExecutor cfg" "n \<noteq> m"
    "ExecuteRoute \<in> set (routes evs)" "run_node cfg m (gtActs t m) (commit evs st1) = (evs', out')" "st' = commit evs' (commit evs st1)"
    by (rule turn_visits_form [OF assms(1,2,4,5)]) (use assms(6) in \<open>elim disjE exE conjE, simp, simp, metis\<close>)
  note x = run_node_execute [OF r(1,4) assms(3)]
  have "map_of (rev (deltas evs')) (verdictStateKey @ n) = None" using run_node_deltas [OF r(5)] r(3) by auto
  then have "map_of st' (verdictStateKey @ n) = map_of (commit evs st1) (verdictStateKey @ n)" using r(6) by (simp add: commit_lookup)
  then show ?thesis using x r(2,3) by auto
qed

lemma last_verdict_snoc: "last_verdict n (vss @ [vs]) = (case verdict_in n vs of None \<Rightarrow> last_verdict n vss | Some v \<Rightarrow> Some v)"
  by (simp add: last_verdict_def split: option.split)

lemma session_handoff:
  assumes "engine_ok nx" "graph_ok cfg" "gcRequireApproval cfg" "list_all leaves_verdicts ts" "session nx cfg ts st = (vss, st')"
    and "\<And>n. map_of st (verdictStateKey @ n) = last_verdict n past" "i < length vss" "vss ! i = [(n, e), (m, e')]"
  shows "m = changeExecutor cfg \<and> n \<noteq> m \<and> acChanges (gtActs (ts ! i) n) \<noteq> None \<and>
    (\<exists>v. last_verdict n (past @ take (Suc i) vss) = Some v \<and> verdictApproved v)"
  using assms(4-)
proof (induction ts arbitrary: st vss past i)
  case (Cons t ts)
  obtain vs st1 vss' where h: "turn_visits nx cfg t st = (vs, st1)" "session nx cfg ts st1 = (vss', st')" "vss = vs # vss'"
    using Cons.prems(2) by (auto simp: Let_def split: prod.splits)
  have t: "leaves_verdicts t" "list_all leaves_verdicts ts" using Cons.prems(1) by auto
  have v: "map_of st1 (verdictStateKey @ n) = last_verdict n (past @ [vs])" for n
    using turn_verdicts [OF assms(1,2) h(1) t(1)] Cons.prems(3) by (simp add: last_verdict_snoc split: option.split)
  show ?case
  proof (cases i)
    case 0
    then show ?thesis using turn_handoff [OF assms(1-3) h(1) t(1), of n e m e'] Cons.prems(5) h(3) v by auto
  next
    case (Suc j)
    then show ?thesis using Cons.IH [OF t(2) h(2) v, of j] Cons.prems(4,5) h(3) by auto
  qed
qed simp

lemma session_answers:
  assumes "engine_ok nx" "graph_ok cfg" "list_all leaves_verdicts ts" "session nx cfg ts st = (vss, st')" "i < length vss" "verdict_in n (vss ! i) = Some v"
  shows "i < length ts \<and> acResumed (gtActs (ts ! i) n) = Some v"
  using assms(3-)
proof (induction ts arbitrary: st vss i)
  case (Cons t ts)
  obtain vs st1 vss' where h: "turn_visits nx cfg t st = (vs, st1)" "session nx cfg ts st1 = (vss', st')" "vss = vs # vss'"
    using Cons.prems(2) by (auto simp: Let_def split: prod.splits)
  show ?case using Cons h verdict_is_answer [OF assms(1,2) h(1)] by (cases i) auto
qed simp

text \<open>
  No change without an approval: in a session of any turns from an empty state, under a policy that requires approval, the
  executor is entered from another specialist only if that specialist's finding carried an executable change and the last
  answer on record to that finding approves it; and what is on record for a finding is what an operator answered in that turn.
\<close>

theorem change_needs_approval:
  assumes "engine_ok nx" "graph_ok cfg" "gcRequireApproval cfg" "list_all leaves_verdicts ts" "session nx cfg ts [] = (vss, st')"
    and "i < length vss" "vss ! i = [(n, e), (m, e')]"
  shows "m = changeExecutor cfg \<and> n \<noteq> m \<and> acChanges (gtActs (ts ! i) n) \<noteq> None \<and>
    (\<exists>v. last_verdict n (take (Suc i) vss) = Some v \<and> verdictApproved v) \<and>
    (\<forall>j < length vss. \<forall>w. verdict_in n (vss ! j) = Some w \<longrightarrow> acResumed (gtActs (ts ! j) n) = Some w)"
  using session_handoff [OF assms(1-5) _ assms(6,7), of "[]"] session_answers [OF assms(1,2,4,5)] by (auto simp: last_verdict_def)

lemma demo_signal:
  "map fst (fst (turn_visits doc_next demo_graph (demo_turn (VText ''dns'') None) [])) = [''dns'']"
  "snd (turn_visits doc_next demo_graph (demo_turn (VText ''dns'') None) []) = demo_stash"
  by code_simp+

lemma demo_reply:
  "map fst (fst (turn_visits doc_next demo_graph (demo_turn (VText ''approved'') (Some (VBool True))) demo_stash)) = [''dns'', ''patch'']"
  "snd (turn_visits doc_next demo_graph (demo_turn (VText ''approved'') (Some (VBool True))) demo_stash) = demo_stash @ [(verdictStateKey @ ''dns'', VBool True)]"
  by code_simp+

lemma demo_repeat:
  "map fst (fst (turn_visits doc_next demo_graph (demo_turn (VText ''dns'') None) (demo_stash @ [(verdictStateKey @ ''dns'', VBool True)]))) = [''dns'', ''patch'']"
  "map (\<lambda>(n, evs, out). map geAsk evs) (fst (turn_visits doc_next demo_graph (demo_turn (VText ''dns'') None) (demo_stash @ [(verdictStateKey @ ''dns'', VBool True)]))) = [[None], []]"
  by code_simp+

lemma session_Cons:
  "fst (session nx cfg (t # ts) st) = fst (turn_visits nx cfg t st) # fst (session nx cfg ts (snd (turn_visits nx cfg t st)))"
  by (simp add: case_prod_unfold)

lemma demo_run: "map (map fst) (fst (session doc_next demo_graph demo_incident [])) = [[''dns''], [''dns'', ''patch'']]"
  by (simp only: demo_incident_def session_Cons session.simps(1) demo_signal demo_reply list.map fst_conv)

theorem change_needs_approval_witness:
  "\<exists>v. last_verdict ''dns'' (take 2 (fst (session doc_next demo_graph demo_incident []))) = Some v \<and> verdictApproved v"
proof -
  obtain vss st' where s: "session doc_next demo_graph demo_incident [] = (vss, st')" by fastforce
  then have "map (map fst) vss = [[''dns''], [''dns'', ''patch'']]" using demo_run by simp
  then obtain e e' where "Suc 0 < length vss" "vss ! Suc 0 = [(''dns'', e), (''patch'', e')]" by (auto simp: map_eq_Cons_conv)
  with change_needs_approval [OF doc_next_ok demo_graph_ok(1,2) _ s] s show ?thesis
    by (simp add: demo_incident_def demo_graph_ok numeral_2_eq_2)
qed

text \<open>
  The record of an answer has no end: a later signal of the same session that picks the same specialist is answered with the
  approval of the first one. Nobody runs the specialist, nobody asks, and the executor is entered again.
\<close>

theorem verdict_outlives_incident:
  "map (map fst) (fst (session doc_next demo_graph (demo_incident @ [demo_turn (VText ''dns'') None]) [])) =
     [[''dns''], [''dns'', ''patch''], [''dns'', ''patch'']] \<and>
   map (\<lambda>(n, evs, out). map geAsk evs) (last (fst (session doc_next demo_graph (demo_incident @ [demo_turn (VText ''dns'') None]) []))) = [[None], []]"
  by (simp only: demo_incident_def append.simps session_Cons session.simps(1) demo_signal demo_reply demo_repeat list.map fst_conv last.simps list.distinct if_False if_True simp_thms)

end
