(* ===== verification/Fan_Branches.thy ===== *)
theory Fan_Branches
  imports Dispatch_Graph
begin

text \<open>
  The fan-out graph while it runs, \<^verbatim>\<open>src/internal/graph/fanout.go\<close>: the semaphores that cap how many analysts of one
  activation run at once, the findings that are read back from the session, and the node that merges them.

  A channel is its number of tokens; a branch is where the function of its node has got to. The parallel agent of the
  framework starts the branches and returns after they ended: the order of the operations is an argument, and where that
  matters a hypothesis says that an activation is forgotten after its branches ended.
\<close>

section \<open>Semaphores\<close>

datatype branch_phase = Arriving | Waiting nat | Running "nat option" | Ended

record branch =
  brInvocation :: string
  brPhase :: branch_phase

record branch_sems =
  bsByID :: "(string, nat) gomap"
  bsChans :: "nat list"
  bsBranches :: "branch list"

definition DefaultMaxConcurrency :: int where "DefaultMaxConcurrency = 4"

definition maxConcurrency :: "workload \<Rightarrow> int" where
  "maxConcurrency b = (if buMaxConcurrency b \<noteq> 0 then buMaxConcurrency b else DefaultMaxConcurrency)"

definition fan_start :: branch_sems where
  "fan_start = \<lparr>bsByID = [], bsChans = [], bsBranches = []\<rparr>"

definition set_phase :: "nat \<Rightarrow> branch_phase \<Rightarrow> branch_sems \<Rightarrow> branch_sems" where
  "set_phase i p s = s\<lparr>bsBranches := (bsBranches s)[i := (bsBranches s ! i)\<lparr>brPhase := p\<rparr>]\<rparr>"

text \<open>Up to the select: the channel of the activation, made if there is none.\<close>

definition acquire :: "int \<Rightarrow> nat \<Rightarrow> branch_sems \<Rightarrow> branch_sems" where
  "acquire limit i s =
     (if limit \<le> 0 then set_phase i (Running None) s
      else case map_of (bsByID s) (brInvocation (bsBranches s ! i)) of
             Some c \<Rightarrow> set_phase i (Waiting c) s
           | None \<Rightarrow>
               set_phase i (Waiting (length (bsChans s)))
                 (s\<lparr>bsByID := AList.update (brInvocation (bsBranches s ! i)) (length (bsChans s)) (bsByID s), bsChans := bsChans s @ [0]\<rparr>))"

definition forget :: "string \<Rightarrow> branch_sems \<Rightarrow> branch_sems" where
  "forget act s = s\<lparr>bsByID := AList.delete act (bsByID s)\<rparr>"

datatype fan_op = FStart string | FAcquire nat | FSend nat | FDone nat | FRelease nat | FForget string

text \<open>The select takes either way that is open; what cannot happen changes nothing.\<close>

fun fan_step :: "int \<Rightarrow> branch_sems \<Rightarrow> fan_op \<Rightarrow> branch_sems" where
  "fan_step limit s (FStart act) = s\<lparr>bsBranches := bsBranches s @ [\<lparr>brInvocation = act, brPhase = Arriving\<rparr>]\<rparr>"
| "fan_step limit s (FAcquire i) =
     (if i < length (bsBranches s) \<and> brPhase (bsBranches s ! i) = Arriving then acquire limit i s else s)"
| "fan_step limit s (FSend i) =
     (if i < length (bsBranches s) then
        (case brPhase (bsBranches s ! i) of
           Waiting c \<Rightarrow>
             if int (bsChans s ! c) < limit
             then set_phase i (Running (Some c)) (s\<lparr>bsChans := (bsChans s)[c := bsChans s ! c + 1]\<rparr>) else s
         | _ \<Rightarrow> s)
      else s)"
| "fan_step limit s (FDone i) =
     (if i < length (bsBranches s) then
        (case brPhase (bsBranches s ! i) of Waiting c \<Rightarrow> set_phase i Ended s | _ \<Rightarrow> s)
      else s)"
| "fan_step limit s (FRelease i) =
     (if i < length (bsBranches s) then
        (case brPhase (bsBranches s ! i) of
           Running (Some c) \<Rightarrow> set_phase i Ended (s\<lparr>bsChans := (bsChans s)[c := bsChans s ! c - 1]\<rparr>)
         | Running None \<Rightarrow> set_phase i Ended s
         | _ \<Rightarrow> s)
      else s)"
| "fan_step limit s (FForget act) = forget act s"

section \<open>Findings\<close>

record fan_event =
  feAuthor :: string
  feInvocation :: string
  feOutput :: gval

record findings =
  fiReported :: "(string \<times> gval) list"
  fiSilent :: "string list"

fun findingsFor :: "string list \<Rightarrow> (string, gval) gomap \<Rightarrow> findings" where
  "findingsFor [] byName = \<lparr>fiReported = [], fiSilent = []\<rparr>"
| "findingsFor (n # ns) byName =
     (let f = findingsFor ns byName
      in case map_of byName n of
           None \<Rightarrow> f\<lparr>fiSilent := n # fiSilent f\<rparr>
         | Some VNil \<Rightarrow> f\<lparr>fiSilent := n # fiSilent f\<rparr>
         | Some p \<Rightarrow> f\<lparr>fiReported := (n, p) # fiReported f\<rparr>)"

text \<open>An event may be nil.\<close>

definition collect_event :: "string \<Rightarrow> string list \<Rightarrow> (string, gval) gomap \<Rightarrow> fan_event option \<Rightarrow> (string, gval) gomap" where
  "collect_event act order latest ev =
     (case ev of
        None \<Rightarrow> latest
      | Some e \<Rightarrow>
          if feOutput e = VNil \<or> feInvocation e \<noteq> act then latest
          else if feAuthor e \<in> set order then AList.update (feAuthor e) (feOutput e) latest
          else latest)"

definition collectFindings :: "string \<Rightarrow> string list \<Rightarrow> fan_event option list \<Rightarrow> findings" where
  "collectFindings act order evs = findingsFor order (foldl (collect_event act order) [] evs)"

section \<open>The merge\<close>

definition newline :: string where "newline = [CHR 0x0A]"

definition SynthesisPrompt :: "findings \<Rightarrow> string" where
  "SynthesisPrompt f =
     ''Merge the analyst findings below into one report.'' @ newline @
     ''These payloads are the complete record: anything an analyst did'' @ newline @
     ''but did not return is not available to you.'' @ newline @
     concat (map (\<lambda>(a, p). newline @ ''## '' @ a @ newline @ sprint p @ newline) (fiReported f)) @
     (if fiSilent f \<noteq> [] then newline @ ''Returned no finding: '' @ Join (fiSilent f) '', '' @ newline else [])"

definition SynthesisInterruptID :: string where "SynthesisInterruptID = ''approve-'' @ SynthesisName"
definition synthesisStateKey :: string where "synthesisStateKey = ''fanout:'' @ SynthesisName"

text \<open>The answer: how many analysts there were, who was silent, the report if there is one, the operator's answer if there is one.\<close>

record fan_result =
  frAnalysts :: nat
  frReported :: nat
  frSilent :: "string list"
  frReport :: gval
  frApproval :: "gval option"

datatype fan_outcome = FOut fan_result | FFail string | FInterrupted

text \<open>\<open>ran\<close> says on what the merging specialist was run, if it was.\<close>

definition synthesize ::
  "bool \<Rightarrow> activation \<Rightarrow> findings option \<Rightarrow> gstate \<Rightarrow> gevent list \<times> string option \<times> fan_outcome" where
  "synthesize requireApproval ac found st =
     (let f = (case found of None \<Rightarrow> \<lparr>fiReported = [], fiSilent = []\<rparr> | Some f \<Rightarrow> f);
          result = \<lparr>frAnalysts = length (fiReported f) + length (fiSilent f), frReported = length (fiReported f), frSilent = fiSilent f,
                    frReport = VText [], frApproval = None\<rparr>
      in if fiReported f = [] then ([], None, FOut result)
         else case acResumed ac of
                Some verdict \<Rightarrow>
                  (let report = (if acReadable ac then (case map_of st synthesisStateKey of
                                     Some r \<Rightarrow> r | None \<Rightarrow> VText (''(synthesis report unavailable: '' @ acStateError ac @ '')''))
                                 else VText (''(synthesis report unavailable: '' @ acStateError ac @ '')''))
                   in ([], None, FOut (result\<lparr>frReport := report, frApproval := Some verdict\<rparr>)))
              | None \<Rightarrow>
                  (case acRun ac of
                     Fail e \<Rightarrow> ([], Some (SynthesisPrompt f), FFail e)
                   | Interrupted \<Rightarrow> ([], Some (SynthesisPrompt f), FInterrupted)
                   | Out report \<Rightarrow>
                       if \<not> requireApproval then ([], Some (SynthesisPrompt f), FOut (result\<lparr>frReport := report\<rparr>))
                       else if acEmits ac = 0 then ([], Some (SynthesisPrompt f), FFail ''emit'')
                       else
                         (let stash = plain_event\<lparr>geDelta := [(synthesisStateKey, report)]\<rparr>;
                              ask = plain_event\<lparr>geAsk := Some (SynthesisInterruptID,
                                ''Approve merged report from '' @ itoa (int (frReported result)) @ '' of '' @ itoa (int (frAnalysts result)) @
                                '' analysts? Result: '' @ sprint report)\<rparr>
                          in if acEmits ac = 1 then ([stash], Some (SynthesisPrompt f), FFail ''emit'')
                             else ([stash, ask], Some (SynthesisPrompt f), FInterrupted))))"

section \<open>What is claimed\<close>

fun is_running :: "branch_phase \<Rightarrow> bool" where
  "is_running (Running c) = True"
| "is_running _ = False"

definition in_flight :: "string \<Rightarrow> branch_sems \<Rightarrow> nat" where
  "in_flight act s = length (filter (\<lambda>b. brInvocation b = act \<and> brPhase b \<noteq> Ended) (bsBranches s))"

definition running :: "string \<Rightarrow> branch_sems \<Rightarrow> nat" where
  "running act s = length (filter (\<lambda>b. brInvocation b = act \<and> is_running (brPhase b)) (bsBranches s))"

text \<open>An activation is forgotten after its branches ended.\<close>

fun orderly :: "int \<Rightarrow> branch_sems \<Rightarrow> fan_op list \<Rightarrow> bool" where
  "orderly limit s [] = True"
| "orderly limit s (x # xs) = ((case x of FForget act \<Rightarrow> in_flight act s = 0 | _ \<Rightarrow> True) \<and> orderly limit (fan_step limit s x) xs)"

definition holders :: "nat \<Rightarrow> branch_sems \<Rightarrow> nat" where
  "holders c s = length (filter (\<lambda>b. brPhase b = Running (Some c)) (bsBranches s))"

fun on_chan :: "branch_phase \<Rightarrow> nat option" where
  "on_chan (Waiting c) = Some c"
| "on_chan (Running c) = c"
| "on_chan _ = None"

definition chans_ok :: "int \<Rightarrow> branch_sems \<Rightarrow> bool" where
  "chans_ok limit s \<longleftrightarrow>
     (\<forall>c < length (bsChans s). bsChans s ! c = holders c s \<and> (0 < holders c s \<longrightarrow> int (holders c s) \<le> limit)) \<and>
     (\<forall>b \<in> set (bsBranches s). case on_chan (brPhase b) of None \<Rightarrow> True | Some c \<Rightarrow> c < length (bsChans s)) \<and>
     (\<forall>k c. map_of (bsByID s) k = Some c \<longrightarrow> c < length (bsChans s))"

definition own_ok :: "branch_sems \<Rightarrow> bool" where
  "own_ok s \<longleftrightarrow>
     (\<forall>b \<in> set (bsBranches s). (\<forall>c. on_chan (brPhase b) = Some c \<longrightarrow> map_of (bsByID s) (brInvocation b) = Some c) \<and> brPhase b \<noteq> Running None) \<and>
     (\<forall>i j c. map_of (bsByID s) i = Some c \<longrightarrow> map_of (bsByID s) j = Some c \<longrightarrow> i = j)"

text \<open>The last payload that an analyst returned in an activation.\<close>

definition last_output :: "string \<Rightarrow> string \<Rightarrow> fan_event option list \<Rightarrow> gval option" where
  "last_output act a evs =
     (let es = filter (\<lambda>e. feInvocation e = act \<and> feAuthor e = a \<and> feOutput e \<noteq> VNil) (map the (filter (\<lambda>e. e \<noteq> None) evs))
      in if es = [] then None else Some (feOutput (last es)))"

definition demo_fan :: "fan_op list" where
  "demo_fan = [FStart ''a'', FStart ''a'', FStart ''b'', FAcquire 0, FAcquire 1, FAcquire 2, FSend 0, FSend 2]"

definition demo_merge :: activation where
  "demo_merge = \<lparr>acReadable = True, acStateError = [], acResumed = None, acRun = Out (VText ''merged''), acEmits = 2, acChanges = None\<rparr>"

section \<open>Lemmas and properties\<close>

subsection \<open>Semaphores\<close>

lemma filter_update:
  "i < length xs \<Longrightarrow> length (filter P (xs[i := y])) + (if P (xs ! i) then 1 else 0) = length (filter P xs) + (if P y then 1 else 0)"
proof -
  assume i: "i < length xs"
  then have "filter P xs = filter P (take i xs) @ filter P (xs ! i # drop (Suc i) xs)" by (metis filter_append id_take_nth_drop)
  then show ?thesis using i by (simp add: upd_conv_take_nth_drop)
qed

lemma bs_set_phase [simp]: "bsByID (set_phase i p s) = bsByID s" "bsChans (set_phase i p s) = bsChans s"
  by (simp_all add: set_phase_def)

lemma holders_set_phase:
  "i < length (bsBranches s) \<Longrightarrow> holders c (set_phase i p s) + (if brPhase (bsBranches s ! i) = Running (Some c) then 1 else 0) =
     holders c s + (if p = Running (Some c) then 1 else 0)"
  using filter_update [of i "bsBranches s" "\<lambda>b. brPhase b = Running (Some c)" "(bsBranches s ! i)\<lparr>brPhase := p\<rparr>"]
  by (simp add: holders_def set_phase_def)

lemma holders_other [simp]: "holders c (s\<lparr>bsByID := m\<rparr>) = holders c s" "holders c (s\<lparr>bsChans := cs\<rparr>) = holders c s"
  by (simp_all add: holders_def)

lemma mem_set_phase: "i < length (bsBranches s) \<Longrightarrow> b \<in> set (bsBranches (set_phase i p s)) \<Longrightarrow>
    b \<in> set (bsBranches s) \<or> b = (bsBranches s ! i)\<lparr>brPhase := p\<rparr>"
  by (auto simp: set_phase_def dest: set_update_subset_insert [THEN subsetD])

lemma chans_okI:
  assumes "\<And>c. c < length (bsChans s) \<Longrightarrow> bsChans s ! c = holders c s \<and> (0 < holders c s \<longrightarrow> int (holders c s) \<le> limit)"
    and "\<And>b c. b \<in> set (bsBranches s) \<Longrightarrow> on_chan (brPhase b) = Some c \<Longrightarrow> c < length (bsChans s)"
    and "\<And>k c. map_of (bsByID s) k = Some c \<Longrightarrow> c < length (bsChans s)"
  shows "chans_ok limit s"
  using assms by (fastforce simp: chans_ok_def split: option.split)

lemma chans_okD:
  assumes "chans_ok limit s"
  shows "\<And>c. c < length (bsChans s) \<Longrightarrow> bsChans s ! c = holders c s \<and> (0 < holders c s \<longrightarrow> int (holders c s) \<le> limit)"
    and "\<And>b c. b \<in> set (bsBranches s) \<Longrightarrow> on_chan (brPhase b) = Some c \<Longrightarrow> c < length (bsChans s)"
    and "\<And>k c. map_of (bsByID s) k = Some c \<Longrightarrow> c < length (bsChans s)"
  using assms by (force simp: chans_ok_def)+

text \<open>A branch that moves off or onto a channel, with the tokens of the channel moved along.\<close>

lemma chans_ok_phase:
  assumes s: "chans_ok limit s" and i: "i < length (bsBranches s)" "\<And>c. brPhase (bsBranches s ! i) \<noteq> Running (Some c)" "\<And>c. p \<noteq> Running (Some c)"
    and c: "\<And>c. on_chan p = Some c \<Longrightarrow> c < length (bsChans s)"
  shows "chans_ok limit (set_phase i p s)"
proof (rule chans_okI)
  have h: "holders c (set_phase i p s) = holders c s" for c using holders_set_phase [OF i(1), of c p] i(2,3) by (auto split: if_splits)
  show "c < length (bsChans (set_phase i p s)) \<Longrightarrow> bsChans (set_phase i p s) ! c = holders c (set_phase i p s) \<and>
      (0 < holders c (set_phase i p s) \<longrightarrow> int (holders c (set_phase i p s)) \<le> limit)" for c
    using chans_okD(1) [OF s] h by simp
  show "b \<in> set (bsBranches (set_phase i p s)) \<Longrightarrow> on_chan (brPhase b) = Some c \<Longrightarrow> c < length (bsChans (set_phase i p s))" for b c
    using mem_set_phase [OF i(1)] chans_okD(2) [OF s] assms(5) by fastforce
qed (use chans_okD(3) [OF s] in auto)

lemma chans_ok_new:
  fixes k :: string and s :: branch_sems
  assumes "chans_ok limit s"
  defines "s' \<equiv> s\<lparr>bsByID := AList.update k (length (bsChans s)) (bsByID s), bsChans := bsChans s @ [0]\<rparr>"
  shows "chans_ok limit s'"
proof (rule chans_okI)
  have "holders (length (bsChans s)) s = 0"
    using chans_okD(2) [OF assms(1)] by (fastforce simp: holders_def filter_empty_conv)
  then show "c < length (bsChans s') \<Longrightarrow> bsChans s' ! c = holders c s' \<and> (0 < holders c s' \<longrightarrow> int (holders c s') \<le> limit)" for c
    using chans_okD(1) [OF assms(1), of c] by (auto simp: s'_def nth_append less_Suc_eq)
qed (use chans_okD(2,3) [OF assms(1)] in \<open>auto simp: s'_def less_Suc_eq split: if_splits\<close>)

lemma chans_ok_move:
  fixes s :: branch_sems
  assumes s: "chans_ok limit s" and i: "i < length (bsBranches s)" "on_chan (brPhase (bsBranches s ! i)) = Some c"
    and n: "\<And>d. (if p = Running (Some d) then 1 else 0) + (if d = c then bsChans s ! c else 0) =
       (if d = c then n else 0) + (if brPhase (bsBranches s ! i) = Running (Some d) then 1 else 0)" "0 < n \<Longrightarrow> int n \<le> limit"
      "\<And>d. on_chan p = Some d \<Longrightarrow> d = c"
  shows "chans_ok limit (set_phase i p (s\<lparr>bsChans := (bsChans s)[c := n]\<rparr>))"
proof -
  define s' where "s' = s\<lparr>bsChans := (bsChans s)[c := n]\<rparr>"
  have i': "i < length (bsBranches s')" "bsBranches s' ! i = bsBranches s ! i" using i by (simp_all add: s'_def)
  have c: "c < length (bsChans s)" using chans_okD(2) [OF s] i nth_mem by blast
  have h: "holders d (set_phase i p s') = (if d = c then n else holders d s)" for d
    using holders_set_phase [OF i'(1), of d p] n(1) [of d] chans_okD(1) [OF s c] i by (auto simp: s'_def split: if_splits)
  show ?thesis unfolding s'_def [symmetric]
  proof (rule chans_okI)
    show "d < length (bsChans (set_phase i p s')) \<Longrightarrow> bsChans (set_phase i p s') ! d = holders d (set_phase i p s') \<and>
        (0 < holders d (set_phase i p s') \<longrightarrow> int (holders d (set_phase i p s')) \<le> limit)" for d
      using chans_okD(1) [OF s, of d] n(2) c unfolding h by (simp add: s'_def)
    show "b \<in> set (bsBranches (set_phase i p s')) \<Longrightarrow> on_chan (brPhase b) = Some d \<Longrightarrow> d < length (bsChans (set_phase i p s'))" for b d
      using mem_set_phase [OF i'(1), of b p] chans_okD(2) [OF s, of b d] n(3) [of d] c by (auto simp: s'_def)
  qed (use chans_okD(3) [OF s] in \<open>auto simp: s'_def\<close>)
qed

lemma held_token:
  assumes s: "chans_ok limit s" and i: "i < length (bsBranches s)" "brPhase (bsBranches s ! i) = Running (Some c)"
  shows "0 < bsChans s ! c \<and> int (bsChans s ! c) \<le> limit"
proof -
  have b: "bsBranches s ! i \<in> set (bsBranches s)" using i(1) by simp
  then have "c < length (bsChans s)" using chans_okD(2) [OF s] i(2) by fastforce
  moreover have "bsBranches s ! i \<in> set (filter (\<lambda>b. brPhase b = Running (Some c)) (bsBranches s))" using b i(2) by simp
  then have "0 < holders c s" unfolding holders_def by (rule length_pos_if_in_set)
  ultimately show ?thesis using chans_okD(1) [OF s] by simp
qed

lemma chans_ok_step:
  assumes s: "chans_ok limit s"
  shows "chans_ok limit (fan_step limit s x)"
proof (cases x)
  case (FStart act)
  then show ?thesis using chans_okD [OF s] by (auto intro!: chans_okI simp: holders_def)
next
  case (FAcquire i)
  then show ?thesis using s chans_okD(3) [OF s]
    by (auto simp: acquire_def intro!: chans_ok_phase chans_ok_new split: option.split)
next
  case (FSend i)
  then show ?thesis using s by (auto split: branch_phase.split intro!: chans_ok_move)
next
  case (FDone i)
  then show ?thesis using s by (auto split: branch_phase.split intro!: chans_ok_phase)
next
  case (FRelease i)
  show ?thesis
  proof (cases "i < length (bsBranches s) \<and> is_running (brPhase (bsBranches s ! i))")
    case True
    then obtain m where m: "brPhase (bsBranches s ! i) = Running m" by (cases "brPhase (bsBranches s ! i)") auto
    show ?thesis
    proof (cases m)
      case None
      then show ?thesis using FRelease True m by (auto intro!: chans_ok_phase s)
    next
      case (Some c)
      then have "0 < bsChans s ! c \<and> int (bsChans s ! c) \<le> limit" using held_token [OF s] True m by simp
      then show ?thesis using FRelease True m Some by (auto intro!: chans_ok_move s)
    qed
  qed (use FRelease s in \<open>auto split: branch_phase.split\<close>)
next
  case (FForget act)
  then show ?thesis using chans_okD [OF s] by (auto intro!: chans_okI simp: forget_def delete_conv' split: if_splits)
qed

interpretation sems_kept: kept "fan_step limit" fan_start "chans_ok limit" for limit
proof
  show "chans_ok limit fan_start" by (simp add: chans_ok_def fan_start_def)
qed (rule chans_ok_step)

lemma own_okD:
  assumes "own_ok s"
  shows "\<And>b c. b \<in> set (bsBranches s) \<Longrightarrow> on_chan (brPhase b) = Some c \<Longrightarrow> map_of (bsByID s) (brInvocation b) = Some c"
    and "\<And>b. b \<in> set (bsBranches s) \<Longrightarrow> brPhase b \<noteq> Running None"
    and "\<And>i j c. map_of (bsByID s) i = Some c \<Longrightarrow> map_of (bsByID s) j = Some c \<Longrightarrow> i = j"
  using assms by (auto simp: own_ok_def)

lemma own_ok_phase:
  assumes s: "own_ok s" and i: "i < length (bsBranches s)" and p: "p \<noteq> Running None"
    "\<And>c. on_chan p = Some c \<Longrightarrow> map_of (bsByID s) (brInvocation (bsBranches s ! i)) = Some c"
  shows "own_ok (set_phase i p s)"
proof -
  have "(\<forall>c. on_chan (brPhase b) = Some c \<longrightarrow> map_of (bsByID s) (brInvocation b) = Some c) \<and> brPhase b \<noteq> Running None"
    if "b \<in> set (bsBranches (set_phase i p s))" for b
    using mem_set_phase [OF i that] own_okD(1,2) [OF s, of b] p by auto
  then show ?thesis using own_okD(3) [OF s] by (auto simp: own_ok_def)
qed

lemma own_ok_chans: "own_ok (s\<lparr>bsChans := cs\<rparr>) \<longleftrightarrow> own_ok s"
  by (simp add: own_ok_def)

lemma own_ok_new:
  fixes s :: branch_sems
  assumes "own_ok s" "chans_ok limit s" "map_of (bsByID s) k = None"
  shows "own_ok (s\<lparr>bsByID := AList.update k (length (bsChans s)) (bsByID s), bsChans := bsChans s @ [0]\<rparr>)"
proof -
  have n: "map_of (bsByID s) j \<noteq> Some (length (bsChans s))" for j using chans_okD(3) [OF assms(2)] by blast
  have owner: "brInvocation b \<noteq> k" if "b \<in> set (bsBranches s)" "on_chan (brPhase b) = Some c" for b c
    using own_okD(1) [OF assms(1) that] assms(3) by auto
  show ?thesis using own_okD [OF assms(1)] n owner by (simp add: own_ok_def) auto
qed

lemma own_ok_step:
  assumes s: "own_ok s" "chans_ok limit s" "0 < limit" and x: "\<And>act. x = FForget act \<Longrightarrow> in_flight act s = 0"
  shows "own_ok (fan_step limit s x)"
proof (cases x)
  case (FStart act)
  then show ?thesis using own_okD [OF s(1)] by (auto simp: own_ok_def)
next
  case (FAcquire i)
  then show ?thesis using s by (auto simp: acquire_def intro!: own_ok_phase own_ok_new split: option.split)
next
  case (FSend i)
  then show ?thesis using s own_okD(1) [OF s(1), of "bsBranches s ! i"]
    by (auto split: branch_phase.split intro!: own_ok_phase simp: own_ok_chans)
next
  case (FDone i)
  then show ?thesis using s by (auto split: branch_phase.split intro!: own_ok_phase)
next
  case (FRelease i)
  then show ?thesis using s by (auto split: branch_phase.split option.split intro!: own_ok_phase simp: own_ok_chans)
next
  case (FForget act)
  have "brInvocation b \<noteq> act" if "b \<in> set (bsBranches s)" "on_chan (brPhase b) = Some c" for b c
    using x [OF FForget] that by (auto simp: in_flight_def filter_empty_conv)
  then show ?thesis using own_okD [OF s(1)] FForget by (auto simp: own_ok_def forget_def delete_conv')
qed

lemma orderly_own:
  assumes "orderly limit s xs" "own_ok s" "chans_ok limit s" "0 < limit"
  shows "own_ok (foldl (fan_step limit) s xs)"
  using assms
proof (induction xs arbitrary: s)
  case (Cons x xs)
  have "own_ok (fan_step limit s x)" using Cons.prems by (intro own_ok_step) auto
  then show ?case using Cons chans_ok_step by simp
qed simp

lemma running_held:
  assumes "own_ok s" "map_of (bsByID s) act = Some c"
  shows "running act s = holders c s"
proof -
  have "brInvocation b = act \<and> is_running (brPhase b) \<longleftrightarrow> brPhase b = Running (Some c)" if "b \<in> set (bsBranches s)" for b
  proof (cases "brPhase b")
    case (Running m)
    have "m \<noteq> None" using own_okD(2) [OF assms(1) that] Running by auto
    then obtain d where m: "m = Some d" by auto
    then have "map_of (bsByID s) (brInvocation b) = Some d" using own_okD(1) [OF assms(1) that] Running by simp
    then show ?thesis using Running m assms(2) own_okD(3) [OF assms(1)] by auto
  qed auto
  then have "filter (\<lambda>b. brInvocation b = act \<and> is_running (brPhase b)) (bsBranches s) = filter (\<lambda>b. brPhase b = Running (Some c)) (bsBranches s)"
    by (intro filter_cong) auto
  then show ?thesis by (simp add: running_def holders_def)
qed

lemma running_none:
  assumes "own_ok s" "map_of (bsByID s) act = None"
  shows "running act s = 0"
proof -
  have "\<not> (brInvocation b = act \<and> is_running (brPhase b))" if "b \<in> set (bsBranches s)" for b
    using own_okD(1,2) [OF assms(1) that] assms(2) by (cases "brPhase b") auto
  then show ?thesis by (simp add: running_def filter_empty_conv)
qed

text \<open>
  The cap of an activation: whatever activations run in the daemon at once, with a cap above zero never more branches of one
  of them run than the cap, and a branch that waits can start exactly if fewer do, however many of other activations run.
\<close>

theorem branches_capped:
  assumes "0 < limit" "orderly limit fan_start xs" "s = foldl (fan_step limit) fan_start xs"
    and "i < length (bsBranches s)" "brInvocation (bsBranches s ! i) = act" "brPhase (bsBranches s ! i) = Waiting c"
  shows "int (running other s) \<le> limit \<and>
    (is_running (brPhase (bsBranches (fan_step limit s (FSend i)) ! i)) \<longleftrightarrow> int (running act s) < limit)"
proof -
  have ok: "chans_ok limit s" using sems_kept.inv_run assms(3) by simp
  have own: "own_ok s" using orderly_own [OF assms(2) _ _ assms(1)] sems_kept.inv_start assms(3) by (simp add: own_ok_def fan_start_def)
  have "int (running other s) \<le> limit"
  proof (cases "map_of (bsByID s) other")
    case (Some d)
    then show ?thesis using running_held [OF own Some] chans_okD(1) [OF ok chans_okD(3) [OF ok Some]] assms(1)
      by (cases "holders d s") auto
  qed (use running_none [OF own] assms(1) in simp)
  moreover have m: "map_of (bsByID s) act = Some c" using own_okD(1) [OF own, of "bsBranches s ! i"] assms(4-6) by simp
  then have "bsChans s ! c = running act s" using running_held [OF own m] chans_okD(1,3) [OF ok] by simp
  ultimately show ?thesis using assms(4,6) by (auto simp: set_phase_def)
qed

lemma demo_fan_steps:
  "orderly 1 fan_start demo_fan"
  "brInvocation (bsBranches (foldl (fan_step 1) fan_start demo_fan) ! 1) = ''a''"
  "brPhase (bsBranches (foldl (fan_step 1) fan_start demo_fan) ! 1) = Waiting 0"
  "length (bsBranches (foldl (fan_step 1) fan_start demo_fan)) = 3"
  "running ''a'' (foldl (fan_step 1) fan_start demo_fan) = 1"
  by code_simp+

theorem branches_capped_witness:
  "\<not> is_running (brPhase (bsBranches (fan_step 1 (foldl (fan_step 1) fan_start demo_fan) (FSend 1)) ! 1))"
  using branches_capped [of 1 demo_fan "foldl (fan_step 1) fan_start demo_fan" 1 "''a''" 0 "''b''"] demo_fan_steps by simp

subsection \<open>Findings\<close>

lemma last_output_snoc:
  "last_output act a (evs @ [ev]) =
     (case ev of
        None \<Rightarrow> last_output act a evs
      | Some e \<Rightarrow> if feInvocation e = act \<and> feAuthor e = a \<and> feOutput e \<noteq> VNil then Some (feOutput e) else last_output act a evs)"
  by (auto simp: last_output_def Let_def split: option.split)

lemma collected: "map_of (foldl (collect_event act order) [] evs) a = (if a \<in> set order then last_output act a evs else None)"
proof (induction evs rule: rev_induct)
  case Nil
  then show ?case by (simp add: last_output_def)
next
  case (snoc ev evs)
  then show ?case by (auto simp: last_output_snoc collect_event_def split: option.split)
qed

lemma last_output_not_nil: "last_output act a evs \<noteq> Some VNil"
  by (induction evs rule: rev_induct) (auto simp: last_output_snoc, auto simp: last_output_def split: option.splits if_splits)

lemma findingsFor_eq:
  "(\<And>n. map_of m n \<noteq> Some VNil) \<Longrightarrow> findingsFor ns m =
     \<lparr>fiReported = concat (map (\<lambda>n. case map_of m n of None \<Rightarrow> [] | Some p \<Rightarrow> [(n, p)]) ns), fiSilent = filter (\<lambda>n. map_of m n = None) ns\<rparr>"
  by (induction ns) (auto simp: Let_def split: option.split gval.split)

text \<open>
  What the merge is told: for every analyst of the roster, in order, the last payload it returned in this activation, and as
  silent exactly those that returned none in it, whatever the session has of earlier activations and of others.
\<close>

theorem findings_exact:
  "collectFindings act order evs =
     \<lparr>fiReported = concat (map (\<lambda>n. case last_output act n evs of None \<Rightarrow> [] | Some p \<Rightarrow> [(n, p)]) order),
      fiSilent = filter (\<lambda>n. last_output act n evs = None) order\<rparr>"
proof -
  have "map_of (foldl (collect_event act order) [] evs) n \<noteq> Some VNil" for n by (simp add: collected last_output_not_nil)
  note f = findingsFor_eq [OF this, of order]
  show ?thesis unfolding collectFindings_def f
    by (auto simp: collected intro!: arg_cong [where f = concat] filter_cong)
qed

text \<open>
  The one gate of a fan-out: an operator is asked exactly if approval is required, some analyst reported, the merge ran and
  nobody has answered; under such a policy a report is the answer only with the operator's answer beside it; and with every
  analyst silent nothing is run and nobody is asked.
\<close>

theorem one_gate_after_merge:
  assumes "synthesize req ac (Some f) st = (evs, ran_on, out)"
  shows "((\<exists>e. e \<in> set evs \<and> geAsk e \<noteq> None) \<longleftrightarrow> req \<and> fiReported f \<noteq> [] \<and> acResumed ac = None \<and> (\<exists>r. acRun ac = Out r) \<and> 2 \<le> acEmits ac) \<and>
    (ran_on \<noteq> None \<longleftrightarrow> fiReported f \<noteq> [] \<and> acResumed ac = None) \<and>
    (\<forall>r. out = FOut r \<longrightarrow> req \<longrightarrow> fiReported f \<noteq> [] \<longrightarrow> frApproval r = acResumed ac \<and> acResumed ac \<noteq> None)"
proof (cases "fiReported f = []")
  case True
  then show ?thesis using assms by (auto simp: synthesize_def)
next
  case False
  then show ?thesis using assms
    by (cases "acResumed ac"; cases "acRun ac"; cases req; cases "acEmits ac = 0"; cases "acEmits ac = 1")
      (auto simp: synthesize_def Let_def plain_event_def)
qed

theorem one_gate_after_merge_witness:
  "\<exists>e. e \<in> set (fst (synthesize True demo_merge (Some \<lparr>fiReported = [(''a'', VText ''x'')], fiSilent = []\<rparr>) [])) \<and> geAsk e \<noteq> None"
proof -
  obtain evs ran_on out where r: "synthesize True demo_merge (Some \<lparr>fiReported = [(''a'', VText ''x'')], fiSilent = []\<rparr>) [] = (evs, ran_on, out)"
    by (metis prod_cases3)
  show ?thesis using one_gate_after_merge [OF r] unfolding r by (simp add: demo_merge_def)
qed

end
