(* ===== verification/Digest.thy ===== *)
theory Digest
  imports Go_Paths "HOL-Library.AList"
begin

text \<open>
  Digests of tool output, \<^verbatim>\<open>src/internal/digest\<close> and its caller \<^verbatim>\<open>src/internal/mcp/digest_wrap.go\<close>: a large response is pruned
  by its JSON structure before the model sees it (\<^verbatim>\<open>pruner_json.go\<close>, \<^verbatim>\<open>router.go\<close>, \<^verbatim>\<open>digest.go\<close>), and the raw payload goes into a
  bounded store of files (\<^verbatim>\<open>store.go\<close>) that the tool \<^verbatim>\<open>retrieve_raw\<close> reads (\<^verbatim>\<open>retrieve_raw.go\<close>).

  A document is what \<^verbatim>\<open>json.Unmarshal\<close> makes of a payload; decoding and encoding are arguments, as are the outcomes of file
  operations and of the model that may compress prose. The index of a store is the entries of its order.
\<close>

section \<open>Documents\<close>

datatype jdoc = DNull | DBool bool | DNum string | DStr string | DArr "jdoc list" | DObj "(string \<times> jdoc) list"

definition MaxStringChars :: nat where "MaxStringChars = 500"
definition MaxArrayElems :: nat where "MaxArrayElems = 20"
definition MaxDepth :: nat where "MaxDepth = 8"

text \<open>Letters that a case-insensitive pattern takes for an ASCII one: the long s and the Kelvin sign.\<close>

fun fold_key :: "string \<Rightarrow> string" where
  "fold_key (a # b # c # s) =
     (if a = CHR 0xC5 \<and> b = CHR 0xBF then CHR ''s'' # fold_key (c # s)
      else if a = CHR 0xE2 \<and> b = CHR 0x84 \<and> c = CHR 0xAA then CHR ''k'' # fold_key s
      else lower_char a # fold_key (b # c # s))"
| "fold_key [a, b] = (if a = CHR 0xC5 \<and> b = CHR 0xBF then [CHR ''s''] else [lower_char a, lower_char b])"
| "fold_key [a] = [lower_char a]"
| "fold_key [] = []"

definition identifierKey :: "string \<Rightarrow> bool" where
  "identifierKey k \<longleftrightarrow>
     (let f = fold_key k
      in f \<in> {''id'', ''name'', ''status'', ''kind'', ''type'', ''error'', ''code'', ''apiversion'', ''namespace'', ''uid'', ''resourceversion''} \<or>
         HasSuffix f ''_id'' \<or> list_ex (Contains f) [''url'', ''uri'', ''path'', ''href'', ''link''])"

section \<open>Pruning\<close>

record prune_stats =
  psStrings :: nat
  psArrays :: nat
  psSubtrees :: nat
  psNested :: nat

definition no_stats :: prune_stats where "no_stats = \<lparr>psStrings = 0, psArrays = 0, psSubtrees = 0, psNested = 0\<rparr>"

definition add_stats :: "prune_stats \<Rightarrow> prune_stats \<Rightarrow> prune_stats" where
  "add_stats a b = \<lparr>psStrings = psStrings a + psStrings b, psArrays = psArrays a + psArrays b,
     psSubtrees = psSubtrees a + psSubtrees b, psNested = psNested a + psNested b\<rparr>"

definition all_stats :: "('a \<times> prune_stats) list \<Rightarrow> prune_stats" where
  "all_stats rs = foldr add_stats (map snd rs) no_stats"

definition stats_metadata :: "prune_stats \<Rightarrow> (string, string) gomap" where
  "stats_metadata s =
     (if 0 < psStrings s then [(''strings_truncated'', itoa (int (psStrings s)))] else []) @
     (if 0 < psArrays s then [(''arrays_collapsed'', itoa (int (psArrays s)))] else []) @
     (if 0 < psSubtrees s then [(''subtrees_dropped'', itoa (int (psSubtrees s)))] else []) @
     (if 0 < psNested s then [(''nested_json_expanded'', itoa (int (psNested s)))] else [])"

definition deep_marker :: string where "deep_marker = ''<truncated, deep subtree>''"

definition isTruncationMarker :: "string \<Rightarrow> bool" where
  "isTruncationMarker s \<longleftrightarrow> HasPrefix s ''<truncated,'' \<and> HasSuffix s ''>''"

definition looks_nested :: "string \<Rightarrow> bool" where
  "looks_nested s \<longleftrightarrow> (case s of [] \<Rightarrow> False | c # _ \<Rightarrow> c = CHR ''{'' \<or> c = CHR ''['')"

definition summary :: "nat \<Rightarrow> jdoc list \<Rightarrow> jdoc list \<Rightarrow> jdoc" where
  "summary n xs ys =
     DObj [(''_summary'', DBool True), (''first'', DArr xs), (''last'', DArr ys),
           (''total'', DNum (itoa (int n))), (''dropped'', DNum (itoa (int n - int MaxArrayElems)))]"

function (sequential) prune :: "(string \<Rightarrow> jdoc option) \<Rightarrow> nat \<Rightarrow> jdoc \<Rightarrow> jdoc \<times> prune_stats"
  and pruneString :: "(string \<Rightarrow> jdoc option) \<Rightarrow> nat \<Rightarrow> bool \<Rightarrow> string \<Rightarrow> jdoc \<times> prune_stats" where
  "prune um d v =
     (if MaxDepth \<le> d then (DStr deep_marker, no_stats\<lparr>psSubtrees := 1\<rparr>)
      else case v of
             DObj kvs \<Rightarrow>
               (let rs = map (\<lambda>(k, v). case v of DStr s \<Rightarrow> pruneString um d (identifierKey k) s | _ \<Rightarrow> prune um (d + 1) v) kvs
                in (DObj (zip (map fst kvs) (map fst rs)), all_stats rs))
           | DArr xs \<Rightarrow>
               if length xs \<le> MaxArrayElems then (let rs = map (prune um (d + 1)) xs in (DArr (map fst rs), all_stats rs))
               else
                 (let half = MaxArrayElems div 2; rs = map (prune um (d + 1)) (take half xs);
                      ts = map (prune um (d + 1)) (drop (length xs - half) xs)
                  in (summary (length xs) (map fst rs) (map fst ts),
                      add_stats (no_stats\<lparr>psArrays := 1\<rparr>) (add_stats (all_stats rs) (all_stats ts))))
           | DStr s \<Rightarrow> pruneString um d False s
           | _ \<Rightarrow> (v, no_stats))"
| "pruneString um d isIdentifier s =
     (if isIdentifier then (DStr s, no_stats)
      else if length s \<le> MaxStringChars then (DStr s, no_stats)
      else if isTruncationMarker s then (DStr s, no_stats)
      else case (if d + 1 < MaxDepth \<and> looks_nested s then um s else None) of
             Some inner \<Rightarrow> (let (v, st) = prune um (d + 1) inner in (v, add_stats (no_stats\<lparr>psNested := 1\<rparr>) st))
           | None \<Rightarrow> (DStr (''<truncated, '' @ itoa (int (length s)) @ '' chars>''), no_stats\<lparr>psStrings := 1\<rparr>))"
  by pat_completeness auto
termination
  by (relation "measure (\<lambda>x. case x of Inl (um, d, v) \<Rightarrow> 2 * (MaxDepth - d) + 1 | Inr (um, d, b, s) \<Rightarrow> 2 * (MaxDepth - d))")
    (auto simp: MaxDepth_def split: if_splits)

definition PruneJSON :: "(string \<Rightarrow> jdoc option) \<Rightarrow> (jdoc \<Rightarrow> string option) \<Rightarrow> string \<Rightarrow> string \<Rightarrow> string \<Rightarrow> string \<times> (string, string) gomap" where
  "PruneJSON um enc parse_err marshal_err payload =
     (case um payload of
        None \<Rightarrow> (payload, [(''parse_error'', parse_err)])
      | Some doc \<Rightarrow>
          (let (pruned, st) = prune um 0 doc
           in case enc pruned of
                None \<Rightarrow> (payload, [(''marshal_error'', marshal_err)])
              | Some out \<Rightarrow> (out, stats_metadata st)))"

section \<open>The store\<close>

datatype store_failure = EmptyCallID | UnsafeCallID string | TooLarge nat int | WriteFailed | NotFound | ReadFailed

record fstore =
  fsMaxTotalBytes :: int
  fsOrder :: "(string \<times> nat) list"
  fsBytes :: int
  fsFiles :: "(string, string) gomap"

definition DefaultStoreMaxTotalBytes :: int where "DefaultStoreMaxTotalBytes = 100 * 1024 * 1024"

definition safe_char :: "char \<Rightarrow> bool" where
  "safe_char c \<longleftrightarrow> (CHR ''a'' \<le> c \<and> c \<le> CHR ''z'') \<or> (CHR ''A'' \<le> c \<and> c \<le> CHR ''Z'') \<or> (CHR ''0'' \<le> c \<and> c \<le> CHR ''9'') \<or>
     c \<in> {CHR ''-'', CHR ''_'', CHR ''.''}"

definition sanitize :: "string \<Rightarrow> string" where
  "sanitize callID =
     (if callID \<in> {[], ''.'', ''..''} then []
      else if list_ex (\<lambda>c. c \<in> {CHR ''/'', CHR 0x5C}) callID then []
      else if list_ex (\<lambda>c. \<not> safe_char c) callID then []
      else if list_all (\<lambda>c. c = CHR ''.'') callID then []
      else callID)"

text \<open>A directory is its files, by name; what could not be looked at is not among them.\<close>

definition NewFilesystemStore :: "(string, string) gomap \<Rightarrow> fstore" where
  "NewFilesystemStore dir =
     (let es = filter (\<lambda>(n, f). sanitize n = n) (sort_key fst dir)
      in \<lparr>fsMaxTotalBytes = DefaultStoreMaxTotalBytes, fsOrder = map (\<lambda>(n, f). (n, length f)) es,
          fsBytes = int (sum_list (map (length \<circ> snd) es)), fsFiles = dir\<rparr>)"

text \<open>\<open>removes\<close> says which files can be removed.\<close>

definition drop_entry :: "(string \<Rightarrow> bool) \<Rightarrow> string \<Rightarrow> fstore \<Rightarrow> fstore" where
  "drop_entry removes n s =
     (case map_of (fsOrder s) n of
        None \<Rightarrow> s
      | Some b \<Rightarrow> s\<lparr>fsBytes := fsBytes s - int b, fsOrder := filter (\<lambda>e. fst e \<noteq> n) (fsOrder s),
                   fsFiles := (if removes n then AList.delete n (fsFiles s) else fsFiles s)\<rparr>)"

function evict :: "(string \<Rightarrow> bool) \<Rightarrow> nat \<Rightarrow> fstore \<Rightarrow> fstore" where
  "evict removes len s =
     (if fsBytes s + int len > fsMaxTotalBytes s \<and> fsOrder s \<noteq> [] then evict removes len (drop_entry removes (fst (hd (fsOrder s))) s) else s)"
  by auto
termination
proof (relation "measure (\<lambda>(removes, len, s). length (fsOrder s))", goal_cases)
  case (2 removes len s)
  then obtain n b es where e: "fsOrder s = (n, b) # es" by (cases "fsOrder s") auto
  have "length (filter (\<lambda>x. fst x \<noteq> n) es) \<le> length es" by simp
  then show ?case using e by (simp add: drop_entry_def less_Suc_eq_le)
qed simp

declare evict.simps [simp del]

definition Put :: "(string \<Rightarrow> bool) \<Rightarrow> bool \<Rightarrow> string \<Rightarrow> string \<Rightarrow> fstore \<Rightarrow> store_failure option \<times> fstore" where
  "Put removes writes callID raw s =
     (if callID = [] then (Some EmptyCallID, s)
      else if sanitize callID = [] then (Some (UnsafeCallID callID), s)
      else
        (let n = sanitize callID; s1 = drop_entry removes n s;
             s2 = (if 0 < fsMaxTotalBytes s then evict removes (length raw) s1 else s1)
         in if 0 < fsMaxTotalBytes s \<and> int (length raw) > fsMaxTotalBytes s then (Some (TooLarge (length raw) (fsMaxTotalBytes s)), s2)
            else if \<not> writes then (Some WriteFailed, s2)
            else (None, s2\<lparr>fsFiles := AList.update n raw (fsFiles s2), fsOrder := fsOrder s2 @ [(n, length raw)],
                           fsBytes := fsBytes s2 + int (length raw)\<rparr>)))"

definition Get :: "bool \<Rightarrow> string \<Rightarrow> fstore \<Rightarrow> store_failure + string" where
  "Get reads callID s =
     (if callID = [] \<or> sanitize callID = [] then Inl NotFound
      else if sanitize callID \<notin> fst ` set (fsOrder s) then Inl NotFound
      else case map_of (fsFiles s) (sanitize callID) of
             None \<Rightarrow> Inl NotFound
           | Some raw \<Rightarrow> if reads then Inr raw else Inl ReadFailed)"

text \<open>What the wrap holds: no store, a store that may not be set yet, or a store.\<close>

datatype store_ref = NoStore | LazyStore "fstore option" | Direct fstore

fun ref_Put :: "(string \<Rightarrow> bool) \<Rightarrow> bool \<Rightarrow> string \<Rightarrow> string \<Rightarrow> store_ref \<Rightarrow> store_failure option \<times> store_ref" where
  "ref_Put removes writes callID raw NoStore = (None, NoStore)"
| "ref_Put removes writes callID raw (LazyStore None) = (None, LazyStore None)"
| "ref_Put removes writes callID raw (LazyStore (Some s)) = (let (e, s') = Put removes writes callID raw s in (e, LazyStore (Some s')))"
| "ref_Put removes writes callID raw (Direct s) = (let (e, s') = Put removes writes callID raw s in (e, Direct s'))"

fun ref_Get :: "bool \<Rightarrow> string \<Rightarrow> store_ref \<Rightarrow> store_failure + string" where
  "ref_Get reads callID NoStore = Inl NotFound"
| "ref_Get reads callID (LazyStore None) = Inl NotFound"
| "ref_Get reads callID (LazyStore (Some s)) = Get reads callID s"
| "ref_Get reads callID (Direct s) = Get reads callID s"

section \<open>A digest\<close>

definition MethodPassthrough :: string where "MethodPassthrough = ''passthrough''"
definition MethodStructuralJSON :: string where "MethodStructuralJSON = ''structural_json''"
definition MethodLLMFallback :: string where "MethodLLMFallback = ''llm_fallback''"

definition MaxPassthroughBytes :: nat where "MaxPassthroughBytes = 64 * 1024"

definition truncationSuffix :: "nat \<Rightarrow> string" where
  "truncationSuffix n = [CHR 0xE2, CHR 0x80, CHR 0xA6] @ ''<'' @ itoa (int n) @ '' more bytes>''"

definition truncatePassthrough :: "string \<Rightarrow> string" where
  "truncatePassthrough p =
     (if length p \<le> MaxPassthroughBytes then p else take MaxPassthroughBytes p @ truncationSuffix (length p - MaxPassthroughBytes))"

definition looksLikeJSON :: "(string \<Rightarrow> bool) \<Rightarrow> string \<Rightarrow> bool" where
  "looksLikeJSON valid p =
     (case dropWhile (\<lambda>c. c \<in> {CHR '' '', CHR 0x09, CHR 0x0A, CHR 0x0D}) p of
        [] \<Rightarrow> False
      | c # _ \<Rightarrow> (c = CHR ''{'' \<or> c = CHR ''['') \<and> valid p)"

definition route :: "(string \<Rightarrow> bool) \<Rightarrow> string \<Rightarrow> int \<Rightarrow> bool \<Rightarrow> string" where
  "route valid p threshold hasLLM =
     (if int (length p) < threshold then MethodPassthrough
      else if looksLikeJSON valid p then MethodStructuralJSON
      else if hasLLM then MethodLLMFallback
      else MethodPassthrough)"

definition estimateTokens :: "int \<Rightarrow> int" where
  "estimateTokens n = (if n \<le> 0 then 0 else (n + 3) div 4)"

record savings =
  svPath :: string
  svOriginalBytes :: nat
  svDigestBytes :: nat
  svOriginalTokens :: int
  svDigestTokens :: int

record digest_result =
  drDigest :: string
  drMethod :: string
  drRawBytes :: nat
  drCallID :: string
  drMetadata :: "(string, string) gomap"
  drSavings :: savings

text \<open>The codec of the standard library, with the errors it reports.\<close>

record codec =
  cdUnmarshal :: "string \<Rightarrow> jdoc option"
  cdEncode :: "jdoc \<Rightarrow> string option"
  cdParseError :: string
  cdMarshalError :: string
  cdStoreError :: "store_failure \<Rightarrow> string"

definition cdValid :: "codec \<Rightarrow> string \<Rightarrow> bool" where "cdValid c p \<longleftrightarrow> cdUnmarshal c p \<noteq> None"

definition digest_body :: "codec \<Rightarrow> (string \<Rightarrow> string + string) option \<Rightarrow> int \<Rightarrow> string \<Rightarrow> string \<times> string \<times> (string, string) gomap" where
  "digest_body c llm threshold p =
     (let m = route (cdValid c) p threshold (llm \<noteq> None)
      in if m = MethodStructuralJSON then
           (let (dg, meta) = PruneJSON (cdUnmarshal c) (cdEncode c) (cdParseError c) (cdMarshalError c) p
            in case llm of
                 None \<Rightarrow> (dg, m, meta)
               | Some f \<Rightarrow>
                   if int (length dg) < threshold then (dg, m, meta)
                   else (case f p of
                           Inr l \<Rightarrow> (l, MethodLLMFallback, AList.update ''structural_digest_bytes'' (itoa (int (length dg))) meta)
                         | Inl e \<Rightarrow> (dg, m, AList.update ''llm_err_after_structural'' e meta)))
         else case (m = MethodLLMFallback, llm) of
                (True, Some f) \<Rightarrow>
                  (case f p of
                     Inr l \<Rightarrow> (l, MethodLLMFallback, [])
                   | Inl e \<Rightarrow> (truncatePassthrough p, MethodPassthrough, [(''llm_err'', e)]))
              | _ \<Rightarrow> (truncatePassthrough p, MethodPassthrough, []))"

definition Process ::
  "codec \<Rightarrow> (string \<Rightarrow> string + string) option \<Rightarrow> (string \<Rightarrow> bool) \<Rightarrow> bool \<Rightarrow> int \<Rightarrow> string \<Rightarrow> string \<Rightarrow> store_ref \<Rightarrow> digest_result \<times> store_ref" where
  "Process c llm removes writes threshold callID p store =
     (let (storeErr, store') = (if callID \<noteq> [] then ref_Put removes writes callID p store else (None, store));
          (dg, m, meta) = digest_body c llm threshold p
      in (\<lparr>drDigest = dg, drMethod = m, drRawBytes = length p, drCallID = callID,
           drMetadata = (case storeErr of None \<Rightarrow> meta | Some e \<Rightarrow> AList.update ''store_err'' (cdStoreError c e) meta),
           drSavings = \<lparr>svPath = m, svOriginalBytes = length p, svDigestBytes = length dg,
                        svOriginalTokens = estimateTokens (int (length p)), svDigestTokens = estimateTokens (int (length dg))\<rparr>\<rparr>, store'))"

text \<open>Counters per method: calls and bytes saved.\<close>

definition recordTelemetry :: "digest_result \<Rightarrow> (string, int \<times> int) gomap \<Rightarrow> (string, int \<times> int) gomap" where
  "recordTelemetry r t =
     (if drMethod r = [] then t
      else (let (n, b) = mget (0, 0) t (drMethod r)
            in AList.update (drMethod r) (n + 1, b + max 0 (int (drRawBytes r) - int (length (drDigest r)))) t))"

section \<open>The wrap of a tool\<close>

definition DefaultDigestThreshold :: int where "DefaultDigestThreshold = 8000"

definition effective_threshold :: "int \<Rightarrow> int" where
  "effective_threshold t = (if t \<le> 0 then DefaultDigestThreshold else t)"

record digested =
  dgResult :: digest_result
  dgLatency :: int
  dgCallID :: "string option"

datatype tool_reply = ToolError string | Verbatim jdoc | Digested digested

text \<open>\<open>ran\<close> is what the wrapped tool returned.\<close>

definition digesting_Run ::
  "codec \<Rightarrow> (string \<Rightarrow> bool) \<Rightarrow> bool \<Rightarrow> int \<Rightarrow> string \<Rightarrow> int \<Rightarrow> string + jdoc \<Rightarrow> store_ref \<Rightarrow> tool_reply \<times> store_ref" where
  "digesting_Run c removes writes threshold callID latency ran_out store =
     (case ran_out of
        Inl e \<Rightarrow> (ToolError e, store)
      | Inr raw \<Rightarrow>
          (case cdEncode c raw of
             None \<Rightarrow> (Verbatim raw, store)
           | Some bytes \<Rightarrow>
               if int (length bytes) < effective_threshold threshold then (Verbatim raw, store)
               else
                 (let (res, store') = Process c None removes writes (effective_threshold threshold) callID bytes store
                  in (Digested \<lparr>dgResult = res, dgLatency = latency, dgCallID = (if drCallID res = [] then None else Some (drCallID res))\<rparr>, store'))))"

datatype raw_reply = RawOK string nat | RawNoID | RawUnknown string | RawFailed string

definition retrieveRaw :: "bool \<Rightarrow> string \<Rightarrow> store_ref \<Rightarrow> raw_reply" where
  "retrieveRaw reads callID store =
     (if callID = [] then RawNoID
      else case ref_Get reads callID store of
             Inl NotFound \<Rightarrow> RawUnknown callID
           | Inl e \<Rightarrow> RawFailed callID
           | Inr raw \<Rightarrow> RawOK raw (length raw))"


section \<open>What is claimed\<close>

fun nesting :: "jdoc \<Rightarrow> nat" where
  "nesting (DArr xs) = Suc (foldr (\<lambda>x n. max (nesting x) n) xs 0)"
| "nesting (DObj kvs) = Suc (foldr (\<lambda>(k, x) n. max (nesting x) n) kvs 0)"
| "nesting _ = 0"

text \<open>Short arrays, and short strings but under an identifier's key or where they are marks already.\<close>

fun tidy :: "bool \<Rightarrow> jdoc \<Rightarrow> bool" where
  "tidy isID (DStr s) \<longleftrightarrow> isID \<or> length s \<le> MaxStringChars \<or> isTruncationMarker s"
| "tidy isID (DArr xs) \<longleftrightarrow> length xs \<le> MaxArrayElems \<and> list_all (tidy False) xs"
| "tidy isID (DObj kvs) \<longleftrightarrow> list_all (\<lambda>(k, x). tidy (identifierKey k) x) kvs"
| "tidy isID _ \<longleftrightarrow> True"

text \<open>A document is within the limits at depth \<open>d\<close> if no value that is not the string of an object's field is at the cap.\<close>

fun within :: "nat \<Rightarrow> jdoc \<Rightarrow> bool" where
  "within d (DArr xs) \<longleftrightarrow> d < MaxDepth \<and> list_all (within (Suc d)) xs"
| "within d (DObj kvs) \<longleftrightarrow> d < MaxDepth \<and> list_all (\<lambda>(k, x). case x of DStr s \<Rightarrow> True | _ \<Rightarrow> within (Suc d) x) kvs"
| "within d _ \<longleftrightarrow> d < MaxDepth"

definition store_ok :: "fstore \<Rightarrow> bool" where
  "store_ok s \<longleftrightarrow> distinct (map fst (fsOrder s)) \<and> fsBytes s = int (sum_list (map snd (fsOrder s)))"

definition sizes :: "(string \<times> nat) list \<Rightarrow> nat" where "sizes es = sum_list (map snd es)"

record put_op =
  poRemoves :: "string \<Rightarrow> bool"
  poWrites :: bool
  poCallID :: string
  poRaw :: string

definition put_step :: "fstore \<Rightarrow> put_op \<Rightarrow> fstore" where
  "put_step s x = snd (Put (poRemoves x) (poWrites x) (poCallID x) (poRaw x) s)"

text \<open>A document in which all that is at the cap is the mark.\<close>

fun settled :: "nat \<Rightarrow> jdoc \<Rightarrow> bool" where
  "settled d (DArr xs) \<longleftrightarrow> d < MaxDepth \<and> list_all (settled (Suc d)) xs"
| "settled d (DObj kvs) \<longleftrightarrow> d < MaxDepth \<and> list_all (\<lambda>(k, x). case x of DStr s \<Rightarrow> True | _ \<Rightarrow> settled (Suc d) x) kvs"
| "settled d (DStr s) \<longleftrightarrow> d < MaxDepth \<or> s = deep_marker"
| "settled d _ \<longleftrightarrow> d < MaxDepth"

fun nested_in :: "nat \<Rightarrow> jdoc \<Rightarrow> jdoc" where
  "nested_in 0 v = v"
| "nested_in (Suc n) v = DObj [(''a'', nested_in n v)]"

text \<open>An object of many small fields, and a codec that reads and writes it.\<close>

definition wide_text :: string where "wide_text = CHR ''{'' # replicate 70000 (CHR ''x'')"

definition wide_doc :: jdoc where "wide_doc = DObj (map (\<lambda>i. (itoa_nat i, DNull)) [0..<10000])"

definition wide_codec :: codec where
  "wide_codec = \<lparr>cdUnmarshal = (\<lambda>p. if p = wide_text then Some wide_doc else None), cdEncode = (\<lambda>v. Some wide_text),
     cdParseError = [], cdMarshalError = [], cdStoreError = (\<lambda>_. ''full'')\<rparr>"

definition recent :: "string \<Rightarrow> nat \<Rightarrow> fstore \<Rightarrow> bool" where
  "recent n t s \<longleftrightarrow> (\<exists>pre b post. fsOrder s = pre @ (n, b) # post \<and> b + sizes post \<le> t)"

text \<open>A Put, step by step.\<close>

definition made_room :: "(string \<Rightarrow> bool) \<Rightarrow> string \<Rightarrow> string \<Rightarrow> fstore \<Rightarrow> fstore" where
  "made_room rm c raw s =
     (if 0 < fsMaxTotalBytes s then evict rm (length raw) (drop_entry rm (sanitize c) s) else drop_entry rm (sanitize c) s)"

definition small_store :: fstore where
  "small_store = \<lparr>fsMaxTotalBytes = 10, fsOrder = [(''a'', 4), (''b'', 3)], fsBytes = 7, fsFiles = [(''a'', ''1234''), (''b'', ''567'')]\<rparr>"

definition demo_json :: codec where
  "demo_json = \<lparr>cdUnmarshal = (\<lambda>p. if p = ''[1]'' then Some (DArr [DNum ''1'']) else None),
     cdEncode = (\<lambda>v. if v = DArr [DNum ''1''] then Some ''[1]'' else None), cdParseError = [], cdMarshalError = [], cdStoreError = (\<lambda>_. ''full'')\<rparr>"

definition demo_put :: put_op where
  "demo_put = \<lparr>poRemoves = (\<lambda>_. True), poWrites = True, poCallID = ''d'', poRaw = ''1234567''\<rparr>"

definition prune_field :: "(string \<Rightarrow> jdoc option) \<Rightarrow> nat \<Rightarrow> string \<times> jdoc \<Rightarrow> jdoc \<times> prune_stats" where
  "prune_field um d = (\<lambda>(k, v). case v of DStr s \<Rightarrow> pruneString um d (identifierKey k) s | _ \<Rightarrow> prune um (d + 1) v)"

section \<open>Lemmas and properties\<close>

subsection \<open>The store\<close>

lemma filter_absent: "n \<notin> fst ` set es \<Longrightarrow> filter (\<lambda>e. fst e \<noteq> n) es = es"
  by (induction es) auto

lemma drop_entry_simps [simp]:
  "fsMaxTotalBytes (drop_entry rm n s) = fsMaxTotalBytes s"
  "fsOrder (drop_entry rm n s) = filter (\<lambda>e. fst e \<noteq> n) (fsOrder s)"
  by (auto simp: drop_entry_def map_of_eq_None_iff filter_absent split: option.split)

lemma sizes_simps [simp]: "sizes [] = 0" "sizes (e # es) = snd e + sizes es" "sizes (es @ fs) = sizes es + sizes fs"
  by (simp_all add: sizes_def)

lemma sizes_filter: "distinct (map fst es) \<Longrightarrow> sizes es = sizes (filter (\<lambda>e. fst e \<noteq> n) es) + (case map_of es n of None \<Rightarrow> 0 | Some b \<Rightarrow> b)"
proof (induction es)
  case (Cons e es)
  show ?case
  proof (cases "fst e = n")
    case True
    then have "filter (\<lambda>x. fst x \<noteq> n) es = es" using Cons.prems by (intro filter_absent) auto
    then show ?thesis using True by (cases e) simp
  next
    case False
    then show ?thesis using Cons by (cases e) simp
  qed
qed simp

lemma evict_more: "fsBytes s + int len > fsMaxTotalBytes s \<and> fsOrder s \<noteq> [] \<Longrightarrow> evict rm len s = evict rm len (drop_entry rm (fst (hd (fsOrder s))) s)"
  by (subst evict.simps) (rule if_P)

lemma evict_stop: "\<not> (fsBytes s + int len > fsMaxTotalBytes s \<and> fsOrder s \<noteq> []) \<Longrightarrow> evict rm len s = s"
  by (subst evict.simps) (rule if_not_P)

lemma store_ok_iff: "store_ok s \<longleftrightarrow> distinct (map fst (fsOrder s)) \<and> fsBytes s = int (sizes (fsOrder s))"
  by (simp add: store_ok_def sizes_def)

lemma drop_entry_ok: "store_ok s \<Longrightarrow> store_ok (drop_entry rm n s)"
  using sizes_filter [of "fsOrder s" n]
  by (auto simp: store_ok_iff distinct_map_filter drop_entry_def split: option.split)

lemma evict_ok: "store_ok s \<Longrightarrow> store_ok (evict rm len s) \<and> fsMaxTotalBytes (evict rm len s) = fsMaxTotalBytes s"
proof (induction rm len s rule: evict.induct)
  case (1 rm len s)
  then show ?case using drop_entry_ok [OF 1(2)] by (subst (1 2) evict.simps) auto
qed

lemma Put_max: "fsMaxTotalBytes (snd (Put rm w c raw s)) = fsMaxTotalBytes s" if "store_ok s"
  using evict_ok [OF drop_entry_ok [OF that]] by (simp add: Put_def Let_def)


lemma sizes_filter_le: "sizes (filter P es) \<le> sizes es"
  by (induction es) auto

lemma drop_entry_recent:
  assumes "recent n t s" "m \<noteq> n"
  shows "recent n t (drop_entry rm m s) \<and> map_of (fsFiles (drop_entry rm m s)) n = map_of (fsFiles s) n"
proof -
  obtain pre b post where o: "fsOrder s = pre @ (n, b) # post" "b + sizes post \<le> t" using assms(1) by (auto simp: recent_def)
  have "fsOrder (drop_entry rm m s) = filter (\<lambda>e. fst e \<noteq> m) pre @ (n, b) # filter (\<lambda>e. fst e \<noteq> m) post" using o assms(2) by simp
  moreover have "b + sizes (filter (\<lambda>e. fst e \<noteq> m) post) \<le> t" using o(2) sizes_filter_le [of "\<lambda>e. fst e \<noteq> m" post] by simp
  ultimately have "recent n t (drop_entry rm m s)" unfolding recent_def by blast
  moreover have "map_of (fsFiles (drop_entry rm m s)) n = map_of (fsFiles s) n"
    using assms(2) by (auto simp: drop_entry_def delete_conv' split: option.split)
  ultimately show ?thesis by simp
qed

text \<open>The loop stops before it comes to an entry that fits together with all that is newer.\<close>

lemma evict_recent:
  "store_ok s \<Longrightarrow> recent n t s \<Longrightarrow> int (t + len) \<le> fsMaxTotalBytes s \<Longrightarrow>
     recent n t (evict rm len s) \<and> map_of (fsFiles (evict rm len s)) n = map_of (fsFiles s) n"
proof (induction rm len s rule: evict.induct)
  case (1 rm len s)
  show ?case
  proof (cases "fsBytes s + int len > fsMaxTotalBytes s \<and> fsOrder s \<noteq> []")
    case True
    obtain pre b post where p: "fsOrder s = pre @ (n, b) # post" "b + sizes post \<le> t" using 1(3) by (auto simp: recent_def)
    have "pre \<noteq> []" using True 1(2,4) p by (auto simp: store_ok_iff)
    then have m: "fst (hd (fsOrder s)) \<noteq> n" using 1(2) p by (cases pre) (auto simp: store_ok_iff)
    note d = drop_entry_recent [OF 1(3) m, of rm]
    have "recent n t (evict rm len (drop_entry rm (fst (hd (fsOrder s))) s)) \<and>
        map_of (fsFiles (evict rm len (drop_entry rm (fst (hd (fsOrder s))) s))) n = map_of (fsFiles s) n"
      using 1(1) [OF True drop_entry_ok [OF 1(2)]] d 1(4) by simp
    moreover have "evict rm len s = evict rm len (drop_entry rm (fst (hd (fsOrder s))) s)" using True by (rule evict_more)
    ultimately show ?thesis by simp
  next
    case False
    then have "evict rm len s = s" by (rule evict_stop)
    then show ?thesis using 1(3) by simp
  qed
qed

lemma sanitize_id: "sanitize c = [] \<or> sanitize c = c"
  by (simp add: sanitize_def)

lemma evict_room:
  "store_ok s \<Longrightarrow> fsBytes (evict rm len s) \<le> fsBytes s \<and>
     (int len \<le> fsMaxTotalBytes s \<longrightarrow> fsBytes (evict rm len s) + int len \<le> fsMaxTotalBytes s) \<and> set (fsOrder (evict rm len s)) \<subseteq> set (fsOrder s)"
proof (induction rm len s rule: evict.induct)
  case (1 rm len s)
  show ?case
  proof (cases "fsBytes s + int len > fsMaxTotalBytes s \<and> fsOrder s \<noteq> []")
    case True
    have "evict rm len s = evict rm len (drop_entry rm (fst (hd (fsOrder s))) s)" using True by (rule evict_more)
    moreover have "fsBytes (drop_entry rm (fst (hd (fsOrder s))) s) \<le> fsBytes s" by (simp add: drop_entry_def split: option.split)
    ultimately show ?thesis using 1(1) [OF True drop_entry_ok [OF 1(2)]] by auto
  next
    case False
    then have "evict rm len s = s" by (rule evict_stop)
    then show ?thesis using False 1(2) by (auto simp: store_ok_iff)
  qed
qed

lemma Put_cases:
  obtains "snd (Put rm w c raw s) = s" "fst (Put rm w c raw s) \<noteq> None"
  | "sanitize c = c" "c \<noteq> []" "snd (Put rm w c raw s) = made_room rm c raw s" "fst (Put rm w c raw s) \<noteq> None"
  | "sanitize c = c" "c \<noteq> []" "fst (Put rm w c raw s) = None" "\<not> (0 < fsMaxTotalBytes s \<and> fsMaxTotalBytes s < int (length raw))"
    "snd (Put rm w c raw s) = (made_room rm c raw s)\<lparr>fsFiles := AList.update c raw (fsFiles (made_room rm c raw s)),
       fsOrder := fsOrder (made_room rm c raw s) @ [(c, length raw)], fsBytes := fsBytes (made_room rm c raw s) + int (length raw)\<rparr>"
proof -
  have eq: "Put rm w c raw s =
      (if c = [] then (Some EmptyCallID, s) else if sanitize c = [] then (Some (UnsafeCallID c), s)
       else if 0 < fsMaxTotalBytes s \<and> fsMaxTotalBytes s < int (length raw) then (Some (TooLarge (length raw) (fsMaxTotalBytes s)), made_room rm c raw s)
       else if \<not> w then (Some WriteFailed, made_room rm c raw s)
       else (None, (made_room rm c raw s)\<lparr>fsFiles := AList.update (sanitize c) raw (fsFiles (made_room rm c raw s)),
         fsOrder := fsOrder (made_room rm c raw s) @ [(sanitize c, length raw)], fsBytes := fsBytes (made_room rm c raw s) + int (length raw)\<rparr>))"
    by (simp add: Put_def made_room_def Let_def)
  show thesis
  proof (cases "c = [] \<or> sanitize c = []")
    case True
    then show thesis using that(1) unfolding eq by auto
  next
    case False
    then have c: "sanitize c = c" "c \<noteq> []" using sanitize_id [of c] by auto
    show thesis
    proof (cases "0 < fsMaxTotalBytes s \<and> fsMaxTotalBytes s < int (length raw) \<or> \<not> w")
      case True
      then show thesis using that(2) [OF c] c unfolding eq by (auto split: if_splits)
    next
      case False
      then show thesis using that(3) [OF c] c unfolding eq by auto
    qed
  qed
qed

lemma made_room_ok:
  assumes "store_ok s" "sanitize c = c"
  shows "store_ok (made_room rm c raw s) \<and> fsMaxTotalBytes (made_room rm c raw s) = fsMaxTotalBytes s \<and> c \<notin> fst ` set (fsOrder (made_room rm c raw s)) \<and>
    (0 < fsMaxTotalBytes s \<longrightarrow> int (length raw) \<le> fsMaxTotalBytes s \<longrightarrow> fsBytes (made_room rm c raw s) + int (length raw) \<le> fsMaxTotalBytes s) \<and>
    fsBytes (made_room rm c raw s) \<le> fsBytes s"
proof -
  note d = drop_entry_ok [OF assms(1), of rm c]
  have "fsBytes (drop_entry rm c s) \<le> fsBytes s" by (simp add: drop_entry_def split: option.split)
  moreover have "c \<notin> fst ` set (fsOrder (drop_entry rm c s))" by auto
  ultimately show ?thesis using d evict_ok [OF d, of rm "length raw"] evict_room [OF d, of rm "length raw"] assms(2)
    by (auto simp: made_room_def)
qed

lemma put_step_ok: "store_ok s \<Longrightarrow> store_ok (put_step s x) \<and> fsMaxTotalBytes (put_step s x) = fsMaxTotalBytes s"
  unfolding put_step_def
  by (rule Put_cases [of "poRemoves x" "poWrites x" "poCallID x" "poRaw x" s])
    (use made_room_ok [of s "poCallID x" "poRemoves x" "poRaw x"] in \<open>auto simp: store_ok_iff\<close>)

lemma put_step_recent:
  assumes "store_ok s" "recent n t s" "poCallID x \<noteq> n" "0 < fsMaxTotalBytes s \<Longrightarrow> int (t + length (poRaw x)) \<le> fsMaxTotalBytes s"
  shows "recent n (t + length (poRaw x)) (put_step s x) \<and> map_of (fsFiles (put_step s x)) n = map_of (fsFiles s) n"
proof -
  have more: "recent n (t + k) s'" if "recent n t s'" for s' k using that by (auto simp: recent_def intro: add_le_mono trans_le_add1)
  have room: "recent n t (made_room (poRemoves x) (poCallID x) (poRaw x) s) \<and>
      map_of (fsFiles (made_room (poRemoves x) (poCallID x) (poRaw x) s)) n = map_of (fsFiles s) n" if "sanitize (poCallID x) = poCallID x"
    using drop_entry_recent [OF assms(2,3), of "poRemoves x"] evict_recent [OF drop_entry_ok [OF assms(1)], of n t "poRemoves x" "poCallID x" "length (poRaw x)"]
      assms(4) that by (auto simp: made_room_def)
  have snoc: "recent n (t + k) (s'\<lparr>fsFiles := fs, fsOrder := fsOrder s' @ [(m, k)], fsBytes := b\<rparr>)" if "recent n t s'" for s' k fs m b
    using that by (force simp: recent_def)
  show ?thesis unfolding put_step_def
    by (rule Put_cases [of "poRemoves x" "poWrites x" "poCallID x" "poRaw x" s]) (use room more snoc assms(2,3) in auto)
qed


lemma later_puts:
  assumes "store_ok s" "recent n t s" "map_of (fsFiles s) n = Some raw" "list_all (\<lambda>x. poCallID x \<noteq> n) xs"
    and "0 < fsMaxTotalBytes s \<Longrightarrow> int (t + sum_list (map (length \<circ> poRaw) xs)) \<le> fsMaxTotalBytes s"
  shows "n \<in> fst ` set (fsOrder (foldl put_step s xs)) \<and> map_of (fsFiles (foldl put_step s xs)) n = Some raw"
  using assms
proof (induction xs arbitrary: s t)
  case Nil
  then show ?case by (force simp: recent_def)
next
  case (Cons x xs)
  have "0 < fsMaxTotalBytes s \<Longrightarrow> int (t + length (poRaw x)) \<le> fsMaxTotalBytes s" using Cons.prems(5) by simp
  then have r: "recent n (t + length (poRaw x)) (put_step s x)" "map_of (fsFiles (put_step s x)) n = Some raw"
    using put_step_recent [OF Cons.prems(1,2), of x] Cons.prems(3,4) by auto
  show ?case using Cons.IH [OF _ r] put_step_ok [OF Cons.prems(1), of x] Cons.prems(4,5) by (simp add: add.assoc)
qed

lemma Put_recent:
  assumes "store_ok s" "Put rm w c raw s = (None, s1)"
  shows "store_ok s1 \<and> fsMaxTotalBytes s1 = fsMaxTotalBytes s \<and> recent c (length raw) s1 \<and> map_of (fsFiles s1) c = Some raw \<and> sanitize c = c \<and> c \<noteq> []"
proof -
  have s1: "s1 = put_step s \<lparr>poRemoves = rm, poWrites = w, poCallID = c, poRaw = raw\<rparr>" using assms(2) by (simp add: put_step_def)
  have "store_ok s1 \<and> fsMaxTotalBytes s1 = fsMaxTotalBytes s" unfolding s1 by (rule put_step_ok [OF assms(1)])
  moreover have "recent c (length raw) s1 \<and> map_of (fsFiles s1) c = Some raw \<and> sanitize c = c \<and> c \<noteq> []"
    by (rule Put_cases [of rm w c raw s]) (use assms(2) in \<open>force simp: recent_def\<close>)+
  ultimately show ?thesis by simp
qed

text \<open>
  What was digested can be had back: a response that was digested, with its raw payload stored, is returned byte for byte by
  \<^verbatim>\<open>retrieve_raw\<close> for its call, whatever later calls put into the store and whichever of their writes and removals failed, as
  long as all payloads from this one on fit into the store together.
\<close>

theorem raw_recoverable:
  assumes "store_ok s" "digesting_Run cd rm w th c lat (Inr v) (Direct s) = (Digested d, Direct s1)" "dgCallID d = Some c"
    and "map_of (drMetadata (dgResult d)) ''store_err'' = None" "cdEncode cd v = Some raw" "list_all (\<lambda>x. poCallID x \<noteq> c) xs"
    and "0 < fsMaxTotalBytes s \<Longrightarrow> int (length raw + sum_list (map (length \<circ> poRaw) xs)) \<le> fsMaxTotalBytes s"
  shows "retrieveRaw True c (Direct (foldl put_step s1 xs)) = RawOK raw (length raw)"
proof -
  have p: "Put rm w c raw s = (None, s1)"
    using assms(2-5) by (auto simp: digesting_Run_def Process_def Let_def split: if_splits prod.splits option.splits)
  note r = Put_recent [OF assms(1) p]
  have "c \<in> fst ` set (fsOrder (foldl put_step s1 xs)) \<and> map_of (fsFiles (foldl put_step s1 xs)) c = Some raw"
    by (rule later_puts [of s1 c "length raw"]) (use r assms(6,7) in auto)
  then show ?thesis using r by (auto simp: retrieveRaw_def Get_def)
qed

lemma put_step_bytes: "store_ok s \<Longrightarrow> 0 < fsMaxTotalBytes s \<Longrightarrow> fsBytes (put_step s x) \<le> max (fsBytes s) (fsMaxTotalBytes s)"
  unfolding put_step_def
  by (rule Put_cases [of "poRemoves x" "poWrites x" "poCallID x" "poRaw x" s])
    (use made_room_ok [of s "poCallID x" "poRemoves x" "poRaw x"] in auto)

lemma puts_bytes: "store_ok s \<Longrightarrow> 0 < fsMaxTotalBytes s \<Longrightarrow>
    store_ok (foldl put_step s xs) \<and> fsMaxTotalBytes (foldl put_step s xs) = fsMaxTotalBytes s \<and> fsBytes (foldl put_step s xs) \<le> max (fsBytes s) (fsMaxTotalBytes s)"
proof (induction xs rule: rev_induct)
  case (snoc x xs)
  then show ?case using put_step_ok [of "foldl put_step s xs" x] put_step_bytes [of "foldl put_step s xs" x] by auto
qed simp

text \<open>
  The bound of the store: over a directory with any files, after any puts, the entries count exactly the bytes they were stored
  with, no name is there twice, and together they are never more than the cap and what was there at the start.
\<close>

theorem store_bounded:
  assumes "distinct (map fst dir)" "s = foldl put_step (NewFilesystemStore dir) xs"
  shows "distinct (map fst (fsOrder s)) \<and> fsBytes s = int (sum_list (map snd (fsOrder s))) \<and>
    fsBytes s \<le> max (fsBytes (NewFilesystemStore dir)) DefaultStoreMaxTotalBytes"
proof -
  have "distinct (map fst (filter P (sort_key fst dir)))" for P
    using assms(1) by (intro distinct_map_filter) (metis mset_map mset_sort mset_eq_imp_distinct_iff)
  then have ok: "store_ok (NewFilesystemStore dir)"
    by (simp add: store_ok_def NewFilesystemStore_def Let_def comp_def case_prod_unfold)
  have m: "fsMaxTotalBytes (NewFilesystemStore dir) = DefaultStoreMaxTotalBytes" "0 < DefaultStoreMaxTotalBytes"
    by (simp_all add: NewFilesystemStore_def Let_def DefaultStoreMaxTotalBytes_def)
  show ?thesis using puts_bytes [OF ok, of xs] m assms(2) by (simp add: store_ok_def)
qed

text \<open>A payload that can never fit is refused after everything else was thrown away for it.\<close>

theorem refused_write_empties_store:
  "Put (\<lambda>_. True) True ''c'' ''12345678901'' small_store = (Some (TooLarge 11 10), small_store\<lparr>fsOrder := [], fsBytes := 0, fsFiles := []\<rparr>)"
  by code_simp

lemma demo_wrap:
  "case digesting_Run demo_json (\<lambda>_. True) True 2 ''c'' 5 (Inr (DArr [DNum ''1''])) (Direct small_store) of
     (Digested d, Direct s) \<Rightarrow> dgCallID d = Some ''c'' \<and> map_of (drMetadata (dgResult d)) ''store_err'' = None | _ \<Rightarrow> False"
  by code_simp

theorem raw_recoverable_witness:
  "\<exists>d s1. digesting_Run demo_json (\<lambda>_. True) True 2 ''c'' 5 (Inr (DArr [DNum ''1''])) (Direct small_store) = (Digested d, Direct s1) \<and>
     retrieveRaw True ''c'' (Direct (foldl put_step s1 [\<lparr>poRemoves = (\<lambda>_. True), poWrites = True, poCallID = ''d'', poRaw = ''1234567''\<rparr>])) = RawOK ''[1]'' 3"
proof -
  obtain d s1 where r: "digesting_Run demo_json (\<lambda>_. True) True 2 ''c'' 5 (Inr (DArr [DNum ''1''])) (Direct small_store) = (Digested d, Direct s1)"
    "dgCallID d = Some ''c''" "map_of (drMetadata (dgResult d)) ''store_err'' = None"
    using demo_wrap by (auto split: prod.splits tool_reply.splits store_ref.splits)
  have "store_ok small_store" "cdEncode demo_json (DArr [DNum ''1'']) = Some ''[1]''" by (simp_all add: store_ok_def small_store_def demo_json_def)
  from raw_recoverable [OF this(1) r this(2), of "[\<lparr>poRemoves = (\<lambda>_. True), poWrites = True, poCallID = ''d'', poRaw = ''1234567''\<rparr>]"]
  show ?thesis using r(1) by (simp add: small_store_def)
qed

theorem store_bounded_witness: "fsBytes (foldl put_step (NewFilesystemStore []) [demo_put]) \<le> DefaultStoreMaxTotalBytes"
proof -
  have "distinct (map fst ([] :: (string, string) gomap))" by simp
  from store_bounded [OF this refl, of "[demo_put]"]
  have "fsBytes (foldl put_step (NewFilesystemStore []) [demo_put]) \<le> max (fsBytes (NewFilesystemStore [])) DefaultStoreMaxTotalBytes" by blast
  then show ?thesis by (simp add: NewFilesystemStore_def DefaultStoreMaxTotalBytes_def)
qed

subsection \<open>Pruning\<close>

declare prune.simps [simp del] pruneString.simps [simp del]

lemma nesting_bound: "list_all (\<lambda>x. nesting x \<le> n) xs \<Longrightarrow> nesting (DArr xs) \<le> Suc n"
  by (induction xs) auto

lemma nesting_obj: "list_all (\<lambda>(k, x). nesting x \<le> n) kvs \<Longrightarrow> nesting (DObj kvs) \<le> Suc n"
  by (induction kvs) auto

lemma nesting_summary: "nesting (DArr xs) \<le> Suc n \<Longrightarrow> nesting (DArr ys) \<le> Suc n \<Longrightarrow> nesting (summary t xs ys) \<le> Suc (Suc n)"
  by (simp add: summary_def)

lemma itoa_marker: "isTruncationMarker (''<truncated, '' @ t @ '' chars>'')"
  by (simp add: isTruncationMarker_def HasPrefix_def HasSuffix_def)

lemma all_stats_simps: "all_stats [] = no_stats" "all_stats (r # rs) = add_stats (snd r) (all_stats rs)"
  by (simp_all add: all_stats_def)

lemma no_stats_all: "list_all (\<lambda>r. snd r = no_stats) rs \<Longrightarrow> all_stats rs = no_stats"
  by (induction rs) (auto simp: all_stats_simps add_stats_def no_stats_def)

lemma psArrays_add [simp]: "psArrays (add_stats a b) = psArrays a + psArrays b"
  by (simp add: add_stats_def)

lemma psArrays_all: "psArrays (all_stats rs) = 0 \<longleftrightarrow> list_all (\<lambda>r. psArrays (snd r) = 0) rs"
  by (induction rs) (auto simp: all_stats_simps no_stats_def)

lemma zip_fields: "zip (map fst kvs) (map fst (map f kvs)) = map (\<lambda>kv. (fst kv, fst (f kv))) kvs"
  by (induction kvs) auto

text \<open>Pruning below the cap, by the kind of value.\<close>

lemma prune_deep: "MaxDepth \<le> d \<Longrightarrow> prune um d v = (DStr deep_marker, no_stats\<lparr>psSubtrees := 1\<rparr>)"
  by (subst prune.simps) simp

lemma prune_obj: "d < MaxDepth \<Longrightarrow> prune um d (DObj kvs) = (DObj (map (\<lambda>kv. (fst kv, fst (prune_field um d kv))) kvs), all_stats (map (prune_field um d) kvs))"
  by (subst prune.simps) (simp add: Let_def prune_field_def zip_fields [symmetric])

lemma prune_arr: "d < MaxDepth \<Longrightarrow> length xs \<le> MaxArrayElems \<Longrightarrow>
    prune um d (DArr xs) = (DArr (map (\<lambda>x. fst (prune um (Suc d) x)) xs), all_stats (map (prune um (Suc d)) xs))"
  by (subst prune.simps) (simp add: Let_def comp_def)

lemma prune_long: "d < MaxDepth \<Longrightarrow> MaxArrayElems < length xs \<Longrightarrow>
    fst (prune um d (DArr xs)) = summary (length xs) (map (\<lambda>x. fst (prune um (Suc d) x)) (take 10 xs)) (map (\<lambda>x. fst (prune um (Suc d) x)) (drop (length xs - 10) xs)) \<and>
    0 < psArrays (snd (prune um d (DArr xs)))"
  by (subst (1 2) prune.simps) (simp add: Let_def comp_def MaxArrayElems_def add_stats_def no_stats_def)

lemma prune_str: "d < MaxDepth \<Longrightarrow> prune um d (DStr s) = pruneString um d False s"
  by (subst prune.simps) simp

lemma prune_scalar: "d < MaxDepth \<Longrightarrow> prune um d DNull = (DNull, no_stats)" "d < MaxDepth \<Longrightarrow> prune um d (DBool b) = (DBool b, no_stats)"
    "d < MaxDepth \<Longrightarrow> prune um d (DNum n) = (DNum n, no_stats)"
  by (subst prune.simps; simp)+

lemma pruneString_cases:
  obtains "tidy isID (DStr s)" "pruneString um d isID s = (DStr s, no_stats)"
  | inner where "Suc d < MaxDepth" "fst (pruneString um d isID s) = fst (prune um (Suc d) inner)"
    "psArrays (snd (pruneString um d isID s)) = psArrays (snd (prune um (Suc d) inner))"
  | t where "isTruncationMarker t" "fst (pruneString um d isID s) = DStr t"
proof -
  consider "tidy isID (DStr s)" | inner where "\<not> tidy isID (DStr s)" "(if d + 1 < MaxDepth \<and> looks_nested s then um s else None) = Some inner"
    | "\<not> tidy isID (DStr s)" "(if d + 1 < MaxDepth \<and> looks_nested s then um s else None) = None"
    by (cases "(if d + 1 < MaxDepth \<and> looks_nested s then um s else None)") auto
  then show thesis
  proof cases
    case 1
    then show ?thesis by (intro that(1)) (auto simp: pruneString.simps)
  next
    case (2 inner)
    then have "pruneString um d isID s = (let (v, st) = prune um (d + 1) inner in (v, add_stats (no_stats\<lparr>psNested := 1\<rparr>) st))"
      by (subst pruneString.simps) simp
    then show ?thesis using that(2) [of inner] 2(2) by (auto simp: case_prod_unfold Let_def no_stats_def split: if_splits)
  next
    case 3
    then have "pruneString um d isID s = (DStr (''<truncated, '' @ itoa (int (length s)) @ '' chars>''), no_stats\<lparr>psStrings := 1\<rparr>)"
      by (subst pruneString.simps) simp
    then show ?thesis using that(3) itoa_marker by auto
  qed
qed

lemma tidy_mono: "tidy False v \<Longrightarrow> tidy b v"
  by (cases v) auto

lemma pruned_tidy: "tidy False (fst (prune um d v)) \<and> nesting (fst (prune um d v)) \<le> 2 * (MaxDepth - d)"
proof (induction "MaxDepth - d" arbitrary: d v)
  case 0
  then show ?case by (simp add: prune_deep isTruncationMarker_def HasPrefix_def HasSuffix_def deep_marker_def)
next
  case (Suc n)
  then have d: "d < MaxDepth" by simp
  have IH: "tidy False (fst (prune um (Suc d) x)) \<and> nesting (fst (prune um (Suc d) x)) \<le> 2 * (MaxDepth - Suc d)" for x
    using Suc.hyps(1) [of "Suc d" x] Suc.hyps(2) by simp
  have str: "tidy b (fst (pruneString um d b s)) \<and> nesting (fst (pruneString um d b s)) \<le> 2 * (MaxDepth - Suc d)" for b s
    by (rule pruneString_cases [of b s um d]) (use IH tidy_mono in auto)
  have two: "Suc (Suc (2 * (MaxDepth - Suc d))) = 2 * (MaxDepth - d)" using d by simp
  show ?case
  proof (cases v)
    case (DObj kvs)
    have "tidy (identifierKey (fst kv)) (fst (prune_field um d kv)) \<and> nesting (fst (prune_field um d kv)) \<le> 2 * (MaxDepth - Suc d)" for kv
      using str IH tidy_mono by (auto simp: prune_field_def split: prod.split jdoc.split)
    then show ?thesis using d nesting_obj [of "2 * (MaxDepth - Suc d)" "map (\<lambda>kv. (fst kv, fst (prune_field um d kv))) kvs"] two
      by (auto simp: DObj prune_obj list_all_iff)
  next
    case (DArr xs)
    show ?thesis
    proof (cases "length xs \<le> MaxArrayElems")
      case True
      then show ?thesis using d IH nesting_bound [of "2 * (MaxDepth - Suc d)" "map (\<lambda>x. fst (prune um (Suc d) x)) xs"] two
        by (auto simp: DArr prune_arr list_all_iff)
    next
      case False
      have "nesting (DArr (map (\<lambda>x. fst (prune um (Suc d) x)) ys)) \<le> Suc (2 * (MaxDepth - Suc d))" for ys
        using IH by (intro nesting_bound) (auto simp: list_all_iff)
      then have "nesting (fst (prune um d v)) \<le> 2 * (MaxDepth - d)"
        using False d prune_long [of d xs um] two nesting_summary by (metis DArr not_le)
      moreover have "tidy False (fst (prune um d v))"
        using False d prune_long [of d xs um] IH by (auto simp: DArr summary_def list_all_iff MaxArrayElems_def)
      ultimately show ?thesis by simp
    qed
  next
    case (DStr s)
    then show ?thesis using str [of False s] d by (auto simp: prune_str)
  qed (use d in \<open>auto simp: prune_scalar\<close>)
qed


text \<open>
  What the pruner leaves, whatever the payload and whatever its strings decode to: no array of more than twenty elements, no
  string of more than five hundred bytes but under an identifier's key or marked as truncated already, and no more than
  sixteen levels.
\<close>

theorem pruned_bounded: "tidy False (fst (prune um 0 v)) \<and> nesting (fst (prune um 0 v)) \<le> 16"
  using pruned_tidy [of um 0 v] by (simp add: MaxDepth_def)

lemma tidy_string: "tidy b (DStr s) \<Longrightarrow> pruneString um d b s = (DStr s, no_stats)"
  by (auto simp: pruneString.simps)

lemma within_kept: "within d v \<Longrightarrow> tidy False v \<Longrightarrow> prune um d v = (v, no_stats)"
proof (induction v arbitrary: d)
  case (DArr xs)
  have x: "prune um (Suc d) x = (x, no_stats)" if "x \<in> set xs" for x using DArr that by (auto simp: list_all_iff)
  then have "all_stats (map (prune um (Suc d)) xs) = no_stats" by (intro no_stats_all) (simp add: list_all_iff)
  then show ?case using DArr.prems prune_arr [of d xs um] x by (simp add: map_idI)
next
  case (DObj kvs)
  have f: "prune_field um d kv = (snd kv, no_stats)" if "kv \<in> set kvs" for kv
  proof (cases kv)
    case (Pair k x)
    then have t: "tidy (identifierKey k) x" using DObj.prems(2) that by (auto simp: list_all_iff)
    show ?thesis
    proof (cases "\<exists>s. x = DStr s")
      case True
      then show ?thesis using t tidy_string Pair by (auto simp: prune_field_def)
    next
      case False
      have "case x of DStr s \<Rightarrow> True | _ \<Rightarrow> within (Suc d) x" using DObj.prems(1) that Pair by (auto simp: list_all_iff)
      then have "within (Suc d) x" using False by (cases x) simp_all
      moreover have "tidy False x" using t False by (cases x) auto
      ultimately show ?thesis using DObj.IH [of kv x "Suc d"] that Pair False by (cases x) (auto simp: prune_field_def)
    qed
  qed
  then have "all_stats (map (prune_field um d) kvs) = no_stats" by (intro no_stats_all) (simp add: list_all_iff)
  moreover have "map (\<lambda>kv. (fst kv, fst (prune_field um d kv))) kvs = kvs" using f by (simp add: map_idI)
  ultimately show ?case using DObj.prems(1) prune_obj [of d um kvs] by simp
qed (auto simp: prune_scalar prune_str tidy_string)


lemma settled_mono: "settled (Suc d) v \<Longrightarrow> settled d v"
proof (induction v arbitrary: d)
  case (DObj kvs)
  have "case x of DStr s \<Rightarrow> True | _ \<Rightarrow> settled (Suc d) x" if "(k, x) \<in> set kvs" for k x
    using DObj.prems DObj.IH [OF that, of x "Suc d"] that by (cases x) (fastforce simp: list_all_iff)+
  then show ?case using DObj.prems by (auto simp: list_all_iff)
qed (auto simp: list_all_iff)

lemma settled_kept: "settled d v \<Longrightarrow> tidy False v \<Longrightarrow> fst (prune um d v) = v"
proof (induction v arbitrary: d)
  case (DArr xs)
  then show ?case using prune_arr [of d xs um] by (auto simp: list_all_iff map_idI)
next
  case (DObj kvs)
  have "fst (prune_field um d kv) = snd kv" if "kv \<in> set kvs" for kv
  proof (cases kv)
    case (Pair k x)
    then have t: "tidy (identifierKey k) x" using DObj.prems(2) that by (auto simp: list_all_iff)
    show ?thesis
    proof (cases "\<exists>s. x = DStr s")
      case True
      then show ?thesis using t tidy_string Pair by (auto simp: prune_field_def)
    next
      case False
      have "case x of DStr s \<Rightarrow> True | _ \<Rightarrow> settled (Suc d) x" using DObj.prems(1) that Pair by (auto simp: list_all_iff)
      then have "settled (Suc d) x" using False by (cases x) simp_all
      moreover have "tidy False x" using t False by (cases x) auto
      ultimately show ?thesis using DObj.IH [of kv x "Suc d"] that Pair False by (cases x) (auto simp: prune_field_def)
    qed
  qed
  then show ?case using DObj.prems(1) prune_obj [of d um kvs] by (simp add: map_idI)
next
  case (DStr s)
  then show ?case by (cases "d < MaxDepth") (auto simp: prune_str tidy_string prune_deep)
qed (auto simp: prune_scalar)

lemma settled_field: "(\<exists>t. x = DStr t) \<or> settled d x \<Longrightarrow> (case x of DStr s \<Rightarrow> True | _ \<Rightarrow> settled d x)"
  by (cases x) simp_all

lemma pruned_settled: "psArrays (snd (prune um d v)) = 0 \<Longrightarrow> settled d (fst (prune um d v))"
proof (induction "MaxDepth - d" arbitrary: d v)
  case 0
  then show ?case by (simp add: prune_deep)
next
  case (Suc n)
  then have d: "d < MaxDepth" by simp
  have IH: "psArrays (snd (prune um (Suc d) x)) = 0 \<Longrightarrow> settled (Suc d) (fst (prune um (Suc d) x))" for x
    using Suc.hyps(1) [of "Suc d" x] Suc.hyps(2) by simp
  have str: "psArrays (snd (pruneString um d b s)) = 0 \<Longrightarrow> (\<exists>t. fst (pruneString um d b s) = DStr t) \<or> settled (Suc d) (fst (pruneString um d b s))" for b s
    by (rule pruneString_cases [of b s um d]) (use IH in auto)
  show ?case
  proof (cases v)
    case (DObj kvs)
    have "psArrays (snd (prune_field um d kv)) = 0 \<Longrightarrow> (\<exists>t. fst (prune_field um d kv) = DStr t) \<or> settled (Suc d) (fst (prune_field um d kv))" for kv
    proof (cases "\<exists>s. snd kv = DStr s")
      case True
      then obtain s where "prune_field um d kv = pruneString um d (identifierKey (fst kv)) s" by (cases kv) (auto simp: prune_field_def)
      then show "psArrays (snd (prune_field um d kv)) = 0 \<Longrightarrow> (\<exists>t. fst (prune_field um d kv) = DStr t) \<or> settled (Suc d) (fst (prune_field um d kv))"
        using str [of "identifierKey (fst kv)" s] by simp
    next
      case False
      then have "prune_field um d kv = prune um (Suc d) (snd kv)" by (cases kv; cases "snd kv") (auto simp: prune_field_def)
      then show "psArrays (snd (prune_field um d kv)) = 0 \<Longrightarrow> (\<exists>t. fst (prune_field um d kv) = DStr t) \<or> settled (Suc d) (fst (prune_field um d kv))"
        using IH [of "snd kv"] by simp
    qed
    moreover have "psArrays (snd (prune_field um d kv)) = 0" if "kv \<in> set kvs" for kv
      using Suc.prems d that by (auto simp: DObj prune_obj psArrays_all list_all_iff)
    ultimately have "\<forall>kv \<in> set kvs. (\<exists>t. fst (prune_field um d kv) = DStr t) \<or> settled (Suc d) (fst (prune_field um d kv))" by blast
    then have "list_all (\<lambda>(k, x). case x of DStr s \<Rightarrow> True | _ \<Rightarrow> settled (Suc d) x) (map (\<lambda>kv. (fst kv, fst (prune_field um d kv))) kvs)"
      using settled_field by (auto simp: list_all_iff simp del: settled.simps)
    then show ?thesis using d by (simp add: DObj prune_obj)
  next
    case (DArr xs)
    then have "length xs \<le> MaxArrayElems" using Suc.prems prune_long [of d xs um] d by (metis not_le less_irrefl)
    then show ?thesis using Suc.prems d IH by (auto simp: DArr prune_arr psArrays_all list_all_iff)
  next
    case (DStr s)
    then show ?thesis using Suc.prems d str [of False s] settled_mono by (fastforce simp: prune_str)
  qed (use d in \<open>auto simp: prune_scalar\<close>)
qed

text \<open>
  A second pass over a digest in which no array was collapsed changes nothing; and a document within the limits is returned as
  it is, with nothing counted.
\<close>

theorem prune_stable:
  assumes "psArrays (snd (prune um 0 v)) = 0" "within 0 w" "tidy False w"
  shows "fst (prune um' 0 (fst (prune um 0 v))) = fst (prune um 0 v) \<and> prune um 0 w = (w, no_stats)"
  using settled_kept [OF pruned_settled [OF assms(1)]] pruned_tidy within_kept [OF assms(2,3)] by blast

theorem prune_stable_witness:
  "fst (prune (\<lambda>_. None) 0 (fst (prune (\<lambda>_. None) 0 (nested_in 9 (DNum ''1''))))) = fst (prune (\<lambda>_. None) 0 (nested_in 9 (DNum ''1'')))"
proof -
  have "psArrays (snd (prune (\<lambda>_. None) 0 (nested_in 9 (DNum ''1'')))) = 0" by code_simp
  then show ?thesis using prune_stable [of "\<lambda>_. None" "nested_in 9 (DNum ''1'')" DNull "\<lambda>_. None"] by (simp add: MaxDepth_def)
qed

text \<open>A second pass over a digest with a collapsed array can drop more: the summary puts the elements two levels deeper.\<close>

theorem prune_not_idempotent:
  "fst (prune (\<lambda>_. None) 0 (fst (prune (\<lambda>_. None) 0 (DArr (replicate 21 (nested_in 6 (DNum ''1'')))))))
     \<noteq> fst (prune (\<lambda>_. None) 0 (DArr (replicate 21 (nested_in 6 (DNum ''1'')))))"
  by code_simp

text \<open>Under an identifier's key a string is kept whatever its length, but a number at the cap of depth is not kept at all.\<close>

theorem deep_identifier_dropped:
  "fst (prune (\<lambda>_. None) 0 (nested_in 7 (DObj [(''id'', DNum ''7''), (''name'', DStr ''x'')]))) = nested_in 7 (DObj [(''id'', DStr deep_marker), (''name'', DStr ''x'')])"
  by code_simp


subsection \<open>The wrap\<close>

text \<open>A JSON payload within the limits is the digest as it is, whatever its size: the bound of a passthrough is not applied to it.\<close>

theorem irreducible_passes_whole:
  assumes "cdUnmarshal c p = Some v" "cdEncode c v = Some p" "within 0 v" "tidy False v"
    and "looksLikeJSON (cdValid c) p" "threshold \<le> int (length p)"
  shows "drDigest (fst (Process c None rm w threshold callID p store)) = p"
proof -
  have "digest_body c None threshold p = (p, MethodStructuralJSON, stats_metadata no_stats)"
    using assms within_kept [OF assms(3,4), of "cdUnmarshal c"] by (simp add: digest_body_def route_def PruneJSON_def)
  then show ?thesis by (simp add: Process_def Let_def case_prod_unfold)
qed

theorem irreducible_passes_whole_witness:
  "MaxPassthroughBytes < length (drDigest (fst (Process wide_codec None (\<lambda>_. True) True 8000 ''c'' wide_text NoStore)))"
proof -
  have "within 0 wide_doc" "tidy False wide_doc" by (simp_all add: wide_doc_def list_all_iff MaxDepth_def)
  moreover have "looksLikeJSON (cdValid wide_codec) wide_text" "length wide_text = 70001"
    by (simp_all add: looksLikeJSON_def wide_text_def cdValid_def wide_codec_def)
  ultimately have "drDigest (fst (Process wide_codec None (\<lambda>_. True) True 8000 ''c'' wide_text NoStore)) = wide_text"
    by (intro irreducible_passes_whole) (simp_all add: wide_codec_def)
  then show ?thesis using \<open>length wide_text = 70001\<close> by (simp add: MaxPassthroughBytes_def)
qed

text \<open>A digest names its call for \<^verbatim>\<open>retrieve_raw\<close> although nothing was stored, with no store at all and with a call of an unsafe name.\<close>

theorem call_id_without_payload:
  "(case digesting_Run demo_json (\<lambda>_. True) True 2 ''c'' 5 (Inr (DArr [DNum ''1''])) NoStore of
      (Digested d, st) \<Rightarrow> dgCallID d = Some ''c'' \<and> retrieveRaw True ''c'' st = RawUnknown ''c'' | _ \<Rightarrow> False) \<and>
   (case digesting_Run demo_json (\<lambda>_. True) True 2 ''call:1'' 5 (Inr (DArr [DNum ''1''])) (Direct small_store) of
      (Digested d, st) \<Rightarrow> dgCallID d = Some ''call:1'' \<and> retrieveRaw True ''call:1'' st = RawUnknown ''call:1'' | _ \<Rightarrow> False)"
  by code_simp

end
