(* ===== verification/A2A_Tasks.thy ===== *)
theory A2A_Tasks
  imports Session_Store
begin

text \<open>
  The agent-to-agent endpoint: the JSON-RPC server (\<^verbatim>\<open>src/internal/a2a/server.go\<close>, with the principals of
  \<^verbatim>\<open>src/internal/serverauth/auth.go\<close>) and the backend that runs tasks as turns of sessions (\<^verbatim>\<open>src/internal/cli/a2a.go\<close>).

  A request is what the JSON decoder made of its body. The limiter and the validator of tokens are arguments, and so is what a
  turn did: its events, its error, and what the session store answers. A call of the backend that waits for a turn is two
  steps, so that calls interleave; the registry of tasks is always there.
\<close>

section \<open>Tasks\<close>

datatype task_state = Submitted | Working | InputRequired | AuthRequired | Completed | Failed | Canceled | Rejected

fun Terminal :: "task_state \<Rightarrow> bool" where
  "Terminal Completed = True"
| "Terminal Failed = True"
| "Terminal Canceled = True"
| "Terminal Rejected = True"
| "Terminal _ = False"

record task_info =
  tiWorkload :: string
  tiState :: task_state
  tiContextID :: string
  tiStatusMessage :: string
  tiOutput :: string

datatype task_error = ErrTaskNotFound | ErrUnavailable | ErrBackend

record submit_params =
  spTaskID :: string
  spContextID :: string
  spText :: string

record a2a_task =
  taID :: string
  taContextID :: string
  taState :: task_state
  taMessage :: "(string \<times> string) option"
  taArtifacts :: "(string \<times> string) list"

definition taskFromInfo :: "string \<Rightarrow> task_info \<Rightarrow> a2a_task" where
  "taskFromInfo i info =
     \<lparr>taID = i, taContextID = tiContextID info, taState = tiState info,
      taMessage = (if tiStatusMessage info = [] then None else Some (i @ ''-status'', tiStatusMessage info)),
      taArtifacts = (if tiOutput info = [] then [] else [(i @ ''-result'', tiOutput info)])\<rparr>"

text \<open>Frames of a stream.\<close>

datatype frame =
    TaskFrame string string task_state
  | StatusFrame string string task_state "(string \<times> string) option" bool
  | ArtifactFrame string string string

section \<open>The server\<close>

record principal =
  prSubject :: string
  prScopes :: "string list"
  prTenant :: string

definition HasScope :: "principal option \<Rightarrow> string \<Rightarrow> bool" where
  "HasScope p want = (case p of None \<Rightarrow> False | Some q \<Rightarrow> want \<in> set (prScopes q))"

datatype token_error = ErrInvalidToken | ValidatorFailed

definition static_Validate :: "(string, principal) gomap \<Rightarrow> string \<Rightarrow> token_error + principal" where
  "static_Validate m tok = (case map_of m tok of None \<Rightarrow> Inl ErrInvalidToken | Some p \<Rightarrow> Inr p)"

record exposed_skill =
  skWorkload :: string
  skName :: string
  skDescription :: string
  skScopes :: "string list"

record rate_request =
  rrSubject :: string
  rrTenant :: string
  rrWorkload :: string
  rrMethod :: string

record a2a_server =
  svSkills :: "exposed_skill list"
  svValidator :: "(string \<Rightarrow> token_error + principal) option"
  svLimiter :: "(rate_request \<Rightarrow> bool \<times> int) option"

datatype server_error = NeedsAuthentication string | SkillUnnamed | DuplicateSkill string

fun check_skills :: "string list \<Rightarrow> exposed_skill list \<Rightarrow> server_error option" where
  "check_skills seen [] = None"
| "check_skills seen (s # ss) =
     (if skWorkload s = [] \<or> skName s = [] then Some SkillUnnamed
      else if skWorkload s \<in> set seen then Some (DuplicateSkill (skWorkload s))
      else check_skills (skWorkload s # seen) ss)"

definition a2a_New :: "(string \<Rightarrow> bool) \<Rightarrow> string \<Rightarrow> exposed_skill list \<Rightarrow> (string \<Rightarrow> token_error + principal) option \<Rightarrow> (rate_request \<Rightarrow> bool \<times> int) option \<Rightarrow> server_error + a2a_server" where
  "a2a_New loopback listen skills validator limiter =
     (if listen \<noteq> [] \<and> \<not> loopback listen \<and> validator = None then Inl (NeedsAuthentication listen)
      else case check_skills [] skills of
             Some e \<Rightarrow> Inl e
           | None \<Rightarrow> Inr \<lparr>svSkills = skills, svValidator = validator, svLimiter = limiter\<rparr>)"

definition byWork :: "a2a_server \<Rightarrow> string \<Rightarrow> exposed_skill option" where
  "byWork sv w = find (\<lambda>s. skWorkload s = w) (svSkills sv)"

record a2a_message =
  amParts :: "(string \<times> string) list"
  amTaskID :: string
  amContextID :: string

text \<open>The parameters as either kind of method reads them; \<open>None\<close> if they cannot be.\<close>

record rpc_request =
  rqJSONRPC :: string
  rqMethod :: string
  rqTaskID :: "string option"
  rqMessage :: "a2a_message option"

datatype reply =
    HttpError nat
  | RpcError int "int option"
  | RpcTask a2a_task
  | EventStream "frame list"

text \<open>The calls of the backend that do something.\<close>

datatype backend_call = CancelCall string | SubmitCall submit_params string | StreamCall submit_params string

definition textOf :: "(string \<times> string) list \<Rightarrow> string" where
  "textOf parts = Join (map snd (filter (\<lambda>(k, t). k = ''text'' \<and> t \<noteq> []) parts)) [CHR 0x0A]"

definition authenticate :: "a2a_server \<Rightarrow> string \<Rightarrow> reply + principal option" where
  "authenticate sv authorization =
     (case svValidator sv of
        None \<Rightarrow> Inr None
      | Some check \<Rightarrow>
          if \<not> HasPrefix authorization ''Bearer '' then Inl (HttpError 401)
          else case check (drop 7 authorization) of
                 Inl ErrInvalidToken \<Rightarrow> Inl (HttpError 401)
               | Inl ValidatorFailed \<Rightarrow> Inl (HttpError 500)
               | Inr p \<Rightarrow> Inr (Some p))"

definition authorizeTask :: "a2a_server \<Rightarrow> principal option \<Rightarrow> string \<Rightarrow> bool" where
  "authorizeTask sv p w \<longleftrightarrow>
     (svValidator sv = None \<or> (case byWork sv w of None \<Rightarrow> False | Some sk \<Rightarrow> list_all (HasScope p) (skScopes sk)))"

text \<open>Seconds, rounded up, of a wait in nanoseconds.\<close>

definition retry_seconds :: "int \<Rightarrow> int option" where
  "retry_seconds wait = (if 0 < wait then Some (max 1 ((wait + 999999999) div 1000000000)) else None)"

definition rate_limit :: "a2a_server \<Rightarrow> principal option \<Rightarrow> string \<Rightarrow> string \<Rightarrow> reply option" where
  "rate_limit sv p w m =
     (case svLimiter sv of
        None \<Rightarrow> None
      | Some allow \<Rightarrow>
          (let (ok, wait) = allow \<lparr>rrSubject = (case p of None \<Rightarrow> [] | Some q \<Rightarrow> prSubject q), rrTenant = (case p of None \<Rightarrow> [] | Some q \<Rightarrow> prTenant q),
                                   rrWorkload = w, rrMethod = m\<rparr>
           in if ok then None else Some (RpcError (- 32000) (retry_seconds wait))))"

fun task_error_reply :: "task_error \<Rightarrow> reply" where
  "task_error_reply ErrTaskNotFound = RpcError (- 32001) None"
| "task_error_reply ErrUnavailable = RpcError (- 32000) None"
| "task_error_reply ErrBackend = RpcError (- 32603) None"

text \<open>A lookup has no answer of its own for a backend that is unavailable.\<close>

fun lookup_error_reply :: "task_error \<Rightarrow> reply" where
  "lookup_error_reply ErrTaskNotFound = RpcError (- 32001) None"
| "lookup_error_reply _ = RpcError (- 32603) None"

type_synonym answers = "(string \<Rightarrow> task_error + task_info) \<times> (string \<Rightarrow> task_error + task_info)"

definition handleTasksGet :: "a2a_server \<Rightarrow> (string \<Rightarrow> task_error + task_info) \<Rightarrow> rpc_request \<Rightarrow> principal option \<Rightarrow> reply" where
  "handleTasksGet sv get rq p =
     (case rqTaskID rq of
        None \<Rightarrow> RpcError (- 32602) None
      | Some i \<Rightarrow>
          if i = [] then RpcError (- 32602) None
          else case get i of
                 Inl e \<Rightarrow> lookup_error_reply e
               | Inr info \<Rightarrow> if \<not> authorizeTask sv p (tiWorkload info) then HttpError 403 else RpcTask (taskFromInfo i info))"

definition handleTasksCancel ::
  "a2a_server \<Rightarrow> (string \<Rightarrow> task_error + task_info) \<Rightarrow> (string \<Rightarrow> task_error + task_info) \<Rightarrow> rpc_request \<Rightarrow> principal option \<Rightarrow> reply \<times> backend_call list" where
  "handleTasksCancel sv get cancel rq p =
     (case rqTaskID rq of
        None \<Rightarrow> (RpcError (- 32602) None, [])
      | Some i \<Rightarrow>
          if i = [] then (RpcError (- 32602) None, [])
          else case get i of
                 Inl e \<Rightarrow> (lookup_error_reply e, [])
               | Inr info \<Rightarrow>
                   if \<not> authorizeTask sv p (tiWorkload info) then (HttpError 403, [])
                   else case cancel i of
                          Inl e \<Rightarrow> (lookup_error_reply e, [CancelCall i])
                        | Inr done \<Rightarrow> (RpcTask (taskFromInfo i done), [CancelCall i]))"

definition resolveSendWorkload :: "a2a_server \<Rightarrow> (string \<Rightarrow> task_error + task_info) \<Rightarrow> a2a_message \<Rightarrow> reply + string" where
  "resolveSendWorkload sv get m =
     (if amTaskID m \<noteq> [] then
        (case get (amTaskID m) of Inl e \<Rightarrow> Inl (lookup_error_reply e) | Inr info \<Rightarrow> Inr (tiWorkload info))
      else case svSkills sv of
             [sk] \<Rightarrow> Inr (skWorkload sk)
           | _ \<Rightarrow> Inl (RpcError (- 32004) None))"

text \<open>What both methods of a message check before they call the backend.\<close>

definition admit_message :: "a2a_server \<Rightarrow> (string \<Rightarrow> task_error + task_info) \<Rightarrow> rpc_request \<Rightarrow> principal option \<Rightarrow> string \<Rightarrow> reply + submit_params \<times> string" where
  "admit_message sv get rq p method =
     (case rqMessage rq of
        None \<Rightarrow> Inl (RpcError (- 32602) None)
      | Some m \<Rightarrow>
          if textOf (amParts m) = [] then Inl (RpcError (- 32602) None)
          else case resolveSendWorkload sv get m of
                 Inl r \<Rightarrow> Inl r
               | Inr w \<Rightarrow>
                   if \<not> authorizeTask sv p w then Inl (HttpError 403)
                   else case rate_limit sv p w method of
                          Some r \<Rightarrow> Inl r
                        | None \<Rightarrow> Inr (\<lparr>spTaskID = amTaskID m, spContextID = amContextID m, spText = textOf (amParts m)\<rparr>, w))"

definition handleMessageSend ::
  "a2a_server \<Rightarrow> (string \<Rightarrow> task_error + task_info) \<Rightarrow> (submit_params \<Rightarrow> string \<times> (task_error + task_info)) \<Rightarrow> rpc_request \<Rightarrow> principal option \<Rightarrow> reply \<times> backend_call list" where
  "handleMessageSend sv get submit rq p =
     (case admit_message sv get rq p ''message/send'' of
        Inl r \<Rightarrow> (r, [])
      | Inr (sp, w) \<Rightarrow>
          (case submit sp of
             (i, Inl e) \<Rightarrow> (task_error_reply e, [SubmitCall sp w])
           | (i, Inr info) \<Rightarrow> (RpcTask (taskFromInfo i info), [SubmitCall sp w])))"

text \<open>A stream: the frames the backend emitted, its answer, and what the handler adds.\<close>

definition closing_frames :: "string \<Rightarrow> task_info \<Rightarrow> frame list" where
  "closing_frames i info =
     (if tiOutput info = [] then [] else [ArtifactFrame i (tiContextID info) (tiOutput info)]) @
     [StatusFrame i (tiContextID info) (tiState info)
        (if tiStatusMessage info = [] then None else Some (i @ ''-status'', tiStatusMessage info)) True]"

definition stream_reply :: "frame list \<Rightarrow> string \<Rightarrow> task_error option \<Rightarrow> task_info \<Rightarrow> reply" where
  "stream_reply emitted i e info =
     (case e of
        Some err \<Rightarrow>
          if emitted = [] then task_error_reply err
          else EventStream (emitted @ [StatusFrame i (tiContextID info) Failed None True])
      | None \<Rightarrow> EventStream (emitted @ closing_frames i info))"

definition handleMessageStream ::
  "a2a_server \<Rightarrow> (string \<Rightarrow> task_error + task_info) \<Rightarrow> bool \<Rightarrow> (submit_params \<Rightarrow> frame list \<times> string \<times> task_error option \<times> task_info) \<Rightarrow> rpc_request \<Rightarrow> principal option \<Rightarrow> reply \<times> backend_call list" where
  "handleMessageStream sv get flushes stream rq p =
     (case admit_message sv get rq p ''message/stream'' of
        Inl r \<Rightarrow> (r, [])
      | Inr (sp, w) \<Rightarrow>
          if \<not> flushes then (RpcError (- 32603) None, [])
          else (case stream sp of (emitted, i, e, info) \<Rightarrow> (stream_reply emitted i e info, [StreamCall sp w])))"

record backend =
  beGet :: "string \<Rightarrow> task_error + task_info"
  beCancel :: "string \<Rightarrow> task_error + task_info"
  beSubmit :: "submit_params \<Rightarrow> string \<times> (task_error + task_info)"
  beStream :: "submit_params \<Rightarrow> frame list \<times> string \<times> task_error option \<times> task_info"

definition handleRPC :: "a2a_server \<Rightarrow> backend \<Rightarrow> bool \<Rightarrow> string \<Rightarrow> rpc_request option \<Rightarrow> reply \<times> backend_call list" where
  "handleRPC sv be flushes authorization body =
     (case authenticate sv authorization of
        Inl r \<Rightarrow> (r, [])
      | Inr p \<Rightarrow>
          (case body of
             None \<Rightarrow> (RpcError (- 32700) None, [])
           | Some rq \<Rightarrow>
               if rqJSONRPC rq \<noteq> ''2.0'' \<or> rqMethod rq = [] then (RpcError (- 32600) None, [])
               else if rqMethod rq = ''tasks/get'' then (handleTasksGet sv (beGet be) rq p, [])
               else if rqMethod rq = ''tasks/cancel'' then handleTasksCancel sv (beGet be) (beCancel be) rq p
               else if rqMethod rq = ''message/send'' then handleMessageSend sv (beGet be) (beSubmit be) rq p
               else if rqMethod rq = ''message/stream'' then handleMessageStream sv (beGet be) flushes (beStream be) rq p
               else (RpcError (- 32601) None, [])))"

section \<open>The backend\<close>

record task_record =
  trWorkload :: string
  trState :: task_state
  trMessage :: string
  trOutput :: string
  trContextID :: string

type_synonym registry = "(string, task_record) gomap"

definition reg_record :: "string \<Rightarrow> task_record \<Rightarrow> registry \<Rightarrow> registry" where
  "reg_record i rec reg =
     (if trState rec \<noteq> Canceled \<and> (case map_of reg i of Some cur \<Rightarrow> trState cur = Canceled | None \<Rightarrow> False) then reg
      else AList.update i rec reg)"

definition clearInFlight :: "string \<Rightarrow> registry \<Rightarrow> registry" where
  "clearInFlight i reg =
     (case map_of reg i of
        Some cur \<Rightarrow> if \<not> Terminal (trState cur) then AList.delete i reg else reg
      | None \<Rightarrow> reg)"

definition isA2ATaskID :: "string \<Rightarrow> bool" where
  "isA2ATaskID i \<longleftrightarrow> HasPrefix i ''a2a-'' \<and> \<not> IsReservedSessionID i"

text \<open>An event of a turn: a request for input with its message, how many long-running calls it has, and the text the model wrote.\<close>

record turn_event =
  teRequested :: "string option"
  teLongRunning :: nat
  tePartial :: bool
  teModel :: bool
  teText :: string

record turn_capture =
  tcLastText :: string
  tcInputRequired :: bool
  tcInterruptMsg :: string

definition no_capture :: turn_capture where
  "no_capture = \<lparr>tcLastText = [], tcInputRequired = False, tcInterruptMsg = []\<rparr>"

definition onEvent :: "turn_capture \<Rightarrow> turn_event option \<Rightarrow> turn_capture" where
  "onEvent c ev =
     (case ev of
        None \<Rightarrow> c
      | Some e \<Rightarrow>
          (let c1 = (case teRequested e of
                       None \<Rightarrow> c
                     | Some m \<Rightarrow> c\<lparr>tcInputRequired := True, tcInterruptMsg := (if m \<noteq> [] then m else tcInterruptMsg c)\<rparr>);
               c2 = (if 0 < teLongRunning e then c1\<lparr>tcInputRequired := True\<rparr> else c1)
           in if \<not> teModel e then c2 else if teText e \<noteq> [] then c2\<lparr>tcLastText := teText e\<rparr> else c2))"

definition capture :: "turn_event option list \<Rightarrow> turn_capture" where
  "capture evs = foldl onEvent no_capture evs"

definition emitStreamProgress :: "string \<Rightarrow> string \<Rightarrow> nat \<Rightarrow> turn_event option \<Rightarrow> frame list" where
  "emitStreamProgress i ctx seq ev =
     (case ev of
        None \<Rightarrow> []
      | Some e \<Rightarrow>
          if tePartial e \<or> \<not> teModel e \<or> teText e = [] then []
          else [StatusFrame i ctx Working (Some (i @ ''-progress-'' @ itoa (int seq), teText e)) False])"

fun progress_from :: "string \<Rightarrow> string \<Rightarrow> nat \<Rightarrow> turn_event option list \<Rightarrow> frame list" where
  "progress_from i ctx seq [] = []"
| "progress_from i ctx seq (ev # evs) = emitStreamProgress i ctx seq ev @ progress_from i ctx (Suc seq) evs"

datatype tx_state = TxAborted | TxPaused | TxInterrupted | TxIdle

record tx_detail =
  txState :: tx_state
  txAbortReason :: string
  txPending :: "string list"
  txPauseMessage :: string
  txInterruptReason :: string

definition mapTranscriptState :: "tx_detail \<Rightarrow> task_state \<times> string" where
  "mapTranscriptState d =
     (case txState d of
        TxAborted \<Rightarrow> (Canceled, txAbortReason d)
      | TxPaused \<Rightarrow> if txPending d \<noteq> [] then (InputRequired, txPauseMessage d) else (Working, txPauseMessage d)
      | TxInterrupted \<Rightarrow> (Working, txInterruptReason d)
      | TxIdle \<Rightarrow> (Working, []))"

datatype turn_error = TurnUnavailable | TurnConflict | TurnFailed

text \<open>What the store answers: a session, that there is none, or that it could not be read.\<close>

datatype store_answer = Found tx_detail | Missing | Unreadable

definition classifyTurn :: "turn_capture \<Rightarrow> turn_error option \<Rightarrow> store_answer \<Rightarrow> task_state \<times> string \<times> string" where
  "classifyTurn c e answer =
     (case e of
        None \<Rightarrow> if tcInputRequired c then (InputRequired, tcInterruptMsg c, []) else (Completed, [], tcLastText c)
      | Some TurnConflict \<Rightarrow>
          (case answer of
             Found d \<Rightarrow> (let (st, m) = mapTranscriptState d in (st, m, []))
           | _ \<Rightarrow> (Failed, ''task failed'', []))
      | Some _ \<Rightarrow> (Failed, ''task failed'', []))"

definition info_of :: "task_record \<Rightarrow> task_info" where
  "info_of r = \<lparr>tiWorkload = trWorkload r, tiState = trState r, tiContextID = trContextID r, tiStatusMessage = trMessage r, tiOutput = trOutput r\<rparr>"

definition GetTask :: "string \<Rightarrow> registry \<Rightarrow> store_answer \<Rightarrow> string \<Rightarrow> task_error + task_info" where
  "GetTask wname reg answer i =
     (if \<not> isA2ATaskID i then Inl ErrTaskNotFound
      else case map_of reg i of
             Some r \<Rightarrow> Inr (info_of r)
           | None \<Rightarrow>
               (case answer of
                  Missing \<Rightarrow> Inl ErrTaskNotFound
                | Unreadable \<Rightarrow> Inl ErrBackend
                | Found d \<Rightarrow>
                    (let (st, m) = mapTranscriptState d
                     in Inr \<lparr>tiWorkload = wname, tiState = st, tiContextID = [], tiStatusMessage = m, tiOutput = []\<rparr>)))"

text \<open>A task up to its turn. \<open>mintT\<close> and \<open>mintC\<close> are the identifiers that would be minted.\<close>

definition run_begin :: "string \<Rightarrow> bool \<Rightarrow> string \<Rightarrow> string \<Rightarrow> submit_params \<Rightarrow> registry \<Rightarrow> (task_error + string \<times> string) \<times> registry" where
  "run_begin wname draining mintT mintC sp reg =
     (if draining then (Inl ErrUnavailable, reg)
      else if spTaskID sp \<noteq> [] \<and> \<not> isA2ATaskID (spTaskID sp) then (Inl ErrTaskNotFound, reg)
      else
        (let i = (if spTaskID sp = [] then mintT else spTaskID sp);
             ctx = (if spContextID sp \<noteq> [] then spContextID sp
                    else case map_of reg i of
                           Some r \<Rightarrow> if trContextID r \<noteq> [] then trContextID r else mintC
                         | None \<Rightarrow> mintC)
         in (Inr (i, ctx), reg_record i \<lparr>trWorkload = wname, trState = Working, trMessage = [], trOutput = [], trContextID = ctx\<rparr> reg)))"

text \<open>A task from the end of its turn.\<close>

definition run_end :: "string \<Rightarrow> string \<Rightarrow> string \<Rightarrow> turn_capture \<Rightarrow> turn_error option \<Rightarrow> store_answer \<Rightarrow> registry \<Rightarrow> (task_error option \<times> task_info) \<times> registry" where
  "run_end wname i ctx c e answer reg =
     (if e = Some TurnUnavailable then
        ((Some ErrUnavailable, \<lparr>tiWorkload = [], tiState = Submitted, tiContextID = ctx, tiStatusMessage = [], tiOutput = []\<rparr>), clearInFlight i reg)
      else
        (let (st, m, outp) = classifyTurn c e answer;
             reg' = (if Terminal st
                     then reg_record i \<lparr>trWorkload = wname, trState = st, trMessage = m, trOutput = outp, trContextID = ctx\<rparr> reg
                     else clearInFlight i reg)
         in case map_of reg' i of
              Some r \<Rightarrow> ((None, info_of r), reg')
            | None \<Rightarrow> ((None, \<lparr>tiWorkload = wname, tiState = st, tiContextID = ctx, tiStatusMessage = m, tiOutput = outp\<rparr>), reg')))"

text \<open>The frames of a task that streams.\<close>

definition run_frames :: "string \<Rightarrow> string \<Rightarrow> turn_event option list \<Rightarrow> frame list" where
  "run_frames i ctx evs = TaskFrame i ctx Working # progress_from i ctx 0 evs"

text \<open>A streamed task in one go. A task that was not accepted has no frames.\<close>

definition no_info :: task_info where
  "no_info = \<lparr>tiWorkload = [], tiState = Submitted, tiContextID = [], tiStatusMessage = [], tiOutput = []\<rparr>"

definition StreamMessage ::
  "string \<Rightarrow> bool \<Rightarrow> string \<Rightarrow> string \<Rightarrow> turn_event option list \<Rightarrow> turn_error option \<Rightarrow> store_answer \<Rightarrow> registry \<Rightarrow> submit_params \<Rightarrow> (frame list \<times> string \<times> task_error option \<times> task_info) \<times> registry" where
  "StreamMessage wname draining mintT mintC evs e answer reg sp =
     (case run_begin wname draining mintT mintC sp reg of
        (Inl err, reg1) \<Rightarrow> (([], [], Some err, no_info), reg1)
      | (Inr (i, ctx), reg1) \<Rightarrow>
          (case run_end wname i ctx (capture evs) e answer reg1 of
             ((err, info), reg2) \<Rightarrow> ((run_frames i ctx evs, i, err, info), reg2)))"

text \<open>A cancel: the durable mark, and what follows it.\<close>

definition cancel_end :: "string \<Rightarrow> string \<Rightarrow> string \<Rightarrow> store_answer \<Rightarrow> registry \<Rightarrow> task_info \<times> registry" where
  "cancel_end wname i reason answer reg =
     (let (st, m) = (case answer of Found d \<Rightarrow> mapTranscriptState d | _ \<Rightarrow> (Canceled, reason))
      in (\<lparr>tiWorkload = wname, tiState = st, tiContextID = [], tiStatusMessage = m, tiOutput = []\<rparr>,
          reg_record i \<lparr>trWorkload = wname, trState = st, trMessage = m, trOutput = [], trContextID = []\<rparr> reg))"


section \<open>Calls at once\<close>

text \<open>
  The registry, the sessions as the store has them, the tasks whose turns run, the cancels whose mark is written and that have
  not answered yet, and the turns that came to their end with what they left.
\<close>

record a2a_state =
  asReg :: registry
  asStore :: "(string, tx_detail) gomap"
  asDraining :: bool
  asRuns :: "(string \<times> string) list"
  asCancels :: "(string \<times> string) list"
  asEnded :: "(string \<times> turn_capture \<times> turn_error option) list"

definition a2a_start :: "(string, tx_detail) gomap \<Rightarrow> a2a_state" where
  "a2a_start store = \<lparr>asReg = [], asStore = store, asDraining = False, asRuns = [], asCancels = [], asEnded = []\<rparr>"

datatype a2a_op =
    OpDrain
  | OpSession string tx_detail
  | OpBegin submit_params string string
  | OpEnd nat "turn_event option list" "turn_error option" bool
  | OpAbort string string bool
  | OpCancel nat bool

datatype a2a_answer = ANone | ABegun "task_error + string \<times> string" | AEnded string "task_error option" task_info | ACanceled "task_error + task_info" string

definition store_read :: "bool \<Rightarrow> a2a_state \<Rightarrow> string \<Rightarrow> store_answer" where
  "store_read readable s i =
     (if \<not> readable then Unreadable else case map_of (asStore s) i of None \<Rightarrow> Missing | Some d \<Rightarrow> Found d)"

definition is_aborted :: "a2a_state \<Rightarrow> string \<Rightarrow> bool" where
  "is_aborted s i \<longleftrightarrow> (case map_of (asStore s) i of Some d \<Rightarrow> txState d = TxAborted | None \<Rightarrow> False)"

definition aborted_detail :: "string \<Rightarrow> tx_detail" where
  "aborted_detail reason = \<lparr>txState = TxAborted, txAbortReason = reason, txPending = [], txPauseMessage = [], txInterruptReason = []\<rparr>"

text \<open>
  One step. Other writers of the store change a session that is not aborted; an abort finds the session or not, finds it aborted
  before, or fails.
\<close>

fun a2a_step :: "string \<Rightarrow> a2a_op \<Rightarrow> a2a_state \<Rightarrow> a2a_answer \<times> a2a_state" where
  "a2a_step wname OpDrain s = (ANone, s\<lparr>asDraining := True\<rparr>)"
| "a2a_step wname (OpSession i d) s =
     (ANone, if is_aborted s i \<or> txState d = TxAborted then s else s\<lparr>asStore := AList.update i d (asStore s)\<rparr>)"
| "a2a_step wname (OpBegin sp mintT mintC) s =
     (let (r, reg) = run_begin wname (asDraining s) mintT mintC sp (asReg s)
      in (ABegun r, s\<lparr>asReg := reg, asRuns := (case r of Inr x \<Rightarrow> asRuns s @ [x] | Inl _ \<Rightarrow> asRuns s)\<rparr>))"
| "a2a_step wname (OpEnd k evs e readable) s =
     (if k < length (asRuns s) then
        (let (i, ctx) = asRuns s ! k; ((err, info), reg) = run_end wname i ctx (capture evs) e (store_read readable s i) (asReg s)
         in (AEnded i err info, s\<lparr>asReg := reg, asRuns := take k (asRuns s) @ drop (Suc k) (asRuns s), asEnded := (i, capture evs, e) # asEnded s\<rparr>))
      else (ANone, s))"
| "a2a_step wname (OpAbort i reason failed) s =
     (if \<not> isA2ATaskID i then (ACanceled (Inl ErrTaskNotFound) i, s)
      else if failed then (ACanceled (Inl ErrBackend) i, s)
      else if map_of (asStore s) i = None then (ACanceled (Inl ErrTaskNotFound) i, s)
      else (ANone, s\<lparr>asStore := (if is_aborted s i then asStore s else AList.update i (aborted_detail reason) (asStore s)),
                     asCancels := asCancels s @ [(i, reason)]\<rparr>))"
| "a2a_step wname (OpCancel k readable) s =
     (if k < length (asCancels s) then
        (let (i, reason) = asCancels s ! k; (info, reg) = cancel_end wname i reason (store_read readable s i) (asReg s)
         in (ACanceled (Inr info) i, s\<lparr>asReg := reg, asCancels := take k (asCancels s) @ drop (Suc k) (asCancels s)\<rparr>))
      else (ANone, s))"

fun a2a_run :: "string \<Rightarrow> a2a_op list \<Rightarrow> a2a_state \<Rightarrow> a2a_answer list \<times> a2a_state" where
  "a2a_run wname [] s = ([], s)"
| "a2a_run wname (x # xs) s =
     (case a2a_step wname x s of (a, s') \<Rightarrow> case a2a_run wname xs s' of (as, s'') \<Rightarrow> (a # as, s''))"

section \<open>What is claimed\<close>

text \<open>A record that says canceled is of an aborted session and has no output; one that says completed has the text of a turn that ended well.\<close>

definition reg_ok :: "registry \<Rightarrow> (string \<Rightarrow> bool) \<Rightarrow> (string \<times> turn_capture \<times> turn_error option) list \<Rightarrow> bool" where
  "reg_ok reg aborted ended \<longleftrightarrow>
     (\<forall>i r. map_of reg i = Some r \<longrightarrow>
        (trState r = Canceled \<longrightarrow> trOutput r = [] \<and> aborted i) \<and>
        (trState r = Completed \<longrightarrow> (\<exists>c. (i, c, None) \<in> set ended \<and> \<not> tcInputRequired c \<and> tcLastText c = trOutput r)))"

definition a2a_inv :: "a2a_state \<Rightarrow> bool" where
  "a2a_inv s \<longleftrightarrow> reg_ok (asReg s) (is_aborted s) (asEnded s) \<and> (\<forall>(i, reason) \<in> set (asCancels s). is_aborted s i)"

text \<open>The answer says canceled, and carries no output.\<close>

definition says_canceled :: "task_info \<Rightarrow> bool" where
  "says_canceled info \<longleftrightarrow> tiState info = Canceled \<and> tiOutput info = []"

definition stays_canceled :: "string \<Rightarrow> a2a_answer \<Rightarrow> bool" where
  "stays_canceled i a \<longleftrightarrow>
     (case a of
        AEnded j None info \<Rightarrow> j = i \<longrightarrow> says_canceled info
      | ACanceled (Inr info) j \<Rightarrow> j = i \<longrightarrow> says_canceled info
      | _ \<Rightarrow> True)"

fun final_frame :: "frame \<Rightarrow> bool" where
  "final_frame (StatusFrame i c st m fin) = fin"
| "final_frame _ = False"

fun frame_task :: "frame \<Rightarrow> string" where
  "frame_task (TaskFrame i c st) = i"
| "frame_task (StatusFrame i c st m fin) = i"
| "frame_task (ArtifactFrame i c t) = i"

definition canceled :: "string \<Rightarrow> a2a_state \<Rightarrow> bool" where
  "canceled i s \<longleftrightarrow> (\<exists>r. map_of (asReg s) i = Some r \<and> trState r = Canceled)"

definition demo_session :: tx_detail where
  "demo_session = \<lparr>txState = TxIdle, txAbortReason = [], txPending = [], txPauseMessage = [], txInterruptReason = []\<rparr>"

definition demo_said :: "turn_event option list" where
  "demo_said = [Some \<lparr>teRequested = None, teLongRunning = 0, tePartial = False, teModel = True, teText = ''secret''\<rparr>]"

text \<open>A turn that ends well after its task was canceled.\<close>

definition demo_race :: "a2a_op list" where
  "demo_race = [OpBegin \<lparr>spTaskID = [], spContextID = [], spText = ''hi''\<rparr> ''a2a-1'' ''ctx-1'', OpSession ''a2a-1'' demo_session, OpAbort ''a2a-1'' ''stop'' False]"

definition demo_message :: submit_params where
  "demo_message = \<lparr>spTaskID = [], spContextID = [], spText = ''hi''\<rparr>"

definition demo_server :: a2a_server where
  "demo_server = \<lparr>svSkills = [\<lparr>skWorkload = ''w'', skName = ''w'', skDescription = [], skScopes = [''run'']\<rparr>],
     svValidator = Some (static_Validate [(''t'', \<lparr>prSubject = ''s'', prScopes = [''run''], prTenant = []\<rparr>)]), svLimiter = None\<rparr>"

definition demo_backend :: backend where
  "demo_backend = \<lparr>beGet = (\<lambda>i. Inr \<lparr>tiWorkload = ''w'', tiState = Working, tiContextID = [], tiStatusMessage = [], tiOutput = []\<rparr>),
     beCancel = (\<lambda>i. Inr \<lparr>tiWorkload = ''w'', tiState = Canceled, tiContextID = [], tiStatusMessage = [], tiOutput = []\<rparr>),
     beSubmit = (\<lambda>sp. ([], Inl ErrUnavailable)), beStream = (\<lambda>sp. ([], [], Some ErrUnavailable, no_info))\<rparr>"

definition demo_cancel :: rpc_request where
  "demo_cancel = \<lparr>rqJSONRPC = ''2.0'', rqMethod = ''tasks/cancel'', rqTaskID = Some ''a2a-1'', rqMessage = None\<rparr>"

section \<open>Lemmas and properties\<close>

subsection \<open>The server\<close>

lemma admit_admitted:
  assumes "admit_message sv get rq p method = Inr (sp, w)"
  shows "authorizeTask sv p w \<and> rate_limit sv p w method = None \<and> (spTaskID sp \<noteq> [] \<longrightarrow> (\<exists>info. get (spTaskID sp) = Inr info \<and> tiWorkload info = w))"
proof -
  obtain m where m: "rqMessage rq = Some m" "textOf (amParts m) \<noteq> []" using assms by (auto simp: admit_message_def split: option.splits if_splits)
  then obtain w' where w: "resolveSendWorkload sv get m = Inr w'" using assms by (cases "resolveSendWorkload sv get m") (auto simp: admit_message_def)
  then have a: "authorizeTask sv p w'" "rate_limit sv p w' method = None" "w = w'" "sp = \<lparr>spTaskID = amTaskID m, spContextID = amContextID m, spText = textOf (amParts m)\<rparr>"
    using assms m by (auto simp: admit_message_def split: if_splits option.splits)
  then show ?thesis using w by (auto simp: resolveSendWorkload_def split: if_splits sum.splits)
qed

text \<open>
  Who moves a task: with a validator of tokens configured, the backend is told to cancel a task, or to run a message, only for
  a request whose bearer token the validator accepts, whose principal has every scope of the exposed skill that the task belongs
  to; and a message only if the limiter lets it.
\<close>

theorem a2a_call_authorized:
  assumes "handleRPC sv be flushes authorization body = (reply, calls)" "svValidator sv = Some check" "x \<in> set calls"
  shows "\<exists>p w sk. authorization = ''Bearer '' @ drop 7 authorization \<and> check (drop 7 authorization) = Inr p \<and>
    byWork sv w = Some sk \<and> list_all (HasScope (Some p)) (skScopes sk) \<and>
    (case x of
       CancelCall i \<Rightarrow> (\<exists>info. beGet be i = Inr info \<and> tiWorkload info = w)
     | SubmitCall sp v \<Rightarrow> v = w \<and> rate_limit sv (Some p) w ''message/send'' = None
     | StreamCall sp v \<Rightarrow> v = w \<and> rate_limit sv (Some p) w ''message/stream'' = None)"
proof -
  obtain p where p: "authenticate sv authorization = Inr p" using assms by (cases "authenticate sv authorization") (auto simp: handleRPC_def)
  then obtain q where q: "p = Some q" "HasPrefix authorization ''Bearer ''" "check (drop 7 authorization) = Inr q"
    using assms(2) by (auto simp: authenticate_def split: if_splits sum.splits token_error.splits)
  have b: "authorization = ''Bearer '' @ drop 7 authorization" 
  proof -
    have "take 7 authorization = ''Bearer ''" using q(2) by (simp add: HasPrefix_def eval_nat_numeral)
    then show ?thesis by (metis append_take_drop_id)
  qed
  have auth: "\<exists>sk. byWork sv w = Some sk \<and> list_all (HasScope (Some q)) (skScopes sk)" if "authorizeTask sv p w" for w
    using that assms(2) q(1) by (auto simp: authorizeTask_def split: option.splits)
  obtain rq where rq: "body = Some rq" using assms p by (cases body) (auto simp: handleRPC_def)
  consider "handleTasksCancel sv (beGet be) (beCancel be) rq p = (reply, calls)" | "handleMessageSend sv (beGet be) (beSubmit be) rq p = (reply, calls)"
    | "handleMessageStream sv (beGet be) flushes (beStream be) rq p = (reply, calls)"
    using assms(1,3) p rq by (auto simp: handleRPC_def split: if_splits)
  then show ?thesis
  proof cases
    case 1
    then obtain i info where "x = CancelCall i" "beGet be i = Inr info" "authorizeTask sv p (tiWorkload info)"
      using assms(3) by (auto simp: handleTasksCancel_def split: option.splits if_splits sum.splits)
    then show ?thesis using auth b q by fastforce
  next
    case 2
    then obtain sp w where a: "admit_message sv (beGet be) rq p ''message/send'' = Inr (sp, w)" "x = SubmitCall sp w"
      using assms(3) by (auto simp: handleMessageSend_def split: sum.splits prod.splits)
    then show ?thesis using auth admit_admitted [OF a(1)] b q by fastforce
  next
    case 3
    then obtain sp w where a: "admit_message sv (beGet be) rq p ''message/stream'' = Inr (sp, w)" "x = StreamCall sp w"
      using assms(3) by (auto simp: handleMessageStream_def split: sum.splits prod.splits if_splits)
    then show ?thesis using auth admit_admitted [OF a(1)] b q by fastforce
  qed
qed


subsection \<open>The backend\<close>

lemma reg_record_lookup:
  "map_of (reg_record i rec reg) j =
     (if j = i \<and> \<not> (trState rec \<noteq> Canceled \<and> (\<exists>cur. map_of reg i = Some cur \<and> trState cur = Canceled)) then Some rec else map_of reg j)"
  by (auto simp: reg_record_def split: option.splits)

lemma clearInFlight_lookup:
  "map_of (clearInFlight i reg) j = (if j = i \<and> (\<exists>cur. map_of reg i = Some cur \<and> \<not> Terminal (trState cur)) then None else map_of reg j)"
  by (auto simp: clearInFlight_def delete_conv' split: option.splits)

lemma classify_Canceled: "classifyTurn c e answer = (Canceled, m, outp) \<Longrightarrow> outp = [] \<and> (\<exists>d. answer = Found d \<and> txState d = TxAborted)"
  by (auto simp: classifyTurn_def mapTranscriptState_def split: option.splits if_splits turn_error.splits store_answer.splits tx_state.splits prod.splits)

lemma classify_Completed: "classifyTurn c e answer = (Completed, m, outp) \<Longrightarrow> e = None \<and> \<not> tcInputRequired c \<and> outp = tcLastText c"
  by (auto simp: classifyTurn_def mapTranscriptState_def split: option.splits if_splits turn_error.splits store_answer.splits tx_state.splits prod.splits)

lemma read_aborted: "store_read readable s i = Found d \<Longrightarrow> txState d = TxAborted \<longleftrightarrow> is_aborted s i"
  by (auto simp: store_read_def is_aborted_def split: if_splits option.splits)

lemma reg_okD:
  assumes "reg_ok reg ab en" "map_of reg i = Some r"
  shows "trState r = Canceled \<Longrightarrow> trOutput r = [] \<and> ab i"
    and "trState r = Completed \<Longrightarrow> \<exists>c. (i, c, None) \<in> set en \<and> \<not> tcInputRequired c \<and> tcLastText c = trOutput r"
  using assms unfolding reg_ok_def by blast+

lemma reg_ok_mono: "reg_ok reg ab en \<Longrightarrow> (\<And>i. ab i \<Longrightarrow> ab' i) \<Longrightarrow> set en \<subseteq> set en' \<Longrightarrow> reg_ok reg ab' en'"
  unfolding reg_ok_def by blast

lemma reg_ok_clear: "reg_ok reg ab en \<Longrightarrow> reg_ok (clearInFlight i reg) ab en"
  unfolding reg_ok_def by (auto simp: clearInFlight_lookup)

lemma reg_ok_record:
  assumes "reg_ok reg ab en" "trState rec = Canceled \<Longrightarrow> trOutput rec = [] \<and> ab i"
    and "trState rec = Completed \<Longrightarrow> \<exists>c. (i, c, None) \<in> set en \<and> \<not> tcInputRequired c \<and> tcLastText c = trOutput rec"
  shows "reg_ok (reg_record i rec reg) ab en"
  unfolding reg_ok_def
proof (intro allI impI)
  fix j r
  assume "map_of (reg_record i rec reg) j = Some r"
  then have "map_of reg j = Some r \<or> j = i \<and> r = rec" by (auto simp: reg_record_lookup split: if_splits)
  then show "(trState r = Canceled \<longrightarrow> trOutput r = [] \<and> ab j) \<and> (trState r = Completed \<longrightarrow> (\<exists>c. (j, c, None) \<in> set en \<and> \<not> tcInputRequired c \<and> tcLastText c = trOutput r))"
    using reg_okD [OF assms(1)] assms(2,3) by blast
qed

text \<open>The end of a turn, by what becomes of the registry.\<close>

lemma run_end_cases:
  assumes "run_end wname i ctx c e answer reg = ((err, info), reg')"
  obtains "err = Some ErrUnavailable" "reg' = clearInFlight i reg"
  | st m outp where "err = None" "classifyTurn c e answer = (st, m, outp)" "Terminal st"
    "reg' = reg_record i \<lparr>trWorkload = wname, trState = st, trMessage = m, trOutput = outp, trContextID = ctx\<rparr> reg"
    "\<exists>r. map_of reg' i = Some r \<and> info = info_of r"
  | st m outp where "err = None" "classifyTurn c e answer = (st, m, outp)" "\<not> Terminal st" "reg' = clearInFlight i reg"
    "map_of reg' i = None \<and> tiState info = st \<or> (\<exists>r. map_of reg' i = Some r \<and> info = info_of r)"
proof (cases "e = Some TurnUnavailable")
  case True
  then show ?thesis using assms that(1) by (auto simp: run_end_def)
next
  case False
  obtain st m outp where cl: "classifyTurn c e answer = (st, m, outp)" by (metis prod_cases3)
  show ?thesis
  proof (cases "Terminal st")
    case True
    then show ?thesis using assms False cl that(2) [OF _ cl True]
      by (auto simp: run_end_def Let_def reg_record_lookup split: option.splits if_splits)
  next
    case nt: False
    then show ?thesis using assms False cl that(3) [OF _ cl nt] by (auto simp: run_end_def Let_def split: option.splits)
  qed
qed

lemma run_end_ok:
  assumes "reg_ok (asReg s) (is_aborted s) (asEnded s)"
    and "run_end wname i ctx c e (store_read readable s i) (asReg s) = ((err, info), reg')"
  shows "reg_ok reg' (is_aborted s) ((i, c, e) # asEnded s)"
proof (rule run_end_cases [OF assms(2)])
  have m: "reg_ok (asReg s) (is_aborted s) ((i, c, e) # asEnded s)" by (rule reg_ok_mono [OF assms(1)]) auto
  show "reg' = clearInFlight i (asReg s) \<Longrightarrow> ?thesis" using reg_ok_clear [OF m] by simp
  then show "reg' = clearInFlight i (asReg s) \<Longrightarrow> ?thesis" .
  fix st msg outp
  assume cl: "classifyTurn c e (store_read readable s i) = (st, msg, outp)"
    and r: "reg' = reg_record i \<lparr>trWorkload = wname, trState = st, trMessage = msg, trOutput = outp, trContextID = ctx\<rparr> (asReg s)"
  show ?thesis unfolding r
    by (rule reg_ok_record [OF m]) (use cl classify_Canceled classify_Completed read_aborted in fastforce)+
qed

lemma run_begin_ok:
  "reg_ok reg ab en \<Longrightarrow> run_begin wname dr mt mc sp reg = (r, reg') \<Longrightarrow> reg_ok reg' ab en"
  by (auto simp: run_begin_def Let_def split: if_splits intro!: reg_ok_record)

lemma cancel_end_canceled:
  assumes "is_aborted s i" "cancel_end wname i reason (store_read readable s i) reg = (info, reg')"
  shows "says_canceled info \<and> (\<exists>m. reg' = reg_record i \<lparr>trWorkload = wname, trState = Canceled, trMessage = m, trOutput = [], trContextID = []\<rparr> reg)"
proof (cases "store_read readable s i")
  case (Found d)
  then have "txState d = TxAborted" using read_aborted assms(1) by blast
  then show ?thesis using assms(2) Found by (auto simp: cancel_end_def mapTranscriptState_def says_canceled_def)
qed (use assms(2) in \<open>auto simp: cancel_end_def says_canceled_def\<close>)

lemma a2a_step_inv:
  assumes "a2a_inv s" "a2a_step wname x s = (a, s')"
  shows "a2a_inv s' \<and> (\<forall>i. is_aborted s i \<longrightarrow> is_aborted s' i)"
proof -
  have reg: "reg_ok (asReg s) (is_aborted s) (asEnded s)" and can: "\<And>i reason. (i, reason) \<in> set (asCancels s) \<Longrightarrow> is_aborted s i"
    using assms(1) by (auto simp: a2a_inv_def)
  have keep: "a2a_inv s' \<and> (\<forall>i. is_aborted s i \<longrightarrow> is_aborted s' i)"
    if "reg_ok (asReg s') (is_aborted s) (asEnded s')" "\<And>i. is_aborted s i \<Longrightarrow> is_aborted s' i" "\<And>i reason. (i, reason) \<in> set (asCancels s') \<Longrightarrow> is_aborted s' i"
    using that reg_ok_mono [OF that(1), of "is_aborted s'"] by (auto simp: a2a_inv_def)
  show ?thesis
  proof (cases x)
    case OpDrain
    then show ?thesis using assms(2) reg can by (intro keep) (auto simp: is_aborted_def)
  next
    case (OpSession i d)
    then show ?thesis using assms(2) reg can by (intro keep) (fastforce simp: is_aborted_def split: if_splits option.splits)+
  next
    case (OpBegin sp mt mc)
    obtain r reg' where b: "run_begin wname (asDraining s) mt mc sp (asReg s) = (r, reg')" by fastforce
    then show ?thesis using OpBegin assms(2) can run_begin_ok [OF reg b] by (intro keep) (auto simp: is_aborted_def)
  next
    case (OpEnd k evs e readable)
    show ?thesis
    proof (cases "k < length (asRuns s)")
      case True
      obtain i ctx where i: "asRuns s ! k = (i, ctx)" by fastforce
      obtain err info reg' where r: "run_end wname i ctx (capture evs) e (store_read readable s i) (asReg s) = ((err, info), reg')" by (metis prod.collapse)
      then show ?thesis using OpEnd assms(2) True i can run_end_ok [OF reg r] by (intro keep) (auto simp: is_aborted_def)
    qed (use OpEnd assms in auto)
  next
    case (OpAbort i reason failed)
    then show ?thesis using assms(2) reg can
      by (intro keep) (fastforce simp: is_aborted_def aborted_detail_def split: if_splits option.splits)+
  next
    case (OpCancel k readable)
    show ?thesis
    proof (cases "k < length (asCancels s)")
      case True
      obtain i reason where i: "asCancels s ! k = (i, reason)" by fastforce
      then have ab: "is_aborted s i" using can True by (metis nth_mem)
      obtain info reg' where c: "cancel_end wname i reason (store_read readable s i) (asReg s) = (info, reg')" by fastforce
      have "reg_ok reg' (is_aborted s) (asEnded s)" using cancel_end_canceled [OF ab c] ab by (auto intro!: reg_ok_record [OF reg])
      then show ?thesis using OpCancel assms(2) True i c can
        by (intro keep) (auto simp: is_aborted_def dest!: in_set_takeD in_set_dropD)
    qed (use OpCancel assms in auto)
  qed
qed


lemma canceled_record: "canceled i s \<Longrightarrow> \<exists>r. map_of (reg_record j rec (asReg s)) i = Some r \<and> trState r = Canceled"
  by (auto simp: canceled_def reg_record_lookup)

lemma canceled_clear: "canceled i s \<Longrightarrow> \<exists>r. map_of (clearInFlight j (asReg s)) i = Some r \<and> trState r = Canceled"
  by (auto simp: canceled_def clearInFlight_lookup)

lemma canceled_info: "a2a_inv s \<Longrightarrow> map_of (asReg s) i = Some r \<Longrightarrow> trState r = Canceled \<Longrightarrow> says_canceled (info_of r)"
  using reg_okD(1) by (auto simp: a2a_inv_def says_canceled_def info_of_def)

text \<open>A record that says canceled stays, and every answer about the task says so.\<close>

lemma canceled_step:
  assumes "a2a_inv s" "a2a_step wname x s = (a, s')" "canceled i s"
  shows "canceled i s' \<and> stays_canceled i a"
proof (cases x)
  case (OpBegin sp mt mc)
  obtain r reg' where b: "run_begin wname (asDraining s) mt mc sp (asReg s) = (r, reg')" by fastforce
  then have "\<exists>r. map_of reg' i = Some r \<and> trState r = Canceled"
    using assms(3) canceled_record [OF assms(3)] by (auto simp: run_begin_def Let_def canceled_def split: if_splits)
  then show ?thesis using OpBegin assms(2) b by (auto simp: canceled_def stays_canceled_def)
next
  case (OpEnd k evs e readable)
  show ?thesis
  proof (cases "k < length (asRuns s)")
    case True
    obtain j ctx where j: "asRuns s ! k = (j, ctx)" by fastforce
    obtain err info reg' where r: "run_end wname j ctx (capture evs) e (store_read readable s j) (asReg s) = ((err, info), reg')" by (metis prod.collapse)
    have a: "a = AEnded j err info" "asReg s' = reg'" using OpEnd assms(2) True j r by auto
    have can: "\<exists>r. map_of reg' i = Some r \<and> trState r = Canceled"
      by (rule run_end_cases [OF r]) (use canceled_record [OF assms(3)] canceled_clear [OF assms(3)] in auto)
    then have c': "canceled i s'" using a by (simp add: canceled_def)
    have "says_canceled info" if "j = i" "err = None"
    proof -
      have "\<exists>r. map_of reg' i = Some r \<and> info = info_of r"
        by (rule run_end_cases [OF r]) (use can that in auto)
      then show ?thesis using can canceled_info [of s' i] a2a_step_inv [OF assms(1,2)] a(2) by auto
    qed
    then show ?thesis using c' a(1) by (auto simp: stays_canceled_def split: option.split)
  qed (use OpEnd assms in \<open>auto simp: stays_canceled_def\<close>)
next
  case (OpCancel k readable)
  show ?thesis
  proof (cases "k < length (asCancels s)")
    case True
    obtain j reason where j: "asCancels s ! k = (j, reason)" by fastforce
    then have ab: "is_aborted s j" using assms(1) True nth_mem by (fastforce simp: a2a_inv_def)
    obtain info reg' where c: "cancel_end wname j reason (store_read readable s j) (asReg s) = (info, reg')" by fastforce
    then show ?thesis using cancel_end_canceled [OF ab c] canceled_record [OF assms(3)] OpCancel assms(2) True j
      by (auto simp: canceled_def stays_canceled_def)
  qed (use OpCancel assms in \<open>auto simp: stays_canceled_def\<close>)
qed (use assms in \<open>auto simp: canceled_def stays_canceled_def split: if_splits\<close>)

lemma canceled_run:
  "a2a_inv s \<Longrightarrow> canceled i s \<Longrightarrow> a2a_run wname xs s = (as, s') \<Longrightarrow> a2a_inv s' \<and> canceled i s' \<and> list_all (stays_canceled i) as"
proof (induction xs arbitrary: s as)
  case (Cons x xs)
  obtain a s1 as' where h: "a2a_step wname x s = (a, s1)" "a2a_run wname xs s1 = (as', s')" "as = a # as'"
    using Cons.prems(3) by (auto split: prod.splits)
  show ?case using Cons.IH [OF _ _ h(2)] a2a_step_inv [OF Cons.prems(1) h(1)] canceled_step [OF Cons.prems(1) h(1) Cons.prems(2)] h(3) by auto
qed simp

lemma cancel_answer:
  assumes "a2a_inv s" "a2a_step wname x s = (ACanceled (Inr info) i, s')"
  shows "canceled i s' \<and> says_canceled info"
proof (cases x)
  case (OpCancel k readable)
  then have k: "k < length (asCancels s)" using assms(2) by (auto split: if_splits)
  obtain reason where j: "asCancels s ! k = (i, reason)" using OpCancel assms(2) k by (auto split: prod.splits)
  then have ab: "is_aborted s i" using assms(1) k nth_mem by (fastforce simp: a2a_inv_def)
  obtain info' reg' where c: "cancel_end wname i reason (store_read readable s i) (asReg s) = (info', reg')" by fastforce
  then show ?thesis using cancel_end_canceled [OF ab c] OpCancel assms(2) k j by (auto simp: canceled_def reg_record_lookup)
qed (use assms(2) in \<open>auto split: if_splits prod.splits\<close>)

lemma a2a_run_inv: "a2a_inv s \<Longrightarrow> a2a_run wname xs s = (as, s') \<Longrightarrow> a2a_inv s'"
proof (induction xs arbitrary: s as)
  case (Cons x xs)
  then show ?case using a2a_step_inv by (fastforce split: prod.splits)
qed simp

lemma a2a_start_inv: "a2a_inv (a2a_start store)"
  by (simp add: a2a_inv_def a2a_start_def reg_ok_def)

text \<open>
  Cancel wins: over any sessions and any interleaving of messages, turns that end and cancels, once a cancel of a task has
  answered, its answer says canceled, every later answer about the task says canceled without the output of a turn, and so does
  a query, whatever the store then has; and a task that a query calls completed is one of which a turn ended without an error
  and without a question, with that output.
\<close>

theorem cancel_wins:
  assumes "a2a_run wname xs (a2a_start store) = (as, s)" "a2a_step wname x s = (ACanceled (Inr info) i, s1)" "a2a_run wname ys s1 = (bs, s2)"
    and "isA2ATaskID i"
  shows "says_canceled info \<and> list_all (stays_canceled i) bs \<and> (\<exists>q. GetTask wname (asReg s2) answer i = Inr q \<and> says_canceled q) \<and>
    (\<forall>j q. GetTask wname (asReg s2) answer j = Inr q \<longrightarrow> tiState q = Completed \<longrightarrow>
       (\<exists>c. (j, c, None) \<in> set (asEnded s2) \<and> \<not> tcInputRequired c \<and> tcLastText c = tiOutput q))"
proof -
  have inv: "a2a_inv s" by (rule a2a_run_inv [OF a2a_start_inv assms(1)])
  note c = cancel_answer [OF inv assms(2)]
  have inv1: "a2a_inv s1" using a2a_step_inv [OF inv assms(2)] by simp
  note r = canceled_run [OF inv1 _ assms(3), of i]
  then obtain rec where rec: "map_of (asReg s2) i = Some rec" "trState rec = Canceled" using c by (auto simp: canceled_def)
  have "\<exists>q. GetTask wname (asReg s2) answer i = Inr q \<and> says_canceled q"
    using canceled_info [of s2 i rec] r c rec assms(4) by (simp add: GetTask_def)
  moreover have "\<exists>c. (j, c, None) \<in> set (asEnded s2) \<and> \<not> tcInputRequired c \<and> tcLastText c = tiOutput q"
    if "GetTask wname (asReg s2) answer j = Inr q" "tiState q = Completed" for j q
  proof (cases "map_of (asReg s2) j")
    case None
    then show ?thesis using that
      by (auto simp: GetTask_def mapTranscriptState_def split: if_splits store_answer.splits tx_state.splits prod.splits)
  next
    case (Some rec')
    then show ?thesis using that r c reg_okD(2) [of "asReg s2" "is_aborted s2" "asEnded s2" j rec']
      by (auto simp: GetTask_def a2a_inv_def info_of_def split: if_splits)
  qed
  ultimately show ?thesis using r c by blast
qed


lemma demo_race_run:
  "case a2a_step ''w'' (OpCancel 0 True) (snd (a2a_run ''w'' demo_race (a2a_start []))) of
     (ACanceled (Inr info) i, s) \<Rightarrow> i = ''a2a-1'' \<and> (case a2a_step ''w'' (OpEnd 0 demo_said None True) s of (AEnded j None q, t) \<Rightarrow> j = ''a2a-1'' | _ \<Rightarrow> False)
   | _ \<Rightarrow> False"
  by code_simp

theorem cancel_wins_witness:
  "\<exists>info s1 q. a2a_step ''w'' (OpCancel 0 True) (snd (a2a_run ''w'' demo_race (a2a_start []))) = (ACanceled (Inr info) ''a2a-1'', s1) \<and>
     says_canceled info \<and> GetTask ''w'' (asReg (snd (a2a_run ''w'' [OpEnd 0 demo_said None True] s1))) Missing ''a2a-1'' = Inr q \<and> says_canceled q"
proof -
  obtain as s where r: "a2a_run ''w'' demo_race (a2a_start []) = (as, s)" by fastforce
  obtain info s1 where x: "a2a_step ''w'' (OpCancel 0 True) s = (ACanceled (Inr info) ''a2a-1'', s1)"
    using demo_race_run r by (auto split: prod.splits a2a_answer.splits sum.splits)
  obtain bs s2 where y: "a2a_run ''w'' [OpEnd 0 demo_said None True] s1 = (bs, s2)" by fastforce
  have "isA2ATaskID ''a2a-1''" by code_simp
  from cancel_wins [OF r x y this, of Missing] show ?thesis using r x y by auto
qed

lemma progress_frames: "f \<in> set (progress_from i ctx n evs) \<Longrightarrow> \<not> final_frame f \<and> frame_task f = i"
  by (induction evs arbitrary: n) (auto simp: emitStreamProgress_def split: option.splits if_splits)

text \<open>
  Every stream that opens is closed: a message that is streamed is answered with an error, or with a stream that begins with the
  task at work, whose frames all carry the identifier of the one task, and of which the last frame and no other is the final one.
\<close>

theorem stream_closed:
  assumes s: "StreamMessage wname draining mt mc evs te answer reg sp = ((emitted, i, e, info), reg')"
  shows "(\<exists>code wait. stream_reply emitted i e info = RpcError code wait \<and> e \<noteq> None \<and> emitted = []) \<or>
    (\<exists>ctx ms l. stream_reply emitted i e info = EventStream (TaskFrame i ctx Working # ms @ [l]) \<and> final_frame l \<and> filter final_frame ms = [] \<and>
       list_all (\<lambda>f. frame_task f = i) (ms @ [l]))"
proof (cases "run_begin wname draining mt mc sp reg")
  case (Pair r reg1)
  show ?thesis
  proof (cases r)
    case (Inl err)
    then have "emitted = []" "e = Some err" using s Pair by (auto simp: StreamMessage_def)
    then show ?thesis by (cases err) (auto simp: stream_reply_def)
  next
    case (Inr ic)
    then obtain ctx where em: "emitted = TaskFrame i ctx Working # progress_from i ctx 0 evs"
      using s Pair by (auto simp: StreamMessage_def run_frames_def split: prod.splits)
    have p: "filter final_frame (progress_from i ctx 0 evs) = []" "list_all (\<lambda>f. frame_task f = i) (progress_from i ctx 0 evs)"
      using progress_frames by (auto simp: filter_empty_conv list_all_iff)
    show ?thesis
    proof (cases e)
      case None
      define art where "art = (if tiOutput info = [] then [] else [ArtifactFrame i (tiContextID info) (tiOutput info)])"
      have "\<exists>l. stream_reply emitted i e info = EventStream (TaskFrame i ctx Working # (progress_from i ctx 0 evs @ art) @ [l]) \<and> final_frame l \<and> frame_task l = i"
        using None em by (auto simp: stream_reply_def closing_frames_def art_def)
      moreover have "filter final_frame art = []" "list_all (\<lambda>f. frame_task f = i) art" by (auto simp: art_def)
      ultimately show ?thesis using p by fastforce
    next
      case (Some err)
      then show ?thesis using em p by (auto simp: stream_reply_def)
    qed
  qed
qed

theorem stream_closed_witness:
  "\<exists>ctx ms l. (case fst (StreamMessage ''w'' False ''a2a-1'' ''ctx-1'' demo_said None Missing [] demo_message) of (em, i, e, info) \<Rightarrow> stream_reply em i e info) =
     EventStream (TaskFrame ''a2a-1'' ctx Working # ms @ [l]) \<and> final_frame l \<and> filter final_frame ms = []"
proof -
  obtain em i e info reg' where s: "StreamMessage ''w'' False ''a2a-1'' ''ctx-1'' demo_said None Missing [] demo_message = ((em, i, e, info), reg')"
    by (metis prod.collapse)
  have "fst (fst (StreamMessage ''w'' False ''a2a-1'' ''ctx-1'' demo_said None Missing [] demo_message)) \<noteq> []"
    "fst (snd (fst (StreamMessage ''w'' False ''a2a-1'' ''ctx-1'' demo_said None Missing [] demo_message))) = ''a2a-1''" by code_simp+
  then show ?thesis using stream_closed [OF s] s by auto
qed

lemma demo_cancel_calls: "CancelCall ''a2a-1'' \<in> set (snd (handleRPC demo_server demo_backend True ''Bearer t'' (Some demo_cancel)))"
  by code_simp

theorem a2a_call_authorized_witness:
  "\<exists>p w sk. static_Validate [(''t'', \<lparr>prSubject = ''s'', prScopes = [''run''], prTenant = []\<rparr>)] (drop 7 ''Bearer t'') = Inr p \<and>
     byWork demo_server w = Some sk \<and> list_all (HasScope (Some p)) (skScopes sk)"
proof -
  obtain r calls where h: "handleRPC demo_server demo_backend True ''Bearer t'' (Some demo_cancel) = (r, calls)" by fastforce
  have "svValidator demo_server = Some (static_Validate [(''t'', \<lparr>prSubject = ''s'', prScopes = [''run''], prTenant = []\<rparr>)])" by (simp add: demo_server_def)
  from a2a_call_authorized [OF h this, of "CancelCall ''a2a-1''"] show ?thesis using demo_cancel_calls h by fastforce
qed

text \<open>The record of a cancel has no context: the answer of the turn it raced does not name the context the task was begun with.\<close>

theorem canceled_task_loses_context:
  "case a2a_step ''w'' (OpEnd 0 demo_said None True) (snd (a2a_step ''w'' (OpCancel 0 True) (snd (a2a_run ''w'' demo_race (a2a_start []))))) of
     (AEnded i None info, s) \<Rightarrow> asRuns (snd (a2a_run ''w'' demo_race (a2a_start []))) = [(i, ''ctx-1'')] \<and> tiContextID info = [] | _ \<Rightarrow> False"
  by code_simp

end
