(* ===== verification/AGUI_Runs.thy ===== *)
theory AGUI_Runs
  imports A2A_Tasks Workload "HOL-Library.Char_ord" "HOL-Library.List_Lexorder"
begin

text \<open>
  The AG-UI endpoint: the server that admits a run and closes its stream (\<^verbatim>\<open>src/internal/agui/server.go\<close>), and the backend that
  runs it as a turn and turns the events of the turn into frames (\<^verbatim>\<open>src/internal/cli/agui.go\<close>).

  The digest of a caller, minted identifiers, the limiter and the validator are arguments, and so are the events and the error of
  the turn and the answers of the session store. A value of the session's state is its JSON text, \<open>None\<close> if it has none. A
  stream whose client is gone delivers a beginning of its frames.
\<close>

section \<open>Frames\<close>

datatype aframe =
    RunStarted string string
  | StateSnapshot string
  | StateDelta "(string \<times> string) list"
  | StepStarted string
  | StepFinished string
  | TextStart string
  | TextContent string string
  | TextEnd string
  | ToolStart string string string
  | ToolArgs string string
  | ToolEnd string
  | ToolResult string string
  | ReasoningStart
  | ReasoningMessageStart string
  | ReasoningMessageContent string string
  | ReasoningMessageEnd string
  | ReasoningEnd
  | RunFinished string string string
  | RunInterrupted string string "(string \<times> string) list"
  | RunError string

text \<open>The JSON pointer of a key.\<close>

fun pointer_escape :: "string \<Rightarrow> string" where
  "pointer_escape [] = []"
| "pointer_escape (c # s) = (if c = CHR ''~'' then ''~0'' else if c = CHR ''/'' then ''~1'' else [c]) @ pointer_escape s"

definition StatePointer :: "string \<Rightarrow> string" where "StatePointer k = ''/'' @ pointer_escape k"

section \<open>Events of a turn\<close>

record agui_part =
  apThought :: bool
  apText :: string
  apCall :: "(string \<times> string \<times> string option) option"
  apResponse :: "(string \<times> string option) option"

record agui_event =
  aePartial :: bool
  aeRequested :: bool
  aeLongRunning :: nat
  aeDelta :: "(string, string option) gomap"
  aeContent :: "(bool \<times> agui_part option list) option"
  aeAuthor :: string

definition part_text :: "agui_part option \<Rightarrow> string" where
  "part_text p = (case p of None \<Rightarrow> [] | Some q \<Rightarrow> if apThought q then [] else apText q)"

definition part_thought :: "agui_part option \<Rightarrow> string" where
  "part_thought p = (case p of None \<Rightarrow> [] | Some q \<Rightarrow> if apThought q then apText q else [])"

section \<open>The emitter\<close>

record emitter =
  emSeq :: nat
  emProjection :: "string list"
  emReasoning :: bool
  emStep :: string
  emLastText :: string
  emInterrupted :: bool
  emOut :: "aframe list"

definition emit :: "aframe list \<Rightarrow> emitter \<Rightarrow> emitter" where
  "emit fs e = e\<lparr>emOut := emOut e @ fs\<rparr>"

definition id_of :: "string \<Rightarrow> nat \<Rightarrow> string" where
  "id_of kind n = ''agui-'' @ kind @ ''-'' @ itoa (int n)"

definition closeStep :: "emitter \<Rightarrow> emitter" where
  "closeStep e = (if emStep e = [] then e else (emit [StepFinished (emStep e)] e)\<lparr>emStep := []\<rparr>)"

definition openStep :: "string \<Rightarrow> emitter \<Rightarrow> emitter" where
  "openStep author e =
     (if author = [] \<or> author = emStep e then e else (emit [StepStarted author] (closeStep e))\<lparr>emStep := author\<rparr>)"

definition emitReasoning :: "agui_part option list \<Rightarrow> emitter \<Rightarrow> emitter" where
  "emitReasoning parts e =
     (if \<not> emReasoning e then e
      else
        (let t = concat (map part_thought parts); i = id_of ''reasoning'' (Suc (emSeq e))
         in if t = [] then e
            else (emit [ReasoningStart, ReasoningMessageStart i, ReasoningMessageContent i t, ReasoningMessageEnd i, ReasoningEnd] e)\<lparr>emSeq := Suc (emSeq e)\<rparr>))"

definition delta_ops :: "string list \<Rightarrow> (string, string option) gomap \<Rightarrow> (string \<times> string) list" where
  "delta_ops projection delta =
     concat (map (\<lambda>k. case map_of delta k of Some (Some v) \<Rightarrow> [(StatePointer k, v)] | _ \<Rightarrow> [])
       (sort (filter (\<lambda>k. k \<in> set projection) (map fst delta))))"

definition emitStateDelta :: "(string, string option) gomap \<Rightarrow> emitter \<Rightarrow> emitter" where
  "emitStateDelta delta e =
     (if emProjection e = [] \<or> delta = [] then e
      else (let ops = delta_ops (emProjection e) delta in if ops = [] then e else emit [StateDelta ops] e))"

definition emitText :: "agui_part option list \<Rightarrow> emitter \<Rightarrow> string \<times> emitter" where
  "emitText parts e =
     (let t = concat (map part_text parts); i = id_of ''msg'' (Suc (emSeq e))
      in if t = [] then ([], e)
         else (i, (emit [TextStart i, TextContent i t, TextEnd i] e)\<lparr>emSeq := Suc (emSeq e), emLastText := t\<rparr>))"

definition emitToolCall :: "string \<times> string \<times> string option \<Rightarrow> string \<Rightarrow> emitter \<Rightarrow> emitter" where
  "emitToolCall fc parent e =
     (case fc of (fid, name, args) \<Rightarrow>
        (let i = (if fid = [] then id_of ''tool'' (Suc (emSeq e)) else fid);
             e' = (if fid = [] then e\<lparr>emSeq := Suc (emSeq e)\<rparr> else e)
         in emit ([ToolStart i name parent] @ (case args of None \<Rightarrow> [] | Some a \<Rightarrow> [ToolArgs i a]) @ [ToolEnd i]) e'))"

definition emitToolResult :: "string \<times> string option \<Rightarrow> emitter \<Rightarrow> emitter" where
  "emitToolResult fr e = (case fr of (fid, content) \<Rightarrow> emit [ToolResult fid (case content of None \<Rightarrow> ''null'' | Some c \<Rightarrow> c)] e)"

definition emit_part :: "bool \<Rightarrow> string \<Rightarrow> emitter \<Rightarrow> agui_part option \<Rightarrow> emitter" where
  "emit_part model parent e p =
     (case p of
        None \<Rightarrow> e
      | Some q \<Rightarrow>
          (let e1 = (case (model, apCall q) of (True, Some fc) \<Rightarrow> emitToolCall fc parent e | _ \<Rightarrow> e)
           in case apResponse q of Some fr \<Rightarrow> emitToolResult fr e1 | None \<Rightarrow> e1))"

definition emit_content :: "string \<Rightarrow> bool \<Rightarrow> agui_part option list \<Rightarrow> emitter \<Rightarrow> emitter" where
  "emit_content author model parts e =
     (let (msgID, e1) = (if model then emitText parts (emitReasoning parts (openStep author e)) else ([], e))
      in foldl (emit_part model msgID) e1 parts)"

definition agui_onEvent :: "emitter \<Rightarrow> agui_event option \<Rightarrow> emitter" where
  "agui_onEvent e ev =
     (case ev of
        None \<Rightarrow> e
      | Some v \<Rightarrow>
          if aePartial v then e
          else
            (let e1 = (if aeRequested v \<or> 0 < aeLongRunning v then e\<lparr>emInterrupted := True\<rparr> else e);
                 e2 = emitStateDelta (aeDelta v) e1
             in case aeContent v of None \<Rightarrow> e2 | Some (model, parts) \<Rightarrow> emit_content (aeAuthor v) model parts e2))"

section \<open>Sessions and the queue of a thread\<close>

definition callerTag :: "(string \<Rightarrow> string) \<Rightarrow> principal option \<Rightarrow> string" where
  "callerTag digest p =
     (case p of
        None \<Rightarrow> []
      | Some q \<Rightarrow> if prSubject q = [] \<and> prTenant q = [] then [] else digest (prTenant q @ [CHR 0x00] @ prSubject q) @ ''-'')"

definition sessionIDFor :: "(string \<Rightarrow> string) \<Rightarrow> string \<Rightarrow> string \<Rightarrow> string \<Rightarrow> string \<Rightarrow> principal option \<Rightarrow> string" where
  "sessionIDFor digest minted model threadID runID p =
     (if model = ''per_run'' then
        (if runID \<noteq> [] then ''agui-run-'' @ callerTag digest p @ runID else ''agui-'' @ minted)
      else (if threadID \<noteq> [] then ''agui-thread-'' @ callerTag digest p @ threadID else ''agui-'' @ minted))"

definition isAGUISessionID :: "string \<Rightarrow> bool" where
  "isAGUISessionID i \<longleftrightarrow> HasPrefix i ''agui-'' \<and> \<not> IsReservedSessionID i"

type_synonym run_queue = "(string, int) gomap"

definition admit :: "string \<Rightarrow> int \<Rightarrow> run_queue \<Rightarrow> bool \<times> run_queue" where
  "admit sid limit q =
     (if limit \<le> mget 0 q sid then (False, q) else (True, AList.update sid (mget 0 q sid + 1) q))"

definition release :: "string \<Rightarrow> run_queue \<Rightarrow> run_queue" where
  "release sid q = (if mget 0 q sid \<le> 1 then AList.delete sid q else AList.update sid (mget 0 q sid - 1) q)"

definition runQueueLimit :: "agui_decl \<Rightarrow> int" where "runQueueLimit a = RunQueueDepth a + 1"

section \<open>A run\<close>

record run_result =
  rrText :: string
  rrAborted :: bool
  rrInterrupted :: bool
  rrInterrupts :: "(string \<times> string) list"

datatype run_error = RunUnavailable | RunQueueFull | RunNotResumable | RunInternal

text \<open>A session as the store has it, with the questions that wait: identifier and message.\<close>

record agui_detail =
  adState :: tx_state
  adPending :: "(string \<times> string) list"

definition agui_result :: "string \<Rightarrow> run_result" where
  "agui_result t = \<lparr>rrText = t, rrAborted = False, rrInterrupted = False, rrInterrupts = []\<rparr>"

definition aborted_result :: run_result where "aborted_result = (agui_result [])\<lparr>rrAborted := True\<rparr>"

definition pendingInterrupts :: "agui_detail option \<Rightarrow> (string \<times> string) list option" where
  "pendingInterrupts d =
     (case d of None \<Rightarrow> None | Some x \<Rightarrow> if adState x \<noteq> TxPaused \<or> adPending x = [] then None else Some (adPending x))"

definition dispositionFromStore :: "agui_detail option \<Rightarrow> run_result option" where
  "dispositionFromStore d =
     (case d of
        None \<Rightarrow> None
      | Some x \<Rightarrow>
          if adState x = TxAborted then Some aborted_result
          else if adState x = TxPaused \<and> adPending x \<noteq> [] then Some ((agui_result [])\<lparr>rrInterrupted := True, rrInterrupts := adPending x\<rparr>)
          else if adState x = TxPaused then Some aborted_result
          else None)"

definition classifyRun :: "emitter \<Rightarrow> turn_error option \<Rightarrow> agui_detail option \<Rightarrow> run_error + run_result" where
  "classifyRun e err d =
     (case err of
        None \<Rightarrow>
          (case pendingInterrupts d of
             Some its \<Rightarrow> Inr \<lparr>rrText = emLastText e, rrAborted = False, rrInterrupted = True, rrInterrupts = its\<rparr>
           | None \<Rightarrow> if emInterrupted e then Inl RunInternal else Inr (agui_result (emLastText e)))
      | Some TurnConflict \<Rightarrow> (case dispositionFromStore d of Some r \<Rightarrow> Inr r | None \<Rightarrow> Inr aborted_result)
      | Some er \<Rightarrow>
          if (case d of Some x \<Rightarrow> adState x = TxAborted | None \<Rightarrow> False) then Inr aborted_result
          else Inl (if er = TurnUnavailable then RunUnavailable else RunInternal))"

record run_input =
  riThreadID :: string
  riRunID :: string
  riParentRunID :: string
  riText :: string
  riState :: string
  riResume :: "(string \<times> string) list"
  riPrincipal :: "principal option"

text \<open>The answers of a resume that a waiting question of the session takes.\<close>

definition resume_parts :: "agui_detail \<Rightarrow> (string \<times> string) list \<Rightarrow> (string \<times> string) list" where
  "resume_parts d entries = filter (\<lambda>(i, a). i \<noteq> [] \<and> i \<in> fst ` set (adPending d)) entries"

definition buildResumeMessage :: "agui_detail option \<Rightarrow> (string \<times> string) list \<Rightarrow> (run_error + (string \<times> string) list)" where
  "buildResumeMessage d entries =
     (case d of
        None \<Rightarrow> Inl RunNotResumable
      | Some x \<Rightarrow> if resume_parts x entries = [] then Inl RunNotResumable else Inr (resume_parts x entries))"

definition run_session :: "(string \<Rightarrow> string) \<Rightarrow> string \<Rightarrow> string \<Rightarrow> run_input \<Rightarrow> string" where
  "run_session digest minted model inp =
     sessionIDFor digest minted model (riThreadID inp)
       (if riResume inp \<noteq> [] \<and> riParentRunID inp \<noteq> [] then riParentRunID inp else riRunID inp) (riPrincipal inp)"

definition new_emitter :: "agui_decl \<Rightarrow> emitter" where
  "new_emitter a =
     \<lparr>emSeq = 0, emProjection = agStateProjection a, emReasoning = agEmitReasoning a, emStep = [], emLastText = [], emInterrupted = False, emOut = []\<rparr>"

text \<open>A run up to its first frame: its session and a place in the queue, or a refusal.\<close>

definition run_admit ::
  "(string \<Rightarrow> string) \<Rightarrow> string \<Rightarrow> string \<Rightarrow> int \<Rightarrow> bool \<Rightarrow> (string \<Rightarrow> agui_detail option) \<Rightarrow> run_input \<Rightarrow> run_queue \<Rightarrow> (run_error + string) \<times> run_queue" where
  "run_admit digest minted model limit draining store inp q =
     (let sid = run_session digest minted model inp
      in if draining then (Inl RunUnavailable, q)
         else if \<not> isAGUISessionID sid then (Inl RunInternal, q)
         else case admit sid limit q of
                (False, q1) \<Rightarrow> (Inl RunQueueFull, q1)
              | (True, q1) \<Rightarrow>
                  if riResume inp \<noteq> [] \<and> (case buildResumeMessage (store sid) (riResume inp) of Inl _ \<Rightarrow> True | Inr _ \<Rightarrow> False)
                  then (Inl RunNotResumable, release sid q1)
                  else (Inr sid, q1))"

definition run_body :: "run_input \<Rightarrow> emitter \<Rightarrow> agui_event option list \<Rightarrow> emitter" where
  "run_body inp e evs =
     closeStep (foldl agui_onEvent
       (emit [RunStarted (riThreadID inp) (riRunID inp), StateSnapshot (if riState inp = [] then ''{}'' else riState inp)] e) evs)"

text \<open>The frame that closes a stream, and the frames of a run that was admitted.\<close>

definition closing_frame :: "run_input \<Rightarrow> run_error + run_result \<Rightarrow> aframe" where
  "closing_frame inp r =
     (case r of
        Inl _ \<Rightarrow> RunError ''internal''
      | Inr res \<Rightarrow>
          if rrAborted res then RunError ''aborted''
          else if rrInterrupted res then RunInterrupted (riThreadID inp) (riRunID inp) (rrInterrupts res)
          else RunFinished (riThreadID inp) (riRunID inp) (rrText res))"

definition run_stream :: "agui_decl \<Rightarrow> run_input \<Rightarrow> agui_event option list \<Rightarrow> turn_error option \<Rightarrow> agui_detail option \<Rightarrow> aframe list" where
  "run_stream a inp evs err d =
     (let e' = run_body inp (new_emitter a) evs in emOut e' @ [closing_frame inp (classifyRun e' err d)])"

text \<open>The writes of a stream fail from some frame on.\<close>

definition delivered :: "nat \<Rightarrow> aframe list \<Rightarrow> aframe list" where
  "delivered writable fs = take writable fs"


section \<open>The server\<close>

record exposed_workload =
  ewName :: string
  ewPath :: string
  ewScopes :: "string list"

record run_request =
  rqAuthorization :: string
  rqBody :: "(string \<times> (string \<times> string) list \<times> (string \<times> string) list) option"

definition lastUserText :: "(string \<times> string) list \<Rightarrow> string" where
  "lastUserText msgs = (case find (\<lambda>(r, c). r = ''user'' \<and> c \<noteq> []) (rev msgs) of None \<Rightarrow> [] | Some (r, c) \<Rightarrow> c)"

text \<open>The messages and the resume of a body; whether the run may go on, and for whom.\<close>

definition handleRun_admit ::
  "(string \<Rightarrow> token_error + principal) option \<Rightarrow> (rate_request \<Rightarrow> bool \<times> int) option \<Rightarrow> exposed_workload \<Rightarrow> bool \<Rightarrow> run_request \<Rightarrow> nat + (principal option \<times> string)" where
  "handleRun_admit validator limiter ew flushes rq =
     (case (case validator of
              None \<Rightarrow> Inr None
            | Some check \<Rightarrow>
                if \<not> HasPrefix (rqAuthorization rq) ''Bearer '' then Inl 401
                else case check (drop 7 (rqAuthorization rq)) of
                       Inl ErrInvalidToken \<Rightarrow> Inl 401 | Inl ValidatorFailed \<Rightarrow> Inl 500 | Inr p \<Rightarrow> Inr (Some p)) of
        Inl code \<Rightarrow> Inl code
      | Inr p \<Rightarrow>
          (case rqBody rq of
             None \<Rightarrow> Inl 400
           | Some (tid, msgs, res) \<Rightarrow>
               if lastUserText msgs = [] \<and> res = [] then Inl 400
               else if validator \<noteq> None \<and> \<not> list_all (HasScope p) (ewScopes ew) then Inl 403
               else if (case limiter of
                          None \<Rightarrow> False
                        | Some allow \<Rightarrow> \<not> fst (allow \<lparr>rrSubject = (case p of None \<Rightarrow> [] | Some q \<Rightarrow> prSubject q),
                            rrTenant = (case p of None \<Rightarrow> [] | Some q \<Rightarrow> prTenant q), rrWorkload = ewName ew, rrMethod = ''run''\<rparr>)) then Inl 429
               else if \<not> flushes then Inl 500
               else Inr (p, lastUserText msgs)))"

fun error_status :: "run_error \<Rightarrow> nat" where
  "error_status RunUnavailable = 503"
| "error_status RunQueueFull = 409"
| "error_status RunNotResumable = 409"
| "error_status RunInternal = 500"

section \<open>What is claimed\<close>

text \<open>Where a stream is: before its start, between frames with a step open or none, inside a message, or closed.\<close>

datatype cstate =
    CBefore | CRun string | CText string string bool | CTool string string bool
  | CReason nat string string | CDone

definition closing :: "string \<Rightarrow> cstate option" where "closing st = (if st = [] then Some CDone else None)"

definition chk_run :: "string \<Rightarrow> aframe \<Rightarrow> cstate option" where
  "chk_run st f =
     (case f of
        StateSnapshot v \<Rightarrow> Some (CRun st)
      | StateDelta ops \<Rightarrow> Some (CRun st)
      | StepStarted n \<Rightarrow> if st = [] \<and> n \<noteq> [] then Some (CRun n) else None
      | StepFinished n \<Rightarrow> if n = st \<and> st \<noteq> [] then Some (CRun []) else None
      | TextStart i \<Rightarrow> Some (CText i st False)
      | ToolStart i n par \<Rightarrow> Some (CTool i st False)
      | ToolResult i c \<Rightarrow> Some (CRun st)
      | ReasoningStart \<Rightarrow> Some (CReason 0 [] st)
      | RunFinished t r res \<Rightarrow> closing st
      | RunInterrupted t r its \<Rightarrow> closing st
      | RunError c \<Rightarrow> closing st
      | _ \<Rightarrow> None)"

definition chk :: "cstate \<Rightarrow> aframe \<Rightarrow> cstate option" where
  "chk s f =
     (case s of
        CBefore \<Rightarrow> (case f of RunStarted t r \<Rightarrow> Some (CRun []) | _ \<Rightarrow> None)
      | CRun st \<Rightarrow> chk_run st f
      | CText i st b \<Rightarrow>
          (case f of
             TextContent j t \<Rightarrow> if \<not> b \<and> j = i \<and> t \<noteq> [] then Some (CText i st True) else None
           | TextEnd j \<Rightarrow> if b \<and> j = i then Some (CRun st) else None
           | _ \<Rightarrow> None)
      | CTool i st b \<Rightarrow>
          (case f of
             ToolArgs j x \<Rightarrow> if \<not> b \<and> j = i then Some (CTool i st True) else None
           | ToolEnd j \<Rightarrow> if j = i then Some (CRun st) else None
           | _ \<Rightarrow> None)
      | CReason k i st \<Rightarrow>
          (case f of
             ReasoningMessageStart j \<Rightarrow> if k = 0 then Some (CReason 1 j st) else None
           | ReasoningMessageContent j t \<Rightarrow> if k = 1 \<and> j = i \<and> t \<noteq> [] then Some (CReason 2 i st) else None
           | ReasoningMessageEnd j \<Rightarrow> if k = 2 \<and> j = i then Some (CReason 3 i st) else None
           | ReasoningEnd \<Rightarrow> if k = 3 then Some (CRun st) else None
           | _ \<Rightarrow> None)
      | CDone \<Rightarrow> None)"

fun checks :: "cstate \<Rightarrow> aframe list \<Rightarrow> cstate option" where
  "checks s [] = Some s"
| "checks s (f # fs) = (case chk s f of None \<Rightarrow> None | Some t \<Rightarrow> checks t fs)"

text \<open>An event without what the bundle does not publish: chunks, thoughts, and keys of the state that are not named.\<close>

definition hide_thought :: "bool \<Rightarrow> agui_part option \<Rightarrow> agui_part option" where
  "hide_thought shown p = map_option (\<lambda>q. if apThought q \<and> \<not> shown then q\<lparr>apText := []\<rparr> else q) p"

definition published :: "agui_decl \<Rightarrow> agui_event option \<Rightarrow> agui_event option" where
  "published a ev =
     (case ev of
        None \<Rightarrow> None
      | Some v \<Rightarrow>
          if aePartial v then None
          else Some (v\<lparr>aeDelta := filter (\<lambda>kv. fst kv \<in> set (agStateProjection a)) (aeDelta v),
                      aeContent := map_option (\<lambda>(model, parts). (model, map (hide_thought (agEmitReasoning a)) parts)) (aeContent v)\<rparr>))"

text \<open>Runs that hold a place in the queue of their session.\<close>

datatype queue_op = QAdmit string | QDone nat

fun queue_step :: "int \<Rightarrow> run_queue \<times> string list \<Rightarrow> queue_op \<Rightarrow> run_queue \<times> string list" where
  "queue_step limit (q, runs) (QAdmit sid) = (case admit sid limit q of (True, q') \<Rightarrow> (q', sid # runs) | (False, q') \<Rightarrow> (q', runs))"
| "queue_step limit (q, runs) (QDone k) =
     (if k < length runs then (release (runs ! k) q, take k runs @ drop (Suc k) runs) else (q, runs))"

definition queue_ok :: "int \<Rightarrow> run_queue \<times> string list \<Rightarrow> bool" where
  "queue_ok limit s \<longleftrightarrow> (\<forall>sid. map_of (fst s) sid = (if count_list (snd s) sid = 0 then None else Some (int (count_list (snd s) sid))) \<and>
     int (count_list (snd s) sid) \<le> max 0 limit)"

definition emitter_ok :: "emitter \<Rightarrow> bool" where
  "emitter_ok e \<longleftrightarrow> checks CBefore (emOut e) = Some (CRun (emStep e))"

text \<open>The two settings of an emitter, which no event changes.\<close>

definition settings :: "emitter \<Rightarrow> string list \<times> bool" where "settings e = (emProjection e, emReasoning e)"

definition identified :: "principal \<Rightarrow> bool" where "identified p \<longleftrightarrow> prSubject p \<noteq> [] \<or> prTenant p \<noteq> []"

definition identity :: "principal \<Rightarrow> string" where "identity p = prTenant p @ [CHR 0x00] @ prSubject p"

definition demo_digest :: "string \<Rightarrow> string" where
  "demo_digest s = (if s = CHR 0x00 # ''ann'' then ''0a1b2c3d4e5f'' else ''5f4e3d2c1b0a'')"

definition demo_caller :: "string \<Rightarrow> principal" where "demo_caller s = \<lparr>prSubject = s, prScopes = [], prTenant = []\<rparr>"

definition demo_check :: "string \<Rightarrow> token_error + principal" where
  "demo_check t = (if t = ''tok'' then Inr \<lparr>prSubject = ''ann'', prScopes = [''run''], prTenant = []\<rparr> else Inl ErrInvalidToken)"

section \<open>Lemmas and properties\<close>

subsection \<open>The stream\<close>

lemmas chk_defs [simp] = chk_def chk_run_def

lemma checks_append: "checks s (fs @ gs) = (case checks s fs of None \<Rightarrow> None | Some t \<Rightarrow> checks t gs)"
  by (induction fs arbitrary: s) (auto split: option.split)

lemma emit_ok: "emitter_ok e \<Longrightarrow> checks (CRun (emStep e)) fs = Some (CRun st) \<Longrightarrow> emitter_ok ((emit fs e)\<lparr>emStep := st\<rparr>)"
  by (simp add: emitter_ok_def emit_def checks_append)

lemma emit_ok_same: "emitter_ok e \<Longrightarrow> checks (CRun (emStep e)) fs = Some (CRun (emStep e)) \<Longrightarrow> emitter_ok (emit fs e)"
  by (simp add: emitter_ok_def emit_def checks_append)

lemma emitter_ok_fields [simp]: "emitter_ok (e\<lparr>emSeq := n\<rparr>) = emitter_ok e" "emitter_ok (e\<lparr>emLastText := t\<rparr>) = emitter_ok e"
    "emitter_ok (e\<lparr>emInterrupted := b\<rparr>) = emitter_ok e"
  by (simp_all add: emitter_ok_def)

lemma emStep_emit [simp]: "emStep (emit fs e) = emStep e"
  by (simp add: emit_def)

lemma closeStep_ok: "emitter_ok e \<Longrightarrow> emitter_ok (closeStep e) \<and> emStep (closeStep e) = []"
  by (auto simp: closeStep_def intro!: emit_ok)

lemma openStep_ok: "emitter_ok e \<Longrightarrow> emitter_ok (openStep a e)"
  using closeStep_ok [of e] by (auto simp: openStep_def intro!: emit_ok)

lemma emitReasoning_ok: "emitter_ok e \<Longrightarrow> emitter_ok (emitReasoning ps e)"
  by (auto simp: emitReasoning_def Let_def intro!: emit_ok_same)

lemma emitText_ok: "emitter_ok e \<Longrightarrow> emitter_ok (snd (emitText ps e))"
  by (auto simp: emitText_def Let_def intro!: emit_ok_same)

lemma emitStateDelta_ok: "emitter_ok e \<Longrightarrow> emitter_ok (emitStateDelta d e)"
  by (auto simp: emitStateDelta_def Let_def intro!: emit_ok_same)

lemma emitToolCall_ok: "emitter_ok e \<Longrightarrow> emitter_ok (emitToolCall fc par e)"
  by (auto simp: emitToolCall_def Let_def split: prod.split option.split intro!: emit_ok_same)

lemma emitToolResult_ok: "emitter_ok e \<Longrightarrow> emitter_ok (emitToolResult fr e)"
  by (auto simp: emitToolResult_def split: prod.split intro!: emit_ok_same)

lemma emit_part_ok: "emitter_ok e \<Longrightarrow> emitter_ok (emit_part model par e p)"
  by (auto simp: emit_part_def Let_def split: option.split bool.split intro!: emitToolCall_ok emitToolResult_ok)

lemma emit_parts_ok: "emitter_ok e \<Longrightarrow> emitter_ok (foldl (emit_part model par) e ps)"
  by (induction ps arbitrary: e) (auto intro: emit_part_ok)

lemma onEvent_ok: "emitter_ok e \<Longrightarrow> emitter_ok (agui_onEvent e ev)"
  using emitText_ok
  by (auto simp: agui_onEvent_def Let_def emit_content_def case_prod_unfold split: option.split
      intro!: emit_parts_ok emitText_ok emitReasoning_ok openStep_ok emitStateDelta_ok)

lemma onEvents_ok: "emitter_ok e \<Longrightarrow> emitter_ok (foldl agui_onEvent e evs)"
  by (induction evs arbitrary: e) (auto intro: onEvent_ok)

text \<open>
  Every stream is well bracketed: whatever the events of the turn, its error and the store, the frames of a run that was
  admitted begin with its start, every step, message, call and thought is closed before the next begins, each by the name that
  opened it, no message is empty, and the last frame and no other ends the run, with no step open.
\<close>

theorem stream_bracketed: "checks CBefore (run_stream a inp evs err d) = Some CDone"
proof -
  define e0 where "e0 = emit [RunStarted (riThreadID inp) (riRunID inp), StateSnapshot (if riState inp = [] then ''{}'' else riState inp)] (new_emitter a)"
  have "emitter_ok e0" by (simp add: e0_def emitter_ok_def emit_def new_emitter_def)
  then have ok: "emitter_ok (closeStep (foldl agui_onEvent e0 evs))" "emStep (closeStep (foldl agui_onEvent e0 evs)) = []"
    using closeStep_ok onEvents_ok by blast+
  have cl: "checks (CRun []) [closing_frame inp r] = Some CDone" for r
    by (simp add: closing_frame_def closing_def split: sum.split)
  show ?thesis
    using ok by (simp only: run_stream_def Let_def run_body_def e0_def [symmetric] emitter_ok_def checks_append option.case cl)
qed

subsection \<open>What is published\<close>

lemma map_of_filter_fst: "map_of (filter (\<lambda>kv. P (fst kv)) xs) k = (if P k then map_of xs k else None)"
  by (induction xs) auto

lemma filter_key_again: "filter P (map fst (filter (\<lambda>kv. P (fst kv)) xs)) = filter P (map fst xs)"
  by (induction xs) auto

lemma delta_ops_filter: "delta_ops ks (filter (\<lambda>kv. fst kv \<in> set ks) d) = delta_ops ks d"
proof -
  have "map (\<lambda>k. case map_of (filter (\<lambda>kv. fst kv \<in> set ks) d) k of Some (Some v) \<Rightarrow> [(StatePointer k, v)] | _ \<Rightarrow> []) (sort (filter (\<lambda>k. k \<in> set ks) (map fst d)))
      = map (\<lambda>k. case map_of d k of Some (Some v) \<Rightarrow> [(StatePointer k, v)] | _ \<Rightarrow> []) (sort (filter (\<lambda>k. k \<in> set ks) (map fst d)))"
    by (rule map_cong) (auto simp: map_of_filter_fst [where P = "\<lambda>k. k \<in> set ks"])
  then show ?thesis
    unfolding delta_ops_def filter_key_again [of "\<lambda>k. k \<in> set ks" d] by (rule arg_cong)
qed

lemma delta_ops_empty [simp]: "delta_ops ks [] = []"
  by (simp add: delta_ops_def)

lemma emitStateDelta_published: "emProjection e = ks \<Longrightarrow> emitStateDelta (filter (\<lambda>kv. fst kv \<in> set ks) d) e = emitStateDelta d e"
  using delta_ops_filter [of ks d] by (auto simp: emitStateDelta_def Let_def)

lemma part_text_hidden [simp]: "part_text (hide_thought b p) = part_text p"
  by (cases p) (auto simp: part_text_def hide_thought_def)

lemma emit_part_hidden [simp]: "emit_part m par e (hide_thought b p) = emit_part m par e p"
  by (cases p; cases m) (auto simp: emit_part_def hide_thought_def Let_def split: option.split)

lemma emit_parts_hidden: "foldl (emit_part m par) e (map (hide_thought b) ps) = foldl (emit_part m par) e ps"
  by (induction ps arbitrary: e) auto

lemma hide_thought_shown [simp]: "hide_thought True = (\<lambda>p. p)"
  by (rule ext) (simp add: hide_thought_def option.map_ident)

lemma emitText_hidden: "emitText (map (hide_thought b) ps) e = emitText ps e"
  by (simp add: emitText_def comp_def)

lemma emitReasoning_hidden: "emReasoning e = b \<Longrightarrow> emitReasoning (map (hide_thought b) ps) e = emitReasoning ps e"
  by (cases b) (simp_all add: emitReasoning_def)

lemma settings_fields [simp]:
  "settings (e\<lparr>emSeq := n\<rparr>) = settings e" "settings (e\<lparr>emLastText := t\<rparr>) = settings e" "settings (e\<lparr>emInterrupted := b\<rparr>) = settings e"
  "settings (e\<lparr>emStep := st\<rparr>) = settings e" "settings (emit fs e) = settings e"
  by (simp_all add: settings_def emit_def)

lemma settings_step [simp]: "settings (closeStep e) = settings e" "settings (openStep a e) = settings e"
  by (simp_all add: closeStep_def openStep_def)

lemma settings_emits [simp]:
  "settings (emitReasoning ps e) = settings e" "settings (snd (emitText ps e)) = settings e" "settings (emitStateDelta d e) = settings e"
  "settings (emitToolCall fc par e) = settings e" "settings (emitToolResult fr e) = settings e"
  by (auto simp: emitReasoning_def emitText_def emitStateDelta_def emitToolCall_def emitToolResult_def Let_def split: prod.split)

lemma settings_part [simp]: "settings (emit_part m par e p) = settings e"
  by (auto simp: emit_part_def Let_def split: option.split bool.split)

lemma settings_parts [simp]: "settings (foldl (emit_part m par) e ps) = settings e"
  by (induction ps arbitrary: e) auto

lemma settings_onEvent [simp]: "settings (agui_onEvent e ev) = settings e"
  by (auto simp: agui_onEvent_def emit_content_def Let_def case_prod_unfold split: option.split)

lemma emit_content_hidden: "emReasoning e = b \<Longrightarrow> emit_content au m (map (hide_thought b) ps) e = emit_content au m ps e"
proof -
  assume "emReasoning e = b"
  then have "emReasoning (openStep au e) = b" using settings_step(2) [of au e] by (simp add: settings_def)
  then show ?thesis by (simp add: emit_content_def emitText_hidden emitReasoning_hidden emit_parts_hidden)
qed

lemma onEvent_published:
  "settings e = (agStateProjection a, agEmitReasoning a) \<Longrightarrow> agui_onEvent e (published a ev) = agui_onEvent e ev"
proof (cases ev)
  case (Some v)
  assume s: "settings e = (agStateProjection a, agEmitReasoning a)"
  define e1 where "e1 = (if aeRequested v \<or> 0 < aeLongRunning v then e\<lparr>emInterrupted := True\<rparr> else e)"
  define e2 where "e2 = emitStateDelta (aeDelta v) e1"
  have "emProjection e1 = agStateProjection a" using s by (simp add: e1_def settings_def)
  then have d: "emitStateDelta (filter (\<lambda>kv. fst kv \<in> set (agStateProjection a)) (aeDelta v)) e1 = e2"
    by (simp add: e2_def emitStateDelta_published)
  have "settings e2 = settings e" by (simp add: e2_def e1_def)
  then have "emReasoning e2 = agEmitReasoning a" using s by (simp add: settings_def)
  then have c: "emit_content (aeAuthor v) m (map (hide_thought (agEmitReasoning a)) ps) e2 = emit_content (aeAuthor v) m ps e2" for m ps
    by (rule emit_content_hidden)
  show ?thesis
    using Some d c by (cases "aeContent v") (auto simp: agui_onEvent_def published_def Let_def e1_def [symmetric] e2_def [symmetric])
qed (simp add: published_def)

lemma onEvents_published:
  "settings e = (agStateProjection a, agEmitReasoning a) \<Longrightarrow> foldl agui_onEvent e (map (published a) evs) = foldl agui_onEvent e evs"
  by (induction evs arbitrary: e) (auto simp: onEvent_published)

text \<open>
  A client sees only what the bundle publishes: the frames of a run are the same when every chunk, every key of the session's
  state outside the projection, and, unless the bundle emits reasoning, every thought of the model is taken out of the events.
\<close>

theorem nothing_unpublished: "run_stream a inp (map (published a) evs) err d = run_stream a inp evs err d"
proof -
  have "settings (emit fs (new_emitter a)) = (agStateProjection a, agEmitReasoning a)" for fs
    by (simp add: settings_def emit_def new_emitter_def)
  then show ?thesis by (simp add: run_stream_def run_body_def onEvents_published)
qed

subsection \<open>The queue of a thread\<close>

lemma count_list_drop_nth:
  "k < length xs \<Longrightarrow> count_list (take k xs @ drop (Suc k) xs) y = count_list xs y - (if xs ! k = y then 1 else 0)"
proof -
  assume "k < length xs"
  then have "count_list xs y = count_list (take k xs @ xs ! k # drop (Suc k) xs) y" using id_take_nth_drop by metis
  then show ?thesis by simp
qed

lemma count_list_nth_pos: "k < length xs \<Longrightarrow> 0 < count_list xs (xs ! k)"
  by (metis count_list_0_iff gr0I nth_mem)

lemma queue_okD: "queue_ok limit (q, runs) \<Longrightarrow> map_of q sid = (if count_list runs sid = 0 then None else Some (int (count_list runs sid)))"
  by (simp add: queue_ok_def)

lemma queue_ok_in_flight: "queue_ok limit (q, runs) \<Longrightarrow> mget 0 q sid = int (count_list runs sid)"
  by (auto simp: mget_def dest: queue_okD [of limit q runs sid])

lemma queue_ok_le: "queue_ok limit (q, runs) \<Longrightarrow> int (count_list runs sid) \<le> max 0 limit"
  by (simp add: queue_ok_def)

lemma queue_step_ok: "queue_ok limit s \<Longrightarrow> queue_ok limit (queue_step limit s op)"
proof -
  assume ok: "queue_ok limit s"
  obtain q runs where s: "s = (q, runs)" by (cases s)
  note fl = queue_ok_in_flight [OF ok [unfolded s]] and le = queue_ok_le [OF ok [unfolded s]] and mp = queue_okD [OF ok [unfolded s]]
  show ?thesis
  proof (cases op)
    case (QAdmit sid)
    show ?thesis
    proof (cases "limit \<le> mget 0 q sid")
      case True
      then show ?thesis using ok s QAdmit by (simp add: admit_def)
    next
      case False
      have "queue_ok limit (AList.update sid (mget 0 q sid + 1) q, sid # runs)"
        using False fl le mp by (auto simp: queue_ok_def update_conv')
      then show ?thesis using s QAdmit False by (simp add: admit_def)
    qed
  next
    case (QDone k)
    show ?thesis
    proof (cases "k < length runs")
      case False
      then show ?thesis using ok s QDone by simp
    next
      case True
      define rest where "rest = take k runs @ drop (Suc k) runs"
      have c: "count_list rest y = count_list runs y - (if runs ! k = y then 1 else 0)" for y
        using count_list_drop_nth [OF True] rest_def by blast
      have pos: "0 < count_list runs (runs ! k)" using count_list_nth_pos [OF True] .
      have b: "int (count_list rest y) \<le> max 0 limit" for y using le [of y] c [of y] by (simp split: if_splits)
      have m: "map_of (release (runs ! k) q) y = (if count_list rest y = 0 then None else Some (int (count_list rest y)))" for y
        using mp [of y] fl [of "runs ! k"] pos c [of y]
        by (auto simp: release_def delete_conv' update_conv' of_nat_diff split: if_splits)
      show ?thesis using b m s QDone True by (simp add: queue_ok_def rest_def [symmetric])
    qed
  qed
qed

lemma queue_start_ok: "queue_ok limit ([], [])"
  by (simp add: queue_ok_def)

interpretation queue_kept: kept "queue_step limit" "([], [])" "queue_ok limit" for limit
  by unfold_locales (rule queue_start_ok, rule queue_step_ok)

text \<open>
  A thread's runs never pile up past the depth of the bundle: after any sequence of runs asking for a place and runs ending, for
  any session, the runs that hold a place are at most the declared depth and one, another is admitted exactly when there are
  fewer, and a session with no run leaves nothing behind.
\<close>

theorem queue_exact:
  "let (q, runs) = foldl (queue_step (runQueueLimit a)) ([], []) ops in
     int (count_list runs sid) \<le> max 0 (RunQueueDepth a + 1) \<and>
     fst (admit sid (runQueueLimit a) q) = (int (count_list runs sid) < RunQueueDepth a + 1) \<and>
     (sid \<in> fst ` set q) = (sid \<in> set runs)"
proof -
  obtain q runs where r: "foldl (queue_step (runQueueLimit a)) ([], []) ops = (q, runs)"
    by (cases "foldl (queue_step (runQueueLimit a)) ([], []) ops")
  have ok: "queue_ok (runQueueLimit a) (q, runs)" using queue_kept.inv_run [of "runQueueLimit a" ops] r by simp
  have "(sid \<in> fst ` set q) = (sid \<in> set runs)"
    using queue_okD [OF ok, of sid] map_of_eq_None_iff [of q sid] count_list_0_iff [of runs sid] by (auto split: if_splits)
  then show ?thesis
    using queue_ok_le [OF ok, of sid] queue_ok_in_flight [OF ok, of sid] unfolding r by (simp add: admit_def runQueueLimit_def)
qed

subsection \<open>Whose thread it is\<close>

text \<open>
  A thread belongs to its caller: when the tags have one width and two identified callers have different tags, no two thread
  or run names they choose lead to the same session.
\<close>

theorem threads_apart:
  assumes "length (digest (identity p)) = length (digest (identity p'))" "digest (identity p) \<noteq> digest (identity p')"
    "identified p" "identified p'" "tid \<noteq> []" "tid' \<noteq> []" "rid \<noteq> []" "rid' \<noteq> []"
  shows "sessionIDFor digest minted model tid rid (Some p) \<noteq> sessionIDFor digest minted' model tid' rid' (Some p')"
proof -
  have "callerTag digest (Some p) @ x \<noteq> callerTag digest (Some p') @ y" for x y
    using assms by (auto simp: callerTag_def identity_def identified_def)
  then show ?thesis using assms(5-8) by (auto simp: sessionIDFor_def)
qed

lemma threads_apart_witness:
  "sessionIDFor demo_digest ''x'' ''per_thread'' ''t1'' ''r1'' (Some (demo_caller ''ann''))
     \<noteq> sessionIDFor demo_digest ''y'' ''per_thread'' ''t1'' ''r2'' (Some (demo_caller ''ben''))"
  by (rule threads_apart) (simp_all add: demo_digest_def demo_caller_def identity_def identified_def)

text \<open>
  A caller whose token names neither a subject nor a tenant carries no tag, and reaches the thread of any other caller by
  putting that caller's tag before the thread's name.
\<close>

theorem untagged_caller_names_any_thread:
  "identified p \<and> \<not> identified q \<and> model \<noteq> ''per_run'' \<and> tid \<noteq> [] \<longrightarrow>
     sessionIDFor digest minted model (digest (identity p) @ ''-'' @ tid) rid (Some q) = sessionIDFor digest minted' model tid rid' (Some p)"
  by (auto simp: sessionIDFor_def callerTag_def identity_def identified_def)

lemma untagged_caller_names_any_thread_witness:
  "sessionIDFor demo_digest ''x'' ''per_thread'' ''0a1b2c3d4e5f-t1'' ''r'' (Some (demo_caller [])) = ''agui-thread-0a1b2c3d4e5f-t1''"
  using untagged_caller_names_any_thread [of "demo_caller ''ann''" "demo_caller []" "''per_thread''" "''t1''" demo_digest "''x''" "''r''" "''x''" "''r''"]
  by (simp add: demo_digest_def demo_caller_def identity_def identified_def sessionIDFor_def callerTag_def)

subsection \<open>Who may run\<close>

text \<open>
  A run starts for a caller with the right to it and for no other: when the endpoint has a validator, a run that is let through
  carries the principal of a bearer token the validator accepts, holding every scope of the workload, with something to say, and
  within its rate.
\<close>

theorem run_authorized:
  assumes "handleRun_admit (Some check) limiter ew flushes rq = Inr (p, t)"
  shows "\<exists>pr tid msgs res. p = Some pr \<and> HasPrefix (rqAuthorization rq) ''Bearer '' \<and> check (drop 7 (rqAuthorization rq)) = Inr pr \<and>
     list_all (HasScope p) (ewScopes ew) \<and> rqBody rq = Some (tid, msgs, res) \<and> t = lastUserText msgs \<and> (t \<noteq> [] \<or> res \<noteq> []) \<and>
     (case limiter of None \<Rightarrow> True | Some allow \<Rightarrow>
        fst (allow \<lparr>rrSubject = prSubject pr, rrTenant = prTenant pr, rrWorkload = ewName ew, rrMethod = ''run''\<rparr>))"
  using assms by (auto simp: handleRun_admit_def split: if_splits sum.splits option.splits token_error.splits prod.splits)

lemma run_authorized_witness:
  "list_all (HasScope (Some \<lparr>prSubject = ''ann'', prScopes = [''run''], prTenant = []\<rparr>)) [''run'']"
  using run_authorized [of demo_check None "\<lparr>ewName = ''w'', ewPath = ''/w'', ewScopes = [''run'']\<rparr>" True
      "\<lparr>rqAuthorization = ''Bearer tok'', rqBody = Some (''t'', [(''user'', ''hi'')], [])\<rparr>"
      "Some \<lparr>prSubject = ''ann'', prScopes = [''run''], prTenant = []\<rparr>" "''hi''"]
  by (simp add: handleRun_admit_def demo_check_def HasPrefix_def lastUserText_def HasScope_def)

end
