(* ===== verification/Peers.thy ===== *)
theory Peers
  imports Access "HOL-Library.Char_ord" "HOL-Library.List_Lexorder"
begin

text \<open>
  The fleet a hub knows: the registry of peers and their leases (\<^verbatim>\<open>src/internal/attach/peers.go\<close>), its state file
  (\<^verbatim>\<open>peers_persist.go\<close>), the handlers in front of it (\<^verbatim>\<open>peers_handlers.go\<close>) and the client that registers a daemon and
  keeps its lease (\<^verbatim>\<open>client_register.go\<close>).

  A peer is reached through its registration, so the map by name holds registration identifiers; neither the identifier nor the
  name of a peer ever changes. The file is the list of its lines, \<open>None\<close> for a line that is no record. What
  \<^verbatim>\<open>url.Parse\<close> makes of an endpoint, the random identifier or its failure, and the outcome of a write are arguments.
  Counters of snapshots are natural numbers. Snapshots are written after the lock is released, so a write is a step of its own.
\<close>

section \<open>Peers and the registry\<close>

record peer =
  peID :: string
  peName :: string
  peEndpoint :: string
  peLabels :: "(string, string) gomap"
  peRegistered :: gotime
  peLast :: gotime
  peExpires :: gotime
  peOwner :: string

record register_request =
  rgName :: string
  rgEndpoint :: string
  rgLabels :: "(string, string) gomap"
  rgTTL :: int

datatype peer_error = PeerNameRequired | PeerEndpointRequired | PeerEndpointInvalid | PeerIDFailed | PeerNotFound

record peer_registry =
  rgMax :: duration
  byID :: "(string, peer) gomap"
  byName :: "(string, string) gomap"
  rgDurable :: bool
  persistSeq :: nat

type_synonym url_parse = "string \<Rightarrow> (string \<times> string) option"
type_synonym peer_snapshot = "nat \<times> peer list"

definition second :: int where "second = 10 ^ 9"

definition defaultHeartbeatTTL :: duration where "defaultHeartbeatTTL = 60 * second"
definition defaultMaxTTL :: duration where "defaultMaxTTL = 300 * second"

definition NewPeerRegistry :: "duration \<Rightarrow> peer_registry" where
  "NewPeerRegistry limit = \<lparr>rgMax = limit, byID = [], byName = [], rgDurable = False, persistSeq = 0\<rparr>"

definition validatePeerEndpoint :: "url_parse \<Rightarrow> string \<Rightarrow> bool" where
  "validatePeerEndpoint parse e =
     (case parse e of None \<Rightarrow> False | Some (scheme, host) \<Rightarrow> (scheme = ''http'' \<or> scheme = ''https'') \<and> host \<noteq> [])"

definition lease_ttl :: "duration \<Rightarrow> int \<Rightarrow> duration" where
  "lease_ttl limit secs =
     (let ttl = wrap64 (secs * second); ttl' = (if ttl \<le> 0 then defaultHeartbeatTTL else ttl) in if limit < ttl' then limit else ttl')"

definition snapshotLocked :: "peer_registry \<Rightarrow> peer_snapshot option \<times> peer_registry" where
  "snapshotLocked r =
     (if \<not> rgDurable r then (None, r)
      else (Some (Suc (persistSeq r), map snd (byID r)), r\<lparr>persistSeq := Suc (persistSeq r)\<rparr>))"

definition drop_named :: "string \<Rightarrow> peer_registry \<Rightarrow> peer_registry" where
  "drop_named name r = (case map_of (byName r) name of None \<Rightarrow> r | Some old \<Rightarrow> r\<lparr>byID := AList.delete old (byID r)\<rparr>)"

definition add_peer :: "peer \<Rightarrow> peer_registry \<Rightarrow> peer_registry" where
  "add_peer p r = r\<lparr>byID := AList.update (peID p) p (byID r), byName := AList.update (peName p) (peID p) (byName r)\<rparr>"

definition new_peer :: "string \<Rightarrow> gotime \<Rightarrow> duration \<Rightarrow> register_request \<Rightarrow> string \<Rightarrow> peer" where
  "new_peer i now limit req owner =
     \<lparr>peID = i, peName = rgName req, peEndpoint = rgEndpoint req, peLabels = rgLabels req, peRegistered = now, peLast = now,
      peExpires = now + lease_ttl limit (rgTTL req), peOwner = owner\<rparr>"

definition RegisterOwned ::
  "url_parse \<Rightarrow> string option \<Rightarrow> gotime \<Rightarrow> register_request \<Rightarrow> string \<Rightarrow> peer_registry \<Rightarrow> (peer_error + peer) \<times> peer_snapshot option \<times> peer_registry" where
  "RegisterOwned parse mint now req owner r =
     (if rgName req = [] then (Inl PeerNameRequired, None, r)
      else if rgEndpoint req = [] then (Inl PeerEndpointRequired, None, r)
      else if \<not> validatePeerEndpoint parse (rgEndpoint req) then (Inl PeerEndpointInvalid, None, r)
      else
        (case mint of
           None \<Rightarrow> (Inl PeerIDFailed, None, drop_named (rgName req) r)
         | Some i \<Rightarrow>
             (let p = new_peer i now (rgMax r) req owner
              in (Inr p, snapshotLocked (add_peer p (drop_named (rgName req) r))))))"

definition Heartbeat :: "gotime \<Rightarrow> string \<Rightarrow> peer_registry \<Rightarrow> (peer_error + peer) \<times> peer_snapshot option \<times> peer_registry" where
  "Heartbeat now i r =
     (case map_of (byID r) i of
        None \<Rightarrow> (Inl PeerNotFound, None, r)
      | Some p \<Rightarrow>
          (let p' = p\<lparr>peLast := now, peExpires := now + time_Sub (peExpires p) (peLast p)\<rparr>
           in (Inr p', snapshotLocked (r\<lparr>byID := AList.update i p' (byID r)\<rparr>))))"

definition Deregister :: "string \<Rightarrow> peer_registry \<Rightarrow> peer_snapshot option \<times> peer_registry" where
  "Deregister i r =
     (case map_of (byID r) i of
        None \<Rightarrow> (None, r)
      | Some p \<Rightarrow> snapshotLocked (r\<lparr>byID := AList.delete i (byID r), byName := AList.delete (peName p) (byName r)\<rparr>))"

definition matchLabels :: "(string, string) gomap \<Rightarrow> (string, string) gomap \<Rightarrow> bool" where
  "matchLabels own want \<longleftrightarrow> list_all (\<lambda>(k, v). mget [] own k = v) want"

definition List_peers :: "(string, string) gomap \<Rightarrow> peer_registry \<Rightarrow> peer list" where
  "List_peers want r = sort_key peName (filter (\<lambda>p. matchLabels (peLabels p) want) (map snd (byID r)))"

definition Prune :: "gotime \<Rightarrow> peer_registry \<Rightarrow> nat \<times> peer_snapshot option \<times> peer_registry" where
  "Prune now r =
     (let gone = filter (\<lambda>(i, p). peExpires p < now) (byID r);
          r' = r\<lparr>byID := filter (\<lambda>(i, p). \<not> peExpires p < now) (byID r),
                 byName := filter (\<lambda>(n, i). n \<notin> (peName \<circ> snd) ` set gone) (byName r)\<rparr>
      in if gone = [] then (0, None, r) else (length gone, snapshotLocked r'))"

section \<open>The state file\<close>

record peer_file =
  pfWritten :: nat
  pfLastErr :: string
  pfLines :: "peer option list"

definition write_snapshot :: "string option \<Rightarrow> peer_snapshot \<Rightarrow> peer_file \<Rightarrow> string option \<times> peer_file" where
  "write_snapshot outcome snap f =
     (if fst snap \<le> pfWritten f then (None, f)
      else case outcome of
             Some e \<Rightarrow> (Some e, f)
           | None \<Rightarrow> (None, f\<lparr>pfWritten := fst snap, pfLines := map Some (snd snap)\<rparr>))"

definition noteResult :: "string option \<Rightarrow> peer_file \<Rightarrow> string \<times> peer_file" where
  "noteResult err f =
     (case err of
        Some e \<Rightarrow> if pfLastErr f \<noteq> e
                  then (''attach: persist peer state: '' @ e @ '' (registry stays live in memory; durability degraded until this clears)'', f\<lparr>pfLastErr := e\<rparr>)
                  else ([], f)
      | None \<Rightarrow> if pfLastErr f \<noteq> []
                then (''attach: peer state writes recovered (previous failure: '' @ pfLastErr f @ '')'', f\<lparr>pfLastErr := []\<rparr>)
                else ([], f))"

definition persist :: "string option \<Rightarrow> peer_snapshot \<Rightarrow> peer_file \<Rightarrow> string \<times> peer_file" where
  "persist outcome snap f = (case write_snapshot outcome snap f of (err, f') \<Rightarrow> noteResult err f')"

text \<open>A record of the file as the registry takes it, if it does.\<close>

definition load_record :: "url_parse \<Rightarrow> gotime \<Rightarrow> duration \<Rightarrow> string list \<Rightarrow> peer option \<Rightarrow> peer option" where
  "load_record parse now limit seen line =
     (case line of
        None \<Rightarrow> None
      | Some rec \<Rightarrow>
          if peName rec = [] \<or> peID rec = [] then None
          else if \<not> validatePeerEndpoint parse (peEndpoint rec) then None
          else if peID rec \<in> set seen then None
          else if peLast rec = 0 then None
          else
            (let ttl = time_Sub (peExpires rec) (peLast rec);
                 rec' = (if limit < ttl then rec\<lparr>peExpires := peLast rec + limit\<rparr> else rec)
             in if ttl \<le> 0 then None else if \<not> now < peExpires rec' then None else Some rec'))"

fun load_lines :: "url_parse \<Rightarrow> gotime \<Rightarrow> duration \<Rightarrow> string list \<Rightarrow> peer option list \<Rightarrow> peer list" where
  "load_lines parse now limit seen [] = []"
| "load_lines parse now limit seen (l # ls) =
     (case load_record parse now limit seen l of
        None \<Rightarrow> load_lines parse now limit seen ls
      | Some p \<Rightarrow> p # load_lines parse now limit (peID p # seen) ls)"

text \<open>The start of a hub on a state file, which fails when the file is there and cannot be read or the first write fails.\<close>

definition NewPeerRegistryWithState ::
  "url_parse \<Rightarrow> gotime \<Rightarrow> duration \<Rightarrow> bool \<Rightarrow> string option \<Rightarrow> peer_file \<Rightarrow> peer_registry option \<times> peer_file" where
  "NewPeerRegistryWithState parse now limit readable outcome f =
     (if \<not> readable then (None, f)
      else
        (let r = foldl (\<lambda>r p. add_peer p (drop_named (peName p) r)) (NewPeerRegistry limit) (load_lines parse now limit [] (pfLines f));
             (snap, r') = snapshotLocked (r\<lparr>rgDurable := True\<rparr>)
         in case snap of
              None \<Rightarrow> (None, f)
            | Some s \<Rightarrow>
                (case write_snapshot outcome s (f\<lparr>pfWritten := 0, pfLastErr := []\<rparr>) of
                   (None, f') \<Rightarrow> (Some r', f')
                 | (Some e, f') \<Rightarrow> (None, f'))))"

section \<open>The handlers\<close>

datatype peer_reply =
    PeerUnauthorized | PeerBadRequest | PeerCreated peer | PeersListed "peer list" | PeerGone | PeerForbidden | PeerUnknown
  | PeerBeat peer | PeerFailed

text \<open>The wire shape of a peer leaves out its owner.\<close>

definition wire :: "peer \<Rightarrow> peer" where "wire p = p\<lparr>peOwner := []\<rparr>"

definition caller_ok :: "bool \<Rightarrow> string \<Rightarrow> caller \<Rightarrow> bool" where
  "caller_ok requireAuth anon c \<longleftrightarrow> \<not> requireAuth \<or> crIdentity c \<noteq> [] \<and> crIdentity c \<noteq> anon"

definition canManage :: "caller \<Rightarrow> peer \<Rightarrow> bool" where
  "canManage c p \<longleftrightarrow> crAdmin c \<or> crIdentity c = peOwner p"

fun label_pair :: "string \<Rightarrow> (string \<times> string) option" where
  "label_pair [] = None"
| "label_pair (c # s) = (if c = CHR ''='' then Some ([], s) else map_option (\<lambda>(k, v). (c # k, v)) (label_pair s))"

definition parseLabelFilters :: "string list \<Rightarrow> (string, string) gomap" where
  "parseLabelFilters raw = foldl (\<lambda>m item. case label_pair item of None \<Rightarrow> m | Some (k, v) \<Rightarrow> AList.update k v m) [] raw"

datatype peer_request =
    PostPeer caller "register_request option"
  | GetPeers caller "string list"
  | PostBeat string
  | DeletePeer caller string

definition handle_peers ::
  "url_parse \<Rightarrow> bool \<Rightarrow> string \<Rightarrow> string option \<Rightarrow> gotime \<Rightarrow> peer_request \<Rightarrow> peer_registry \<Rightarrow> peer_reply \<times> peer_snapshot option \<times> peer_registry" where
  "handle_peers parse requireAuth anon mint now rq r =
     (case rq of
        PostPeer c body \<Rightarrow>
          if \<not> caller_ok requireAuth anon c then (PeerUnauthorized, None, r)
          else (case body of
                  None \<Rightarrow> (PeerBadRequest, None, r)
                | Some req \<Rightarrow>
                    (case RegisterOwned parse mint now req (crIdentity c) r of
                       (Inr p, s, r') \<Rightarrow> (PeerCreated (wire p), s, r')
                     | (Inl PeerIDFailed, s, r') \<Rightarrow> (PeerFailed, s, r')
                     | (Inl e, s, r') \<Rightarrow> (PeerBadRequest, s, r')))
      | GetPeers c labels \<Rightarrow>
          if \<not> caller_ok requireAuth anon c then (PeerUnauthorized, None, r)
          else (PeersListed (map (\<lambda>p. wire (if canManage c p then p else p\<lparr>peID := []\<rparr>)) (List_peers (parseLabelFilters labels) r)), None, r)
      | PostBeat i \<Rightarrow>
          (case Heartbeat now i r of (Inr p, s, r') \<Rightarrow> (PeerBeat (wire p), s, r') | (Inl e, s, r') \<Rightarrow> (PeerUnknown, s, r'))
      | DeletePeer c i \<Rightarrow>
          if \<not> caller_ok requireAuth anon c then (PeerUnauthorized, None, r)
          else (case map_of (byID r) i of
                  None \<Rightarrow> (PeerGone, None, r)
                | Some p \<Rightarrow> if \<not> canManage c p then (PeerForbidden, None, r) else (PeerGone, Deregister i r)))"

section \<open>The client\<close>

text \<open>
  A daemon that keeps a registration: the registration it began with, which its cancel function drops, and the one it renews. A
  round of the loop is the answer to its heartbeat and, when that failed, the answer to its new registration.
\<close>

record peer_client =
  pcFirst :: string
  pcCurrent :: string
  pcExpires :: gotime

definition cadence :: "gotime \<Rightarrow> gotime \<Rightarrow> duration" where
  "cadence now expires = (let c = (let d = time_Sub expires now in if 0 \<le> d then d div 3 else - ((- d) div 3)) in if c < second then second else c)"

definition heartbeat_round :: "gotime \<Rightarrow> peer option \<Rightarrow> peer option \<Rightarrow> peer_client \<Rightarrow> peer_client" where
  "heartbeat_round now beat fresh c =
     (case beat of
        Some p \<Rightarrow> c\<lparr>pcCurrent := peID p, pcExpires := peExpires p\<rparr>
      | None \<Rightarrow>
          (case fresh of
             Some p \<Rightarrow> c\<lparr>pcCurrent := peID p, pcExpires := peExpires p\<rparr>
           | None \<Rightarrow> c\<lparr>pcExpires := now + defaultHeartbeatTTL\<rparr>))"

definition client_start :: "peer \<Rightarrow> peer_client" where
  "client_start p = \<lparr>pcFirst = peID p, pcCurrent = peID p, pcExpires = peExpires p\<rparr>"

text \<open>The registration the cancel function drops at the hub.\<close>

definition cancel_drops :: "peer_client \<Rightarrow> string" where "cancel_drops c = pcFirst c"

section \<open>A hub over time\<close>

text \<open>
  A hub with its state file: the registry while the process runs, the snapshots that are taken and not yet written, and all
  snapshots taken since it started, which no code reads.
\<close>

record hub =
  hbReg :: "peer_registry option"
  hbQueue :: "peer_snapshot list"
  hbFile :: peer_file
  hbTaken :: "peer_snapshot list"

datatype hub_op =
    HRegister register_request string "string option"
  | HBeat string
  | HDrop string
  | HPrune
  | HWrite nat "string option"
  | HRestart duration bool "string option"

definition taken :: "peer_snapshot option \<times> peer_registry \<Rightarrow> hub \<Rightarrow> hub" where
  "taken res h =
     (case res of
        (None, r) \<Rightarrow> h\<lparr>hbReg := Some r\<rparr>
      | (Some s, r) \<Rightarrow> h\<lparr>hbReg := Some r, hbQueue := hbQueue h @ [s], hbTaken := hbTaken h @ [s]\<rparr>)"

definition hub_reg_op :: "url_parse \<Rightarrow> gotime \<Rightarrow> hub_op \<Rightarrow> peer_registry \<Rightarrow> peer_snapshot option \<times> peer_registry" where
  "hub_reg_op parse now op r =
     (case op of
        HRegister req owner mint \<Rightarrow> snd (RegisterOwned parse mint now req owner r)
      | HBeat i \<Rightarrow> snd (Heartbeat now i r)
      | HDrop i \<Rightarrow> Deregister i r
      | HPrune \<Rightarrow> snd (Prune now r)
      | _ \<Rightarrow> (None, r))"

definition hub_restart :: "url_parse \<Rightarrow> gotime \<Rightarrow> duration \<Rightarrow> bool \<Rightarrow> string option \<Rightarrow> hub \<Rightarrow> hub" where
  "hub_restart parse now limit readable outcome h =
     (case NewPeerRegistryWithState parse now limit readable outcome (hbFile h) of
        (None, f) \<Rightarrow> \<lparr>hbReg = None, hbQueue = [], hbFile = f, hbTaken = []\<rparr>
      | (Some r, f) \<Rightarrow> \<lparr>hbReg = Some r, hbQueue = [], hbFile = f, hbTaken = [(persistSeq r, map snd (byID r))]\<rparr>)"

definition hub_step :: "url_parse \<Rightarrow> hub \<Rightarrow> gotime \<times> hub_op \<Rightarrow> hub" where
  "hub_step parse h = (\<lambda>(now, op).
     (case op of
        HWrite k outcome \<Rightarrow>
          if k < length (hbQueue h)
          then h\<lparr>hbFile := snd (persist outcome (hbQueue h ! k) (hbFile h)), hbQueue := take k (hbQueue h) @ drop (Suc k) (hbQueue h)\<rparr>
          else h
      | HRestart limit readable outcome \<Rightarrow> hub_restart parse now limit readable outcome h
      | _ \<Rightarrow> (case hbReg h of None \<Rightarrow> h | Some r \<Rightarrow> taken (hub_reg_op parse now op r) h)))"

text \<open>No state file yet.\<close>

definition hub_start :: hub where
  "hub_start = \<lparr>hbReg = None, hbQueue = [], hbFile = \<lparr>pfWritten = 0, pfLastErr = [], pfLines = []\<rparr>, hbTaken = []\<rparr>"

section \<open>What is claimed\<close>

definition max_ok :: "duration \<Rightarrow> bool" where "max_ok limit \<longleftrightarrow> 0 < limit \<and> limit < 2 ^ 63 - 1"

definition peer_ok :: "url_parse \<Rightarrow> duration \<Rightarrow> peer \<Rightarrow> bool" where
  "peer_ok parse limit p \<longleftrightarrow> peName p \<noteq> [] \<and> peID p \<noteq> [] \<and> validatePeerEndpoint parse (peEndpoint p) \<and> peLast p \<noteq> 0 \<and>
     0 < peExpires p - peLast p \<and> peExpires p - peLast p \<le> limit"

definition reg_ok :: "url_parse \<Rightarrow> peer_registry \<Rightarrow> bool" where
  "reg_ok parse r \<longleftrightarrow> max_ok (rgMax r) \<and> distinct (map fst (byID r)) \<and>
     (\<forall>i p. map_of (byID r) i = Some p \<longrightarrow> peID p = i \<and> map_of (byName r) (peName p) = Some i \<and> peer_ok parse (rgMax r) p)"

text \<open>A clock that is not the zero time, identifiers that are made, and a limit on leases that is a positive duration.\<close>

definition op_ok :: "gotime \<times> hub_op \<Rightarrow> bool" where
  "op_ok = (\<lambda>(now, op). now \<noteq> 0 \<and>
     (case op of
        HRegister req owner mint \<Rightarrow> mint \<noteq> None \<and> mint \<noteq> Some []
      | HRestart limit readable outcome \<Rightarrow> max_ok limit
      | _ \<Rightarrow> True))"

definition hub_ok :: "url_parse \<Rightarrow> hub \<Rightarrow> bool" where
  "hub_ok parse h \<longleftrightarrow>
     (case hbReg h of
        None \<Rightarrow> hbQueue h = []
      | Some r \<Rightarrow> reg_ok parse r \<and> rgDurable r \<and> map fst (hbTaken h) = [1..<Suc (persistSeq r)] \<and>
          (persistSeq r, map snd (byID r)) \<in> set (hbTaken h) \<and> set (hbQueue h) \<subseteq> set (hbTaken h) \<and>
          (\<exists>recs. (pfWritten (hbFile h), recs) \<in> set (hbTaken h) \<and> pfLines (hbFile h) = map Some recs))"

definition clamp :: "duration \<Rightarrow> peer \<Rightarrow> peer" where
  "clamp limit p = (if limit < peExpires p - peLast p then p\<lparr>peExpires := peLast p + limit\<rparr> else p)"

text \<open>An operation leaves the registry as it is, or takes a snapshot of one that is in order.\<close>

definition takes :: "url_parse \<Rightarrow> peer_registry \<Rightarrow> peer_snapshot option \<times> peer_registry \<Rightarrow> bool" where
  "takes parse r res \<longleftrightarrow> res = (None, r) \<or> (\<exists>r'. res = snapshotLocked r' \<and> reg_ok parse r' \<and> rgDurable r' = rgDurable r \<and>
     persistSeq r' = persistSeq r \<and> rgMax r' = rgMax r)"

definition install :: "peer_registry \<Rightarrow> peer \<Rightarrow> peer_registry" where
  "install r p = add_peer p (drop_named (peName p) r)"

definition demo_parse :: url_parse where "demo_parse e = (if HasPrefix e ''http://'' then Some (''http'', drop 7 e) else None)"

definition demo_request :: "string \<Rightarrow> register_request" where
  "demo_request n = \<lparr>rgName = n, rgEndpoint = ''http://'' @ n, rgLabels = [], rgTTL = 30\<rparr>"

definition demo_ops :: "(gotime \<times> hub_op) list" where
  "demo_ops = [(1, HRestart defaultMaxTTL True None), (second, HRegister (demo_request ''a'') ''ann'' (Some ''reg-1'')),
     (2 * second, HRegister (demo_request ''b'') ''ben'' (Some ''reg-2'')), (3 * second, HBeat ''reg-1''), (4 * second, HWrite 2 None), (4 * second, HWrite 0 None)]"

definition demo_hub :: hub where "demo_hub = foldl (hub_step demo_parse) hub_start demo_ops"

definition demo_reg :: peer_registry where
  "demo_reg =
     \<lparr>rgMax = 300000000000,
      byID = [(''reg-1'', \<lparr>peID = ''reg-1'', peName = ''a'', peEndpoint = ''http://a'', peLabels = [], peRegistered = 1000000000,
                 peLast = 3000000000, peExpires = 33000000000, peOwner = ''ann''\<rparr>),
              (''reg-2'', \<lparr>peID = ''reg-2'', peName = ''b'', peEndpoint = ''http://b'', peLabels = [], peRegistered = 2000000000,
                 peLast = 2000000000, peExpires = 32000000000, peOwner = ''ben''\<rparr>)],
      byName = [(''a'', ''reg-1''), (''b'', ''reg-2'')], rgDurable = True, persistSeq = 4\<rparr>"

section \<open>Lemmas and properties\<close>

subsection \<open>The registry\<close>

lemma peers_okI:
  assumes "max_ok (rgMax r)" "distinct (map fst (byID r))"
    "\<And>i p. map_of (byID r) i = Some p \<Longrightarrow> peID p = i \<and> map_of (byName r) (peName p) = Some i \<and> peer_ok parse (rgMax r) p"
  shows "reg_ok parse r"
  using assms by (auto simp: reg_ok_def)

lemma peers_okD:
  assumes "reg_ok parse r" "map_of (byID r) i = Some p"
  shows "peID p = i" "map_of (byName r) (peName p) = Some i" "peer_ok parse (rgMax r) p"
  using assms by (auto simp: reg_ok_def)

lemma reg_ok_named:
  assumes "reg_ok parse r" "map_of (byID r) i = Some p" "map_of (byID r) j = Some q" "peName p = peName q"
  shows "i = j"
  using peers_okD [OF assms(1,2)] peers_okD [OF assms(1,3)] assms(4) by simp

lemma rgMax_drop_named [simp]: "rgMax (drop_named n r) = rgMax r"
  by (simp add: drop_named_def split: option.split)

lemma add_drop_ok:
  assumes ok: "reg_ok parse r" and p: "peer_ok parse (rgMax r) p"
  shows "reg_ok parse (add_peer p (drop_named (peName p) r))"
proof (rule peers_okI)
  show "max_ok (rgMax (add_peer p (drop_named (peName p) r)))" using ok by (simp add: reg_ok_def add_peer_def)
  have "distinct (map fst (byID (drop_named (peName p) r)))"
    using ok by (auto simp: reg_ok_def drop_named_def distinct_delete split: option.split)
  then show "distinct (map fst (byID (add_peer p (drop_named (peName p) r))))" by (simp add: add_peer_def distinct_update)
  fix i q
  assume m: "map_of (byID (add_peer p (drop_named (peName p) r))) i = Some q"
  show "peID q = i \<and> map_of (byName (add_peer p (drop_named (peName p) r))) (peName q) = Some i \<and>
      peer_ok parse (rgMax (add_peer p (drop_named (peName p) r))) q"
  proof (cases "i = peID p")
    case True
    then show ?thesis using m p by (simp add: add_peer_def)
  next
    case False
    then have m': "map_of (byID (drop_named (peName p) r)) i = Some q" using m by (simp add: add_peer_def)
    then have q: "map_of (byID r) i = Some q" by (auto simp: drop_named_def split: option.splits if_splits)
    note D = peers_okD [OF ok q]
    have "peName q \<noteq> peName p" using m' D(2) by (auto simp: drop_named_def split: option.splits if_splits)
    then show ?thesis using D by (simp add: add_peer_def drop_named_def split: option.split)
  qed
qed

lemma lease_ttl_bounds: "max_ok limit \<Longrightarrow> 0 < lease_ttl limit s \<and> lease_ttl limit s \<le> limit"
  by (auto simp: lease_ttl_def Let_def max_ok_def defaultHeartbeatTTL_def second_def)

lemma time_Sub_lease: "0 < a - b \<Longrightarrow> a - b \<le> limit \<Longrightarrow> max_ok limit \<Longrightarrow> time_Sub a b = a - b"
  by (auto simp: time_Sub_def max_ok_def)

lemma drop_named_fields [simp]:
  "rgDurable (drop_named n r) = rgDurable r" "persistSeq (drop_named n r) = persistSeq r"
  by (simp_all add: drop_named_def split: option.split)

lemma add_peer_fields [simp]:
  "rgMax (add_peer p r) = rgMax r" "rgDurable (add_peer p r) = rgDurable r" "persistSeq (add_peer p r) = persistSeq r"
  by (simp_all add: add_peer_def)

lemma RegisterOwned_takes:
  assumes ok: "reg_ok parse r" and mint: "mint = Some i" "i \<noteq> []" and now: "now \<noteq> 0"
  shows "takes parse r (snd (RegisterOwned parse mint now req owner r))"
proof (cases "rgName req = [] \<or> rgEndpoint req = [] \<or> \<not> validatePeerEndpoint parse (rgEndpoint req)")
  case True
  then show ?thesis by (auto simp: RegisterOwned_def takes_def)
next
  case False
  define p where "p = new_peer i now (rgMax r) req owner"
  have "max_ok (rgMax r)" using ok by (simp add: reg_ok_def)
  then have "peer_ok parse (rgMax r) p" using False mint now lease_ttl_bounds by (auto simp: peer_ok_def p_def new_peer_def)
  from add_drop_ok [OF ok this] have "reg_ok parse (add_peer p (drop_named (peName p) r))" .
  moreover have "snd (RegisterOwned parse mint now req owner r) = snapshotLocked (add_peer p (drop_named (peName p) r))"
    using False mint by (simp add: RegisterOwned_def p_def new_peer_def Let_def)
  ultimately show ?thesis unfolding takes_def by (intro disjI2 exI) auto
qed

lemma Heartbeat_takes:
  assumes ok: "reg_ok parse r" and now: "now \<noteq> 0"
  shows "takes parse r (snd (Heartbeat now i r))"
proof (cases "map_of (byID r) i")
  case None
  then show ?thesis by (simp add: Heartbeat_def takes_def)
next
  case (Some p)
  define p' where "p' = p\<lparr>peLast := now, peExpires := now + time_Sub (peExpires p) (peLast p)\<rparr>"
  define r' where "r' = r\<lparr>byID := AList.update i p' (byID r)\<rparr>"
  note D = peers_okD [OF ok Some]
  have mx: "max_ok (rgMax r)" using ok by (simp add: reg_ok_def)
  have "time_Sub (peExpires p) (peLast p) = peExpires p - peLast p" using D(3) mx by (auto simp: peer_ok_def intro!: time_Sub_lease)
  then have p': "peer_ok parse (rgMax r) p'" "peID p' = i" "peName p' = peName p" using D now by (auto simp: p'_def peer_ok_def)
  have "reg_ok parse r'"
  proof (rule peers_okI)
    show "max_ok (rgMax r')" using mx by (simp add: r'_def)
    show "distinct (map fst (byID r'))" using ok by (simp add: r'_def reg_ok_def distinct_update)
    fix j q
    assume "map_of (byID r') j = Some q"
    then show "peID q = j \<and> map_of (byName r') (peName q) = Some j \<and> peer_ok parse (rgMax r') q"
      using p' D peers_okD [OF ok] by (cases "j = i") (auto simp: r'_def)
  qed
  moreover have "snd (Heartbeat now i r) = snapshotLocked r'" using Some by (simp add: Heartbeat_def p'_def r'_def Let_def)
  moreover have "rgDurable r' = rgDurable r" "persistSeq r' = persistSeq r" "rgMax r' = rgMax r" by (simp_all add: r'_def)
  ultimately show ?thesis unfolding takes_def by blast
qed

lemma sub_reg_ok:
  assumes ok: "reg_ok parse r" and "distinct (map fst (byID r'))" "rgMax r' = rgMax r"
    "\<And>i p. map_of (byID r') i = Some p \<Longrightarrow> map_of (byID r) i = Some p \<and> map_of (byName r') (peName p) = map_of (byName r) (peName p)"
  shows "reg_ok parse r'"
proof (rule peers_okI)
  fix i p
  assume "map_of (byID r') i = Some p"
  from assms(4) [OF this] show "peID p = i \<and> map_of (byName r') (peName p) = Some i \<and> peer_ok parse (rgMax r') p"
    using peers_okD [OF ok] assms(3) by auto
qed (use assms in \<open>simp_all add: reg_ok_def\<close>)

lemma Deregister_takes:
  assumes ok: "reg_ok parse r"
  shows "takes parse r (Deregister i r)"
proof (cases "map_of (byID r) i")
  case None
  then show ?thesis by (simp add: Deregister_def takes_def)
next
  case (Some p)
  define r' where "r' = r\<lparr>byID := AList.delete i (byID r), byName := AList.delete (peName p) (byName r)\<rparr>"
  have "reg_ok parse r'"
  proof (rule sub_reg_ok [OF ok])
    show "distinct (map fst (byID r'))" using ok by (simp add: r'_def reg_ok_def distinct_delete)
    fix j q
    assume "map_of (byID r') j = Some q"
    then have j: "j \<noteq> i" "map_of (byID r) j = Some q" by (auto simp: r'_def split: if_splits)
    then have "peName q \<noteq> peName p" using reg_ok_named [OF ok j(2) Some] by auto
    then show "map_of (byID r) j = Some q \<and> map_of (byName r') (peName q) = map_of (byName r) (peName q)" using j by (simp add: r'_def)
  qed (simp add: r'_def)
  moreover have "Deregister i r = snapshotLocked r'" using Some by (simp add: Deregister_def r'_def)
  moreover have "rgDurable r' = rgDurable r" "persistSeq r' = persistSeq r" "rgMax r' = rgMax r" by (simp_all add: r'_def)
  ultimately show ?thesis unfolding takes_def by blast
qed

lemma map_of_filter_pairs: "distinct (map fst m) \<Longrightarrow> map_of (filter (\<lambda>(k, v). P k v) m) k = (case map_of m k of None \<Rightarrow> None | Some v \<Rightarrow> if P k v then Some v else None)"
proof (induction m)
  case (Cons kv m)
  have "map_of m (fst kv) = None" using Cons.prems by (simp add: map_of_eq_None_iff)
  then show ?case using Cons by (auto split: option.split)
qed simp

lemma map_of_filter_names: "map_of (filter (\<lambda>(n, i). n \<notin> N) m) k = (if k \<in> N then None else map_of m k)"
  by (induction m) auto

lemma Prune_takes:
  assumes ok: "reg_ok parse r"
  shows "takes parse r (snd (Prune now r))"
proof (cases "filter (\<lambda>(i, p). peExpires p < now) (byID r) = []")
  case True
  then show ?thesis by (simp add: Prune_def takes_def)
next
  case False
  define gone where "gone = filter (\<lambda>(i, p). peExpires p < now) (byID r)"
  define r' where "r' = r\<lparr>byID := filter (\<lambda>(i, p). \<not> peExpires p < now) (byID r),
                 byName := filter (\<lambda>(n, i). n \<notin> (peName \<circ> snd) ` set gone) (byName r)\<rparr>"
  have dist: "distinct (map fst (byID r))" using ok by (simp add: reg_ok_def)
  have "reg_ok parse r'"
  proof (rule sub_reg_ok [OF ok])
    show "distinct (map fst (byID r'))" using dist by (simp add: r'_def distinct_map_filter)
    fix j q
    assume "map_of (byID r') j = Some q"
    then have j: "map_of (byID r) j = Some q" "\<not> peExpires q < now"
      using dist by (auto simp: r'_def map_of_filter_pairs split: option.splits if_splits)
    have "peName q \<notin> (peName \<circ> snd) ` set gone"
    proof
      assume "peName q \<in> (peName \<circ> snd) ` set gone"
      then obtain i p where ip: "(i, p) \<in> set (byID r)" "peExpires p < now" "peName q = peName p" by (auto simp: gone_def)
      then have i: "map_of (byID r) i = Some p" using dist by simp
      have "i = j" using reg_ok_named [OF ok i j(1)] ip(3) by simp
      then have "p = q" using i j(1) by simp
      then show False using j ip by simp
    qed
    then show "map_of (byID r) j = Some q \<and> map_of (byName r') (peName q) = map_of (byName r) (peName q)"
      using j by (simp add: r'_def map_of_filter_names)
  qed (simp add: r'_def)
  moreover have "snd (Prune now r) = snapshotLocked r'" using False by (simp add: Prune_def r'_def gone_def)
  moreover have "rgDurable r' = rgDurable r" "persistSeq r' = persistSeq r" "rgMax r' = rgMax r" by (simp_all add: r'_def)
  ultimately show ?thesis unfolding takes_def by blast
qed

lemma hub_reg_op_takes:
  assumes "reg_ok parse r" "op_ok (now, op)"
  shows "takes parse r (hub_reg_op parse now op r)"
  using assms
  by (cases op) (auto simp: hub_reg_op_def op_ok_def takes_def [of _ _ "(None, r)"]
      intro: RegisterOwned_takes Heartbeat_takes Deregister_takes Prune_takes)

subsection \<open>The file\<close>

lemma snapshotLocked_fields [simp]:
  "rgMax (snd (snapshotLocked r)) = rgMax r" "byID (snd (snapshotLocked r)) = byID r" "byName (snd (snapshotLocked r)) = byName r"
  "rgDurable (snd (snapshotLocked r)) = rgDurable r"
  by (simp_all add: snapshotLocked_def)

lemma reg_ok_seq [simp]: "reg_ok parse (r\<lparr>persistSeq := n\<rparr>) = reg_ok parse r"
  by (simp add: reg_ok_def)

lemma snapshotLocked_ok [simp]: "reg_ok parse (snd (snapshotLocked r)) = reg_ok parse r"
  by (simp add: reg_ok_def)

lemma reg_ok_durable [simp]: "reg_ok parse (r\<lparr>rgDurable := b\<rparr>) = reg_ok parse r"
  by (simp add: reg_ok_def)

lemma time_Sub_bounded:
  "0 < time_Sub a b \<Longrightarrow> time_Sub a b \<le> limit \<Longrightarrow> max_ok limit \<Longrightarrow> 0 < a - b \<and> a - b \<le> limit"
  unfolding time_Sub_def max_ok_def by linarith

lemma clamped_ok:
  assumes "load_record parse now limit seen l = Some p" "max_ok limit"
  shows "peer_ok parse limit p \<and> now < peExpires p \<and> peID p \<notin> set seen"
proof -
  obtain rec where l: "l = Some rec" using assms(1) by (cases l) (auto simp: load_record_def)
  note le = time_Sub_bounded [of "peExpires rec" "peLast rec" limit, OF _ _ assms(2)]
  have "0 < limit" using assms(2) by (simp add: max_ok_def)
  then show ?thesis
    using assms(1) le unfolding l load_record_def by (auto simp: Let_def peer_ok_def split: if_splits)
qed

lemma load_lines_ok:
  "max_ok limit \<Longrightarrow> p \<in> set (load_lines parse now limit seen ls) \<Longrightarrow> peer_ok parse limit p \<and> now < peExpires p"
  by (induction ls arbitrary: seen) (auto split: option.splits dest: clamped_ok)

lemma install_fields [simp]: "rgMax (install r p) = rgMax r" "rgDurable (install r p) = rgDurable r" "persistSeq (install r p) = persistSeq r"
  by (simp_all add: install_def)

lemma install_all_fields [simp]:
  "rgMax (foldl install r ps) = rgMax r" "rgDurable (foldl install r ps) = rgDurable r" "persistSeq (foldl install r ps) = persistSeq r"
  by (induction ps arbitrary: r) auto

lemma install_all_ok: "reg_ok parse r \<Longrightarrow> (\<And>p. p \<in> set ps \<Longrightarrow> peer_ok parse (rgMax r) p) \<Longrightarrow> reg_ok parse (foldl install r ps)"
proof (induction ps arbitrary: r)
  case (Cons p ps)
  have "reg_ok parse (install r p)" unfolding install_def by (rule add_drop_ok) (use Cons.prems in simp_all)
  then show ?case using Cons by simp
qed simp

lemma NewPeerRegistry_ok: "max_ok limit \<Longrightarrow> reg_ok parse (NewPeerRegistry limit)"
  by (simp add: reg_ok_def NewPeerRegistry_def)

text \<open>The registry a hub starts with, and the file once it has.\<close>

lemma restart_cases:
  assumes "NewPeerRegistryWithState parse now limit readable outcome f = (Some r, f')"
  shows "r = (foldl install (NewPeerRegistry limit) (load_lines parse now limit [] (pfLines f)))\<lparr>rgDurable := True, persistSeq := 1\<rparr>"
    "pfWritten f' = 1" "pfLines f' = map Some (map snd (byID r))"
proof -
  define r0 where "r0 = foldl install (NewPeerRegistry limit) (load_lines parse now limit [] (pfLines f))"
  have e: "foldl (\<lambda>r p. add_peer p (drop_named (peName p) r)) (NewPeerRegistry limit) (load_lines parse now limit [] (pfLines f)) = r0"
    unfolding r0_def install_def [abs_def] ..
  have q: "persistSeq r0 = 0" by (simp add: r0_def NewPeerRegistry_def)
  show "r = (foldl install (NewPeerRegistry limit) (load_lines parse now limit [] (pfLines f)))\<lparr>rgDurable := True, persistSeq := 1\<rparr>"
    "pfWritten f' = 1" "pfLines f' = map Some (map snd (byID r))"
    using assms q unfolding NewPeerRegistryWithState_def e r0_def [symmetric]
    by (auto simp: Let_def snapshotLocked_def write_snapshot_def split: if_splits option.splits)
qed

lemma restart_ok:
  assumes "NewPeerRegistryWithState parse now limit readable outcome f = (Some r, f')" "max_ok limit"
  shows "reg_ok parse r \<and> rgDurable r \<and> persistSeq r = 1 \<and> rgMax r = limit"
  using install_all_ok [OF NewPeerRegistry_ok [OF assms(2)], of "load_lines parse now limit [] (pfLines f)" parse] load_lines_ok [OF assms(2)]
  by (auto simp: restart_cases(1) [OF assms(1)] NewPeerRegistry_def)

lemma persist_fields:
  "pfWritten (snd (persist outcome s f)) = pfWritten (snd (write_snapshot outcome s f))"
  "pfLines (snd (persist outcome s f)) = pfLines (snd (write_snapshot outcome s f))"
  by (auto simp: persist_def noteResult_def split: prod.split option.split)

lemma write_snapshot_file:
  "snd (write_snapshot outcome s f) = f \<or> snd (write_snapshot outcome s f) = f\<lparr>pfWritten := fst s, pfLines := map Some (snd s)\<rparr>"
  by (simp add: write_snapshot_def split: option.split)

lemma hub_okD:
  assumes "hub_ok parse h" "hbReg h = Some r"
  shows "reg_ok parse r" "rgDurable r" "map fst (hbTaken h) = [1..<Suc (persistSeq r)]"
    "(persistSeq r, map snd (byID r)) \<in> set (hbTaken h)" "set (hbQueue h) \<subseteq> set (hbTaken h)"
    "\<exists>recs. (pfWritten (hbFile h), recs) \<in> set (hbTaken h) \<and> pfLines (hbFile h) = map Some recs"
  using assms by (auto simp: hub_ok_def)

lemma taken_ok:
  assumes ok: "hub_ok parse h" "hbReg h = Some r" and res: "takes parse r res"
  shows "hub_ok parse (taken res h)"
proof -
  note D = hub_okD [OF ok]
  from res consider "res = (None, r)" | r' where "res = snapshotLocked r'" "reg_ok parse r'" "rgDurable r'" "persistSeq r' = persistSeq r"
    using D(2) by (auto simp: takes_def)
  then show ?thesis
  proof cases
    case 1
    then have "taken res h = h" using ok(2) by (simp add: taken_def)
    then show ?thesis using ok(1) by simp
  next
    case 2
    then have "taken res h = h\<lparr>hbReg := Some (r'\<lparr>persistSeq := Suc (persistSeq r)\<rparr>), hbQueue := hbQueue h @ [(Suc (persistSeq r), map snd (byID r'))],
        hbTaken := hbTaken h @ [(Suc (persistSeq r), map snd (byID r'))]\<rparr>"
      by (simp add: taken_def snapshotLocked_def)
    then show ?thesis using 2 D by (auto simp: hub_ok_def)
  qed
qed

lemma hub_step_ok:
  assumes ok: "hub_ok parse h" and op: "op_ok (now, op)"
  shows "hub_ok parse (hub_step parse h (now, op))"
proof -
  have regular: "hub_ok parse (case hbReg h of None \<Rightarrow> h | Some r \<Rightarrow> taken (hub_reg_op parse now op r) h)"
    using ok taken_ok [OF ok] hub_reg_op_takes [OF hub_okD(1) [OF ok] op] by (simp split: option.split)
  show ?thesis
  proof (cases op)
    case (HWrite k outcome)
    show ?thesis
    proof (cases "k < length (hbQueue h) \<and> (\<exists>r. hbReg h = Some r)")
      case True
      then obtain r where r: "hbReg h = Some r" by auto
      note D = hub_okD [OF ok r]
      have s: "hbQueue h ! k \<in> set (hbTaken h)" using True D(5) nth_mem by blast
      have "set (take k (hbQueue h) @ drop (Suc k) (hbQueue h)) \<subseteq> set (hbTaken h)"
        using D(5) set_take_subset [of k "hbQueue h"] set_drop_subset [of "Suc k" "hbQueue h"] by auto
      moreover have "\<exists>recs. (pfWritten (snd (persist outcome (hbQueue h ! k) (hbFile h))), recs) \<in> set (hbTaken h) \<and>
          pfLines (snd (persist outcome (hbQueue h ! k) (hbFile h))) = map Some recs"
        using write_snapshot_file [of outcome "hbQueue h ! k" "hbFile h"] D(6) s by (cases "hbQueue h ! k") (auto simp: persist_fields)
      ultimately show ?thesis using True HWrite r D by (simp add: hub_step_def hub_ok_def)
    next
      case False
      then show ?thesis using ok HWrite by (auto simp: hub_step_def hub_ok_def split: option.splits)
    qed
  next
    case (HRestart limit readable outcome)
    show ?thesis
    proof (cases "NewPeerRegistryWithState parse now limit readable outcome (hbFile h)")
      case (Pair ro f)
      show ?thesis
      proof (cases ro)
        case None
        then show ?thesis using HRestart Pair by (simp add: hub_step_def hub_restart_def hub_ok_def)
      next
        case (Some r)
        have new: "NewPeerRegistryWithState parse now limit readable outcome (hbFile h) = (Some r, f)" using Pair Some by simp
        have "max_ok limit" using op HRestart by (simp add: op_ok_def)
        note F = restart_ok [OF new this] restart_cases(2,3) [OF new]
        have "hub_step parse h (now, op) = \<lparr>hbReg = Some r, hbQueue = [], hbFile = f, hbTaken = [(persistSeq r, map snd (byID r))]\<rparr>"
          using HRestart new by (simp add: hub_step_def hub_restart_def)
        then show ?thesis using F by (simp add: hub_ok_def)
      qed
    qed
  qed (use regular in \<open>auto simp: hub_step_def split: option.splits\<close>)
qed

lemma hub_run_ok: "hub_ok parse h \<Longrightarrow> list_all op_ok ops \<Longrightarrow> hub_ok parse (foldl (hub_step parse) h ops)"
  by (induction ops arbitrary: h) (auto intro: hub_step_ok)

lemma hub_start_ok: "hub_ok parse hub_start"
  by (simp add: hub_ok_def hub_start_def)

lemma hub_reachable_ok: "list_all op_ok ops \<Longrightarrow> hub_ok parse (foldl (hub_step parse) hub_start ops)"
  using hub_run_ok hub_start_ok by blast

lemma reg_records:
  assumes "reg_ok parse r"
  shows "map fst (byID r) = map peID (map snd (byID r))" "byID r = map (\<lambda>p. (peID p, p)) (map snd (byID r))" "distinct (map peID (map snd (byID r)))"
    "distinct (map peName (map snd (byID r)))" "list_all (peer_ok parse (rgMax r)) (map snd (byID r))"
proof -
  have d: "distinct (map fst (byID r))" using assms by (simp add: reg_ok_def)
  have e: "(i, p) \<in> set (byID r) \<Longrightarrow> map_of (byID r) i = Some p" for i p using d by simp
  have id: "(i, p) \<in> set (byID r) \<Longrightarrow> peID p = i" for i p using peers_okD(1) [OF assms e] .
  show k: "map fst (byID r) = map peID (map snd (byID r))" using id by auto
  show "byID r = map (\<lambda>p. (peID p, p)) (map snd (byID r))" using id by (auto intro!: map_idI [symmetric])
  show "distinct (map peID (map snd (byID r)))" using d k by metis
  show "distinct (map peName (map snd (byID r)))"
  proof -
    have "(i, p) = (j, q)" if "(i, p) \<in> set (byID r)" "(j, q) \<in> set (byID r)" "peName p = peName q" for i p j q
      using reg_ok_named [OF assms e [OF that(1)] e [OF that(2)] that(3)] e [OF that(1)] e [OF that(2)] by simp
    then have "inj_on (peName \<circ> snd) (set (byID r))" by (auto simp: inj_on_def)
    then show ?thesis using d distinct_map [of fst "byID r"] by (simp add: distinct_map)
  qed
  show "list_all (peer_ok parse (rgMax r)) (map snd (byID r))" using peers_okD(3) [OF assms e] by (auto simp: list_all_iff)
qed

lemma file_current:
  assumes "hub_ok parse h" "hbReg h = Some r" "pfWritten (hbFile h) = persistSeq r"
  shows "pfLines (hbFile h) = map Some (map snd (byID r))"
proof -
  note D = hub_okD [OF assms(1,2)]
  have d: "distinct (map fst (hbTaken h))" unfolding D(3) by simp
  obtain recs where recs: "(pfWritten (hbFile h), recs) \<in> set (hbTaken h)" "pfLines (hbFile h) = map Some recs" using D(6) by blast
  have "recs = map snd (byID r)" using eq_key_imp_eq_value [OF d recs(1) [unfolded assms(3)] D(4)] .
  then show ?thesis using recs(2) by simp
qed

text \<open>
  The state file never describes a fleet that was not: after any operations, writes that land out of order or fail, and restarts,
  it holds the records of one snapshot taken since the hub started, each snapshot has its own number, and when the number of the
  file is the last one given out, the file holds the registry as it is.
\<close>

theorem peer_file_exact:
  assumes "list_all op_ok ops" "hbReg (foldl (hub_step parse) hub_start ops) = Some r"
  shows "let h = foldl (hub_step parse) hub_start ops in
     (\<exists>recs. (pfWritten (hbFile h), recs) \<in> set (hbTaken h) \<and> pfLines (hbFile h) = map Some recs) \<and>
     distinct (map fst (hbTaken h)) \<and>
     (pfWritten (hbFile h) = persistSeq r \<longrightarrow> pfLines (hbFile h) = map Some (map snd (byID r)))"
proof -
  note D = hub_okD [OF hub_reachable_ok [OF assms(1)] assms(2)]
  have d: "distinct (map fst (hbTaken (foldl (hub_step parse) hub_start ops)))" unfolding D(3) by simp
  show ?thesis unfolding Let_def using D(6) d file_current [OF hub_reachable_ok [OF assms(1)] assms(2)] by blast
qed

text \<open>
  A peer that falls silent leaves the fleet: after any operations and restarts, a listing that follows a prune names only peers
  that were heard within the longest lease the running hub allows, whatever the leases were that an earlier hub granted; and no
  two of them have one name.
\<close>

theorem silent_peer_gone:
  assumes "list_all op_ok ops" "hbReg (foldl (hub_step parse) hub_start ops) = Some r"
  shows "let ps = List_peers want (snd (snd (Prune now r))) in
     list_all (\<lambda>p. now \<le> peExpires p \<and> now \<le> peLast p + rgMax r) ps \<and> distinct (map peName ps)"
proof -
  have ok: "reg_ok parse r" using hub_okD(1) [OF hub_reachable_ok [OF assms(1)] assms(2)] .
  define r' where "r' = snd (snd (Prune now r))"
  have ok': "reg_ok parse r' \<and> rgMax r' = rgMax r" using Prune_takes [OF ok, of now] ok by (auto simp: takes_def r'_def)
  have live: "(i, p) \<in> set (byID r') \<Longrightarrow> now \<le> peExpires p" for i p
    by (auto simp: r'_def Prune_def Let_def filter_empty_conv split: if_splits)
  have dist: "distinct (map fst (byID r'))" using ok' by (simp add: reg_ok_def)
  have "distinct (map peName (map snd (byID r')))" using reg_records(4) ok' by blast
  then have nd: "distinct (map peName (List_peers want r'))"
    by (auto simp: List_peers_def distinct_map inj_on_def)
  have "now \<le> peExpires p \<and> now \<le> peLast p + rgMax r" if "p \<in> set (List_peers want r')" for p
  proof -
    obtain i where i: "(i, p) \<in> set (byID r')" using \<open>p \<in> _\<close> by (auto simp: List_peers_def)
    then have "peer_ok parse (rgMax r') p" using peers_okD(3) [of parse r' i p] ok' dist by simp
    then show ?thesis using live [OF i] ok' by (simp add: peer_ok_def)
  qed
  then show ?thesis using nd by (auto simp: r'_def [symmetric] list_all_iff)
qed

subsection \<open>Across a restart\<close>

lemma load_record_kept:
  assumes "peer_ok parse limit0 p" "max_ok limit0" "max_ok limit" "peID p \<notin> set seen"
  shows "load_record parse now limit seen (Some p) = (if now < peExpires (clamp limit p) then Some (clamp limit p) else None)"
proof -
  have "time_Sub (peExpires p) (peLast p) = peExpires p - peLast p" using assms(1,2) by (auto simp: peer_ok_def intro!: time_Sub_lease)
  then show ?thesis using assms by (auto simp: load_record_def clamp_def peer_ok_def Let_def)
qed

lemma clamp_fields [simp]: "peID (clamp limit p) = peID p" "peName (clamp limit p) = peName p" "peOwner (clamp limit p) = peOwner p"
  by (simp_all add: clamp_def)

lemma load_lines_kept:
  assumes "max_ok limit0" "max_ok limit" "list_all (peer_ok parse limit0) ps" "distinct (map peID ps)" "set (map peID ps) \<inter> set seen = {}"
  shows "load_lines parse now limit seen (map Some ps) = filter (\<lambda>p. now < peExpires p) (map (clamp limit) ps)"
  using assms(3-5)
proof (induction ps arbitrary: seen)
  case (Cons p ps)
  have "load_lines parse now limit (peID p # seen) (map Some ps) = filter (\<lambda>p. now < peExpires p) (map (clamp limit) ps)"
    "load_lines parse now limit seen (map Some ps) = filter (\<lambda>p. now < peExpires p) (map (clamp limit) ps)"
    using Cons by auto
  then show ?case using Cons.prems load_record_kept [OF _ assms(1,2), of parse p seen now] by simp
qed simp

lemma install_distinct:
  assumes "distinct (map peID ps)" "distinct (map peName ps)"
  shows "map_of (byID (foldl install (NewPeerRegistry limit) ps)) = map_of (map (\<lambda>p. (peID p, p)) ps) \<and>
    map_of (byName (foldl install (NewPeerRegistry limit) ps)) = map_of (map (\<lambda>p. (peName p, peID p)) ps)"
  using assms
proof (induction ps rule: rev_induct)
  case Nil
  then show ?case by (simp add: NewPeerRegistry_def)
next
  case (snoc p ps)
  define r where "r = foldl install (NewPeerRegistry limit) ps"
  have IH: "map_of (byID r) = map_of (map (\<lambda>p. (peID p, p)) ps)" "map_of (byName r) = map_of (map (\<lambda>p. (peName p, peID p)) ps)"
    using snoc by (simp_all add: r_def)
  have n: "map_of (byName r) (peName p) = None" using snoc.prems by (auto simp: IH map_of_eq_None_iff)
  have none: "map_of (map (\<lambda>p. (peID p, p)) ps) (peID p) = None" "map_of (map (\<lambda>p. (peName p, peID p)) ps) (peName p) = None"
    using snoc.prems by (auto simp: map_of_eq_None_iff)
  have "install r p = r\<lparr>byID := AList.update (peID p) p (byID r), byName := AList.update (peName p) (peID p) (byName r)\<rparr>"
    using n by (simp add: install_def drop_named_def add_peer_def)
  then show ?case
    using none by (auto simp: r_def [symmetric] update_conv' IH fun_eq_iff map_add_def split: option.split)
qed

lemma map_of_filter_clamp:
  assumes "distinct (map peID ps)"
  shows "map_of (map (\<lambda>p. (peID p, p)) (filter (\<lambda>p. now < peExpires p) (map (clamp limit) ps))) i =
    (case map_of (map (\<lambda>p. (peID p, p)) ps) i of None \<Rightarrow> None | Some p \<Rightarrow> if now < peExpires (clamp limit p) then Some (clamp limit p) else None)"
  using assms
proof (induction ps)
  case (Cons p ps)
  have "map_of (map (\<lambda>p. (peID p, p)) ps) (peID p) = None" using Cons.prems by (auto simp: map_of_eq_None_iff)
  then show ?case using Cons by (auto split: option.split)
qed simp

lemma distinct_clamped:
  assumes "distinct (map f ps)" "\<And>p. f (clamp limit p) = f p"
  shows "distinct (map f (filter P (map (clamp limit) ps)))"
proof -
  have "map f (map (clamp limit) ps) = map f ps" using assms(2) by simp
  then show ?thesis using assms(1) distinct_map_filter by metis
qed

text \<open>
  A restart keeps the fleet: when the file is up to date, the hub that starts on it has exactly the peers whose leases, cut to the
  longest it allows, are still running, under the same identifiers, with the same names, endpoints, labels and owners, so that
  the same callers may drop them; and it starts whenever the file can be read and written.
\<close>

theorem fleet_survives_restart:
  assumes "list_all op_ok ops" "hbReg (foldl (hub_step parse) hub_start ops) = Some r"
    "pfWritten (hbFile (foldl (hub_step parse) hub_start ops)) = persistSeq r" "max_ok limit"
  shows "\<exists>r'. hbReg (hub_step parse (foldl (hub_step parse) hub_start ops) (now, HRestart limit True None)) = Some r' \<and>
     (\<forall>i. map_of (byID r') i =
        (case map_of (byID r) i of None \<Rightarrow> None | Some p \<Rightarrow> if now < peExpires (clamp limit p) then Some (clamp limit p) else None))"
proof -
  define h where "h = foldl (hub_step parse) hub_start ops"
  note D = hub_okD [OF hub_reachable_ok [OF assms(1)] assms(2)]
  have ls: "pfLines (hbFile h) = map Some (map snd (byID r))"
    unfolding h_def by (rule file_current [OF hub_reachable_ok [OF assms(1)] assms(2,3)])
  define ps where "ps = map snd (byID r)"
  note P = reg_records [OF D(1), folded ps_def]
  have mx: "max_ok (rgMax r)" using D(1) by (simp add: reg_ok_def)
  define qs where "qs = filter (\<lambda>p. now < peExpires p) (map (clamp limit) ps)"
  have load: "load_lines parse now limit [] (pfLines (hbFile h)) = qs"
    unfolding ls ps_def [symmetric] qs_def using load_lines_kept [OF mx assms(4) P(5) P(3), of "[]"] by simp
  obtain r' f where new: "NewPeerRegistryWithState parse now limit True None (hbFile h) = (Some r', f)"
    by (auto simp: NewPeerRegistryWithState_def Let_def snapshotLocked_def write_snapshot_def install_def [symmetric] NewPeerRegistry_def)
  have "distinct (map peID qs)" "distinct (map peName qs)"
    unfolding qs_def using distinct_clamped [OF P(3)] distinct_clamped [OF P(4)] by simp_all
  then have "map_of (byID r') = map_of (map (\<lambda>p. (peID p, p)) qs)"
    using install_distinct [of qs limit] by (simp add: restart_cases(1) [OF new] load)
  then have "map_of (byID r') i =
        (case map_of (byID r) i of None \<Rightarrow> None | Some p \<Rightarrow> if now < peExpires (clamp limit p) then Some (clamp limit p) else None)" for i
    using map_of_filter_clamp [OF P(3), of now limit i] P(2) by (simp add: qs_def)
  moreover have "hbReg (hub_step parse h (now, HRestart limit True None)) = Some r'" using new by (simp add: hub_step_def hub_restart_def)
  ultimately show ?thesis unfolding h_def by blast
qed

subsection \<open>Rights\<close>

lemma snapshot_byID [simp]: "snapshotLocked r = (s, r') \<Longrightarrow> byID r' = byID r"
  by (auto simp: snapshotLocked_def split: if_splits)

lemma RegisterOwned_removes:
  assumes "RegisterOwned parse mint now req owner r = (res, s, r')" "map_of (byID r) i = Some p" "map_of (byID r') i = None"
  shows "map_of (byName r) (rgName req) = Some i"
  using assms by (auto simp: RegisterOwned_def Let_def add_peer_def drop_named_def split: if_splits option.splits)

lemma Heartbeat_removes: "Heartbeat now j r = (res, s, r') \<Longrightarrow> map_of (byID r) i = Some p \<Longrightarrow> map_of (byID r') i \<noteq> None"
  by (auto simp: Heartbeat_def Let_def split: option.splits if_splits)

lemma Deregister_removes: "Deregister j r = (s, r') \<Longrightarrow> map_of (byID r) i = Some p \<Longrightarrow> map_of (byID r') i = None \<Longrightarrow> i = j"
  by (auto simp: Deregister_def split: option.splits if_splits)

text \<open>
  A registration is dropped by a request only when its owner or an admin deletes it, or when a caller that is let in registers
  under its name; and a listing shows the identifier of a registration, which is what dropping it takes, only to a caller that
  may drop it.
\<close>

theorem peer_rights:
  assumes "handle_peers parse auth anon mint now rq r = (reply, s, r')"
  shows "(\<forall>i p. map_of (byID r) i = Some p \<and> map_of (byID r') i = None \<longrightarrow>
       (\<exists>c. rq = DeletePeer c i \<and> caller_ok auth anon c \<and> canManage c p) \<or>
       (\<exists>c req. rq = PostPeer c (Some req) \<and> caller_ok auth anon c \<and> map_of (byName r) (rgName req) = Some i)) \<and>
     (\<forall>ps q. reply = PeersListed ps \<and> q \<in> set ps \<and> peID q \<noteq> [] \<longrightarrow>
       (\<exists>c labels p. rq = GetPeers c labels \<and> caller_ok auth anon c \<and> p \<in> snd ` set (byID r) \<and> canManage c p \<and> q = wire p))"
proof (cases rq)
  case (PostPeer c body)
  then show ?thesis
    using assms by (auto simp: handle_peers_def split: if_splits option.splits prod.splits sum.splits peer_error.splits dest: RegisterOwned_removes)
next
  case (GetPeers c labels)
  have shown: "caller_ok auth anon c \<and> (\<exists>p. p \<in> snd ` set (byID r) \<and> canManage c p \<and> q = wire p)"
    if l: "reply = PeersListed ps" "q \<in> set ps" "peID q \<noteq> []" for ps q
  proof -
    have ok: "caller_ok auth anon c" and "ps = map (\<lambda>p. wire (if canManage c p then p else p\<lparr>peID := []\<rparr>)) (List_peers (parseLabelFilters labels) r)"
      using assms GetPeers l(1) by (auto simp: handle_peers_def split: if_splits)
    then obtain p where p: "p \<in> set (List_peers (parseLabelFilters labels) r)" "q = wire (if canManage c p then p else p\<lparr>peID := []\<rparr>)"
      using l(2) by auto
    have "p \<in> snd ` set (byID r)" using p(1) by (auto simp: List_peers_def)
    moreover have "canManage c p \<and> q = wire p" using p(2) l(3) by (auto simp: wire_def split: if_splits)
    ultimately show ?thesis using ok by blast
  qed
  have "r' = r" using assms GetPeers by (auto simp: handle_peers_def split: if_splits)
  then show ?thesis using shown GetPeers by auto
next
  case (PostBeat j)
  then show ?thesis
    using assms by (auto simp: handle_peers_def split: prod.splits sum.splits dest: Heartbeat_removes)
next
  case (DeletePeer c j)
  then show ?thesis
    using assms by (auto simp: handle_peers_def split: if_splits option.splits dest: Deregister_removes)
qed

text \<open>
  Owning a registration does not keep its name: any caller that is let in takes the name over by registering under it, and the
  owner's registration is gone.
\<close>

theorem peer_name_taken_over:
  assumes "reg_ok parse r" "map_of (byID r) i = Some p" "rgName req = peName p" "validatePeerEndpoint parse (rgEndpoint req)"
    "rgEndpoint req \<noteq> []" "caller_ok auth anon c" "j \<noteq> i"
  shows "let r' = snd (snd (handle_peers parse auth anon (Some j) now (PostPeer c (Some req)) r)) in
     map_of (byID r') i = None \<and> map_option peOwner (map_of (byID r') j) = Some (crIdentity c) \<and> map_of (byName r') (peName p) = Some j"
proof -
  define q where "q = new_peer j now (rgMax r) req (crIdentity c)"
  have q: "peID q = j" "peName q = peName p" "peOwner q = crIdentity c" using assms(3) by (simp_all add: q_def new_peer_def)
  have D: "map_of (byName r) (peName p) = Some i" "peName p \<noteq> []" using peers_okD [OF assms(1,2)] by (simp_all add: peer_ok_def)
  have "snd (handle_peers parse auth anon (Some j) now (PostPeer c (Some req)) r) = snapshotLocked (add_peer q (drop_named (peName p) r))"
    using assms(3-6) D(2) by (simp add: handle_peers_def RegisterOwned_def q_def Let_def)
  then show ?thesis using D q assms(7) by (simp add: drop_named_def add_peer_def)
qed

text \<open>
  A daemon that lost its registration and registered again does not leave the fleet when it is cancelled: the cancel function
  drops the registration it began with, and the one it holds stays.
\<close>

theorem cancel_leaves_registration:
  assumes "RegisterOwned parse (Some j) now req owner r = (Inr p, s, r')" "map_of (byID r) (peID p0) = None" "peID p0 \<noteq> j"
  shows "let c = heartbeat_round now None (Some p) (client_start p0) in
     pcCurrent c = j \<and> map_of (byID (snd (Deregister (cancel_drops c) r'))) j = Some p"
proof -
  have p: "peID p = j" "snapshotLocked (add_peer p (drop_named (rgName req) r)) = (s, r')"
    using assms(1) by (auto simp: RegisterOwned_def Let_def new_peer_def split: if_splits)
  have gone: "map_of (byID r') (peID p0) = None"
    using assms(2,3) p by (auto simp: snapshot_byID [OF p(2)] add_peer_def drop_named_def split: option.split)
  have "map_of (byID r') j = Some p" using p by (simp add: snapshot_byID [OF p(2)] add_peer_def)
  then show ?thesis using gone p(1) by (simp add: heartbeat_round_def client_start_def cancel_drops_def Deregister_def)
qed

subsection \<open>Witnesses\<close>

lemma demo_hub_run: "hbReg (foldl (hub_step demo_parse) hub_start demo_ops) = Some demo_reg"
  "pfWritten (hbFile (foldl (hub_step demo_parse) hub_start demo_ops)) = persistSeq demo_reg"
  by code_simp+

lemma demo_ops_ok: "list_all op_ok demo_ops"
  by (simp add: demo_ops_def op_ok_def max_ok_def second_def defaultMaxTTL_def)

lemma peer_file_exact_witness:
  "pfLines (hbFile (foldl (hub_step demo_parse) hub_start demo_ops)) = map Some (map snd (byID demo_reg))"
  using peer_file_exact [OF demo_ops_ok demo_hub_run(1)] demo_hub_run(2) by (simp only: Let_def)

lemma silent_peer_gone_witness:
  "list_all (\<lambda>p. 33000000000 \<le> peLast p + 300000000000) (List_peers [] (snd (snd (Prune 33000000000 demo_reg))))"
  using silent_peer_gone [OF demo_ops_ok demo_hub_run(1), of "[]" 33000000000] by (simp add: Let_def list_all_iff demo_reg_def)

lemma fleet_survives_restart_witness:
  "\<exists>r'. hbReg (hub_step demo_parse (foldl (hub_step demo_parse) hub_start demo_ops) (32500000000, HRestart second True None)) = Some r' \<and> map_of (byID r') ''reg-1'' = None"
proof -
  have "max_ok second" by (simp add: max_ok_def second_def)
  from fleet_survives_restart [OF demo_ops_ok demo_hub_run this, of 32500000000] show ?thesis
    by (auto simp: demo_reg_def clamp_def second_def)
qed

lemma peer_rights_witness:
  "canManage \<lparr>crIdentity = ''ann'', crLabels = [], crAdmin = False\<rparr> (snd (hd (byID demo_reg)))"
proof -
  have "handle_peers demo_parse True ''anon'' None 5 (DeletePeer \<lparr>crIdentity = ''ann'', crLabels = [], crAdmin = False\<rparr> ''reg-1'') demo_reg =
      (PeerGone, fst (Deregister ''reg-1'' demo_reg), snd (Deregister ''reg-1'' demo_reg))"
    by (simp add: handle_peers_def caller_ok_def canManage_def demo_reg_def)
  note R = peer_rights [OF this]
  have "map_of (byID demo_reg) ''reg-1'' = Some (snd (hd (byID demo_reg)))" "map_of (byID (snd (Deregister ''reg-1'' demo_reg))) ''reg-1'' = None"
    by (simp_all add: demo_reg_def Deregister_def)
  then show ?thesis using R by blast
qed

end
