(* ===== verification/Spec2Isabelle.thy ===== *)
theory Spec2Isabelle
  imports Precall Turn_Loop Effects Write_Gate Lease Fan_Out Model_Retry Pause_Timer Monitor_Cycle Schedule Drain Auto_Resume Inject_Server Session_Registry Fan_Branches Digest A2A_Tasks AGUI_Runs Peers
begin

text \<open>
  \<^bold>\<open>Verification of mast.\<close> mast (\<^verbatim>\<open>src/\<close>) runs language-model agents as unattended workloads: a daemon keeps
  sessions, runs their turns, and stands between the model and everything that costs money or changes the
  world. This development models the parts that decide what may happen, and proves that they decide it right.

  \<^bold>\<open>The program and its parts.\<close> A turn of a session goes through the parts in this order.

  \<^item> A request comes in through the daemon's endpoint (\<^verbatim>\<open>internal/inject/server.go\<close>) or an attach listener
    (\<^verbatim>\<open>internal/attach\<close>), which establish the caller and their rights (\<^verbatim>\<open>internal/auth\<close>); or the scheduler of the
    daemon wakes it (\<^verbatim>\<open>internal/cli/schedtrigger.go\<close>), or the pass at boot continues a session that was cut off
    (\<^verbatim>\<open>internal/cli/autoresume.go\<close>).
  \<^item> A daemon takes the lease of its session and of the fleet (\<^verbatim>\<open>internal/eventlog/lock.go\<close>,
    \<^verbatim>\<open>internal/cli/schedlease.go\<close>) and restores the session's meter from the ledger
    (\<^verbatim>\<open>internal/cli/meterpool.go\<close>, \<^verbatim>\<open>internal/eventlog/spend.go\<close>, \<^verbatim>\<open>guardrail.go\<close>).
  \<^item> Before every model call a callback asks the meter and the turn loop guard
    (\<^verbatim>\<open>internal/agent/precall.go\<close>, \<^verbatim>\<open>pkg/budget\<close>, \<^verbatim>\<open>internal/watchdog/turnloop.go\<close>); the call itself is made
    under the retry policy (\<^verbatim>\<open>internal/modelretry/retry.go\<close>); its usage is metered and its tool calls feed the
    watchdog (\<^verbatim>\<open>internal/watchdog\<close>).
  \<^item> Before every tool call the effects outbox refuses to repeat or to pile up mutations of unknown outcome
    (\<^verbatim>\<open>internal/effects\<close>), the write gate puts mutations to an operator (\<^verbatim>\<open>pkg/approval\<close>), and the permission
    gate applies rules, modes and standing grants (\<^verbatim>\<open>internal/permissions\<close>).
  \<^item> A parked session waits with a resume token (\<^verbatim>\<open>internal/transcript\<close>), which an operator or a timer spends
    (\<^verbatim>\<open>internal/cli/pausesched.go\<close>); attached clients follow the event log
    (\<^verbatim>\<open>internal/attach/broadcaster.go\<close>); a monitoring cycle reads what changed
    (\<^verbatim>\<open>internal/monitor/transitions.go\<close>). A daemon that stops drains its turns and marks those it cuts off
    (\<^verbatim>\<open>internal/cli/shutdown.go\<close>).

  \<^bold>\<open>Theories.\<close>

  \<^descr>[Mast\_Prelude, Go\_Strings, Go\_Paths, Go\_Float] how Go's integers, times, maps, slices, strings, paths,
    regular expressions and float64 are read, with the lemma collections the component proofs draw on.
  \<^descr>[Interfaces] the contracts between components as locales: \<open>call_cap\<close>, \<open>append_log\<close>, \<open>tool_signal\<close>,
    \<open>growing\<close>, \<open>kept\<close>, each interpreted in the theory of its providers.
  \<^descr>[Budget, Ledger, Meter\_Pool, Precall] the spend meter with its ceilings, the two durable tables, the pool
    that folds them back after a restart and replays grants, and the gate in front of the model. A guarded loop
    stays within its ceilings whatever events occur; a restarted daemon counts exactly what all its predecessors
    spent; every reachable meter is well formed.
  \<^descr>[Watchdog, Turn\_Loop] the detectors of repeated, cyclic, failing and dominating calls, the halt they latch,
    and the caps of one invocation. The cycle detector on its bounded history answers as on the full one; the model
    calls let through are exactly those up to the cap.
  \<^descr>[Effects] the scan for dangling calls, acknowledgement, replay. The scan reports exactly the unresolved calls,
    nothing mutates while one is ambiguous, and a completed effect is answered from the record.
  \<^descr>[Permissions] rules, modes, scopes, shell commands, prompts and session grants of every gate of a daemon.
    A deny rule survives every sequence of operations on the checks that consult it; what passes unprompted has one
    of the listed standing permissions; control-plane files need the operator.
  \<^descr>[Approval, Write\_Gate] parking, verdicts, edits, change sets and their grants, captures, refusals. Under
    \<^verbatim>\<open>require_approval\<close> a mutation runs only confirmed or on an unspent grant, which one call uses; what was
    captured is what runs; a refusal holds for the turn.
  \<^descr>[Lease] SQL statements as atomic steps that interleave and may fail. At most one acquisition is in the row, a
    lost lease stays lost, and the boot loop of a daemon ends.
  \<^descr>[Broadcaster, Fan\_Out] the pump, the replays and the clients as steps. No channel is used after it was closed,
    streams are in order, catch-up is complete for a subscriber that does not start behind a running pump.
  \<^descr>[Model\_Retry] calls of a process on one shared policy. A call is answered once, retries are spaced by the
    cooldown, a call returns after at most one sequence more than the schedule has waits.
  \<^descr>[Session\_Store, Pause\_Tokens, Pause\_Timer] markers and pause records of the session store, tokens, timers.
    A token is spent once, a gate stays until its token is spent or the session aborted, an abort is final, no timed
    pause is lost by the scheduler.
  \<^descr>[Monitor] the reader of transition records. What a producer writes is read back, and a stream cut anywhere is
    refused or read with every transition.
  \<^descr>[Monitor\_Cycle] the cycle of a monitor: what the tool's answer changes of the state, when the model is woken and
    when a digest is due. The model is woken exactly for the listed reasons, silence is bounded by the digest, and the
    phase survives a restart.
  \<^descr>[Schedule] the cadence of a scheduled workload over its persisted state. Every point of the cadence is run,
    accounted as skipped or still to come.
  \<^descr>[Drain] turns, the freeze and the markers of a daemon that stops. A turn that is cut off has a marker, one that
    finished has none.
  \<^descr>[Auto\_Resume] the pass at boot with the store operations of other requests in between. A session is continued only
    over exactly the history that was scanned, with every unanswered call read-only; a session whose turns fail is
    retried at a bounded rate.
  \<^descr>[Access] callers, the table of users, tokens and the matrix of actions. A token names one user, and the matrix is
    what the authorizer decides.
  \<^descr>[Inject\_Server] routes, credentials and statuses of the daemon's endpoint. No handler is called without a
    credential, and an approval is recorded under the credential that gave it.
  \<^descr>[Session\_Registry] live sessions, stored access lists, and the middleware and handlers over them. A session is
    reached by a role that permits it, rights outlive the process, and a stranger's request starts nothing.

  \<^bold>\<open>How state and operations correspond.\<close> A struct is a record whose fields carry a prefix, a tagged value a
  datatype, an operation a function from the state to the state and its answer. A mutex is the atomicity of a
  function; where goroutines or processes run concurrently, each critical section, query or statement is a step of
  an inductive relation and the theorems quantify over all interleavings. An error is a value of a sum or option
  type, and a dereference of nil or a send on a closed channel is a value too, so that it can be proved not to happen.
  What comes from outside the repository, the database's answers, the clock, JSON, SHA-256, the model's and the
  operator's answers, random bytes, is an argument; hypotheses on it are in the statement of the theorem.

  \<^bold>\<open>Bounds and fuel.\<close> Recursion is structural or has a measure on the text or list that is left; no definition has
  fuel. Integers that the code adds wrap at 64 bits; counters that would take 2 to the 63 steps to wrap are bounded by
  a hypothesis where a theorem needs it. The float64 model has an unbounded exponent.

  \<^bold>\<open>Findings.\<close> Some theorems state what the code does against its comments: a file write that ignores a deny rule,
  an apply policy that does, a fresh lease that is stolen, a late subscriber that loses events, two resumes that
  overlap, a cleared timer that fires, an approved call that auto-resume lets run again, two amendments of an access list
  that leave memory and table apart, a listener token that locks every user out.

  \<^bold>\<open>Not modelled.\<close> The handlers of attach that stream or read a session's state, the A2A and AG-UI servers and the notification
  client, which translate requests to the operations above; agent, planner and MCP construction, which wires a third-party agent framework;
  the evaluation harness, examples, developer tools and test programs; logging, metrics and the texts of errors.
\<close>

end
